(* ===== verification/Obase_Prelude.thy ===== *)
theory Obase_Prelude
  imports Complex_Main "HOL-Library.AList" "HOL-Library.List_Lexorder" "HOL-Library.Char_ord"
begin

text \<open>
  Shared vocabulary of the development: Python dictionaries as insertion ordered
  association lists, Python values that cross a JSON boundary, the string operations the
  sources use, and the lemma collections the component theories rely on.
\<close>

named_theorems dict_simps "lookups in updated dictionaries"

type_synonym ('k, 'v) dict = "('k \<times> 'v) list"

text \<open>
  \<open>d[k] = v\<close> keeps the position of an existing key and appends a new one;
  \<open>d.pop(k)\<close> drops the key; \<open>d.update(u)\<close> assigns the pairs of \<open>u\<close> in order.
\<close>

abbreviation dict_get :: "('k, 'v) dict \<Rightarrow> 'k \<Rightarrow> 'v option" where
  "dict_get d k \<equiv> map_of d k"

abbreviation dict_set :: "'k \<Rightarrow> 'v \<Rightarrow> ('k, 'v) dict \<Rightarrow> ('k, 'v) dict" where
  "dict_set \<equiv> AList.update"

abbreviation dict_pop :: "'k \<Rightarrow> ('k, 'v) dict \<Rightarrow> ('k, 'v) dict" where
  "dict_pop \<equiv> AList.delete"

definition dict_update :: "('k, 'v) dict \<Rightarrow> ('k, 'v) dict \<Rightarrow> ('k, 'v) dict" where
  "dict_update d u = fold (\<lambda>(k, v). dict_set k v) u d"

lemma dict_set_new: "k \<notin> fst ` set d \<Longrightarrow> dict_set k v d = d @ [(k, v)]"
  by (induction d) auto

lemma dict_set_length: "length (dict_set k v d) = (if k \<in> fst ` set d then length d else Suc (length d))"
  by (induction d) auto

lemma dict_update_get: "dict_get (dict_update d u) k = (case dict_get (rev u) k of None \<Rightarrow> dict_get d k | Some v \<Rightarrow> Some v)"
proof (induction u arbitrary: d)
  case (Cons p u)
  obtain j v where p: "p = (j, v)" by force
  show ?case using Cons [of "dict_set j v d"]
    by (auto simp: dict_update_def p update_conv' map_add_def split: option.split)
qed (simp add: dict_update_def)

lemma dict_update_get_distinct:
  assumes "distinct (map fst u)"
  shows "dict_get (dict_update d u) k = (case dict_get u k of None \<Rightarrow> dict_get d k | Some v \<Rightarrow> Some v)"
proof -
  have "dict_get (rev u) = dict_get u" using assms by (intro map_of_inject_set [THEN iffD2]) (simp_all add: rev_map [symmetric])
  then show ?thesis by (simp add: dict_update_get)
qed

text \<open>The slice \<open>xs[:n]\<close>: a negative bound counts from the end.\<close>

definition slice_to :: "int \<Rightarrow> 'a list \<Rightarrow> 'a list" where
  "slice_to n xs = (if 0 \<le> n then take (nat n) xs else take (length xs - nat (- n)) xs)"

text \<open>\<^verbatim>\<open>str(n)\<close> of an integer: decimal digits with a leading minus sign.\<close>

fun str_nat :: "nat \<Rightarrow> string" where
  "str_nat n = (if n < 10 then [char_of (48 + n)]
     else str_nat (n div 10) @ [char_of (48 + n mod 10)])"

declare str_nat.simps [simp del]

definition str_int :: "int \<Rightarrow> string" where
  "str_int i = (if i < 0 then ''-'' @ str_nat (nat (- i)) else str_nat (nat i))"

lemma in_remove1: "x \<in> set (remove1 y xs) \<Longrightarrow> x \<in> set xs"
  using notin_set_remove1 by fast

end
