(* ===== verification/Workflow.thy ===== *)
theory Workflow
  imports Obase_Prelude
begin

text \<open>
  The DAG workflow engine of \<^verbatim>\<open>obase/workflow_engine.py\<close>: three-colour cycle
  detection, the layered topological sort and the layer-by-layer executor. Graphs are the
  edge lists the code takes; a \<^verbatim>\<open>defaultdict\<close> lookup that misses reads \<open>[]\<close>.
\<close>

section \<open>Cycle detection\<close>

datatype colour = White | Gray | Black

datatype 'n cycle_error = Cycle_involving 'n | Not_all_processed

text \<open>\<open>adj[src]\<close> after the loop that fills the adjacency lists in edge order.\<close>

definition adj :: "('n \<times> 'n) list \<Rightarrow> 'n \<Rightarrow> 'n list" where
  "adj E s = map snd (filter (\<lambda>e. fst e = s) E)"

lemma set_adj [simp]: "set (adj E s) = {d. (s, d) \<in> set E}"
  by (force simp: adj_def)

text \<open>
  \<open>dfs_nexts\<close> is the body of the inner loop of \<open>dfs\<close> over a list of successors: a gray
  successor raises, a white one is visited (gray, its own successors, black), a black one is
  skipped. \<open>color.get(n, WHITE)\<close> is a total map that is white outside the recorded nodes.
\<close>

function dfs_nexts :: "('n \<times> 'n) list \<Rightarrow> 'n list \<Rightarrow> ('n \<Rightarrow> colour) \<Rightarrow>
    'n cycle_error + ('n \<Rightarrow> colour)" where
  "dfs_nexts E [] c = Inr c"
| "dfs_nexts E (x # xs) c =
     (case c x of
        Gray \<Rightarrow> Inl (Cycle_involving x)
      | Black \<Rightarrow> dfs_nexts E xs c
      | White \<Rightarrow>
          (case dfs_nexts E (adj E x) (c(x := Gray)) of
             Inl e \<Rightarrow> Inl e
           | Inr c' \<Rightarrow> dfs_nexts E xs (c'(x := Black))))"
  by pat_completeness auto

text \<open>Visiting never whitens a node: the fact the termination order needs.\<close>

lemma dfs_nexts_white_partial:
  assumes "dfs_nexts_dom (E, xs, c)" and "dfs_nexts E xs c = Inr c'" and "c' n = White"
  shows "c n = White"
  using assms
proof (induction arbitrary: c' rule: dfs_nexts.pinduct)
  case (1 E c)
  then show ?case by (simp add: dfs_nexts.psimps)
next
  case (2 E x xs c)
  show ?case
  proof (cases "c x")
    case White
    with 2 obtain c1 where c1: "dfs_nexts E (adj E x) (c(x := Gray)) = Inr c1"
      and rest: "dfs_nexts E xs (c1(x := Black)) = Inr c'"
      by (auto simp: dfs_nexts.psimps split: sum.splits)
    from "2.IH"(2) [OF White c1 rest] 2 have "(c1(x := Black)) n = White" by simp
    then have "n \<noteq> x" "c1 n = White" by (auto split: if_splits)
    with "2.IH"(1) [OF White c1] show ?thesis by simp
  qed (use 2 in \<open>auto simp: dfs_nexts.psimps\<close>)
qed

definition white_left :: "('n \<times> 'n) list \<Rightarrow> 'n list \<Rightarrow> ('n \<Rightarrow> colour) \<Rightarrow> 'n set" where
  "white_left E xs c = {n \<in> set xs \<union> snd ` set E. c n = White}"

lemma finite_white_left [simp]: "finite (white_left E xs c)"
  by (simp add: white_left_def)

termination dfs_nexts
proof (relation "inv_image (finite_psubset <*lex*> less_than)
    (\<lambda>(E, xs, c). (white_left E xs c, length xs))")
  show "wf (inv_image (finite_psubset <*lex*> less_than)
      (\<lambda>(E :: ('a \<times> 'a) list, xs, c :: 'a \<Rightarrow> colour). (white_left E xs c, length xs)))"
    by auto
next
  fix E :: "('a \<times> 'a) list" and x xs and c :: "'a \<Rightarrow> colour"
  assume "c x = Black"
  then have "white_left E xs c \<subseteq> white_left E (x # xs) c"
    by (auto simp: white_left_def)
  then show "((E, xs, c), (E, x # xs, c)) \<in> inv_image (finite_psubset <*lex*> less_than)
      (\<lambda>(E, xs, c). (white_left E xs c, length xs))"
    by (auto simp: finite_psubset_def)
next
  fix E :: "('a \<times> 'a) list" and x xs and c :: "'a \<Rightarrow> colour"
  assume w: "c x = White"
  have "white_left E (adj E x) (c(x := Gray)) \<subset> white_left E (x # xs) c"
    using w by (force simp: white_left_def split: if_splits)
  then show "((E, adj E x, c(x := Gray)), (E, x # xs, c))
      \<in> inv_image (finite_psubset <*lex*> less_than)
          (\<lambda>(E, xs, c). (white_left E xs c, length xs))"
    by (auto simp: finite_psubset_def)
next
  fix E :: "('a \<times> 'a) list" and x xs and c c' :: "'a \<Rightarrow> colour"
  assume w: "c x = White" and dom: "dfs_nexts_dom (E, adj E x, c(x := Gray))"
    and r: "dfs_nexts E (adj E x) (c(x := Gray)) = Inr c'"
  have "white_left E xs (c'(x := Black)) \<subset> white_left E (x # xs) c"
    using w dfs_nexts_white_partial [OF dom r]
    by (force simp: white_left_def split: if_splits)
  then show "((E, xs, c'(x := Black)), (E, x # xs, c))
      \<in> inv_image (finite_psubset <*lex*> less_than)
          (\<lambda>(E, xs, c). (white_left E xs c, length xs))"
    by (auto simp: finite_psubset_def)
qed

text \<open>\<open>dfs\<close> of one node, and the outer loop that starts it at every white node.\<close>

definition dfs :: "('n \<times> 'n) list \<Rightarrow> 'n \<Rightarrow> ('n \<Rightarrow> colour) \<Rightarrow>
    'n cycle_error + ('n \<Rightarrow> colour)" where
  "dfs E n c =
     (case dfs_nexts E (adj E n) (c(n := Gray)) of
        Inl e \<Rightarrow> Inl e
      | Inr c' \<Rightarrow> Inr (c'(n := Black)))"

fun detect_loop :: "('n \<times> 'n) list \<Rightarrow> 'n list \<Rightarrow> ('n \<Rightarrow> colour) \<Rightarrow>
    'n cycle_error + ('n \<Rightarrow> colour)" where
  "detect_loop E [] c = Inr c"
| "detect_loop E (n # ns) c =
     (if c n = White
      then (case dfs E n c of Inl e \<Rightarrow> Inl e | Inr c' \<Rightarrow> detect_loop E ns c')
      else detect_loop E ns c)"

definition detect_cycle :: "'n list \<Rightarrow> ('n \<times> 'n) list \<Rightarrow> 'n cycle_error + unit" where
  "detect_cycle nodes E =
     (case detect_loop E nodes (\<lambda>_. White) of Inl e \<Rightarrow> Inl e | Inr _ \<Rightarrow> Inr ())"


section \<open>Layered topological sort\<close>

text \<open>\<open>in_degree\<close> counts the incoming edges of each node; absent keys read 0.\<close>

definition in_degrees :: "('n \<times> 'n) list \<Rightarrow> 'n \<Rightarrow> int" where
  "in_degrees E = fold (\<lambda>(s, d) deg. deg(d := deg d + 1)) E (\<lambda>_. 0)"

text \<open>One iteration of the innermost loop: decrement, and enqueue at zero.\<close>

definition relax :: "'n \<Rightarrow> ('n \<Rightarrow> int) \<times> 'n list \<Rightarrow> ('n \<Rightarrow> int) \<times> 'n list" where
  "relax nxt st =
     (let deg = (fst st)(nxt := fst st nxt - 1)
      in (deg, if deg nxt = 0 then snd st @ [nxt] else snd st))"

definition relax_layer :: "('n \<times> 'n) list \<Rightarrow> 'n list \<Rightarrow> ('n \<Rightarrow> int) \<Rightarrow>
    ('n \<Rightarrow> int) \<times> 'n list" where
  "relax_layer E layer deg = fold relax (concat (map (adj E) layer)) (deg, [])"

definition positive :: "('n \<times> 'n) list \<Rightarrow> ('n \<Rightarrow> int) \<Rightarrow> 'n set" where
  "positive E deg = {n \<in> snd ` set E. 0 < deg n}"

lemma finite_positive [simp]: "finite (positive E deg)"
  by (simp add: positive_def)

lemma fold_relax_measure:
  assumes "set ds \<subseteq> snd ` set E"
  shows "card (positive E (fst (fold relax ds st))) + length (snd (fold relax ds st))
    \<le> card (positive E (fst st)) + length (snd st)"
  using assms
proof (induction ds arbitrary: st)
  case Nil
  then show ?case by simp
next
  case (Cons d ds)
  let ?st = "relax d st"
  have step: "card (positive E (fst ?st)) + length (snd ?st)
      \<le> card (positive E (fst st)) + length (snd st)"
  proof (cases "fst st d = 1")
    case True
    then have "positive E (fst ?st) = positive E (fst st) - {d}" "d \<in> positive E (fst st)"
      using Cons.prems by (auto simp: positive_def relax_def Let_def)
    moreover have "0 < card (positive E (fst st))"
      using \<open>d \<in> positive E (fst st)\<close> by (simp add: card_gt_0_iff) auto
    ultimately show ?thesis using True by (simp add: relax_def Let_def)
  next
    case False
    then have "positive E (fst ?st) = positive E (fst st)"
      by (auto simp: positive_def relax_def Let_def)
    then show ?thesis using False by (simp add: relax_def Let_def)
  qed
  from Cons.IH [of ?st] Cons.prems step show ?case by simp
qed

function topo_layers :: "('n \<times> 'n) list \<Rightarrow> 'n list \<Rightarrow> ('n \<Rightarrow> int) \<Rightarrow> 'n list list" where
  "topo_layers E queue deg =
     (if queue = [] then []
      else queue # topo_layers E (snd (relax_layer E queue deg)) (fst (relax_layer E queue deg)))"
  by pat_completeness auto
termination
proof (relation "measure (\<lambda>(E, queue, deg). card (positive E deg) + length queue)")
  fix E :: "('a \<times> 'a) list" and queue :: "'a list" and deg :: "'a \<Rightarrow> int"
  assume "queue \<noteq> []"
  moreover have "set (concat (map (adj E) queue)) \<subseteq> snd ` set E" by force
  from fold_relax_measure [OF this, of "(deg, [])"]
  have "card (positive E (fst (relax_layer E queue deg))) + length (snd (relax_layer E queue deg))
      \<le> card (positive E deg)"
    by (simp add: relax_layer_def)
  ultimately show "((E, snd (relax_layer E queue deg), fst (relax_layer E queue deg)), E, queue, deg)
      \<in> measure (\<lambda>(E, queue, deg). card (positive E deg) + length queue)"
    by (cases queue) auto
qed auto

declare topo_layers.simps [simp del]

lemma topo_layers_Nil [simp]: "topo_layers E [] deg = []"
  by (subst topo_layers.simps) simp

definition topological_sort :: "'n list \<Rightarrow> ('n \<times> 'n) list \<Rightarrow> 'n cycle_error + 'n list list" where
  "topological_sort nodes E =
     (case detect_cycle nodes E of
        Inl e \<Rightarrow> Inl e
      | Inr _ \<Rightarrow>
          (let deg = in_degrees E;
               layers = topo_layers E (filter (\<lambda>n. deg n = 0) nodes) deg
           in if sum_list (map length layers) \<noteq> length nodes then Inl Not_all_processed
              else Inr layers))"

section \<open>Layer-by-layer execution\<close>

text \<open>
  \<open>executor node snapshot\<close> is the awaited result of the injected callable (\<open>Inl\<close> an
  exception). All tasks of a layer start from \<^verbatim>\<open>dict(outputs)\<close> as it stands before the
  layer, since \<open>outputs\<close> changes only after the gather. The state also logs the calls made.
\<close>

datatype on_error = Rollback | Continue | Other_mode string

datatype ('n, 'e) exec_error = Value_error string | Workflow_execution_error 'n 'e

record ('n, 'e, 'r) exec_state =
  outputs :: "('n, 'e + 'r) dict"
  calls :: "('n \<times> ('n, 'e + 'r) dict) list"

fun collect :: "on_error \<Rightarrow> ('n \<times> ('e + 'r)) list \<Rightarrow> ('n, 'e + 'r) dict \<Rightarrow>
    ('n, 'e + 'r) dict \<times> ('n \<times> 'e) option" where
  "collect mode [] out = (out, None)"
| "collect mode ((node, Inr r) # rest) out = collect mode rest (dict_set node (Inr r) out)"
| "collect mode ((node, Inl e) # rest) out =
     (if mode = Rollback then (out, Some (node, e))
      else collect mode rest (dict_set node (Inl e) out))"

fun exec_layers :: "on_error \<Rightarrow> ('n \<Rightarrow> ('n, 'e + 'r) dict \<Rightarrow> 'e + 'r) \<Rightarrow> 'n list list \<Rightarrow>
    ('n, 'e, 'r) exec_state \<Rightarrow> ('n, 'e, 'r) exec_state \<times> ('n \<times> 'e) option" where
  "exec_layers mode executor [] st = (st, None)"
| "exec_layers mode executor (layer # layers) st =
     (let snapshot = outputs st;
          results = map (\<lambda>n. (n, executor n snapshot)) layer;
          (out, failed) = collect mode results snapshot;
          st' = \<lparr>outputs = out, calls = calls st @ map (\<lambda>n. (n, snapshot)) layer\<rparr>
      in case failed of
           Some f \<Rightarrow> (st', Some f)
         | None \<Rightarrow> exec_layers mode executor layers st')"

definition execute :: "'n list list \<Rightarrow> ('n \<Rightarrow> ('n, 'e + 'r) dict \<Rightarrow> 'e + 'r) \<Rightarrow> on_error \<Rightarrow>
    ('n, 'e + 'r) dict option \<Rightarrow>
    ('n, 'e, 'r) exec_state \<times> (('n, 'e) exec_error + ('n, 'e + 'r) dict)" where
  "execute layers executor mode completed =
     (let st0 = \<lparr>outputs = (case completed of None \<Rightarrow> [] | Some d \<Rightarrow> d), calls = []\<rparr>
      in case mode of
           Other_mode m \<Rightarrow> (st0, Inl (Value_error m))
         | _ \<Rightarrow>
             (let (st, failed) = exec_layers mode executor layers st0
              in case failed of
                   Some (n, e) \<Rightarrow> (st, Inl (Workflow_execution_error n e))
                 | None \<Rightarrow> (st, Inr (outputs st))))"

section \<open>The depth-first search is a cycle test\<close>

lemma dfs_nexts_gray: "dfs_nexts E xs c = Inr c' \<Longrightarrow> c' n = Gray \<longleftrightarrow> c n = Gray"
proof (induction E xs c arbitrary: c' rule: dfs_nexts.induct)
  case (2 E x xs c)
  show ?case
  proof (cases "c x")
    case White
    with 2 obtain c1 where c1: "dfs_nexts E (adj E x) (c(x := Gray)) = Inr c1"
      and rest: "dfs_nexts E xs (c1(x := Black)) = Inr c'"
      by (auto split: sum.splits)
    from "2.IH"(1) [OF White c1] "2.IH"(2) [OF White c1 rest] White
    show ?thesis by (auto split: if_splits)
  qed (use 2 in auto)
qed simp

lemma dfs_nexts_black: "dfs_nexts E xs c = Inr c' \<Longrightarrow> c n = Black \<or> n \<in> set xs \<Longrightarrow> c' n = Black"
proof (induction E xs c arbitrary: c' rule: dfs_nexts.induct)
  case (2 E x xs c)
  show ?case
  proof (cases "c x")
    case White
    with 2 obtain c1 where c1: "dfs_nexts E (adj E x) (c(x := Gray)) = Inr c1"
      and rest: "dfs_nexts E xs (c1(x := Black)) = Inr c'"
      by (auto split: sum.splits)
    from "2.IH"(1) [OF White c1] "2.IH"(2) [OF White c1 rest] White "2.prems"(2)
    show ?thesis by (cases "n = x") auto
  qed (use 2 in auto)
qed simp

definition black_closed :: "('n \<times> 'n) list \<Rightarrow> ('n \<Rightarrow> colour) \<Rightarrow> bool" where
  "black_closed E c \<longleftrightarrow> (\<forall>b d. c b = Black \<longrightarrow> (b, d) \<in> set E \<longrightarrow> c d = Black)
     \<and> (\<forall>b. c b = Black \<longrightarrow> (b, b) \<notin> (set E)\<^sup>+)"

lemma black_closed_rtrancl:
  assumes "black_closed E c" and "(b, d) \<in> (set E)\<^sup>*" and "c b = Black"
  shows "c d = Black"
  using assms(2,3,1) by (induction rule: rtrancl_induct) (auto simp: black_closed_def)

lemma dfs_nexts_black_closed:
  "dfs_nexts E xs c = Inr c' \<Longrightarrow> black_closed E c \<Longrightarrow> black_closed E c'"
proof (induction E xs c arbitrary: c' rule: dfs_nexts.induct)
  case (2 E x xs c)
  show ?case
  proof (cases "c x")
    case White
    with 2 obtain c1 where c1: "dfs_nexts E (adj E x) (c(x := Gray)) = Inr c1"
      and rest: "dfs_nexts E xs (c1(x := Black)) = Inr c'"
      by (auto split: sum.splits)
    have "black_closed E (c(x := Gray))"
      using "2.prems"(2) White by (auto simp: black_closed_def)
    then have cl: "black_closed E c1" by (rule "2.IH"(1) [OF White c1])
    have gray: "c1 x = Gray" using dfs_nexts_gray [OF c1] by simp
    have succ: "c1 y = Black" if "(x, y) \<in> set E" for y
      using dfs_nexts_black [OF c1] that by simp
    have "(x, x) \<notin> (set E)\<^sup>+"
    proof
      assume "(x, x) \<in> (set E)\<^sup>+"
      then obtain y where "(x, y) \<in> set E" "(y, x) \<in> (set E)\<^sup>*" by (blast dest: tranclD)
      with succ black_closed_rtrancl [OF cl] gray show False by fastforce
    qed
    with cl succ have "black_closed E (c1(x := Black))"
      by (auto simp: black_closed_def)
    then show ?thesis by (rule "2.IH"(2) [OF White c1 rest])
  qed (use 2 in auto)
qed simp

lemma dfs_nexts_cycle:
  assumes "dfs_nexts E xs c = Inl e"
    and "\<And>g x. c g = Gray \<Longrightarrow> x \<in> set xs \<Longrightarrow> (g, x) \<in> (set E)\<^sup>+"
  shows "\<exists>m x. e = Cycle_involving m \<and> x \<in> set xs \<and> (x, m) \<in> (set E)\<^sup>* \<and> (m, m) \<in> (set E)\<^sup>+"
  using assms
proof (induction E xs c rule: dfs_nexts.induct)
  case (2 E x xs c)
  show ?case
  proof (cases "c x")
    case White
    have gr: "(g, y) \<in> (set E)\<^sup>+" if "(c(x := Gray)) g = Gray" "y \<in> set (adj E x)" for g y
      using that "2.prems"(2) [of g x] by (auto split: if_splits intro: trancl_into_trancl)
    show ?thesis
    proof (cases "dfs_nexts E (adj E x) (c(x := Gray))")
      case (Inl e')
      with White "2.prems"(1) have i: "dfs_nexts E (adj E x) (c(x := Gray)) = Inl e" by simp
      have "\<exists>m y. e = Cycle_involving m \<and> y \<in> set (adj E x) \<and> (y, m) \<in> (set E)\<^sup>*
          \<and> (m, m) \<in> (set E)\<^sup>+"
        by (rule "2.IH"(1) [OF White i gr])
      then obtain m y where "e = Cycle_involving m" "(x, y) \<in> set E" "(y, m) \<in> (set E)\<^sup>*"
        "(m, m) \<in> (set E)\<^sup>+" by auto
      moreover from this have "(x, m) \<in> (set E)\<^sup>*" by (blast intro: converse_rtrancl_into_rtrancl)
      ultimately show ?thesis by (intro exI [of _ m] exI [of _ x]) simp
    next
      case (Inr c1)
      with White "2.prems"(1) have rest: "dfs_nexts E xs (c1(x := Black)) = Inl e" by simp
      have "(g, y) \<in> (set E)\<^sup>+" if "(c1(x := Black)) g = Gray" "y \<in> set xs" for g y
        using that dfs_nexts_gray [OF Inr, of g] "2.prems"(2) [of g y] by (auto split: if_splits)
      from "2.IH"(2) [OF White Inr rest this] show ?thesis by auto
    qed
  next
    case Gray
    with "2.prems" show ?thesis by auto
  next
    case Black
    with "2.prems" "2.IH"(3) show ?thesis by fastforce
  qed
qed simp

lemma detect_loop_Inr:
  "detect_loop E ns c = Inr c' \<Longrightarrow> black_closed E c \<Longrightarrow> \<forall>n. c n \<noteq> Gray \<Longrightarrow>
    black_closed E c' \<and> (\<forall>n \<in> set ns. c' n = Black) \<and> (\<forall>n. c n = Black \<longrightarrow> c' n = Black)"
proof (induction ns arbitrary: c)
  case (Cons n ns)
  show ?case
  proof (cases "c n = White")
    case True
    with Cons.prems obtain c1 where
      d: "dfs_nexts E [n] c = Inr c1" and rest: "detect_loop E ns c1 = Inr c'"
      by (auto simp: dfs_def split: sum.splits)
    have "\<forall>m. c1 m \<noteq> Gray" using dfs_nexts_gray [OF d] Cons.prems(3) by simp
    with Cons.IH [OF rest dfs_nexts_black_closed [OF d Cons.prems(2)]]
    have "black_closed E c' \<and> (\<forall>n \<in> set ns. c' n = Black) \<and> (\<forall>n. c1 n = Black \<longrightarrow> c' n = Black)"
      by simp
    with dfs_nexts_black [OF d] show ?thesis by simp
  next
    case False
    with Cons.prems(3) have "c n = Black" by (cases "c n") auto
    moreover from False Cons.prems(1) have "detect_loop E ns c = Inr c'" by simp
    from Cons.IH [OF this Cons.prems(2,3)]
    have "black_closed E c' \<and> (\<forall>n \<in> set ns. c' n = Black) \<and> (\<forall>n. c n = Black \<longrightarrow> c' n = Black)" .
    ultimately show ?thesis by simp
  qed
qed simp

lemma detect_loop_Inl:
  "detect_loop E ns c = Inl e \<Longrightarrow> \<forall>n. c n \<noteq> Gray \<Longrightarrow>
    \<exists>m n. e = Cycle_involving m \<and> n \<in> set ns \<and> (n, m) \<in> (set E)\<^sup>* \<and> (m, m) \<in> (set E)\<^sup>+"
proof (induction ns arbitrary: c)
  case (Cons n ns)
  show ?case
  proof (cases "c n = White")
    case True
    show ?thesis
    proof (cases "dfs_nexts E [n] c")
      case (Inl e')
      with True Cons.prems(1) have [simp]: "e' = e" by (auto simp: dfs_def split: sum.splits)
      from dfs_nexts_cycle [OF Inl] Cons.prems(2) show ?thesis by auto
    next
      case (Inr c1)
      with True Cons.prems(1) have "detect_loop E ns c1 = Inl e"
        by (auto simp: dfs_def split: sum.splits)
      from Cons.IH [OF this] dfs_nexts_gray [OF Inr] Cons.prems(2) show ?thesis by auto
    qed
  next
    case False
    with Cons show ?thesis by fastforce
  qed
qed simp

lemma detect_cycle_ok_iff:
  "detect_cycle nodes E = Inr () \<longleftrightarrow>
     \<not> (\<exists>n m. n \<in> set nodes \<and> (n, m) \<in> (set E)\<^sup>* \<and> (m, m) \<in> (set E)\<^sup>+)"
proof (cases "detect_loop E nodes (\<lambda>_. White)")
  case (Inl e)
  with detect_loop_Inl [OF Inl] show ?thesis by (auto simp: detect_cycle_def)
next
  case (Inr c)
  have "black_closed E (\<lambda>_. White)" by (simp add: black_closed_def)
  with detect_loop_Inr [OF Inr] have "black_closed E c" "\<forall>n \<in> set nodes. c n = Black" by auto
  then have "(m, m) \<notin> (set E)\<^sup>+" if "n \<in> set nodes" "(n, m) \<in> (set E)\<^sup>*" for n m
    using black_closed_rtrancl [of E c n m] that unfolding black_closed_def by metis
  then have "\<not> (\<exists>n m. n \<in> set nodes \<and> (n, m) \<in> (set E)\<^sup>* \<and> (m, m) \<in> (set E)\<^sup>+)"
    by blast
  with Inr show ?thesis by (simp add: detect_cycle_def)
qed


section \<open>Kahn's algorithm produces a layered linear order\<close>

text \<open>\<open>pending E P v\<close> counts the edges into \<open>v\<close> whose source is not yet in \<open>P\<close>.\<close>

definition pending :: "('n \<times> 'n) list \<Rightarrow> 'n set \<Rightarrow> 'n \<Rightarrow> nat" where
  "pending E P v = length (filter (\<lambda>(u, d). d = v \<and> u \<notin> P) E)"

lemma pending_0_iff: "pending E P v = 0 \<longleftrightarrow> (\<forall>u. (u, v) \<in> set E \<longrightarrow> u \<in> P)"
  by (auto simp: pending_def filter_empty_conv)

lemma in_degrees_pending: "in_degrees E v = int (pending E {} v)"
proof -
  have "fold (\<lambda>(s, d) deg. deg(d := deg d + 1)) E deg v = deg v + int (pending E {} v)"
    for deg :: "'a \<Rightarrow> int"
    by (induction E arbitrary: deg) (auto simp: pending_def)
  then show ?thesis by (simp add: in_degrees_def)
qed

lemma count_adj: "count_list (adj E u) v = length (filter (\<lambda>(s, d). d = v \<and> s = u) E)"
  by (induction E) (auto simp: adj_def)

lemma count_layer:
  "distinct q \<Longrightarrow> set q \<inter> P = {} \<Longrightarrow>
    pending E (P \<union> set q) v + count_list (concat (map (adj E) q)) v = pending E P v"
proof (induction q arbitrary: P)
  case Nil
  then show ?case by simp
next
  case (Cons u q)
  have "pending E (insert u P) v + count_list (adj E u) v = pending E P v"
    using Cons.prems unfolding count_adj pending_def by (induction E) auto
  moreover have "pending E (insert u P \<union> set q) v + count_list (concat (map (adj E) q)) v
      = pending E (insert u P) v"
    by (rule Cons.IH) (use Cons.prems in auto)
  moreover have "P \<union> set (u # q) = insert u P \<union> set q" by simp
  ultimately show ?case by (simp only: list.map concat.simps count_list_append)
qed

lemma fold_relax:
  "fst (fold relax ds (deg, [])) v = deg v - int (count_list ds v)
   \<and> distinct (snd (fold relax ds (deg, [])))
   \<and> set (snd (fold relax ds (deg, []))) = {v \<in> set ds. 0 < deg v \<and> deg v \<le> int (count_list ds v)}"
proof (induction ds arbitrary: v rule: rev_induct)
  case Nil
  then show ?case by simp
next
  case (snoc d ds)
  let ?r = "fold relax ds (deg, [])"
  have IH: "fst ?r w = deg w - int (count_list ds w)" "distinct (snd ?r)"
    "set (snd ?r) = {v \<in> set ds. 0 < deg v \<and> deg v \<le> int (count_list ds v)}" for w
    using snoc [of w] by blast+
  have step: "fold relax (ds @ [d]) (deg, []) = relax d ?r" by simp
  have pos: "w \<in> set ds" if "0 < deg w" "deg w \<le> int (count_list ds w)" for w
    using that count_notin [of w ds] by (cases "w \<in> set ds") auto
  show ?case
  proof (cases "deg d - int (count_list ds d) = 1")
    case True
    then have "d \<notin> set (snd ?r)" using IH(3) by auto
    with True IH(2) have "distinct (snd (relax d ?r))" "set (snd (relax d ?r)) = insert d (set (snd ?r))"
      by (auto simp: relax_def Let_def IH(1))
    moreover have "{v \<in> set (ds @ [d]). 0 < deg v \<and> deg v \<le> int (count_list (ds @ [d]) v)}
        = insert d (set (snd ?r))"
      using True unfolding IH(3) by (auto simp: count_list_append)
    ultimately show ?thesis unfolding step
      by (simp add: relax_def Let_def IH(1) count_list_append)
  next
    case False
    then have "snd (relax d ?r) = snd ?r" by (simp add: relax_def Let_def IH(1))
    moreover have "{v \<in> set (ds @ [d]). 0 < deg v \<and> deg v \<le> int (count_list (ds @ [d]) v)}
        = set (snd ?r)"
    proof (rule set_eqI)
      fix w
      show "w \<in> {v \<in> set (ds @ [d]). 0 < deg v \<and> deg v \<le> int (count_list (ds @ [d]) v)}
          \<longleftrightarrow> w \<in> set (snd ?r)"
        unfolding IH(3) using False pos [of w] by (cases "w = d") (auto simp: count_list_append)
    qed
    ultimately show ?thesis unfolding step using IH(2)
      by (simp add: relax_def Let_def IH(1) count_list_append)
  qed
qed

fun layered_from :: "('n \<times> 'n) set \<Rightarrow> 'n set \<Rightarrow> 'n list list \<Rightarrow> bool" where
  "layered_from R P [] = True"
| "layered_from R P (l # ls) =
     ((\<forall>v \<in> set l. \<forall>u. (u, v) \<in> R \<longrightarrow> u \<in> P) \<and> layered_from R (P \<union> set l) ls)"

text \<open>
  The loop invariant: \<open>P\<close> are the nodes of the emitted layers, the queue holds exactly the
  other nodes all of whose predecessors are in \<open>P\<close>.
\<close>

definition kahn_inv :: "'n set \<Rightarrow> ('n \<times> 'n) list \<Rightarrow> 'n set \<Rightarrow> 'n list \<Rightarrow> ('n \<Rightarrow> int) \<Rightarrow> bool" where
  "kahn_inv V E P q deg \<longleftrightarrow> set E \<subseteq> V \<times> V \<and> P \<union> set q \<subseteq> V \<and> distinct q \<and> set q \<inter> P = {}
     \<and> (\<forall>v. deg v = int (pending E P v)) \<and> (\<forall>v \<in> V. v \<in> P \<union> set q \<longleftrightarrow> pending E P v = 0)"

lemma kahn_inv_step:
  assumes inv: "kahn_inv V E P q deg"
  shows "kahn_inv V E (P \<union> set q) (snd (relax_layer E q deg)) (fst (relax_layer E q deg))"
proof -
  let ?ds = "concat (map (adj E) q)"
  let ?r = "relax_layer E q deg"
  note i = inv [unfolded kahn_inv_def]
  have cnt: "pending E (P \<union> set q) v + count_list ?ds v = pending E P v" for v
    by (rule count_layer) (use i in simp_all)
  have deg: "fst ?r v = int (pending E (P \<union> set q) v)" for v
    using fold_relax [of ?ds deg v] i cnt [of v] by (simp add: relax_layer_def)
  have new: "set (snd ?r) = {v \<in> set ?ds. 0 < pending E P v \<and> pending E (P \<union> set q) v = 0}"
  proof -
    have "int (pending E P v) \<le> int (count_list ?ds v) \<longleftrightarrow> pending E (P \<union> set q) v = 0" for v
      using cnt [of v] by linarith
    moreover have "deg = (\<lambda>v. int (pending E P v))" using i by auto
    ultimately show ?thesis
      using fold_relax [of ?ds deg] by (simp add: relax_layer_def del: set_concat)
  qed
  have "set ?ds \<subseteq> V" using i by auto
  moreover have "v \<in> set ?ds" if "0 < pending E P v" "pending E (P \<union> set q) v = 0" for v
    using that cnt [of v] count_notin [of v ?ds] by fastforce
  moreover have "pending E (P \<union> set q) v = 0" if "pending E P v = 0" for v
    using that cnt [of v] by simp
  moreover have "distinct (snd ?r)" using fold_relax [of ?ds deg] by (simp add: relax_layer_def)
  moreover have "0 < pending E P v" if "v \<in> V - (P \<union> set q)" for v using i that by blast
  moreover have "pending E P v = 0" if "v \<in> P \<union> set q" for v using i that by blast
  ultimately show ?thesis
    using i deg unfolding kahn_inv_def new by (auto simp del: set_concat)
qed

lemma topo_layers_correct:
  assumes "kahn_inv V E P q deg" and "finite V"
  shows "distinct (concat (topo_layers E q deg))
    \<and> set (concat (topo_layers E q deg)) \<inter> P = {}
    \<and> set (concat (topo_layers E q deg)) \<subseteq> V
    \<and> layered_from (set E) P (topo_layers E q deg)
    \<and> (\<forall>v \<in> V. pending E (P \<union> set (concat (topo_layers E q deg))) v = 0 \<longrightarrow>
         v \<in> P \<union> set (concat (topo_layers E q deg)))"
  using assms(1)
proof (induction E q deg arbitrary: P rule: topo_layers.induct)
  case (1 E q deg)
  note i = "1.prems" [unfolded kahn_inv_def]
  show ?case
  proof (cases "q = []")
    case True
    with i show ?thesis by simp
  next
    case False
    let ?r = "relax_layer E q deg"
    let ?ls = "topo_layers E (snd ?r) (fst ?r)"
    have unf: "topo_layers E q deg = q # ?ls"
      using False by (subst topo_layers.simps) simp
    note IH = "1.IH" [OF False kahn_inv_step [OF "1.prems"]]
    have front: "u \<in> P" if "v \<in> set q" "(u, v) \<in> set E" for u v
    proof -
      have "pending E P v = 0" using i that(1) by blast
      with that(2) show ?thesis by (simp add: pending_0_iff)
    qed
    from IH i front show ?thesis unfolding unf by (auto simp: Un_assoc)
  qed
qed

lemma topo_layers_complete:
  assumes inv: "kahn_inv V E P q deg" and fin: "finite V" and acyc: "acyclic (set E)"
  shows "P \<union> set (concat (topo_layers E q deg)) = V"
proof (rule ccontr)
  let ?D = "P \<union> set (concat (topo_layers E q deg))"
  assume "?D \<noteq> V"
  moreover note c = topo_layers_correct [OF inv fin]
  ultimately have "V - ?D \<noteq> {}" using inv by (auto simp: kahn_inv_def)
  then obtain w where w: "w \<in> V - ?D" by blast
  have "wf (set E)" using acyc by (simp add: finite_acyclic_wf)
  from wfE_min [OF this w] obtain v where
    v: "v \<in> V - ?D" "\<And>u. (u, v) \<in> set E \<Longrightarrow> u \<notin> V - ?D" by metis
  have "u \<in> ?D" if "(u, v) \<in> set E" for u
    using v(2) [OF that] inv that by (auto simp: kahn_inv_def)
  then have "pending E ?D v = 0" by (simp add: pending_0_iff)
  with c v(1) show False by blast
qed

lemma kahn_inv_init:
  assumes "distinct nodes" and "set E \<subseteq> set nodes \<times> set nodes"
  shows "kahn_inv (set nodes) E {} (filter (\<lambda>n. in_degrees E n = 0) nodes) (in_degrees E)"
  using assms by (auto simp: kahn_inv_def in_degrees_pending)


lemma closed_cycle_iff:
  assumes "set E \<subseteq> set nodes \<times> set nodes"
  shows "detect_cycle nodes E = Inr () \<longleftrightarrow> acyclic (set E)"
proof -
  have "m \<in> set nodes" if "(m, m) \<in> (set E)\<^sup>+" for m
    using tranclD [OF that] assms by auto
  then show ?thesis by (auto simp: detect_cycle_ok_iff acyclic_def)
qed

lemma acyclic_layers:
  assumes "distinct nodes" and "set E \<subseteq> set nodes \<times> set nodes" and "acyclic (set E)"
  defines "ls \<equiv> topo_layers E (filter (\<lambda>n. in_degrees E n = 0) nodes) (in_degrees E)"
  shows "topological_sort nodes E = Inr ls" and "distinct (concat ls)"
    and "set (concat ls) = set nodes" and "layered_from (set E) {} ls"
proof -
  note k = kahn_inv_init [OF assms(1,2)]
  show d: "distinct (concat ls)" and "layered_from (set E) {} ls"
    using topo_layers_correct [OF k] by (simp_all add: ls_def)
  show st: "set (concat ls) = set nodes"
    using topo_layers_complete [OF k _ assms(3)] unfolding ls_def by simp
  have "length (concat ls) = length nodes"
    using distinct_card [OF d] distinct_card [OF assms(1)] st by simp
  then have "sum_list (map length ls) = length nodes" by (simp add: length_concat)
  then show "topological_sort nodes E = Inr ls"
    using closed_cycle_iff [OF assms(2)] assms(3)
    by (simp add: topological_sort_def Let_def ls_def)
qed

lemma topological_sort_InrD:
  assumes "topological_sort nodes E = Inr ls" and "distinct nodes"
    and "set E \<subseteq> set nodes \<times> set nodes"
  shows "acyclic (set E)" and "distinct (concat ls)" and "set (concat ls) = set nodes"
    and "layered_from (set E) {} ls"
proof -
  have "detect_cycle nodes E = Inr ()"
    using assms(1) by (auto simp: topological_sort_def split: sum.splits)
  then show ac: "acyclic (set E)" by (simp add: closed_cycle_iff [OF assms(3)])
  show "distinct (concat ls)" and "set (concat ls) = set nodes"
    and "layered_from (set E) {} ls"
    using acyclic_layers [OF assms(2,3) ac] assms(1) by simp_all
qed

lemma layered_from_nth:
  "layered_from R P ls \<Longrightarrow> i < length ls \<Longrightarrow> v \<in> set (ls ! i) \<Longrightarrow> (u, v) \<in> R \<Longrightarrow>
    u \<in> P \<or> (\<exists>j < i. u \<in> set (ls ! j))"
proof (induction ls arbitrary: P i)
  case (Cons l ls)
  show ?case
  proof (cases i)
    case 0
    with Cons.prems show ?thesis by auto
  next
    case (Suc k)
    with Cons.IH [of "P \<union> set l" k] Cons.prems
    have "u \<in> P \<union> set l \<or> (\<exists>j < k. u \<in> set (ls ! j))" by simp
    with Suc show ?thesis by (auto intro: exI [of _ 0] exI [of _ "Suc _"])
  qed
qed simp

section \<open>The executor follows the layers\<close>

lemma collect_Continue:
  "fst (collect Continue rs out) = dict_update out rs" "snd (collect Continue rs out) = None"
proof -
  have "collect Continue rs out = (dict_update out rs, None)"
    by (induction Continue rs out rule: collect.induct) (auto simp: dict_update_def)
  then show "fst (collect Continue rs out) = dict_update out rs"
    "snd (collect Continue rs out) = None" by simp_all
qed

lemma collect_Rollback_fails:
  "snd (collect Rollback rs out) = Some (n, e) \<Longrightarrow> (n, Inl e) \<in> set rs"
  by (induction Rollback rs out rule: collect.induct) auto

lemma dict_get_update_map:
  "n \<in> set ns \<Longrightarrow> map_of (dict_update out (map (\<lambda>n. (n, f n)) ns)) n = Some (f n)"
  "n \<notin> set ns \<Longrightarrow> map_of (dict_update out (map (\<lambda>n. (n, f n)) ns)) n = map_of out n"
proof -
  have "map_of (dict_update out (map (\<lambda>n. (n, f n)) ns)) n
      = (if n \<in> set ns then Some (f n) else map_of out n)"
    by (induction ns arbitrary: out) (auto simp: dict_update_def update_conv')
  then show "n \<in> set ns \<Longrightarrow> map_of (dict_update out (map (\<lambda>n. (n, f n)) ns)) n = Some (f n)"
    "n \<notin> set ns \<Longrightarrow> map_of (dict_update out (map (\<lambda>n. (n, f n)) ns)) n = map_of out n"
    by simp_all
qed

text \<open>The answers recorded for the nodes of \<open>P\<close> are those of logged calls.\<close>

definition answered :: "('n \<Rightarrow> ('n, 'e + 'r) dict \<Rightarrow> 'e + 'r) \<Rightarrow> ('n \<times> ('n, 'e + 'r) dict) list \<Rightarrow>
    ('n, 'e + 'r) dict \<Rightarrow> 'n \<Rightarrow> bool" where
  "answered ex cs out u \<longleftrightarrow> (\<exists>snap. (u, snap) \<in> set cs \<and> dict_get out u = Some (ex u snap))"

lemma exec_layers_Continue:
  assumes "exec_layers Continue ex ls st = (st', failed)"
    and "layered_from R P ls" and "distinct (concat ls)" and "set (concat ls) \<inter> P = {}"
    and "\<forall>u \<in> P. answered ex (calls st) (outputs st) u"
    and "\<forall>(n, snap) \<in> set (calls st). \<forall>u. (u, n) \<in> R \<longrightarrow> answered ex (calls st) snap u"
  shows "failed = None \<and> map fst (calls st') = map fst (calls st) @ concat ls
    \<and> (\<forall>(n, snap) \<in> set (calls st'). \<forall>u. (u, n) \<in> R \<longrightarrow> answered ex (calls st') snap u)
    \<and> (\<forall>u \<in> P \<union> set (concat ls). answered ex (calls st') (outputs st') u)"
  using assms
proof (induction ls arbitrary: st P)
  case Nil
  then show ?case by simp
next
  case (Cons l ls)
  define st1 where "st1 = \<lparr>outputs = dict_update (outputs st) (map (\<lambda>n. (n, ex n (outputs st))) l),
    calls = calls st @ map (\<lambda>n. (n, outputs st)) l\<rparr>"
  have run: "exec_layers Continue ex ls st1 = (st', failed)"
    using Cons.prems(1) by (simp add: Let_def split_beta collect_Continue st1_def)
  have grow: "answered ex (calls st1) snap u" if "answered ex (calls st) snap u" for snap u
    using that by (auto simp: answered_def st1_def)
  have "answered ex (calls st1) (outputs st1) u" if "u \<in> P \<union> set l" for u
  proof (cases "u \<in> set l")
    case True
    then have "(u, outputs st) \<in> set (calls st1)"
      and "dict_get (outputs st1) u = Some (ex u (outputs st))"
      by (auto simp: st1_def dict_get_update_map)
    then show ?thesis unfolding answered_def by blast
  next
    case False
    with that Cons.prems(5) have "answered ex (calls st) (outputs st) u" by blast
    with False show ?thesis by (auto simp: answered_def st1_def dict_get_update_map)
  qed
  moreover have "answered ex (calls st1) snap u"
    if "(n, snap) \<in> set (calls st1)" "(u, n) \<in> R" for n snap u
  proof (cases "(n, snap) \<in> set (calls st)")
    case True
    with that(2) Cons.prems(6) have "answered ex (calls st) snap u" by blast
    then show ?thesis by (rule grow)
  next
    case False
    with that(1) have "n \<in> set l" "snap = outputs st" by (auto simp: st1_def)
    with that(2) Cons.prems(2,5) have "answered ex (calls st) snap u" by auto
    then show ?thesis by (rule grow)
  qed
  moreover have "layered_from R (P \<union> set l) ls" "distinct (concat ls)"
    "set (concat ls) \<inter> (P \<union> set l) = {}"
    using Cons.prems(2-4) by auto
  ultimately have "failed = None \<and> map fst (calls st') = map fst (calls st1) @ concat ls
    \<and> (\<forall>(n, snap) \<in> set (calls st'). \<forall>u. (u, n) \<in> R \<longrightarrow> answered ex (calls st') snap u)
    \<and> (\<forall>u \<in> (P \<union> set l) \<union> set (concat ls). answered ex (calls st') (outputs st') u)"
    by (intro Cons.IH [OF run]) auto
  then show ?case by (auto simp: st1_def Un_assoc comp_def)
qed

lemma exec_layers_Rollback_fails:
  assumes "exec_layers Rollback ex ls st = (st', Some (n, e))"
  shows "\<exists>ks l rest snap. ls = ks @ l # rest \<and> map fst (calls st') = map fst (calls st) @ concat ks @ l
    \<and> n \<in> set l \<and> (n, snap) \<in> set (calls st') \<and> ex n snap = Inl e"
  using assms
proof (induction ls arbitrary: st)
  case (Cons l ls)
  let ?rs = "map (\<lambda>n. (n, ex n (outputs st))) l"
  let ?st = "\<lparr>outputs = fst (collect Rollback ?rs (outputs st)),
    calls = calls st @ map (\<lambda>n. (n, outputs st)) l\<rparr>"
  show ?case
  proof (cases "snd (collect Rollback ?rs (outputs st))")
    case None
    with Cons.prems have "exec_layers Rollback ex ls ?st = (st', Some (n, e))"
      by (simp add: Let_def split_beta)
    from Cons.IH [OF this] obtain ks l' rest snap where
      "ls = ks @ l' # rest" "map fst (calls st') = map fst (calls ?st) @ concat ks @ l'"
      "n \<in> set l'" "(n, snap) \<in> set (calls st')" "ex n snap = Inl e" by blast
    then have "l # ls = (l # ks) @ l' # rest \<and>
        map fst (calls st') = map fst (calls st) @ concat (l # ks) @ l'
        \<and> n \<in> set l' \<and> (n, snap) \<in> set (calls st') \<and> ex n snap = Inl e"
      by (simp add: comp_def)
    then show ?thesis by blast
  next
    case (Some f)
    with Cons.prems have st': "st' = ?st" and f: "f = (n, e)"
      by (simp_all add: Let_def split_beta)
    from collect_Rollback_fails [of ?rs "outputs st" n e] Some f
    have n: "n \<in> set l" "ex n (outputs st) = Inl e" by auto
    have "l # ls = [] @ l # ls \<and> map fst (calls st') = map fst (calls st) @ concat [] @ l
        \<and> n \<in> set l \<and> (n, outputs st) \<in> set (calls st') \<and> ex n (outputs st) = Inl e"
      using n st' by (auto simp: comp_def)
    then show ?thesis by blast
  qed
qed simp


lemma execute_run:
  assumes "execute ls ex mode done = (st, r)" and "mode = Rollback \<or> mode = Continue"
  obtains failed where "exec_layers mode ex ls
      \<lparr>outputs = (case done of None \<Rightarrow> [] | Some d \<Rightarrow> d), calls = []\<rparr> = (st, failed)"
    and "r = (case failed of Some (n, e) \<Rightarrow> Inl (Workflow_execution_error n e)
              | None \<Rightarrow> Inr (outputs st))"
proof -
  obtain st1 failed where x: "exec_layers mode ex ls
      \<lparr>outputs = (case done of None \<Rightarrow> [] | Some d \<Rightarrow> d), calls = []\<rparr> = (st1, failed)"
    by (cases "exec_layers mode ex ls
      \<lparr>outputs = (case done of None \<Rightarrow> [] | Some d \<Rightarrow> d), calls = []\<rparr>") blast
  with assms have "st1 = st" and "r = (case failed of Some (n, e) \<Rightarrow> Inl (Workflow_execution_error n e)
              | None \<Rightarrow> Inr (outputs st))"
    by (auto simp: execute_def Let_def split: option.splits)
  with x that show thesis by simp
qed

section \<open>Properties\<close>

text \<open>
  C3. \<open>detect_cycle\<close> is an exact cycle test: it returns normally exactly when no cycle can
  be reached from a node of the list, and the node named in a raised error lies on a cycle.
\<close>

theorem detect_cycle_exact:
  "case detect_cycle nodes E of
     Inr _ \<Rightarrow> \<not> (\<exists>n m. n \<in> set nodes \<and> (n, m) \<in> (set E)\<^sup>* \<and> (m, m) \<in> (set E)\<^sup>+)
   | Inl e \<Rightarrow> (\<exists>n m. e = Cycle_involving m \<and> n \<in> set nodes \<and> (n, m) \<in> (set E)\<^sup>*
       \<and> (m, m) \<in> (set E)\<^sup>+)"
proof (cases "detect_cycle nodes E")
  case (Inl e)
  then have "detect_loop E nodes (\<lambda>_. White) = Inl e"
    by (auto simp: detect_cycle_def split: sum.splits)
  from detect_loop_Inl [OF this] Inl show ?thesis by auto
next
  case (Inr u)
  then have "detect_cycle nodes E = Inr ()" by simp
  then show ?thesis unfolding detect_cycle_ok_iff by (simp add: Inr)
qed

text \<open>
  C1. For distinct nodes and edges between them, \<open>topological_sort\<close> raises exactly on cyclic
  graphs; otherwise its layers hold every node once and each edge leads from a layer to a
  strictly later one.
\<close>

theorem topological_sort_exact:
  assumes "distinct nodes" and "set E \<subseteq> set nodes \<times> set nodes"
  shows "case topological_sort nodes E of
      Inl e \<Rightarrow> \<not> acyclic (set E)
    | Inr ls \<Rightarrow> acyclic (set E) \<and> distinct (concat ls) \<and> set (concat ls) = set nodes
        \<and> (\<forall>i < length ls. \<forall>v \<in> set (ls ! i). \<forall>u. (u, v) \<in> set E \<longrightarrow> (\<exists>j < i. u \<in> set (ls ! j)))"
proof (cases "topological_sort nodes E")
  case (Inl e)
  with acyclic_layers(1) [OF assms] show ?thesis by auto
next
  case (Inr ls)
  note * = topological_sort_InrD [OF Inr assms]
  from layered_from_nth [OF *(4)] have "\<forall>i < length ls. \<forall>v \<in> set (ls ! i). \<forall>u. (u, v) \<in> set E \<longrightarrow>
      (\<exists>j < i. u \<in> set (ls ! j))" by blast
  with Inr * show ?thesis by simp
qed

theorem topological_sort_exact_witness:
  "case topological_sort [1, 2, 3 :: nat] [(1, 2), (1, 3)] of
      Inl e \<Rightarrow> \<not> acyclic (set [(1 :: nat, 2 :: nat), (1, 3)])
    | Inr ls \<Rightarrow> acyclic (set [(1 :: nat, 2 :: nat), (1, 3)]) \<and> distinct (concat ls)
        \<and> set (concat ls) = set [1, 2, 3]
        \<and> (\<forall>i < length ls. \<forall>v \<in> set (ls ! i). \<forall>u. (u, v) \<in> set [(1, 2), (1, 3)] \<longrightarrow> (\<exists>j < i. u \<in> set (ls ! j)))"
  by (rule topological_sort_exact [of "[1, 2, 3 :: nat]" "[(1, 2), (1, 3)]"]) simp_all

text \<open>
  C2. Run on the layers of a topological sort, the executor in continue mode calls every node
  exactly once, and each call's snapshot already holds, for every predecessor, the answer of
  the call made for it; the final outputs answer every node.
\<close>

theorem execute_respects_dependencies:
  assumes "topological_sort nodes E = Inr ls" and "distinct nodes"
    and "set E \<subseteq> set nodes \<times> set nodes" and "execute ls ex Continue None = (st, r)"
  shows "r = Inr (outputs st) \<and> map fst (calls st) = concat ls
    \<and> distinct (map fst (calls st)) \<and> set (map fst (calls st)) = set nodes
    \<and> (\<forall>(n, snap) \<in> set (calls st). \<forall>u. (u, n) \<in> set E \<longrightarrow>
         (\<exists>s. (u, s) \<in> set (calls st) \<and> dict_get snap u = Some (ex u s)))
    \<and> (\<forall>n \<in> set nodes. \<exists>s. (n, s) \<in> set (calls st) \<and> dict_get (outputs st) n = Some (ex n s))"
proof -
  note t = topological_sort_InrD [OF assms(1-3)]
  obtain failed where run: "exec_layers Continue ex ls \<lparr>outputs = [], calls = []\<rparr> = (st, failed)"
    and r: "r = (case failed of Some (n, e) \<Rightarrow> Inl (Workflow_execution_error n e)
              | None \<Rightarrow> Inr (outputs st))"
    using execute_run [OF assms(4)] by (metis option.simps(4))
  from exec_layers_Continue [OF run t(4,2)] r t show ?thesis
    by (simp add: answered_def del: set_concat)
qed

theorem execute_respects_dependencies_witness:
  "\<exists>st r. execute [[1], [2 :: nat]] (\<lambda>n d. (Inr n :: string + nat)) Continue None = (st, r)
    \<and> r = Inr (outputs st) \<and> map fst (calls st) = concat [[1], [2]]
    \<and> (\<forall>(n, snap) \<in> set (calls st). \<forall>u. (u, n) \<in> set [(1, 2)] \<longrightarrow>
         (\<exists>s. (u, s) \<in> set (calls st) \<and> dict_get snap u = Some (Inr u)))"
proof -
  obtain st r where e: "execute [[1], [2 :: nat]] (\<lambda>n d. (Inr n :: string + nat)) Continue None = (st, r)"
    by (cases "execute [[1], [2 :: nat]] (\<lambda>n d. (Inr n :: string + nat)) Continue None") blast
  have "topological_sort [1, 2 :: nat] [(1, 2)] = Inr [[1], [2]]" by code_simp
  from execute_respects_dependencies [OF this _ _ e] e show ?thesis by simp blast
qed

text \<open>
  A rollback run that raises has run whole layers up to the failing node's layer and none
  after it, and the exception carries the failing node and what its call raised.
\<close>

theorem execute_rollback_stops:
  assumes "execute ls ex Rollback done = (st, Inl err)"
  shows "\<exists>ks l rest n snap e. err = Workflow_execution_error n e \<and> ls = ks @ l # rest
    \<and> map fst (calls st) = concat ks @ l \<and> n \<in> set l
    \<and> (n, snap) \<in> set (calls st) \<and> ex n snap = Inl e"
proof -
  let ?st0 = "\<lparr>outputs = (case done of None \<Rightarrow> [] | Some d \<Rightarrow> d), calls = []\<rparr>"
  obtain n e where "exec_layers Rollback ex ls ?st0 = (st, Some (n, e))"
    and "err = Workflow_execution_error n e"
    by (rule execute_run [OF assms]) (auto split: option.splits)
  with exec_layers_Rollback_fails [of ex ls ?st0 st n e] show ?thesis by simp
qed

theorem execute_rollback_stops_witness:
  "\<exists>st err. execute [[1], [2 :: nat], [3]] (\<lambda>n d. if n = 2 then Inl ''boom'' else Inr n) Rollback None
      = (st, Inl err)
    \<and> (\<exists>ks l rest n snap e. err = Workflow_execution_error n e \<and> [[1], [2], [3]] = ks @ l # rest
    \<and> map fst (calls st) = concat ks @ l \<and> n \<in> set l
    \<and> (n, snap) \<in> set (calls st) \<and> (if n = 2 then Inl ''boom'' else Inr n) = Inl e)"
proof -
  let ?ex = "\<lambda>n (d :: (nat, string + nat) dict). if n = 2 then Inl ''boom'' else Inr n"
  have e: "execute [[1], [2], [3]] ?ex Rollback None
      = (\<lparr>outputs = [(1, Inr 1)], calls = [(1, []), (2, [(1, Inr 1)])]\<rparr>,
         Inl (Workflow_execution_error 2 ''boom''))"
    by (simp add: execute_def Let_def)
  from execute_rollback_stops [OF e] show ?thesis by (intro exI [of _ "\<lparr>outputs = _, calls = _\<rparr>"] exI [of _ "Workflow_execution_error _ _"] conjI) (rule e)
qed

end
