(* ===== verification/WaitForGraph.thy ===== *)
theory WaitForGraph
  imports Obase_Prelude
begin

text \<open>
  The wait-for graph of \<^verbatim>\<open>obase/wfg_deadlock_detector.py\<close>: waiting edges, the depth-first search
  for cycles and the choice of victims. A holder set is the list of its members in iteration
  order; every result holds for any order.
\<close>

section \<open>The graph\<close>

record 'a wfg =
  graph :: "('a, 'a list) dict"
  priorities :: "('a, int) dict"

definition empty_wfg :: "'a wfg" where
  "empty_wfg = \<lparr>graph = [], priorities = []\<rparr>"

definition set_priority :: "'a \<Rightarrow> int \<Rightarrow> 'a wfg \<Rightarrow> 'a wfg" where
  "set_priority a p w = w\<lparr>priorities := dict_set a p (priorities w)\<rparr>"

definition neighbors :: "('a, 'a list) dict \<Rightarrow> 'a \<Rightarrow> 'a list" where
  "neighbors g n = (case dict_get g n of None \<Rightarrow> [] | Some hs \<Rightarrow> hs)"

definition add_edge :: "'a \<Rightarrow> 'a \<Rightarrow> ('a, 'a list) dict \<Rightarrow> ('a, 'a list) dict" where
  "add_edge waiter holder g =
     dict_set waiter (if holder \<in> set (neighbors g waiter) then neighbors g waiter
                      else neighbors g waiter @ [holder]) g"

definition add_wait :: "'a \<Rightarrow> 'a \<Rightarrow> 'a wfg \<Rightarrow> 'a wfg" where
  "add_wait waiter holder w =
     (if waiter \<noteq> holder then w\<lparr>graph := add_edge waiter holder (graph w)\<rparr> else w)"

fun drop_agent :: "'a \<Rightarrow> ('a, 'a list) dict \<Rightarrow> ('a, 'a list) dict" where
  "drop_agent a [] = []"
| "drop_agent a ((w, hs) # g) =
     (if w = a then drop_agent a g
      else if a \<in> set hs
           then (let hs' = filter (\<lambda>h. h \<noteq> a) hs
                 in if hs' = [] then drop_agent a g else (w, hs') # drop_agent a g)
           else (w, hs) # drop_agent a g)"

definition remove_agent :: "'a \<Rightarrow> 'a wfg \<Rightarrow> 'a wfg" where
  "remove_agent a w = w\<lparr>graph := drop_agent a (graph w)\<rparr>"

section \<open>Finding cycles\<close>

text \<open>
  The calls of \<open>dfs\<close> for a list of nodes, below the path from the root: the visited nodes and the
  cycles so far.
\<close>

function dfs_nodes :: "('a, 'a list) dict \<Rightarrow> 'a list \<Rightarrow> 'a list \<Rightarrow> 'a set \<Rightarrow> 'a list list \<Rightarrow>
    'a set \<times> 'a list list" where
  "dfs_nodes g path [] vis cyc = (vis, cyc)"
| "dfs_nodes g path (n # ns) vis cyc =
     (if n \<in> set path then dfs_nodes g path ns vis (cyc @ [dropWhile (\<lambda>m. m \<noteq> n) path])
      else if n \<in> vis then dfs_nodes g path ns vis cyc
      else (case dfs_nodes g (path @ [n]) (neighbors g n) (insert n vis) cyc of
              (vis', cyc') \<Rightarrow> dfs_nodes g path ns vis' cyc'))"
  by pat_completeness auto

lemma dfs_visits_partial:
  assumes "dfs_nodes_dom (g, path, ns, vis, cyc)"
  shows "vis \<subseteq> fst (dfs_nodes g path ns vis cyc)"
  using assms
proof (induction rule: dfs_nodes.pinduct)
  case (2 g path n ns vis cyc)
  show ?case
  proof (cases "n \<in> set path \<or> n \<in> vis")
    case True
    with 2 show ?thesis by (auto simp: dfs_nodes.psimps)
  next
    case False
    obtain v c where vc: "dfs_nodes g (path @ [n]) (neighbors g n) (insert n vis) cyc = (v, c)"
      by (cases "dfs_nodes g (path @ [n]) (neighbors g n) (insert n vis) cyc")
    from False 2 vc show ?thesis
      using "2.IH"(3) "2.IH"(4) [OF _ _ vc [symmetric]]
      by (auto simp: dfs_nodes.psimps)
  qed
qed (simp add: dfs_nodes.psimps)

definition unvisited :: "('a, 'a list) dict \<Rightarrow> 'a list \<Rightarrow> 'a set \<Rightarrow> 'a set" where
  "unvisited g ns vis = (set ns \<union> (\<Union>hs \<in> snd ` set g. set hs)) - vis"

lemma finite_unvisited [simp]: "finite (unvisited g ns vis)"
  by (auto simp: unvisited_def)

lemma neighbors_unvisited: "set (neighbors g n) \<subseteq> (\<Union>hs \<in> snd ` set g. set hs)"
  by (cases "dict_get g n") (auto simp: neighbors_def dest!: map_of_SomeD intro: rev_image_eqI)

termination dfs_nodes
proof (relation "inv_image (finite_psubset <*lex*> less_than)
    (\<lambda>(g, path, ns, vis, cyc). (unvisited g ns vis, length ns))")
  show "wf (inv_image (finite_psubset <*lex*> less_than)
      (\<lambda>(g :: ('a, 'a list) dict, path :: 'a list, ns, vis, cyc :: 'a list list). (unvisited g ns vis, length ns)))"
    by auto
next
  fix g :: "('a, 'a list) dict" and path ns and n :: 'a and vis and cyc c' :: "'a list list"
  have "unvisited g ns vis \<subseteq> unvisited g (n # ns) vis" by (auto simp: unvisited_def)
  then show "((g, path, ns, vis, c'), g, path, n # ns, vis, cyc) \<in> inv_image (finite_psubset <*lex*> less_than)
      (\<lambda>(g, path, ns, vis, cyc). (unvisited g ns vis, length ns))"
    by (auto simp: finite_psubset_def)
  then show "((g, path, ns, vis, cyc), g, path, n # ns, vis, cyc) \<in> inv_image (finite_psubset <*lex*> less_than)
      (\<lambda>(g, path, ns, vis, cyc). (unvisited g ns vis, length ns))"
    by (auto simp: finite_psubset_def)
next
  fix g :: "('a, 'a list) dict" and path ns and n :: 'a and vis and cyc :: "'a list list"
  assume n: "n \<notin> vis"
  have "unvisited g (neighbors g n) (insert n vis) \<subset> unvisited g (n # ns) vis"
    using n neighbors_unvisited [of g n] by (auto simp: unvisited_def)
  then show "((g, path @ [n], neighbors g n, insert n vis, cyc), g, path, n # ns, vis, cyc)
      \<in> inv_image (finite_psubset <*lex*> less_than) (\<lambda>(g, path, ns, vis, cyc). (unvisited g ns vis, length ns))"
    by (auto simp: finite_psubset_def)
next
  fix g :: "('a, 'a list) dict" and path ns and n :: 'a and vis vis' and cyc cyc' :: "'a list list"
  assume n: "n \<notin> vis" and r: "(vis', cyc') = dfs_nodes g (path @ [n]) (neighbors g n) (insert n vis) cyc"
    and dom: "dfs_nodes_dom (g, path @ [n], neighbors g n, insert n vis, cyc)"
  from dfs_visits_partial [OF dom] r have "insert n vis \<subseteq> vis'" by (metis fst_conv)
  then have "unvisited g ns vis' \<subset> unvisited g (n # ns) vis"
    using n by (auto simp: unvisited_def)
  then show "((g, path, ns, vis', cyc'), g, path, n # ns, vis, cyc) \<in> inv_image (finite_psubset <*lex*> less_than)
      (\<lambda>(g, path, ns, vis, cyc). (unvisited g ns vis, length ns))"
    by (auto simp: finite_psubset_def)
qed

definition detect_cycles :: "'a wfg \<Rightarrow> 'a list list" where
  "detect_cycles w = snd (dfs_nodes (graph w) [] (map fst (graph w)) {} [])"

section \<open>Resolving deadlocks\<close>

definition choose_victim :: "('a, int) dict \<Rightarrow> 'a list \<Rightarrow> 'a list \<Rightarrow> 'a list" where
  "choose_victim prio cycle victims =
     (let active = filter (\<lambda>n. n \<notin> set victims) cycle
      in if active = [] then victims
         else victims @ [arg_min_list (\<lambda>n. case dict_get prio n of None \<Rightarrow> 0 | Some p \<Rightarrow> p) active])"

definition victims_of :: "'a wfg \<Rightarrow> 'a list" where
  "victims_of w = fold (choose_victim (priorities w)) (sort_key length (detect_cycles w)) []"

definition resolve_deadlocks :: "'a wfg \<Rightarrow> 'a wfg \<times> 'a list" where
  "resolve_deadlocks w = (fold remove_agent (victims_of w) w, victims_of w)"

section \<open>The search\<close>

definition edges_of :: "('a, 'a list) dict \<Rightarrow> ('a \<times> 'a) set" where
  "edges_of g = {(u, v). v \<in> set (neighbors g u)}"

text \<open>A cycle is a non-empty list without repetition along whose nodes, and back, every one waits for the next.\<close>

fun walk :: "('a \<times> 'a) set \<Rightarrow> 'a list \<Rightarrow> bool" where
  "walk E (a # b # p) \<longleftrightarrow> (a, b) \<in> E \<and> walk E (b # p)"
| "walk E p = True"

definition is_cycle :: "('a \<times> 'a) set \<Rightarrow> 'a list \<Rightarrow> bool" where
  "is_cycle E c \<longleftrightarrow> c \<noteq> [] \<and> distinct c \<and> walk E c \<and> (List.last c, hd c) \<in> E"

lemma walk_append: "walk E (p @ [a]) \<longleftrightarrow> walk E p \<and> (p \<noteq> [] \<longrightarrow> (List.last p, a) \<in> E)"
  by (induction E p rule: walk.induct) auto

lemma walk_suffix: "walk E (p @ q) \<Longrightarrow> walk E q"
proof (induction p)
  case (Cons a p)
  then show ?case by (cases "p @ q") auto
qed simp

lemma walk_trancl: "walk E (a # p) \<Longrightarrow> p \<noteq> [] \<Longrightarrow> (a, List.last p) \<in> E\<^sup>+"
proof (induction p arbitrary: a)
  case (Cons b p)
  then show ?case by (cases p) (auto intro: trancl_into_trancl2)
qed simp

lemma cycle_trancl:
  assumes "is_cycle E c"
  shows "(hd c, hd c) \<in> E\<^sup>+"
proof (cases c)
  case (Cons a p)
  show ?thesis
  proof (cases "p = []")
    case False
    with assms Cons have "(a, List.last p) \<in> E\<^sup>+" "(List.last p, a) \<in> E"
      by (auto simp: is_cycle_def intro: walk_trancl)
    with Cons show ?thesis by auto
  qed (use assms Cons in \<open>auto simp: is_cycle_def\<close>)
qed (use assms in \<open>simp add: is_cycle_def\<close>)

lemma dfs_visits: "vis \<subseteq> fst (dfs_nodes g path ns vis cyc)"
proof (induction g path ns vis cyc rule: dfs_nodes.induct)
  case (2 g path n ns vis cyc)
  then show ?case
    by (cases "dfs_nodes g (path @ [n]) (neighbors g n) (insert n vis) cyc") (auto, fastforce+)
qed simp

lemma dfs_extends: "\<exists>new. snd (dfs_nodes g path ns vis cyc) = cyc @ new"
proof (induction g path ns vis cyc rule: dfs_nodes.induct)
  case (2 g path n ns vis cyc)
  obtain v c where vc: "dfs_nodes g (path @ [n]) (neighbors g n) (insert n vis) cyc = (v, c)"
    by (cases "dfs_nodes g (path @ [n]) (neighbors g n) (insert n vis) cyc")
  consider "n \<in> set path" | "n \<notin> set path" "n \<in> vis" | "n \<notin> set path" "n \<notin> vis" by blast
  then show ?case
  proof cases
    case 3
    with 2 vc show ?thesis by fastforce
  qed (use 2 in auto)
qed simp

text \<open>Every reported cycle is one.\<close>

lemma dfs_sound:
  assumes "walk (edges_of g) path" and "distinct path"
    and "path \<noteq> [] \<Longrightarrow> \<forall>n \<in> set ns. (List.last path, n) \<in> edges_of g"
    and "\<forall>c \<in> set cyc. is_cycle (edges_of g) c"
  shows "\<forall>c \<in> set (snd (dfs_nodes g path ns vis cyc)). is_cycle (edges_of g) c"
  using assms
proof (induction g path ns vis cyc rule: dfs_nodes.induct)
  case (2 g path n ns vis cyc)
  note E = "2.prems"
  consider (cycle) "n \<in> set path" | (seen) "n \<notin> set path" "n \<in> vis" | (new) "n \<notin> set path" "n \<notin> vis" by blast
  then show ?case
  proof cases
    case cycle
    then obtain p q where p: "path = p @ n # q" "n \<notin> set p" by (meson split_list_first)
    then have d: "dropWhile (\<lambda>m. m \<noteq> n) path = n # q"
      by (subst p(1), subst dropWhile_append2) auto
    have "is_cycle (edges_of g) (n # q)"
      using E(1-3) p walk_suffix [of "edges_of g" p "n # q"] by (auto simp: is_cycle_def)
    with E have "\<forall>c \<in> set (snd (dfs_nodes g path ns vis (cyc @ [dropWhile (\<lambda>m. m \<noteq> n) path]))). is_cycle (edges_of g) c"
      unfolding d by (intro "2.IH"(1) [OF cycle, unfolded d]) auto
    with cycle show ?thesis by simp
  next
    case seen
    with E "2.IH"(2) show ?thesis by auto
  next
    case new
    obtain v c where vc: "dfs_nodes g (path @ [n]) (neighbors g n) (insert n vis) cyc = (v, c)"
      by (cases "dfs_nodes g (path @ [n]) (neighbors g n) (insert n vis) cyc")
    have "\<forall>c \<in> set (snd (dfs_nodes g (path @ [n]) (neighbors g n) (insert n vis) cyc)). is_cycle (edges_of g) c"
      using E new by (intro "2.IH"(3)) (auto simp: walk_append edges_of_def)
    with vc have "\<forall>c' \<in> set c. is_cycle (edges_of g) c'" by simp
    then have "\<forall>c \<in> set (snd (dfs_nodes g path ns v c)). is_cycle (edges_of g) c"
      using E by (intro "2.IH"(4) [OF new vc [symmetric]]) auto
    with new vc show ?thesis by simp
  qed
qed simp

text \<open>Where no new cycle was reported, what has been left behind is closed and free of cycles.\<close>

definition closed_behind :: "('a, 'a list) dict \<Rightarrow> 'a list \<Rightarrow> 'a set \<Rightarrow> bool" where
  "closed_behind g path vis \<longleftrightarrow> set path \<subseteq> vis \<and> (\<forall>u \<in> vis - set path.
     (u, u) \<notin> (edges_of g)\<^sup>+ \<and> (\<forall>v. (u, v) \<in> edges_of g \<longrightarrow> v \<in> vis - set path))"

lemma closed_behind_rtrancl:
  assumes "closed_behind g path vis" and "(u, v) \<in> (edges_of g)\<^sup>*" and "u \<in> vis - set path"
  shows "v \<in> vis - set path"
proof -
  have step: "\<And>u v. u \<in> vis - set path \<Longrightarrow> (u, v) \<in> edges_of g \<Longrightarrow> v \<in> vis - set path"
    using assms(1) unfolding closed_behind_def by blast
  show ?thesis
    using assms(2)
  proof (induction rule: rtrancl_induct)
    case base
    show ?case by (rule assms(3))
  next
    case (step y z)
    then show ?case by (metis \<open>\<And>u v. u \<in> vis - set path \<Longrightarrow> (u, v) \<in> edges_of g \<Longrightarrow> v \<in> vis - set path\<close>)
  qed
qed

lemma dfs_no_cycle:
  assumes "snd (dfs_nodes g path ns vis cyc) = cyc" and "closed_behind g path vis"
  shows "closed_behind g path (fst (dfs_nodes g path ns vis cyc))
    \<and> set ns \<subseteq> fst (dfs_nodes g path ns vis cyc) - set path"
  using assms
proof (induction g path ns vis cyc rule: dfs_nodes.induct)
  case (2 g path n ns vis cyc)
  consider (cycle) "n \<in> set path" | (seen) "n \<notin> set path" "n \<in> vis" | (new) "n \<notin> set path" "n \<notin> vis" by blast
  then show ?case
  proof cases
    case cycle
    with "2.prems"(1) dfs_extends [of g path ns vis "cyc @ [dropWhile (\<lambda>m. m \<noteq> n) path]"] show ?thesis by auto
  next
    case seen
    with "2.prems" have "closed_behind g path (fst (dfs_nodes g path ns vis cyc))
        \<and> set ns \<subseteq> fst (dfs_nodes g path ns vis cyc) - set path"
      by (intro "2.IH"(2) [OF seen]) simp_all
    with seen dfs_visits [of vis g path ns cyc] show ?thesis by auto
  next
    case new
    obtain v c where vc: "dfs_nodes g (path @ [n]) (neighbors g n) (insert n vis) cyc = (v, c)"
      by (cases "dfs_nodes g (path @ [n]) (neighbors g n) (insert n vis) cyc")
    with new "2.prems"(1) have rest: "snd (dfs_nodes g path ns v c) = cyc" by simp
    with dfs_extends [of g path ns v c] dfs_extends [of g "path @ [n]" "neighbors g n" "insert n vis" cyc] vc
    have c: "c = cyc" by auto
    have behind: "insert n vis - set (path @ [n]) = vis - set path" using new by auto
    have "set path \<subseteq> vis" using "2.prems"(2) by (simp add: closed_behind_def)
    then have "set (path @ [n]) \<subseteq> insert n vis" by auto
    with "2.prems"(2) have "closed_behind g (path @ [n]) (insert n vis)"
      unfolding closed_behind_def behind by (elim conjE, intro conjI)
    from "2.IH"(3) [OF new _ this] vc c
    have cl: "closed_behind g (path @ [n]) v" and nb: "set (neighbors g n) \<subseteq> v - set (path @ [n])"
      by simp_all
    have "(n, n) \<notin> (edges_of g)\<^sup>+"
    proof
      assume "(n, n) \<in> (edges_of g)\<^sup>+"
      then obtain m where "(n, m) \<in> edges_of g" "(m, n) \<in> (edges_of g)\<^sup>*" by (blast dest: tranclD)
      with closed_behind_rtrancl [OF cl] nb show False by (auto simp: edges_of_def)
    qed
    moreover have nv: "n \<in> v" "set path \<subseteq> v" using cl by (auto simp: closed_behind_def)
    moreover from nv new have "v - set path = insert n (v - set (path @ [n]))" by auto
    moreover have "w \<in> v - set (path @ [n])" if "(n, w) \<in> edges_of g" for w
      using that nb by (auto simp: edges_of_def)
    ultimately have "closed_behind g path v"
      using cl unfolding closed_behind_def by (metis insertE insertI2)
    from "2.IH"(4) [OF new vc [symmetric] _ this] rest c
    have "closed_behind g path (fst (dfs_nodes g path ns v c))" "set ns \<subseteq> fst (dfs_nodes g path ns v c) - set path"
      by simp_all
    moreover have "n \<in> fst (dfs_nodes g path ns v c)" using dfs_visits [of v g path ns c] nv by blast
    ultimately show ?thesis using new vc by auto
  qed
qed simp

lemma edges_of_key: "(u, v) \<in> edges_of g \<Longrightarrow> u \<in> set (map fst g)"
  by (cases "dict_get g u") (auto simp: edges_of_def neighbors_def dest!: map_of_SomeD intro: rev_image_eqI)

lemma detect_cycles_sound: "c \<in> set (detect_cycles w) \<Longrightarrow> is_cycle (edges_of (graph w)) c"
  using dfs_sound [of "graph w" "[]" "map fst (graph w)" "[]" "{}"] by (simp add: detect_cycles_def)

lemma detect_cycles_Nil: "detect_cycles w = [] \<longleftrightarrow> acyclic (edges_of (graph w))"
proof
  assume "detect_cycles w = []"
  then have "closed_behind (graph w) [] (fst (dfs_nodes (graph w) [] (map fst (graph w)) {} []))
      \<and> set (map fst (graph w)) \<subseteq> fst (dfs_nodes (graph w) [] (map fst (graph w)) {} []) - set []"
    unfolding detect_cycles_def by (rule dfs_no_cycle) (simp add: closed_behind_def)
  then have "(x, x) \<notin> (edges_of (graph w))\<^sup>+" if "x \<in> set (map fst (graph w))" for x
    using that by (auto simp: closed_behind_def)
  then show "acyclic (edges_of (graph w))"
    unfolding acyclic_def by (metis edges_of_key tranclD)
next
  assume "acyclic (edges_of (graph w))"
  then show "detect_cycles w = []"
    using detect_cycles_sound [of "hd (detect_cycles w)" w] cycle_trancl
    by (cases "detect_cycles w") (auto simp: acyclic_def)
qed

section \<open>Victims\<close>

lemma neighbors_simps:
  "neighbors [] u = []" "neighbors ((w, hs) # g) u = (if u = w then hs else neighbors g u)"
  by (auto simp: neighbors_def)

lemma neighbors_notin: "u \<notin> set (map fst g) \<Longrightarrow> neighbors g u = []"
  by (induction g) (auto simp: neighbors_simps)

lemma drop_agent_keys: "set (map fst (drop_agent a g)) \<subseteq> set (map fst g)"
proof (induction g)
  case (Cons p g)
  then show ?case by (cases p) (auto simp: Let_def)
qed simp

lemma drop_agent_distinct: "distinct (map fst g) \<Longrightarrow> distinct (map fst (drop_agent a g))"
proof (induction g)
  case (Cons p g)
  then show ?case using drop_agent_keys [of a g] by (cases p) (auto simp: Let_def)
qed simp

lemma drop_agent_neighbors:
  "distinct (map fst g) \<Longrightarrow>
    neighbors (drop_agent a g) u = (if u = a then [] else filter (\<lambda>v. v \<noteq> a) (neighbors g u))"
proof (induction g)
  case (Cons p g)
  obtain w hs where p: "p = (w, hs)" by (cases p)
  have g: "neighbors g w = []" using Cons.prems p by (intro neighbors_notin) simp
  have IH: "neighbors (drop_agent a g) u = (if u = a then [] else filter (\<lambda>v. v \<noteq> a) (neighbors g u))"
    using Cons by simp
  have same: "filter (\<lambda>v. v \<noteq> a) hs = hs" if "a \<notin> set hs" using that by (induction hs) auto
  show ?case
  proof (cases "u = w")
    case True
    with IH g p same show ?thesis by (auto simp: Let_def neighbors_simps)
  next
    case False
    with IH p show ?thesis by (auto simp: Let_def neighbors_simps)
  qed
qed (simp add: neighbors_simps)

lemma remove_agents_edges:
  "distinct (map fst (graph w)) \<Longrightarrow> distinct (map fst (graph (fold remove_agent vs w)))
    \<and> edges_of (graph (fold remove_agent vs w)) = {(u, v) \<in> edges_of (graph w). u \<notin> set vs \<and> v \<notin> set vs}"
proof (induction vs arbitrary: w)
  case (Cons a vs)
  have "distinct (map fst (graph (remove_agent a w)))"
    using drop_agent_distinct [OF Cons.prems] by (simp add: remove_agent_def)
  moreover have "edges_of (graph (remove_agent a w)) = {(u, v) \<in> edges_of (graph w). u \<noteq> a \<and> v \<noteq> a}"
    by (auto simp: remove_agent_def edges_of_def drop_agent_neighbors [OF Cons.prems] split: if_splits)
  ultimately show ?case using Cons.IH [of "remove_agent a w"] by auto
qed (auto simp: edges_of_def)

lemma arg_min_list_in: "xs \<noteq> [] \<Longrightarrow> arg_min_list f xs \<in> set xs"
  by (induction f xs rule: arg_min_list.induct) (auto simp: Let_def)

lemma choose_victim_in:
  "set victims \<subseteq> set (choose_victim prio c victims)"
  "set (choose_victim prio c victims) \<subseteq> set victims \<union> set c"
  "c \<noteq> [] \<Longrightarrow> \<exists>v \<in> set c. v \<in> set (choose_victim prio c victims)"
proof -
  let ?active = "filter (\<lambda>n. n \<notin> set victims) c"
  have a: "arg_min_list f ?active \<in> set c" if "?active \<noteq> []" for f
    using arg_min_list_in [OF that, of f] by simp
  show "set victims \<subseteq> set (choose_victim prio c victims)" by (auto simp: choose_victim_def Let_def)
  show "set (choose_victim prio c victims) \<subseteq> set victims \<union> set c"
    using a by (auto simp: choose_victim_def Let_def)
  show "\<exists>v \<in> set c. v \<in> set (choose_victim prio c victims)" if "c \<noteq> []"
  proof (cases "?active = []")
    case True
    with that show ?thesis by (cases c) (auto simp: choose_victim_def Let_def split: if_splits)
  next
    case False
    with a show ?thesis by (auto simp: choose_victim_def Let_def)
  qed
qed

lemma fold_victims:
  "set vs \<subseteq> set (fold (choose_victim prio) cs vs)
   \<and> set (fold (choose_victim prio) cs vs) \<subseteq> set vs \<union> (\<Union>c \<in> set cs. set c)
   \<and> (\<forall>c \<in> set cs. c \<noteq> [] \<longrightarrow> (\<exists>v \<in> set c. v \<in> set (fold (choose_victim prio) cs vs)))"
proof (induction cs arbitrary: vs)
  case (Cons c cs)
  let ?vs = "choose_victim prio c vs"
  have IH: "set ?vs \<subseteq> set (fold (choose_victim prio) cs ?vs)"
    "set (fold (choose_victim prio) cs ?vs) \<subseteq> set ?vs \<union> (\<Union>c \<in> set cs. set c)"
    "\<forall>c \<in> set cs. c \<noteq> [] \<longrightarrow> (\<exists>v \<in> set c. v \<in> set (fold (choose_victim prio) cs ?vs))"
    using Cons.IH by blast+
  note c = choose_victim_in [where prio = prio and c = c and victims = vs]
  have "set vs \<subseteq> set (fold (choose_victim prio) cs ?vs)" using c(1) IH(1) by blast
  moreover have "set (fold (choose_victim prio) cs ?vs) \<subseteq> set vs \<union> (\<Union>c \<in> set (c # cs). set c)"
    using c(2) IH(2) by auto
  moreover have "c \<noteq> [] \<longrightarrow> (\<exists>v \<in> set c. v \<in> set (fold (choose_victim prio) cs ?vs))"
    using c(3) IH(1) by blast
  ultimately show ?case using IH(3) by simp
qed simp

lemma victims_facts:
  "set (victims_of w) \<subseteq> (\<Union>c \<in> set (detect_cycles w). set c)"
  "c \<in> set (detect_cycles w) \<Longrightarrow> \<exists>v \<in> set c. v \<in> set (victims_of w)"
  using fold_victims [of "[]" "priorities w" "sort_key length (detect_cycles w)"] detect_cycles_sound [of c w]
  by (auto simp: victims_of_def is_cycle_def)

lemma victims_Nil: "victims_of w = [] \<longleftrightarrow> detect_cycles w = []"
proof
  assume "victims_of w = []"
  with victims_facts(2) [of "hd (detect_cycles w)" w] show "detect_cycles w = []"
    by (cases "detect_cycles w") auto
qed (simp add: victims_of_def)

lemma is_cycle_edges: "is_cycle E c \<Longrightarrow> v \<in> set c \<Longrightarrow> \<exists>u. (u, v) \<in> E"
proof -
  assume c: "is_cycle E c" and v: "v \<in> set c"
  then obtain p q where p: "c = p @ v # q" by (meson split_list)
  show ?thesis
  proof (cases p rule: rev_cases)
    case Nil
    with c p show ?thesis by (auto simp: is_cycle_def)
  next
    case (snoc r u)
    with c p have "walk E (u # v # q)" using walk_suffix [of E r "u # v # q"] by (simp add: is_cycle_def)
    then show ?thesis by auto
  qed
qed

section \<open>Properties\<close>

text \<open>
  C20. Cycle detection is exact: every reported cycle is a cycle of the graph (distinct agents, each
  waiting for the next and the last for the first), and some cycle is reported exactly when the
  graph has one. The holders of an agent may be visited in any order.
\<close>

theorem detect_cycles_exact:
  "(\<forall>c \<in> set (detect_cycles w). is_cycle (edges_of (graph w)) c)
   \<and> (detect_cycles w = [] \<longleftrightarrow> acyclic (edges_of (graph w)))"
  using detect_cycles_sound detect_cycles_Nil by blast

definition ex_wfg :: "string wfg" where
  "ex_wfg = add_wait ''b'' ''a'' (add_wait ''a'' ''b'' empty_wfg)"

lemma ex_wfg_cycles: "detect_cycles ex_wfg = [[''a'', ''b'']]"
  by code_simp

theorem detect_cycles_exact_witness:
  "is_cycle (edges_of (graph ex_wfg)) [''a'', ''b''] \<and> \<not> acyclic (edges_of (graph ex_wfg))"
  using detect_cycles_exact [of ex_wfg] ex_wfg_cycles by simp

text \<open>A graph built by waits and removals has one entry per waiter.\<close>

inductive built :: "'a wfg \<Rightarrow> bool" where
  "built empty_wfg"
| "built w \<Longrightarrow> built (set_priority a p w)"
| "built w \<Longrightarrow> built (add_wait a b w)"
| "built w \<Longrightarrow> built (remove_agent a w)"

lemma built_distinct: "built w \<Longrightarrow> distinct (map fst (graph w))"
proof (induction rule: built.induct)
  case (3 w a b)
  then show ?case by (auto simp: add_wait_def add_edge_def distinct_update)
next
  case (4 w a)
  then show ?case by (simp add: remove_agent_def drop_agent_distinct)
qed (simp_all add: empty_wfg_def set_priority_def)

lemma built_resolve: "built w \<Longrightarrow> built (fst (resolve_deadlocks w))"
proof -
  have "built w \<Longrightarrow> built (fold remove_agent vs w)" for vs
    by (induction vs arbitrary: w) (auto intro: built.intros)
  then show "built w \<Longrightarrow> built (fst (resolve_deadlocks w))" by (simp add: resolve_deadlocks_def)
qed

lemma resolve_edges:
  "built w \<Longrightarrow> edges_of (graph (fst (resolve_deadlocks w)))
    = {(u, v) \<in> edges_of (graph w). u \<notin> set (victims_of w) \<and> v \<notin> set (victims_of w)}"
  using remove_agents_edges [OF built_distinct, of w "victims_of w"] by (simp add: resolve_deadlocks_def)

lemma finite_edges: "finite (edges_of g)"
proof -
  have "edges_of g \<subseteq> set (map fst g) \<times> (\<Union>hs \<in> snd ` set g. set hs)"
    using edges_of_key neighbors_unvisited [of g] by (force simp: edges_of_def)
  then show ?thesis by (rule finite_subset) auto
qed

text \<open>A round on a graph with a cycle takes an agent that others wait for out of the graph.\<close>

lemma resolve_smaller:
  assumes "built w" and "\<not> acyclic (edges_of (graph w))"
  shows "card (snd ` edges_of (graph (fst (resolve_deadlocks w)))) < card (snd ` edges_of (graph w))"
proof (rule psubset_card_mono)
  show "finite (snd ` edges_of (graph w))" by (simp add: finite_edges)
  from assms(2) obtain c where c: "c \<in> set (detect_cycles w)" using detect_cycles_Nil [of w] by (cases "detect_cycles w") auto
  then obtain v where v: "v \<in> set c" "v \<in> set (victims_of w)" using victims_facts(2) by blast
  from is_cycle_edges [OF detect_cycles_sound [OF c] v(1)] have "v \<in> snd ` edges_of (graph w)" by force
  moreover have "v \<notin> snd ` edges_of (graph (fst (resolve_deadlocks w)))"
    using v(2) by (auto simp: resolve_edges [OF assms(1)])
  ultimately show "snd ` edges_of (graph (fst (resolve_deadlocks w))) \<subset> snd ` edges_of (graph w)"
    by (auto simp: resolve_edges [OF assms(1)])
qed

lemma resolve_terminates:
  "built w \<Longrightarrow> card (snd ` edges_of (graph w)) \<le> n \<Longrightarrow>
    \<exists>k \<le> n. acyclic (edges_of (graph (((\<lambda>w. fst (resolve_deadlocks w)) ^^ k) w)))"
proof (induction n arbitrary: w)
  case 0
  then have "edges_of (graph w) = {}" by (simp add: finite_edges)
  then show ?case by (simp add: acyclic_def)
next
  case (Suc n)
  show ?case
  proof (cases "acyclic (edges_of (graph w))")
    case True
    then show ?thesis by (intro exI [of _ 0]) simp
  next
    case False
    from resolve_smaller [OF Suc.prems(1) False] Suc.prems(2)
    have "card (snd ` edges_of (graph (fst (resolve_deadlocks w)))) \<le> n" by simp
    from Suc.IH [OF built_resolve [OF Suc.prems(1)] this] obtain k where
      "k \<le> n" "acyclic (edges_of (graph (((\<lambda>w. fst (resolve_deadlocks w)) ^^ Suc k) w)))"
      by (auto simp: funpow_Suc_right simp del: funpow.simps)
    then show ?thesis by (intro exI [of _ "Suc k"]) simp
  qed
qed

text \<open>
  C21. Resolving makes progress: there are victims exactly when the graph has a cycle, every victim
  lies on a reported cycle and every reported cycle loses an agent; what remains are exactly the
  waits between agents that were not chosen. Repeating it at most as often as there are agents
  that are waited for ends without any deadlock.
\<close>

theorem resolve_makes_progress:
  assumes "built w"
  shows "(snd (resolve_deadlocks w) = [] \<longleftrightarrow> acyclic (edges_of (graph w)))
    \<and> set (snd (resolve_deadlocks w)) \<subseteq> (\<Union>c \<in> set (detect_cycles w). set c)
    \<and> (\<forall>c \<in> set (detect_cycles w). \<exists>v \<in> set c. v \<in> set (snd (resolve_deadlocks w)))
    \<and> edges_of (graph (fst (resolve_deadlocks w)))
        = {(u, v) \<in> edges_of (graph w). u \<notin> set (snd (resolve_deadlocks w)) \<and> v \<notin> set (snd (resolve_deadlocks w))}
    \<and> (\<exists>k \<le> card (snd ` edges_of (graph w)).
         acyclic (edges_of (graph (((\<lambda>w. fst (resolve_deadlocks w)) ^^ k) w))))"
proof -
  have v: "snd (resolve_deadlocks w) = victims_of w" by (simp add: resolve_deadlocks_def)
  have "victims_of w = [] \<longleftrightarrow> acyclic (edges_of (graph w))"
    by (simp only: victims_Nil detect_cycles_Nil)
  moreover have "\<forall>c \<in> set (detect_cycles w). \<exists>v \<in> set c. v \<in> set (victims_of w)"
    using victims_facts(2) by blast
  ultimately show ?thesis
    unfolding v
    by (intro conjI victims_facts(1) resolve_edges [OF assms] resolve_terminates [OF assms order_refl])
qed

lemma ex_wfg_built: "built ex_wfg"
  unfolding ex_wfg_def by (intro built.intros)

theorem resolve_makes_progress_witness:
  "\<exists>v \<in> {''a'', ''b''}. v \<in> set (snd (resolve_deadlocks ex_wfg))"
  using resolve_makes_progress [OF ex_wfg_built] ex_wfg_cycles by auto

text \<open>
  One round need not clear every deadlock: the search reports one of two overlapping cycles, and
  the lowest priority on it lies outside the other.
\<close>

definition two_cycles :: "string wfg" where
  "two_cycles = \<lparr>graph = [(''a'', [''b'', ''c'']), (''b'', [''c'']), (''c'', [''a''])],
     priorities = [(''a'', 1), (''b'', 0), (''c'', 1)]\<rparr>"

lemma one_round_leaves_deadlock:
  "detect_cycles two_cycles = [[''a'', ''b'', ''c'']]
   \<and> is_cycle (edges_of (graph (fst (resolve_deadlocks two_cycles)))) [''a'', ''c'']"
proof -
  have c: "detect_cycles two_cycles = [[''a'', ''b'', ''c'']]"
    by (simp add: detect_cycles_def two_cycles_def neighbors_def)
  then have "victims_of two_cycles = [''b'']"
    by (simp add: victims_of_def choose_victim_def two_cycles_def)
  then have "graph (fst (resolve_deadlocks two_cycles)) = [(''a'', [''c'']), (''c'', [''a''])]"
    by (simp add: resolve_deadlocks_def remove_agent_def two_cycles_def)
  then have "is_cycle (edges_of (graph (fst (resolve_deadlocks two_cycles)))) [''a'', ''c'']"
    by (simp add: is_cycle_def edges_of_def neighbors_def)
  with c show ?thesis by blast
qed

end
