(* ===== verification/LeaseQueue.thy ===== *)
theory LeaseQueue
  imports Obase_Prelude "HOL-Library.Multiset"
begin

text \<open>
  The durable lease queue of \<^verbatim>\<open>obase/durable_lease_queue.py\<close>: the SQLite table as the list
  of its rows in rowid order, every SQL statement as a filter or a guarded update of that list.
  Each operation runs under the queue's lock, so operations are atomic and a concurrent
  execution is a sequence of them. Clock readings and the uuid drawn by an operation are
  arguments; a payload is the JSON document its stored text encodes.
\<close>

section \<open>The table\<close>

datatype status = Pending | Leased | Done | Failed

record 'p row =
  item_id :: string
  payload :: 'p
  priority :: int
  status :: status
  worker_id :: "string option"
  lease_id :: "string option"
  lease_until :: "rat option"
  created_at :: rat
  updated_at :: rat
  attempts :: int

type_synonym 'p queue = "'p row list"

text \<open>\<^verbatim>\<open>ORDER BY priority DESC, created_at ASC\<close> as a linear order on ranks.\<close>

datatype rank = Rank (rank_priority: int) (rank_created: rat)

instantiation rank :: linorder
begin

definition less_eq_rank :: "rank \<Rightarrow> rank \<Rightarrow> bool" where
  "less_eq_rank a b \<longleftrightarrow> rank_priority b < rank_priority a
     \<or> rank_priority a = rank_priority b \<and> rank_created a \<le> rank_created b"

definition less_rank :: "rank \<Rightarrow> rank \<Rightarrow> bool" where
  "less_rank a b \<longleftrightarrow> rank_priority b < rank_priority a
     \<or> rank_priority a = rank_priority b \<and> rank_created a < rank_created b"

instance
  by standard (auto simp: less_eq_rank_def less_rank_def rank.expand)

end

definition rank_of :: "'p row \<Rightarrow> rank" where
  "rank_of r = Rank (priority r) (created_at r)"

text \<open>
  \<^verbatim>\<open>UPDATE ... SET f WHERE c\<close> with its row count. A comparison with a NULL column is
  not true, so it selects nothing.
\<close>

definition update_where :: "('p row \<Rightarrow> bool) \<Rightarrow> ('p row \<Rightarrow> 'p row) \<Rightarrow> 'p queue \<Rightarrow> 'p queue \<times> nat" where
  "update_where c f q = (map (\<lambda>r. if c r then f r else r) q, length (filter c q))"

definition expired :: "rat \<Rightarrow> 'p row \<Rightarrow> bool" where
  "expired now r \<longleftrightarrow> status r = Leased \<and>
     (case lease_until r of None \<Rightarrow> False | Some u \<Rightarrow> u < now)"

section \<open>Operations\<close>

datatype enqueue_error = Integrity_error string

definition enqueue :: "rat \<Rightarrow> string \<Rightarrow> 'p \<Rightarrow> int \<Rightarrow> string option \<Rightarrow> 'p queue \<Rightarrow>
    'p queue \<times> (enqueue_error + string)" where
  "enqueue now fresh p prio iid q =
     (let i = (case iid of Some s \<Rightarrow> if s = '''' then ''task-'' @ fresh else s
               | None \<Rightarrow> ''task-'' @ fresh)
      in if i \<in> set (map item_id q) then (q, Inl (Integrity_error i))
         else (q @ [\<lparr>item_id = i, payload = p, priority = prio, status = Pending,
                  worker_id = None, lease_id = None, lease_until = None,
                  created_at = now, updated_at = now, attempts = 0\<rparr>], Inr i))"

definition eligible :: "rat \<Rightarrow> int \<Rightarrow> 'p row \<Rightarrow> bool" where
  "eligible now max_attempts r \<longleftrightarrow>
     status r = Pending \<or> expired now r \<and> attempts r < max_attempts"

record 'p grant =
  g_item_id :: string
  g_lease_id :: string
  g_payload :: 'p
  g_attempts :: int

definition select_next :: "rat \<Rightarrow> int \<Rightarrow> 'p queue \<Rightarrow> 'p row option" where
  "select_next now max_attempts q =
     (case sort_key rank_of (filter (eligible now max_attempts) q) of
        [] \<Rightarrow> None | r # _ \<Rightarrow> Some r)"

definition lease :: "rat \<Rightarrow> string \<Rightarrow> string \<Rightarrow> rat \<Rightarrow> int \<Rightarrow> 'p queue \<Rightarrow> 'p queue \<times> 'p grant option" where
  "lease now fresh worker timeout_s max_attempts q =
     (case select_next now max_attempts q of
        None \<Rightarrow> (q, None)
      | Some row \<Rightarrow>
          (let lid = ''lease-'' @ fresh;
               q' = fst (update_where (\<lambda>r. item_id r = item_id row)
                      (\<lambda>r. r\<lparr>status := Leased, worker_id := Some worker, lease_id := Some lid,
                             lease_until := Some (now + timeout_s),
                             attempts := attempts r + 1, updated_at := now\<rparr>) q)
           in (q', Some \<lparr>g_item_id = item_id row, g_lease_id = lid, g_payload = payload row,
                         g_attempts = attempts row + 1\<rparr>)))"

definition renew :: "rat \<Rightarrow> string \<Rightarrow> rat \<Rightarrow> 'p queue \<Rightarrow> 'p queue \<times> bool" where
  "renew now lid timeout_s q =
     (let (q', n) = update_where (\<lambda>r. lease_id r = Some lid \<and> status r = Leased)
                      (\<lambda>r. r\<lparr>lease_until := Some (now + timeout_s)\<rparr>) q
      in (q', n > 0))"

definition complete :: "rat \<Rightarrow> string \<Rightarrow> 'p queue \<Rightarrow> 'p queue \<times> bool" where
  "complete now lid q =
     (let (q', n) = update_where (\<lambda>r. lease_id r = Some lid)
                      (\<lambda>r. r\<lparr>status := Done, updated_at := now\<rparr>) q
      in (q', n > 0))"

text \<open>\<open>to_pending\<close> is the SET clause shared by \<open>release\<close> and \<open>sweep_expired\<close>.\<close>

definition to_pending :: "rat \<Rightarrow> 'p row \<Rightarrow> 'p row" where
  "to_pending now r = r\<lparr>status := Pending, worker_id := None, lease_id := None,
     lease_until := None, updated_at := now\<rparr>"

definition release :: "rat \<Rightarrow> string \<Rightarrow> 'p queue \<Rightarrow> 'p queue \<times> bool" where
  "release now lid q =
     (let (q', n) = update_where (\<lambda>r. lease_id r = Some lid \<and> status r = Leased) (to_pending now) q
      in (q', n > 0))"

definition fail :: "rat \<Rightarrow> string \<Rightarrow> 'p queue \<Rightarrow> 'p queue \<times> bool" where
  "fail now lid q =
     (let (q', n) = update_where (\<lambda>r. lease_id r = Some lid)
                      (\<lambda>r. r\<lparr>status := Failed, updated_at := now\<rparr>) q
      in (q', n > 0))"

definition stats :: "'p queue \<Rightarrow> status \<Rightarrow> nat option" where
  "stats q s = (let n = length (filter (\<lambda>r. status r = s) q) in if n = 0 then None else Some n)"

definition pending_count :: "'p queue \<Rightarrow> nat" where
  "pending_count q = (case stats q Pending of None \<Rightarrow> 0 | Some n \<Rightarrow> n)"

definition get :: "string \<Rightarrow> 'p queue \<Rightarrow> 'p row option" where
  "get i q = find (\<lambda>r. item_id r = i) q"

definition sweep_one :: "rat \<Rightarrow> int \<Rightarrow> 'p row \<Rightarrow> 'p queue \<Rightarrow> 'p queue" where
  "sweep_one now max_attempts row q =
     fst (update_where (\<lambda>r. item_id r = item_id row)
       (if attempts row \<ge> max_attempts then (\<lambda>r. r\<lparr>status := Failed, updated_at := now\<rparr>)
        else to_pending now) q)"

definition sweep_expired :: "rat \<Rightarrow> int \<Rightarrow> 'p queue \<Rightarrow> 'p queue \<times> nat" where
  "sweep_expired now max_attempts q =
     (let rows = filter (expired now) q
      in (fold (sweep_one now max_attempts) rows q, length rows))"

section \<open>Executions\<close>

datatype 'p op =
    Enqueue rat string 'p int "string option"
  | Lease rat string string rat int
  | Renew rat string rat
  | Complete rat string
  | Release rat string
  | Fail rat string
  | Sweep rat int

fun apply_op :: "'p op \<Rightarrow> 'p queue \<Rightarrow> 'p queue" where
  "apply_op (Enqueue now fresh p prio iid) q = fst (enqueue now fresh p prio iid q)"
| "apply_op (Lease now fresh w t m) q = fst (lease now fresh w t m q)"
| "apply_op (Renew now lid t) q = fst (renew now lid t q)"
| "apply_op (Complete now lid) q = fst (complete now lid q)"
| "apply_op (Release now lid) q = fst (release now lid q)"
| "apply_op (Fail now lid) q = fst (fail now lid q)"
| "apply_op (Sweep now m) q = fst (sweep_expired now m q)"

text \<open>
  A configuration is the table with the lease ids drawn so far. A lease draws an id that was
  not drawn before, which is the documented behaviour of \<^verbatim>\<open>uuid.uuid4\<close> the queue relies on.
\<close>

fun drawn :: "'p op \<Rightarrow> string set" where
  "drawn (Lease now fresh w t m) = {''lease-'' @ fresh}"
| "drawn _ = {}"

inductive trace :: "'p queue \<times> string set \<Rightarrow> 'p op list \<Rightarrow> 'p queue \<times> string set \<Rightarrow> bool" where
  trace_nil: "trace s [] s"
| trace_step: "drawn a \<inter> I = {} \<Longrightarrow> trace (apply_op a q, I \<union> drawn a) as s \<Longrightarrow> trace (q, I) (a # as) s"

inductive_cases trace_ConsE: "trace s (a # as) s'"


section \<open>Every operation is a row-wise update\<close>

text \<open>
  With distinct item ids an operation other than an insertion rewrites each row by itself;
  \<open>row_op\<close> is that rewrite. The components of the invariant and the temporal properties
  follow from it row by row.
\<close>

fun row_op :: "'p op \<Rightarrow> 'p queue \<Rightarrow> 'p row \<Rightarrow> 'p row" where
  "row_op (Enqueue now fresh p prio iid) q r = r"
| "row_op (Lease now fresh w t m) q r =
     (case select_next now m q of
        None \<Rightarrow> r
      | Some row \<Rightarrow> if item_id r = item_id row
          then r\<lparr>status := Leased, worker_id := Some w, lease_id := Some (''lease-'' @ fresh),
                 lease_until := Some (now + t), attempts := attempts r + 1, updated_at := now\<rparr>
          else r)"
| "row_op (Renew now lid t) q r =
     (if lease_id r = Some lid \<and> status r = Leased then r\<lparr>lease_until := Some (now + t)\<rparr> else r)"
| "row_op (Complete now lid) q r =
     (if lease_id r = Some lid then r\<lparr>status := Done, updated_at := now\<rparr> else r)"
| "row_op (Release now lid) q r =
     (if lease_id r = Some lid \<and> status r = Leased then to_pending now r else r)"
| "row_op (Fail now lid) q r =
     (if lease_id r = Some lid then r\<lparr>status := Failed, updated_at := now\<rparr> else r)"
| "row_op (Sweep now m) q r =
     (if expired now r
      then (if attempts r \<ge> m then r\<lparr>status := Failed, updated_at := now\<rparr> else to_pending now r)
      else r)"

definition inserted :: "'p op \<Rightarrow> 'p queue \<Rightarrow> 'p queue" where
  "inserted a q =
     (case a of Enqueue now fresh p prio iid \<Rightarrow> drop (length q) (apply_op a q) | _ \<Rightarrow> [])"

lemma to_pending_simps [simp]:
  "item_id (to_pending now r) = item_id r" "payload (to_pending now r) = payload r"
  "priority (to_pending now r) = priority r" "created_at (to_pending now r) = created_at r"
  "attempts (to_pending now r) = attempts r" "status (to_pending now r) = Pending"
  "lease_id (to_pending now r) = None" "lease_until (to_pending now r) = None"
  by (simp_all add: to_pending_def)

lemma row_op_keeps [simp]:
  "item_id (row_op a q r) = item_id r" "payload (row_op a q r) = payload r"
  "priority (row_op a q r) = priority r" "created_at (row_op a q r) = created_at r"
  by (cases a; simp split: option.split)+

lemma map_ids_row_op: "map item_id (map (row_op a q) q) = map item_id q"
  by simp

lemma attempts_row_op: "attempts r \<le> attempts (row_op a q r)"
  by (cases a) (auto split: option.split)

lemma fold_sweep_ids [simp]: "map item_id (fold (sweep_one now m) rows q) = map item_id q"
  by (induction rows arbitrary: q) (auto simp: sweep_one_def update_where_def)

lemma fold_rewrite_rows:
  assumes "distinct (map item_id rows)" and id: "\<And>r r'. item_id (h r r') = item_id r'"
    and "\<And>r row. r \<in> set q \<Longrightarrow> row \<in> set rows \<Longrightarrow> item_id r = item_id row \<Longrightarrow> r = row"
  shows "fold (\<lambda>row. map (\<lambda>r. if item_id r = item_id row then h row r else r)) rows q =
    map (\<lambda>r. if r \<in> set rows then h r r else r) q"
  using assms(1,3)
proof (induction rows arbitrary: q)
  case Nil
  then show ?case by simp
next
  case (Cons row rows)
  let ?q = "map (\<lambda>r. if r = row then h r r else r) q"
  have one: "map (\<lambda>r. if item_id r = item_id row then h row r else r) q = ?q"
    using Cons.prems(2) [of _ row] by auto
  have nin: "r \<notin> set rows" if "item_id r = item_id row" for r
    using that Cons.prems(1) by (auto simp: image_iff)
  have uniq: "r = r'" if r: "r \<in> set ?q" and r': "r' \<in> set rows" "item_id r = item_id r'" for r r'
  proof -
    from r obtain r0 where r0: "r0 \<in> set q" "r = (if r0 = row then h r0 r0 else r0)" by auto
    with id r'(2) have "item_id r0 = item_id r'" by (simp split: if_splits)
    with r0 r' Cons.prems(2) [of r0 r'] have "r0 = r'" by simp
    moreover have "r' \<noteq> row" using nin [of r'] r'(1) by auto
    ultimately show ?thesis using r0 by simp
  qed
  have "distinct (map item_id rows)" using Cons.prems(1) by simp
  from Cons.IH [OF this uniq]
  have "fold (\<lambda>row. map (\<lambda>r. if item_id r = item_id row then h row r else r)) rows ?q
      = map (\<lambda>r. if r \<in> set rows then h r r else r) ?q" by blast
  moreover have "row \<notin> set rows" "h row row \<notin> set rows"
    using nin [of row] nin [of "h row row"] id by simp_all
  then have "map (\<lambda>r. if r \<in> set rows then h r r else r) ?q
      = map (\<lambda>r. if r \<in> set (row # rows) then h r r else r) q" by (simp add: comp_def)
  ultimately show ?case by (simp only: fold_simps one)
qed

lemma sweep_rows:
  fixes q :: "'p queue"
  assumes "distinct (map item_id q)"
  shows "fst (sweep_expired now m q) = map (row_op (Sweep now m) q) q"
proof -
  let ?h = "\<lambda>row. if attempts row \<ge> m then (\<lambda>r. r\<lparr>status := Failed, updated_at := now\<rparr>)
    else to_pending now"
  have "(sweep_one now m :: 'p row \<Rightarrow> _) = (\<lambda>row. map (\<lambda>r. if item_id r = item_id row then ?h row r else r))"
    by (intro ext) (simp add: sweep_one_def update_where_def)
  moreover have "fold (\<lambda>row. map (\<lambda>r. if item_id r = item_id row then ?h row r else r))
      (filter (expired now) q) q = map (\<lambda>r. if r \<in> set (filter (expired now) q) then ?h r r else r) q"
    by (rule fold_rewrite_rows)
      (use assms in \<open>auto simp: distinct_map_filter distinct_map inj_on_def\<close>)
  ultimately have "fst (sweep_expired now m q)
      = map (\<lambda>r. if r \<in> set (filter (expired now) q) then ?h r r else r) q"
    by (simp only: sweep_expired_def Let_def fst_conv)
  also have "\<dots> = map (row_op (Sweep now m) q) q" by (intro map_cong refl) simp
  finally show ?thesis .
qed

lemma apply_op_rows:
  assumes "distinct (map item_id q)"
  shows "apply_op a q = map (row_op a q) q @ inserted a q"
proof (cases a)
  case (Enqueue now fresh p prio iid)
  then have "row_op a q = id" by (auto simp: fun_eq_iff)
  moreover have "apply_op a q = q @ inserted a q"
    unfolding inserted_def Enqueue by (auto simp: enqueue_def Let_def)
  ultimately show ?thesis by simp
next
  case (Lease now fresh w t m)
  have "apply_op a q = map (row_op a q) q"
  proof (cases "select_next now m q")
    case None
    with Lease show ?thesis by (simp add: lease_def map_idI)
  next
    case (Some row)
    with Lease show ?thesis by (simp add: lease_def Let_def update_where_def)
  qed
  with Lease show ?thesis by (simp add: inserted_def)
next
  case (Sweep now m)
  have "apply_op a q = map (row_op a q) q"
    unfolding Sweep apply_op.simps by (rule sweep_rows [OF assms])
  with Sweep show ?thesis by (simp add: inserted_def)
qed (auto simp: inserted_def renew_def complete_def release_def fail_def update_where_def)

lemma inserted_rows:
  "r \<in> set (inserted a q) \<Longrightarrow> status r = Pending \<and> lease_id r = None \<and> lease_until r = None
    \<and> attempts r = 0 \<and> item_id r \<notin> set (map item_id q) \<and> length (inserted a q) = 1"
  by (cases a) (auto simp: inserted_def enqueue_def Let_def split: if_splits)


section \<open>The table invariant\<close>

definition row_ok :: "string set \<Rightarrow> 'p row \<Rightarrow> bool" where
  "row_ok I r \<longleftrightarrow> 0 \<le> attempts r \<and> (status r = Pending \<longleftrightarrow> lease_id r = None)
     \<and> (lease_id r = None \<longleftrightarrow> lease_until r = None) \<and> (\<forall>l. lease_id r = Some l \<longrightarrow> l \<in> I)"

definition queue_ok :: "string set \<Rightarrow> 'p queue \<Rightarrow> bool" where
  "queue_ok I q \<longleftrightarrow> distinct (map item_id q) \<and> (\<forall>r \<in> set q. row_ok I r)
     \<and> (\<forall>r \<in> set q. \<forall>r' \<in> set q. lease_id r \<noteq> None \<longrightarrow> lease_id r = lease_id r' \<longrightarrow> r = r')"

lemma lease_id_row_op:
  "lease_id (row_op a q r) = None \<or> lease_id (row_op a q r) = lease_id r
   \<or> (\<exists>l. lease_id (row_op a q r) = Some l \<and> l \<in> drawn a)"
  by (cases a) (auto split: option.split)

lemma row_ok_row_op: "row_ok I r \<Longrightarrow> row_ok (I \<union> drawn a) (row_op a q r)"
  by (cases a) (auto simp: row_ok_def expired_def split: option.splits)

lemma row_ok_mono: "row_ok I r \<Longrightarrow> I \<subseteq> J \<Longrightarrow> row_ok J r"
  by (auto simp: row_ok_def)

text \<open>An operation hands a drawn id to one item only.\<close>

lemma drawn_unique:
  assumes "lease_id (row_op a q r) = Some l" and "lease_id (row_op a q r') = Some l"
    and "l \<in> drawn a" and "lease_id r \<noteq> Some l" and "lease_id r' \<noteq> Some l"
  shows "item_id r = item_id r'"
  using assms by (cases a) (auto split: option.splits if_splits)

lemma queue_ok_step:
  assumes q: "queue_ok I q" and fresh: "drawn a \<inter> I = {}"
  shows "queue_ok (I \<union> drawn a) (apply_op a q)"
proof -
  note i = q [unfolded queue_ok_def]
  have eq: "apply_op a q = map (row_op a q) q @ inserted a q"
    using i by (intro apply_op_rows) blast
  have ids: "map item_id (map (row_op a q) q) = map item_id q" by simp
  have old: "l \<in> I" if "r \<in> set q" "lease_id r = Some l" for r l
    using i that by (auto simp: row_ok_def)
  have uniq: "row_op a q r = row_op a q r'"
    if rr: "r \<in> set q" "r' \<in> set q" and l: "lease_id (row_op a q r) = Some l"
      "lease_id (row_op a q r') = Some l" for r r' l
  proof (cases "l \<in> drawn a")
    case True
    with fresh old rr have "lease_id r \<noteq> Some l" "lease_id r' \<noteq> Some l" by blast+
    with drawn_unique [OF l True] have "item_id r = item_id r'" by blast
    with i rr have "r = r'" by (auto simp: distinct_map inj_on_def)
    then show ?thesis by simp
  next
    case False
    then have "lease_id r = Some l" "lease_id r' = Some l"
      using lease_id_row_op [of a q r] lease_id_row_op [of a q r'] l by auto
    with i rr have "r = r'" by auto
    then show ?thesis by simp
  qed
  have new: "item_id r \<notin> set (map item_id q)" "lease_id r = None" "row_ok (I \<union> drawn a) r"
    if "r \<in> set (inserted a q)" for r
    using inserted_rows [OF that] by (auto simp: row_ok_def)
  have len: "distinct (map item_id (inserted a q))"
  proof (cases "inserted a q")
    case (Cons r rs)
    with inserted_rows [of r a q] show ?thesis by simp
  qed simp
  have "distinct (map item_id (apply_op a q))"
    using i len new(1) unfolding eq map_append ids distinct_append by (force simp: image_iff)
  moreover have "\<forall>r \<in> set (apply_op a q). row_ok (I \<union> drawn a) r"
    using i new(3) by (auto simp: eq row_ok_row_op)
  moreover have "r = r'" if "r \<in> set (apply_op a q)" "r' \<in> set (apply_op a q)"
    "lease_id r \<noteq> None" "lease_id r = lease_id r'" for r r'
  proof -
    from that(3) obtain l where l: "lease_id r = Some l" by blast
    with that new(2) have "r \<in> row_op a q ` set q" "r' \<in> row_op a q ` set q"
      by (auto simp: eq)
    with uniq l that(4) show ?thesis by fastforce
  qed
  ultimately show ?thesis unfolding queue_ok_def by blast
qed

lemma queue_ok_trace: "trace (q, I) as (q', I') \<Longrightarrow> queue_ok I q \<Longrightarrow> queue_ok I' q' \<and> I \<subseteq> I'"
  by (induction "(q, I)" as "(q', I')" arbitrary: q I rule: trace.induct)
    (auto dest: queue_ok_step)

lemma queue_ok_empty: "queue_ok I []"
  by (simp add: queue_ok_def)

section \<open>Leases\<close>

text \<open>Once only item \<open>i\<close> may hold the drawn id \<open>l\<close>, this stays so.\<close>

definition held_by :: "string \<Rightarrow> string \<Rightarrow> 'p queue \<Rightarrow> bool" where
  "held_by l i q \<longleftrightarrow> (\<forall>r \<in> set q. lease_id r = Some l \<longrightarrow> item_id r = i)"

definition unheld :: "string \<Rightarrow> 'p queue \<Rightarrow> bool" where
  "unheld l q \<longleftrightarrow> (\<forall>r \<in> set q. lease_id r \<noteq> Some l)"

lemma lease_id_step:
  assumes "queue_ok I q" and "drawn a \<inter> I = {}" and "l \<in> I"
    and "r' \<in> set (apply_op a q)" and "lease_id r' = Some l"
  obtains r where "r \<in> set q" and "lease_id r = Some l" and "r' = row_op a q r"
proof -
  have "apply_op a q = map (row_op a q) q @ inserted a q"
    using assms(1) by (intro apply_op_rows) (simp add: queue_ok_def)
  with assms(4,5) inserted_rows [of r' a q] obtain r where r: "r \<in> set q" "r' = row_op a q r"
    by auto
  with assms(2,3,5) lease_id_row_op [of a q r] have "lease_id r = Some l" by auto
  with r that show thesis by blast
qed

lemma held_by_trace:
  "trace (q, I) as (q', I') \<Longrightarrow> queue_ok I q \<Longrightarrow> l \<in> I \<Longrightarrow> held_by l i q \<Longrightarrow> held_by l i q'"
proof (induction "(q, I)" as "(q', I')" arbitrary: q I rule: trace.induct)
  case (trace_step a I q as)
  have "held_by l i (apply_op a q)"
    unfolding held_by_def
  proof (intro ballI impI)
    fix r' assume r': "r' \<in> set (apply_op a q)" "lease_id r' = Some l"
    obtain r where "r \<in> set q" "lease_id r = Some l" "r' = row_op a q r"
      by (rule lease_id_step [OF trace_step.prems(1) trace_step.hyps(1) trace_step.prems(2) r'])
    with trace_step.prems(3) show "item_id r' = i" by (auto simp: held_by_def)
  qed
  moreover have "queue_ok (I \<union> drawn a) (apply_op a q)"
    by (rule queue_ok_step [OF trace_step.prems(1) trace_step.hyps(1)])
  ultimately show ?case using trace_step.hyps(3) trace_step.prems(2) by simp
qed simp

lemma unheld_trace:
  "trace (q, I) as (q', I') \<Longrightarrow> queue_ok I q \<Longrightarrow> l \<in> I \<Longrightarrow> unheld l q \<Longrightarrow> unheld l q'"
proof (induction "(q, I)" as "(q', I')" arbitrary: q I rule: trace.induct)
  case (trace_step a I q as)
  have "unheld l (apply_op a q)"
    unfolding unheld_def
  proof (intro ballI notI)
    fix r' assume r': "r' \<in> set (apply_op a q)" "lease_id r' = Some l"
    obtain r where "r \<in> set q" "lease_id r = Some l" "r' = row_op a q r"
      by (rule lease_id_step [OF trace_step.prems(1) trace_step.hyps(1) trace_step.prems(2) r'])
    with trace_step.prems(3) show "False" by (auto simp: unheld_def)
  qed
  moreover have "queue_ok (I \<union> drawn a) (apply_op a q)"
    by (rule queue_ok_step [OF trace_step.prems(1) trace_step.hyps(1)])
  ultimately show ?case using trace_step.hyps(3) trace_step.prems(2) by simp
qed simp

lemma unheld_powerless:
  assumes "unheld l q"
  shows "complete now l q = (q, False)" and "fail now l q = (q, False)"
    and "renew now l t q = (q, False)" and "release now l q = (q, False)"
  using assms
  by (auto simp: unheld_def complete_def fail_def renew_def release_def update_where_def
      intro!: map_idI filter_False)

lemma select_next_Some:
  assumes "select_next now m q = Some r"
  shows "r \<in> set q" and "eligible now m r"
    and "\<And>r'. r' \<in> set q \<Longrightarrow> eligible now m r' \<Longrightarrow> rank_of r \<le> rank_of r'"
proof -
  obtain rs where s: "sort_key rank_of (filter (eligible now m) q) = r # rs"
    using assms by (auto simp: select_next_def split: list.splits)
  have "set (r # rs) = set (filter (eligible now m) q)" using s by (metis set_sort)
  moreover from this show "r \<in> set q" "eligible now m r" by auto
  moreover have "sorted (map rank_of (r # rs))" using s by (metis sorted_sort_key)
  ultimately show "rank_of r \<le> rank_of r'" if "r' \<in> set q" "eligible now m r'" for r'
    using that by (auto simp: set_eq_iff)
qed

lemma select_next_None: "select_next now m q = None \<longleftrightarrow> (\<forall>r \<in> set q. \<not> eligible now m r)"
proof -
  have "select_next now m q = None \<longleftrightarrow> sort_key rank_of (filter (eligible now m) q) = []"
    by (simp add: select_next_def split: list.split)
  also have "\<dots> \<longleftrightarrow> set (sort_key rank_of (filter (eligible now m) q)) = {}"
    by (simp only: set_empty)
  also have "\<dots> \<longleftrightarrow> (\<forall>r \<in> set q. \<not> eligible now m r)" by auto
  finally show ?thesis .
qed

text \<open>A granted lease as the trace operation it is.\<close>

lemma lease_grant:
  assumes "lease now fresh w t m q = (q', Some g)" and "queue_ok I q"
    and fresh: "''lease-'' @ fresh \<notin> I"
  shows "trace (q, I) [Lease now fresh w t m] (q', insert (''lease-'' @ fresh) I)"
    and "g_lease_id g = ''lease-'' @ fresh" and "held_by (g_lease_id g) (g_item_id g) q'"
    and "held_by l (g_item_id g) q \<Longrightarrow> l \<in> I \<Longrightarrow> unheld l q'"
proof -
  obtain row where row: "select_next now m q = Some row"
    using assms(1) by (auto simp: lease_def split: option.splits)
  with assms(1) have g: "g_item_id g = item_id row" "g_lease_id g = ''lease-'' @ fresh"
    and q': "q' = apply_op (Lease now fresh w t m) q"
    by (auto simp: lease_def Let_def)
  then show "g_lease_id g = ''lease-'' @ fresh" by simp
  show "trace (q, I) [Lease now fresh w t m] (q', insert (''lease-'' @ fresh) I)"
    unfolding q' using fresh
    by (intro trace_step) (auto intro: trace_nil [of "(_, _)", THEN back_subst [of "trace _ []"]])
  have rows: "q' = map (row_op (Lease now fresh w t m) q) q"
    using apply_op_rows [of q "Lease now fresh w t m"] assms(2) unfolding q'
    by (simp add: queue_ok_def inserted_def)
  have nI: "lease_id r \<noteq> Some (''lease-'' @ fresh)" if "r \<in> set q" for r
    using that assms(2) fresh by (auto simp: queue_ok_def row_ok_def)
  show "held_by (g_lease_id g) (g_item_id g) q'"
    using nI by (auto simp: held_by_def rows g row)
  show "held_by l (g_item_id g) q \<Longrightarrow> l \<in> I \<Longrightarrow> unheld l q'"
    using fresh by (auto simp: held_by_def unheld_def rows g row)
qed


section \<open>Rows over time\<close>

definition terminal :: "'p row \<Rightarrow> bool" where
  "terminal r \<longleftrightarrow> status r = Done \<or> status r = Failed"

text \<open>What every operation keeps of a row, and what it keeps of a finished one.\<close>

definition successor :: "'p row \<Rightarrow> 'p row \<Rightarrow> bool" where
  "successor r r' \<longleftrightarrow> item_id r' = item_id r \<and> payload r' = payload r \<and> priority r' = priority r
     \<and> created_at r' = created_at r \<and> attempts r \<le> attempts r'
     \<and> (terminal r \<longrightarrow> terminal r' \<and> worker_id r' = worker_id r \<and> lease_id r' = lease_id r
           \<and> attempts r' = attempts r)"

lemma successor_refl: "successor r r"
  by (simp add: successor_def)

lemma successor_trans: "successor r s \<Longrightarrow> successor s t \<Longrightarrow> successor r t"
  by (auto simp: successor_def)

lemma lease_skips_terminal:
  assumes "distinct (map item_id q)" and "r \<in> set q" and "terminal r"
    and "select_next now m q = Some row"
  shows "item_id r \<noteq> item_id row"
proof
  assume "item_id r = item_id row"
  with assms(1,2) select_next_Some(1) [OF assms(4)] have "r = row"
    by (auto simp: distinct_map inj_on_def)
  with select_next_Some(2) [OF assms(4)] assms(3) show False
    by (auto simp: eligible_def expired_def terminal_def)
qed

lemma successor_row_op:
  assumes "distinct (map item_id q)" and "r \<in> set q"
  shows "successor r (row_op a q r)"
proof (cases "terminal r")
  case True
  show ?thesis
    using lease_skips_terminal [OF assms True] True
    by (cases a) (auto simp: successor_def terminal_def expired_def split: option.split)
next
  case False
  then show ?thesis by (simp add: successor_def attempts_row_op)
qed

lemma successor_trace:
  "trace (q, I) as (q', I') \<Longrightarrow> queue_ok I q \<Longrightarrow> r \<in> set q \<Longrightarrow> \<exists>r' \<in> set q'. successor r r'"
proof (induction "(q, I)" as "(q', I')" arbitrary: q I r rule: trace.induct)
  case trace_nil
  then show ?case using successor_refl by blast
next
  case (trace_step a I q as)
  have d: "distinct (map item_id q)" using trace_step.prems(1) by (simp add: queue_ok_def)
  have "row_op a q r \<in> set (apply_op a q)"
    using trace_step.prems(2) by (simp add: apply_op_rows [OF d])
  from trace_step.hyps(3) [OF queue_ok_step [OF trace_step.prems(1) trace_step.hyps(1)] this]
  obtain r' where "r' \<in> set q'" "successor (row_op a q r) r'" by blast
  with successor_row_op [OF d trace_step.prems(2)] successor_trans show ?case by blast
qed

text \<open>The reading of the clock an operation makes, and the lease id it is called with.\<close>

fun clock :: "'p op \<Rightarrow> rat" where
  "clock (Enqueue now fresh p prio iid) = now"
| "clock (Lease now fresh w t m) = now"
| "clock (Renew now lid t) = now"
| "clock (Complete now lid) = now"
| "clock (Release now lid) = now"
| "clock (Fail now lid) = now"
| "clock (Sweep now m) = now"

fun uses_lease :: "'p op \<Rightarrow> string \<Rightarrow> bool" where
  "uses_lease (Renew now lid t) l \<longleftrightarrow> lid = l"
| "uses_lease (Complete now lid) l \<longleftrightarrow> lid = l"
| "uses_lease (Release now lid) l \<longleftrightarrow> lid = l"
| "uses_lease (Fail now lid) l \<longleftrightarrow> lid = l"
| "uses_lease _ l \<longleftrightarrow> False"

lemma unexpired_row_op:
  assumes "distinct (map item_id q)" and "r \<in> set q" and "status r = Leased"
    and "lease_id r = Some l" and "lease_until r = Some u" and "clock a \<le> u"
    and "\<not> uses_lease a l"
  shows "row_op a q r = r"
proof (cases a)
  case (Lease now fresh w t m)
  have "\<not> eligible now m r" using assms Lease by (simp add: eligible_def expired_def)
  moreover have "eligible now m r" if "select_next now m q = Some row" "item_id r = item_id row" for row
    using that select_next_Some(1,2) [OF that(1)] assms(1,2)
    by (auto simp: distinct_map inj_on_def)
  ultimately show ?thesis using Lease by (auto split: option.split)
qed (use assms in \<open>auto simp: expired_def\<close>)

lemma unexpired_trace:
  "trace (q, I) as (q', I') \<Longrightarrow> queue_ok I q \<Longrightarrow> r \<in> set q \<Longrightarrow> status r = Leased \<Longrightarrow>
    lease_id r = Some l \<Longrightarrow> lease_until r = Some u \<Longrightarrow>
    \<forall>a \<in> set as. clock a \<le> u \<and> \<not> uses_lease a l \<Longrightarrow> r \<in> set q'"
proof (induction "(q, I)" as "(q', I')" arbitrary: q I rule: trace.induct)
  case (trace_step a I q as)
  have d: "distinct (map item_id q)" using trace_step.prems(1) by (simp add: queue_ok_def)
  have "row_op a q r = r"
    using trace_step.prems by (intro unexpired_row_op [OF d]) auto
  then have "r \<in> set (apply_op a q)"
    using trace_step.prems(2) by (force simp: apply_op_rows [OF d])
  with trace_step queue_ok_step [OF trace_step.prems(1) trace_step.hyps(1)] show ?case by simp
qed simp

section \<open>Draining the queue\<close>

fun lease_many :: "rat \<Rightarrow> string \<Rightarrow> rat \<Rightarrow> int \<Rightarrow> string list \<Rightarrow> 'p queue \<Rightarrow>
    'p queue \<times> 'p grant option list" where
  "lease_many now w t m [] q = (q, [])"
| "lease_many now w t m (f # fs) q =
     (let (q1, g) = lease now f w t m q;
          (q2, gs) = lease_many now w t m fs q1
      in (q2, g # gs))"

lemma filter_remove_id:
  "distinct (map item_id (r # rs)) \<Longrightarrow> filter (\<lambda>s. item_id s \<noteq> item_id r) (r # rs) = rs"
  by (auto simp: filter_id_conv image_iff)

lemma lease_drains_head:
  assumes d: "distinct (map item_id q)" and t: "0 \<le> t"
    and s: "sort_key rank_of (filter (eligible now m) q) = r # rs"
    and q': "q' = fst (lease now f w t m q)"
  shows "sort_key rank_of (filter (eligible now m) q') = rs"
proof -
  let ?g = "\<lambda>x. if item_id x = item_id r
    then x\<lparr>status := Leased, worker_id := Some w, lease_id := Some (''lease-'' @ f),
           lease_until := Some (now + t), attempts := attempts x + 1, updated_at := now\<rparr> else x"
  have "q' = map ?g q"
    using s by (simp add: q' lease_def select_next_def Let_def update_where_def)
  moreover have "filter (eligible now m) (map ?g q)
      = filter (\<lambda>x. item_id x \<noteq> item_id r) (filter (eligible now m) q)"
    using t by (induction q) (auto simp: eligible_def expired_def)
  moreover have d': "distinct (map item_id (r # rs))"
  proof -
    have "mset (map item_id (r # rs)) = mset (map item_id (filter (eligible now m) q))"
      using s by (metis mset_map mset_sort)
    with distinct_map_filter [OF d] show ?thesis by (metis mset_eq_imp_distinct_iff)
  qed
  ultimately have "sort_key rank_of (filter (eligible now m) q')
      = filter (\<lambda>x. item_id x \<noteq> item_id r) (r # rs)"
    using filter_sort [of "\<lambda>x. item_id x \<noteq> item_id r" rank_of "filter (eligible now m) q"]
    by (simp only: s)
  with filter_remove_id [OF d'] show ?thesis by simp
qed


lemma replicate_diff: "k < n \<Longrightarrow> replicate (n - k) x = x # replicate (n - Suc k) x"
  by (metis Suc_diff_Suc replicate_Suc)

lemma lease_many_grants:
  assumes "distinct (map item_id q)" and "0 \<le> t"
  shows "map (map_option g_item_id) (snd (lease_many now w t m fs q))
    = take (length fs) (map (\<lambda>r. Some (item_id r)) (sort_key rank_of (filter (eligible now m) q))
        @ replicate (length fs) None)"
  using assms(1)
proof (induction fs arbitrary: q)
  case Nil
  then show ?case by simp
next
  case (Cons f fs)
  define q1 where "q1 = fst (lease now f w t m q)"
  have un: "snd (lease_many now w t m (f # fs) q)
      = snd (lease now f w t m q) # snd (lease_many now w t m fs q1)"
    by (simp add: Let_def split_beta q1_def)
  have d1: "distinct (map item_id q1)"
    using Cons.prems apply_op_rows [OF Cons.prems, of "Lease now f w t m"]
      map_ids_row_op [of "Lease now f w t m" q]
    by (simp only: q1_def inserted_def op.case append_Nil2 apply_op.simps)
  show ?case
  proof (cases "sort_key rank_of (filter (eligible now m) q)")
    case Nil
    then have "lease now f w t m q = (q, None)" by (simp add: lease_def select_next_def)
    with Cons.IH [OF d1] Nil show ?thesis unfolding un q1_def by simp
  next
    case (Cons r rs)
    then have "map_option g_item_id (snd (lease now f w t m q)) = Some (item_id r)"
      by (simp add: lease_def select_next_def Let_def)
    with Cons.IH [OF d1] lease_drains_head [OF Cons.prems assms(2) Cons q1_def] Cons
    show ?thesis unfolding un by (auto simp: take_Cons' replicate_diff)
  qed
qed

section \<open>Properties\<close>

text \<open>
  C24. A superseded lease is powerless: when an item leased under one id is later leased again,
  then in every later state completing, failing, renewing or releasing with the first id
  answers False and changes nothing.
\<close>

theorem stale_lease_powerless:
  assumes "trace ([], {}) as1 (q1, I1)"
    and "lease n1 f1 w1 t1 m1 q1 = (q2, Some g)" and "''lease-'' @ f1 \<notin> I1"
    and "trace (q2, insert (''lease-'' @ f1) I1) as2 (q3, I3)"
    and "lease n2 f2 w2 t2 m2 q3 = (q4, Some h)" and "''lease-'' @ f2 \<notin> I3"
    and "trace (q4, insert (''lease-'' @ f2) I3) as3 (q5, I5)"
    and "g_item_id h = g_item_id g"
  shows "complete now (g_lease_id g) q5 = (q5, False) \<and> fail now (g_lease_id g) q5 = (q5, False)
    \<and> renew now (g_lease_id g) t q5 = (q5, False) \<and> release now (g_lease_id g) q5 = (q5, False)"
proof -
  let ?l = "g_lease_id g"
  from queue_ok_trace [OF assms(1) queue_ok_empty] have ok1: "queue_ok I1 q1" by simp
  note g = lease_grant [OF assms(2) ok1 assms(3)]
  have ok2: "queue_ok (insert (''lease-'' @ f1) I1) q2" using queue_ok_trace [OF g(1) ok1] by simp
  from queue_ok_trace [OF assms(4) ok2] g(2) have ok3: "queue_ok I3 q3" and l3: "?l \<in> I3" by auto
  have "held_by ?l (g_item_id g) q3"
    using held_by_trace [OF assms(4) ok2 _ g(3)] g(2) by simp
  moreover note h = lease_grant [OF assms(5) ok3 assms(6)]
  ultimately have "unheld ?l q4" using assms(8) l3 by auto
  moreover have "queue_ok (insert (''lease-'' @ f2) I3) q4" using queue_ok_trace [OF h(1) ok3] by simp
  ultimately have "unheld ?l q5" using unheld_trace [OF assms(7)] l3 by simp
  then show ?thesis by (simp add: unheld_powerless)
qed

text \<open>
  C25. Leases are exclusive: while the clock has not passed the end of a lease, and nobody uses
  its id, the leased row stays exactly as it is whatever the other workers, sweeps and
  insertions do, so no other worker is granted the item.
\<close>

theorem lease_exclusive:
  assumes "trace ([], {}) as1 (q1, I1)" and "r \<in> set q1" and "status r = Leased"
    and "lease_id r = Some l" and "lease_until r = Some u"
    and "trace (q1, I1) as2 (q2, I2)" and "\<forall>a \<in> set as2. clock a \<le> u \<and> \<not> uses_lease a l"
  shows "r \<in> set q2"
  using unexpired_trace [OF assms(6) _ assms(2-5,7)] queue_ok_trace [OF assms(1) queue_ok_empty]
  by simp

text \<open>
  C27. No item is ever lost: every row survives every execution with its id, payload, priority
  and creation time, and a done or failed row stays done or failed and is never leased again
  (its worker, lease id and attempt count do not change).
\<close>

theorem items_persist:
  assumes "trace ([], {}) as1 (q1, I1)" and "r \<in> set q1" and "trace (q1, I1) as2 (q2, I2)"
  shows "\<exists>r' \<in> set q2. item_id r' = item_id r \<and> payload r' = payload r \<and> priority r' = priority r
    \<and> created_at r' = created_at r \<and> attempts r \<le> attempts r'
    \<and> (status r = Done \<or> status r = Failed \<longrightarrow> (status r' = Done \<or> status r' = Failed)
         \<and> worker_id r' = worker_id r \<and> lease_id r' = lease_id r \<and> attempts r' = attempts r)"
  using successor_trace [OF assms(3) _ assms(2)] queue_ok_trace [OF assms(1) queue_ok_empty]
  by (auto simp: successor_def terminal_def)

text \<open>
  Repeated leases at one time with a non-negative timeout hand out each eligible item once,
  highest priority first and oldest first among equals, and then answer None.
\<close>

theorem lease_drains_in_order:
  assumes "trace ([], {}) as (q, I)" and "0 \<le> t"
  shows "map (map_option g_item_id) (snd (lease_many now w t m fs q))
    = take (length fs) (map (\<lambda>r. Some (item_id r)) (sort_key rank_of (filter (eligible now m) q))
        @ replicate (length fs) None)"
  using queue_ok_trace [OF assms(1) queue_ok_empty]
  by (intro lease_many_grants assms(2)) (simp add: queue_ok_def)


text \<open>A small execution for the witnesses: one item is enqueued and leased by worker w.\<close>

definition ex_item :: "string \<Rightarrow> rat \<Rightarrow> rat \<Rightarrow> int \<Rightarrow> nat row" where
  "ex_item lid now until n = \<lparr>item_id = ''a'', payload = 7, priority = 0, status = Leased,
     worker_id = Some ''w'', lease_id = Some lid, lease_until = Some until,
     created_at = 0, updated_at = now, attempts = n\<rparr>"

lemma ex_enqueue:
  "trace ([], {}) [Enqueue 0 ''x'' 7 0 (Some ''a'')]
     ([\<lparr>item_id = ''a'', payload = 7 :: nat, priority = 0, status = Pending, worker_id = None,
        lease_id = None, lease_until = None, created_at = 0, updated_at = 0, attempts = 0\<rparr>], {})"
  by (rule trace_step) (auto simp: enqueue_def Let_def intro: trace_nil)

lemma ex_leased:
  "trace ([], {}) [Enqueue 0 ''x'' 7 0 (Some ''a''), Lease 1 ''u'' ''w'' 10 3]
     ([ex_item ''lease-u'' 1 11 1], {''lease-u''})"
  by (rule trace_step)
    (auto simp: enqueue_def lease_def select_next_def eligible_def update_where_def Let_def ex_item_def
      intro!: trace_step intro: trace_nil)

theorem stale_lease_powerless_witness:
  "complete 30 ''lease-u'' [ex_item ''lease-v'' 20 30 2] = ([ex_item ''lease-v'' 20 30 2], False)
    \<and> fail 30 ''lease-u'' [ex_item ''lease-v'' 20 30 2] = ([ex_item ''lease-v'' 20 30 2], False)"
proof -
  let ?g = "\<lambda>lid n. \<lparr>g_item_id = ''a'', g_lease_id = lid, g_payload = 7 :: nat, g_attempts = n\<rparr>"
  have 1: "lease 1 ''u'' ''w'' 10 3
      [\<lparr>item_id = ''a'', payload = 7 :: nat, priority = 0, status = Pending, worker_id = None,
        lease_id = None, lease_until = None, created_at = 0, updated_at = 0, attempts = 0\<rparr>]
      = ([ex_item ''lease-u'' 1 11 1], Some (?g ''lease-u'' 1))"
    by (simp add: lease_def select_next_def eligible_def update_where_def Let_def ex_item_def)
  have 2: "lease 20 ''v'' ''w'' 10 3 [ex_item ''lease-u'' 1 11 1]
      = ([ex_item ''lease-v'' 20 30 2], Some (?g ''lease-v'' 2))"
    by (simp add: lease_def select_next_def eligible_def expired_def update_where_def Let_def ex_item_def)
  show ?thesis
    using stale_lease_powerless [OF ex_enqueue 1 _ trace_nil 2 _ trace_nil, of 30 10] by simp
qed

theorem lease_exclusive_witness:
  "ex_item ''lease-u'' 1 11 1 \<in> set (fst (lease 5 ''v'' ''z'' 10 3 [ex_item ''lease-u'' 1 11 1]))"
proof -
  have "trace ([ex_item ''lease-u'' 1 11 1], {''lease-u''}) [Lease 5 ''v'' ''z'' 10 3]
      (fst (lease 5 ''v'' ''z'' 10 3 [ex_item ''lease-u'' 1 11 1]), {''lease-u''} \<union> {''lease-v''})"
    by (rule trace_step) (simp_all add: trace_nil)
  from lease_exclusive [OF ex_leased _ _ _ _ this, of "ex_item ''lease-u'' 1 11 1" "''lease-u''" 11]
  show ?thesis by (simp add: ex_item_def)
qed

theorem items_persist_witness:
  "\<exists>r' \<in> set [ex_item ''lease-u'' 1 11 1]. item_id r' = ''a'' \<and> payload r' = 7 \<and> attempts r' \<ge> 1"
  using items_persist [OF ex_leased _ trace_nil, of "ex_item ''lease-u'' 1 11 1"]
  by (simp add: ex_item_def)

theorem lease_drains_in_order_witness:
  "map (map_option g_item_id) (snd (lease_many 20 ''z'' 5 3 [''p'', ''q''] [ex_item ''lease-u'' 1 11 1]))
    = [Some ''a'', None]"
  using lease_drains_in_order [OF ex_leased, of 5 20 "''z''" 3 "[''p'', ''q'']"]
  by (simp add: ex_item_def eligible_def expired_def)

end
