(* ===== verification/EventSink.thy ===== *)
theory EventSink
  imports Obase_Prelude
begin

text \<open>
  The interface through which a client writes audit events: an operation that may fail and the
  log it extends. The contract says that on a well-formed sink an emission the sink accepts succeeds, keeps the
  sink well-formed and appends exactly one event. Clients prove their event-sourcing lemmas
  inside it; the append-only store provides it.
\<close>

locale event_sink =
  fixes emit :: "'env \<Rightarrow> string \<Rightarrow> 'p \<Rightarrow> 'st \<Rightarrow> 'err + 'st"
    and log :: "'st \<Rightarrow> (string \<times> 'p) list"
    and inv :: "'st \<Rightarrow> bool"
    and accepts :: "'env \<Rightarrow> string \<Rightarrow> 'p \<Rightarrow> bool"
  assumes emit_ok: "inv st \<Longrightarrow> accepts env t p \<Longrightarrow> \<exists>st'. emit env t p st = Inr st' \<and> inv st' \<and> log st' = log st @ [(t, p)]"
begin

lemma emit_Inr:
  assumes "emit env t p st = Inr st'" and "inv st" and "accepts env t p"
  shows "inv st'" and "log st' = log st @ [(t, p)]"
  using emit_ok [OF assms(2,3)] assms(1) by auto

lemma emit_not_Inl: "inv st \<Longrightarrow> accepts env t p \<Longrightarrow> emit env t p st \<noteq> Inl e"
  using emit_ok [of st env t p] by auto

end

end
