(* ===== verification/Python_Text.thy ===== *)
theory Python_Text
  imports Obase_Prelude
begin

text \<open>
  The text methods of Python the components share, over 8-bit texts: stripping, ASCII case mapping,
  splitting at a separator and joining, suffix tests. White space is what \<^verbatim>\<open>str.isspace\<close>
  accepts in that range.
\<close>

definition white_space :: "char \<Rightarrow> bool" where
  "white_space c \<longleftrightarrow> (of_char c :: nat) \<in> {9, 10, 11, 12, 13, 28, 29, 30, 31, 32, 133, 160}"

definition strip :: "string \<Rightarrow> string" where
  "strip s = rev (dropWhile white_space (rev (dropWhile white_space s)))"

definition blank :: "string \<Rightarrow> bool" where
  "blank s \<longleftrightarrow> (\<forall>c \<in> set s. white_space c)"

definition lower_char :: "char \<Rightarrow> char" where
  "lower_char c = (let n = (of_char c :: nat) in if 65 \<le> n \<and> n \<le> 90 then char_of (n + 32) else c)"

definition upper_char :: "char \<Rightarrow> char" where
  "upper_char c = (let n = (of_char c :: nat) in if 97 \<le> n \<and> n \<le> 122 then char_of (n - 32) else c)"

definition has_suffix :: "string \<Rightarrow> string \<Rightarrow> bool" where
  "has_suffix s suf \<longleftrightarrow> length suf \<le> length s \<and> drop (length s - length suf) s = suf"

fun split_on :: "char \<Rightarrow> string \<Rightarrow> string list" where
  "split_on d [] = [[]]"
| "split_on d (c # cs) =
     (if c = d then [] # split_on d cs
      else (case split_on d cs of [] \<Rightarrow> [[c]] | p # ps \<Rightarrow> (c # p) # ps))"

text \<open>\<^verbatim>\<open>s.split()\<close>: the maximal runs without white space.\<close>

fun words_from :: "string \<Rightarrow> string \<Rightarrow> string list" where
  "words_from acc [] = (if acc = [] then [] else [rev acc])"
| "words_from acc (c # cs) =
     (if white_space c then (if acc = [] then words_from [] cs else rev acc # words_from [] cs)
      else words_from (c # acc) cs)"

definition words :: "string \<Rightarrow> string list" where
  "words s = words_from [] s"

definition has_prefix :: "string \<Rightarrow> string \<Rightarrow> bool" where
  "has_prefix s p \<longleftrightarrow> take (length p) s = p"

fun is_infix :: "string \<Rightarrow> string \<Rightarrow> bool" where
  "is_infix p [] = (p = [])"
| "is_infix p (c # cs) \<longleftrightarrow> take (length p) (c # cs) = p \<or> is_infix p cs"

text \<open>\<^verbatim>\<open>s.split(sep, 1)\<close> at the first occurrence.\<close>

fun cut :: "string \<Rightarrow> string \<Rightarrow> (string \<times> string) option" where
  "cut d [] = (if d = [] then Some ([], []) else None)"
| "cut d (c # cs) = (if has_prefix (c # cs) d then Some ([], drop (length d) (c # cs))
     else map_option (\<lambda>(a, b). (c # a, b)) (cut d cs))"

text \<open>\<^verbatim>\<open>s.splitlines()\<close>, up to empty lines between the two characters of a line end.\<close>

definition line_break :: "char \<Rightarrow> bool" where
  "line_break c \<longleftrightarrow> (of_char c :: nat) \<in> {10, 11, 12, 13, 28, 29, 30, 133}"

fun split_lines :: "string \<Rightarrow> string \<Rightarrow> string list" where
  "split_lines acc [] = (if acc = [] then [] else [rev acc])"
| "split_lines acc (c # cs) =
     (if line_break c then rev acc # split_lines [] cs else split_lines (c # acc) cs)"

fun join_with :: "char \<Rightarrow> string list \<Rightarrow> string" where
  "join_with d [] = []"
| "join_with d [p] = p"
| "join_with d (p # q # ps) = p @ d # join_with d (q # ps)"

text \<open>\<^verbatim>\<open>int(s)\<close>: a sign, then decimal digits with single underscores between them.\<close>

definition is_digit :: "char \<Rightarrow> bool" where
  "is_digit c \<longleftrightarrow> 48 \<le> (of_char c :: nat) \<and> (of_char c :: nat) \<le> 57"

fun digits_read :: "bool \<Rightarrow> nat \<Rightarrow> string \<Rightarrow> nat option" where
  "digits_read p v [] = (if p then Some v else None)"
| "digits_read p v (c # cs) = (if is_digit c then digits_read True (10 * v + (of_char c - 48)) cs
     else if c = CHR ''_'' \<and> p then digits_read False v cs else None)"

definition py_int :: "string \<Rightarrow> int option" where
  "py_int s = (case strip s of [] \<Rightarrow> None
     | c # cs \<Rightarrow> if c = CHR ''-'' then map_option (\<lambda>n. - int n) (digits_read False 0 cs)
         else if c = CHR ''+'' then map_option int (digits_read False 0 cs) else map_option int (digits_read False 0 (c # cs)))"

section \<open>Splitting and joining\<close>

lemma split_on_ne [simp]: "split_on d s \<noteq> []"
  by (induction s) (auto split: list.splits)

lemma join_split: "join_with d (split_on d s) = s"
proof (induction s)
  case (Cons c cs)
  obtain p ps where p: "split_on d cs = p # ps" by (cases "split_on d cs") auto
  with Cons show ?case by (cases ps) auto
qed simp

lemma split_on_single: "d \<notin> set s \<Longrightarrow> split_on d s = [s]"
  by (induction s) auto

lemma split_on_append: "d \<notin> set p \<Longrightarrow> split_on d (p @ d # s) = p # split_on d s"
  by (induction p) auto

lemma split_on_parts: "p \<in> set (split_on d s) \<Longrightarrow> d \<notin> set p"
proof (induction s arbitrary: p)
  case (Cons c cs)
  then show ?case by (auto split: if_splits list.splits)
qed simp

lemma split_on_chars: "set s \<subseteq> insert d (\<Union>p \<in> set (split_on d s). set p)"
proof (induction s)
  case (Cons c cs)
  obtain p ps where p: "split_on d cs = p # ps" by (cases "split_on d cs") auto
  then show ?case
  proof (cases "c = d")
    case True
    with Cons p show ?thesis by (simp add: insert_commute)
  next
    case False
    with p have "(\<Union>p \<in> set (split_on d (c # cs)). set p) = insert c (\<Union>p \<in> set (split_on d cs). set p)" by simp
    with Cons show ?thesis by (simp only: list.set(2)) blast
  qed
qed simp

lemma split_on_subset: "p \<in> set (split_on d s) \<Longrightarrow> set p \<subseteq> set s"
proof (induction s arbitrary: p)
  case (Cons c cs)
  then show ?case by (cases "split_on d cs") (fastforce split: if_splits)+
qed simp

lemma split_on_length: "d \<in> set s \<Longrightarrow> 1 < length (split_on d s)"
proof (induction s)
  case (Cons c cs)
  then show ?case by (cases "split_on d cs") (auto split: if_splits)
qed simp

text \<open>A text that splits into two or three parts is those parts joined.\<close>

lemma split_two: "split_on d s = [a, b] \<Longrightarrow> s = a @ d # b"
  using join_split [of d s] by simp

lemma split_three: "split_on d s = [a, b, c] \<Longrightarrow> s = a @ d # b @ d # c"
  using join_split [of d s] by simp

section \<open>Stripping\<close>

lemma dropWhile_hd: "(case dropWhile P xs of [] \<Rightarrow> True | x # _ \<Rightarrow> \<not> P x)"
  by (induction xs) auto

lemma dropWhile_again [simp]: "dropWhile P (dropWhile P xs) = dropWhile P xs"
  by (induction xs) auto

lemma dropWhile_rev_dropWhile:
  assumes "dropWhile P xs = xs"
  shows "dropWhile P (rev (dropWhile P (rev xs))) = rev (dropWhile P (rev xs))"
proof (cases "rev (dropWhile P (rev xs))")
  case (Cons y ys)
  have "xs = rev (dropWhile P (rev xs)) @ rev (takeWhile P (rev xs))"
    by (metis rev_append rev_rev_ident takeWhile_dropWhile_id)
  then have "xs = y # (ys @ rev (takeWhile P (rev xs)))" by (simp only: Cons append_Cons)
  with assms have "\<not> P y" by (metis dropWhile.simps(2) dropWhile_eq_self_iff list.sel(1) list.discI)
  then show ?thesis by (simp only: Cons dropWhile.simps if_False)
next
  case Nil
  show ?thesis by (simp only: Nil dropWhile.simps)
qed

lemma strip_idem [simp]: "strip (strip s) = strip s"
proof -
  let ?u = "dropWhile white_space s"
  have "dropWhile white_space (rev (dropWhile white_space (rev ?u))) = rev (dropWhile white_space (rev ?u))"
    by (rule dropWhile_rev_dropWhile) simp
  then show ?thesis by (simp add: strip_def)
qed

lemma strip_empty_iff: "strip s = '''' \<longleftrightarrow> blank s"
proof
  assume "strip s = ''''"
  then have "\<forall>c \<in> set (dropWhile white_space s). white_space c" by (simp add: strip_def)
  then have "dropWhile white_space (dropWhile white_space s) = []" by (simp only: dropWhile_eq_Nil_conv)
  then show "blank s" by (simp add: blank_def)
next
  assume "blank s"
  then have "dropWhile white_space s = []" by (simp add: blank_def)
  then show "strip s = ''''" by (simp only: strip_def) simp
qed

lemma length_strip: "length (strip s) \<le> length s"
  unfolding strip_def length_rev using length_dropWhile_le order_trans length_rev by metis

lemma strip_id: "s \<noteq> [] \<Longrightarrow> \<not> white_space (hd s) \<Longrightarrow> \<not> white_space (last s) \<Longrightarrow> strip s = s"
proof -
  assume s: "s \<noteq> []" "\<not> white_space (hd s)" "\<not> white_space (last s)"
  then have "dropWhile white_space s = s" by (cases s) auto
  moreover have "dropWhile white_space (rev s) = rev s" using s(1,3) by (cases s rule: rev_cases) auto
  ultimately show ?thesis by (simp add: strip_def)
qed

lemma strip_fixed: "strip s = s \<Longrightarrow> dropWhile white_space s = s \<and> dropWhile white_space (rev s) = rev s"
proof -
  assume p: "strip s = s"
  have "length s \<le> length (dropWhile white_space s)"
    using p length_dropWhile_le [of white_space "rev (dropWhile white_space s)"] by (metis strip_def length_rev)
  moreover have "length s = length (takeWhile white_space s) + length (dropWhile white_space s)"
    by (metis length_append takeWhile_dropWhile_id)
  ultimately have "takeWhile white_space s = []" by simp
  then have s1: "dropWhile white_space s = s" by (metis append_Nil takeWhile_dropWhile_id)
  then show ?thesis using p by (metis strip_def rev_rev_ident)
qed

lemma strip_ends: "strip s = s \<Longrightarrow> s \<noteq> [] \<Longrightarrow> \<not> white_space (hd s) \<and> \<not> white_space (last s)"
  using strip_fixed [of s] by (metis hd_dropWhile hd_rev rev_is_Nil_conv)

lemma strip_padded: "blank a \<Longrightarrow> blank b \<Longrightarrow> strip s = s \<Longrightarrow> strip (a @ s @ b) = s"
proof (cases "s = []")
  case True
  assume "blank a" "blank b"
  then have "blank (a @ s @ b)" using True by (auto simp: blank_def)
  then show ?thesis using strip_empty_iff True by simp
next
  case False
  assume p: "blank a" "blank b" "strip s = s"
  have d: "dropWhile white_space (a @ t) = dropWhile white_space t" "dropWhile white_space (rev b @ t) = dropWhile white_space t" for t
    using p(1,2) dropWhile_append2 [of a white_space t] dropWhile_append2 [of "rev b" white_space t] by (simp_all add: blank_def)
  have s1: "dropWhile white_space s = s" and s2: "dropWhile white_space (rev s) = rev s" using strip_fixed [OF p(3)] by simp_all
  have "\<not> white_space (hd s)" using s1 False by (metis hd_dropWhile)
  then have "dropWhile white_space (s @ b) = s @ b" using False by (cases s) auto
  then show ?thesis using d s2 False by (simp add: strip_def dropWhile_append) 
qed

lemma strip_space: "strip (CHR '' '' # s) = strip s"
  by (simp add: strip_def white_space_def)

lemma strip_subset: "set (strip s) \<subseteq> set s"
  by (auto simp: strip_def dest!: set_dropWhileD)

lemma join_with_last: "\<exists>t. join_with d (xs @ [y]) = t @ y"
proof (induction xs)
  case (Cons p xs)
  then obtain t where "join_with d (xs @ [y]) = t @ y" by blast
  moreover have "join_with d (p # qs) = p @ d # join_with d qs" if "qs \<noteq> []" for qs using that by (cases qs) auto
  ultimately show ?case by (intro exI [of _ "p @ d # t"]) simp
qed simp

end
