(* ===== verification/EventStore.thy ===== *)
theory EventStore
  imports EventSink Python_Text "HOL-Library.Countable"
begin

text \<open>
  The append-only event store of \<^verbatim>\<open>obase/loop_event_store.py\<close>. The JSONL file is the list of
  its lines at JSON document granularity: a decoded row, an undecodable text or a blank one.
  The code reads the file in two ways. Iterating over it (\<open>_read_all\<close>) ends a line at the line feed only;
  \<^verbatim>\<open>splitlines()\<close> (\<open>latest\<close>, \<open>count\<close>, \<open>_read_head\<close>, \<open>_find_dedupe\<close>, \<open>migrate\<close>) also cuts it at the other
  line ends, of which U+0085 (and, beyond 8-bit texts, U+2028 and U+2029) can stand in a row, since
  \<^verbatim>\<open>json.dumps(..., ensure_ascii=False)\<close> writes them as they are. So a line holds what it decodes to as a
  whole, and its pieces.
  A row's keys may be missing, since the code checks for that; a present key has the type the
  code writes. \<open>codec\<close> holds the rendering of rows, payloads and floats, the decoding of a text and the
  SHA-256 function.
\<close>

section \<open>Rows and lines\<close>

record 'p event =
  e_v :: "int option"
  e_seq :: "int option"
  e_id :: "string option"
  e_ts :: "rat option"
  e_type :: "string option"
  e_payload :: "'p option"
  e_prev :: "string option"
  e_hash :: "string option"
  e_dedupe :: "string option"

datatype 'p doc = Row "'p event" | Garbage | Blank

datatype 'p line = Line (whole: "'p doc") (pieces: "'p doc list")

record 'p codec =
  row_text :: "'p event \<Rightarrow> string"
  decode :: "string \<Rightarrow> 'p doc"
  dumps :: "'p \<Rightarrow> string"
  float_str :: "rat \<Rightarrow> string"
  sha :: "string \<Rightarrow> string"
  empty_doc :: 'p

definition empty_event :: "'p event" where
  "empty_event = \<lparr>e_v = None, e_seq = None, e_id = None, e_ts = None, e_type = None,
     e_payload = None, e_prev = None, e_hash = None, e_dedupe = None\<rparr>"

definition GENESIS :: string where
  "GENESIS = ''genesis''"

definition raw_row :: "'p codec \<Rightarrow> string \<Rightarrow> int \<Rightarrow> string \<Rightarrow> rat \<Rightarrow> string \<Rightarrow> 'p \<Rightarrow> string" where
  "raw_row C prev seq eid ts ty p =
     prev @ ''|'' @ str_int seq @ ''|'' @ eid @ ''|'' @ float_str C ts @ ''|'' @ ty @ ''|'' @ dumps C p"

definition line_hash :: "'p codec \<Rightarrow> string \<Rightarrow> int \<Rightarrow> string \<Rightarrow> rat \<Rightarrow> string \<Rightarrow> 'p \<Rightarrow> string" where
  "line_hash C prev seq eid ts ty p = sha C (raw_row C prev seq eid ts ty p)"

text \<open>The line a row is written as.\<close>

definition row_line :: "'p codec \<Rightarrow> 'p event \<Rightarrow> 'p line" where
  "row_line C r = Line (decode C (row_text C r)) (map (decode C) (split_lines [] (row_text C r)))"

record 'p store =
  file_lines :: "'p line list"
  version :: int
  dedupe_map :: "(string, 'p event) dict option"

section \<open>Reading\<close>

datatype store_error =
    Malformed_line nat
  | Missing_fields nat
  | Schema_mismatch nat int
  | Prev_mismatch nat int
  | Seq_discontinuity nat int int
  | Hash_mismatch nat int
  | Cannot_migrate_down int
  | No_migration int
  | Key_error string

fun read_all :: "nat \<Rightarrow> 'p line list \<Rightarrow> store_error + 'p event list" where
  "read_all n [] = Inr []"
| "read_all n (l # ls) =
     (case whole l of
        Blank \<Rightarrow> read_all (Suc n) ls
      | Garbage \<Rightarrow> Inl (Malformed_line n)
      | Row r \<Rightarrow> (case read_all (Suc n) ls of Inl e \<Rightarrow> Inl e | Inr rs \<Rightarrow> Inr (r # rs)))"

text \<open>The documents of \<^verbatim>\<open>text.splitlines()\<close>.\<close>

definition split_docs :: "'p line list \<Rightarrow> 'p doc list" where
  "split_docs ls = concat (map pieces ls)"

text \<open>\<^verbatim>\<open>text.strip().splitlines()[-1]\<close>, decoded; undecodable reads None.\<close>

definition read_head :: "'p line list \<Rightarrow> 'p event option" where
  "read_head ls =
     (case filter (\<lambda>l. l \<noteq> Blank) (split_docs ls) of
        [] \<Rightarrow> None
      | ls' \<Rightarrow> (case last ls' of Row r \<Rightarrow> Some r | _ \<Rightarrow> None))"

definition latest :: "'p store \<Rightarrow> 'p event option" where
  "latest st = read_head (file_lines st)"

definition count :: "'p store \<Rightarrow> nat" where
  "count st = length (filter (\<lambda>l. l \<noteq> Blank) (split_docs (file_lines st)))"

section \<open>Verification\<close>

record verify_result =
  ok :: bool
  vcount :: nat
  error :: "store_error option"
  line_no :: "nat option"
  first_seq :: "int option"
  last_seq :: "int option"

text \<open>One iteration of the checking loop: the new \<open>prev_hash\<close> and \<open>prev_seq\<close>, or the failure.\<close>

definition check_row :: "'p codec \<Rightarrow> int \<Rightarrow> nat \<Rightarrow> string \<Rightarrow> int \<Rightarrow> 'p event \<Rightarrow>
    store_error + string \<times> int" where
  "check_row C ver i prev_hash prev_seq r =
     (case (e_v r, e_seq r, e_id r, e_ts r, e_type r, e_hash r) of
        (Some v, Some seq, Some eid, Some ts, Some ty, Some stored) \<Rightarrow>
          (let p = (case e_payload r of Some p \<Rightarrow> p | None \<Rightarrow> empty_doc C);
               stored_prev = (case e_prev r of Some h \<Rightarrow> h | None \<Rightarrow> '''')
           in if v \<noteq> ver then Inl (Schema_mismatch i v)
              else if stored_prev \<noteq> prev_hash then Inl (Prev_mismatch i seq)
              else if seq \<noteq> prev_seq + 1 then Inl (Seq_discontinuity i (prev_seq + 1) seq)
              else if stored \<noteq> line_hash C prev_hash seq eid ts ty p then Inl (Hash_mismatch i seq)
              else Inr (stored, seq))
      | _ \<Rightarrow> Inl (Missing_fields i))"

fun check_rows :: "'p codec \<Rightarrow> int \<Rightarrow> nat \<Rightarrow> string \<Rightarrow> int \<Rightarrow> 'p event list \<Rightarrow> (nat \<times> store_error) option" where
  "check_rows C ver i prev_hash prev_seq [] = None"
| "check_rows C ver i prev_hash prev_seq (r # rs) =
     (case check_row C ver i prev_hash prev_seq r of
        Inl e \<Rightarrow> Some (i, e)
      | Inr (h, s) \<Rightarrow> check_rows C ver (Suc i) h s rs)"

definition verify_rows :: "'p codec \<Rightarrow> int \<Rightarrow> 'p event list \<Rightarrow> verify_result" where
  "verify_rows C ver rows =
     (if rows = [] then \<lparr>ok = True, vcount = 0, error = None, line_no = None,
                          first_seq = None, last_seq = None\<rparr>
      else case check_rows C ver 1 GENESIS 0 rows of
             Some (i, e) \<Rightarrow> \<lparr>ok = False, vcount = 0, error = Some e, line_no = Some i,
                              first_seq = None, last_seq = None\<rparr>
           | None \<Rightarrow> \<lparr>ok = True, vcount = length rows, error = None, line_no = None,
                       first_seq = e_seq (hd rows), last_seq = e_seq (last rows)\<rparr>)"

definition verify :: "'p codec \<Rightarrow> 'p store \<Rightarrow> verify_result" where
  "verify C st =
     (case read_all 1 (file_lines st) of
        Inl e \<Rightarrow> \<lparr>ok = False, vcount = 0, error = Some e, line_no = None,
                  first_seq = None, last_seq = None\<rparr>
      | Inr rows \<Rightarrow> verify_rows C (version st) rows)"

definition replay :: "'p codec \<Rightarrow> 'p store \<Rightarrow> store_error + 'p event list" where
  "replay C st =
     (case read_all 1 (file_lines st) of
        Inl e \<Rightarrow> Inl e
      | Inr rows \<Rightarrow>
          (case error (verify_rows C (version st) rows) of
             Some e \<Rightarrow> Inl e | None \<Rightarrow> Inr rows))"

section \<open>Writing\<close>

definition make_row :: "'p codec \<Rightarrow> int \<Rightarrow> string \<Rightarrow> rat \<Rightarrow> string \<Rightarrow> 'p \<Rightarrow> int \<Rightarrow> string \<Rightarrow>
    string option \<Rightarrow> 'p event" where
  "make_row C ver eid ts ty p seq prev dedupe =
     \<lparr>e_v = Some ver, e_seq = Some seq, e_id = Some eid, e_ts = Some ts, e_type = Some ty,
      e_payload = Some p, e_prev = Some prev,
      e_hash = Some (line_hash C prev seq eid ts ty p), e_dedupe = dedupe\<rparr>"

text \<open>The file scan that fills the deduplication cache: a later row wins.\<close>

fun scan_dedupe :: "'p doc list \<Rightarrow> (string, 'p event) dict \<Rightarrow> (string, 'p event) dict" where
  "scan_dedupe [] d = d"
| "scan_dedupe (Row r # ls) d =
     scan_dedupe ls (case e_dedupe r of None \<Rightarrow> d | Some k \<Rightarrow> dict_set k r d)"
| "scan_dedupe (_ # ls) d = scan_dedupe ls d"

definition find_dedupe :: "string \<Rightarrow> 'p store \<Rightarrow> 'p store \<times> 'p event option" where
  "find_dedupe k st =
     (let d = (case dedupe_map st of None \<Rightarrow> scan_dedupe (split_docs (file_lines st)) [] | Some d \<Rightarrow> d)
      in (st\<lparr>dedupe_map := Some d\<rparr>, dict_get d k))"

definition append_row :: "'p codec \<Rightarrow> string \<Rightarrow> 'p \<Rightarrow> string option \<Rightarrow> string \<Rightarrow> rat \<Rightarrow>
    'p store \<Rightarrow> 'p store \<times> (store_error + 'p event)" where
  "append_row C ty p dedupe eid now st =
     (let head = (case read_head (file_lines st) of
                    None \<Rightarrow> Inr (0, GENESIS)
                  | Some h \<Rightarrow>
                      if h = empty_event then Inr (0, GENESIS)
                      else case (e_seq h, e_hash h) of
                             (None, _) \<Rightarrow> Inl (Key_error ''seq'')
                           | (_, None) \<Rightarrow> Inl (Key_error ''hash'')
                           | (Some s, Some hh) \<Rightarrow> Inr (s, hh))
      in case head of
           Inl e \<Rightarrow> (st, Inl e)
         | Inr (prev_seq, prev_hash) \<Rightarrow>
             (let row = make_row C (version st) eid now ty p (prev_seq + 1) prev_hash dedupe;
                  st1 = st\<lparr>file_lines := file_lines st @ [row_line C row]\<rparr>;
                  st2 = (case (dedupe_map st1, dedupe) of
                           (Some d, Some k) \<Rightarrow> st1\<lparr>dedupe_map := Some (dict_set k row d)\<rparr>
                         | _ \<Rightarrow> st1)
              in (st2, Inr row)))"

definition append_event :: "'p codec \<Rightarrow> string \<Rightarrow> 'p option \<Rightarrow> string option \<Rightarrow> string \<Rightarrow> rat \<Rightarrow>
    'p store \<Rightarrow> 'p store \<times> (store_error + 'p event)" where
  "append_event C ty payload dedupe eid now st =
     (let p = (case payload of None \<Rightarrow> empty_doc C | Some p \<Rightarrow> p)
      in case dedupe of
           None \<Rightarrow> append_row C ty p None eid now st
         | Some k \<Rightarrow>
             (let (st1, hit) = find_dedupe k st
              in case hit of
                   Some row \<Rightarrow> (st1, Inr row)
                 | None \<Rightarrow> append_row C ty p (Some k) eid now st1))"

section \<open>Migration\<close>

type_synonym 'p migrations = "int \<Rightarrow> ('p event \<Rightarrow> 'p event) option"

definition MIGRATIONS :: "'p migrations" where
  "MIGRATIONS = (\<lambda>_. None)"

definition EVENT_SCHEMA_VERSION :: int where
  "EVENT_SCHEMA_VERSION = 1"

text \<open>The while loop that lifts one row from \<open>ver\<close> to \<open>target\<close>, counting the steps.\<close>

function upgrade_row :: "'p migrations \<Rightarrow> int \<Rightarrow> int \<Rightarrow> 'p event \<Rightarrow> nat \<Rightarrow>
    store_error + 'p event \<times> nat" where
  "upgrade_row M target ver r n =
     (if ver < target
      then (case M ver of
              None \<Rightarrow> Inl (No_migration ver)
            | Some up \<Rightarrow> upgrade_row M target (ver + 1) ((up r)\<lparr>e_v := Some (ver + 1)\<rparr>) (Suc n))
      else Inr (r, n))"
  by pat_completeness auto
termination by (relation "measure (\<lambda>(M, target, ver, r, n). nat (target - ver))") auto

declare upgrade_row.simps [simp del]

definition relink_row :: "'p codec \<Rightarrow> string \<Rightarrow> 'p event \<Rightarrow> store_error + 'p event" where
  "relink_row C prev r =
     (case (e_seq r, e_id r, e_ts r, e_type r) of
        (Some seq, Some eid, Some ts, Some ty) \<Rightarrow>
          Inr (r\<lparr>e_prev := Some prev,
                 e_hash := Some (line_hash C prev seq eid ts ty
                   (case e_payload r of Some p \<Rightarrow> p | None \<Rightarrow> empty_doc C))\<rparr>)
      | (None, _) \<Rightarrow> Inl (Key_error ''seq'')
      | (_, None, _) \<Rightarrow> Inl (Key_error ''id'')
      | (_, _, None, _) \<Rightarrow> Inl (Key_error ''ts'')
      | _ \<Rightarrow> Inl (Key_error ''type''))"

fun migrate_lines :: "'p codec \<Rightarrow> 'p migrations \<Rightarrow> int \<Rightarrow> nat \<Rightarrow> string \<Rightarrow> 'p doc list \<Rightarrow>
    store_error + 'p event list \<times> nat" where
  "migrate_lines C M target i prev [] = Inr ([], 0)"
| "migrate_lines C M target i prev (Blank # ls) = migrate_lines C M target (Suc i) prev ls"
| "migrate_lines C M target i prev (Garbage # ls) = Inl (Malformed_line i)"
| "migrate_lines C M target i prev (Row r # ls) =
     (case upgrade_row M target (case e_v r of Some v \<Rightarrow> v | None \<Rightarrow> 1) r 0 of
        Inl e \<Rightarrow> Inl e
      | Inr (r1, n) \<Rightarrow>
          (case relink_row C prev r1 of
             Inl e \<Rightarrow> Inl e
           | Inr r2 \<Rightarrow>
               (case migrate_lines C M target (Suc i)
                       (case e_hash r2 of Some h \<Rightarrow> h | None \<Rightarrow> '''') ls of
                  Inl e \<Rightarrow> Inl e
                | Inr (out, m) \<Rightarrow> Inr (r2 # out, n + m))))"

definition migrate :: "'p codec \<Rightarrow> 'p migrations \<Rightarrow> int option \<Rightarrow> 'p store \<Rightarrow>
    'p store \<times> (store_error + nat)" where
  "migrate C M target_version st =
     (let target = (case target_version of
                      Some t \<Rightarrow> if t = 0 then version st else t | None \<Rightarrow> version st)
      in if target < EVENT_SCHEMA_VERSION then (st, Inl (Cannot_migrate_down target))
         else case migrate_lines C M target 1 GENESIS (split_docs (file_lines st)) of
                Inl e \<Rightarrow> (st, Inl e)
              | Inr (out, n) \<Rightarrow> (st\<lparr>file_lines := map (row_line C) out, dedupe_map := None\<rparr>, Inr n))"

section \<open>Intact files\<close>

definition doc_rows :: "'p doc list \<Rightarrow> 'p event list" where
  "doc_rows ds = concat (map (\<lambda>d. case d of Row r \<Rightarrow> [r] | _ \<Rightarrow> []) ds)"

text \<open>The rows of a file as \<open>_read_all\<close> reads them.\<close>

definition rows_of :: "'p line list \<Rightarrow> 'p event list" where
  "rows_of ls = doc_rows (map whole ls)"

definition readable :: "'p line list \<Rightarrow> bool" where
  "readable ls \<longleftrightarrow> Garbage \<notin> set (map whole ls)"

text \<open>A line without a line end inside: both readings agree on it.\<close>

definition plain :: "'p line \<Rightarrow> bool" where
  "plain l \<longleftrightarrow> pieces l = [whole l]"

lemma doc_rows_simps [simp]:
  "doc_rows [] = []" "doc_rows (Row r # ds) = r # doc_rows ds" "doc_rows (Garbage # ds) = doc_rows ds"
  "doc_rows (Blank # ds) = doc_rows ds" "doc_rows (ds @ ds') = doc_rows ds @ doc_rows ds'"
  by (simp_all add: doc_rows_def)

lemma rows_of_simps [simp]:
  "rows_of [] = []" "rows_of (l # ls) = (case whole l of Row r \<Rightarrow> [r] | _ \<Rightarrow> []) @ rows_of ls"
  "rows_of (ls @ ls') = rows_of ls @ rows_of ls'"
  by (simp_all add: rows_of_def split: doc.split)

lemma readable_simps [simp]:
  "readable []" "readable (l # ls) \<longleftrightarrow> whole l \<noteq> Garbage \<and> readable ls"
  "readable (ls @ ls') \<longleftrightarrow> readable ls \<and> readable ls'"
  by (auto simp: readable_def)

lemma read_all_clean: "readable ls \<Longrightarrow> read_all n ls = Inr (rows_of ls)"
  by (induction n ls rule: read_all.induct) (auto split: doc.splits)

lemma read_all_garbage: "\<not> readable ls \<Longrightarrow> \<exists>e. read_all n ls = Inl e"
  by (induction n ls rule: read_all.induct) (auto split: sum.split doc.split)

lemma split_docs_plain: "list_all plain ls \<Longrightarrow> split_docs ls = map whole ls"
  by (induction ls) (auto simp: split_docs_def plain_def)

lemma nonblank_rows: "Garbage \<notin> set ds \<Longrightarrow> filter (\<lambda>l. l \<noteq> Blank) ds = map Row (doc_rows ds)"
proof (induction ds)
  case (Cons d ds)
  then show ?case by (cases d) auto
qed simp

lemma read_head_rows:
  "readable ls \<Longrightarrow> list_all plain ls \<Longrightarrow> read_head ls = (if rows_of ls = [] then None else Some (last (rows_of ls)))"
  by (auto simp: read_head_def split_docs_plain nonblank_rows readable_def rows_of_def last_map split: list.split)

subsection \<open>Texts without line ends\<close>

definition clean :: "string \<Rightarrow> bool" where
  "clean s \<longleftrightarrow> list_all (\<lambda>c. \<not> line_break c) s"

text \<open>
  JSON escapes the control characters below U+0020, so of the line ends only U+0085 (and U+2028 and U+2029,
  beyond 8-bit texts) is written as it is. A row without it in any text is written without a line end.
\<close>

definition no_nel :: "string \<Rightarrow> bool" where
  "no_nel s \<longleftrightarrow> CHR 0x85 \<notin> set s"


definition row_clean :: "('p \<Rightarrow> string) \<Rightarrow> 'p event \<Rightarrow> bool" where
  "row_clean D r \<longleftrightarrow> pred_option no_nel (e_id r) \<and> pred_option no_nel (e_type r) \<and> pred_option no_nel (e_prev r)
     \<and> pred_option no_nel (e_hash r) \<and> pred_option no_nel (e_dedupe r) \<and> pred_option (\<lambda>p. no_nel (D p)) (e_payload r)"

text \<open>
  What the code relies on: a rendered row decodes to the row, is not empty, and has a line end only if a
  text in it has an unescaped one; and hashes, hexadecimal texts, have none.
\<close>

definition codec_ok :: "'p codec \<Rightarrow> bool" where
  "codec_ok C \<longleftrightarrow> (\<forall>r. decode C (row_text C r) = Row r \<and> row_text C r \<noteq> '''' \<and> (row_clean (dumps C) r \<longrightarrow> clean (row_text C r)))
     \<and> (\<forall>x. no_nel (sha C x))"

lemma split_lines_clean: "clean s \<Longrightarrow> split_lines acc s = (if acc = [] \<and> s = [] then [] else [rev acc @ s])"
  by (induction acc s rule: split_lines.induct) (auto simp: clean_def)

lemma row_line_whole: "codec_ok C \<Longrightarrow> whole (row_line C r) = Row r"
  by (simp add: codec_ok_def row_line_def)

lemma row_line_plain: "codec_ok C \<Longrightarrow> row_clean (dumps C) r \<Longrightarrow> plain (row_line C r)"
  by (simp add: codec_ok_def row_line_def plain_def split_lines_clean)

lemma rows_of_row_lines: "codec_ok C \<Longrightarrow> rows_of (map (row_line C) rs) = rs \<and> readable (map (row_line C) rs)"
  by (induction rs) (auto simp: row_line_whole)

fun chain_end :: "string \<Rightarrow> int \<Rightarrow> 'p event list \<Rightarrow> string \<times> int" where
  "chain_end h s [] = (h, s)"
| "chain_end h s (r # rs) = chain_end (the (e_hash r)) (the (e_seq r)) rs"

lemma chain_end_snoc [simp]: "chain_end h s (rs @ [r]) = (the (e_hash r), the (e_seq r))"
  by (induction rs arbitrary: h s) auto

lemma check_row_some:
  assumes "e_v r = Some v" and "e_seq r = Some seq" and "e_id r = Some eid" and "e_ts r = Some ts"
    and "e_type r = Some ty" and "e_hash r = Some stored"
    and "(case e_prev r of Some x \<Rightarrow> x | None \<Rightarrow> '''') = pv"
    and "(case e_payload r of Some p \<Rightarrow> p | None \<Rightarrow> empty_doc C) = p"
  shows "check_row C ver i h s r = Inr (h', s') \<longleftrightarrow>
    v = ver \<and> pv = h \<and> seq = s + 1 \<and> stored = line_hash C h seq eid ts ty p \<and> h' = stored \<and> s' = seq"
  using assms by (auto simp: check_row_def)

lemma check_row_none:
  "e_v r = None \<or> e_seq r = None \<or> e_id r = None \<or> e_ts r = None \<or> e_type r = None \<or> e_hash r = None
    \<Longrightarrow> check_row C ver i h s r = Inl (Missing_fields i)"
  by (elim disjE; simp add: check_row_def split: option.split)

lemma check_row_Inr:
  "check_row C ver i h s r = Inr (h', s') \<longleftrightarrow>
     s' = s + 1 \<and> e_v r = Some ver \<and> e_seq r = Some s' \<and> e_hash r = Some h'
     \<and> (case e_prev r of Some x \<Rightarrow> x | None \<Rightarrow> '''') = h
     \<and> (\<exists>eid ts ty. e_id r = Some eid \<and> e_ts r = Some ts \<and> e_type r = Some ty
          \<and> h' = line_hash C h s' eid ts ty (case e_payload r of Some p \<Rightarrow> p | None \<Rightarrow> empty_doc C))"
proof (cases "e_v r = None \<or> e_seq r = None \<or> e_id r = None \<or> e_ts r = None \<or> e_type r = None
    \<or> e_hash r = None")
  case True
  with check_row_none [OF True, of C ver i h s] show ?thesis by auto
next
  case False
  then obtain v seq eid ts ty stored where f: "e_v r = Some v" "e_seq r = Some seq"
    "e_id r = Some eid" "e_ts r = Some ts" "e_type r = Some ty" "e_hash r = Some stored" by auto
  show ?thesis unfolding check_row_some [OF f refl refl] f by (simp add: conj_comms) blast
qed

definition intact :: "'p codec \<Rightarrow> int \<Rightarrow> string \<Rightarrow> int \<Rightarrow> 'p event list \<Rightarrow> bool" where
  "intact C ver h s rs \<longleftrightarrow> check_rows C ver 1 h s rs = None"

lemma check_rows_index: "check_rows C ver i h s rs = None \<longleftrightarrow> check_rows C ver j h s rs = None"
proof (induction rs arbitrary: i j h s)
  case (Cons r rs)
  have eq: "check_row C ver i h s r = Inr x \<longleftrightarrow> check_row C ver j h s r = Inr x" for x
    using check_row_Inr [of C ver i h s r] check_row_Inr [of C ver j h s r] by (cases x) simp
  show ?case
  proof (cases "check_row C ver i h s r")
    case (Inl e)
    with eq have "\<exists>e'. check_row C ver j h s r = Inl e'"
      by (cases "check_row C ver j h s r") auto
    with Inl show ?thesis by auto
  next
    case (Inr x)
    with eq [of x] have "check_row C ver j h s r = Inr x" by blast
    with Inr Cons.IH [of "Suc i" "fst x" "snd x" "Suc j"] show ?thesis by (cases x) simp
  qed
qed simp

lemma intact_Nil [simp]: "intact C ver h s []"
  by (simp add: intact_def)

lemma intact_Cons:
  "intact C ver h s (r # rs) \<longleftrightarrow>
     (\<exists>h' s'. check_row C ver 1 h s r = Inr (h', s') \<and> intact C ver h' s' rs)"
proof (cases "check_row C ver 1 h s r")
  case (Inr x)
  then show ?thesis
    using check_rows_index [of C ver "Suc 1" "fst x" "snd x" rs 1]
    by (cases x) (auto simp: intact_def)
qed (simp add: intact_def)

lemma intact_append:
  "intact C ver h s (xs @ ys) \<longleftrightarrow>
     intact C ver h s xs \<and> intact C ver (fst (chain_end h s xs)) (snd (chain_end h s xs)) ys"
proof (induction xs arbitrary: h s)
  case (Cons r xs)
  have "the (e_hash r) = h' \<and> the (e_seq r) = s'" if "check_row C ver 1 h s r = Inr (h', s')" for h' s'
    using that by (simp add: check_row_Inr)
  with Cons show ?case by (auto simp: intact_Cons)
qed simp

lemma intact_seqs:
  "intact C ver h s rs \<Longrightarrow> i < length rs \<Longrightarrow> e_seq (rs ! i) = Some (s + 1 + int i)"
proof (induction rs arbitrary: h s i)
  case (Cons r rs)
  then obtain h' s' where r: "check_row C ver 1 h s r = Inr (h', s')" and "intact C ver h' s' rs"
    by (auto simp: intact_Cons)
  with Cons.IH [OF this(2)] Cons.prems(2) show ?case
    by (cases i) (auto simp: check_row_Inr)
qed simp

lemma verify_ok_iff:
  "ok (verify C st) \<longleftrightarrow> readable (file_lines st)
     \<and> intact C (version st) GENESIS 0 (rows_of (file_lines st))"
proof (cases "readable (file_lines st)")
  case False
  with read_all_garbage [OF False, of 1] show ?thesis by (auto simp: verify_def)
next
  case True
  then show ?thesis
    by (auto simp: verify_def verify_rows_def intact_def read_all_clean split: option.splits)
qed

lemma verify_count: "ok (verify C st) \<Longrightarrow> vcount (verify C st) = length (rows_of (file_lines st))"
  unfolding verify_ok_iff
  by (auto simp: verify_def verify_rows_def intact_def read_all_clean)

lemma replay_ok: "ok (verify C st) \<Longrightarrow> replay C st = Inr (rows_of (file_lines st))"
  unfolding verify_ok_iff
  by (auto simp: replay_def verify_rows_def intact_def read_all_clean)

section \<open>Appending\<close>

lemma intact_make_row:
  "intact C ver h s [make_row C ver eid ts ty p (s + 1) h dedupe]"
  by (simp add: intact_Cons check_row_Inr make_row_def)

lemma intact_head:
  assumes "intact C ver GENESIS 0 rs" and "rs \<noteq> []"
  shows "e_seq (last rs) = Some (int (length rs))" and "\<exists>h. e_hash (last rs) = Some h"
    and "last rs \<noteq> empty_event"
    and "chain_end GENESIS 0 rs = (the (e_hash (last rs)), int (length rs))"
proof -
  from assms(2) obtain xs x where rs: "rs = xs @ [x]" by (cases rs rule: rev_cases) auto
  with assms(1) obtain h' s' where "check_row C ver 1 (fst (chain_end GENESIS 0 xs))
      (snd (chain_end GENESIS 0 xs)) x = Inr (h', s')"
    by (auto simp: intact_append intact_Cons)
  then show "\<exists>h. e_hash (last rs) = Some h" "last rs \<noteq> empty_event"
    by (auto simp: rs check_row_Inr empty_event_def)
  have "e_seq (rs ! (length rs - 1)) = Some (0 + 1 + int (length rs - 1))"
    using assms(2) by (intro intact_seqs [OF assms(1)]) simp
  then show "e_seq (last rs) = Some (int (length rs))"
    using assms(2) by (simp add: last_conv_nth of_nat_diff Suc_leI)
  then show "chain_end GENESIS 0 rs = (the (e_hash (last rs)), int (length rs))"
    by (simp add: rs)
qed

lemma intact_end_clean:
  assumes "codec_ok C"
  shows "intact C ver h s xs \<Longrightarrow> no_nel h \<Longrightarrow> no_nel (fst (chain_end h s xs))"
proof (induction xs arbitrary: h s)
  case (Cons r xs)
  then obtain h' s' where r: "check_row C ver 1 h s r = Inr (h', s')" and "intact C ver h' s' xs"
    by (auto simp: intact_Cons)
  moreover from r have "the (e_hash r) = h'" "the (e_seq r) = s'" "no_nel h'"
    using assms by (auto simp: check_row_Inr line_hash_def codec_ok_def)
  ultimately show ?case using Cons.IH [of h' s'] by simp
qed simp

lemma append_row_intact:
  assumes "readable (file_lines st)" and "list_all plain (file_lines st)" and "codec_ok C"
    and "intact C (version st) GENESIS 0 (rows_of (file_lines st))"
  obtains row st' where "append_row C ty p dedupe eid now st = (st', Inr row)"
    and "file_lines st' = file_lines st @ [row_line C row]" and "version st' = version st"
    and "intact C (version st) GENESIS 0 (rows_of (file_lines st) @ [row])"
    and "e_type row = Some ty" and "e_payload row = Some p" and "e_dedupe row = dedupe"
    and "dedupe_map st' = (case (dedupe_map st, dedupe) of
           (Some d, Some k) \<Rightarrow> Some (dict_set k row d) | _ \<Rightarrow> dedupe_map st)"
    and "no_nel ty \<Longrightarrow> no_nel eid \<Longrightarrow> pred_option no_nel dedupe \<Longrightarrow> no_nel (dumps C p) \<Longrightarrow> row_clean (dumps C) row"
proof -
  let ?rs = "rows_of (file_lines st)"
  define h s where "h = fst (chain_end GENESIS 0 ?rs)" and "s = snd (chain_end GENESIS 0 ?rs)"
  let ?row = "make_row C (version st) eid now ty p (s + 1) h dedupe"
  have "append_row C ty p dedupe eid now st =
      (let st1 = st\<lparr>file_lines := file_lines st @ [row_line C ?row]\<rparr>;
           st2 = (case (dedupe_map st1, dedupe) of
                    (Some d, Some k) \<Rightarrow> st1\<lparr>dedupe_map := Some (dict_set k ?row d)\<rparr>
                  | _ \<Rightarrow> st1)
       in (st2, Inr ?row))"
  proof (cases "?rs = []")
    case True
    then have "h = GENESIS" "s = 0" by (simp_all add: h_def s_def)
    with True assms(1,2) show ?thesis
      by (simp add: append_row_def read_head_rows Let_def split: option.split)
  next
    case False
    note i = intact_head [OF assms(4) False]
    from i(2) obtain hh where "e_hash (last ?rs) = Some hh" ..
    with i have "h = hh" "s = int (length ?rs)" by (simp_all add: h_def s_def)
    with False assms(1,2) i \<open>e_hash (last ?rs) = Some hh\<close> show ?thesis
      by (simp add: append_row_def read_head_rows Let_def split: option.split)
  qed
  moreover have "intact C (version st) GENESIS 0 (?rs @ [?row])"
    using assms(4) by (simp add: intact_append h_def s_def intact_make_row)
  moreover have "no_nel h"
    unfolding h_def by (rule intact_end_clean [OF assms(3,4)]) (simp add: GENESIS_def no_nel_def)
  then have "no_nel ty \<Longrightarrow> no_nel eid \<Longrightarrow> pred_option no_nel dedupe \<Longrightarrow> no_nel (dumps C p) \<Longrightarrow> row_clean (dumps C) ?row"
    using assms(3) by (simp add: row_clean_def make_row_def line_hash_def codec_ok_def)
  ultimately show thesis
    by (intro that [of "fst (append_row C ty p dedupe eid now st)" ?row])
      (auto simp: Let_def make_row_def split: option.split)
qed

section \<open>Deduplication\<close>

lemma find_append: "find P (xs @ ys) = (case find P xs of None \<Rightarrow> find P ys | Some x \<Rightarrow> Some x)"
  by (induction xs) auto

abbreviation stored_under :: "string \<Rightarrow> 'p event list \<Rightarrow> 'p event option" where
  "stored_under k rs \<equiv> find (\<lambda>r. e_dedupe r = Some k) (rev rs)"

lemma stored_under_snoc:
  "stored_under k (rs @ [r]) = (if e_dedupe r = Some k then Some r else stored_under k rs)"
  by simp

lemma scan_dedupe_get:
  "dict_get (scan_dedupe ds d) k
     = (case stored_under k (doc_rows ds) of Some r \<Rightarrow> Some r | None \<Rightarrow> dict_get d k)"
proof (induction ds arbitrary: d)
  case (Cons l ds)
  then show ?case
    by (cases l) (auto simp: find_append update_conv' split: option.splits)
qed simp

definition cache_ok :: "'p store \<Rightarrow> bool" where
  "cache_ok st \<longleftrightarrow> (case dedupe_map st of None \<Rightarrow> True
     | Some d \<Rightarrow> \<forall>k. dict_get d k = stored_under k (rows_of (file_lines st)))"

text \<open>An intact store: its file verifies and holds no line end inside a line, and its cache is that of the file.\<close>

definition store_ok :: "'p codec \<Rightarrow> 'p store \<Rightarrow> bool" where
  "store_ok C st \<longleftrightarrow> codec_ok C \<and> ok (verify C st) \<and> list_all plain (file_lines st) \<and> cache_ok st"

lemma find_dedupe_ok:
  assumes "store_ok C st" and "find_dedupe k st = (st1, hit)"
  shows "store_ok C st1" and "file_lines st1 = file_lines st" and "version st1 = version st"
    and "hit = stored_under k (rows_of (file_lines st))"
  using assms
  by (auto simp: store_ok_def verify_ok_iff cache_ok_def find_dedupe_def Let_def scan_dedupe_get split_docs_plain rows_of_def
      split: option.splits)

definition texts_clean :: "'p codec \<Rightarrow> string \<Rightarrow> 'p \<Rightarrow> string option \<Rightarrow> string \<Rightarrow> bool" where
  "texts_clean C ty p dedupe eid \<longleftrightarrow> no_nel ty \<and> no_nel (dumps C p) \<and> pred_option no_nel dedupe \<and> no_nel eid"

lemma append_row_ok:
  assumes "store_ok C st" and "texts_clean C ty p dedupe eid"
    and a: "append_row C ty p dedupe eid now st = (st', res)"
  obtains row where "res = Inr row"
    and "file_lines st' = file_lines st @ [row_line C row]" and "rows_of (file_lines st') = rows_of (file_lines st) @ [row]"
    and "version st' = version st"
    and "store_ok C st'" and "e_type row = Some ty" and "e_payload row = Some p"
    and "e_dedupe row = dedupe"
proof -
  have v: "readable (file_lines st)" "list_all plain (file_lines st)" "codec_ok C"
    "intact C (version st) GENESIS 0 (rows_of (file_lines st))"
    using assms(1) by (simp_all add: store_ok_def verify_ok_iff)
  obtain row where r: "res = Inr row"
    "file_lines st' = file_lines st @ [row_line C row]" "version st' = version st"
    "intact C (version st) GENESIS 0 (rows_of (file_lines st) @ [row])"
    "e_type row = Some ty" "e_payload row = Some p" "e_dedupe row = dedupe"
    "dedupe_map st' = (case (dedupe_map st, dedupe) of
           (Some d, Some k) \<Rightarrow> Some (dict_set k row d) | _ \<Rightarrow> dedupe_map st)"
    "row_clean (dumps C) row"
    by (rule append_row_intact [OF v, where ty = ty and p = p and dedupe = dedupe and eid = eid
      and now = now]) (use a assms(2) in \<open>auto simp: texts_clean_def\<close>)
  moreover have rows: "rows_of (file_lines st') = rows_of (file_lines st) @ [row]"
    by (simp add: r(2) row_line_whole [OF v(3)])
  moreover have "cache_ok st'"
    using assms(1) r(7,8) rows unfolding cache_ok_def store_ok_def
    by (auto simp: update_conv' split: option.splits)
  moreover have "readable (file_lines st')" "list_all plain (file_lines st')"
    using v(1,2) by (simp_all add: r(2) row_line_whole [OF v(3)] row_line_plain [OF v(3) r(9)])
  ultimately show thesis using v(3) that by (auto simp: store_ok_def verify_ok_iff)
qed

text \<open>An append either answers the stored row of its key, or adds one row.\<close>

lemma append_event_cases:
  assumes "store_ok C st" and "append_event C ty payload dedupe eid now st = (st', res)"
    and "texts_clean C ty (case payload of None \<Rightarrow> empty_doc C | Some p \<Rightarrow> p) dedupe eid"
  obtains (hit) k r where "dedupe = Some k" and "stored_under k (rows_of (file_lines st)) = Some r"
      and "res = Inr r" and "store_ok C st'" and "file_lines st' = file_lines st"
      and "version st' = version st"
  | (new) r where "res = Inr r" and "store_ok C st'" and "rows_of (file_lines st') = rows_of (file_lines st) @ [r]"
      and "version st' = version st" and "e_type r = Some ty" and "e_dedupe r = dedupe"
      and "e_payload r = Some (case payload of None \<Rightarrow> empty_doc C | Some p \<Rightarrow> p)"
      and "\<And>k. dedupe = Some k \<Longrightarrow> stored_under k (rows_of (file_lines st)) = None"
proof (cases dedupe)
  case None
  with assms(2) have a: "append_row C ty (case payload of None \<Rightarrow> empty_doc C | Some p \<Rightarrow> p) None eid now st
      = (st', res)" by (simp add: append_event_def)
  show thesis
    by (rule append_row_ok [OF assms(1) assms(3) [unfolded None] a]) (use None in \<open>auto intro: new\<close>)
next
  case (Some k)
  obtain st1 h where f: "find_dedupe k st = (st1, h)" by (cases "find_dedupe k st") auto
  note f' = find_dedupe_ok [OF assms(1) f]
  show thesis
  proof (cases h)
    case None
    with assms(2) Some f have a: "append_row C ty (case payload of None \<Rightarrow> empty_doc C | Some p \<Rightarrow> p)
        (Some k) eid now st1 = (st', res)" by (simp add: append_event_def Let_def)
    show thesis
      by (rule append_row_ok [OF f'(1) assms(3) [unfolded Some] a]) (use Some None f' in \<open>auto intro: new\<close>)
  next
    case (Some r)
    with assms(2) \<open>dedupe = Some k\<close> f have "st1 = st'" "res = Inr r"
      by (auto simp: append_event_def Let_def)
    with hit [of k r] f' Some \<open>dedupe = Some k\<close> show thesis by simp
  qed
qed

text \<open>A sequence of requests against one store object.\<close>

record 'p request =
  q_type :: string
  q_payload :: "'p option"
  q_dedupe :: "string option"
  q_id :: string
  q_now :: rat

definition request_clean :: "'p codec \<Rightarrow> 'p request \<Rightarrow> bool" where
  "request_clean C q \<longleftrightarrow> texts_clean C (q_type q)
     (case q_payload q of None \<Rightarrow> empty_doc C | Some p \<Rightarrow> p) (q_dedupe q) (q_id q)"

fun append_all :: "'p codec \<Rightarrow> 'p request list \<Rightarrow> 'p store \<Rightarrow> 'p store \<times> (store_error + 'p event) list" where
  "append_all C [] st = (st, [])"
| "append_all C (q # qs) st =
     (let (st1, r) = append_event C (q_type q) (q_payload q) (q_dedupe q) (q_id q) (q_now q) st;
          (st2, rs) = append_all C qs st1
      in (st2, r # rs))"

definition keys_of :: "'p event list \<Rightarrow> string list" where
  "keys_of rs = concat (map (\<lambda>r. case e_dedupe r of Some k \<Rightarrow> [k] | None \<Rightarrow> []) rs)"

lemma keys_of_simps [simp]:
  "keys_of [] = []" "keys_of (xs @ ys) = keys_of xs @ keys_of ys"
  "keys_of [r] = (case e_dedupe r of Some k \<Rightarrow> [k] | None \<Rightarrow> [])"
  by (simp_all add: keys_of_def)

lemma stored_under_keys: "stored_under k rs = None \<longleftrightarrow> k \<notin> set (keys_of rs)"
  by (auto simp: find_None_iff keys_of_def split: option.splits)

lemma stored_under_Some: "stored_under k rs = Some r \<Longrightarrow> r \<in> set rs \<and> e_dedupe r = Some k"
  by (auto simp: find_Some_iff rev_nth)

lemma append_all_ok:
  assumes "append_all C qs st = (st', res)" and "store_ok C st"
    and "distinct (keys_of (rows_of (file_lines st)))" and "\<forall>q \<in> set qs. request_clean C q"
  shows "store_ok C st' \<and> version st' = version st
    \<and> distinct (keys_of (rows_of (file_lines st')))
    \<and> set (rows_of (file_lines st)) \<subseteq> set (rows_of (file_lines st'))
    \<and> set (keys_of (rows_of (file_lines st')))
        = set (keys_of (rows_of (file_lines st))) \<union> {k. \<exists>q \<in> set qs. q_dedupe q = Some k}
    \<and> list_all2 (\<lambda>q a. \<exists>r \<in> set (rows_of (file_lines st')). a = Inr r \<and> e_dedupe r = q_dedupe q) qs res"
  using assms
proof (induction qs arbitrary: st res)
  case Nil
  then show ?case by auto
next
  case (Cons q qs)
  obtain st1 a where a: "append_event C (q_type q) (q_payload q) (q_dedupe q) (q_id q) (q_now q) st
      = (st1, a)" by fastforce
  obtain rs where rest: "append_all C qs st1 = (st', rs)" and res: "res = a # rs"
    using Cons.prems(1) a by (auto split: prod.splits)
  have q: "texts_clean C (q_type q) (case q_payload q of None \<Rightarrow> empty_doc C | Some p \<Rightarrow> p) (q_dedupe q) (q_id q)"
    using Cons.prems(4) by (simp add: request_clean_def)
  show ?case
    using Cons.prems(2) a q
  proof (cases rule: append_event_cases)
    case (hit k r)
    from Cons.IH [OF rest hit(4)] Cons.prems(3,4) hit(5) have
      IH: "store_ok C st'" "version st' = version st1" "distinct (keys_of (rows_of (file_lines st')))"
      "set (rows_of (file_lines st)) \<subseteq> set (rows_of (file_lines st'))"
      "set (keys_of (rows_of (file_lines st')))
        = set (keys_of (rows_of (file_lines st))) \<union> {k. \<exists>q \<in> set qs. q_dedupe q = Some k}"
      "list_all2 (\<lambda>q a. \<exists>r \<in> set (rows_of (file_lines st')). a = Inr r \<and> e_dedupe r = q_dedupe q) qs rs"
      by simp_all
    moreover have "r \<in> set (rows_of (file_lines st'))" "e_dedupe r = Some k"
      using stored_under_Some [OF hit(2)] IH(4) by auto
    moreover have "k \<in> set (keys_of (rows_of (file_lines st)))"
      using hit(2) stored_under_keys [of k "rows_of (file_lines st)"] by auto
    ultimately show ?thesis using hit res by auto
  next
    case (new r)
    have "distinct (keys_of (rows_of (file_lines st1)))"
      using new(3,6,8) Cons.prems(3) stored_under_keys [of _ "rows_of (file_lines st)"]
      by (auto split: option.splits)
    from Cons.IH [OF rest new(2) this] Cons.prems(4) have
      IH: "store_ok C st'" "version st' = version st1" "distinct (keys_of (rows_of (file_lines st')))"
      "set (rows_of (file_lines st1)) \<subseteq> set (rows_of (file_lines st'))"
      "set (keys_of (rows_of (file_lines st')))
        = set (keys_of (rows_of (file_lines st1))) \<union> {k. \<exists>q \<in> set qs. q_dedupe q = Some k}"
      "list_all2 (\<lambda>q a. \<exists>r \<in> set (rows_of (file_lines st')). a = Inr r \<and> e_dedupe r = q_dedupe q) qs rs"
      by simp_all
    then show ?thesis using new(1,3,4,6) res by (auto split: option.splits)
  qed
qed

section \<open>The store is an event sink\<close>

definition emit :: "'p codec \<Rightarrow> string \<times> rat \<Rightarrow> string \<Rightarrow> 'p \<Rightarrow> 'p store \<Rightarrow> store_error + 'p store" where
  "emit C env ty p st =
     (case append_event C ty (Some p) None (fst env) (snd env) st of
        (st', Inr _) \<Rightarrow> Inr st' | (_, Inl e) \<Rightarrow> Inl e)"

definition event_log :: "'p store \<Rightarrow> (string \<times> 'p) list" where
  "event_log st = map (\<lambda>r. (the (e_type r), the (e_payload r))) (rows_of (file_lines st))"

definition accepts :: "'p codec \<Rightarrow> string \<times> rat \<Rightarrow> string \<Rightarrow> 'p \<Rightarrow> bool" where
  "accepts C env ty p \<longleftrightarrow> texts_clean C ty p None (fst env)"

lemma emit_store:
  assumes "store_ok C st" and "accepts C env ty p"
  shows "\<exists>st'. emit C env ty p st = Inr st' \<and> store_ok C st' \<and> event_log st' = event_log st @ [(ty, p)]"
proof -
  obtain st' res where a: "append_event C ty (Some p) None (fst env) (snd env) st = (st', res)"
    by fastforce
  have t: "texts_clean C ty (case Some p of None \<Rightarrow> empty_doc C | Some p \<Rightarrow> p) None (fst env)"
    using assms(2) by (simp add: accepts_def)
  from assms(1) a t show ?thesis
    by (cases rule: append_event_cases) (use a in \<open>auto simp: emit_def event_log_def\<close>)
qed

interpretation loop_sink: event_sink "emit C" event_log "store_ok C" "accepts C" for C :: "'p codec"
  by unfold_locales (rule emit_store)

section \<open>What the hash chain covers\<close>

definition payload_of :: "'p codec \<Rightarrow> 'p event \<Rightarrow> 'p" where
  "payload_of C r = (case e_payload r of Some p \<Rightarrow> p | None \<Rightarrow> empty_doc C)"

text \<open>The texts the chain hashes, in file order.\<close>

fun raws :: "'p codec \<Rightarrow> string \<Rightarrow> 'p event list \<Rightarrow> string list" where
  "raws C h [] = []"
| "raws C h (r # rs) =
     raw_row C h (the (e_seq r)) (the (e_id r)) (the (e_ts r)) (the (e_type r)) (payload_of C r)
       # raws C (the (e_hash r)) rs"

lemma raws_append [simp]: "raws C h (xs @ ys) = raws C h xs @ raws C (fst (chain_end h s xs)) ys"
  by (induction xs arbitrary: h s) auto

definition same_content :: "'p codec \<Rightarrow> 'p event \<Rightarrow> 'p event \<Rightarrow> bool" where
  "same_content C r r' \<longleftrightarrow> e_seq r = e_seq r' \<and> e_id r = e_id r' \<and> e_type r = e_type r'
     \<and> float_str C (the (e_ts r)) = float_str C (the (e_ts r'))
     \<and> dumps C (payload_of C r) = dumps C (payload_of C r')"

text \<open>No separator inside the fields that precede the payload.\<close>

definition bar_free :: "'p codec \<Rightarrow> 'p event list \<Rightarrow> bool" where
  "bar_free C rs \<longleftrightarrow> (\<forall>r \<in> set rs. CHR ''|'' \<notin> set (the (e_id r)) \<and> CHR ''|'' \<notin> set (the (e_type r))
     \<and> CHR ''|'' \<notin> set (float_str C (the (e_ts r))))"

lemma split_at_bar:
  "b \<notin> set x \<Longrightarrow> b \<notin> set x' \<Longrightarrow> x @ b # y = x' @ b # y' \<longleftrightarrow> x = x' \<and> y = y'"
proof (induction x arbitrary: x')
  case Nil
  then show ?case by (cases x') auto
next
  case (Cons a x)
  then show ?case by (cases x') auto
qed

lemma raw_row_eq:
  assumes "raw_row C h s i t y p = raw_row C h' s i' t' y' p'"
    and "CHR ''|'' \<notin> set h" "CHR ''|'' \<notin> set h'" "CHR ''|'' \<notin> set i" "CHR ''|'' \<notin> set i'"
    and "CHR ''|'' \<notin> set y" "CHR ''|'' \<notin> set y'"
    and "CHR ''|'' \<notin> set (float_str C t)" "CHR ''|'' \<notin> set (float_str C t')"
  shows "h = h' \<and> i = i' \<and> y = y' \<and> float_str C t = float_str C t' \<and> dumps C p = dumps C p'"
proof -
  have "h = h'" and 1: "str_int s @ CHR ''|'' # i @ CHR ''|'' # float_str C t @ CHR ''|'' # y @ CHR ''|'' # dumps C p
      = str_int s @ CHR ''|'' # i' @ CHR ''|'' # float_str C t' @ CHR ''|'' # y' @ CHR ''|'' # dumps C p'"
    using assms(1) by (simp_all add: raw_row_def split_at_bar [OF assms(2,3)])
  from 1 show ?thesis using \<open>h = h'\<close> assms(4-9) by (simp add: split_at_bar)
qed

lemma intact_row_hash:
  assumes "check_row C ver 1 h s r = Inr (h', s')"
  shows "h' = sha C (raw_row C h (s + 1) (the (e_id r)) (the (e_ts r)) (the (e_type r)) (payload_of C r))"
    and "e_seq r = Some (s + 1)" and "the (e_hash r) = h'" and "s' = s + 1"
    and "\<exists>i y. e_id r = Some i \<and> e_type r = Some y"
  using assms by (auto simp: check_row_Inr line_hash_def payload_of_def)

lemma intact_end_seq: "intact C ver h s xs \<Longrightarrow> snd (chain_end h s xs) = s + int (length xs)"
proof (induction xs arbitrary: h s)
  case (Cons r xs)
  then obtain h' s' where r: "check_row C ver 1 h s r = Inr (h', s')" and "intact C ver h' s' xs"
    by (auto simp: intact_Cons)
  with Cons.IH [OF this(2)] intact_row_hash [OF r] show ?case by simp
qed simp

lemma intact_end_bar:
  assumes bar: "\<And>x. CHR ''|'' \<notin> set (sha C x)"
  shows "intact C ver h s xs \<Longrightarrow> CHR ''|'' \<notin> set h \<Longrightarrow> CHR ''|'' \<notin> set (fst (chain_end h s xs))"
proof (induction xs arbitrary: h s)
  case (Cons r xs)
  then obtain h' s' where r: "check_row C ver 1 h s r = Inr (h', s')" and "intact C ver h' s' xs"
    by (auto simp: intact_Cons)
  with Cons.IH [OF this(2)] intact_row_hash [OF r] bar show ?case by simp
qed simp

lemma chains_agree:
  assumes "length xs = length ys" and "intact C ver GENESIS 0 xs" and "intact C ver' GENESIS 0 ys"
    and "fst (chain_end GENESIS 0 xs) = fst (chain_end GENESIS 0 ys)"
    and bar: "\<And>x. CHR ''|'' \<notin> set (sha C x)" and "bar_free C xs" and "bar_free C ys"
  shows "list_all2 (same_content C) xs ys
    \<or> (\<exists>a \<in> set (raws C GENESIS xs). \<exists>b \<in> set (raws C GENESIS ys). a \<noteq> b \<and> sha C a = sha C b)"
  using assms(1-4,6,7)
proof (induction xs ys rule: rev_induct2)
  case (4 x xs y ys)
  define h s where "h = fst (chain_end GENESIS 0 xs)" and "s = snd (chain_end GENESIS 0 xs)"
  define g t where "g = fst (chain_end GENESIS 0 ys)" and "t = snd (chain_end GENESIS 0 ys)"
  obtain hx sx hy sy where x: "check_row C ver 1 h s x = Inr (hx, sx)"
    and y: "check_row C ver' 1 g t y = Inr (hy, sy)"
    using 4 by (auto simp: intact_append intact_Cons h_def s_def g_def t_def)
  have ix: "intact C ver GENESIS 0 xs" and iy: "intact C ver' GENESIS 0 ys"
    using 4 by (auto simp: intact_append)
  have len: "length xs = length ys" using 4 by simp
  have st: "s = t" using intact_end_seq [OF ix] intact_end_seq [OF iy] len by (simp add: s_def t_def)
  have gen: "CHR ''|'' \<notin> set GENESIS" by (simp add: GENESIS_def)
  have hg: "CHR ''|'' \<notin> set h" "CHR ''|'' \<notin> set g"
    using intact_end_bar [OF bar ix gen] intact_end_bar [OF bar iy gen] by (simp_all add: h_def g_def)
  note hx = intact_row_hash [OF x] and hy = intact_row_hash [OF y]
  let ?a = "raw_row C h (s + 1) (the (e_id x)) (the (e_ts x)) (the (e_type x)) (payload_of C x)"
  let ?b = "raw_row C g (t + 1) (the (e_id y)) (the (e_ts y)) (the (e_type y)) (payload_of C y)"
  have raw: "raws C GENESIS (xs @ [x]) = raws C GENESIS xs @ [?a]"
    "raws C GENESIS (ys @ [y]) = raws C GENESIS ys @ [?b]"
    using hx(2) hy(2) by (simp_all add: h_def g_def raws_append [where s = 0])
  have sha: "sha C ?a = sha C ?b" using "4.prems"(4) hx(1,3) hy(1,3) by simp
  show ?case
  proof (cases "?a = ?b")
    case True
    have bx: "bar_free C [x]" "bar_free C [y]" "bar_free C xs" "bar_free C ys"
      using "4.prems"(5,6) by (auto simp: bar_free_def)
    then have "h = g \<and> the (e_id x) = the (e_id y) \<and> the (e_type x) = the (e_type y)
        \<and> float_str C (the (e_ts x)) = float_str C (the (e_ts y))
        \<and> dumps C (payload_of C x) = dumps C (payload_of C y)"
      using True hg st unfolding bar_free_def by (intro raw_row_eq [of C h "s + 1"]) auto
    then have e: "h = g" "the (e_id x) = the (e_id y)" "the (e_type x) = the (e_type y)"
        "float_str C (the (e_ts x)) = float_str C (the (e_ts y))"
        "dumps C (payload_of C x) = dumps C (payload_of C y)" by blast+
    then have xy: "same_content C x y"
      using hx(2,5) hy(2,5) st unfolding same_content_def by auto
    have "list_all2 (same_content C) xs ys
        \<or> (\<exists>a \<in> set (raws C GENESIS xs). \<exists>b \<in> set (raws C GENESIS ys). a \<noteq> b \<and> sha C a = sha C b)"
      using "4.IH" [OF len ix iy _ bx(3,4)] e(1) by (simp add: h_def g_def)
    then show ?thesis
    proof
      assume "list_all2 (same_content C) xs ys"
      with xy have "list_all2 (same_content C) (xs @ [x]) (ys @ [y])"
        by (intro list_all2_appendI) simp_all
      then show ?thesis ..
    next
      assume "\<exists>a \<in> set (raws C GENESIS xs). \<exists>b \<in> set (raws C GENESIS ys). a \<noteq> b \<and> sha C a = sha C b"
      then show ?thesis unfolding raw by (simp only: set_append) blast
    qed
  next
    case False
    with sha show ?thesis unfolding raw by auto
  qed
qed auto

section \<open>Properties\<close>

text \<open>
  C38. Any sequence of append requests on a fresh store leaves a file that verifies and replays,
  with sequence numbers 1, 2, 3 and so on; each deduplication key asked for is stored exactly
  once, and every request, repeated ones included, is answered by a stored row with its key. The texts
  of the requests hold no U+0085 (and no U+2028 or U+2029, outside these 8-bit texts), the line ends of
  \<^verbatim>\<open>splitlines()\<close> that JSON does not escape: after a row with one the next append starts again at 1
  (\<open>line_end_restarts\<close> and \<open>line_end_example\<close> below).
\<close>

theorem appends_exactly_once:
  assumes "append_all C qs \<lparr>file_lines = [], version = ver, dedupe_map = None\<rparr> = (st, res)"
    and "codec_ok C" and "\<forall>q \<in> set qs. request_clean C q"
  shows "ok (verify C st) \<and> replay C st = Inr (rows_of (file_lines st))
    \<and> (\<forall>i < length (rows_of (file_lines st)). e_seq (rows_of (file_lines st) ! i) = Some (1 + int i))
    \<and> distinct (keys_of (rows_of (file_lines st)))
    \<and> set (keys_of (rows_of (file_lines st))) = {k. \<exists>q \<in> set qs. q_dedupe q = Some k}
    \<and> list_all2 (\<lambda>q a. \<exists>r \<in> set (rows_of (file_lines st)). a = Inr r \<and> e_dedupe r = q_dedupe q) qs res"
proof -
  have "store_ok C \<lparr>file_lines = [], version = ver, dedupe_map = None\<rparr>"
    using assms(2) by (simp add: store_ok_def verify_ok_iff cache_ok_def)
  note * = append_all_ok [OF assms(1) this _ assms(3)]
  then have "ok (verify C st)" by (simp add: store_ok_def)
  with * show ?thesis
    using intact_seqs [of C "version st" GENESIS 0 "rows_of (file_lines st)"] replay_ok [of C st]
    by (simp add: verify_ok_iff)
qed

text \<open>
  A row whose text \<^verbatim>\<open>splitlines()\<close> cuts, so that the last piece decodes to nothing, makes the next append
  start a second chain: sequence number 1 and the genesis hash again. The file does not verify then.
\<close>

lemma line_end_restarts:
  assumes "file_lines st = ls @ [Line (Row r) (ps @ [Garbage])]"
    and "append_event C ty payload None eid now st = (st', res)" and "codec_ok C"
  shows "(\<exists>row. res = Inr row \<and> e_seq row = Some 1 \<and> e_prev row = Some GENESIS) \<and> \<not> ok (verify C st')"
proof -
  obtain xs where "filter (\<lambda>l. l \<noteq> Blank) (split_docs (file_lines st)) = xs @ [Garbage]"
    by (simp add: assms(1) split_docs_def)
  then have h: "read_head (file_lines st) = None" by (cases xs) (simp_all add: read_head_def)
  let ?p = "case payload of None \<Rightarrow> empty_doc C | Some p \<Rightarrow> p"
  let ?row = "make_row C (version st) eid now ty ?p 1 GENESIS None"
  have res: "res = Inr ?row" and st': "st' = st\<lparr>file_lines := file_lines st @ [row_line C ?row]\<rparr>"
    using assms(2) by (auto simp: append_event_def append_row_def h Let_def split: option.splits)
  let ?rs = "rows_of (file_lines st)"
  have "rows_of (file_lines st') = ?rs @ [?row]" by (simp add: st' row_line_whole [OF assms(3)])
  moreover have "\<not> intact C (version st) GENESIS 0 (?rs @ [?row])"
  proof
    assume i: "intact C (version st) GENESIS 0 (?rs @ [?row])"
    have "?rs \<noteq> []" by (simp add: assms(1))
    moreover have "e_seq ((?rs @ [?row]) ! length ?rs) = Some (0 + 1 + int (length ?rs))"
      by (rule intact_seqs [OF i]) simp
    ultimately show False by (simp add: make_row_def)
  qed
  ultimately have "\<not> ok (verify C st')" by (simp add: verify_ok_iff st')
  then show ?thesis using res by (simp add: make_row_def)
qed

definition last_hash :: "'p event list \<Rightarrow> string option" where
  "last_hash rs = (if rs = [] then None else e_hash (last rs))"

text \<open>
  C40. Tamper evidence, as a reduction: two files of the same length that verify and whose last rows
  hold the same hash agree row by row in everything the chain hashes, unless the two files exhibit two
  different texts with the same SHA-256 value. Fields before the payload hold no separator. Rows are
  those \<open>verify\<close> reads; without line ends inside the last of them, it is the one \<open>latest\<close> answers.
\<close>

theorem tampering_needs_collision:
  assumes "ok (verify C st)" and "ok (verify C st')"
    and "length (rows_of (file_lines st)) = length (rows_of (file_lines st'))"
    and "last_hash (rows_of (file_lines st)) = last_hash (rows_of (file_lines st'))"
    and "\<And>x. CHR ''|'' \<notin> set (sha C x)"
    and "bar_free C (rows_of (file_lines st))" and "bar_free C (rows_of (file_lines st'))"
  shows "list_all2 (same_content C) (rows_of (file_lines st)) (rows_of (file_lines st'))
    \<or> (\<exists>a \<in> set (raws C GENESIS (rows_of (file_lines st))).
        \<exists>b \<in> set (raws C GENESIS (rows_of (file_lines st'))). a \<noteq> b \<and> sha C a = sha C b)"
proof (rule chains_agree [OF assms(3)])
  note v = assms(1,2) [unfolded verify_ok_iff]
  show "intact C (version st) GENESIS 0 (rows_of (file_lines st))"
    "intact C (version st') GENESIS 0 (rows_of (file_lines st'))" using v by simp_all
  show "fst (chain_end GENESIS 0 (rows_of (file_lines st)))
      = fst (chain_end GENESIS 0 (rows_of (file_lines st')))"
  proof (cases "rows_of (file_lines st) = []")
    case True
    with assms(3) show ?thesis by simp
  next
    case False
    with assms(3) have "rows_of (file_lines st') \<noteq> []" by auto
    with False v assms(4) intact_head(4) [of C "version st" "rows_of (file_lines st)"]
      intact_head(4) [of C "version st'" "rows_of (file_lines st')"]
    show ?thesis by (simp add: last_hash_def)
  qed
qed (use assms(5-7) in auto)

lemma latest_last_hash:
  "readable (file_lines st) \<Longrightarrow> list_all plain (file_lines st) \<Longrightarrow>
     Option.bind (latest st) e_hash = last_hash (rows_of (file_lines st))"
  by (simp add: latest_def read_head_rows last_hash_def)

text \<open>
  Truncating the tail is not detected: whenever a file verifies, so does every prefix of it.
\<close>

theorem truncation_verifies:
  assumes "ok (verify C st)"
  shows "ok (verify C (st\<lparr>file_lines := take n (file_lines st)\<rparr>))"
proof -
  have split: "rows_of (take n (file_lines st)) @ rows_of (drop n (file_lines st)) = rows_of (file_lines st)"
    "readable (take n (file_lines st)) \<and> readable (drop n (file_lines st)) \<longleftrightarrow> readable (file_lines st)"
    by (simp_all flip: rows_of_simps(3) readable_simps(3))
  moreover have "readable (file_lines st)"
    and "intact C (version st) GENESIS 0 (rows_of (file_lines st))"
    using assms by (simp_all add: verify_ok_iff)
  ultimately have "intact C (version st) GENESIS 0 (rows_of (take n (file_lines st)))"
    using intact_append by metis
  with \<open>readable (file_lines st)\<close> split(2) show ?thesis by (simp add: verify_ok_iff)
qed

text \<open>
  A second process can store a key twice and verification accepts it: a store whose cache
  was loaded before the other process wrote the key appends it again, and the file verifies.
\<close>

theorem stale_cache_duplicates:
  assumes "ok (verify C st)" and "list_all plain (file_lines st)" and "codec_ok C"
    and "dedupe_map st = Some d" and "dict_get d k = None"
    and "r \<in> set (rows_of (file_lines st))" and "e_dedupe r = Some k"
    and "append_event C ty p (Some k) eid now st = (st', res)"
  shows "ok (verify C st') \<and> (\<exists>r'. res = Inr r' \<and> e_dedupe r' = Some k
    \<and> rows_of (file_lines st') = rows_of (file_lines st) @ [r'])"
proof -
  let ?p = "case p of None \<Rightarrow> empty_doc C | Some p \<Rightarrow> p"
  have v: "readable (file_lines st)" "intact C (version st) GENESIS 0 (rows_of (file_lines st))"
    using assms(1) by (simp_all add: verify_ok_iff)
  have a: "append_row C ty ?p (Some k) eid now st = (st', res)"
    using assms(4,5,8) by (cases st) (simp add: append_event_def find_dedupe_def Let_def)
  obtain row where "res = Inr row" "file_lines st' = file_lines st @ [row_line C row]"
    "version st' = version st" "e_dedupe row = Some k"
    "intact C (version st) GENESIS 0 (rows_of (file_lines st) @ [row])"
    by (rule append_row_intact [OF v(1) assms(2,3) v(2), where ty = ty and p = ?p and dedupe = "Some k" and eid = eid
      and now = now]) (use a in simp)
  with v(1) show ?thesis by (simp add: verify_ok_iff row_line_whole [OF assms(3)])
qed

lemma upgrade_row_none:
  "upgrade_row MIGRATIONS target v r n = Inr (r', m) \<Longrightarrow> r' = r \<and> m = n \<and> target \<le> v"
  by (subst (asm) upgrade_row.simps) (auto simp: MIGRATIONS_def split: if_splits)

lemma relink_row_Inr:
  assumes "relink_row C h r = Inr r'" and "e_v r = Some ver" and "e_seq r = Some (s + 1)"
  shows "\<exists>h'. check_row C ver 1 h s r' = Inr (h', s + 1) \<and> e_hash r' = Some h'
    \<and> e_id r' = e_id r \<and> e_ts r' = e_ts r \<and> e_type r' = e_type r \<and> e_payload r' = e_payload r
    \<and> e_seq r' = e_seq r \<and> e_dedupe r' = e_dedupe r"
  using assms by (auto simp: relink_row_def check_row_Inr split: option.splits)

definition same_event :: "'p event \<Rightarrow> 'p event \<Rightarrow> bool" where
  "same_event r r' \<longleftrightarrow> e_id r' = e_id r \<and> e_ts r' = e_ts r \<and> e_type r' = e_type r
     \<and> e_payload r' = e_payload r \<and> e_seq r' = e_seq r \<and> e_dedupe r' = e_dedupe r"

lemma migrate_lines_relinks:
  assumes "migrate_lines C MIGRATIONS ver i h ls = Inr (out, n)"
    and "\<forall>r \<in> set (doc_rows ls). e_v r = Some ver"
    and "\<forall>j < length (doc_rows ls). e_seq (doc_rows ls ! j) = Some (s + 1 + int j)"
  shows "n = 0 \<and> intact C ver h s out \<and> list_all2 same_event (doc_rows ls) out"
  using assms
proof (induction ls arbitrary: i h s out n)
  case Nil
  then show ?case by simp
next
  case (Cons l ls)
  show ?case
  proof (cases l)
    case (Row r)
    with Cons.prems have v: "e_v r = Some ver" and tail: "\<forall>r \<in> set (doc_rows ls). e_v r = Some ver"
      by simp_all
    have sq: "e_seq r = Some (s + 1)" using Cons.prems(3) Row by (auto dest: spec [of _ 0])
    have tail2: "e_seq (doc_rows ls ! j) = Some ((s + 1) + 1 + int j)" if "j < length (doc_rows ls)" for j
      using Cons.prems(3) Row that by (auto dest: spec [of _ "Suc j"])
    from Cons.prems(1) v Row obtain r1 k r2 out' m where
      u: "upgrade_row MIGRATIONS ver ver r 0 = Inr (r1, k)"
      and r2: "relink_row C h r1 = Inr r2" and out: "out = r2 # out'" "n = k + m"
      and rest: "migrate_lines C MIGRATIONS ver (Suc i)
        (case e_hash r2 of Some h \<Rightarrow> h | None \<Rightarrow> '''') ls = Inr (out', m)"
      by (auto split: sum.splits prod.splits)
    from upgrade_row_none [OF u] have "r1 = r" "k = 0" by simp_all
    with relink_row_Inr [of C h r r2, OF _ v sq] r2 obtain h' where
      c: "check_row C ver 1 h s r2 = Inr (h', s + 1)" "e_hash r2 = Some h'" and "same_event r r2"
      unfolding same_event_def by auto
    moreover from rest c(2) have "migrate_lines C MIGRATIONS ver (Suc i) h' ls = Inr (out', m)"
      by simp
    from Cons.IH [OF this tail] tail2
    have "m = 0 \<and> intact C ver h' (s + 1) out' \<and> list_all2 same_event (doc_rows ls) out'" by blast
    ultimately show ?thesis using out \<open>k = 0\<close> Row by (auto simp: intact_Cons)
  next
    case Blank
    with Cons.prems Cons.IH [of "Suc i" h out n s] show ?thesis by simp
  qed (use Cons.prems in simp)
qed

text \<open>
  With the source's empty migration table, migrating to the store's own version changes no
  version, re-signs whatever the rows contain and leaves a file that verifies: a chain broken by
  an edit of payloads verifies again, with the edited payloads.
\<close>

theorem migrate_relinks:
  assumes "migrate C MIGRATIONS None st = (st', Inr n)" and "codec_ok C" and "list_all plain (file_lines st)"
    and "\<forall>r \<in> set (rows_of (file_lines st)). e_v r = Some (version st)"
    and "\<forall>j < length (rows_of (file_lines st)). e_seq (rows_of (file_lines st) ! j) = Some (1 + int j)"
  shows "n = 0 \<and> ok (verify C st')
    \<and> list_all2 (\<lambda>r r'. e_payload r' = e_payload r \<and> e_id r' = e_id r \<and> e_ts r' = e_ts r
         \<and> e_type r' = e_type r \<and> e_seq r' = e_seq r \<and> e_dedupe r' = e_dedupe r)
        (rows_of (file_lines st)) (rows_of (file_lines st'))"
proof -
  from assms(1) obtain out where
    m: "migrate_lines C MIGRATIONS (version st) 1 GENESIS (split_docs (file_lines st)) = Inr (out, n)"
    and st': "file_lines st' = map (row_line C) out" "version st' = version st"
    by (auto simp: migrate_def Let_def split: if_splits sum.splits)
  have docs: "doc_rows (split_docs (file_lines st)) = rows_of (file_lines st)"
    by (simp add: split_docs_plain [OF assms(3)] rows_of_def)
  from migrate_lines_relinks [OF m, of 0] assms(4,5)
  have "n = 0" "intact C (version st) GENESIS 0 out"
    and e: "list_all2 same_event (rows_of (file_lines st)) out" by (simp_all add: docs)
  moreover have "list_all2 (\<lambda>r r'. e_payload r' = e_payload r \<and> e_id r' = e_id r \<and> e_ts r' = e_ts r
         \<and> e_type r' = e_type r \<and> e_seq r' = e_seq r \<and> e_dedupe r' = e_dedupe r)
        (rows_of (file_lines st)) out"
    by (rule list_all2_mono [OF e]) (simp add: same_event_def)
  ultimately show ?thesis using st' rows_of_row_lines [OF assms(2), of out] by (auto simp: verify_ok_iff)
qed

text \<open>
  A codec for the witnesses: it numbers the rows, writes the number in unary and, for a row with
  U+0085 in a text, that character and one more.
\<close>

definition fields_of :: "'p event \<Rightarrow> _" where
  "fields_of r = (e_v r, e_seq r, e_id r, e_ts r, e_type r, e_payload r, e_prev r, e_hash r, e_dedupe r)"

fun of_fields :: "_ \<Rightarrow> 'p event" where
  "of_fields (v, sq, i, t, y, p, pv, h, d) = \<lparr>e_v = v, e_seq = sq, e_id = i, e_ts = t, e_type = y,
     e_payload = p, e_prev = pv, e_hash = h, e_dedupe = d\<rparr>"

definition unary :: "'p::countable event \<Rightarrow> string" where
  "unary r = replicate (Suc (to_nat (fields_of r))) (CHR ''1'')"

definition demo_codec :: "('p::countable \<Rightarrow> string) \<Rightarrow> 'p \<Rightarrow> 'p codec" where
  "demo_codec D e = \<lparr>
     row_text = (\<lambda>r. unary r @ (if row_clean D r then '''' else [CHR 0x85, CHR ''x''])),
     decode = (\<lambda>s. case takeWhile (\<lambda>c. c = CHR ''1'') s of [] \<Rightarrow> Garbage
                 | x # xs \<Rightarrow> Row (of_fields (from_nat (length xs)))),
     dumps = D, float_str = (\<lambda>t. ''1.0''),
     sha = map (\<lambda>c. if c = CHR ''|'' \<or> c = CHR 0x85 then CHR ''-'' else c), empty_doc = e\<rparr>"

lemma of_fields_of [simp]: "of_fields (fields_of r) = r"
  by (simp add: fields_of_def)

lemma unary_reads: "hd (s @ ''x'') \<noteq> CHR ''1'' \<Longrightarrow> decode (demo_codec D e) (unary r @ s) = Row r"
  by (cases s) (simp_all add: demo_codec_def unary_def takeWhile_append takeWhile_replicate)

lemma unary_clean: "clean (unary r)"
  by (simp add: clean_def unary_def line_break_def list_all_iff)

lemma demo_codec_ok: "codec_ok (demo_codec D e)"
proof -
  have d: "decode (demo_codec D e) (row_text (demo_codec D e) r) = Row r" for r
    using unary_reads [of "if row_clean D r then '''' else [CHR 0x85, CHR ''x'']" D e r]
    by (simp add: demo_codec_def)
  moreover have "row_text (demo_codec D e) r \<noteq> ''''
      \<and> (row_clean (dumps (demo_codec D e)) r \<longrightarrow> clean (row_text (demo_codec D e) r))" for r
    using unary_clean [of r] by (simp add: demo_codec_def) (simp add: unary_def)
  moreover have "no_nel (sha (demo_codec D e) x)" for x by (auto simp: no_nel_def demo_codec_def)
  ultimately show ?thesis unfolding codec_ok_def by blast
qed

lemma split_lines_app: "clean s \<Longrightarrow> split_lines acc (s @ CHR 0x85 # t) = (rev acc @ s) # split_lines [] t"
  by (induction acc s rule: split_lines.induct) (auto simp: clean_def line_break_def)

lemma demo_row_cut:
  assumes "\<not> row_clean D r"
  shows "row_line (demo_codec D e) r = Line (Row r) [Row r, Garbage]"
proof -
  let ?C = "demo_codec D e"
  have "row_text ?C r = unary r @ [CHR 0x85, CHR ''x'']" using assms by (simp add: demo_codec_def)
  moreover have "decode ?C (unary r) = Row r" using unary_reads [of "''''" D e r] by simp
  moreover have "decode ?C ''x'' = Garbage" by (simp add: demo_codec_def)
  ultimately show ?thesis
    using row_line_whole [OF demo_codec_ok, of D e r]
    by (simp add: row_line_def split_lines_app [OF unary_clean] line_break_def)
qed

definition ex_codec :: "string codec" where
  "ex_codec = demo_codec (\<lambda>p. p) ''{}''"

lemmas ex_log_codec_ok = demo_codec_ok [of "\<lambda>p. p" "''{}''", folded ex_codec_def]

definition ex_row :: "string event" where
  "ex_row = make_row ex_codec 1 ''id1'' 1 ''goal'' ''p'' 1 GENESIS (Some ''k'')"

definition ex_store :: "string store" where
  "ex_store = \<lparr>file_lines = [Line (Row ex_row) [Row ex_row]], version = 1, dedupe_map = None\<rparr>"

lemma ex_store_ok: "ok (verify ex_codec ex_store)"
  using intact_make_row [of ex_codec 1 GENESIS 0]
  by (simp add: verify_ok_iff ex_store_def ex_row_def)

text \<open>A note with U+0085 on a fresh store: both rows are numbered 1 and the file does not verify.\<close>

lemma line_end_example:
  "\<exists>st r1 r2. append_all ex_codec [\<lparr>q_type = ''goal'', q_payload = Some [CHR 0x85], q_dedupe = None, q_id = ''i'', q_now = 0\<rparr>,
       \<lparr>q_type = ''goal'', q_payload = None, q_dedupe = None, q_id = ''j'', q_now = 1\<rparr>]
       \<lparr>file_lines = [], version = 1, dedupe_map = None\<rparr> = (st, [Inr r1, Inr r2])
     \<and> e_seq r1 = Some 1 \<and> e_seq r2 = Some 1 \<and> \<not> ok (verify ex_codec st)"
proof -
  let ?r = "make_row ex_codec 1 ''i'' 0 ''goal'' [CHR 0x85] 1 GENESIS None"
  let ?st = "\<lparr>file_lines = [Line (Row ?r) [Row ?r, Garbage]], version = 1, dedupe_map = None\<rparr> :: string store"
  have "\<not> row_clean (\<lambda>p. p) ?r" by (simp add: row_clean_def make_row_def no_nel_def)
  from demo_row_cut [OF this] have cut: "row_line ex_codec ?r = Line (Row ?r) [Row ?r, Garbage]"
    by (simp add: ex_codec_def)
  have 1: "append_event ex_codec ''goal'' (Some [CHR 0x85]) None ''i'' 0 \<lparr>file_lines = [], version = 1, dedupe_map = None\<rparr>
      = (?st, Inr ?r)"
    by (simp add: append_event_def append_row_def read_head_def split_docs_def Let_def cut)
  obtain st res where 2: "append_event ex_codec ''goal'' None None ''j'' 1 ?st = (st, res)" by fastforce
  from line_end_restarts [OF _ 2 ex_log_codec_ok, of "[]" ?r "[Row ?r]"] obtain row where
    "res = Inr row" "e_seq row = Some 1" "\<not> ok (verify ex_codec st)" by auto
  with 1 2 show ?thesis by (simp add: make_row_def)
qed

theorem appends_exactly_once_witness:
  "\<exists>st res. append_all ex_codec [\<lparr>q_type = ''goal'', q_payload = None, q_dedupe = Some ''k'', q_id = ''i'', q_now = 0\<rparr>,
        \<lparr>q_type = ''goal'', q_payload = Some ''x'', q_dedupe = Some ''k'', q_id = ''j'', q_now = 1\<rparr>]
        \<lparr>file_lines = [], version = 1, dedupe_map = None\<rparr> = (st, res)
     \<and> ok (verify ex_codec st) \<and> set (keys_of (rows_of (file_lines st))) = {''k''} \<and> distinct (keys_of (rows_of (file_lines st)))"
proof -
  let ?qs = "[\<lparr>q_type = ''goal'', q_payload = None, q_dedupe = Some ''k'', q_id = ''i'', q_now = 0\<rparr>,
        \<lparr>q_type = ''goal'', q_payload = Some ''x'', q_dedupe = Some ''k'', q_id = ''j'', q_now = 1\<rparr>] :: string request list"
  obtain st res where a: "append_all ex_codec ?qs \<lparr>file_lines = [], version = 1, dedupe_map = None\<rparr> = (st, res)"
    by fastforce
  have "\<forall>q \<in> set ?qs. request_clean ex_codec q"
    by (simp add: request_clean_def texts_clean_def no_nel_def ex_codec_def demo_codec_def)
  from appends_exactly_once [OF a ex_log_codec_ok this] have "ok (verify ex_codec st)"
    "set (keys_of (rows_of (file_lines st))) = {''k''}" "distinct (keys_of (rows_of (file_lines st)))" by auto
  with a show ?thesis by blast
qed

theorem tampering_needs_collision_witness:
  "list_all2 (same_content ex_codec) [ex_row] [ex_row]
    \<or> (\<exists>a \<in> set (raws ex_codec GENESIS [ex_row]). \<exists>b \<in> set (raws ex_codec GENESIS [ex_row]).
         a \<noteq> b \<and> sha ex_codec a = sha ex_codec b)"
proof -
  have "bar_free ex_codec (rows_of (file_lines ex_store))"
    by (simp add: bar_free_def ex_store_def ex_row_def make_row_def ex_codec_def demo_codec_def)
  moreover have "CHR ''|'' \<notin> set (sha ex_codec x)" for x by (auto simp: ex_codec_def demo_codec_def)
  ultimately show ?thesis
    using tampering_needs_collision [OF ex_store_ok ex_store_ok refl refl]
    by (simp add: ex_store_def)
qed

theorem truncation_verifies_witness:
  "ok (verify ex_codec (ex_store\<lparr>file_lines := take 0 (file_lines ex_store)\<rparr>))"
  by (rule truncation_verifies [OF ex_store_ok])

theorem stale_cache_duplicates_witness:
  "\<exists>st' res. append_event ex_codec ''goal'' None (Some ''k'') ''id2'' 2
       (ex_store\<lparr>dedupe_map := Some []\<rparr>) = (st', res)
     \<and> ok (verify ex_codec st') \<and> length (rows_of (file_lines st')) = 2"
proof -
  let ?st = "ex_store\<lparr>dedupe_map := Some []\<rparr>"
  obtain st' res where a: "append_event ex_codec ''goal'' None (Some ''k'') ''id2'' 2 ?st = (st', res)"
    by fastforce
  have 1: "ok (verify ex_codec ?st)" using ex_store_ok by (simp add: verify_ok_iff)
  have "ok (verify ex_codec st') \<and> length (rows_of (file_lines st')) = 2"
    using stale_cache_duplicates [OF 1 _ ex_log_codec_ok _ _ _ _ a, of "[]" ex_row]
    by (auto simp: ex_store_def plain_def ex_row_def make_row_def)
  with a show ?thesis by blast
qed

theorem migrate_relinks_witness:
  "\<exists>st' n. migrate ex_codec MIGRATIONS None
       (ex_store\<lparr>file_lines := [Line (Row (ex_row\<lparr>e_payload := Some ''forged''\<rparr>)) [Row (ex_row\<lparr>e_payload := Some ''forged''\<rparr>)]]\<rparr>) = (st', Inr n)
     \<and> ok (verify ex_codec st')"
proof -
  let ?st = "ex_store\<lparr>file_lines := [Line (Row (ex_row\<lparr>e_payload := Some ''forged''\<rparr>)) [Row (ex_row\<lparr>e_payload := Some ''forged''\<rparr>)]]\<rparr>"
  obtain st' n where m: "migrate ex_codec MIGRATIONS None ?st = (st', Inr n)"
    by (simp add: migrate_def ex_store_def ex_row_def make_row_def EVENT_SCHEMA_VERSION_def
        upgrade_row.simps relink_row_def split_docs_def)
  then have "ok (verify ex_codec st')"
    using migrate_relinks [OF m ex_log_codec_ok] by (simp add: ex_store_def plain_def ex_row_def make_row_def)
  with m show ?thesis by blast
qed

end
