(* ===== verification/Quota.thy ===== *)
theory Quota
  imports EventStore
begin

text \<open>
  The goal-level quota tracker of \<^verbatim>\<open>obase/loop_event_store.py\<close> (\<open>QuotaTracker\<close>). It writes its
  events through an \<^theory_text>\<open>event_sink\<close>; an absent store is the option None. Amounts are exact
  rationals. An operation is accepted when the sink accepts the events it may write: the event store takes those
  whose texts hold no U+0085. A usage operation takes the two environments (uuid, clock) of the at most two events.
\<close>

section \<open>The tracker\<close>

datatype quota_payload =
    Consumed "string option" rat rat rat string
  | Paused "string option" rat rat
  | Resumed "string option" string rat rat

instance quota_payload :: countable
  by countable_datatype

record usage_entry =
  ent_cost :: rat
  ent_note :: string
  ent_spent :: rat
  ent_ts :: rat

record 'st quota =
  budget :: rat
  goal_id :: "string option"
  sink :: "'st option"
  auto_pause :: bool
  spent :: rat
  paused :: bool
  entries :: "usage_entry list"

datatype 'err quota_error =
    Value_error string
  | Pause_requested
  | Budget_exceeded rat rat
  | Store_error 'err

type_synonym ('env, 'err, 'st) emitter = "'env \<Rightarrow> string \<Rightarrow> quota_payload \<Rightarrow> 'st \<Rightarrow> 'err + 'st"

definition new_quota :: "rat \<Rightarrow> string option \<Rightarrow> 'st option \<Rightarrow> bool \<Rightarrow> 'err quota_error + 'st quota" where
  "new_quota b gid st auto =
     (if b < 0 then Inl (Value_error ''budget_usd must be >= 0'')
      else Inr \<lparr>budget = b, goal_id = gid, sink = st, auto_pause = auto, spent = 0,
                 paused = False, entries = []\<rparr>)"

definition remaining :: "'st quota \<Rightarrow> rat" where
  "remaining q = max 0 (budget q - spent q)"

text \<open>\<^verbatim>\<open>if self._store is not None: await self._store.append(...)\<close>\<close>

definition write_event :: "('env, 'err, 'st) emitter \<Rightarrow> 'env \<Rightarrow> string \<Rightarrow> quota_payload \<Rightarrow> 'st quota \<Rightarrow>
    'st quota \<times> ('err quota_error + unit)" where
  "write_event em env ty p q =
     (case sink q of
        None \<Rightarrow> (q, Inr ())
      | Some st \<Rightarrow>
          (case em env ty p st of
             Inl e \<Rightarrow> (q, Inl (Store_error e))
           | Inr st' \<Rightarrow> (q\<lparr>sink := Some st'\<rparr>, Inr ())))"

definition record_usage :: "('env, 'err, 'st) emitter \<Rightarrow> 'env \<Rightarrow> 'env \<Rightarrow> rat \<Rightarrow> rat \<Rightarrow> string \<Rightarrow> 'st quota \<Rightarrow>
    'st quota \<times> ('err quota_error + rat)" where
  "record_usage em env1 env2 now cost nt q =
     (if cost < 0 then (q, Inl (Value_error ''cost_usd must be >= 0''))
      else if paused q then (q, Inl Pause_requested)
      else
        let s = spent q + cost;
            q1 = q\<lparr>spent := s, entries := entries q @
                    [\<lparr>ent_cost = cost, ent_note = nt, ent_spent = s, ent_ts = now\<rparr>]\<rparr>
        in case write_event em env1 ''quota_consumed'' (Consumed (goal_id q) cost s (budget q) nt) q1 of
             (q2, Inl e) \<Rightarrow> (q2, Inl e)
           | (q2, Inr _) \<Rightarrow>
               if s > budget q2
               then (if auto_pause q2
                     then (case write_event em env2 ''quota_paused'' (Paused (goal_id q) s (budget q2))
                                  (q2\<lparr>paused := True\<rparr>) of
                             (q3, Inl e) \<Rightarrow> (q3, Inl e)
                           | (q3, Inr _) \<Rightarrow> (q3, Inl (Budget_exceeded (budget q3) s)))
                     else (q2, Inl (Budget_exceeded (budget q2) s)))
               else (q2, Inr s))"

definition check :: "'st quota \<Rightarrow> 'err quota_error + unit" where
  "check q = (if spent q > budget q then Inl (Budget_exceeded (budget q) (spent q)) else Inr ())"

definition resume :: "('env, 'err, 'st) emitter \<Rightarrow> 'env \<Rightarrow> rat option \<Rightarrow> string \<Rightarrow> 'st quota \<Rightarrow>
    'st quota \<times> ('err quota_error + unit)" where
  "resume em env new_budget nt q =
     (if (case new_budget of Some b \<Rightarrow> b < 0 | None \<Rightarrow> False)
      then (q, Inl (Value_error ''new_budget must be >= 0''))
      else
        let q1 = (case new_budget of Some b \<Rightarrow> q\<lparr>budget := b\<rparr> | None \<Rightarrow> q)
        in if paused q1
           then write_event em env ''quota_resumed'' (Resumed (goal_id q1) nt (spent q1) (budget q1))
                  (q1\<lparr>paused := False\<rparr>)
           else (q1, Inr ()))"

definition restore :: "rat \<Rightarrow> rat option \<Rightarrow> bool option \<Rightarrow> 'st quota \<Rightarrow>
    'st quota \<times> ('err quota_error + unit)" where
  "restore spent_usd budget_usd pause q =
     (if spent_usd < 0 then (q, Inl (Value_error ''spent_usd must be >= 0''))
      else let q1 = q\<lparr>spent := spent_usd\<rparr>
           in case budget_usd of
                Some b \<Rightarrow>
                  if b < 0 then (q1, Inl (Value_error ''budget_usd must be >= 0''))
                  else ((case pause of Some p \<Rightarrow> q1\<lparr>budget := b, paused := p\<rparr> | None \<Rightarrow> q1\<lparr>budget := b\<rparr>), Inr ())
              | None \<Rightarrow> ((case pause of Some p \<Rightarrow> q1\<lparr>paused := p\<rparr> | None \<Rightarrow> q1), Inr ()))"

record quota_summary =
  sum_goal :: "string option"
  sum_budget :: rat
  sum_spent :: rat
  sum_remaining :: rat
  sum_paused :: bool
  sum_entries :: "usage_entry list"

definition summary :: "'st quota \<Rightarrow> quota_summary" where
  "summary q = \<lparr>sum_goal = goal_id q, sum_budget = budget q, sum_spent = spent q,
     sum_remaining = remaining q, sum_paused = paused q, sum_entries = entries q\<rparr>"

section \<open>Executions\<close>

datatype 'env quota_op =
    Use 'env 'env rat rat string
  | Resume 'env "rat option" string

fun quota_step :: "('env, 'err, 'st) emitter \<Rightarrow> 'env quota_op \<Rightarrow> 'st quota \<Rightarrow> 'st quota" where
  "quota_step em (Use e1 e2 now cost nt) q = fst (record_usage em e1 e2 now cost nt q)"
| "quota_step em (Resume e b nt) q = fst (resume em e b nt q)"

definition quota_run :: "('env, 'err, 'st) emitter \<Rightarrow> 'env quota_op list \<Rightarrow> 'st quota \<Rightarrow> 'st quota" where
  "quota_run em ops q = fold (quota_step em) ops q"

text \<open>The projection of an event stream that \<open>restore\<close> is fed with after a restart.\<close>

fun project_event :: "string \<times> quota_payload \<Rightarrow> rat \<times> rat \<times> bool \<Rightarrow> rat \<times> rat \<times> bool" where
  "project_event (_, Consumed g c s b n) (_, _, p) = (s, b, p)"
| "project_event (_, Paused g s b) _ = (s, b, True)"
| "project_event (_, Resumed g n s b) _ = (s, b, False)"

definition project :: "rat \<Rightarrow> (string \<times> quota_payload) list \<Rightarrow> rat \<times> rat \<times> bool" where
  "project b0 evs = fold project_event evs (0, b0, False)"
section \<open>The tracker over a sink\<close>

text \<open>What a usage and a resumption write.\<close>

definition usage_events :: "'st quota \<Rightarrow> rat \<Rightarrow> string \<Rightarrow> (string \<times> quota_payload) list" where
  "usage_events q cost nt =
     (if cost < 0 \<or> paused q then []
      else (''quota_consumed'', Consumed (goal_id q) cost (spent q + cost) (budget q) nt) #
        (if spent q + cost > budget q \<and> auto_pause q
         then [(''quota_paused'', Paused (goal_id q) (spent q + cost) (budget q))] else []))"

definition resume_events :: "'st quota \<Rightarrow> rat option \<Rightarrow> string \<Rightarrow> (string \<times> quota_payload) list" where
  "resume_events q nb nt =
     (if (case nb of Some b \<Rightarrow> b < 0 | None \<Rightarrow> False) \<or> \<not> paused q then []
      else [(''quota_resumed'', Resumed (goal_id q) nt (spent q)
               (case nb of Some b \<Rightarrow> b | None \<Rightarrow> budget q))])"

fun op_events :: "'env quota_op \<Rightarrow> 'st quota \<Rightarrow> (string \<times> quota_payload) list" where
  "op_events (Use e1 e2 now cost nt) q = usage_events q cost nt"
| "op_events (Resume e nb nt) q = resume_events q nb nt"

fun op_accepted :: "('env \<Rightarrow> string \<Rightarrow> quota_payload \<Rightarrow> bool) \<Rightarrow> string option \<Rightarrow> 'env quota_op \<Rightarrow> bool" where
  "op_accepted acc g (Use e1 e2 now cost nt) \<longleftrightarrow>
     (\<forall>s b. acc e1 ''quota_consumed'' (Consumed g cost s b nt) \<and> acc e2 ''quota_paused'' (Paused g s b))"
| "op_accepted acc g (Resume e nb nt) \<longleftrightarrow> (\<forall>s b. acc e ''quota_resumed'' (Resumed g nt s b))"

abbreviation no_sink :: "'st quota \<Rightarrow> 'st quota" where
  "no_sink q \<equiv> q\<lparr>sink := None\<rparr>"

locale quota_sink = event_sink em log inv acc
  for em :: "('env, 'err, 'st) emitter" and log :: "'st \<Rightarrow> (string \<times> quota_payload) list"
    and inv :: "'st \<Rightarrow> bool" and acc :: "'env \<Rightarrow> string \<Rightarrow> quota_payload \<Rightarrow> bool"
begin

definition sink_ok :: "'st quota \<Rightarrow> bool" where
  "sink_ok q \<longleftrightarrow> (case sink q of None \<Rightarrow> True | Some st \<Rightarrow> inv st)"

definition logged :: "'st quota \<Rightarrow> (string \<times> quota_payload) list" where
  "logged q = (case sink q of None \<Rightarrow> [] | Some st \<Rightarrow> log st)"

text \<open>
  On a well-formed sink an operation acts like the operation without a sink and writes its
  events.
\<close>

lemma record_usage_ok:
  assumes "sink q = Some st" and "inv st" and "op_accepted acc (goal_id q) (Use e1 e2 now cost nt)"
  shows "\<exists>st'. inv st' \<and> log st' = log st @ usage_events q cost nt
    \<and> record_usage em e1 e2 now cost nt q
        = ((fst (record_usage em e1 e2 now cost nt (no_sink q)))\<lparr>sink := Some st'\<rparr>,
           snd (record_usage em e1 e2 now cost nt (no_sink q)))"
proof -
  obtain st1 where 1: "em e1 ''quota_consumed'' (Consumed (goal_id q) cost (spent q + cost) (budget q) nt) st
      = Inr st1" "inv st1" "log st1 = log st @
        [(''quota_consumed'', Consumed (goal_id q) cost (spent q + cost) (budget q) nt)]"
    using emit_ok [OF assms(2)] assms(3) by (metis op_accepted.simps(1))
  obtain st2 where 2: "em e2 ''quota_paused'' (Paused (goal_id q) (spent q + cost) (budget q)) st1 = Inr st2"
    "inv st2" "log st2 = log st1 @ [(''quota_paused'', Paused (goal_id q) (spent q + cost) (budget q))]"
    using emit_ok [OF 1(2)] assms(3) by (metis op_accepted.simps(1))
  let ?st = "if cost < 0 \<or> paused q then st
    else if spent q + cost > budget q \<and> auto_pause q then st2 else st1"
  show ?thesis
  proof (intro exI [of _ ?st] conjI)
    show "inv ?st" using assms(2) 1 2 by simp
    show "log ?st = log st @ usage_events q cost nt" using 1 2 by (simp add: usage_events_def)
    show "record_usage em e1 e2 now cost nt q
        = ((fst (record_usage em e1 e2 now cost nt (no_sink q)))\<lparr>sink := Some ?st\<rparr>,
           snd (record_usage em e1 e2 now cost nt (no_sink q)))"
      using assms(1) 1(1) 2(1)
      by (cases q) (simp add: record_usage_def write_event_def Let_def)
  qed
qed

lemma resume_ok:
  assumes "sink q = Some st" and "inv st" and "op_accepted acc (goal_id q) (Resume e nb nt)"
  shows "\<exists>st'. inv st' \<and> log st' = log st @ resume_events q nb nt
    \<and> resume em e nb nt q
        = ((fst (resume em e nb nt (no_sink q)))\<lparr>sink := Some st'\<rparr>,
           snd (resume em e nb nt (no_sink q)))"
proof -
  let ?b = "case nb of Some b \<Rightarrow> b | None \<Rightarrow> budget q"
  obtain st1 where 1: "em e ''quota_resumed'' (Resumed (goal_id q) nt (spent q) ?b) st = Inr st1"
    "inv st1" "log st1 = log st @ [(''quota_resumed'', Resumed (goal_id q) nt (spent q) ?b)]"
    using emit_ok [OF assms(2)] assms(3) by (metis op_accepted.simps(2))
  let ?st = "if (case nb of Some b \<Rightarrow> b < 0 | None \<Rightarrow> False) \<or> \<not> paused q then st else st1"
  show ?thesis
  proof (intro exI [of _ ?st] conjI)
    show "inv ?st" using assms(2) 1 by simp
    show "log ?st = log st @ resume_events q nb nt" using 1 by (simp add: resume_events_def)
    show "resume em e nb nt q = ((fst (resume em e nb nt (no_sink q)))\<lparr>sink := Some ?st\<rparr>,
           snd (resume em e nb nt (no_sink q)))"
      using assms(1) 1(1)
      by (cases q; cases nb) (simp_all add: resume_def write_event_def Let_def)
  qed
qed

lemma quota_step_ok:
  assumes "sink q = Some st" and "inv st" and "op_accepted acc (goal_id q) a"
  shows "\<exists>st'. inv st' \<and> log st' = log st @ op_events a q
    \<and> quota_step em a q = (quota_step em a (no_sink q))\<lparr>sink := Some st'\<rparr>"
proof (cases a)
  case (Use e1 e2 now cost nt)
  with record_usage_ok [OF assms(1,2), of e1 e2 now cost nt] assms(3) show ?thesis by force
next
  case (Resume e nb nt)
  with resume_ok [OF assms(1,2), of e nb nt] assms(3) show ?thesis by force
qed

end

interpretation loop_quota: quota_sink "emit C" event_log "store_ok C" "accepts C" for C :: "quota_payload codec"
  by unfold_locales

text \<open>
  The texts in a payload and an operation. Rendering a payload writes U+0085 only when one of its texts holds it.
\<close>

fun payload_texts :: "quota_payload \<Rightarrow> string list" where
  "payload_texts (Consumed g c s b n) = n # case_option [] (\<lambda>x. [x]) g"
| "payload_texts (Paused g s b) = case_option [] (\<lambda>x. [x]) g"
| "payload_texts (Resumed g n s b) = n # case_option [] (\<lambda>x. [x]) g"

fun op_texts :: "(string \<times> rat) quota_op \<Rightarrow> string list" where
  "op_texts (Use e1 e2 now cost nt) = [fst e1, fst e2, nt]"
| "op_texts (Resume e nb nt) = [fst e, nt]"

definition renders_texts :: "quota_payload codec \<Rightarrow> bool" where
  "renders_texts C \<longleftrightarrow> (\<forall>p. (\<forall>s \<in> set (payload_texts p). no_nel s) \<longrightarrow> no_nel (dumps C p))"

lemma texts_accepted:
  assumes "renders_texts C" and "pred_option no_nel g" and "\<forall>s \<in> set (op_texts a). no_nel s"
  shows "op_accepted (accepts C) g a"
proof -
  have "no_nel (dumps C p)" if "\<forall>s \<in> set (payload_texts p). no_nel s" for p
    using assms(1) that by (simp add: renders_texts_def)
  with assms(2,3) show ?thesis
    by (cases a; cases g) (simp_all add: accepts_def texts_clean_def, simp_all add: no_nel_def)
qed

lemma quota_step_goal: "goal_id (quota_step em a q) = goal_id q"
  by (cases a)
    (auto simp: record_usage_def resume_def write_event_def Let_def split: option.split sum.split if_splits)

section \<open>Steps without a sink\<close>

lemma spent_no_sink [simp]:
  "spent (no_sink q) = spent q" "paused (no_sink q) = paused q" "budget (no_sink q) = budget q"
  by simp_all

lemma pure_step_projects:
  assumes "fold project_event (op_events a q) (spent q, B, paused q) = (s, B', p)"
  shows "spent (quota_step em a (no_sink q)) = s" and "paused (quota_step em a (no_sink q)) = p"
proof -
  have "spent (quota_step em a (no_sink q)) = s \<and> paused (quota_step em a (no_sink q)) = p"
  proof (cases a)
    case (Use e1 e2 now cost nt)
    with assms show ?thesis
      by (auto simp: usage_events_def record_usage_def write_event_def Let_def split: if_splits)
  next
    case (Resume e nb nt)
    with assms show ?thesis
      by (cases nb) (auto simp: resume_events_def resume_def write_event_def Let_def split: if_splits)
  qed
  then show "spent (quota_step em a (no_sink q)) = s" "paused (quota_step em a (no_sink q)) = p"
    by simp_all
qed

definition within_quota :: "rat \<Rightarrow> rat \<Rightarrow> 'st quota \<Rightarrow> bool" where
  "within_quota b c q \<longleftrightarrow> budget q = b \<and> auto_pause q \<and> spent q \<le> b + c
     \<and> (paused q \<longleftrightarrow> b < spent q) \<and> spent q = (\<Sum>en\<leftarrow>entries q. ent_cost en)"

lemma pure_use_within:
  assumes "within_quota b c q" and "cost \<le> c"
  shows "within_quota b c (quota_step em (Use e1 e2 now cost nt) (no_sink q))"
  using assms
  by (auto simp: within_quota_def record_usage_def write_event_def Let_def)

lemma within_quota_sink [simp]: "within_quota b c (q\<lparr>sink := s\<rparr>) = within_quota b c q"
  by (simp add: within_quota_def)

lemma quota_run_Cons: "quota_run em (a # ops) q = quota_run em ops (quota_step em a q)"
  by (simp add: quota_run_def)

section \<open>Properties\<close>

text \<open>
  C32. The event stream determines the quota: whatever usages and resumptions a tracker over an
  intact event store goes through, the store stays intact and the projection of the events
  written equals the tracker's spent amount and its paused flag. The goal id, the notes and the event ids hold no
  U+0085 (and no U+2028 or U+2029, outside these 8-bit texts): a row with one breaks the chain,
  \<open>EventStore.line_end_restarts\<close>.
\<close>

theorem quota_projection:
  assumes "new_quota b gid (Some st0) auto = Inr q0" and "store_ok C st0"
    and "renders_texts C" and "pred_option no_nel gid" and "\<forall>a \<in> set ops. \<forall>s \<in> set (op_texts a). no_nel s"
  shows "\<exists>st evs B. sink (quota_run (emit C) ops q0) = Some st \<and> store_ok C st
    \<and> event_log st = event_log st0 @ evs
    \<and> project b evs = (spent (quota_run (emit C) ops q0), B, paused (quota_run (emit C) ops q0))"
proof -
  have "\<exists>st evs B'. sink (quota_run (emit C) ops q) = Some st \<and> store_ok C st
    \<and> event_log st = event_log st1 @ evs
    \<and> fold project_event evs (spent q, B, paused q)
        = (spent (quota_run (emit C) ops q), B', paused (quota_run (emit C) ops q))"
    if "sink q = Some st1" "store_ok C st1" "goal_id q = gid" for q st1 B
    using that assms(5)
  proof (induction ops arbitrary: q st1 B)
    case Nil
    then show ?case by (auto simp: quota_run_def intro!: exI [of _ "[]"])
  next
    case (Cons a ops)
    from Cons.prems(3,4) have "op_accepted (accepts C) (goal_id q) a"
      by (intro texts_accepted [OF assms(3)]) (simp_all add: assms(4))
    from loop_quota.quota_step_ok [OF Cons.prems(1,2) this] obtain st2 where
      st2: "store_ok C st2" "event_log st2 = event_log st1 @ op_events a q"
      and step: "quota_step (emit C) a q = (quota_step (emit C) a (no_sink q))\<lparr>sink := Some st2\<rparr>"
      by blast
    obtain s B1 p where p: "fold project_event (op_events a q) (spent q, B, paused q) = (s, B1, p)"
      by (cases "fold project_event (op_events a q) (spent q, B, paused q)") auto
    note pr = pure_step_projects [OF p, of "emit C"]
    have q1: "sink (quota_step (emit C) a q) = Some st2" "spent (quota_step (emit C) a q) = s"
      "paused (quota_step (emit C) a q) = p" using step pr by simp_all
    have "goal_id (quota_step (emit C) a q) = gid" using Cons.prems(3) by (simp add: quota_step_goal)
    from Cons.IH [OF q1(1) st2(1) this, of B1] Cons.prems(4) obtain st evs B' where
      "sink (quota_run (emit C) (a # ops) q) = Some st" "store_ok C st"
      "event_log st = event_log st2 @ evs"
      "fold project_event evs (s, B1, p)
        = (spent (quota_run (emit C) (a # ops) q), B', paused (quota_run (emit C) (a # ops) q))"
      using q1(2,3) by (auto simp: quota_run_Cons)
    with st2(2) p show ?case
      by (intro exI [of _ st] exI [of _ "op_events a q @ evs"] exI [of _ B']) simp
  qed
  moreover have "sink q0 = Some st0" "spent q0 = 0" "paused q0 = False" "goal_id q0 = gid"
    using assms(1) by (auto simp: new_quota_def split: if_splits)
  ultimately show ?thesis using assms(2) unfolding project_def by fastforce
qed

text \<open>
  Overspending is bounded: with automatic pausing, a tracker that only records usages of at
  most \<open>c\<close> never spends more than its budget plus \<open>c\<close>, is paused exactly when it has spent more
  than its budget, and its entries account for every amount spent (texts without U+0085, as above).
\<close>

theorem quota_overspend_bounded:
  assumes "new_quota b gid (Some st0) True = Inr q0" and "store_ok C st0" and "0 \<le> c"
    and "\<forall>a \<in> set ops. \<exists>e1 e2 now cost nt. a = Use e1 e2 now cost nt \<and> cost \<le> c"
    and "renders_texts C" and "pred_option no_nel gid" and "\<forall>a \<in> set ops. \<forall>s \<in> set (op_texts a). no_nel s"
  shows "spent (quota_run (emit C) ops q0) \<le> b + c
    \<and> (paused (quota_run (emit C) ops q0) \<longleftrightarrow> b < spent (quota_run (emit C) ops q0))
    \<and> spent (quota_run (emit C) ops q0) = (\<Sum>en\<leftarrow>entries (quota_run (emit C) ops q0). ent_cost en)"
proof -
  have "within_quota b c (quota_run (emit C) ops q)"
    if "sink q = Some st1" "store_ok C st1" "within_quota b c q" "goal_id q = gid" for q st1
    using that assms(4,7)
  proof (induction ops arbitrary: q st1)
    case Nil
    then show ?case by (simp add: quota_run_def)
  next
    case (Cons a ops)
    from Cons.prems(4,6) have "op_accepted (accepts C) (goal_id q) a"
      by (intro texts_accepted [OF assms(5)]) (simp_all add: assms(6))
    from loop_quota.quota_step_ok [OF Cons.prems(1,2) this] obtain st2 where
      st2: "store_ok C st2"
      and step: "quota_step (emit C) a q = (quota_step (emit C) a (no_sink q))\<lparr>sink := Some st2\<rparr>"
      by blast
    from Cons.prems(5) obtain e1 e2 now cost nt where a: "a = Use e1 e2 now cost nt" "cost \<le> c"
      by auto
    have "within_quota b c (quota_step (emit C) a (no_sink q))"
      unfolding a(1) by (rule pure_use_within [OF Cons.prems(3) a(2)])
    then have "within_quota b c (quota_step (emit C) a q)" by (simp add: step)
    moreover have "sink (quota_step (emit C) a q) = Some st2" by (simp add: step)
    moreover have "goal_id (quota_step (emit C) a q) = gid" using Cons.prems(4) by (simp add: quota_step_goal)
    ultimately show ?case using Cons.IH [OF _ st2] Cons.prems(5,6) by (simp add: quota_run_Cons)
  qed
  moreover have "sink q0 = Some st0" "within_quota b c q0" "goal_id q0 = gid"
    using assms(1,3) by (auto simp: new_quota_def within_quota_def split: if_splits)
  ultimately have "within_quota b c (quota_run (emit C) ops q0)" using assms(2) by blast
  then show ?thesis by (auto simp: within_quota_def)
qed

text \<open>An empty store for the witnesses.\<close>

definition ex_quota_codec :: "quota_payload codec" where
  "ex_quota_codec = demo_codec (\<lambda>p. concat (payload_texts p)) (Paused None 0 0)"

definition ex_quota_store :: "quota_payload store" where
  "ex_quota_store = \<lparr>file_lines = [], version = 1, dedupe_map = None\<rparr>"

definition ex_quota :: "quota_payload store quota" where
  "ex_quota = \<lparr>budget = 5, goal_id = None, sink = Some ex_quota_store, auto_pause = True,
     spent = 0, paused = False, entries = []\<rparr>"

lemma ex_quota_new: "new_quota 5 None (Some ex_quota_store) True = (Inr ex_quota :: nat quota_error + _)"
  by (simp add: new_quota_def ex_quota_def)

lemma ex_quota_store_ok: "store_ok ex_quota_codec ex_quota_store"
  by (simp add: store_ok_def verify_ok_iff cache_ok_def ex_quota_store_def ex_quota_codec_def demo_codec_ok)

lemma ex_quota_renders: "renders_texts ex_quota_codec"
  by (auto simp: renders_texts_def ex_quota_codec_def demo_codec_def no_nel_def)

abbreviation ex_usage :: "(string \<times> rat) quota_op" where
  "ex_usage \<equiv> Use (''a'', 1) (''b'', 1) 1 7 ''n''"

lemma ex_usage_texts: "\<forall>a \<in> set [ex_usage]. \<forall>s \<in> set (op_texts a). no_nel s"
  by (simp add: no_nel_def)

theorem quota_projection_witness:
  "\<exists>st evs B. sink (quota_run (emit ex_quota_codec) [ex_usage] ex_quota) = Some st
    \<and> event_log st = event_log ex_quota_store @ evs
    \<and> project 5 evs = (spent (quota_run (emit ex_quota_codec) [ex_usage] ex_quota), B,
        paused (quota_run (emit ex_quota_codec) [ex_usage] ex_quota))"
  using quota_projection [OF ex_quota_new ex_quota_store_ok ex_quota_renders _ ex_usage_texts]
  by simp blast

theorem quota_overspend_bounded_witness:
  "spent (quota_run (emit ex_quota_codec) [ex_usage] ex_quota) \<le> 5 + 7"
  using quota_overspend_bounded [OF ex_quota_new ex_quota_store_ok _ _ ex_quota_renders _ ex_usage_texts, of 7]
  by simp

text \<open>
  A new budget given to a running tracker leaves no trace: after raising the budget from 5 to
  100 without a pause, no event is written and the projection of the stream still reads 5.
\<close>

theorem resume_running_unlogged:
  "\<exists>st evs. sink (quota_run (emit ex_quota_codec)
        [Use (''a'', 1) (''b'', 1) 1 2 ''n'', Resume (''c'', 2) (Some 100) ''top up''] ex_quota) = Some st
    \<and> event_log st = evs \<and> project 5 evs = (2, 5, False)
    \<and> budget (quota_run (emit ex_quota_codec)
        [Use (''a'', 1) (''b'', 1) 1 2 ''n'', Resume (''c'', 2) (Some 100) ''top up''] ex_quota) = 100"
  by (simp add: quota_run_def record_usage_def resume_def write_event_def ex_quota_def ex_quota_store_def
      emit_def append_event_def append_row_def read_head_def split_docs_def make_row_def event_log_def project_def Let_def
      ex_quota_codec_def row_line_whole [OF demo_codec_ok])

end
