(* ===== verification/Cost.thy ===== *)
theory Cost
  imports Obase_Prelude
begin

text \<open>
  Pricing and cost accounting of \<^verbatim>\<open>obase/cost_tracker.py\<close>: the pricing table, the tracker with
  its budget ceiling, the estimates, currency conversion and the tracker bound to the current
  context. Prices and amounts are exact rationals, so float rounding and the precision of the
  decimal context are outside the model; logging and the optional trail are omitted.
\<close>

section \<open>Pricing table\<close>

record pricing_entry =
  pe_category :: string
  pe_provider :: string
  pe_tier :: string
  pe_unit :: string
  pe_price :: rat

type_synonym pricing_table = "pricing_entry list"

definition entry_matches :: "string \<Rightarrow> string \<Rightarrow> string \<Rightarrow> string \<Rightarrow> pricing_entry \<Rightarrow> bool" where
  "entry_matches cat prov tier unit e \<longleftrightarrow>
     pe_category e = cat \<and> pe_provider e = prov \<and> pe_tier e = tier \<and> pe_unit e = unit"

definition lookup :: "pricing_table \<Rightarrow> string \<Rightarrow> string \<Rightarrow> string \<Rightarrow> string \<Rightarrow> pricing_entry option" where
  "lookup t cat prov tier unit = find (entry_matches cat prov tier unit) t"

text \<open>\<^verbatim>\<open>tier or "default"\<close>: None and the empty string read as the default tier.\<close>

definition or_default :: "string option \<Rightarrow> string" where
  "or_default tier = (case tier of None \<Rightarrow> ''default'' | Some s \<Rightarrow> if s = '''' then ''default'' else s)"

definition register_pricing :: "string \<Rightarrow> string \<Rightarrow> rat \<Rightarrow> string \<Rightarrow> string option \<Rightarrow> pricing_table \<Rightarrow>
    pricing_table" where
  "register_pricing prov unit price cat tier t =
     filter (\<lambda>e. \<not> entry_matches cat prov (or_default tier) unit e) t
       @ [\<lparr>pe_category = cat, pe_provider = prov, pe_tier = or_default tier, pe_unit = unit,
           pe_price = price\<rparr>]"

section \<open>Tracker\<close>

record cost_entry =
  ce_category :: string
  ce_provider :: string
  ce_tier :: string
  ce_unit :: string
  ce_quantity :: rat
  ce_cost :: rat

record tracker =
  table :: pricing_table
  budget :: "rat option"
  strict :: bool
  total_usd :: rat
  entries :: "cost_entry list"

datatype cost_error =
    Pricing_not_configured string string string string
  | Budget_exceeded rat rat
  | Value_error rat

definition new_tracker :: "pricing_table option \<Rightarrow> rat option \<Rightarrow> bool \<Rightarrow> tracker" where
  "new_tracker t b s = \<lparr>table = (case t of None \<Rightarrow> [] | Some t \<Rightarrow> t), budget = b, strict = s,
     total_usd = 0, entries = []\<rparr>"

definition check_budget :: "tracker \<Rightarrow> cost_error + unit" where
  "check_budget k =
     (case budget k of
        Some b \<Rightarrow> if total_usd k > b then Inl (Budget_exceeded b (total_usd k)) else Inr ()
      | None \<Rightarrow> Inr ())"

definition charge :: "string \<Rightarrow> string \<Rightarrow> string \<Rightarrow> string \<Rightarrow> rat \<Rightarrow> rat \<Rightarrow> tracker \<Rightarrow> tracker" where
  "charge cat prov tier unit qty cost k =
     k\<lparr>total_usd := total_usd k + cost,
       entries := entries k @ [\<lparr>ce_category = cat, ce_provider = prov, ce_tier = tier, ce_unit = unit,
                                ce_quantity = qty, ce_cost = cost\<rparr>]\<rparr>"

definition tracker_record :: "string \<Rightarrow> string \<Rightarrow> string \<Rightarrow> string \<Rightarrow> rat \<Rightarrow> tracker \<Rightarrow>
    tracker \<times> (cost_error + rat)" where
  "tracker_record cat prov tier unit qty k =
     (case (lookup (table k) cat prov tier unit, strict k) of
        (None, True) \<Rightarrow> (k, Inl (Pricing_not_configured cat prov tier unit))
      | (e, _) \<Rightarrow>
          (let cost = (case e of None \<Rightarrow> 0 | Some e \<Rightarrow> pe_price e * qty);
               k' = charge cat prov tier unit qty cost k
           in case check_budget k' of
                Inl err \<Rightarrow> (k', Inl err)
              | Inr _ \<Rightarrow> (k', Inr cost)))"

definition summary :: "tracker \<Rightarrow> rat \<times> cost_entry list" where
  "summary k = (total_usd k, entries k)"

section \<open>Estimates\<close>

record step_usage =
  su_step :: string
  su_provider :: string
  su_usage :: rat
  su_unit :: string
  su_tier :: "string option"
  su_category :: string

record cost_breakdown =
  per_step :: "(string, rat) dict"
  total :: rat
  currency :: string

definition estimate :: "tracker \<Rightarrow> string \<Rightarrow> rat \<Rightarrow> string \<Rightarrow> string option \<Rightarrow> string \<Rightarrow> rat" where
  "estimate k prov usage cat tier unit =
     (case lookup (table k) cat prov (or_default tier) unit of
        None \<Rightarrow> 0 | Some e \<Rightarrow> pe_price e * usage)"

definition estimate_step :: "tracker \<Rightarrow> step_usage \<Rightarrow> rat" where
  "estimate_step k s = estimate k (su_provider s) (su_usage s) ''default'' (su_tier s) (su_unit s)"

definition add_step :: "tracker \<Rightarrow> step_usage \<Rightarrow> (string, rat) dict \<times> rat \<Rightarrow> (string, rat) dict \<times> rat" where
  "add_step k s acc =
     (let cost = estimate_step k s;
          old = (case dict_get (fst acc) (su_step s) of None \<Rightarrow> 0 | Some c \<Rightarrow> c)
      in (dict_set (su_step s) (old + cost) (fst acc), snd acc + cost))"

definition estimate_steps :: "tracker \<Rightarrow> step_usage list \<Rightarrow> cost_breakdown" where
  "estimate_steps k steps =
     (let (d, t) = fold (add_step k) steps ([], 0)
      in \<lparr>per_step = d, total = t, currency = ''USD''\<rparr>)"

section \<open>Currency conversion\<close>

text \<open>\<^verbatim>\<open>Decimal.quantize(Decimal("0.000001"))\<close> with the default rounding, half to even.\<close>

definition round_half_even :: "rat \<Rightarrow> int" where
  "round_half_even x =
     (let f = \<lfloor>x\<rfloor>; d = x - of_int f
      in if d < 1 / 2 then f else if d > 1 / 2 then f + 1 else if even f then f else f + 1)"

definition convert_currency :: "rat \<Rightarrow> rat \<Rightarrow> cost_error + rat" where
  "convert_currency amount rate =
     (if rate \<le> 0 then Inl (Value_error rate)
      else Inr (of_int (round_half_even (amount * rate * 1000000)) / 1000000))"

section \<open>The tracker of the current context\<close>

type_synonym cost_context = "tracker option"

definition bind_cost_tracker :: "tracker option \<Rightarrow> cost_context \<Rightarrow> cost_context" where
  "bind_cost_tracker k ctx = k"

definition get_cost_tracker :: "cost_context \<Rightarrow> tracker option" where
  "get_cost_tracker ctx = ctx"

definition record_cost :: "string \<Rightarrow> string \<Rightarrow> string \<Rightarrow> string \<Rightarrow> rat \<Rightarrow> cost_context \<Rightarrow>
    cost_context \<times> (cost_error + rat)" where
  "record_cost cat prov tier unit qty ctx =
     (case ctx of
        None \<Rightarrow> (ctx, Inr 0)
      | Some k \<Rightarrow> (let (k', r) = tracker_record cat prov tier unit qty k in (Some k', r)))"

text \<open>One iteration of the loop over the two token kinds, with the fallback rate.\<close>

definition record_token_kind :: "string \<Rightarrow> string \<Rightarrow> string \<Rightarrow> int \<Rightarrow> rat \<Rightarrow> tracker \<Rightarrow>
    tracker \<times> (cost_error + rat)" where
  "record_token_kind prov tier unit qty rate k =
     (if qty \<le> 0 then (k, Inr 0)
      else case tracker_record ''llm'' prov tier unit (of_int qty) k of
             (k', Inl (Pricing_not_configured a b c d)) \<Rightarrow>
               (charge ''llm'' prov tier unit (of_int qty) (of_int qty * rate) k',
                Inr (of_int qty * rate))
           | (k', r) \<Rightarrow> (k', r))"

definition record_tokens :: "string \<Rightarrow> string \<Rightarrow> int \<Rightarrow> int \<Rightarrow> cost_context \<Rightarrow>
    cost_context \<times> (cost_error + rat)" where
  "record_tokens prov tier in_tokens out_tokens ctx =
     (case ctx of
        None \<Rightarrow> (ctx, Inr 0)
      | Some k \<Rightarrow>
          (case record_token_kind prov tier ''in'' in_tokens (3 / 1000000) k of
             (k1, Inl e) \<Rightarrow> (Some k1, Inl e)
           | (k1, Inr c1) \<Rightarrow>
               (case record_token_kind prov tier ''out'' out_tokens (15 / 1000000) k1 of
                  (k2, Inl e) \<Rightarrow> (Some k2, Inl e)
                | (k2, Inr c2) \<Rightarrow> (Some k2, Inr (c1 + c2)))))"

section \<open>Accounting\<close>

definition balanced :: "tracker \<Rightarrow> bool" where
  "balanced k \<longleftrightarrow> total_usd k = (\<Sum>e\<leftarrow>entries k. ce_cost e)"

lemma balanced_charge [simp]: "balanced k \<Longrightarrow> balanced (charge cat prov tier unit qty cost k)"
  by (simp add: balanced_def charge_def)

lemma charge_simps [simp]:
  "budget (charge cat prov tier unit qty cost k) = budget k"
  "table (charge cat prov tier unit qty cost k) = table k"
  "strict (charge cat prov tier unit qty cost k) = strict k"
  "total_usd (charge cat prov tier unit qty cost k) = total_usd k + cost"
  by (simp_all add: charge_def)

lemma record_cases:
  obtains (unpriced) "lookup (table k) cat prov tier unit = None" "strict k"
      "tracker_record cat prov tier unit qty k = (k, Inl (Pricing_not_configured cat prov tier unit))"
  | (charged) cost where
      "cost = (case lookup (table k) cat prov tier unit of None \<Rightarrow> 0 | Some e \<Rightarrow> pe_price e * qty)"
      "\<not> (lookup (table k) cat prov tier unit = None \<and> strict k)"
      "tracker_record cat prov tier unit qty k =
        (charge cat prov tier unit qty cost k,
         (case budget k of Some b \<Rightarrow>
            if b < total_usd k + cost then Inl (Budget_exceeded b (total_usd k + cost)) else Inr cost
          | None \<Rightarrow> Inr cost))"
proof (cases "lookup (table k) cat prov tier unit = None \<and> strict k")
  case True
  with unpriced show thesis by (simp add: tracker_record_def)
next
  case False
  let ?c = "case lookup (table k) cat prov tier unit of None \<Rightarrow> 0 | Some e \<Rightarrow> pe_price e * qty"
  have "tracker_record cat prov tier unit qty k =
        (charge cat prov tier unit qty ?c k,
         (case budget k of Some b \<Rightarrow>
            if b < total_usd k + ?c then Inl (Budget_exceeded b (total_usd k + ?c)) else Inr ?c
          | None \<Rightarrow> Inr ?c))"
    using False by (auto simp: tracker_record_def check_budget_def Let_def split: option.split bool.split)
  with charged [OF refl False] show thesis by blast
qed

text \<open>The operations on the tracker of a context.\<close>

datatype cost_op = Record string string string string rat | Tokens string string int int

fun cost_step :: "cost_op \<Rightarrow> cost_context \<Rightarrow> cost_context" where
  "cost_step (Record cat prov tier unit qty) ctx = fst (record_cost cat prov tier unit qty ctx)"
| "cost_step (Tokens prov tier i ot) ctx = fst (record_tokens prov tier i ot ctx)"

lemma record_balanced: "balanced k \<Longrightarrow> balanced (fst (tracker_record cat prov tier unit qty k))"
  by (rule record_cases [of k cat prov tier unit qty]) auto

lemma record_static:
  "budget (fst (tracker_record cat prov tier unit qty k)) = budget k"
  "table (fst (tracker_record cat prov tier unit qty k)) = table k"
  "strict (fst (tracker_record cat prov tier unit qty k)) = strict k"
  by (rule record_cases [of k cat prov tier unit qty]; simp)+

definition same_setup :: "tracker \<Rightarrow> tracker \<Rightarrow> bool" where
  "same_setup k k' \<longleftrightarrow> budget k' = budget k \<and> table k' = table k \<and> strict k' = strict k"

lemma same_setup_trans: "same_setup k k' \<Longrightarrow> same_setup k' k'' \<Longrightarrow> same_setup k k''"
  by (simp add: same_setup_def)

lemma record_ok:
  assumes "balanced k" and "tracker_record cat prov tier unit qty k = (k', r)"
  shows "balanced k' \<and> same_setup k k'"
  using record_balanced [OF assms(1)] record_static [of cat prov tier unit qty k] assms(2)
  by (metis fst_conv same_setup_def)

lemma token_kind_ok:
  assumes "balanced k" and "record_token_kind prov tier unit qty rate k = (k', r)"
  shows "balanced k' \<and> same_setup k k'"
proof (cases "qty \<le> 0")
  case True
  with assms show ?thesis by (simp add: record_token_kind_def same_setup_def)
next
  case False
  obtain k1 r1 where 1: "tracker_record ''llm'' prov tier unit (of_int qty) k = (k1, r1)" by fastforce
  note k1 = record_ok [OF assms(1) 1]
  have "k' = k1 \<or> k' = charge ''llm'' prov tier unit (of_int qty) (of_int qty * rate) k1"
    using assms(2) False 1 by (auto simp: record_token_kind_def split: sum.splits cost_error.splits)
  with k1 show ?thesis by (auto simp: same_setup_def)
qed

lemma tokens_ok:
  assumes "balanced k" and "record_tokens prov tier i ot (Some k) = (ctx, r)"
  shows "\<exists>k'. ctx = Some k' \<and> balanced k' \<and> same_setup k k'"
proof -
  obtain k1 r1 where 1: "record_token_kind prov tier ''in'' i (3 / 1000000) k = (k1, r1)" by fastforce
  obtain k2 r2 where 2: "record_token_kind prov tier ''out'' ot (15 / 1000000) k1 = (k2, r2)" by fastforce
  note k1 = token_kind_ok [OF assms(1) 1]
  from k1 have "balanced k1" by simp
  note k2 = token_kind_ok [OF this 2]
  have "ctx = Some k1 \<or> ctx = Some k2"
    using assms(2) 1 2 by (auto simp: record_tokens_def split: sum.splits)
  with k1 k2 same_setup_trans show ?thesis by blast
qed

lemma cost_step_ok:
  assumes "balanced k"
  shows "\<exists>k'. cost_step a (Some k) = Some k' \<and> balanced k' \<and> same_setup k k'"
proof (cases a)
  case (Record cat prov tier unit qty)
  obtain k1 r1 where 1: "tracker_record cat prov tier unit qty k = (k1, r1)" by fastforce
  with record_ok [OF assms 1] Record show ?thesis by (simp add: record_cost_def)
next
  case (Tokens prov tier i ot)
  obtain ctx r where 1: "record_tokens prov tier i ot (Some k) = (ctx, r)" by fastforce
  with tokens_ok [OF assms 1] Tokens show ?thesis by simp
qed

lemma filter_label_empty: "l \<notin> f ` set xs \<Longrightarrow> filter (\<lambda>x. f x = l) xs = []"
  by (auto simp: filter_empty_conv)

section \<open>Properties\<close>

text \<open>
  The ledger balances: after any sequence of usage and token records, failing ones included,
  the tracker's total equals the sum of its entries, and table, budget and mode are unchanged.
\<close>

theorem cost_ledger_balances:
  "\<exists>k. fold cost_step ops (Some (new_tracker t b s)) = Some k
     \<and> total_usd k = (\<Sum>e\<leftarrow>entries k. ce_cost e)
     \<and> budget k = b \<and> strict k = s \<and> table k = (case t of None \<Rightarrow> [] | Some t \<Rightarrow> t)"
proof -
  have "\<exists>k'. fold cost_step ops (Some k) = Some k' \<and> balanced k' \<and> same_setup k k'"
    if "balanced k" for k
    using that
  proof (induction ops arbitrary: k)
    case Nil
    then show ?case by (simp add: same_setup_def)
  next
    case (Cons a ops)
    from cost_step_ok [OF Cons.prems] obtain k1 where
      k1: "cost_step a (Some k) = Some k1" "balanced k1" "same_setup k k1" by blast
    with Cons.IH [OF k1(2)] same_setup_trans [OF k1(3)] show ?case by auto
  qed
  moreover have "balanced (new_tracker t b s)" by (simp add: balanced_def new_tracker_def)
  ultimately obtain k where "fold cost_step ops (Some (new_tracker t b s)) = Some k" "balanced k"
    "same_setup (new_tracker t b s) k" by blast
  then show ?thesis by (auto simp: balanced_def same_setup_def new_tracker_def)
qed

text \<open>
  Registering a price is a functional update of the table: the registered key reads the new
  price, whatever was there before, and every other key reads what it read.
\<close>

theorem register_then_lookup:
  "lookup (register_pricing prov unit price cat tier t) cat' prov' tier' unit' =
     (if cat' = cat \<and> prov' = prov \<and> tier' = or_default tier \<and> unit' = unit
      then Some \<lparr>pe_category = cat, pe_provider = prov, pe_tier = or_default tier, pe_unit = unit,
                 pe_price = price\<rparr>
      else lookup t cat' prov' tier' unit')"
proof -
  let ?old = "filter (\<lambda>e. \<not> entry_matches cat prov (or_default tier) unit e) t"
  have "find (entry_matches cat' prov' tier' unit') ?old
      = (if cat' = cat \<and> prov' = prov \<and> tier' = or_default tier \<and> unit' = unit then None
         else lookup t cat' prov' tier' unit')"
    by (induction t) (auto simp: lookup_def entry_matches_def)
  moreover have "find P (xs @ ys) = (case find P xs of None \<Rightarrow> find P ys | Some x \<Rightarrow> Some x)"
    for P and xs ys :: "pricing_entry list" by (induction xs) auto
  ultimately show ?thesis
    by (auto simp: lookup_def register_pricing_def entry_matches_def split: option.split)
qed

text \<open>
  The breakdown of a multi-step estimate is exact: the total is the sum of the steps'
  estimates, each label reads the sum of its own steps, and the category of a step plays no
  part in it, every step being priced under the category ''default''.
\<close>

theorem estimate_steps_exact:
  "total (estimate_steps k steps) = (\<Sum>s\<leftarrow>steps. estimate_step k s)
   \<and> dict_get (per_step (estimate_steps k steps)) l =
       (if l \<in> set (map su_step steps)
        then Some (\<Sum>s\<leftarrow>filter (\<lambda>s. su_step s = l) steps. estimate_step k s) else None)
   \<and> estimate_steps k (map (su_category_update f) steps) = estimate_steps k steps"
proof (intro conjI)
  have acc: "snd (fold (add_step k) ss (d, t)) = t + (\<Sum>s\<leftarrow>ss. estimate_step k s)
    \<and> dict_get (fst (fold (add_step k) ss (d, t))) l =
       (if l \<in> set (map su_step ss)
        then Some ((case dict_get d l of None \<Rightarrow> 0 | Some c \<Rightarrow> c)
                     + (\<Sum>s\<leftarrow>filter (\<lambda>s. su_step s = l) ss. estimate_step k s))
        else dict_get d l)" for ss d t
  proof (induction ss arbitrary: d t)
    case (Cons s ss)
    let ?d = "dict_set (su_step s)
      ((case dict_get d (su_step s) of None \<Rightarrow> 0 | Some c \<Rightarrow> c) + estimate_step k s) d"
    have "fold (add_step k) (s # ss) (d, t) = fold (add_step k) ss (?d, t + estimate_step k s)"
      by (simp add: add_step_def Let_def)
    moreover have "dict_get ?d l = (if l = su_step s then Some ((case dict_get d (su_step s) of
        None \<Rightarrow> 0 | Some c \<Rightarrow> c) + estimate_step k s) else dict_get d l)"
      by (simp add: update_conv')
    ultimately show ?case
      using Cons.IH [of ?d "t + estimate_step k s"]
      by (simp only: fst_conv snd_conv) (auto simp: filter_label_empty)
  qed simp
  show "total (estimate_steps k steps) = (\<Sum>s\<leftarrow>steps. estimate_step k s)"
    using acc [where ss = steps and d = "[]" and t = 0] by (simp add: estimate_steps_def split_beta Let_def)
  show "dict_get (per_step (estimate_steps k steps)) l =
       (if l \<in> set (map su_step steps)
        then Some (\<Sum>s\<leftarrow>filter (\<lambda>s. su_step s = l) steps. estimate_step k s) else None)"
    using acc [where ss = steps and d = "[]" and t = 0] by (simp add: estimate_steps_def split_beta Let_def)
  have "add_step k (su_category_update f s) = add_step k s" for s
    by (simp add: add_step_def estimate_step_def fun_eq_iff)
  then have "fold (add_step k) (map (su_category_update f) steps) acc = fold (add_step k) steps acc" for acc
    by (induction steps arbitrary: acc) simp_all
  then show "estimate_steps k (map (su_category_update f) steps) = estimate_steps k steps"
    by (simp add: estimate_steps_def)
qed

text \<open>
  Tokens without a configured price bypass the budget: a strict tracker charges both token
  kinds at the fallback rates and answers normally, however far the total exceeds the budget.
\<close>

theorem token_fallback_ignores_budget:
  assumes "lookup (table k) ''llm'' prov tier ''in'' = None"
    and "lookup (table k) ''llm'' prov tier ''out'' = None"
    and "strict k" and "0 \<le> i" and "0 \<le> ot"
  shows "\<exists>k'. record_tokens prov tier i ot (Some k)
      = (Some k', Inr (of_int i * (3 / 1000000) + of_int ot * (15 / 1000000)))
    \<and> total_usd k' = total_usd k + of_int i * (3 / 1000000) + of_int ot * (15 / 1000000)"
proof -
  let ?k1 = "if i \<le> 0 then k else charge ''llm'' prov tier ''in'' (of_int i) (of_int i * (3 / 1000000)) k"
  let ?k2 = "if ot \<le> 0 then ?k1
    else charge ''llm'' prov tier ''out'' (of_int ot) (of_int ot * (15 / 1000000)) ?k1"
  have "record_token_kind prov tier ''in'' i (3 / 1000000) k = (?k1, Inr (of_int i * (3 / 1000000)))"
    using assms by (auto simp: record_token_kind_def tracker_record_def)
  moreover have "record_token_kind prov tier ''out'' ot (15 / 1000000) ?k1
      = (?k2, Inr (of_int ot * (15 / 1000000)))"
    using assms by (auto simp: record_token_kind_def tracker_record_def)
  ultimately have "record_tokens prov tier i ot (Some k)
      = (Some ?k2, Inr (of_int i * (3 / 1000000) + of_int ot * (15 / 1000000)))"
    by (simp only: record_tokens_def option.case sum.case prod.case)
  moreover have "total_usd ?k2 = total_usd k + of_int i * (3 / 1000000) + of_int ot * (15 / 1000000)"
    using assms by auto
  ultimately show ?thesis by blast
qed

theorem token_fallback_ignores_budget_witness:
  "\<exists>k'. record_tokens ''p'' ''m'' 1000000 0 (Some (new_tracker None (Some 1) True)) = (Some k', Inr 3)
    \<and> total_usd k' = 3"
  using token_fallback_ignores_budget [of "new_tracker None (Some 1) True" "''p''" "''m''" 1000000 0]
  by (simp add: new_tracker_def lookup_def)

text \<open>
  Currency conversion rejects exactly the non-positive rates; otherwise the result is a
  multiple of one millionth within half a millionth of the exact product.
\<close>

theorem convert_currency_rounds:
  "case convert_currency amount rate of
     Inl e \<Rightarrow> rate \<le> 0
   | Inr x \<Rightarrow> 0 < rate \<and> (\<exists>n :: int. x = of_int n / 1000000) \<and> \<bar>x - amount * rate\<bar> \<le> 1 / 2000000"
proof -
  have half: "\<bar>of_int (round_half_even y) - y\<bar> \<le> 1 / 2" for y :: rat
    using of_int_floor_le [of y] floor_correct [of y] by (auto simp: round_half_even_def Let_def abs_le_iff)
  have "\<bar>of_int (round_half_even (amount * rate * 1000000)) / 1000000 - amount * rate\<bar> \<le> 1 / 2000000"
    using half [of "amount * rate * 1000000"] by (simp add: abs_le_iff field_simps)
  then show ?thesis by (auto simp: convert_currency_def)
qed

end
