(* ===== verification/Breaker.thy ===== *)
theory Breaker
  imports Obase_Prelude
begin

text \<open>
  The circuit breaker of \<^verbatim>\<open>obase/circuit_breaker.py\<close>. A call has two critical sections under the
  lock, the admission and the settlement of its outcome, and the protected function runs between
  them, so calls of several tasks interleave at that granularity. Clock readings are arguments.
\<close>

section \<open>The breaker\<close>

datatype phase = Closed | Open | Half_open

record breaker =
  failure_threshold :: int
  recovery_timeout :: rat
  failure_count :: int
  phase :: phase
  opened_at :: "rat option"

definition new_breaker :: "int \<Rightarrow> rat \<Rightarrow> breaker" where
  "new_breaker n t = \<lparr>failure_threshold = n, recovery_timeout = t, failure_count = 0,
     phase = Closed, opened_at = None\<rparr>"

definition get_state :: "rat \<Rightarrow> breaker \<Rightarrow> breaker" where
  "get_state now b =
     (if phase b = Open \<and> (case opened_at b of None \<Rightarrow> False | Some t \<Rightarrow> now - t \<ge> recovery_timeout b)
      then b\<lparr>phase := Half_open\<rparr> else b)"

definition reset :: "breaker \<Rightarrow> breaker" where
  "reset b = b\<lparr>phase := Closed, failure_count := 0, opened_at := None\<rparr>"

text \<open>The first critical section: the refreshed state, and whether the call goes ahead.\<close>

definition admit :: "rat \<Rightarrow> breaker \<Rightarrow> breaker \<times> bool" where
  "admit now b = (let b' = get_state now b in (b', phase b' \<noteq> Open))"

definition on_success :: "breaker \<Rightarrow> breaker" where
  "on_success b = b\<lparr>failure_count := 0, phase := Closed, opened_at := None\<rparr>"

definition on_failure :: "rat \<Rightarrow> breaker \<Rightarrow> breaker" where
  "on_failure now b =
     (let b' = b\<lparr>failure_count := failure_count b + 1\<rparr>
      in if phase b' = Half_open \<or> failure_count b' \<ge> failure_threshold b'
         then b'\<lparr>phase := Open, opened_at := Some now\<rparr> else b')"

text \<open>
  The outcome of the protected function: a result, an exception, or the breaker's own rejection
  raised by a nested breaker, which passes through without being counted.
\<close>

datatype ('e, 'r) outcome = Returned 'r | Raised 'e | Nested_rejection

datatype ('e, 'r) call_result = Result 'r | Exception 'e | Rejected

definition settle :: "rat \<Rightarrow> ('e, 'r) outcome \<Rightarrow> breaker \<Rightarrow> breaker \<times> ('e, 'r) call_result" where
  "settle now out b =
     (case out of
        Returned r \<Rightarrow> (on_success b, Result r)
      | Raised e \<Rightarrow> (on_failure now b, Exception e)
      | Nested_rejection \<Rightarrow> (b, Rejected))"

text \<open>A whole call when nothing else runs between its two critical sections.\<close>

definition call :: "rat \<Rightarrow> rat \<Rightarrow> ('e, 'r) outcome \<Rightarrow> breaker \<Rightarrow> breaker \<times> ('e, 'r) call_result" where
  "call now1 now2 out b =
     (let (b', ok) = admit now1 b in if ok then settle now2 out b' else (b', Rejected))"

section \<open>Interleaved executions\<close>

text \<open>The number of admitted calls that have not settled yet is part of the configuration.\<close>

inductive step :: "breaker \<times> nat \<Rightarrow> breaker \<times> nat \<Rightarrow> bool" where
  admitted: "admit now b = (b', True) \<Longrightarrow> step (b, n) (b', Suc n)"
| rejected: "admit now b = (b', False) \<Longrightarrow> step (b, n) (b', n)"
| succeeded: "step (b, Suc n) (on_success b, n)"
| failed: "step (b, Suc n) (on_failure now b, n)"
| nested: "step (b, Suc n) (b, n)"
| observed: "step (b, n) (get_state now b, n)"
| reset: "step (b, n) (reset b, n)"

inductive_cases stepE: "step (b, n) s"

inductive steps :: "breaker \<times> nat \<Rightarrow> breaker \<times> nat \<Rightarrow> bool" where
  start: "steps s s"
| more: "steps s t \<Longrightarrow> step t u \<Longrightarrow> steps s u"

definition breaker_ok :: "int \<Rightarrow> rat \<Rightarrow> breaker \<Rightarrow> bool" where
  "breaker_ok thr tmo b \<longleftrightarrow> failure_threshold b = thr \<and> recovery_timeout b = tmo \<and> 0 \<le> failure_count b
     \<and> (phase b = Closed \<longleftrightarrow> opened_at b = None)
     \<and> (phase b = Closed \<longrightarrow> failure_count b = 0 \<or> failure_count b < thr)"

lemma get_state_ok: "breaker_ok thr tmo b \<Longrightarrow> breaker_ok thr tmo (get_state now b)"
  by (auto simp: breaker_ok_def get_state_def)

lemma step_ok: "step (b, n) (b', n') \<Longrightarrow> breaker_ok thr tmo b \<Longrightarrow> breaker_ok thr tmo b'"
  by (erule stepE)
    (auto simp: admit_def Let_def get_state_ok on_success_def on_failure_def reset_def,
     auto simp: breaker_ok_def)

lemma steps_ok: "steps (b, n) (b', n') \<Longrightarrow> breaker_ok thr tmo b \<Longrightarrow> breaker_ok thr tmo b'"
  by (induction "(b, n)" "(b', n')" arbitrary: b' n' rule: steps.induct) (auto dest: step_ok)

section \<open>Sequential calls\<close>

fun calls :: "(rat \<times> rat \<times> ('e, 'r) outcome) list \<Rightarrow> breaker \<Rightarrow> breaker" where
  "calls [] b = b"
| "calls ((t1, t2, out) # cs) b = calls cs (fst (call t1 t2 out b))"

text \<open>Consecutive failures, counted from outcomes alone.\<close>

fun failure_run :: "('e, 'r) outcome list \<Rightarrow> int \<Rightarrow> int" where
  "failure_run [] n = n"
| "failure_run (Returned r # os) n = failure_run os 0"
| "failure_run (Raised e # os) n = failure_run os (n + 1)"
| "failure_run (Nested_rejection # os) n = failure_run os n"

lemma failure_run_nonneg: "0 \<le> n \<Longrightarrow> 0 \<le> failure_run os n"
  by (induction os n rule: failure_run.induct) auto

lemma call_closed:
  assumes "phase b = Closed" and "failure_count b < failure_threshold b"
  shows "snd (call t1 t2 out b) = snd (settle t2 out b)"
    and "failure_count (fst (call t1 t2 out b)) = failure_run [out] (failure_count b)"
    and "phase (fst (call t1 t2 out b)) = Closed \<longleftrightarrow>
      failure_run [out] (failure_count b) < failure_threshold b \<or> (\<exists>r. out = Returned r)"
    and "failure_threshold (fst (call t1 t2 out b)) = failure_threshold b"
  using assms
  by (cases out; simp add: call_def admit_def get_state_def settle_def on_success_def on_failure_def Let_def)+

lemma calls_append: "calls (xs @ ys) b = calls ys (calls xs b)"
  by (induction xs b rule: calls.induct) auto

lemma failure_run_append: "failure_run (xs @ ys) n = failure_run ys (failure_run xs n)"
  by (induction xs n rule: failure_run.induct) auto

definition outcomes :: "(rat \<times> rat \<times> ('e, 'r) outcome) list \<Rightarrow> ('e, 'r) outcome list" where
  "outcomes cs = map (\<lambda>(t1, t2, out). out) cs"

lemma calls_below:
  assumes "0 < thr" and "\<forall>k \<le> length cs. failure_run (take k (outcomes cs)) 0 < thr"
  shows "phase (calls cs (new_breaker thr tmo)) = Closed
    \<and> failure_count (calls cs (new_breaker thr tmo)) = failure_run (outcomes cs) 0
    \<and> failure_threshold (calls cs (new_breaker thr tmo)) = thr"
  using assms(2)
proof (induction cs rule: rev_induct)
  case Nil
  then show ?case by (simp add: new_breaker_def outcomes_def)
next
  case (snoc c cs)
  obtain t1 t2 out where c: "c = (t1, t2, out)" by (cases c) auto
  have pre: "\<forall>k \<le> length cs. failure_run (take k (outcomes cs)) 0 < thr"
  proof (intro allI impI)
    fix k assume "k \<le> length cs"
    then show "failure_run (take k (outcomes cs)) 0 < thr"
      using snoc.prems [rule_format, of k] by (simp add: outcomes_def)
  qed
  let ?b = "calls cs (new_breaker thr tmo)"
  note b = snoc.IH [OF pre]
  then have 1: "phase ?b = Closed" "failure_count ?b < failure_threshold ?b"
    using pre [rule_format, of "length cs"] by (simp_all add: outcomes_def)
  have "failure_run (outcomes (cs @ [c])) 0 < thr"
    using snoc.prems [rule_format, of "length (cs @ [c])"] by (simp add: outcomes_def)
  moreover have "failure_run (outcomes (cs @ [c])) 0 = failure_run [out] (failure_count ?b)"
    using b by (simp add: outcomes_def failure_run_append c)
  ultimately show ?case
    using call_closed(2-4) [OF 1, of t1 t2 out] b by (simp add: calls_append c)
qed

section \<open>Properties\<close>

text \<open>
  Sequential calls drive the documented state machine: below the threshold of consecutive
  failures the breaker is closed and counts them; the failure that reaches it opens the breaker;
  until the recovery timeout calls are rejected without change; after it one call is let through,
  whose success closes and whose failure reopens the breaker.
\<close>

theorem breaker_state_machine:
  fixes e :: 'e and r :: 'r and out :: "('e, 'r) outcome" and cs :: "(rat \<times> rat \<times> ('e, 'r) outcome) list"
  assumes "0 < thr" and "\<forall>k \<le> length cs. failure_run (take k (outcomes cs)) 0 < thr"
    and b_def: "b = calls cs (new_breaker thr tmo)"
  shows "phase b = Closed \<and> failure_count b = failure_run (outcomes cs) 0
    \<and> (failure_run (outcomes cs) 0 + 1 = thr \<longrightarrow>
        (let b1 = fst (call t1 t2 (Raised e :: ('e, 'r) outcome) b)
         in phase b1 = Open \<and> opened_at b1 = Some t2
            \<and> (t - t2 < tmo \<longrightarrow> call t t' out b1 = (b1, Rejected))
            \<and> (tmo \<le> t - t2 \<longrightarrow> snd (call t t' (Returned r :: ('e, 'r) outcome) b1) = Result r
                 \<and> phase (fst (call t t' (Returned r :: ('e, 'r) outcome) b1)) = Closed
                 \<and> failure_count (fst (call t t' (Returned r :: ('e, 'r) outcome) b1)) = 0
                 \<and> snd (call t t' (Raised e :: ('e, 'r) outcome) b1) = Exception e
                 \<and> phase (fst (call t t' (Raised e :: ('e, 'r) outcome) b1)) = Open
                 \<and> opened_at (fst (call t t' (Raised e :: ('e, 'r) outcome) b1)) = Some t')))"
proof -
  note b = calls_below [OF assms(1,2), of tmo, folded b_def]
  have tmo: "recovery_timeout (calls cs c) = recovery_timeout c" for c
    by (induction cs c rule: calls.induct)
      (simp_all add: call_def admit_def get_state_def settle_def on_success_def on_failure_def Let_def
        split: outcome.split)
  have "recovery_timeout b = tmo" unfolding b_def tmo by (simp add: new_breaker_def)
  with b show ?thesis
    by (simp add: call_def admit_def get_state_def settle_def on_success_def on_failure_def Let_def)
qed

theorem breaker_state_machine_witness:
  "let b1 = fst (call 1 2 (Raised () :: (unit, unit) outcome) (new_breaker 1 10)) in
     phase b1 = Open \<and> call 5 6 (Returned () :: (unit, unit) outcome) b1 = (b1, Rejected)
     \<and> phase (fst (call 12 13 (Returned () :: (unit, unit) outcome) b1)) = Closed"
  using breaker_state_machine [of 1 "[]" _ 10 1 2 "()" 5 6 "Returned () :: (unit, unit) outcome" "()", OF _ _ refl]
    breaker_state_machine [of 1 "[]" _ 10 1 2 "()" 12 13 "Returned () :: (unit, unit) outcome" "()", OF _ _ refl]
  by (simp add: outcomes_def Let_def)

text \<open>
  In every interleaving of calls, observations and resets the breaker is closed only below
  its threshold, and an open breaker admits nothing until its recovery timeout has passed.
\<close>

theorem breaker_interleaved:
  assumes "steps (new_breaker thr tmo, 0) (b, n)"
  shows "(phase b = Closed \<longrightarrow> failure_count b = 0 \<or> failure_count b < thr)
    \<and> (phase b = Open \<longrightarrow> (\<exists>t. opened_at b = Some t \<and> (\<forall>now. now - t < tmo \<longrightarrow> admit now b = (b, False))))"
proof -
  have "breaker_ok thr tmo b"
    by (rule steps_ok [OF assms]) (simp add: breaker_ok_def new_breaker_def)
  then show ?thesis by (auto simp: breaker_ok_def admit_def get_state_def Let_def)
qed

theorem breaker_interleaved_witness:
  "phase (new_breaker 1 10) = Closed \<and> (failure_count (new_breaker 1 10) = 0 \<or> failure_count (new_breaker 1 10) < 1)"
  using breaker_interleaved [OF steps.start [of "(new_breaker 1 10, 0)"]] by (simp add: new_breaker_def)

lemma half_open_admits: "phase b = Half_open \<Longrightarrow> admit now b = (b, True)"
  by (simp add: admit_def get_state_def Let_def)

text \<open>
  The half-open state does not limit probes to one, and an outdated success closes an open
  breaker: any number of calls can be in flight while the breaker is half open, and a call
  admitted before the breaker opened closes it at once when it succeeds.
\<close>

theorem half_open_admits_many:
  "(\<exists>b. steps (new_breaker 1 10, 0) (b, n) \<and> phase b = Half_open)
   \<and> (\<exists>b. steps (new_breaker 1 10, 0) (b, 1) \<and> phase b = Open
        \<and> steps (b, 1) (on_success b, 0) \<and> phase (on_success b) = Closed)"
proof -
  define b0 b1 b2 where "b0 = new_breaker 1 10" and "b1 = on_failure 0 b0" and "b2 = get_state 20 b1"
  have ph: "phase b1 = Open" "phase b2 = Half_open"
    by (simp_all add: b0_def b1_def b2_def new_breaker_def on_failure_def get_state_def Let_def)
  have adm: "admit 0 b0 = (b0, True)" by (simp add: b0_def new_breaker_def admit_def get_state_def Let_def)
  have "steps (b0, 0) (b0, 1)" "steps (b0, 0) (b0, 2)"
    using steps.more [OF steps.start step.admitted [OF adm, of 0]]
      steps.more [OF _ step.admitted [OF adm, of 1]] by (simp_all add: numeral_2_eq_2)
  then have one: "steps (b0, 0) (b1, 0)" "steps (b0, 0) (b1, 1)"
    using steps.more [OF _ step.failed [of b0 0 0]] steps.more [OF _ step.failed [of b0 1 0]]
    by (simp_all add: b1_def numeral_2_eq_2)
  have "steps (b0, 0) (b2, n)"
  proof (induction n)
    case 0
    show ?case using steps.more [OF one(1) step.observed [of b1 0 20]] by (simp add: b2_def)
  next
    case (Suc n)
    show ?case by (rule steps.more [OF Suc step.admitted [OF half_open_admits [OF ph(2), of 0]]])
  qed
  moreover have "steps (b1, 1) (on_success b1, 0)"
    using steps.more [OF steps.start step.succeeded [of b1 0]] by simp
  moreover have "phase (on_success b1) = Closed" by (simp add: on_success_def)
  ultimately show ?thesis using one ph unfolding b0_def by blast
qed

end
