(* ===== verification/Retry.thy ===== *)
theory Retry
  imports Obase_Prelude
begin

text \<open>
  The two retry loops of \<^verbatim>\<open>obase/retry.py\<close>. The retried function is a parameter: its outcome
  at each call, a result or an exception; \<open>retryable\<close> is the test of the \<open>except\<close> clause. A run
  returns the outcome, the number of calls made and the delays slept.
\<close>

section \<open>The loops\<close>

record 'e policy =
  max_retries :: int
  base_delay :: rat
  max_delay :: rat
  backoff_factor :: rat
  retryable :: "'e \<Rightarrow> bool"

text \<open>\<open>Type_error\<close> is what Python raises for \<^verbatim>\<open>raise None\<close>, when the loop body never ran.\<close>

datatype ('e, 'r) retry_result = Returned 'r | Raised 'e | Type_error | Value_error int

record ('e, 'r) retry_run =
  result :: "('e, 'r) retry_result"
  calls :: nat
  sleeps :: "rat list"

definition delay :: "rat \<Rightarrow> rat \<Rightarrow> rat \<Rightarrow> nat \<Rightarrow> rat" where
  "delay base factor cap attempt = min (base * factor ^ attempt) cap"

text \<open>
  \<open>execute_from\<close> runs the loop body for the attempts from \<open>attempt\<close> to \<open>max_retries\<close>; \<open>left\<close> is
  the number of iterations that remain and \<open>exc\<close> the exception of the last caught failure.
\<close>

fun execute_from :: "'e policy \<Rightarrow> (nat \<Rightarrow> 'e + 'r) \<Rightarrow> nat \<Rightarrow> nat \<Rightarrow> 'e option \<Rightarrow> rat list \<Rightarrow>
    ('e, 'r) retry_run" where
  "execute_from P f attempt 0 exc slept =
     \<lparr>result = (case exc of None \<Rightarrow> Type_error | Some e \<Rightarrow> Raised e), calls = attempt, sleeps = slept\<rparr>"
| "execute_from P f attempt (Suc left) exc slept =
     (case f attempt of
        Inr r \<Rightarrow> \<lparr>result = Returned r, calls = Suc attempt, sleeps = slept\<rparr>
      | Inl e \<Rightarrow>
          if retryable P e
          then execute_from P f (Suc attempt) left (Some e)
                 (if int attempt < max_retries P
                  then slept @ [delay (base_delay P) (backoff_factor P) (max_delay P) attempt]
                  else slept)
          else \<lparr>result = Raised e, calls = Suc attempt, sleeps = slept\<rparr>)"

definition execute :: "'e policy \<Rightarrow> (nat \<Rightarrow> 'e + 'r) \<Rightarrow> ('e, 'r) retry_run" where
  "execute P f = execute_from P f 0 (nat (max_retries P + 1)) None []"

fun backoff_from :: "int \<Rightarrow> rat \<Rightarrow> rat \<Rightarrow> ('e \<Rightarrow> bool) \<Rightarrow> (nat \<Rightarrow> 'e + 'r) \<Rightarrow> nat \<Rightarrow> nat \<Rightarrow> 'e option \<Rightarrow>
    rat list \<Rightarrow> ('e, 'r) retry_run" where
  "backoff_from n base cap rt f attempt 0 exc slept =
     \<lparr>result = (case exc of None \<Rightarrow> Type_error | Some e \<Rightarrow> Raised e), calls = attempt, sleeps = slept\<rparr>"
| "backoff_from n base cap rt f attempt (Suc left) exc slept =
     (case f attempt of
        Inr r \<Rightarrow> \<lparr>result = Returned r, calls = Suc attempt, sleeps = slept\<rparr>
      | Inl e \<Rightarrow>
          if rt e
          then backoff_from n base cap rt f (Suc attempt) left (Some e)
                 (if int attempt < n - 1 then slept @ [min (base * 2 ^ attempt) cap] else slept)
          else \<lparr>result = Raised e, calls = Suc attempt, sleeps = slept\<rparr>)"

definition retry_with_backoff :: "int \<Rightarrow> rat \<Rightarrow> rat \<Rightarrow> ('e \<Rightarrow> bool) \<Rightarrow> (nat \<Rightarrow> 'e + 'r) \<Rightarrow>
    ('e, 'r) retry_run" where
  "retry_with_backoff max_attempts base cap rt f =
     (if max_attempts \<le> 0 then \<lparr>result = Value_error max_attempts, calls = 0, sleeps = []\<rparr>
      else backoff_from max_attempts base cap rt f 0 (nat max_attempts) None [])"

section \<open>Reference\<close>

text \<open>An outcome ends the loop unless it is a retryable exception.\<close>

definition final :: "('e \<Rightarrow> bool) \<Rightarrow> 'e + 'r \<Rightarrow> bool" where
  "final rt out \<longleftrightarrow> (case out of Inr _ \<Rightarrow> True | Inl e \<Rightarrow> \<not> rt e)"

definition as_result :: "'e + 'r \<Rightarrow> ('e, 'r) retry_result" where
  "as_result out = (case out of Inr r \<Rightarrow> Returned r | Inl e \<Rightarrow> Raised e)"

text \<open>
  The reference: call until the first final outcome, at most \<open>n\<close> times, sleeping between calls.
\<close>

definition reference :: "('e \<Rightarrow> bool) \<Rightarrow> (nat \<Rightarrow> rat) \<Rightarrow> nat \<Rightarrow> (nat \<Rightarrow> 'e + 'r) \<Rightarrow> ('e, 'r) retry_run" where
  "reference rt d n f =
     (let k = length (takeWhile (\<lambda>i. \<not> final rt (f i)) [0..<n - 1])
      in \<lparr>result = as_result (f k), calls = Suc k, sleeps = map d [0..<k]\<rparr>)"

lemma takeWhile_from:
  "Suc a < n \<Longrightarrow> \<not> final rt (f a) \<Longrightarrow>
    takeWhile (\<lambda>i. \<not> final rt (f i)) [a..<n - 1] = a # takeWhile (\<lambda>i. \<not> final rt (f i)) [Suc a..<n - 1]"
  by (subst upt_conv_Cons) auto

lemma execute_from_reference:
  assumes "int n = max_retries P + 1" and "a < n" and "slept = map d [0..<a]"
    and d: "d = delay (base_delay P) (backoff_factor P) (max_delay P)"
  shows "execute_from P f a (n - a) exc slept =
    (let k = a + length (takeWhile (\<lambda>i. \<not> final (retryable P) (f i)) [a..<n - 1])
     in \<lparr>result = as_result (f k), calls = Suc k, sleeps = map d [0..<k]\<rparr>)"
  using assms(2,3)
proof (induction "n - a" arbitrary: a exc slept)
  case 0
  then show ?case by simp
next
  case (Suc m)
  then have na: "n - a = Suc m" and m: "m = n - Suc a" by simp_all
  show ?case
  proof (cases "final (retryable P) (f a)")
    case True
    then have "takeWhile (\<lambda>i. \<not> final (retryable P) (f i)) [a..<n - 1] = []"
      by (cases "a < n - 1") (simp_all add: upt_conv_Cons)
    with True Suc.prems show ?thesis
      by (auto simp: na final_def as_result_def Let_def split: sum.splits)
  next
    case False
    then obtain e where e: "f a = Inl e" "retryable P e" by (auto simp: final_def split: sum.splits)
    show ?thesis
    proof (cases "Suc a < n")
      case True
      with assms(1) have "int a < max_retries P" by simp
      moreover have "slept @ [d a] = map d [0..<Suc a]" using Suc.prems by simp
      ultimately show ?thesis
        using Suc.hyps(1) [OF m True, of "map d [0..<Suc a]" "Some e"] e
          takeWhile_from [OF True, of "retryable P" f] False by (simp add: na m d)
    next
      case 2: False
      with Suc.prems(1) have "n = Suc a" by simp
      with assms(1) Suc.prems m e show ?thesis by (simp add: na as_result_def)
    qed
  qed
qed

lemma execute_reference:
  assumes "0 \<le> max_retries P"
  shows "execute P f = reference (retryable P) (delay (base_delay P) (backoff_factor P) (max_delay P))
    (nat (max_retries P + 1)) f"
  using execute_from_reference [of "nat (max_retries P + 1)" P 0 "[]", OF _ _ _ refl, of f None] assms
  by (simp add: execute_def reference_def Let_def)

lemma backoff_execute:
  assumes "max_retries P = n - 1" and "backoff_factor P = 2"
  shows "backoff_from n (base_delay P) (max_delay P) (retryable P) f a l exc slept
    = execute_from P f a l exc slept"
  using assms by (induction P f a l exc slept rule: execute_from.induct)
    (auto simp: delay_def split: sum.split)

section \<open>Properties\<close>

text \<open>
  \<open>RetryPolicy.execute\<close> returns or raises the first outcome that is not a retryable exception,
  or the last outcome after \<open>max_retries + 1\<close> calls, and sleeps the capped exponential delays
  between the calls made; with a negative \<open>max_retries\<close> it calls nothing and raises a TypeError.
\<close>

theorem execute_matches_reference:
  "execute P f =
     (if max_retries P < 0 then \<lparr>result = Type_error, calls = 0, sleeps = []\<rparr>
      else reference (retryable P) (\<lambda>i. min (base_delay P * backoff_factor P ^ i) (max_delay P))
             (nat (max_retries P + 1)) f)"
proof (cases "max_retries P < 0")
  case True
  then show ?thesis by (simp add: execute_def)
next
  case False
  then show ?thesis by (simp add: execute_reference delay_def [abs_def])
qed

text \<open>
  \<open>retry_with_backoff\<close> is \<open>RetryPolicy.execute\<close> with one retry less than its attempts and
  factor two, except that it rejects a non-positive number of attempts with a ValueError.
\<close>

theorem retry_with_backoff_is_execute:
  "retry_with_backoff n base cap rt f =
     (if n \<le> 0 then \<lparr>result = Value_error n, calls = 0, sleeps = []\<rparr>
      else execute \<lparr>max_retries = n - 1, base_delay = base, max_delay = cap, backoff_factor = 2,
                    retryable = rt\<rparr> f)"
  using backoff_execute [of "\<lparr>max_retries = n - 1, base_delay = base, max_delay = cap,
      backoff_factor = 2, retryable = rt\<rparr>" n, where f = f]
  by (simp add: retry_with_backoff_def execute_def)

end
