(* ===== verification/RateLimit.thy ===== *)
theory RateLimit
  imports Obase_Prelude
begin

text \<open>
  The sliding-window rate limiter and its registry of \<^verbatim>\<open>obase/rate_limit.py\<close>. A waiting
  \<open>acquire\<close> holds the lock while it sleeps, so acquisitions run one after the other. The clock
  readings of an acquisition are its argument: one pair per iteration of the loop, the reading at
  the top and the one compared with the deadline.
\<close>

section \<open>The limiter\<close>

record limiter =
  rate :: int
  period :: rat
  timestamps :: "rat list"

datatype limit_error = Rate_not_positive | Period_not_positive

definition new_limiter :: "int \<Rightarrow> rat \<Rightarrow> limit_error + limiter" where
  "new_limiter r p =
     (if r \<le> 0 then Inl Rate_not_positive
      else if p \<le> 0 then Inl Period_not_positive
      else Inr \<lparr>rate = r, period = p, timestamps = []\<rparr>)"

text \<open>The inner while loop: drop the leading timestamps that left the window.\<close>

definition expire :: "rat \<Rightarrow> limiter \<Rightarrow> limiter" where
  "expire now l = l\<lparr>timestamps := dropWhile (\<lambda>t. t \<le> now - period l) (timestamps l)\<rparr>"

definition sleep_for :: "rat \<Rightarrow> limiter \<Rightarrow> rat" where
  "sleep_for now l = hd (timestamps l) + period l - now + 1 / 10000"

datatype acquired = Granted rat | Rate_limit_exceeded | Waiting

fun acquire_loop :: "rat option \<Rightarrow> (rat \<times> rat) list \<Rightarrow> limiter \<Rightarrow> limiter \<times> acquired" where
  "acquire_loop deadline [] l = (l, Waiting)"
| "acquire_loop deadline ((now, now2) # readings) l =
     (let l' = expire now l
      in if int (length (timestamps l')) < rate l'
         then (l'\<lparr>timestamps := timestamps l' @ [now]\<rparr>, Granted now)
         else if (case deadline of None \<Rightarrow> False | Some d \<Rightarrow> now2 + sleep_for now l' > d)
         then (l', Rate_limit_exceeded)
         else acquire_loop deadline readings l')"

definition acquire :: "rat \<Rightarrow> rat option \<Rightarrow> (rat \<times> rat) list \<Rightarrow> limiter \<Rightarrow> limiter \<times> acquired" where
  "acquire start timeout readings l =
     acquire_loop (case timeout of None \<Rightarrow> None | Some t \<Rightarrow> Some (start + t)) readings l"

section \<open>The registry\<close>

type_synonym registry = "(string, limiter) dict"

datatype registry_error = Limit_error limit_error | Not_found string

definition register :: "string \<Rightarrow> int \<Rightarrow> rat \<Rightarrow> registry \<Rightarrow> registry \<times> (registry_error + limiter)" where
  "register name r p reg =
     (case new_limiter r p of
        Inl e \<Rightarrow> (reg, Inl (Limit_error e))
      | Inr l \<Rightarrow> (dict_set name l reg, Inr l))"

definition get :: "string \<Rightarrow> registry \<Rightarrow> registry_error + limiter" where
  "get name reg = (case dict_get reg name of None \<Rightarrow> Inl (Not_found name) | Some l \<Rightarrow> Inr l)"

definition has :: "string \<Rightarrow> registry \<Rightarrow> bool" where
  "has name reg \<longleftrightarrow> dict_get reg name \<noteq> None"

definition clear :: "registry \<Rightarrow> registry" where
  "clear reg = []"

fun load_entries :: "(string \<times> int \<times> rat) list \<Rightarrow> registry \<Rightarrow> registry \<times> (registry_error + unit)" where
  "load_entries [] reg = (reg, Inr ())"
| "load_entries ((name, r, p) # es) reg =
     (case register name r p reg of
        (reg', Inl e) \<Rightarrow> (reg', Inl e)
      | (reg', Inr _) \<Rightarrow> load_entries es reg')"

section \<open>The window\<close>

text \<open>
  \<open>grants\<close> is the history of all granted times, oldest first. The stored timestamps are a suffix
  of it, and every time that was dropped lies at least a period before the last reading.
\<close>

definition spaced :: "nat \<Rightarrow> rat \<Rightarrow> rat list \<Rightarrow> bool" where
  "spaced r p h \<longleftrightarrow> (\<forall>i. i + r < length h \<longrightarrow> h ! i + p \<le> h ! (i + r))"

definition limiter_ok :: "rat list \<Rightarrow> rat \<Rightarrow> limiter \<Rightarrow> bool" where
  "limiter_ok h now l \<longleftrightarrow> 0 < rate l \<and> 0 < period l \<and> sorted h \<and> (\<forall>t \<in> set h. t \<le> now)
     \<and> int (length (timestamps l)) \<le> rate l
     \<and> (\<exists>old. h = old @ timestamps l \<and> (\<forall>t \<in> set old. t \<le> now - period l))
     \<and> spaced (nat (rate l)) (period l) h"

lemma limiter_ok_expire:
  assumes "limiter_ok h past l" and "past \<le> now"
  shows "limiter_ok h now (expire now l)"
proof -
  from assms(1) obtain old where old: "h = old @ timestamps l" "\<forall>t \<in> set old. t \<le> past - period l"
    by (auto simp: limiter_ok_def)
  let ?gone = "takeWhile (\<lambda>t. t \<le> now - period l) (timestamps l)"
  have "h = (old @ ?gone) @ timestamps (expire now l)"
    using old(1) by (simp add: expire_def)
  moreover have "\<forall>t \<in> set (old @ ?gone). t \<le> now - period l"
    using old(2) assms(2) by (auto dest: set_takeWhileD)
  moreover have "length (timestamps (expire now l)) \<le> length (timestamps l)"
    by (simp add: expire_def length_dropWhile_le)
  moreover have "\<forall>t \<in> set h. t \<le> now" using assms by (force simp: limiter_ok_def)
  ultimately show ?thesis
    using assms(1) unfolding limiter_ok_def
    by (simp only: expire_def limiter.simps) (auto intro!: exI [of _ "old @ ?gone"])
qed

lemma limiter_ok_mono: "limiter_ok h now l \<Longrightarrow> now \<le> now' \<Longrightarrow> limiter_ok h now' l"
  unfolding limiter_ok_def by fastforce

lemma limiter_ok_grant:
  assumes ok: "limiter_ok h now l" and room: "int (length (timestamps l)) < rate l"
  shows "limiter_ok (h @ [now]) now (l\<lparr>timestamps := timestamps l @ [now]\<rparr>)"
proof -
  let ?r = "nat (rate l)"
  from ok obtain old where old: "h = old @ timestamps l" "\<forall>t \<in> set old. t \<le> now - period l"
    by (auto simp: limiter_ok_def)
  have r: "length (timestamps l) < ?r" using room by simp
  have "(h @ [now]) ! i + period l \<le> (h @ [now]) ! (i + ?r)" if "i + ?r < length (h @ [now])" for i
  proof (cases "i + ?r < length h")
    case True
    with ok show ?thesis by (auto simp: limiter_ok_def spaced_def nth_append)
  next
    case False
    with that have "i + ?r = length h" by simp
    moreover from this r have i: "i < length old" by (simp add: old(1))
    then have "h ! i \<in> set old" by (simp add: old(1) nth_append)
    then have "h ! i + period l \<le> now" using old(2) by fastforce
    moreover have "i < length h" using i by (simp add: old(1))
    ultimately show ?thesis by (simp add: nth_append)
  qed
  then have "spaced ?r (period l) (h @ [now])" by (simp add: spaced_def)
  moreover have "sorted (h @ [now])" using ok by (auto simp: limiter_ok_def sorted_append)
  ultimately show ?thesis
    using ok room old by (auto simp: limiter_ok_def)
qed

definition granted :: "acquired \<Rightarrow> rat list" where
  "granted a = (case a of Granted t \<Rightarrow> [t] | _ \<Rightarrow> [])"

lemma expire_setup [simp]: "rate (expire now l) = rate l" "period (expire now l) = period l"
  by (simp_all add: expire_def)

lemma acquire_loop_ok:
  assumes "limiter_ok h past l" and "sorted (past # map fst rs)"
    and "acquire_loop d rs l = (l', a)"
  shows "limiter_ok (h @ granted a) (List.last (past # map fst rs)) l' \<and> rate l' = rate l \<and> period l' = period l"
  using assms
proof (induction d rs l arbitrary: past rule: acquire_loop.induct)
  case (1 d l)
  then show ?case by (simp add: granted_def)
next
  case (2 d now now2 rs l)
  let ?l = "expire now l" and ?fin = "List.last (past # map fst ((now, now2) # rs))"
  have ok: "limiter_ok h now ?l" using 2(2,3) by (intro limiter_ok_expire) auto
  have "now \<in> set (map fst ((now, now2) # rs))" by simp
  have "now \<le> ?fin" using 2(3) by (cases rs rule: rev_cases) auto
  consider (grant) "int (length (timestamps ?l)) < rate l"
    | (refuse) "\<not> int (length (timestamps ?l)) < rate l" "case d of None \<Rightarrow> False | Some d \<Rightarrow> now2 + sleep_for now ?l > d"
    | (wait) "\<not> int (length (timestamps ?l)) < rate l" "\<not> (case d of None \<Rightarrow> False | Some d \<Rightarrow> now2 + sleep_for now ?l > d)"
    by blast
  then show ?case
  proof cases
    case grant
    with 2(4) have "l' = ?l\<lparr>timestamps := timestamps ?l @ [now]\<rparr>" "a = Granted now"
      by (auto simp: Let_def)
    with limiter_ok_mono [OF limiter_ok_grant [OF ok] \<open>now \<le> ?fin\<close>] grant show ?thesis
      by (simp add: granted_def)
  next
    case refuse
    with 2(4) have "l' = ?l" "a = Rate_limit_exceeded" by (auto simp: Let_def)
    with limiter_ok_mono [OF ok \<open>now \<le> ?fin\<close>] show ?thesis by (simp add: granted_def)
  next
    case wait
    with 2(4) have "acquire_loop d rs ?l = (l', a)" by (simp add: Let_def)
    moreover have "sorted (now # map fst rs)" using 2(3) by simp
    ultimately have "limiter_ok (h @ granted a) (List.last (now # map fst rs)) l' \<and> rate l' = rate ?l
        \<and> period l' = period ?l"
      using 2(1) [OF refl _ _ ok] wait by simp
    then show ?thesis by simp
  qed
qed

section \<open>A run of acquisitions\<close>

record request =
  rq_start :: rat
  rq_timeout :: "rat option"
  rq_readings :: "(rat \<times> rat) list"

fun acquire_all :: "request list \<Rightarrow> limiter \<Rightarrow> limiter \<times> acquired list" where
  "acquire_all [] l = (l, [])"
| "acquire_all (q # qs) l =
     (let (l1, a) = acquire (rq_start q) (rq_timeout q) (rq_readings q) l;
          (l2, as) = acquire_all qs l1
      in (l2, a # as))"

definition all_readings :: "request list \<Rightarrow> rat list" where
  "all_readings qs = concat (map (\<lambda>q. map fst (rq_readings q)) qs)"

lemma all_readings_simps [simp]:
  "all_readings [] = []" "all_readings (q # qs) = map fst (rq_readings q) @ all_readings qs"
  by (simp_all add: all_readings_def)

definition grants :: "acquired list \<Rightarrow> rat list" where
  "grants as = concat (map granted as)"

lemma acquire_all_ok:
  assumes "limiter_ok h past l" and "sorted (past # all_readings qs)"
    and "acquire_all qs l = (l', as)"
  shows "\<exists>now. limiter_ok (h @ grants as) now l' \<and> rate l' = rate l \<and> period l' = period l"
  using assms
proof (induction qs arbitrary: h past l as)
  case Nil
  then show ?case by (auto simp: grants_def)
next
  case (Cons q qs)
  obtain l1 a where a: "acquire (rq_start q) (rq_timeout q) (rq_readings q) l = (l1, a)" by fastforce
  with Cons.prems(3) obtain as' where rest: "acquire_all qs l1 = (l', as')" and as: "as = a # as'"
    by (auto split: prod.splits)
  let ?rs = "map fst (rq_readings q)" and ?more = "all_readings qs"
  have s: "sorted ((past # ?rs) @ ?more)" using Cons.prems(2) by simp
  then have s1: "sorted (past # ?rs)" unfolding sorted_append by blast
  have "List.last (past # ?rs) \<in> set (past # ?rs)" by (intro last_in_set) simp
  with s have s2: "sorted (List.last (past # ?rs) # ?more)" unfolding sorted_append by auto
  from a have "acquire_loop (case rq_timeout q of None \<Rightarrow> None | Some t \<Rightarrow> Some (rq_start q + t))
      (rq_readings q) l = (l1, a)" by (simp add: acquire_def)
  note l1 = acquire_loop_ok [OF Cons.prems(1) s1 this]
  then have "limiter_ok (h @ granted a) (List.last (past # ?rs)) l1" by blast
  from Cons.IH [OF this s2 rest] l1 show ?case by (auto simp: as grants_def)
qed

section \<open>Properties\<close>

text \<open>
  The limit holds: on a non-decreasing clock, of the times granted by a limiter any one and
  the one \<open>rate\<close> grants later lie at least a period apart, so no period sees more than \<open>rate\<close> grants.
\<close>

theorem rate_limit_holds:
  assumes "new_limiter r p = Inr l" and "acquire_all qs l = (l', as)"
    and "sorted (all_readings qs)" and "i + nat r < length (grants as)"
  shows "grants as ! i + p \<le> grants as ! (i + nat r)"
proof -
  have l: "rate l = r" "period l = p" "timestamps l = []" "0 < r" "0 < p"
    using assms(1) by (auto simp: new_limiter_def split: if_splits)
  let ?rs = "all_readings qs"
  define past where "past = (if ?rs = [] then 0 else hd ?rs)"
  have "sorted (past # ?rs)" using assms(3) by (cases ?rs) (auto simp: past_def)
  moreover have "limiter_ok [] past l" using l by (simp add: limiter_ok_def spaced_def)
  ultimately obtain now where "limiter_ok (grants as) now l'" "rate l' = r" "period l' = p"
    using acquire_all_ok [OF _ _ assms(2)] l by force
  with assms(4) show ?thesis by (simp add: limiter_ok_def spaced_def)
qed

theorem rate_limit_holds_witness:
  "let as = snd (acquire_all [\<lparr>rq_start = 0, rq_timeout = None, rq_readings = [(0, 0)]\<rparr>,
      \<lparr>rq_start = 1, rq_timeout = None, rq_readings = [(1, 1), (11, 11)]\<rparr>]
      \<lparr>rate = 1, period = 10, timestamps = []\<rparr>)
   in grants as = [0, 11] \<and> grants as ! 0 + 10 \<le> grants as ! 1"
proof -
  let ?qs = "[\<lparr>rq_start = 0, rq_timeout = None, rq_readings = [(0, 0)]\<rparr>,
      \<lparr>rq_start = 1, rq_timeout = None, rq_readings = [(1, 1), (11, 11)]\<rparr>]"
  let ?l = "\<lparr>rate = 1, period = 10, timestamps = []\<rparr>"
  have a: "acquire_all ?qs ?l = (\<lparr>rate = 1, period = 10, timestamps = [11]\<rparr>, [Granted 0, Granted 11])"
    by (simp add: acquire_def expire_def sleep_for_def)
  have n: "new_limiter 1 10 = Inr ?l" by (simp add: new_limiter_def)
  from rate_limit_holds [OF n a, of 0] a show ?thesis by (simp add: grants_def granted_def)
qed

text \<open>
  A waiting acquisition makes progress: without a timeout, an acquisition on a limiter in use
  whose second reading comes no earlier than the sleep it asked for is granted at the first or
  the second reading.
\<close>

theorem acquire_progresses:
  assumes "new_limiter r p = Inr l0" and "acquire_all qs l0 = (l, as)"
    and "sorted (all_readings qs)"
    and "n1 + sleep_for n1 (expire n1 l) \<le> n2" and "n1 \<le> n2"
  shows "snd (acquire n1 None [(n1, m1), (n2, m2)] l) = Granted n1
    \<or> snd (acquire n1 None [(n1, m1), (n2, m2)] l) = Granted n2"
proof -
  have l0: "rate l0 = r" "period l0 = p" "timestamps l0 = []" "0 < r" "0 < p"
    using assms(1) by (auto simp: new_limiter_def split: if_splits)
  let ?rs = "all_readings qs"
  define past where "past = (if ?rs = [] then 0 else hd ?rs)"
  have "sorted (past # ?rs)" using assms(3) by (cases ?rs) (auto simp: past_def)
  moreover have "limiter_ok [] past l0" using l0 by (simp add: limiter_ok_def spaced_def)
  ultimately obtain now where ok: "limiter_ok (grants as) now l" "rate l = r"
    using acquire_all_ok [OF _ _ assms(2)] l0 by force
  let ?l = "expire n1 l"
  have len: "int (length (timestamps ?l)) \<le> r"
    using ok length_dropWhile_le [of "\<lambda>t. t \<le> n1 - period l" "timestamps l"]
    by (auto simp: limiter_ok_def expire_def)
  show ?thesis
  proof (cases "int (length (timestamps ?l)) < r")
    case True
    then show ?thesis using ok(2) by (simp add: acquire_def Let_def)
  next
    case False
    with len l0(4) obtain t ts where ts: "timestamps ?l = t # ts" by (cases "timestamps ?l") auto
    with assms(4) have "t \<le> n2 - period l" by (simp add: sleep_for_def)
    then have "length (timestamps (expire n2 ?l)) \<le> length ts"
      using ts by (simp add: expire_def [of n2] length_dropWhile_le)
    with ts len have "int (length (timestamps (expire n2 ?l))) < r" by simp
    with False ok(2) show ?thesis by (simp add: acquire_def Let_def)
  qed
qed

theorem acquire_progresses_witness:
  "snd (acquire 1 None [(1, 1), (12, 12)] \<lparr>rate = 1, period = 10, timestamps = [0]\<rparr>) = Granted 1
    \<or> snd (acquire 1 None [(1, 1), (12, 12)] \<lparr>rate = 1, period = 10, timestamps = [0]\<rparr>) = Granted 12"
proof -
  have a: "acquire_all [\<lparr>rq_start = 0, rq_timeout = None, rq_readings = [(0, 0)]\<rparr>]
      \<lparr>rate = 1, period = 10, timestamps = []\<rparr>
      = (\<lparr>rate = 1, period = 10, timestamps = [0]\<rparr>, [Granted 0])"
    by (simp add: acquire_def expire_def)
  have n: "new_limiter 1 10 = Inr \<lparr>rate = 1, period = 10, timestamps = []\<rparr>" by (simp add: new_limiter_def)
  show ?thesis
    by (rule acquire_progresses [OF n a]) (simp_all add: sleep_for_def expire_def)
qed

end
