(* ===== verification/Json.thy ===== *)
theory Json
  imports Obase_Prelude "HOL-Library.Countable"
begin

text \<open>
  JSON documents as the code builds and reads them with dictionaries, and the combinators for
  reading fields: a missing required key is a KeyError, a missing optional key its default.
  \<^verbatim>\<open>json.loads\<close> after \<^verbatim>\<open>json.dumps\<close> is the identity on these documents, so stored text is
  modelled by the document it encodes.
\<close>

datatype json = JNull | JBool bool | JInt int | JFloat rat | JStr string
  | JList "json list" | JDict "(string \<times> json) list"

text \<open>Documents can be numbered, so texts for them exist.\<close>

instance json :: countable
  by countable_datatype

type_synonym jdict = "(string \<times> json) list"

text \<open>The truth value Python gives a document.\<close>

fun truthy :: "json \<Rightarrow> bool" where
  "truthy JNull = False"
| "truthy (JBool b) = b"
| "truthy (JInt i) = (i \<noteq> 0)"
| "truthy (JFloat r) = (r \<noteq> 0)"
| "truthy (JStr s) = (s \<noteq> '''')"
| "truthy (JList xs) = (xs \<noteq> [])"
| "truthy (JDict d) = (d \<noteq> [])"

datatype decode_error = Key_error string | Ill_typed json | Value_error string

definition bindE :: "'e + 'a \<Rightarrow> ('a \<Rightarrow> 'e + 'b) \<Rightarrow> 'e + 'b" where
  "bindE m f = (case m of Inl e \<Rightarrow> Inl e | Inr x \<Rightarrow> f x)"

lemma bindE_simps [simp]: "bindE (Inl e) f = Inl e" "bindE (Inr x) f = f x"
  by (simp_all add: bindE_def)

lemma bindE_assoc: "bindE (bindE m f) g = bindE m (\<lambda>x. bindE (f x) g)"
  by (cases m) simp_all

lemma bindE_Inr: "bindE m f = Inr y \<longleftrightarrow> (\<exists>x. m = Inr x \<and> f x = Inr y)"
  by (cases m) auto

fun mapE :: "('a \<Rightarrow> 'e + 'b) \<Rightarrow> 'a list \<Rightarrow> 'e + 'b list" where
  "mapE f [] = Inr []"
| "mapE f (x # xs) = bindE (f x) (\<lambda>y. bindE (mapE f xs) (\<lambda>ys. Inr (y # ys)))"

lemma mapE_map_id: "(\<And>x. x \<in> set xs \<Longrightarrow> f (g x) = Inr x) \<Longrightarrow> mapE f (map g xs) = Inr xs"
  by (induction xs) auto

lemma mapE_Inr_length: "mapE f xs = Inr ys \<Longrightarrow> length ys = length xs"
  by (induction xs arbitrary: ys) (auto simp: bindE_Inr)

definition need :: "string \<Rightarrow> (json \<Rightarrow> decode_error + 'a) \<Rightarrow> jdict \<Rightarrow> decode_error + 'a" where
  "need k dec d = (case dict_get d k of None \<Rightarrow> Inl (Key_error k) | Some j \<Rightarrow> dec j)"

definition opt :: "string \<Rightarrow> 'a \<Rightarrow> (json \<Rightarrow> decode_error + 'a) \<Rightarrow> jdict \<Rightarrow> decode_error + 'a" where
  "opt k dflt dec d = (case dict_get d k of None \<Rightarrow> Inr dflt | Some j \<Rightarrow> dec j)"

fun as_str :: "json \<Rightarrow> decode_error + string" where
  "as_str (JStr s) = Inr s"
| "as_str j = Inl (Ill_typed j)"

fun as_str_option :: "json \<Rightarrow> decode_error + string option" where
  "as_str_option (JStr s) = Inr (Some s)"
| "as_str_option JNull = Inr None"
| "as_str_option j = Inl (Ill_typed j)"

fun as_int :: "json \<Rightarrow> decode_error + int" where
  "as_int (JInt i) = Inr i"
| "as_int j = Inl (Ill_typed j)"

fun as_float :: "json \<Rightarrow> decode_error + rat" where
  "as_float (JFloat r) = Inr r"
| "as_float (JInt i) = Inr (of_int i)"
| "as_float j = Inl (Ill_typed j)"

fun as_bool :: "json \<Rightarrow> decode_error + bool" where
  "as_bool (JBool b) = Inr b"
| "as_bool j = Inl (Ill_typed j)"

fun as_list :: "json \<Rightarrow> decode_error + json list" where
  "as_list (JList xs) = Inr xs"
| "as_list j = Inl (Ill_typed j)"

fun as_dict :: "json \<Rightarrow> decode_error + jdict" where
  "as_dict (JDict d) = Inr d"
| "as_dict j = Inl (Ill_typed j)"

definition str_or_null :: "string option \<Rightarrow> json" where
  "str_or_null s = (case s of None \<Rightarrow> JNull | Some s \<Rightarrow> JStr s)"

lemma as_str_or_null [simp]: "as_str_option (str_or_null s) = Inr s"
  by (cases s) (simp_all add: str_or_null_def)

section \<open>Reading a document\<close>

text \<open>\<^verbatim>\<open>d.get(k, dflt)\<close>, \<^verbatim>\<open>a or b\<close>, \<^verbatim>\<open>str(j)\<close> (the text of a document that is no text is an argument).\<close>

definition get_json :: "string \<Rightarrow> json \<Rightarrow> jdict \<Rightarrow> json" where
  "get_json k dflt d = (case dict_get d k of None \<Rightarrow> dflt | Some j \<Rightarrow> j)"

definition py_or :: "json \<Rightarrow> json \<Rightarrow> json" where
  "py_or a b = (if truthy a then a else b)"

definition str_of :: "(json \<Rightarrow> string) \<Rightarrow> json \<Rightarrow> string" where
  "str_of shown j = (case j of JStr s \<Rightarrow> s | _ \<Rightarrow> shown j)"

definition dict_or_nothing :: "json \<Rightarrow> jdict" where
  "dict_or_nothing j = (case j of JDict d \<Rightarrow> d | _ \<Rightarrow> [])"

section \<open>Sorted keys\<close>

text \<open>The document that a text written with sorted keys denotes: keys in order, at every depth.\<close>

fun sort_keys :: "json \<Rightarrow> json" where
  "sort_keys (JList xs) = JList (map sort_keys xs)"
| "sort_keys (JDict d) = JDict (sort_key fst (map (\<lambda>(k, v). (k, sort_keys v)) d))"
| "sort_keys j = j"

lemma insort_key_map: "insort_key f (g x) (map g xs) = map g (insort_key (\<lambda>x. f (g x)) x xs)"
  by (induction xs) simp_all

lemma sort_key_map: "sort_key f (map g xs) = map g (sort_key (\<lambda>x. f (g x)) xs)"
  by (induction xs) (simp_all add: insort_key_map)

lemma sort_keys_dict: "sort_keys (JDict d) = JDict (map (\<lambda>(k, v). (k, sort_keys v)) (sort_key fst d))"
  by (simp add: sort_key_map case_prod_beta)

lemma sort_key_sorted: "sort_key f (sort_key f xs) = sort_key f xs"
  by (simp add: sorted_sort_id sort_key_id_if_sorted)

lemma sort_keys_idem [simp]: "sort_keys (sort_keys j) = sort_keys j"
proof (induction j rule: sort_keys.induct)
  case (2 d)
  let ?g = "\<lambda>(k, v). (k, sort_keys v)"
  have g: "map ?g (map ?g d) = map ?g d" using 2 by (auto simp: case_prod_beta)
  have c: "map ?g (sort_key fst ys) = sort_key fst (map ?g ys)" for ys :: "(string \<times> json) list"
    by (simp add: sort_key_map case_prod_beta)
  have "sort_keys (sort_keys (JDict d)) = JDict (sort_key fst (map ?g (sort_key fst (map ?g d))))" by simp
  also have "\<dots> = JDict (sort_key fst (sort_key fst (map ?g (map ?g d))))" by (simp only: c)
  also have "\<dots> = sort_keys (JDict d)" by (simp only: g sort_key_sorted sort_keys.simps)
  finally show ?case .
qed simp_all

text \<open>An object and its sorted form have the same entries.\<close>

definition sorted_entries :: "jdict \<Rightarrow> jdict" where
  "sorted_entries d = sort_key fst (map (\<lambda>(k, v). (k, sort_keys v)) d)"

lemma sort_keys_JDict: "sort_keys (JDict d) = JDict (sorted_entries d)"
  by (simp add: sorted_entries_def)

lemma keys_sorted_entries: "map fst (sorted_entries d) = sort (map fst d)"
  unfolding sorted_entries_def using sort_key_map [of "\<lambda>x. x" fst "map (\<lambda>(k, v). (k, sort_keys v)) d"]
  by (simp add: case_prod_beta comp_def)

lemma get_sorted:
  assumes "distinct (map fst d)"
  shows "dict_get (sorted_entries d) k = map_option sort_keys (dict_get d k)"
proof -
  let ?d = "map (\<lambda>(k, v). (k, sort_keys v)) d"
  have "map fst ?d = map fst d" by (simp add: case_prod_beta)
  then have "dict_get (sorted_entries d) = dict_get ?d"
    using assms keys_sorted_entries [of d] by (intro map_of_inject_set [THEN iffD2]) (simp_all only: distinct_sort, simp add: sorted_entries_def)
  then show ?thesis by (simp add: map_of_map)
qed

lemma get_json_sorted: "distinct (map fst d) \<Longrightarrow> get_json k JNull (sorted_entries d) = sort_keys (get_json k JNull d)"
  by (simp add: get_json_def get_sorted split: option.split)

end
