(* ===== verification/SignalBus.thy ===== *)
theory SignalBus
  imports Json Python_Text
begin

text \<open>
  The approval and interrupt bus of \<^verbatim>\<open>obase/hitl_signal_bus.py\<close>. Requests are objects that waiters hold
  on to, so they live in a heap and the table maps an identifier to a place in it. The operations come
  first, as one thread runs them alone; then the moves of many threads, cut where another thread can
  come between: a decision takes the lock, writes the outcome, the time and the note one by one,
  releases the lock and sets the event; a wait or a query takes the lock only to look the request up and
  reads it field by field without it. A blocked wait can wake once the event is set; nothing says that
  it does, since \<^verbatim>\<open>asyncio.Event.set\<close> from another thread promises no wake-up. Clock readings and fresh
  identifiers are arguments.
\<close>

section \<open>Requests\<close>

datatype decision = Approved | Rejected | Timed_out | Cancelled

fun decision_text :: "decision \<Rightarrow> string" where
  "decision_text Approved = ''approved''"
| "decision_text Rejected = ''rejected''"
| "decision_text Timed_out = ''timed_out''"
| "decision_text Cancelled = ''cancelled''"

record approval =
  request_id :: string
  scope :: string
  summary :: string
  created_at :: rat
  decided_at :: "rat option"
  outcome :: "decision option"
  note_text :: string
  event_set :: bool

record bus =
  requests :: "(string, nat) dict"
  heap :: "approval list"
  interrupt :: bool
  interrupt_reason :: string

definition new_bus :: bus where
  "new_bus = \<lparr>requests = [], heap = [], interrupt = False, interrupt_reason = ''''\<rparr>"

definition request_approval :: "string option \<Rightarrow> string \<Rightarrow> string \<Rightarrow> string \<Rightarrow> rat \<Rightarrow> bus \<Rightarrow> bus \<times> string" where
  "request_approval given fresh sc su now b =
     (let rid = (case given of None \<Rightarrow> ''hitl-'' @ fresh | Some r \<Rightarrow> if r = '''' then ''hitl-'' @ fresh else r);
          req = \<lparr>request_id = rid, scope = sc, summary = su, created_at = now, decided_at = None,
                 outcome = None, note_text = '''', event_set = False\<rparr>
      in (b\<lparr>heap := heap b @ [req], requests := dict_set rid (length (heap b)) (requests b)\<rparr>, rid))"

text \<open>The test of \<open>_decide\<close> under the lock, its three assignments, and the event.\<close>

definition decide_check :: "string \<Rightarrow> bus \<Rightarrow> nat option" where
  "decide_check rid b =
     (case dict_get (requests b) rid of
        None \<Rightarrow> None
      | Some r \<Rightarrow> if outcome (heap b ! r) \<noteq> None then None else Some r)"

definition write_outcome :: "nat \<Rightarrow> decision \<Rightarrow> bus \<Rightarrow> bus" where
  "write_outcome r d b = b\<lparr>heap := (heap b)[r := (heap b ! r)\<lparr>outcome := Some d\<rparr>]\<rparr>"

definition write_time :: "nat \<Rightarrow> rat \<Rightarrow> bus \<Rightarrow> bus" where
  "write_time r now b = b\<lparr>heap := (heap b)[r := (heap b ! r)\<lparr>decided_at := Some now\<rparr>]\<rparr>"

definition write_note :: "nat \<Rightarrow> string \<Rightarrow> bus \<Rightarrow> bus" where
  "write_note r n b = b\<lparr>heap := (heap b)[r := (heap b ! r)\<lparr>note_text := n\<rparr>]\<rparr>"

definition set_event :: "nat \<Rightarrow> bus \<Rightarrow> bus" where
  "set_event r b = b\<lparr>heap := (heap b)[r := (heap b ! r)\<lparr>event_set := True\<rparr>]\<rparr>"

definition decide :: "string \<Rightarrow> decision \<Rightarrow> string \<Rightarrow> rat \<Rightarrow> bus \<Rightarrow> bus \<times> bool" where
  "decide rid d n now b =
     (case decide_check rid b of
        None \<Rightarrow> (b, False)
      | Some r \<Rightarrow> (set_event r (write_note r n (write_time r now (write_outcome r d b))), True))"

definition approve :: "string \<Rightarrow> string \<Rightarrow> rat \<Rightarrow> bus \<Rightarrow> bus \<times> bool" where
  "approve rid n now b = decide rid Approved n now b"

definition reject :: "string \<Rightarrow> string \<Rightarrow> rat \<Rightarrow> bus \<Rightarrow> bus \<times> bool" where
  "reject rid n now b = decide rid Rejected n now b"

definition cancel :: "string \<Rightarrow> string \<Rightarrow> rat \<Rightarrow> bus \<Rightarrow> bus \<times> bool" where
  "cancel rid n now b = decide rid Cancelled n now b"

text \<open>The dictionary of a request whose outcome, note and time were read as given.\<close>

definition decision_of :: "approval \<Rightarrow> decision option \<Rightarrow> string \<Rightarrow> rat option \<Rightarrow> jdict" where
  "decision_of q oc n dt = [(''request_id'', JStr (request_id q)), (''scope'', JStr (scope q)), (''summary'', JStr (summary q)),
     (''outcome'', JStr (case oc of None \<Rightarrow> ''pending'' | Some d \<Rightarrow> decision_text d)),
     (''note'', JStr n), (''created_at'', JFloat (created_at q)),
     (''decided_at'', (case dt of None \<Rightarrow> JNull | Some t \<Rightarrow> JFloat t))]"

definition decision_dict :: "approval \<Rightarrow> jdict" where
  "decision_dict q = decision_of q (outcome q) (note_text q) (decided_at q)"

section \<open>Waiting\<close>

datatype wait_start = Unknown_request jdict | Decided jdict | Waiting nat

definition wait_begin :: "string \<Rightarrow> bus \<Rightarrow> wait_start" where
  "wait_begin rid b =
     (case dict_get (requests b) rid of
        None \<Rightarrow> Unknown_request [(''request_id'', JStr rid), (''outcome'', JStr ''unknown''),
                  (''note'', JStr ''request not found'')]
      | Some r \<Rightarrow> if outcome (heap b ! r) \<noteq> None then Decided (decision_dict (heap b ! r)) else Waiting r)"

definition timed_out_dict :: "string \<Rightarrow> approval \<Rightarrow> jdict" where
  "timed_out_dict rid q = [(''request_id'', JStr rid), (''outcome'', JStr ''timed_out''), (''note'', JStr (note_text q)),
     (''scope'', JStr (scope q)), (''summary'', JStr (summary q))]"

section \<open>Queries and the interrupt\<close>

definition get_request :: "string \<Rightarrow> bus \<Rightarrow> jdict option" where
  "get_request rid b = map_option (\<lambda>r. decision_dict (heap b ! r)) (dict_get (requests b) rid)"

definition list_pending :: "bus \<Rightarrow> jdict list" where
  "list_pending b = map decision_dict (filter (\<lambda>q. outcome q = None) (map (\<lambda>(_, r). heap b ! r) (requests b)))"

definition signal_interrupt :: "string \<Rightarrow> bus \<Rightarrow> bus" where
  "signal_interrupt why b = b\<lparr>interrupt_reason := why, interrupt := True\<rparr>"

definition reset_interrupt :: "bus \<Rightarrow> bus" where
  "reset_interrupt b = b\<lparr>interrupt := False, interrupt_reason := ''''\<rparr>"

definition bus_health :: "bus \<Rightarrow> jdict" where
  "bus_health b = [(''status'', JStr ''healthy''), (''pending_approvals'', JInt (int (length (list_pending b)))),
     (''interrupted'', JBool (interrupt b))]"

text \<open>The bound bus: the context's, or else the thread's.\<close>

record 'b binding =
  ctx_bus :: "'b option"
  thread_bus :: "'b option"

definition get_bus :: "'b binding \<Rightarrow> 'b option" where
  "get_bus c = (case ctx_bus c of Some b \<Rightarrow> Some b | None \<Rightarrow> thread_bus c)"

definition bind_bus :: "'b option \<Rightarrow> 'b binding \<Rightarrow> 'b binding" where
  "bind_bus b c = c\<lparr>ctx_bus := b, thread_bus := b\<rparr>"

definition use_bus :: "'b option \<Rightarrow> 'b binding \<Rightarrow> 'b option" where
  "use_bus given c = (case given of Some b \<Rightarrow> Some b | None \<Rightarrow> get_bus c)"

definition interrupted_here :: "bus option \<Rightarrow> bus binding \<Rightarrow> bool" where
  "interrupted_here given c = (case use_bus given c of None \<Rightarrow> False | Some b \<Rightarrow> interrupt b)"

section \<open>Concurrent use\<close>

text \<open>
  How far a decision is inside the lock, and how far a wait or a query is with the request it holds:
  about to test the outcome (\<open>Look\<close>), blocked on the event, or building the dictionary with the fields
  read so far. The way tells how it came to build one: a wait that found the request decided, a wait
  that was woken, a query, or a wait that timed out.
\<close>

datatype stage = Checked | Outcome_written | Time_written | Note_written

datatype way = Found | Woken | Queried | Expired

datatype reading =
    Look
  | Blocked
  | Outcome_next way
  | Note_next way "decision option"
  | Time_next way "decision option" string

text \<open>
  \<open>writing\<close> is the thread inside the lock, if any, with what it writes; \<open>inflight\<close> holds the places
  decided whose event is still to be set; \<open>readers\<close> the waits and queries under way by number, with the
  identifier asked for and the place held; \<open>answers\<close> what they have returned.
\<close>

record system =
  the_bus :: bus
  writing :: "(nat \<times> decision \<times> string \<times> stage) option"
  inflight :: "nat list"
  readers :: "(nat, string \<times> nat \<times> reading) dict"
  answers :: "(nat \<times> nat \<times> way \<times> jdict) list"

definition start_system :: system where
  "start_system = \<lparr>the_bus = new_bus, writing = None, inflight = [], readers = [], answers = []\<rparr>"

definition answer :: "nat \<Rightarrow> nat \<Rightarrow> way \<Rightarrow> jdict \<Rightarrow> system \<Rightarrow> system" where
  "answer w r k d s = s\<lparr>readers := dict_pop w (readers s), answers := (w, r, k, d) # answers s\<rparr>"

text \<open>The moves of the decision inside the lock, and of a reader outside it.\<close>

fun write_move :: "rat \<Rightarrow> system \<Rightarrow> system option" where
  "write_move now s =
     (case writing s of
        None \<Rightarrow> None
      | Some (r, d, n, Checked) \<Rightarrow>
          Some (s\<lparr>the_bus := write_outcome r d (the_bus s), writing := Some (r, d, n, Outcome_written)\<rparr>)
      | Some (r, d, n, Outcome_written) \<Rightarrow>
          Some (s\<lparr>the_bus := write_time r now (the_bus s), writing := Some (r, d, n, Time_written)\<rparr>)
      | Some (r, d, n, Time_written) \<Rightarrow>
          Some (s\<lparr>the_bus := write_note r n (the_bus s), writing := Some (r, d, n, Note_written)\<rparr>)
      | Some (r, d, n, Note_written) \<Rightarrow> Some (s\<lparr>writing := None, inflight := inflight s @ [r]\<rparr>))"

definition read_move :: "nat \<Rightarrow> system \<Rightarrow> system option" where
  "read_move w s =
     (case dict_get (readers s) w of
        None \<Rightarrow> None
      | Some (rid, r, p) \<Rightarrow>
          (let q = heap (the_bus s) ! r; at_point = (\<lambda>p'. s\<lparr>readers := dict_set w (rid, r, p') (readers s)\<rparr>)
           in case p of
                Look \<Rightarrow> Some (at_point (if outcome q \<noteq> None then Outcome_next Found else Blocked))
              | Blocked \<Rightarrow> if event_set q then Some (at_point (Outcome_next Woken)) else None
              | Outcome_next k \<Rightarrow> Some (at_point (Note_next k (outcome q)))
              | Note_next k oc \<Rightarrow> Some (at_point (Time_next k oc (note_text q)))
              | Time_next k oc n \<Rightarrow> Some (answer w r k (decision_of q oc n (decided_at q)) s)))"

datatype move =
    Request "string option" string string string rat
  | Begin_decision string decision string
  | Write rat
  | Set_event nat
  | Begin_wait nat string
  | Begin_query nat string
  | Read nat
  | Time_out nat

definition begin_read :: "nat \<Rightarrow> string \<Rightarrow> reading \<Rightarrow> system \<Rightarrow> system option" where
  "begin_read w rid p s =
     (if writing s \<noteq> None \<or> dict_get (readers s) w \<noteq> None then None
      else map_option (\<lambda>r. s\<lparr>readers := dict_set w (rid, r, p) (readers s)\<rparr>) (dict_get (requests (the_bus s)) rid))"

fun do_move :: "move \<Rightarrow> system \<Rightarrow> system option" where
  "do_move (Request given fresh sc su now) s =
     (if writing s \<noteq> None then None
      else Some (s\<lparr>the_bus := fst (request_approval given fresh sc su now (the_bus s))\<rparr>))"
| "do_move (Begin_decision rid d n) s =
     (if writing s \<noteq> None \<or> d = Timed_out then None
      else map_option (\<lambda>r. s\<lparr>writing := Some (r, d, n, Checked)\<rparr>) (decide_check rid (the_bus s)))"
| "do_move (Write now) s = write_move now s"
| "do_move (Set_event r) s =
     (if r \<in> set (inflight s)
      then Some (s\<lparr>the_bus := set_event r (the_bus s), inflight := remove1 r (inflight s)\<rparr>) else None)"
| "do_move (Begin_wait w rid) s = begin_read w rid Look s"
| "do_move (Begin_query w rid) s = begin_read w rid (Outcome_next Queried) s"
| "do_move (Read w) s = read_move w s"
| "do_move (Time_out w) s =
     (case dict_get (readers s) w of
        Some (rid, r, Blocked) \<Rightarrow> Some (answer w r Expired (timed_out_dict rid (heap (the_bus s) ! r)) s)
      | _ \<Rightarrow> None)"

fun do_moves :: "move list \<Rightarrow> system \<Rightarrow> system option" where
  "do_moves [] s = Some s"
| "do_moves (m # ms) s = (case do_move m s of None \<Rightarrow> None | Some t \<Rightarrow> do_moves ms t)"

inductive steps :: "system \<Rightarrow> system \<Rightarrow> bool" where
  stop: "steps s s"
| more: "steps s t \<Longrightarrow> do_move m t = Some u \<Longrightarrow> steps s u"

section \<open>What every reachable state satisfies\<close>

definition fresh_cell :: "approval \<Rightarrow> bool" where
  "fresh_cell q \<longleftrightarrow> outcome q = None \<and> decided_at q = None \<and> note_text q = '''' \<and> \<not> event_set q"

definition done_cell :: "approval \<Rightarrow> bool" where
  "done_cell q \<longleftrightarrow> outcome q \<noteq> None \<and> decided_at q \<noteq> None"

text \<open>A request as the thread inside the lock has left it, or as it stands outside.\<close>

fun cell_ok :: "approval \<Rightarrow> (decision \<times> string \<times> stage) option \<Rightarrow> bool \<Rightarrow> bool" where
  "cell_ok q None fl \<longleftrightarrow> fresh_cell q \<and> \<not> fl \<or> done_cell q \<and> (event_set q \<or> fl)"
| "cell_ok q (Some (d, n, Checked)) fl \<longleftrightarrow> fresh_cell q \<and> \<not> fl"
| "cell_ok q (Some (d, n, Outcome_written)) fl \<longleftrightarrow>
     outcome q = Some d \<and> decided_at q = None \<and> note_text q = '''' \<and> \<not> event_set q \<and> \<not> fl"
| "cell_ok q (Some (d, n, Time_written)) fl \<longleftrightarrow>
     outcome q = Some d \<and> decided_at q \<noteq> None \<and> note_text q = '''' \<and> \<not> event_set q \<and> \<not> fl"
| "cell_ok q (Some (d, n, Note_written)) fl \<longleftrightarrow> done_cell q \<and> \<not> event_set q \<and> \<not> fl"

definition written_at :: "(nat \<times> decision \<times> string \<times> stage) option \<Rightarrow> nat \<Rightarrow> (decision \<times> string \<times> stage) option" where
  "written_at wr r = (case wr of None \<Rightarrow> None | Some (r', x) \<Rightarrow> if r' = r then Some x else None)"

definition bus_ok :: "bus \<Rightarrow> (nat \<times> decision \<times> string \<times> stage) option \<Rightarrow> nat list \<Rightarrow> bool" where
  "bus_ok b wr fl \<longleftrightarrow> (\<forall>rid r. dict_get (requests b) rid = Some r \<longrightarrow> r < length (heap b))
     \<and> (\<forall>r < length (heap b). cell_ok (heap b ! r) (written_at wr r) (r \<in> set fl))
     \<and> (\<forall>r x. wr = Some (r, x) \<longrightarrow> r < length (heap b)) \<and> (\<forall>r \<in> set fl. r < length (heap b))"

text \<open>Fields are written once, and nothing changes once the event is set.\<close>

definition grows :: "approval \<Rightarrow> approval \<Rightarrow> bool" where
  "grows q q' \<longleftrightarrow> request_id q' = request_id q \<and> scope q' = scope q \<and> summary q' = summary q \<and> created_at q' = created_at q
     \<and> (outcome q \<noteq> None \<longrightarrow> outcome q' = outcome q) \<and> (decided_at q \<noteq> None \<longrightarrow> decided_at q' = decided_at q)
     \<and> (note_text q \<noteq> '''' \<longrightarrow> note_text q' = note_text q) \<and> (event_set q \<longrightarrow> q' = q)"

definition extends :: "bus \<Rightarrow> bus \<Rightarrow> bool" where
  "extends b b' \<longleftrightarrow> length (heap b) \<le> length (heap b') \<and> (\<forall>r < length (heap b). grows (heap b ! r) (heap b' ! r))"

fun way_ok :: "way \<Rightarrow> approval \<Rightarrow> bool" where
  "way_ok Found q \<longleftrightarrow> outcome q \<noteq> None"
| "way_ok Woken q \<longleftrightarrow> outcome q \<noteq> None \<and> event_set q"
| "way_ok Queried q \<longleftrightarrow> True"
| "way_ok Expired q \<longleftrightarrow> False"

definition outcome_ok :: "way \<Rightarrow> approval \<Rightarrow> decision option \<Rightarrow> bool" where
  "outcome_ok k q oc \<longleftrightarrow> way_ok k q \<and> (oc = outcome q \<or> k = Queried \<and> oc = None)"

definition note_ok :: "way \<Rightarrow> approval \<Rightarrow> string \<Rightarrow> bool" where
  "note_ok k q n \<longleftrightarrow> (n = note_text q \<or> k \<noteq> Woken \<and> n = '''') \<and> (n \<noteq> '''' \<longrightarrow> decided_at q \<noteq> None)"

definition time_ok :: "way \<Rightarrow> approval \<Rightarrow> string \<Rightarrow> rat option \<Rightarrow> bool" where
  "time_ok k q n dt \<longleftrightarrow> dt = decided_at q \<or> k \<noteq> Woken \<and> n = '''' \<and> dt = None"

fun reading_ok :: "approval \<Rightarrow> reading \<Rightarrow> bool" where
  "reading_ok q Look \<longleftrightarrow> True"
| "reading_ok q Blocked \<longleftrightarrow> True"
| "reading_ok q (Outcome_next k) \<longleftrightarrow> way_ok k q"
| "reading_ok q (Note_next k oc) \<longleftrightarrow> outcome_ok k q oc"
| "reading_ok q (Time_next k oc n) \<longleftrightarrow> outcome_ok k q oc \<and> note_ok k q n"

definition answer_ok :: "approval \<Rightarrow> way \<Rightarrow> jdict \<Rightarrow> bool" where
  "answer_ok q k d \<longleftrightarrow> k = Expired \<and> dict_get d ''outcome'' = Some (JStr ''timed_out'')
     \<or> (\<exists>oc n dt. d = decision_of q oc n dt \<and> outcome_ok k q oc \<and> note_ok k q n \<and> time_ok k q n dt)"

definition system_ok :: "system \<Rightarrow> bool" where
  "system_ok s \<longleftrightarrow> bus_ok (the_bus s) (writing s) (inflight s)
     \<and> (\<forall>w rid r p. dict_get (readers s) w = Some (rid, r, p) \<longrightarrow>
          r < length (heap (the_bus s)) \<and> reading_ok (heap (the_bus s) ! r) p)
     \<and> (\<forall>(w, r, k, d) \<in> set (answers s). r < length (heap (the_bus s)) \<and> answer_ok (heap (the_bus s) ! r) k d)"

lemma grows_refl [simp]: "grows q q"
  by (simp add: grows_def)

lemma extends_refl [simp]: "extends b b"
  by (simp add: extends_def)

lemma grows_trans: "grows p q \<Longrightarrow> grows q r \<Longrightarrow> grows p r"
  by (cases "event_set p"; cases "event_set q") (auto simp: grows_def)

lemma extends_trans: "extends a b \<Longrightarrow> extends b c \<Longrightarrow> extends a c"
  unfolding extends_def by (meson grows_trans order_less_le_trans order_trans)

lemma grows_fields:
  assumes "grows q q'"
  shows "way_ok k q \<Longrightarrow> way_ok k q'" "outcome_ok k q oc \<Longrightarrow> outcome_ok k q' oc"
    "way_ok k q \<Longrightarrow> note_ok k q n \<Longrightarrow> note_ok k q' n"
    "way_ok k q \<Longrightarrow> time_ok k q n dt \<Longrightarrow> note_ok k q n \<Longrightarrow> time_ok k q' n dt" "decision_of q' oc n dt = decision_of q oc n dt"
proof -
  show w: "way_ok k q \<Longrightarrow> way_ok k q'" for k using assms by (cases k) (auto simp: grows_def)
  show "outcome_ok k q oc \<Longrightarrow> outcome_ok k q' oc"
    using assms w by (cases k) (auto simp: outcome_ok_def grows_def)
  show "way_ok k q \<Longrightarrow> note_ok k q n \<Longrightarrow> note_ok k q' n"
    using assms by (cases k) (auto simp: note_ok_def grows_def)
  show "way_ok k q \<Longrightarrow> time_ok k q n dt \<Longrightarrow> note_ok k q n \<Longrightarrow> time_ok k q' n dt"
    using assms by (cases k) (auto simp: time_ok_def note_ok_def grows_def)
  show "decision_of q' oc n dt = decision_of q oc n dt" using assms by (simp add: decision_of_def grows_def)
qed

lemma grows_reading: "grows q q' \<Longrightarrow> reading_ok q p \<Longrightarrow> reading_ok q' p"
proof (cases p)
  case (Time_next k oc n)
  then show "grows q q' \<Longrightarrow> reading_ok q p \<Longrightarrow> reading_ok q' p"
    using grows_fields(2,3) [of q q'] by (auto simp: outcome_ok_def)
qed (auto dest: grows_fields(1,2))

lemma grows_answer: "grows q q' \<Longrightarrow> answer_ok q k d \<Longrightarrow> answer_ok q' k d"
proof -
  assume g: "grows q q'" and a: "answer_ok q k d"
  show ?thesis
  proof (cases "k = Expired \<and> dict_get d ''outcome'' = Some (JStr ''timed_out'')")
    case False
    with a obtain oc n dt where d: "d = decision_of q oc n dt" "outcome_ok k q oc" "note_ok k q n" "time_ok k q n dt"
      by (auto simp: answer_ok_def)
    then have "way_ok k q" by (simp add: outcome_ok_def)
    with d have "d = decision_of q' oc n dt \<and> outcome_ok k q' oc \<and> note_ok k q' n \<and> time_ok k q' n dt"
      using grows_fields [OF g] by simp
    then show ?thesis by (auto simp: answer_ok_def)
  qed (auto simp: answer_ok_def)
qed

lemma same_bus_ok:
  assumes "system_ok s" and "the_bus t = b" and "writing t = wr" and "inflight t = fl"
    and "bus_ok b wr fl" and "extends (the_bus s) b" and "readers t = readers s" and "answers t = answers s"
  shows "system_ok t \<and> extends (the_bus s) (the_bus t)"
proof -
  have "r < length (heap b) \<and> reading_ok (heap b ! r) p"
    if "dict_get (readers s) w = Some (rid, r, p)" for w rid r p
    using assms(1,6) that grows_reading unfolding system_ok_def extends_def by (meson order_less_le_trans)
  moreover have "r < length (heap b) \<and> answer_ok (heap b ! r) k d" if "(w, r, k, d) \<in> set (answers s)" for w r k d
    using assms(1,6) that grows_answer unfolding system_ok_def extends_def by (fastforce intro: order_less_le_trans)
  ultimately show ?thesis using assms by (auto simp: system_ok_def)
qed

lemma cell_change:
  assumes "bus_ok b wr fl" and "r < length (heap b)"
    and "grows (heap b ! r) q" and "cell_ok q (written_at wr' r) (r \<in> set fl')"
    and "\<And>r'. r' \<noteq> r \<Longrightarrow> written_at wr' r' = written_at wr r' \<and> (r' \<in> set fl' \<longleftrightarrow> r' \<in> set fl)"
    and "\<And>r' x. wr' = Some (r', x) \<Longrightarrow> r' = r"
  shows "bus_ok (b\<lparr>heap := (heap b)[r := q]\<rparr>) wr' fl' \<and> extends b (b\<lparr>heap := (heap b)[r := q]\<rparr>)"
proof -
  have "cell_ok ((heap b)[r := q] ! r') (written_at wr' r') (r' \<in> set fl')" if "r' < length (heap b)" for r'
    using assms that by (cases "r' = r") (auto simp: bus_ok_def)
  moreover have "r' < length (heap b)" if "r' \<in> set fl'" for r'
    using assms that by (cases "r' = r") (auto simp: bus_ok_def)
  ultimately show ?thesis using assms(1,2,3,6) by (auto simp: bus_ok_def extends_def nth_list_update)
qed

lemma write_move_ok:
  assumes "system_ok s" and "write_move now s = Some t"
  shows "system_ok t \<and> extends (the_bus s) (the_bus t)"
proof -
  obtain r d n st where w: "writing s = Some (r, d, n, st)"
    using assms(2) by (cases "writing s") auto
  have b: "bus_ok (the_bus s) (writing s) (inflight s)" using assms(1) by (simp add: system_ok_def)
  then have r: "r < length (heap (the_bus s))" and c: "cell_ok (heap (the_bus s) ! r) (Some (d, n, st)) (r \<in> set (inflight s))"
    using w by (auto simp: bus_ok_def written_at_def split: option.splits)
  note ch = cell_change [OF b r]
  show ?thesis
  proof (cases st)
    case Checked
    with w have t: "t = s\<lparr>the_bus := write_outcome r d (the_bus s), writing := Some (r, d, n, Outcome_written)\<rparr>"
      using assms(2) by simp
    show ?thesis
      using c w Checked ch [of "(heap (the_bus s) ! r)\<lparr>outcome := Some d\<rparr>" "Some (r, d, n, Outcome_written)" "inflight s"]
      by (intro same_bus_ok [OF assms(1)]) (auto simp: t write_outcome_def fresh_cell_def grows_def written_at_def)
  next
    case Outcome_written
    with w have t: "t = s\<lparr>the_bus := write_time r now (the_bus s), writing := Some (r, d, n, Time_written)\<rparr>"
      using assms(2) by simp
    show ?thesis
      using c w Outcome_written ch [of "(heap (the_bus s) ! r)\<lparr>decided_at := Some now\<rparr>" "Some (r, d, n, Time_written)" "inflight s"]
      by (intro same_bus_ok [OF assms(1)]) (auto simp: t write_time_def grows_def written_at_def)
  next
    case Time_written
    with w have t: "t = s\<lparr>the_bus := write_note r n (the_bus s), writing := Some (r, d, n, Note_written)\<rparr>"
      using assms(2) by simp
    show ?thesis
      using c w Time_written ch [of "(heap (the_bus s) ! r)\<lparr>note_text := n\<rparr>" "Some (r, d, n, Note_written)" "inflight s"]
      by (intro same_bus_ok [OF assms(1)]) (auto simp: t write_note_def grows_def written_at_def done_cell_def)
  next
    case Note_written
    with w have t: "t = s\<lparr>writing := None, inflight := inflight s @ [r]\<rparr>" using assms(2) by simp
    show ?thesis
      using c w Note_written ch [of "heap (the_bus s) ! r" None "inflight s @ [r]"] r
      by (intro same_bus_ok [OF assms(1)]) (auto simp: t written_at_def done_cell_def)
  qed
qed

lemma request_move_ok:
  assumes "system_ok s" and "writing s = None"
  shows "system_ok (s\<lparr>the_bus := fst (request_approval given fresh sc su now (the_bus s))\<rparr>)
    \<and> extends (the_bus s) (fst (request_approval given fresh sc su now (the_bus s)))"
proof -
  let ?b = "the_bus s" and ?b' = "fst (request_approval given fresh sc su now (the_bus s))"
  have b: "bus_ok ?b None (inflight s)" using assms by (simp add: system_ok_def)
  then have "length (heap ?b) \<notin> set (inflight s)" by (auto simp: bus_ok_def)
  with b have "bus_ok ?b' None (inflight s)"
    by (auto simp: bus_ok_def request_approval_def Let_def nth_append update_conv' less_Suc_eq written_at_def fresh_cell_def
        dest: order_less_trans split: if_splits)
  moreover have "extends ?b ?b'" by (auto simp: extends_def request_approval_def Let_def nth_append)
  ultimately show ?thesis
    using same_bus_ok [OF assms(1), of "s\<lparr>the_bus := ?b'\<rparr>" ?b' None "inflight s"] assms(2) by simp
qed

lemma begin_decision_ok:
  assumes "system_ok s" and "writing s = None" and "decide_check rid (the_bus s) = Some r"
  shows "system_ok (s\<lparr>writing := Some (r, d, n, Checked)\<rparr>)"
proof -
  have b: "bus_ok (the_bus s) None (inflight s)" using assms by (simp add: system_ok_def)
  have r: "dict_get (requests (the_bus s)) rid = Some r" "outcome (heap (the_bus s) ! r) = None"
    using assms(3) by (auto simp: decide_check_def split: option.splits if_splits)
  with b have l: "r < length (heap (the_bus s))" by (auto simp: bus_ok_def)
  with b r(2) have "fresh_cell (heap (the_bus s) ! r) \<and> r \<notin> set (inflight s)"
    by (auto simp: bus_ok_def written_at_def done_cell_def)
  then have "bus_ok (the_bus s) (Some (r, d, n, Checked)) (inflight s)"
    using cell_change [OF b l, of "heap (the_bus s) ! r" "Some (r, d, n, Checked)" "inflight s"]
    by (auto simp: written_at_def)
  then show ?thesis
    using same_bus_ok [OF assms(1), of "s\<lparr>writing := Some (r, d, n, Checked)\<rparr>" "the_bus s" "Some (r, d, n, Checked)" "inflight s"]
    by simp
qed

lemma set_event_ok:
  assumes "system_ok s" and "r \<in> set (inflight s)"
  shows "system_ok (s\<lparr>the_bus := set_event r (the_bus s), inflight := remove1 r (inflight s)\<rparr>)
    \<and> extends (the_bus s) (set_event r (the_bus s))"
proof -
  have b: "bus_ok (the_bus s) (writing s) (inflight s)" using assms by (simp add: system_ok_def)
  with assms(2) have r: "r < length (heap (the_bus s))" by (auto simp: bus_ok_def)
  with b have c: "cell_ok (heap (the_bus s) ! r) (written_at (writing s) r) True"
    using assms(2) by (auto simp: bus_ok_def)
  then have w: "written_at (writing s) r = None" and d: "done_cell (heap (the_bus s) ! r)"
    by (auto elim!: cell_ok.elims)
  then have "bus_ok (set_event r (the_bus s)) (writing s) (remove1 r (inflight s)) \<and> extends (the_bus s) (set_event r (the_bus s))"
    using b r
    by (auto simp: bus_ok_def set_event_def nth_list_update extends_def grows_def done_cell_def written_at_def
        dest: set_mp [OF set_remove1_subset] split: option.splits)
  then show ?thesis
    using same_bus_ok [OF assms(1), of "s\<lparr>the_bus := set_event r (the_bus s), inflight := remove1 r (inflight s)\<rparr>"
        "set_event r (the_bus s)" "writing s" "remove1 r (inflight s)"] by simp
qed

lemma reader_ok:
  assumes "system_ok s" and "r < length (heap (the_bus s))" and "reading_ok (heap (the_bus s) ! r) p"
  shows "system_ok (s\<lparr>readers := dict_set w (rid, r, p) (readers s)\<rparr>)"
  using assms by (auto simp: system_ok_def update_conv')

lemma answer_move_ok:
  assumes "system_ok s" and "r < length (heap (the_bus s))" and "answer_ok (heap (the_bus s) ! r) k d"
  shows "system_ok (answer w r k d s)"
  using assms by (auto simp: system_ok_def answer_def delete_conv' split: if_splits)

lemma begin_read_ok:
  assumes "system_ok s" and "begin_read w rid p s = Some t" and "\<And>q. reading_ok q p"
  shows "system_ok t \<and> the_bus t = the_bus s"
proof -
  obtain r where r: "dict_get (requests (the_bus s)) rid = Some r" "t = s\<lparr>readers := dict_set w (rid, r, p) (readers s)\<rparr>"
    using assms(2) by (auto simp: begin_read_def split: if_splits)
  then have "r < length (heap (the_bus s))" using assms(1) by (auto simp: system_ok_def bus_ok_def)
  then show ?thesis using reader_ok [OF assms(1)] assms(3) r(2) by simp
qed

lemma read_move_ok:
  assumes "system_ok s" and "read_move w s = Some t"
  shows "system_ok t \<and> the_bus t = the_bus s"
proof -
  obtain rid r p where r: "dict_get (readers s) w = Some (rid, r, p)"
    using assms(2) by (auto simp: read_move_def split: option.splits)
  let ?q = "heap (the_bus s) ! r"
  have l: "r < length (heap (the_bus s))" and p: "reading_ok ?q p" using assms(1) r by (auto simp: system_ok_def)
  have b: "bus_ok (the_bus s) (writing s) (inflight s)" using assms(1) by (simp add: system_ok_def)
  with l have c: "cell_ok ?q (written_at (writing s) r) (r \<in> set (inflight s))" by (simp add: bus_ok_def)
  then have ev: "event_set ?q \<Longrightarrow> outcome ?q \<noteq> None" and nt: "note_text ?q \<noteq> '''' \<Longrightarrow> decided_at ?q \<noteq> None"
    by (auto simp: fresh_cell_def done_cell_def elim!: cell_ok.elims)
  note at_point = reader_ok [OF assms(1) l]
  show ?thesis
  proof (cases p)
    case (Time_next k oc n)
    then have "answer_ok ?q k (decision_of ?q oc n (decided_at ?q))"
      using p by (auto simp: answer_ok_def time_ok_def)
    then show ?thesis
      using answer_move_ok [OF assms(1) l] assms(2) r Time_next by (auto simp: read_move_def Let_def answer_def)
  qed (use assms(2) r p ev nt at_point in
       \<open>auto simp: read_move_def Let_def outcome_ok_def note_ok_def split: if_splits\<close>)
qed

lemma do_move_ok:
  assumes "do_move m s = Some t" and "system_ok s"
  shows "system_ok t \<and> extends (the_bus s) (the_bus t)"
proof (cases m)
  case (Request given fresh sc su now)
  then show ?thesis
    using assms(1) request_move_ok [OF assms(2)] by (cases "writing s") auto
next
  case (Begin_decision rid d n)
  then show ?thesis
    using assms begin_decision_ok [OF assms(2), of rid] by (cases "writing s") (auto split: if_splits)
next
  case (Begin_query w rid)
  then show ?thesis using assms begin_read_ok [OF assms(2), of w rid "Outcome_next Queried" t] by auto
next
  case (Time_out w)
  then obtain rid r where r: "dict_get (readers s) w = Some (rid, r, Blocked)"
    "t = answer w r Expired (timed_out_dict rid (heap (the_bus s) ! r)) s"
    using assms(1) by (auto split: option.splits reading.splits)
  then have "r < length (heap (the_bus s))" using assms(2) by (auto simp: system_ok_def)
  moreover have "the_bus t = the_bus s" using r by (simp add: answer_def)
  ultimately show ?thesis
    using answer_move_ok [OF assms(2), of r Expired] r(2) by (simp add: answer_ok_def timed_out_dict_def)
qed (use assms write_move_ok [OF assms(2)] set_event_ok [OF assms(2)]
      begin_read_ok [OF assms(2)] read_move_ok [OF assms(2)] in \<open>auto split: if_splits\<close>)

lemma bus_steps_ok: "steps s t \<Longrightarrow> system_ok s \<Longrightarrow> system_ok t \<and> extends (the_bus s) (the_bus t)"
  by (induction rule: steps.induct) (auto dest: do_move_ok intro: extends_trans)

lemma start_ok: "system_ok start_system"
  by (simp add: system_ok_def start_system_def bus_ok_def new_bus_def)

lemma steps_trans: "steps t u \<Longrightarrow> steps s t \<Longrightarrow> steps s u"
  by (induction rule: steps.induct) (auto intro: steps.more)

lemma do_moves_steps: "do_moves ms s = Some t \<Longrightarrow> steps s t"
proof (induction ms arbitrary: s)
  case (Cons m ms)
  then obtain u where "do_move m s = Some u" "steps u t" by (auto split: option.splits)
  then show ?case using steps_trans [of u t s] steps.intros by blast
qed (simp add: steps.stop)

section \<open>Properties\<close>

definition decides :: "jdict \<Rightarrow> bool" where
  "decides d \<longleftrightarrow> dict_get d ''outcome'' \<in> Some ` JStr ` {''approved'', ''rejected'', ''cancelled''}"

text \<open>What a reader can make of a decided request, the writes coming one by one.\<close>

definition snapshots :: "approval \<Rightarrow> jdict list" where
  "snapshots q = [decision_of q (outcome q) '''' None, decision_of q (outcome q) '''' (decided_at q),
     decision_of q (outcome q) (note_text q) (decided_at q)]"

lemma answer_snapshot:
  assumes "answer_ok q k d" and "decides d"
  shows "outcome q \<noteq> None \<and> d \<in> set (snapshots q) \<and> (k = Woken \<longrightarrow> d = decision_dict q)
    \<and> dict_get d ''outcome'' = map_option (\<lambda>oc. JStr (decision_text oc)) (outcome q)"
proof -
  obtain oc n dt where d: "d = decision_of q oc n dt" "outcome_ok k q oc" "note_ok k q n" "time_ok k q n dt"
    using assms by (auto simp: answer_ok_def decides_def)
  moreover have "oc \<noteq> None" using assms(2) by (cases oc) (auto simp: d(1) decides_def decision_of_def)
  ultimately show ?thesis
    by (auto simp: outcome_ok_def note_ok_def time_ok_def snapshots_def decision_dict_def decision_of_def)
qed

text \<open>
  C28. A request is decided once. Whatever the order of the threads' reads and writes, all waits and
  queries on the same request that report a decision, then or later, report the same outcome, the one
  stored. A wait that the event woke returns the stored decision in full; one that found the request
  decided, and a query, may miss its note, or its note and time, and nothing else.
\<close>

theorem one_decision:
  assumes "steps start_system s" and "steps s t"
    and "(w1, r, k1, d1) \<in> set (answers s)" and "(w2, r, k2, d2) \<in> set (answers t)"
    and "decides d1" and "decides d2"
  shows "let q = heap (the_bus t) ! r
    in dict_get d1 ''outcome'' = dict_get d2 ''outcome''
       \<and> dict_get d2 ''outcome'' = map_option (\<lambda>oc. JStr (decision_text oc)) (outcome q)
       \<and> {d1, d2} \<subseteq> set (snapshots q)
       \<and> (k1 = Woken \<longrightarrow> d1 = decision_dict q) \<and> (k2 = Woken \<longrightarrow> d2 = decision_dict q)"
proof -
  have s: "system_ok s" using bus_steps_ok [OF assms(1) start_ok] by simp
  have t: "system_ok t" and ext: "extends (the_bus s) (the_bus t)" using bus_steps_ok [OF assms(2) s] by simp_all
  have "r < length (heap (the_bus s)) \<and> answer_ok (heap (the_bus s) ! r) k1 d1"
    using s assms(3) by (auto simp: system_ok_def)
  then have "answer_ok (heap (the_bus t) ! r) k1 d1" using ext grows_answer by (auto simp: extends_def)
  moreover have "answer_ok (heap (the_bus t) ! r) k2 d2" using t assms(4) by (auto simp: system_ok_def)
  ultimately show ?thesis
    using answer_snapshot [OF _ assms(5)] answer_snapshot [OF _ assms(6)] by (auto simp: Let_def)
qed

text \<open>
  No decision is left without its event: outside the lock a request is undecided, or its event is set,
  or the thread that decided it is about to set it.
\<close>

lemma decision_sets_event:
  assumes "steps start_system s" and "writing s = None" and "r < length (heap (the_bus s))"
    and "outcome (heap (the_bus s) ! r) \<noteq> None"
  shows "event_set (heap (the_bus s) ! r) \<or> r \<in> set (inflight s)"
proof -
  have "system_ok s" using bus_steps_ok [OF assms(1) start_ok] by simp
  then have "cell_ok (heap (the_bus s) ! r) None (r \<in> set (inflight s))"
    using assms(2,3) by (auto simp: system_ok_def bus_ok_def written_at_def)
  then show ?thesis using assms(4) by (auto simp: fresh_cell_def)
qed

section \<open>Examples\<close>

text \<open>A wait blocks; a decision starts, and a second wait finds its outcome before its time and note.\<close>

definition ex_torn :: "move list" where
  "ex_torn = [Request (Some ''r'') '''' ''s'' ''t'' 0, Begin_wait 7 ''r'', Read 7,
     Begin_wait 8 ''r'', Begin_decision ''r'' Approved ''ok'', Write 1,
     Read 8, Read 8, Read 8, Read 8, Write 1, Write 1, Write 1, Set_event 0, Read 7, Read 7, Read 7, Read 7]"

definition ex_req :: approval where
  "ex_req = \<lparr>request_id = ''r'', scope = ''s'', summary = ''t'', created_at = 0, decided_at = Some 1,
     outcome = Some Approved, note_text = ''ok'', event_set = True\<rparr>"

definition ex_answered :: system where
  "ex_answered = \<lparr>the_bus = \<lparr>requests = [(''r'', 0)], heap = [ex_req], interrupt = False, interrupt_reason = ''''\<rparr>,
     writing = None, inflight = [], readers = [],
     answers = [(7, 0, Woken, decision_dict ex_req), (8, 0, Found, decision_of ex_req (Some Approved) '''' None)]\<rparr>"

lemma ex_torn_run: "do_moves ex_torn start_system = Some ex_answered"
  by (simp add: ex_torn_def start_system_def new_bus_def begin_read_def read_move_def decide_check_def request_approval_def
      answer_def write_outcome_def write_time_def write_note_def set_event_def ex_answered_def ex_req_def Let_def
      decision_dict_def decision_of_def)

lemmas ex_torn_reached = do_moves_steps [OF ex_torn_run]

theorem one_decision_witness:
  "\<exists>s d e. steps start_system s \<and> (8, 0, Found, d) \<in> set (answers s) \<and> (7, 0, Woken, e) \<in> set (answers s)
     \<and> dict_get d ''outcome'' = dict_get e ''outcome'' \<and> e = decision_dict (heap (the_bus s) ! 0)"
proof -
  let ?d = "decision_of ex_req (Some Approved) '''' None" and ?e = "decision_dict ex_req"
  have a: "(8, 0, Found, ?d) \<in> set (answers ex_answered)" "(7, 0, Woken, ?e) \<in> set (answers ex_answered)"
    by (simp_all add: ex_answered_def)
  have "decides ?d" "decides ?e" by (simp_all add: decides_def decision_dict_def decision_of_def ex_req_def)
  from one_decision [OF ex_torn_reached steps.stop a this]
  have "dict_get ?d ''outcome'' = dict_get ?e ''outcome''" "?e = decision_dict (heap (the_bus ex_answered) ! 0)"
    by (simp_all add: Let_def)
  with ex_torn_reached a show ?thesis by blast
qed

text \<open>Two waits on one request can return different dictionaries: the note and the time are missing in one.\<close>

lemma torn_decision:
  "(8, 0, Found, decision_of ex_req (Some Approved) '''' None) \<in> set (answers ex_answered)
   \<and> (7, 0, Woken, decision_dict ex_req) \<in> set (answers ex_answered)
   \<and> decision_of ex_req (Some Approved) '''' None \<noteq> decision_dict ex_req \<and> steps start_system ex_answered"
  using ex_torn_reached by (simp add: ex_answered_def decision_dict_def decision_of_def ex_req_def)

text \<open>
  A request made again under an identifier in use gets a place of its own: a decision reaches only
  the new one, and a wait on the old one can only time out.
\<close>

lemma reused_identifier_orphans_wait:
  "let a = fst (request_approval (Some ''r'') '''' ''s'' ''t'' 0 new_bus);
       b = fst (request_approval (Some ''r'') '''' ''s'' ''t'' 1 a); d = fst (decide ''r'' Approved '''' 2 b)
   in wait_begin ''r'' a = Waiting 0 \<and> outcome (heap d ! 0) = None \<and> \<not> event_set (heap d ! 0)
      \<and> outcome (heap d ! 1) = Some Approved"
  by (simp add: Let_def request_approval_def decide_def decide_check_def write_outcome_def write_time_def write_note_def
      set_event_def wait_begin_def new_bus_def)

text \<open>A later decision on a decided request is refused and changes nothing.\<close>

lemma decide_idempotent:
  "dict_get (requests b) rid = Some r \<Longrightarrow> outcome (heap b ! r) \<noteq> None \<Longrightarrow> decide rid d n now b = (b, False)"
  by (simp add: decide_def decide_check_def)

end
