(* ===== verification/RunState.thy ===== *)
theory RunState
  imports Json
begin

text \<open>
  The persistent state of orchestrator runs (\<^verbatim>\<open>obase/orchestrator.py\<close>): checks, run entries and
  run states with their conversions to and from JSON documents, the runbook graph, and the two
  persistence backends behind one interface. A start time is its ISO text; \<open>reread\<close> stands for
  reading such a text back (\<^verbatim>\<open>datetime.fromisoformat\<close>, UTC where no zone is given).
\<close>

section \<open>Checks and runbooks\<close>

datatype check_type = CHECKLIST | COMMAND | PREDICATE | LLM_REVIEW | MANUAL

fun type_value :: "check_type \<Rightarrow> string" where
  "type_value CHECKLIST = ''checklist''"
| "type_value COMMAND = ''command''"
| "type_value PREDICATE = ''predicate''"
| "type_value LLM_REVIEW = ''llm_review''"
| "type_value MANUAL = ''manual''"

definition check_type_of :: "string \<Rightarrow> decode_error + check_type" where
  "check_type_of s =
     (case find (\<lambda>t. type_value t = s) [CHECKLIST, COMMAND, PREDICATE, LLM_REVIEW, MANUAL] of
        None \<Rightarrow> Inl (Value_error s) | Some t \<Rightarrow> Inr t)"

record check =
  c_type :: check_type
  c_payload :: jdict
  c_blocking :: bool
  c_id :: string

definition check_to_dict :: "check \<Rightarrow> json" where
  "check_to_dict c = JDict [(''id'', JStr (c_id c)), (''type'', JStr (type_value (c_type c))),
     (''payload'', JDict (c_payload c)), (''blocking'', JBool (c_blocking c))]"

text \<open>\<open>fresh\<close> is the random id a document without one is given.\<close>

definition check_from_dict :: "string \<Rightarrow> json \<Rightarrow> decode_error + check" where
  "check_from_dict fresh j =
     bindE (as_dict j) (\<lambda>d.
     bindE (need ''type'' (\<lambda>t. bindE (as_str t) check_type_of) d) (\<lambda>t.
     bindE (opt ''payload'' [] as_dict d) (\<lambda>p.
     bindE (opt ''blocking'' True as_bool d) (\<lambda>b.
     bindE (opt ''id'' fresh as_str d) (\<lambda>i.
       Inr \<lparr>c_type = t, c_payload = p, c_blocking = b, c_id = i\<rparr>)))))"

record node =
  n_id :: string
  n_prompt :: string
  n_in_hook :: "string option"
  n_out_hook :: "string option"
  n_before_transfer :: "check list"

record edge =
  from_node :: string
  to_node :: string
  condition :: string
  hook :: "string option"
  max_attempts :: int

record runbook =
  rb_name :: string
  rb_initial :: string
  rb_nodes :: "(string, node) dict"
  rb_edges :: "edge list"
  rb_version :: string

definition runbook_doc :: "runbook \<Rightarrow> json" where
  "runbook_doc rb = JDict
     [(''name'', JStr (rb_name rb)), (''initial'', JStr (rb_initial rb)),
      (''version'', JStr (rb_version rb)),
      (''nodes'', JDict (map (\<lambda>(k, n). (k, JDict
         [(''id'', JStr (n_id n)), (''prompt'', JStr (n_prompt n)),
          (''in_hook'', str_or_null (n_in_hook n)), (''out_hook'', str_or_null (n_out_hook n)),
          (''before_transfer'', JList (map check_to_dict (n_before_transfer n)))])) (rb_nodes rb))),
      (''edges'', JList (map (\<lambda>e. JDict
         [(''from_node'', JStr (from_node e)), (''to_node'', JStr (to_node e)),
          (''condition'', JStr (condition e)), (''hook'', str_or_null (hook e)),
          (''max_attempts'', JInt (max_attempts e))]) (rb_edges rb)))]"

text \<open>\<open>digest\<close> stands for the sorted rendering and the truncated SHA-256 of a document.\<close>

definition content_hash :: "(json \<Rightarrow> string) \<Rightarrow> runbook \<Rightarrow> string" where
  "content_hash digest rb = digest (runbook_doc rb)"

section \<open>Run states\<close>

record run_entry =
  re_entry_id :: string
  re_node_id :: string
  re_entered_at :: rat
  re_checks :: "json list"
  re_dynamic_checks :: "check list"
  re_attempts :: "(string, int) dict"

definition entry_to_dict :: "run_entry \<Rightarrow> json" where
  "entry_to_dict e = JDict
     [(''entry_id'', JStr (re_entry_id e)), (''node_id'', JStr (re_node_id e)),
      (''entered_at'', JFloat (re_entered_at e)), (''checks'', JList (re_checks e)),
      (''dynamic_checks'', JList (map check_to_dict (re_dynamic_checks e))),
      (''attempts'', JDict (map (\<lambda>(k, n). (k, JInt n)) (re_attempts e)))]"

definition int_items :: "jdict \<Rightarrow> decode_error + (string, int) dict" where
  "int_items d = mapE (\<lambda>(k, j). bindE (as_int j) (\<lambda>n. Inr (k, n))) d"

definition entry_from_dict :: "string \<Rightarrow> json \<Rightarrow> decode_error + run_entry" where
  "entry_from_dict fresh j =
     bindE (as_dict j) (\<lambda>d.
     bindE (need ''entry_id'' as_str d) (\<lambda>eid.
     bindE (need ''node_id'' as_str d) (\<lambda>nid.
     bindE (need ''entered_at'' as_float d) (\<lambda>ea.
     bindE (opt ''checks'' [] as_list d) (\<lambda>cs.
     bindE (opt ''dynamic_checks'' [] (\<lambda>j. bindE (as_list j) (mapE (check_from_dict fresh))) d) (\<lambda>dcs.
     bindE (opt ''attempts'' [] (\<lambda>j. bindE (as_dict j) int_items) d) (\<lambda>att.
       Inr \<lparr>re_entry_id = eid, re_node_id = nid, re_entered_at = ea, re_checks = cs,
            re_dynamic_checks = dcs, re_attempts = att\<rparr>)))))))"

text \<open>
  A run state, over the values its data hold: JSON values here; a run of a pipeline may hold others
  until it persists them.
\<close>

record 'v gen_run_state =
  run_id :: string
  pipeline_name :: string
  started_at :: string
  state :: string
  current_stage :: "string option"
  current_stage_index :: int
  paused_at_stage :: "string option"
  data :: "(string, 'v) dict"
  errors :: "json list"
  runbook_hash :: "string option"
  current_node :: "string option"
  current_entry_id :: "string option"
  entries :: "(string, run_entry) dict"
  transitions :: "json list"

type_synonym run_state = "json gen_run_state"

definition to_dict :: "run_state \<Rightarrow> json" where
  "to_dict s = JDict
     [(''run_id'', JStr (run_id s)), (''pipeline_name'', JStr (pipeline_name s)),
      (''started_at'', JStr (started_at s)), (''state'', JStr (state s)),
      (''current_stage'', str_or_null (current_stage s)),
      (''current_stage_index'', JInt (current_stage_index s)),
      (''paused_at_stage'', str_or_null (paused_at_stage s)),
      (''data'', JDict (data s)), (''errors'', JList (errors s)),
      (''runbook_hash'', str_or_null (runbook_hash s)),
      (''current_node'', str_or_null (current_node s)),
      (''current_entry_id'', str_or_null (current_entry_id s)),
      (''entries'', JDict (map (\<lambda>(k, e). (k, entry_to_dict e)) (entries s))),
      (''transitions'', JList (transitions s))]"

definition entry_items :: "string \<Rightarrow> jdict \<Rightarrow> decode_error + (string, run_entry) dict" where
  "entry_items fresh d = mapE (\<lambda>(k, j). bindE (entry_from_dict fresh j) (\<lambda>e. Inr (k, e))) d"

definition started_from :: "(string \<Rightarrow> string option) \<Rightarrow> string \<Rightarrow> decode_error + string" where
  "started_from reread s = (case reread s of None \<Rightarrow> Inl (Value_error s) | Some t \<Rightarrow> Inr t)"

definition from_dict :: "(string \<Rightarrow> string option) \<Rightarrow> string \<Rightarrow> string \<Rightarrow> json \<Rightarrow> decode_error + run_state" where
  "from_dict reread now fresh j =
     bindE (as_dict j) (\<lambda>d.
     bindE (opt ''started_at'' now as_str d) (\<lambda>raw.
     bindE (started_from reread raw) (\<lambda>started.
     bindE (need ''run_id'' as_str d) (\<lambda>rid.
     bindE (need ''pipeline_name'' as_str d) (\<lambda>pn.
     bindE (opt ''state'' ''pending'' as_str d) (\<lambda>st.
     bindE (opt ''current_stage'' None as_str_option d) (\<lambda>cs.
     bindE (opt ''current_stage_index'' 0 as_int d) (\<lambda>ci.
     bindE (opt ''paused_at_stage'' None as_str_option d) (\<lambda>ps.
     bindE (opt ''data'' [] as_dict d) (\<lambda>da.
     bindE (opt ''errors'' [] as_list d) (\<lambda>er.
     bindE (opt ''runbook_hash'' None as_str_option d) (\<lambda>rh.
     bindE (opt ''current_node'' None as_str_option d) (\<lambda>cn.
     bindE (opt ''current_entry_id'' None as_str_option d) (\<lambda>ce.
     bindE (opt ''entries'' [] (\<lambda>j. bindE (as_dict j) (entry_items fresh)) d) (\<lambda>en.
     bindE (opt ''transitions'' [] as_list d) (\<lambda>tr.
       Inr \<lparr>run_id = rid, pipeline_name = pn, started_at = started, state = st,
            current_stage = cs, current_stage_index = ci, paused_at_stage = ps, data = da,
            errors = er, runbook_hash = rh, current_node = cn, current_entry_id = ce,
            entries = en, transitions = tr\<rparr>))))))))))))))))"

section \<open>Round trips\<close>

lemma check_type_round [simp]: "check_type_of (type_value t) = Inr t"
  by (cases t) (simp_all add: check_type_of_def)

lemma check_round [simp]: "check_from_dict fresh (check_to_dict c) = Inr c"
  by (simp add: check_from_dict_def check_to_dict_def need_def opt_def)

lemma int_items_round [simp]: "int_items (map (\<lambda>(k, n). (k, JInt n)) d) = Inr d"
  unfolding int_items_def by (rule mapE_map_id) auto

lemma entry_round [simp]: "entry_from_dict fresh (entry_to_dict e) = Inr e"
  by (simp add: entry_from_dict_def entry_to_dict_def need_def opt_def mapE_map_id)

lemma entry_items_round [simp]: "entry_items fresh (map (\<lambda>(k, e). (k, entry_to_dict e)) d) = Inr d"
  unfolding entry_items_def by (rule mapE_map_id) auto

lemma run_state_round:
  assumes "reread (started_at s) = Some (started_at s)"
  shows "from_dict reread now fresh (to_dict s) = Inr s"
  by (simp add: from_dict_def to_dict_def need_def opt_def started_from_def assms)

section \<open>Persistence backends\<close>

text \<open>
  The operations a run uses of its backend; \<open>env\<close> is the clock reading a save may store. Loading
  answers None for an unknown run and may fail on a document that does not decode.
\<close>

record 'b backend =
  b_exists :: "string \<Rightarrow> 'b \<Rightarrow> bool"
  b_save :: "rat \<Rightarrow> run_state \<Rightarrow> 'b \<Rightarrow> 'b"
  b_load :: "string \<Rightarrow> 'b \<Rightarrow> decode_error + run_state option"

text \<open>The file backend: the \<^verbatim>\<open>run_state.json\<close> documents by run directory.\<close>

type_synonym run_files = "(string, json) dict"

definition file_backend :: "(string \<Rightarrow> string option) \<Rightarrow> run_files backend" where
  "file_backend reread = \<lparr>
     b_exists = (\<lambda>rid fs. dict_get fs rid \<noteq> None),
     b_save = (\<lambda>env s fs. dict_set (run_id s) (to_dict s) fs),
     b_load = (\<lambda>rid fs. case dict_get fs rid of
                 None \<Rightarrow> Inr None
               | Some j \<Rightarrow> bindE (from_dict reread '''' '''' j) (\<lambda>s. Inr (Some s)))\<rparr>"

text \<open>The SQLite backend: one row per run, inserted or replaced.\<close>

record run_row =
  rr_run_id :: string
  rr_state_json :: json
  rr_updated_at :: rat

definition sqlite_save :: "rat \<Rightarrow> run_state \<Rightarrow> run_row list \<Rightarrow> run_row list" where
  "sqlite_save env s rows =
     (if run_id s \<in> rr_run_id ` set rows
      then map (\<lambda>r. if rr_run_id r = run_id s
                    then r\<lparr>rr_state_json := to_dict s, rr_updated_at := env\<rparr> else r) rows
      else rows @ [\<lparr>rr_run_id = run_id s, rr_state_json = to_dict s, rr_updated_at = env\<rparr>])"

definition sqlite_backend :: "(string \<Rightarrow> string option) \<Rightarrow> run_row list backend" where
  "sqlite_backend reread = \<lparr>
     b_exists = (\<lambda>rid rows. find (\<lambda>r. rr_run_id r = rid) rows \<noteq> None),
     b_save = sqlite_save,
     b_load = (\<lambda>rid rows. case find (\<lambda>r. rr_run_id r = rid) rows of
                 None \<Rightarrow> Inr None
               | Some r \<Rightarrow> bindE (from_dict reread '''' '''' (rr_state_json r)) (\<lambda>s. Inr (Some s)))\<rparr>"

text \<open>
  The contract of a backend: what a save returns afterwards, for the saved run and for the
  others, that existence is loadability, and that a saved state is stored under its own id.
\<close>

locale run_state_backend =
  fixes B :: "'b backend" and inv :: "'b \<Rightarrow> bool" and storable :: "run_state \<Rightarrow> bool"
  assumes load_save: "inv st \<Longrightarrow> storable s \<Longrightarrow>
      b_load B rid (b_save B env s st) = (if rid = run_id s then Inr (Some s) else b_load B rid st)"
    and inv_save: "inv st \<Longrightarrow> storable s \<Longrightarrow> inv (b_save B env s st)"
    and exists_load: "inv st \<Longrightarrow> b_exists B rid st \<longleftrightarrow> b_load B rid st \<noteq> Inr None"
    and load_stored: "inv st \<Longrightarrow> b_load B rid st = Inr (Some s) \<Longrightarrow> run_id s = rid \<and> storable s"
    and storable_started: "started_at s = started_at s' \<Longrightarrow> storable s \<longleftrightarrow> storable s'"

definition dated :: "(string \<Rightarrow> string option) \<Rightarrow> run_state \<Rightarrow> bool" where
  "dated reread s \<longleftrightarrow> reread (started_at s) = Some (started_at s)"

definition files_ok :: "(string \<Rightarrow> string option) \<Rightarrow> run_files \<Rightarrow> bool" where
  "files_ok reread fs \<longleftrightarrow>
     (\<forall>k j. dict_get fs k = Some j \<longrightarrow> (\<exists>s. j = to_dict s \<and> run_id s = k \<and> dated reread s))"

definition rows_ok :: "(string \<Rightarrow> string option) \<Rightarrow> run_row list \<Rightarrow> bool" where
  "rows_ok reread rows \<longleftrightarrow>
     (\<forall>r \<in> set rows. \<exists>s. rr_state_json r = to_dict s \<and> run_id s = rr_run_id r \<and> dated reread s)"

lemma from_dict_dated: "dated reread s \<Longrightarrow> from_dict reread now fresh (to_dict s) = Inr s"
  by (rule run_state_round) (simp add: dated_def)

lemma bindE_Some [simp]: "bindE m (\<lambda>s. Inr (Some s)) \<noteq> Inr None"
  by (cases m) auto

lemma find_rowD: "find (\<lambda>r. rr_run_id r = k) rows = Some r \<Longrightarrow> r \<in> set rows \<and> rr_run_id r = k"
  by (auto simp: find_Some_iff)

interpretation file_runs: run_state_backend "file_backend reread" "files_ok reread" "dated reread"
proof unfold_locales
  fix fs and s :: run_state and rid env
  assume fs: "files_ok reread fs" and s: "dated reread s"
  show "b_load (file_backend reread) rid (b_save (file_backend reread) env s fs)
      = (if rid = run_id s then Inr (Some s) else b_load (file_backend reread) rid fs)"
    by (simp add: file_backend_def update_conv' from_dict_dated [OF s])
  show "files_ok reread (b_save (file_backend reread) env s fs)"
    using fs s by (auto simp: files_ok_def file_backend_def update_conv')
next
  fix fs rid
  assume fs: "files_ok reread fs"
  then show "b_exists (file_backend reread) rid fs \<longleftrightarrow> b_load (file_backend reread) rid fs \<noteq> Inr None"
    by (auto simp: file_backend_def files_ok_def from_dict_dated split: option.split)
  fix s
  assume "b_load (file_backend reread) rid fs = Inr (Some s)"
  then obtain j where j: "dict_get fs rid = Some j" "from_dict reread '''' '''' j = Inr s"
    by (auto simp: file_backend_def bindE_Inr split: option.splits)
  with fs obtain s' where "j = to_dict s'" "run_id s' = rid" "dated reread s'"
    by (auto simp: files_ok_def)
  with j(2) show "run_id s = rid \<and> dated reread s" by (simp add: from_dict_dated)
qed (simp add: dated_def)

lemma find_map_update:
  assumes "\<And>r. rr_run_id (f r) = rr_run_id r"
  shows "find (\<lambda>r. rr_run_id r = k) (map f rows) = map_option f (find (\<lambda>r. rr_run_id r = k) rows)"
  by (induction rows) (auto simp: assms)

lemma find_row_append:
  "find P (rows @ [r]) = (case find P rows of Some x \<Rightarrow> Some x | None \<Rightarrow> if P r then Some r else None)"
  by (induction rows) auto

lemma sqlite_save_find:
  "find (\<lambda>r. rr_run_id r = k) (sqlite_save env s rows) =
     (if k = run_id s
      then Some \<lparr>rr_run_id = run_id s, rr_state_json = to_dict s, rr_updated_at = env\<rparr>
      else find (\<lambda>r. rr_run_id r = k) rows)"
proof (cases "run_id s \<in> rr_run_id ` set rows")
  case True
  let ?f = "\<lambda>r. if rr_run_id r = run_id s then r\<lparr>rr_state_json := to_dict s, rr_updated_at := env\<rparr> else r"
  have "find (\<lambda>r. rr_run_id r = k) (map ?f rows) = map_option ?f (find (\<lambda>r. rr_run_id r = k) rows)"
    by (rule find_map_update) simp
  moreover obtain r where "find (\<lambda>r. rr_run_id r = run_id s) rows = Some r"
    using True by (cases "find (\<lambda>r. rr_run_id r = run_id s) rows") (auto simp: find_None_iff)
  moreover from this have "rr_run_id r = run_id s" by (auto simp: find_Some_iff)
  moreover have "map_option ?f (find (\<lambda>r. rr_run_id r = k) rows) = find (\<lambda>r. rr_run_id r = k) rows"
    if "k \<noteq> run_id s"
    using that by (cases "find (\<lambda>r. rr_run_id r = k) rows") (auto dest: find_rowD)
  ultimately show ?thesis using True by (auto simp: sqlite_save_def)
next
  case False
  then have "find (\<lambda>r. rr_run_id r = run_id s) rows = None" by (force simp: find_None_iff)
  with False show ?thesis by (auto simp: sqlite_save_def find_row_append split: option.split)
qed

interpretation sqlite_runs: run_state_backend "sqlite_backend reread" "rows_ok reread" "dated reread"
proof unfold_locales
  fix rows and s :: run_state and rid env
  assume rows: "rows_ok reread rows" and s: "dated reread s"
  show "b_load (sqlite_backend reread) rid (b_save (sqlite_backend reread) env s rows)
      = (if rid = run_id s then Inr (Some s) else b_load (sqlite_backend reread) rid rows)"
    by (simp add: sqlite_backend_def sqlite_save_find from_dict_dated [OF s])
  show "rows_ok reread (b_save (sqlite_backend reread) env s rows)"
    using rows s by (auto simp: rows_ok_def sqlite_backend_def sqlite_save_def)
next
  fix rows rid
  assume rows: "rows_ok reread rows"
  show "b_exists (sqlite_backend reread) rid rows \<longleftrightarrow> b_load (sqlite_backend reread) rid rows \<noteq> Inr None"
    by (simp add: sqlite_backend_def split: option.split)
  fix s
  assume "b_load (sqlite_backend reread) rid rows = Inr (Some s)"
  then obtain r where r: "find (\<lambda>r. rr_run_id r = rid) rows = Some r"
    and d: "from_dict reread '''' '''' (rr_state_json r) = Inr s"
    by (auto simp: sqlite_backend_def bindE_Inr split: option.splits)
  from find_rowD [OF r] have "r \<in> set rows" "rr_run_id r = rid" by simp_all
  with rows d show "run_id s = rid \<and> dated reread s"
    by (auto simp: rows_ok_def from_dict_dated)
qed (simp add: dated_def)

section \<open>Properties\<close>

text \<open>
  A run state survives persistence: decoding the document of a state whose start time reads
  back as itself gives that state, with all its entries, checks and attempt counts.
\<close>

theorem run_state_round_trip:
  assumes "reread (started_at s) = Some (started_at s)"
  shows "from_dict reread now fresh (to_dict s) = Inr s"
  by (rule run_state_round) (rule assms)

theorem run_state_round_trip_witness:
  "from_dict Some ''now'' ''id'' (to_dict \<lparr>run_id = ''r'', pipeline_name = ''p'', started_at = ''t'',
     state = ''running'', current_stage = None, current_stage_index = 0, paused_at_stage = None,
     data = [(''k'', JInt 1)], errors = [], runbook_hash = Some ''h'', current_node = Some ''n'',
     current_entry_id = Some ''e'', entries = [(''e'', \<lparr>re_entry_id = ''e'', re_node_id = ''n'',
     re_entered_at = 1, re_checks = [], re_dynamic_checks = [], re_attempts = [(''n->m'', 2)]\<rparr>)],
     transitions = []\<rparr>)
   = Inr \<lparr>run_id = ''r'', pipeline_name = ''p'', started_at = ''t'',
     state = ''running'', current_stage = None, current_stage_index = 0, paused_at_stage = None,
     data = [(''k'', JInt 1)], errors = [], runbook_hash = Some ''h'', current_node = Some ''n'',
     current_entry_id = Some ''e'', entries = [(''e'', \<lparr>re_entry_id = ''e'', re_node_id = ''n'',
     re_entered_at = 1, re_checks = [], re_dynamic_checks = [], re_attempts = [(''n->m'', 2)]\<rparr>)],
     transitions = []\<rparr>"
  by (rule run_state_round_trip) simp

end
