(* ===== verification/Pipeline.thy ===== *)
theory Pipeline
  imports RunState
begin

text \<open>
  Linear pipelines of \<^verbatim>\<open>obase/orchestrator.py\<close> (\<open>run_pipeline\<close>): stages with input and output
  contracts, retries, pausing, budget failures and resuming from the persisted state. A stage's
  function is a parameter: for an attempt number, an input and its surroundings (whatever it reads and
  changes outside the run), how it ends and the surroundings after it; it does not change its input in
  place. The world holds the document in the run's \<^verbatim>\<open>run_state.json\<close>, the trail events emitted and the
  surroundings.
\<close>

section \<open>Stages and the world\<close>

text \<open>
  A value of a run's data: a JSON value, or another Python value, with the JSON value that
  \<^verbatim>\<open>json.loads(json.dumps(v, default=str))\<close> makes of it: the text of a datetime, a list for a tuple.
\<close>

datatype pyval = Json json | Beyond string json

fun stored_value :: "pyval \<Rightarrow> json" where
  "stored_value (Json j) = j"
| "stored_value (Beyond repr j) = j"

fun is_json :: "pyval \<Rightarrow> bool" where
  "is_json (Json j) = True"
| "is_json (Beyond repr j) = False"

type_synonym pydict = "(string, pyval) dict"

type_synonym live_state = "pyval gen_run_state"

datatype stage_outcome =
    Produced "pydict option"
  | Pause_requested pydict
  | Budget_exceeded string
  | Contract_violated string
  | Failed_with string

record 'u stage =
  s_name :: string
  s_func :: "nat \<Rightarrow> pydict \<Rightarrow> 'u \<Rightarrow> stage_outcome \<times> 'u"
  s_max_retries :: int
  s_input_keys :: "string list option"
  s_output_keys :: "string list option"

datatype trail_event =
    Pipeline_start
  | Stage_start string
  | Stage_error string nat string
  | Stage_done string
  | Pipeline_paused string
  | Pipeline_failed string string
  | Pipeline_done

record 'u world =
  disk :: "json option"
  trail :: "trail_event list"
  surroundings :: 'u

definition with_data :: "(string, 'w) dict \<Rightarrow> 'v gen_run_state \<Rightarrow> 'w gen_run_state" where
  "with_data d s = \<lparr>run_id = run_id s, pipeline_name = pipeline_name s, started_at = started_at s, state = state s,
     current_stage = current_stage s, current_stage_index = current_stage_index s,
     paused_at_stage = paused_at_stage s, data = d, errors = errors s, runbook_hash = runbook_hash s,
     current_node = current_node s, current_entry_id = current_entry_id s, entries = entries s,
     transitions = transitions s\<rparr>"

definition stored_state :: "live_state \<Rightarrow> run_state" where
  "stored_state s = with_data (map (\<lambda>(k, v). (k, stored_value v)) (data s)) s"

definition loaded_state :: "run_state \<Rightarrow> live_state" where
  "loaded_state s = with_data (map (\<lambda>(k, j). (k, Json j)) (data s)) s"

definition save :: "live_state \<Rightarrow> 'u world \<Rightarrow> 'u world" where
  "save s w = w\<lparr>disk := Some (to_dict (stored_state s))\<rparr>"

definition emit_trail :: "trail_event \<Rightarrow> 'u world \<Rightarrow> 'u world" where
  "emit_trail ev w = w\<lparr>trail := trail w @ [ev]\<rparr>"

datatype violation =
    Unexpected_keys string "string list"
  | Missing_keys string "string list"
  | Raised_by_stage string

datatype run_outcome = Returned live_state | Violated violation | No_run_state | Unreadable decode_error

text \<open>A repeated key of the contract stays at its first position.\<close>

definition filter_input :: "pydict \<Rightarrow> string list \<Rightarrow> pydict" where
  "filter_input d keys =
     concat (map (\<lambda>k. case dict_get d k of None \<Rightarrow> [] | Some v \<Rightarrow> [(k, v)]) (rev (remdups (rev keys))))"

definition stage_input :: "'u stage \<Rightarrow> pydict \<Rightarrow> pydict" where
  "stage_input sg d = (case s_input_keys sg of None \<Rightarrow> d | Some keys \<Rightarrow> filter_input d keys)"

definition error_record :: "string \<Rightarrow> nat \<Rightarrow> string \<Rightarrow> json" where
  "error_record nm k e = JDict [(''stage'', JStr nm), (''attempt'', JInt (int k)), (''error'', JStr e)]"

definition budget_record :: "string \<Rightarrow> string \<Rightarrow> json" where
  "budget_record nm e = JDict [(''stage'', JStr nm), (''error'', JStr e), (''type'', JStr ''BudgetExceeded'')]"

section \<open>The retry loop of a stage\<close>

datatype stage_result =
    Result pydict
  | No_result string
  | Stop_paused pydict
  | Stop_budget string
  | Stop_violation string

text \<open>
  \<^verbatim>\<open>while attempts <= stage.max_retries\<close>, with \<open>left\<close> iterations to go; it collects the error
  records and trail events. A function that returns None ends the loop without a result.
\<close>

fun attempt_loop :: "'u stage \<Rightarrow> pydict \<Rightarrow> nat \<Rightarrow> nat \<Rightarrow> string \<Rightarrow> json list \<Rightarrow> trail_event list \<Rightarrow> 'u \<Rightarrow>
    stage_result \<times> json list \<times> trail_event list \<times> 'u" where
  "attempt_loop sg inp attempts 0 exc errs evs u = (No_result exc, errs, evs, u)"
| "attempt_loop sg inp attempts (Suc left) exc errs evs u =
     (case s_func sg attempts inp u of
        (Produced (Some r), u) \<Rightarrow> (Result r, errs, evs, u)
      | (Produced None, u) \<Rightarrow> (No_result exc, errs, evs, u)
      | (Pause_requested d, u) \<Rightarrow> (Stop_paused d, errs, evs, u)
      | (Budget_exceeded e, u) \<Rightarrow> (Stop_budget e, errs, evs, u)
      | (Contract_violated e, u) \<Rightarrow> (Stop_violation e, errs, evs, u)
      | (Failed_with e, u) \<Rightarrow>
          attempt_loop sg inp (Suc attempts) left e
            (errs @ [error_record (s_name sg) (Suc attempts) e])
            (evs @ [Stage_error (s_name sg) (Suc attempts) e]) u)"

definition run_attempts :: "'u stage \<Rightarrow> pydict \<Rightarrow> 'u \<Rightarrow> stage_result \<times> json list \<times> trail_event list \<times> 'u" where
  "run_attempts sg inp u = attempt_loop sg inp 0 (nat (s_max_retries sg + 1)) ''None'' [] [] u"

definition check_outputs :: "'u stage \<Rightarrow> pydict \<Rightarrow> violation option" where
  "check_outputs sg r =
     (case s_output_keys sg of
        None \<Rightarrow> None
      | Some keys \<Rightarrow>
          (let extra = filter (\<lambda>k. k \<notin> set keys) (map fst r);
               missing = filter (\<lambda>k. k \<notin> set (map fst r)) keys
           in if extra \<noteq> [] then Some (Unexpected_keys (s_name sg) (sort (remdups extra)))
              else if missing \<noteq> [] then Some (Missing_keys (s_name sg) (sort (remdups missing)))
              else None))"

section \<open>Running the stages\<close>

text \<open>One iteration of the stage loop: the state and world to go on with, or the end of the run.\<close>

definition run_stage :: "nat \<Rightarrow> 'u stage \<Rightarrow> live_state \<Rightarrow> 'u world \<Rightarrow>
    (run_outcome \<times> 'u world) + (live_state \<times> 'u world)" where
  "run_stage idx sg s w =
     (let s1 = s\<lparr>current_stage := Some (s_name sg), current_stage_index := int idx\<rparr>;
          w1 = emit_trail (Stage_start (s_name sg)) (save s1 w);
          (res, errs, evs, u) = run_attempts sg (stage_input sg (data s1)) (surroundings w1);
          s2 = s1\<lparr>errors := errors s1 @ errs\<rparr>;
          w2 = w1\<lparr>trail := trail w1 @ evs, surroundings := u\<rparr>
      in case res of
           Stop_paused d \<Rightarrow>
             (let s3 = s2\<lparr>data := dict_update (data s2) d, state := ''paused'',
                          paused_at_stage := Some (s_name sg)\<rparr>
              in Inl (Returned s3, emit_trail (Pipeline_paused (s_name sg)) (save s3 w2)))
         | Stop_budget e \<Rightarrow>
             (let s3 = s2\<lparr>state := ''failed'', errors := errors s2 @ [budget_record (s_name sg) e]\<rparr>
              in Inl (Returned s3, emit_trail (Pipeline_failed (s_name sg) e) (save s3 w2)))
         | Stop_violation e \<Rightarrow> Inl (Violated (Raised_by_stage e), w2)
         | No_result e \<Rightarrow>
             (let s3 = s2\<lparr>state := ''failed''\<rparr>
              in Inl (Returned s3, emit_trail (Pipeline_failed (s_name sg) e) (save s3 w2)))
         | Result r \<Rightarrow>
             (case check_outputs sg r of
                Some v \<Rightarrow> Inl (Violated v, w2)
              | None \<Rightarrow>
                  (let s3 = s2\<lparr>data := dict_update (data s2) r\<rparr>
                   in Inr (s3, save s3 (emit_trail (Stage_done (s_name sg)) w2)))))"

fun run_stages :: "nat \<Rightarrow> 'u stage list \<Rightarrow> live_state \<Rightarrow> 'u world \<Rightarrow> run_outcome \<times> 'u world" where
  "run_stages idx [] s w =
     (let s1 = s\<lparr>state := ''completed''\<rparr>
      in (Returned s1, emit_trail Pipeline_done (save s1 w)))"
| "run_stages idx (sg # sgs) s w =
     (case run_stage idx sg s w of
        Inl fin \<Rightarrow> fin
      | Inr (s', w') \<Rightarrow> run_stages (Suc idx) sgs s' w')"

definition fresh_state :: "string \<Rightarrow> string \<Rightarrow> string \<Rightarrow> pydict \<Rightarrow> live_state" where
  "fresh_state rid pname started d = \<lparr>run_id = rid, pipeline_name = pname, started_at = started,
     state = ''running'', current_stage = None, current_stage_index = 0, paused_at_stage = None,
     data = d, errors = [], runbook_hash = None, current_node = None, current_entry_id = None,
     entries = [], transitions = []\<rparr>"

text \<open>\<^verbatim>\<open>range(start, len(stages))\<close> with \<^verbatim>\<open>stages[idx]\<close>; a saved index is never negative.\<close>

definition run_from :: "nat \<Rightarrow> 'u stage list \<Rightarrow> live_state \<Rightarrow> 'u world \<Rightarrow> run_outcome \<times> 'u world" where
  "run_from start stages s w =
     run_stages start (drop start stages) s (emit_trail Pipeline_start (save s w))"

definition load_state :: "(string \<Rightarrow> string option) \<Rightarrow> string \<Rightarrow> 'u world \<Rightarrow> run_outcome + live_state" where
  "load_state reread now w =
     (case disk w of
        None \<Rightarrow> Inl No_run_state
      | Some j \<Rightarrow> (case from_dict reread now '''' j of
            Inl e \<Rightarrow> Inl (Unreadable e)
          | Inr s \<Rightarrow> Inr (loaded_state s)))"

text \<open>\<open>started\<close> is the ISO text of the current time, \<open>reread\<close> reads such a text back.\<close>

definition run_pipeline :: "(string \<Rightarrow> string option) \<Rightarrow> string \<Rightarrow> 'u stage list \<Rightarrow> pydict \<Rightarrow> string \<Rightarrow> bool \<Rightarrow>
    string \<Rightarrow> 'u world \<Rightarrow> run_outcome \<times> 'u world" where
  "run_pipeline reread pname stages initial rid resume started w =
     (if resume
      then (case load_state reread started w of
              Inl out \<Rightarrow> (out, w)
            | Inr s \<Rightarrow>
                run_from (nat (current_stage_index s)) stages
                  (s\<lparr>state := ''running'', paused_at_stage := None\<rparr>) w)
      else run_from 0 stages (fresh_state rid pname started initial) w)"

section \<open>What a run leaves on disk\<close>

lemma save_emit [simp]:
  "disk (save s w) = Some (to_dict (stored_state s))" "disk (emit_trail ev w) = disk w" "disk (w\<lparr>trail := t\<rparr>) = disk w"
  "surroundings (save s w) = surroundings w" "surroundings (emit_trail ev w) = surroundings w"
  "trail (save s w) = trail w" "trail (emit_trail ev w) = trail w @ [ev]"
  by (simp_all add: save_def emit_trail_def)

definition on_disk :: "live_state \<Rightarrow> 'u world \<Rightarrow> bool" where
  "on_disk s w \<longleftrightarrow> disk w = Some (to_dict (stored_state s))"

lemma on_disk_save [simp]:
  "on_disk s (save s w)" "on_disk s (emit_trail ev w) = on_disk s w" "on_disk s (w\<lparr>trail := t\<rparr>) = on_disk s w"
  "on_disk s (w\<lparr>trail := t, surroundings := u\<rparr>) = on_disk s w"
  by (simp_all add: on_disk_def)

lemma run_stage_Inr:
  assumes "run_stage idx sg s w = Inr (s', w')"
  shows "on_disk s' w' \<and> state s' = state s"
  using assms
  by (auto simp: run_stage_def Let_def split: prod.splits stage_result.splits option.splits)

lemma run_stage_Inl:
  assumes "run_stage idx sg s w = Inl (out, w')"
  shows "(\<exists>s'. out = Returned s' \<and> on_disk s' w' \<and> state s' \<in> {''paused'', ''failed''})
    \<or> (\<exists>v s'. out = Violated v \<and> on_disk s' w' \<and> state s' = state s)"
proof -
  let ?s1 = "s\<lparr>current_stage := Some (s_name sg), current_stage_index := int idx\<rparr>"
  have "\<exists>s'. on_disk s' (save ?s1 w) \<and> state s' = state s" by (rule exI [of _ ?s1]) simp
  then show ?thesis
    using assms by (auto simp: run_stage_def Let_def split: prod.splits stage_result.splits option.splits)
qed

lemma run_stages_disk:
  "run_stages idx sgs s w = (out, w') \<Longrightarrow>
    (\<exists>s'. out = Returned s' \<and> on_disk s' w' \<and> state s' \<in> {''completed'', ''paused'', ''failed''})
    \<or> (\<exists>v s'. out = Violated v \<and> on_disk s' w' \<and> state s' = state s)"
proof (induction idx sgs s w rule: run_stages.induct)
  case (1 idx s w)
  then show ?case by (auto simp: Let_def)
next
  case (2 idx sg sgs s w)
  show ?case
  proof (cases "run_stage idx sg s w")
    case (Inl r)
    with 2(2) run_stage_Inl [of idx sg s w out w'] show ?thesis by auto
  next
    case (Inr r)
    then obtain s1 w1 where r: "run_stage idx sg s w = Inr (s1, w1)" by (cases r) simp
    with 2(1) [OF r refl] 2(2) run_stage_Inr [OF r] show ?thesis by simp
  qed
qed

text \<open>A state that differs only in fields the loop overwrites or never reads.\<close>

lemma run_stage_start:
  "run_stage idx sg (s\<lparr>current_stage := a, current_stage_index := b\<rparr>) w = run_stage idx sg s w"
  by (simp add: run_stage_def)

section \<open>Resuming\<close>

lemma load_stored:
  assumes "on_disk s w" and "list_all is_json (map snd (data s))" and "reread (started_at s) = Some (started_at s)"
  shows "load_state reread now w = Inr s"
proof -
  have "map (\<lambda>(k, j). (k, Json j)) (map (\<lambda>(k, v). (k, stored_value v)) d) = d"
    if "list_all is_json (map snd d)" for d :: pydict
    using that by (induction d) (auto elim: is_json.elims)
  with assms(2) have "loaded_state (stored_state s) = s"
    by (simp only: loaded_state_def stored_state_def with_data_def gen_run_state.simps) (cases s, simp)
  moreover have "from_dict reread now '''' (to_dict (stored_state s)) = Inr (stored_state s)"
    using assms(3) by (intro run_state_round) (simp add: stored_state_def with_data_def)
  ultimately show ?thesis using assms(1) by (simp add: load_state_def on_disk_def)
qed

fun run_prefix :: "nat \<Rightarrow> 'u stage list \<Rightarrow> live_state \<Rightarrow> 'u world \<Rightarrow>
    (run_outcome \<times> 'u world) + (live_state \<times> 'u world)" where
  "run_prefix idx [] s w = Inr (s, w)"
| "run_prefix idx (sg # sgs) s w =
     (case run_stage idx sg s w of Inl r \<Rightarrow> Inl r | Inr (s', w') \<Rightarrow> run_prefix (Suc idx) sgs s' w')"

lemma run_stages_split:
  "run_stages idx (xs @ ys) s w =
     (case run_prefix idx xs s w of
        Inl r \<Rightarrow> r | Inr (s', w') \<Rightarrow> run_stages (idx + length xs) ys s' w')"
  by (induction idx xs s w rule: run_prefix.induct) (auto split: sum.split)

lemma run_stage_keeps:
  assumes "run_stage idx sg s w = Inr (s', w')"
  shows "paused_at_stage s' = paused_at_stage s" and "state s' = state s" and "started_at s' = started_at s"
  using assms
  by (auto simp: run_stage_def Let_def split: prod.splits stage_result.splits option.splits)

lemma run_prefix_keeps:
  "run_prefix idx xs s w = Inr (s', w') \<Longrightarrow>
     paused_at_stage s' = paused_at_stage s \<and> state s' = state s \<and> started_at s' = started_at s"
proof (induction idx xs s w rule: run_prefix.induct)
  case (2 idx sg sgs s w)
  from 2(2) obtain s1 w1 where r: "run_stage idx sg s w = Inr (s1, w1)"
    by (auto split: sum.splits)
  with 2(2) have "run_prefix (Suc idx) sgs s1 w1 = Inr (s', w')" by simp
  from 2(1) [OF r refl this] run_stage_keeps [OF r] show ?case by simp
qed simp

lemma run_stage_index:
  "run_stage idx sg s w = Inl (Returned s', w') \<Longrightarrow> current_stage_index s' = int idx"
  by (auto simp: run_stage_def Let_def split: prod.splits stage_result.splits option.splits)

lemma run_prefix_index:
  "run_prefix idx xs s w = Inl (Returned s', w') \<Longrightarrow> current_stage_index s' < int (idx + length xs)"
proof (induction idx xs s w rule: run_prefix.induct)
  case (2 idx sg sgs s w)
  show ?case
  proof (cases "run_stage idx sg s w")
    case (Inl r)
    with 2(2) run_stage_index [of idx sg s w s' w'] show ?thesis by simp
  next
    case (Inr r)
    then obtain s1 w1 where "run_stage idx sg s w = Inr (s1, w1)" by (cases r) simp
    with 2(1) [OF this refl] 2(2) show ?thesis by simp
  qed
qed simp

text \<open>Outcomes depend on the state and the surroundings alone, not on the disk or the trail.\<close>

definition outcome_of :: "(run_outcome \<times> 'u world) + (live_state \<times> 'u world) \<Rightarrow> (run_outcome + live_state) \<times> 'u" where
  "outcome_of r = (case r of Inl (out, w) \<Rightarrow> (Inl out, surroundings w) | Inr (s, w) \<Rightarrow> (Inr s, surroundings w))"

lemma run_stage_world:
  "surroundings w = surroundings w' \<Longrightarrow> outcome_of (run_stage idx sg s w) = outcome_of (run_stage idx sg s w')"
proof -
  assume same: "surroundings w = surroundings w'"
  obtain res errs evs u where a: "run_attempts sg (stage_input sg (data s)) (surroundings w') = (res, errs, evs, u)"
    by (metis prod_cases4)
  show ?thesis
    using a same by (cases res) (simp_all add: outcome_of_def run_stage_def Let_def split: option.split)
qed

lemma run_stages_world:
  "surroundings w = surroundings w' \<Longrightarrow>
     map_prod id surroundings (run_stages idx sgs s w) = map_prod id surroundings (run_stages idx sgs s w')"
proof (induction sgs arbitrary: idx s w w')
  case Nil
  then show ?case by (simp add: Let_def)
next
  case (Cons sg sgs)
  note same = run_stage_world [OF Cons.prems, of idx sg s]
  show ?case
  proof (cases "run_stage idx sg s w")
    case (Inl r)
    then show ?thesis
      using same by (cases r; cases "run_stage idx sg s w'") (auto simp: outcome_of_def split: prod.splits)
  next
    case (Inr r)
    then obtain s1 w1 where r: "run_stage idx sg s w = Inr (s1, w1)" by (cases r) simp
    with same obtain w2 where w2: "run_stage idx sg s w' = Inr (s1, w2)" "surroundings w1 = surroundings w2"
      by (cases "run_stage idx sg s w'") (auto simp: outcome_of_def split: prod.splits)
    show ?thesis using Cons.IH [OF w2(2)] by (simp add: r w2(1))
  qed
qed

definition pauses :: "'u stage \<Rightarrow> bool" where
  "pauses sg \<longleftrightarrow> 0 \<le> s_max_retries sg \<and> (\<forall>inp u. s_func sg 0 inp u = (Pause_requested [], u))"

lemma run_stage_pauses:
  assumes "pauses sg"
  shows "\<exists>w'. run_stage idx sg s w = Inl (Returned (s\<lparr>current_stage := Some (s_name sg),
      current_stage_index := int idx, state := ''paused'', paused_at_stage := Some (s_name sg)\<rparr>), w')
    \<and> surroundings w' = surroundings w"
proof -
  obtain m where "nat (s_max_retries sg + 1) = Suc m"
    using assms by (cases "nat (s_max_retries sg + 1)") (auto simp: pauses_def)
  then have "run_attempts sg inp u = (Stop_paused [], [], [], u)" for inp u
    using assms by (simp add: run_attempts_def pauses_def)
  then show ?thesis by (simp add: run_stage_def Let_def dict_update_def)
qed

lemma run_stages_start:
  "sgs \<noteq> [] \<Longrightarrow> run_stages idx sgs (s\<lparr>current_stage := a, current_stage_index := b\<rparr>) w = run_stages idx sgs s w"
  by (cases sgs) (simp_all add: run_stage_start)

text \<open>The stages a part of the trail says were started: a run starts stages in order, none twice.\<close>

definition started_stages :: "trail_event list \<Rightarrow> string list" where
  "started_stages evs = concat (map (\<lambda>ev. case ev of Stage_start n \<Rightarrow> [n] | _ \<Rightarrow> []) evs)"

lemma started_simps [simp]:
  "started_stages [] = []" "started_stages (xs @ ys) = started_stages xs @ started_stages ys"
  "started_stages (ev # evs) = (case ev of Stage_start n \<Rightarrow> [n] | _ \<Rightarrow> []) @ started_stages evs"
  by (simp_all add: started_stages_def)

lemma attempts_start_nothing:
  "attempt_loop sg inp n left exc errs evs u = (res, errs', evs', u') \<Longrightarrow> started_stages evs = [] \<Longrightarrow> started_stages evs' = []"
  by (induction sg inp n left exc errs evs u rule: attempt_loop.induct)
    (auto split: prod.splits stage_outcome.splits option.splits)

lemma run_stage_trail:
  assumes "outcome_of (run_stage idx sg s w) = (r, u)"
  shows "\<exists>evs. trail (case run_stage idx sg s w of Inl (_, w') \<Rightarrow> w' | Inr (_, w') \<Rightarrow> w') = trail w @ evs
    \<and> started_stages evs = [s_name sg]"
proof -
  obtain res errs evs u' where a: "run_attempts sg (stage_input sg (data s)) (surroundings w) = (res, errs, evs, u')"
    by (metis prod_cases4)
  then have "started_stages evs = []" by (auto simp: run_attempts_def dest: attempts_start_nothing)
  then show ?thesis
    using a by (cases res; cases "\<exists>r. res = Result r \<and> check_outputs sg r = None")
      (auto simp: run_stage_def Let_def split: option.split)
qed

lemma run_stages_trail:
  "\<exists>evs n. trail (snd (run_stages idx sgs s w)) = trail w @ evs \<and> started_stages evs = take n (map s_name sgs)"
proof (induction sgs arbitrary: idx s w)
  case Nil
  then show ?case by (simp add: Let_def)
next
  case (Cons sg sgs)
  obtain r u where "outcome_of (run_stage idx sg s w) = (r, u)" by fastforce
  from run_stage_trail [OF this] obtain evs
    where e: "trail (case run_stage idx sg s w of Inl (_, w') \<Rightarrow> w' | Inr (_, w') \<Rightarrow> w') = trail w @ evs"
      "started_stages evs = [s_name sg]" by blast
  show ?case
  proof (cases "run_stage idx sg s w")
    case (Inl r)
    with e have "trail (snd (run_stages idx (sg # sgs) s w)) = trail w @ evs"
      by (auto split: prod.splits)
    moreover have "started_stages evs = take 1 (map s_name (sg # sgs))" using e by simp
    ultimately show ?thesis by blast
  next
    case (Inr r)
    then obtain s1 w1 where r: "run_stage idx sg s w = Inr (s1, w1)" by (cases r) simp
    from Cons [of "Suc idx" s1 w1] obtain evs' n
      where "trail (snd (run_stages (Suc idx) sgs s1 w1)) = trail w1 @ evs'" "started_stages evs' = take n (map s_name sgs)"
      by blast
    with e r have "trail (snd (run_stages idx (sg # sgs) s w)) = trail w @ (evs @ evs')"
      "started_stages (evs @ evs') = take (Suc n) (map s_name (sg # sgs))" by simp_all
    then show ?thesis by blast
  qed
qed

lemma run_pipeline_runs:
  assumes "run_pipeline reread pname stages initial rid resume started w = (out, w')"
  shows "(resume \<and> load_state reread started w = Inl out \<and> w' = w)
    \<or> (\<exists>k s w0. run_stages k (drop k stages) s w0 = (out, w') \<and> state s = ''running'')"
proof (cases resume)
  case True
  show ?thesis
  proof (cases "load_state reread started w")
    case (Inl e)
    with True assms show ?thesis by (simp add: run_pipeline_def)
  next
    case (Inr s)
    with True assms have "run_stages (nat (current_stage_index s)) (drop (nat (current_stage_index s)) stages)
        (s\<lparr>state := ''running'', paused_at_stage := None\<rparr>)
        (emit_trail Pipeline_start (save (s\<lparr>state := ''running'', paused_at_stage := None\<rparr>) w)) = (out, w')"
      by (simp add: run_pipeline_def run_from_def)
    moreover have "state (s\<lparr>state := ''running'', paused_at_stage := None\<rparr>) = ''running''" by simp
    ultimately show ?thesis by blast
  qed
next
  case False
  with assms have "run_stages 0 (drop 0 stages) (fresh_state rid pname started initial)
      (emit_trail Pipeline_start (save (fresh_state rid pname started initial) w)) = (out, w')"
    by (simp add: run_pipeline_def run_from_def)
  moreover have "state (fresh_state rid pname started initial) = ''running''"
    by (simp add: fresh_state_def)
  ultimately show ?thesis by blast
qed

section \<open>Properties\<close>

text \<open>
  What a run returns is what it persisted: the document on disk is that of the returned state, which is
  completed, paused or failed; when a contract violation is raised instead, the disk still holds
  a state marked running; a resume without a readable document changes nothing.
\<close>

theorem pipeline_persists:
  assumes "run_pipeline reread pname stages initial rid resume started w = (out, w')"
  shows "(\<exists>s. out = Returned s \<and> disk w' = Some (to_dict (stored_state s))
        \<and> state s \<in> {''completed'', ''paused'', ''failed''})
    \<or> (\<exists>v s. out = Violated v \<and> disk w' = Some (to_dict (stored_state s)) \<and> state s = ''running'')
    \<or> (resume \<and> load_state reread started w = Inl out \<and> w' = w)"
  using run_pipeline_runs [OF assms]
proof (elim disjE exE conjE)
  fix k s w0
  assume "run_stages k (drop k stages) s w0 = (out, w')" "state s = ''running''"
  with run_stages_disk [OF this(1)] show ?thesis unfolding on_disk_def by auto
qed simp

definition ex_world :: "unit world" where
  "ex_world = \<lparr>disk = None, trail = [], surroundings = ()\<rparr>"

theorem pipeline_persists_witness:
  "disk (snd (run_pipeline Some ''p'' [] [(''k'', Json (JInt 1))] ''r'' False ''t'' ex_world))
    = Some (to_dict (stored_state ((fresh_state ''r'' ''p'' ''t'' [(''k'', Json (JInt 1))])\<lparr>state := ''completed''\<rparr>)))"
proof -
  obtain out w' where r: "run_pipeline Some ''p'' [] [(''k'', Json (JInt 1))] ''r'' False ''t'' ex_world = (out, w')"
    by fastforce
  then have "out = Returned ((fresh_state ''r'' ''p'' ''t'' [(''k'', Json (JInt 1))])\<lparr>state := ''completed''\<rparr>)"
    by (auto simp: run_pipeline_def run_from_def Let_def)
  with pipeline_persists [OF r] r show ?thesis by auto
qed

text \<open>
  C13. Pausing is transparent: a run whose stage \<open>k\<close> pauses without resume data, resumed later with
  the stages that do not pause and nothing else changed, ends with the outcome of the uninterrupted run
  and leaves the surroundings as that run does, and the resumed run starts only stages from \<open>k\<close> on, in
  order: the finished ones are not run again. What the disk holds in between is the JSON document of
  the state; the data at the pause are JSON values (\<open>resume_changes_objects\<close> below shows others come
  back changed), and the start time reads back as written.
\<close>

theorem resume_transparent:
  assumes "k < length stages" and "pauses sg" and "reread started = Some started"
    and "run_pipeline reread pname (stages[k := sg]) initial rid False started w = (Returned s1, w1)"
    and "current_stage_index s1 = int k" and "list_all is_json (map snd (data s1))"
    and "run_pipeline reread pname stages initial' rid' True started' w1 = (resumed, w2)"
    and "run_pipeline reread pname stages initial rid False started w = (uninterrupted, w3)"
  shows "resumed = uninterrupted \<and> surroundings w2 = surroundings w3
    \<and> (\<exists>evs n. trail w2 = trail w1 @ evs \<and> started_stages evs = take n (map s_name (drop k stages)))"
proof -
  let ?s0 = "fresh_state rid pname started initial" and ?pre = "take k stages"
  define w0 where "w0 = emit_trail Pipeline_start (save ?s0 w)"
  have split: "stages[k := sg] = ?pre @ sg # drop (Suc k) stages" "stages = ?pre @ drop k stages"
    using assms(1) by (simp_all add: upd_conv_take_nth_drop)
  have len: "length ?pre = k" using assms(1) by simp
  from assms(4) have run: "run_stages 0 (?pre @ sg # drop (Suc k) stages) ?s0 w0 = (Returned s1, w1)"
    by (simp add: run_pipeline_def run_from_def w0_def split(1) [symmetric])
  have full: "run_stages 0 (?pre @ drop k stages) ?s0 w0 = (uninterrupted, w3)"
    using assms(8) by (simp add: run_pipeline_def run_from_def w0_def)
  show ?thesis
  proof (cases "run_prefix 0 ?pre ?s0 w0")
    case (Inl r)
    with run have "run_prefix 0 ?pre ?s0 w0 = Inl (Returned s1, w1)" by (simp add: run_stages_split)
    from run_prefix_index [OF this] assms(5) len show ?thesis by simp
  next
    case (Inr r)
    then obtain s' w' where p: "run_prefix 0 ?pre ?s0 w0 = Inr (s', w')" by (cases r) simp
    from run_prefix_keeps [OF p] have s': "paused_at_stage s' = None" "state s' = ''running''" "started_at s' = started"
      by (simp_all add: fresh_state_def)
    from run p len have at_k: "run_stages k (sg # drop (Suc k) stages) s' w' = (Returned s1, w1)"
      by (simp only: run_stages_split sum.case prod.case len add_0)
    with run_stage_pauses [OF assms(2), of k s' w'] have s1: "s1 = s'\<lparr>current_stage := Some (s_name sg),
      current_stage_index := int k, state := ''paused'', paused_at_stage := Some (s_name sg)\<rparr>"
      and u: "surroundings w1 = surroundings w'" by auto
    have "on_disk s1 w1" using run_stages_disk [OF at_k] by auto
    from load_stored [OF this assms(6)] have load: "load_state reread started' w1 = Inr s1"
      using assms(3) s'(3) by (simp add: s1)
    have again: "s1\<lparr>state := ''running'', paused_at_stage := None\<rparr>
        = s'\<lparr>current_stage := Some (s_name sg), current_stage_index := int k\<rparr>"
      using s' by (cases s') (simp add: s1)
    let ?w = "emit_trail Pipeline_start (save (s1\<lparr>state := ''running'', paused_at_stage := None\<rparr>) w1)"
    have res: "run_stages k (drop k stages) s' ?w = (resumed, w2)"
      using assms(1,5,7) load again run_stages_start [where sgs = "drop k stages" and idx = k and s = s' and w = ?w]
      by (simp add: run_pipeline_def run_from_def)
    have "run_stages k (drop k stages) s' w' = (uninterrupted, w3)"
      using full by (simp only: run_stages_split p sum.case prod.case len add_0)
    with run_stages_world [of ?w w' k "drop k stages" s'] res u
    have "resumed = uninterrupted \<and> surroundings w2 = surroundings w3" by simp
    moreover obtain evs n where "trail w2 = trail ?w @ evs" "started_stages evs = take n (map s_name (drop k stages))"
      using run_stages_trail [of k "drop k stages" s' ?w] by (auto simp: res)
    then have "trail w2 = trail w1 @ (Pipeline_start # evs) \<and>
        started_stages (Pipeline_start # evs) = take n (map s_name (drop k stages))" by simp
    ultimately show ?thesis by blast
  qed
qed

text \<open>Two stages; each counts how often it ran, and the second hands on what the first produced.\<close>

definition count_stage :: "string \<Rightarrow> (pydict \<Rightarrow> pydict) \<Rightarrow> nat stage" where
  "count_stage nm f = \<lparr>s_name = nm, s_func = (\<lambda>_ d n. (Produced (Some (f d)), Suc n)), s_max_retries = 0,
     s_input_keys = None, s_output_keys = None\<rparr>"

definition pause_stage :: "nat stage" where
  "pause_stage = \<lparr>s_name = ''b'', s_func = (\<lambda>_ _ n. (Pause_requested [], n)), s_max_retries = 0,
     s_input_keys = None, s_output_keys = None\<rparr>"

definition hand_on :: "pydict \<Rightarrow> pydict" where
  "hand_on d = [(''y'', case dict_get d ''x'' of None \<Rightarrow> Json JNull | Some v \<Rightarrow> v)]"

definition two_stages :: "pyval \<Rightarrow> nat stage list" where
  "two_stages v = [count_stage ''a'' (\<lambda>_. [(''x'', v)]), count_stage ''b'' hand_on]"

definition nat_world :: "nat world" where
  "nat_world = \<lparr>disk = None, trail = [], surroundings = 0\<rparr>"

lemmas ex_runs = two_stages_def count_stage_def pause_stage_def hand_on_def nat_world_def run_pipeline_def run_from_def
  run_stage_def run_attempts_def stage_input_def check_outputs_def dict_update_def fresh_state_def emit_trail_def save_def Let_def

theorem resume_transparent_witness:
  "\<exists>s1 w1 s2 w2. run_pipeline Some ''p'' ((two_stages (Json (JInt 1)))[1 := pause_stage]) [] ''r'' False ''t'' nat_world
        = (Returned s1, w1)
    \<and> run_pipeline Some ''p'' (two_stages (Json (JInt 1))) [] ''r'' True ''t'' w1 = (Returned s2, w2)
    \<and> dict_get (data s2) ''y'' = Some (Json (JInt 1)) \<and> surroundings w2 = 2"
proof -
  let ?st = "two_stages (Json (JInt 1))"
  obtain s1 w1 where r: "run_pipeline Some ''p'' (?st[1 := pause_stage]) [] ''r'' False ''t'' nat_world = (Returned s1, w1)"
    and i: "current_stage_index s1 = int 1" and d: "list_all is_json (map snd (data s1))"
    by (simp add: ex_runs)
  obtain s w where u: "run_pipeline Some ''p'' ?st [] ''r'' False ''t'' nat_world = (Returned s, w)"
    and s: "dict_get (data s) ''y'' = Some (Json (JInt 1))" "surroundings w = 2"
    by (simp add: ex_runs numeral_2_eq_2)
  obtain out w2 where r2: "run_pipeline Some ''p'' ?st [] ''r'' True ''t'' w1 = (out, w2)" by fastforce
  have "1 < length ?st" "pauses pause_stage" by (simp_all add: two_stages_def pauses_def pause_stage_def)
  from resume_transparent [OF this refl r i d r2 u] r r2 s show ?thesis by auto
qed

text \<open>A datetime in the data is a text after the pause, so the resumed run ends with other data.\<close>

lemma resume_changes_objects:
  "let v = Beyond ''datetime(2026, 1, 1)'' (JStr ''2026-01-01 00:00:00'');
       (out, w1) = run_pipeline Some ''p'' ((two_stages v)[1 := pause_stage]) [] ''r'' False ''t'' nat_world
   in (case run_pipeline Some ''p'' (two_stages v) [] ''r'' True ''t'' w1 of
         (Returned s, _) \<Rightarrow> dict_get (data s) ''y'' = Some (Json (JStr ''2026-01-01 00:00:00'')) | _ \<Rightarrow> False)
      \<and> (case run_pipeline Some ''p'' (two_stages v) [] ''r'' False ''t'' nat_world of
         (Returned s, _) \<Rightarrow> dict_get (data s) ''y'' = Some v | _ \<Rightarrow> False)"
  by (simp add: ex_runs load_state_def run_state_round stored_state_def with_data_def loaded_state_def)

end
