(* ===== verification/Runbook.thy ===== *)
theory Runbook
  imports RunState
begin

text \<open>
  Runbook-driven runs of \<^verbatim>\<open>obase/orchestrator.py\<close>: starting or resuming a run, the current node,
  guarded transitions, dynamic checks and the history. The check and hook runners are parameters
  that may raise, as is the failure recorder; random ids and clock readings are arguments. An
  exception of any other than the recorder ends an operation before its save, so the store it
  returns is the unchanged one.
\<close>

section \<open>Operations\<close>

datatype 'x run_error =
    File_not_found string
  | Hash_mismatch "string option" string
  | Decode_failed decode_error
  | Missing_key string
  | Runner_raised 'x
  | Recorder_raised 'x

definition require_state :: "'b backend \<Rightarrow> string \<Rightarrow> 'b \<Rightarrow> 'x run_error + run_state" where
  "require_state B rid st =
     (case b_load B rid st of
        Inl e \<Rightarrow> Inl (Decode_failed e)
      | Inr None \<Rightarrow> Inl (File_not_found rid)
      | Inr (Some s) \<Rightarrow> Inr s)"

definition new_entry :: "string \<Rightarrow> string \<Rightarrow> rat \<Rightarrow> run_entry" where
  "new_entry eid nid now = \<lparr>re_entry_id = eid, re_node_id = nid, re_entered_at = now, re_checks = [],
     re_dynamic_checks = [], re_attempts = []\<rparr>"

definition start_runbook :: "(json \<Rightarrow> string) \<Rightarrow> 'b backend \<Rightarrow> runbook \<Rightarrow> string option \<Rightarrow> bool \<Rightarrow>
    string \<Rightarrow> string \<Rightarrow> string \<Rightarrow> rat \<Rightarrow> 'b \<Rightarrow> 'b \<times> ('x run_error + run_state)" where
  "start_runbook digest B rb run resume fresh_run entry_id iso_now now st =
     (let rid = (case run of None \<Rightarrow> fresh_run | Some r \<Rightarrow> if r = '''' then fresh_run else r)
      in if resume \<and> b_exists B rid st
         then (case require_state B rid st of
                 Inl e \<Rightarrow> (st, Inl e)
               | Inr s \<Rightarrow>
                   if runbook_hash s = Some (content_hash digest rb) then (st, Inr s)
                   else (st, Inl (Hash_mismatch (runbook_hash s) (content_hash digest rb))))
         else
           (let s = \<lparr>run_id = rid, pipeline_name = rb_name rb, started_at = iso_now,
                     state = ''running'', current_stage = None, current_stage_index = 0,
                     paused_at_stage = None, data = [], errors = [],
                     runbook_hash = Some (content_hash digest rb),
                     current_node = Some (rb_initial rb), current_entry_id = Some entry_id,
                     entries = [(entry_id, new_entry entry_id (rb_initial rb) now)],
                     transitions = []\<rparr>
            in (b_save B now s st, Inr s)))"

definition out_edges :: "runbook \<Rightarrow> string option \<Rightarrow> edge list" where
  "out_edges rb cur = filter (\<lambda>e. Some (from_node e) = cur) (rb_edges rb)"

record current_view =
  v_node :: "string option"
  v_entry_id :: "string option"
  v_prompt :: string
  v_state :: string
  v_allowed_next :: "string list"

definition lookup_node :: "runbook \<Rightarrow> string option \<Rightarrow> 'x run_error + node" where
  "lookup_node rb k =
     (case k of
        None \<Rightarrow> Inl (Missing_key ''None'')
      | Some k \<Rightarrow> (case dict_get (rb_nodes rb) k of None \<Rightarrow> Inl (Missing_key k) | Some n \<Rightarrow> Inr n))"

definition lookup_entry :: "run_state \<Rightarrow> 'x run_error + run_entry" where
  "lookup_entry s =
     (case current_entry_id s of
        None \<Rightarrow> Inl (Missing_key ''None'')
      | Some k \<Rightarrow> (case dict_get (entries s) k of None \<Rightarrow> Inl (Missing_key k) | Some e \<Rightarrow> Inr e))"

definition runbook_current :: "'b backend \<Rightarrow> runbook \<Rightarrow> string \<Rightarrow> 'b \<Rightarrow> 'x run_error + current_view" where
  "runbook_current B rb rid st =
     bindE (require_state B rid st) (\<lambda>s.
     bindE (lookup_node rb (current_node s)) (\<lambda>n.
       Inr \<lparr>v_node = current_node s, v_entry_id = current_entry_id s, v_prompt = n_prompt n,
            v_state = state s, v_allowed_next = map to_node (out_edges rb (current_node s))\<rparr>))"

text \<open>The loop over the checks of a transition: it stops at a failed blocking check.\<close>

datatype 'x check_outcome =
    All_passed "json list"
  | Check_failed jdict "json list"
  | Check_raised 'x

definition check_record :: "check \<Rightarrow> jdict \<Rightarrow> json" where
  "check_record c result =
     JDict (dict_update [(''check_id'', JStr (c_id c)), (''type'', JStr (type_value (c_type c)))] result)"

definition passed :: "jdict \<Rightarrow> bool" where
  "passed result = (case dict_get result ''passed'' of None \<Rightarrow> False | Some j \<Rightarrow> truthy j)"

fun run_checks :: "(check \<Rightarrow> jdict \<Rightarrow> 'x + jdict) \<Rightarrow> jdict \<Rightarrow> check list \<Rightarrow> json list \<Rightarrow> 'x check_outcome" where
  "run_checks runner ctx [] acc = All_passed acc"
| "run_checks runner ctx (c # cs) acc =
     (case runner c ctx of
        Inl x \<Rightarrow> Check_raised x
      | Inr result \<Rightarrow>
          if c_blocking c \<and> \<not> passed result then Check_failed result (acc @ [check_record c result])
          else run_checks runner ctx cs (acc @ [check_record c result]))"

text \<open>Hooks in the order the code calls them; the first exception ends the operation.\<close>

fun run_hooks :: "(string \<Rightarrow> jdict \<Rightarrow> 'x option) \<Rightarrow> (string option \<times> jdict) list \<Rightarrow> 'x option" where
  "run_hooks runner [] = None"
| "run_hooks runner ((h, ctx) # hs) =
     (case h of
        None \<Rightarrow> run_hooks runner hs
      | Some name \<Rightarrow>
          if name = '''' then run_hooks runner hs
          else case runner name ctx of Some x \<Rightarrow> Some x | None \<Rightarrow> run_hooks runner hs)"

definition run_hooks_if :: "(string \<Rightarrow> jdict \<Rightarrow> 'x option) option \<Rightarrow> (string option \<times> jdict) list \<Rightarrow> 'x option" where
  "run_hooks_if runner hs = (case runner of None \<Rightarrow> None | Some r \<Rightarrow> run_hooks r hs)"

datatype response =
    Invalid_state string
  | No_edge "string option" string
  | Blocked
  | Transfer_failed jdict string "json list"
  | Moved string string string string

definition transition_record :: "string \<Rightarrow> string \<Rightarrow> string \<Rightarrow> string \<Rightarrow> json list \<Rightarrow> rat \<Rightarrow> json" where
  "transition_record frm target from_entry to_entry checks ts = JDict
     [(''from'', JStr frm), (''to'', JStr target), (''from_entry'', JStr from_entry),
      (''to_entry'', JStr to_entry), (''checks'', JList checks), (''ts'', JFloat ts)]"

definition edge_key :: "edge \<Rightarrow> string" where
  "edge_key e = from_node e @ ''->'' @ to_node e"

record 'x goto_env =
  ge_checks :: "check \<Rightarrow> jdict \<Rightarrow> 'x + jdict"
  ge_hooks :: "(string \<Rightarrow> jdict \<Rightarrow> 'x option) option"
  ge_agent :: jdict
  ge_causal :: "(string \<Rightarrow> json \<Rightarrow> jdict \<Rightarrow> 'x option) option"
  ge_entry_id :: string
  ge_now :: rat

text \<open>A causal store with a \<open>record_failure\<close> method is told of a failed blocking check, after the save.\<close>

definition record_failure :: "'x goto_env \<Rightarrow> string \<Rightarrow> jdict \<Rightarrow> 'x option" where
  "record_failure env nid result =
     (case ge_causal env of
        None \<Rightarrow> None
      | Some f \<Rightarrow> f nid (case dict_get result ''message'' of None \<Rightarrow> JStr '''' | Some m \<Rightarrow> m) result)"

definition set_entry :: "string \<Rightarrow> run_entry \<Rightarrow> run_state \<Rightarrow> run_state" where
  "set_entry k e s = s\<lparr>entries := dict_set k e (entries s)\<rparr>"

text \<open>The transition proper, once the checks have passed.\<close>

definition take_edge :: "runbook \<Rightarrow> 'x goto_env \<Rightarrow> string \<Rightarrow> edge \<Rightarrow> node \<Rightarrow> string \<Rightarrow> json list \<Rightarrow>
    run_state \<Rightarrow> 'x run_error + run_state \<times> node" where
  "take_edge rb env rid e n old_entry results s =
     (case run_hooks_if (ge_hooks env)
             [(n_out_hook n, [(''run_id'', JStr rid), (''to'', JStr (to_node e))]),
              (hook e, [(''run_id'', JStr rid)])] of
        Some x \<Rightarrow> Inl (Runner_raised x)
      | None \<Rightarrow>
          (let eid = ge_entry_id env;
               s1 = set_entry eid (new_entry eid (to_node e) (ge_now env))
                      (s\<lparr>transitions := transitions s @
                          [transition_record (from_node e) (to_node e) old_entry eid results (ge_now env)],
                         current_node := Some (to_node e), current_entry_id := Some eid\<rparr>)
           in bindE (lookup_node rb (Some (to_node e))) (\<lambda>tn.
              case run_hooks_if (ge_hooks env)
                     [(n_in_hook tn, [(''run_id'', JStr rid), (''node'', JStr (to_node e))])] of
                Some x \<Rightarrow> Inl (Runner_raised x)
              | None \<Rightarrow>
                  Inr (if out_edges rb (Some (to_node e)) = [] then s1\<lparr>state := ''completed''\<rparr> else s1, tn))))"

definition check_ctx :: "string \<Rightarrow> string \<Rightarrow> jdict \<Rightarrow> jdict" where
  "check_ctx rid nid agent = [(''run_id'', JStr rid), (''node'', JStr nid), (''agent'', JDict agent)]"

definition runbook_goto :: "'b backend \<Rightarrow> runbook \<Rightarrow> string \<Rightarrow> string \<Rightarrow> 'x goto_env \<Rightarrow> 'b \<Rightarrow>
    'b \<times> ('x run_error + response)" where
  "runbook_goto B rb rid target env st =
     (case require_state B rid st of
        Inl err \<Rightarrow> (st, Inl err)
      | Inr s \<Rightarrow>
          if state s \<noteq> ''running'' then (st, Inr (Invalid_state (state s)))
          else case find (\<lambda>e. Some (from_node e) = current_node s \<and> to_node e = target) (rb_edges rb) of
            None \<Rightarrow> (st, Inr (No_edge (current_node s) target))
          | Some e \<Rightarrow>
              (case lookup_entry s of
                 Inl err \<Rightarrow> (st, Inl err)
               | Inr entry \<Rightarrow>
                   (let eid = the (current_entry_id s);
                        n_att = (case dict_get (re_attempts entry) (edge_key e) of None \<Rightarrow> 0 | Some n \<Rightarrow> n)
                    in if n_att \<ge> max_attempts e
                       then (b_save B (ge_now env) (s\<lparr>state := ''blocked''\<rparr>) st, Inr Blocked)
                       else case lookup_node rb (current_node s) of
                              Inl err \<Rightarrow> (st, Inl err)
                            | Inr n \<Rightarrow>
                                (case run_checks (ge_checks env)
                                        (check_ctx rid (from_node e) (ge_agent env))
                                        (n_before_transfer n @ re_dynamic_checks entry) [] of
                                   Check_raised x \<Rightarrow> (st, Inl (Runner_raised x))
                                 | Check_failed result results \<Rightarrow>
                                     (b_save B (ge_now env)
                                        (set_entry eid
                                           (entry\<lparr>re_attempts := dict_set (edge_key e) (n_att + 1) (re_attempts entry),
                                                  re_checks := re_checks entry @ results\<rparr>) s) st,
                                      case record_failure env (from_node e) result of
                                        Some x \<Rightarrow> Inl (Recorder_raised x)
                                      | None \<Rightarrow> Inr (Transfer_failed result (from_node e) results))
                                 | All_passed results \<Rightarrow>
                                     (case take_edge rb env rid e n eid results s of
                                        Inl err \<Rightarrow> (st, Inl err)
                                      | Inr (s', tn) \<Rightarrow>
                                          (b_save B (ge_now env) s' st,
                                           Inr (Moved (from_node e) target (ge_entry_id env) (n_prompt tn))))))))"

definition register_dynamic_check :: "'b backend \<Rightarrow> rat \<Rightarrow> string \<Rightarrow> check \<Rightarrow> 'b \<Rightarrow>
    'b \<times> ('x run_error + unit)" where
  "register_dynamic_check B now rid c st =
     (case require_state B rid st of
        Inl err \<Rightarrow> (st, Inl err)
      | Inr s \<Rightarrow>
          (case lookup_entry s of
             Inl err \<Rightarrow> (st, Inl err)
           | Inr e \<Rightarrow>
               (b_save B now (set_entry (the (current_entry_id s))
                  (e\<lparr>re_dynamic_checks := re_dynamic_checks e @ [c]\<rparr>) s) st, Inr ())))"

text \<open>\<^verbatim>\<open>xs[-tail:]\<close>: a tail of zero is the whole list, a negative one drops from the front.\<close>

definition slice_tail :: "int \<Rightarrow> 'a list \<Rightarrow> 'a list" where
  "slice_tail tail xs =
     (if tail > 0 then drop (length xs - nat tail) xs else drop (nat (- tail)) xs)"

definition runbook_history :: "'b backend \<Rightarrow> string \<Rightarrow> int \<Rightarrow> 'b \<Rightarrow> 'x run_error + json list" where
  "runbook_history B rid tail st =
     bindE (require_state B rid st) (\<lambda>s. Inr (slice_tail tail (transitions s)))"

section \<open>Trajectories of finished runs\<close>

definition TERMINAL_STATES :: "string list" where
  "TERMINAL_STATES = [''completed'', ''blocked'']"

definition trajectory_body :: "run_state \<Rightarrow> json" where
  "trajectory_body s = JDict
     [(''run_id'', JStr (run_id s)), (''pipeline_name'', JStr (pipeline_name s)),
      (''runbook_hash'', str_or_null (runbook_hash s)), (''state'', JStr (state s)),
      (''transitions'', JList (transitions s))]"

text \<open>What \<open>project_run_trajectory\<close> writes: the address, the body and the abstract.\<close>

definition project_run_trajectory :: "string \<Rightarrow> run_state \<Rightarrow> string \<times> json \<times> string" where
  "project_run_trajectory user s =
     (''3o://user/'' @ user @ ''/memories/trajectories/'' @ run_id s, trajectory_body s,
      ''Run '' @ run_id s @ '': '' @ [CHR 0x27] @ take 60 (pipeline_name s) @ [CHR 0x27] @ '' ended '' @ state s
        @ '' after '' @ str_nat (length (transitions s)) @ '' transitions.'')"

definition project_if_terminal :: "bool \<Rightarrow> run_state \<Rightarrow> (string \<times> json \<times> string) option" where
  "project_if_terminal has_context s =
     (if \<not> has_context \<or> state s \<notin> set TERMINAL_STATES then None
      else Some (project_run_trajectory ''veya'' s))"

section \<open>The run invariant\<close>

text \<open>
  \<open>path_end\<close> follows the recorded transitions along the runbook's edges from a node; it is None
  when a record does not continue the path.
\<close>

fun path_end :: "runbook \<Rightarrow> string \<Rightarrow> json list \<Rightarrow> string option" where
  "path_end rb n [] = Some n"
| "path_end rb n (JDict d # ts) =
     (case (dict_get d ''from'', dict_get d ''to'') of
        (Some (JStr a), Some (JStr b)) \<Rightarrow>
          if a = n \<and> (a, b) \<in> (\<lambda>e. (from_node e, to_node e)) ` set (rb_edges rb) then path_end rb b ts else None
      | _ \<Rightarrow> None)"
| "path_end rb n (_ # ts) = None"

lemma path_end_append:
  "path_end rb n (ts @ us) = (case path_end rb n ts of None \<Rightarrow> None | Some m \<Rightarrow> path_end rb m us)"
  by (induction rb n ts rule: path_end.induct) (auto split: option.split json.split)

lemma path_end_transition:
  "e \<in> set (rb_edges rb) \<Longrightarrow>
    path_end rb (from_node e) [transition_record (from_node e) (to_node e) a b cs t] = Some (to_node e)"
  by (auto simp: transition_record_def)

definition run_ok :: "string \<Rightarrow> runbook \<Rightarrow> run_state \<Rightarrow> bool" where
  "run_ok h rb s \<longleftrightarrow> runbook_hash s = Some h
     \<and> current_node s \<noteq> None \<and> path_end rb (rb_initial rb) (transitions s) = current_node s
     \<and> (\<exists>k e. current_entry_id s = Some k \<and> dict_get (entries s) k = Some e
           \<and> Some (re_node_id e) = current_node s)
     \<and> state s \<in> {''running'', ''completed'', ''blocked''}
     \<and> (state s = ''completed'' \<longrightarrow> out_edges rb (current_node s) = [])"

lemma set_entry_simps [simp]:
  "runbook_hash (set_entry k e s) = runbook_hash s" "current_node (set_entry k e s) = current_node s"
  "transitions (set_entry k e s) = transitions s" "state (set_entry k e s) = state s"
  "current_entry_id (set_entry k e s) = current_entry_id s" "run_id (set_entry k e s) = run_id s"
  "started_at (set_entry k e s) = started_at s"
  "entries (set_entry k e s) = dict_set k e (entries s)"
  by (simp_all add: set_entry_def)

text \<open>An update of the current entry that keeps its node keeps the invariant.\<close>

lemma run_ok_set_entry:
  assumes "run_ok h rb s" and "current_entry_id s = Some k" and "dict_get (entries s) k = Some e"
    and "re_node_id e' = re_node_id e"
  shows "run_ok h rb (set_entry k e' s)"
  using assms by (auto simp: run_ok_def update_conv')

lemma run_ok_take_edge:
  assumes ok: "run_ok h rb s" and e: "e \<in> set (rb_edges rb)" "Some (from_node e) = current_node s"
    and run: "state s = ''running''" and t: "take_edge rb env rid e n old results s = Inr (s', tn)"
  shows "run_ok h rb s' \<and> run_id s' = run_id s \<and> started_at s' = started_at s"
proof -
  let ?eid = "ge_entry_id env"
  define s1 where "s1 = set_entry ?eid (new_entry ?eid (to_node e) (ge_now env))
    (s\<lparr>transitions := transitions s @
        [transition_record (from_node e) (to_node e) old ?eid results (ge_now env)],
       current_node := Some (to_node e), current_entry_id := Some ?eid\<rparr>)"
  from t have s': "s' = (if out_edges rb (Some (to_node e)) = [] then s1\<lparr>state := ''completed''\<rparr> else s1)"
    by (auto simp: take_edge_def Let_def s1_def bindE_Inr split: option.splits)
  have "path_end rb (rb_initial rb) (transitions s) = Some (from_node e)"
    using ok e(2) by (simp add: run_ok_def)
  then have "path_end rb (rb_initial rb) (transitions s1) = Some (to_node e)"
    using path_end_transition [OF e(1)] by (simp add: s1_def path_end_append)
  then show ?thesis
    using ok run unfolding s' by (auto simp: run_ok_def s1_def update_conv' new_entry_def)
qed

section \<open>Runs on a backend\<close>

datatype 'x run_op = Goto string "'x goto_env" | Register rat check

fun run_step :: "'b backend \<Rightarrow> runbook \<Rightarrow> string \<Rightarrow> 'x run_op \<Rightarrow> 'b \<Rightarrow> 'b" where
  "run_step B rb rid (Goto target env) st = fst (runbook_goto B rb rid target env st)"
| "run_step B rb rid (Register now c) st =
     fst (register_dynamic_check B now rid c st :: 'b \<times> (unit run_error + unit))"

context run_state_backend
begin

text \<open>An operation leaves the store alone or saves one state of the same run.\<close>

lemma goto_store:
  assumes "b_load B rid st = Inr (Some s)" and ok: "run_ok h rb s"
  shows "fst (runbook_goto B rb rid target env st) = st
    \<or> (\<exists>s'. fst (runbook_goto B rb rid target env st) = b_save B (ge_now env) s' st
         \<and> run_ok h rb s' \<and> run_id s' = run_id s \<and> started_at s' = started_at s)"
proof -
  have req: "require_state B rid st = Inr s" using assms(1) by (simp add: require_state_def)
  show ?thesis
  proof (cases "state s = ''running''")
    case False
    then show ?thesis by (simp add: runbook_goto_def req)
  next
    case run: True
    let ?find = "find (\<lambda>e. Some (from_node e) = current_node s \<and> to_node e = target) (rb_edges rb)"
    show ?thesis
    proof (cases ?find)
      case None
      then show ?thesis by (simp add: runbook_goto_def req run)
    next
      case (Some e)
      then have e: "e \<in> set (rb_edges rb)" "Some (from_node e) = current_node s"
        by (auto simp: find_Some_iff)
      obtain k entry where k: "current_entry_id s = Some k" "dict_get (entries s) k = Some entry"
        using ok by (auto simp: run_ok_def)
      have blocked: "run_ok h rb (s\<lparr>state := ''blocked''\<rparr>)" using ok by (auto simp: run_ok_def)
      have failed: "run_ok h rb (set_entry k (entry\<lparr>re_attempts := x, re_checks := y\<rparr>) s)" for x y
        by (rule run_ok_set_entry [OF ok k]) simp
      note taken = run_ok_take_edge [OF ok e run, where env = env]
      show ?thesis
        unfolding runbook_goto_def require_state_def assms(1) sum.case option.case
        using run Some k blocked failed
        by (auto simp: Let_def lookup_entry_def dest!: taken split: sum.split option.split check_outcome.split)
    qed
  qed
qed

lemma register_store:
  assumes "b_load B rid st = Inr (Some s)" and ok: "run_ok h rb s"
  shows "\<exists>s'. fst (register_dynamic_check B now rid c st) = b_save B now s' st
         \<and> run_ok h rb s' \<and> run_id s' = run_id s \<and> started_at s' = started_at s"
proof -
  obtain k entry where k: "current_entry_id s = Some k" "dict_get (entries s) k = Some entry"
        using ok by (auto simp: run_ok_def)
  have "run_ok h rb (set_entry k
      (entry\<lparr>re_dynamic_checks := re_dynamic_checks entry @ [c]\<rparr>) s)"
    by (rule run_ok_set_entry [OF ok k]) simp
  then show ?thesis
    using assms(1) k by (auto simp: register_dynamic_check_def require_state_def lookup_entry_def)
qed

definition run_stored :: "string \<Rightarrow> runbook \<Rightarrow> string \<Rightarrow> 'b \<Rightarrow> bool" where
  "run_stored h rb rid st \<longleftrightarrow> inv st \<and> (\<exists>s. b_load B rid st = Inr (Some s) \<and> run_ok h rb s)"

lemma run_stored_save:
  assumes "run_stored h rb rid st" and "b_load B rid st = Inr (Some s)" and "run_ok h rb s'"
    and "run_id s' = run_id s" and "started_at s' = started_at s"
  shows "run_stored h rb rid (b_save B env s' st)"
proof -
  have inv: "inv st" using assms(1) by (simp add: run_stored_def)
  have "run_id s = rid" "storable s" using load_stored [OF inv assms(2)] by simp_all
  then have "storable s'" "run_id s' = rid" using storable_started [OF assms(5)] assms(4) by simp_all
  with assms(3) inv show ?thesis by (auto simp: run_stored_def load_save inv_save)
qed

lemma run_stored_step:
  assumes "run_stored h rb rid st"
  shows "run_stored h rb rid (run_step B rb rid a st)"
proof -
  obtain s where s: "b_load B rid st = Inr (Some s)" "run_ok h rb s"
    using assms by (auto simp: run_stored_def)
  show ?thesis
  proof (cases a)
    case (Goto target env)
    with goto_store [OF s, of target env] run_stored_save [OF assms s(1)] assms show ?thesis by auto
  next
    case (Register now c)
    with register_store [OF s, of now c] run_stored_save [OF assms s(1)] show ?thesis
      by (metis run_step.simps(2))
  qed
qed

lemma run_stored_steps:
  "run_stored h rb rid st \<Longrightarrow> run_stored h rb rid (fold (run_step B rb rid) ops st)"
  by (induction ops arbitrary: st) (auto intro: run_stored_step)

lemma start_stored:
  assumes "inv st" and "\<not> (resume \<and> b_exists B rid st)" and "rid \<noteq> ''''"
    and "\<And>s. started_at s = iso_now \<Longrightarrow> storable s"
  shows "run_stored (content_hash digest rb) rb rid
    (fst (start_runbook digest B rb (Some rid) resume fresh eid iso_now now st :: _ \<times> (unit run_error + _)))"
proof -
  let ?s = "\<lparr>run_id = rid, pipeline_name = rb_name rb, started_at = iso_now,
                     state = ''running'', current_stage = None, current_stage_index = 0,
                     paused_at_stage = None, data = [], errors = [],
                     runbook_hash = Some (content_hash digest rb),
                     current_node = Some (rb_initial rb), current_entry_id = Some eid,
                     entries = [(eid, new_entry eid (rb_initial rb) now)],
                     transitions = []\<rparr>"
  have "fst (start_runbook digest B rb (Some rid) resume fresh eid iso_now now st :: _ \<times> (unit run_error + _))
      = b_save B now ?s st"
    using assms(2,3) by (simp only: start_runbook_def Let_def option.case if_False fst_conv)
  moreover have "storable ?s" by (rule assms(4)) simp
  moreover have "run_ok (content_hash digest rb) rb ?s" by (simp add: run_ok_def new_entry_def)
  ultimately show ?thesis using assms(1) by (auto simp: run_stored_def load_save inv_save)
qed

end

section \<open>Failing checks\<close>

fun goto_each :: "'b backend \<Rightarrow> runbook \<Rightarrow> string \<Rightarrow> string \<Rightarrow> 'x goto_env list \<Rightarrow> 'b \<Rightarrow>
    'b \<times> ('x run_error + response) list" where
  "goto_each B rb rid target [] st = (st, [])"
| "goto_each B rb rid target (env # envs) st =
     (let (st, r) = runbook_goto B rb rid target env st; (st, rs) = goto_each B rb rid target envs st in (st, r # rs))"

definition attempts_of :: "run_entry \<Rightarrow> edge \<Rightarrow> int" where
  "attempts_of entry e = (case dict_get (re_attempts entry) (edge_key e) of None \<Rightarrow> 0 | Some n \<Rightarrow> n)"

text \<open>The checks of a transition all return, and the blocking check \<open>c\<close> among them fails.\<close>

definition fails_at :: "string \<Rightarrow> string \<Rightarrow> check list \<Rightarrow> check \<Rightarrow> 'x goto_env \<Rightarrow> bool" where
  "fails_at rid nid cs c env \<longleftrightarrow> c \<in> set cs \<and> c_blocking c
     \<and> (\<forall>c' \<in> set cs. \<exists>r. ge_checks env c' (check_ctx rid nid (ge_agent env)) = Inr r \<and> (c' = c \<longrightarrow> \<not> passed r))"

text \<open>A refused attempt: a failed check is reported, or the recorder told of it raised.\<close>

definition refused :: "string \<Rightarrow> 'x run_error + response \<Rightarrow> bool" where
  "refused nid x = (case x of
       Inr (Transfer_failed r frm evidence) \<Rightarrow> \<not> passed r \<and> frm = nid
     | Inl (Recorder_raised y) \<Rightarrow> True
     | _ \<Rightarrow> False)"

text \<open>
  Every attempt of \<open>envs\<close> is refused and leaves the run where it is, the next is answered with the block,
  and from then on, whatever is attempted or registered, the stored run is blocked and every transition
  refused.
\<close>

definition refused_then_blocked :: "'b backend \<Rightarrow> runbook \<Rightarrow> string \<Rightarrow> string \<Rightarrow> string \<Rightarrow> 'x goto_env list \<Rightarrow>
    'x goto_env \<Rightarrow> 'b \<Rightarrow> bool" where
  "refused_then_blocked B rb rid nid target envs env st \<longleftrightarrow>
     (let (st1, rs) = goto_each B rb rid target envs st; (st2, r) = runbook_goto B rb rid target env st1
      in list_all (refused nid) rs \<and> length rs = length envs
         \<and> (\<exists>s1. b_load B rid st1 = Inr (Some s1) \<and> state s1 = ''running'' \<and> current_node s1 = Some nid)
         \<and> r = Inr Blocked
         \<and> (\<forall>ops :: 'x run_op list. let st3 = fold (run_step B rb rid) ops st2
             in (\<exists>s3. b_load B rid st3 = Inr (Some s3) \<and> state s3 = ''blocked'' \<and> current_node s3 = Some nid)
                \<and> (\<forall>target' (env' :: 'x goto_env). runbook_goto B rb rid target' env' st3 = (st3, Inr (Invalid_state ''blocked'')))))"

lemma run_checks_fails:
  assumes "c \<in> set cs" and "c_blocking c"
    and "\<forall>c' \<in> set cs. \<exists>r. runner c' ctx = Inr r \<and> (c' = c \<longrightarrow> \<not> passed r)"
  shows "\<exists>r rs. run_checks runner ctx cs acc = Check_failed r rs \<and> \<not> passed r"
  using assms
proof (induction cs arbitrary: acc)
  case (Cons c' cs)
  then obtain r where r: "runner c' ctx = Inr r" "c' = c \<longrightarrow> \<not> passed r" by auto
  show ?case
  proof (cases "c_blocking c' \<and> \<not> passed r")
    case False
    then have "c \<in> set cs" using Cons.prems r by auto
    then show ?thesis using Cons r False by (simp add: if_not_P)
  qed (simp add: r)
qed simp

context run_state_backend
begin

lemma goto_each_failing:
  assumes e: "find (\<lambda>e. Some (from_node e) = cur \<and> to_node e = target) (rb_edges rb) = Some e"
    and n: "dict_get (rb_nodes rb) (from_node e) = Some n"
  shows "inv st \<Longrightarrow> b_load B rid st = Inr (Some s) \<Longrightarrow> state s = ''running'' \<Longrightarrow> current_node s = cur \<Longrightarrow>
    current_entry_id s = Some k \<Longrightarrow> dict_get (entries s) k = Some entry \<Longrightarrow>
    attempts_of entry e + int (length envs) = max_attempts e \<Longrightarrow>
    \<forall>env \<in> set envs. fails_at rid (from_node e) (n_before_transfer n @ re_dynamic_checks entry) c env \<Longrightarrow>
    goto_each B rb rid target envs st = (st1, rs) \<Longrightarrow>
    list_all (refused (from_node e)) rs \<and> length rs = length envs \<and> inv st1
    \<and> (\<exists>s1 entry1. b_load B rid st1 = Inr (Some s1) \<and> state s1 = ''running'' \<and> current_node s1 = cur
         \<and> current_entry_id s1 = Some k \<and> dict_get (entries s1) k = Some entry1 \<and> attempts_of entry1 e = max_attempts e)"
proof (induction envs arbitrary: st s entry st1 rs)
  case (Cons env envs)
  from e have cur: "cur = Some (from_node e)" by (auto simp: find_Some_iff)
  note st = load_stored [OF Cons.prems(1,2)]
  let ?cs = "n_before_transfer n @ re_dynamic_checks entry"
  have "fails_at rid (from_node e) ?cs c env" using Cons.prems(8) by simp
  then have "c \<in> set ?cs" "c_blocking c" "\<forall>c' \<in> set ?cs. \<exists>r.
      ge_checks env c' (check_ctx rid (from_node e) (ge_agent env)) = Inr r \<and> (c' = c \<longrightarrow> \<not> passed r)"
    unfolding fails_at_def by blast+
  from run_checks_fails [where runner = "ge_checks env" and ctx = "check_ctx rid (from_node e) (ge_agent env)"
      and acc = "[]", OF this] obtain r ev
    where ch: "run_checks (ge_checks env) (check_ctx rid (from_node e) (ge_agent env)) ?cs [] = Check_failed r ev"
    and pf: "\<not> passed r" by blast
  let ?entry = "entry\<lparr>re_attempts := dict_set (edge_key e) (attempts_of entry e + 1) (re_attempts entry),
    re_checks := re_checks entry @ ev\<rparr>"
  let ?s = "set_entry k ?entry s" and ?st = "b_save B (ge_now env) (set_entry k ?entry s) st"
  have more: "\<not> max_attempts e \<le> attempts_of entry e" using Cons.prems(7) by simp
  define x where "x = (case record_failure env (from_node e) r of Some y \<Rightarrow> Inl (Recorder_raised y)
    | None \<Rightarrow> Inr (Transfer_failed r (from_node e) ev))"
  have "runbook_goto B rb rid target env st = (?st, x)"
    using Cons.prems(2-6) e n more cur ch
    by (simp add: runbook_goto_def require_state_def lookup_entry_def lookup_node_def Let_def x_def
        attempts_of_def [symmetric])
  moreover have "refused (from_node e) x" using pf by (simp add: refused_def x_def split: option.split)
  ultimately have g: "runbook_goto B rb rid target env st = (?st, x)" "refused (from_node e) x" .
  have "storable ?s" using st storable_started [of ?s s] by simp
  then have l: "b_load B rid ?st = Inr (Some ?s)" and i: "inv ?st"
    using load_save [OF Cons.prems(1)] inv_save [OF Cons.prems(1)] st by simp_all
  obtain rs' where rs: "goto_each B rb rid target envs ?st = (st1, rs')" "rs = x # rs'"
    using Cons.prems(9) g(1) by (auto split: prod.splits)
  have a: "attempts_of ?entry e = attempts_of entry e + 1"
    by (simp add: attempts_of_def update_conv')
  have "list_all (refused (from_node e)) rs' \<and> length rs' = length envs \<and> inv st1
    \<and> (\<exists>s1 entry1. b_load B rid st1 = Inr (Some s1) \<and> state s1 = ''running'' \<and> current_node s1 = cur
         \<and> current_entry_id s1 = Some k \<and> dict_get (entries s1) k = Some entry1 \<and> attempts_of entry1 e = max_attempts e)"
    by (rule Cons.IH [OF i l _ _ _ _ _ _ rs(1), where entry = ?entry])
      (use Cons.prems a in \<open>simp_all add: update_conv'\<close>)
  then show ?case using g(2) rs(2) by simp
qed (auto simp: attempts_of_def)

lemma blocked_step:
  assumes "inv st" and "b_load B rid st = Inr (Some s)" and "state s = ''blocked''"
  shows "inv (run_step B rb rid a st)
    \<and> (\<exists>s'. b_load B rid (run_step B rb rid a st) = Inr (Some s') \<and> state s' = ''blocked'' \<and> current_node s' = current_node s)"
proof (cases a)
  case (Goto target env)
  then show ?thesis using assms by (simp add: runbook_goto_def require_state_def)
next
  case (Register now c)
  show ?thesis
  proof (cases "lookup_entry s :: unit run_error + run_entry")
    case (Inl x)
    then show ?thesis using assms Register by (simp add: register_dynamic_check_def require_state_def)
  next
    case (Inr entry)
    note st = load_stored [OF assms(1,2)]
    let ?s = "set_entry (the (current_entry_id s)) (entry\<lparr>re_dynamic_checks := re_dynamic_checks entry @ [c]\<rparr>) s"
    have "storable ?s" using st storable_started [of ?s s] by simp
    then show ?thesis
      using assms Register Inr st load_save [OF assms(1)] inv_save [OF assms(1)]
      by (simp add: register_dynamic_check_def require_state_def)
  qed
qed

lemma blocked_steps:
  "inv st \<Longrightarrow> b_load B rid st = Inr (Some s) \<Longrightarrow> state s = ''blocked'' \<Longrightarrow>
     \<exists>s'. b_load B rid (fold (run_step B rb rid) ops st) = Inr (Some s') \<and> state s' = ''blocked''
       \<and> current_node s' = current_node s"
proof (induction ops arbitrary: st s)
  case (Cons a ops)
  from blocked_step [OF Cons.prems, of rb a] obtain s' where "inv (run_step B rb rid a st)"
    "b_load B rid (run_step B rb rid a st) = Inr (Some s')" "state s' = ''blocked''" "current_node s' = current_node s"
    by blast
  from Cons.IH [OF this(1-3)] this(4) show ?case by simp
qed simp

lemma failing_blocks:
  assumes "inv st" and "b_load B rid st = Inr (Some s)" and "state s = ''running''"
    and "current_entry_id s = Some k" and "dict_get (entries s) k = Some entry"
    and e: "find (\<lambda>e. Some (from_node e) = current_node s \<and> to_node e = target) (rb_edges rb) = Some e"
    and n: "dict_get (rb_nodes rb) (from_node e) = Some n"
    and "\<forall>env \<in> set envs. fails_at rid (from_node e) (n_before_transfer n @ re_dynamic_checks entry) c env"
    and "attempts_of entry e + int (length envs) = max_attempts e"
  shows "refused_then_blocked B rb rid (from_node e) target envs env st"
proof -
  from e have cur: "current_node s = Some (from_node e)" by (auto simp: find_Some_iff)
  obtain st1 rs where ge: "goto_each B rb rid target envs st = (st1, rs)" by fastforce
  from goto_each_failing [OF e n assms(1-3) refl assms(4,5,9,8) ge] obtain s1 entry1
    where 1: "list_all (refused (from_node e)) rs" "length rs = length envs" "inv st1"
      "b_load B rid st1 = Inr (Some s1)" "state s1 = ''running''" "current_node s1 = current_node s"
      "current_entry_id s1 = Some k" "dict_get (entries s1) k = Some entry1" "attempts_of entry1 e = max_attempts e"
    by blast
  let ?s2 = "s1\<lparr>state := ''blocked''\<rparr>"
  let ?st2 = "b_save B (ge_now env) ?s2 st1"
  have g: "runbook_goto B rb rid target env st1 = (?st2, Inr Blocked)"
    using 1 e by (simp add: runbook_goto_def require_state_def lookup_entry_def attempts_of_def Let_def)
  note st = load_stored [OF 1(3,4)]
  have "storable ?s2" using st storable_started [of ?s2 s1] by simp
  then have 2: "b_load B rid ?st2 = Inr (Some ?s2)" "inv ?st2"
    using load_save [OF 1(3)] inv_save [OF 1(3)] st by simp_all
  have "\<exists>s3. b_load B rid (fold (run_step B rb rid) ops ?st2) = Inr (Some s3) \<and> state s3 = ''blocked''
      \<and> current_node s3 = Some (from_node e)" for ops :: "'c run_op list"
    using blocked_steps [OF 2(2,1), of rb ops] 1(6) cur by auto
  moreover have "runbook_goto B rb rid target' env' st3 = (st3, Inr (Invalid_state ''blocked''))"
    if "b_load B rid st3 = Inr (Some s3)" "state s3 = ''blocked''" for target' and env' :: "'c goto_env" and st3 s3
    using that by (simp add: runbook_goto_def require_state_def)
  ultimately show ?thesis
    unfolding refused_then_blocked_def ge g Let_def prod.case using 1 cur by fastforce
qed

end

section \<open>Properties\<close>

text \<open>
  C10. A runbook run only ever walks the runbook's edges: after starting a run and any sequence of
  transition attempts and dynamic checks, with arbitrary check and hook runners, the stored
  transitions form a path of edges from the initial node to the current node, and a run is
  completed only at a node without outgoing edges. This holds on the file and the SQLite backend.
\<close>

theorem runbook_walks_edges:
  assumes "files_ok reread fs" and "rows_ok reread rows" and "rid \<noteq> ''''"
    and "reread iso_now = Some iso_now"
    and "\<not> (resume \<and> b_exists (file_backend reread) rid fs)"
    and "\<not> (resume \<and> b_exists (sqlite_backend reread) rid rows)"
  shows "(\<exists>s. b_load (file_backend reread) rid (fold (run_step (file_backend reread) rb rid) ops
        (fst (start_runbook digest (file_backend reread) rb (Some rid) resume fresh eid iso_now now fs
              :: _ \<times> (unit run_error + _)))) = Inr (Some s)
      \<and> path_end rb (rb_initial rb) (transitions s) = current_node s \<and> current_node s \<noteq> None
      \<and> state s \<in> {''running'', ''completed'', ''blocked''}
      \<and> (state s = ''completed'' \<longrightarrow> out_edges rb (current_node s) = []))
   \<and> (\<exists>s. b_load (sqlite_backend reread) rid (fold (run_step (sqlite_backend reread) rb rid) ops
        (fst (start_runbook digest (sqlite_backend reread) rb (Some rid) resume fresh eid iso_now now rows
              :: _ \<times> (unit run_error + _)))) = Inr (Some s)
      \<and> path_end rb (rb_initial rb) (transitions s) = current_node s \<and> current_node s \<noteq> None
      \<and> state s \<in> {''running'', ''completed'', ''blocked''}
      \<and> (state s = ''completed'' \<longrightarrow> out_edges rb (current_node s) = []))"
proof -
  have d: "dated reread s" if "started_at s = iso_now" for s
    using that assms(4) by (simp add: dated_def)
  note f = file_runs.run_stored_steps [OF file_runs.start_stored
    [where digest = digest and rb = rb and fresh = fresh and eid = eid and now = now, OF assms(1,5,3) d],
    where ops = ops]
  note q = sqlite_runs.run_stored_steps [OF sqlite_runs.start_stored
    [where digest = digest and rb = rb and fresh = fresh and eid = eid and now = now, OF assms(2,6,3) d],
    where ops = ops]
  show ?thesis
    using f q
    unfolding file_runs.run_stored_def sqlite_runs.run_stored_def run_ok_def by blast
qed

theorem runbook_walks_edges_witness:
  "\<exists>s. b_load (file_backend Some) ''r'' (fst (start_runbook (\<lambda>j. ''h'') (file_backend Some)
      \<lparr>rb_name = ''b'', rb_initial = ''n'', rb_nodes = [], rb_edges = [], rb_version = ''1''\<rparr>
      (Some ''r'') True ''f'' ''e'' ''t'' 0 [] :: _ \<times> (unit run_error + _))) = Inr (Some s)
    \<and> current_node s \<noteq> None"
  using runbook_walks_edges [of Some "[]" "[]" "''r''" "''t''" True
      "\<lparr>rb_name = ''b'', rb_initial = ''n'', rb_nodes = [], rb_edges = [], rb_version = ''1''\<rparr>"
      "[] :: unit run_op list" "\<lambda>j. ''h''" "''f''" "''e''" 0]
  by (auto simp: files_ok_def rows_ok_def file_backend_def sqlite_backend_def)

text \<open>
  C14. A transition whose blocking check keeps failing blocks the run for good: as long as every check of
  the transition returns and one blocking check, of the node or added during the run, anywhere among
  them, fails, each of the attempts left is refused with the run staying in place; the next attempt is
  answered with the block, and after it no sequence of transition attempts, to any target with any
  runners, and of new checks moves or unblocks the run. On the file and the SQLite backend.
\<close>

theorem failing_check_blocks:
  assumes "files_ok reread fs" and "b_load (file_backend reread) rid fs = Inr (Some s)"
    and "rows_ok reread rows" and "b_load (sqlite_backend reread) rid rows = Inr (Some s)"
    and "state s = ''running''" and "current_entry_id s = Some k" and "dict_get (entries s) k = Some entry"
    and "find (\<lambda>e. Some (from_node e) = current_node s \<and> to_node e = target) (rb_edges rb) = Some e"
    and "dict_get (rb_nodes rb) (from_node e) = Some n"
    and "\<forall>env \<in> set envs. fails_at rid (from_node e) (n_before_transfer n @ re_dynamic_checks entry) c env"
    and "attempts_of entry e + int (length envs) = max_attempts e"
  shows "refused_then_blocked (file_backend reread) rb rid (from_node e) target envs env fs
    \<and> refused_then_blocked (sqlite_backend reread) rb rid (from_node e) target envs env rows"
  using file_runs.failing_blocks [OF assms(1,2,5-11)] sqlite_runs.failing_blocks [OF assms(3,4,5-11)] by blast

definition ex_check :: check where
  "ex_check = \<lparr>c_type = MANUAL, c_payload = [], c_blocking = True, c_id = ''c''\<rparr>"

definition ex_node :: node where
  "ex_node = \<lparr>n_id = ''n'', n_prompt = '''', n_in_hook = None, n_out_hook = None,
     n_before_transfer = [ex_check]\<rparr>"

definition ex_edge :: edge where
  "ex_edge = \<lparr>from_node = ''n'', to_node = ''m'', condition = '''', hook = None, max_attempts = 1\<rparr>"

definition ex_runbook :: runbook where
  "ex_runbook = \<lparr>rb_name = ''b'', rb_initial = ''n'', rb_nodes = [(''n'', ex_node)],
     rb_edges = [ex_edge], rb_version = ''1''\<rparr>"

definition ex_state :: run_state where
  "ex_state = \<lparr>run_id = ''r'', pipeline_name = ''b'', started_at = ''t'', state = ''running'',
     current_stage = None, current_stage_index = 0, paused_at_stage = None, data = [], errors = [],
     runbook_hash = None, current_node = Some ''n'', current_entry_id = Some ''e'',
     entries = [(''e'', new_entry ''e'' ''n'' 0)], transitions = []\<rparr>"

definition ex_env :: "unit goto_env" where
  "ex_env = \<lparr>ge_checks = (\<lambda>c ctx. Inr []), ge_hooks = None, ge_agent = [], ge_causal = None, ge_entry_id = ''x'',
     ge_now = 1\<rparr>"

definition ex_runbook' :: runbook where
  "ex_runbook' = ex_runbook\<lparr>rb_nodes := [(''n'', ex_node), (''m'', ex_node\<lparr>n_id := ''m''\<rparr>)]\<rparr>"

definition ex_env' :: "unit goto_env" where
  "ex_env' = ex_env\<lparr>ge_checks := (\<lambda>c ctx. Inr [(''passed'', JBool True)])\<rparr>"

definition ex_warning :: check where
  "ex_warning = \<lparr>c_type = MANUAL, c_payload = [], c_blocking = False, c_id = ''w''\<rparr>"

definition warned_runbook :: runbook where
  "warned_runbook = ex_runbook\<lparr>rb_nodes := [(''n'', ex_node\<lparr>n_before_transfer := [ex_warning, ex_check]\<rparr>)],
     rb_edges := [ex_edge\<lparr>max_attempts := 2\<rparr>]\<rparr>"

text \<open>The failing check is the second of two, and the recorder told of it raises the first time.\<close>

theorem failing_check_blocks_witness:
  "refused_then_blocked (file_backend Some) warned_runbook ''r'' ''n'' ''m''
     [ex_env\<lparr>ge_causal := Some (\<lambda>_ _ _. Some ())\<rparr>, ex_env] ex_env [(''r'', to_dict ex_state)]"
proof -
  have 1: "files_ok Some [(''r'', to_dict ex_state)]"
    by (auto simp: files_ok_def dated_def ex_state_def intro!: exI [of _ ex_state])
  have 2: "b_load (file_backend Some) ''r'' [(''r'', to_dict ex_state)] = Inr (Some ex_state)"
    by (simp add: file_backend_def run_state_round)
  let ?rows = "[\<lparr>rr_run_id = ''r'', rr_state_json = to_dict ex_state, rr_updated_at = 0\<rparr>]"
  have 3: "rows_ok Some ?rows"
    by (auto simp: rows_ok_def dated_def ex_state_def intro!: exI [of _ ex_state])
  have 4: "b_load (sqlite_backend Some) ''r'' ?rows = Inr (Some ex_state)"
    by (simp add: sqlite_backend_def run_state_round)
  have "refused_then_blocked (file_backend Some) warned_runbook ''r'' (from_node (ex_edge\<lparr>max_attempts := 2\<rparr>)) ''m''
     [ex_env\<lparr>ge_causal := Some (\<lambda>_ _ _. Some ())\<rparr>, ex_env] ex_env [(''r'', to_dict ex_state)]"
    by (rule failing_check_blocks [where k = "''e''" and entry = "new_entry ''e'' ''n'' 0"
          and n = "ex_node\<lparr>n_before_transfer := [ex_warning, ex_check]\<rparr>" and c = ex_check, OF 1 2 3 4, THEN conjunct1])
      (simp_all add: warned_runbook_def ex_state_def ex_runbook_def ex_edge_def ex_node_def ex_env_def ex_check_def fails_at_def passed_def
        attempts_of_def new_entry_def ex_warning_def)
  then show ?thesis by (simp add: ex_edge_def)
qed

lemma run_checks_passed:
  "run_checks runner ctx cs acc = All_passed results \<Longrightarrow> c \<in> set cs \<Longrightarrow> c_blocking c \<Longrightarrow>
    \<exists>r. runner c ctx = Inr r \<and> passed r"
  by (induction cs arbitrary: acc) (auto split: sum.splits if_splits)

lemma goto_checks:
  assumes "b_load B rid st = Inr (Some s)" and "state s = ''running''"
    and "find (\<lambda>e. Some (from_node e) = current_node s \<and> to_node e = target) (rb_edges rb) = Some e"
    and "current_entry_id s = Some k" and "dict_get (entries s) k = Some entry"
    and "\<not> max_attempts e \<le> attempts_of entry e" and "dict_get (rb_nodes rb) (from_node e) = Some n"
  shows "runbook_goto B rb rid target env st =
    (case run_checks (ge_checks env) (check_ctx rid (from_node e) (ge_agent env))
            (n_before_transfer n @ re_dynamic_checks entry) [] of
       Check_raised x \<Rightarrow> (st, Inl (Runner_raised x))
     | Check_failed result results \<Rightarrow>
         (b_save B (ge_now env)
            (set_entry k (entry\<lparr>re_attempts := dict_set (edge_key e) (attempts_of entry e + 1) (re_attempts entry),
                                re_checks := re_checks entry @ results\<rparr>) s) st,
          case record_failure env (from_node e) result of
            Some x \<Rightarrow> Inl (Recorder_raised x)
          | None \<Rightarrow> Inr (Transfer_failed result (from_node e) results))
     | All_passed results \<Rightarrow>
         (case take_edge rb env rid e n k results s of
            Inl err \<Rightarrow> (st, Inl err)
          | Inr (s', tn) \<Rightarrow>
              (b_save B (ge_now env) s' st,
               Inr (Moved (from_node e) target (ge_entry_id env) (n_prompt tn)))))"
proof -
  have "current_node s = Some (from_node e)" using assms(3) by (auto simp: find_Some_iff)
  then show ?thesis
    using assms unfolding attempts_of_def
    by (simp add: runbook_goto_def require_state_def lookup_entry_def lookup_node_def Let_def)
qed

lemma goto_moved:
  assumes "runbook_goto B rb rid target env st = (st', Inr (Moved frm tgt eid prompt))"
  shows "\<exists>s n entry. b_load B rid st = Inr (Some s) \<and> state s = ''running''
    \<and> current_node s = Some frm \<and> tgt = target \<and> dict_get (rb_nodes rb) frm = Some n
    \<and> dict_get (entries s) (the (current_entry_id s)) = Some entry
    \<and> (\<exists>e \<in> set (rb_edges rb). from_node e = frm \<and> to_node e = tgt \<and> attempts_of entry e < max_attempts e)
    \<and> (\<forall>c \<in> set (n_before_transfer n @ re_dynamic_checks entry). c_blocking c \<longrightarrow>
         (\<exists>r. ge_checks env c (check_ctx rid frm (ge_agent env)) = Inr r \<and> passed r))"
proof -
  obtain s where s: "b_load B rid st = Inr (Some s)" "state s = ''running''"
    using assms by (auto simp: runbook_goto_def require_state_def split: sum.splits option.splits if_splits)
  obtain e where e: "find (\<lambda>e. Some (from_node e) = current_node s \<and> to_node e = target) (rb_edges rb) = Some e"
    using assms s by (auto simp: runbook_goto_def require_state_def split: option.splits)
  then have e': "e \<in> set (rb_edges rb)" "current_node s = Some (from_node e)" "to_node e = target"
    by (auto simp: find_Some_iff)
  obtain k entry where k: "current_entry_id s = Some k" "dict_get (entries s) k = Some entry"
    using assms s e
    by (auto simp: runbook_goto_def require_state_def lookup_entry_def split: option.splits)
  have att: "\<not> max_attempts e \<le> attempts_of entry e"
    using assms s e k
    by (auto simp: runbook_goto_def require_state_def lookup_entry_def attempts_of_def Let_def
        split: if_splits)
  obtain n where n: "dict_get (rb_nodes rb) (from_node e) = Some n"
    using assms s e k e' att
    by (auto simp: runbook_goto_def require_state_def lookup_entry_def lookup_node_def Let_def
        attempts_of_def split: option.splits)
  note g = goto_checks [OF s e k att n, where env = env]
  with assms obtain results where r: "run_checks (ge_checks env) (check_ctx rid (from_node e) (ge_agent env))
      (n_before_transfer n @ re_dynamic_checks entry) [] = All_passed results"
    by (auto split: check_outcome.splits option.splits)
  with assms g have "frm = from_node e" "tgt = target" by (auto split: sum.splits option.splits)
  with s e' k n att run_checks_passed [OF r] show ?thesis
    by (intro exI [of _ s] exI [of _ n] exI [of _ entry]) auto
qed

text \<open>
  C11. No transition without its checks: a transition succeeds only from a running state, along an
  edge of the runbook that is below its attempt limit, and every blocking check of the node left,
  declared or added during the run, was run by the check runner in the run's context and passed.
\<close>

theorem transition_needs_checks:
  assumes "runbook_goto B rb rid target env st = (st', Inr (Moved frm tgt eid prompt))"
  shows "\<exists>s n entry. b_load B rid st = Inr (Some s) \<and> state s = ''running''
    \<and> current_node s = Some frm \<and> tgt = target \<and> dict_get (rb_nodes rb) frm = Some n
    \<and> dict_get (entries s) (the (current_entry_id s)) = Some entry
    \<and> (\<exists>e \<in> set (rb_edges rb). from_node e = frm \<and> to_node e = tgt \<and> attempts_of entry e < max_attempts e)
    \<and> (\<forall>c \<in> set (n_before_transfer n @ re_dynamic_checks entry). c_blocking c \<longrightarrow>
         (\<exists>r. ge_checks env c (check_ctx rid frm (ge_agent env)) = Inr r \<and> passed r))"
  by (rule goto_moved) (rule assms)

theorem transition_needs_checks_witness:
  "\<exists>st'. runbook_goto (file_backend Some) ex_runbook' ''r'' ''m'' ex_env' [(''r'', to_dict ex_state)]
      = (st', Inr (Moved ''n'' ''m'' ''x'' ''''))
    \<and> (\<exists>s. b_load (file_backend Some) ''r'' [(''r'', to_dict ex_state)] = Inr (Some s)
         \<and> current_node s = Some ''n'')"
proof -
  have "b_load (file_backend Some) ''r'' [(''r'', to_dict ex_state)] = Inr (Some ex_state)"
    by (simp add: file_backend_def run_state_round)
  then obtain st' where g: "runbook_goto (file_backend Some) ex_runbook' ''r'' ''m'' ex_env'
      [(''r'', to_dict ex_state)] = (st', Inr (Moved ''n'' ''m'' ''x'' ''''))"
    by (simp add: runbook_goto_def require_state_def ex_state_def ex_runbook'_def ex_runbook_def ex_edge_def
        ex_node_def ex_env_def out_edges_def
        ex_env'_def ex_check_def lookup_entry_def lookup_node_def new_entry_def passed_def take_edge_def
        run_hooks_if_def Let_def)
  from transition_needs_checks [OF g] g show ?thesis by auto
qed

text \<open>
  A transition that ends in an exception, from a check, a hook, a missing node or entry or an
  undecodable document, leaves the store exactly as it was. Only the failure recorder runs after
  the save.
\<close>

theorem goto_exception_keeps_store:
  assumes "runbook_goto B rb rid target env st = (st', Inl err)" and "\<And>x. err \<noteq> Recorder_raised x"
  shows "st' = st"
  using assms
  by (auto simp: runbook_goto_def Let_def split: sum.splits option.splits if_splits check_outcome.splits)

theorem goto_exception_keeps_store_witness:
  "fst (runbook_goto (file_backend Some) ex_runbook ''r'' ''m'' ex_env []) = []"
proof -
  have "runbook_goto (file_backend Some) ex_runbook ''r'' ''m'' ex_env []
      = ([], Inl (File_not_found ''r''))"
    by (simp add: runbook_goto_def require_state_def file_backend_def)
  from goto_exception_keeps_store [OF this] show ?thesis by (simp add: \<open>runbook_goto _ _ _ _ _ _ = _\<close>)
qed

end
