(* ===== verification/RunbookFiles.thy ===== *)
theory RunbookFiles
  imports Runbook
begin

text \<open>
  Runbook definitions and their default runners: parsing the decoded YAML document of
  \<^verbatim>\<open>obase/runbook_loader.py\<close>, and the hook registry and the check runner of
  \<^verbatim>\<open>obase/runbook_runtime.py\<close>. The text-level YAML decoder, the digest of a document, the
  predicate evaluator, the jailed process and Python's \<^verbatim>\<open>repr\<close> are parameters. \<open>Ill_typed\<close> is
  a value of a type the operation cannot use.
\<close>

section \<open>Parsing a runbook\<close>

datatype parse_error =
    No_check_type jdict
  | Unknown_check_type json
  | Edge_without_ends jdict
  | Runbook_without string
  | No_nodes
  | Unknown_initial string
  | Unknown_from string
  | Unknown_to string
  | File_missing
  | Invalid_yaml string
  | Not_a_mapping
  | Bad_value decode_error

definition bad :: "decode_error + 'a \<Rightarrow> parse_error + 'a" where
  "bad m = (case m of Inl e \<Rightarrow> Inl (Bad_value e) | Inr x \<Rightarrow> Inr x)"

definition stable_check_id :: "(json \<Rightarrow> string) \<Rightarrow> string \<Rightarrow> check_type \<Rightarrow> jdict \<Rightarrow> string" where
  "stable_check_id digest scope t payload = digest
     (JDict [(''scope'', JStr scope), (''type'', JStr (type_value t)), (''payload'', JDict payload)])"

definition parse_check :: "(json \<Rightarrow> string) \<Rightarrow> string \<Rightarrow> json \<Rightarrow> parse_error + check" where
  "parse_check digest scope j =
     bindE (bad (as_dict j)) (\<lambda>raw.
     case dict_get raw ''type'' of
       None \<Rightarrow> Inl (No_check_type raw)
     | Some tj \<Rightarrow>
         (case bindE (as_str tj) check_type_of of
            Inl _ \<Rightarrow> Inl (Unknown_check_type tj)
          | Inr t \<Rightarrow>
              bindE (bad (opt ''payload'' [] as_dict raw)) (\<lambda>payload.
              bindE (bad (case dict_get raw ''id'' of
                            None \<Rightarrow> Inr (stable_check_id digest scope t payload)
                          | Some i \<Rightarrow> if truthy i then as_str i
                                      else Inr (stable_check_id digest scope t payload))) (\<lambda>cid.
                Inr \<lparr>c_type = t, c_payload = payload,
                     c_blocking = (case dict_get raw ''blocking'' of None \<Rightarrow> True | Some b \<Rightarrow> truthy b),
                     c_id = cid\<rparr>))))"

text \<open>The checks of a node, each with the scope of its position.\<close>

fun parse_checks :: "(json \<Rightarrow> string) \<Rightarrow> string \<Rightarrow> nat \<Rightarrow> json list \<Rightarrow> parse_error + check list" where
  "parse_checks digest nid i [] = Inr []"
| "parse_checks digest nid i (j # js) =
     bindE (parse_check digest (nid @ ''#before_transfer#'' @ str_nat i) j) (\<lambda>c.
     bindE (parse_checks digest nid (Suc i) js) (\<lambda>cs. Inr (c # cs)))"

definition parse_node :: "(json \<Rightarrow> string) \<Rightarrow> string \<Rightarrow> jdict \<Rightarrow> parse_error + node" where
  "parse_node digest nid raw =
     bindE (bad (opt ''before_transfer'' [] as_list raw)) (\<lambda>js.
     bindE (parse_checks digest nid 0 js) (\<lambda>cs.
     bindE (bad (opt ''prompt'' '''' as_str raw)) (\<lambda>p.
     bindE (bad (opt ''in_hook'' None as_str_option raw)) (\<lambda>ih.
     bindE (bad (opt ''out_hook'' None as_str_option raw)) (\<lambda>oh.
       Inr \<lparr>n_id = nid, n_prompt = p, n_in_hook = ih, n_out_hook = oh, n_before_transfer = cs\<rparr>)))))"

text \<open>\<open>int(x)\<close>: integers and truth values as they are, floats towards zero, text by \<open>int_of_text\<close>.\<close>

definition to_int :: "(string \<Rightarrow> int option) \<Rightarrow> json \<Rightarrow> decode_error + int" where
  "to_int int_of_text j =
     (case j of
        JInt i \<Rightarrow> Inr i
      | JBool b \<Rightarrow> Inr (if b then 1 else 0)
      | JFloat q \<Rightarrow> Inr (if q < 0 then - \<lfloor>- q\<rfloor> else \<lfloor>q\<rfloor>)
      | JStr s \<Rightarrow> (case int_of_text s of None \<Rightarrow> Inl (Value_error s) | Some i \<Rightarrow> Inr i)
      | _ \<Rightarrow> Inl (Ill_typed j))"

definition parse_edge :: "(string \<Rightarrow> int option) \<Rightarrow> json \<Rightarrow> parse_error + edge" where
  "parse_edge int_of_text j =
     bindE (bad (as_dict j)) (\<lambda>raw.
     case (dict_get raw ''from'', dict_get raw ''to'') of
       (Some f, Some t) \<Rightarrow>
         bindE (bad (as_str f)) (\<lambda>f.
         bindE (bad (as_str t)) (\<lambda>t.
         bindE (bad (opt ''condition'' '''' as_str raw)) (\<lambda>c.
         bindE (bad (opt ''hook'' None as_str_option raw)) (\<lambda>h.
         bindE (bad (opt ''max_attempts'' 3 (to_int int_of_text) raw)) (\<lambda>m.
           Inr \<lparr>from_node = f, to_node = t, condition = c, hook = h, max_attempts = m\<rparr>)))))
     | _ \<Rightarrow> Inl (Edge_without_ends raw))"

text \<open>\<open>raw or {}\<close>: an empty node may be written as null.\<close>

definition parse_node_item :: "(json \<Rightarrow> string) \<Rightarrow> string \<times> json \<Rightarrow> parse_error + (string \<times> node)" where
  "parse_node_item digest kv =
     bindE (bad (if truthy (snd kv) then as_dict (snd kv) else Inr [])) (\<lambda>raw.
     bindE (parse_node digest (fst kv) raw) (\<lambda>n. Inr (fst kv, n)))"

fun check_edges :: "string list \<Rightarrow> edge list \<Rightarrow> parse_error + unit" where
  "check_edges ids [] = Inr ()"
| "check_edges ids (e # es) =
     (if from_node e \<notin> set ids then Inl (Unknown_from (from_node e))
      else if to_node e \<notin> set ids then Inl (Unknown_to (to_node e))
      else check_edges ids es)"

record yaml_env =
  ye_digest :: "json \<Rightarrow> string"
  ye_int :: "string \<Rightarrow> int option"
  ye_str :: "json \<Rightarrow> string"

definition parse_runbook :: "yaml_env \<Rightarrow> jdict \<Rightarrow> parse_error + runbook" where
  "parse_runbook env doc =
     (case dict_get doc ''name'' of
        None \<Rightarrow> Inl (Runbook_without ''name'')
      | Some name \<Rightarrow>
     (case dict_get doc ''initial'' of
        None \<Rightarrow> Inl (Runbook_without ''initial'')
      | Some init \<Rightarrow>
     (let raw_nodes = (case dict_get doc ''nodes'' of None \<Rightarrow> JDict [] | Some j \<Rightarrow> j)
      in if \<not> truthy raw_nodes then Inl No_nodes
         else
           bindE (bad (as_dict raw_nodes)) (\<lambda>raws.
           bindE (mapE (parse_node_item (ye_digest env)) raws) (\<lambda>nodes.
           bindE (bad (as_str init)) (\<lambda>init.
           if init \<notin> set (map fst nodes) then Inl (Unknown_initial init)
           else
             bindE (bad (opt ''edges'' [] as_list doc)) (\<lambda>raw_edges.
             bindE (mapE (parse_edge (ye_int env)) raw_edges) (\<lambda>edges.
             bindE (check_edges (map fst nodes) edges) (\<lambda>_.
             bindE (bad (as_str name)) (\<lambda>name.
               Inr \<lparr>rb_name = name, rb_initial = init, rb_nodes = nodes, rb_edges = edges,
                    rb_version = (case dict_get doc ''version'' of None \<Rightarrow> ''1'' | Some (JStr v) \<Rightarrow> v
                                  | Some v \<Rightarrow> ye_str env v)\<rparr>)))))))))) "

text \<open>The file: its text if it exists, decoded by \<open>yaml\<close>.\<close>

definition load_runbook_yaml :: "(string \<Rightarrow> string + json) \<Rightarrow> yaml_env \<Rightarrow> string option \<Rightarrow> parse_error + runbook" where
  "load_runbook_yaml yaml env txt =
     (case txt of
        None \<Rightarrow> Inl File_missing
      | Some t \<Rightarrow>
          (case yaml t of
             Inl e \<Rightarrow> Inl (Invalid_yaml e)
           | Inr (JDict doc) \<Rightarrow> parse_runbook env doc
           | Inr _ \<Rightarrow> Inl Not_a_mapping))"

section \<open>Hooks\<close>

text \<open>The registry by name; a hook that was never registered is an error, not a no-op.\<close>

datatype 'x hook_error = Hook_not_found string | Hook_raised 'x

type_synonym 'x hooks = "(string, jdict \<Rightarrow> 'x option) dict"

definition register_hook :: "string \<Rightarrow> (jdict \<Rightarrow> 'x option) \<Rightarrow> 'x hooks \<Rightarrow> 'x hooks" where
  "register_hook name f hs = dict_set name f hs"

definition get_hook :: "string \<Rightarrow> 'x hooks \<Rightarrow> 'x hook_error + (jdict \<Rightarrow> 'x option)" where
  "get_hook name hs = (case dict_get hs name of None \<Rightarrow> Inl (Hook_not_found name) | Some f \<Rightarrow> Inr f)"

definition clear_hooks :: "'x hooks \<Rightarrow> 'x hooks" where
  "clear_hooks hs = []"

text \<open>The runner answers the exception the call ends in, if any.\<close>

definition default_hook_runner :: "'x hooks \<Rightarrow> string \<Rightarrow> jdict \<Rightarrow> 'x hook_error option" where
  "default_hook_runner hs name ctx =
     (case get_hook name hs of
        Inl e \<Rightarrow> Some e
      | Inr f \<Rightarrow> (case f ctx of None \<Rightarrow> None | Some x \<Rightarrow> Some (Hook_raised x)))"

section \<open>Splitting a command\<close>

text \<open>
  \<^verbatim>\<open>shlex.split\<close> in its POSIX mode, the way its tokenizer runs: between words, inside a word,
  inside quotes, and after a backslash (which remembers where it came from). A word counts once
  it has a character or was quoted; an unfinished quote or escape is a ValueError.
\<close>

datatype shlex_state = Between | In_word | In_quotes char | Escaped "char option"

definition shlex_space :: "char \<Rightarrow> bool" where
  "shlex_space c \<longleftrightarrow> c \<in> {CHR '' '', CHR 0x09, CHR 0x0D, CHR 0x0A}"

definition shlex_quote :: "char \<Rightarrow> bool" where
  "shlex_quote c \<longleftrightarrow> c \<in> {CHR 0x27, CHR 0x22}"

fun shlex_from :: "shlex_state \<Rightarrow> string \<Rightarrow> bool \<Rightarrow> string \<Rightarrow> string list option" where
  "shlex_from Between tok q [] = Some []"
| "shlex_from Between tok q (c # cs) =
     (if shlex_space c then shlex_from Between [] False cs
      else if c = CHR 0x5C then shlex_from (Escaped None) [] False cs
      else if shlex_quote c then shlex_from (In_quotes c) [] True cs
      else shlex_from In_word [c] False cs)"
| "shlex_from In_word tok q [] = Some (if tok \<noteq> [] \<or> q then [tok] else [])"
| "shlex_from In_word tok q (c # cs) =
     (if shlex_space c
      then (if tok \<noteq> [] \<or> q then map_option ((#) tok) (shlex_from Between [] False cs)
            else shlex_from Between [] False cs)
      else if shlex_quote c then shlex_from (In_quotes c) tok True cs
      else if c = CHR 0x5C then shlex_from (Escaped None) tok q cs
      else shlex_from In_word (tok @ [c]) q cs)"
| "shlex_from (In_quotes d) tok q [] = None"
| "shlex_from (In_quotes d) tok q (c # cs) =
     (if c = d then shlex_from In_word tok True cs
      else if c = CHR 0x5C \<and> d = CHR 0x22 then shlex_from (Escaped (Some d)) tok True cs
      else shlex_from (In_quotes d) (tok @ [c]) True cs)"
| "shlex_from (Escaped r) tok q [] = None"
| "shlex_from (Escaped None) tok q (c # cs) = shlex_from In_word (tok @ [c]) q cs"
| "shlex_from (Escaped (Some d)) tok q (c # cs) =
     shlex_from (In_quotes d) (tok @ (if c \<noteq> CHR 0x5C \<and> c \<noteq> d then [CHR 0x5C, c] else [c])) q cs"

definition shlex_split :: "string \<Rightarrow> string list option" where
  "shlex_split s = shlex_from Between [] False s"

section \<open>The process jail\<close>

text \<open>
  Paths are component lists below the file system's root; \<open>fs_resolve\<close> follows the links and
  dots of an absolute path, \<open>fs_is_dir\<close> looks at the disk, \<open>spawn\<close> runs a process.
\<close>

datatype target_path = Absolute "string list" | Relative "string list"

datatype 'x jail_error = Path_escape target_path | No_argv | Not_a_directory "string list" | Spawn_raised 'x

datatype 'x spawned = Exited int string string | Timed_out | Raised 'x

record 'x jail =
  j_root :: "string list"
  j_timeout :: int
  j_resolve :: "string list \<Rightarrow> string list"
  j_is_dir :: "string list \<Rightarrow> bool"
  j_spawn :: "string list \<Rightarrow> string list \<Rightarrow> int \<Rightarrow> 'x spawned"

definition resolve_and_verify :: "'x jail \<Rightarrow> target_path \<Rightarrow> 'x jail_error + string list" where
  "resolve_and_verify j p =
     (let resolved = j_resolve j (case p of Absolute cs \<Rightarrow> cs | Relative cs \<Rightarrow> j_root j @ cs)
      in if take (length (j_root j)) resolved = j_root j then Inr resolved else Inl (Path_escape p))"

definition jail_run :: "'x jail \<Rightarrow> string list \<Rightarrow> int option \<Rightarrow> target_path \<Rightarrow>
    'x jail_error + int \<times> string \<times> string" where
  "jail_run j argv timeout cwd =
     (if argv = [] then Inl No_argv
      else bindE (resolve_and_verify j cwd) (\<lambda>work.
        if \<not> j_is_dir j work then Inl (Not_a_directory work)
        else case j_spawn j argv work (case timeout of None \<Rightarrow> j_timeout j | Some t \<Rightarrow> t) of
               Exited code out err \<Rightarrow> Inr (code, out, err)
             | Timed_out \<Rightarrow> Inr (124, '''', ''timed out'')
             | Raised x \<Rightarrow> Inl (Spawn_raised x)))"

section \<open>The default check runner\<close>

datatype 'x runner_error = Bad_field decode_error | Unhashable json | No_judge | Jail_failed "'x jail_error"
  | Judge_raised 'x

record 'x runner =
  rn_jail :: "'x jail"
  rn_judge :: "(check \<Rightarrow> jdict \<Rightarrow> 'x + jdict) option"
  rn_eval :: "json \<Rightarrow> string + json"
  rn_repr :: "json \<Rightarrow> string"
  rn_int :: "string \<Rightarrow> int option"

definition verdict :: "bool \<Rightarrow> string \<Rightarrow> jdict" where
  "verdict ok msg = [(''passed'', JBool ok), (''message'', JStr msg)]"

definition field :: "decode_error + 'a \<Rightarrow> 'x runner_error + 'a" where
  "field m = (case m of Inl e \<Rightarrow> Inl (Bad_field e) | Inr x \<Rightarrow> Inr x)"

text \<open>\<open>ctx.get("agent", {}).get(key, [])\<close> as a set, whose members must be hashable.\<close>

fun hashable :: "json \<Rightarrow> bool" where
  "hashable (JList xs) = False"
| "hashable (JDict d) = False"
| "hashable j = True"

definition all_hashable :: "json list \<Rightarrow> 'x runner_error + json list" where
  "all_hashable js = (case find (\<lambda>j. \<not> hashable j) js of None \<Rightarrow> Inr js | Some j \<Rightarrow> Inl (Unhashable j))"

definition agent_list :: "string \<Rightarrow> jdict \<Rightarrow> 'x runner_error + json list" where
  "agent_list key ctx =
     bindE (field (opt ''agent'' [] as_dict ctx)) (\<lambda>agent.
     bindE (field (opt key [] as_list agent)) all_hashable)"

definition check_checklist :: "'x runner \<Rightarrow> check \<Rightarrow> jdict \<Rightarrow> 'x runner_error + jdict" where
  "check_checklist rn c ctx =
     bindE (field (opt ''items'' [] as_list (c_payload c))) (\<lambda>items.
     bindE (agent_list ''checklist_confirmed'' ctx) (\<lambda>confirmed.
     bindE (all_hashable items) (\<lambda>items.
     let missing = filter (\<lambda>i. i \<notin> set confirmed) items
     in Inr (if missing \<noteq> [] then verdict False (''unconfirmed items: '' @ rn_repr rn (JList missing))
             else verdict True ''all items confirmed''))))"

definition check_manual :: "check \<Rightarrow> jdict \<Rightarrow> 'x runner_error + jdict" where
  "check_manual c ctx =
     bindE (agent_list ''confirmed_check_ids'' ctx) (\<lambda>confirmed.
     Inr (if JStr (c_id c) \<notin> set confirmed then verdict False ''awaiting manual confirmation''
          else verdict True ''manually confirmed''))"

definition check_predicate :: "'x runner \<Rightarrow> check \<Rightarrow> 'x runner_error + jdict" where
  "check_predicate rn c =
     (let expr = (case dict_get (c_payload c) ''expr'' of None \<Rightarrow> JStr '''' | Some e \<Rightarrow> e)
      in case rn_eval rn expr of
           Inl exc \<Rightarrow> Inr (verdict False (''predicate error: '' @ exc))
         | Inr result \<Rightarrow>
             Inr (verdict (truthy result) (''expr='' @ rn_repr rn expr @ '' -> '' @ rn_repr rn result)))"

text \<open>\<^verbatim>\<open>shlex.split(None)\<close> is a ValueError too, and is caught as one.\<close>

definition check_command :: "'x runner \<Rightarrow> check \<Rightarrow> 'x runner_error + jdict" where
  "check_command rn c =
     (let run = (case dict_get (c_payload c) ''run'' of None \<Rightarrow> JStr '''' | Some e \<Rightarrow> e);
          timeout = (case dict_get (c_payload c) ''timeout'' of None \<Rightarrow> JNull | Some t \<Rightarrow> t)
      in bindE (if run = JNull then Inr None
                else bindE (field (as_str run)) (\<lambda>s. Inr (shlex_split s))) (\<lambda>split.
         case split of
           None \<Rightarrow> Inr (verdict False ''cannot parse command'')
         | Some [] \<Rightarrow> Inr (verdict False ''empty command'')
         | Some argv \<Rightarrow>
             bindE (if truthy timeout then field (bindE (to_int (rn_int rn) timeout) (\<lambda>t. Inr (Some t)))
                    else Inr None) (\<lambda>limit.
             case jail_run (rn_jail rn) argv limit (Relative [''.'']) of
               Inl e \<Rightarrow> Inl (Jail_failed e)
             | Inr (code, out, err) \<Rightarrow>
                 Inr (verdict (code = 0)
                        (''exit='' @ str_int code @ [CHR 0x0A] @ slice_tail 2000 (out @ err))))))"

definition check_llm_review :: "'x runner \<Rightarrow> check \<Rightarrow> jdict \<Rightarrow> 'x runner_error + jdict" where
  "check_llm_review rn c ctx =
     (case rn_judge rn of
        None \<Rightarrow> Inl No_judge
      | Some f \<Rightarrow> (case f c ctx of Inl x \<Rightarrow> Inl (Judge_raised x) | Inr r \<Rightarrow> Inr r))"

definition default_check_runner :: "'x runner \<Rightarrow> check \<Rightarrow> jdict \<Rightarrow> 'x runner_error + jdict" where
  "default_check_runner rn c ctx =
     (case c_type c of
        CHECKLIST \<Rightarrow> check_checklist rn c ctx
      | MANUAL \<Rightarrow> check_manual c ctx
      | PREDICATE \<Rightarrow> check_predicate rn c
      | COMMAND \<Rightarrow> check_command rn c
      | LLM_REVIEW \<Rightarrow> check_llm_review rn c ctx)"

section \<open>Parsed runbooks\<close>

definition graph_ok :: "runbook \<Rightarrow> bool" where
  "graph_ok rb \<longleftrightarrow> rb_initial rb \<in> set (map fst (rb_nodes rb))
     \<and> (\<forall>e \<in> set (rb_edges rb). from_node e \<in> set (map fst (rb_nodes rb)) \<and> to_node e \<in> set (map fst (rb_nodes rb)))
     \<and> (\<forall>(k, n) \<in> set (rb_nodes rb). n_id n = k)"

lemma check_edges_ok:
  "check_edges ids es = Inr u \<longleftrightarrow> (\<forall>e \<in> set es. from_node e \<in> set ids \<and> to_node e \<in> set ids)"
  by (induction es) auto

lemma parse_node_items_ids:
  "mapE (parse_node_item digest) raws = Inr nodes \<Longrightarrow> (k, n) \<in> set nodes \<Longrightarrow> n_id n = k"
  by (induction raws arbitrary: nodes)
    (auto simp: bindE_Inr parse_node_item_def parse_node_def)

lemma parsed_graph_ok:
  assumes "parse_runbook env doc = Inr rb"
  shows "graph_ok rb"
proof -
  have "\<exists>raws. mapE (parse_node_item (ye_digest env)) raws = Inr (rb_nodes rb)"
    and init: "rb_initial rb \<in> set (map fst (rb_nodes rb))"
    and edges: "check_edges (map fst (rb_nodes rb)) (rb_edges rb) = Inr ()"
    using assms
    by (auto simp: parse_runbook_def Let_def bindE_Inr image_iff split: option.splits if_splits) force+
  then obtain raws where "mapE (parse_node_item (ye_digest env)) raws = Inr (rb_nodes rb)" by blast
  from parse_node_items_ids [OF this] init edges show ?thesis
    by (auto simp: graph_ok_def check_edges_ok)
qed

lemma path_end_in_nodes:
  "graph_ok rb \<Longrightarrow> n \<in> set (map fst (rb_nodes rb)) \<Longrightarrow> path_end rb n ts = Some m \<Longrightarrow>
    m \<in> set (map fst (rb_nodes rb))"
proof (induction rb n ts rule: path_end.induct)
  case (2 rb n d ts)
  then show ?case
    by (fastforce simp: graph_ok_def split: option.splits json.splits if_splits)
qed auto

lemma node_found: "k \<in> set (map fst (rb_nodes rb)) \<Longrightarrow> \<exists>n. lookup_node rb (Some k) = Inr n"
  by (cases "dict_get (rb_nodes rb) k") (auto simp: lookup_node_def map_of_eq_None_iff)

context run_state_backend
begin

text \<open>On a well-formed graph only the runners can raise.\<close>

lemma goto_raises_only_runners:
  fixes env :: "'c goto_env"
  assumes "graph_ok rb" and "run_stored h rb rid st" and "snd (runbook_goto B rb rid target env st) = Inl err"
  shows "(\<exists>x. err = Runner_raised x) \<or> (\<exists>x. err = Recorder_raised x)"
proof -
  from assms(2) obtain s where s: "b_load B rid st = Inr (Some s)" "run_ok h rb s"
    by (auto simp: run_stored_def)
  obtain k entry where k: "lookup_entry s = (Inr entry :: 'c run_error + _)"
    using s(2) by (auto simp: run_ok_def lookup_entry_def)
  have ends: "\<exists>n. lookup_node rb (current_node s) = (Inr n :: 'c run_error + _)"
    using s(2) path_end_in_nodes [OF assms(1), of "rb_initial rb" "transitions s"] assms(1) node_found
    by (cases "current_node s") (auto simp: run_ok_def graph_ok_def)
  then obtain n where n: "lookup_node rb (current_node s) = (Inr n :: 'c run_error + _)" ..
  have e: "\<exists>tn. lookup_node rb (Some (to_node e)) = (Inr tn :: 'c run_error + _)" if "e \<in> set (rb_edges rb)" for e
    using that assms(1) by (intro node_found) (auto simp: graph_ok_def)
  have t: "(\<exists>x. err = Runner_raised x)" if "take_edge rb env rid e n eid results s = Inl err" "e \<in> set (rb_edges rb)"
    for e n eid results err
    using that e [OF that(2)] by (auto simp: take_edge_def Let_def split: option.splits)
  show ?thesis
    using assms(3) s k n t
    by (auto simp: runbook_goto_def require_state_def Let_def find_Some_iff
        split: option.splits if_splits check_outcome.splits sum.splits)
qed

lemma current_never_raises:
  assumes "graph_ok rb" and "run_stored h rb rid st"
  shows "\<exists>v. runbook_current B rb rid st = (Inr v :: 'c run_error + _)"
proof -
  from assms(2) obtain s where s: "b_load B rid st = Inr (Some s)" "run_ok h rb s"
    by (auto simp: run_stored_def)
  have "\<exists>n. lookup_node rb (current_node s) = (Inr n :: 'c run_error + _)"
    using s(2) path_end_in_nodes [OF assms(1), of "rb_initial rb" "transitions s"] assms(1) node_found
    by (cases "current_node s") (auto simp: run_ok_def graph_ok_def)
  with s show ?thesis by (auto simp: runbook_current_def require_state_def)
qed

text \<open>A later start with the same definition answers the stored run, with another it refuses.\<close>

lemma resume_stored:
  assumes "run_stored (content_hash digest rb) rb rid st" and "rid \<noteq> ''''"
  shows "\<exists>s. b_load B rid st = Inr (Some s)
    \<and> start_runbook digest B rb' (Some rid) True fresh eid iso_now now st
      = (st, if content_hash digest rb' = content_hash digest rb then Inr s
             else Inl (Hash_mismatch (Some (content_hash digest rb)) (content_hash digest rb')))"
proof -
  from assms(1) obtain s where s: "b_load B rid st = Inr (Some s)" "run_ok (content_hash digest rb) rb s" "inv st"
    by (auto simp: run_stored_def)
  then have "b_exists B rid st" by (simp add: exists_load)
  with s assms(2) show ?thesis
    by (auto simp: start_runbook_def require_state_def run_ok_def Let_def)
qed

end

section \<open>Properties\<close>

text \<open>The evidence the default runner demands for a check.\<close>

definition items_of :: "string \<Rightarrow> jdict \<Rightarrow> json list" where
  "items_of key d = (case dict_get d key of Some (JList xs) \<Rightarrow> xs | _ \<Rightarrow> [])"

definition evidence :: "'x runner \<Rightarrow> jdict \<Rightarrow> jdict \<Rightarrow> check \<Rightarrow> bool" where
  "evidence rn ctx agent c =
     (case c_type c of
        MANUAL \<Rightarrow> JStr (c_id c) \<in> set (items_of ''confirmed_check_ids'' agent)
      | CHECKLIST \<Rightarrow> set (items_of ''items'' (c_payload c)) \<subseteq> set (items_of ''checklist_confirmed'' agent)
      | PREDICATE \<Rightarrow>
          (\<exists>v. rn_eval rn (case dict_get (c_payload c) ''expr'' of None \<Rightarrow> JStr '''' | Some e \<Rightarrow> e) = Inr v \<and> truthy v)
      | COMMAND \<Rightarrow>
          (\<exists>s argv limit out err. dict_get (c_payload c) ''run'' = Some (JStr s) \<and> shlex_split s = Some argv
             \<and> argv \<noteq> [] \<and> jail_run (rn_jail rn) argv limit (Relative [''.'']) = Inr (0, out, err))
      | LLM_REVIEW \<Rightarrow> (\<exists>f r. rn_judge rn = Some f \<and> f c ctx = Inr r \<and> passed r))"

lemma passed_verdict [simp]: "passed (verdict ok msg) = ok"
  by (simp add: passed_def verdict_def)

lemma field_Inr [simp]: "field m = Inr x \<longleftrightarrow> m = Inr x"
  by (cases m) (simp_all add: field_def)

lemma all_hashable_Inr: "all_hashable js = Inr ks \<Longrightarrow> ks = js"
  by (auto simp: all_hashable_def split: option.splits)

lemma opt_list_Inr: "opt key [] as_list d = Inr xs \<Longrightarrow> xs = items_of key d"
  by (auto simp: opt_def items_of_def split: option.splits json.splits elim: as_list.elims)

lemma agent_list_Inr:
  "agent_list key (check_ctx rid nid agent) = Inr xs \<Longrightarrow> xs = items_of key agent"
  by (auto simp: agent_list_def bindE_Inr opt_def [of "''agent''"] check_ctx_def
      dest!: all_hashable_Inr opt_list_Inr)

lemma shlex_empty [simp]: "shlex_split '''' = Some []"
  by (simp add: shlex_split_def)

lemma as_str_Inr [simp]: "as_str j = Inr s \<longleftrightarrow> j = JStr s"
  by (cases j) auto

lemma command_passed:
  assumes "check_command rn c = Inr r" and "passed r"
  shows "\<exists>s argv limit out err. dict_get (c_payload c) ''run'' = Some (JStr s) \<and> shlex_split s = Some argv
    \<and> argv \<noteq> [] \<and> jail_run (rn_jail rn) argv limit (Relative [''.'']) = Inr (0, out, err)"
proof -
  let ?run = "case dict_get (c_payload c) ''run'' of None \<Rightarrow> JStr '''' | Some e \<Rightarrow> e"
  from assms(1) obtain split where s: "(if ?run = JNull then Inr None
      else bindE (field (as_str ?run)) (\<lambda>s. Inr (shlex_split s))) = (Inr split :: 'a runner_error + _)"
    by (auto simp only: check_command_def Let_def bindE_Inr)
  then obtain argv where argv: "split = Some argv" "argv \<noteq> []"
    using assms by (auto simp: check_command_def Let_def split: option.splits list.splits)
  with s obtain cmd where cmd: "?run = JStr cmd" "shlex_split cmd = Some argv"
    by (auto simp: bindE_Inr split: if_splits)
  with argv have run: "dict_get (c_payload c) ''run'' = Some (JStr cmd)"
    by (auto split: option.splits)
  have "\<exists>limit. (case jail_run (rn_jail rn) argv limit (Relative [''.'']) of
      Inl e \<Rightarrow> Inl (Jail_failed e)
    | Inr (code, out, err) \<Rightarrow>
        Inr (verdict (code = 0)
               (''exit='' @ str_int code @ [CHR 0x0A] @ slice_tail 2000 (out @ err)))) = Inr r"
    using assms(1) run cmd argv
    by (cases argv) (auto simp: check_command_def Let_def bindE_Inr split: if_splits)
  then obtain limit out err where "jail_run (rn_jail rn) argv limit (Relative [''.'']) = Inr (0, out, err)"
    using assms(2) by (fastforce split: sum.splits)
  with run cmd argv show ?thesis by blast
qed

lemma default_runner_evidence:
  assumes "default_check_runner rn c (check_ctx rid nid agent) = Inr r" and "passed r"
  shows "evidence rn (check_ctx rid nid agent) agent c"
proof (cases "c_type c")
  case CHECKLIST
  with assms show ?thesis
    by (auto simp: default_check_runner_def evidence_def check_checklist_def bindE_Inr Let_def
        filter_empty_conv dest!: agent_list_Inr opt_list_Inr all_hashable_Inr split: if_splits)
next
  case MANUAL
  with assms show ?thesis
    by (auto simp: default_check_runner_def evidence_def check_manual_def bindE_Inr
        dest!: agent_list_Inr split: if_splits)
next
  case PREDICATE
  with assms show ?thesis
    by (auto simp: default_check_runner_def evidence_def check_predicate_def Let_def split: sum.splits)
next
  case LLM_REVIEW
  with assms show ?thesis
    by (auto simp: default_check_runner_def evidence_def check_llm_review_def split: sum.splits option.splits)
next
  case COMMAND
  with assms command_passed [of rn c r] show ?thesis
    by (auto simp: default_check_runner_def evidence_def)
qed

text \<open>
  With the default check runner a transition is always backed by evidence: every blocking check
  of the node left was confirmed by the agent (manual checks and all items of a checklist),
  evaluated to true (predicates), ran in the jail and exited with zero (commands), or was passed
  by the judge. In particular an unconfirmed manual check can not be passed.
\<close>

theorem default_runner_demands_evidence:
  assumes "runbook_goto B rb rid target env st = (st', Inr (Moved frm tgt eid prompt))"
    and "ge_checks env = default_check_runner rn"
  shows "\<exists>s n entry. b_load B rid st = Inr (Some s) \<and> dict_get (rb_nodes rb) frm = Some n
    \<and> dict_get (entries s) (the (current_entry_id s)) = Some entry
    \<and> (\<forall>c \<in> set (n_before_transfer n @ re_dynamic_checks entry). c_blocking c \<longrightarrow>
         evidence rn (check_ctx rid frm (ge_agent env)) (ge_agent env) c)"
proof -
  from goto_moved [OF assms(1)] obtain s n entry where "b_load B rid st = Inr (Some s)"
    "dict_get (rb_nodes rb) frm = Some n" "dict_get (entries s) (the (current_entry_id s)) = Some entry"
    "\<And>c. c \<in> set (n_before_transfer n @ re_dynamic_checks entry) \<Longrightarrow> c_blocking c \<Longrightarrow>
         \<exists>r. ge_checks env c (check_ctx rid frm (ge_agent env)) = Inr r \<and> passed r"
    by blast
  then show ?thesis
    using default_runner_evidence assms(2) by (metis (no_types, lifting))
qed

definition ex_jail :: "unit jail" where
  "ex_jail = \<lparr>j_root = [''w''], j_timeout = 60, j_resolve = (\<lambda>p. filter (\<lambda>c. c \<noteq> ''.'') p),
     j_is_dir = (\<lambda>p. True), j_spawn = (\<lambda>argv cwd t. Exited 0 ''ok'' '''')\<rparr>"

definition ex_runner :: "unit runner" where
  "ex_runner = \<lparr>rn_jail = ex_jail, rn_judge = None, rn_eval = (\<lambda>e. Inr (JBool True)), rn_repr = (\<lambda>j. ''?''),
     rn_int = (\<lambda>s. None)\<rparr>"

definition ex_goto :: "unit runner_error goto_env" where
  "ex_goto = \<lparr>ge_checks = default_check_runner ex_runner, ge_hooks = None,
     ge_agent = [(''confirmed_check_ids'', JList [JStr ''c''])], ge_causal = None, ge_entry_id = ''x'', ge_now = 1\<rparr>"

theorem default_runner_demands_evidence_witness:
  "\<exists>st'. runbook_goto (file_backend Some) ex_runbook' ''r'' ''m'' ex_goto [(''r'', to_dict ex_state)]
      = (st', Inr (Moved ''n'' ''m'' ''x'' ''''))
    \<and> (\<exists>n. dict_get (rb_nodes ex_runbook') ''n'' = Some n
         \<and> (\<forall>c \<in> set (n_before_transfer n). c_blocking c \<longrightarrow>
              evidence ex_runner (check_ctx ''r'' ''n'' (ge_agent ex_goto)) (ge_agent ex_goto) c))"
proof -
  have l: "b_load (file_backend Some) ''r'' [(''r'', to_dict ex_state)] = Inr (Some ex_state)"
    by (simp add: file_backend_def run_state_round)
  have "default_check_runner ex_runner ex_check (check_ctx ''r'' ''n'' (ge_agent ex_goto))
      = Inr (verdict True ''manually confirmed'')"
    by (simp add: default_check_runner_def ex_check_def check_manual_def agent_list_def check_ctx_def
        ex_goto_def opt_def all_hashable_def field_def)
  moreover have "c_blocking ex_check" by (simp add: ex_check_def)
  ultimately have "\<exists>st'. runbook_goto (file_backend Some) ex_runbook' ''r'' ''m'' ex_goto
      [(''r'', to_dict ex_state)] = (st', Inr (Moved ''n'' ''m'' ''x'' ''''))"
    by (subst goto_checks [OF l, where e = ex_edge and k = "''e''" and entry = "new_entry ''e'' ''n'' 0" and n = ex_node])
      (simp_all add: ex_state_def ex_runbook'_def ex_runbook_def ex_edge_def ex_node_def ex_goto_def out_edges_def
        attempts_of_def lookup_node_def new_entry_def take_edge_def run_hooks_if_def Let_def)
  then obtain st' where g: "runbook_goto (file_backend Some) ex_runbook' ''r'' ''m'' ex_goto
      [(''r'', to_dict ex_state)] = (st', Inr (Moved ''n'' ''m'' ''x'' ''''))" by blast
  from default_runner_demands_evidence [OF g, of ex_runner] g show ?thesis
    by (auto simp: ex_goto_def)
qed

text \<open>A run of a runbook: started fresh, then any transition attempts and dynamic checks.\<close>

definition run_of :: "'b backend \<Rightarrow> (json \<Rightarrow> string) \<Rightarrow> runbook \<Rightarrow> string \<Rightarrow> string \<Rightarrow> string \<Rightarrow> rat \<Rightarrow>
    'x run_op list \<Rightarrow> 'b \<Rightarrow> 'b" where
  "run_of B digest rb rid eid iso_now now ops st = fold (run_step B rb rid) ops
     (fst (start_runbook digest B rb (Some rid) False '''' eid iso_now now st :: 'b \<times> (unit run_error + run_state)))"

lemma run_of_stored:
  assumes "rid \<noteq> ''''" and "reread iso_now = Some iso_now"
  shows "files_ok reread fs \<Longrightarrow>
      file_runs.run_stored reread (content_hash digest rb) rb rid
        (run_of (file_backend reread) digest rb rid eid iso_now now ops fs)"
    and "rows_ok reread rows \<Longrightarrow>
      sqlite_runs.run_stored reread (content_hash digest rb) rb rid
        (run_of (sqlite_backend reread) digest rb rid eid iso_now now ops rows)"
proof -
  have d: "dated reread s" if "started_at s = iso_now" for s
    using that assms(2) by (simp add: dated_def)
  show "files_ok reread fs \<Longrightarrow> file_runs.run_stored reread (content_hash digest rb) rb rid
        (run_of (file_backend reread) digest rb rid eid iso_now now ops fs)"
    unfolding run_of_def
    by (rule file_runs.run_stored_steps [OF file_runs.start_stored]) (simp_all add: assms(1) d)
  show "rows_ok reread rows \<Longrightarrow> sqlite_runs.run_stored reread (content_hash digest rb) rb rid
        (run_of (sqlite_backend reread) digest rb rid eid iso_now now ops rows)"
    unfolding run_of_def
    by (rule sqlite_runs.run_stored_steps [OF sqlite_runs.start_stored]) (simp_all add: assms(1) d)
qed

text \<open>
  C12. A runbook that parsed never fails on its own structure: in every run of it, on the file and
  on the SQLite backend, looking at the current node succeeds, and a transition attempt can only
  raise what a check, a hook or the failure recorder raised, never a missing node, entry, run or an
  undecodable state.
\<close>

theorem parsed_runbook_never_breaks:
  fixes env :: "'x goto_env"
  assumes "parse_runbook yenv doc = Inr rb" and "rid \<noteq> ''''" and "reread iso_now = Some iso_now"
    and "files_ok reread fs" and "rows_ok reread rows"
  shows "(\<exists>v. runbook_current (file_backend reread) rb rid
        (run_of (file_backend reread) digest rb rid eid iso_now now ops fs) = (Inr v :: 'x run_error + _))
    \<and> (\<exists>v. runbook_current (sqlite_backend reread) rb rid
        (run_of (sqlite_backend reread) digest rb rid eid iso_now now ops rows) = (Inr v :: 'x run_error + _))
    \<and> (case snd (runbook_goto (file_backend reread) rb rid target env
              (run_of (file_backend reread) digest rb rid eid iso_now now ops fs)) of
         Inl err \<Rightarrow> (\<exists>x. err = Runner_raised x \<or> err = Recorder_raised x) | Inr _ \<Rightarrow> True)
    \<and> (case snd (runbook_goto (sqlite_backend reread) rb rid target env
              (run_of (sqlite_backend reread) digest rb rid eid iso_now now ops rows)) of
         Inl err \<Rightarrow> (\<exists>x. err = Runner_raised x \<or> err = Recorder_raised x) | Inr _ \<Rightarrow> True)"
proof -
  note rb = parsed_graph_ok [OF assms(1)]
  note f = run_of_stored(1) [OF assms(2,3,4), where digest = digest and rb = rb and eid = eid and now = now and ops = ops]
    and q = run_of_stored(2) [OF assms(2,3,5), where digest = digest and rb = rb and eid = eid and now = now and ops = ops]
  show ?thesis
    using file_runs.current_never_raises [OF rb f] sqlite_runs.current_never_raises [OF rb q]
      file_runs.goto_raises_only_runners [OF rb f, of target env]
      sqlite_runs.goto_raises_only_runners [OF rb q, of target env]
    by (auto simp: ex_disj_distrib split: sum.split)
qed

definition ex_doc :: jdict where
  "ex_doc = [(''name'', JStr ''b''), (''initial'', JStr ''n''),
     (''nodes'', JDict [(''n'', JNull), (''m'', JDict [(''prompt'', JStr ''go'')])]),
     (''edges'', JList [JDict [(''from'', JStr ''n''), (''to'', JStr ''m'')]])]"

definition ex_yaml :: yaml_env where
  "ex_yaml = \<lparr>ye_digest = (\<lambda>j. ''h''), ye_int = (\<lambda>s. None), ye_str = (\<lambda>j. '''')\<rparr>"

theorem parsed_runbook_never_breaks_witness:
  "\<exists>rb v. parse_runbook ex_yaml ex_doc = Inr rb
    \<and> runbook_current (file_backend Some) rb ''r''
        (run_of (file_backend Some) (\<lambda>j. ''h'') rb ''r'' ''e'' ''t'' 0 ([] :: unit run_op list) [])
      = (Inr v :: unit run_error + _)"
proof -
  obtain rb where p: "parse_runbook ex_yaml ex_doc = Inr rb"
    by (simp add: ex_doc_def ex_yaml_def parse_runbook_def parse_node_item_def parse_node_def parse_edge_def
        opt_def bad_def)
  from parsed_runbook_never_breaks [OF p, of "''r''" Some "''t''" "[]" "[]"
      "\<lambda>j. ''h''" "''e''" 0 "[] :: unit run_op list" "''m''" ex_env] p
  show ?thesis by (auto simp: files_ok_def rows_ok_def)
qed

text \<open>
  Resuming is safe: starting a run again under its id with resume on, after any operations,
  answers the stored state of the run when the definition has the same content hash, and refuses
  otherwise; the store is not touched in either case.
\<close>

theorem resume_checks_hash:
  assumes "rid \<noteq> ''''" and "reread iso_now = Some iso_now" and "rows_ok reread rows"
  shows "\<exists>s. b_load (sqlite_backend reread) rid
        (run_of (sqlite_backend reread) digest rb rid eid iso_now now ops rows) = Inr (Some s)
    \<and> start_runbook digest (sqlite_backend reread) rb' (Some rid) True fresh eid' iso' now'
        (run_of (sqlite_backend reread) digest rb rid eid iso_now now ops rows)
      = ((run_of (sqlite_backend reread) digest rb rid eid iso_now now ops rows),
         if content_hash digest rb' = content_hash digest rb then Inr s :: 'x run_error + _
         else Inl (Hash_mismatch (Some (content_hash digest rb)) (content_hash digest rb')))"
  by (rule sqlite_runs.resume_stored [OF run_of_stored(2) [OF assms] assms(1)])

theorem resume_checks_hash_witness:
  "\<exists>s. snd (start_runbook (\<lambda>j. ''h'') (sqlite_backend Some) ex_runbook (Some ''r'') True ''f'' ''e2'' ''t2'' 1
        (run_of (sqlite_backend Some) (\<lambda>j. ''h'') ex_runbook ''r'' ''e'' ''t'' 0 ([] :: unit run_op list) []))
      = (Inr s :: unit run_error + _)"
  using resume_checks_hash [where 'x = unit, of "''r''" Some "''t''" "[]" "\<lambda>j. ''h''" ex_runbook "''e''" 0
      "[] :: unit run_op list" ex_runbook "''f''" "''e2''" "''t2''" 1]
  by (auto simp: rows_ok_def)

end
