(* ===== verification/Capability.thy ===== *)
theory Capability
  imports Json Python_Text
begin

text \<open>
  Capability tokens (\<^verbatim>\<open>obase/permission_contract.py\<close>): the URL-safe base64 codec, issuing and
  verifying signed tokens, wildcard capability checks and the revocation list with its file. The
  MAC and the JSON text codec are parameters; clock readings and random nonces are arguments.
  Bytes are numbers below 256, a text character above 127 is not ASCII.
\<close>

section \<open>Base64\<close>

definition b64_alphabet :: string where
  "b64_alphabet = ''ABCDEFGHIJKLMNOPQRSTUVWXYZabcdefghijklmnopqrstuvwxyz0123456789-_''"

definition sextet :: "nat \<Rightarrow> char" where
  "sextet n = b64_alphabet ! n"

text \<open>The encoder without padding: three bytes to four characters, a rest of one or two bytes to two or three.\<close>

fun b64e :: "nat list \<Rightarrow> string" where
  "b64e [] = []"
| "b64e [a] = [sextet (a div 4), sextet (a mod 4 * 16)]"
| "b64e [a, b] = [sextet (a div 4), sextet (a mod 4 * 16 + b div 16), sextet (b mod 16 * 4)]"
| "b64e (a # b # c # cs) =
     sextet (a div 4) # sextet (a mod 4 * 16 + b div 16) # sextet (b mod 16 * 4 + c div 64)
       # sextet (c mod 64) # b64e cs"

text \<open>A character's value; \<open>+\<close> and \<open>/\<close> of the standard alphabet are accepted too.\<close>

definition char_value :: "char \<Rightarrow> nat option" where
  "char_value c =
     (let n = (of_char c :: nat)
      in if 65 \<le> n \<and> n \<le> 90 then Some (n - 65)
         else if 97 \<le> n \<and> n \<le> 122 then Some (n - 71)
         else if 48 \<le> n \<and> n \<le> 57 then Some (n + 4)
         else if n = 45 \<or> n = 43 then Some 62
         else if n = 95 \<or> n = 47 then Some 63
         else None)"

text \<open>
  \<^verbatim>\<open>binascii.a2b_base64\<close> in its lenient mode: the position in the group of four, the bits left
  over, the padding seen; characters outside the alphabet are skipped, a complete padding ends
  the input, and an incomplete group is an error.
\<close>

fun a2b :: "nat \<Rightarrow> nat \<Rightarrow> nat \<Rightarrow> string \<Rightarrow> nat list option" where
  "a2b pos left pads [] = (if pos = 0 then Some [] else None)"
| "a2b pos left pads (c # cs) =
     (if c = CHR ''=''
      then (if 2 \<le> pos \<and> 4 \<le> pos + (pads + 1) then Some []
            else a2b pos left (if 2 \<le> pos then pads + 1 else pads) cs)
      else case char_value c of
             None \<Rightarrow> a2b pos left pads cs
           | Some v \<Rightarrow>
               (if pos = 0 then a2b 1 v 0 cs
                else if pos = 1 then map_option ((#) (left * 4 + v div 16)) (a2b 2 (v mod 16) 0 cs)
                else if pos = 2 then map_option ((#) (left * 16 + v div 4)) (a2b 3 (v mod 4) 0 cs)
                else map_option ((#) (left * 64 + v)) (a2b 0 0 0 cs)))"

definition b64d :: "string \<Rightarrow> nat list option" where
  "b64d s = a2b 0 0 0 (s @ replicate ((4 - length s mod 4) mod 4) (CHR ''=''))"

section \<open>Tokens\<close>

record capability_token =
  subject :: string
  capabilities :: "string set"
  envelope_ref :: "string option"
  issuer :: string
  issued_at :: rat
  expires_at :: rat
  nonce :: string

definition ends_with :: "string \<Rightarrow> string \<Rightarrow> bool" where
  "ends_with s suffix \<longleftrightarrow> drop (length s - length suffix) s = suffix"

definition starts_with :: "string \<Rightarrow> string \<Rightarrow> bool" where
  "starts_with s p \<longleftrightarrow> take (length p) s = p"

definition cap_matches :: "string \<Rightarrow> string \<Rightarrow> bool" where
  "cap_matches cap required \<longleftrightarrow> cap = required
     \<or> (ends_with required ''.*'' \<and> starts_with cap (butlast required))
     \<or> (ends_with cap ''.*'' \<and> starts_with required (butlast cap))"

definition has_capability :: "capability_token \<Rightarrow> string \<Rightarrow> bool" where
  "has_capability t required \<longleftrightarrow> (\<exists>cap \<in> capabilities t. cap_matches cap required)"

definition is_expired :: "rat \<Rightarrow> capability_token \<Rightarrow> bool" where
  "is_expired now t \<longleftrightarrow> expires_at t > 0 \<and> now > expires_at t"

definition to_payload :: "capability_token \<Rightarrow> json" where
  "to_payload t = JDict [(''sub'', JStr (subject t)),
     (''caps'', JList (map JStr (sorted_list_of_set (capabilities t)))),
     (''env'', str_or_null (envelope_ref t)), (''iss'', JStr (issuer t)), (''iat'', JFloat (issued_at t)),
     (''exp'', JFloat (expires_at t)), (''nonce'', JStr (nonce t))]"

definition from_payload :: "json \<Rightarrow> decode_error + capability_token" where
  "from_payload j =
     bindE (as_dict j) (\<lambda>d.
     bindE (need ''sub'' as_str d) (\<lambda>sub.
     bindE (opt ''caps'' [] (\<lambda>l. bindE (as_list l) (mapE as_str)) d) (\<lambda>caps.
     bindE (opt ''env'' None as_str_option d) (\<lambda>env.
     bindE (opt ''iss'' ''obase'' as_str d) (\<lambda>iss.
     bindE (opt ''iat'' 0 as_float d) (\<lambda>iat.
     bindE (opt ''exp'' 0 as_float d) (\<lambda>exp.
     bindE (opt ''nonce'' '''' as_str d) (\<lambda>n.
       Inr \<lparr>subject = sub, capabilities = set caps, envelope_ref = env, issuer = iss,
            issued_at = iat, expires_at = exp, nonce = n\<rparr>))))))))"

section \<open>Issuing and verifying\<close>

datatype capability_error =
    Empty_secret | Empty_subject | No_capability | Empty_token | Malformed_token
  | Signature_mismatch | Invalid_payload | Token_expired | Token_revoked
  | Unicode_error | Non_ascii_comparison

text \<open>The outside of a token: the MAC of a text under a secret, and the JSON text codec.\<close>

record token_codec =
  mac :: "string \<Rightarrow> string \<Rightarrow> nat list"
  dumps :: "json \<Rightarrow> nat list"
  loads :: "nat list \<Rightarrow> json option"

definition ascii :: "string \<Rightarrow> bool" where
  "ascii s \<longleftrightarrow> (\<forall>c \<in> set s. (of_char c :: nat) < 128)"

definition sign :: "token_codec \<Rightarrow> string \<Rightarrow> string \<Rightarrow> string" where
  "sign C secret payload_b64 = b64e (mac C secret payload_b64)"

text \<open>The token an issued text stands for; \<open>fresh\<close> is the random nonce used when none is given.\<close>

definition issued_token :: "string \<Rightarrow> string list \<Rightarrow> string option \<Rightarrow> rat \<Rightarrow> string \<Rightarrow> string option \<Rightarrow>
    string \<Rightarrow> rat \<Rightarrow> capability_token" where
  "issued_token sub caps env ttl iss n fresh now = \<lparr>subject = sub, capabilities = set caps,
     envelope_ref = env, issuer = iss, issued_at = now, expires_at = (if ttl > 0 then now + ttl else 0),
     nonce = (case n of None \<Rightarrow> fresh | Some v \<Rightarrow> if v = '''' then fresh else v)\<rparr>"

definition issue :: "token_codec \<Rightarrow> string \<Rightarrow> string \<Rightarrow> string list \<Rightarrow> string option \<Rightarrow> rat \<Rightarrow> string \<Rightarrow>
    string option \<Rightarrow> string \<Rightarrow> rat \<Rightarrow> capability_error + string" where
  "issue C secret sub caps env ttl iss n fresh now =
     (if secret = '''' then Inl Empty_secret
      else if sub = '''' then Inl Empty_subject
      else if caps = [] then Inl No_capability
      else
        (let payload_b64 = b64e (dumps C (to_payload (issued_token sub caps env ttl iss n fresh now)))
         in Inr (payload_b64 @ ''.'' @ sign C secret payload_b64)))"

text \<open>\<^verbatim>\<open>token.rsplit(".", 1)\<close> into two parts.\<close>

definition rsplit_dot :: "string \<Rightarrow> (string \<times> string) option" where
  "rsplit_dot s =
     (if CHR ''.'' \<in> set s
      then Some (rev (tl (dropWhile (\<lambda>c. c \<noteq> CHR ''.'') (rev s))), rev (takeWhile (\<lambda>c. c \<noteq> CHR ''.'') (rev s)))
      else None)"

definition verify :: "token_codec \<Rightarrow> string \<Rightarrow> (string \<Rightarrow> bool) option \<Rightarrow> rat \<Rightarrow> string \<Rightarrow>
    capability_error + capability_token" where
  "verify C secret revoked now tok =
     (if tok = '''' then Inl Empty_token
      else case rsplit_dot tok of
        None \<Rightarrow> Inl Malformed_token
      | Some (payload_b64, signature) \<Rightarrow>
          if \<not> ascii payload_b64 then Inl Unicode_error
          else if \<not> ascii signature then Inl Non_ascii_comparison
          else if signature \<noteq> sign C secret payload_b64 then Inl Signature_mismatch
          else case bindE (case Option.bind (b64d payload_b64) (loads C) of
                             None \<Rightarrow> Inl (Value_error payload_b64) | Some j \<Rightarrow> Inr j) from_payload of
                 Inl _ \<Rightarrow> Inl Invalid_payload
               | Inr t \<Rightarrow>
                   if is_expired now t then Inl Token_expired
                   else if (case revoked of None \<Rightarrow> False | Some f \<Rightarrow> f (nonce t)) then Inl Token_revoked
                   else Inr t)"

text \<open>\<open>check_capability\<close>: True or a denial, as a value.\<close>

definition check_capability :: "capability_token \<Rightarrow> string \<Rightarrow> (string \<times> string \<times> string list) + unit" where
  "check_capability t required =
     (if has_capability t required then Inr ()
      else Inl (subject t, required, sorted_list_of_set (capabilities t)))"

section \<open>Revocation\<close>

record revoker =
  revoked_set :: "string set"
  persist_file :: "string option option"

text \<open>
  The outer option tells whether a path was configured, the inner one whether the file exists.
  The file holds one nonce per line; reading splits at Python's line boundaries and strips.
\<close>

definition flush_text :: "string set \<Rightarrow> string" where
  "flush_text R = concat (map (\<lambda>n. n @ [CHR 0x0A]) (sorted_list_of_set R))"

definition load_text :: "string \<Rightarrow> string set" where
  "load_text txt = set (filter (\<lambda>l. l \<noteq> []) (map strip (split_lines [] txt)))"

definition new_revoker :: "string option option \<Rightarrow> revoker" where
  "new_revoker f = \<lparr>revoked_set = (case f of Some (Some txt) \<Rightarrow> load_text txt | _ \<Rightarrow> {}), persist_file = f\<rparr>"

definition flush :: "revoker \<Rightarrow> revoker" where
  "flush r = (case persist_file r of None \<Rightarrow> r
     | Some _ \<Rightarrow> r\<lparr>persist_file := Some (Some (flush_text (revoked_set r)))\<rparr>)"

definition revoke :: "string \<Rightarrow> revoker \<Rightarrow> revoker" where
  "revoke n r = flush (r\<lparr>revoked_set := insert n (revoked_set r)\<rparr>)"

definition is_revoked :: "revoker \<Rightarrow> string \<Rightarrow> bool" where
  "is_revoked r n \<longleftrightarrow> n \<in> revoked_set r"

text \<open>A new process on the same file.\<close>

definition reopen :: "revoker \<Rightarrow> revoker" where
  "reopen r = new_revoker (persist_file r)"

section \<open>The codec round trip\<close>

lemma alphabet_values:
  "map char_value b64_alphabet = map Some [0..<64]"
  "list_all (\<lambda>c. c \<noteq> CHR ''='' \<and> c \<noteq> CHR ''.'' \<and> (of_char c :: nat) < 128) b64_alphabet"
  by (simp_all add: b64_alphabet_def char_value_def upt_rec)

lemma sextet_simps [simp]:
  assumes "n < 64"
  shows "char_value (sextet n) = Some n" "sextet n \<noteq> CHR ''=''" "sextet n \<noteq> CHR ''.''"
    "(of_char (sextet n) :: nat) < 128"
proof -
  have len: "length b64_alphabet = 64" by (simp add: b64_alphabet_def)
  then have "char_value (b64_alphabet ! n) = map char_value b64_alphabet ! n" using assms by simp
  then show "char_value (sextet n) = Some n" using assms by (simp add: alphabet_values sextet_def)
  show "sextet n \<noteq> CHR ''=''" "sextet n \<noteq> CHR ''.''" "(of_char (sextet n) :: nat) < 128"
    using alphabet_values(2) assms len by (simp_all add: list_all_length sextet_def)
qed

definition bytes :: "nat list \<Rightarrow> bool" where
  "bytes bs \<longleftrightarrow> (\<forall>b \<in> set bs. b < 256)"

lemma bytes_simps [simp]: "bytes []" "bytes (b # bs) \<longleftrightarrow> b < 256 \<and> bytes bs"
  by (simp_all add: bytes_def)

text \<open>What a character does at each position, and what a group decodes to.\<close>

lemma a2b_steps:
  assumes "v < 64"
  shows "a2b 0 l p (sextet v # cs) = a2b 1 v 0 cs"
    "a2b 1 l p (sextet v # cs) = map_option ((#) (l * 4 + v div 16)) (a2b 2 (v mod 16) 0 cs)"
    "a2b 2 l p (sextet v # cs) = map_option ((#) (l * 16 + v div 4)) (a2b 3 (v mod 4) 0 cs)"
    "a2b 3 l p (sextet v # cs) = map_option ((#) (l * 64 + v)) (a2b 0 0 0 cs)"
  by (subst a2b.simps, simp only: sextet_simps [OF assms] if_False if_True option.case, simp)+

lemma a2b_pads:
  "a2b 2 l 0 ''=='' = Some []" "a2b 3 l 0 ''='' = Some []"
  by (simp_all add: numeral_2_eq_2 numeral_3_eq_3)

declare a2b.simps [simp del]

lemma a2b_group:
  assumes "v < 64" "w < 64" "x < 64" "y < 64"
  shows "a2b 0 l p (sextet v # sextet w # sextet x # sextet y # cs)
    = map_option (\<lambda>bs. (v * 4 + w div 16) # (w mod 16 * 16 + x div 4) # (x mod 4 * 64 + y) # bs) (a2b 0 0 0 cs)"
  by (simp only: a2b_steps assms option.map_comp) (simp add: comp_def)

lemma a2b_rest:
  assumes "v < 64" "w < 64" "x < 64"
  shows "a2b 0 l p [sextet v, sextet w, CHR ''='', CHR ''=''] = Some [v * 4 + w div 16]"
    "a2b 0 l p [sextet v, sextet w, sextet x, CHR ''=''] = Some [v * 4 + w div 16, w mod 16 * 16 + x div 4]"
  by (simp_all only: a2b_steps assms a2b_pads option.map)

lemma div_mod_add:
  fixes x d k :: nat
  assumes "d < k"
  shows "(x * k + d) div k = x" "(x * k + d) mod k = d"
  using assms by simp_all

lemma group_bytes:
  fixes a b c :: nat
  assumes "a < 256" "b < 256" "c < 256"
  shows "a div 4 < 64" "a mod 4 * 16 + b div 16 < 64" "b mod 16 * 4 + c div 64 < 64" "c mod 64 < 64"
    "a div 4 * 4 + (a mod 4 * 16 + b div 16) div 16 = a"
    "(a mod 4 * 16 + b div 16) mod 16 * 16 + (b mod 16 * 4 + c div 64) div 4 = b"
    "(b mod 16 * 4 + c div 64) mod 4 * 64 + c mod 64 = c"
proof -
  have b: "b div 16 < 16" and c: "c div 64 < 4" using assms by simp_all
  have "a mod 4 < 4" "b mod 16 < 16" by simp_all
  with b c show "a mod 4 * 16 + b div 16 < 64" "b mod 16 * 4 + c div 64 < 64" by linarith+
  show "a div 4 < 64" "c mod 64 < 64" using assms by simp_all
  show "a div 4 * 4 + (a mod 4 * 16 + b div 16) div 16 = a"
    "(a mod 4 * 16 + b div 16) mod 16 * 16 + (b mod 16 * 4 + c div 64) div 4 = b"
    "(b mod 16 * 4 + c div 64) mod 4 * 64 + c mod 64 = c"
    by (simp_all only: div_mod_add [OF b] div_mod_add [OF c] div_mult_mod_eq)
qed


definition padding :: "nat \<Rightarrow> string" where
  "padding n = replicate ((4 - n mod 4) mod 4) (CHR ''='')"

lemma padding_simps [simp]:
  "padding 0 = ''''" "padding (Suc (Suc (Suc (Suc n)))) = padding n"
  "padding 2 = ''==''" "padding 3 = ''=''" "padding (Suc (Suc 0)) = ''==''" "padding (Suc (Suc (Suc 0))) = ''=''"
proof -
  have "Suc (Suc (Suc (Suc n))) mod 4 = n mod 4" by presburger
  then show "padding (Suc (Suc (Suc (Suc n)))) = padding n" by (simp only: padding_def)
qed (simp_all add: padding_def numeral_2_eq_2)

lemma a2b_b64e: "bytes bs \<Longrightarrow> a2b 0 l p (b64e bs @ padding (length (b64e bs))) = Some bs"
proof (induction bs arbitrary: l p rule: b64e.induct)
  case (2 a)
  then have a: "a < 256" by simp
  note g = group_bytes [OF a, of 0 0, unfolded div_0 mod_0 add_0_right mult_0 add_0_left]
  have "length (b64e [a]) = 2" by simp
  then show ?case
    by (simp only: b64e.simps padding_simps append.simps a2b_rest(1) [OF g(1,2) g(1)] g(5))
next
  case (3 a b)
  then have ab: "a < 256" "b < 256" by simp_all
  note g = group_bytes [OF ab, of 0, unfolded div_0 mod_0 add_0_right mult_0 add_0_left]
  have "length (b64e [a, b]) = 3" by simp
  then show ?case
    by (simp only: b64e.simps padding_simps append.simps a2b_rest(2) [OF g(1,2,3)] g(5,6))
next
  case (4 a b c cs)
  then have abc: "a < 256" "b < 256" "c < 256" and cs: "bytes cs" by simp_all
  note g = group_bytes [OF abc]
  have "length (b64e (a # b # c # cs)) = Suc (Suc (Suc (Suc (length (b64e cs)))))" by simp
  then have "a2b 0 l p (b64e (a # b # c # cs) @ padding (length (b64e (a # b # c # cs))))
      = map_option (\<lambda>bs. a # b # c # bs) (a2b 0 0 0 (b64e cs @ padding (length (b64e cs))))"
    by (simp only: b64e.simps padding_simps append.simps a2b_group [OF g(1-4)] g(5-7))
  then show ?case by (simp only: "4.IH" [OF cs] option.map)
qed (simp add: a2b.simps)

lemma b64_round: "bytes bs \<Longrightarrow> b64d (b64e bs) = Some bs"
  using a2b_b64e [of bs 0 0] by (simp add: b64d_def padding_def)

lemma b64e_inject: "bytes bs \<Longrightarrow> bytes cs \<Longrightarrow> b64e bs = b64e cs \<Longrightarrow> bs = cs"
  using b64_round by (metis option.inject)

definition plain :: "char \<Rightarrow> bool" where
  "plain c \<longleftrightarrow> c \<noteq> CHR ''.'' \<and> (of_char c :: nat) < 128"

lemma plain_sextet [simp]: "n < 64 \<Longrightarrow> plain (sextet n)"
  by (simp add: plain_def)

lemma b64e_plain: "bytes bs \<Longrightarrow> \<forall>c \<in> set (b64e bs). plain c"
proof (induction bs rule: b64e.induct)
  case (2 a)
  then show ?case using group_bytes [of a 0 0] by simp
next
  case (3 a b)
  then show ?case using group_bytes [of a b 0] by simp
next
  case (4 a b c cs)
  then show ?case using group_bytes [of a b c] by simp
qed simp

lemma b64e_chars: "bytes bs \<Longrightarrow> CHR ''.'' \<notin> set (b64e bs) \<and> ascii (b64e bs)"
  using b64e_plain by (auto simp: ascii_def plain_def)

lemma rsplit_dot_append: "CHR ''.'' \<notin> set t \<Longrightarrow> rsplit_dot (s @ ''.'' @ t) = Some (s, t)"
proof -
  assume t: "CHR ''.'' \<notin> set t"
  have "takeWhile (\<lambda>c. c \<noteq> CHR ''.'') (rev t @ CHR ''.'' # rev s) = rev t"
    and "dropWhile (\<lambda>c. c \<noteq> CHR ''.'') (rev t @ CHR ''.'' # rev s) = CHR ''.'' # rev s"
    using t by (subst takeWhile_append2 dropWhile_append2; auto)+
  then show ?thesis by (simp add: rsplit_dot_def)
qed

lemma rsplit_dot_Some: "rsplit_dot s = Some (a, b) \<Longrightarrow> s = a @ ''.'' @ b"
proof -
  assume r: "rsplit_dot s = Some (a, b)"
  let ?P = "\<lambda>c. c \<noteq> CHR ''.''"
  have dot: "CHR ''.'' \<in> set s" using r by (auto simp: rsplit_dot_def split: if_splits)
  then have ne: "dropWhile ?P (rev s) \<noteq> []" by (auto simp: dropWhile_eq_Nil_conv)
  then have "hd (dropWhile ?P (rev s)) = CHR ''.''" using hd_dropWhile [OF ne] by simp
  then have "dropWhile ?P (rev s) = CHR ''.'' # tl (dropWhile ?P (rev s))" using ne by (cases "dropWhile ?P (rev s)") auto
  then have "rev s = takeWhile ?P (rev s) @ CHR ''.'' # tl (dropWhile ?P (rev s))"
    by (metis takeWhile_dropWhile_id)
  then have "s = rev (tl (dropWhile ?P (rev s))) @ ''.'' @ rev (takeWhile ?P (rev s))"
    by (metis append.assoc append_Cons append_Nil rev.simps(2) rev_append rev_rev_ident)
  with r dot show ?thesis by (auto simp: rsplit_dot_def)
qed

section \<open>Tokens survive their text\<close>

text \<open>What the codec's parameters promise: JSON text reads back, and bytes are bytes.\<close>

definition codec_ok :: "token_codec \<Rightarrow> bool" where
  "codec_ok C \<longleftrightarrow> (\<forall>j. loads C (dumps C j) = Some j \<and> bytes (dumps C j)) \<and> (\<forall>s p. bytes (mac C s p))"

lemma payload_round: "finite (capabilities t) \<Longrightarrow> from_payload (to_payload t) = Inr t"
  by (simp add: from_payload_def to_payload_def need_def opt_def mapE_map_id)

lemma issued_finite [simp]: "finite (capabilities (issued_token sub caps env ttl iss n fresh now))"
  by (simp add: issued_token_def)

lemma issue_Inr:
  assumes "issue C secret sub caps env ttl iss n fresh now = Inr tok"
  shows "tok = b64e (dumps C (to_payload (issued_token sub caps env ttl iss n fresh now))) @ ''.''
    @ sign C secret (b64e (dumps C (to_payload (issued_token sub caps env ttl iss n fresh now))))"
  using assms by (auto simp: issue_def Let_def split: if_splits)

lemma sign_chars: "codec_ok C \<Longrightarrow> CHR ''.'' \<notin> set (sign C s p) \<and> ascii (sign C s p)"
  unfolding sign_def by (rule b64e_chars) (simp add: codec_ok_def)

lemma verify_issued:
  assumes "codec_ok C" and "issue C secret sub caps env ttl iss n fresh now = Inr tok"
  defines "t \<equiv> issued_token sub caps env ttl iss n fresh now"
  shows "verify C secret rv now' tok =
    (if is_expired now' t then Inl Token_expired
     else if (case rv of None \<Rightarrow> False | Some f \<Rightarrow> f (nonce t)) then Inl Token_revoked else Inr t)"
proof -
  let ?p = "b64e (dumps C (to_payload t))"
  have fin: "finite (capabilities t)" by (simp add: t_def)
  note tok = issue_Inr [OF assms(2), folded t_def]
  have d: "bytes (dumps C (to_payload t))" "loads C (dumps C (to_payload t)) = Some (to_payload t)"
    using assms(1) by (simp_all add: codec_ok_def)
  have "rsplit_dot tok = Some (?p, sign C secret ?p)"
    unfolding tok by (rule rsplit_dot_append) (simp add: sign_chars [OF assms(1)])
  moreover have "tok \<noteq> ''''" using tok by simp
  ultimately show ?thesis
    using d b64_round [OF d(1)] b64e_chars [OF d(1)] sign_chars [OF assms(1)]
    by (simp add: verify_def payload_round [OF fin])
qed

section \<open>The revocation file\<close>

definition clean :: "string \<Rightarrow> bool" where
  "clean n \<longleftrightarrow> n \<noteq> '''' \<and> (\<forall>c \<in> set n. \<not> line_break c) \<and> strip n = n"

lemma split_lines_line:
  "\<forall>c \<in> set n. \<not> line_break c \<Longrightarrow> split_lines acc (n @ CHR 0x0A # rest) = (rev acc @ n) # split_lines [] rest"
  by (induction n arbitrary: acc) (simp_all add: line_break_def)

lemma split_lines_append: "split_lines acc (s @ CHR 0x0A # rest) = split_lines acc (s @ [CHR 0x0A]) @ split_lines [] rest"
  by (induction acc s rule: split_lines.induct) (simp_all add: line_break_def)

lemma clean_line_loaded:
  "clean n \<Longrightarrow> n \<in> set ns \<Longrightarrow> n \<in> set (split_lines [] (concat (map (\<lambda>n. n @ [CHR 0x0A]) ns)))"
proof (induction ns)
  case (Cons m ns)
  let ?rest = "concat (map (\<lambda>n. n @ [CHR 0x0A]) ns)"
  show ?case
  proof (cases "n = m")
    case True
    with Cons.prems(1) split_lines_line [of n "[]" ?rest] show ?thesis by (simp add: clean_def)
  next
    case False
    with Cons split_lines_append [of "[]" m ?rest] show ?thesis by simp
  qed
qed simp

lemma load_flush: "finite R \<Longrightarrow> clean n \<Longrightarrow> n \<in> R \<Longrightarrow> n \<in> load_text (flush_text R)"
  using clean_line_loaded [of n "sorted_list_of_set R"]
  by (force simp: load_text_def flush_text_def clean_def)

lemma reopened_revoked:
  assumes "finite (revoked_set r)" and "persist_file r \<noteq> None" and "clean m" and "m = n \<or> is_revoked r m"
  shows "is_revoked (reopen (revoke n r)) m"
  using assms load_flush [of "insert n (revoked_set r)" m]
  by (auto simp: is_revoked_def reopen_def new_revoker_def revoke_def flush_def)

text \<open>A codec that meets the promises: documents are numbered, and a number is written in unary.\<close>

definition unary_codec :: "(string \<Rightarrow> string \<Rightarrow> nat list) \<Rightarrow> token_codec" where
  "unary_codec f = \<lparr>mac = f, dumps = (\<lambda>j. replicate (to_nat j) 0),
     loads = (\<lambda>bs. Some (from_nat (length bs)))\<rparr>"

lemma unary_codec_ok: "(\<And>s p. bytes (f s p)) \<Longrightarrow> codec_ok (unary_codec f)"
  by (auto simp: codec_ok_def unary_codec_def bytes_def)

definition ex_codec :: token_codec where
  "ex_codec = unary_codec (\<lambda>s p. map (\<lambda>c. of_char c mod 256) s)"

lemma ex_codec_ok: "codec_ok ex_codec"
  unfolding ex_codec_def by (rule unary_codec_ok) (auto simp: bytes_def)

definition ex_issue :: "capability_error + string" where
  "ex_issue = issue ex_codec ''s'' ''a'' [''x.*''] None 10 ''obase'' (Some ''n1'') ''f'' 5"

lemma ex_issue_ok: "\<exists>tok. ex_issue = Inr tok"
  by (simp add: ex_issue_def issue_def Let_def)

section \<open>Properties\<close>

text \<open>
  C34. Verifying an issued token under its secret gives exactly the subject, capabilities, envelope,
  issuer, times and nonce it was issued with, until it expires or its nonce is revoked; then it is
  refused. The base64 text survives in between without its padding.
\<close>

theorem capability_round_trip:
  assumes "codec_ok C" and "issue C secret sub caps env ttl iss n fresh now = Inr tok"
  shows "verify C secret rv now' tok =
    (if ttl > 0 \<and> 0 < now + ttl \<and> now + ttl < now' then Inl Token_expired
     else if (case rv of None \<Rightarrow> False
              | Some f \<Rightarrow> f (nonce (issued_token sub caps env ttl iss n fresh now))) then Inl Token_revoked
     else Inr (issued_token sub caps env ttl iss n fresh now))"
  unfolding verify_issued [OF assms] by (auto simp: is_expired_def issued_token_def)


text \<open>
  A token is accepted only with the MAC of its own payload under the verifying secret; in
  particular a text issued under another secret is accepted only if the two MACs of that payload
  agree, and what is returned is what the payload decodes to, unexpired and not revoked.
\<close>

theorem accepted_token_is_authentic:
  assumes "codec_ok C" and "verify C secret rv now tok = Inr t"
  shows "\<exists>p j. tok = p @ ''.'' @ b64e (mac C secret p) \<and> Option.bind (b64d p) (loads C) = Some j
    \<and> from_payload j = Inr t \<and> \<not> is_expired now t \<and> (\<forall>f. rv = Some f \<longrightarrow> \<not> f (nonce t))
    \<and> (\<forall>secret' sub caps env ttl iss n fresh now'.
         issue C secret' sub caps env ttl iss n fresh now' = Inr tok \<longrightarrow> mac C secret' p = mac C secret p)"
proof -
  obtain p s where ps: "rsplit_dot tok = Some (p, s)" "s = sign C secret p"
    using assms(2) by (auto simp: verify_def split: if_splits option.splits)
  obtain j where j: "Option.bind (b64d p) (loads C) = Some j" "from_payload j = Inr t" "\<not> is_expired now t"
      "\<forall>f. rv = Some f \<longrightarrow> \<not> f (nonce t)"
    using assms(2) ps by (auto simp: verify_def bindE_Inr split: if_splits option.splits sum.splits)
  have "mac C secret' p = mac C secret p"
    if i: "issue C secret' sub caps env ttl iss n fresh now' = Inr tok"
    for secret' sub caps env ttl iss n fresh now'
  proof -
    let ?q = "b64e (dumps C (to_payload (issued_token sub caps env ttl iss n fresh now')))"
    have "rsplit_dot tok = Some (?q, sign C secret' ?q)"
      unfolding issue_Inr [OF i] by (rule rsplit_dot_append) (simp add: sign_chars [OF assms(1)])
    with ps have "?q = p" "sign C secret' ?q = sign C secret p" by auto
    then have "b64e (mac C secret' p) = b64e (mac C secret p)" by (simp add: sign_def)
    then show ?thesis using assms(1) by (intro b64e_inject) (auto simp: codec_ok_def)
  qed
  with rsplit_dot_Some [OF ps(1)] ps(2) j show ?thesis
    by (intro exI [of _ p] exI [of _ j]) (auto simp: sign_def)
qed

text \<open>
  Revocation is durable: once the nonce of an issued token is revoked with a file configured,
  every later process on that file refuses the token, and earlier revocations stay in force, as
  long as the nonces are single lines without surrounding white space.
\<close>

theorem revocation_is_durable:
  assumes "codec_ok C" and "issue C secret sub caps env ttl iss n fresh now = Inr tok"
    and "finite (revoked_set r)" and "persist_file r \<noteq> None"
    and "clean (nonce (issued_token sub caps env ttl iss n fresh now))"
  shows "verify C secret (Some (is_revoked
      (reopen (revoke (nonce (issued_token sub caps env ttl iss n fresh now)) r)))) now' tok \<in> {Inl Token_expired, Inl Token_revoked}
    \<and> (\<forall>m. clean m \<and> is_revoked r m \<longrightarrow> is_revoked
      (reopen (revoke (nonce (issued_token sub caps env ttl iss n fresh now)) r)) m)"
  using verify_issued [OF assms(1,2)] reopened_revoked [OF assms(3,4)] assms(5) by auto

theorem capability_round_trip_witness:
  "\<exists>tok t. ex_issue = Inr tok \<and> verify ex_codec ''s'' None 15 tok = Inr t \<and> subject t = ''a''
    \<and> has_capability t ''x.y'' \<and> verify ex_codec ''s'' None 16 tok = Inl Token_expired"
proof -
  obtain tok where tok: "ex_issue = Inr tok" using ex_issue_ok by blast
  note v = capability_round_trip [OF ex_codec_ok tok [unfolded ex_issue_def]]
  have "verify ex_codec ''s'' None 15 tok = Inr (issued_token ''a'' [''x.*''] None 10 ''obase'' (Some ''n1'') ''f'' 5)"
    and "verify ex_codec ''s'' None 16 tok = Inl Token_expired"
    by (simp_all add: v)
  with tok show ?thesis
    by (intro exI [of _ tok] exI [of _ "issued_token ''a'' [''x.*''] None 10 ''obase'' (Some ''n1'') ''f'' 5"])
      (simp add: issued_token_def has_capability_def cap_matches_def ends_with_def starts_with_def)
qed

theorem accepted_token_is_authentic_witness:
  "\<exists>tok p. ex_issue = Inr tok \<and> tok = p @ ''.'' @ b64e (mac ex_codec ''s'' p)"
proof -
  obtain tok where tok: "ex_issue = Inr tok" using ex_issue_ok by blast
  have "verify ex_codec ''s'' None 15 tok = Inr (issued_token ''a'' [''x.*''] None 10 ''obase'' (Some ''n1'') ''f'' 5)"
    by (subst verify_issued [OF ex_codec_ok tok [unfolded ex_issue_def]]) (simp add: is_expired_def issued_token_def)
  from accepted_token_is_authentic [OF ex_codec_ok this] tok show ?thesis by blast
qed

theorem revocation_is_durable_witness:
  "\<exists>tok. ex_issue = Inr tok
    \<and> verify ex_codec ''s'' (Some (is_revoked (reopen (revoke ''n1'' (new_revoker (Some None)))))) 15 tok
        \<in> {Inl Token_expired, Inl Token_revoked}"
proof -
  obtain tok where tok: "ex_issue = Inr tok" using ex_issue_ok by blast
  have n: "nonce (issued_token ''a'' [''x.*''] None 10 ''obase'' (Some ''n1'') ''f'' 5) = ''n1''"
    by (simp add: issued_token_def)
  have "finite (revoked_set (new_revoker (Some None)))" "persist_file (new_revoker (Some None)) \<noteq> None"
    "clean (nonce (issued_token ''a'' [''x.*''] None 10 ''obase'' (Some ''n1'') ''f'' 5))"
    by (simp_all add: new_revoker_def n clean_def line_break_def strip_def white_space_def)
  from revocation_is_durable [OF ex_codec_ok tok [unfolded ex_issue_def] this, of 15] tok
  show ?thesis unfolding n by blast
qed

text \<open>A nonce with surrounding white space is forgotten by the next process.\<close>

lemma padded_nonce_forgotten: "\<not> is_revoked (reopen (revoke '' n'' (new_revoker (Some None)))) '' n''"
  by (simp add: is_revoked_def reopen_def new_revoker_def revoke_def flush_def flush_text_def load_text_def
      strip_def line_break_def white_space_def)

text \<open>A token text with a character outside ASCII is neither accepted nor refused as invalid.\<close>

lemma non_ascii_token_raises:
  assumes "CHR ''.'' \<notin> set s" and "\<not> ascii p"
  shows "verify C secret rv now (p @ ''.'' @ s) = Inl Unicode_error"
  using rsplit_dot_append [OF assms(1), of p] assms(2) by (simp add: verify_def)

end
