(* ===== verification/ToolGovernance.thy ===== *)
theory ToolGovernance
  imports Json Python_Text "HOL-Library.Sublist"
begin

text \<open>
  Tool, MCP server, grant and call records of \<^verbatim>\<open>obase/tool_governance.py\<close> with their validation,
  identities and exported documents, and the redaction of secrets in exported payloads. Splitting
  a URL, reading an ISO time and the digest of a document are parameters.
\<close>

section \<open>Redaction\<close>

definition secret_key_parts :: "string list" where
  "secret_key_parts = [''token'', ''secret'', ''password'', ''credential'', ''private_key'',
     ''authorization'', ''api_key'', ''access_key'', ''client_secret'', ''webhook'']"

definition normalize_key :: "string \<Rightarrow> string" where
  "normalize_key k = map (\<lambda>c. if c = CHR ''-'' then CHR ''_'' else c) (map lower_char k)"

definition secret_key :: "string \<Rightarrow> bool" where
  "secret_key k \<longleftrightarrow> (\<exists>p \<in> set secret_key_parts. is_infix p (normalize_key k))"

text \<open>\<open>s.replace(old, new)\<close> for a text \<open>old\<close> that is not empty.\<close>

function replace_all :: "string \<Rightarrow> string \<Rightarrow> string \<Rightarrow> string" where
  "replace_all old new s =
     (if s = [] \<or> old = [] then s
      else if take (length old) s = old then new @ replace_all old new (drop (length old) s)
      else hd s # replace_all old new (tl s))"
  by pat_completeness auto
termination
  by (relation "measure (\<lambda>(old, new, s). length s)") auto

declare replace_all.simps [simp del]

definition redacted :: string where
  "redacted = ''[REDACTED]''"

definition redact_text :: "string list \<Rightarrow> string \<Rightarrow> string" where
  "redact_text secrets s = fold (\<lambda>secret out. replace_all secret redacted out) secrets s"

fun redact :: "string list \<Rightarrow> json \<Rightarrow> json"
  and redact_items :: "string list \<Rightarrow> jdict \<Rightarrow> jdict"
  and redact_list :: "string list \<Rightarrow> json list \<Rightarrow> json list" where
  "redact S (JDict d) = JDict (redact_items S d)"
| "redact S (JList xs) = JList (redact_list S xs)"
| "redact S (JStr s) = JStr (redact_text S s)"
| "redact S j = j"
| "redact_items S [] = []"
| "redact_items S ((k, v) # d) = (k, if secret_key k then JStr redacted else redact S v) # redact_items S d"
| "redact_list S [] = []"
| "redact_list S (x # xs) = redact S x # redact_list S xs"

definition redact_payload :: "string list \<Rightarrow> json \<Rightarrow> json" where
  "redact_payload secrets j = redact (filter (\<lambda>s. s \<noteq> '''') secrets) j"

text \<open>
  The user part of an endpoint. \<open>split\<close> is \<^verbatim>\<open>urlsplit\<close>: a ValueError, or the user name, password,
  host, port and what is left of the URL.
\<close>

record split_url =
  u_username :: "string option"
  u_password :: "string option"
  u_hostname :: "string option"
  u_port :: "int option"
  u_unsplit :: "string \<Rightarrow> string"

definition redact_endpoint :: "(string \<Rightarrow> split_url option) \<Rightarrow> (int \<Rightarrow> string) \<Rightarrow> string \<Rightarrow> string" where
  "redact_endpoint split show_port endpoint =
     (case split endpoint of
        None \<Rightarrow> ''[REDACTED_ENDPOINT]''
      | Some u \<Rightarrow>
          if u_username u = None \<and> u_password u = None then endpoint
          else
            (let host = (case u_hostname u of None \<Rightarrow> '''' | Some h \<Rightarrow> h);
                 host = (if CHR '':'' \<in> set host \<and> take 1 host \<noteq> ''['' then ''['' @ host @ '']'' else host);
                 netloc = ''[REDACTED]@'' @ host;
                 netloc = (case u_port u of None \<Rightarrow> netloc | Some p \<Rightarrow> netloc @ '':'' @ show_port p)
             in u_unsplit u netloc))"

section \<open>References, tools and servers\<close>

datatype ref_kind = Credential "string option" | Secret

record stored_ref =
  ref_kind :: ref_kind
  ref_id :: string
  ref_version :: "int option"
  ref_scope :: "string option"

definition make_ref :: "ref_kind \<Rightarrow> string \<Rightarrow> int option \<Rightarrow> string option \<Rightarrow> stored_ref option" where
  "make_ref k i v s = (if blank i then None else Some \<lparr>ref_kind = k, ref_id = i, ref_version = v, ref_scope = s\<rparr>)"

definition int_or_null :: "int option \<Rightarrow> json" where
  "int_or_null i = (case i of None \<Rightarrow> JNull | Some i \<Rightarrow> JInt i)"

definition ref_to_dict :: "stored_ref \<Rightarrow> json" where
  "ref_to_dict r =
     (case ref_kind r of
        Credential provider \<Rightarrow>
          JDict [(''type'', JStr ''credential_ref''), (''id'', JStr (ref_id r)), (''provider'', str_or_null provider),
            (''version'', int_or_null (ref_version r)), (''scope'', str_or_null (ref_scope r))]
      | Secret \<Rightarrow>
          JDict [(''type'', JStr ''secret_ref''), (''id'', JStr (ref_id r)),
            (''version'', int_or_null (ref_version r)), (''scope'', str_or_null (ref_scope r))])"

definition ref_or_null :: "stored_ref option \<Rightarrow> json" where
  "ref_or_null r = (case r of None \<Rightarrow> JNull | Some r \<Rightarrow> ref_to_dict r)"

record tool_spec =
  t_name :: string
  t_description :: string
  t_kind :: string
  t_server :: "string option"
  t_version :: string
  t_effect :: string
  t_input_schema :: jdict
  t_capabilities :: "string set"
  t_credential :: "stored_ref option"
  t_enabled :: bool

datatype spec_error = Empty_name | Bad_kind string | No_server | Empty_version | Foreign_tool | Empty_endpoint

definition server_text :: "string option \<Rightarrow> string" where
  "server_text s = (case s of None \<Rightarrow> '''' | Some s \<Rightarrow> s)"

text \<open>\<open>ToolSpec.__post_init__\<close>.\<close>

definition check_tool :: "tool_spec \<Rightarrow> spec_error + tool_spec" where
  "check_tool t =
     (if blank (t_name t) then Inl Empty_name
      else if t_kind t \<notin> {''native'', ''mcp''} then Inl (Bad_kind (t_kind t))
      else if t_kind t = ''mcp'' \<and> blank (server_text (t_server t)) then Inl No_server
      else if blank (t_version t) then Inl Empty_version
      else Inr t)"

text \<open>A server that is None is shown as such by the format string.\<close>

definition show_server :: "string option \<Rightarrow> string" where
  "show_server s = (case s of None \<Rightarrow> ''None'' | Some s \<Rightarrow> s)"

definition tool_identity :: "string \<Rightarrow> string option \<Rightarrow> string \<Rightarrow> string \<Rightarrow> string" where
  "tool_identity kind server name version =
     (if kind = ''native'' then ''native'' else ''mcp/'' @ show_server server) @ ''/'' @ name @ ''@'' @ version"

definition spec_identity :: "tool_spec \<Rightarrow> string" where
  "spec_identity t = tool_identity (t_kind t) (t_server t) (t_name t) (t_version t)"

definition tool_to_dict :: "tool_spec \<Rightarrow> json" where
  "tool_to_dict t = JDict
     [(''identity'', JStr (spec_identity t)), (''name'', JStr (t_name t)),
      (''description'', JStr (t_description t)), (''kind'', JStr (t_kind t)),
      (''server'', str_or_null (t_server t)), (''version'', JStr (t_version t)),
      (''effect'', JStr (t_effect t)), (''input_schema'', redact_payload [] (JDict (t_input_schema t))),
      (''capabilities'', JList (map JStr (sorted_list_of_set (t_capabilities t)))),
      (''credential_ref'', ref_or_null (t_credential t)), (''enabled'', JBool (t_enabled t))]"

record server_spec =
  m_name :: string
  m_endpoint :: string
  m_version :: string
  m_protocol :: string
  m_tools :: "tool_spec list"
  m_credential :: "stored_ref option"
  m_enabled :: bool

definition check_server :: "server_spec \<Rightarrow> spec_error + server_spec" where
  "check_server m =
     (if blank (m_name m) then Inl Empty_name
      else if blank (m_endpoint m) then Inl Empty_endpoint
      else if blank (m_version m) then Inl Empty_version
      else bindE (mapE check_tool (m_tools m)) (\<lambda>ts.
        if \<exists>t \<in> set ts. t_kind t \<noteq> ''mcp'' \<or> t_server t \<noteq> Some (m_name m) then Inl Foreign_tool
        else Inr (m\<lparr>m_tools := ts\<rparr>)))"

definition server_identity :: "server_spec \<Rightarrow> string" where
  "server_identity m = ''mcp-server/'' @ m_name m @ ''@'' @ m_version m"

definition server_tool :: "server_spec \<Rightarrow> string \<Rightarrow> string option \<Rightarrow> tool_spec option" where
  "server_tool m name version =
     find (\<lambda>t. t_name t = name \<and> (version = None \<or> version = Some (t_version t))) (m_tools m)"

definition server_to_dict :: "(string \<Rightarrow> string) \<Rightarrow> server_spec \<Rightarrow> json" where
  "server_to_dict hide m = JDict
     [(''identity'', JStr (server_identity m)), (''name'', JStr (m_name m)),
      (''endpoint'', JStr (hide (m_endpoint m))), (''version'', JStr (m_version m)),
      (''protocol_version'', JStr (m_protocol m)), (''tools'', JList (map tool_to_dict (m_tools m))),
      (''credential_ref'', ref_or_null (m_credential m)), (''enabled'', JBool (m_enabled m))]"

section \<open>Grants, requests and results\<close>

record grant =
  g_tool :: string
  g_subject :: string
  g_id :: string
  g_effects :: "string set"
  g_tool_version :: "string option"
  g_resource :: string
  g_expires_at :: "string option"
  g_revoked :: bool
  g_issued_at :: string

text \<open>\<open>read_time\<close> reads an ISO text as an instant, UTC where no zone is given.\<close>

definition is_valid :: "(string \<Rightarrow> rat option) \<Rightarrow> rat \<Rightarrow> grant \<Rightarrow> bool" where
  "is_valid read_time now g =
     (if g_revoked g then False
      else case g_expires_at g of
             None \<Rightarrow> True
           | Some e \<Rightarrow> e = '''' \<or> (case read_time e of None \<Rightarrow> False | Some t \<Rightarrow> now < t))"

definition grant_to_dict :: "grant \<Rightarrow> json" where
  "grant_to_dict g = JDict
     [(''grant_id'', JStr (g_id g)), (''subject'', JStr (g_subject g)), (''tool'', JStr (g_tool g)),
      (''allowed_effects'', JList (map JStr (sorted_list_of_set (g_effects g)))),
      (''tool_version'', str_or_null (g_tool_version g)), (''resource'', JStr (g_resource g)),
      (''expires_at'', str_or_null (g_expires_at g)), (''revoked'', JBool (g_revoked g)),
      (''issued_at'', JStr (g_issued_at g))]"

record call_request =
  q_tool :: string
  q_kind :: string
  q_server :: "string option"
  q_version :: string
  q_arguments :: jdict
  q_actor :: string
  q_source :: string
  q_grant :: "grant option"
  q_credential :: "stored_ref option"
  q_request_id :: string
  q_context :: jdict

definition request_identity :: "call_request \<Rightarrow> string" where
  "request_identity q = tool_identity (q_kind q) (q_server q) (q_tool q) (q_version q)"

definition request_to_dict :: "call_request \<Rightarrow> json" where
  "request_to_dict q = JDict
     [(''identity'', JStr (request_identity q)), (''tool'', JStr (q_tool q)), (''kind'', JStr (q_kind q)),
      (''server'', str_or_null (q_server q)), (''version'', JStr (q_version q)),
      (''arguments'', redact_payload [] (JDict (q_arguments q))), (''actor'', JStr (q_actor q)),
      (''source'', JStr (q_source q)),
      (''grant'', case q_grant q of None \<Rightarrow> JNull | Some g \<Rightarrow> grant_to_dict g),
      (''credential_ref'', ref_or_null (q_credential q)), (''request_id'', JStr (q_request_id q)),
      (''context'', redact_payload [] (JDict (q_context q)))]"

definition fingerprint :: "(json \<Rightarrow> string) \<Rightarrow> call_request \<Rightarrow> string" where
  "fingerprint digest q = take 24 (digest (request_to_dict q))"

record call_result =
  s_status :: string
  s_request_id :: string
  s_tool :: string
  s_result :: json
  s_error :: json
  s_executed :: bool
  s_ledger_recorded :: bool
  s_credential :: "stored_ref option"

definition result_to_dict :: "string list \<Rightarrow> call_result \<Rightarrow> json" where
  "result_to_dict secrets r = JDict
     [(''status'', JStr (s_status r)), (''request_id'', JStr (s_request_id r)), (''tool'', JStr (s_tool r)),
      (''result'', redact_payload secrets (s_result r)), (''error'', redact_payload secrets (s_error r)),
      (''executed'', JBool (s_executed r)), (''ledger_recorded'', JBool (s_ledger_recorded r)),
      (''credential_ref'', ref_or_null (s_credential r))]"

section \<open>What redaction removes\<close>

lemma is_infix_sublist: "is_infix p s \<longleftrightarrow> sublist p s"
proof (induction s)
  case (Cons c cs)
  have "take (length p) (c # cs) = p \<longleftrightarrow> prefix p (c # cs)"
    by (metis append_eq_conv_conj append_take_drop_id prefix_def)
  with Cons show ?case by (simp add: sublist_Cons_right)
qed simp

text \<open>
  A text a replacement cannot create out of the marker: it neither starts nor ends with one of the
  marker's characters and does not contain the marker.
\<close>

definition apart :: "string \<Rightarrow> bool" where
  "apart s \<longleftrightarrow> s \<noteq> '''' \<and> hd s \<notin> set redacted \<and> List.last s \<notin> set redacted \<and> \<not> sublist redacted s"

lemma replace_none: "s = [] \<or> old = [] \<Longrightarrow> replace_all old new s = s"
  by (subst replace_all.simps) (simp only: if_True)

lemma replace_match:
  "s \<noteq> [] \<Longrightarrow> old \<noteq> [] \<Longrightarrow> take (length old) s = old \<Longrightarrow>
    replace_all old new s = new @ replace_all old new (drop (length old) s)"
  by (subst replace_all.simps) (simp only: if_False if_True simp_thms)

lemma replace_skip:
  "s \<noteq> [] \<Longrightarrow> old \<noteq> [] \<Longrightarrow> take (length old) s \<noteq> old \<Longrightarrow>
    replace_all old new s = hd s # replace_all old new (tl s)"
  by (subst replace_all.simps) (simp only: if_False simp_thms)

lemma replace_prefix:
  assumes "prefix p (replace_all old redacted s)" and "p = [] \<or> List.last p \<notin> set redacted" and "\<not> sublist redacted p"
  shows "prefix p s"
  using assms
proof (induction s arbitrary: p rule: measure_induct_rule [where f = length])
  case (less s)
  show ?case
  proof (cases "s = [] \<or> old = []")
    case True
    with less.prems(1) show ?thesis by (simp add: replace_none)
  next
    case ne: False
    show ?thesis
    proof (cases "take (length old) s = old")
      case True
      with ne less.prems(1) have p: "prefix p (redacted @ replace_all old redacted (drop (length old) s))"
        by (simp add: replace_match)
      have "\<not> prefix redacted p" using less.prems(3) by auto
      with p have "prefix p redacted" by (metis prefix_append prefix_same_cases prefixI)
      then have "set p \<subseteq> set redacted" by (rule set_mono_prefix)
      with less.prems(2) have "p = []" by (metis last_in_set subsetD)
      then show ?thesis by simp
    next
      case False
      with ne less.prems(1) have p: "prefix p (hd s # replace_all old redacted (tl s))"
        by (simp add: replace_skip)
      show ?thesis
      proof (cases p)
        case (Cons c cs)
        with p have "c = hd s" "prefix cs (replace_all old redacted (tl s))" by simp_all
        moreover have "cs = [] \<or> List.last cs \<notin> set redacted" "\<not> sublist redacted cs"
          using less.prems(2,3) Cons by (auto split: if_splits simp: sublist_Cons_right)
        ultimately have "prefix cs (tl s)" using ne by - (rule less.IH, auto)
        with \<open>c = hd s\<close> Cons ne show ?thesis by (cases s) auto
      qed simp
    qed
  qed
qed

text \<open>A replacement creates no text apart from the marker, and removes the one it looks for.\<close>

lemma sublist_marker:
  assumes "apart s" and "sublist s (redacted @ r)"
  shows "sublist s r"
proof -
  from assms(2) consider "sublist s redacted" | "sublist s r"
    | a b where "s = a @ b" "suffix a redacted" "prefix b r" "a \<noteq> []"
    unfolding sublist_append by (metis append_Nil prefix_imp_sublist)
  then show ?thesis
  proof cases
    case 1
    then have "set s \<subseteq> set redacted" by (rule set_mono_sublist)
    with assms(1) show ?thesis by (metis apart_def hd_in_set subsetD)
  next
    case 3
    then have "hd s \<in> set redacted" by (metis hd_append2 hd_in_set set_mono_suffix subsetD)
    with assms(1) show ?thesis by (simp add: apart_def)
  qed
qed

lemma replace_creates_nothing:
  assumes "apart s" and "sublist s (replace_all old redacted t)"
  shows "sublist s t"
  using assms(2)
proof (induction t rule: measure_induct_rule [where f = length])
  case (less t)
  show ?case
  proof (cases "t = [] \<or> old = []")
    case True
    with less.prems show ?thesis by (simp add: replace_none)
  next
    case ne: False
    show ?thesis
    proof (cases "take (length old) t = old")
      case True
      with ne less.prems have "sublist s (redacted @ replace_all old redacted (drop (length old) t))"
        by (simp add: replace_match)
      from sublist_marker [OF assms(1) this] have "sublist s (drop (length old) t)"
        using ne by - (rule less.IH, auto)
      then show ?thesis by (metis append_take_drop_id sublist_append_leftI sublist_order.order_trans sublist_drop)
    next
      case False
      with ne less.prems have "sublist s (hd t # replace_all old redacted (tl t))"
        by (simp add: replace_skip)
      then consider "prefix s (hd t # replace_all old redacted (tl t))" | "sublist s (replace_all old redacted (tl t))"
        by (auto simp: sublist_Cons_right)
      then show ?thesis
      proof cases
        case 1
        with ne False have "prefix s (replace_all old redacted t)" by (simp add: replace_skip)
        then have "prefix s t" using assms(1) by - (rule replace_prefix, auto simp: apart_def)
        then show ?thesis by (rule prefix_imp_sublist)
      next
        case 2
        then have "sublist s (tl t)" using ne by - (rule less.IH, auto)
        then show ?thesis by (cases t) (auto simp: sublist_Cons_right)
      qed
    qed
  qed
qed

lemma replace_removes:
  assumes "apart s"
  shows "\<not> sublist s (replace_all s redacted t)"
proof (induction t rule: measure_induct_rule [where f = length])
  case (less t)
  have s: "s \<noteq> []" using assms by (simp add: apart_def)
  show ?case
  proof (cases "t = []")
    case True
    with s show ?thesis by (simp add: replace_none)
  next
    case ne: False
    show ?thesis
    proof (cases "take (length s) t = s")
      case True
      with ne s have e: "replace_all s redacted t = redacted @ replace_all s redacted (drop (length s) t)"
        by (simp add: replace_match)
      have "\<not> sublist s (replace_all s redacted (drop (length s) t))" using ne s by - (rule less.IH, auto)
      with sublist_marker [OF assms] show ?thesis unfolding e by blast
    next
      case False
      with ne s have e: "replace_all s redacted t = hd t # replace_all s redacted (tl t)"
        by (simp add: replace_skip)
      have "\<not> sublist s (replace_all s redacted (tl t))" using ne by - (rule less.IH, auto)
      moreover have "\<not> prefix s (replace_all s redacted t)"
      proof
        assume "prefix s (replace_all s redacted t)"
        then have "prefix s t" using assms by - (rule replace_prefix, auto simp: apart_def)
        with False show False by (metis append_eq_conv_conj prefix_def)
      qed
      ultimately show ?thesis unfolding e by (auto simp: sublist_Cons_right)
    qed
  qed
qed

lemma redact_text_creates_nothing: "apart s \<Longrightarrow> sublist s (redact_text S t) \<Longrightarrow> sublist s t"
  unfolding redact_text_def by (induction S arbitrary: t) (auto dest: replace_creates_nothing)

lemma redact_text_removes: "apart s \<Longrightarrow> s \<in> set S \<Longrightarrow> \<not> sublist s (redact_text S t)"
proof (induction S arbitrary: t)
  case (Cons x S)
  have step: "redact_text (x # S) t = redact_text S (replace_all x redacted t)" by (simp add: redact_text_def)
  show ?case
  proof (cases "s = x")
    case True
    with replace_removes [OF Cons.prems(1)] redact_text_creates_nothing [OF Cons.prems(1)] show ?thesis
      unfolding step by blast
  next
    case False
    with Cons show ?thesis unfolding step by simp
  qed
qed simp

text \<open>All text values and all dictionary entries of a document, at every depth.\<close>

fun text_values :: "json \<Rightarrow> string list"
  and item_values :: "jdict \<Rightarrow> string list"
  and list_values :: "json list \<Rightarrow> string list" where
  "text_values (JDict d) = item_values d"
| "text_values (JList xs) = list_values xs"
| "text_values (JStr s) = [s]"
| "text_values j = []"
| "item_values [] = []"
| "item_values ((k, v) # d) = text_values v @ item_values d"
| "list_values [] = []"
| "list_values (x # xs) = text_values x @ list_values xs"

fun entries_of :: "json \<Rightarrow> (string \<times> json) list"
  and item_entries :: "jdict \<Rightarrow> (string \<times> json) list"
  and list_entries :: "json list \<Rightarrow> (string \<times> json) list" where
  "entries_of (JDict d) = item_entries d"
| "entries_of (JList xs) = list_entries xs"
| "entries_of j = []"
| "item_entries [] = []"
| "item_entries ((k, v) # d) = (k, v) # entries_of v @ item_entries d"
| "list_entries [] = []"
| "list_entries (x # xs) = entries_of x @ list_entries xs"

lemma apart_not_in_marker: "apart s \<Longrightarrow> \<not> sublist s redacted"
  using sublist_marker [of s "[]"] by (auto simp: apart_def)

lemma redact_values:
  assumes "apart s" and "s \<in> set S"
  shows "v \<in> set (text_values (redact S j)) \<Longrightarrow> \<not> sublist s v"
    and "v \<in> set (item_values (redact_items S d)) \<Longrightarrow> \<not> sublist s v"
    and "v \<in> set (list_values (redact_list S xs)) \<Longrightarrow> \<not> sublist s v"
  using redact_text_removes [OF assms] apart_not_in_marker [OF assms(1)]
  by (induction S j and S d and S xs rule: redact_redact_items_redact_list.induct) (auto split: if_splits)

lemma redact_entries:
  shows "(k, v) \<in> set (entries_of (redact S j)) \<Longrightarrow> secret_key k \<Longrightarrow> v = JStr redacted"
    and "(k, v) \<in> set (item_entries (redact_items S d)) \<Longrightarrow> secret_key k \<Longrightarrow> v = JStr redacted"
    and "(k, v) \<in> set (list_entries (redact_list S xs)) \<Longrightarrow> secret_key k \<Longrightarrow> v = JStr redacted"
  by (induction S j and S d and S xs rule: redact_redact_items_redact_list.induct) (auto split: if_splits)

section \<open>Properties\<close>

text \<open>
  Exported payloads are free of secrets: wherever a key of an exported document looks secret its
  value is the marker, and no text value of it contains a secret that was passed along, provided
  the secret does not start or end with a character of the marker or contain it.
\<close>

theorem redaction_hides_secrets:
  "(\<forall>(k, v) \<in> set (entries_of (redact_payload S j)). secret_key k \<longrightarrow> v = JStr redacted)
   \<and> (\<forall>v \<in> set (text_values (redact_payload S j)). \<forall>s \<in> set S. apart s \<longrightarrow> \<not> is_infix s v)"
  using redact_entries(1) [of _ _ "filter (\<lambda>s. s \<noteq> '''') S" j]
    redact_values(1) [of _ "filter (\<lambda>s. s \<noteq> '''') S" _ j]
  by (auto simp: redact_payload_def is_infix_sublist apart_def)

theorem redaction_hides_secrets_witness:
  "list_all (\<lambda>v. \<not> is_infix ''p4ss'' v) (text_values (redact_payload [''p4ss'']
      (JDict [(''api-Key'', JStr ''k''), (''out'', JList [JStr ''is p4ss.'', JInt 1])])))
   \<and> dict_get (redact_items [] [(''api-Key'', JStr ''k'')]) ''api-Key'' = Some (JStr redacted)"
proof -
  have "sublist redacted ''p4ss'' \<longleftrightarrow> is_infix redacted ''p4ss''" by (simp only: is_infix_sublist)
  then have a: "apart ''p4ss''" by (simp add: apart_def redacted_def)
  have "secret_key ''api-Key''" by code_simp
  with a show ?thesis
    using redaction_hides_secrets [of "[''p4ss'']"
        "JDict [(''api-Key'', JStr ''k''), (''out'', JList [JStr ''is p4ss.'', JInt 1])]"]
    by (simp add: list_all_iff)
qed

text \<open>A secret inside a key is not removed.\<close>

lemma secret_in_key_survives: "redact_payload [''p4ss''] (JDict [(''p4ss'', JNull)]) = JDict [(''p4ss'', JNull)]"
  by (simp add: redact_payload_def secret_key_def secret_key_parts_def normalize_key_def lower_char_def)

lemma split_first:
  "c \<notin> set a \<Longrightarrow> c \<notin> set b \<Longrightarrow> a @ c # x = b @ c # y \<Longrightarrow> a = b \<and> x = y"
  by (induction a arbitrary: b) (auto simp: Cons_eq_append_conv append_eq_Cons_conv)

text \<open>
  The identity that grants and ledgers refer to is unambiguous between native and MCP tools:
  equal identities of valid tools mean the same kind, server, name and version, when server names
  contain no slash and tool names neither a slash nor an at sign. Without that, they can collide.
\<close>

theorem tool_identity_unambiguous:
  assumes "check_tool t = Inr t" and "check_tool u = Inr u" and "spec_identity t = spec_identity u"
    and "CHR ''/'' \<notin> set (server_text (t_server t))" and "CHR ''/'' \<notin> set (server_text (t_server u))"
    and "CHR ''/'' \<notin> set (t_name t)" and "CHR ''/'' \<notin> set (t_name u)"
    and "CHR ''@'' \<notin> set (t_name t)" and "CHR ''@'' \<notin> set (t_name u)"
  shows "t_kind t = t_kind u \<and> t_name t = t_name u \<and> t_version t = t_version u
    \<and> (t_kind t = ''mcp'' \<longrightarrow> t_server t = t_server u)"
proof -
  have k: "t_kind t \<in> {''native'', ''mcp''}" "t_kind u \<in> {''native'', ''mcp''}"
    using assms(1,2) by (auto simp: check_tool_def split: if_splits)
  have srv: "\<exists>s. t_server x = Some s \<and> CHR ''/'' \<notin> set s"
    if "check_tool x = Inr x" "t_kind x = ''mcp''" "CHR ''/'' \<notin> set (server_text (t_server x))" for x
    using that by (cases "t_server x") (auto simp: check_tool_def server_text_def blank_def white_space_def split: if_splits)
  have eq: "t_kind t = t_kind u"
    using k assms(3) by (auto simp: spec_identity_def tool_identity_def)
  show ?thesis
  proof (cases "t_kind t = ''mcp''")
    case True
    obtain s where s: "t_server t = Some s" "CHR ''/'' \<notin> set s" using srv [OF assms(1) True assms(4)] by blast
    obtain r where r: "t_server u = Some r" "CHR ''/'' \<notin> set r" using srv [OF assms(2) _ assms(5)] True eq by auto
    have "s @ CHR ''/'' # t_name t @ CHR ''@'' # t_version t = r @ CHR ''/'' # t_name u @ CHR ''@'' # t_version u"
      using assms(3) True eq s r by (simp add: spec_identity_def tool_identity_def show_server_def)
    from split_first [OF s(2) r(2) this] split_first [OF assms(8,9)] eq s r show ?thesis by auto
  next
    case False
    with k eq have n: "t_kind t = ''native''" by auto
    with eq assms(3) have "t_name t @ CHR ''@'' # t_version t = t_name u @ CHR ''@'' # t_version u"
      by (simp add: spec_identity_def tool_identity_def)
    from split_first [OF assms(8,9) this] eq n False show ?thesis by simp
  qed
qed

definition ex_tool :: "string \<Rightarrow> string \<Rightarrow> tool_spec" where
  "ex_tool n v = \<lparr>t_name = n, t_description = '''', t_kind = ''mcp'', t_server = Some ''srv'', t_version = v,
     t_effect = ''read'', t_input_schema = [], t_capabilities = {}, t_credential = None, t_enabled = True\<rparr>"

theorem tool_identity_unambiguous_witness:
  "spec_identity (ex_tool ''a'' ''1'') = ''mcp/srv/a@1'' \<and> t_name (ex_tool ''a'' ''1'') = ''a''"
  using tool_identity_unambiguous [of "ex_tool ''a'' ''1''" "ex_tool ''a'' ''1''"]
  by (simp add: ex_tool_def check_tool_def blank_def white_space_def server_text_def spec_identity_def tool_identity_def
      show_server_def)

lemma tool_identity_collides: "spec_identity (ex_tool ''a@1'' ''2'') = spec_identity (ex_tool ''a'' ''1@2'')"
  by (simp add: ex_tool_def spec_identity_def tool_identity_def)

end
