(* ===== verification/Symbols.thy ===== *)
theory Symbols
  imports Python_Text
begin

text \<open>
  Symbol normalisation (\<^verbatim>\<open>obase/symbol_normalize/normalize.py\<close>): the canonical form and its check,
  the parsers of each source's format, the formatters, and the split into components. Texts are
  ASCII. The canonical pattern ends in a dollar sign, which also matches before a final newline.
\<close>

section \<open>Canonical form\<close>

definition upper_or_digit :: "char \<Rightarrow> bool" where
  "upper_or_digit c \<longleftrightarrow> (let n = (of_char c :: nat) in (65 \<le> n \<and> n \<le> 90) \<or> (48 \<le> n \<and> n \<le> 57))"

definition part_ok :: "string \<Rightarrow> bool" where
  "part_ok p \<longleftrightarrow> p \<noteq> '''' \<and> length p \<le> 10 \<and> list_all upper_or_digit p"

definition pattern_ok :: "string \<Rightarrow> bool" where
  "pattern_ok s \<longleftrightarrow> list_all part_ok (split_on (CHR ''-'') s) \<and> length (split_on (CHR ''-'') s) \<le> 6"

definition canonical_match :: "string \<Rightarrow> bool" where
  "canonical_match s \<longleftrightarrow> pattern_ok s \<or> (s \<noteq> '''' \<and> last s = CHR 0x0A \<and> pattern_ok (butlast s))"

definition MAX_LENGTH :: nat where
  "MAX_LENGTH = 64"

definition is_canonical :: "string \<Rightarrow> bool" where
  "is_canonical s \<longleftrightarrow> length s \<le> MAX_LENGTH \<and> \<not> has_suffix s ''-SPOT'' \<and> canonical_match s"

section \<open>Parsing the sources' formats\<close>

datatype symbol_error =
    Empty_input | Unknown_source string | Too_long string | Not_canonical string | Unsplittable string
  | No_settlement string | Malformed_pair string | Unsupported_ticker string | Unknown_slug string
  | Bad_deribit string | Bad_date string | Unknown_month string | Wrong_instrument string | Bad_strike string

datatype instrument = SPOT | PERP | FUT | CALL | PUT | ASSET

definition KNOWN_QUOTES :: "string list" where
  "KNOWN_QUOTES = [''USDT'', ''USDC'', ''BUSD'', ''TUSD'', ''FDUSD'', ''USD'', ''EUR'', ''GBP'', ''JPY'',
     ''TRY'', ''BTC'', ''ETH'', ''BNB'']"

definition COINGECKO :: "(string \<times> string) list" where
  "COINGECKO = [(''bitcoin'', ''BTC''), (''ethereum'', ''ETH''), (''solana'', ''SOL'')]"

definition DERIBIT_MONTHS :: "(string \<times> string) list" where
  "DERIBIT_MONTHS = [(''JAN'', ''01''), (''FEB'', ''02''), (''MAR'', ''03''), (''APR'', ''04''), (''MAY'', ''05''),
     (''JUN'', ''06''), (''JUL'', ''07''), (''AUG'', ''08''), (''SEP'', ''09''), (''OCT'', ''10''),
     (''NOV'', ''11''), (''DEC'', ''12'')]"

definition strip_spot_suffix :: "string \<Rightarrow> string" where
  "strip_spot_suffix s = (if has_suffix s ''-SPOT'' then take (length s - 5) s else s)"

definition splits_at :: "string \<Rightarrow> string \<Rightarrow> bool" where
  "splits_at s quote \<longleftrightarrow> has_suffix s quote \<and> length s > length quote \<and> length s - length quote \<le> 10"

definition normalize_binance_concat :: "string \<Rightarrow> instrument option \<Rightarrow> symbol_error + string" where
  "normalize_binance_concat s inst =
     (case find (splits_at s) KNOWN_QUOTES of
        None \<Rightarrow> Inl (Unsplittable s)
      | Some quote \<Rightarrow>
          Inr (take (length s - length quote) s @ ''-'' @ quote @ (if inst = Some PERP then ''-PERP'' else '''')))"

definition slash_to_dash :: "string \<Rightarrow> string" where
  "slash_to_dash s = map (\<lambda>c. if c = CHR ''/'' then CHR ''-'' else c) s"

definition normalize_okx_spot :: "string \<Rightarrow> string" where
  "normalize_okx_spot s = (if CHR ''/'' \<in> set s then slash_to_dash s else strip_spot_suffix s)"

definition normalize_okx_swap :: "string \<Rightarrow> symbol_error + string" where
  "normalize_okx_swap s =
     (if CHR '':'' \<notin> set s then Inl (No_settlement s)
      else (let pair = takeWhile (\<lambda>c. c \<noteq> CHR '':'') s
            in if CHR ''/'' \<notin> set pair then Inl (Malformed_pair s) else Inr (slash_to_dash pair @ ''-PERP'')))"

definition normalize_yfinance :: "string \<Rightarrow> symbol_error + string" where
  "normalize_yfinance s =
     (let s = strip_spot_suffix s
      in if \<exists>c \<in> set s. c \<in> {CHR ''.'', CHR ''^'', CHR ''=''} then Inl (Unsupported_ticker s) else Inr s)"

definition normalize_coingecko_slug :: "string \<Rightarrow> symbol_error + string" where
  "normalize_coingecko_slug s =
     (case dict_get COINGECKO (map lower_char (strip s)) of None \<Rightarrow> Inl (Unknown_slug s) | Some a \<Rightarrow> Inr a)"

definition digit :: "char \<Rightarrow> bool" where
  "digit c \<longleftrightarrow> (let n = (of_char c :: nat) in 48 \<le> n \<and> n \<le> 57)"

text \<open>One or two digits, three capital letters, two digits.\<close>

definition parse_deribit_date :: "string \<Rightarrow> symbol_error + string" where
  "parse_deribit_date token =
     (let n = length token;
          day = take (n - 5) token;
          mon = take 3 (drop (n - 5) token);
          yy = drop (n - 2) token
      in if n \<in> {6, 7} \<and> list_all digit day \<and> list_all (\<lambda>c. upper_or_digit c \<and> \<not> digit c) mon \<and> list_all digit yy
         then (case dict_get DERIBIT_MONTHS mon of
                 None \<Rightarrow> Inl (Unknown_month mon)
               | Some mm \<Rightarrow> Inr (yy @ mm @ replicate (2 - length day) (CHR ''0'') @ day))
         else Inl (Bad_date token))"

definition normalize_deribit :: "string \<Rightarrow> symbol_error + string" where
  "normalize_deribit s =
     (case split_on (CHR ''-'') s of
        [asset, t] \<Rightarrow>
          if t = ''PERPETUAL'' then Inr (asset @ ''-USD-PERP'')
          else (case parse_deribit_date t of Inl e \<Rightarrow> Inl e | Inr d \<Rightarrow> Inr (asset @ ''-USD-FUT-'' @ d))
      | [asset, t, strike, side] \<Rightarrow>
          if side \<in> {''C'', ''P''}
          then (case parse_deribit_date t of
                  Inl e \<Rightarrow> Inl e
                | Inr d \<Rightarrow> Inr (asset @ ''-USD-'' @ (if side = ''C'' then ''CALL'' else ''PUT'') @ ''-'' @ strike @ ''-'' @ d))
          else Inl (Bad_deribit s)
      | _ \<Rightarrow> Inl (Bad_deribit s))"

definition validate_canonical :: "string \<Rightarrow> symbol_error + string" where
  "validate_canonical s =
     (if length s > MAX_LENGTH then Inl (Too_long s)
      else if \<not> canonical_match s then Inl (Not_canonical s) else Inr s)"

definition to_canonical :: "string \<Rightarrow> string option \<Rightarrow> instrument option \<Rightarrow> symbol_error + string" where
  "to_canonical raw source inst =
     (if strip raw = '''' then Inl Empty_input
      else
        (let s = strip raw; u = map upper_char s;
             result =
               (case source of
                  None \<Rightarrow> Inr (strip_spot_suffix u)
                | Some src \<Rightarrow>
                    if src = ''binance'' then normalize_binance_concat u inst
                    else if src = ''binance_futures'' then normalize_binance_concat u (Some PERP)
                    else if src = ''okx_spot'' then Inr (normalize_okx_spot u)
                    else if src = ''okx_swap'' then normalize_okx_swap u
                    else if src = ''helixa'' then Inr (normalize_okx_spot u)
                    else if src = ''yfinance'' then normalize_yfinance u
                    else if src = ''coingecko'' then normalize_coingecko_slug s
                    else if src = ''deribit'' then normalize_deribit u
                    else Inl (Unknown_source src))
         in case result of Inl e \<Rightarrow> Inl e | Inr r \<Rightarrow> validate_canonical r))"

section \<open>Components and formats\<close>

record components =
  base :: string
  quote :: "string option"
  instr :: instrument
  strike :: "int option"
  expiration :: "string option"

text \<open>\<open>int\<close> of a canonical part: decimal digits only.\<close>

definition part_to_int :: "string \<Rightarrow> int option" where
  "part_to_int p = (if p \<noteq> '''' \<and> list_all digit p
     then Some (foldl (\<lambda>n c. n * 10 + int (of_char c - 48 :: nat)) 0 p) else None)"

definition parse_components :: "string \<Rightarrow> symbol_error + components" where
  "parse_components c =
     (if \<not> is_canonical c then Inl (Not_canonical c)
      else case split_on (CHR ''-'') c of
        [b] \<Rightarrow> Inr \<lparr>base = b, quote = None, instr = ASSET, strike = None, expiration = None\<rparr>
      | [b, q] \<Rightarrow> Inr \<lparr>base = b, quote = Some q, instr = SPOT, strike = None, expiration = None\<rparr>
      | [b, q, i] \<Rightarrow>
          if i = ''PERP'' then Inr \<lparr>base = b, quote = Some q, instr = PERP, strike = None, expiration = None\<rparr>
          else Inl (Not_canonical c)
      | [b, q, i, e] \<Rightarrow>
          if i = ''FUT'' then Inr \<lparr>base = b, quote = Some q, instr = FUT, strike = None, expiration = Some e\<rparr>
          else Inl (Not_canonical c)
      | [b, q, i, s, e] \<Rightarrow>
          if i \<in> {''CALL'', ''PUT''}
          then (case part_to_int s of
                  None \<Rightarrow> Inl (Bad_strike s)
                | Some n \<Rightarrow> Inr \<lparr>base = b, quote = Some q, instr = (if i = ''CALL'' then CALL else PUT),
                                strike = Some n, expiration = Some e\<rparr>)
          else Inl (Not_canonical c)
      | _ \<Rightarrow> Inl (Not_canonical c))"

definition quote_text :: "components \<Rightarrow> string" where
  "quote_text c = (case quote c of None \<Rightarrow> ''None'' | Some q \<Rightarrow> q)"

definition to_binance_concat :: "string \<Rightarrow> symbol_error + string" where
  "to_binance_concat c =
     (case parse_components c of
        Inl e \<Rightarrow> Inl e
      | Inr p \<Rightarrow> if instr p \<notin> {SPOT, PERP} then Inl (Wrong_instrument c) else Inr (base p @ quote_text p))"

definition to_helixa_format :: "string \<Rightarrow> symbol_error + string" where
  "to_helixa_format c =
     (case parse_components c of
        Inl e \<Rightarrow> Inl e
      | Inr p \<Rightarrow>
          if instr p = SPOT then Inr (base p @ ''/'' @ quote_text p)
          else if instr p = PERP then Inr (base p @ ''/'' @ quote_text p @ '':'' @ quote_text p)
          else Inl (Wrong_instrument c))"

definition to_okx_format :: "string \<Rightarrow> symbol_error + string" where
  "to_okx_format c = to_helixa_format c"

definition to_coingecko_slug :: "string \<Rightarrow> symbol_error + string" where
  "to_coingecko_slug c =
     (case parse_components c of
        Inl e \<Rightarrow> Inl e
      | Inr p \<Rightarrow> (case dict_get (map (\<lambda>(k, v). (v, k)) COINGECKO) (base p) of
                    None \<Rightarrow> Inl (Unknown_slug (base p)) | Some s \<Rightarrow> Inr s))"

definition from_coingecko_slug :: "string \<Rightarrow> symbol_error + string" where
  "from_coingecko_slug s = normalize_coingecko_slug s"

section \<open>Canonical texts are left alone\<close>

definition canonical_char :: "char \<Rightarrow> bool" where
  "canonical_char c \<longleftrightarrow> upper_or_digit c \<or> c \<in> {CHR ''-'', CHR ''/'', CHR '':''}"

lemma canonical_char_facts:
  assumes "canonical_char c"
  shows "upper_char c = c" "\<not> white_space c"
proof -
  let ?n = "of_char c :: nat"
  have n: "?n \<in> {48..58} \<or> ?n \<in> {65..90} \<or> ?n = 45 \<or> ?n = 47"
    using assms by (auto simp: canonical_char_def upper_or_digit_def Let_def)
  then show "upper_char c = c" "\<not> white_space c" by (auto simp: upper_char_def white_space_def Let_def)
qed

lemma pattern_chars: "pattern_ok s \<Longrightarrow> \<forall>c \<in> set s. upper_or_digit c \<or> c = CHR ''-''"
  using split_on_chars [of s "CHR ''-''"]
  by (fastforce simp: pattern_ok_def part_ok_def list_all_iff)

lemma pattern_nonempty: "pattern_ok s \<Longrightarrow> s \<noteq> ''''"
  by (auto simp: pattern_ok_def part_ok_def)

lemma strip_canonical:
  assumes "\<forall>c \<in> set s. canonical_char c"
  shows "strip s = s" "map upper_char s = s"
proof -
  have "dropWhile white_space t = t" if "\<forall>c \<in> set t. canonical_char c" for t
    using that canonical_char_facts(2) by (cases t) auto
  then show "strip s = s" using assms by (simp add: strip_def)
  show "map upper_char s = s" using assms canonical_char_facts(1) by (simp add: map_idI)
qed

lemma pattern_validates: "pattern_ok s \<Longrightarrow> length s \<le> MAX_LENGTH \<Longrightarrow> validate_canonical s = Inr s"
  by (simp add: validate_canonical_def canonical_match_def)

lemma to_canonical_plain:
  assumes "\<forall>c \<in> set s. canonical_char c" and "s \<noteq> ''''"
  shows "to_canonical s None i = validate_canonical (strip_spot_suffix s)"
    "to_canonical s (Some ''okx_spot'') i = validate_canonical (normalize_okx_spot s)"
    "to_canonical s (Some ''okx_swap'') i =
       (case normalize_okx_swap s of Inl e \<Rightarrow> Inl e | Inr r \<Rightarrow> validate_canonical r)"
    "to_canonical s (Some ''binance'') i =
       (case normalize_binance_concat s i of Inl e \<Rightarrow> Inl e | Inr r \<Rightarrow> validate_canonical r)"
  using strip_canonical [OF assms(1)] assms(2) by (simp_all add: to_canonical_def Let_def)

text \<open>The parts of a spot or perpetual symbol.\<close>

lemma parse_pair:
  assumes "parse_components c = Inr p" and "instr p \<in> {SPOT, PERP}" and "pattern_ok c"
  obtains q where "quote p = Some q" "part_ok (base p)" "part_ok q" "length c \<le> MAX_LENGTH"
    "CHR ''-'' \<notin> set (base p)" "CHR ''-'' \<notin> set q"
    "c = base p @ ''-'' @ q @ (if instr p = PERP then ''-PERP'' else '''')"
proof -
  have can: "is_canonical c" using assms(1) by (auto simp: parse_components_def split: if_splits)
  have "(\<exists>b q. split_on (CHR ''-'') c = [b, q] \<and> base p = b \<and> quote p = Some q \<and> instr p = SPOT)
    \<or> (\<exists>b q. split_on (CHR ''-'') c = [b, q, ''PERP''] \<and> base p = b \<and> quote p = Some q \<and> instr p = PERP)"
    using assms(1,2) can
    by (auto simp: parse_components_def split: list.splits if_splits option.splits)
  then obtain b q where bq: "base p = b" "quote p = Some q"
    "split_on (CHR ''-'') c = (if instr p = PERP then [b, q, ''PERP''] else [b, q])" by auto
  then have "b \<in> set (split_on (CHR ''-'') c)" "q \<in> set (split_on (CHR ''-'') c)" by auto
  moreover from this have "CHR ''-'' \<notin> set b" "CHR ''-'' \<notin> set q" by (auto dest: split_on_parts)
  moreover have "c = b @ ''-'' @ q @ (if instr p = PERP then ''-PERP'' else '''')"
    using bq(3) split_two [of "CHR ''-''" c b q] split_three [of "CHR ''-''" c b q "''PERP''"]
    by (auto split: if_splits)
  ultimately show ?thesis
    using that [of q] bq assms(3) can by (auto simp: pattern_ok_def list_all_iff is_canonical_def)
qed

lemma part_chars: "part_ok p \<Longrightarrow> \<forall>c \<in> set p. canonical_char c \<and> c \<noteq> CHR ''/'' \<and> c \<noteq> CHR '':'' \<and> c \<noteq> CHR ''-''"
proof -
  assume "part_ok p"
  then have "\<forall>c \<in> set p. upper_or_digit c" by (simp add: part_ok_def list_all_iff)
  moreover have "\<not> upper_or_digit (CHR ''/'')" "\<not> upper_or_digit (CHR '':'')" "\<not> upper_or_digit (CHR ''-'')"
    by (simp_all add: upper_or_digit_def)
  ultimately show ?thesis by (auto simp: canonical_char_def)
qed

section \<open>Properties\<close>

lemma to_canonical_checked:
  "to_canonical raw src inst = Inr s \<Longrightarrow> length s \<le> MAX_LENGTH \<and> canonical_match s"
  by (auto simp: to_canonical_def Let_def validate_canonical_def split: if_splits sum.splits option.splits)

text \<open>
  Normalising is idempotent: whatever source a symbol came from, its canonical form is within
  the length limit and, unless it ends in the forbidden spot suffix or a newline, normalising it
  again without a source gives it back.
\<close>

theorem to_canonical_idempotent:
  assumes "to_canonical raw src inst = Inr s"
  shows "length s \<le> MAX_LENGTH \<and> canonical_match s
    \<and> (pattern_ok s \<and> \<not> has_suffix s ''-SPOT'' \<longrightarrow> is_canonical s \<and> to_canonical s None inst' = Inr s)"
proof -
  note c = to_canonical_checked [OF assms]
  have "is_canonical s \<and> to_canonical s None inst' = Inr s" if p: "pattern_ok s" "\<not> has_suffix s ''-SPOT''"
  proof -
    have "\<forall>ch \<in> set s. canonical_char ch" using pattern_chars [OF p(1)] by (auto simp: canonical_char_def)
    from to_canonical_plain(1) [OF this pattern_nonempty [OF p(1)], of inst'] pattern_validates [OF p(1)] c p(2)
    show ?thesis by (simp add: strip_spot_suffix_def is_canonical_def)
  qed
  with c show ?thesis by blast
qed

theorem to_canonical_idempotent_witness:
  "to_canonical ''btcusdt'' (Some ''binance'') None = Inr ''BTC-USDT''
   \<and> to_canonical ''BTC-USDT'' None None = Inr ''BTC-USDT''"
proof -
  have t: "to_canonical ''btcusdt'' (Some ''binance'') None = Inr ''BTC-USDT''" by code_simp
  have "pattern_ok ''BTC-USDT'' \<and> \<not> has_suffix ''BTC-USDT'' ''-SPOT''" by code_simp
  with t to_canonical_idempotent [OF t, of None] show ?thesis by blast
qed

text \<open>
  The OKX format loses nothing: writing a spot or perpetual symbol in it and reading it back as
  OKX spot or swap gives the symbol.
\<close>

theorem okx_round_trip:
  assumes "parse_components c = Inr p" and "instr p \<in> {SPOT, PERP}" and "pattern_ok c"
  shows "\<exists>s. to_okx_format c = Inr s
    \<and> to_canonical s (Some (if instr p = SPOT then ''okx_spot'' else ''okx_swap'')) inst = Inr c"
proof -
  obtain q where q: "quote p = Some q" "part_ok (base p)" "part_ok q" "length c \<le> MAX_LENGTH"
    "CHR ''-'' \<notin> set (base p)" "CHR ''-'' \<notin> set q"
    and c: "c = base p @ ''-'' @ q @ (if instr p = PERP then ''-PERP'' else '''')"
    using parse_pair [OF assms] .
  note chars = part_chars [OF q(2)] part_chars [OF q(3)]
  have slash: "slash_to_dash (base p @ ''/'' @ q) = base p @ ''-'' @ q"
    using chars by (auto simp: slash_to_dash_def map_idI)
  have v: "validate_canonical c = Inr c" using pattern_validates [OF assms(3) q(4)] .
  show ?thesis
  proof (cases "instr p = SPOT")
    case True
    let ?s = "base p @ ''/'' @ q"
    have "\<forall>ch \<in> set ?s. canonical_char ch" using chars by (auto simp: canonical_char_def)
    then have "to_canonical ?s (Some ''okx_spot'') inst = validate_canonical (normalize_okx_spot ?s)"
      by (rule to_canonical_plain) simp
    moreover have "to_okx_format c = Inr ?s"
      using assms(1) True q(1) by (simp add: to_okx_format_def to_helixa_format_def quote_text_def)
    moreover have "normalize_okx_spot ?s = c" using slash c True by (simp add: normalize_okx_spot_def)
    ultimately show ?thesis using True v by simp
  next
    case False
    with assms(2) have perp: "instr p = PERP" by simp
    let ?s = "base p @ ''/'' @ q @ '':'' @ q"
    have "\<forall>ch \<in> set ?s. canonical_char ch" using chars by (auto simp: canonical_char_def)
    then have t: "to_canonical ?s (Some ''okx_swap'') inst =
       (case normalize_okx_swap ?s of Inl e \<Rightarrow> Inl e | Inr r \<Rightarrow> validate_canonical r)"
      by (rule to_canonical_plain) simp
    have "takeWhile (\<lambda>c. c \<noteq> CHR '':'') ((base p @ ''/'' @ q) @ '':'' @ q) = base p @ ''/'' @ q"
      using chars by (subst takeWhile_append2) auto
    then have "normalize_okx_swap ?s = Inr c"
      using slash c perp by (simp add: normalize_okx_swap_def)
    moreover have "to_okx_format c = Inr ?s"
      using assms(1) perp q(1) by (simp add: to_okx_format_def to_helixa_format_def quote_text_def)
    ultimately show ?thesis using perp t v by simp
  qed
qed

theorem okx_round_trip_witness:
  "\<exists>s. to_okx_format ''BTC-USDT-PERP'' = Inr s \<and> to_canonical s (Some ''okx_swap'') None = Inr ''BTC-USDT-PERP''"
proof -
  have "parse_components ''BTC-USDT-PERP''
      = Inr \<lparr>base = ''BTC'', quote = Some ''USDT'', instr = PERP, strike = None, expiration = None\<rparr>"
    and "pattern_ok ''BTC-USDT-PERP''" by code_simp+
  from okx_round_trip [OF this(1) _ this(2), of None] show ?thesis by simp
qed

text \<open>
  The concatenated format can lose the split: reading it back gives the symbol exactly when the
  first known quote that fits the end of the concatenation is the symbol's own quote.
\<close>

theorem concat_round_trip_iff:
  assumes "parse_components c = Inr p" and "instr p \<in> {SPOT, PERP}" and "pattern_ok c"
  shows "\<exists>s. to_binance_concat c = Inr s \<and> s = base p @ quote_text p
    \<and> (to_canonical s (Some ''binance'') (Some (instr p)) = Inr c \<longleftrightarrow> find (splits_at s) KNOWN_QUOTES = quote p)"
proof -
  obtain q where q: "quote p = Some q" "part_ok (base p)" "part_ok q" "length c \<le> MAX_LENGTH"
    "CHR ''-'' \<notin> set (base p)" "CHR ''-'' \<notin> set q"
    and c: "c = base p @ ''-'' @ q @ (if instr p = PERP then ''-PERP'' else '''')"
    using parse_pair [OF assms] .
  let ?s = "base p @ q"
  have "\<forall>ch \<in> set ?s. canonical_char ch" using part_chars [OF q(2)] part_chars [OF q(3)] by auto
  moreover have "?s \<noteq> ''''" using q(2) by (auto simp: part_ok_def)
  ultimately have t: "to_canonical ?s (Some ''binance'') (Some (instr p)) =
      (case normalize_binance_concat ?s (Some (instr p)) of Inl e \<Rightarrow> Inl e | Inr r \<Rightarrow> validate_canonical r)"
    by (rule to_canonical_plain)
  have "to_canonical ?s (Some ''binance'') (Some (instr p)) = Inr c \<longleftrightarrow> find (splits_at ?s) KNOWN_QUOTES = Some q"
  proof
    assume f: "find (splits_at ?s) KNOWN_QUOTES = Some q"
    then have "normalize_binance_concat ?s (Some (instr p)) = Inr c"
      using c by (auto simp: normalize_binance_concat_def)
    with t pattern_validates [OF assms(3) q(4)]
    show "to_canonical ?s (Some ''binance'') (Some (instr p)) = Inr c" by simp
  next
    assume a: "to_canonical ?s (Some ''binance'') (Some (instr p)) = Inr c"
    then obtain r where r: "find (splits_at ?s) KNOWN_QUOTES = Some r"
      "validate_canonical (take (length ?s - length r) ?s @ ''-'' @ r @ (if instr p = PERP then ''-PERP'' else '''')) = Inr c"
      unfolding t by (auto simp: normalize_binance_concat_def split: option.splits)
    then have "take (length ?s - length r) ?s @ ''-'' @ r @ (if instr p = PERP then ''-PERP'' else '''') = c"
      by (auto simp: validate_canonical_def split: if_splits)
    then have e: "take (length ?s - length r) ?s @ CHR ''-'' # r = base p @ CHR ''-'' # q"
      using c by (auto split: if_splits)
    have "CHR ''-'' \<notin> set (take (length ?s - length r) ?s)" using q(5,6) by (auto dest: in_set_takeD)
    with split_on_append [of "CHR ''-''" "take (length ?s - length r) ?s" r]
      split_on_append [OF q(5), of q] e
    have "take (length ?s - length r) ?s = base p" by simp
    from this e have "base p @ CHR ''-'' # r = base p @ CHR ''-'' # q" by (simp only:)
    then have "r = q" by simp
    with r show "find (splits_at ?s) KNOWN_QUOTES = Some q" by simp
  qed
  then show ?thesis
    using assms(1,2) q(1) by (auto simp: to_binance_concat_def quote_text_def)
qed

theorem concat_round_trip_iff_witness:
  "to_binance_concat ''AT-USD'' = Inr ''ATUSD''
   \<and> to_canonical ''ATUSD'' (Some ''binance'') (Some SPOT) \<noteq> Inr ''AT-USD''"
proof -
  have p: "parse_components ''AT-USD''
      = Inr \<lparr>base = ''AT'', quote = Some ''USD'', instr = SPOT, strike = None, expiration = None\<rparr>"
    and o: "pattern_ok ''AT-USD''" and f: "find (splits_at ''ATUSD'') KNOWN_QUOTES = Some ''TUSD''"
    by code_simp+
  from concat_round_trip_iff [OF p _ o] f show ?thesis by (simp add: quote_text_def)
qed

text \<open>Two symbols the code calls canonical although they are not.\<close>

lemma newline_is_canonical: "is_canonical (''BTC-USDT'' @ [CHR 0x0A])"
  by code_simp

lemma spot_suffix_results: "to_canonical ''BTC/SPOT'' (Some ''okx_spot'') None = Inr ''BTC-SPOT'' \<and> \<not> is_canonical ''BTC-SPOT''"
  by code_simp

end
