(* ===== verification/PopulationGenome.thy ===== *)
theory PopulationGenome
  imports Json
begin

text \<open>
  The population of workflow variants of \<^verbatim>\<open>obase/population_genome_store.py\<close>: records, rewards,
  the population limit with its eviction order, queries, snapshots, and the exported document.
  The dictionary is insertion ordered; scores are exact rationals; the fresh identifier, the
  clock reading and the serialised graph are arguments.
\<close>

section \<open>Records\<close>

record genome =
  genome_id :: string
  dag_json :: string
  parent_ids :: "string list"
  birth_generation :: int
  total_executions :: int
  reward_history :: "(rat \<times> rat) list"
  last_score :: rat
  is_active :: bool
  metadata :: jdict

definition genome_reward :: "rat \<Rightarrow> rat \<Rightarrow> genome \<Rightarrow> genome" where
  "genome_reward now score g = g\<lparr>reward_history := reward_history g @ [(now, score)],
     total_executions := total_executions g + 1, last_score := score\<rparr>"

definition genome_to_dict :: "genome \<Rightarrow> jdict" where
  "genome_to_dict g =
     [(''genome_id'', JStr (genome_id g)), (''dag_json'', JStr (dag_json g)),
      (''parent_ids'', JList (map JStr (parent_ids g))),
      (''birth_generation'', JInt (birth_generation g)), (''total_executions'', JInt (total_executions g)),
      (''reward_history'', JList (map (\<lambda>(t, s). JList [JFloat t, JFloat s]) (reward_history g))),
      (''last_score'', JFloat (last_score g)), (''is_active'', JBool (is_active g)),
      (''metadata'', JDict (metadata g))]"

fun as_reward :: "json \<Rightarrow> decode_error + (rat \<times> rat)" where
  "as_reward (JList [t, s]) = bindE (as_float t) (\<lambda>t. bindE (as_float s) (\<lambda>s. Inr (t, s)))"
| "as_reward j = Inl (Ill_typed j)"

definition as_strs :: "json \<Rightarrow> decode_error + string list" where
  "as_strs j = bindE (as_list j) (mapE as_str)"

definition as_rewards :: "json \<Rightarrow> decode_error + (rat \<times> rat) list" where
  "as_rewards j = bindE (as_list j) (mapE as_reward)"

definition genome_from_dict :: "jdict \<Rightarrow> decode_error + genome" where
  "genome_from_dict d =
     bindE (need ''genome_id'' as_str d) (\<lambda>i. bindE (need ''dag_json'' as_str d) (\<lambda>dag.
     bindE (opt ''parent_ids'' [] as_strs d) (\<lambda>ps. bindE (opt ''birth_generation'' 0 as_int d) (\<lambda>b.
     bindE (opt ''total_executions'' 0 as_int d) (\<lambda>n. bindE (opt ''reward_history'' [] as_rewards d) (\<lambda>h.
     bindE (opt ''last_score'' 0 as_float d) (\<lambda>l. bindE (opt ''is_active'' True as_bool d) (\<lambda>a.
     bindE (opt ''metadata'' [] as_dict d) (\<lambda>m.
       Inr \<lparr>genome_id = i, dag_json = dag, parent_ids = ps, birth_generation = b, total_executions = n,
            reward_history = h, last_score = l, is_active = a, metadata = m\<rparr>)))))))))"

section \<open>The store\<close>

record store =
  max_population :: int
  genomes :: "(string, genome) dict"
  generation :: int

definition new_store :: "int \<Rightarrow> store" where
  "new_store m = \<lparr>max_population = m, genomes = [], generation = 0\<rparr>"

definition active_of :: "(string, genome) dict \<Rightarrow> genome list" where
  "active_of gs = filter is_active (map snd gs)"

definition list_active :: "store \<Rightarrow> genome list" where
  "list_active s = active_of (genomes s)"

definition list_all_genomes :: "store \<Rightarrow> genome list" where
  "list_all_genomes s = map snd (genomes s)"

text \<open>\<open>del d[k]\<close> raises for a missing key.\<close>

definition del_key :: "'k \<Rightarrow> ('k, 'v) dict \<Rightarrow> 'k + ('k, 'v) dict" where
  "del_key k d = (if dict_get d k = None then Inl k else Inr (dict_pop k d))"

fun del_keys :: "'k list \<Rightarrow> ('k, 'v) dict \<Rightarrow> 'k + ('k, 'v) dict" where
  "del_keys [] d = Inr d"
| "del_keys (k # ks) d = bindE (del_key k d) (del_keys ks)"

text \<open>
  The second loop of the limit: while the population is too large, drop the first genome of
  lowest score among the active ones; stop when none is active.
\<close>

function drop_worst :: "nat \<Rightarrow> (string, genome) dict \<Rightarrow> string + (string, genome) dict" where
  "drop_worst limit gs =
     (if length gs \<le> limit \<or> active_of gs = [] then Inr gs
      else (let w = genome_id (arg_min_list last_score (active_of gs))
            in if dict_get gs w = None then Inl w else drop_worst limit (dict_pop w gs)))"
  by pat_completeness auto
termination
proof (relation "measure (\<lambda>(limit, gs). length gs)")
  fix limit :: nat and gs :: "(string, genome) dict" and w
  assume "\<not> dict_get gs w = None"
  then obtain v where "(w, v) \<in> set gs" by (auto dest: map_of_SomeD)
  then have "length (dict_pop w gs) < length gs"
    unfolding AList.delete_eq by (intro length_filter_less) auto
  then show "((limit, dict_pop w gs), (limit, gs)) \<in> measure (\<lambda>(limit, gs). length gs)" by simp
qed simp

declare drop_worst.simps [simp del]

text \<open>A negative limit behaves as the limit zero: the population is never smaller.\<close>

definition enforce_limit :: "int \<Rightarrow> (string, genome) dict \<Rightarrow> string + (string, genome) dict" where
  "enforce_limit m gs =
     (if int (length gs) \<le> m then Inr gs
      else bindE (del_keys (map genome_id (take (nat (int (length gs) - m))
                    (filter (\<lambda>g. \<not> is_active g) (map snd gs)))) gs)
             (drop_worst (nat m)))"

definition add_genome :: "string \<Rightarrow> string \<Rightarrow> string list \<Rightarrow> jdict \<Rightarrow> store \<Rightarrow> string + store" where
  "add_genome uid dag ps md s =
     (let g = \<lparr>genome_id = uid, dag_json = dag, parent_ids = ps, birth_generation = generation s,
               total_executions = 0, reward_history = [], last_score = 0, is_active = True, metadata = md\<rparr>
      in bindE (enforce_limit (max_population s) (dict_set uid g (genomes s))) (\<lambda>gs. Inr (s\<lparr>genomes := gs\<rparr>)))"

definition get_genome :: "string \<Rightarrow> store \<Rightarrow> genome option" where
  "get_genome i s = dict_get (genomes s) i"

text \<open>Reading the graph back: any exception gives None.\<close>

definition get_dag :: "(string \<Rightarrow> 'dag option) \<Rightarrow> string \<Rightarrow> store \<Rightarrow> 'dag option" where
  "get_dag parse i s = (case get_genome i s of None \<Rightarrow> None | Some g \<Rightarrow> parse (dag_json g))"

definition modify :: "(genome \<Rightarrow> genome) \<Rightarrow> string \<Rightarrow> store \<Rightarrow> store \<times> bool" where
  "modify f i s = (case get_genome i s of
       None \<Rightarrow> (s, False)
     | Some g \<Rightarrow> (s\<lparr>genomes := dict_set i (f g) (genomes s)\<rparr>, True))"

definition record_reward :: "rat \<Rightarrow> string \<Rightarrow> rat \<Rightarrow> store \<Rightarrow> store \<times> bool" where
  "record_reward now i score s = modify (genome_reward now score) i s"

definition deactivate :: "string \<Rightarrow> store \<Rightarrow> store \<times> bool" where
  "deactivate i s = modify (is_active_update (\<lambda>_. False)) i s"

definition remove_genome :: "string \<Rightarrow> store \<Rightarrow> store \<times> bool" where
  "remove_genome i s = (if get_genome i s = None then (s, False)
     else (s\<lparr>genomes := dict_pop i (genomes s)\<rparr>, True))"

definition advance_generation :: "store \<Rightarrow> store \<times> int" where
  "advance_generation s = (s\<lparr>generation := generation s + 1\<rparr>, generation s + 1)"

section \<open>Queries\<close>

text \<open>A stable sort by a key; \<^verbatim>\<open>reverse=True\<close> keeps the order of equal elements.\<close>

definition sort_desc :: "('a \<Rightarrow> rat) \<Rightarrow> 'a list \<Rightarrow> 'a list" where
  "sort_desc f xs = sort_key (\<lambda>x. - f x) xs"

definition top_performers :: "int \<Rightarrow> store \<Rightarrow> genome list" where
  "top_performers n s = slice_to n (sort_desc last_score (list_active s))"

definition bottom_performers :: "int \<Rightarrow> store \<Rightarrow> genome list" where
  "bottom_performers n s = slice_to n (sort_key last_score (list_active s))"

record snapshot =
  snap_generation :: int
  snap_timestamp :: rat
  active_count :: nat
  total_count :: nat
  snap_genomes :: "genome list"
  top_performer :: "genome option"
  mean_score :: rat
  max_score :: rat
  min_score :: rat

definition take_snapshot :: "rat \<Rightarrow> store \<Rightarrow> snapshot" where
  "take_snapshot now s =
     (let act = list_active s; scores = map last_score act
      in \<lparr>snap_generation = generation s, snap_timestamp = now, active_count = length act,
          total_count = length (genomes s), snap_genomes = list_all_genomes s,
          top_performer = (case act of [] \<Rightarrow> None | g # _ \<Rightarrow> Some g),
          mean_score = (if scores = [] then 0 else sum_list scores / of_nat (length scores)),
          max_score = (case scores of [] \<Rightarrow> 0 | x # xs \<Rightarrow> fold max xs x),
          min_score = (case scores of [] \<Rightarrow> 0 | x # xs \<Rightarrow> fold min xs x)\<rparr>)"

definition health :: "store \<Rightarrow> jdict" where
  "health s = [(''status'', JStr ''healthy''), (''generation'', JInt (generation s)),
     (''population_size'', JInt (int (length (genomes s)))),
     (''active_count'', JInt (int (length (list_active s)))), (''max_population'', JInt (max_population s))]"

section \<open>The exported document\<close>

definition to_dict :: "store \<Rightarrow> jdict" where
  "to_dict s = [(''generation'', JInt (generation s)), (''max_population'', JInt (max_population s)),
     (''genomes'', JList (map (\<lambda>(_, g). JDict (genome_to_dict g)) (genomes s)))]"

definition as_genome :: "json \<Rightarrow> decode_error + genome" where
  "as_genome j = bindE (as_dict j) genome_from_dict"

definition as_genomes :: "json \<Rightarrow> decode_error + genome list" where
  "as_genomes j = bindE (as_list j) (mapE as_genome)"

definition from_dict :: "jdict \<Rightarrow> decode_error + store" where
  "from_dict d =
     bindE (opt ''max_population'' 20 as_int d) (\<lambda>m. bindE (opt ''generation'' 0 as_int d) (\<lambda>n.
     bindE (opt ''genomes'' [] as_genomes d) (\<lambda>gs.
       Inr \<lparr>max_population = m, genomes = fold (\<lambda>g. dict_set (genome_id g) g) gs [], generation = n\<rparr>)))"

section \<open>Keys and records agree\<close>

definition keyed :: "(string, genome) dict \<Rightarrow> bool" where
  "keyed gs \<longleftrightarrow> distinct (map fst gs) \<and> (\<forall>(k, g) \<in> set gs. genome_id g = k)"

lemma keyed_Nil [simp]: "keyed []"
  by (simp add: keyed_def)

lemma keyed_entry: "keyed gs \<Longrightarrow> (k, g) \<in> set gs \<Longrightarrow> genome_id g = k \<and> dict_get gs k = Some g"
  by (auto simp: keyed_def)

lemma keyed_pop: "keyed gs \<Longrightarrow> keyed (dict_pop k gs)"
  using distinct_delete [of gs k] by (auto simp: keyed_def AList.delete_eq)

lemma keyed_set: "keyed gs \<Longrightarrow> genome_id g = k \<Longrightarrow> keyed (dict_set k g gs)"
proof -
  assume k: "keyed gs" "genome_id g = k"
  then have d: "distinct (map fst (dict_set k g gs))" by (simp add: keyed_def distinct_update)
  have "genome_id g' = k'" if "(k', g') \<in> set (dict_set k g gs)" for k' g'
  proof -
    from map_of_is_SomeI [OF d that] have "((map_of gs)(k \<mapsto> g)) k' = Some g'" by (simp add: update_conv')
    then show ?thesis using k keyed_entry [of gs k' g'] by (auto split: if_splits dest: map_of_SomeD)
  qed
  with d show ?thesis by (auto simp: keyed_def)
qed

lemma set_pop: "keyed gs \<Longrightarrow> set (dict_pop k gs) = {p \<in> set gs. fst p \<noteq> k}"
  by (auto simp: AList.delete_eq)

lemma length_pop:
  assumes "keyed gs" and "(k, g) \<in> set gs" shows "Suc (length (dict_pop k gs)) = length gs"
proof -
  obtain xs ys where gs: "gs = xs @ (k, g) # ys" using assms(2) by (meson split_list)
  with assms(1) have "k \<notin> fst ` set xs" "k \<notin> fst ` set ys" by (auto simp: keyed_def)
  then have "filter (\<lambda>(k', _). k \<noteq> k') xs = xs" "filter (\<lambda>(k', _). k \<noteq> k') ys = ys"
    by (force simp: filter_id_conv)+
  then show ?thesis by (simp add: gs AList.delete_eq)
qed

lemma active_entry: "g \<in> set (active_of gs) \<longleftrightarrow> is_active g \<and> (\<exists>k. (k, g) \<in> set gs)"
  by (force simp: active_of_def)

text \<open>What the second loop removes: active records of lowest score, and only as many as needed.\<close>

definition dropped_worst :: "(string, genome) dict \<Rightarrow> (string, genome) dict \<Rightarrow> bool" where
  "dropped_worst gs gs' \<longleftrightarrow> set gs' \<subseteq> set gs \<and>
     (\<forall>(k, g) \<in> set gs - set gs'. is_active g \<and>
        (\<forall>(k', g') \<in> set gs'. is_active g' \<longrightarrow> last_score g \<le> last_score g'))"

lemma drop_worst_ok:
  assumes "keyed gs"
  shows "\<exists>gs'. drop_worst limit gs = Inr gs' \<and> keyed gs' \<and> dropped_worst gs gs'
    \<and> (length gs' \<le> limit \<or> active_of gs' = []) \<and> min limit (length gs) \<le> length gs'"
  using assms
proof (induction "length gs" arbitrary: gs rule: less_induct)
  case less
  show ?case
  proof (cases "length gs \<le> limit \<or> active_of gs = []")
    case True
    then show ?thesis using less.prems by (subst drop_worst.simps) (auto simp: dropped_worst_def)
  next
    case False
    let ?g = "arg_min_list last_score (active_of gs)"
    have in_act: "?g \<in> set (active_of gs)" using False by (simp add: arg_min_list_in)
    then obtain k where k: "(k, ?g) \<in> set gs" and act: "is_active ?g" by (auto simp: active_entry)
    from keyed_entry [OF less.prems k] have id: "genome_id ?g = k" "dict_get gs k = Some ?g" by auto
    have least: "last_score ?g \<le> last_score g" if "g \<in> set (active_of gs)" for g
      using that False by (simp add: f_arg_min_list_f)
    let ?gs = "dict_pop k gs"
    have len: "Suc (length ?gs) = length gs" using length_pop [OF less.prems k] .
    obtain gs' where gs': "drop_worst limit ?gs = Inr gs'" "keyed gs'" "dropped_worst ?gs gs'"
      "length gs' \<le> limit \<or> active_of gs' = []" "min limit (length ?gs) \<le> length gs'"
      using less.hyps [of ?gs] len keyed_pop [OF less.prems, of k] by auto
    have "drop_worst limit gs = Inr gs'"
      using gs'(1) False id by (subst drop_worst.simps) (simp add: Let_def)
    moreover have "dropped_worst gs gs'"
    proof -
      have sub: "set gs' \<subseteq> {p \<in> set gs. fst p \<noteq> k}"
        using gs'(3) set_pop [OF less.prems, of k] by (simp add: dropped_worst_def)
      have "is_active g \<and> (\<forall>(k', g') \<in> set gs'. is_active g' \<longrightarrow> last_score g \<le> last_score g')"
        if g: "(j, g) \<in> set gs" "(j, g) \<notin> set gs'" for j g
      proof (cases "j = k")
        case True
        then have "g = ?g" using keyed_entry [OF less.prems g(1)] id(2) by simp
        then show ?thesis using act least sub by (fastforce simp: active_entry)
      next
        case False
        then have "(j, g) \<in> set ?gs" using g set_pop [OF less.prems, of k] by simp
        then have "(j, g) \<in> set ?gs - set gs'" using g by simp
        with gs'(3) show ?thesis unfolding dropped_worst_def by blast
      qed
      then show ?thesis using sub unfolding dropped_worst_def by blast
    qed
    ultimately show ?thesis using gs' len False by auto
  qed
qed

text \<open>The first loop removes inactive records, in insertion order.\<close>

lemma del_keys_ok:
  assumes "keyed gs" and "distinct ks" and "set ks \<subseteq> fst ` set gs"
  shows "\<exists>gs'. del_keys ks gs = Inr gs' \<and> keyed gs' \<and> set gs' = {p \<in> set gs. fst p \<notin> set ks}
    \<and> length gs' + length ks = length gs"
  using assms
proof (induction ks arbitrary: gs)
  case (Cons k ks)
  then obtain g where g: "(k, g) \<in> set gs" by auto
  let ?gs = "dict_pop k gs"
  have "dict_get gs k = Some g" using keyed_entry [OF Cons.prems(1) g] by simp
  moreover have "set ks \<subseteq> fst ` set ?gs"
    using Cons.prems set_pop [OF Cons.prems(1), of k] by (force simp: image_iff)
  with Cons.IH [of ?gs] Cons.prems keyed_pop obtain gs' where "del_keys ks ?gs = Inr gs'" "keyed gs'"
    "set gs' = {p \<in> set ?gs. fst p \<notin> set ks}" "length gs' + length ks = length ?gs" by auto
  ultimately show ?case
    using set_pop [OF Cons.prems(1), of k] length_pop [OF Cons.prems(1) g]
    by (auto simp: del_key_def)
qed simp

lemma inactive_keys:
  assumes "keyed gs"
  shows "map genome_id (filter (\<lambda>g. \<not> is_active g) (map snd gs)) = map fst (filter (\<lambda>p. \<not> is_active (snd p)) gs)"
  using assms by (auto simp: keyed_def filter_map o_def intro!: map_cong)

definition evicts_fairly :: "(string, genome) dict \<Rightarrow> (string, genome) dict \<Rightarrow> bool" where
  "evicts_fairly gs gs' \<longleftrightarrow> set gs' \<subseteq> set gs \<and>
     (\<forall>(k, g) \<in> set gs - set gs'. is_active g \<longrightarrow>
        (\<forall>(k', g') \<in> set gs'. is_active g' \<and> last_score g \<le> last_score g'))"

lemma enforce_limit_ok:
  assumes "keyed gs"
  shows "\<exists>gs'. enforce_limit m gs = Inr gs' \<and> keyed gs' \<and> length gs' = min (nat m) (length gs) \<and> evicts_fairly gs gs'"
proof (cases "int (length gs) \<le> m")
  case True
  then show ?thesis using assms by (auto simp: enforce_limit_def evicts_fairly_def)
next
  case over: False
  define n where "n = nat (int (length gs) - m)"
  define inact where "inact = filter (\<lambda>p. \<not> is_active (snd p)) gs"
  let ?ks = "take n (map fst inact)"
  have ks: "map genome_id (take n (filter (\<lambda>g. \<not> is_active g) (map snd gs))) = ?ks"
    using inactive_keys [OF assms] by (simp only: take_map [symmetric] inact_def)
  have dist: "distinct (map fst gs)" using assms by (simp add: keyed_def)
  then have d: "distinct ?ks" by (simp add: inact_def distinct_map_filter)
  have sub: "set ?ks \<subseteq> fst ` set gs" by (auto simp: inact_def dest!: in_set_takeD)
  obtain gs1 where gs1: "del_keys ?ks gs = Inr gs1" "keyed gs1"
    "set gs1 = {p \<in> set gs. fst p \<notin> set ?ks}" "length gs1 + length ?ks = length gs"
    using del_keys_ok [OF assms d sub] by blast
  have enf: "enforce_limit m gs = drop_worst (nat m) gs1"
    using over gs1(1) ks by (simp add: enforce_limit_def n_def)
  have kept: "(k, g) \<in> set gs1" if "(k, g) \<in> set gs" "is_active g" for k g
  proof -
    have "k \<notin> set (map fst inact)"
    proof
      assume "k \<in> set (map fst inact)"
      then obtain g' where g': "(k, g') \<in> set gs" "\<not> is_active g'" by (auto simp: inact_def)
      with keyed_entry [OF assms g'(1)] keyed_entry [OF assms that(1)] that(2) show False by simp
    qed
    then show ?thesis using that gs1(3) by (auto dest: in_set_takeD)
  qed
  show ?thesis
  proof (cases "n \<le> length inact")
    case True
    have "length inact \<le> length gs" by (simp add: inact_def)
    with True over gs1(4) have len: "length gs1 = nat m" "nat m \<le> length gs" by (auto simp: n_def)
    then have "enforce_limit m gs = Inr gs1" using enf by (simp add: drop_worst.simps)
    then show ?thesis using gs1 len kept by (auto simp: evicts_fairly_def)
  next
    case False
    then have "set ?ks = fst ` set inact" by simp
    then have act1: "is_active g" if "(k, g) \<in> set gs1" for k g
      using that gs1(3) by (force simp: inact_def)
    obtain gs' where gs': "drop_worst (nat m) gs1 = Inr gs'" "keyed gs'" "dropped_worst gs1 gs'"
      "length gs' \<le> nat m \<or> active_of gs' = []" "min (nat m) (length gs1) \<le> length gs'"
      using drop_worst_ok [OF gs1(2)] by blast
    have act': "is_active g" if "(k, g) \<in> set gs'" for k g
      using that act1 gs'(3) by (auto simp: dropped_worst_def)
    then have "active_of gs' = map snd gs'" by (auto simp: active_of_def filter_id_conv)
    then have "length gs' \<le> nat m" using gs'(4) by auto
    moreover have "nat m \<le> length gs1" "nat m \<le> length gs" using False over gs1(4) by (auto simp: n_def)
    ultimately have len: "length gs' = min (nat m) (length gs)" using gs'(5) by simp
    have fair: "evicts_fairly gs gs'"
      unfolding evicts_fairly_def
    proof (intro conjI ballI)
      show "set gs' \<subseteq> set gs" using gs'(3) gs1(3) by (auto simp: dropped_worst_def)
      fix p assume p: "p \<in> set gs - set gs'"
      obtain k g where kg: "p = (k, g)" by force
      have "\<forall>(k', g') \<in> set gs'. is_active g' \<and> last_score g \<le> last_score g'" if "is_active g"
      proof -
        have "(k, g) \<in> set gs1 - set gs'" using p kg kept that by auto
        then show ?thesis using gs'(3) act' unfolding dropped_worst_def by fast
      qed
      then show "case p of (k, g) \<Rightarrow> is_active g \<longrightarrow> (\<forall>(k', g') \<in> set gs'. is_active g' \<and> last_score g \<le> last_score g')"
        by (simp add: kg)
    qed
    show ?thesis using enf gs' len fair by auto
  qed
qed

section \<open>Reachable populations\<close>


inductive reachable :: "int \<Rightarrow> store \<Rightarrow> bool" for m where
  start: "reachable m (new_store m)"
| add: "reachable m s \<Longrightarrow> add_genome uid dag ps md s = Inr s' \<Longrightarrow> reachable m s'"
| reward: "reachable m s \<Longrightarrow> reachable m (fst (record_reward now i score s))"
| deactivate: "reachable m s \<Longrightarrow> reachable m (fst (deactivate i s))"
| remove: "reachable m s \<Longrightarrow> reachable m (fst (remove_genome i s))"
| advance: "reachable m s \<Longrightarrow> reachable m (fst (advance_generation s))"

definition sound :: "int \<Rightarrow> store \<Rightarrow> bool" where
  "sound m s \<longleftrightarrow> max_population s = m \<and> keyed (genomes s) \<and> length (genomes s) \<le> nat m"

lemma length_set_existing: "dict_get gs k = Some v \<Longrightarrow> length (dict_set k w gs) = length gs"
  by (induction gs) (auto split: if_splits)

lemma sound_modify:
  assumes "sound m s" and "\<And>g. genome_id (f g) = genome_id g" shows "sound m (fst (modify f i s))"
proof (cases "get_genome i s")
  case (Some g)
  then have "(i, g) \<in> set (genomes s)" by (simp add: get_genome_def map_of_SomeD)
  then have "genome_id (f g) = i" using assms keyed_entry by (auto simp: sound_def)
  then show ?thesis
    using assms(1) Some length_set_existing [of "genomes s" i g "f g"] keyed_set
    by (simp add: modify_def sound_def get_genome_def)
qed (use assms in \<open>simp add: modify_def\<close>)

lemma sound_remove: "sound m s \<Longrightarrow> sound m (fst (remove_genome i s))"
  using length_delete_le [of i "genomes s"] keyed_pop by (auto simp: sound_def remove_genome_def)

lemma add_genome_ok:
  assumes "keyed (genomes s)"
  shows "\<exists>s' g. add_genome uid dag ps md s = Inr s' \<and> genome_id g = uid \<and> is_active g \<and> last_score g = 0
    \<and> max_population s' = max_population s \<and> keyed (genomes s')
    \<and> length (genomes s') = min (nat (max_population s)) (length (dict_set uid g (genomes s)))
    \<and> evicts_fairly (dict_set uid g (genomes s)) (genomes s')"
proof -
  let ?g = "\<lparr>genome_id = uid, dag_json = dag, parent_ids = ps, birth_generation = generation s,
    total_executions = 0, reward_history = [], last_score = 0, is_active = True, metadata = md\<rparr>"
  have "keyed (dict_set uid ?g (genomes s))" using keyed_set [OF assms, of ?g uid] by simp
  from enforce_limit_ok [OF this, of "max_population s"] show ?thesis
    by (auto simp: add_genome_def Let_def intro!: exI [of _ ?g])
qed

section \<open>Properties\<close>

text \<open>
  Whatever operations run, the population never exceeds its limit, and every record is stored
  under its own identifier, once.
\<close>

theorem population_bounded:
  assumes "reachable m s"
  shows "length (genomes s) \<le> nat m \<and> keyed (genomes s)"
proof -
  from assms have "sound m s"
  proof induction
    case start
    then show ?case by (simp add: sound_def new_store_def)
  next
    case (add s uid dag ps md s')
    then show ?case using add_genome_ok [of s uid dag ps md] by (auto simp: sound_def)
  next
    case (reward s now i score)
    then show ?case
      using sound_modify [of m s "genome_reward now score" i] by (simp add: record_reward_def genome_reward_def)
  next
    case (deactivate s i)
    then show ?case using sound_modify [of m s "is_active_update (\<lambda>_. False)" i] by (simp add: deactivate_def)
  next
    case (remove s i)
    then show ?case by (rule_tac sound_remove)
  next
    case (advance s)
    then show ?case by (simp add: advance_generation_def sound_def)
  qed
  then show ?thesis by (simp add: sound_def)
qed

theorem population_bounded_witness:
  "\<exists>s. add_genome ''b'' '''' [] [] (new_store 1) = Inr s \<and> length (genomes s) \<le> 1"
proof -
  obtain s where s: "add_genome ''b'' '''' [] [] (new_store 1) = Inr s"
    using add_genome_ok [of "new_store 1" "''b''" "''''" "[]" "[]"] by (auto simp: new_store_def)
  from population_bounded [OF reachable.add [OF reachable.start s]] s show ?thesis by auto
qed

text \<open>
  Adding a variant always succeeds, never drops more than the limit requires, and drops an
  active variant only when every survivor is active and scores at least as high.
\<close>

theorem add_evicts_fairly:
  assumes "keyed (genomes s)"
  shows "\<exists>s' g. add_genome uid dag ps md s = Inr s' \<and> genome_id g = uid \<and> last_score g = 0
    \<and> length (genomes s') = min (nat (max_population s)) (length (dict_set uid g (genomes s)))
    \<and> (\<forall>(k, h) \<in> set (dict_set uid g (genomes s)) - set (genomes s'). is_active h \<longrightarrow>
         (\<forall>(k', h') \<in> set (genomes s'). is_active h' \<and> last_score h \<le> last_score h'))"
  using add_genome_ok [OF assms, of uid dag ps md] unfolding evicts_fairly_def by blast

definition ex_genome :: "string \<Rightarrow> rat \<Rightarrow> bool \<Rightarrow> genome" where
  "ex_genome i sc a = \<lparr>genome_id = i, dag_json = '''', parent_ids = [], birth_generation = 0,
     total_executions = 1, reward_history = [(0, sc)], last_score = sc, is_active = a, metadata = []\<rparr>"

definition ex_store :: store where
  "ex_store = \<lparr>max_population = 2,
     genomes = [(''a'', ex_genome ''a'' 1 True), (''b'', ex_genome ''b'' 3 True)], generation = 0\<rparr>"

theorem add_evicts_fairly_witness:
  "\<exists>s'. add_genome ''c'' '''' [] [] ex_store = Inr s' \<and> length (genomes s') = 2"
proof -
  have "keyed (genomes ex_store)" by (simp add: keyed_def ex_store_def ex_genome_def)
  from add_evicts_fairly [OF this, of "''c''" "''''" "[]" "[]"] obtain s' g
    where "add_genome ''c'' '''' [] [] ex_store = Inr s'" "genome_id g = ''c''" "last_score g = 0"
      "length (genomes s') = min (nat (max_population ex_store)) (length (dict_set ''c'' g (genomes ex_store)))"
    by blast
  then show ?thesis by (simp add: ex_store_def)
qed

text \<open>
  Exporting a population and reading the document back gives the same population.
\<close>

theorem store_round_trip:
  assumes "keyed (genomes s)"
  shows "from_dict (to_dict s) = Inr s"
proof -
  have rw: "as_rewards (JList (map (\<lambda>(t, s). JList [JFloat t, JFloat s]) h)) = Inr h" for h
    unfolding as_rewards_def by (auto intro!: mapE_map_id)
  have st: "as_strs (JList (map JStr ps)) = Inr ps" for ps
    unfolding as_strs_def by (auto intro!: mapE_map_id)
  have g: "genome_from_dict (genome_to_dict g) = Inr g" for g
    unfolding genome_from_dict_def genome_to_dict_def by (simp add: need_def opt_def rw st)
  have gs': "as_genomes (JList (map (JDict \<circ> genome_to_dict) gs)) = Inr gs" for gs
    unfolding as_genomes_def by (auto simp: as_genome_def g intro!: mapE_map_id)
  have gs: "as_genomes (JList (map (\<lambda>(_, g). JDict (genome_to_dict g)) d)) = Inr (map snd d)"
    for d :: "(string, genome) dict"
  proof -
    have "map (\<lambda>(_, g). JDict (genome_to_dict g)) d = map (JDict \<circ> genome_to_dict) (map snd d)"
      by (simp add: case_prod_unfold o_def)
    with gs' [of "map snd d"] show ?thesis by (simp only:)
  qed
  have build: "fold (\<lambda>g. dict_set (genome_id g) g) (map snd d) acc = acc @ d"
    if "keyed (acc @ d)" for acc d :: "(string, genome) dict"
    using that
  proof (induction d arbitrary: acc)
    case (Cons p d)
    obtain k g where p: "p = (k, g)" by force
    with Cons.prems have "genome_id g = k" "k \<notin> fst ` set acc" by (auto simp: keyed_def)
    then have "dict_set (genome_id g) g acc = acc @ [p]" by (simp add: p dict_set_new)
    then show ?case using Cons.IH [of "acc @ [p]"] Cons.prems by (simp add: p)
  qed simp
  show ?thesis
    using gs [of "genomes s"] build [of "[]" "genomes s"] assms
    by (simp add: from_dict_def to_dict_def opt_def)
qed

theorem store_round_trip_witness: "from_dict (to_dict ex_store) = Inr ex_store"
  by (rule store_round_trip) (simp add: keyed_def ex_store_def ex_genome_def)

text \<open>The limit takes the newcomer itself, whose score is zero, when all others score higher.\<close>

lemma newcomer_evicted:
  "bindE (add_genome ''c'' '''' [] [] ex_store) (\<lambda>s. Inr (map fst (genomes s))) = Inr [''a'', ''b'']"
  by (simp add: add_genome_def ex_store_def ex_genome_def enforce_limit_def drop_worst.simps active_of_def Let_def)

text \<open>The snapshot's top performer is the oldest active variant, not the best one.\<close>

lemma snapshot_top_is_first:
  "map_option genome_id (top_performer (take_snapshot 0 ex_store)) = Some ''a''
   \<and> map genome_id (top_performers 1 ex_store) = [''b'']"
  by (simp add: take_snapshot_def top_performers_def slice_to_def sort_desc_def list_active_def
      ex_store_def ex_genome_def active_of_def Let_def)

end
