(* ===== verification/ResourceLimits.thy ===== *)
theory ResourceLimits
  imports Python_Text
begin

text \<open>
  Resource envelopes (\<^verbatim>\<open>obase/resource_limits.py\<close>): the limits, their validation, the write scope
  and the network policy, and wall clock deadlines. Path resolution depends on the file system and
  is a parameter that answers the parts of the resolved path. Numbers are exact rationals.
\<close>

section \<open>Network policy\<close>

record network_policy =
  np_mode :: string
  egress_allow :: "string list"

definition host_port :: "string \<Rightarrow> int option \<Rightarrow> string" where
  "host_port host port = (case port of None \<Rightarrow> host | Some p \<Rightarrow> host @ '':'' @ str_int p)"

definition rule_allows :: "string \<Rightarrow> int option \<Rightarrow> string \<Rightarrow> bool" where
  "rule_allows host port rule \<longleftrightarrow> host_port host port = rule \<or> (CHR '':'' \<notin> set rule \<and> rule = host)"

definition policy_allows :: "network_policy \<Rightarrow> string \<Rightarrow> int option \<Rightarrow> bool" where
  "policy_allows p host port \<longleftrightarrow>
     np_mode p \<noteq> ''deny_all'' \<and> list_ex (rule_allows host port) (egress_allow p)"

section \<open>Envelopes\<close>

record envelope =
  e_name :: string
  cpu_seconds :: rat
  memory_mb :: rat
  wallclock_s :: rat
  network :: network_policy
  write_scope :: "string list"
  max_stdout_bytes :: int

definition DEFAULT_ENVELOPE :: envelope where
  "DEFAULT_ENVELOPE = \<lparr>e_name = ''default-denied'', cpu_seconds = 30, memory_mb = 512, wallclock_s = 60,
     network = \<lparr>np_mode = ''deny_all'', egress_allow = []\<rparr>, write_scope = [], max_stdout_bytes = 1048576\<rparr>"

datatype envelope_error = Negative_limit | Unknown_mode string | Relative_scope string

definition is_absolute :: "string \<Rightarrow> bool" where
  "is_absolute p \<longleftrightarrow> (case p of [] \<Rightarrow> False | c # _ \<Rightarrow> c = CHR ''/'')"

definition validate_envelope :: "envelope \<Rightarrow> envelope_error + unit" where
  "validate_envelope e =
     (if cpu_seconds e < 0 \<or> wallclock_s e < 0 \<or> memory_mb e < 0 then Inl Negative_limit
      else if np_mode (network e) \<notin> {''deny_all'', ''allowlist''} then Inl (Unknown_mode (np_mode (network e)))
      else (case find (\<lambda>s. \<not> is_absolute s) (write_scope e) of
              None \<Rightarrow> Inr () | Some s \<Rightarrow> Inl (Relative_scope s)))"

text \<open>\<open>target.relative_to(base)\<close> succeeds when the parts of \<open>base\<close> start those of \<open>target\<close>.\<close>

definition relative_to :: "string list \<Rightarrow> string list \<Rightarrow> bool" where
  "relative_to target base \<longleftrightarrow> take (length base) target = base"

definition write_allowed :: "(string \<Rightarrow> string list) \<Rightarrow> envelope \<Rightarrow> string \<Rightarrow> bool" where
  "write_allowed resolve e path \<longleftrightarrow>
     write_scope e \<noteq> [] \<and> list_ex (\<lambda>scope. relative_to (resolve path) (resolve scope)) (write_scope e)"

definition network_allowed :: "envelope \<Rightarrow> string \<Rightarrow> int option \<Rightarrow> bool" where
  "network_allowed e host port = policy_allows (network e) host port"

section \<open>Deadlines\<close>

definition deadline :: "rat \<Rightarrow> rat \<Rightarrow> rat" where
  "deadline start timeout = start + max 0 timeout"

definition remaining :: "rat \<Rightarrow> rat \<Rightarrow> rat" where
  "remaining dl now = max 0 (dl - now)"

definition expired :: "rat \<Rightarrow> rat \<Rightarrow> bool" where
  "expired dl now \<longleftrightarrow> remaining dl now \<le> 0"

lemma expired_iff: "expired (deadline start timeout) now \<longleftrightarrow> start + max 0 timeout \<le> now"
  by (auto simp: expired_def deadline_def remaining_def)

section \<open>Properties of the envelope\<close>

lemma default_is_valid: "validate_envelope DEFAULT_ENVELOPE = Inr ()"
  by (simp add: validate_envelope_def DEFAULT_ENVELOPE_def)

text \<open>
  A write scope grants exactly the resolved paths at or below one of its entries, whatever the
  path's own spelling; in particular nothing under a sibling that shares a name prefix. An envelope
  in the deny mode lets no host through.
\<close>

theorem write_scope_exact:
  "(write_allowed resolve e path \<longleftrightarrow> (\<exists>s \<in> set (write_scope e). \<exists>rest. resolve path = resolve s @ rest))
   \<and> (np_mode (network e) = ''deny_all'' \<longrightarrow> \<not> network_allowed e host port)"
proof -
  have "relative_to t b \<longleftrightarrow> (\<exists>rest. t = b @ rest)" for t b
    by (auto simp: relative_to_def) (metis append_take_drop_id)
  then show ?thesis
    by (auto simp: write_allowed_def list_ex_iff network_allowed_def policy_allows_def)
qed

theorem write_scope_exact_witness:
  "\<not> network_allowed DEFAULT_ENVELOPE ''h'' None
   \<and> write_allowed (split_on (CHR ''/'')) (DEFAULT_ENVELOPE\<lparr>write_scope := [''/tmp'']\<rparr>) ''/tmp/a''
   \<and> \<not> write_allowed (split_on (CHR ''/'')) (DEFAULT_ENVELOPE\<lparr>write_scope := [''/tmp'']\<rparr>) ''/tmpx/a''"
proof -
  let ?e = "DEFAULT_ENVELOPE\<lparr>write_scope := [''/tmp'']\<rparr>"
  have "np_mode (network DEFAULT_ENVELOPE) = ''deny_all''" by (simp add: DEFAULT_ENVELOPE_def)
  then have "\<not> network_allowed DEFAULT_ENVELOPE ''h'' None"
    using write_scope_exact [where e = DEFAULT_ENVELOPE] by blast
  moreover have "write_allowed (split_on (CHR ''/'')) ?e p \<longleftrightarrow> (\<exists>r. split_on (CHR ''/'') p = [[], ''tmp''] @ r)" for p
    using write_scope_exact [where resolve = "split_on (CHR ''/'')" and e = ?e and path = p] by simp
  ultimately show ?thesis by simp
qed

end
