(* ===== verification/EgressSandbox.thy ===== *)
theory EgressSandbox
  imports Python_Text
begin

text \<open>
  The command sandbox of \<^verbatim>\<open>obase/zero_egress_sandbox.py\<close>: the command firewall, the cleaned
  environment and the run of one command. Starting a process is a parameter: it gets the argument
  vector, directory, environment and time limit, and answers how the process ended. Output arrives
  decoded; the measured milliseconds are an argument.
\<close>

definition NETWORK_COMMANDS :: "string list" where
  "NETWORK_COMMANDS = [''curl'', ''wget'', ''nc'', ''ncat'', ''telnet'', ''ssh'', ''scp'', ''sftp'', ''ftp'',
     ''git fetch'', ''git pull'', ''git push'', ''pip install'', ''pip download'', ''npm install'', ''apt-get'',
     ''apt '', ''yum'', ''dnf'', ''docker pull'', ''dig'', ''nslookup'', ''ping'', ''traceroute'', ''hostname -I'',
     ''ifconfig'', ''ip addr'']"

definition SECRET_VARS :: "string list" where
  "SECRET_VARS = [''AWS_ACCESS_KEY_ID'', ''AWS_SECRET_ACCESS_KEY'', ''OPENAI_API_KEY'', ''ANTHROPIC_API_KEY'',
     ''DASHSCOPE_API_KEY'']"

record sandbox =
  deny_network :: bool
  use_network_namespace :: bool
  max_output_chars :: int
  strip_proxy_env :: bool
  netns_available :: bool

text \<open>The firewall lowers and strips the command and looks for a banned prefix, in table order.\<close>

definition lowered :: "string \<Rightarrow> string" where
  "lowered command = map lower_char (strip command)"

definition check_command :: "sandbox \<Rightarrow> string \<Rightarrow> string option" where
  "check_command sb command =
     (if \<not> deny_network sb then None
      else map_option strip (find (\<lambda>b. lowered command = b \<or> has_prefix (lowered command) b) NETWORK_COMMANDS))"

definition sanitized_env :: "sandbox \<Rightarrow> (string, string) dict \<Rightarrow> (string, string) dict" where
  "sanitized_env sb environ =
     (if strip_proxy_env sb
      then filter (\<lambda>(k, _). \<not> (is_infix ''proxy'' (map lower_char k) \<or> k \<in> set SECRET_VARS)) environ
      else environ)"

datatype process_end =
    Completed int string string
  | Timed_out
  | Shell_missing
  | Os_error string

type_synonym 'w spawner = "string list \<Rightarrow> string option \<Rightarrow> (string, string) dict \<Rightarrow> rat \<Rightarrow> 'w \<Rightarrow> 'w \<times> process_end"

datatype block_reason = Network_command string | Time_limit rat | Cannot_execute string

record sandbox_result =
  r_status :: string
  r_exit_code :: "int option"
  r_stdout :: string
  r_stderr :: string
  r_reason :: "block_reason option"
  r_elapsed_ms :: int

datatype sandbox_error = Empty_command | Shell_unavailable

definition blank_result :: "string \<Rightarrow> sandbox_result" where
  "blank_result st = \<lparr>r_status = st, r_exit_code = None, r_stdout = '''', r_stderr = '''',
     r_reason = None, r_elapsed_ms = 0\<rparr>"

definition shell_argv :: "sandbox \<Rightarrow> string \<Rightarrow> string list" where
  "shell_argv sb command =
     (if use_network_namespace sb \<and> netns_available sb
      then [''unshare'', ''-n'', ''sh'', ''-c'', command] else [''sh'', ''-c'', command])"

text \<open>An absent or empty environment is replaced by the cleaned one of the running process.\<close>

definition run_env :: "sandbox \<Rightarrow> (string, string) dict \<Rightarrow> (string, string) dict option \<Rightarrow> (string, string) dict" where
  "run_env sb environ env = (case env of None \<Rightarrow> sanitized_env sb environ
     | Some e \<Rightarrow> if e = [] then sanitized_env sb environ else e)"

definition sandbox_run :: "'w spawner \<Rightarrow> (string, string) dict \<Rightarrow> int \<Rightarrow> sandbox \<Rightarrow> string \<Rightarrow> rat \<Rightarrow>
    string option \<Rightarrow> (string, string) dict option \<Rightarrow> 'w \<Rightarrow> 'w \<times> (sandbox_error + sandbox_result)" where
  "sandbox_run spawn environ ms sb command timeout cwd env w =
     (if blank command then (w, Inl Empty_command)
      else case check_command sb command of
        Some r \<Rightarrow> (w, Inr ((blank_result ''blocked'')\<lparr>r_reason := Some (Network_command r)\<rparr>))
      | None \<Rightarrow>
          (case spawn (shell_argv sb command) cwd (run_env sb environ env) timeout w of
             (w', Timed_out) \<Rightarrow> (w', Inr ((blank_result ''timeout'')\<lparr>r_reason := Some (Time_limit timeout), r_elapsed_ms := ms\<rparr>))
           | (w', Shell_missing) \<Rightarrow> (w', Inl Shell_unavailable)
           | (w', Os_error m) \<Rightarrow> (w', Inr ((blank_result ''error'')\<lparr>r_reason := Some (Cannot_execute m)\<rparr>))
           | (w', Completed code out err) \<Rightarrow>
               (w', Inr \<lparr>r_status = (if code = 0 then ''ok'' else ''error''), r_exit_code = Some code,
                   r_stdout = slice_to (max_output_chars sb) out, r_stderr = slice_to (max_output_chars sb) err,
                   r_reason = None, r_elapsed_ms = ms\<rparr>)))"

section \<open>What the firewall sees\<close>

text \<open>A command the firewall names never reaches the process starter.\<close>

lemma blocked_not_spawned:
  "check_command sb command = Some r \<Longrightarrow> fst (sandbox_run spawn environ ms sb command timeout cwd env w) = w"
  by (simp add: sandbox_run_def)

lemma blocked_result:
  "check_command sb command = Some r \<Longrightarrow> \<not> blank command \<Longrightarrow>
   snd (sandbox_run spawn environ ms sb command timeout cwd env w)
     = Inr ((blank_result ''blocked'')\<lparr>r_reason := Some (Network_command r)\<rparr>)"
  by (simp add: sandbox_run_def)

text \<open>Everything a started process sees of the environment was cleaned of proxies and the listed keys.\<close>

lemma sanitized_env_clean:
  "strip_proxy_env sb \<Longrightarrow> (k, v) \<in> set (sanitized_env sb environ) \<Longrightarrow>
     (k, v) \<in> set environ \<and> \<not> is_infix ''proxy'' (map lower_char k) \<and> k \<notin> set SECRET_VARS"
  by (auto simp: sanitized_env_def)

definition plain_sandbox :: sandbox where
  "plain_sandbox = \<lparr>deny_network = True, use_network_namespace = False, max_output_chars = 20000,
     strip_proxy_env = True, netns_available = False\<rparr>"

text \<open>Only the first word counts, and only by its spelling.\<close>

lemma firewall_by_spelling:
  "check_command plain_sandbox ''CURL http://h'' = Some ''curl''"
  "check_command plain_sandbox ''ncdu /'' = Some ''nc''"
  "check_command plain_sandbox ''/usr/bin/curl http://h'' = None"
  "check_command plain_sandbox ''true; curl http://h'' = None"
proof -
  have "lowered ''CURL http://h'' = ''curl http://h''" by code_simp
  then show "check_command plain_sandbox ''CURL http://h'' = Some ''curl''"
    by (simp add: check_command_def plain_sandbox_def NETWORK_COMMANDS_def has_prefix_def strip_def white_space_def)
qed (simp_all add: check_command_def lowered_def plain_sandbox_def NETWORK_COMMANDS_def has_prefix_def
      strip_def lower_char_def white_space_def)

end
