(* ===== verification/HardenedExecutor.thy ===== *)
theory HardenedExecutor
  imports Capability Breaker ResourceLimits EgressSandbox
begin

text \<open>
  The execution substrate of \<^verbatim>\<open>obase/hardened_executor.py\<close>: token and capability check, breaker
  and rate limit guards, the honeypot probe, the run itself (synchronous, asynchronous, as a
  command) and the audit log. The executed function acts on a world that holds the file system; it
  may raise, and every exception it raises derives from Exception. Breaker, limiter, process
  starter and URL parser belong to the caller and come as parameters; wall clock readings, measured
  milliseconds and random bytes are arguments. Errors are values; the text of a message is the
  constructor that stands for it.
\<close>

section \<open>The world and the honeypot\<close>

text \<open>
  For each path, whether looking at it (\<open>exists\<close>, \<open>read_bytes\<close>) and whether removing it raises an OSError;
  the function that runs may change both, as it may change the files. A write that fails leaves no file.
\<close>

record 'u world =
  files :: "string \<Rightarrow> string option"
  look_fails :: "string \<Rightarrow> bool"
  unlink_fails :: "string \<Rightarrow> bool"
  app :: 'u

type_synonym trip = "string \<times> string"

record probe =
  bait_dir :: string
  baits :: "(string, string) dict"

definition new_probe :: "string option \<Rightarrow> string \<Rightarrow> probe" where
  "new_probe dir tmp = \<lparr>bait_dir = (case dir of None \<Rightarrow> tmp | Some d \<Rightarrow> if d = '''' then tmp else d), baits = []\<rparr>"

definition default_bait :: string where
  "default_bait = ''STRATUM_PROBE_<redacted_secret>_DO_NOT_READ''"

definition bait_path :: "probe \<Rightarrow> string \<Rightarrow> string \<Rightarrow> string" where
  "bait_path p hex nm = bait_dir p @ ''/'' @ hex @ ''_'' @ nm"

text \<open>Planting writes the file first; it fails when the directory cannot be written.\<close>

definition plant :: "(string \<Rightarrow> bool) \<Rightarrow> string \<Rightarrow> string \<Rightarrow> string option \<Rightarrow> probe \<Rightarrow> 'u world \<Rightarrow>
    (probe \<times> 'u world) option" where
  "plant writable hex nm content p w =
     (let path = bait_path p hex nm;
          body = (case content of None \<Rightarrow> default_bait | Some c \<Rightarrow> if c = '''' then default_bait else c)
      in if writable path
         then Some (p\<lparr>baits := dict_set path body (baits p)\<rparr>, w\<lparr>files := (files w)(path := Some body)\<rparr>)
         else None)"

definition check_bait :: "'u world \<Rightarrow> string \<times> string \<Rightarrow> trip list" where
  "check_bait w b = (case files w (fst b) of
       None \<Rightarrow> [(fst b, ''removed'')]
     | Some c \<Rightarrow> if c \<noteq> snd b then [(fst b, ''modified'')] else [])"

text \<open>The baits are looked at in turn; the first that cannot be looked at ends the check with its OSError.\<close>

fun check_baits :: "'u world \<Rightarrow> (string \<times> string) list \<Rightarrow> trip list option" where
  "check_baits w [] = Some []"
| "check_baits w (b # bs) =
     (if look_fails w (fst b) then None else map_option (\<lambda>ts. check_bait w b @ ts) (check_baits w bs))"

definition check_touched :: "probe \<Rightarrow> 'u world \<Rightarrow> trip list option" where
  "check_touched p w = check_baits w (baits p)"

text \<open>Cleaning up passes over a bait that cannot be removed, and forgets all of them.\<close>

definition remove_bait :: "string \<Rightarrow> 'u world \<Rightarrow> 'u world" where
  "remove_bait path w = (if unlink_fails w path then w else w\<lparr>files := (files w)(path := None)\<rparr>)"

definition cleanup :: "probe \<Rightarrow> 'u world \<Rightarrow> probe \<times> 'u world" where
  "cleanup p w = (p\<lparr>baits := []\<rparr>, fold (\<lambda>(path, _). remove_bait path) (baits p) w)"

section \<open>Results and the audit log\<close>

datatype exec_error =
    Invalid_envelope envelope_error
  | Missing_token
  | Bad_token capability_error
  | Missing_capability "string \<times> string \<times> string list"
  | Circuit_open
  | Rate_limit string
  | No_function
  | Raised string string
  | Honeypot_touched
  | Wallclock_timeout rat
  | Firewall string
  | Egress_denied string

text \<open>Exceptions the substrate itself lets through.\<close>

datatype exec_exn = Escaped capability_error | Plant_failed | Check_failed | Sandbox_exn sandbox_error

datatype detail =
    Reason exec_error
  | Finished int "trip list" "exec_error option"
  | Command string int "trip list"

record log_entry =
  l_ts :: rat
  l_action :: string
  l_subject :: string
  l_capability :: string
  l_outcome :: string
  l_actor :: string
  l_detail :: detail

text \<open>The log keeps its entries in memory and, with a path, one line per entry in a file.\<close>

record action_log =
  entries :: "log_entry list"
  log_file :: "log_entry list option"
  log_writable :: bool

definition record_action :: "log_entry \<Rightarrow> action_log \<Rightarrow> action_log \<times> bool" where
  "record_action e l =
     (let l = l\<lparr>entries := entries l @ [e]\<rparr>
      in case log_file l of
           None \<Rightarrow> (l, True)
         | Some ls \<Rightarrow> if log_writable l then (l\<lparr>log_file := Some (ls @ [e])\<rparr>, True) else (l, False))"

record 'a exec_result =
  x_status :: string
  x_outcome :: "'a option"
  x_error :: "exec_error option"
  x_log_id :: "nat option"
  x_elapsed_ms :: int
  x_trips :: "trip list"

definition refusal :: "string \<Rightarrow> exec_error \<Rightarrow> int \<Rightarrow> 'a exec_result" where
  "refusal st e ms = \<lparr>x_status = st, x_outcome = None, x_error = Some e, x_log_id = None,
     x_elapsed_ms = ms, x_trips = []\<rparr>"

section \<open>The executor\<close>

record ('b, 'l) executor =
  secret :: string
  action_log :: action_log
  breaker :: "'b option"
  rate_limiter :: "'l option"
  default_capability :: string
  honeypot_dir :: "string option"
  sandbox :: sandbox

definition new_executor :: "string \<Rightarrow> action_log \<Rightarrow> 'b option \<Rightarrow> 'l option \<Rightarrow> string \<Rightarrow> string option \<Rightarrow>
    bool \<Rightarrow> bool \<Rightarrow> (('b, 'l) executor) option" where
  "new_executor s l br rl cap dir netns avail =
     (if s = '''' then None
      else Some \<lparr>secret = s, action_log = l, breaker = br, rate_limiter = rl, default_capability = cap,
        honeypot_dir = dir, sandbox = \<lparr>deny_network = True, use_network_namespace = netns,
          max_output_chars = 20000, strip_proxy_env = True, netns_available = avail\<rparr>\<rparr>)"

text \<open>
  What the caller brings. \<open>is_open\<close> reads the breaker's attribute of that name, None when it has
  none or it is None; \<open>acquire\<close> calls the limiter's attribute of that name, and a coroutine tells how awaiting it
  ends.
\<close>

datatype 'l acquired = No_acquire | Acquired 'l | Acquire_failed string 'l | Coroutine "string option" 'l

record ('b, 'l, 'u) outside =
  codec :: token_codec
  is_open :: "'b \<Rightarrow> bool option"
  acquire :: "'l \<Rightarrow> 'l acquired"
  writable :: "string \<Rightarrow> bool"
  tmp_dir :: string
  spawn :: "('u world) spawner"
  environ :: "(string, string) dict"
  hostname :: "string \<Rightarrow> string option"

record options =
  o_capability :: "string option"
  o_envelope :: "envelope option"
  o_timeout :: "rat option"
  use_breaker :: bool
  use_rate_limit :: bool
  use_honeypot :: bool
  audit :: bool

text \<open>The readings of one call: wall clock, measured milliseconds, random hex digits.\<close>

record readings =
  now :: rat
  ms :: int
  hex :: string

definition or_default :: "string option \<Rightarrow> string \<Rightarrow> string" where
  "or_default c d = (case c of None \<Rightarrow> d | Some s \<Rightarrow> if s = '''' then d else s)"

definition the_envelope :: "options \<Rightarrow> envelope" where
  "the_envelope o' = (case o_envelope o' of None \<Rightarrow> DEFAULT_ENVELOPE | Some e \<Rightarrow> e)"

text \<open>The exceptions of a verification that are no capability errors pass through.\<close>

definition verify_guard :: "('b, 'l, 'u) outside \<Rightarrow> ('b, 'l) executor \<Rightarrow> string \<Rightarrow> string \<Rightarrow> rat \<Rightarrow>
    (exec_exn + exec_error) + capability_token" where
  "verify_guard O' ex tok required t =
     (if tok = '''' then Inl (Inr Missing_token)
      else case verify (codec O') (secret ex) None t tok of
        Inl e \<Rightarrow> Inl (if e \<in> {Unicode_error, Non_ascii_comparison} then Inl (Escaped e) else Inr (Bad_token e))
      | Inr c \<Rightarrow> (case check_capability c required of
                    Inl d \<Rightarrow> Inl (Inr (Missing_capability d)) | Inr _ \<Rightarrow> Inr c))"

definition breaker_open :: "('b, 'l, 'u) outside \<Rightarrow> ('b, 'l) executor \<Rightarrow> bool" where
  "breaker_open O' ex = (case breaker ex of None \<Rightarrow> False
     | Some b \<Rightarrow> (case is_open O' b of None \<Rightarrow> False | Some v \<Rightarrow> v))"

text \<open>The synchronous limit refuses a coroutine without awaiting it.\<close>

definition acquire_sync :: "('b, 'l, 'u) outside \<Rightarrow> ('b, 'l) executor \<Rightarrow> ('b, 'l) executor \<times> string option" where
  "acquire_sync O' ex = (case rate_limiter ex of None \<Rightarrow> (ex, None)
     | Some l \<Rightarrow> (case acquire O' l of
          No_acquire \<Rightarrow> (ex, None)
        | Acquired l' \<Rightarrow> (ex\<lparr>rate_limiter := Some l'\<rparr>, None)
        | Acquire_failed m l' \<Rightarrow> (ex\<lparr>rate_limiter := Some l'\<rparr>, Some m)
        | Coroutine _ _ \<Rightarrow> (ex, Some ''hardened_executor: async rate limiter requires aexecute'')))"

definition acquire_async :: "('b, 'l, 'u) outside \<Rightarrow> ('b, 'l) executor \<Rightarrow> ('b, 'l) executor \<times> string option" where
  "acquire_async O' ex = (case rate_limiter ex of None \<Rightarrow> (ex, None)
     | Some l \<Rightarrow> (case acquire O' l of
          No_acquire \<Rightarrow> (ex, None)
        | Acquired l' \<Rightarrow> (ex\<lparr>rate_limiter := Some l'\<rparr>, None)
        | Acquire_failed m l' \<Rightarrow> (ex\<lparr>rate_limiter := Some l'\<rparr>, Some m)
        | Coroutine m l' \<Rightarrow> (ex\<lparr>rate_limiter := Some l'\<rparr>, m)))"

text \<open>\<open>_audit\<close>: a failed write is logged and answers no index; the entry stays in memory.\<close>

definition audit_entry :: "string \<Rightarrow> capability_token \<Rightarrow> string \<Rightarrow> string \<Rightarrow> detail \<Rightarrow> rat \<Rightarrow>
    ('b, 'l) executor \<Rightarrow> ('b, 'l) executor \<times> nat option" where
  "audit_entry act t cap outcome d ts ex =
     (let e = \<lparr>l_ts = ts, l_action = act, l_subject = subject t, l_capability = cap, l_outcome = outcome,
               l_actor = ''system'', l_detail = d\<rparr>;
          (l, ok) = record_action e (action_log ex)
      in (ex\<lparr>action_log := l\<rparr>, if ok then Some (length (entries l) - 1) else None))"

definition audit_if :: "bool \<Rightarrow> string \<Rightarrow> capability_token \<Rightarrow> string \<Rightarrow> string \<Rightarrow> detail \<Rightarrow> rat \<Rightarrow>
    ('b, 'l) executor \<Rightarrow> ('b, 'l) executor" where
  "audit_if on act t cap outcome d ts ex = (if on then fst (audit_entry act t cap outcome d ts ex) else ex)"

section \<open>Synchronous and asynchronous execution\<close>

text \<open>
  The guards before the run, in the code's order. The two entry points differ in the limiter they
  accept and in the action they log.
\<close>

datatype 'a admission = Crash exec_exn | Refused "'a exec_result" | Admitted capability_token

definition guards :: "string \<Rightarrow> (('b, 'l) executor \<Rightarrow> ('b, 'l) executor \<times> string option) \<Rightarrow> ('b, 'l, 'u) outside \<Rightarrow>
    options \<Rightarrow> readings \<Rightarrow> string \<Rightarrow> ('b, 'l) executor \<Rightarrow> ('b, 'l) executor \<times> 'a admission" where
  "guards act acq O' oo r tok ex =
     (case validate_envelope (the_envelope oo) of
        Inl e \<Rightarrow> (ex, Refused (refusal ''error'' (Invalid_envelope e) 0))
      | Inr _ \<Rightarrow>
     (let cap = or_default (o_capability oo) (default_capability ex)
      in case verify_guard O' ex tok cap (now r) of
        Inl (Inl x) \<Rightarrow> (ex, Crash x)
      | Inl (Inr e) \<Rightarrow> (ex, Refused (refusal ''denied'' e 0))
      | Inr t \<Rightarrow>
          if use_breaker oo \<and> breaker_open O' ex
          then (audit_if (audit oo) act t cap ''blocked'' (Reason Circuit_open) (now r) ex,
                Refused (refusal ''blocked'' Circuit_open (ms r)))
          else if \<not> use_rate_limit oo then (ex, Admitted t)
          else (case acq ex of
                  (ex', None) \<Rightarrow> (ex', Admitted t)
                | (ex', Some m) \<Rightarrow> (audit_if (audit oo) act t cap ''blocked'' (Reason (Rate_limit m)) (now r) ex',
                                    Refused (refusal ''blocked'' (Rate_limit m) (ms r))))))"

text \<open>How a function ends: its value, or the type and text of its exception.\<close>

type_synonym ('u, 'a) body = "'u world \<Rightarrow> 'u world \<times> ((string \<times> string) + 'a)"

definition run_sync :: "('u, 'a) body option \<Rightarrow> 'u world \<Rightarrow> 'u world \<times> string \<times> 'a option \<times> exec_error option" where
  "run_sync fn w = (case fn of
       None \<Rightarrow> (w, ''error'', None, Some No_function)
     | Some f \<Rightarrow> (case f w of
          (w', Inl (ty, m)) \<Rightarrow> (w', ''error'', None, Some (Raised ty m))
        | (w', Inr v) \<Rightarrow> (w', ''ok'', Some v, None)))"

text \<open>
  The asynchronous run: the function gets the time limit, and a TimeoutError, its own or that of the
  limit, means the time ran out.
\<close>

definition run_async :: "rat \<Rightarrow> (rat \<Rightarrow> ('u, 'a) body) option \<Rightarrow> 'u world \<Rightarrow>
    'u world \<times> string \<times> 'a option \<times> exec_error option" where
  "run_async timeout fn w = (case fn of
       None \<Rightarrow> (w, ''error'', None, Some No_function)
     | Some f \<Rightarrow> (case f timeout w of
          (w', Inl (ty, m)) \<Rightarrow>
             if ty = ''TimeoutError'' then (w', ''timeout'', None, Some (Wallclock_timeout timeout))
             else (w', ''error'', None, Some (Raised ty m))
        | (w', Inr v) \<Rightarrow> (w', ''ok'', Some v, None)))"

definition plant_if :: "('b, 'l, 'u) outside \<Rightarrow> options \<Rightarrow> readings \<Rightarrow> ('b, 'l) executor \<Rightarrow> 'u world \<Rightarrow>
    (probe option \<times> 'u world) option" where
  "plant_if O' oo r ex w =
     (if use_honeypot oo
      then map_option (\<lambda>(p, w). (Some p, w))
             (plant (writable O') (hex r) ''.env.probe'' None (new_probe (honeypot_dir ex) (tmp_dir O')) w)
      else Some (None, w))"

definition inspect :: "probe option \<Rightarrow> 'u world \<Rightarrow> (trip list \<times> 'u world) option" where
  "inspect p w = (case p of
       None \<Rightarrow> Some ([], w)
     | Some p \<Rightarrow> map_option (\<lambda>ts. (ts, snd (cleanup p w))) (check_touched p w))"

text \<open>
  Run, inspect, decide the status, log. A trip overrules every status, or only a success. The error of
  an inspection that fails leaves the call as it is, before the bait is removed and before the log.
\<close>

definition supervise :: "string \<Rightarrow> bool \<Rightarrow> ('u world \<Rightarrow> 'u world \<times> string \<times> 'a option \<times> exec_error option) \<Rightarrow>
    options \<Rightarrow> readings \<Rightarrow> capability_token \<Rightarrow> probe option \<Rightarrow> ('b, 'l) executor \<Rightarrow> 'u world \<Rightarrow>
    (exec_exn + 'a exec_result) \<times> ('b, 'l) executor \<times> 'u world" where
  "supervise act overrule run oo r t p ex w =
     (let (w, status, out, err) = run w
      in case inspect p w of None \<Rightarrow> (Inl Check_failed, ex, w) | Some (trips, w) \<Rightarrow>
     (let (status, err) = (if trips \<noteq> [] \<and> (overrule \<or> status = ''ok'')
                           then (''honeypot_trip'', Some Honeypot_touched) else (status, err));
          cap = or_default (o_capability oo) (default_capability ex);
          ex = audit_if (audit oo) act t cap status (Finished (ms r) trips err) (now r) ex
      in (Inr \<lparr>x_status = status, x_outcome = out, x_error = err, x_log_id = None,
           x_elapsed_ms = ms r, x_trips = trips\<rparr>, ex, w)))"

definition controlled :: "string \<Rightarrow> bool \<Rightarrow> (('b, 'l) executor \<Rightarrow> ('b, 'l) executor \<times> string option) \<Rightarrow>
    ('u world \<Rightarrow> 'u world \<times> string \<times> 'a option \<times> exec_error option) \<Rightarrow> ('b, 'l, 'u) outside \<Rightarrow> options \<Rightarrow> readings \<Rightarrow>
    string \<Rightarrow> ('b, 'l) executor \<Rightarrow> 'u world \<Rightarrow> (exec_exn + 'a exec_result) \<times> ('b, 'l) executor \<times> 'u world" where
  "controlled act overrule acq run O' oo r tok ex w =
     (case guards act acq O' oo r tok ex of
        (ex, Crash x) \<Rightarrow> (Inl x, ex, w)
      | (ex, Refused res) \<Rightarrow> (Inr res, ex, w)
      | (ex, Admitted t) \<Rightarrow>
          (case plant_if O' oo r ex w of
             None \<Rightarrow> (Inl Plant_failed, ex, w)
           | Some (p, w) \<Rightarrow> supervise act overrule run oo r t p ex w))"

definition execute :: "('b, 'l, 'u) outside \<Rightarrow> options \<Rightarrow> readings \<Rightarrow> ('u, 'a) body option \<Rightarrow> string \<Rightarrow>
    ('b, 'l) executor \<Rightarrow> 'u world \<Rightarrow> (exec_exn + 'a exec_result) \<times> ('b, 'l) executor \<times> 'u world" where
  "execute O' oo r fn tok ex w = controlled ''execute'' True (acquire_sync O') (run_sync fn) O' oo r tok ex w"

definition aexecute :: "('b, 'l, 'u) outside \<Rightarrow> options \<Rightarrow> readings \<Rightarrow> (rat \<Rightarrow> ('u, 'a) body) option \<Rightarrow> string \<Rightarrow>
    ('b, 'l) executor \<Rightarrow> 'u world \<Rightarrow> (exec_exn + 'a exec_result) \<times> ('b, 'l) executor \<times> 'u world" where
  "aexecute O' oo r fn tok ex w =
     (let timeout = (case o_timeout oo of None \<Rightarrow> wallclock_s (the_envelope oo) | Some s \<Rightarrow> s)
      in controlled ''aexecute'' False (acquire_async O') (run_async timeout fn) O' oo r tok ex w)"

section \<open>Commands\<close>

record sub_result =
  s_status :: string
  s_error :: "exec_error option"
  s_process :: "sandbox_result option"
  s_elapsed :: "int option"
  s_trips :: "trip list option"

definition sub_refusal :: "string \<Rightarrow> exec_error \<Rightarrow> int option \<Rightarrow> sub_result" where
  "sub_refusal st e el = \<lparr>s_status = st, s_error = Some e, s_process = None, s_elapsed = el, s_trips = None\<rparr>"

definition is_url :: "string \<Rightarrow> bool" where
  "is_url s \<longleftrightarrow> has_prefix s ''http://'' \<or> has_prefix s ''https://''"

definition resolve_egress :: "(string \<Rightarrow> string option) \<Rightarrow> string \<Rightarrow> string option" where
  "resolve_egress host command =
     (case words command of [] \<Rightarrow> None
      | tool # args \<Rightarrow> if tool \<in> {''curl'', ''wget''} then Option.bind (find is_url args) host else None)"

definition sensitive_prefixes :: "string list" where
  "sensitive_prefixes = [''AWS_'', ''OPENAI_'', ''ANTHROPIC_'', ''DASHSCOPE_'', ''GEMINI_'', ''DEEPSEEK_'',
     ''TOGETHER_'', ''GROQ_'', ''HF_'', ''HUGGINGFACE_'']"

definition sanitize_env :: "(string, string) dict \<Rightarrow> (string, string) dict" where
  "sanitize_env env = filter (\<lambda>(k, _). \<not> (is_infix ''proxy'' (map lower_char k)
     \<or> list_ex (has_prefix k) sensitive_prefixes)) env"

text \<open>The network decision of a command: the reason it is refused for, if any.\<close>

definition network_refusal :: "(string \<Rightarrow> string option) \<Rightarrow> sandbox \<Rightarrow> envelope \<Rightarrow> string \<Rightarrow> exec_error option" where
  "network_refusal host sb e command =
     (case (np_mode (network e) = ''deny_all'', check_command sb command) of
        (True, Some r) \<Rightarrow> Some (Firewall r)
      | _ \<Rightarrow>
        if np_mode (network e) = ''allowlist''
        then (case resolve_egress host command of
                None \<Rightarrow> None
              | Some h \<Rightarrow> if network_allowed e h None then None else Some (Egress_denied h))
        else None)"

definition execute_subprocess :: "('b, 'l, 'u) outside \<Rightarrow> options \<Rightarrow> readings \<Rightarrow> string \<Rightarrow> string \<Rightarrow> string option \<Rightarrow>
    (string, string) dict option \<Rightarrow> string \<Rightarrow> ('b, 'l) executor \<Rightarrow> 'u world \<Rightarrow>
    (exec_exn + sub_result) \<times> ('b, 'l) executor \<times> 'u world" where
  "execute_subprocess O' oo r capability command cwd env_vars tok ex w =
     (case validate_envelope (the_envelope oo) of
        Inl e \<Rightarrow> (Inr (sub_refusal ''error'' (Invalid_envelope e) None), ex, w)
      | Inr _ \<Rightarrow>
     (case verify_guard O' ex tok (or_default (Some capability) (default_capability ex)) (now r) of
        Inl (Inl x) \<Rightarrow> (Inl x, ex, w)
      | Inl (Inr e) \<Rightarrow> (Inr (sub_refusal ''denied'' e None), ex, w)
      | Inr t \<Rightarrow>
          if use_breaker oo \<and> breaker_open O' ex
          then (Inr (sub_refusal ''blocked'' Circuit_open None), ex, w)
          else (case network_refusal (hostname O') (sandbox ex) (the_envelope oo) command of
            Some e \<Rightarrow>
              (Inr (sub_refusal ''blocked'' e (Some (ms r))),
               audit_if (audit oo) ''subprocess'' t capability ''blocked'' (Reason e) (now r) ex, w)
          | None \<Rightarrow>
             (case plant_if O' oo r ex w of
                None \<Rightarrow> (Inl Plant_failed, ex, w)
              | Some (p, w) \<Rightarrow>
                 (let clean = (case env_vars of None \<Rightarrow> sanitized_env (sandbox ex) (environ O')
                                              | Some e \<Rightarrow> sanitize_env e)
                  in case sandbox_run (spawn O') (environ O') (ms r) (sandbox ex) command
                            (wallclock_s (the_envelope oo)) cwd (Some clean) w of
                    (w, Inl x) \<Rightarrow> (Inl (Sandbox_exn x), ex, w)
                  | (w, Inr pr) \<Rightarrow>
                     (case inspect p w of None \<Rightarrow> (Inl Check_failed, ex, w) | Some (trips, w) \<Rightarrow>
                      let tripped = (trips \<noteq> [] \<and> r_status pr = ''ok'');
                          st = (if tripped then ''honeypot_trip'' else r_status pr)
                      in (Inr \<lparr>s_status = st, s_error = (if tripped then Some Honeypot_touched else None),
                               s_process = Some pr, s_elapsed = Some (ms r), s_trips = Some trips\<rparr>,
                          audit_if (audit oo) ''subprocess'' t capability st
                            (Command (take 200 command) (ms r) trips) (now r) ex, w)))))))"

section \<open>The guards\<close>

lemma verify_guard_ok:
  "verify_guard O' ex tok required t = Inr c \<longleftrightarrow>
     tok \<noteq> '''' \<and> verify (codec O') (secret ex) None t tok = Inr c \<and> has_capability c required"
  by (auto simp: verify_guard_def check_capability_def split: sum.splits if_splits)

lemma acquire_keeps:
  "action_log (fst (acquire_sync O' ex)) = action_log ex"
  "default_capability (fst (acquire_sync O' ex)) = default_capability ex"
  "honeypot_dir (fst (acquire_sync O' ex)) = honeypot_dir ex"
  "action_log (fst (acquire_async O' ex)) = action_log ex"
  by (auto simp: acquire_sync_def acquire_async_def split: option.splits acquired.splits)

lemma guards_admitted:
  assumes "guards act acq O' oo r tok ex = (ex', Admitted t)"
  shows "validate_envelope (the_envelope oo) = Inr ()"
    "verify_guard O' ex tok (or_default (o_capability oo) (default_capability ex)) (now r) = Inr t"
    "\<not> (use_breaker oo \<and> breaker_open O' ex)"
    "use_rate_limit oo \<Longrightarrow> snd (acq ex) = None"
    "ex' = (if use_rate_limit oo then fst (acq ex) else ex)"
  using assms by (auto simp: guards_def Let_def split: sum.splits if_splits option.splits prod.splits)

lemma controlled_run:
  "controlled act ov acq run O' oo r tok ex w \<noteq> controlled act ov acq run' O' oo r tok ex w
   \<Longrightarrow> \<exists>ex' t. guards act acq O' oo r tok ex = (ex', Admitted t :: 'a admission)"
  for run :: "'u world \<Rightarrow> 'u world \<times> string \<times> 'a option \<times> exec_error option"
  by (cases "guards act acq O' oo r tok ex :: _ \<times> 'a admission" rule: prod.exhaust)
    (auto simp: controlled_def split: admission.splits)

lemma audit_if_entries:
  "audit_if True act t cap outcome d ts ex = ex' \<Longrightarrow>
     \<exists>e. entries (action_log ex') = entries (action_log ex) @ [e] \<and> l_action e = act
       \<and> l_subject e = subject t \<and> l_outcome e = outcome"
  by (auto simp: audit_if_def audit_entry_def record_action_def Let_def split: option.splits if_splits)

lemma supervise_status:
  "supervise act ov run oo r t p ex w = (Inr res, ex', w') \<Longrightarrow>
     \<exists>cap d. ex' = audit_if (audit oo) act t cap (x_status res) d (now r) ex"
  by (clarsimp simp: supervise_def Let_def split: prod.splits option.splits) blast

text \<open>What a refusal leaves behind.\<close>

lemma guards_refused:
  assumes g: "guards act acq O' oo r tok ex = (ex', Refused res)" and on: "audit oo"
    and acq: "entries (action_log (fst (acq ex))) = entries (action_log ex)"
  shows "case (validate_envelope (the_envelope oo),
      verify_guard O' ex tok (or_default (o_capability oo) (default_capability ex)) (now r)) of
     (Inr _, Inr t) \<Rightarrow> \<exists>e. entries (action_log ex') = entries (action_log ex) @ [e]
        \<and> l_subject e = subject t \<and> l_outcome e = x_status res \<and> l_action e = act
   | _ \<Rightarrow> ex' = ex \<and> x_status res \<in> {''error'', ''denied''} \<and> x_outcome res = None"
proof (cases "validate_envelope (the_envelope oo)")
  case (Inl e)
  then show ?thesis using g by (auto simp: guards_def refusal_def)
next
  case v: (Inr u)
  let ?v = "verify_guard O' ex tok (or_default (o_capability oo) (default_capability ex)) (now r)"
  show ?thesis
  proof (cases ?v)
    case (Inl e)
    then show ?thesis using g v by (cases e) (auto simp: guards_def refusal_def Let_def)
  next
    case (Inr t)
    then obtain ex1 why where "ex' = audit_if True act t (or_default (o_capability oo) (default_capability ex))
          ''blocked'' (Reason why) (now r) ex1"
      and "x_status res = ''blocked''" and "entries (action_log ex1) = entries (action_log ex)"
      using g v on acq
      by (auto simp: guards_def refusal_def Let_def split: if_splits option.splits prod.splits)
    then show ?thesis using audit_if_entries [OF sym] Inr v by fastforce
  qed
qed

lemma controlled_audited:
  fixes run :: "'u world \<Rightarrow> 'u world \<times> string \<times> 'a option \<times> exec_error option"
  assumes c: "controlled act ov acq run O' oo r tok ex w = (Inr res, ex', w')" and on: "audit oo"
    and acq: "entries (action_log (fst (acq ex))) = entries (action_log ex)"
  shows "case (validate_envelope (the_envelope oo),
      verify_guard O' ex tok (or_default (o_capability oo) (default_capability ex)) (now r)) of
     (Inr _, Inr t) \<Rightarrow> \<exists>e. entries (action_log ex') = entries (action_log ex) @ [e]
        \<and> l_subject e = subject t \<and> l_outcome e = x_status res \<and> l_action e = act
   | _ \<Rightarrow> ex' = ex \<and> w' = w \<and> x_status res \<in> {''error'', ''denied''} \<and> x_outcome res = None"
proof -
  obtain ex1 ad where g: "guards act acq O' oo r tok ex = (ex1, ad :: 'a admission)" by (meson surj_pair)
  show ?thesis
  proof (cases ad)
    case (Admitted t)
    note g = g [unfolded Admitted]
    have v: "validate_envelope (the_envelope oo) = Inr ()"
      "verify_guard O' ex tok (or_default (o_capability oo) (default_capability ex)) (now r) = Inr t"
      using guards_admitted(1,2) [OF g] by auto
    have "entries (action_log ex1) = entries (action_log ex)" using guards_admitted(5) [OF g] acq by auto
    moreover obtain p w1 where "supervise act ov run oo r t p ex1 w1 = (Inr res, ex', w')"
      using c by (auto simp: controlled_def g split: option.splits)
    from supervise_status [OF this] obtain cap d
      where "audit_if True act t cap (x_status res) d (now r) ex1 = ex'" using on by auto
    from audit_if_entries [OF this] have "\<exists>e. entries (action_log ex') = entries (action_log ex1) @ [e]
        \<and> l_subject e = subject t \<and> l_outcome e = x_status res \<and> l_action e = act" by blast
    ultimately show ?thesis using v by simp
  next
    case (Refused r0)
    have eq: "res = r0" "ex' = ex1" "w' = w" using c by (auto simp: controlled_def g Refused)
    then have "guards act acq O' oo r tok ex = (ex', Refused res)" using g Refused by simp
    from guards_refused [OF this on acq] show ?thesis using eq(3) by (simp split: sum.splits)
  next
    case (Crash x)
    then show ?thesis using c by (simp add: controlled_def g)
  qed
qed

text \<open>
  What a command records: as above, except that a call blocked by the breaker adds no entry, although
  its token verified.
\<close>

lemma subprocess_audit:
  assumes "execute_subprocess O' oo r cap command cwd env tok ex w = (Inr res, ex', w')" and "audit oo"
  shows "case (validate_envelope (the_envelope oo),
      verify_guard O' ex tok (or_default (Some cap) (default_capability ex)) (now r)) of
     (Inr _, Inr t) \<Rightarrow>
        if use_breaker oo \<and> breaker_open O' ex then ex' = ex \<and> s_status res = ''blocked'' \<and> s_error res = Some Circuit_open
        else \<exists>e. entries (action_log ex') = entries (action_log ex) @ [e]
          \<and> l_subject e = subject t \<and> l_outcome e = s_status res \<and> l_action e = ''subprocess''
   | _ \<Rightarrow> ex' = ex \<and> w' = w \<and> s_status res \<in> {''error'', ''denied''}"
proof -
  show ?thesis
  proof (cases "validate_envelope (the_envelope oo)")
    case (Inl e)
    then show ?thesis using assms by (auto simp: execute_subprocess_def sub_refusal_def)
  next
    case v: (Inr u)
    let ?v = "verify_guard O' ex tok (or_default (Some cap) (default_capability ex)) (now r)"
    show ?thesis
    proof (cases ?v)
      case (Inl e)
      then show ?thesis using assms v by (cases e) (auto simp: execute_subprocess_def sub_refusal_def)
    next
      case (Inr t)
      show ?thesis
      proof (cases "use_breaker oo \<and> breaker_open O' ex")
        case True
        then show ?thesis using assms v Inr by (auto simp: execute_subprocess_def sub_refusal_def)
      next
        case False
        then obtain d where "audit_if True ''subprocess'' t cap (s_status res) d (now r) ex = ex'"
          using assms v Inr
          by (auto simp: execute_subprocess_def sub_refusal_def Let_def split: option.splits prod.splits sum.splits)
        from audit_if_entries [OF this] show ?thesis using v Inr False by auto
      qed
    qed
  qed
qed

section \<open>Properties\<close>

text \<open>
  C4. No code runs without authority: if the outcome of a controlled execution depends on the
  function at all, the envelope was valid, the token verified under the executor's secret and not
  expired, its capabilities cover the required one, the breaker did not report open and the limiter
  gave a slot.
\<close>

theorem only_authorised_code_runs:
  fixes fn fn' :: "('u, 'a) body option"
  assumes "execute O' oo r fn tok ex w \<noteq> execute O' oo r fn' tok ex w"
  shows "\<exists>t. validate_envelope (the_envelope oo) = Inr ()
    \<and> verify (codec O') (secret ex) None (now r) tok = Inr t
    \<and> has_capability t (or_default (o_capability oo) (default_capability ex))
    \<and> \<not> (use_breaker oo \<and> breaker_open O' ex)
    \<and> (use_rate_limit oo \<longrightarrow> snd (acquire_sync O' ex) = None)"
proof -
  from controlled_run [OF assms [unfolded execute_def]] obtain ex' t
    where "guards ''execute'' (acquire_sync O') O' oo r tok ex = (ex', Admitted t :: 'a admission)" by blast
  from guards_admitted [OF this] show ?thesis by (auto simp: verify_guard_ok)
qed

text \<open>
  C5. Every decision of a synchronous or asynchronous call about a verified token is on the record: an
  audited \<open>execute\<close> or \<open>aexecute\<close> that returns adds exactly one entry, with the token's subject and the
  returned status, whether it was blocked, ran, failed or touched the honeypot, and whether or not the
  log file can be written; a call refused before its token verified adds none and changes nothing. (What
  \<open>execute_subprocess\<close> records is \<open>subprocess_audit\<close> below: it does not record a block by the breaker.)
\<close>

theorem verified_calls_are_audited:
  fixes fn :: "('u, 'a) body option"
  assumes "(if sync then execute O' oo r fn tok ex w else aexecute O' oo r afn tok ex w) = (Inr res, ex', w')"
    and "audit oo"
  shows "case (validate_envelope (the_envelope oo),
      verify_guard O' ex tok (or_default (o_capability oo) (default_capability ex)) (now r)) of
     (Inr _, Inr t) \<Rightarrow> \<exists>e. entries (action_log ex') = entries (action_log ex) @ [e]
        \<and> l_subject e = subject t \<and> l_outcome e = x_status res
        \<and> l_action e = (if sync then ''execute'' else ''aexecute'')
   | _ \<Rightarrow> ex' = ex \<and> w' = w \<and> x_status res \<in> {''error'', ''denied''} \<and> x_outcome res = None"
proof (cases sync)
  case True
  then show ?thesis
    using controlled_audited [of "''execute''" True "acquire_sync O'" "run_sync fn" O' oo r tok ex w res ex' w'] assms
    by (simp add: execute_def acquire_keeps)
next
  case False
  then show ?thesis
    using controlled_audited [of "''aexecute''" False "acquire_async O'" _ O' oo r tok ex w res ex' w'] assms
    by (simp add: aexecute_def Let_def acquire_keeps)
qed

text \<open>
  C6. The honeypot is never missed: after a permitted synchronous run of a function, the status is
  a trip exactly when the bait file no longer holds the planted bytes, whatever the function
  answered or raised, and the bait is removed, or stays if it cannot be removed. The value the function
  returned is still handed out. If the bait cannot be looked at, the call raises that error, the bait
  stays and the log is as it was.
\<close>

theorem honeypot_detects:
  fixes f :: "('u, 'a) body"
  assumes "guards ''execute'' (acquire_sync O') O' oo r tok ex = (ex1, Admitted t :: 'a admission)"
    and "use_honeypot oo"
    and "bait = bait_path (new_probe (honeypot_dir ex1) (tmp_dir O')) (hex r) ''.env.probe''"
    and "writable O' bait"
    and "f (w\<lparr>files := (files w)(bait := Some default_bait)\<rparr>) = (w2, ans)"
  shows "if look_fails w2 bait then execute O' oo r (Some f) tok ex w = (Inl Check_failed, ex1, w2)
    else \<exists>res ex'. execute O' oo r (Some f) tok ex w
        = (Inr res, ex', if unlink_fails w2 bait then w2 else w2\<lparr>files := (files w2)(bait := None)\<rparr>)
      \<and> (x_status res = ''honeypot_trip'' \<longleftrightarrow> files w2 bait \<noteq> Some default_bait)
      \<and> x_outcome res = (case ans of Inl _ \<Rightarrow> None | Inr v \<Rightarrow> Some v)"
proof -
  let ?p = "new_probe (honeypot_dir ex1) (tmp_dir O')"
  let ?q = "?p\<lparr>baits := [(bait, default_bait)]\<rparr>"
  have pl: "plant_if O' oo r ex1 w = Some (Some ?q, w\<lparr>files := (files w)(bait := Some default_bait)\<rparr>)"
    using assms(2-4) by (simp add: plant_if_def plant_def Let_def new_probe_def)
  have ins: "inspect (Some ?q) w2 = (if look_fails w2 bait then None
      else Some (check_bait w2 (bait, default_bait), remove_bait bait w2))"
    by (simp add: inspect_def check_touched_def cleanup_def)
  have touched: "check_bait w2 (bait, default_bait) \<noteq> [] \<longleftrightarrow> files w2 bait \<noteq> Some default_bait"
    by (auto simp: check_bait_def split: option.splits)
  obtain status err where run: "run_sync (Some f) (w\<lparr>files := (files w)(bait := Some default_bait)\<rparr>)
      = (w2, status, (case ans of Inl _ \<Rightarrow> None | Inr v \<Rightarrow> Some v), err)" and "status \<noteq> ''honeypot_trip''"
    using assms(5) by (cases ans) (auto simp: run_sync_def)
  then show ?thesis
    using touched by (auto simp: execute_def controlled_def assms(1) pl supervise_def run ins Let_def remove_bait_def)
qed

text \<open>
  C7. A command the firewall recognises never starts a process, in any network mode and for any
  token: the call's result does not depend on the process starter, and its status is not a success.
\<close>

theorem network_commands_never_start:
  fixes O' :: "('b, 'l, 'u) outside"
  assumes "check_command (sandbox ex) command = Some why"
  shows "execute_subprocess O' oo r cap command cwd env tok ex w
      = execute_subprocess (O'\<lparr>spawn := sp\<rparr>) oo r cap command cwd env tok ex w
    \<and> (\<forall>res. fst (execute_subprocess O' oo r cap command cwd env tok ex w) = Inr res \<longrightarrow> s_status res \<noteq> ''ok'')"
proof -
  have run: "sandbox_run s e m (sandbox ex) command t d v w =
      (w, if blank command then Inl Empty_command
          else Inr ((blank_result ''blocked'')\<lparr>r_reason := Some (Network_command why)\<rparr>))"
    for s :: "('u world) spawner" and e m t d v w
    using assms by (simp add: sandbox_run_def)
  have same: "verify_guard (O'\<lparr>spawn := sp\<rparr>) ex tok c t = verify_guard O' ex tok c t"
    "breaker_open (O'\<lparr>spawn := sp\<rparr>) ex = breaker_open O' ex"
    "plant_if (O'\<lparr>spawn := sp\<rparr>) oo r ex w = plant_if O' oo r ex w"
    "hostname (O'\<lparr>spawn := sp\<rparr>) = hostname O'" "environ (O'\<lparr>spawn := sp\<rparr>) = environ O'" for c t
    by (simp_all add: verify_guard_def breaker_open_def plant_if_def split: option.split)
  have "execute_subprocess O' oo r cap command cwd env tok ex w
      = execute_subprocess (O'\<lparr>spawn := sp\<rparr>) oo r cap command cwd env tok ex w"
    unfolding execute_subprocess_def run same ..
  moreover have "s_status res \<noteq> ''ok''" if "fst (execute_subprocess O' oo r cap command cwd env tok ex w) = Inr res" for res
    using that unfolding execute_subprocess_def run
    by (auto simp: sub_refusal_def blank_result_def Let_def split: sum.splits if_splits option.splits prod.splits)
  ultimately show ?thesis by blast
qed

section \<open>Examples\<close>

definition ex_token :: string where
  "ex_token = projr ex_issue"

definition ex_capability :: capability_token where
  "ex_capability = issued_token ''a'' [''x.*''] None 10 ''obase'' (Some ''n1'') ''f'' 5"

lemma ex_token_verifies: "verify ex_codec ''s'' None 15 ex_token = Inr ex_capability"
proof -
  obtain tok where tok: "ex_issue = Inr tok" using ex_issue_ok by blast
  have "verify ex_codec ''s'' None 15 tok = Inr ex_capability"
    by (subst verify_issued [OF ex_codec_ok tok [unfolded ex_issue_def]])
      (simp add: is_expired_def issued_token_def ex_capability_def)
  then show ?thesis by (simp only: ex_token_def tok sum.sel)
qed

definition ex_outside :: "(Breaker.breaker, unit, unit) outside" where
  "ex_outside = \<lparr>codec = ex_codec, is_open = (\<lambda>_. None), acquire = (\<lambda>_. No_acquire), writable = (\<lambda>_. True),
     tmp_dir = ''/tmp'', spawn = (\<lambda>_ _ _ _ w. (w, Completed 0 '''' '''')), environ = [], hostname = (\<lambda>_. Some ''h'')\<rparr>"

text \<open>The repository's own breaker has no \<open>is_open\<close> attribute, so an open one blocks nothing.\<close>

definition ex_executor :: "(Breaker.breaker, unit) executor" where
  "ex_executor = \<lparr>secret = ''s'', action_log = \<lparr>entries = [], log_file = Some [], log_writable = False\<rparr>,
     breaker = Some \<lparr>failure_threshold = 1, recovery_timeout = 30, failure_count = 1, phase = Open, opened_at = Some 0\<rparr>,
     rate_limiter = None, default_capability = ''x.y'', honeypot_dir = None, sandbox = plain_sandbox\<rparr>"

definition ex_options :: options where
  "ex_options = \<lparr>o_capability = None, o_envelope = None, o_timeout = None, use_breaker = True,
     use_rate_limit = True, use_honeypot = True, audit = True\<rparr>"

definition empty_world :: "unit world" where
  "empty_world = \<lparr>files = (\<lambda>_. None), look_fails = (\<lambda>_. False), unlink_fails = (\<lambda>_. False), app = ()\<rparr>"

definition ex_readings :: readings where
  "ex_readings = \<lparr>now = 15, ms = 0, hex = ''ab''\<rparr>"

lemma ex_sel [simp]:
  "writable ex_outside b" "tmp_dir ex_outside = ''/tmp''" "codec ex_outside = ex_codec" "is_open ex_outside b' = None"
  "hostname ex_outside h = Some ''h''" "spawn ex_outside a c e t v = (v, Completed 0 '''' '''')" "environ ex_outside = []"
  "o_capability ex_options = None" "o_envelope ex_options = None" "o_timeout ex_options = None"
  "use_breaker ex_options" "use_rate_limit ex_options" "use_honeypot ex_options" "audit ex_options"
  "now ex_readings = 15" "ms ex_readings = 0" "hex ex_readings = ''ab''"
  "secret ex_executor = ''s''" "default_capability ex_executor = ''x.y''" "honeypot_dir ex_executor = None"
  "entries (action_log ex_executor) = []" "sandbox ex_executor = plain_sandbox"
  by (simp_all add: ex_outside_def ex_options_def ex_readings_def ex_executor_def)

lemmas run_defs = controlled_def plant_if_def plant_def new_probe_def supervise_def
  inspect_def check_touched_def check_bait_def cleanup_def remove_bait_def empty_world_def Let_def

lemma ex_guard: "verify_guard ex_outside ex_executor ex_token ''x.y'' 15 = Inr ex_capability"
proof -
  have "has_capability ex_capability ''x.y''"
    by (simp add: ex_capability_def issued_token_def has_capability_def cap_matches_def ends_with_def starts_with_def)
  moreover have "ex_token \<noteq> ''''"
  proof
    assume "ex_token = ''''"
    then have "verify ex_codec ''s'' None 15 '''' = Inr ex_capability" using ex_token_verifies by simp
    then show False by (simp add: verify_def)
  qed
  ultimately show ?thesis
    using ex_token_verifies by (simp add: verify_guard_ok ex_outside_def ex_executor_def)
qed

lemma ex_acquire: "acquire_sync ex_outside ex_executor = (ex_executor, None)"
  "acquire_async ex_outside ex_executor = (ex_executor, None)"
  by (simp_all add: acquire_sync_def acquire_async_def ex_executor_def)

lemma ex_admitted_by: "acq ex_executor = (ex_executor, None) \<Longrightarrow>
    guards act acq ex_outside ex_options ex_readings ex_token ex_executor = (ex_executor, Admitted ex_capability)"
  using ex_guard default_is_valid
  by (simp add: guards_def the_envelope_def or_default_def breaker_open_def Let_def split: option.split)

lemmas ex_admitted = ex_admitted_by [where acq = "acquire_sync ex_outside", OF ex_acquire(1)]
lemmas ex_admitted_async = ex_admitted_by [where acq = "acquire_async ex_outside", OF ex_acquire(2)]

theorem only_authorised_code_runs_witness:
  "\<exists>t. verify ex_codec ''s'' None 15 ex_token = Inr t \<and> has_capability t ''x.y''"
proof -
  have "execute ex_outside ex_options ex_readings (Some (\<lambda>w. (w, Inr (1::int)))) ex_token ex_executor empty_world
     \<noteq> execute ex_outside ex_options ex_readings (Some (\<lambda>w. (w, Inr 2))) ex_token ex_executor empty_world"
    by (simp add: execute_def ex_admitted run_defs run_sync_def)
  from only_authorised_code_runs [OF this] show ?thesis by (auto simp: or_default_def)
qed

text \<open>The file of this executor's log cannot be written; the entry is kept in memory.\<close>

theorem verified_calls_are_audited_witness:
  "\<exists>ex' w' res e. execute ex_outside ex_options ex_readings (None :: (unit, int) body option) ex_token ex_executor
       empty_world = (Inr res, ex', w')
     \<and> entries (action_log ex') = [e] \<and> l_outcome e = ''error'' \<and> l_subject e = ''a''"
proof -
  obtain res ex' w' where e: "execute ex_outside ex_options ex_readings (None :: (unit, int) body option) ex_token
      ex_executor empty_world = (Inr res, ex', w')" and st: "x_status res = ''error''"
    by (simp add: execute_def ex_admitted run_defs run_sync_def)
  have v: "validate_envelope (the_envelope ex_options) = Inr ()"
    "verify_guard ex_outside ex_executor ex_token (or_default (o_capability ex_options) (default_capability ex_executor))
       (now ex_readings) = Inr ex_capability"
    using ex_guard default_is_valid by (simp_all add: the_envelope_def or_default_def)
  have "subject ex_capability = ''a''" by (simp add: ex_capability_def issued_token_def)
  have "(if True then execute ex_outside ex_options ex_readings (None :: (unit, int) body option) ex_token ex_executor
      empty_world else aexecute ex_outside ex_options ex_readings None ex_token ex_executor empty_world) = (Inr res, ex', w')"
    using e by simp
  note this = verified_calls_are_audited [OF this ex_sel(14)] \<open>subject ex_capability = ''a''\<close> v st
  then obtain en where "entries (action_log ex') = [en]" "l_outcome en = ''error''" "l_subject en = ''a''"
    by auto
  with e show ?thesis by blast
qed

text \<open>A function that deletes the bait and then raises is still caught.\<close>

theorem honeypot_detects_witness:
  "\<exists>res ex'. execute ex_outside ex_options ex_readings
       (Some (\<lambda>w. (w\<lparr>files := (\<lambda>_. None)\<rparr>, Inl (''ValueError'', '''')) :: unit world \<times> ((string \<times> string) + int)))
       ex_token ex_executor empty_world
     = (Inr res, ex', empty_world) \<and> x_status res = ''honeypot_trip'' \<and> x_outcome res = None"
proof -
  show ?thesis
    using honeypot_detects [OF ex_admitted ex_sel(13) refl ex_sel(1), where w = "empty_world"
        and f = "\<lambda>w. (w\<lparr>files := (\<lambda>_. None)\<rparr>, Inl (''ValueError'', ''''))", OF refl]
    by (simp add: fun_upd_def empty_world_def)
qed

text \<open>With an allow list that names the host, the firewall still blocks the command.\<close>

definition allow_h :: options where
  "allow_h = ex_options\<lparr>use_honeypot := False, o_envelope := Some (DEFAULT_ENVELOPE\<lparr>network :=
     \<lparr>np_mode = ''allowlist'', egress_allow = [''h'']\<rparr>\<rparr>)\<rparr>"

lemma curl_is_recognised: "check_command (sandbox ex_executor) ''curl http://h'' = Some ''curl''"
  by (simp add: check_command_def plain_sandbox_def NETWORK_COMMANDS_def has_prefix_def strip_def
      white_space_def lowered_def lower_char_def)

theorem network_commands_never_start_witness:
  "fst (execute_subprocess ex_outside allow_h ex_readings ''x.y'' ''curl http://h'' None None ex_token ex_executor
       empty_world)
   = fst (execute_subprocess (ex_outside\<lparr>spawn := (\<lambda>_ _ _ _ w. (w, Timed_out))\<rparr>) allow_h ex_readings ''x.y''
       ''curl http://h'' None None ex_token ex_executor empty_world)"
  using network_commands_never_start [OF curl_is_recognised, of ex_outside allow_h ex_readings "''x.y''" None None ex_token
      "empty_world" "\<lambda>_ _ _ _ w. (w, Timed_out)"]
  by (simp only:)

lemma allowlisted_curl_blocked:
  "network_allowed (the_envelope allow_h) ''h'' None
   \<and> (case fst (execute_subprocess ex_outside allow_h ex_readings ''x.y'' ''curl http://h'' None None ex_token ex_executor
        empty_world) of Inl _ \<Rightarrow> False | Inr res \<Rightarrow> s_status res = ''blocked'')"
proof -
  have v: "validate_envelope (the_envelope allow_h) = Inr ()"
    by (simp add: allow_h_def the_envelope_def validate_envelope_def DEFAULT_ENVELOPE_def)
  have n: "network_allowed (the_envelope allow_h) ''h'' None"
    by (simp add: allow_h_def the_envelope_def network_allowed_def policy_allows_def rule_allows_def host_port_def)
  have re: "resolve_egress (hostname ex_outside) c = None \<or> resolve_egress (hostname ex_outside) c = Some ''h''" for c
    by (auto simp: resolve_egress_def bind_eq_Some_conv split: list.split)
  have "network_refusal (hostname ex_outside) (sandbox ex_executor) (the_envelope allow_h) ''curl http://h'' = None"
    using n [unfolded allow_h_def the_envelope_def] re [of "''curl http://h''"]
    by (auto simp: network_refusal_def allow_h_def the_envelope_def split: option.split)
  then show ?thesis
    using n v ex_guard curl_is_recognised
    by (simp add: execute_subprocess_def or_default_def breaker_open_def plant_if_def sandbox_run_def inspect_def
        allow_h_def blank_result_def blank_def white_space_def Let_def split: option.split)
qed

text \<open>Asynchronously, a trip is reported only if the run succeeded.\<close>

lemma async_trip_masked:
  "\<exists>res ex' w'. aexecute ex_outside ex_options ex_readings
       (Some (\<lambda>_ w. (w\<lparr>files := (\<lambda>_. None)\<rparr>, Inl (''ValueError'', '''')) :: unit world \<times> ((string \<times> string) + int)))
       ex_token ex_executor empty_world = (Inr res, ex', w')
     \<and> x_status res = ''error'' \<and> x_trips res \<noteq> []"
  by (simp add: aexecute_def ex_admitted_async run_defs run_async_def)

text \<open>An environment given as empty is replaced by that of the process, keys of other providers included.\<close>

lemma empty_env_inherits:
  "run_env plain_sandbox [(''GEMINI_API_KEY'', ''k'')] (Some (sanitize_env [])) = [(''GEMINI_API_KEY'', ''k'')]"
  by code_simp

end
