(* ===== verification/ProviderRouting.thy ===== *)
theory ProviderRouting
  imports Json Python_Text "HOL-Library.FSet"
begin

text \<open>
  The provider descriptions of \<^verbatim>\<open>obase/provider_routing.py\<close>: protocol families, prices, models,
  health, provider specs with the normalisation their constructor does, and the exported
  documents. A frozenset of texts is a finite set; an exported one is its sorted list. Arguments
  arrive as the caller gives them: models as values or mappings, the family as member or text.
\<close>

section \<open>Protocol families\<close>

datatype protocol_family = NATIVE | HARNESS | ACP | A2A | MCP

fun family_value :: "protocol_family \<Rightarrow> string" where
  "family_value NATIVE = ''native''"
| "family_value HARNESS = ''harness''"
| "family_value ACP = ''acp''"
| "family_value A2A = ''a2a''"
| "family_value MCP = ''mcp''"

definition families :: "protocol_family list" where
  "families = [NATIVE, HARNESS, ACP, A2A, MCP]"

datatype family_arg = Member protocol_family | Text string | Other_family

datatype spec_error =
    Unknown_argument string
  | Missing_argument string
  | Not_a_model
  | Unknown_family
  | Unknown_lifecycle "string list"
  | Unknown_operation string
  | Bad_value decode_error

definition folded :: "string \<Rightarrow> string" where
  "folded s = map lower_char (strip s)"

definition coerce_family :: "family_arg \<Rightarrow> spec_error + protocol_family" where
  "coerce_family a = (case a of
       Member m \<Rightarrow> Inr m
     | Text s \<Rightarrow> (case find (\<lambda>m. family_value m = folded s) families of
          Some m \<Rightarrow> Inr m | None \<Rightarrow> Inl Unknown_family)
     | Other_family \<Rightarrow> Inl Unknown_family)"

definition TOOL_KIND_TO_FAMILY :: "(string \<times> protocol_family) list" where
  "TOOL_KIND_TO_FAMILY = [(''native'', NATIVE), (''mcp'', MCP)]"

definition tool_kind_to_protocol_family :: "string \<Rightarrow> spec_error + protocol_family" where
  "tool_kind_to_protocol_family kind =
     (case dict_get TOOL_KIND_TO_FAMILY (folded kind) of Some f \<Rightarrow> Inr f | None \<Rightarrow> Inl Unknown_family)"

definition LIFECYCLE_OPS :: "string list" where
  "LIFECYCLE_OPS = [''run'', ''stream'', ''status'', ''cancel'', ''resume'']"

section \<open>Prices and models\<close>

record pricing =
  p_provider :: string
  p_model :: string
  input_price :: "rat option"
  output_price :: "rat option"
  currency :: string

definition estimate :: "pricing \<Rightarrow> int \<Rightarrow> int \<Rightarrow> rat option" where
  "estimate p input_tokens output_tokens =
     (case (input_price p, output_price p) of
        (Some i, Some u) \<Rightarrow> Some (of_int input_tokens * i + of_int output_tokens * u)
      | _ \<Rightarrow> None)"

record model_spec =
  m_name :: string
  m_provider :: string
  m_capabilities :: "string fset"
  context_window :: "int option"
  supports_streaming :: bool
  supports_tools :: bool
  m_pricing :: "pricing option"
  m_metadata :: jdict

definition model_supports :: "model_spec \<Rightarrow> string option \<Rightarrow> bool" where
  "model_supports m c = (case c of None \<Rightarrow> True | Some c \<Rightarrow> c |\<in>| m_capabilities m)"

definition float_or_null :: "rat option \<Rightarrow> json" where
  "float_or_null r = (case r of None \<Rightarrow> JNull | Some r \<Rightarrow> JFloat r)"

definition int_or_null :: "int option \<Rightarrow> json" where
  "int_or_null i = (case i of None \<Rightarrow> JNull | Some i \<Rightarrow> JInt i)"

definition capability_list :: "string fset \<Rightarrow> json" where
  "capability_list s = JList (map JStr (sorted_list_of_fset s))"

definition pricing_to_dict :: "pricing \<Rightarrow> jdict" where
  "pricing_to_dict p = [(''provider'', JStr (p_provider p)), (''model'', JStr (p_model p)),
     (''input_usd_per_token'', float_or_null (input_price p)),
     (''output_usd_per_token'', float_or_null (output_price p)), (''currency'', JStr (currency p))]"

definition model_to_dict :: "model_spec \<Rightarrow> jdict" where
  "model_to_dict m = [(''name'', JStr (m_name m)), (''provider'', JStr (m_provider m)),
     (''capabilities'', capability_list (m_capabilities m)), (''context_window'', int_or_null (context_window m)),
     (''supports_streaming'', JBool (supports_streaming m)), (''supports_tools'', JBool (supports_tools m)),
     (''pricing'', (case m_pricing m of None \<Rightarrow> JNull | Some p \<Rightarrow> JDict (pricing_to_dict p))),
     (''metadata'', JDict (m_metadata m))]"

section \<open>Building values from mappings\<close>

text \<open>\<open>Cls(**mapping)\<close>: every key must be a field, every field without default must be given.\<close>

definition known_fields :: "string list \<Rightarrow> jdict \<Rightarrow> spec_error + unit" where
  "known_fields flds d = (case find (\<lambda>k. k \<notin> set flds) (map fst d) of
       None \<Rightarrow> Inr () | Some k \<Rightarrow> Inl (Unknown_argument k))"

definition bad :: "decode_error + 'a \<Rightarrow> spec_error + 'a" where
  "bad r = (case r of Inl e \<Rightarrow> Inl (Bad_value e) | Inr x \<Rightarrow> Inr x)"

definition given :: "string \<Rightarrow> (json \<Rightarrow> decode_error + 'a) \<Rightarrow> jdict \<Rightarrow> spec_error + 'a" where
  "given k dec d = (case dict_get d k of None \<Rightarrow> Inl (Missing_argument k) | Some j \<Rightarrow> bad (dec j))"

definition maybe :: "string \<Rightarrow> 'a \<Rightarrow> (json \<Rightarrow> decode_error + 'a) \<Rightarrow> jdict \<Rightarrow> spec_error + 'a" where
  "maybe k dflt dec d = bad (opt k dflt dec d)"

fun as_float_option :: "json \<Rightarrow> decode_error + rat option" where
  "as_float_option JNull = Inr None"
| "as_float_option j = bindE (as_float j) (\<lambda>r. Inr (Some r))"

fun as_int_option :: "json \<Rightarrow> decode_error + int option" where
  "as_int_option JNull = Inr None"
| "as_int_option j = bindE (as_int j) (\<lambda>i. Inr (Some i))"

definition as_texts :: "json \<Rightarrow> decode_error + string list" where
  "as_texts j = bindE (as_list j) (mapE as_str)"

definition pricing_of_dict :: "jdict \<Rightarrow> spec_error + pricing" where
  "pricing_of_dict d =
     bindE (known_fields [''provider'', ''model'', ''input_usd_per_token'', ''output_usd_per_token'', ''currency''] d) (\<lambda>_.
     bindE (given ''provider'' as_str d) (\<lambda>pr. bindE (given ''model'' as_str d) (\<lambda>mo.
     bindE (maybe ''input_usd_per_token'' None as_float_option d) (\<lambda>i.
     bindE (maybe ''output_usd_per_token'' None as_float_option d) (\<lambda>u.
     bindE (maybe ''currency'' ''USD'' as_str d) (\<lambda>c.
       Inr \<lparr>p_provider = pr, p_model = mo, input_price = i, output_price = u, currency = c\<rparr>))))))"

definition pricing_arg :: "jdict \<Rightarrow> spec_error + pricing option" where
  "pricing_arg d = (case dict_get d ''pricing'' of
       None \<Rightarrow> Inr None | Some JNull \<Rightarrow> Inr None
     | Some (JDict p) \<Rightarrow> bindE (pricing_of_dict p) (\<lambda>p. Inr (Some p))
     | Some j \<Rightarrow> Inl (Bad_value (Ill_typed j)))"

definition model_of_dict :: "jdict \<Rightarrow> spec_error + model_spec" where
  "model_of_dict d =
     bindE (pricing_arg d) (\<lambda>pr.
     bindE (known_fields [''name'', ''provider'', ''capabilities'', ''context_window'', ''supports_streaming'',
       ''supports_tools'', ''pricing'', ''metadata''] d) (\<lambda>_.
     bindE (given ''name'' as_str d) (\<lambda>n. bindE (given ''provider'' as_str d) (\<lambda>p.
     bindE (maybe ''capabilities'' [''chat''] as_texts d) (\<lambda>c.
     bindE (maybe ''context_window'' None as_int_option d) (\<lambda>w.
     bindE (maybe ''supports_streaming'' True as_bool d) (\<lambda>st. bindE (maybe ''supports_tools'' True as_bool d) (\<lambda>t.
     bindE (maybe ''metadata'' [] as_dict d) (\<lambda>m.
       Inr \<lparr>m_name = n, m_provider = p, m_capabilities = fset_of_list c, context_window = w,
            supports_streaming = st, supports_tools = t, m_pricing = pr, m_metadata = m\<rparr>)))))))))"

section \<open>Provider specs\<close>

record health_report =
  h_provider :: string
  h_healthy :: bool
  h_status :: string
  h_latency_ms :: "rat option"
  h_checked_at :: string
  h_reason :: string

definition health_to_dict :: "health_report \<Rightarrow> jdict" where
  "health_to_dict h = [(''provider'', JStr (h_provider h)), (''healthy'', JBool (h_healthy h)),
     (''status'', JStr (h_status h)), (''latency_ms'', float_or_null (h_latency_ms h)),
     (''checked_at'', JStr (h_checked_at h)), (''reason'', JStr (h_reason h))]"

record provider_spec =
  s_name :: string
  s_models :: "model_spec list"
  s_capabilities :: "string fset"
  s_health :: "health_report option"
  priority :: int
  s_enabled :: bool
  credential_ref :: "string option"
  s_metadata :: jdict
  protocol :: protocol_family
  version :: "string option"
  available :: bool
  unavailable_reason :: "string option"
  lifecycle :: "(string \<times> bool) list"

datatype model_arg = Model model_spec | Mapping jdict | Other_value

record spec_args =
  a_name :: string
  a_models :: "model_arg list"
  a_capabilities :: "string list"
  a_health :: "health_report option"
  a_priority :: int
  a_enabled :: bool
  a_credential_ref :: "string option"
  a_metadata :: jdict
  a_protocol :: family_arg
  a_version :: "string option"
  a_available :: json
  a_unavailable_reason :: "string option"
  a_lifecycle :: jdict

fun model_of_arg :: "model_arg \<Rightarrow> spec_error + model_spec" where
  "model_of_arg (Model m) = Inr m"
| "model_of_arg (Mapping d) = model_of_dict d"
| "model_of_arg Other_value = Inl Not_a_model"

definition normal_version :: "string option \<Rightarrow> string option" where
  "normal_version v = (case v of None \<Rightarrow> None | Some s \<Rightarrow> if strip s = '''' then None else Some (strip s))"

definition lifecycle_flags :: "jdict \<Rightarrow> (string \<times> bool) list" where
  "lifecycle_flags d = map (\<lambda>op. (op, case dict_get d op of None \<Rightarrow> False | Some j \<Rightarrow> truthy j)) LIFECYCLE_OPS"

text \<open>\<^verbatim>\<open>ProviderSpec.__post_init__\<close>.\<close>

definition make_spec :: "spec_args \<Rightarrow> spec_error + provider_spec" where
  "make_spec a =
     bindE (mapE model_of_arg (a_models a)) (\<lambda>ms.
     bindE (coerce_family (a_protocol a)) (\<lambda>f.
       let unknown = sorted_list_of_set (set (map fst (a_lifecycle a)) - set LIFECYCLE_OPS)
       in if unknown \<noteq> [] then Inl (Unknown_lifecycle unknown)
          else Inr \<lparr>s_name = a_name a, s_models = ms, s_capabilities = fset_of_list (a_capabilities a),
            s_health = a_health a, priority = a_priority a, s_enabled = a_enabled a,
            credential_ref = a_credential_ref a, s_metadata = a_metadata a, protocol = f,
            version = normal_version (a_version a), available = truthy (a_available a),
            unavailable_reason = a_unavailable_reason a, lifecycle = lifecycle_flags (a_lifecycle a)\<rparr>))"

definition can :: "provider_spec \<Rightarrow> string \<Rightarrow> spec_error + bool" where
  "can s op = (if op \<notin> set LIFECYCLE_OPS then Inl (Unknown_operation op)
     else Inr (case dict_get (lifecycle s) op of None \<Rightarrow> False | Some b \<Rightarrow> b))"

definition spec_model :: "provider_spec \<Rightarrow> string option \<Rightarrow> model_spec option" where
  "spec_model s n =
     (let first = (case s_models s of [] \<Rightarrow> None | m # _ \<Rightarrow> Some m)
      in case n of None \<Rightarrow> first | Some n \<Rightarrow> if n = '''' then first else find (\<lambda>m. m_name m = n) (s_models s))"

definition spec_to_dict :: "provider_spec \<Rightarrow> jdict" where
  "spec_to_dict s = [(''name'', JStr (s_name s)), (''models'', JList (map (JDict \<circ> model_to_dict) (s_models s))),
     (''capabilities'', capability_list (s_capabilities s)),
     (''health'', (case s_health s of None \<Rightarrow> JNull | Some h \<Rightarrow> JDict (health_to_dict h))),
     (''priority'', JInt (priority s)), (''enabled'', JBool (s_enabled s)),
     (''credential_ref'', str_or_null (credential_ref s)), (''metadata'', JDict (s_metadata s)),
     (''protocol_family'', JStr (family_value (protocol s))), (''version'', str_or_null (version s)),
     (''available'', JBool (available s)), (''unavailable_reason'', str_or_null (unavailable_reason s)),
     (''lifecycle'', JDict (map (\<lambda>(op, b). (op, JBool b)) (lifecycle s)))]"

text \<open>
  \<open>ProviderSpec(**document)\<close> for documents without a health report: a report read back would stay a
  plain dictionary.
\<close>

definition as_models :: "json \<Rightarrow> decode_error + model_arg list" where
  "as_models j = (case j of JNull \<Rightarrow> Inr []
     | JList xs \<Rightarrow> Inr (map (\<lambda>x. case x of JDict d \<Rightarrow> Mapping d | _ \<Rightarrow> Other_value) xs) | _ \<Rightarrow> Inl (Ill_typed j))"

definition as_family :: "json \<Rightarrow> decode_error + family_arg" where
  "as_family j = Inr (case j of JStr s \<Rightarrow> Text s | _ \<Rightarrow> Other_family)"

definition no_health :: "json \<Rightarrow> decode_error + health_report option" where
  "no_health j = (case j of JNull \<Rightarrow> Inr None | _ \<Rightarrow> Inl (Ill_typed j))"

definition as_lifecycle :: "json \<Rightarrow> decode_error + jdict" where
  "as_lifecycle j = (if truthy j then as_dict j else Inr [])"

definition SPEC_FIELDS :: "string list" where
  "SPEC_FIELDS = [''name'', ''models'', ''capabilities'', ''health'', ''priority'', ''enabled'', ''credential_ref'',
     ''metadata'', ''protocol_family'', ''version'', ''available'', ''unavailable_reason'', ''lifecycle'']"

definition args_of_dict :: "jdict \<Rightarrow> spec_error + spec_args" where
  "args_of_dict d =
     bindE (known_fields SPEC_FIELDS d) (\<lambda>_.
     bindE (given ''name'' as_str d) (\<lambda>n. bindE (maybe ''models'' [] as_models d) (\<lambda>ms.
     bindE (maybe ''capabilities'' [''chat''] as_texts d) (\<lambda>cs. bindE (maybe ''health'' None no_health d) (\<lambda>h.
     bindE (maybe ''priority'' 0 as_int d) (\<lambda>p. bindE (maybe ''enabled'' True as_bool d) (\<lambda>en.
     bindE (maybe ''credential_ref'' None as_str_option d) (\<lambda>cr. bindE (maybe ''metadata'' [] as_dict d) (\<lambda>md.
     bindE (maybe ''protocol_family'' (Member NATIVE) as_family d) (\<lambda>f.
     bindE (maybe ''version'' None as_str_option d) (\<lambda>v. bindE (maybe ''available'' (JBool True) Inr d) (\<lambda>av.
     bindE (maybe ''unavailable_reason'' None as_str_option d) (\<lambda>ur.
     bindE (maybe ''lifecycle'' [] as_lifecycle d) (\<lambda>lc.
       Inr \<lparr>a_name = n, a_models = ms, a_capabilities = cs, a_health = h, a_priority = p, a_enabled = en,
            a_credential_ref = cr, a_metadata = md, a_protocol = f, a_version = v, a_available = av,
            a_unavailable_reason = ur, a_lifecycle = lc\<rparr>))))))))))))))"

definition spec_of_dict :: "jdict \<Rightarrow> spec_error + provider_spec" where
  "spec_of_dict d = bindE (args_of_dict d) make_spec"

section \<open>Calls and usage\<close>

record provider_request =
  q_provider :: string
  q_model :: string
  q_messages :: "jdict list"
  q_tools :: "jdict list"
  q_stream :: bool
  q_max_tokens :: "int option"
  q_temperature :: "rat option"
  q_credential_ref :: "string option"
  q_request_ref :: "string option"

definition provider_request_to_dict :: "provider_request \<Rightarrow> jdict" where
  "provider_request_to_dict q = [(''provider'', JStr (q_provider q)), (''model'', JStr (q_model q)),
     (''messages'', JList (map JDict (q_messages q))), (''tools'', JList (map JDict (q_tools q))),
     (''stream'', JBool (q_stream q)), (''max_tokens'', int_or_null (q_max_tokens q)),
     (''temperature'', float_or_null (q_temperature q)), (''credential_ref'', str_or_null (q_credential_ref q)),
     (''request_ref'', str_or_null (q_request_ref q))]"

definition safe_metadata :: "provider_request \<Rightarrow> jdict" where
  "safe_metadata q = [(''provider'', JStr (q_provider q)), (''model'', JStr (q_model q)),
     (''stream'', JBool (q_stream q)), (''request_ref'', str_or_null (q_request_ref q))]"

record usage_record =
  u_provider :: string
  u_model :: string
  input_tokens :: int
  output_tokens :: int
  u_latency_ms :: "rat option"
  estimated_cost :: "rat option"
  u_success :: bool
  u_streamed :: bool
  u_request_ref :: "string option"
  u_error_type :: "string option"
  recorded_at :: string

definition total_tokens :: "usage_record \<Rightarrow> int" where
  "total_tokens u = input_tokens u + output_tokens u"

definition usage_to_dict :: "usage_record \<Rightarrow> jdict" where
  "usage_to_dict u = [(''provider'', JStr (u_provider u)), (''model'', JStr (u_model u)),
     (''input_tokens'', JInt (input_tokens u)), (''output_tokens'', JInt (output_tokens u)),
     (''total_tokens'', JInt (total_tokens u)), (''latency_ms'', float_or_null (u_latency_ms u)),
     (''estimated_cost_usd'', float_or_null (estimated_cost u)), (''success'', JBool (u_success u)),
     (''streamed'', JBool (u_streamed u)), (''request_ref'', str_or_null (u_request_ref u)),
     (''error_type'', str_or_null (u_error_type u)), (''recorded_at'', JStr (recorded_at u))]"

text \<open>Neither the metadata nor a usage record depends on messages, tools or the credential.\<close>

lemma safe_metadata_independent:
  "safe_metadata (q\<lparr>q_messages := ms, q_tools := ts, q_credential_ref := c, q_max_tokens := n, q_temperature := t\<rparr>)
     = safe_metadata q"
  by (simp add: safe_metadata_def)

section \<open>What the constructor guarantees\<close>

definition normal_spec :: "provider_spec \<Rightarrow> bool" where
  "normal_spec s \<longleftrightarrow> map fst (lifecycle s) = LIFECYCLE_OPS
     \<and> (case version s of None \<Rightarrow> True | Some v \<Rightarrow> v \<noteq> '''' \<and> strip v = v)"

definition args_of_spec :: "provider_spec \<Rightarrow> spec_args" where
  "args_of_spec s = \<lparr>a_name = s_name s, a_models = map Model (s_models s),
     a_capabilities = sorted_list_of_fset (s_capabilities s), a_health = s_health s, a_priority = priority s,
     a_enabled = s_enabled s, a_credential_ref = credential_ref s, a_metadata = s_metadata s,
     a_protocol = Member (protocol s), a_version = version s, a_available = JBool (available s),
     a_unavailable_reason = unavailable_reason s, a_lifecycle = map (\<lambda>(op, b). (op, JBool b)) (lifecycle s)\<rparr>"

lemma normal_version_facts:
  "case normal_version v of None \<Rightarrow> True | Some u \<Rightarrow> u \<noteq> '''' \<and> strip u = u"
  "(case v of None \<Rightarrow> True | Some u \<Rightarrow> u \<noteq> '''' \<and> strip u = u) \<Longrightarrow> normal_version v = v"
  by (auto simp: normal_version_def split: option.splits)

lemma lifecycle_ops: "map fst (lifecycle_flags d) = LIFECYCLE_OPS"
  by (simp add: lifecycle_flags_def comp_def)

lemma lifecycle_get: "op \<in> set LIFECYCLE_OPS \<Longrightarrow>
    dict_get (lifecycle_flags d) op = Some (case dict_get d op of None \<Rightarrow> False | Some j \<Rightarrow> truthy j)"
  unfolding lifecycle_flags_def by (auto simp: map_of_map_restrict)

lemma lifecycle_again:
  assumes "map fst l = LIFECYCLE_OPS" shows "lifecycle_flags (map (\<lambda>(op, b). (op, JBool b)) l) = l"
proof -
  from assms obtain a b c d e where "l = [(''run'', a), (''stream'', b), (''status'', c), (''cancel'', d), (''resume'', e)]"
    by (auto simp: LIFECYCLE_OPS_def map_eq_Cons_conv)
  then show ?thesis by (simp add: lifecycle_flags_def LIFECYCLE_OPS_def)
qed

lemma made_normal: "make_spec a = Inr s \<Longrightarrow> normal_spec s"
  using normal_version_facts(1) [of "a_version a"] lifecycle_ops [of "a_lifecycle a"]
  by (auto simp: make_spec_def bindE_Inr Let_def normal_spec_def split: if_splits)

lemma no_unknown:
  assumes "map fst l = LIFECYCLE_OPS"
  shows "set (map fst (map (\<lambda>(op, b). (op, JBool b)) l)) - set LIFECYCLE_OPS = {}"
proof -
  have "map fst (map (\<lambda>(op, b). (op, JBool b)) l) = map fst l" by (auto simp: case_prod_unfold)
  with assms show ?thesis by simp
qed

lemma remake: "normal_spec s \<Longrightarrow> make_spec (args_of_spec s) = Inr s"
proof -
  assume n: "normal_spec s"
  have "mapE model_of_arg (map Model ms) = Inr ms" for ms by (rule mapE_map_id) simp
  then show ?thesis
    using n no_unknown [of "lifecycle s"] lifecycle_again [of "lifecycle s"] normal_version_facts(2) [of "version s"]
    by (simp add: make_spec_def args_of_spec_def normal_spec_def coerce_family_def Let_def)
qed

section \<open>Documents read back\<close>

lemma as_option [simp]:
  "as_float_option (float_or_null r) = Inr r" "as_int_option (int_or_null i) = Inr i"
  by (cases r; simp add: float_or_null_def) (cases i; simp add: int_or_null_def)

lemma as_texts_list [simp]: "as_texts (JList (map JStr xs)) = Inr xs"
  unfolding as_texts_def by (auto intro!: mapE_map_id)

lemma pricing_again [simp]: "pricing_of_dict (pricing_to_dict p) = Inr p"
  by (simp add: pricing_of_dict_def pricing_to_dict_def known_fields_def given_def maybe_def opt_def bad_def)

lemma model_again [simp]: "model_of_dict (model_to_dict m) = Inr m"
  by (cases "m_pricing m")
    (simp_all add: model_of_dict_def model_to_dict_def pricing_arg_def known_fields_def given_def maybe_def
      opt_def bad_def capability_list_def)

lemma family_again: "coerce_family (Text (family_value f)) = Inr f"
  by (cases f) (simp_all add: coerce_family_def folded_def strip_def white_space_def lower_char_def families_def)

text \<open>What is read back are the arguments the spec gives itself, with mappings for the models.\<close>

lemma args_again:
  assumes "s_health s = None" and "lifecycle s \<noteq> []"
  shows "args_of_dict (spec_to_dict s) = Inr ((args_of_spec s)\<lparr>a_models := map (Mapping \<circ> model_to_dict) (s_models s),
     a_protocol := Text (family_value (protocol s))\<rparr>)"
proof -
  have "as_models (JList (map (JDict \<circ> model_to_dict) ms)) = Inr (map (Mapping \<circ> model_to_dict) ms)" for ms
    by (simp add: as_models_def)
  then show ?thesis
    using assms
    by (simp add: args_of_dict_def spec_to_dict_def known_fields_def SPEC_FIELDS_def given_def maybe_def opt_def bad_def
        capability_list_def as_family_def no_health_def as_lifecycle_def args_of_spec_def)
qed

section \<open>Properties\<close>

text \<open>
  C17. Every constructed spec is normal: a flag for each lifecycle operation and for nothing else, a
  version that is absent or neither empty nor padded, a family of the fixed list. Its flags are the
  truth values given, absent ones are off, asking for any other operation is an error, and
  constructing it again from its own fields changes nothing.
\<close>

theorem constructed_spec_is_normal:
  assumes "make_spec a = Inr s"
  shows "normal_spec s \<and> make_spec (args_of_spec s) = Inr s
    \<and> can s op = (if op \<in> set LIFECYCLE_OPS
                  then Inr (case dict_get (a_lifecycle a) op of None \<Rightarrow> False | Some j \<Rightarrow> truthy j)
                  else Inl (Unknown_operation op))"
proof -
  have "lifecycle s = lifecycle_flags (a_lifecycle a)"
    using assms by (auto simp: make_spec_def bindE_Inr Let_def split: if_splits)
  then show ?thesis using made_normal [OF assms] remake lifecycle_get [of op "a_lifecycle a"] by (simp add: can_def)
qed

text \<open>
  Exporting a constructed spec without a health report and constructing a spec from the document
  gives the same spec, models and prices included.
\<close>

theorem spec_round_trip:
  assumes "make_spec a = Inr s" and "s_health s = None"
  shows "spec_of_dict (spec_to_dict s) = Inr s"
proof -
  have n: "normal_spec s" using made_normal [OF assms(1)] .
  then have "lifecycle s \<noteq> []" by (auto simp: normal_spec_def LIFECYCLE_OPS_def)
  note args = args_again [OF assms(2) this]
  have "mapE model_of_arg (map (Mapping \<circ> model_to_dict) ms) = Inr ms" for ms
    by (rule mapE_map_id) simp
  moreover have "mapE model_of_arg (map Model ms) = Inr ms" for ms by (rule mapE_map_id) simp
  ultimately have "make_spec ((args_of_spec s)\<lparr>a_models := map (Mapping \<circ> model_to_dict) (s_models s),
     a_protocol := Text (family_value (protocol s))\<rparr>) = make_spec (args_of_spec s)"
    by (simp add: make_spec_def args_of_spec_def family_again) (simp add: coerce_family_def)
  with args remake [OF n] show ?thesis by (simp add: spec_of_dict_def)
qed

definition ex_args :: spec_args where
  "ex_args = \<lparr>a_name = ''p'', a_models = [Mapping [(''name'', JStr ''m''), (''provider'', JStr ''p'')]],
     a_capabilities = [''chat''], a_health = None, a_priority = 0, a_enabled = True, a_credential_ref = None,
     a_metadata = [], a_protocol = Text '' MCP'', a_version = Some '' 1 '', a_available = JBool True,
     a_unavailable_reason = None, a_lifecycle = [(''run'', JInt 1)]\<rparr>"

definition ex_spec :: provider_spec where
  "ex_spec = \<lparr>s_name = ''p'', s_models = [\<lparr>m_name = ''m'', m_provider = ''p'', m_capabilities = {|''chat''|},
       context_window = None, supports_streaming = True, supports_tools = True, m_pricing = None, m_metadata = []\<rparr>],
     s_capabilities = {|''chat''|}, s_health = None, priority = 0, s_enabled = True, credential_ref = None,
     s_metadata = [], protocol = MCP, version = Some ''1'', available = True, unavailable_reason = None,
     lifecycle = [(''run'', True), (''stream'', False), (''status'', False), (''cancel'', False), (''resume'', False)]\<rparr>"

lemma ex_spec_made: "make_spec ex_args = Inr ex_spec"
proof -
  have m: "model_of_dict [(''name'', JStr ''m''), (''provider'', JStr ''p'')]
      = Inr \<lparr>m_name = ''m'', m_provider = ''p'', m_capabilities = {|''chat''|}, context_window = None,
         supports_streaming = True, supports_tools = True, m_pricing = None, m_metadata = []\<rparr>"
    by (simp add: model_of_dict_def pricing_arg_def known_fields_def given_def maybe_def opt_def bad_def)
  have f: "coerce_family (Text '' MCP'') = Inr MCP" by code_simp
  have v: "normal_version (Some '' 1 '') = Some ''1''"
    by (simp add: normal_version_def strip_def white_space_def)
  have u: "set (map fst [(''run'', JInt 1)]) - set LIFECYCLE_OPS = {}" by (simp add: LIFECYCLE_OPS_def)
  show ?thesis
    unfolding make_spec_def ex_args_def spec_args.simps mapE.simps model_of_arg.simps m f v u ex_spec_def
    by (simp add: lifecycle_flags_def LIFECYCLE_OPS_def)
qed

theorem constructed_spec_is_normal_witness:
  "normal_spec ex_spec \<and> can ex_spec ''run'' = Inr True \<and> can ex_spec ''stop'' = Inl (Unknown_operation ''stop'')"
  using constructed_spec_is_normal [OF ex_spec_made, of "''run''"] constructed_spec_is_normal [OF ex_spec_made, of "''stop''"]
  by (simp add: LIFECYCLE_OPS_def ex_args_def)

theorem spec_round_trip_witness: "spec_of_dict (spec_to_dict ex_spec) = Inr ex_spec"
  by (rule spec_round_trip [OF ex_spec_made]) (simp add: ex_spec_def)

end
