(* ===== verification/HarnessValues.thy ===== *)
theory HarnessValues
  imports ProviderRouting
begin

text \<open>
  The values of \<^verbatim>\<open>obase/harness_adapter.py\<close>: canonical statuses, error kinds, activities, requests,
  results and the folding of cleanup outcomes, capabilities and their projections. Statuses are
  texts, as in the code. A value of unknown type given as a status is the option None.
\<close>

section \<open>Statuses and errors\<close>

definition RESULT_STATUSES :: "string list" where
  "RESULT_STATUSES = [''completed'', ''failed'', ''cancelled'', ''timeout'', ''partial'']"

definition TERMINAL_STATUSES :: "string list" where
  "TERMINAL_STATUSES = [''completed'', ''failed'', ''cancelled'', ''timeout'', ''partial'']"

definition STATUS_ALIASES :: "(string \<times> string) list" where
  "STATUS_ALIASES = [(''ok'', ''completed''), (''success'', ''completed''), (''succeeded'', ''completed''),
     (''done'', ''completed''), (''completed'', ''completed''), (''error'', ''failed''), (''failed'', ''failed''),
     (''failure'', ''failed''), (''canceled'', ''cancelled''), (''cancelled'', ''cancelled''), (''timeout'', ''timeout''),
     (''timed_out'', ''timeout''), (''partial'', ''partial''), (''incomplete'', ''partial'')]"

definition normalize_status :: "string option \<Rightarrow> string \<Rightarrow> string" where
  "normalize_status value dflt =
     (case Option.bind value (\<lambda>v. dict_get STATUS_ALIASES (folded v)) of
        Some hit \<Rightarrow> hit
      | None \<Rightarrow> if dflt \<in> set RESULT_STATUSES then dflt else ''failed'')"

datatype error_kind = CONFIGURATION | UNAVAILABLE | AUTHENTICATION | RATE_LIMITED | PROTOCOL | PROCESS
  | TIMEOUT | CANCELLED | RESUME_REJECTED | EXECUTION

fun kind_value :: "error_kind \<Rightarrow> string" where
  "kind_value CONFIGURATION = ''configuration''"
| "kind_value UNAVAILABLE = ''unavailable''"
| "kind_value AUTHENTICATION = ''authentication''"
| "kind_value RATE_LIMITED = ''rate_limited''"
| "kind_value PROTOCOL = ''protocol''"
| "kind_value PROCESS = ''process''"
| "kind_value TIMEOUT = ''timeout''"
| "kind_value CANCELLED = ''cancelled''"
| "kind_value RESUME_REJECTED = ''resume_rejected''"
| "kind_value EXECUTION = ''execution''"

definition error_kinds :: "error_kind list" where
  "error_kinds = [CONFIGURATION, UNAVAILABLE, AUTHENTICATION, RATE_LIMITED, PROTOCOL, PROCESS, TIMEOUT, CANCELLED,
     RESUME_REJECTED, EXECUTION]"

datatype value_error = Unknown_error_kind | Unknown_activity_kind | Bad_sequence | Empty_prompt

text \<open>The argument of a coercion: nothing, a member, a text, something else.\<close>

datatype 'k arg = Absent | Is 'k | Named string | Other_type

fun coerce_error_kind :: "error_kind arg \<Rightarrow> value_error + error_kind option" where
  "coerce_error_kind Absent = Inr None"
| "coerce_error_kind (Is k) = Inr (Some k)"
| "coerce_error_kind (Named s) = (case find (\<lambda>k. kind_value k = folded s) error_kinds of
     Some k \<Rightarrow> Inr (Some k) | None \<Rightarrow> Inl Unknown_error_kind)"
| "coerce_error_kind Other_type = Inl Unknown_error_kind"

definition AUTH_PATTERNS :: "string list" where
  "AUTH_PATTERNS = [''oauth'', ''unauthorized'', ''unauthenticated'', ''401'', ''authentication'']"

definition RATE_LIMIT_PATTERNS :: "string list" where
  "RATE_LIMIT_PATTERNS = [''rate limit'', ''rate_limit'', ''429'', ''too many requests'', ''usage limit'']"

definition classify_process_error :: "string \<Rightarrow> int \<Rightarrow> error_kind" where
  "classify_process_error stderr returncode =
     (let txt = map lower_char stderr
      in if list_ex (\<lambda>p. is_infix p txt) AUTH_PATTERNS then AUTHENTICATION
         else if list_ex (\<lambda>p. is_infix p txt) RATE_LIMIT_PATTERNS then RATE_LIMITED
         else PROCESS)"

section \<open>Activities\<close>

datatype activity_kind = MESSAGE | TOOL_CALL | TOOL_RESULT | TERMINAL | STATUS

fun activity_value :: "activity_kind \<Rightarrow> string" where
  "activity_value MESSAGE = ''message''"
| "activity_value TOOL_CALL = ''tool_call''"
| "activity_value TOOL_RESULT = ''tool_result''"
| "activity_value TERMINAL = ''terminal''"
| "activity_value STATUS = ''status''"

definition activity_kinds :: "activity_kind list" where
  "activity_kinds = [MESSAGE, TOOL_CALL, TOOL_RESULT, TERMINAL, STATUS]"

fun coerce_activity :: "activity_kind arg \<Rightarrow> value_error + activity_kind" where
  "coerce_activity (Is k) = Inr k"
| "coerce_activity (Named s) = (case find (\<lambda>k. activity_value k = folded s) activity_kinds of
     Some k \<Rightarrow> Inr k | None \<Rightarrow> Inl Unknown_activity_kind)"
| "coerce_activity _ = Inl Unknown_activity_kind"

record activity =
  act_kind :: activity_kind
  act_sequence :: int
  act_run_id :: string
  act_payload :: jdict
  act_session :: "string option"
  act_turn :: "string option"
  act_timestamp :: rat
  act_metadata :: jdict
  tool_name :: "string option"
  tool_arguments :: jdict
  tool_status :: "string option"
  tool_result_ref :: "string option"

text \<open>The sequence arrives as a document; a boolean is no number here.\<close>

definition make_activity :: "activity_kind arg \<Rightarrow> json \<Rightarrow> string \<Rightarrow> jdict \<Rightarrow> string option \<Rightarrow> rat \<Rightarrow>
    value_error + activity" where
  "make_activity k n run payload session ts =
     bindE (coerce_activity k) (\<lambda>k.
       case n of
         JInt i \<Rightarrow> if i < 0 then Inl Bad_sequence
                   else Inr \<lparr>act_kind = k, act_sequence = i, act_run_id = run, act_payload = payload,
                     act_session = session, act_turn = None, act_timestamp = ts, act_metadata = [],
                     tool_name = None, tool_arguments = [], tool_status = None, tool_result_ref = None\<rparr>
       | _ \<Rightarrow> Inl Bad_sequence)"

definition activity_to_dict :: "activity \<Rightarrow> jdict" where
  "activity_to_dict a = [(''kind'', JStr (activity_value (act_kind a))), (''sequence'', JInt (act_sequence a)),
     (''timestamp'', JFloat (act_timestamp a)), (''run_id'', JStr (act_run_id a)),
     (''session_id'', str_or_null (act_session a)), (''turn_id'', str_or_null (act_turn a)),
     (''payload'', JDict (act_payload a)), (''metadata'', JDict (act_metadata a)),
     (''tool_name'', str_or_null (tool_name a)), (''tool_arguments'', JDict (tool_arguments a)),
     (''tool_status'', str_or_null (tool_status a)), (''tool_result_ref'', str_or_null (tool_result_ref a))]"

section \<open>Requests and results\<close>

record run_request =
  prompt :: string
  req_cwd :: "string option"
  req_session :: "string option"
  req_timeout :: "rat option"
  req_env :: "(string, string) dict"
  req_options :: jdict
  req_metadata :: jdict

definition make_request :: "run_request \<Rightarrow> value_error + run_request" where
  "make_request q = (if prompt q = '''' then Inl Empty_prompt else Inr q)"

definition set_some :: "string \<Rightarrow> json option \<Rightarrow> jdict \<Rightarrow> jdict" where
  "set_some k v d = (case v of None \<Rightarrow> d | Some j \<Rightarrow> dict_set k j d)"

definition to_kwargs :: "run_request \<Rightarrow> jdict" where
  "to_kwargs q = set_some ''session'' (map_option JStr (req_session q))
     (set_some ''timeout_s'' (map_option JFloat (req_timeout q))
       (set_some ''cwd'' (map_option JStr (req_cwd q)) (req_options q)))"

definition request_to_dict :: "run_request \<Rightarrow> jdict" where
  "request_to_dict q = [(''prompt'', JStr (prompt q)), (''cwd'', str_or_null (req_cwd q)),
     (''session_id'', str_or_null (req_session q)), (''timeout_s'', float_or_null (req_timeout q)),
     (''env'', JDict (map (\<lambda>(k, v). (k, JStr v)) (req_env q))), (''options'', JDict (req_options q)),
     (''metadata'', JDict (req_metadata q))]"

text \<open>The error of a result is a text, or whatever an upstream document held; JNull is none.\<close>

record run_result =
  run_id :: string
  status :: string
  run_output :: string
  run_usage :: jdict
  run_error :: json
  native_metadata :: jdict
  session_id :: "string option"
  turn_id :: "string option"
  parent_run_id :: "string option"
  terminal_observed :: bool
  run_error_kind :: "error_kind option"
  activities :: "activity list"

definition is_terminal :: "run_result \<Rightarrow> bool" where
  "is_terminal r \<longleftrightarrow> status r \<in> set TERMINAL_STATUSES"

definition result_to_dict :: "run_result \<Rightarrow> jdict" where
  "result_to_dict r = [(''run_id'', JStr (run_id r)), (''session_id'', str_or_null (session_id r)),
     (''turn_id'', str_or_null (turn_id r)), (''parent_run_id'', str_or_null (parent_run_id r)),
     (''status'', JStr (status r)), (''output'', JStr (run_output r)), (''usage'', JDict (run_usage r)),
     (''error'', run_error r), (''error_kind'', str_or_null (map_option kind_value (run_error_kind r))),
     (''terminal_observed'', JBool (terminal_observed r)),
     (''activities'', JList (map (JDict \<circ> activity_to_dict) (activities r))),
     (''native_metadata'', JDict (native_metadata r))]"

definition apply_cleanup_outcome :: "run_result \<Rightarrow> string option \<Rightarrow> run_result" where
  "apply_cleanup_outcome r cleanup_error =
     (let err = (case cleanup_error of None \<Rightarrow> '''' | Some e \<Rightarrow> e)
      in if terminal_observed r
         then (if err \<noteq> '''' then r\<lparr>native_metadata := dict_set ''cleanup_error_ignored'' (JStr err) (native_metadata r)\<rparr>
               else r)
         else if err \<noteq> ''''
         then r\<lparr>status := ''failed'', run_error := (if truthy (run_error r) then run_error r else JStr err),
                run_error_kind := (case run_error_kind r of None \<Rightarrow> Some EXECUTION | k \<Rightarrow> k)\<rparr>
         else r)"

section \<open>Capabilities\<close>

record harness_caps =
  streaming :: bool
  resume_ok :: bool
  cancel_ok :: bool
  tool_calls :: bool
  workspace_ok :: bool
  diff_ok :: bool
  tool_activity :: bool
  session_ok :: bool
  turn_identity :: bool

definition caps_dict :: "harness_caps \<Rightarrow> (string \<times> bool) list" where
  "caps_dict c = [(''streaming'', streaming c), (''resume'', resume_ok c), (''cancel'', cancel_ok c),
     (''tool_calls'', tool_calls c), (''workspace'', workspace_ok c), (''diff'', diff_ok c)]"

definition lifecycle_matrix :: "harness_caps \<Rightarrow> (string \<times> bool) list" where
  "lifecycle_matrix c = [(''run'', True), (''stream'', streaming c), (''status'', True), (''cancel'', cancel_ok c),
     (''resume'', resume_ok c)]"

definition supports_activity :: "harness_caps \<Rightarrow> activity_kind arg \<Rightarrow> value_error + bool" where
  "supports_activity c k = bindE (coerce_activity k) (\<lambda>k.
     Inr (k \<in> {MESSAGE, TERMINAL, STATUS} \<or> tool_activity c))"

section \<open>Facts\<close>

lemma alias_values: "dict_get STATUS_ALIASES k = Some v \<Longrightarrow> v \<in> set RESULT_STATUSES"
  by (auto simp: STATUS_ALIASES_def RESULT_STATUSES_def split: if_splits)

text \<open>The matrix is a lifecycle of the provider layer: constructing a spec with it keeps it as it is.\<close>

lemma lifecycle_matrix_kept:
  "lifecycle_flags (map (\<lambda>(op, b). (op, JBool b)) (lifecycle_matrix c)) = lifecycle_matrix c"
  by (rule lifecycle_again) (simp add: lifecycle_matrix_def LIFECYCLE_OPS_def)

text \<open>What a request passes on never depends on its environment or metadata.\<close>

lemma kwargs_drop_env: "to_kwargs (q\<lparr>req_env := e, req_metadata := m\<rparr>) = to_kwargs q"
  by (simp add: to_kwargs_def)

lemma cleanup_terminal:
  "terminal_observed r \<Longrightarrow> \<exists>m. apply_cleanup_outcome r e = r\<lparr>native_metadata := m\<rparr>"
  by (auto simp: apply_cleanup_outcome_def Let_def intro: exI [of _ "native_metadata r"])

lemma cleanups_terminal:
  "terminal_observed r \<Longrightarrow> \<exists>m. foldl apply_cleanup_outcome r es = r\<lparr>native_metadata := m\<rparr>"
proof (induction es arbitrary: r)
  case Nil
  then show ?case by (auto intro: exI [of _ "native_metadata r"])
next
  case (Cons e es)
  obtain m where m: "apply_cleanup_outcome r e = r\<lparr>native_metadata := m\<rparr>" using cleanup_terminal [OF Cons.prems] by blast
  with Cons.IH [of "r\<lparr>native_metadata := m\<rparr>"] Cons.prems show ?case by auto
qed

lemma cleanup_fails_closed:
  "\<not> terminal_observed r \<Longrightarrow> e \<noteq> '''' \<Longrightarrow>
     status (apply_cleanup_outcome r (Some e)) = ''failed'' \<and> truthy (run_error (apply_cleanup_outcome r (Some e)))
     \<and> run_error_kind (apply_cleanup_outcome r (Some e)) \<noteq> None"
  by (auto simp: apply_cleanup_outcome_def Let_def split: option.split)

lemma failed_stays: "status r = ''failed'' \<Longrightarrow> status (apply_cleanup_outcome r e) = ''failed''"
  by (simp add: apply_cleanup_outcome_def Let_def)

lemma cleanup_flag: "terminal_observed (apply_cleanup_outcome r e) = terminal_observed r"
  by (simp add: apply_cleanup_outcome_def Let_def)

section \<open>Properties\<close>

text \<open>
  Cleanup never re-judges: once the upstream end was observed, any number of cleanup outcomes
  changes nothing but the native metadata; before that, one cleanup error makes the result failed,
  with an error and an error kind, and it stays failed.
\<close>

theorem cleanup_never_rejudges:
  "if terminal_observed r
   then \<exists>m. foldl apply_cleanup_outcome r es = r\<lparr>native_metadata := m\<rparr>
   else status (foldl apply_cleanup_outcome r es) = ''failed'' \<or>
        ((\<forall>e \<in> set es. e = None \<or> e = Some '''') \<and> foldl apply_cleanup_outcome r es = r)"
proof (cases "terminal_observed r")
  case True
  then show ?thesis using cleanups_terminal by simp
next
  case False
  have "status (foldl apply_cleanup_outcome q es) = ''failed'' \<or>
      ((\<forall>e \<in> set es. e = None \<or> e = Some '''') \<and> foldl apply_cleanup_outcome q es = q)"
    if "\<not> terminal_observed q" for q
    using that
  proof (induction es arbitrary: q)
    case (Cons e es)
    show ?case
    proof (cases "e = None \<or> e = Some ''''")
      case True
      then have "apply_cleanup_outcome q e = q" by (auto simp: apply_cleanup_outcome_def)
      then show ?thesis using Cons.IH [OF Cons.prems] True by simp
    next
      case False
      then obtain x where "e = Some x" "x \<noteq> ''''" by (cases e) auto
      then have "status (apply_cleanup_outcome q e) = ''failed''" using cleanup_fails_closed [OF Cons.prems] by simp
      moreover have "status (foldl apply_cleanup_outcome p es) = ''failed''" if "status p = ''failed''" for p
        using that by (induction es arbitrary: p) (auto simp: failed_stays)
      ultimately show ?thesis by simp
    qed
  qed simp
  with False show ?thesis by simp
qed

text \<open>
  Statuses are normalised fail-closed: the result is always one of the five canonical statuses,
  and it is completed only for a text that is an alias of it, or when the caller asked for that
  default.
\<close>

theorem normalize_fails_closed:
  "normalize_status v d \<in> set RESULT_STATUSES
   \<and> (normalize_status v d = ''completed'' \<longrightarrow> d = ''completed'' \<or>
        (\<exists>s. v = Some s \<and> folded s \<in> {''ok'', ''success'', ''succeeded'', ''done'', ''completed''}))"
proof -
  have "k \<in> {''ok'', ''success'', ''succeeded'', ''done'', ''completed''}" if "dict_get STATUS_ALIASES k = Some ''completed''" for k
    using that by (auto simp: STATUS_ALIASES_def split: if_splits)
  moreover have "''failed'' \<in> set RESULT_STATUSES" by (simp add: RESULT_STATUSES_def)
  ultimately show ?thesis
    using alias_values by (auto simp: normalize_status_def bind_eq_Some_conv split: option.splits)
qed

theorem normalize_fails_closed_witness:
  "normalize_status (Some '' OK'') ''failed'' = ''completed'' \<and> normalize_status (Some ''weird'') ''maybe'' = ''failed''
   \<and> normalize_status None ''partial'' \<in> set RESULT_STATUSES"
proof -
  have "normalize_status (Some '' OK'') ''failed'' = ''completed''" "normalize_status (Some ''weird'') ''maybe'' = ''failed''"
    by code_simp+
  with normalize_fails_closed [of None "''partial''"] show ?thesis by blast
qed

definition ex_result :: run_result where
  "ex_result = \<lparr>run_id = ''r'', status = ''completed'', run_output = ''o'', run_usage = [], run_error = JNull, native_metadata = [],
     session_id = None, turn_id = None, parent_run_id = None, terminal_observed = True, run_error_kind = None,
     activities = []\<rparr>"

theorem cleanup_never_rejudges_witness:
  "\<exists>m. foldl apply_cleanup_outcome ex_result [Some ''x'', None, Some ''y''] = ex_result\<lparr>native_metadata := m\<rparr>"
  using cleanup_never_rejudges [of ex_result "[Some ''x'', None, Some ''y'']"] by (simp add: ex_result_def)

end
