(* ===== verification/ProviderRegistry.thy ===== *)
theory ProviderRegistry
  imports ProviderRouting
begin

text \<open>
  The provider registry of \<^verbatim>\<open>obase/provider_registry.py\<close>: tables of callables by category and name,
  capability metadata and provider specs. The registry is the class-level state; a caller is any
  value. Entry points arrive as a list of names with what loading them gives.
\<close>

section \<open>Tables\<close>

datatype registry_error =
    Conflict string string
  | Not_found string string
  | No_callable
  | Load_failed string

definition put_name :: "string \<Rightarrow> string \<Rightarrow> 'c \<Rightarrow> bool \<Rightarrow> (string, 'c) dict \<Rightarrow> registry_error + (string, 'c) dict" where
  "put_name cat name c replace d =
     (if \<not> replace \<and> dict_get d name \<noteq> None then Inl (Conflict cat name) else Inr (dict_set name c d))"

text \<open>A missing name falls back to the entry called default.\<close>

definition get_name :: "string \<Rightarrow> string \<Rightarrow> (string, 'c) dict \<Rightarrow> registry_error + 'c" where
  "get_name cat name d =
     (case dict_get d name of
        Some c \<Rightarrow> Inr c
      | None \<Rightarrow> (case dict_get d ''default'' of
                   Some c \<Rightarrow> if name \<noteq> ''default'' then Inr c else Inl (Not_found cat name)
                 | None \<Rightarrow> Inl (Not_found cat name)))"

record 'c registry =
  llms :: "(string, 'c) dict"
  vlms :: "(string, 'c) dict"
  images :: "(string, 'c) dict"
  generics :: "(string, (string, 'c) dict) dict"
  capabilities_of :: "(string, jdict) dict"
  specs :: "(string, provider_spec) dict"

definition empty_registry :: "'c registry" where
  "empty_registry = \<lparr>llms = [], vlms = [], images = [], generics = [], capabilities_of = [], specs = []\<rparr>"

definition clear :: "'c registry \<Rightarrow> 'c registry" where
  "clear r = empty_registry"

section \<open>Registration\<close>

definition register_llm :: "string \<Rightarrow> 'c \<Rightarrow> bool \<Rightarrow> 'c registry \<Rightarrow> registry_error + 'c registry" where
  "register_llm name c replace r = bindE (put_name ''llm'' name c replace (llms r)) (\<lambda>d. Inr (r\<lparr>llms := d\<rparr>))"

definition register_vlm :: "string \<Rightarrow> 'c \<Rightarrow> bool \<Rightarrow> 'c registry \<Rightarrow> registry_error + 'c registry" where
  "register_vlm name c replace r = bindE (put_name ''vlm'' name c replace (vlms r)) (\<lambda>d. Inr (r\<lparr>vlms := d\<rparr>))"

definition register_image_gen :: "string \<Rightarrow> 'c \<Rightarrow> bool \<Rightarrow> 'c registry \<Rightarrow> registry_error + 'c registry" where
  "register_image_gen name c replace r =
     bindE (put_name ''image_gen'' name c replace (images r)) (\<lambda>d. Inr (r\<lparr>images := d\<rparr>))"

definition generic_table :: "string \<Rightarrow> 'c registry \<Rightarrow> (string, 'c) dict" where
  "generic_table cat r = (case dict_get (generics r) cat of None \<Rightarrow> [] | Some d \<Rightarrow> d)"

definition register_generic :: "string \<Rightarrow> string \<Rightarrow> 'c \<Rightarrow> bool \<Rightarrow> 'c registry \<Rightarrow> registry_error + 'c registry" where
  "register_generic cat name c replace r =
     bindE (put_name cat name c replace (generic_table cat r))
       (\<lambda>d. Inr (r\<lparr>generics := dict_set cat d (generics r)\<rparr>))"

definition register :: "string \<Rightarrow> string \<Rightarrow> 'c option \<Rightarrow> 'c option \<Rightarrow> bool \<Rightarrow> 'c registry \<Rightarrow>
    registry_error + 'c registry" where
  "register cat name caller fn replace r =
     (case (if caller = None then fn else caller) of
        None \<Rightarrow> Inl No_callable
      | Some c \<Rightarrow>
          if cat = ''llm'' then register_llm name c replace r
          else if cat = ''vlm'' then register_vlm name c replace r
          else if cat = ''image_gen'' then register_image_gen name c replace r
          else register_generic cat name c replace r)"

definition register_with_capability :: "string \<Rightarrow> 'c \<Rightarrow> jdict \<Rightarrow> 'c registry \<Rightarrow> 'c registry" where
  "register_with_capability name c caps r =
     r\<lparr>llms := dict_set name c (llms r), capabilities_of := dict_set name caps (capabilities_of r)\<rparr>"

definition register_spec :: "provider_spec \<Rightarrow> bool \<Rightarrow> 'c registry \<Rightarrow> registry_error + 'c registry" where
  "register_spec s replace r = bindE (put_name ''spec'' (s_name s) s replace (specs r)) (\<lambda>d. Inr (r\<lparr>specs := d\<rparr>))"

text \<open>
  \<open>auto_discover\<close>: names without a dot are skipped, a failing load or a taken name stops the loop and
  keeps what was registered before.
\<close>

fun auto_discover :: "(string \<times> (unit + 'c)) list \<Rightarrow> 'c registry \<Rightarrow> 'c registry \<times> registry_error option" where
  "auto_discover [] r = (r, None)"
| "auto_discover ((nm, loaded) # eps) r =
     (if CHR ''.'' \<notin> set nm then auto_discover eps r
      else (case loaded of
              Inl _ \<Rightarrow> (r, Some (Load_failed nm))
            | Inr c \<Rightarrow>
                (case register (takeWhile (\<lambda>c. c \<noteq> CHR ''.'') nm) (tl (dropWhile (\<lambda>c. c \<noteq> CHR ''.'') nm))
                        (Some c) None False r of
                   Inl e \<Rightarrow> (r, Some e)
                 | Inr r' \<Rightarrow> auto_discover eps r')))"

section \<open>Lookups\<close>

definition llm :: "string \<Rightarrow> 'c registry \<Rightarrow> registry_error + 'c" where
  "llm name r = get_name ''llm'' name (llms r)"

definition vlm :: "string \<Rightarrow> 'c registry \<Rightarrow> registry_error + 'c" where
  "vlm name r = get_name ''vlm'' name (vlms r)"

definition image_gen :: "string \<Rightarrow> 'c registry \<Rightarrow> registry_error + 'c" where
  "image_gen name r = get_name ''image_gen'' name (images r)"

definition generic :: "string \<Rightarrow> string \<Rightarrow> 'c registry \<Rightarrow> registry_error + 'c" where
  "generic cat name r = get_name cat name (generic_table cat r)"

text \<open>An empty built-in table counts as absent.\<close>

definition builtin :: "'c registry \<Rightarrow> (string, (string, 'c) dict) dict" where
  "builtin r = [(''llm'', llms r), (''vlm'', vlms r), (''image_gen'', images r)]"

definition has :: "string \<Rightarrow> string \<Rightarrow> 'c registry \<Rightarrow> bool" where
  "has cat name r =
     (dict_get (case dict_get (builtin r) cat of
                  None \<Rightarrow> generic_table cat r
                | Some d \<Rightarrow> if d = [] then generic_table cat r else d) name \<noteq> None)"

definition list_providers :: "string option \<Rightarrow> 'c registry \<Rightarrow> (string \<times> string) list" where
  "list_providers cat r =
     concat (map (\<lambda>(c, d). if cat = None \<or> cat = Some c then map (\<lambda>(n, _). (c, n)) d else [])
       (builtin r @ generics r))"

definition capabilities :: "string option \<Rightarrow> 'c registry \<Rightarrow> (string, jdict) dict + jdict" where
  "capabilities name r = (case name of None \<Rightarrow> Inl (capabilities_of r)
     | Some n \<Rightarrow> Inr (case dict_get (capabilities_of r) n of None \<Rightarrow> [] | Some c \<Rightarrow> c))"

definition spec :: "string \<Rightarrow> 'c registry \<Rightarrow> registry_error + provider_spec" where
  "spec name r = (case dict_get (specs r) name of None \<Rightarrow> Inl (Not_found ''spec'' name) | Some s \<Rightarrow> Inr s)"

definition list_specs :: "family_arg option \<Rightarrow> string option \<Rightarrow> bool \<Rightarrow> 'c registry \<Rightarrow> spec_error + provider_spec list" where
  "list_specs fam cap available_only r =
     (case (case fam of None \<Rightarrow> Inr None | Some a \<Rightarrow> bindE (coerce_family a) (\<lambda>f. Inr (Some f))) of
        Inl e \<Rightarrow> Inl e
      | Inr family \<Rightarrow> Inr (filter (\<lambda>s.
            (case family of None \<Rightarrow> True | Some f \<Rightarrow> protocol s = f)
            \<and> (case cap of None \<Rightarrow> True | Some c \<Rightarrow> c |\<in>| s_capabilities s)
            \<and> (available_only \<longrightarrow> available s)) (map snd (specs r))))"

text \<open>
  \<open>get_caller\<close> adapts a caller for synchronous use: an awaitable is run to its end, unless an event
  loop is running, which is an error.
\<close>

datatype 'v called = Value 'v | Awaitable 'v

datatype caller_error = In_event_loop | No_provider registry_error

definition get_caller :: "bool \<Rightarrow> ('c \<Rightarrow> 'k \<Rightarrow> 'v called) \<Rightarrow> string \<Rightarrow> 'c registry \<Rightarrow> 'k \<Rightarrow> caller_error + 'v" where
  "get_caller loop_running call provider r kwargs =
     (case llm (if provider = '''' then ''default'' else provider) r of
        Inl e \<Rightarrow> Inl (No_provider e)
      | Inr c \<Rightarrow> (case call c kwargs of
            Value v \<Rightarrow> Inr v
          | Awaitable v \<Rightarrow> if loop_running then Inl In_event_loop else Inr v))"

section \<open>The contract of a name table\<close>

text \<open>
  What every registration promises: it fails exactly on a taken name without \<open>replace\<close>, and changes
  only the registered name.
\<close>

locale name_table =
  fixes reg :: "'n \<Rightarrow> 'c \<Rightarrow> bool \<Rightarrow> 's \<Rightarrow> 'e + 's"
    and look :: "'s \<Rightarrow> 'n \<Rightarrow> 'c option"
  assumes reg_fails: "(\<exists>e. reg n c rep s = Inl e) \<longleftrightarrow> \<not> rep \<and> look s n \<noteq> None"
    and reg_sets: "reg n c rep s = Inr s' \<Longrightarrow> look s' = (look s)(n := Some c)"
begin

definition attempt :: "'s \<Rightarrow> 'n \<times> 'c \<times> bool \<Rightarrow> 's" where
  "attempt s q = (case q of (n, c, rep) \<Rightarrow> (case reg n c rep s of Inl _ \<Rightarrow> s | Inr s' \<Rightarrow> s'))"

definition abstract :: "('n \<Rightarrow> 'c option) \<Rightarrow> 'n \<times> 'c \<times> bool \<Rightarrow> ('n \<Rightarrow> 'c option)" where
  "abstract m q = (case q of (n, c, rep) \<Rightarrow> if rep \<or> m n = None then m(n := Some c) else m)"

lemma attempt_refines: "look (attempt s q) = abstract (look s) q"
proof -
  obtain n c rep where q: "q = (n, c, rep)" by (cases q)
  show ?thesis
    using reg_fails [of n c rep s] reg_sets [of n c rep s]
    by (cases "reg n c rep s") (auto simp: attempt_def abstract_def q)
qed

lemma attempts_refine: "look (foldl attempt s qs) = foldl abstract (look s) qs"
  by (induction qs arbitrary: s) (auto simp: attempt_refines)

lemma abstract_stable:
  "m n = Some c \<Longrightarrow> \<forall>(n', c', rep) \<in> set qs. n' = n \<longrightarrow> \<not> rep \<Longrightarrow> foldl abstract m qs n = Some c"
proof (induction qs arbitrary: m)
  case (Cons q qs)
  from Cons.prems have "abstract m q n = Some c" by (auto simp: abstract_def split: prod.splits if_splits)
  with Cons show ?case by simp
qed simp

lemma first_registration_stays:
  "look s n = Some c \<Longrightarrow> \<forall>(n', c', rep) \<in> set qs. n' = n \<longrightarrow> \<not> rep \<Longrightarrow> look (foldl attempt s qs) n = Some c"
  by (simp add: attempts_refine abstract_stable)

end

lemma put_name_facts:
  "(\<exists>e. put_name cat n c rep d = Inl e) \<longleftrightarrow> \<not> rep \<and> dict_get d n \<noteq> None"
  "put_name cat n c rep d = Inr d' \<Longrightarrow> dict_get d' = (dict_get d)(n := Some c)"
  by (auto simp: put_name_def update_conv' split: if_splits)

interpretation llm_table: name_table register_llm "\<lambda>r. dict_get (llms r)"
  by unfold_locales (auto simp: register_llm_def bindE_def put_name_def update_conv' split: sum.splits if_splits)

interpretation vlm_table: name_table register_vlm "\<lambda>r. dict_get (vlms r)"
  by unfold_locales (auto simp: register_vlm_def bindE_def put_name_def update_conv' split: sum.splits if_splits)

interpretation image_table: name_table register_image_gen "\<lambda>r. dict_get (images r)"
  by unfold_locales (auto simp: register_image_gen_def bindE_def put_name_def update_conv' split: sum.splits if_splits)


text \<open>The class-level tables, by category and name.\<close>

definition table :: "'c registry \<Rightarrow> string \<times> string \<Rightarrow> 'c option" where
  "table r q = (case dict_get (builtin r) (fst q) of
       Some d \<Rightarrow> dict_get d (snd q) | None \<Rightarrow> dict_get (generic_table (fst q) r) (snd q))"

definition register_at :: "string \<times> string \<Rightarrow> 'c \<Rightarrow> bool \<Rightarrow> 'c registry \<Rightarrow> registry_error + 'c registry" where
  "register_at q c rep r = register (fst q) (snd q) (Some c) None rep r"

lemma register_cases:
  "register cat n (Some c) None rep r =
     (if cat = ''llm'' then register_llm n c rep r else if cat = ''vlm'' then register_vlm n c rep r
      else if cat = ''image_gen'' then register_image_gen n c rep r else register_generic cat n c rep r)"
  by (simp add: register_def)

lemmas register_unfold = register_llm_def register_vlm_def register_image_gen_def register_generic_def put_name_def

lemma table_after:
  "register_llm n c rep r = Inr r' \<Longrightarrow> table r' = (table r)((''llm'', n) := Some c)"
  "register_vlm n c rep r = Inr r' \<Longrightarrow> table r' = (table r)((''vlm'', n) := Some c)"
  "register_image_gen n c rep r = Inr r' \<Longrightarrow> table r' = (table r)((''image_gen'', n) := Some c)"
  "register_generic cat n c rep r = Inr r' \<Longrightarrow> cat \<notin> {''llm'', ''vlm'', ''image_gen''}
     \<Longrightarrow> table r' = (table r)((cat, n) := Some c)"
  by (auto simp: register_unfold bindE_Inr table_def builtin_def generic_table_def update_conv' fun_eq_iff
      split: if_splits)

lemma register_fails:
  "(\<exists>e. register cat n (Some c) None rep r = Inl e) \<longleftrightarrow> \<not> rep \<and> table r (cat, n) \<noteq> None"
  by (simp add: register_cases register_unfold table_def builtin_def bindE_def split: if_split)

interpretation registry_table: name_table register_at table
proof
  fix q :: "string \<times> string" and c :: 'c and rep :: bool and s :: "'c registry"
  show "(\<exists>e. register_at q c rep s = Inl e) \<longleftrightarrow> \<not> rep \<and> table s q \<noteq> None"
    using register_fails [of "fst q" "snd q" c rep s] by (simp add: register_at_def)
  show "table s' = (table s)(q := Some c)" if "register_at q c rep s = Inr s'" for s'
    using that by (cases q) (auto simp: register_at_def register_cases dest: table_after split: if_splits)
qed

section \<open>Lookups against the tables\<close>

definition lookup :: "string \<Rightarrow> string \<Rightarrow> 'c registry \<Rightarrow> registry_error + 'c" where
  "lookup cat n r = (if cat = ''llm'' then llm n r else if cat = ''vlm'' then vlm n r
     else if cat = ''image_gen'' then image_gen n r else generic cat n r)"

lemma lookup_table: "lookup cat n r = (case table r (cat, n) of Some c \<Rightarrow> Inr c
    | None \<Rightarrow> (case table r (cat, ''default'') of Some c \<Rightarrow> Inr c | None \<Rightarrow> Inl (Not_found cat n)))"
  by (auto simp: lookup_def llm_def vlm_def image_gen_def generic_def get_name_def table_def builtin_def
      split: option.splits)

text \<open>The generic tables hold no built-in category; that is so as long as \<open>register\<close> is used.\<close>

definition separate :: "'c registry \<Rightarrow> bool" where
  "separate r \<longleftrightarrow> (\<forall>cat \<in> {''llm'', ''vlm'', ''image_gen''}. dict_get (generics r) cat = None)"

lemma separate_register: "separate r \<Longrightarrow> register cat n caller fn rep r = Inr r' \<Longrightarrow> separate r'"
  by (auto simp: separate_def register_def register_unfold bindE_Inr update_conv' split: if_splits option.splits)

lemma separate_empty: "separate empty_registry"
  by (simp add: separate_def empty_registry_def)

lemma has_table: "separate r \<Longrightarrow> has cat n r \<longleftrightarrow> table r (cat, n) \<noteq> None"
  by (auto simp: has_def table_def builtin_def separate_def generic_table_def split: if_splits)

section \<open>Properties\<close>

text \<open>
  C22. Registration through the class refines a plain table per category and name in which the first
  caller wins unless a later one replaces it: after any sequence of requests, failed ones included,
  a lookup answers exactly what that table holds under the name, or else under the default name.
\<close>

theorem registry_refines_first_wins:
  fixes r :: "'c registry"
  shows
  "lookup cat n (foldl registry_table.attempt r qs)
     = (let m = foldl (\<lambda>m (q, c, rep). if rep \<or> m q = None then m(q := Some c) else m) (table r) qs
        in case m (cat, n) of Some c \<Rightarrow> Inr c
           | None \<Rightarrow> (case m (cat, ''default'') of Some c \<Rightarrow> Inr c | None \<Rightarrow> Inl (Not_found cat n)))"
proof -
  have "registry_table.abstract = (\<lambda>(m :: string \<times> string \<Rightarrow> 'c option) (q, c, rep). if rep \<or> m q = None then m(q := Some c) else m)"
    by (intro ext) (simp add: registry_table.abstract_def)
  then show ?thesis by (simp only: lookup_table Let_def registry_table.attempts_refine)
qed

lemma attempt_separate: "separate r \<Longrightarrow> separate (registry_table.attempt r q)"
  using separate_register
  by (auto simp: registry_table.attempt_def register_at_def split: prod.splits sum.splits)

lemma attempts_separate: "separate r \<Longrightarrow> separate (foldl registry_table.attempt r qs)"
  by (induction qs arbitrary: r) (auto simp: attempt_separate)

text \<open>
  What the registry says it has, it finds: after any registrations through the class, \<open>has\<close> tells
  exactly the names with an entry of their own, and the lookup of such a name answers that entry.
\<close>

theorem has_means_found:
  "has cat n (foldl registry_table.attempt empty_registry qs)
   \<longleftrightarrow> (\<exists>c. table (foldl registry_table.attempt empty_registry qs) (cat, n) = Some c
         \<and> lookup cat n (foldl registry_table.attempt empty_registry qs) = Inr c)"
  using has_table [OF attempts_separate [OF separate_empty]] by (auto simp: lookup_table)

text \<open>A name it has not may still be found, through the default entry.\<close>

lemma default_found_not_had:
  "(case register ''llm'' ''default'' (Some ()) None False empty_registry of Inl _ \<Rightarrow> False
    | Inr r \<Rightarrow> \<not> has ''llm'' ''m'' r \<and> lookup ''llm'' ''m'' r = Inr ())"
  by code_simp

text \<open>With an empty built-in table, \<open>has\<close> reads a generic table of the same category, the lookup does not.\<close>

lemma has_reads_generic:
  "(case register_generic ''llm'' ''m'' () False empty_registry of Inl _ \<Rightarrow> False
    | Inr r \<Rightarrow> has ''llm'' ''m'' r \<and> lookup ''llm'' ''m'' r = Inl (Not_found ''llm'' ''m''))"
  by code_simp

text \<open>Registering with capabilities replaces a caller without being asked to.\<close>

lemma with_capability_replaces:
  "dict_get (llms (register_with_capability n c caps r)) n = Some c"
  by (simp add: register_with_capability_def update_conv')

end
