(* ===== verification/HarnessAdapter.thy ===== *)
theory HarnessAdapter
  imports HarnessValues ProviderRegistry
begin

text \<open>
  The command line adapters of \<^verbatim>\<open>obase/harness_adapter.py\<close>: the three tools' argument vectors and
  output parsers, the life of one process run against a concurrent cancellation, resuming, activity
  streams, and registration with discovery through the provider registry. Reading JSON text and
  showing a JSON value as text are parameters, and so is what the operating system does.
\<close>

section \<open>Tools\<close>

record kwargs =
  k_cwd :: "string option"
  k_session :: "string option"
  k_timeout :: "rat option"
  k_max_turns :: "int option"
  k_model :: "string option"

record json_reader =
  loads :: "string \<Rightarrow> json option"
  show_json :: "json \<Rightarrow> string"

type_synonym parsed = "decode_error + (string \<times> jdict \<times> json)"

record tool =
  binary :: string
  adapter_name :: string
  caps :: harness_caps
  build_run :: "string \<Rightarrow> kwargs \<Rightarrow> string list"
  build_resume :: "string \<Rightarrow> string \<Rightarrow> string list"
  parse_output :: "string \<Rightarrow> string \<Rightarrow> int \<Rightarrow> parsed"
  extract_session :: "string \<Rightarrow> string option"

definition given_text :: "string option \<Rightarrow> string option" where
  "given_text s = (case s of None \<Rightarrow> None | Some t \<Rightarrow> if t = '''' then None else Some t)"

definition exit_error :: "string \<Rightarrow> int \<Rightarrow> string" where
  "exit_error stderr rc = (if strip stderr = '''' then ''exit='' @ str_int rc else strip stderr)"

definition default_parse :: "string \<Rightarrow> string \<Rightarrow> int \<Rightarrow> parsed" where
  "default_parse stdout stderr rc =
     (if rc = 0 then Inr (strip stdout, [], JNull) else Inr ('''', [], JStr (exit_error stderr rc)))"

definition cli_caps :: "bool \<Rightarrow> harness_caps" where
  "cli_caps stream = \<lparr>streaming = stream, resume_ok = True, cancel_ok = True, tool_calls = True, workspace_ok = True,
     diff_ok = False, tool_activity = False, session_ok = True, turn_identity = False\<rparr>"

definition codex_run :: "string \<Rightarrow> string \<Rightarrow> kwargs \<Rightarrow> string list" where
  "codex_run b pr k = [b, ''exec'', ''--skip-git-repo-check'']
     @ (case given_text (k_cwd k) of None \<Rightarrow> [] | Some d \<Rightarrow> [''-C'', d]) @ [pr]"

definition codex_resume :: "string \<Rightarrow> string \<Rightarrow> string \<Rightarrow> string list" where
  "codex_resume b session pr = [b, ''exec'', ''resume'', session, pr]"

definition codex :: "string \<Rightarrow> tool" where
  "codex b = \<lparr>binary = b, adapter_name = ''codex'', caps = cli_caps False, build_run = codex_run b,
     build_resume = codex_resume b, parse_output = default_parse, extract_session = (\<lambda>_. None)\<rparr>"

definition claude_run :: "string \<Rightarrow> string \<Rightarrow> kwargs \<Rightarrow> string list" where
  "claude_run b pr k = [b, ''-p'', pr, ''--output-format'', ''json'']
     @ (case k_max_turns k of None \<Rightarrow> [] | Some n \<Rightarrow> [''--max-turns'', str_int n])"

definition claude_resume :: "string \<Rightarrow> string \<Rightarrow> string \<Rightarrow> string list" where
  "claude_resume b session pr = [b, ''--resume'', session, ''-p'', pr, ''--output-format'', ''json'']"

definition text_of :: "json_reader \<Rightarrow> json \<Rightarrow> string" where
  "text_of R j = (case j of JStr s \<Rightarrow> s | _ \<Rightarrow> show_json R j)"

definition get_or :: "string \<Rightarrow> json \<Rightarrow> jdict \<Rightarrow> json" where
  "get_or k dflt d = (case dict_get d k of None \<Rightarrow> dflt | Some j \<Rightarrow> j)"

text \<open>\<open>dict(x or {})\<close>: a value that is true but no mapping raises.\<close>

definition dict_or_empty :: "json \<Rightarrow> decode_error + jdict" where
  "dict_or_empty j = (if truthy j then as_dict j else Inr [])"

definition claude_parse :: "json_reader \<Rightarrow> string \<Rightarrow> string \<Rightarrow> int \<Rightarrow> parsed" where
  "claude_parse R stdout stderr rc =
     (if rc \<noteq> 0 then Inr ('''', [], JStr (exit_error stderr rc))
      else case loads R stdout of
        Some (JDict d) \<Rightarrow>
          if dict_get d ''type'' = Some (JStr ''result'')
          then bindE (dict_or_empty (get_or ''usage'' JNull d)) (\<lambda>u.
                 Inr (text_of R (get_or ''result'' (JStr '''') d), u, get_or ''error'' JNull d))
          else Inr (strip stdout, [], JNull)
      | _ \<Rightarrow> Inr (strip stdout, [], JNull))"

definition claude :: "json_reader \<Rightarrow> string \<Rightarrow> tool" where
  "claude R b = \<lparr>binary = b, adapter_name = ''claude-code'', caps = cli_caps False, build_run = claude_run b,
     build_resume = claude_resume b, parse_output = claude_parse R, extract_session = (\<lambda>_. None)\<rparr>"

definition opencode_run :: "string \<Rightarrow> string \<Rightarrow> kwargs \<Rightarrow> string list" where
  "opencode_run b pr k = [b, ''run'', pr, ''--format'', ''json'']
     @ (case given_text (k_model k) of None \<Rightarrow> [] | Some m \<Rightarrow> [''-m'', m])
     @ (case given_text (k_cwd k) of None \<Rightarrow> [] | Some d \<Rightarrow> [''--dir'', d])"

definition opencode_resume :: "string \<Rightarrow> string \<Rightarrow> string \<Rightarrow> string list" where
  "opencode_resume b session pr = [b, ''run'', ''-s'', session, pr, ''--format'', ''json'']"

text \<open>The events of an output: the lines that start with a brace and read as JSON.\<close>

definition events :: "json_reader \<Rightarrow> string \<Rightarrow> jdict list" where
  "events R stdout = List.map_filter (\<lambda>l. let l = strip l in
     if has_prefix l ''{'' then (case loads R l of Some (JDict d) \<Rightarrow> Some d | _ \<Rightarrow> None) else None)
     (split_lines [] stdout)"

definition opencode_session :: "json_reader \<Rightarrow> string \<Rightarrow> string option" where
  "opencode_session R stdout =
     (case List.map_filter (\<lambda>e. case dict_get e ''sessionID'' of Some (JStr s) \<Rightarrow> given_text (Some s) | _ \<Rightarrow> None)
             (events R stdout) of
        [] \<Rightarrow> None | s # _ \<Rightarrow> Some s)"

definition opencode_event :: "json_reader \<Rightarrow> jdict \<Rightarrow> string list \<times> jdict \<Rightarrow> string list \<times> jdict" where
  "opencode_event R e acc =
     (case (get_or ''type'' JNull e, get_or ''part'' (JDict []) e) of
        (JStr ty, JDict p) \<Rightarrow>
          if ty = ''text''
          then (if truthy (get_or ''text'' JNull p) then (fst acc @ [text_of R (get_or ''text'' JNull p)], snd acc) else acc)
          else if ty = ''step_finish''
          then (fst acc, [(''tokens'', (let t = get_or ''tokens'' JNull p in if truthy t then t else JDict [])),
                          (''cost'', get_or ''cost'' JNull p)])
          else acc
      | _ \<Rightarrow> acc)"

definition opencode_parse :: "json_reader \<Rightarrow> string \<Rightarrow> string \<Rightarrow> int \<Rightarrow> parsed" where
  "opencode_parse R stdout stderr rc =
     (if rc \<noteq> 0 then Inr ('''', [], JStr (exit_error stderr rc))
      else (let (texts, usage) = fold (opencode_event R) (events R stdout) ([], [])
            in if texts \<noteq> [] \<or> usage \<noteq> [] then Inr (strip (join_with (CHR 0x0A) texts), usage, JNull)
               else Inr (strip stdout, [], JNull)))"

definition opencode :: "json_reader \<Rightarrow> string \<Rightarrow> tool" where
  "opencode R b = \<lparr>binary = b, adapter_name = ''opencode'', caps = cli_caps True, build_run = opencode_run b,
     build_resume = opencode_resume b, parse_output = opencode_parse R, extract_session = opencode_session R\<rparr>"

section \<open>One run\<close>

record tracked =
  t_run_id :: string
  t_has_proc :: bool
  t_session :: "string option"
  t_status :: string
  t_started :: rat

definition new_tracked :: "string \<Rightarrow> rat \<Rightarrow> tracked" where
  "new_tracked rid now = \<lparr>t_run_id = rid, t_has_proc = False, t_session = None, t_status = ''running'', t_started = now\<rparr>"

definition blank_run :: "string \<Rightarrow> string \<Rightarrow> run_result" where
  "blank_run rid st = \<lparr>run_id = rid, status = st, run_output = '''', run_usage = [], run_error = JNull,
     native_metadata = [], session_id = None, turn_id = None, parent_run_id = None, terminal_observed = True,
     run_error_kind = None, activities = []\<rparr>"

definition argv_json :: "string list \<Rightarrow> json" where
  "argv_json argv = JList (map JStr argv)"

text \<open>The four ends of \<open>_spawn\<close>: no binary, the time limit, a marked cancellation, an exit.\<close>

definition end_missing :: "tool \<Rightarrow> string list \<Rightarrow> string \<Rightarrow> tracked \<Rightarrow> tracked \<times> run_result" where
  "end_missing T argv msg t = (t\<lparr>t_status := ''failed''\<rparr>,
     (blank_run (t_run_id t) ''failed'')\<lparr>run_error := JStr msg, run_error_kind := Some UNAVAILABLE,
       native_metadata := [(''binary'', JStr (binary T)), (''argv'', argv_json argv)]\<rparr>)"

definition end_timeout :: "tool \<Rightarrow> rat \<Rightarrow> tracked \<Rightarrow> tracked \<times> run_result" where
  "end_timeout T limit t = (t\<lparr>t_status := ''timeout''\<rparr>,
     (blank_run (t_run_id t) ''timeout'')\<lparr>run_error := JStr ''timeout'', run_error_kind := Some TIMEOUT,
       native_metadata := [(''binary'', JStr (binary T)), (''timeout_s'', JFloat limit)]\<rparr>)"

definition end_exit :: "tool \<Rightarrow> string list \<Rightarrow> string \<Rightarrow> string \<Rightarrow> int \<Rightarrow> rat \<Rightarrow> tracked \<Rightarrow>
    tracked \<times> (decode_error + run_result)" where
  "end_exit T argv stdout stderr rc now t =
     (if t_status t = ''cancelled''
      then (t, Inr ((blank_run (t_run_id t) ''cancelled'')\<lparr>run_error := JStr ''cancelled'', run_error_kind := Some CANCELLED,
              session_id := t_session t,
              native_metadata := [(''binary'', JStr (binary T)), (''returncode'', JInt rc)]\<rparr>))
      else case parse_output T stdout stderr rc of
        Inl e \<Rightarrow> (t, Inl e)
      | Inr (out, us, err) \<Rightarrow>
          (let t1 = t\<lparr>t_status := (if err = JNull then ''completed'' else ''failed''),
                      t_session := (case given_text (extract_session T stdout) of None \<Rightarrow> t_session t | s \<Rightarrow> s)\<rparr>;
               act = \<lparr>act_kind = TERMINAL, act_sequence = 0, act_run_id = t_run_id t,
                      act_payload = [(''status'', JStr (t_status t1)), (''returncode'', JInt rc)], act_session = t_session t1,
                      act_turn = None, act_timestamp = now, act_metadata = [], tool_name = None, tool_arguments = [],
                      tool_status = None, tool_result_ref = None\<rparr>
           in (t1, Inr ((blank_run (t_run_id t) (t_status t1))\<lparr>run_output := out, run_usage := us, run_error := err,
                 run_error_kind := (if err = JNull then None else Some (classify_process_error stderr rc)),
                 session_id := t_session t1, activities := [act],
                 native_metadata := [(''binary'', JStr (binary T)), (''argv'', argv_json argv), (''returncode'', JInt rc),
                   (''stderr_tail'', JStr (drop (length stderr - 2000) stderr)),
                   (''harness_session'', str_or_null (t_session t1))]\<rparr>))))"

text \<open>Starting a run or resuming a session: the argument vector, or the refusal.\<close>

definition run_argv :: "tool \<Rightarrow> string \<Rightarrow> kwargs \<Rightarrow> value_error + string list" where
  "run_argv T pr k = (if pr = '''' then Inl Empty_prompt else Inr (build_run T pr k))"

definition resume_session :: "kwargs \<Rightarrow> tracked option \<Rightarrow> string option" where
  "resume_session k t = (case given_text (k_session k) of Some s \<Rightarrow> Some s
     | None \<Rightarrow> (case t of None \<Rightarrow> None | Some t \<Rightarrow> given_text (t_session t)))"

definition resume_refused :: "tool \<Rightarrow> string \<Rightarrow> run_result" where
  "resume_refused T rid = (blank_run rid ''failed'')\<lparr>run_error := JStr ''no harness session recorded for resume'',
     run_error_kind := Some RESUME_REJECTED, parent_run_id := Some rid,
     native_metadata := [(''binary'', JStr (binary T))]\<rparr>"

definition resume_argv :: "tool \<Rightarrow> string \<Rightarrow> string \<Rightarrow> kwargs \<Rightarrow> tracked option \<Rightarrow> run_result + (string \<times> string list)" where
  "resume_argv T rid pr k t = (case resume_session k t of
       None \<Rightarrow> Inl (resume_refused T rid)
     | Some s \<Rightarrow> Inr (s, build_resume T s pr))"

definition resumed :: "string \<Rightarrow> string \<Rightarrow> run_result \<Rightarrow> run_result" where
  "resumed rid session r = r\<lparr>parent_run_id := Some rid, session_id := Some session\<rparr>"

definition run_info :: "string \<Rightarrow> tracked option \<Rightarrow> int option \<Rightarrow> jdict" where
  "run_info rid t code = (case t of
       None \<Rightarrow> [(''run_id'', JStr rid), (''run_status'', JStr ''unknown'')]
     | Some t \<Rightarrow> [(''run_id'', JStr rid), (''run_status'', JStr (t_status t)),
          (''harness_session'', str_or_null (t_session t)), (''exit_code'', int_or_null code)])"

section \<open>A run and a cancellation\<close>

text \<open>
  The process is started, has exited with output, or was killed. The canceller is idle, waits for
  the exit after its signal, or has answered. The run waits or has its result.
\<close>

datatype process = Running | Exited int string string

datatype canceller = Idle | Signalled | Answered bool

record life =
  proc :: process
  cancelling :: canceller
  track :: tracked
  result :: "(decode_error + run_result) option"

definition started :: "string \<Rightarrow> rat \<Rightarrow> life" where
  "started rid now = \<lparr>proc = Running, cancelling = Idle, track = (new_tracked rid now)\<lparr>t_has_proc := True\<rparr>, result = None\<rparr>"

definition finish :: "life \<Rightarrow> tracked \<times> (decode_error + run_result) \<Rightarrow> life" where
  "finish s tr = s\<lparr>track := fst tr, result := Some (snd tr)\<rparr>"

inductive step :: "tool \<Rightarrow> string list \<Rightarrow> rat \<Rightarrow> life \<Rightarrow> life \<Rightarrow> bool" for T argv limit where
  exit: "proc s = Running \<Longrightarrow> step T argv limit s (s\<lparr>proc := Exited rc out err\<rparr>)"
| collect: "result s = None \<Longrightarrow> proc s = Exited rc out err \<Longrightarrow>
     step T argv limit s (finish s (end_exit T argv out err rc now (track s)))"
| time_out: "result s = None \<Longrightarrow> step T argv limit s
     (finish s (case end_timeout T limit (track s) of (t, r) \<Rightarrow> (t, Inr r)))"
| signal: "cancelling s = Idle \<Longrightarrow> proc s = Running \<Longrightarrow> step T argv limit s (s\<lparr>cancelling := Signalled\<rparr>)"
| too_late: "cancelling s = Idle \<Longrightarrow> proc s \<noteq> Running \<Longrightarrow> step T argv limit s (s\<lparr>cancelling := Answered False\<rparr>)"
| mark: "cancelling s = Signalled \<Longrightarrow>
     step T argv limit s (s\<lparr>cancelling := Answered True, track := (track s)\<lparr>t_status := ''cancelled''\<rparr>\<rparr>)"
| gone: "cancelling s = Idle \<Longrightarrow> proc s = Running \<Longrightarrow> step T argv limit s (s\<lparr>cancelling := Answered False\<rparr>)"
| kill_fails: "cancelling s = Signalled \<Longrightarrow> step T argv limit s (s\<lparr>cancelling := Answered False\<rparr>)"

inductive steps :: "tool \<Rightarrow> string list \<Rightarrow> rat \<Rightarrow> life \<Rightarrow> life \<Rightarrow> bool" for T argv limit where
  stop: "steps T argv limit s s"
| more: "steps T argv limit s t \<Longrightarrow> step T argv limit t u \<Longrightarrow> steps T argv limit s u"

section \<open>Activity streams\<close>

definition plain_activity :: "activity_kind \<Rightarrow> int \<Rightarrow> jdict \<Rightarrow> rat \<Rightarrow> run_result \<Rightarrow> activity" where
  "plain_activity k n payload now r = \<lparr>act_kind = k, act_sequence = n, act_run_id = run_id r, act_payload = payload,
     act_session = session_id r, act_turn = None, act_timestamp = now, act_metadata = [], tool_name = None,
     tool_arguments = [], tool_status = None, tool_result_ref = None\<rparr>"

definition stream_activities :: "rat \<Rightarrow> run_result \<Rightarrow> activity list" where
  "stream_activities now r =
     (let n = (if run_output r \<noteq> '''' then 1 else 0)
      in (if run_output r \<noteq> '''' then [plain_activity MESSAGE 0 [(''text'', JStr (run_output r))] now r] else [])
         @ [plain_activity STATUS n [(''status'', JStr (status r)), (''error'', run_error r)] now r,
            plain_activity TERMINAL (n + 1) [(''status'', JStr (status r)), (''terminal_observed'', JBool True)] now r])"

definition stream_text :: "run_result \<Rightarrow> string list" where
  "stream_text r = (if run_output r \<noteq> '''' then [run_output r] else [])"

section \<open>Registration and discovery\<close>

definition HARNESS_CATEGORY :: string where
  "HARNESS_CATEGORY = ''harness''"

definition harness_tools :: "json_reader \<Rightarrow> tool list" where
  "harness_tools R = [codex ''codex'', claude R ''claude'', opencode R ''opencode'']"

fun register_all :: "('a \<Rightarrow> 'c) \<Rightarrow> ('a \<Rightarrow> string) \<Rightarrow> 'a list \<Rightarrow> 'c registry \<Rightarrow> registry_error + ('c registry \<times> string list)" where
  "register_all wrap nm [] r = Inr (r, [])"
| "register_all wrap nm (t # ts) r =
     bindE (register HARNESS_CATEGORY (nm t) (Some (wrap t)) None True r) (\<lambda>r.
     bindE (register_all wrap nm ts r) (\<lambda>(r, names). Inr (r, nm t # names)))"

definition register_harness_adapters :: "json_reader \<Rightarrow> (tool \<Rightarrow> 'c) \<Rightarrow> 'c registry \<Rightarrow>
    registry_error + ('c registry \<times> string list)" where
  "register_harness_adapters R wrap r = register_all wrap adapter_name (harness_tools R) r"

text \<open>\<open>caps_of\<close> reads the attribute of that name, if a registered object has one.\<close>

definition discover_harness_capabilities :: "('c \<Rightarrow> harness_caps option) \<Rightarrow> 'c registry \<Rightarrow>
    (string, (string \<times> bool) list) dict" where
  "discover_harness_capabilities caps_of r =
     fold (\<lambda>(cat, name) out.
         if cat \<noteq> HARNESS_CATEGORY then out
         else (case generic HARNESS_CATEGORY name r of
                 Inl _ \<Rightarrow> out
               | Inr a \<Rightarrow> (case caps_of a of None \<Rightarrow> out | Some c \<Rightarrow> dict_set name (caps_dict c) out)))
       (list_providers (Some HARNESS_CATEGORY) r) []"

lemma harness_table: "table r (HARNESS_CATEGORY, n) = dict_get (generic_table HARNESS_CATEGORY r) n"
  by (simp add: table_def builtin_def HARNESS_CATEGORY_def)

lemma listed:
  assumes "distinct (map fst (generics r))"
  shows "(c, n) \<in> set (list_providers (Some HARNESS_CATEGORY) r) \<longleftrightarrow> c = HARNESS_CATEGORY \<and> table r (HARNESS_CATEGORY, n) \<noteq> None"
proof -
  have "(c, n) \<in> set (list_providers (Some HARNESS_CATEGORY) r)
      \<longleftrightarrow> c = HARNESS_CATEGORY \<and> (\<exists>d. (HARNESS_CATEGORY, d) \<in> set (generics r) \<and> n \<in> fst ` set d)"
    by (force simp: list_providers_def builtin_def HARNESS_CATEGORY_def)
  also have "\<dots> \<longleftrightarrow> c = HARNESS_CATEGORY \<and> (\<exists>d. dict_get (generics r) HARNESS_CATEGORY = Some d \<and> n \<in> fst ` set d)"
    by (simp only: map_of_eq_Some_iff [OF assms] Some_eq_map_of_iff)
  also have "\<dots> \<longleftrightarrow> c = HARNESS_CATEGORY \<and> table r (HARNESS_CATEGORY, n) \<noteq> None"
  proof (cases "dict_get (generics r) HARNESS_CATEGORY")
    case None
    show ?thesis by (simp only: harness_table generic_table_def None) simp
  next
    case (Some d)
    show ?thesis by (simp only: harness_table generic_table_def Some) (simp add: map_of_eq_None_iff)
  qed
  finally show ?thesis .
qed

lemma discovered:
  assumes "distinct (map fst (generics r))"
  shows "dict_get (discover_harness_capabilities caps_of r) n
    = Option.bind (table r (HARNESS_CATEGORY, n)) (\<lambda>a. map_option caps_dict (caps_of a))"
proof -
  define val where "val n = (case generic HARNESS_CATEGORY n r of Inl _ \<Rightarrow> None | Inr a \<Rightarrow> map_option caps_dict (caps_of a))" for n
  let ?f = "\<lambda>(cat, name) out. if cat \<noteq> HARNESS_CATEGORY then out
         else (case generic HARNESS_CATEGORY name r of Inl _ \<Rightarrow> out
               | Inr a \<Rightarrow> (case caps_of a of None \<Rightarrow> out | Some c \<Rightarrow> dict_set name (caps_dict c) out))"
  have one: "dict_get (?f (c, m) out) n = (if c = HARNESS_CATEGORY \<and> m = n \<and> val n \<noteq> None then val n else dict_get out n)"
    for c m and out :: "(string \<times> (string \<times> bool) list) list"
    by (auto simp: val_def update_conv' split: sum.splits option.splits)
  have "dict_get (fold ?f L out) n
      = (if (HARNESS_CATEGORY, n) \<in> set L \<and> val n \<noteq> None then val n else dict_get out n)" for L out
  proof (induction L arbitrary: out)
    case (Cons p L)
    obtain c m where p: "p = (c, m)" by force
    show ?case using Cons [of "?f p out"] one [of c m out] by (auto simp: p)
  qed simp
  from this [of "list_providers (Some HARNESS_CATEGORY) r" "[]"]
  have "dict_get (discover_harness_capabilities caps_of r) n
      = (if table r (HARNESS_CATEGORY, n) \<noteq> None then val n else None)"
    by (auto simp: discover_harness_capabilities_def listed [OF assms])
  moreover have "generic HARNESS_CATEGORY n r = Inr a" if "table r (HARNESS_CATEGORY, n) = Some a" for a
    using that by (simp add: generic_def get_name_def harness_table)
  ultimately show ?thesis by (auto simp: val_def split: option.splits)
qed

lemma register_harness_one:
  "\<exists>r'. register HARNESS_CATEGORY n (Some c) None True r = Inr r' \<and> table r' = (table r)((HARNESS_CATEGORY, n) := Some c)
     \<and> (distinct (map fst (generics r)) \<longrightarrow> distinct (map fst (generics r')))"
proof -
  obtain r' where r': "register HARNESS_CATEGORY n (Some c) None True r = Inr r'"
    using register_fails [of HARNESS_CATEGORY n c True r]
    by (cases "register HARNESS_CATEGORY n (Some c) None True r") auto
  have "register_generic HARNESS_CATEGORY n c True r = Inr r'"
    using r' by (simp add: register_cases HARNESS_CATEGORY_def)
  then have "table r' = (table r)((HARNESS_CATEGORY, n) := Some c)"
    and "distinct (map fst (generics r)) \<longrightarrow> distinct (map fst (generics r'))"
    using table_after(4) [of HARNESS_CATEGORY n c True r r']
    by (auto simp: HARNESS_CATEGORY_def register_generic_def put_name_def distinct_update)
  with r' show ?thesis by blast
qed

lemma register_all_table:
  "\<exists>r'. register_all wrap nm ts r = Inr (r', map nm ts)
     \<and> table r' = fold (\<lambda>t m. m((HARNESS_CATEGORY, nm t) := Some (wrap t))) ts (table r)
     \<and> (distinct (map fst (generics r)) \<longrightarrow> distinct (map fst (generics r')))"
proof (induction ts arbitrary: r)
  case (Cons t ts)
  from register_harness_one [of "nm t" "wrap t" r]
  obtain r1 where r1: "register HARNESS_CATEGORY (nm t) (Some (wrap t)) None True r = Inr r1"
    "table r1 = (table r)((HARNESS_CATEGORY, nm t) := Some (wrap t))"
    "distinct (map fst (generics r)) \<longrightarrow> distinct (map fst (generics r1))"
    by (elim exE conjE) (rule that; assumption)
  from Cons.IH [of r1] obtain r2 where r2: "register_all wrap nm ts r1 = Inr (r2, map nm ts)"
    "table r2 = fold (\<lambda>t m. m((HARNESS_CATEGORY, nm t) := Some (wrap t))) ts (table r1)"
    "distinct (map fst (generics r1)) \<longrightarrow> distinct (map fst (generics r2))"
    by (elim exE conjE) (rule that; assumption)
  have "register_all wrap nm (t # ts) r = Inr (r2, map nm (t # ts))"
    by (simp add: r1(1) r2(1))
  moreover have "table r2 = fold (\<lambda>t m. m((HARNESS_CATEGORY, nm t) := Some (wrap t))) (t # ts) (table r)"
    by (simp only: r2(2) r1(2) fold_simps)
  moreover have "distinct (map fst (generics r)) \<longrightarrow> distinct (map fst (generics r2))"
    using r1(3) r2(3) by simp
  ultimately show ?case by (intro exI [of _ r2] conjI)
qed simp

section \<open>Properties\<close>

text \<open>
  The built-in harnesses are registered and found: registering them on any registry succeeds and
  names them in order; discovery then reports each one's own capability table, whatever was
  registered before under these names, and reports everything else as before.
\<close>

theorem registered_harnesses_discovered:
  assumes "\<And>t. caps_of (wrap t) = Some (caps t)" and "distinct (map fst (generics r))"
  shows "\<exists>r'. register_harness_adapters R wrap r = Inr (r', [''codex'', ''claude-code'', ''opencode''])
    \<and> (\<forall>t \<in> set (harness_tools R).
         dict_get (discover_harness_capabilities caps_of r') (adapter_name t) = Some (caps_dict (caps t)))
    \<and> (\<forall>n. n \<notin> {''codex'', ''claude-code'', ''opencode''} \<longrightarrow>
         dict_get (discover_harness_capabilities caps_of r') n = dict_get (discover_harness_capabilities caps_of r) n)"
proof -
  have names: "map adapter_name (harness_tools R) = [''codex'', ''claude-code'', ''opencode'']"
    by (simp add: harness_tools_def codex_def claude_def opencode_def)
  obtain r' where r': "register_harness_adapters R wrap r = Inr (r', [''codex'', ''claude-code'', ''opencode''])"
    and t: "table r' = fold (\<lambda>t m. m((HARNESS_CATEGORY, adapter_name t) := Some (wrap t))) (harness_tools R) (table r)"
    and d: "distinct (map fst (generics r'))"
    using register_all_table [of wrap adapter_name "harness_tools R" r] assms(2) names
    by (auto simp: register_harness_adapters_def)
  then show ?thesis
    using assms(1) discovered [OF d, of caps_of] discovered [OF assms(2), of caps_of]
    by (auto simp: harness_tools_def codex_def claude_def opencode_def)
qed

lemma registered_harnesses_discovered_witness:
  "\<exists>r'. register_harness_adapters \<lparr>loads = (\<lambda>_. None), show_json = (\<lambda>_. '''')\<rparr> id
        empty_registry = Inr (r', [''codex'', ''claude-code'', ''opencode''])
    \<and> dict_get (discover_harness_capabilities (\<lambda>t. Some (caps t)) r') ''opencode'' = Some (caps_dict (cli_caps True))"
  using registered_harnesses_discovered
    [of "\<lambda>t. Some (caps t)" id empty_registry "\<lparr>loads = (\<lambda>_. None), show_json = (\<lambda>_. '''')\<rparr>"]
  by (auto simp: harness_tools_def opencode_def empty_registry_def)

section \<open>The life of a run\<close>

text \<open>What holds at every moment of a run that was started under the identifier \<open>rid\<close>.\<close>

definition sound :: "string \<Rightarrow> life \<Rightarrow> bool" where
  "sound rid s \<longleftrightarrow> t_run_id (track s) = rid
     \<and> (t_status (track s) = ''cancelled'' \<longrightarrow> cancelling s = Answered True)
     \<and> (\<forall>r. result s = Some (Inr r) \<longrightarrow>
          run_id r = rid \<and> terminal_observed r \<and> status r \<in> {''completed'', ''failed'', ''cancelled'', ''timeout''}
          \<and> (status r = ''cancelled'' \<longrightarrow> cancelling s = Answered True)
          \<and> (status r = ''completed'' \<longleftrightarrow> run_error r = JNull)
          \<and> (cancelling s \<noteq> Answered True \<longrightarrow> t_status (track s) = status r))"

lemma end_exit_cancelled:
  "t_status t = ''cancelled'' \<Longrightarrow> \<exists>r. end_exit T argv out err rc now t = (t, Inr r) \<and> run_id r = t_run_id t
     \<and> status r = ''cancelled'' \<and> terminal_observed r \<and> run_error r = JStr ''cancelled''"
  by (simp add: end_exit_def blank_run_def)

lemma end_exit_raises:
  "t_status t \<noteq> ''cancelled'' \<Longrightarrow> parse_output T out err rc = Inl e \<Longrightarrow> end_exit T argv out err rc now t = (t, Inl e)"
  by (simp add: end_exit_def)

lemma end_exit_parsed:
  "t_status t \<noteq> ''cancelled'' \<Longrightarrow> parse_output T out err rc = Inr (text, us, e) \<Longrightarrow>
     \<exists>t' r. end_exit T argv out err rc now t = (t', Inr r) \<and> t_run_id t' = t_run_id t \<and> run_id r = t_run_id t
       \<and> status r = t_status t' \<and> t_status t' = (if e = JNull then ''completed'' else ''failed'')
       \<and> run_error r = e \<and> terminal_observed r \<and> run_output r = text
       \<and> run_error_kind r = (if e = JNull then None else Some (classify_process_error err rc))"
  by (simp add: end_exit_def blank_run_def Let_def)

lemma sound_collect:
  assumes "sound rid s" and "result s = None"
  shows "sound rid (finish s (end_exit T argv out err rc now (track s)))"
proof (cases "t_status (track s) = ''cancelled''")
  case True
  obtain r where "end_exit T argv out err rc now (track s) = (track s, Inr r)" "run_id r = t_run_id (track s)"
    "status r = ''cancelled''" "terminal_observed r" "run_error r = JStr ''cancelled''"
    using end_exit_cancelled [OF True] by blast
  with assms True show ?thesis by (simp add: sound_def finish_def)
next
  case False
  show ?thesis
  proof (cases "parse_output T out err rc")
    case (Inl e)
    then show ?thesis using assms False by (simp add: sound_def finish_def end_exit_raises)
  next
    case (Inr q)
    obtain body us e where q: "q = (body, us, e)" by (cases q) auto
    obtain t' r where "end_exit T argv out err rc now (track s) = (t', Inr r)" "t_run_id t' = t_run_id (track s)"
      "run_id r = t_run_id (track s)" "status r = t_status t'" "t_status t' = (if e = JNull then ''completed'' else ''failed'')"
      "run_error r = e" "terminal_observed r"
      using end_exit_parsed [OF False Inr [unfolded q]] by blast
    with assms show ?thesis by (simp add: sound_def finish_def split: if_splits)
  qed
qed

lemma sound_step: "step T argv limit s s' \<Longrightarrow> sound rid s \<Longrightarrow> sound rid s'"
proof (induction rule: step.induct)
  case (collect s rc out err now)
  then show ?case using sound_collect by blast
qed (auto simp: sound_def finish_def end_timeout_def blank_run_def)

lemma sound_steps: "steps T argv limit s s' \<Longrightarrow> sound rid s \<Longrightarrow> sound rid s'"
  by (induction rule: steps.induct) (auto intro: sound_step)

lemma sound_started: "sound rid (started rid now)"
  by (simp add: sound_def started_def new_tracked_def)

lemma parse_nonzero:
  "T \<in> {codex b, claude R b, opencode R b} \<Longrightarrow> rc \<noteq> 0 \<Longrightarrow>
     parse_output T out err rc = Inr ('''', [], JStr (exit_error err rc))"
  by (auto simp: codex_def claude_def opencode_def default_parse_def claude_parse_def opencode_parse_def)

text \<open>
  C30. The life of a run, whatever the interleaving with a cancellation: any result it ends with is
  its own, observed and one of completed, failed, cancelled and timeout; it is completed exactly
  when there is no error, and cancelled only if a cancellation was confirmed. Unless one was, the
  tracked status agrees with the result.
\<close>

theorem run_lifecycle:
  assumes "steps T argv limit (started rid now) s" and "result s = Some (Inr r)"
  shows "run_id r = rid \<and> terminal_observed r \<and> status r \<in> {''completed'', ''failed'', ''cancelled'', ''timeout''}
    \<and> (status r = ''completed'' \<longleftrightarrow> run_error r = JNull)
    \<and> (status r = ''cancelled'' \<longrightarrow> cancelling s = Answered True)
    \<and> (cancelling s \<noteq> Answered True \<longrightarrow> t_status (track s) = status r)"
  using sound_steps [OF assms(1) sound_started] assms(2) unfolding sound_def by blast

lemma run_lifecycle_witness:
  "\<exists>s r. steps (codex ''codex'') [''codex''] 30 (started ''hrn_1'' 0) s \<and> result s = Some (Inr r)
     \<and> cancelling s = Answered True \<and> status r = ''cancelled'' \<and> run_id r = ''hrn_1''"
proof -
  let ?T = "codex ''codex''" and ?s0 = "started ''hrn_1'' 0"
  let ?s1 = "?s0\<lparr>cancelling := Signalled\<rparr>"
  let ?s2 = "?s1\<lparr>proc := Exited (-15) '''' ''''\<rparr>"
  let ?s3 = "?s2\<lparr>cancelling := Answered True, track := (track ?s2)\<lparr>t_status := ''cancelled''\<rparr>\<rparr>"
  let ?s4 = "finish ?s3 (end_exit ?T [''codex''] '''' '''' (-15) 5 (track ?s3))"
  have "step ?T [''codex''] 30 ?s0 ?s1" by (rule step.signal) (simp_all add: started_def)
  moreover have "step ?T [''codex''] 30 ?s1 ?s2" by (rule step.exit) (simp add: started_def)
  moreover have "step ?T [''codex''] 30 ?s2 ?s3" by (rule step.mark) simp
  moreover have "step ?T [''codex''] 30 ?s3 ?s4" by (rule step.collect) (simp_all add: started_def)
  ultimately have reach: "steps ?T [''codex''] 30 ?s0 ?s4" by (meson steps.intros)
  obtain r where r: "result ?s4 = Some (Inr r)" and c: "status r = ''cancelled''" "cancelling ?s4 = Answered True"
    by (simp add: finish_def end_exit_def blank_run_def)
  from run_lifecycle [OF reach r] have "run_id r = ''hrn_1''" by simp
  with reach r c show ?thesis by blast
qed

text \<open>
  A cancellation can be confirmed although the run is reported as failed: the run collects the
  exit of the signalled process before the canceller marks it.
\<close>

lemma cancel_race:
  "\<exists>s r. steps (codex ''codex'') [''codex''] 30 (started ''hrn_1'' 0) s \<and> result s = Some (Inr r)
     \<and> cancelling s = Answered True \<and> t_status (track s) = ''cancelled'' \<and> status r = ''failed''"
proof -
  let ?T = "codex ''codex''" and ?s0 = "started ''hrn_1'' 0"
  let ?s1 = "?s0\<lparr>cancelling := Signalled\<rparr>"
  let ?s2 = "?s1\<lparr>proc := Exited (-15) '''' ''''\<rparr>"
  let ?s3 = "finish ?s2 (end_exit ?T [''codex''] '''' '''' (-15) 5 (track ?s2))"
  let ?s4 = "?s3\<lparr>cancelling := Answered True, track := (track ?s3)\<lparr>t_status := ''cancelled''\<rparr>\<rparr>"
  have "step ?T [''codex''] 30 ?s0 ?s1" by (rule step.signal) (simp_all add: started_def)
  moreover have "step ?T [''codex''] 30 ?s1 ?s2" by (rule step.exit) (simp add: started_def)
  moreover have "step ?T [''codex''] 30 ?s2 ?s3" by (rule step.collect) (simp_all add: started_def)
  moreover have "step ?T [''codex''] 30 ?s3 ?s4" by (rule step.mark) (simp add: finish_def)
  ultimately have reach: "steps ?T [''codex''] 30 ?s0 ?s4" by (meson steps.intros)
  have "\<exists>r. result ?s3 = Some (Inr r) \<and> status r = ''failed''"
    by (simp add: finish_def end_exit_def blank_run_def started_def new_tracked_def codex_def default_parse_def)
  then show ?thesis using reach by fastforce
qed

text \<open>
  C31. No tool's failure passes for success: when the process of any of the three tools exits with a
  nonzero code and no cancellation was marked, the run is failed with no output, the process's own
  words or its exit code as error, and the kind read from them.
\<close>

theorem nonzero_exit_fails:
  assumes "T \<in> {codex b, claude R b, opencode R b}" and "rc \<noteq> 0" and "t_status t \<noteq> ''cancelled''"
  shows "\<exists>t' r. end_exit T argv out err rc now t = (t', Inr r) \<and> t_status t' = ''failed'' \<and> status r = ''failed''
    \<and> run_output r = '''' \<and> run_error r = JStr (exit_error err rc)
    \<and> run_error_kind r = Some (classify_process_error err rc)"
  using end_exit_parsed [OF assms(3) parse_nonzero [OF assms(1,2)]] by fastforce

lemma nonzero_exit_fails_witness:
  "\<exists>t' r. end_exit (codex ''codex'') [''codex''] ''partial'' '''' 3 7 (new_tracked ''hrn_1'' 0) = (t', Inr r)
     \<and> status r = ''failed'' \<and> run_error r = JStr (exit_error '''' 3)"
  using nonzero_exit_fails [of "codex ''codex''" "''codex''" "\<lparr>loads = (\<lambda>_. None), show_json = (\<lambda>_. '''')\<rparr>" 3
    "new_tracked ''hrn_1'' 0" "[''codex'']" "''partial''" "''''" 7]
  by (auto simp: new_tracked_def)

text \<open>
  The activity view of a result is numbered from zero without gaps, ends in its one terminal
  activity, carries the run's identifier throughout, invents no tool activity, and its messages are
  the text view.
\<close>

theorem activities_ordered:
  "map act_sequence (stream_activities now r) = map int [0..<length (stream_activities now r)]
   \<and> act_kind (last (stream_activities now r)) = TERMINAL
   \<and> length (filter (\<lambda>a. act_kind a = TERMINAL) (stream_activities now r)) = 1
   \<and> list_all (\<lambda>a. act_run_id a = run_id r \<and> act_kind a \<notin> {TOOL_CALL, TOOL_RESULT}) (stream_activities now r)
   \<and> map (\<lambda>a. dict_get (act_payload a) ''text'') (filter (\<lambda>a. act_kind a = MESSAGE) (stream_activities now r))
       = map (\<lambda>t. Some (JStr t)) (stream_text r)"
  by (simp add: stream_activities_def stream_text_def plain_activity_def Let_def upt_rec)

text \<open>Resuming a tracked run uses the session it recorded, unless the caller names another.\<close>

lemma resume_uses_recorded:
  "given_text (k_session k) = None \<Longrightarrow> t_session t = Some s \<Longrightarrow> s \<noteq> '''' \<Longrightarrow>
     resume_argv T rid pr k (Some t) = Inr (s, build_resume T s pr)"
  by (simp add: resume_argv_def resume_session_def given_text_def)

end
