(* ===== verification/IpSafety.thy ===== *)
theory IpSafety
  imports Python_Text "HOL-Library.Word"
begin

text \<open>
  Which addresses outgoing requests may reach: \<^verbatim>\<open>obase/http/dns_pinned_transport.py\<close> (parsing an
  address, the allowed and blocked networks, the check of all records of a name, the pinned request)
  and the prefix test of \<^verbatim>\<open>obase/ssrf_safe_network.py\<close>. Addresses are words of their width; a network
  is its base and prefix length. Parsing and the class tests of an address are those of Python's
  \<^verbatim>\<open>ipaddress\<close>. What the resolver answers and what \<^verbatim>\<open>urlparse\<close> finds in a URL are arguments.
\<close>

unbundle bit_operations_syntax

section \<open>Addresses and networks\<close>

datatype address = V4 "32 word" | V6 "128 word"

definition in_prefix :: "'a::len word \<Rightarrow> nat \<Rightarrow> 'a word \<Rightarrow> bool" where
  "in_prefix base len a \<longleftrightarrow> drop_bit (LENGTH('a) - len) a = drop_bit (LENGTH('a) - len) base"

definition v4 :: "int \<Rightarrow> int \<Rightarrow> int \<Rightarrow> int \<Rightarrow> 32 word" where
  "v4 a b c d = word_of_int (((a * 256 + b) * 256 + c) * 256 + d)"

text \<open>The IPv6 address whose first sixteen bits are \<open>h\<close> and whose others are zero.\<close>

definition v6_top :: "int \<Rightarrow> 128 word" where
  "v6_top h = word_of_int (h * 2 ^ 112)"

definition ALLOWED_DOCKER_NETWORKS :: "(32 word \<times> nat) list" where
  "ALLOWED_DOCKER_NETWORKS = [(v4 172 17 0 0, 16)]"

definition BLOCKED_V4 :: "(32 word \<times> nat) list" where
  "BLOCKED_V4 = [(v4 0 0 0 0, 8), (v4 10 0 0 0, 8), (v4 100 64 0 0, 10), (v4 127 0 0 0, 8), (v4 169 254 0 0, 16),
     (v4 172 16 0 0, 12), (v4 192 168 0 0, 16)]"

definition BLOCKED_V6 :: "(128 word \<times> nat) list" where
  "BLOCKED_V6 = [(1, 128), (word_of_int (0xFFFF * 2 ^ 32), 96), (v6_top 0xFC00, 7), (v6_top 0xFE80, 10)]"

fun in_allowed :: "address \<Rightarrow> bool" where
  "in_allowed (V4 a) = list_ex (\<lambda>(b, n). in_prefix b n a) ALLOWED_DOCKER_NETWORKS"
| "in_allowed (V6 a) = False"

fun in_blocked :: "address \<Rightarrow> bool" where
  "in_blocked (V4 a) = list_ex (\<lambda>(b, n). in_prefix b n a) BLOCKED_V4"
| "in_blocked (V6 a) = list_ex (\<lambda>(b, n). in_prefix b n a) BLOCKED_V6"

fun is_loopback :: "address \<Rightarrow> bool" where
  "is_loopback (V4 a) = in_prefix (v4 127 0 0 0) 8 a"
| "is_loopback (V6 a) = (a = 1)"

fun is_link_local :: "address \<Rightarrow> bool" where
  "is_link_local (V4 a) = in_prefix (v4 169 254 0 0) 16 a"
| "is_link_local (V6 a) = in_prefix (v6_top 0xFE80) 10 a"

fun is_multicast :: "address \<Rightarrow> bool" where
  "is_multicast (V4 a) = in_prefix (v4 224 0 0 0) 4 a"
| "is_multicast (V6 a) = in_prefix (v6_top 0xFF00) 8 a"

definition RESERVED_V6 :: "(128 word \<times> nat) list" where
  "RESERVED_V6 = [(0, 8), (v6_top 0x100, 8), (v6_top 0x200, 7), (v6_top 0x400, 6), (v6_top 0x800, 5), (v6_top 0x1000, 4),
     (v6_top 0x4000, 3), (v6_top 0x6000, 3), (v6_top 0x8000, 3), (v6_top 0xA000, 3), (v6_top 0xC000, 3),
     (v6_top 0xE000, 4), (v6_top 0xF000, 5), (v6_top 0xF800, 6), (v6_top 0xFE00, 9)]"

fun is_reserved :: "address \<Rightarrow> bool" where
  "is_reserved (V4 a) = in_prefix (v4 240 0 0 0) 4 a"
| "is_reserved (V6 a) = list_ex (\<lambda>(b, n). in_prefix b n a) RESERVED_V6"

fun is_unspecified :: "address \<Rightarrow> bool" where
  "is_unspecified (V4 a) = (a = 0)"
| "is_unspecified (V6 a) = (a = 0)"

fun unwrap_mapped :: "address \<Rightarrow> address" where
  "unwrap_mapped (V4 a) = V4 a"
| "unwrap_mapped (V6 a) = (if drop_bit 32 a = 0xFFFF then V4 (ucast a) else V6 a)"

definition safe_address :: "address \<Rightarrow> bool" where
  "safe_address addr =
     (let addr = unwrap_mapped addr
      in if in_allowed addr then True
         else if is_loopback addr \<or> is_link_local addr \<or> is_multicast addr \<or> is_reserved addr \<or> is_unspecified addr
         then False
         else \<not> in_blocked addr)"

section \<open>Reading addresses\<close>

definition digit :: "char \<Rightarrow> bool" where
  "digit c \<longleftrightarrow> 48 \<le> (of_char c :: nat) \<and> (of_char c :: nat) \<le> 57"

definition digit_value :: "char \<Rightarrow> int" where
  "digit_value c = of_char c - 48"

definition parse_octet :: "string \<Rightarrow> int option" where
  "parse_octet s =
     (if s = '''' \<or> \<not> list_all digit s \<or> 3 < length s \<or> (s \<noteq> ''0'' \<and> hd s = CHR ''0'') then None
      else let n = foldl (\<lambda>n c. n * 10 + digit_value c) 0 s in if 255 < n then None else Some n)"

definition parse_v4 :: "string \<Rightarrow> 32 word option" where
  "parse_v4 s = (case split_on (CHR ''.'') s of
       [a, b, c, d] \<Rightarrow> (case (parse_octet a, parse_octet b, parse_octet c, parse_octet d) of
           (Some a, Some b, Some c, Some d) \<Rightarrow> Some (v4 a b c d) | _ \<Rightarrow> None)
     | _ \<Rightarrow> None)"

definition hex_value :: "char \<Rightarrow> int option" where
  "hex_value c = (let n = (of_char c :: int) in
     if 48 \<le> n \<and> n \<le> 57 then Some (n - 48) else if 65 \<le> n \<and> n \<le> 70 then Some (n - 55)
     else if 97 \<le> n \<and> n \<le> 102 then Some (n - 87) else None)"

definition parse_hextet :: "string \<Rightarrow> int option" where
  "parse_hextet s =
     (if s = '''' \<or> 4 < length s \<or> list_ex (\<lambda>c. hex_value c = None) s then None
      else Some (foldl (\<lambda>n c. n * 16 + the (hex_value c)) 0 s))"

text \<open>The groups before and after \<open>::\<close>, with the number of zero groups it stands for.\<close>

definition inner_empty :: "string list \<Rightarrow> nat list" where
  "inner_empty parts = filter (\<lambda>i. parts ! i = '''') [1..<length parts - 1]"

definition layout :: "string list \<Rightarrow> (string list \<times> nat \<times> string list) option" where
  "layout parts =
     (case inner_empty parts of
        [] \<Rightarrow> if length parts \<noteq> 8 \<or> hd parts = '''' \<or> last parts = '''' then None else Some (parts, 0, [])
      | [i] \<Rightarrow>
          (let hi = take i parts; lo = drop (i + 1) parts;
               hi' = (if hd parts = '''' then tl hi else hi);
               lo' = (if last parts = '''' then butlast lo else lo)
           in if (hd parts = '''' \<and> hi' \<noteq> []) \<or> (last parts = '''' \<and> lo' \<noteq> []) \<or> 8 < length hi' + length lo' + 1 then None
              else Some (hi', 8 - (length hi' + length lo'), lo'))
      | _ \<Rightarrow> None)"

fun hextets :: "string list \<Rightarrow> int list option" where
  "hextets [] = Some []"
| "hextets (p # ps) = Option.bind (parse_hextet p) (\<lambda>h. map_option ((#) h) (hextets ps))"

definition embedded_v4 :: "string list \<Rightarrow> (string list \<times> int list) option" where
  "embedded_v4 parts =
     (if CHR ''.'' \<in> set (last parts)
      then map_option (\<lambda>w. (butlast parts, [uint w div 65536, uint w mod 65536])) (parse_v4 (last parts))
      else Some (parts, []))"

definition from_hextets :: "int list \<Rightarrow> 128 word" where
  "from_hextets hs = word_of_int (foldl (\<lambda>n h. n * 65536 + h) 0 hs)"

text \<open>
  An embedded IPv4 address stands for two groups; here a group written \<open>0\<close> keeps their places while
  the layout is found.
\<close>

definition drop_zone :: "string \<Rightarrow> string option" where
  "drop_zone s =
     (case split_on (CHR ''%'') s of
        [addr] \<Rightarrow> Some addr
      | [addr, zone] \<Rightarrow> if zone = '''' then None else Some addr
      | _ \<Rightarrow> None)"

definition assemble :: "string list \<Rightarrow> int list \<Rightarrow> 128 word option" where
  "assemble front rest =
     (let full = front @ map (\<lambda>_. ''0'') rest
      in if 9 < length full then None
         else (case layout full of
             None \<Rightarrow> None
           | Some (hi, gap, lo) \<Rightarrow> (case (hextets hi, hextets lo) of
               (Some hi, Some lo) \<Rightarrow>
                 Some (from_hextets (take (8 - length rest) (hi @ replicate gap 0 @ lo) @ rest))
             | _ \<Rightarrow> None)))"

definition parse_v6 :: "string \<Rightarrow> 128 word option" where
  "parse_v6 s =
     (case drop_zone s of
        None \<Rightarrow> None
      | Some addr \<Rightarrow>
          if CHR ''/'' \<in> set s \<or> length (split_on (CHR '':'') addr) < 3 then None
          else (case embedded_v4 (split_on (CHR '':'') addr) of
              None \<Rightarrow> None | Some (front, rest) \<Rightarrow> assemble front rest))"

definition parse_ip :: "string \<Rightarrow> address option" where
  "parse_ip s = (case parse_v4 s of Some a \<Rightarrow> Some (V4 a) | None \<Rightarrow> map_option V6 (parse_v6 s))"

definition is_safe_ip :: "string \<Rightarrow> bool" where
  "is_safe_ip ip = (case parse_ip ip of None \<Rightarrow> False | Some addr \<Rightarrow> safe_address addr)"

section \<open>Resolving and pinning\<close>

datatype blocked = Resolution_failed | No_records | Blocked_ip string

text \<open>A record of the resolver's answer: whether it is of the IPv4 family, and its address.\<close>

type_synonym dns_record = "bool \<times> string"

fun check_records :: "dns_record list \<Rightarrow> string option \<Rightarrow> blocked + string option" where
  "check_records [] first = Inr first"
| "check_records ((inet, ip) # rs) first =
     (if \<not> is_safe_ip ip then Inl (Blocked_ip ip)
      else check_records rs (if inet \<and> first = None then Some ip else first))"

definition resolve_and_check :: "dns_record list option \<Rightarrow> blocked + string" where
  "resolve_and_check answer =
     (case answer of
        None \<Rightarrow> Inl Resolution_failed
      | Some rs \<Rightarrow>
          if rs = [] then Inl No_records
          else (case check_records rs None of
              Inl e \<Rightarrow> Inl e
            | Inr (Some ip) \<Rightarrow> Inr (if ip = '''' then snd (hd rs) else ip)
            | Inr None \<Rightarrow> Inr (snd (hd rs))))"

text \<open>The authority handed to the connection and the name a request presents, from the authority of its URL.\<close>

definition http_open :: "(string \<Rightarrow> dns_record list option) \<Rightarrow> string \<Rightarrow> blocked + (string \<times> string)" where
  "http_open dns host =
     (let hostname = hd (split_on (CHR '':'') host);
          port = (if CHR '':'' \<in> set host then split_on (CHR '':'') host ! 1 else ''80'')
      in case resolve_and_check (dns hostname) of
           Inl e \<Rightarrow> Inl e
         | Inr ip \<Rightarrow> Inr (if port \<noteq> ''80'' then ip @ '':'' @ port else ip, hostname))"

definition https_open :: "(string \<Rightarrow> dns_record list option) \<Rightarrow> string \<Rightarrow> blocked + (string \<times> string)" where
  "https_open dns host =
     (let hostname = hd (split_on (CHR '':'') host);
          port = (if CHR '':'' \<in> set host then split_on (CHR '':'') host ! 1 else ''443'')
      in case resolve_and_check (dns hostname) of
           Inl e \<Rightarrow> Inl e
         | Inr ip \<Rightarrow> Inr (ip @ '':'' @ port, hostname))"

definition pinned_open :: "bool \<Rightarrow> (string \<Rightarrow> dns_record list option) \<Rightarrow> string \<Rightarrow> blocked + (string \<times> string)" where
  "pinned_open tls dns host = (if tls then https_open dns host else http_open dns host)"

text \<open>
  Where a connection goes for an authority, as \<^verbatim>\<open>http.client\<close> reads it: the port follows the last
  colon unless a bracket follows that colon, an empty one is the default, and one that is no number is
  refused.
\<close>

definition unbracket :: "string \<Rightarrow> string" where
  "unbracket h = (if h \<noteq> '''' \<and> hd h = CHR ''['' \<and> last h = CHR '']'' then butlast (tl h) else h)"

definition connection_host :: "int \<Rightarrow> string \<Rightarrow> (string \<times> int) option" where
  "connection_host dflt s =
     (let after = rev (takeWhile (\<lambda>c. c \<noteq> CHR '':'') (rev s))
      in if CHR '':'' \<in> set s \<and> CHR '']'' \<notin> set after
         then map_option (\<lambda>p. (unbracket (take (length s - length after - 1) s), p))
                (if after = '''' then Some dflt else py_int after)
         else Some (unbracket s, dflt))"

section \<open>The prefix test\<close>

definition FORBIDDEN_IP_PREFIXES :: "string list" where
  "FORBIDDEN_IP_PREFIXES = [''10.'', ''172.16.'', ''172.17.'', ''172.18.'', ''172.19.'', ''172.20.'', ''172.21.'', ''172.22.'',
     ''172.23.'', ''172.24.'', ''172.25.'', ''172.26.'', ''172.27.'', ''172.28.'', ''172.29.'', ''172.30.'', ''172.31.'',
     ''192.168.'', ''127.'', ''0.'', ''localhost'', ''169.254.'', ''::1'', ''fc00:'', ''fd00:'', ''fe80:'']"

definition CLOUD_METADATA_HOSTS :: "string list" where
  "CLOUD_METADATA_HOSTS = [''metadata.google.internal'', ''169.254.169.254'', ''instance-data.ec2.internal'']"

text \<open>The argument is what parsing the URL gave: nothing if it raised, else scheme and host name.\<close>

definition is_safe_url :: "(string \<times> string option) option \<Rightarrow> bool" where
  "is_safe_url parsed =
     (case parsed of
        None \<Rightarrow> False
      | Some (scheme, host) \<Rightarrow>
          (let hostname = (case host of None \<Rightarrow> '''' | Some h \<Rightarrow> h)
           in scheme \<in> {''http'', ''https''} \<and> hostname \<noteq> ''''
              \<and> map lower_char hostname \<notin> set CLOUD_METADATA_HOSTS
              \<and> list_all (\<lambda>p. \<not> has_prefix hostname p \<and> hostname \<noteq> p) FORBIDDEN_IP_PREFIXES))"

section \<open>Networks as arithmetic\<close>

lemma take_bit_uint: "take_bit LENGTH('a) (uint a) = uint a" for a :: "'a::len word"
  by (rule take_bit_int_eq_self) simp_all

lemma in_prefix_iff:
  "in_prefix b n a \<longleftrightarrow> uint a div 2 ^ (LENGTH('a) - n) = uint b div 2 ^ (LENGTH('a) - n)" for a b :: "'a::len word"
  unfolding in_prefix_def word_uint_eq_iff unsigned_drop_bit_eq by (simp add: drop_bit_eq_div take_bit_uint)

lemma uint_v4: "0 \<le> a \<Longrightarrow> a < 256 \<Longrightarrow> 0 \<le> b \<Longrightarrow> b < 256 \<Longrightarrow> 0 \<le> c \<Longrightarrow> c < 256 \<Longrightarrow> 0 \<le> d \<Longrightarrow> d < 256 \<Longrightarrow>
    uint (v4 a b c d) = ((a * 256 + b) * 256 + c) * 256 + d"
  unfolding v4_def by (rule word_of_int_inverse [OF refl]) simp_all

lemma uint_v6_top: "0 \<le> h \<Longrightarrow> h < 65536 \<Longrightarrow> uint (v6_top h) = h * 2 ^ 112"
  unfolding v6_top_def by (rule word_of_int_inverse [OF refl]) simp_all

text \<open>A prefix of at most sixteen bits looks at the first two octets, or the first group, only.\<close>

lemma prefix_v4:
  assumes "n \<le> 16" "0 \<le> b" "b < 256" "0 \<le> c" "c < 256"
  shows "in_prefix (v4 b c 0 0) n a \<longleftrightarrow> uint a div 65536 div 2 ^ (16 - n) = (b * 256 + c) div 2 ^ (16 - n)"
proof -
  have e: "(2::int) ^ (32 - n) = 65536 * 2 ^ (16 - n)"
  proof -
    have "32 - n = 16 + (16 - n)" using assms(1) by simp
    then have "(2::int) ^ (32 - n) = 2 ^ 16 * 2 ^ (16 - n)" by (simp only: power_add)
    then show ?thesis by simp
  qed
  have "uint (v4 b c 0 0) div 65536 = b * 256 + c" using assms by (simp add: uint_v4)
  then show ?thesis by (simp add: in_prefix_iff e zdiv_zmult2_eq)
qed

lemma prefix_v6:
  assumes "n \<le> 16" "0 \<le> h" "h < 65536"
  shows "in_prefix (v6_top h) n a \<longleftrightarrow> uint a div 2 ^ 112 div 2 ^ (16 - n) = h div 2 ^ (16 - n)"
proof -
  have e: "(2::int) ^ (128 - n) = 2 ^ 112 * 2 ^ (16 - n)"
  proof -
    have "128 - n = 112 + (16 - n)" using assms(1) by simp
    then show ?thesis by (simp only: power_add)
  qed
  have "uint (v6_top h) div 2 ^ 112 = h" using assms by (simp add: uint_v6_top)
  then show ?thesis by (simp add: in_prefix_iff e zdiv_zmult2_eq)
qed

lemma first_group_bound: "0 \<le> uint (a :: 128 word) div 2 ^ 112" "uint (a :: 128 word) div 2 ^ 112 < 65536"
proof -
  have "uint a < 2 ^ 112 * 65536" using uint_lt2p [of a] by simp
  then show "uint a div 2 ^ 112 < 65536" using zdiv_mono_strict [of "uint a" "2 ^ 112 * 65536" "2 ^ 112"] by simp
qed (simp add: pos_imp_zdiv_nonneg_iff)

section \<open>What is safe\<close>

lemma div_between: "0 < k \<Longrightarrow> (x :: int) div k = c \<longleftrightarrow> c * k \<le> x \<and> x < (c + 1) * k"
proof
  assume k: "0 < k" and "x div k = c"
  then have "x = c * k + x mod k" using div_mult_mod_eq [of x k] by simp
  moreover have "0 \<le> x mod k" "x mod k < k" using k by simp_all
  moreover have "(c + 1) * k = c * k + k" by (simp add: distrib_right)
  ultimately show "c * k \<le> x \<and> x < (c + 1) * k" by linarith
next
  assume k: "0 < k" and "c * k \<le> x \<and> x < (c + 1) * k"
  moreover have "(c + 1) * k = c * k + k" by (simp add: distrib_right)
  ultimately show "x div k = c" using int_div_pos_eq [of x k c "x - c * k"] by (simp add: mult.commute)
qed

lemma safe_v4: "safe_address (V4 a) \<longleftrightarrow>
    (let q = uint a div 65536 in q = 44049 \<or>
      q div 256 \<notin> {0, 10, 127} \<and> q div 64 \<noteq> 401 \<and> q \<noteq> 43518 \<and> q div 16 \<noteq> 2753 \<and> q \<noteq> 49320
      \<and> \<not> (q div 4096 = 14 \<or> q div 4096 = 15) \<and> a \<noteq> 0)"
  by (simp add: safe_address_def ALLOWED_DOCKER_NETWORKS_def BLOCKED_V4_def prefix_v4 Let_def)

lemma upper_half_bound: "0 \<le> uint (a :: 32 word) div 65536" "uint (a :: 32 word) div 65536 < 65536"
proof -
  have "uint a < 65536 * 65536" using uint_lt2p [of a] by simp
  then show "uint a div 65536 < 65536" using zdiv_mono_strict [of "uint a" "65536 * 65536" 65536] by simp
qed (simp add: pos_imp_zdiv_nonneg_iff)

lemma by_octet:
  fixes q :: int
  assumes "c * 256 \<le> a" and "b \<le> (c + 1) * 256"
  shows "a \<le> q \<and> q < b \<longleftrightarrow> q div 256 = c \<and> a - c * 256 \<le> q mod 256 \<and> q mod 256 < b - c * 256"
proof (cases "q div 256 = c")
  case True
  then have "q mod 256 = q - c * 256" using minus_div_mult_eq_mod [of q 256] by simp
  with True show ?thesis by auto
next
  case False
  then have "\<not> (c * 256 \<le> q \<and> q < (c + 1) * 256)" by (simp add: div_between)
  with False assms show ?thesis by linarith
qed

text \<open>The tests of the first sixteen bits, octet by octet.\<close>

lemma octet_tests:
  fixes q :: int
  assumes "0 \<le> q" and "q < 65536"
  defines "h \<equiv> q div 256" and "l \<equiv> q mod 256"
  shows "q = 44049 \<longleftrightarrow> h = 172 \<and> l = 17" "q = 43518 \<longleftrightarrow> h = 169 \<and> l = 254" "q = 49320 \<longleftrightarrow> h = 192 \<and> l = 168"
    "q div 64 = 401 \<longleftrightarrow> h = 100 \<and> 64 \<le> l \<and> l < 128" "q div 16 = 2753 \<longleftrightarrow> h = 172 \<and> 16 \<le> l \<and> l < 32"
    "q div 4096 = 14 \<or> q div 4096 = 15 \<longleftrightarrow> 224 \<le> h"
proof -
  show "q = 44049 \<longleftrightarrow> h = 172 \<and> l = 17" using by_octet [of 172 44049 44050 q] by (auto simp: h_def l_def)
  show "q = 43518 \<longleftrightarrow> h = 169 \<and> l = 254" using by_octet [of 169 43518 43519 q] by (auto simp: h_def l_def)
  show "q = 49320 \<longleftrightarrow> h = 192 \<and> l = 168" using by_octet [of 192 49320 49321 q] by (auto simp: h_def l_def)
  show "q div 64 = 401 \<longleftrightarrow> h = 100 \<and> 64 \<le> l \<and> l < 128"
    using by_octet [of 100 25664 25728 q] by (simp add: h_def l_def div_between [of 64])
  show "q div 16 = 2753 \<longleftrightarrow> h = 172 \<and> 16 \<le> l \<and> l < 32"
    using by_octet [of 172 44048 44064 q] by (simp add: h_def l_def div_between [of 16])
  have "224 \<le> h \<longleftrightarrow> 57344 \<le> q"
    using zdiv_mono1 [of 57344 q 256] zdiv_mono1 [of q 57343 256] by (cases "57344 \<le> q") (auto simp: h_def)
  then show "q div 4096 = 14 \<or> q div 4096 = 15 \<longleftrightarrow> 224 \<le> h" using assms(1,2) by (auto simp: div_between)
qed

lemma safe_v4_octets:
  "safe_address (V4 a) \<longleftrightarrow>
     (let o1 = uint a div 2 ^ 24; o2 = uint a div 2 ^ 16 mod 256
      in (o1 = 172 \<and> o2 = 17) \<or>
         \<not> (o1 \<in> {0, 10, 127} \<or> 224 \<le> o1 \<or> (o1 = 100 \<and> 64 \<le> o2 \<and> o2 < 128) \<or> (o1 = 169 \<and> o2 = 254)
            \<or> (o1 = 172 \<and> 16 \<le> o2 \<and> o2 < 32) \<or> (o1 = 192 \<and> o2 = 168)))"
proof -
  let ?q = "uint a div 65536"
  have o1: "uint a div 2 ^ 24 = ?q div 256" using zdiv_zmult2_eq [of 256 "uint a" 65536] by simp
  have o2: "uint a div 2 ^ 16 mod 256 = ?q mod 256" by simp
  have z: "?q div 256 \<noteq> 0 \<Longrightarrow> a \<noteq> 0" by auto
  note tests = octet_tests [OF upper_half_bound [of a]]
  show ?thesis
    unfolding safe_v4 Let_def o1 o2 tests using z by blast
qed

text \<open>Sixteen bits against the reserved, blocked and multicast networks.\<close>

lemma group_tests:
  fixes t :: int
  assumes "0 \<le> t" and "t < 65536"
  shows "\<not> (t div 64 = 1018 \<or> t div 256 = 255 \<or> t div 256 = 0 \<or> t div 256 = 1 \<or> t div 512 = 1 \<or> t div 1024 = 1
      \<or> t div 2048 = 1 \<or> t div 4096 = 1 \<or> t div 8192 = 2 \<or> t div 8192 = 3 \<or> t div 8192 = 4 \<or> t div 8192 = 5
      \<or> t div 8192 = 6 \<or> t div 4096 = 14 \<or> t div 2048 = 30 \<or> t div 1024 = 62 \<or> t div 128 = 508 \<or> t div 512 = 126)
    \<longleftrightarrow> t div 8192 = 1 \<or> t div 64 = 1019"
proof -
  consider "t < 8192" | "8192 \<le> t" "t < 16384" | "16384 \<le> t" "t < 65216" | "65216 \<le> t" "t < 65280" | "65280 \<le> t"
    by linarith
  then show ?thesis using assms by cases (simp_all add: div_between, linarith+)
qed

lemma safe_v6_groups:
  assumes "drop_bit 32 a \<noteq> 0xFFFF"
  shows "safe_address (V6 a) \<longleftrightarrow> uint a div 2 ^ 112 div 2 ^ 13 = 1 \<or> uint a div 2 ^ 112 div 2 ^ 6 = 1019"
proof -
  define t where "t = uint a div 2 ^ 112"
  have t: "0 \<le> t" "t < 65536" unfolding t_def using first_group_bound by blast+
  have m: "\<not> in_prefix 281470681743360 96 a"
    using assms by (simp add: in_prefix_def)
  have p: "in_prefix (v6_top h) n a \<longleftrightarrow> t div 2 ^ (16 - n) = h div 2 ^ (16 - n)" if "n \<le> 16" "0 \<le> h" "h < 65536" for h n
    using prefix_v6 [OF that] by (simp only: t_def)
  have z: "in_prefix 0 8 a \<longleftrightarrow> t div 256 = 0" using p [of 8 0] by (simp add: v6_top_def)
  have one: "in_prefix 1 128 a \<longleftrightarrow> a = 1" by (simp add: in_prefix_def)
  have small: "t div 256 = 0" if "a = 0 \<or> a = 1" using that by (auto simp: t_def)
  have "safe_address (V6 a) \<longleftrightarrow> \<not> (a = 1 \<or> t div 64 = 1018 \<or> t div 256 = 255 \<or> t div 256 = 0 \<or> t div 256 = 1 \<or> t div 512 = 1
      \<or> t div 1024 = 1 \<or> t div 2048 = 1 \<or> t div 4096 = 1 \<or> t div 8192 = 2 \<or> t div 8192 = 3 \<or> t div 8192 = 4
      \<or> t div 8192 = 5 \<or> t div 8192 = 6 \<or> t div 4096 = 14 \<or> t div 2048 = 30 \<or> t div 1024 = 62 \<or> t div 128 = 508
      \<or> t div 512 = 126 \<or> a = 0)"
    using assms by (simp add: safe_address_def RESERVED_V6_def BLOCKED_V6_def p m z one)
  also have "\<dots> \<longleftrightarrow> t div 8192 = 1 \<or> t div 64 = 1019"
    using group_tests [OF t] small by blast
  finally show ?thesis by (simp add: t_def)
qed

section \<open>Dotted texts\<close>

definition dotted :: "int \<Rightarrow> int \<Rightarrow> int \<Rightarrow> int \<Rightarrow> string" where
  "dotted a b c d = str_int a @ ''.'' @ str_int b @ ''.'' @ str_int c @ ''.'' @ str_int d"

definition octet :: "int \<Rightarrow> bool" where
  "octet n \<longleftrightarrow> 0 \<le> n \<and> n < 256"

lemma digit_char: "n < 10 \<Longrightarrow> digit (char_of (48 + n))" "n < 10 \<Longrightarrow> digit_value (char_of (48 + n)) = int n"
  "n < 10 \<Longrightarrow> char_of (48 + n) = CHR ''0'' \<longleftrightarrow> n = 0" for n :: nat
proof -
  assume n: "n < 10"
  have o: "(of_char (char_of (48 + n)) :: nat) = 48 + n" using n by (simp add: of_char_of)
  then show "digit (char_of (48 + n))" using n by (simp add: digit_def)
  have "(of_char (char_of (48 + n)) :: int) = 48 + int n"
    using of_nat_of_char [of "char_of (48 + n)", where 'a = int] o by simp
  then show "digit_value (char_of (48 + n)) = int n" by (simp add: digit_value_def)
  show "char_of (48 + n) = CHR ''0'' \<longleftrightarrow> n = 0"
  proof
    assume "char_of (48 + n) = CHR ''0''"
    then have "(of_char (char_of (48 + n)) :: nat) = of_char (CHR ''0'')" by simp
    then show "n = 0" using o by simp
  next
    assume "n = 0"
    then have "(of_char (char_of (48 + n)) :: nat) = of_char (CHR ''0'')" using o by simp
    then show "char_of (48 + n) = CHR ''0''" by (simp only: of_char_eq_iff)
  qed
qed

lemma str_nat_cases:
  "n < 10 \<Longrightarrow> str_nat n = [char_of (48 + n)]"
  "10 \<le> n \<Longrightarrow> n < 100 \<Longrightarrow> str_nat n = [char_of (48 + n div 10), char_of (48 + n mod 10)]"
  "100 \<le> n \<Longrightarrow> n < 1000 \<Longrightarrow> str_nat n = [char_of (48 + n div 100), char_of (48 + n div 10 mod 10), char_of (48 + n mod 10)]"
proof -
  show 1: "str_nat n = [char_of (48 + n)]" if "n < 10" for n using that by (simp add: str_nat.simps [of n])
  show 2: "str_nat n = [char_of (48 + n div 10), char_of (48 + n mod 10)]" if "10 \<le> n" "n < 100" for n
    using that 1 [of "n div 10"] by (simp add: str_nat.simps [of n])
  show "str_nat n = [char_of (48 + n div 100), char_of (48 + n div 10 mod 10), char_of (48 + n mod 10)]"
    if "100 \<le> n" "n < 1000"
  proof -
    have "10 \<le> n div 10" "n div 10 < 100" "n div 10 div 10 = n div 100" using that by auto
    then show ?thesis using 2 [of "n div 10"] that by (simp add: str_nat.simps [of n])
  qed
qed

lemma last_digit: "int (m div 10) * 10 + int (m mod 10) = int m"
proof -
  have "int (m div 10) * int 10 + int (m mod 10) = int (m div 10 * 10 + m mod 10)"
    by (simp only: of_nat_add of_nat_mult)
  then show ?thesis by (simp only: div_mult_mod_eq of_nat_numeral)
qed

lemma parse_octet_str: "octet n \<Longrightarrow> parse_octet (str_int n) = Some n"
proof -
  assume n: "octet n"
  define m where "m = nat n"
  have m: "int m = n" "m < 256" "str_int n = str_nat m" using n by (auto simp: octet_def m_def str_int_def)
  consider "m < 10" | "10 \<le> m" "m < 100" | "100 \<le> m" "m < 1000" using m(2) by linarith
  then have "parse_octet (str_nat m) = Some (int m)"
  proof cases
    case 1
    then show ?thesis by (auto simp: str_nat_cases parse_octet_def digit_char)
  next
    case 2
    then have "m div 10 < 10" "m div 10 \<noteq> 0" by auto
    then show ?thesis
      using 2 m(2) last_digit [of m] by (simp add: str_nat_cases parse_octet_def digit_char Let_def)
  next
    case 3
    then have "m div 100 < 10" "m div 100 \<noteq> 0" by auto
    moreover have "m div 10 div 10 = m div 100" using div_mult2_eq [of m 10 10] by simp
    ultimately show ?thesis
      using 3 m(2) last_digit [of m] last_digit [of "m div 10"]
      by (simp add: str_nat_cases parse_octet_def digit_char Let_def)
  qed
  then show ?thesis using m by simp
qed

lemma octet_text_plain: "octet n \<Longrightarrow> c \<in> set (str_int n) \<Longrightarrow> digit c"
  using parse_octet_str [of n] by (auto simp: parse_octet_def list_all_iff split: if_splits)

lemma parse_dotted:
  assumes "octet a" "octet b" "octet c" "octet d"
  shows "parse_ip (dotted a b c d) = Some (V4 (v4 a b c d))"
proof -
  have dot: "CHR ''.'' \<notin> set (str_int n)" if "octet n" for n
    using octet_text_plain [OF that, of "CHR ''.''"] by (auto simp: digit_def)
  have "split_on (CHR ''.'') (dotted a b c d) = [str_int a, str_int b, str_int c, str_int d]"
    using assms by (simp add: dotted_def split_on_append dot split_on_single)
  then show ?thesis using assms by (simp add: parse_ip_def parse_v4_def parse_octet_str)
qed

section \<open>Properties\<close>

text \<open>
  The check of a dotted IPv4 text is exact: it accepts the default Docker bridge 172.17.0.0/16
  and otherwise exactly the addresses outside this-network, private, shared, loopback, link-local,
  multicast and reserved space, read from the first two octets.
\<close>

theorem dotted_safe_exact:
  assumes "octet a" "octet b" "octet c" "octet d"
  shows "is_safe_ip (dotted a b c d) \<longleftrightarrow>
    (a = 172 \<and> b = 17) \<or>
    \<not> (a = 0 \<or> a = 10 \<or> a = 127 \<or> 224 \<le> a \<or> (a = 100 \<and> 64 \<le> b \<and> b < 128) \<or> (a = 169 \<and> b = 254)
       \<or> (a = 172 \<and> 16 \<le> b \<and> b < 32) \<or> (a = 192 \<and> b = 168))"
proof -
  have u: "uint (v4 a b c d) = ((a * 256 + b) * 256 + c) * 256 + d"
    using assms by (simp add: octet_def uint_v4)
  have "uint (v4 a b c d) div 2 ^ 24 = a" using assms by (simp add: u octet_def div_between)
  moreover have "uint (v4 a b c d) div 2 ^ 16 = a * 256 + b"
    using assms unfolding u octet_def by (simp add: div_between)
  moreover have "(a * 256 + b) mod 256 = b" using assms by (simp add: octet_def)
  ultimately have "uint (v4 a b c d) div 2 ^ 24 = a" "uint (v4 a b c d) div 2 ^ 16 mod 256 = b"
    by simp_all
  then show ?thesis
    using assms by (simp add: is_safe_ip_def parse_dotted safe_v4_octets Let_def disj_assoc)
qed

text \<open>
  C9. The check of an IPv6 address is exact: one that maps an IPv4 address is judged as that address;
  any other is accepted exactly when it is in the global unicast space 2000::/3 or in the deprecated
  site-local space fec0::/10.
\<close>

theorem v6_safe_exact:
  "safe_address (V6 a) \<longleftrightarrow>
     (if drop_bit 32 a = 0xFFFF then safe_address (V4 (ucast a))
      else uint a div 2 ^ 112 div 2 ^ 13 = 1 \<or> uint a div 2 ^ 112 div 2 ^ 6 = 1019)"
proof (cases "drop_bit 32 a = 0xFFFF")
  case True
  then show ?thesis by (simp add: safe_address_def)
qed (simp add: safe_v6_groups)

lemma check_records_Inr:
  "check_records rs first = Inr r \<longleftrightarrow> list_all (\<lambda>r. is_safe_ip (snd r)) rs
     \<and> r = (if first = None then map_option snd (find fst rs) else first)"
  by (induction rs first rule: check_records.induct) auto

lemma empty_unsafe: "\<not> is_safe_ip ''''"
  by (simp add: is_safe_ip_def parse_ip_def parse_v4_def parse_v6_def drop_zone_def)

lemma resolved_safe:
  assumes "resolve_and_check answer = Inr ip"
  shows "\<exists>rs. answer = Some rs \<and> list_all (\<lambda>r. is_safe_ip (snd r)) rs
    \<and> ip = (case find fst rs of Some r \<Rightarrow> snd r | None \<Rightarrow> snd (hd rs)) \<and> ip \<in> snd ` set rs"
proof -
  obtain rs r where rs: "answer = Some rs" "rs \<noteq> []" "check_records rs None = Inr r"
    "ip = (case r of None \<Rightarrow> snd (hd rs) | Some i \<Rightarrow> if i = '''' then snd (hd rs) else i)"
    using assms by (auto simp: resolve_and_check_def split: option.splits if_splits sum.splits)
  have all: "list_all (\<lambda>r. is_safe_ip (snd r)) rs" and r: "r = map_option snd (find fst rs)"
    using rs(3) by (simp_all add: check_records_Inr)
  show ?thesis
  proof (cases "find fst rs")
    case None
    then show ?thesis using rs(1,2,4) all r by simp
  next
    case (Some q)
    then have q: "q \<in> set rs" by (auto simp: find_Some_iff)
    then have "snd q \<noteq> ''''" using all empty_unsafe by (auto simp: list_all_iff)
    then show ?thesis using rs(1,4) all r Some q by auto
  qed
qed

lemma layout_first:
  assumes "layout parts = Some (hi, n, lo)" and "hd parts \<noteq> ''''"
  shows "\<exists>rest. hi = hd parts # rest"
proof -
  have ne: "1 \<le> i \<and> i < length parts - 1" if "inner_empty parts = [i]" for i
  proof -
    have "i \<in> set (inner_empty parts)" by (simp add: that)
    then show ?thesis by (simp add: inner_empty_def)
  qed
  show ?thesis
  proof (cases "inner_empty parts")
    case Nil
    then have "hi = parts" "length parts = 8" using assms by (auto simp: layout_def split: if_splits)
    then show ?thesis by (cases parts) auto
  next
    case (Cons i js)
    then have "js = []" using assms by (auto simp: layout_def split: list.splits)
    with Cons have i: "1 \<le> i" "i < length parts - 1" and "hi = take i parts"
      using assms ne [of i] by (auto simp: layout_def Let_def split: if_splits)
    then show ?thesis by (cases parts; cases i) auto
  qed
qed

lemma safe_no_bracket: "is_safe_ip ip \<Longrightarrow> ip = c # cs \<Longrightarrow> c \<noteq> CHR ''[''"
proof
  assume safe: "is_safe_ip ip" and ip: "ip = c # cs" and c: "c = CHR ''[''"
  have first: "\<exists>p ps. split_on d ip = (c # p) # ps" if "c \<noteq> d" for d
    using that by (cases "split_on d cs") (auto simp: ip)
  obtain p ps where p: "split_on (CHR ''.'') ip = (c # p) # ps" using first [of "CHR ''.''"] c by auto
  have "parse_octet (c # p) = None" by (simp add: parse_octet_def c digit_def)
  then have v4: "parse_v4 ip = None" using p by (auto simp: parse_v4_def split: list.splits)
  obtain a as where a: "split_on (CHR ''%'') ip = (c # a) # as" using first [of "CHR ''%''"] c by auto
  obtain q qs where q: "split_on (CHR '':'') (c # a) = (c # q) # qs"
    using c by (cases "split_on (CHR '':'') a") auto
  have "parse_v6 ip = None"
  proof (rule ccontr)
    assume "parse_v6 ip \<noteq> None"
    then obtain addr front rest where "drop_zone ip = Some addr" and l: "3 \<le> length (split_on (CHR '':'') addr)"
      and em: "embedded_v4 (split_on (CHR '':'') addr) = Some (front, rest)" and as: "assemble front rest \<noteq> None"
      by (auto simp: parse_v6_def not_less split: option.splits if_splits)
    then have "addr = c # a" using a by (auto simp: drop_zone_def split: list.splits if_splits)
    then have "\<exists>fs. front = (c # q) # fs"
      using em l q by (auto simp: embedded_v4_def split: if_splits)
    then obtain fs where f: "front = (c # q) # fs" ..
    obtain hi gap lo his where "layout (front @ map (\<lambda>_. ''0'') rest) = Some (hi, gap, lo)" "hextets hi = Some his"
      using as by (auto simp: assemble_def Let_def split: if_splits option.splits)
    moreover from layout_first [OF this(1)] have "\<exists>r. hi = (c # q) # r" by (simp add: f)
    moreover have "parse_hextet (c # q) = None" by (simp add: parse_hextet_def c hex_value_def)
    ultimately show False by auto
  qed
  then show False using safe v4 by (simp add: is_safe_ip_def parse_ip_def)
qed

lemma unbracket_safe: "is_safe_ip ip \<Longrightarrow> unbracket ip = ip"
  using safe_no_bracket by (cases ip) (auto simp: unbracket_def)

lemma connection_port:
  assumes "CHR '':'' \<notin> set port" and "CHR '']'' \<notin> set port"
  shows "connection_host d (ip @ '':'' @ port) = map_option (Pair (unbracket ip)) (if port = '''' then Some d else py_int port)"
proof -
  have "takeWhile (\<lambda>c. c \<noteq> CHR '':'') (rev port @ CHR '':'' # rev ip) = rev port"
    using assms(1) by (subst takeWhile_append2) auto
  then show ?thesis using assms(2) by (simp add: connection_host_def Let_def option.map_comp comp_def)
qed

lemma connection_no_port: "CHR '':'' \<notin> set ip \<Longrightarrow> connection_host d ip = Some (unbracket ip, d)"
  by (simp add: connection_host_def)

text \<open>
  C8. Outgoing connections are pinned to a checked address: an HTTPS or HTTP request that is let through
  connects to an address the resolver gave for its host name, every address of that answer is safe, and
  the first IPv4 one is preferred; the name it presents is the one that was resolved, and the port is the
  one of the URL. The exception is plain HTTP on port 80 to a host without an IPv4 address, whose
  unbracketed address is read otherwise (\<open>http_v6_misread\<close> below). The URL's authority holds no bracket
  and the request goes through no proxy.
\<close>

theorem requests_pinned_to_safe:
  fixes tls host
  defines "port \<equiv> if CHR '':'' \<in> set host then split_on (CHR '':'') host ! 1 else if tls then ''443'' else ''80''"
  assumes "pinned_open tls dns host = Inr (target, presented)"
    and "connection_host (if tls then 443 else 80) target = Some (h, p)" and "CHR '']'' \<notin> set host"
  shows "\<exists>rs ip. dns presented = Some rs \<and> presented = hd (split_on (CHR '':'') host)
    \<and> list_all (\<lambda>r. is_safe_ip (snd r)) rs \<and> ip \<in> snd ` set rs
    \<and> ip = (case find fst rs of Some r \<Rightarrow> snd r | None \<Rightarrow> snd (hd rs))
    \<and> (tls \<or> port \<noteq> ''80'' \<or> CHR '':'' \<notin> set ip \<longrightarrow>
         h = ip \<and> (if port = '''' then p = (if tls then 443 else 80) else py_int port = Some p))"
proof -
  let ?name = "hd (split_on (CHR '':'') host)"
  obtain ip where ip: "resolve_and_check (dns ?name) = Inr ip" and pr: "presented = ?name"
    and t: "target = (if tls \<or> port \<noteq> ''80'' then ip @ '':'' @ port else ip)"
    using assms(2) by (auto simp: pinned_open_def https_open_def http_open_def port_def Let_def split: sum.splits if_splits)
  have "port \<in> set (split_on (CHR '':'') host) \<or> port = ''443'' \<or> port = ''80''"
    using split_on_length [of "CHR '':''" host] by (auto simp: port_def)
  then have plain: "CHR '':'' \<notin> set port" "CHR '']'' \<notin> set port"
    using split_on_parts split_on_subset [of port "CHR '':''" host] assms(4) by auto
  have "py_int ''80'' = Some 80" by code_simp
  then have hp: "h = ip \<and> (if port = '''' then p = (if tls then 443 else 80) else py_int port = Some p)"
    if "tls \<or> port \<noteq> ''80'' \<or> CHR '':'' \<notin> set ip" "is_safe_ip ip"
    using that assms(3) connection_port [OF plain] connection_no_port [of ip] unbracket_safe [OF that(2)]
    by (cases "tls \<or> port \<noteq> ''80''") (auto simp: t split: if_splits)
  obtain rs where rs: "dns ?name = Some rs" "list_all (\<lambda>r. is_safe_ip (snd r)) rs"
      "ip = (case find fst rs of Some r \<Rightarrow> snd r | None \<Rightarrow> snd (hd rs))" "ip \<in> snd ` set rs"
    using resolved_safe [OF ip] by blast
  then have "is_safe_ip ip" by (auto simp: list_all_iff)
  then show ?thesis using rs hp pr by blast
qed

lemma dotted_safe_exact_witness:
  "\<not> is_safe_ip (dotted 172 18 0 1) \<and> octet 172 \<and> octet 18"
  using dotted_safe_exact [of 172 18 0 1] by (simp add: octet_def)

lemma requests_pinned_to_safe_witness:
  "\<exists>target p. pinned_open False (\<lambda>_. Some [(True, dotted 8 8 8 8)]) ''a.b'' = Inr (target, ''a.b'')
     \<and> connection_host 80 target = Some (dotted 8 8 8 8, p)"
proof -
  have s: "is_safe_ip (dotted 8 8 8 8)" using parse_dotted [of 8 8 8 8] by (simp add: is_safe_ip_def octet_def safe_v4_octets v4_def)
  then have "dotted 8 8 8 8 \<noteq> ''''" using empty_unsafe by auto
  with s have e: "pinned_open False (\<lambda>_. Some [(True, dotted 8 8 8 8)]) ''a.b'' = Inr (dotted 8 8 8 8, ''a.b'')"
    by (simp add: pinned_open_def http_open_def resolve_and_check_def)
  have c: "connection_host (if False then 443 else 80) (dotted 8 8 8 8) = Some (dotted 8 8 8 8, 80)" by code_simp
  have "CHR '':'' \<notin> set (dotted 8 8 8 8)" by code_simp
  with requests_pinned_to_safe [OF e c] show ?thesis using e c by auto
qed

text \<open>
  Over plain HTTP on port 80 an answer with IPv6 addresses only goes wrong: the last group is read as the
  port, so the connection is to another, unchecked address, or to none.
\<close>

lemma http_v6_misread:
  "pinned_open False (\<lambda>_. Some [(False, ''2606::1:50'')]) ''a.b'' = Inr (''2606::1:50'', ''a.b'')"
  "connection_host 80 ''2606::1:50'' = Some (''2606::1'', 50)"
  "connection_host 80 ''2606::ab'' = None"
  by code_simp+

text \<open>
  Observations: site-local addresses pass; the prefix test of a URL accepts hosts that the address
  check refuses and refuses public names; a literal IPv6 authority is cut at its first colon.
\<close>

lemma site_local_passes: "is_safe_ip ''fec0::1''"
  by code_simp

lemma url_check_misses:
  "is_safe_url (Some (''http'', Some ''::ffff:127.0.0.1'')) \<and> \<not> is_safe_ip ''::ffff:127.0.0.1''"
  "is_safe_url (Some (''http'', Some ''100.64.0.1'')) \<and> \<not> is_safe_ip ''100.64.0.1''"
  "is_safe_url (Some (''http'', Some ''fd12::1'')) \<and> \<not> is_safe_ip ''fd12::1''"
  by code_simp+

lemma url_check_refuses_public_name: "\<not> is_safe_url (Some (''https'', Some ''10.example.com''))"
  by (simp add: is_safe_url_def FORBIDDEN_IP_PREFIXES_def has_prefix_def Let_def)

lemma literal_v6_cut: "hd (split_on (CHR '':'') ''[2606:4700::1111]:8080'') = ''[2606''"
  by simp

end
