(* ===== verification/SessionToken.thy ===== *)
theory SessionToken
  imports Capability
begin

text \<open>
  Signed sessions (\<^verbatim>\<open>obase/signed_token_session.py\<close>): creating, verifying, refreshing and revoking
  tokens of three base64 parts. The MAC and the JSON text codec are those of the capability tokens;
  clock readings and fresh session identifiers are arguments. Claims are a dictionary that is merged
  over the standard entries, as in the code. The revoked identifiers are kept as Python hashes them.
\<close>

section \<open>Managers and payloads\<close>

datatype token_error = Empty_secret_error | Empty_user | Nonpositive_ttl | Malformed | Bad_signature
  | Bad_payload | Expired | Revoked | Raised

record manager =
  mgr_secret :: string
  mgr_issuer :: string
  leeway :: rat
  revoked_sids :: "json list"

definition new_manager :: "string \<Rightarrow> string \<Rightarrow> rat \<Rightarrow> token_error + manager" where
  "new_manager sec iss lw = (if sec = '''' then Inl Empty_secret_error
     else Inr \<lparr>mgr_secret = sec, mgr_issuer = iss, leeway = lw, revoked_sids = []\<rparr>)"

text \<open>Numbers that are equal hash alike, booleans among them; lists and dictionaries do not hash.\<close>

fun hash_key :: "json \<Rightarrow> json option" where
  "hash_key (JBool b) = Some (JFloat (if b then 1 else 0))"
| "hash_key (JInt i) = Some (JFloat (of_int i))"
| "hash_key (JList _) = None"
| "hash_key (JDict _) = None"
| "hash_key j = Some j"

fun as_number :: "json \<Rightarrow> rat option" where
  "as_number (JInt i) = Some (of_int i)"
| "as_number (JFloat r) = Some r"
| "as_number (JBool b) = Some (if b then 1 else 0)"
| "as_number _ = None"

definition header :: json where
  "header = JDict [(''alg'', JStr ''HS256''), (''typ'', JStr ''JWT'')]"

definition payload_of :: "manager \<Rightarrow> json \<Rightarrow> rat \<Rightarrow> jdict \<Rightarrow> string option \<Rightarrow> string \<Rightarrow> rat \<Rightarrow> jdict" where
  "payload_of m user ttl claims sid fresh now =
     dict_update [(''iss'', JStr (mgr_issuer m)), (''sub'', user), (''iat'', JFloat now), (''exp'', JFloat (now + ttl)),
       (''sid'', JStr (case sid of None \<Rightarrow> fresh | Some s \<Rightarrow> if s = '''' then fresh else s))] claims"

definition b64_json :: "token_codec \<Rightarrow> json \<Rightarrow> string" where
  "b64_json C j = b64e (dumps C j)"

definition encode :: "token_codec \<Rightarrow> manager \<Rightarrow> jdict \<Rightarrow> string" where
  "encode C m payload =
     (let signing_input = b64_json C header @ ''.'' @ b64_json C (JDict payload)
      in signing_input @ ''.'' @ sign C (mgr_secret m) signing_input)"

definition create_token :: "token_codec \<Rightarrow> manager \<Rightarrow> json \<Rightarrow> rat \<Rightarrow> jdict \<Rightarrow> string option \<Rightarrow> string \<Rightarrow> rat \<Rightarrow>
    token_error + string" where
  "create_token C m user ttl claims sid fresh now =
     (if \<not> truthy user then Inl Empty_user
      else if ttl \<le> 0 then Inl Nonpositive_ttl
      else Inr (encode C m (payload_of m user ttl claims sid fresh now)))"

section \<open>Verifying, refreshing, revoking\<close>

definition check_payload :: "manager \<Rightarrow> rat \<Rightarrow> jdict \<Rightarrow> token_error + jdict" where
  "check_payload m now p =
     (case as_number (case dict_get p ''exp'' of None \<Rightarrow> JInt 0 | Some j \<Rightarrow> j) of
        None \<Rightarrow> Inl Raised
      | Some expiry \<Rightarrow>
          if expiry < now - leeway m then Inl Expired
          else (case hash_key (case dict_get p ''sid'' of None \<Rightarrow> JStr '''' | Some j \<Rightarrow> j) of
              None \<Rightarrow> Inl Raised
            | Some k \<Rightarrow> if k \<in> set (revoked_sids m) then Inl Revoked else Inr p))"

definition read_part :: "token_codec \<Rightarrow> string \<Rightarrow> json option" where
  "read_part C p = (if ascii p then Option.bind (b64d p) (loads C) else None)"

definition verify_token :: "token_codec \<Rightarrow> manager \<Rightarrow> rat \<Rightarrow> string \<Rightarrow> token_error + jdict" where
  "verify_token C m now tok =
     (case split_on (CHR ''.'') tok of
        [h, p, s] \<Rightarrow>
          (if \<not> ascii s then Inl Raised
           else if s \<noteq> sign C (mgr_secret m) (h @ ''.'' @ p) then Inl Bad_signature
           else (case read_part C p of
               None \<Rightarrow> Inl Bad_payload
             | Some (JDict d) \<Rightarrow> check_payload m now d
             | Some _ \<Rightarrow> Inl Raised))
      | _ \<Rightarrow> Inl Malformed)"

definition reserved :: "string list" where
  "reserved = [''iss'', ''sub'', ''iat'', ''exp'', ''sid'']"

definition refresh_token :: "token_codec \<Rightarrow> manager \<Rightarrow> string \<Rightarrow> rat \<Rightarrow> string \<Rightarrow> rat \<Rightarrow> rat \<Rightarrow> token_error + string" where
  "refresh_token C m tok ttl fresh now now' =
     bindE (verify_token C m now tok) (\<lambda>p.
       case dict_get p ''sub'' of
         None \<Rightarrow> Inl Raised
       | Some sub \<Rightarrow> create_token C m sub ttl (filter (\<lambda>(k, _). k \<notin> set reserved) p) None fresh now')"

definition revoke_session :: "json \<Rightarrow> manager \<Rightarrow> manager" where
  "revoke_session k m = m\<lparr>revoked_sids := (if k \<in> set (revoked_sids m) then revoked_sids m else k # revoked_sids m)\<rparr>"

definition revoke_token :: "token_codec \<Rightarrow> string \<Rightarrow> manager \<Rightarrow> manager \<times> (token_error + bool)" where
  "revoke_token C tok m =
     (case split_on (CHR ''.'') tok of
        [h, p, s] \<Rightarrow>
          (case read_part C p of
             None \<Rightarrow> (m, Inr False)
           | Some (JDict d) \<Rightarrow>
               (case dict_get d ''sid'' of
                  None \<Rightarrow> (m, Inr False)
                | Some sid \<Rightarrow> if \<not> truthy sid then (m, Inr False)
                    else (case hash_key sid of None \<Rightarrow> (m, Inl Raised) | Some k \<Rightarrow> (revoke_session k m, Inr True)))
           | Some _ \<Rightarrow> (m, Inl Raised))
      | _ \<Rightarrow> (m, Inr False))"

definition manager_health :: "manager \<Rightarrow> jdict" where
  "manager_health m = [(''status'', JStr ''healthy''), (''issuer'', JStr (mgr_issuer m)),
     (''revoked_sessions'', JInt (int (length (revoked_sids m))))]"

section \<open>Tokens in parts\<close>

lemma b64_json_chars: "codec_ok C \<Longrightarrow> CHR ''.'' \<notin> set (b64_json C j) \<and> ascii (b64_json C j)"
  unfolding b64_json_def by (rule b64e_chars) (simp add: codec_ok_def)

lemma b64_json_round: "codec_ok C \<Longrightarrow> read_part C (b64_json C j) = Some j"
  using b64_json_chars [of C j] by (simp add: read_part_def b64_json_def codec_ok_def b64_round)

lemma encode_parts:
  assumes "codec_ok C"
  shows "split_on (CHR ''.'') (encode C m p) = [b64_json C header, b64_json C (JDict p),
    sign C (mgr_secret m) (b64_json C header @ ''.'' @ b64_json C (JDict p))]"
  using b64_json_chars [OF assms] sign_chars [OF assms]
  by (simp add: encode_def Let_def split_on_append split_on_single)

lemma verify_encoded: "codec_ok C \<Longrightarrow> mgr_secret m' = mgr_secret m \<Longrightarrow>
    verify_token C m' now (encode C m p) = check_payload m' now p"
  using sign_chars [of C] by (simp add: verify_token_def encode_parts b64_json_round)

lemma created_encoded: "create_token C m user ttl claims sid fresh now = Inr tok \<Longrightarrow>
    tok = encode C m (payload_of m user ttl claims sid fresh now) \<and> truthy user \<and> 0 < ttl"
  by (auto simp: create_token_def split: if_splits)

lemma payload_entries:
  assumes "\<forall>k \<in> set reserved. k \<notin> fst ` set claims"
  shows "dict_get (payload_of m user ttl claims sid fresh now) ''exp'' = Some (JFloat (now + ttl))"
    "dict_get (payload_of m user ttl claims sid fresh now) ''sub'' = Some user"
    "dict_get (payload_of m user ttl claims sid fresh now) ''sid''
      = Some (JStr (case sid of None \<Rightarrow> fresh | Some s \<Rightarrow> if s = '''' then fresh else s))"
proof -
  have "dict_get (rev claims) k = None" if "k \<in> set reserved" for k
    using assms that by (force simp: map_of_eq_None_iff)
  then show "dict_get (payload_of m user ttl claims sid fresh now) ''exp'' = Some (JFloat (now + ttl))"
    "dict_get (payload_of m user ttl claims sid fresh now) ''sub'' = Some user"
    "dict_get (payload_of m user ttl claims sid fresh now) ''sid''
      = Some (JStr (case sid of None \<Rightarrow> fresh | Some s \<Rightarrow> if s = '''' then fresh else s))"
    by (simp_all add: payload_of_def dict_update_get reserved_def)
qed

lemma distinct_update_all: "distinct (map fst d) \<Longrightarrow> distinct (map fst (dict_update d u))"
  by (induction u arbitrary: d) (auto simp: dict_update_def distinct_update)

lemma payload_distinct: "distinct (map fst (payload_of m user ttl claims sid fresh now))"
  unfolding payload_of_def by (rule distinct_update_all) simp

lemma rev_get: "distinct (map fst d) \<Longrightarrow> dict_get (rev d) k = dict_get d k"
  by (rule map_of_inject_set [THEN iffD2, THEN fun_cong]) (simp_all add: rev_map [symmetric])

lemma filter_get: "dict_get (filter (\<lambda>(k, _). P k) d) k = (if P k then dict_get d k else None)"
  by (induction d) auto

lemma check_payload_Inr: "check_payload m now p = Inr q \<longleftrightarrow>
    q = p \<and> (\<exists>expiry k. as_number (case dict_get p ''exp'' of None \<Rightarrow> JInt 0 | Some j \<Rightarrow> j) = Some expiry
      \<and> now - leeway m \<le> expiry \<and> hash_key (case dict_get p ''sid'' of None \<Rightarrow> JStr '''' | Some j \<Rightarrow> j) = Some k
      \<and> k \<notin> set (revoked_sids m))"
  by (auto simp: check_payload_def split: option.splits)

lemma verify_Inr: "verify_token C m now tok = Inr q \<longleftrightarrow>
    (\<exists>h p s. split_on (CHR ''.'') tok = [h, p, s] \<and> ascii s \<and> s = sign C (mgr_secret m) (h @ ''.'' @ p)
       \<and> read_part C p = Some (JDict q) \<and> check_payload m now q = Inr q)"
proof
  assume "verify_token C m now tok = Inr q"
  then show "\<exists>h p s. split_on (CHR ''.'') tok = [h, p, s] \<and> ascii s \<and> s = sign C (mgr_secret m) (h @ ''.'' @ p)
       \<and> read_part C p = Some (JDict q) \<and> check_payload m now q = Inr q"
    by (auto simp: verify_token_def check_payload_Inr split: list.splits if_splits option.splits json.splits)
qed (auto simp: verify_token_def)

lemma refreshed:
  assumes "refresh_token C m tok ttl fresh now now' = Inr tok'"
  shows "\<exists>p sub. verify_token C m now tok = Inr p \<and> dict_get p ''sub'' = Some sub \<and> 0 < ttl
    \<and> tok' = encode C m (payload_of m sub ttl (filter (\<lambda>(k, _). k \<notin> set reserved) p) None fresh now')"
  using assms created_encoded
  by (fastforce simp: refresh_token_def bindE_Inr split: option.splits)

section \<open>Properties\<close>

text \<open>
  A session token verifies to exactly what it was created with, wherever the secret is shared,
  until it has expired beyond the leeway or its session was revoked.
\<close>

theorem session_round_trip:
  assumes "codec_ok C" and "create_token C m user ttl claims sid fresh now = Inr tok"
    and "\<forall>k \<in> set reserved. k \<notin> fst ` set claims" and "mgr_secret m' = mgr_secret m"
  shows "verify_token C m' now' tok =
    (if now + ttl < now' - leeway m' then Inl Expired
     else if JStr (case sid of None \<Rightarrow> fresh | Some s \<Rightarrow> if s = '''' then fresh else s) \<in> set (revoked_sids m')
     then Inl Revoked
     else Inr (payload_of m user ttl claims sid fresh now))"
proof -
  have "tok = encode C m (payload_of m user ttl claims sid fresh now)"
    using created_encoded [OF assms(2)] by simp
  then show ?thesis
    using verify_encoded [OF assms(1,4)] by (simp add: check_payload_def payload_entries [OF assms(3)])
qed

text \<open>
  Refreshing keeps the session: the new token verifies until its own end, with the subject and
  all the claims of the old one, unless the fresh session identifier was itself revoked.
\<close>

theorem refresh_keeps_claims:
  assumes "codec_ok C" and "create_token C m user ttl claims sid f now = Inr tok"
    and "refresh_token C m tok ttl' fresh now1 now2 = Inr tok'"
    and "now3 - leeway m \<le> now2 + ttl'" and "JStr fresh \<notin> set (revoked_sids m)"
  shows "\<exists>p p'. verify_token C m now1 tok = Inr p \<and> verify_token C m now3 tok' = Inr p'
    \<and> dict_get p' ''sub'' = dict_get p ''sub'' \<and> (\<forall>k. k \<notin> set reserved \<longrightarrow> dict_get p' k = dict_get p k)
    \<and> dict_get p' ''sid'' = Some (JStr fresh)"
proof -
  obtain p sub where p: "verify_token C m now1 tok = Inr p" "dict_get p ''sub'' = Some sub"
    and t: "tok' = encode C m (payload_of m sub ttl' (filter (\<lambda>(k, _). k \<notin> set reserved) p) None fresh now2)"
    using refreshed [OF assms(3)] by blast
  let ?c = "filter (\<lambda>(k, _). k \<notin> set reserved) p"
  let ?q = "payload_of m sub ttl' ?c None fresh now2"
  have "p = payload_of m user ttl claims sid f now"
    using p(1) created_encoded [OF assms(2)] verify_encoded [OF assms(1) refl] by (simp add: check_payload_Inr)
  then have d: "distinct (map fst p)" by (simp add: payload_distinct)
  have "distinct (map fst ?c)" using d by (simp add: distinct_map_filter)
  then have g: "dict_get (rev ?c) k = (if k \<notin> set reserved then dict_get p k else None)" for k
    by (simp add: rev_get filter_get)
  have res: "\<forall>k \<in> set reserved. k \<notin> fst ` set ?c" by auto
  have "verify_token C m now3 tok' = Inr ?q"
    using verify_encoded [OF assms(1) refl] assms(4,5) payload_entries [OF res]
    by (simp add: t check_payload_Inr)
  moreover have "dict_get ?q k = dict_get p k" if "k \<notin> set reserved" for k
    unfolding payload_of_def dict_update_get g using that by (simp add: reserved_def split: option.split)
  ultimately show ?thesis using p payload_entries [OF res] by auto
qed

text \<open>
  Revocation holds: once a token's session was revoked, no manager with the same secret that
  remembers this revocation accepts the token at any time.
\<close>

theorem revoked_never_verifies:
  assumes "revoke_token C tok m = (m1, Inr True)" and "set (revoked_sids m1) \<subseteq> set (revoked_sids m2)"
  shows "verify_token C m2 now tok \<noteq> Inr p"
proof
  assume v: "verify_token C m2 now tok = Inr p"
  obtain h q s where parts: "split_on (CHR ''.'') tok = [h, q, s]" and d: "read_part C q = Some (JDict p)"
    and c: "check_payload m2 now p = Inr p"
    using v by (auto simp: verify_Inr)
  obtain sid k where "dict_get p ''sid'' = Some sid" "hash_key sid = Some k" "m1 = revoke_session k m"
    using assms(1) parts d by (auto simp: revoke_token_def split: option.splits if_splits)
  moreover from this have "k \<in> set (revoked_sids m1)" by (simp add: revoke_session_def)
  ultimately show False using c assms(2) by (auto simp: check_payload_Inr)
qed

definition ex_manager :: manager where
  "ex_manager = \<lparr>mgr_secret = ''s'', mgr_issuer = ''veya'', leeway = 30, revoked_sids = []\<rparr>"

definition ex_session :: string where
  "ex_session = encode ex_codec ex_manager (payload_of ex_manager (JStr ''u'') 60 [(''role'', JStr ''a'')] (Some ''s1'') ''f'' 0)"

lemma ex_created: "create_token ex_codec ex_manager (JStr ''u'') 60 [(''role'', JStr ''a'')] (Some ''s1'') ''f'' 0 = Inr ex_session"
  by (simp add: create_token_def ex_session_def)

lemma session_round_trip_witness:
  "verify_token ex_codec ex_manager 90 ex_session
     = Inr (payload_of ex_manager (JStr ''u'') 60 [(''role'', JStr ''a'')] (Some ''s1'') ''f'' 0)
   \<and> verify_token ex_codec ex_manager 91 ex_session = Inl Expired"
  using session_round_trip [OF ex_codec_ok ex_created _ refl, of 90]
    session_round_trip [OF ex_codec_ok ex_created _ refl, of 91]
  by (simp add: reserved_def ex_manager_def)

lemma ex_verified: "verify_token ex_codec ex_manager 10 ex_session
    = Inr (payload_of ex_manager (JStr ''u'') 60 [(''role'', JStr ''a'')] (Some ''s1'') ''f'' 0)"
  unfolding ex_session_def verify_encoded [OF ex_codec_ok refl]
  by (simp add: check_payload_def payload_of_def dict_update_def ex_manager_def)

lemma refresh_keeps_claims_witness:
  "\<exists>tok' p'. refresh_token ex_codec ex_manager ex_session 60 ''f2'' 10 20 = Inr tok'
     \<and> verify_token ex_codec ex_manager 100 tok' = Inr p' \<and> dict_get p' ''role'' = Some (JStr ''a'')"
proof -
  obtain tok' where r: "refresh_token ex_codec ex_manager ex_session 60 ''f2'' 10 20 = Inr tok'"
    by (simp add: refresh_token_def ex_verified create_token_def payload_of_def dict_update_def)
  have "\<exists>p p'. verify_token ex_codec ex_manager 10 ex_session = Inr p \<and> verify_token ex_codec ex_manager 100 tok' = Inr p'
    \<and> dict_get p' ''sub'' = dict_get p ''sub'' \<and> (\<forall>k. k \<notin> set reserved \<longrightarrow> dict_get p' k = dict_get p k)
    \<and> dict_get p' ''sid'' = Some (JStr ''f2'')"
    by (rule refresh_keeps_claims [OF ex_codec_ok ex_created r]) (simp_all add: ex_manager_def)
  then obtain p' where p': "verify_token ex_codec ex_manager 100 tok' = Inr p'"
    "\<forall>k. k \<notin> set reserved \<longrightarrow> dict_get p' k
       = dict_get (payload_of ex_manager (JStr ''u'') 60 [(''role'', JStr ''a'')] (Some ''s1'') ''f'' 0) k"
    by (auto simp: ex_verified)
  have "''role'' \<notin> set reserved" by (simp add: reserved_def)
  with p' r show ?thesis by (auto simp: payload_of_def dict_update_def)
qed

lemma ex_revoked: "\<exists>m1. revoke_token ex_codec ex_session ex_manager = (m1, Inr True) \<and> revoked_sids m1 = [JStr ''s1'']"
  unfolding ex_session_def revoke_token_def encode_parts [OF ex_codec_ok]
  by (simp add: b64_json_round [OF ex_codec_ok] payload_of_def dict_update_def revoke_session_def ex_manager_def)

lemma revoked_never_verifies_witness:
  "\<exists>m1. revoke_token ex_codec ex_session ex_manager = (m1, Inr True)
     \<and> verify_token ex_codec m1 5 ex_session \<noteq> Inr []
     \<and> verify_token ex_codec m1 5 ex_session
         \<noteq> Inr (payload_of ex_manager (JStr ''u'') 60 [(''role'', JStr ''a'')] (Some ''s1'') ''f'' 0)"
  using ex_revoked revoked_never_verifies [of ex_codec ex_session ex_manager] by blast

text \<open>
  Observations: claims may replace the standard entries, so a token can outlive the duration it was
  given; and revoking reads the session identifier without looking at the signature.
\<close>

lemma claims_outlive_ttl:
  "\<exists>tok. create_token ex_codec ex_manager (JStr ''u'') 1 [(''exp'', JFloat 100000)] None ''f'' 0 = Inr tok
     \<and> (\<exists>p. verify_token ex_codec ex_manager 99999 tok = Inr p)"
  using verify_encoded [OF ex_codec_ok refl, of ex_manager 99999]
  by (simp add: create_token_def check_payload_def payload_of_def dict_update_def ex_manager_def)

lemma revoke_ignores_signature:
  "split_on (CHR ''.'') a = [h, p, s] \<Longrightarrow> split_on (CHR ''.'') b = [h, p, t] \<Longrightarrow> revoke_token C a m = revoke_token C b m"
  by (simp add: revoke_token_def)

end
