(* ===== verification/AcpAdapter.thy ===== *)
theory AcpAdapter
  imports HarnessValues
begin

text \<open>
  The client side of the Agent Client Protocol (\<^verbatim>\<open>obase/acp_adapter.py\<close>): sessions, turns, cancellation,
  resuming, closing, capabilities and the projection of a turn to a harness result. An operation
  that awaits the transport is split there into the part before the message is sent and the part
  after the reply, and coroutines interleave between the parts. What the transport answers, fresh
  identifiers, the clock and the text of a JSON value are arguments.
\<close>

section \<open>Messages and replies\<close>

datatype acp_error = Protocol_error | Unknown_session | Empty_turn | Missing_key | Transport_raised | Not_a_mapping

datatype reply = No_transport | Transport_exception | Reply json

fun read_reply :: "reply \<Rightarrow> acp_error + json" where
  "read_reply No_transport = Inl Protocol_error"
| "read_reply Transport_exception = Inl Transport_raised"
| "read_reply (Reply (JDict d)) =
     (if truthy (case dict_get d ''error'' of None \<Rightarrow> JNull | Some e \<Rightarrow> e) then Inl Protocol_error
      else Inr (case dict_get d ''result'' of None \<Rightarrow> JDict d | Some r \<Rightarrow> r))"
| "read_reply (Reply j) = Inr j"

definition message :: "string \<Rightarrow> string \<Rightarrow> jdict \<Rightarrow> jdict" where
  "message mid meth params = [(''jsonrpc'', JStr ''2.0''), (''id'', JStr mid), (''method'', JStr meth), (''params'', JDict params)]"

definition ACP_INITIALIZE_METHOD :: string where
  "ACP_INITIALIZE_METHOD = ''initialize''"

definition ACP_TURN_METHOD :: string where
  "ACP_TURN_METHOD = ''session/prompt''"

section \<open>Handshake and capabilities\<close>

definition initialize_message :: "string \<Rightarrow> string \<Rightarrow> jdict" where
  "initialize_message mid client = message mid ACP_INITIALIZE_METHOD [(''client'', JStr client), (''protocol'', JStr ''acp/0.1'')]"

definition initialize :: "reply \<Rightarrow> acp_error + jdict" where
  "initialize r = bindE (read_reply r) (\<lambda>j. Inr (case j of JDict d \<Rightarrow> d | _ \<Rightarrow> [(''raw'', j)]))"

record acp_caps =
  acp_streaming :: bool
  acp_resume :: bool
  acp_cancel :: bool
  acp_tools :: bool
  mcp_attachment :: bool
  mcp_refresh :: bool
  session_close :: bool
  raw_caps :: jdict

definition capabilities_from :: "jdict \<Rightarrow> acp_caps" where
  "capabilities_from init =
     (let caps = dict_or_nothing (get_json ''capabilities'' (JDict init) init);
          mcp = dict_or_nothing (get_json ''mcp'' JNull caps)
      in \<lparr>acp_streaming = truthy (get_json ''streaming'' (JBool False) caps),
          acp_resume = truthy (get_json ''resume'' (JBool False) caps),
          acp_cancel = truthy (get_json ''cancel'' (JBool True) caps),
          acp_tools = truthy (get_json ''tools'' (JBool False) caps),
          mcp_attachment = truthy (get_json ''attachment'' (get_json ''attach'' (JBool False) mcp) mcp),
          mcp_refresh = truthy (get_json ''refresh'' (JBool False) mcp),
          session_close = truthy (get_json ''session_close'' (get_json ''close'' (JBool False) caps) caps),
          raw_caps = caps\<rparr>)"

definition acp_capabilities :: "reply \<Rightarrow> acp_error + acp_caps" where
  "acp_capabilities r = bindE (initialize r) (\<lambda>init. Inr (capabilities_from init))"

definition acp_as_dict :: "acp_caps \<Rightarrow> (string \<times> bool) list" where
  "acp_as_dict c = [(''streaming'', acp_streaming c), (''resume'', acp_resume c), (''cancel'', acp_cancel c), (''tools'', acp_tools c)]"

section \<open>Sessions\<close>

record acp_session =
  acp_id :: string
  acp_run :: string
  acp_status :: string
  acp_started :: rat

record adapter =
  sessions :: "(string, acp_session) dict"
  marked :: "string list"

definition new_adapter :: adapter where
  "new_adapter = \<lparr>sessions = [], marked = []\<rparr>"

definition mark :: "string \<Rightarrow> adapter \<Rightarrow> adapter" where
  "mark sid a = a\<lparr>marked := (if sid \<in> set (marked a) then marked a else sid # marked a)\<rparr>"

definition unmark :: "string \<Rightarrow> adapter \<Rightarrow> adapter" where
  "unmark sid a = a\<lparr>marked := removeAll sid (marked a)\<rparr>"

definition set_status :: "string \<Rightarrow> string \<Rightarrow> adapter \<Rightarrow> acp_error + adapter" where
  "set_status sid st a = (case dict_get (sessions a) sid of
       None \<Rightarrow> Inl Missing_key
     | Some s \<Rightarrow> Inr (a\<lparr>sessions := dict_set sid (s\<lparr>acp_status := st\<rparr>) (sessions a)\<rparr>))"

text \<open>\<open>new_session\<close> after the reply; \<open>fresh\<close> and \<open>run\<close> are the generated identifiers.\<close>

definition new_session_id :: "(json \<Rightarrow> string) \<Rightarrow> json \<Rightarrow> string \<Rightarrow> string" where
  "new_session_id shown j fresh =
     (let sid = (case j of JDict d \<Rightarrow>
            str_of shown (py_or (py_or (get_json ''sessionId'' JNull d) (get_json ''session_id'' JNull d)) (JStr ''''))
          | _ \<Rightarrow> '''')
      in if sid = '''' then fresh else sid)"

definition new_session :: "(json \<Rightarrow> string) \<Rightarrow> reply \<Rightarrow> string \<Rightarrow> string \<Rightarrow> rat \<Rightarrow> adapter \<Rightarrow> acp_error + (adapter \<times> acp_session)" where
  "new_session shown r fresh rid now a =
     bindE (read_reply r) (\<lambda>j.
       let s = \<lparr>acp_id = new_session_id shown j fresh, acp_run = rid, acp_status = ''active'', acp_started = now\<rparr>
       in Inr (a\<lparr>sessions := dict_set (acp_id s) s (sessions a)\<rparr>, s))"

text \<open>A turn before its message: an error, the answer of a cancelled session, or the message.\<close>

datatype begun = Answer jdict | Send jdict

definition turn_begin :: "string \<Rightarrow> string \<Rightarrow> string \<Rightarrow> adapter \<Rightarrow> acp_error + begun" where
  "turn_begin mid sid pr a =
     (if dict_get (sessions a) sid = None then Inl Unknown_session
      else if pr = '''' then Inl Empty_turn
      else if sid \<in> set (marked a)
      then Inr (Answer [(''session_id'', JStr sid), (''status'', JStr ''cancelled''), (''output'', JStr '''')])
      else Inr (Send (message mid ACP_TURN_METHOD [(''sessionId'', JStr sid), (''prompt'', JStr pr)])))"

definition turn_end :: "(json \<Rightarrow> string) \<Rightarrow> string \<Rightarrow> reply \<Rightarrow> acp_error + jdict" where
  "turn_end shown sid r = bindE (read_reply r) (\<lambda>j. Inr (case j of
       JDict d \<Rightarrow> dict_update [(''session_id'', JStr sid)] d
     | _ \<Rightarrow> [(''session_id'', JStr sid), (''output'', JStr (str_of shown j))]))"

definition stream_chunks :: "(json \<Rightarrow> string) \<Rightarrow> jdict \<Rightarrow> string list" where
  "stream_chunks shown d = (case get_json ''output'' (JStr '''') d of
       JList xs \<Rightarrow> map (str_of shown) xs
     | j \<Rightarrow> if truthy j then [str_of shown j] else [])"

definition cancel_begin :: "string \<Rightarrow> adapter \<Rightarrow> bool \<times> adapter" where
  "cancel_begin sid a = (if dict_get (sessions a) sid = None then (False, a) else (True, mark sid a))"

text \<open>After the reply: errors of the protocol are swallowed, others of the transport are not.\<close>

definition cancel_end :: "string \<Rightarrow> reply \<Rightarrow> adapter \<Rightarrow> acp_error + adapter" where
  "cancel_end sid r a = (case read_reply r of
       Inl Transport_raised \<Rightarrow> Inl Transport_raised
     | _ \<Rightarrow> set_status sid ''cancelled'' a)"

definition resume :: "string \<Rightarrow> adapter \<Rightarrow> acp_error + adapter" where
  "resume sid a = (if dict_get (sessions a) sid = None then Inl Unknown_session else set_status sid ''active'' (unmark sid a))"

definition resume_begin :: "string \<Rightarrow> string \<Rightarrow> string \<Rightarrow> adapter \<Rightarrow> acp_error + (adapter \<times> begun)" where
  "resume_begin mid sid pr a = bindE (resume sid a) (\<lambda>a.
     if pr \<noteq> '''' then bindE (turn_begin mid sid pr a) (\<lambda>b. Inr (a, b))
     else Inr (a, Answer [(''session_id'', JStr sid), (''status'', JStr ''active'')]))"

definition detach :: "string \<Rightarrow> adapter \<Rightarrow> adapter" where
  "detach sid a = unmark sid (a\<lparr>sessions := dict_pop sid (sessions a)\<rparr>)"

text \<open>\<open>close\<close> sends only for a known session; the reply is absent otherwise.\<close>

definition close_end :: "string \<Rightarrow> reply option \<Rightarrow> string \<Rightarrow> adapter \<Rightarrow> acp_error + (adapter \<times> jdict)" where
  "close_end sid r err a =
     (case map_option read_reply r of
        Some (Inl Transport_raised) \<Rightarrow> Inl Transport_raised
      | v \<Rightarrow> Inr (detach sid a, [(''session_id'', JStr sid), (''closed'', JBool True),
          (''remote_close_supported'', JBool (\<exists>j. v = Some (Inr j))),
          (''remote_close_error'', if v = Some (Inl Protocol_error) then JStr err else JNull)]))"

section \<open>The projection to a harness result\<close>

text \<open>
  \<open>dict\<close> of an object is a copy and of a false value here empty; of another value (a list of pairs,
  say) it is \<open>conv\<close>, which may raise.
\<close>

definition usage_dict :: "(json \<Rightarrow> jdict option) \<Rightarrow> json \<Rightarrow> acp_error + jdict" where
  "usage_dict conv j = (case j of JDict d \<Rightarrow> Inr d
     | _ \<Rightarrow> if \<not> truthy j then Inr [] else case conv j of None \<Rightarrow> Inl Not_a_mapping | Some d \<Rightarrow> Inr d)"

definition to_harness_result ::
    "(json \<Rightarrow> string) \<Rightarrow> (json \<Rightarrow> jdict option) \<Rightarrow> adapter \<Rightarrow> string \<Rightarrow> jdict \<Rightarrow> acp_error + run_result" where
  "to_harness_result shown conv a sid t =
     bindE (usage_dict conv (get_json ''usage'' JNull t)) (\<lambda>usage.
       Inr \<lparr>run_id = (case dict_get (sessions a) sid of None \<Rightarrow> sid | Some s \<Rightarrow> acp_run s),
         status = normalize_status (case get_json ''status'' (JStr ''completed'') t of JStr s \<Rightarrow> Some s | _ \<Rightarrow> None) ''failed'',
         run_output = str_of shown (get_json ''output'' (JStr '''') t),
         run_usage = usage,
         run_error = get_json ''error'' JNull t,
         native_metadata = [(''acp_session'', JStr sid), (''protocol'', JStr ''acp'')],
         session_id = None, turn_id = None, parent_run_id = None, terminal_observed = False,
         run_error_kind = None, activities = []\<rparr>)"

section \<open>Interleaved operations\<close>

text \<open>
  The coroutines that await a reply, and the steps between awaits with what they do. Resuming with a
  prompt is a resumption followed by a turn. A reply may be any.
\<close>

datatype pending = Turning string | Cancelling string | Closing string | Opening

datatype label = Quiet | Turn_sent string | Cancel_marked string | Cancel_done string | Cancel_failed string acp_error
  | Resumed string | Closed string | Opened string

record world =
  adp :: adapter
  waiting :: "pending list"

inductive acp_step :: "world \<Rightarrow> label \<Rightarrow> world \<Rightarrow> bool" where
  turn_refused: "turn_begin mid sid pr (adp w) = Inl e \<or> turn_begin mid sid pr (adp w) = Inr (Answer d) \<Longrightarrow> acp_step w Quiet w"
| turn_sends: "turn_begin mid sid pr (adp w) = Inr (Send m) \<Longrightarrow>
     acp_step w (Turn_sent sid) (w\<lparr>waiting := Turning sid # waiting w\<rparr>)"
| turn_returns: "Turning sid \<in> set (waiting w) \<Longrightarrow> acp_step w Quiet (w\<lparr>waiting := remove1 (Turning sid) (waiting w)\<rparr>)"
| cancel_unknown: "cancel_begin sid (adp w) = (False, a) \<Longrightarrow> acp_step w Quiet w"
| cancel_marks: "cancel_begin sid (adp w) = (True, a) \<Longrightarrow>
     acp_step w (Cancel_marked sid) (w\<lparr>adp := a, waiting := Cancelling sid # waiting w\<rparr>)"
| cancel_ends: "Cancelling sid \<in> set (waiting w) \<Longrightarrow> cancel_end sid r (adp w) = Inr a \<Longrightarrow>
     acp_step w (Cancel_done sid) (w\<lparr>adp := a, waiting := remove1 (Cancelling sid) (waiting w)\<rparr>)"
| cancel_fails: "Cancelling sid \<in> set (waiting w) \<Longrightarrow> cancel_end sid r (adp w) = Inl e \<Longrightarrow>
     acp_step w (Cancel_failed sid e) (w\<lparr>waiting := remove1 (Cancelling sid) (waiting w)\<rparr>)"
| resumes: "resume sid (adp w) = Inr a \<Longrightarrow> acp_step w (Resumed sid) (w\<lparr>adp := a\<rparr>)"
| close_sends: "dict_get (sessions (adp w)) sid = Some s \<Longrightarrow> acp_step w Quiet (w\<lparr>waiting := Closing sid # waiting w\<rparr>)"
| close_unknown: "dict_get (sessions (adp w)) sid = None \<Longrightarrow> close_end sid None err (adp w) = Inr (a, d) \<Longrightarrow>
     acp_step w (Closed sid) (w\<lparr>adp := a\<rparr>)"
| close_ends: "Closing sid \<in> set (waiting w) \<Longrightarrow> close_end sid (Some r) err (adp w) = Inr (a, d) \<Longrightarrow>
     acp_step w (Closed sid) (w\<lparr>adp := a, waiting := remove1 (Closing sid) (waiting w)\<rparr>)"
| close_fails: "Closing sid \<in> set (waiting w) \<Longrightarrow> close_end sid (Some r) err (adp w) = Inl e \<Longrightarrow>
     acp_step w Quiet (w\<lparr>waiting := remove1 (Closing sid) (waiting w)\<rparr>)"
| open_sends: "acp_step w Quiet (w\<lparr>waiting := Opening # waiting w\<rparr>)"
| open_ends: "Opening \<in> set (waiting w) \<Longrightarrow> new_session shown r fresh rid now (adp w) = Inr (a, s) \<Longrightarrow>
     acp_step w (Opened (acp_id s)) (w\<lparr>adp := a, waiting := remove1 Opening (waiting w)\<rparr>)"
| open_fails: "Opening \<in> set (waiting w) \<Longrightarrow> new_session shown r fresh rid now (adp w) = Inl e \<Longrightarrow>
     acp_step w Quiet (w\<lparr>waiting := remove1 Opening (waiting w)\<rparr>)"

inductive acp_trace :: "world \<Rightarrow> label list \<Rightarrow> world \<Rightarrow> bool" where
  run_stop: "acp_trace w [] w"
| run_more: "acp_trace w ls w' \<Longrightarrow> acp_step w' l w'' \<Longrightarrow> acp_trace w (ls @ [l]) w''"

inductive_cases Turn_sentE: "acp_step w (Turn_sent sid) w'"
inductive_cases Cancel_markedE: "acp_step w (Cancel_marked sid) w'"

section \<open>What a step changes\<close>

abbreviation known :: "adapter \<Rightarrow> string set" where
  "known a \<equiv> dom (dict_get (sessions a))"

lemma marked_simps [simp]:
  "set (marked (mark sid a)) = insert sid (set (marked a))" "sessions (mark sid a) = sessions a"
  "set (marked (unmark sid a)) = set (marked a) - {sid}" "sessions (unmark sid a) = sessions a"
  by (auto simp: mark_def unmark_def)

lemma set_status_facts:
  "set_status sid st a = Inr a' \<Longrightarrow> marked a' = marked a \<and> known a' = known a
     \<and> (\<exists>s. dict_get (sessions a) sid = Some s \<and> sessions a' = dict_set sid (s\<lparr>acp_status := st\<rparr>) (sessions a))"
  by (auto simp: set_status_def update_conv' split: option.splits if_splits)

lemma detach_facts: "set (marked (detach sid a)) = set (marked a) - {sid}" "known (detach sid a) = known a - {sid}"
  by (auto simp: detach_def delete_conv' split: if_splits)

lemma close_end_facts: "close_end sid r err a = Inr (a', d) \<Longrightarrow> a' = detach sid a"
  by (auto simp: close_end_def split: option.splits sum.splits acp_error.splits)

lemma cancel_end_facts: "cancel_end sid r a = Inr a' \<Longrightarrow> set_status sid ''cancelled'' a = Inr a'"
  by (auto simp: cancel_end_def split: sum.splits acp_error.splits)

lemma new_session_facts: "new_session shown r fresh rid now a = Inr (a', s) \<Longrightarrow>
    sessions a' = dict_set (acp_id s) s (sessions a) \<and> marked a' = marked a \<and> acp_status s = ''active''"
  by (auto simp: new_session_def bindE_Inr Let_def)

text \<open>While it is marked, or after it was closed and before it is opened again, a session sends nothing.\<close>

definition silent :: "string \<Rightarrow> label list \<Rightarrow> world \<Rightarrow> bool" where
  "silent sid ls w \<longleftrightarrow> sid \<in> set (marked (adp w))
     \<or> (\<exists>ls1 ls2. ls = ls1 @ Closed sid # ls2 \<and> (sid \<notin> known (adp w) \<or> Opened sid \<in> set ls2))"

lemma silent_closed: "silent sid (ls @ [Closed sid]) w" if "sid \<notin> known (adp w)"
  using that by (auto simp: silent_def)

lemma silent_mono:
  assumes "silent sid ls w" and "sid \<in> set (marked (adp w)) \<Longrightarrow> sid \<in> set (marked (adp w'))"
    and "sid \<in> known (adp w') \<Longrightarrow> sid \<in> known (adp w) \<or> l = Opened sid"
  shows "silent sid (ls @ [l]) w'"
proof (cases "sid \<in> set (marked (adp w))")
  case True
  then show ?thesis using assms(2) by (simp add: silent_def)
next
  case False
  then obtain ls1 ls2 where "ls = ls1 @ Closed sid # ls2" "sid \<notin> known (adp w) \<or> Opened sid \<in> set ls2"
    using assms(1) unfolding silent_def by blast
  then have "ls @ [l] = ls1 @ Closed sid # (ls2 @ [l])" "sid \<notin> known (adp w') \<or> Opened sid \<in> set (ls2 @ [l])"
    using assms(3) by auto
  then show ?thesis unfolding silent_def by blast
qed

lemma silent_step:
  assumes "acp_step w l w'" and "silent sid ls w" and "l \<noteq> Resumed sid"
  shows "silent sid (ls @ [l]) w'"
  using assms
proof (cases rule: acp_step.cases)
  case (close_unknown s err a d)
  then show ?thesis using close_end_facts [OF close_unknown(4)] detach_facts [of s "adp w"] silent_closed [of sid w' ls]
    by (cases "s = sid") (auto intro!: silent_mono [OF assms(2)])
next
  case (close_ends s r err a d)
  then show ?thesis using close_end_facts [OF close_ends(4)] detach_facts [of s "adp w"] silent_closed [of sid w' ls]
    by (cases "s = sid") (auto intro!: silent_mono [OF assms(2)])
next
  case (open_ends shown r fresh rid now a s)
  then show ?thesis using new_session_facts [OF open_ends(4)]
    by (auto intro!: silent_mono [OF assms(2)] simp: update_conv')
next
  case (cancel_ends s r a)
  then show ?thesis using set_status_facts [OF cancel_end_facts [OF cancel_ends(4)]]
    by (auto intro!: silent_mono [OF assms(2)])
next
  case (resumes s a)
  then show ?thesis
    using set_status_facts [of s "''active''" "unmark s (adp w)" a] assms(3)
    by (auto intro!: silent_mono [OF assms(2)] simp: resume_def split: if_splits)
qed (auto intro!: silent_mono [OF assms(2)] simp: cancel_begin_def split: if_splits)

lemma silent_run:
  assumes "acp_trace w ls w'" and "sid \<in> set (marked (adp w))" and "Resumed sid \<notin> set ls"
  shows "silent sid ls w'"
  using assms
proof (induction rule: acp_trace.induct)
  case (run_stop w)
  then show ?case by (simp add: silent_def)
next
  case (run_more w ls w' l w'')
  then have "silent sid ls w'" "l \<noteq> Resumed sid" by auto
  then show ?case by (intro silent_step [OF run_more.hyps(2)])
qed

section \<open>The guarantees\<close>

lemma trace_split:
  assumes "acp_trace w (ls1 @ ls2) w'"
  obtains v where "acp_trace w ls1 v" and "acp_trace v ls2 w'"
  using assms
proof (induction ls2 arbitrary: w' thesis rule: rev_induct)
  case Nil
  then show ?case using run_stop by auto
next
  case (snoc l ls2)
  from snoc.prems(2) obtain u where "acp_trace w (ls1 @ ls2) u" "acp_step u l w'"
    by (auto elim: acp_trace.cases)
  with snoc.IH obtain v where "acp_trace w ls1 v" "acp_trace v ls2 u" by blast
  with snoc.prems(1) \<open>acp_step u l w'\<close> show ?case using run_more by blast
qed

lemma trace_last:
  assumes "acp_trace w (ls @ [l]) w'"
  obtains v where "acp_trace w ls v" and "acp_step v l w'"
  using assms by (auto elim: acp_trace.cases)

lemma turn_begin_Send: "turn_begin mid sid pr a = Inr (Send m) \<Longrightarrow> sid \<in> known a \<and> sid \<notin> set (marked a) \<and> pr \<noteq> ''''"
  by (auto simp: turn_begin_def split: if_splits)

lemma turn_sends_only: "acp_step w (Turn_sent sid) w' \<Longrightarrow> sid \<in> known (adp w) \<and> sid \<notin> set (marked (adp w))"
  by (elim Turn_sentE) (use turn_begin_Send in blast)

text \<open>
  C15. A turn sends nothing for a cancelled session. However coroutines interleave and whatever the
  transport answers, a prompt goes out for a session after its cancellation only if it was resumed,
  or closed and then opened again, in between.
\<close>

theorem cancelled_sends_nothing:
  assumes "acp_trace w (Cancel_marked sid # ls @ [Turn_sent sid]) w'"
  shows "Resumed sid \<in> set ls \<or> (\<exists>ls1 ls2. ls = ls1 @ Closed sid # ls2 \<and> Opened sid \<in> set ls2)"
proof (rule disjCI)
  assume *: "\<not> (\<exists>ls1 ls2. ls = ls1 @ Closed sid # ls2 \<and> Opened sid \<in> set ls2)"
  obtain u where u: "acp_trace w [Cancel_marked sid] u" "acp_trace u (ls @ [Turn_sent sid]) w'"
    using trace_split [of w "[Cancel_marked sid]" "ls @ [Turn_sent sid]" w'] assms by auto
  obtain v where v: "acp_trace u ls v" "acp_step v (Turn_sent sid) w'"
    using trace_last u(2) by blast
  have "acp_step w (Cancel_marked sid) u"
    using u(1) trace_last [of w "[]" "Cancel_marked sid" u] by (auto elim: acp_trace.cases)
  then have "sid \<in> set (marked (adp u))" by (auto elim!: Cancel_markedE simp: cancel_begin_def split: if_splits)
  then show "Resumed sid \<in> set ls"
    using silent_run [OF v(1)] turn_sends_only [OF v(2)] * by (auto simp: silent_def)
qed

text \<open>Each session is stored under its own identifier, and only known sessions are marked.\<close>

definition acp_ok :: "adapter \<Rightarrow> bool" where
  "acp_ok a \<longleftrightarrow> set (marked a) \<subseteq> known a \<and> (\<forall>sid s. dict_get (sessions a) sid = Some s \<longrightarrow> acp_id s = sid)"

lemma acp_ok_new [simp]: "acp_ok new_adapter"
  by (simp add: acp_ok_def new_adapter_def)

lemma acp_ok_status: "set_status sid st a = Inr a' \<Longrightarrow> acp_ok a \<Longrightarrow> acp_ok a'"
  using set_status_facts [of sid st a a'] by (auto simp: acp_ok_def update_conv' split: if_splits)

lemma acp_ok_unmark: "acp_ok a \<Longrightarrow> acp_ok (unmark sid a)"
  by (auto simp: acp_ok_def)

lemma acp_ok_detach: "acp_ok a \<Longrightarrow> acp_ok (detach sid a)"
  using detach_facts [of sid a] by (auto simp: acp_ok_def detach_def delete_conv' split: if_splits)

lemma acp_ok_open: "new_session shown r fresh rid now a = Inr (a', s) \<Longrightarrow> acp_ok a \<Longrightarrow> acp_ok a'"
  using new_session_facts [of shown r fresh rid now a a' s] by (auto simp: acp_ok_def update_conv' split: if_splits)

lemma acp_ok_step: "acp_step w l w' \<Longrightarrow> acp_ok (adp w) \<Longrightarrow> acp_ok (adp w')"
proof (induction rule: acp_step.induct)
  case (cancel_marks sid w a)
  then show ?case by (auto simp: cancel_begin_def acp_ok_def split: if_splits)
next
  case (cancel_ends sid w r a)
  then show ?case by (auto intro: acp_ok_status dest: cancel_end_facts)
next
  case (resumes sid w a)
  then show ?case by (auto simp: resume_def split: if_splits intro: acp_ok_status acp_ok_unmark)
next
  case (close_unknown w sid err a d)
  then show ?case by (auto dest!: close_end_facts intro: acp_ok_detach)
next
  case (close_ends sid w r err a d)
  then show ?case by (auto dest!: close_end_facts intro: acp_ok_detach)
next
  case (open_ends w shown r fresh rid now a s)
  then show ?case by (auto intro: acp_ok_open)
qed simp_all

definition acp_one :: "string \<Rightarrow> adapter" where
  "acp_one sid = \<lparr>sessions = [(sid, \<lparr>acp_id = sid, acp_run = ''r'', acp_status = ''active'', acp_started = 0\<rparr>)], marked = []\<rparr>"

lemma acp_one_simps [simp]:
  "dict_get (sessions (acp_one sid)) sid = Some \<lparr>acp_id = sid, acp_run = ''r'', acp_status = ''active'', acp_started = 0\<rparr>"
  "marked (acp_one sid) = []"
  by (simp_all add: acp_one_def)

theorem cancelled_sends_nothing_witness:
  "\<exists>w'. acp_trace \<lparr>adp = acp_one ''s'', waiting = []\<rparr> ([Cancel_marked ''s''] @ [Resumed ''s''] @ [Turn_sent ''s'']) w'
     \<and> Resumed ''s'' \<in> set [Resumed ''s'']"
proof -
  let ?w = "\<lparr>adp = acp_one ''s'', waiting = []\<rparr>"
  let ?w1 = "\<lparr>adp = mark ''s'' (acp_one ''s''), waiting = [Cancelling ''s'']\<rparr>"
  have "acp_step ?w (Cancel_marked ''s'') ?w1"
    using cancel_marks [of "''s''" ?w "mark ''s'' (acp_one ''s'')"] by (simp add: cancel_begin_def)
  then have 1: "acp_trace ?w [Cancel_marked ''s''] ?w1" using run_more [OF run_stop] by fastforce
  obtain a where a: "resume ''s'' (adp ?w1) = Inr a" "marked a = []" "known a = known (acp_one ''s'')"
    by (simp add: resume_def set_status_def update_conv' unmark_def mark_def acp_one_def)
  have 2: "acp_trace ?w ([Cancel_marked ''s''] @ [Resumed ''s'']) (?w1\<lparr>adp := a\<rparr>)"
    by (rule run_more [OF 1 resumes [OF a(1)]])
  have "''s'' \<in> known a" using a(3) by (simp add: domI)
  then have "turn_begin ''m'' ''s'' ''p'' a = Inr (Send (message ''m'' ACP_TURN_METHOD [(''sessionId'', JStr ''s''), (''prompt'', JStr ''p'')]))"
    using a(2) by (auto simp: turn_begin_def)
  then have "acp_step (?w1\<lparr>adp := a\<rparr>) (Turn_sent ''s'') (?w1\<lparr>adp := a, waiting := [Turning ''s'', Cancelling ''s'']\<rparr>)"
    using turn_sends [of "''m''" "''s''" "''p''" "?w1\<lparr>adp := a\<rparr>"] by simp
  from run_more [OF 2 this] have 3: "acp_trace ?w (Cancel_marked ''s'' # [Resumed ''s''] @ [Turn_sent ''s''])
      (?w1\<lparr>adp := a, waiting := [Turning ''s'', Cancelling ''s'']\<rparr>)" by simp
  from cancelled_sends_nothing [OF 3] 3 show ?thesis by (auto simp: Cons_eq_append_conv)
qed

text \<open>
  In every state that interleaved operations reach from a new adapter, only known sessions are
  marked cancelled and each session is stored under its own identifier.
\<close>

theorem acp_invariant:
  assumes "acp_trace \<lparr>adp = new_adapter, waiting = []\<rparr> ls w"
  shows "acp_ok (adp w)"
proof -
  have "acp_trace v ls w \<Longrightarrow> acp_ok (adp v) \<Longrightarrow> acp_ok (adp w)" for v
    by (induction rule: acp_trace.induct) (auto dest: acp_ok_step)
  from this [OF assms] show ?thesis by simp
qed

theorem acp_invariant_witness:
  "acp_trace \<lparr>adp = new_adapter, waiting = []\<rparr> [Quiet] \<lparr>adp = new_adapter, waiting = [Opening]\<rparr> \<and> acp_ok new_adapter"
proof -
  have "acp_trace \<lparr>adp = new_adapter, waiting = []\<rparr> ([] @ [Quiet]) \<lparr>adp = new_adapter, waiting = [Opening]\<rparr>"
    using run_more [OF run_stop open_sends [of "\<lparr>adp = new_adapter, waiting = []\<rparr>"]] by simp
  with acp_invariant [OF this] show ?thesis by simp
qed

section \<open>What races and defaults do\<close>

text \<open>A cancellation whose reply arrives after a resumption leaves the status cancelled on a session that accepts turns.\<close>

lemma late_cancel_clobbers:
  "\<exists>a a'. resume sid (snd (cancel_begin sid (acp_one sid))) = Inr a \<and> cancel_end sid (Reply JNull) a = Inr a'
     \<and> map_option acp_status (dict_get (sessions a') sid) = Some ''cancelled'' \<and> sid \<notin> set (marked a')"
  by (simp add: cancel_begin_def resume_def set_status_def cancel_end_def update_conv')

text \<open>A cancellation that returns after the session was closed raises a missing key.\<close>

lemma cancel_after_close: "read_reply r \<noteq> Inl Transport_raised \<Longrightarrow> cancel_end sid r (detach sid a) = Inl Missing_key"
proof -
  assume "read_reply r \<noteq> Inl Transport_raised"
  moreover have "dict_get (sessions (detach sid a)) sid = None" by (simp add: detach_def delete_conv')
  ultimately show ?thesis by (auto simp: cancel_end_def set_status_def split: sum.splits acp_error.splits)
qed

text \<open>A session opened anew under a cancelled identifier is still marked: its turns answer cancelled.\<close>

lemma reopened_stays_cancelled:
  assumes "sid \<in> set (marked a)" and "new_session shown r fresh rid now a = Inr (a', s)" and "acp_id s = sid" and "pr \<noteq> ''''"
  shows "acp_status s = ''active'' \<and> (\<exists>d. turn_begin mid sid pr a' = Inr (Answer d))"
  using new_session_facts [OF assms(2)] assms by (simp add: turn_begin_def update_conv')

text \<open>A turn result with an error and no status is reported as completed.\<close>

lemma error_reported_completed:
  "\<exists>r. to_harness_result shown conv a sid [(''error'', JStr ''boom'')] = Inr r
     \<and> status r = ''completed'' \<and> run_error r = JStr ''boom''"
proof -
  have "normalize_status (Some ''completed'') ''failed'' = ''completed''" by code_simp
  then show ?thesis by (simp add: to_harness_result_def usage_dict_def get_json_def bindE_def)
qed

text \<open>Cancellation is assumed when the handshake does not declare it.\<close>

lemma cancel_assumed: "acp_capabilities (Reply (JDict [])) = Inr c \<Longrightarrow> acp_cancel c \<and> \<not> acp_resume c \<and> \<not> acp_streaming c"
  by (auto simp: acp_capabilities_def initialize_def capabilities_from_def get_json_def dict_or_nothing_def bindE_def Let_def)

end
