(* ===== verification/A2aAdapter.thy ===== *)
theory A2aAdapter
  imports Json Python_Text
begin

text \<open>
  The client of remote agents (\<^verbatim>\<open>obase/a2a_adapter.py\<close>): normalisation of task results, capability
  cards, and the tracked tasks, over an injected transport or a URL. An operation is split at its
  one await. The tracked record of a task is mutable and \<open>status\<close> keeps a reference to it over the
  await, so records live in a store of addresses. What the remote side answers, fresh identifiers
  and the text of a document are arguments.
\<close>

section \<open>Normalising results\<close>

datatype a2a_error = Adapter_error | Empty_message | Wrong_type | Transport_error | No_endpoint

record a2a_result =
  task_id :: string
  a2a_status :: string
  a2a_output :: string
  a2a_usage :: jdict
  a2a_error_text :: "string option"
  native_metadata :: jdict

definition status_of_state :: "string \<Rightarrow> string" where
  "status_of_state st =
     (if st \<in> set [''completed'', ''ok'', ''done'', ''succeeded''] then ''ok''
      else if st \<in> set [''canceled'', ''cancelled''] then ''cancelled''
      else if st \<in> set [''failed'', ''error'', ''rejected''] then ''error''
      else if st \<noteq> '''' then ''working'' else ''ok'')"

definition raw_state :: "(json \<Rightarrow> string) \<Rightarrow> jdict \<Rightarrow> string" where
  "raw_state shown p = map lower_char
     (str_of shown (py_or (py_or (get_json ''state'' JNull p) (get_json ''status'' JNull p)) (JStr '''')))"

text \<open>The items a \<open>for\<close> runs over; keys of an object and characters of a text are no objects.\<close>

fun items :: "json \<Rightarrow> a2a_error + json list" where
  "items (JList xs) = Inr xs"
| "items (JStr s) = Inr (map (\<lambda>c. JStr [c]) s)"
| "items (JDict d) = Inr (map (\<lambda>(k, v). JStr k) d)"
| "items _ = Inl Wrong_type"

definition part_text :: "(json \<Rightarrow> string) \<Rightarrow> json \<Rightarrow> string list" where
  "part_text shown p = (case p of
       JDict d \<Rightarrow> if truthy (get_json ''text'' JNull d) then [str_of shown (get_json ''text'' JNull d)] else []
     | _ \<Rightarrow> [])"

fun artifact_texts :: "(json \<Rightarrow> string) \<Rightarrow> json \<Rightarrow> a2a_error + string list" where
  "artifact_texts shown (JDict d) = bindE (items (get_json ''parts'' (JList []) d)) (\<lambda>ps. Inr (concat (map (part_text shown) ps)))"
| "artifact_texts shown _ = Inr []"

definition output_of :: "(json \<Rightarrow> string) \<Rightarrow> jdict \<Rightarrow> a2a_error + string" where
  "output_of shown p =
     bindE (case py_or (get_json ''artifacts'' JNull p) (JList []) of
              JList xs \<Rightarrow> bindE (mapE (artifact_texts shown) xs) (\<lambda>ts. Inr (join_with (CHR 0x0A) (concat ts)))
            | _ \<Rightarrow> Inr '''') (\<lambda>out.
     Inr (if out \<noteq> '''' then out
          else str_of shown (py_or (py_or (get_json ''output'' JNull p) (get_json ''result'' JNull p)) (JStr ''''))))"

definition usage_of :: "(json \<Rightarrow> jdict option) \<Rightarrow> json \<Rightarrow> a2a_error + jdict" where
  "usage_of conv j = (case py_or j (JDict []) of JDict d \<Rightarrow> Inr d
     | v \<Rightarrow> (case conv v of None \<Rightarrow> Inl Wrong_type | Some d \<Rightarrow> Inr d))"

definition normalize_a2a_result ::
    "(json \<Rightarrow> string) \<Rightarrow> (json \<Rightarrow> string) \<Rightarrow> (json \<Rightarrow> jdict option) \<Rightarrow> string \<Rightarrow> json \<Rightarrow> a2a_error + a2a_result" where
  "normalize_a2a_result shown quoted conv tid payload = (case payload of
       JDict p \<Rightarrow>
         bindE (output_of shown p) (\<lambda>out.
         bindE (usage_of conv (get_json ''usage'' JNull p)) (\<lambda>usage.
           let st = raw_state shown p; err = get_json ''error'' JNull p in
           Inr \<lparr>task_id = tid, a2a_status = (if truthy err then ''error'' else status_of_state st),
             a2a_output = out, a2a_usage = usage,
             a2a_error_text = (if truthy err then Some (str_of shown err) else None),
             native_metadata = [(''raw_state'', JStr st)]\<rparr>))
     | _ \<Rightarrow> Inr \<lparr>task_id = tid, a2a_status = ''error'', a2a_output = '''', a2a_usage = [],
             a2a_error_text = Some (''non-dict payload: '' @ quoted payload), native_metadata = []\<rparr>)"

definition result_fields :: "a2a_result \<Rightarrow> jdict" where
  "result_fields r = [(''task_id'', JStr (task_id r)), (''status'', JStr (a2a_status r)), (''output'', JStr (a2a_output r)),
     (''usage'', JDict (a2a_usage r)), (''error'', str_or_null (a2a_error_text r)), (''native_metadata'', JDict (native_metadata r))]"

section \<open>Capability cards\<close>

record a2a_caps =
  cap_name :: string
  cap_url :: string
  cap_streaming :: bool
  cap_push :: bool
  cap_skills :: "json list"
  raw_card :: jdict

definition card_to_capabilities :: "(json \<Rightarrow> string) \<Rightarrow> jdict \<Rightarrow> a2a_error + a2a_caps" where
  "card_to_capabilities shown doc = (case py_or (get_json ''capabilities'' JNull doc) (JDict []) of
       JDict c \<Rightarrow> bindE (items (py_or (get_json ''skills'' JNull doc) (JList []))) (\<lambda>sk.
         Inr \<lparr>cap_name = str_of shown (get_json ''name'' (JStr '''') doc), cap_url = str_of shown (get_json ''url'' (JStr '''') doc),
           cap_streaming = truthy (get_json ''streaming'' (JBool False) c),
           cap_push = truthy (get_json ''pushNotifications'' (JBool False) c), cap_skills = sk, raw_card = doc\<rparr>)
     | _ \<Rightarrow> Inl Wrong_type)"

definition caps_as_dict :: "a2a_caps \<Rightarrow> jdict" where
  "caps_as_dict c = [(''name'', JStr (cap_name c)), (''url'', JStr (cap_url c)), (''streaming'', JBool (cap_streaming c)),
     (''push_notifications'', JBool (cap_push c)), (''skills'', JList (cap_skills c))]"

section \<open>The adapter\<close>

text \<open>
  \<open>tasks\<close> maps identifiers to addresses, \<open>cells\<close> addresses to the status of the record there. Of a
  request over a URL the reply is absent when it failed; an injected transport then raised.
\<close>

record a2a =
  agent_url :: string
  injected :: bool
  stored_caps :: "a2a_caps option"
  tasks :: "(string, nat) dict"
  cells :: "string list"

definition new_a2a :: "string option \<Rightarrow> bool \<Rightarrow> a2a_error + a2a" where
  "new_a2a url direct = (if url = None \<and> \<not> direct then Inl No_endpoint
     else Inr \<lparr>agent_url = rev (dropWhile (\<lambda>c. c = CHR ''/'') (rev (case url of None \<Rightarrow> '''' | Some u \<Rightarrow> u))),
       injected = direct, stored_caps = None, tasks = [], cells = []\<rparr>)"

definition discover_end :: "(json \<Rightarrow> string) \<Rightarrow> json option \<Rightarrow> a2a \<Rightarrow> a2a \<times> (a2a_error + a2a_caps)" where
  "discover_end shown r a = (case r of
       None \<Rightarrow> (a, Inl (if injected a then Transport_error else Adapter_error))
     | Some j \<Rightarrow> let c = card_to_capabilities shown (case j of JDict d \<Rightarrow> d | _ \<Rightarrow> [])
         in (if injected a then a else case c of Inl e \<Rightarrow> a | Inr v \<Rightarrow> a\<lparr>stored_caps := Some v\<rparr>, c))"

definition rpc_result :: "bool \<Rightarrow> json option \<Rightarrow> a2a_error + json" where
  "rpc_result direct r = (case r of
       None \<Rightarrow> Inl (if direct then Transport_error else Adapter_error)
     | Some j \<Rightarrow> if direct then Inr j else (case j of
         JDict d \<Rightarrow> if truthy (get_json ''error'' JNull d) then Inl Adapter_error else Inr (get_json ''result'' JNull d)
       | _ \<Rightarrow> Inr j))"

definition set_cell :: "string \<Rightarrow> string \<Rightarrow> a2a \<Rightarrow> a2a" where
  "set_cell tid st a = (case dict_get (tasks a) tid of None \<Rightarrow> a | Some n \<Rightarrow> a\<lparr>cells := (cells a)[n := st]\<rparr>)"

definition track :: "string \<Rightarrow> a2a \<Rightarrow> a2a" where
  "track tid a = a\<lparr>tasks := dict_set tid (length (cells a)) (tasks a), cells := cells a @ [''submitted'']\<rparr>"

definition invoke_begin :: "string \<Rightarrow> string option \<Rightarrow> a2a_error + jdict" where
  "invoke_begin msg ctx = (if msg = '''' then Inl Empty_message
     else Inr ([(''message'', JDict [(''role'', JStr ''user''), (''parts'', JList [JDict [(''text'', JStr msg)]])])]
       @ (case ctx of None \<Rightarrow> [] | Some c \<Rightarrow> if c = '''' then [] else [(''context_id'', JStr c)])))"

definition invoke_end ::
    "(json \<Rightarrow> string) \<Rightarrow> (json \<Rightarrow> string) \<Rightarrow> (json \<Rightarrow> jdict option) \<Rightarrow> string \<Rightarrow> json option \<Rightarrow> a2a \<Rightarrow> a2a \<times> (a2a_error + a2a_result)" where
  "invoke_end shown quoted conv fresh r a = (case rpc_result (injected a) r of
       Inl e \<Rightarrow> (a, Inl e)
     | Inr raw \<Rightarrow>
         let task = (case raw of JDict d \<Rightarrow> d | _ \<Rightarrow> [(''output'', raw)]);
             tid = str_of shown (py_or (get_json ''id'' JNull task) (JStr fresh));
             a = track tid a
         in case normalize_a2a_result shown quoted conv tid (JDict task) of
              Inl e \<Rightarrow> (a, Inl e)
            | Inr res \<Rightarrow> (set_cell tid (a2a_status res) a, Inr res))"

definition a2a_stream :: "a2a_result \<Rightarrow> string list" where
  "a2a_stream r = (if a2a_output r \<noteq> '''' then [a2a_output r] else [])"

definition a2a_cancel_end :: "string \<Rightarrow> json option \<Rightarrow> a2a \<Rightarrow> a2a \<times> (a2a_error + bool)" where
  "a2a_cancel_end tid r a = (case rpc_result (injected a) r of
       Inl Adapter_error \<Rightarrow> (a, Inr False)
     | Inl e \<Rightarrow> (a, Inl e)
     | Inr _ \<Rightarrow> (set_cell tid ''cancelled'' a, Inr True))"

text \<open>\<open>cancel\<close> answers at once for an untracked task and sends a message for a tracked one.\<close>

definition a2a_cancel_begin :: "string \<Rightarrow> a2a \<Rightarrow> bool option" where
  "a2a_cancel_begin tid a = (if dict_get (tasks a) tid = None then Some False else None)"

definition local_status :: "string \<Rightarrow> string \<Rightarrow> jdict" where
  "local_status tid st = [(''task_id'', JStr tid), (''status'', JStr st)]"

text \<open>\<open>n\<close> is the address of the record read before the await.\<close>

definition status_end ::
    "(json \<Rightarrow> string) \<Rightarrow> (json \<Rightarrow> string) \<Rightarrow> (json \<Rightarrow> jdict option) \<Rightarrow> string \<Rightarrow> nat \<Rightarrow> json option \<Rightarrow> a2a \<Rightarrow> a2a_error + jdict" where
  "status_end shown quoted conv tid n r a = (case rpc_result (injected a) r of
       Inl Adapter_error \<Rightarrow> Inr (local_status tid (cells a ! n))
     | Inl e \<Rightarrow> Inl e
     | Inr (JDict d) \<Rightarrow> bindE (normalize_a2a_result shown quoted conv tid (JDict d)) (\<lambda>res. Inr (result_fields res))
     | Inr _ \<Rightarrow> Inr (local_status tid (cells a ! n)))"

definition status_begin :: "string \<Rightarrow> a2a \<Rightarrow> jdict + nat" where
  "status_begin tid a = (case dict_get (tasks a) tid of None \<Rightarrow> Inl (local_status tid ''unknown'') | Some n \<Rightarrow> Inr n)"

section \<open>Interleaved operations\<close>

datatype call = Invoking | Cancelling string | Asking string nat

datatype mark = Nothing | Invoked string | Cancel_true string | Answered string jdict

record a2a_world =
  remote :: a2a
  calls :: "call list"

text \<open>Which task an invocation tracked, if its request succeeded.\<close>

definition invoked :: "(json \<Rightarrow> string) \<Rightarrow> string \<Rightarrow> json option \<Rightarrow> a2a \<Rightarrow> string option" where
  "invoked shown fresh r a = (case rpc_result (injected a) r of Inl e \<Rightarrow> None
     | Inr raw \<Rightarrow> Some (str_of shown (py_or (get_json ''id'' JNull (case raw of JDict d \<Rightarrow> d | _ \<Rightarrow> [(''output'', raw)])) (JStr fresh))))"

inductive a2a_step :: "(json \<Rightarrow> string) \<Rightarrow> (json \<Rightarrow> string) \<Rightarrow> (json \<Rightarrow> jdict option) \<Rightarrow> a2a_world \<Rightarrow> mark \<Rightarrow> a2a_world \<Rightarrow> bool"
  for shown quoted conv where
  discovers: "discover_end shown r (remote w) = (a, c) \<Longrightarrow> a2a_step shown quoted conv w Nothing (w\<lparr>remote := a\<rparr>)"
| invoke_sends: "invoke_begin msg ctx = Inr m \<Longrightarrow> a2a_step shown quoted conv w Nothing (w\<lparr>calls := Invoking # calls w\<rparr>)"
| invoke_ends: "Invoking \<in> set (calls w) \<Longrightarrow> invoke_end shown quoted conv fresh r (remote w) = (a, res) \<Longrightarrow>
     a2a_step shown quoted conv w (case invoked shown fresh r (remote w) of None \<Rightarrow> Nothing | Some tid \<Rightarrow> Invoked tid)
       (w\<lparr>remote := a, calls := remove1 Invoking (calls w)\<rparr>)"
| cancel_sends: "a2a_cancel_begin tid (remote w) = None \<Longrightarrow>
     a2a_step shown quoted conv w Nothing (w\<lparr>calls := Cancelling tid # calls w\<rparr>)"
| cancel_ends: "Cancelling tid \<in> set (calls w) \<Longrightarrow> a2a_cancel_end tid r (remote w) = (a, res) \<Longrightarrow>
     a2a_step shown quoted conv w (if res = Inr True then Cancel_true tid else Nothing)
       (w\<lparr>remote := a, calls := remove1 (Cancelling tid) (calls w)\<rparr>)"
| status_sends: "status_begin tid (remote w) = Inr n \<Longrightarrow>
     a2a_step shown quoted conv w Nothing (w\<lparr>calls := Asking tid n # calls w\<rparr>)"
| status_ends: "Asking tid n \<in> set (calls w) \<Longrightarrow> status_end shown quoted conv tid n r (remote w) = Inr d \<Longrightarrow>
     a2a_step shown quoted conv w (Answered tid d) (w\<lparr>calls := remove1 (Asking tid n) (calls w)\<rparr>)"
| status_fails: "Asking tid n \<in> set (calls w) \<Longrightarrow> status_end shown quoted conv tid n r (remote w) = Inl e \<Longrightarrow>
     a2a_step shown quoted conv w Nothing (w\<lparr>calls := remove1 (Asking tid n) (calls w)\<rparr>)"

inductive a2a_trace :: "(json \<Rightarrow> string) \<Rightarrow> (json \<Rightarrow> string) \<Rightarrow> (json \<Rightarrow> jdict option) \<Rightarrow> a2a_world \<Rightarrow> mark list \<Rightarrow> a2a_world \<Rightarrow> bool"
  for shown quoted conv where
  a2a_stop: "a2a_trace shown quoted conv w [] w"
| a2a_more: "a2a_step shown quoted conv w l v \<Longrightarrow> a2a_trace shown quoted conv v ls w' \<Longrightarrow> a2a_trace shown quoted conv w (l # ls) w'"

inductive_cases a2a_trace_ConsE: "a2a_trace shown quoted conv w (l # ls) w'"
inductive_cases a2a_trace_NilE: "a2a_trace shown quoted conv w [] w'"
inductive_cases Cancel_trueE: "a2a_step shown quoted conv w (Cancel_true tid) w'"

section \<open>What a step keeps\<close>

text \<open>The remote tasks are tracked at addresses of the store, and never forgotten.\<close>

definition tracked_ok :: "a2a \<Rightarrow> bool" where
  "tracked_ok a \<longleftrightarrow> (\<forall>tid n. dict_get (tasks a) tid = Some n \<longrightarrow> n < length (cells a))"

definition task_status :: "string \<Rightarrow> a2a \<Rightarrow> string option" where
  "task_status tid a = map_option (\<lambda>n. cells a ! n) (dict_get (tasks a) tid)"

lemma set_cell_facts [simp]:
  "tasks (set_cell tid st a) = tasks a" "length (cells (set_cell tid st a)) = length (cells a)"
  by (simp_all add: set_cell_def split: option.split)

lemma set_cell_ok [simp]: "tracked_ok (set_cell tid st a) = tracked_ok a"
  by (simp add: tracked_ok_def)

lemma set_cell_status:
  assumes "tracked_ok a" and "tid \<in> dom (dict_get (tasks a))"
  shows "task_status tid (set_cell tid st a) = Some st"
  using assms by (auto simp: task_status_def set_cell_def tracked_ok_def)

lemma set_cell_other:
  "task_status t a = Some st \<Longrightarrow> tracked_ok a \<Longrightarrow> task_status t (set_cell tid st a) = Some st"
  by (auto simp: task_status_def set_cell_def tracked_ok_def nth_list_update split: option.splits)

lemma track_ok: "tracked_ok a \<Longrightarrow> tracked_ok (track tid a)"
  by (auto simp: tracked_ok_def track_def update_conv' split: if_splits) (meson less_SucI)

lemma track_status:
  assumes "tracked_ok a"
  shows "task_status tid (track tid a) = Some ''submitted''"
    and "t \<noteq> tid \<Longrightarrow> t \<in> dom (dict_get (tasks a)) \<Longrightarrow> task_status t (set_cell tid st (track tid a)) = task_status t a"
    and "t \<noteq> tid \<Longrightarrow> t \<in> dom (dict_get (tasks a)) \<Longrightarrow> task_status t (track tid a) = task_status t a"
  using assms by (auto simp: task_status_def track_def update_conv' set_cell_def tracked_ok_def nth_append nth_list_update)

lemma invoke_end_cases:
  "fst (invoke_end shown quoted conv fresh r a) = (case invoked shown fresh r a of None \<Rightarrow> a
     | Some tid \<Rightarrow> (case snd (invoke_end shown quoted conv fresh r a) of Inl e \<Rightarrow> track tid a
         | Inr res \<Rightarrow> set_cell tid (a2a_status res) (track tid a)))"
  by (auto simp: invoke_end_def invoked_def Let_def split: sum.split)

lemma discover_keeps: "discover_end shown r a = (a', c) \<Longrightarrow> tasks a' = tasks a \<and> cells a' = cells a"
  by (auto simp: discover_end_def Let_def split: option.splits if_splits sum.splits)

lemma cancel_end_cases: "a2a_cancel_end tid r a = (a', res) \<Longrightarrow> a' = (if res = Inr True then set_cell tid ''cancelled'' a else a)"
  by (auto simp: a2a_cancel_end_def split: sum.splits a2a_error.splits)

definition world_ok :: "a2a_world \<Rightarrow> bool" where
  "world_ok w \<longleftrightarrow> tracked_ok (remote w) \<and> (\<forall>tid. Cancelling tid \<in> set (calls w) \<longrightarrow> tid \<in> dom (dict_get (tasks (remote w))))
     \<and> (\<forall>tid n. Asking tid n \<in> set (calls w) \<longrightarrow> n < length (cells (remote w)))"

lemma invoke_grows:
  "tracked_ok a \<Longrightarrow> tracked_ok (fst (invoke_end shown quoted conv fresh r a))
     \<and> dom (dict_get (tasks a)) \<subseteq> dom (dict_get (tasks (fst (invoke_end shown quoted conv fresh r a))))
     \<and> length (cells a) \<le> length (cells (fst (invoke_end shown quoted conv fresh r a)))"
  unfolding invoke_end_cases by (auto simp: track_ok split: option.splits sum.splits) (auto simp: track_def update_conv' split: if_splits)


lemma world_ok_step: "a2a_step shown quoted conv w l w' \<Longrightarrow> world_ok w \<Longrightarrow> world_ok w'"
proof (induction rule: a2a_step.induct)
  case (discovers r w a c)
  then show ?case using discover_keeps [OF discovers(1)] by (simp add: world_ok_def tracked_ok_def)
next
  case (invoke_ends w fresh r a res)
  then have a: "a = fst (invoke_end shown quoted conv fresh r (remote w))" by simp
  have "tracked_ok (remote w)" using invoke_ends(3) by (simp add: world_ok_def)
  note g = invoke_grows [OF this, of shown quoted conv fresh r]
  show ?case unfolding world_ok_def a
  proof (intro conjI allI impI)
    fix t assume "Cancelling t \<in> set (calls (w\<lparr>remote := fst (invoke_end shown quoted conv fresh r (remote w)), calls := remove1 Invoking (calls w)\<rparr>))"
    then have "t \<in> dom (dict_get (tasks (remote w)))" using invoke_ends(3) by (simp add: world_ok_def)
    then show "t \<in> dom (dict_get (tasks (remote (w\<lparr>remote := fst (invoke_end shown quoted conv fresh r (remote w)), calls := remove1 Invoking (calls w)\<rparr>))))"
      using g by (simp del: domIff) blast
  next
    fix t n assume "Asking t n \<in> set (calls (w\<lparr>remote := fst (invoke_end shown quoted conv fresh r (remote w)), calls := remove1 Invoking (calls w)\<rparr>))"
    then have "n < length (cells (remote w))" using invoke_ends(3) by (simp add: world_ok_def)
    then show "n < length (cells (remote (w\<lparr>remote := fst (invoke_end shown quoted conv fresh r (remote w)), calls := remove1 Invoking (calls w)\<rparr>)))"
      using g by simp
  qed (use g in simp)
next
  case (cancel_sends tid w)
  then show ?case by (auto simp: world_ok_def a2a_cancel_begin_def split: if_splits)
next
  case (cancel_ends tid w r a res)
  then show ?case using cancel_end_cases [OF cancel_ends(2)] by (auto simp: world_ok_def simp del: domIff dest: in_remove1)
next
  case (status_sends tid w n)
  then show ?case by (auto simp: world_ok_def status_begin_def tracked_ok_def split: option.splits)
qed (auto simp: world_ok_def dest: in_remove1)

text \<open>A cancelled task keeps its status over every step but an invocation that answers its identifier.\<close>

lemma cancelled_step:
  assumes "a2a_step shown quoted conv w l w'" and "world_ok w"
    and "task_status tid (remote w) = Some ''cancelled''" and "l \<noteq> Invoked tid"
  shows "task_status tid (remote w') = Some ''cancelled''"
  using assms
proof (cases rule: a2a_step.cases)
  case (discovers r a c)
  then show ?thesis using discover_keeps [OF discovers(3)] assms(3) by (simp add: task_status_def)
next
  case (invoke_ends fresh r a res)
  then have a: "remote w' = fst (invoke_end shown quoted conv fresh r (remote w))" by simp
  have ok: "tracked_ok (remote w)" and t: "tid \<in> dom (dict_get (tasks (remote w)))"
    using assms(2,3) by (auto simp: world_ok_def task_status_def)
  from invoke_ends(1) assms(4) have "invoked shown fresh r (remote w) \<noteq> Some tid" by auto
  then show ?thesis unfolding a invoke_end_cases
    using track_status(2,3) [OF ok _ t] assms(3) by (auto split: option.split sum.split)
next
  case (cancel_ends t r a res)
  then show ?thesis using cancel_end_cases [OF cancel_ends(4)] assms(2,3) set_cell_other by (auto simp: world_ok_def)
qed simp_all

lemma cancelled_trace:
  assumes "a2a_trace shown quoted conv w ls w'" and "world_ok w"
    and "task_status tid (remote w) = Some ''cancelled''" and "Invoked tid \<notin> set ls"
  shows "task_status tid (remote w') = Some ''cancelled''"
  using assms
proof (induction rule: a2a_trace.induct)
  case (a2a_more w l v ls w')
  from a2a_more.prems(3) have "l \<noteq> Invoked tid" "Invoked tid \<notin> set ls" by auto
  with a2a_more show ?case using cancelled_step [OF a2a_more.hyps(1)] world_ok_step [OF a2a_more.hyps(1)] by simp
qed

lemma cancel_sets:
  assumes "a2a_step shown quoted conv w (Cancel_true tid) w'" and "world_ok w"
  shows "task_status tid (remote w') = Some ''cancelled''"
  using assms(1)
proof (rule Cancel_trueE)
  fix fresh r a res
  assume "Cancel_true tid = (case invoked shown fresh r (remote w) of None \<Rightarrow> Nothing | Some tid \<Rightarrow> Invoked tid)"
  then show ?thesis by (auto split: option.splits)
next
  fix t r a res
  assume *: "Cancel_true tid = (if res = Inr True then Cancel_true t else Nothing)" "w' = w\<lparr>remote := a, calls := remove1 (Cancelling t) (calls w)\<rparr>"
    "Cancelling t \<in> set (calls w)" "a2a_cancel_end t r (remote w) = (a, res)"
  then have "res = Inr True" "t = tid" by (auto split: if_splits)
  moreover from this *(3) assms(2) have "tracked_ok (remote w)" "tid \<in> dom (dict_get (tasks (remote w)))"
    by (auto simp: world_ok_def)
  ultimately show ?thesis using cancel_end_cases [OF *(4)] set_cell_status *(2) by simp
qed

lemma a2a_trace_split:
  "a2a_trace shown quoted conv w (ls1 @ ls2) w' \<Longrightarrow> \<exists>v. a2a_trace shown quoted conv w ls1 v \<and> a2a_trace shown quoted conv v ls2 w'"
proof (induction ls1 arbitrary: w)
  case Nil
  then show ?case using a2a_stop by (metis append_Nil)
next
  case (Cons l ls1)
  then obtain u where "a2a_step shown quoted conv w l u" "a2a_trace shown quoted conv u (ls1 @ ls2) w'"
    by (auto elim: a2a_trace_ConsE)
  then show ?case using Cons.IH a2a_more by blast
qed

lemma world_ok_trace: "a2a_trace shown quoted conv w ls w' \<Longrightarrow> world_ok w \<Longrightarrow> world_ok w'"
  by (induction rule: a2a_trace.induct) (auto dest: world_ok_step)

lemma world_ok_new: "new_a2a url direct = Inr a \<Longrightarrow> world_ok \<lparr>remote = a, calls = []\<rparr>"
  by (auto simp: new_a2a_def world_ok_def tracked_ok_def split: if_splits)

text \<open>
  C16. Once a cancellation of a task has answered true, the adapter's record of the task is cancelled,
  and a status request answers it whenever the remote side gives no document, until an invocation
  is answered with the same identifier. Whatever operations interleave.
\<close>

theorem cancelled_task_sticks:
  assumes "new_a2a url direct = Inr a"
    and "a2a_trace shown quoted conv \<lparr>remote = a, calls = []\<rparr> (ls1 @ Cancel_true tid # ls2) w" and "Invoked tid \<notin> set ls2"
  shows "\<exists>n. status_begin tid (remote w) = Inr n
     \<and> (\<forall>r. rpc_result (injected (remote w)) r \<in> {Inl Adapter_error, Inr JNull} \<longrightarrow>
          status_end shown quoted conv tid n r (remote w) = Inr (local_status tid ''cancelled''))"
proof -
  obtain v where v: "a2a_trace shown quoted conv \<lparr>remote = a, calls = []\<rparr> ls1 v"
    "a2a_trace shown quoted conv v (Cancel_true tid # ls2) w" using a2a_trace_split [OF assms(2)] by blast
  then obtain u where u: "a2a_step shown quoted conv v (Cancel_true tid) u" "a2a_trace shown quoted conv u ls2 w"
    by (auto elim: a2a_trace_ConsE)
  have ok: "world_ok v" using world_ok_trace [OF v(1) world_ok_new [OF assms(1)]] .
  have "task_status tid (remote w) = Some ''cancelled''"
    using cancelled_trace [OF u(2) world_ok_step [OF u(1) ok] cancel_sets [OF u(1) ok] assms(3)] .
  then show ?thesis by (auto simp: task_status_def status_begin_def status_end_def)
qed

text \<open>
  A normalised result bears the task's identifier and one of four statuses. It is an error when
  the payload carries one, and it is ok only without an error, for a finished state or none.
\<close>

theorem normalized_sound:
  assumes "normalize_a2a_result shown quoted conv tid payload = Inr r"
  shows "task_id r = tid \<and> a2a_status r \<in> {''ok'', ''error'', ''cancelled'', ''working''}
     \<and> (a2a_error_text r \<noteq> None \<longrightarrow> a2a_status r = ''error'')
     \<and> (a2a_status r = ''ok'' \<longrightarrow> (\<exists>p. payload = JDict p \<and> \<not> truthy (get_json ''error'' JNull p)
          \<and> raw_state shown p \<in> {'''', ''completed'', ''ok'', ''done'', ''succeeded''}))"
proof -
  have states: "status_of_state st \<in> {''ok'', ''error'', ''cancelled'', ''working''}"
    and oks: "status_of_state st = ''ok'' \<Longrightarrow> st \<in> {'''', ''completed'', ''ok'', ''done'', ''succeeded''}" for st
    by (auto simp: status_of_state_def split: if_splits)
  then show ?thesis
  proof (cases "\<exists>p. payload = JDict p")
    case True
    then obtain p where p: "payload = JDict p" by blast
    with assms obtain out usage where r: "r = \<lparr>task_id = tid,
        a2a_status = (if truthy (get_json ''error'' JNull p) then ''error'' else status_of_state (raw_state shown p)),
        a2a_output = out, a2a_usage = usage,
        a2a_error_text = (if truthy (get_json ''error'' JNull p) then Some (str_of shown (get_json ''error'' JNull p)) else None),
        native_metadata = [(''raw_state'', JStr (raw_state shown p))]\<rparr>"
      by (auto simp: normalize_a2a_result_def bindE_Inr Let_def)
    show ?thesis using states [of "raw_state shown p"] oks [of "raw_state shown p"] unfolding r p by simp
  next
    case False
    then show ?thesis using assms by (cases payload) (auto simp: normalize_a2a_result_def)
  qed
qed

section \<open>Witnesses and what the transports hide\<close>

definition ex_done :: jdict where
  "ex_done = [(''id'', JStr ''t''), (''state'', JStr ''Done''), (''output'', JStr ''42'')]"

lemma ex_done_normal: "normalize_a2a_result shown quoted conv tid (JDict ex_done) =
    Inr \<lparr>task_id = tid, a2a_status = ''ok'', a2a_output = ''42'', a2a_usage = [], a2a_error_text = None,
      native_metadata = [(''raw_state'', JStr ''done'')]\<rparr>"
proof -
  have "map lower_char ''Done'' = ''done''" by code_simp
  then show ?thesis
    by (simp add: normalize_a2a_result_def ex_done_def output_of_def usage_of_def raw_state_def get_json_def py_or_def str_of_def
        status_of_state_def Let_def)
qed

theorem normalized_sound_witness:
  "\<exists>r. normalize_a2a_result shown quoted conv ''t'' (JDict ex_done) = Inr r \<and> a2a_status r = ''ok'' \<and> task_id r = ''t''"
  using normalized_sound [OF ex_done_normal [of shown quoted conv "''t''"]] ex_done_normal by simp

text \<open>The life of a task that is invoked, answered and cancelled.\<close>

definition ex_adapter :: a2a where
  "ex_adapter = \<lparr>agent_url = '''', injected = True, stored_caps = None, tasks = [], cells = []\<rparr>"

definition ex_shown :: "json \<Rightarrow> string" where
  "ex_shown j = ''?''"

definition ex_conv :: "json \<Rightarrow> jdict option" where
  "ex_conv j = None"

lemma ex_invoked:
  "invoke_end ex_shown ex_shown ex_conv ''f'' (Some (JDict ex_done)) ex_adapter
     = (ex_adapter\<lparr>tasks := [(''t'', 0)], cells := [''ok'']\<rparr>, Inr \<lparr>task_id = ''t'', a2a_status = ''ok'', a2a_output = ''42'',
          a2a_usage = [], a2a_error_text = None, native_metadata = [(''raw_state'', JStr ''done'')]\<rparr>)"
  "invoked ex_shown ''f'' (Some (JDict ex_done)) ex_adapter = Some ''t''"
  using ex_done_normal [of ex_shown ex_shown ex_conv "''t''"]
  by (simp_all add: invoke_end_def invoked_def rpc_result_def ex_adapter_def ex_done_def get_json_def py_or_def str_of_def Let_def
      track_def set_cell_def)

theorem cancelled_task_sticks_witness:
  "new_a2a None True = Inr ex_adapter
   \<and> (\<exists>w n. a2a_trace ex_shown ex_shown ex_conv \<lparr>remote = ex_adapter, calls = []\<rparr> ([Nothing, Invoked ''t'', Nothing] @ Cancel_true ''t'' # []) w
        \<and> status_begin ''t'' (remote w) = Inr n)"
proof -
  let ?a = "ex_adapter\<lparr>tasks := [(''t'', 0)], cells := [''ok'']\<rparr>"
  let ?b = "ex_adapter\<lparr>tasks := [(''t'', 0)], cells := [''cancelled'']\<rparr>"
  let ?S = "a2a_step ex_shown ex_shown ex_conv"
  have new: "new_a2a None True = Inr ex_adapter" by (simp add: new_a2a_def ex_adapter_def)
  have 1: "?S \<lparr>remote = ex_adapter, calls = []\<rparr> Nothing \<lparr>remote = ex_adapter, calls = [Invoking]\<rparr>"
    using invoke_sends [where w = "\<lparr>remote = ex_adapter, calls = []\<rparr>", of "''m''" None] by (simp add: invoke_begin_def)
  have 2: "?S \<lparr>remote = ex_adapter, calls = [Invoking]\<rparr> (Invoked ''t'') \<lparr>remote = ?a, calls = []\<rparr>"
    using invoke_ends [of "\<lparr>remote = ex_adapter, calls = [Invoking]\<rparr>" ex_shown ex_shown ex_conv "''f''" "Some (JDict ex_done)" ?a] ex_invoked by simp
  have 3: "?S \<lparr>remote = ?a, calls = []\<rparr> Nothing \<lparr>remote = ?a, calls = [Cancelling ''t'']\<rparr>"
    using cancel_sends [of "''t''" "\<lparr>remote = ?a, calls = []\<rparr>"] by (simp add: a2a_cancel_begin_def)
  have "a2a_cancel_end ''t'' (Some JNull) ?a = (?b, Inr True)"
    by (simp add: a2a_cancel_end_def rpc_result_def set_cell_def ex_adapter_def)
  then have 4: "?S \<lparr>remote = ?a, calls = [Cancelling ''t'']\<rparr> (Cancel_true ''t'') \<lparr>remote = ?b, calls = []\<rparr>"
    using cancel_ends [of "''t''" "\<lparr>remote = ?a, calls = [Cancelling ''t'']\<rparr>" "Some JNull" ?b "Inr True"] by simp
  have t: "a2a_trace ex_shown ex_shown ex_conv \<lparr>remote = ex_adapter, calls = []\<rparr> ([Nothing, Invoked ''t'', Nothing] @ Cancel_true ''t'' # []) \<lparr>remote = ?b, calls = []\<rparr>"
    using a2a_more [OF 1 a2a_more [OF 2 a2a_more [OF 3 a2a_more [OF 4 a2a_stop]]]] by simp
  from cancelled_task_sticks [OF new t] t new show ?thesis by auto
qed

text \<open>Over an injected transport an error reply to a cancellation is taken for success.\<close>

lemma injected_cancel_hides_error:
  "injected a \<Longrightarrow> snd (a2a_cancel_end tid (Some (JDict [(''error'', JStr ''no such task'')])) a) = Inr True"
  by (simp add: a2a_cancel_end_def rpc_result_def)

lemma url_cancel_sees_error:
  "\<not> injected a \<Longrightarrow> a2a_cancel_end tid (Some (JDict [(''error'', JStr ''no such task'')])) a = (a, Inr False)"
  by (simp add: a2a_cancel_end_def rpc_result_def get_json_def)

text \<open>Over an injected transport the discovered capabilities are not stored.\<close>

lemma injected_discovery_forgets: "injected a \<Longrightarrow> fst (discover_end shown r a) = a"
  by (simp add: discover_end_def Let_def split: option.split)

text \<open>A reply that cannot be normalised leaves its task tracked as submitted for good.\<close>

lemma malformed_reply_stays_submitted:
  assumes "tracked_ok a" and "invoked shown fresh r a = Some tid" and "snd (invoke_end shown quoted conv fresh r a) = Inl e"
  shows "task_status tid (fst (invoke_end shown quoted conv fresh r a)) = Some ''submitted''"
  using assms track_status(1) [OF assms(1)] by (simp add: invoke_end_cases)

end
