(* ===== verification/MarketHistory.thy ===== *)
theory MarketHistory
  imports Json Python_Text "HOL-Library.Multiset"
begin

text \<open>
  Public price history (\<^verbatim>\<open>obase/market_history.py\<close>): the checks of a request, the symbol of the
  exchange, the reading of both exchanges' answers, the selection of candles and the shared cache.
  A fetch is split at its network request, between which other threads fetch. Reading numbers and
  dates, writing dates, and hashing are the functions of an environment; the answer of the exchange
  and the clocks are arguments.
\<close>

section \<open>Bars and errors\<close>

definition MAX_LIMIT :: int where
  "MAX_LIMIT = 300"

definition BAR_MAP :: "(string \<times> string \<times> string option \<times> int) list" where
  "BAR_MAP = [(''1m'', ''1m'', Some ''1'', 60000), (''3m'', ''3m'', Some ''3'', 180000),
     (''5m'', ''5m'', Some ''5'', 300000), (''15m'', ''15m'', Some ''15'', 900000),
     (''30m'', ''30m'', Some ''30'', 1800000), (''1h'', ''1H'', Some ''60'', 3600000),
     (''2h'', ''2H'', Some ''120'', 7200000), (''4h'', ''4H'', Some ''240'', 14400000),
     (''6h'', ''6Hutc'', Some ''360'', 21600000), (''12h'', ''12Hutc'', Some ''720'', 43200000),
     (''1d'', ''1Dutc'', Some ''1D'', 86400000), (''1w'', ''1Wutc'', None, 604800000)]"

datatype history_error = Value_err string | History_err string | Type_err | Key_err

record 'f env =
  to_int :: "json \<Rightarrow> int option"
  to_float :: "json \<Rightarrow> 'f option"
  from_iso :: "string \<Rightarrow> int option"
  iso_utc :: "int \<Rightarrow> string option"
  sha256 :: "string \<Rightarrow> string"

section \<open>Timestamps and symbols\<close>

definition digits :: "string \<Rightarrow> bool" where
  "digits s \<longleftrightarrow> s \<noteq> '''' \<and> list_all (\<lambda>c. let n = (of_char c :: nat) in 48 \<le> n \<and> n \<le> 57) s"

definition digits_value :: "string \<Rightarrow> int" where
  "digits_value s = foldl (\<lambda>a c. 10 * a + int (of_char c - 48)) 0 s"

definition scale_ms :: "int \<Rightarrow> int" where
  "scale_ms n = (if \<bar>n\<bar> < 100000000000 then n * 1000 else n)"

definition zulu :: "string \<Rightarrow> string" where
  "zulu s = concat (map (\<lambda>c. if c = CHR ''Z'' then ''+00:00'' else [c]) s)"

text \<open>The value is given as its text; a missing or empty one is no timestamp.\<close>

definition timestamp_ms :: "(string \<Rightarrow> int option) \<Rightarrow> string option \<Rightarrow> history_error + int option" where
  "timestamp_ms read_iso v = (case v of None \<Rightarrow> Inr None | Some t \<Rightarrow>
     if t = '''' then Inr None
     else let s = strip t in
       if digits s then Inr (Some (scale_ms (digits_value s)))
       else if has_prefix s ''-'' \<and> digits (tl s) then Inr (Some (scale_ms (- digits_value (tl s))))
       else (case read_iso (zulu s) of None \<Rightarrow> Inl (Value_err ''invalid timestamp'') | Some ms \<Rightarrow> Inr (Some ms)))"

fun before_last :: "char \<Rightarrow> string \<Rightarrow> string" where
  "before_last d s = (if d \<in> set s then butlast (rev (dropWhile (\<lambda>c. c \<noteq> d) (rev s))) else s)"

definition normalize_symbol :: "string \<Rightarrow> string \<Rightarrow> history_error + string" where
  "normalize_symbol exchange symbol =
     (let v = map (\<lambda>c. if c = CHR ''/'' then CHR ''-'' else c) (map upper_char (strip symbol))
      in if v = '''' then Inl (Value_err ''symbol is required'')
         else if exchange = ''okx'' then
           Inr (if CHR ''-'' \<in> set v then v
                else if has_suffix v ''USDT'' \<and> length v > 4 then take (length v - 4) v @ ''-USDT''
                else v @ ''-USDT'')
         else
           Inr (if CHR ''-'' \<notin> set v then v @ ''-PERPETUAL''
                else if has_suffix v ''-USDT'' \<or> has_suffix v ''-USD'' then before_last (CHR ''-'') v @ ''-PERPETUAL''
                else v))"

section \<open>Candles\<close>

record 'f candle =
  stamp :: int
  stamp_text :: string
  c_open :: 'f
  c_high :: 'f
  c_low :: 'f
  c_close :: 'f
  c_volume :: 'f
  confirmed :: "bool option"
  volume_currency :: "'f option"

definition read_candle :: "'f env \<Rightarrow> json \<Rightarrow> json \<Rightarrow> json \<Rightarrow> json \<Rightarrow> json \<Rightarrow> json \<Rightarrow> 'f candle option" where
  "read_candle env t op h l c v =
     Option.bind (to_int env t) (\<lambda>ts. Option.bind (iso_utc env ts) (\<lambda>txt.
     Option.bind (to_float env op) (\<lambda>op. Option.bind (to_float env h) (\<lambda>h.
     Option.bind (to_float env l) (\<lambda>l. Option.bind (to_float env c) (\<lambda>c.
     Option.bind (to_float env v) (\<lambda>v.
       Some \<lparr>stamp = ts, stamp_text = txt, c_open = op, c_high = h, c_low = l, c_close = c, c_volume = v,
             confirmed = None, volume_currency = None\<rparr>)))))))"

text \<open>What \<open>len\<close> and indexing see of a row; an object has a length but no index.\<close>

fun row_cells :: "json \<Rightarrow> history_error + json list" where
  "row_cells (JList xs) = Inr xs"
| "row_cells (JStr s) = Inr (map (\<lambda>c. JStr [c]) s)"
| "row_cells (JDict d) = Inl (if length d < 6 then History_err ''malformed row'' else Key_err)"
| "row_cells _ = Inl Type_err"

definition parse_okx_candle :: "'f env \<Rightarrow> json \<Rightarrow> history_error + 'f candle" where
  "parse_okx_candle env row = bindE (row_cells row) (\<lambda>xs.
     if length xs < 6 then Inl (History_err ''malformed row'')
     else case read_candle env (xs ! 0) (xs ! 1) (xs ! 2) (xs ! 3) (xs ! 4) (xs ! 5) of
       None \<Rightarrow> Inl (History_err ''non-numeric row'')
     | Some c \<Rightarrow>
         if length xs > 8 then Inr (c\<lparr>confirmed := Some (xs ! 8 = JStr ''1'' \<or> xs ! 8 = JInt 1)\<rparr>)
         else if length xs > 6 then
           (case to_float env (xs ! 6) of None \<Rightarrow> Inl (History_err ''non-numeric row'')
            | Some f \<Rightarrow> Inr (c\<lparr>volume_currency := Some f\<rparr>))
         else Inr c)"

section \<open>The answers of the exchanges\<close>

definition okx_records :: "json \<Rightarrow> history_error + json list" where
  "okx_records payload = (case payload of
       JDict d \<Rightarrow>
         if dict_get d ''code'' \<noteq> Some (JStr ''0'') then Inl (History_err ''rejected'')
         else (case get_json ''data'' (JList []) d of JList xs \<Rightarrow> Inr xs | _ \<Rightarrow> Inl (History_err ''data must be a list''))
     | _ \<Rightarrow> Inl (History_err ''rejected''))"

definition okx_candles :: "'f env \<Rightarrow> json \<Rightarrow> history_error + json list \<times> 'f candle list" where
  "okx_candles env payload = bindE (okx_records payload) (\<lambda>rows. bindE (mapE (parse_okx_candle env) rows) (\<lambda>cs. Inr (rows, cs)))"

text \<open>A list or an object is not hashable, so testing it against the set of statuses raises.\<close>

definition chart_status_ok :: "jdict \<Rightarrow> history_error + bool" where
  "chart_status_ok d = (case get_json ''status'' JNull d of
       JList _ \<Rightarrow> Inl Type_err | JDict _ \<Rightarrow> Inl Type_err
     | s \<Rightarrow> Inr (s = JStr ''ok'' \<or> s = JStr ''no_data''))"

definition deribit_chart :: "json \<Rightarrow> history_error + jdict" where
  "deribit_chart payload = (case payload of
       JDict d \<Rightarrow>
         if truthy (get_json ''error'' JNull d) then Inl (History_err ''rejected'')
         else (case get_json ''result'' (JDict []) d of
           JDict c \<Rightarrow> bindE (chart_status_ok c) (\<lambda>ok. if ok then Inr c else Inl (History_err ''unexpected chart''))
         | _ \<Rightarrow> Inl (History_err ''unexpected chart''))
     | _ \<Rightarrow> Inl (History_err ''rejected''))"

definition array_of :: "jdict \<Rightarrow> string \<Rightarrow> history_error + json list" where
  "array_of d k = (case get_json k (JList []) d of JList xs \<Rightarrow> Inr xs | _ \<Rightarrow> Inl (History_err ''malformed arrays''))"

definition deribit_row :: "json list list \<Rightarrow> nat \<Rightarrow> jdict" where
  "deribit_row cols i = [(''tick'', cols ! 0 ! i), (''open'', cols ! 1 ! i), (''high'', cols ! 2 ! i),
     (''low'', cols ! 3 ! i), (''close'', cols ! 4 ! i), (''volume'', cols ! 5 ! i)]"

definition deribit_rows :: "json \<Rightarrow> history_error + json list list \<times> nat" where
  "deribit_rows payload = bindE (deribit_chart payload) (\<lambda>c.
     bindE (mapE (array_of c) [''ticks'', ''open'', ''high'', ''low'', ''close'', ''volume'']) (\<lambda>cols.
       if \<exists>col \<in> set (tl cols). length col \<noteq> length (hd cols) then Inl (History_err ''different lengths'')
       else Inr (cols, length (hd cols))))"

definition deribit_candle :: "'f env \<Rightarrow> json list list \<Rightarrow> nat \<Rightarrow> history_error + 'f candle" where
  "deribit_candle env cols i =
     (case read_candle env (cols ! 0 ! i) (cols ! 1 ! i) (cols ! 2 ! i) (cols ! 3 ! i) (cols ! 4 ! i) (cols ! 5 ! i) of
        None \<Rightarrow> Inl (History_err ''non-numeric row'') | Some c \<Rightarrow> Inr c)"

definition deribit_candles :: "'f env \<Rightarrow> json \<Rightarrow> history_error + json list \<times> 'f candle list" where
  "deribit_candles env payload = bindE (deribit_rows payload) (\<lambda>(cols, n).
     bindE (mapE (deribit_candle env cols) [0..<n]) (\<lambda>cs. Inr (map (\<lambda>i. JDict (deribit_row cols i)) [0..<n], cs)))"

text \<open>The candles in range, in order of time, and of these the last \<open>limit\<close>.\<close>

definition select_candles :: "int \<Rightarrow> int \<Rightarrow> int \<Rightarrow> 'f candle list \<Rightarrow> 'f candle list" where
  "select_candles start stop limit cs =
     (let xs = sort_key stamp (filter (\<lambda>c. start \<le> stamp c \<and> stamp c \<le> stop) cs)
      in if int (length xs) > limit then drop (length xs - nat limit) xs else xs)"

section \<open>A fetch\<close>

record fetch_args =
  f_exchange :: string
  f_symbol :: string
  f_bar :: string
  f_start :: "string option"
  f_end :: "string option"
  f_limit :: json
  f_timeout :: rat
  f_ttl :: rat

record cache_key =
  k_exchange :: string
  k_symbol :: string
  k_bar :: string
  k_start :: int
  k_end :: int
  k_limit :: int

record 'f history =
  h_key :: cache_key
  h_start :: string
  h_end :: string
  fetched_at :: string
  cached :: bool
  h_count :: nat
  h_candles :: "'f candle list"
  endpoint :: string
  summary :: jdict

type_synonym 'f cache = "(cache_key, rat \<times> 'f history) dict"

definition OKX_URL :: string where
  "OKX_URL = ''https://www.okx.com/api/v5/market/history-candles''"

definition DERIBIT_URL :: string where
  "DERIBIT_URL = ''https://www.deribit.com/api/v2/public/get_tradingview_chart_data''"

definition clamp_timeout :: "rat \<Rightarrow> rat" where
  "clamp_timeout t = max (1 / 2) (min t 30)"

definition proxy_url :: "string option list \<Rightarrow> bool \<Rightarrow> string" where
  "proxy_url vars docker = (case find (\<lambda>v. v \<noteq> None \<and> v \<noteq> Some '''') vars of
       Some (Some v) \<Rightarrow> v
     | _ \<Rightarrow> if docker then ''http://proxy:2080'' else ''http://127.0.0.1:7890'')"

text \<open>A Boolean is no limit though Python counts it among the integers.\<close>

definition limit_of :: "json \<Rightarrow> history_error + int" where
  "limit_of j = (case j of JInt n \<Rightarrow> if 1 \<le> n \<and> n \<le> MAX_LIMIT then Inr n else Inl (Value_err ''limit'') | _ \<Rightarrow> Inl (Value_err ''limit''))"

text \<open>\<open>clock\<close> is the wall clock in milliseconds.\<close>

definition end_of :: "int option \<Rightarrow> int \<Rightarrow> int" where
  "end_of v clock = (case v of None \<Rightarrow> clock | Some n \<Rightarrow> if n = 0 then clock else n)"

definition make_request ::
    "string \<Rightarrow> string \<Rightarrow> string \<Rightarrow> string option \<Rightarrow> string \<Rightarrow> int \<Rightarrow> int \<Rightarrow> int \<Rightarrow> history_error + cache_key \<times> (string \<times> json) list" where
  "make_request ex bar okx_bar resolution symbol start stop limit =
     (if start > stop then Inl (Value_err ''start after end'')
      else bindE (normalize_symbol ex symbol) (\<lambda>sym.
        Inr (\<lparr>k_exchange = ex, k_symbol = sym, k_bar = bar, k_start = start, k_end = stop, k_limit = limit\<rparr>,
          if ex = ''okx'' then
            [(''instId'', JStr sym), (''bar'', JStr okx_bar), (''limit'', JStr (str_int limit)),
             (''after'', JStr (str_int stop)), (''before'', JStr (str_int start))]
          else
            [(''instrument_name'', JStr sym), (''resolution'', str_or_null resolution),
             (''start_timestamp'', JInt start), (''end_timestamp'', JInt stop)])))"

definition check_args :: "(string \<Rightarrow> int option) \<Rightarrow> int \<Rightarrow> fetch_args \<Rightarrow> history_error + cache_key \<times> (string \<times> json) list" where
  "check_args read_iso clock a =
     (let ex = map lower_char (strip (f_exchange a)); bar = map lower_char (strip (f_bar a)) in
      if ex \<noteq> ''okx'' \<and> ex \<noteq> ''deribit'' then Inl (Value_err ''exchange'')
      else case dict_get BAR_MAP bar of None \<Rightarrow> Inl (Value_err ''bar'')
      | Some (okx_bar, resolution, interval) \<Rightarrow>
        if ex = ''deribit'' \<and> resolution = None then Inl (Value_err ''bar'')
        else bindE (limit_of (f_limit a)) (\<lambda>limit.
          bindE (timestamp_ms read_iso (f_end a)) (\<lambda>e.
          bindE (timestamp_ms read_iso (f_start a)) (\<lambda>s.
            let stop = end_of e clock; start = (case s of None \<Rightarrow> stop - interval * limit | Some n \<Rightarrow> n)
            in make_request ex bar okx_bar resolution (f_symbol a) start stop limit))))"

datatype 'f begun = From_cache "'f history" | Request cache_key "(string \<times> json) list"

text \<open>\<open>ticks\<close> is the monotonic clock.\<close>

definition fetch_begin :: "(string \<Rightarrow> int option) \<Rightarrow> int \<Rightarrow> rat \<Rightarrow> fetch_args \<Rightarrow> 'f cache \<Rightarrow> history_error + 'f begun" where
  "fetch_begin read_iso clock ticks a cache = bindE (check_args read_iso clock a) (\<lambda>(key, params).
     Inr (case dict_get cache key of
         Some (at0, res) \<Rightarrow> if f_ttl a > 0 \<and> ticks - at0 \<le> f_ttl a then From_cache (res\<lparr>cached := True\<rparr>) else Request key params
       | None \<Rightarrow> Request key params))"

datatype response = Request_failed | Not_json | Response int string json

definition last_or_null :: "json list \<Rightarrow> json" where
  "last_or_null xs = (if xs = [] then JNull else last xs)"

definition first_or_null :: "json list \<Rightarrow> json" where
  "first_or_null xs = (if xs = [] then JNull else hd xs)"

definition response_summary :: "(string \<Rightarrow> string) \<Rightarrow> int \<Rightarrow> string \<Rightarrow> json \<Rightarrow> json list \<Rightarrow> jdict" where
  "response_summary sha code body payload rows =
     [(''http_status'', JInt code), (''top_level_keys'', JList (map JStr (sort (map fst (dict_or_nothing payload))))),
      (''provider_code'', get_json ''code'' JNull (dict_or_nothing payload)),
      (''provider_message'', get_json ''msg'' JNull (dict_or_nothing payload)),
      (''raw_record_count'', JInt (int (length rows))), (''raw_first_record'', first_or_null rows),
      (''raw_last_record'', last_or_null rows), (''sha256'', JStr (sha body)), (''size_bytes'', JInt (int (length body)))]"

definition read_response :: "'f env \<Rightarrow> cache_key \<Rightarrow> string \<Rightarrow> response \<Rightarrow> history_error + 'f history" where
  "read_response env key now r = (case r of
       Request_failed \<Rightarrow> Inl (History_err ''request failed'')
     | Not_json \<Rightarrow> Inl (History_err ''invalid JSON'')
     | Response code body payload \<Rightarrow>
         bindE (if k_exchange key = ''okx'' then okx_candles env payload else deribit_candles env payload) (\<lambda>(rows, cs).
         let xs = select_candles (k_start key) (k_end key) (k_limit key) cs in
         case (iso_utc env (k_start key), iso_utc env (k_end key)) of
           (Some s, Some e) \<Rightarrow> Inr \<lparr>h_key = key, h_start = s, h_end = e, fetched_at = now, cached = False,
             h_count = length xs, h_candles = xs,
             endpoint = (if k_exchange key = ''okx'' then OKX_URL else DERIBIT_URL),
             summary = response_summary (sha256 env) code body payload rows\<rparr>
         | _ \<Rightarrow> Inl (Value_err ''date out of range'')))"

definition fetch_end :: "'f env \<Rightarrow> cache_key \<Rightarrow> rat \<Rightarrow> string \<Rightarrow> rat \<Rightarrow> response \<Rightarrow> 'f cache \<Rightarrow> 'f cache \<times> (history_error + 'f history)" where
  "fetch_end env key ttl now ticks r cache = (case read_response env key now r of
       Inl e \<Rightarrow> (cache, Inl e)
     | Inr h \<Rightarrow> (if ttl > 0 then dict_set key (ticks, h) cache else cache, Inr h))"

section \<open>Fetches of several threads\<close>

text \<open>Requests in flight, the shared cache, and what was returned for which key.\<close>

record 'f market =
  m_cache :: "'f cache"
  in_flight :: "(cache_key \<times> rat) list"
  served :: "(cache_key \<times> 'f history) list"

inductive market_reach :: "'f env \<Rightarrow> 'f market \<Rightarrow> bool" for env where
  market_start: "market_reach env \<lparr>m_cache = [], in_flight = [], served = []\<rparr>"
| market_hit: "market_reach env m \<Longrightarrow> check_args (from_iso env) clock a = Inr (key, params) \<Longrightarrow>
     fetch_begin (from_iso env) clock ticks a (m_cache m) = Inr (From_cache h) \<Longrightarrow>
     market_reach env (m\<lparr>served := (key, h) # served m\<rparr>)"
| market_miss: "market_reach env m \<Longrightarrow> fetch_begin (from_iso env) clock ticks a (m_cache m) = Inr (Request key params) \<Longrightarrow>
     market_reach env (m\<lparr>in_flight := (key, f_ttl a) # in_flight m\<rparr>)"
| market_answer: "market_reach env m \<Longrightarrow> (key, ttl) \<in> set (in_flight m) \<Longrightarrow>
     fetch_end env key ttl now ticks r (m_cache m) = (cache, Inr h) \<Longrightarrow>
     market_reach env (m\<lparr>m_cache := cache, in_flight := remove1 (key, ttl) (in_flight m), served := (key, h) # served m\<rparr>)"
| market_error: "market_reach env m \<Longrightarrow> (key, ttl) \<in> set (in_flight m) \<Longrightarrow>
     fetch_end env key ttl now ticks r (m_cache m) = (cache, Inl e) \<Longrightarrow>
     market_reach env (m\<lparr>m_cache := cache, in_flight := remove1 (key, ttl) (in_flight m)\<rparr>)"

section \<open>The selection\<close>

abbreviation in_range :: "int \<Rightarrow> int \<Rightarrow> 'f candle list \<Rightarrow> 'f candle list" where
  "in_range start stop cs \<equiv> filter (\<lambda>c. start \<le> stamp c \<and> stamp c \<le> stop) cs"

lemma select_split:
  "\<exists>ys. sort_key stamp (in_range start stop cs) = ys @ select_candles start stop limit cs
     \<and> (int (length (in_range start stop cs)) \<le> limit \<longrightarrow> ys = [])
     \<and> (0 \<le> limit \<longrightarrow> limit < int (length (in_range start stop cs)) \<longrightarrow> int (length (select_candles start stop limit cs)) = limit)"
proof -
  let ?xs = "sort_key stamp (in_range start stop cs)"
  have l: "length ?xs = length (in_range start stop cs)" by simp
  show ?thesis
  proof (cases "int (length ?xs) > limit")
    case True
    then have "select_candles start stop limit cs = drop (length ?xs - nat limit) ?xs" by (simp add: select_candles_def Let_def)
    then show ?thesis using True
      by (intro exI [of _ "take (length ?xs - nat limit) ?xs"]) (simp add: of_nat_diff)
  next
    case False
    then have "select_candles start stop limit cs = ?xs" by (simp add: select_candles_def Let_def)
    then show ?thesis using False l by (intro exI [of _ "[]"]) simp
  qed
qed

lemma select_facts:
  assumes "0 \<le> limit"
  shows "sorted (map stamp (select_candles start stop limit cs))"
    and "set (select_candles start stop limit cs) \<subseteq> {c \<in> set cs. start \<le> stamp c \<and> stamp c \<le> stop}"
    and "int (length (select_candles start stop limit cs)) \<le> limit"
proof -
  obtain ys where ys: "sort_key stamp (in_range start stop cs) = ys @ select_candles start stop limit cs"
    "int (length (in_range start stop cs)) \<le> limit \<longrightarrow> ys = []"
    "limit < int (length (in_range start stop cs)) \<longrightarrow> int (length (select_candles start stop limit cs)) = limit"
    using select_split [of start stop cs limit] assms by blast
  have "sorted (map stamp (ys @ select_candles start stop limit cs))"
    unfolding ys(1) [symmetric] by (rule sorted_sort_key)
  then show "sorted (map stamp (select_candles start stop limit cs))" by (simp add: sorted_append)
  have "set (select_candles start stop limit cs) \<subseteq> set (sort_key stamp (in_range start stop cs))" unfolding ys(1) by simp
  then show "set (select_candles start stop limit cs) \<subseteq> {c \<in> set cs. start \<le> stamp c \<and> stamp c \<le> stop}" by auto
  have "length (in_range start stop cs) = length (ys @ select_candles start stop limit cs)"
    unfolding ys(1) [symmetric] by simp
  then show "int (length (select_candles start stop limit cs)) \<le> limit" using ys(2,3) by (cases "limit < int (length (in_range start stop cs))") auto
qed

text \<open>
  The candles of a result are the latest of the answer. They are part of the candles in range,
  with repetitions: all of them when the limit allows, else as many as the limit, and then no candle
  that is left out is later than one that is kept.
\<close>

theorem selected_are_latest:
  assumes "0 \<le> limit"
  shows "\<exists>rest. mset (in_range start stop cs) = mset (select_candles start stop limit cs) + mset rest
     \<and> (int (length (in_range start stop cs)) \<le> limit \<longrightarrow> rest = [])
     \<and> (limit < int (length (in_range start stop cs)) \<longrightarrow> int (length (select_candles start stop limit cs)) = limit)
     \<and> (\<forall>c \<in> set rest. \<forall>d \<in> set (select_candles start stop limit cs). stamp c \<le> stamp d)"
proof -
  obtain ys where ys: "sort_key stamp (in_range start stop cs) = ys @ select_candles start stop limit cs"
    "int (length (in_range start stop cs)) \<le> limit \<longrightarrow> ys = []"
    "limit < int (length (in_range start stop cs)) \<longrightarrow> int (length (select_candles start stop limit cs)) = limit"
    using select_split [of start stop cs limit] assms by blast
  have "mset (in_range start stop cs) = mset (ys @ select_candles start stop limit cs)"
    unfolding ys(1) [symmetric] by simp
  moreover have "sorted (map stamp (ys @ select_candles start stop limit cs))"
    unfolding ys(1) [symmetric] by (rule sorted_sort_key)
  ultimately show ?thesis using ys(2,3) by (intro exI [of _ ys]) (auto simp: sorted_append)
qed

definition ex_candle :: "int \<Rightarrow> nat candle" where
  "ex_candle t = \<lparr>stamp = t, stamp_text = '''', c_open = 0, c_high = 0, c_low = 0, c_close = 0, c_volume = 0, confirmed = None, volume_currency = None\<rparr>"

theorem selected_are_latest_witness:
  "\<exists>rest. mset (map ex_candle [5, 3, 4]) = mset (select_candles 0 10 2 (map ex_candle [5, 3, 4])) + mset rest
     \<and> int (length (select_candles 0 10 2 (map ex_candle [5, 3, 4]))) = 2"
  using selected_are_latest [where limit = 2 and start = 0 and stop = 10 and cs = "map ex_candle [5, 3, 4]"]
  by (auto simp: ex_candle_def)

section \<open>What is served\<close>

definition well_formed :: "cache_key \<Rightarrow> 'f history \<Rightarrow> bool" where
  "well_formed key h \<longleftrightarrow> h_key h = key \<and> sorted (map stamp (h_candles h)) \<and> h_count h = length (h_candles h)
     \<and> int (h_count h) \<le> k_limit key \<and> (\<forall>c \<in> set (h_candles h). k_start key \<le> stamp c \<and> stamp c \<le> k_end key)"

definition key_ok :: "cache_key \<Rightarrow> bool" where
  "key_ok k \<longleftrightarrow> k_start k \<le> k_end k \<and> 1 \<le> k_limit k \<and> k_limit k \<le> MAX_LIMIT \<and> k_symbol k \<noteq> ''''
     \<and> (k_exchange k = ''okx'' \<or> k_exchange k = ''deribit'') \<and> k_bar k \<in> dom (dict_get BAR_MAP)"

lemma read_response_well_formed:
  assumes "read_response env key now r = Inr h" and "0 \<le> k_limit key"
  shows "well_formed key h \<and> \<not> cached h"
proof -
  obtain code body payload where "r = Response code body payload" using assms(1) by (cases r) (auto simp: read_response_def)
  then obtain rows cs s e where "iso_utc env (k_start key) = Some s" "iso_utc env (k_end key) = Some e"
    "h = \<lparr>h_key = key, h_start = s, h_end = e, fetched_at = now, cached = False,
             h_count = length (select_candles (k_start key) (k_end key) (k_limit key) cs),
             h_candles = select_candles (k_start key) (k_end key) (k_limit key) cs,
             endpoint = (if k_exchange key = ''okx'' then OKX_URL else DERIBIT_URL),
             summary = response_summary (sha256 env) code body payload rows\<rparr>"
    using assms(1) by (cases "iso_utc env (k_start key)"; cases "iso_utc env (k_end key)")
      (auto simp: read_response_def bindE_Inr Let_def)
  then have "h_key h = key" "\<not> cached h" "h_count h = length (h_candles h)"
    "h_candles h = select_candles (k_start key) (k_end key) (k_limit key) cs" by simp_all
  then show ?thesis using select_facts [OF assms(2), of "k_start key" "k_end key" cs] by (auto simp: well_formed_def)
qed

lemma check_args_key_ok: "check_args read_iso clock a = Inr (key, params) \<Longrightarrow> key_ok key"
proof -
  assume *: "check_args read_iso clock a = Inr (key, params)"
  let ?ex = "map lower_char (strip (f_exchange a))" and ?bar = "map lower_char (strip (f_bar a))"
  have ex: "?ex = ''okx'' \<or> ?ex = ''deribit''" using * by (auto simp: check_args_def Let_def split: if_splits)
  obtain okx_bar res interval where bar: "dict_get BAR_MAP ?bar = Some (okx_bar, res, interval)"
    using * ex by (auto simp: check_args_def Let_def split: option.splits if_splits)
  obtain limit start stop where l: "limit_of (f_limit a) = Inr limit"
    and m: "make_request ?ex ?bar okx_bar res (f_symbol a) start stop limit = Inr (key, params)"
    using * ex bar by (auto simp: check_args_def Let_def bindE_Inr split: if_splits)
  from l have "1 \<le> limit \<and> limit \<le> MAX_LIMIT" by (auto simp: limit_of_def split: json.splits if_splits)
  moreover from m have "start \<le> stop" by (auto simp: make_request_def split: if_splits)
  moreover from m obtain sym where "normalize_symbol ?ex (f_symbol a) = Inr sym"
    and "key = \<lparr>k_exchange = ?ex, k_symbol = sym, k_bar = ?bar, k_start = start, k_end = stop, k_limit = limit\<rparr>"
    by (auto simp: make_request_def bindE_Inr split: if_splits)
  moreover from this(1) have "sym \<noteq> ''''" by (auto simp: normalize_symbol_def Let_def split: if_splits)
  ultimately show ?thesis using ex bar by (simp add: key_ok_def domI)
qed

definition market_ok :: "'f market \<Rightarrow> bool" where
  "market_ok m \<longleftrightarrow> (\<forall>key t h. dict_get (m_cache m) key = Some (t, h) \<longrightarrow> key_ok key \<and> well_formed key h \<and> \<not> cached h)
     \<and> (\<forall>key ttl. (key, ttl) \<in> set (in_flight m) \<longrightarrow> key_ok key)
     \<and> (\<forall>key h. (key, h) \<in> set (served m) \<longrightarrow> key_ok key \<and> well_formed key h)"

lemma well_formed_cached [simp]: "well_formed key (h\<lparr>cached := b\<rparr>) = well_formed key h"
  by (simp add: well_formed_def)

lemma fetch_hit:
  assumes "check_args read_iso clock a = Inr (key, params)" and "fetch_begin read_iso clock ticks a cache = Inr (From_cache h)"
  shows "\<exists>t h0. dict_get cache key = Some (t, h0) \<and> f_ttl a > 0 \<and> ticks - t \<le> f_ttl a \<and> h = h0\<lparr>cached := True\<rparr>"
  using assms by (auto simp: fetch_begin_def split: option.splits if_splits)

lemma fetch_miss: "fetch_begin read_iso clock ticks a cache = Inr (Request key params) \<Longrightarrow> key_ok key"
  using check_args_key_ok by (fastforce simp: fetch_begin_def bindE_Inr split: option.splits if_splits prod.splits)

lemma fetch_answer:
  assumes "fetch_end env key ttl now ticks r cache = (cache', res)" and "key_ok key"
  shows "(\<forall>h. res = Inr h \<longrightarrow> well_formed key h)
     \<and> (\<forall>k t h. dict_get cache' k = Some (t, h) \<longrightarrow> dict_get cache k = Some (t, h) \<or> (k = key \<and> well_formed k h \<and> \<not> cached h))"
  using assms read_response_well_formed [of env key now r]
  by (auto simp: fetch_end_def key_ok_def update_conv' split: sum.splits if_splits)

lemma market_reach_ok: "market_reach env m \<Longrightarrow> market_ok m"
proof (induction rule: market_reach.induct)
  case market_start
  then show ?case by (simp add: market_ok_def)
next
  case (market_hit m clock a key params ticks h)
  from fetch_hit [OF market_hit.hyps(2,3)] obtain t h0 where "dict_get (m_cache m) key = Some (t, h0)" "h = h0\<lparr>cached := True\<rparr>" by blast
  then show ?case using market_hit.IH check_args_key_ok [OF market_hit.hyps(2)] by (auto simp: market_ok_def)
next
  case (market_miss m clock ticks a key params)
  then show ?case using fetch_miss [OF market_miss.hyps(2)] by (auto simp: market_ok_def)
next
  case (market_answer m key ttl now ticks r cache h)
  then have k: "key_ok key" by (auto simp: market_ok_def)
  note f = fetch_answer [OF market_answer.hyps(3) k]
  then have "\<forall>k t h. dict_get cache k = Some (t, h) \<longrightarrow> key_ok k \<and> well_formed k h \<and> \<not> cached h"
    using market_answer.IH k unfolding market_ok_def by blast
  moreover have "key_ok k'" if "(k', t') \<in> set (remove1 (key, ttl) (in_flight m))" for k' t'
    using in_remove1 [OF that] market_answer.IH unfolding market_ok_def by blast
  ultimately show ?case using f market_answer.IH k by (auto simp: market_ok_def)
next
  case (market_error m key ttl now ticks r cache e)
  then have k: "key_ok key" by (auto simp: market_ok_def)
  from fetch_answer [OF market_error.hyps(3) k]
  have "\<forall>k t h. dict_get cache k = Some (t, h) \<longrightarrow> key_ok k \<and> well_formed k h \<and> \<not> cached h"
    using market_error.IH k unfolding market_ok_def by blast
  moreover have "key_ok k'" if "(k', t') \<in> set (remove1 (key, ttl) (in_flight m))" for k' t'
    using in_remove1 [OF that] market_error.IH unfolding market_ok_def by blast
  ultimately show ?case using market_error.IH by (auto simp: market_ok_def)
qed

text \<open>
  C18. Whatever threads fetch concurrently, every history served answers the request it is served for,
  from the network or from the cache: exchange, symbol and bar are valid, the limit is within 1 and
  300, and there are at most that many candles, in order of time and within the requested range.
\<close>

theorem history_served:
  assumes "market_reach env m" and "(key, h) \<in> set (served m)"
  shows "key_ok key \<and> well_formed key h"
  using market_reach_ok [OF assms(1)] assms(2) by (simp add: market_ok_def)

section \<open>An example and its surprises\<close>

definition ex_env :: "nat env" where
  "ex_env = \<lparr>to_int = (\<lambda>j. case j of JInt n \<Rightarrow> Some n | _ \<Rightarrow> None), to_float = (\<lambda>j. Some 0),
     from_iso = (\<lambda>s. None), iso_utc = (\<lambda>n. Some ''''), sha256 = (\<lambda>s. '''')\<rparr>"

definition ex_fetch :: fetch_args where
  "ex_fetch = \<lparr>f_exchange = ''okx'', f_symbol = ''BTC-USDT'', f_bar = ''1h'', f_start = Some ''0'', f_end = Some ''7'',
     f_limit = JInt 2, f_timeout = 8, f_ttl = 30\<rparr>"

definition ex_key :: cache_key where
  "ex_key = \<lparr>k_exchange = ''okx'', k_symbol = ''BTC-USDT'', k_bar = ''1h'', k_start = 0, k_end = 7000, k_limit = 2\<rparr>"

definition ex_response :: response where
  "ex_response = Response 200 '''' (JDict [(''code'', JStr ''0''), (''data'', JList [JList (map JInt [5000, 1, 1, 1, 1, 1]), JList (map JInt [3000, 1, 1, 1, 1, 1])])])"

lemma ex_begin: "\<exists>params. fetch_begin (from_iso ex_env) 0 0 ex_fetch [] = Inr (Request ex_key params)"
proof -
  have "map lower_char (strip ''okx'') = ''okx''" "map lower_char (strip ''1h'') = ''1h''"
    "dict_get BAR_MAP ''1h'' = Some (''1H'', Some ''60'', 3600000)"
    "timestamp_ms (\<lambda>s. None) (Some ''7'') = Inr (Some 7000)" "timestamp_ms (\<lambda>s. None) (Some ''0'') = Inr (Some 0)"
    "normalize_symbol ''okx'' ''BTC-USDT'' = Inr ''BTC-USDT''" by code_simp+
  then show ?thesis
    by (simp add: fetch_begin_def check_args_def make_request_def ex_fetch_def ex_env_def ex_key_def limit_of_def MAX_LIMIT_def end_of_def Let_def)
qed

lemma ex_ttl: "f_ttl ex_fetch = 30"
  by (simp add: ex_fetch_def)

lemma ex_answer: "\<exists>cache h. fetch_end ex_env ex_key 30 '''' 0 ex_response [] = (cache, Inr h)"
  by (simp add: fetch_end_def read_response_def ex_response_def ex_key_def okx_candles_def okx_records_def parse_okx_candle_def
      get_json_def read_candle_def ex_env_def Let_def)

theorem history_served_witness:
  "\<exists>m h. market_reach ex_env m \<and> (ex_key, h) \<in> set (served m) \<and> int (h_count h) \<le> 2"
proof -
  obtain params where p: "fetch_begin (from_iso ex_env) 0 0 ex_fetch ([] :: nat cache) = Inr (Request ex_key params)"
    using ex_begin by blast
  obtain cache h where a: "fetch_end ex_env ex_key 30 '''' 0 ex_response [] = (cache, Inr h)" using ex_answer by blast
  have 1: "market_reach ex_env \<lparr>m_cache = [], in_flight = [(ex_key, 30)], served = []\<rparr>"
    using market_miss [OF market_start, of ex_env 0 0 ex_fetch ex_key params] by (simp add: p ex_ttl)
  have 2: "market_reach ex_env \<lparr>m_cache = cache, in_flight = [], served = [(ex_key, h)]\<rparr>"
    using market_answer [OF 1, of ex_key 30 "''''" 0 ex_response cache h] a by simp
  have "key_ok ex_key \<and> well_formed ex_key h" by (rule history_served [OF 2]) simp
  then have "int (h_count h) \<le> 2" by (simp add: well_formed_def ex_key_def)
  with 2 show ?thesis by force
qed

text \<open>An end of zero, the epoch, is taken for a missing one: the clock is used.\<close>

lemma zero_end_is_now: "timestamp_ms read_iso (Some ''0'') = Inr (Some 0) \<and> end_of (Some 0) clock = clock"
  by (simp add: timestamp_ms_def digits_def digits_value_def scale_ms_def end_of_def strip_def white_space_def)

text \<open>A timestamp in milliseconds before March 1973 is read as seconds.\<close>

lemma early_milliseconds: "timestamp_ms read_iso (Some ''86400000'') = Inr (Some 86400000000)"
  by (simp add: timestamp_ms_def digits_def digits_value_def scale_ms_def strip_def white_space_def)

text \<open>A pair against another stable coin becomes a pair of that pair.\<close>

lemma usdc_pair_mangled: "normalize_symbol ''okx'' ''BTCUSDC'' = Inr ''BTCUSDC-USDT''"
  by code_simp

end
