(* ===== verification/Uuid7.thy ===== *)
theory Uuid7
  imports Obase_Prelude "HOL-Library.Word"
begin

unbundle bit_operations_syntax

text \<open>
  Time-ordered identifiers (\<^verbatim>\<open>obase/uuid7.py\<close>). The clock in milliseconds and the random bits are
  arguments; bytes are 8-bit words.
\<close>

definition byte_at :: "int \<Rightarrow> nat \<Rightarrow> 8 word" where
  "byte_at n k = word_of_int (drop_bit k n AND 0xFF)"

definition uuid7_bytes :: "int \<Rightarrow> int \<Rightarrow> int \<Rightarrow> 8 word list" where
  "uuid7_bytes ms rand_a rand_b =
     [byte_at ms 40, byte_at ms 32, byte_at ms 24, byte_at ms 16, byte_at ms 8, byte_at ms 0,
      word_of_int (0x70 OR (drop_bit 8 rand_a AND 0x0F)), byte_at rand_a 0,
      word_of_int (0x80 OR (drop_bit 56 rand_b AND 0x3F)), byte_at rand_b 48, byte_at rand_b 40, byte_at rand_b 32,
      byte_at rand_b 24, byte_at rand_b 16, byte_at rand_b 8, byte_at rand_b 0]"

definition hex_digit :: "nat \<Rightarrow> char" where
  "hex_digit n = (if n < 10 then char_of (48 + n) else char_of (87 + n))"

definition hex_byte :: "8 word \<Rightarrow> string" where
  "hex_byte w = [hex_digit (unat w div 16), hex_digit (unat w mod 16)]"

definition hex_text :: "8 word list \<Rightarrow> string" where
  "hex_text bs = concat (map hex_byte bs)"

definition uuid7 :: "int \<Rightarrow> int \<Rightarrow> int \<Rightarrow> string" where
  "uuid7 ms rand_a rand_b =
     (let h = hex_text (uuid7_bytes ms rand_a rand_b)
      in take 8 h @ ''-'' @ take 4 (drop 8 h) @ ''-'' @ take 4 (drop 12 h) @ ''-'' @ take 4 (drop 16 h) @ ''-'' @ drop 20 h)"

section \<open>Bytes and their texts\<close>

lemma byte_at_unat: "unat (byte_at n k) = nat (n div 2 ^ k mod 256)"
proof -
  have "drop_bit k n AND 0xFF = take_bit 8 (drop_bit k n)"
    using take_bit_eq_mask [of 8 "drop_bit k n"] by (simp add: mask_eq_exp_minus_1)
  then show ?thesis
    by (simp add: byte_at_def unat_eq_nat_uint uint_word_of_int take_bit_eq_mod drop_bit_eq_div)
qed

lemma hex_digit_less: "a < b \<Longrightarrow> b < 16 \<Longrightarrow> hex_digit a < hex_digit b"
  by (simp add: hex_digit_def less_char_def)

lemma hex_digit_eq: "a < 16 \<Longrightarrow> b < 16 \<Longrightarrow> hex_digit a = hex_digit b \<longleftrightarrow> a = b"
  using hex_digit_less [of a b] hex_digit_less [of b a] by (metis less_irrefl linorder_neqE_nat)

lemma word8_bound: "unat (w :: 8 word) < 256"
  using unsigned_less [of w] by simp

lemma hex_byte_less: "w < w' \<Longrightarrow> hex_byte w < hex_byte w'"
proof -
  assume "w < w'"
  then have l: "unat w < unat w'" by (simp add: word_less_nat_alt)
  have b: "unat w' div 16 < 16" using word8_bound [of w'] by simp
  show ?thesis
  proof (cases "unat w div 16 < unat w' div 16")
    case True
    then show ?thesis using hex_digit_less [OF True b] by (simp add: hex_byte_def)
  next
    case False
    then have d: "unat w div 16 = unat w' div 16" using l div_le_mono [of "unat w" "unat w'" 16] by simp
    then have "unat w mod 16 < unat w' mod 16"
      using l div_mult_mod_eq [of "unat w" 16] div_mult_mod_eq [of "unat w'" 16] by linarith
    then show ?thesis using d hex_digit_less by (simp add: hex_byte_def)
  qed
qed

lemma hex_byte_inject: "hex_byte w = hex_byte w' \<Longrightarrow> w = w'"
  using hex_byte_less by (metis less_irrefl linorder_less_linear)

lemma length_hex_byte [simp]: "length (hex_byte w) = 2"
  by (simp add: hex_byte_def)

lemma length_hex_text: "length (hex_text bs) = 2 * length bs"
  by (induction bs) (simp_all add: hex_text_def)

text \<open>Lists of equal length in front decide the lexicographic order.\<close>

lemma append_less: "length u = length v \<Longrightarrow> u @ s < v @ t \<longleftrightarrow> u < v \<or> (u = v \<and> s < (t :: 'a :: order list))"
  by (induction u v rule: list_induct2) auto

lemma hex_text_less: "length bs = length cs \<Longrightarrow> bs < cs \<Longrightarrow> hex_text bs < hex_text cs"
proof (induction bs cs rule: list_induct2)
  case (Cons b bs c cs)
  then show ?case using hex_byte_less [of b c] append_less [of "hex_byte b" "hex_byte c" "hex_text bs" "hex_text cs"]
    by (auto simp: hex_text_def)
qed simp

lemma uuid7_text:
  assumes "uuid7_bytes ms ra rb = xs @ ys @ zs" and "length xs = 4" and "length ys = 2"
  shows "\<exists>rest. uuid7 ms ra rb = hex_text xs @ ''-'' @ hex_text ys @ ''-'' @ rest"
proof -
  have "hex_text (uuid7_bytes ms ra rb) = hex_text xs @ hex_text ys @ hex_text zs" using assms(1) by (simp add: hex_text_def)
  then show ?thesis using assms(2,3) length_hex_text [of xs] length_hex_text [of ys]
    by (simp add: uuid7_def Let_def)
qed

section \<open>Order of time\<close>

fun big_endian :: "nat \<Rightarrow> int \<Rightarrow> 8 word list" where
  "big_endian 0 n = []"
| "big_endian (Suc k) n = big_endian k (n div 256) @ [byte_at n 0]"

lemma byte_at_add: "byte_at n (k + 8) = byte_at (n div 256) k"
proof -
  have "n div (256 * 2 ^ k) = n div 256 div 2 ^ k" by (rule zdiv_zmult2_eq) simp
  then have "drop_bit (k + 8) n = drop_bit k (n div 256)" by (simp add: drop_bit_eq_div power_add mult.commute)
  then show ?thesis by (simp add: byte_at_def)
qed

lemma length_big_endian [simp]: "length (big_endian k n) = k"
  by (induction k arbitrary: n) simp_all

lemma big_endian_less: "0 \<le> m \<Longrightarrow> m < n \<Longrightarrow> n < 256 ^ k \<Longrightarrow> big_endian k m < big_endian k n"
proof (induction k arbitrary: m n)
  case (Suc k)
  have n: "n div 256 < 256 ^ k" 
    using Suc.prems(3) div_mult_mod_eq [of n 256] pos_mod_sign [of 256 n] unfolding power_Suc by linarith
  show ?case
  proof (cases "m div 256 < n div 256")
    case True
    then have "big_endian k (m div 256) < big_endian k (n div 256)" using Suc.IH Suc.prems(1) n by simp
    then show ?thesis by (simp add: append_less)
  next
    case False
    then have d: "m div 256 = n div 256" using Suc.prems(2) zdiv_mono1 [of m n 256] by linarith
    then have "m mod 256 < n mod 256" using Suc.prems(2) div_mult_mod_eq [of m 256] div_mult_mod_eq [of n 256] by linarith
    then have "byte_at m 0 < byte_at n 0" by (simp add: word_less_nat_alt byte_at_unat nat_less_eq_zless)
    then show ?thesis using d by (simp add: append_less)
  qed
qed simp

lemma uuid7_prefix:
  "\<exists>rest. uuid7 ms ra rb = take 8 (hex_text (big_endian 6 ms)) @ ''-'' @ drop 8 (hex_text (big_endian 6 ms)) @ ''-'' @ rest"
proof -
  have b: "big_endian 6 ms = [byte_at ms 40, byte_at ms 32, byte_at ms 24, byte_at ms 16, byte_at ms 8, byte_at ms 0]"
  proof -
    have s: "byte_at n 8 = byte_at (n div 256) 0" "byte_at n 16 = byte_at (n div 256) 8" "byte_at n 24 = byte_at (n div 256) 16"
      "byte_at n 32 = byte_at (n div 256) 24" "byte_at n 40 = byte_at (n div 256) 32" for n
      using byte_at_add [of n 0] byte_at_add [of n 8] byte_at_add [of n 16] byte_at_add [of n 24] byte_at_add [of n 32] by simp_all
    have "big_endian (Suc (Suc (Suc (Suc (Suc (Suc 0)))))) ms
        = [byte_at ms 40, byte_at ms 32, byte_at ms 24, byte_at ms 16, byte_at ms 8, byte_at ms 0]" by (simp only: big_endian.simps s append.simps)
    then show ?thesis by (simp add: numeral_eq_Suc)
  qed
  obtain tl where "uuid7_bytes ms ra rb = big_endian 6 ms @ tl" unfolding b by (simp add: uuid7_bytes_def)
  then have h: "hex_text (uuid7_bytes ms ra rb) = hex_text (big_endian 6 ms) @ hex_text tl" by (simp add: hex_text_def)
  have "length (hex_text (big_endian 6 ms)) = 12" by (simp add: length_hex_text)
  then show ?thesis unfolding uuid7_def Let_def h by simp
qed

text \<open>
  Identifiers sort by time: one made in an earlier millisecond is the smaller text, whatever the
  random bits of both, until the clock exceeds 48 bits.
\<close>

theorem uuid7_time_ordered:
  assumes "0 \<le> ms" and "ms < ms'" and "ms' < 2 ^ 48"
  shows "uuid7 ms ra rb < uuid7 ms' ra' rb'"
proof -
  let ?h = "hex_text (big_endian 6 ms)" and ?h' = "hex_text (big_endian 6 ms')"
  have l: "length ?h = 12" "length ?h' = 12" by (simp_all add: length_hex_text)
  have "?h < ?h'" using big_endian_less [OF assms(1,2), of 6] assms(3) hex_text_less by simp
  then have "take 8 ?h @ drop 8 ?h < take 8 ?h' @ drop 8 ?h'" by simp
  moreover have "length (take 8 ?h) = length (take 8 ?h')" "length (drop 8 ?h) = length (drop 8 ?h')" using l by simp_all
  ultimately have *: "take 8 ?h < take 8 ?h' \<or> (take 8 ?h = take 8 ?h' \<and> drop 8 ?h < drop 8 ?h')"
    using append_less by blast
  obtain r r' where u: "uuid7 ms ra rb = take 8 ?h @ ''-'' @ drop 8 ?h @ ''-'' @ r"
    "uuid7 ms' ra' rb' = take 8 ?h' @ ''-'' @ drop 8 ?h' @ ''-'' @ r'" using uuid7_prefix by metis
  show ?thesis unfolding u using * l
    by (auto simp: append_less)
qed

theorem uuid7_time_ordered_witness: "uuid7 1700000000000 4095 7 < uuid7 1700000000001 0 0"
  by (rule uuid7_time_ordered) simp_all

text \<open>Within one millisecond the random bits decide, so an identifier made later can be smaller.\<close>

lemma uuid7_unordered_within_millisecond: "uuid7 5 0 0 < uuid7 5 1 0"
  by code_simp

section \<open>Layout\<close>

lemma uuid7_bytes_length [simp]: "length (uuid7_bytes ms ra rb) = 16"
  by (simp add: uuid7_bytes_def)

text \<open>The thirteenth digit is the version, the seventeenth starts with the variant.\<close>

lemma low_bits: "x AND 15 \<in> set [0..15 :: int]" "x AND 63 \<in> set [0..63 :: int]"
  using take_bit_eq_mask [of 4 x] take_bit_eq_mask [of 6 x] by (auto simp: mask_eq_exp_minus_1 take_bit_eq_mod)

lemma version_byte: "unat (word_of_int (0x70 OR (x AND 0x0F)) :: 8 word) div 16 = 7"
proof -
  have "list_all (\<lambda>y. unat (word_of_int (0x70 OR y) :: 8 word) div 16 = 7) [0..15]" by code_simp
  then show ?thesis using low_bits(1) unfolding list_all_iff by blast
qed

lemma variant_byte: "unat (word_of_int (0x80 OR (x AND 0x3F)) :: 8 word) div 16 \<in> {8, 9, 10, 11}"
proof -
  have "list_all (\<lambda>y. unat (word_of_int (0x80 OR y) :: 8 word) div 16 \<in> {8, 9, 10, 11}) [0..63]" by code_simp
  then show ?thesis using low_bits(2) unfolding list_all_iff by blast
qed

text \<open>
  Every identifier has the layout of a version 7 UUID: 36 characters, dashes between groups of
  8, 4, 4, 4 and 12 digits, the version digit 7 and a variant digit from 8 to b.
\<close>

theorem uuid7_layout:
  "length (uuid7 ms ra rb) = 36 \<and> map (\<lambda>i. uuid7 ms ra rb ! i) [8, 13, 18, 23] = ''----''
   \<and> uuid7 ms ra rb ! 14 = CHR ''7'' \<and> uuid7 ms ra rb ! 19 \<in> set ''89ab''"
proof -
  have d: "hex_digit 7 = CHR ''7''" "hex_digit 8 = CHR ''8''" "hex_digit 9 = CHR ''9''" "hex_digit 10 = CHR ''a''" "hex_digit 11 = CHR ''b''"
    by code_simp+
  have t: "\<exists>x0 x1 x2 x3 x4 x5 x6 x7 y0 y1 y2 y3 z1 z2 z3 w1 w2 w3 rest. uuid7 ms ra rb =
      [x0, x1, x2, x3, x4, x5, x6, x7, CHR ''-'', y0, y1, y2, y3, CHR ''-'', hex_digit (unat (uuid7_bytes ms ra rb ! 6) div 16), z1, z2, z3, CHR ''-'',
       hex_digit (unat (uuid7_bytes ms ra rb ! 8) div 16), w1, w2, w3, CHR ''-''] @ rest \<and> length rest = 12"
    by (simp add: uuid7_def hex_text_def hex_byte_def uuid7_bytes_def Let_def)
  have "hex_digit (unat (uuid7_bytes ms ra rb ! 6) div 16) = CHR ''7''"
    using version_byte [of "drop_bit 8 ra"] d(1) by (simp add: uuid7_bytes_def)
  moreover have "hex_digit (unat (uuid7_bytes ms ra rb ! 8) div 16) \<in> set ''89ab''"
    using variant_byte [of "drop_bit 56 rb"] d(2-5) by (auto simp: uuid7_bytes_def)
  ultimately show ?thesis using t by auto
qed

end
