(* ===== verification/EvidenceLedger.thy ===== *)
theory EvidenceLedger
  imports Json Python_Text "HOL-Library.Product_Lexorder"
begin

text \<open>
  Evidence records (\<^verbatim>\<open>obase/evidence_ledger.py\<close>): construction with a content hash and a
  content-addressed identifier, validation by reconstruction, and the append-only ledger, whose
  appends hold a file lock throughout. Canonical JSON sorts the keys of objects; its text, the hash,
  the splitting and joining of URLs and the reading of timestamps are the functions of an environment.
\<close>

section \<open>The environment\<close>

record url_parts =
  u_scheme :: string
  u_netloc :: string
  u_host :: "string option"
  u_user :: bool
  u_port :: "nat option option"
  u_path :: string
  u_query :: string

text \<open>
  \<open>u_user\<close> tells whether the location has a user name or password, \<open>u_port\<close> is \<open>None\<close> when reading
  the port raises. \<open>split_url\<close> is \<open>None\<close> when splitting raises. \<open>utc\<close> brings a timestamp with an
  explicit time zone to UTC, \<open>None\<close> for a text that is none. Texts that are hashed or measured are in
  UTF-8.
\<close>

record evidence_env =
  sha :: "string \<Rightarrow> string"
  json_text :: "json \<Rightarrow> string"
  split_url :: "string \<Rightarrow> url_parts option"
  join_url :: "string \<Rightarrow> string \<Rightarrow> string \<Rightarrow> string \<Rightarrow> string"
  parse_query :: "string \<Rightarrow> (string \<times> string) list"
  encode_query :: "(string \<times> string) list \<Rightarrow> string"
  utc :: "string \<Rightarrow> string option"

datatype evidence_error = Evidence_error string | Url_error

section \<open>Canonical documents and sources\<close>

definition MAX_RECORD_BYTES :: nat where
  "MAX_RECORD_BYTES = 1000000"

definition SECRET_QUERY_KEYS :: "string list" where
  "SECRET_QUERY_KEYS = [''access_token'', ''api_key'', ''apikey'', ''auth'', ''authorization'', ''password'',
     ''secret'', ''signature'', ''token'']"

definition REQUIRED_FIELDS :: "string list" where
  "REQUIRED_FIELDS = [''schema_version'', ''evidence_id'', ''source_type'', ''source_uri'',
     ''retrieved_at_utc'', ''content_sha256'', ''payload'', ''metadata'']"

definition canonical_json :: "evidence_env \<Rightarrow> json \<Rightarrow> string" where
  "canonical_json env j = json_text env (sort_keys j)"

definition utc_timestamp :: "evidence_env \<Rightarrow> json \<Rightarrow> evidence_error + string" where
  "utc_timestamp env v = (case v of
       JStr s \<Rightarrow> (case utc env s of None \<Rightarrow> Inl (Evidence_error ''retrieved_at'') | Some t \<Rightarrow> Inr t)
     | _ \<Rightarrow> Inl (Evidence_error ''retrieved_at''))"

text \<open>The location a web address is written with: brackets around a host with colons, no default port.\<close>

definition authority :: "string \<Rightarrow> string \<Rightarrow> nat option \<Rightarrow> string" where
  "authority sc h port =
     (let h = map lower_char h; h = (if CHR '':'' \<in> set h \<and> \<not> has_prefix h ''['' then ''['' @ h @ '']'' else h)
      in case port of None \<Rightarrow> h
         | Some p \<Rightarrow> if p \<noteq> 0 \<and> \<not> ((sc = ''http'' \<and> p = 80) \<or> (sc = ''https'' \<and> p = 443)) then h @ '':'' @ str_nat p else h)"

definition web_uri :: "evidence_env \<Rightarrow> string \<Rightarrow> url_parts \<Rightarrow> evidence_error + string" where
  "web_uri env sc p =
     (if u_host p = None \<or> u_host p = Some '''' \<or> u_user p then Inl (Evidence_error ''source_uri'')
      else case u_port p of None \<Rightarrow> Inl (Evidence_error ''source_uri'')
      | Some port \<Rightarrow>
          let qs = parse_query env (u_query p) in
          if \<exists>(k, v) \<in> set qs. map lower_char k \<in> set SECRET_QUERY_KEYS then Inl (Evidence_error ''source_uri'')
          else Inr (join_url env sc (authority sc (the (u_host p)) port) (if u_path p = '''' then ''/'' else u_path p)
                     (encode_query env (sort qs))))"

definition canonical_source_uri :: "evidence_env \<Rightarrow> json \<Rightarrow> evidence_error + string" where
  "canonical_source_uri env v = (case v of
       JStr s \<Rightarrow>
         if strip s = '''' then Inl (Evidence_error ''source_uri'')
         else (case split_url env (strip s) of None \<Rightarrow> Inl Url_error
         | Some p \<Rightarrow>
             let sc = map lower_char (u_scheme p) in
             if sc \<notin> set [''https'', ''http'', ''file'', ''artifact'', ''local''] then Inl (Evidence_error ''source_uri'')
             else if sc = ''http'' \<or> sc = ''https'' then web_uri env sc p
             else if CHR ''@'' \<in> set (u_netloc p) then Inl (Evidence_error ''source_uri'')
             else Inr (join_url env sc (u_netloc p) (u_path p) (u_query p)))
     | _ \<Rightarrow> Inl (Evidence_error ''source_uri''))"

section \<open>Records\<close>

definition text_of :: "string \<Rightarrow> json \<Rightarrow> evidence_error + string" where
  "text_of what j = (case j of
       JStr s \<Rightarrow> if strip s \<noteq> '''' \<and> length s \<le> 80 then Inr (strip s) else Inl (Evidence_error what)
     | _ \<Rightarrow> Inl (Evidence_error what))"

definition bounded_text :: "string \<Rightarrow> nat \<Rightarrow> json \<Rightarrow> evidence_error + json" where
  "bounded_text what n j = (case j of
       JNull \<Rightarrow> Inr j | JStr s \<Rightarrow> if length s \<le> n then Inr j else Inl (Evidence_error what)
     | _ \<Rightarrow> Inl (Evidence_error what))"

definition metadata_of :: "json \<Rightarrow> evidence_error + json" where
  "metadata_of j = (case j of JNull \<Rightarrow> Inr (JDict []) | JDict d \<Rightarrow> Inr j | _ \<Rightarrow> Inl (Evidence_error ''metadata''))"

definition payload_hash :: "evidence_env \<Rightarrow> json \<Rightarrow> string" where
  "payload_hash env payload = sha env (canonical_json env payload)"

definition evidence_identity :: "evidence_env \<Rightarrow> string \<Rightarrow> string \<Rightarrow> string \<Rightarrow> string" where
  "evidence_identity env ty src hash = sha env (canonical_json env
     (JDict [(''source_type'', JStr ty), (''source_uri'', JStr src), (''content_sha256'', JStr hash)]))"

text \<open>The arguments of a record, in the order of the code's checks.\<close>

record evidence_args =
  e_type :: json
  e_uri :: json
  e_time :: json
  e_payload :: json
  e_query :: json
  e_tool :: json
  e_meta :: json

definition build_evidence_record :: "evidence_env \<Rightarrow> evidence_args \<Rightarrow> evidence_error + jdict" where
  "build_evidence_record env a =
     bindE (text_of ''source_type'' (e_type a)) (\<lambda>ty.
     bindE (bounded_text ''query'' 4000 (e_query a)) (\<lambda>q.
     bindE (bounded_text ''tool_name'' 160 (e_tool a)) (\<lambda>tool.
     bindE (metadata_of (e_meta a)) (\<lambda>meta.
       if length (canonical_json env (e_payload a)) + length (canonical_json env meta) > MAX_RECORD_BYTES
       then Inl (Evidence_error ''size'')
       else bindE (canonical_source_uri env (e_uri a)) (\<lambda>src.
         let hash = payload_hash env (e_payload a) in
         bindE (utc_timestamp env (e_time a)) (\<lambda>t.
           Inr [(''schema_version'', JInt 1), (''evidence_id'', JStr (evidence_identity env ty src hash)),
                (''source_type'', JStr ty), (''source_uri'', JStr src), (''retrieved_at_utc'', JStr t),
                (''content_sha256'', JStr hash), (''payload'', sort_keys (e_payload a)), (''metadata'', sort_keys meta),
                (''query'', q), (''tool_name'', tool)]))))))"

text \<open>Equality of documents as Python has it between a number one, a true value and one.\<close>

definition is_one :: "json \<Rightarrow> bool" where
  "is_one j \<longleftrightarrow> j = JInt 1 \<or> j = JBool True \<or> j = JFloat 1"

definition args_of_record :: "jdict \<Rightarrow> evidence_args" where
  "args_of_record d = \<lparr>e_type = get_json ''source_type'' JNull d, e_uri = get_json ''source_uri'' JNull d,
     e_time = get_json ''retrieved_at_utc'' JNull d, e_payload = get_json ''payload'' JNull d,
     e_query = get_json ''query'' JNull d, e_tool = get_json ''tool_name'' JNull d, e_meta = get_json ''metadata'' JNull d\<rparr>"

definition validate_evidence_record :: "evidence_env \<Rightarrow> json \<Rightarrow> evidence_error + jdict" where
  "validate_evidence_record env j = (case j of
       JDict d \<Rightarrow>
         if \<exists>k \<in> set REQUIRED_FIELDS. dict_get d k = None then Inl (Evidence_error ''missing'')
         else bindE (build_evidence_record env (args_of_record d)) (\<lambda>r.
           if \<not> is_one (get_json ''schema_version'' JNull d)
              \<or> (\<exists>k \<in> set [''source_uri'', ''content_sha256'', ''evidence_id'']. dict_get d k \<noteq> dict_get r k)
           then Inl (Evidence_error ''integrity'') else Inr d)
     | _ \<Rightarrow> Inl (Evidence_error ''missing''))"

section \<open>The ledger\<close>

text \<open>A line of the file is blank, no JSON, or a document; every line ends in a line break.\<close>

datatype line = Blank | Garbage | Doc json

definition evidence_id :: "jdict \<Rightarrow> json" where
  "evidence_id d = get_json ''evidence_id'' JNull d"

fun valid_line :: "evidence_env \<Rightarrow> line \<Rightarrow> evidence_error + jdict option" where
  "valid_line env Blank = Inr None"
| "valid_line env Garbage = Inl (Evidence_error ''line'')"
| "valid_line env (Doc j) = bindE (validate_evidence_record env j) (\<lambda>d. Inr (Some d))"

text \<open>All records of a file in order, or the number of the line at which reading raises.\<close>

fun scan :: "evidence_env \<Rightarrow> nat \<Rightarrow> line list \<Rightarrow> nat + jdict list" where
  "scan env n [] = Inr []"
| "scan env n (l # ls) = (case valid_line env l of
       Inl e \<Rightarrow> Inl n
     | Inr r \<Rightarrow> bindE (scan env (Suc n) ls) (\<lambda>ds. Inr (case r of None \<Rightarrow> ds | Some d \<Rightarrow> d # ds)))"

fun first_records :: "json list \<Rightarrow> jdict list \<Rightarrow> jdict list" where
  "first_records seen [] = []"
| "first_records seen (d # ds) =
     (if evidence_id d \<in> set seen then first_records seen ds else d # first_records (evidence_id d # seen) ds)"

definition read_evidence_records :: "evidence_env \<Rightarrow> line list \<Rightarrow> nat + jdict list" where
  "read_evidence_records env ls = bindE (scan env 1 ls) (\<lambda>ds. Inr (first_records [] ds))"

datatype append_error = Rejected | Corrupt nat

definition append_evidence_record :: "evidence_env \<Rightarrow> json \<Rightarrow> line list \<Rightarrow> line list \<times> (append_error + bool \<times> json)" where
  "append_evidence_record env j ls = (case validate_evidence_record env j of
       Inl e \<Rightarrow> (ls, Inl Rejected)
     | Inr d \<Rightarrow> (case scan env 1 ls of
           Inl n \<Rightarrow> (ls, Inl (Corrupt n))
         | Inr ds \<Rightarrow>
             if evidence_id d \<in> set (map evidence_id ds) then (ls, Inr (False, evidence_id d))
             else (ls @ [Doc (sort_keys (JDict d))], Inr (True, evidence_id d))))"

section \<open>Sorting keys\<close>

lemma canonical_sorted [simp]: "canonical_json env (sort_keys j) = canonical_json env j"
  by (simp add: canonical_json_def)

definition sorted_args :: "evidence_args \<Rightarrow> evidence_args" where
  "sorted_args a = \<lparr>e_type = sort_keys (e_type a), e_uri = sort_keys (e_uri a), e_time = sort_keys (e_time a),
     e_payload = sort_keys (e_payload a), e_query = sort_keys (e_query a), e_tool = sort_keys (e_tool a), e_meta = sort_keys (e_meta a)\<rparr>"

lemma checks_sorted [simp]:
  "text_of w (sort_keys j) = text_of w j" "bounded_text w n (sort_keys j) = bounded_text w n j"
  "utc_timestamp env (sort_keys j) = utc_timestamp env j" "canonical_source_uri env (sort_keys j) = canonical_source_uri env j"
  "metadata_of (sort_keys j) = bindE (metadata_of j) (\<lambda>m. Inr (sort_keys m))"
  by (cases j; simp add: text_of_def bounded_text_def utc_timestamp_def canonical_source_uri_def metadata_of_def)+

lemma build_sorted: "build_evidence_record env (sorted_args a) = build_evidence_record env a"
proof -
  have s: "e_type (sorted_args a) = sort_keys (e_type a)" "e_uri (sorted_args a) = sort_keys (e_uri a)"
    "e_time (sorted_args a) = sort_keys (e_time a)" "e_payload (sorted_args a) = sort_keys (e_payload a)"
    "e_query (sorted_args a) = sort_keys (e_query a)" "e_tool (sorted_args a) = sort_keys (e_tool a)"
    "e_meta (sorted_args a) = sort_keys (e_meta a)" by (simp_all add: sorted_args_def)
  show ?thesis
    unfolding build_evidence_record_def s checks_sorted payload_hash_def bindE_assoc bindE_simps canonical_sorted sort_keys_idem ..
qed

lemma is_one_sorted [simp]: "is_one (sort_keys j) = is_one j"
  by (cases j) (simp_all add: is_one_def)

text \<open>The fields that validation compares are texts of a rebuilt record.\<close>

lemma build_fields:
  assumes "build_evidence_record env a = Inr r"
  obtains ty src where "text_of ''source_type'' (e_type a) = Inr ty" and "canonical_source_uri env (e_uri a) = Inr src"
    and "dict_get r ''source_uri'' = Some (JStr src)"
    and "dict_get r ''content_sha256'' = Some (JStr (payload_hash env (e_payload a)))"
    and "dict_get r ''evidence_id'' = Some (JStr (evidence_identity env ty src (payload_hash env (e_payload a))))"
    and "dict_get r ''source_type'' = Some (JStr ty)" and "dict_get r ''payload'' = Some (sort_keys (e_payload a))"
  using assms by (auto simp: build_evidence_record_def bindE_Inr Let_def split: if_splits)

lemma validated:
  assumes "validate_evidence_record env j = Inr d"
  obtains r where "j = JDict d" and "\<forall>k \<in> set REQUIRED_FIELDS. dict_get d k \<noteq> None"
    and "build_evidence_record env (args_of_record d) = Inr r" and "is_one (get_json ''schema_version'' JNull d)"
    and "dict_get d ''source_uri'' = dict_get r ''source_uri''" and "dict_get d ''content_sha256'' = dict_get r ''content_sha256''"
    and "dict_get d ''evidence_id'' = dict_get r ''evidence_id''"
  using assms by (cases j) (auto simp: validate_evidence_record_def bindE_Inr split: if_splits)

lemma validate_sorted:
  assumes "validate_evidence_record env (JDict d) = Inr d" and "distinct (map fst d)"
  shows "validate_evidence_record env (JDict (sorted_entries d)) = Inr (sorted_entries d)"
    and "evidence_id (sorted_entries d) = evidence_id d"
proof -
  obtain r where r: "\<forall>k \<in> set REQUIRED_FIELDS. dict_get d k \<noteq> None" "build_evidence_record env (args_of_record d) = Inr r"
    "is_one (get_json ''schema_version'' JNull d)" "dict_get d ''source_uri'' = dict_get r ''source_uri''"
    "dict_get d ''content_sha256'' = dict_get r ''content_sha256''" "dict_get d ''evidence_id'' = dict_get r ''evidence_id''"
    using assms(1) by (elim validated) simp
  from r(2) obtain src hash eid where f: "dict_get r ''source_uri'' = Some (JStr src)" "dict_get r ''content_sha256'' = Some (JStr hash)"
    "dict_get r ''evidence_id'' = Some (JStr eid)" by (elim build_fields)
  have a: "args_of_record (sorted_entries d) = sorted_args (args_of_record d)"
    by (simp add: args_of_record_def sorted_args_def get_json_sorted [OF assms(2)])
  then have b: "build_evidence_record env (args_of_record (sorted_entries d)) = Inr r" using r(2) build_sorted by simp
  have m: "\<not> (\<exists>k \<in> set REQUIRED_FIELDS. dict_get (sorted_entries d) k = None)" using r(1) get_sorted [OF assms(2)] by auto
  show "validate_evidence_record env (JDict (sorted_entries d)) = Inr (sorted_entries d)"
    using b m f r(3-6) by (simp add: validate_evidence_record_def get_json_sorted [OF assms(2)] get_sorted [OF assms(2)])
  show "evidence_id (sorted_entries d) = evidence_id d" using r(6) f(3) by (simp add: evidence_id_def get_json_def get_sorted [OF assms(2)])
qed

section \<open>The ledger's guarantees\<close>

text \<open>The keys of a dictionary are distinct.\<close>

definition well_keyed :: "json \<Rightarrow> bool" where
  "well_keyed j \<longleftrightarrow> (\<forall>d. j = JDict d \<longrightarrow> distinct (map fst d))"

definition ledger_ok :: "evidence_env \<Rightarrow> line list \<Rightarrow> jdict list \<Rightarrow> bool" where
  "ledger_ok env ls ds \<longleftrightarrow> scan env 1 ls = Inr ds \<and> distinct (map evidence_id ds)
     \<and> (\<forall>d \<in> set ds. validate_evidence_record env (JDict d) = Inr d)"

lemma scan_append: "scan env n (ls @ [Doc j]) = bindE (scan env n ls) (\<lambda>ds.
     case validate_evidence_record env j of Inl e \<Rightarrow> Inl (n + length ls) | Inr d \<Rightarrow> Inr (ds @ [d]))"
proof (induction ls arbitrary: n)
  case Nil
  then show ?case by (cases "validate_evidence_record env j") simp_all
next
  case (Cons l ls)
  then show ?case
    by (cases "valid_line env l"; cases "scan env (Suc n) ls"; cases "validate_evidence_record env j") (auto split: option.splits)
qed

lemma first_records_distinct:
  "distinct (map evidence_id ds) \<Longrightarrow> set (map evidence_id ds) \<inter> set seen = {} \<Longrightarrow> first_records seen ds = ds"
  by (induction ds arbitrary: seen) auto

lemma ledger_ok_append:
  assumes "ledger_ok env ls ds" and "well_keyed j"
  shows "\<exists>ds'. ledger_ok env (fst (append_evidence_record env j ls)) ds'
     \<and> set (map evidence_id ds') = set (map evidence_id ds) \<union> (case validate_evidence_record env j of Inl e \<Rightarrow> {} | Inr d \<Rightarrow> {evidence_id d})"
proof (cases "validate_evidence_record env j")
  case (Inl e)
  then show ?thesis using assms(1) by (auto simp: append_evidence_record_def)
next
  case (Inr d)
  then have j: "j = JDict d" by (elim validated)
  then have v: "validate_evidence_record env (JDict (sorted_entries d)) = Inr (sorted_entries d)" "evidence_id (sorted_entries d) = evidence_id d"
    using validate_sorted [of env d] Inr assms(2) by (simp_all add: well_keyed_def)
  have s: "scan env 1 ls = Inr ds" using assms(1) by (simp add: ledger_ok_def)
  show ?thesis
  proof (cases "evidence_id d \<in> set (map evidence_id ds)")
    case True
    then show ?thesis using assms(1) Inr s by (auto simp: append_evidence_record_def intro!: exI [of _ ds])
  next
    case False
    then have "fst (append_evidence_record env j ls) = ls @ [Doc (JDict (sorted_entries d))]"
      using Inr s by (simp add: append_evidence_record_def sort_keys_JDict del: sort_keys.simps)
    moreover have "scan env 1 (ls @ [Doc (JDict (sorted_entries d))]) = Inr (ds @ [sorted_entries d])" using s v by (simp add: scan_append)
    ultimately have "ledger_ok env (fst (append_evidence_record env j ls)) (ds @ [sorted_entries d])"
      using assms(1) v False by (auto simp: ledger_ok_def)
    then show ?thesis using v Inr by (intro exI [of _ "ds @ [sorted_entries d]"]) auto
  qed
qed

definition append_all :: "evidence_env \<Rightarrow> json list \<Rightarrow> line list" where
  "append_all env js = foldl (\<lambda>ls j. fst (append_evidence_record env j ls)) [] js"

text \<open>
  C39. Whatever documents are offered to a fresh ledger, in any order and any number of times, reading
  it succeeds and gives validated records of pairwise different identifiers: exactly the identifiers
  of the documents that validate. So each valid record is stored once and no invalid one ever is.
\<close>

theorem ledger_stores_once:
  assumes "\<forall>j \<in> set js. well_keyed j"
  shows "\<exists>ds. read_evidence_records env (append_all env js) = Inr ds \<and> distinct (map evidence_id ds)
     \<and> (\<forall>d \<in> set ds. validate_evidence_record env (JDict d) = Inr d)
     \<and> set (map evidence_id ds) = {evidence_id d | d. \<exists>j \<in> set js. validate_evidence_record env j = Inr d}"
proof -
  have "\<exists>ds. ledger_ok env (append_all env js) ds
     \<and> set (map evidence_id ds) = {evidence_id d | d. \<exists>j \<in> set js. validate_evidence_record env j = Inr d}"
    using assms
  proof (induction js rule: rev_induct)
    case Nil
    then show ?case by (auto simp: append_all_def ledger_ok_def)
  next
    case (snoc j js)
    then obtain ds where ds: "ledger_ok env (append_all env js) ds"
      "set (map evidence_id ds) = {evidence_id d | d. \<exists>j \<in> set js. validate_evidence_record env j = Inr d}" by auto
    obtain ds' where "ledger_ok env (fst (append_evidence_record env j (append_all env js))) ds'"
      "set (map evidence_id ds') = set (map evidence_id ds) \<union> (case validate_evidence_record env j of Inl e \<Rightarrow> {} | Inr d \<Rightarrow> {evidence_id d})"
      using ledger_ok_append [OF ds(1), of j] snoc.prems by auto
    note ds' = this
    have "set (map evidence_id ds') = {evidence_id d | d. \<exists>j \<in> set (js @ [j]). validate_evidence_record env j = Inr d}"
      unfolding ds'(2) ds(2) by (cases "validate_evidence_record env j") auto
    with ds'(1) show ?case unfolding append_all_def by auto
  qed
  then obtain ds where ds: "ledger_ok env (append_all env js) ds"
    "set (map evidence_id ds) = {evidence_id d | d. \<exists>j \<in> set js. validate_evidence_record env j = Inr d}" by blast
  then have "read_evidence_records env (append_all env js) = Inr ds"
    using first_records_distinct [of ds "[]"] by (simp add: ledger_ok_def read_evidence_records_def)
  with ds show ?thesis by (auto simp: ledger_ok_def)
qed



section \<open>Built records validate\<close>

text \<open>
  What the URL functions promise of an address that was split and is joined from its canonical parts:
  splitting gives these parts again, and queries survive their encoding.
\<close>

definition same_target :: "string \<Rightarrow> url_parts \<Rightarrow> url_parts \<Rightarrow> bool" where
  "same_target sc p p' \<longleftrightarrow> map lower_char (u_scheme p') = sc \<and> u_host p' \<noteq> None \<and> u_host p' \<noteq> Some '''' \<and> \<not> u_user p'
     \<and> u_port p' \<noteq> None \<and> authority sc (the (u_host p')) (the (u_port p')) = authority sc (the (u_host p)) (the (u_port p))
     \<and> u_path p' = (if u_path p = '''' then ''/'' else u_path p)"

definition url_laws :: "evidence_env \<Rightarrow> bool" where
  "url_laws env \<longleftrightarrow>
     (\<forall>s p sc. split_url env s = Some p \<and> sc = map lower_char (u_scheme p) \<and> (sc = ''http'' \<or> sc = ''https'')
        \<and> u_host p \<noteq> None \<and> u_host p \<noteq> Some '''' \<and> u_port p \<noteq> None \<longrightarrow>
        (\<exists>p'. split_url env (join_url env sc (authority sc (the (u_host p)) (the (u_port p)))
              (if u_path p = '''' then ''/'' else u_path p) (encode_query env (sort (parse_query env (u_query p))))) = Some p'
            \<and> same_target sc p p' \<and> parse_query env (u_query p') = sort (parse_query env (u_query p))))
   \<and> (\<forall>s p sc. split_url env s = Some p \<and> sc = map lower_char (u_scheme p) \<and> sc \<in> {''file'', ''artifact'', ''local''} \<longrightarrow>
        (\<exists>p'. split_url env (join_url env sc (u_netloc p) (u_path p) (u_query p)) = Some p' \<and> map lower_char (u_scheme p') = sc
            \<and> u_netloc p' = u_netloc p \<and> u_path p' = u_path p \<and> u_query p' = u_query p))"

lemma web_uri_Inr:
  "web_uri env sc p = Inr u \<longleftrightarrow> (\<exists>h port. u_host p = Some h \<and> h \<noteq> '''' \<and> \<not> u_user p \<and> u_port p = Some port
     \<and> (\<forall>(k, v) \<in> set (parse_query env (u_query p)). map lower_char k \<notin> set SECRET_QUERY_KEYS)
     \<and> u = join_url env sc (authority sc h port) (if u_path p = '''' then ''/'' else u_path p) (encode_query env (sort (parse_query env (u_query p)))))"
  by (cases "u_host p"; cases "u_port p") (auto simp: web_uri_def Let_def case_prod_beta)

lemma web_uri_again:
  assumes "same_target sc p p'" and "parse_query env (u_query p') = sort (parse_query env (u_query p))" and "web_uri env sc p = Inr u"
  shows "web_uri env sc p' = Inr u"
proof -
  obtain h port where p: "u_host p = Some h" "u_port p = Some port"
    "\<forall>(k, v) \<in> set (parse_query env (u_query p)). map lower_char k \<notin> set SECRET_QUERY_KEYS"
    "u = join_url env sc (authority sc h port) (if u_path p = '''' then ''/'' else u_path p) (encode_query env (sort (parse_query env (u_query p))))"
    using assms(3) unfolding web_uri_Inr by blast
  obtain port' h' where h: "u_port p' = Some port'" "u_host p' = Some h'" "h' \<noteq> ''''" "\<not> u_user p'"
    "authority sc h' port' = authority sc h port" "u_path p' = (if u_path p = '''' then ''/'' else u_path p)"
    using assms(1) p(1,2) by (auto simp: same_target_def)
  have "u_path p' \<noteq> ''''" using h(6) by simp
  then show ?thesis unfolding web_uri_Inr assms(2) using h p(3,4) sort_key_sorted [of "\<lambda>x. x" "parse_query env (u_query p)"] by simp
qed

lemma url_laws_web:
  assumes "url_laws env" and "split_url env s = Some p" and "sc = map lower_char (u_scheme p)" and "sc = ''http'' \<or> sc = ''https''"
    and "u_host p \<noteq> None" and "u_host p \<noteq> Some ''''" and "u_port p \<noteq> None"
  shows "\<exists>p'. split_url env (join_url env sc (authority sc (the (u_host p)) (the (u_port p)))
              (if u_path p = '''' then ''/'' else u_path p) (encode_query env (sort (parse_query env (u_query p))))) = Some p'
            \<and> same_target sc p p' \<and> parse_query env (u_query p') = sort (parse_query env (u_query p))"
  using assms(1) [unfolded url_laws_def, THEN conjunct1, THEN spec, THEN spec, THEN spec, THEN mp, of s p sc] assms(2-7) by simp

lemma url_laws_other:
  assumes "url_laws env" and "split_url env s = Some p" and "sc = map lower_char (u_scheme p)" and "sc \<in> {''file'', ''artifact'', ''local''}"
  shows "\<exists>p'. split_url env (join_url env sc (u_netloc p) (u_path p) (u_query p)) = Some p' \<and> map lower_char (u_scheme p') = sc
            \<and> u_netloc p' = u_netloc p \<and> u_path p' = u_path p \<and> u_query p' = u_query p"
  using assms(1) [unfolded url_laws_def, THEN conjunct2, THEN spec, THEN spec, THEN spec, THEN mp, of s p sc] assms(2-4) by simp

lemma canonical_source_again:
  assumes "url_laws env" and "canonical_source_uri env v = Inr u" and "strip u = u" and "u \<noteq> ''''"
  shows "canonical_source_uri env (JStr u) = Inr u"
proof -
  obtain s p where v: "v = JStr s" "split_url env (strip s) = Some p"
    using assms(2) by (auto simp: canonical_source_uri_def Let_def split: json.splits if_splits option.splits)
  let ?sc = "map lower_char (u_scheme p)"
  show ?thesis
  proof (cases "?sc = ''http'' \<or> ?sc = ''https''")
    case True
    then have w: "web_uri env ?sc p = Inr u" using assms(2) v by (auto simp: canonical_source_uri_def Let_def split: if_splits)
    then have c: "u_host p \<noteq> None" "u_host p \<noteq> Some ''''" "u_port p \<noteq> None"
      and u: "u = join_url env ?sc (authority ?sc (the (u_host p)) (the (u_port p)))
              (if u_path p = '''' then ''/'' else u_path p) (encode_query env (sort (parse_query env (u_query p))))"
      unfolding web_uri_Inr by auto
    obtain p' where p': "split_url env u = Some p'" "same_target ?sc p p'" "parse_query env (u_query p') = sort (parse_query env (u_query p))"
      using url_laws_web [OF assms(1) v(2) refl True c] unfolding u by blast
    from p'(2) have "map lower_char (u_scheme p') = ?sc" by (simp add: same_target_def)
    then show ?thesis using web_uri_again [OF p'(2,3) w] True p'(1) assms(3,4) by (auto simp: canonical_source_uri_def Let_def)
  next
    case False
    then have u: "u = join_url env ?sc (u_netloc p) (u_path p) (u_query p)" "?sc \<in> {''file'', ''artifact'', ''local''}" "CHR ''@'' \<notin> set (u_netloc p)"
      using assms(2) v by (auto simp: canonical_source_uri_def Let_def split: if_splits)
    obtain p' where p': "split_url env u = Some p'" "map lower_char (u_scheme p') = ?sc"
      "u_netloc p' = u_netloc p" "u_path p' = u_path p" "u_query p' = u_query p"
      using url_laws_other [OF assms(1) v(2) refl u(2)] unfolding u(1) by blast
    then show ?thesis using assms(3,4) False u by (auto simp: canonical_source_uri_def Let_def)
  qed
qed

text \<open>
  What is built validates. With URL functions that keep the parts of an address and a reader of
  timestamps that reads what it writes, a record that is built from any arguments passes validation
  as it is, unless white space is left at the ends of its canonical source.
\<close>

theorem built_record_validates:
  assumes "url_laws env" and "\<forall>s t. utc env s = Some t \<longrightarrow> utc env t \<noteq> None"
    and "build_evidence_record env a = Inr r" and "\<forall>u. dict_get r ''source_uri'' = Some (JStr u) \<longrightarrow> strip u = u \<and> u \<noteq> ''''"
  shows "validate_evidence_record env (JDict r) = Inr r"
proof -
  obtain ty q tool meta src t where r: "text_of ''source_type'' (e_type a) = Inr ty" "bounded_text ''query'' 4000 (e_query a) = Inr q"
    "bounded_text ''tool_name'' 160 (e_tool a) = Inr tool" "metadata_of (e_meta a) = Inr meta"
    "\<not> length (canonical_json env (e_payload a)) + length (canonical_json env meta) > MAX_RECORD_BYTES"
    "canonical_source_uri env (e_uri a) = Inr src" "utc_timestamp env (e_time a) = Inr t"
    "r = [(''schema_version'', JInt 1), (''evidence_id'', JStr (evidence_identity env ty src (payload_hash env (e_payload a)))),
       (''source_type'', JStr ty), (''source_uri'', JStr src), (''retrieved_at_utc'', JStr t),
       (''content_sha256'', JStr (payload_hash env (e_payload a))), (''payload'', sort_keys (e_payload a)), (''metadata'', sort_keys meta),
       (''query'', q), (''tool_name'', tool)]"
    using assms(3) unfolding build_evidence_record_def bindE_Inr Let_def by (auto simp: bindE_Inr split: if_splits)
  have src: "canonical_source_uri env (JStr src) = Inr src"
    using assms(4) r(8) canonical_source_again [OF assms(1) r(6)] by simp
  have ty: "text_of ''source_type'' (JStr ty) = Inr ty" using r(1) by (auto simp: text_of_def intro: order_trans [OF length_strip] split: json.splits if_splits)
  have qt: "bounded_text ''query'' 4000 q = Inr q" "bounded_text ''tool_name'' 160 tool = Inr tool"
    using r(2,3) by (auto simp: bounded_text_def split: json.splits if_splits)
  have meta: "metadata_of meta = Inr meta" using r(4) by (cases "e_meta a") (auto simp: metadata_of_def)
  obtain t' where t: "utc_timestamp env (JStr t) = Inr t'"
    using r(7) assms(2) by (fastforce simp: utc_timestamp_def split: json.splits option.splits)
  have a: "args_of_record r = \<lparr>e_type = JStr ty, e_uri = JStr src, e_time = JStr t, e_payload = sort_keys (e_payload a),
      e_query = q, e_tool = tool, e_meta = sort_keys meta\<rparr>" using r(8) by (simp add: args_of_record_def get_json_def)
  have "\<exists>r'. build_evidence_record env (args_of_record r) = Inr r' \<and> dict_get r' ''source_uri'' = dict_get r ''source_uri''
      \<and> dict_get r' ''content_sha256'' = dict_get r ''content_sha256'' \<and> dict_get r' ''evidence_id'' = dict_get r ''evidence_id''"
    unfolding a using r(5) by (simp add: build_evidence_record_def ty qt meta src t payload_hash_def Let_def r(8))
  moreover have "\<not> (\<exists>k \<in> set REQUIRED_FIELDS. dict_get r k = None)" using r(8) by (simp add: REQUIRED_FIELDS_def)
  moreover have "is_one (get_json ''schema_version'' JNull r)" using r(8) by (simp add: is_one_def get_json_def)
  ultimately show ?thesis by (auto simp: validate_evidence_record_def)
qed

section \<open>Witnesses\<close>

definition ex_parts :: url_parts where
  "ex_parts = \<lparr>u_scheme = ''http'', u_netloc = ''h'', u_host = Some ''h'', u_user = False, u_port = Some None, u_path = ''/'', u_query = ''''\<rparr>"

text \<open>An environment with one address; documents are numbered and written in unary, the empty one as the empty text.\<close>

definition ex_json_text :: "json \<Rightarrow> string" where
  "ex_json_text j = (if j = JDict [] then '''' else replicate (Suc (to_nat j)) (CHR ''1''))"

definition ex_evidence_env :: evidence_env where
  "ex_evidence_env = \<lparr>sha = (\<lambda>s. s), json_text = ex_json_text, split_url = (\<lambda>s. Some ex_parts),
     join_url = (\<lambda>sc loc p q. ''http://h/''), parse_query = (\<lambda>s. []), encode_query = (\<lambda>qs. ''''), utc = Some\<rparr>"

lemma ex_lower: "map lower_char ''http'' = ''http''" "map lower_char ''h'' = ''h''" "strip ''http://h/'' = ''http://h/''" "strip ''web'' = ''web''"
  by code_simp+

lemma ex_url_laws: "url_laws ex_evidence_env"
  using ex_lower by (simp add: url_laws_def ex_evidence_env_def ex_parts_def same_target_def authority_def Let_def)


definition ex_evidence :: evidence_args where
  "ex_evidence = \<lparr>e_type = JStr ''web'', e_uri = JStr ''http://h/'', e_time = JStr ''2024'', e_payload = JDict [], e_query = JNull,
     e_tool = JNull, e_meta = JNull\<rparr>"

definition ex_record :: jdict where
  "ex_record = [(''schema_version'', JInt 1), (''evidence_id'', JStr (evidence_identity ex_evidence_env ''web'' ''http://h/'' '''')),
     (''source_type'', JStr ''web''), (''source_uri'', JStr ''http://h/''),
     (''retrieved_at_utc'', JStr ''2024''), (''content_sha256'', JStr ''''), (''payload'', JDict []), (''metadata'', JDict []),
     (''query'', JNull), (''tool_name'', JNull)]"

lemma ex_checks [simp]:
  "text_of w (JStr ''web'') = Inr ''web''" "canonical_json ex_evidence_env (JDict []) = ''''"
  "canonical_source_uri ex_evidence_env (JStr ''http://h/'') = Inr ''http://h/''" "payload_hash ex_evidence_env (JDict []) = ''''"
  "utc_timestamp ex_evidence_env (JStr s) = Inr s"
  using ex_lower by (simp_all add: text_of_def canonical_json_def ex_json_text_def ex_evidence_env_def canonical_source_uri_def ex_parts_def
      web_uri_def payload_hash_def utc_timestamp_def Let_def)

lemma ex_built: "build_evidence_record ex_evidence_env ex_evidence = Inr ex_record"
  by (simp add: build_evidence_record_def ex_evidence_def ex_record_def bounded_text_def metadata_of_def Let_def)

lemma ex_valid: "validate_evidence_record ex_evidence_env (JDict ex_record) = Inr ex_record"
  by (simp add: validate_evidence_record_def REQUIRED_FIELDS_def args_of_record_def is_one_def get_json_def build_evidence_record_def
      ex_record_def bounded_text_def metadata_of_def Let_def)

theorem built_record_validates_witness: "validate_evidence_record ex_evidence_env (JDict ex_record) = Inr ex_record"
  by (rule built_record_validates [OF ex_url_laws _ ex_built])
     (use ex_lower(3) in \<open>simp_all add: ex_record_def ex_evidence_env_def\<close>)

theorem ledger_stores_once_witness:
  "\<exists>ds. read_evidence_records ex_evidence_env (append_all ex_evidence_env [JDict ex_record, JNull, JDict ex_record]) = Inr ds
     \<and> set (map evidence_id ds) = {evidence_id ex_record}"
proof -
  have w: "\<forall>j \<in> set [JDict ex_record, JNull, JDict ex_record]. well_keyed j" by (simp add: well_keyed_def ex_record_def)
  have n: "validate_evidence_record ex_evidence_env JNull = Inl (Evidence_error ''missing'')" by (simp add: validate_evidence_record_def)
  from ledger_stores_once [OF w, of ex_evidence_env] show ?thesis using ex_valid n by auto
qed

text \<open>The same record found at another time, by another query, has the same identifier and validates as well.\<close>

definition ex_record_later :: jdict where
  "ex_record_later = dict_set ''retrieved_at_utc'' (JStr ''2025'') (dict_set ''query'' (JStr ''other'') ex_record)"

lemma ex_valid_later: "validate_evidence_record ex_evidence_env (JDict ex_record_later) = Inr ex_record_later"
  by (simp add: validate_evidence_record_def REQUIRED_FIELDS_def args_of_record_def is_one_def get_json_def build_evidence_record_def
      ex_record_def ex_record_later_def bounded_text_def metadata_of_def Let_def)


section \<open>What is not protected\<close>

text \<open>Query and time, like tool name and metadata, are covered by no hash: changed there, a record still validates.\<close>

lemma query_unprotected:
  "validate_evidence_record ex_evidence_env (JDict ex_record_later) = Inr ex_record_later
   \<and> dict_get ex_record_later ''query'' \<noteq> dict_get ex_record ''query'' \<and> evidence_id ex_record_later = evidence_id ex_record"
  using ex_valid_later by (simp add: evidence_id_def ex_record_later_def ex_record_def get_json_def)

text \<open>White space before a fragment survives in the canonical source and makes the built record invalid.\<close>

definition ex_space_env :: evidence_env where
  "ex_space_env = ex_evidence_env\<lparr>json_text := (\<lambda>j. ''''),
     split_url := (\<lambda>s. Some (if s = ''http://h/a #f'' then ex_parts\<lparr>u_path := ''/a ''\<rparr> else ex_parts\<lparr>u_path := ''/a''\<rparr>)),
     join_url := (\<lambda>sc loc p q. ''http://h'' @ p)\<rparr>"

lemma space_before_fragment:
  "\<exists>r. build_evidence_record ex_space_env (ex_evidence\<lparr>e_uri := JStr ''http://h/a #f''\<rparr>) = Inr r
     \<and> validate_evidence_record ex_space_env (JDict r) = Inl (Evidence_error ''integrity'')"
proof -
  have s: "strip ''http://h/a #f'' = ''http://h/a #f''" "strip ''http://h/a '' = ''http://h/a''" by code_simp+
  have c: "canonical_source_uri ex_space_env (JStr ''http://h/a #f'') = Inr ''http://h/a ''"
    "canonical_source_uri ex_space_env (JStr ''http://h/a '') = Inr ''http://h/a''"
    using s ex_lower by (simp_all add: canonical_source_uri_def ex_space_env_def ex_evidence_env_def ex_parts_def web_uri_def Let_def)
  have u: "utc_timestamp ex_space_env (JStr t) = Inr t" "canonical_json ex_space_env j = ''''" for t j
    by (simp_all add: utc_timestamp_def ex_space_env_def ex_evidence_env_def canonical_json_def)
  show ?thesis using c u
    by (simp add: build_evidence_record_def ex_evidence_def bounded_text_def metadata_of_def validate_evidence_record_def REQUIRED_FIELDS_def
        args_of_record_def is_one_def get_json_def Let_def)
qed

end
