(* ===== verification/VersionStore.thy ===== *)
theory VersionStore
  imports Json Python_Text
begin

text \<open>
  The version store (\<^verbatim>\<open>obase/versionstore/\<close>): JSON lines files, and snapshots of files and
  directories under revision names with an index. What a path holds when it is read, the clock, fresh
  names, sizes and digests are arguments. Contents of files are of any type.
\<close>

section \<open>JSON lines\<close>

datatype jsonl_line = Blank_line | Bad_line | Doc_line json

datatype jsonl_error = Not_found | Decode_failed | Not_iterable

text \<open>A file is its lines, or missing; appending creates it.\<close>

definition jsonl_append :: "jdict \<Rightarrow> jsonl_line list option \<Rightarrow> jsonl_line list option" where
  "jsonl_append entry f = Some ((case f of None \<Rightarrow> [] | Some ls \<Rightarrow> ls) @ [Doc_line (JDict entry)])"

fun read_lines :: "bool \<Rightarrow> jsonl_line list \<Rightarrow> jsonl_error + json list" where
  "read_lines skip [] = Inr []"
| "read_lines skip (Blank_line # ls) = read_lines skip ls"
| "read_lines skip (Bad_line # ls) = (if skip then read_lines skip ls else Inl Decode_failed)"
| "read_lines skip (Doc_line j # ls) = bindE (read_lines skip ls) (\<lambda>js. Inr (j # js))"

definition jsonl_read :: "bool \<Rightarrow> jsonl_line list option \<Rightarrow> jsonl_error + json list" where
  "jsonl_read skip f = (case f of None \<Rightarrow> Inl Not_found | Some ls \<Rightarrow> read_lines skip ls)"

text \<open>\<open>key in entry\<close>: keys of an object, items of a list, parts of a text.\<close>

fun contains :: "string \<Rightarrow> json \<Rightarrow> jsonl_error + bool" where
  "contains k (JDict d) = Inr (dict_get d k \<noteq> None)"
| "contains k (JList xs) = Inr (JStr k \<in> set xs)"
| "contains k (JStr s) = Inr (is_infix k s)"
| "contains k _ = Inl Not_iterable"

fun latest_of :: "string \<Rightarrow> json option \<Rightarrow> jsonl_line list \<Rightarrow> jsonl_error + json option" where
  "latest_of k best [] = Inr best"
| "latest_of k best (Doc_line j # ls) = bindE (contains k j) (\<lambda>b. latest_of k (if b then Some j else best) ls)"
| "latest_of k best (_ # ls) = latest_of k best ls"

definition jsonl_latest :: "string \<Rightarrow> jsonl_line list option \<Rightarrow> jsonl_error + json option" where
  "jsonl_latest k f = (case f of None \<Rightarrow> Inr None | Some ls \<Rightarrow> latest_of k None ls)"

section \<open>Files, directories and revisions\<close>

datatype 'b node = File 'b | Folder "(string \<times> 'b node) list"

text \<open>Everything below a directory, or the file itself.\<close>

fun below :: "string list \<Rightarrow> 'b node \<Rightarrow> (string list \<times> 'b node) list" where
  "below p (File b) = []"
| "below p (Folder d) = concat (map (\<lambda>(k, n). (p @ [k], n) # below (p @ [k]) n) d)"

definition walk :: "'b node \<Rightarrow> 'b node list" where
  "walk n = (case n of File b \<Rightarrow> [n] | Folder d \<Rightarrow> map snd (sort_key fst (below [] n)))"

definition file_contents :: "'b node list \<Rightarrow> 'b list" where
  "file_contents ns = concat (map (\<lambda>n. case n of File b \<Rightarrow> [b] | Folder d \<Rightarrow> []) ns)"

record meta =
  m_rev :: string
  m_ts :: rat
  m_message :: string
  m_paths :: "string list"
  m_size :: nat
  m_checksum :: string

definition meta_to_dict :: "meta \<Rightarrow> jdict" where
  "meta_to_dict m = [(''rev'', JStr (m_rev m)), (''ts'', JFloat (m_ts m)), (''message'', JStr (m_message m)),
     (''paths'', JList (map JStr (m_paths m))), (''size_bytes'', JInt (int (m_size m))), (''checksum'', JStr (m_checksum m))]"

text \<open>\<open>rev_dirs\<close> are the directories under \<open>revs\<close>, \<open>index\<close> the lines of the index file.\<close>

record 'b vstore =
  rev_dirs :: "(string, (string \<times> 'b node) list) dict"
  index :: "meta list"

definition new_vstore :: "'b vstore" where
  "new_vstore = \<lparr>rev_dirs = [], index = []\<rparr>"

datatype vstore_error = No_paths | Rev_exists | Path_missing string | Rev_unknown | Rev_dir_missing

text \<open>
  What the snapshot sees and needs: the node at a path, the name a path is stored under (ten digits of
  the digest of the resolved path, a dash and its last component), sizes as the system reports them
  and the digest of contents in order. Paths stored under one name are taken to be one path.
\<close>

record 'b sources =
  look :: "string \<Rightarrow> 'b node option"
  stored_name :: "string \<Rightarrow> string"
  stat_size :: "'b node \<Rightarrow> nat"
  digest :: "'b list \<Rightarrow> string"

fun copy_paths :: "'b sources \<Rightarrow> string list \<Rightarrow> (string \<times> 'b node) list \<Rightarrow> (string \<times> 'b node) list \<times> (string + unit)" where
  "copy_paths src [] acc = (acc, Inr ())"
| "copy_paths src (p # ps) acc = (case look src p of
       None \<Rightarrow> (acc, Inl p)
     | Some n \<Rightarrow> copy_paths src ps (dict_set (stored_name src p) n acc))"

definition all_parts :: "'b sources \<Rightarrow> string list \<Rightarrow> 'b node list" where
  "all_parts src ps = concat (map (\<lambda>p. case look src p of None \<Rightarrow> [] | Some n \<Rightarrow> walk n) ps)"

text \<open>A failing snapshot leaves its directory behind, without an entry of the index.\<close>

definition snapshot ::
    "'b sources \<Rightarrow> string list \<Rightarrow> string \<Rightarrow> string option \<Rightarrow> string \<Rightarrow> rat \<Rightarrow> 'b vstore \<Rightarrow> 'b vstore \<times> (vstore_error + string)" where
  "snapshot src ps msg r fresh now v =
     (if ps = [] then (v, Inl No_paths)
      else let name = (case r of None \<Rightarrow> fresh | Some s \<Rightarrow> if s = '''' then fresh else s) in
        if dict_get (rev_dirs v) name \<noteq> None then (v, Inl Rev_exists)
        else case copy_paths src ps [] of
            (d, Inl p) \<Rightarrow> (v\<lparr>rev_dirs := dict_set name d (rev_dirs v)\<rparr>, Inl (Path_missing p))
          | (d, Inr _) \<Rightarrow>
              let parts = all_parts src ps in
              (v\<lparr>rev_dirs := dict_set name d (rev_dirs v),
                 index := index v @ [\<lparr>m_rev = name, m_ts = now, m_message = msg, m_paths = ps,
                   m_size = sum_list (map (stat_size src) parts), m_checksum = take 16 (digest src (file_contents parts))\<rparr>]\<rparr>,
               Inr name))"

section \<open>Reading, restoring, deleting\<close>

text \<open>The newest first; entries of equal time stay in the order of the file.\<close>

definition list_versions :: "'b vstore \<Rightarrow> meta list" where
  "list_versions v = sort_key (\<lambda>m. - m_ts m) (index v)"

definition latest :: "'b vstore \<Rightarrow> meta option" where
  "latest v = (case list_versions v of [] \<Rightarrow> None | m # _ \<Rightarrow> Some m)"

definition get_version :: "string \<Rightarrow> 'b vstore \<Rightarrow> meta option" where
  "get_version r v = find (\<lambda>m. m_rev m = r) (list_versions v)"

text \<open>
  Copying a tree into a directory: directories merge, a file replaces a file, and a file copied onto a
  directory goes inside it. A directory onto a file raises, as does a file onto a directory inside which
  its name is taken by a directory.
\<close>

function place_all :: "(string \<times> 'b node) list \<Rightarrow> (string \<times> 'b node) list \<Rightarrow> (string \<times> 'b node) list option" where
  "place_all [] t = Some t"
| "place_all ((k, File b) # d) t = (case dict_get t k of
       Some (Folder e) \<Rightarrow> (case dict_get e k of
           Some (Folder f) \<Rightarrow> None
         | _ \<Rightarrow> place_all d (dict_set k (Folder (dict_set k (File b) e)) t))
     | _ \<Rightarrow> place_all d (dict_set k (File b) t))"
| "place_all ((k, Folder c) # d) t = (case dict_get t k of
       Some (File b) \<Rightarrow> None
     | o' \<Rightarrow> Option.bind (place_all c (case o' of Some (Folder e) \<Rightarrow> e | _ \<Rightarrow> [])) (\<lambda>e. place_all d (dict_set k (Folder e) t)))"
  by pat_completeness auto

termination
  by (relation "measure (\<lambda>(d, t). size (Folder d))") auto

definition restore :: "string \<Rightarrow> (string \<times> 'b node) list \<Rightarrow> 'b vstore \<Rightarrow> vstore_error + (string \<times> 'b node) list option" where
  "restore r target v = (case get_version r v of
       None \<Rightarrow> Inl Rev_unknown
     | Some m \<Rightarrow> (case dict_get (rev_dirs v) r of None \<Rightarrow> Inl Rev_dir_missing | Some d \<Rightarrow> Inr (place_all d target)))"

definition delete_version :: "string \<Rightarrow> 'b vstore \<Rightarrow> 'b vstore \<times> bool" where
  "delete_version r v = (v\<lparr>rev_dirs := dict_pop r (rev_dirs v), index := filter (\<lambda>m. m_rev m \<noteq> r) (list_versions v)\<rparr>,
     dict_get (rev_dirs v) r \<noteq> None)"

section \<open>What a store keeps\<close>

definition vs_ok :: "'b vstore \<Rightarrow> bool" where
  "vs_ok v \<longleftrightarrow> distinct (map m_rev (index v)) \<and> set (map m_rev (index v)) \<subseteq> dom (dict_get (rev_dirs v))"

lemma set_list_versions [simp]: "set (list_versions v) = set (index v)"
  by (simp add: list_versions_def)

lemma distinct_revs_sorted: "vs_ok v \<Longrightarrow> distinct (map m_rev (list_versions v))"
  by (simp add: vs_ok_def list_versions_def distinct_map)

lemma find_unique: "distinct (map f xs) \<Longrightarrow> x \<in> set xs \<Longrightarrow> find (\<lambda>y. f y = f x) xs = Some x"
  by (induction xs) (auto simp: image_iff)

lemma get_version_iff: "vs_ok v \<Longrightarrow> get_version r v = Some m \<longleftrightarrow> m \<in> set (index v) \<and> m_rev m = r"
proof -
  assume ok: "vs_ok v"
  have "find P xs = Some x \<Longrightarrow> x \<in> set xs \<and> P x" for P and xs :: "meta list" and x
    by (auto simp: find_Some_iff)
  from this [of "\<lambda>m. m_rev m = r" "list_versions v" m] find_unique [OF distinct_revs_sorted [OF ok], of m]
  show ?thesis by (auto simp: get_version_def)
qed

lemma vs_ok_new [simp]: "vs_ok new_vstore"
  by (simp add: vs_ok_def new_vstore_def)

lemma snapshot_cases:
  assumes "snapshot src ps msg r fresh now v = (v', res)"
  obtains (none) "v' = v" and "\<exists>e. res = Inl e"
  | (partial) name d e where "dict_get (rev_dirs v) name = None" and "v' = v\<lparr>rev_dirs := dict_set name d (rev_dirs v)\<rparr>" and "res = Inl e"
  | (taken) name d m where "dict_get (rev_dirs v) name = None" and "res = Inr name" and "copy_paths src ps [] = (d, Inr ())" and "m_rev m = name" and "m_paths m = ps"
      and "v' = v\<lparr>rev_dirs := dict_set name d (rev_dirs v), index := index v @ [m]\<rparr>"
proof -
  let ?name = "case r of None \<Rightarrow> fresh | Some s \<Rightarrow> if s = '''' then fresh else s"
  obtain d cr where c: "copy_paths src ps [] = (d, cr)" by fastforce
  show thesis
  proof (cases "ps = [] \<or> dict_get (rev_dirs v) ?name \<noteq> None")
    case True
    then show ?thesis using assms that(1) by (auto simp: snapshot_def Let_def split: if_splits)
  next
    case False
    let ?m = "\<lparr>m_rev = ?name, m_ts = now, m_message = msg, m_paths = ps, m_size = sum_list (map (stat_size src) (all_parts src ps)),
      m_checksum = take 16 (digest src (file_contents (all_parts src ps)))\<rparr>"
    show ?thesis using False assms c that(2) [of ?name d] that(3) [of ?name d ?m]
      by (cases cr) (auto simp: snapshot_def Let_def)
  qed
qed

lemma snapshot_ok: "snapshot src ps msg r fresh now v = (v', res) \<Longrightarrow> vs_ok v \<Longrightarrow> vs_ok v'"
  by (elim snapshot_cases) (auto simp: vs_ok_def update_conv')

lemma delete_ok: "vs_ok v \<Longrightarrow> vs_ok (fst (delete_version r v))"
  using distinct_revs_sorted [of v] by (auto simp: vs_ok_def delete_version_def delete_conv' distinct_map_filter)

section \<open>Snapshots are immutable\<close>

datatype 'b vop = Snap "'b sources" "string list" string "string option" string rat | Delete string

fun vstep :: "'b vstore \<Rightarrow> 'b vop \<Rightarrow> 'b vstore" where
  "vstep v (Snap src ps msg r fresh now) = fst (snapshot src ps msg r fresh now v)"
| "vstep v (Delete r) = fst (delete_version r v)"

text \<open>An indexed revision with its description and its tree.\<close>

definition holds :: "string \<Rightarrow> meta \<Rightarrow> (string \<times> 'b node) list \<Rightarrow> 'b vstore \<Rightarrow> bool" where
  "holds r m d v \<longleftrightarrow> get_version r v = Some m \<and> dict_get (rev_dirs v) r = Some d"

lemma vstep_ok: "vs_ok v \<Longrightarrow> vs_ok (vstep v op')"
  by (cases op') (auto intro: delete_ok snapshot_ok [OF prod.collapse [symmetric]])

lemma snapshot_holds:
  assumes "snapshot src ps msg r fresh now v = (v', Inr name)" and "vs_ok v"
  shows "\<exists>m d. holds name m d v' \<and> copy_paths src ps [] = (d, Inr ()) \<and> m_paths m = ps"
  using assms(1)
proof (cases rule: snapshot_cases)
  case (taken n d m)
  then have "m \<in> set (index v')" "m_rev m = name" by simp_all
  then have "get_version name v' = Some m" using get_version_iff [OF snapshot_ok [OF assms]] by simp
  with taken show ?thesis by (auto simp: holds_def update_conv')
qed simp_all

lemma snapshot_keeps:
  assumes "snapshot src ps msg r fresh now v = (v', res)" and "vs_ok v" and "holds n m d v"
  shows "holds n m d v'"
  using assms(1)
proof (cases rule: snapshot_cases)
  case (taken name d' m')
  then have "n \<noteq> name" using assms(3) by (auto simp: holds_def)
  moreover have "get_version n v' = Some m"
    using assms(3) taken get_version_iff [OF assms(2)] get_version_iff [OF snapshot_ok [OF assms(1,2)]] by (simp add: holds_def)
  ultimately show ?thesis using taken assms(3) by (simp add: holds_def update_conv')
qed (use assms(3) in \<open>auto simp: holds_def get_version_def list_versions_def update_conv'\<close>)

lemma delete_keeps: "vs_ok v \<Longrightarrow> holds n m d v \<Longrightarrow> r \<noteq> n \<Longrightarrow> holds n m d (fst (delete_version r v))"
  using get_version_iff [of v n m] get_version_iff [OF delete_ok, of v n r m]
  by (auto simp: holds_def delete_version_def delete_conv')

lemma vsteps_keep:
  "vs_ok v \<Longrightarrow> holds n m d v \<Longrightarrow> Delete n \<notin> set ops \<Longrightarrow> vs_ok (foldl vstep v ops) \<and> holds n m d (foldl vstep v ops)"
proof (induction ops arbitrary: v)
  case (Cons op' ops)
  have "holds n m d (vstep v op')"
    using Cons.prems by (cases op') (auto intro: delete_keeps snapshot_keeps [OF prod.collapse [symmetric]])
  then show ?case using Cons.IH [of "vstep v op'"] Cons.prems(3) vstep_ok [OF Cons.prems(1), of op'] by simp
qed simp

text \<open>Trees as a file system has them: names are distinct in every directory.\<close>

function tidy :: "(string \<times> 'b node) list \<Rightarrow> bool" where
  "tidy [] = True"
| "tidy ((k, File b) # d) \<longleftrightarrow> k \<notin> fst ` set d \<and> tidy d"
| "tidy ((k, Folder c) # d) \<longleftrightarrow> k \<notin> fst ` set d \<and> tidy c \<and> tidy d"
  by pat_completeness auto

termination
  by (relation "measure (\<lambda>d. size (Folder d))") auto

lemma place_all_fresh: "tidy d \<Longrightarrow> fst ` set d \<inter> fst ` set t = {} \<Longrightarrow> place_all d t = Some (t @ d)"
proof (induction d t rule: place_all.induct)
  case (2 k b d t)
  then have "dict_get t k = None" "k \<notin> fst ` set t" by (auto simp: map_of_eq_None_iff)
  moreover have "fst ` set d \<inter> fst ` set (t @ [(k, File b)]) = {}" using 2 by auto
  ultimately show ?case using 2 dict_set_new [of k t] by simp
next
  case (3 k c d t)
  then have "dict_get t k = None" "k \<notin> fst ` set t" by (auto simp: map_of_eq_None_iff)
  moreover have "fst ` set d \<inter> fst ` set (t @ [(k, Folder c)]) = {}" using 3 by auto
  ultimately show ?case using 3 dict_set_new [of k t] by simp
qed simp

text \<open>
  A snapshot is immutable. Whatever snapshots and deletions of other revisions follow, its revision
  stays listed with the paths given to it, and restoring it into an empty directory gives exactly the
  files and directories as they were when it was taken.
\<close>

theorem snapshot_immutable:
  assumes "vs_ok v" and "snapshot src ps msg r fresh now v = (v', Inr name)" and "Delete name \<notin> set ops"
    and "copy_paths src ps [] = (d, Inr ())" and "tidy d"
  shows "(\<exists>m. get_version name (foldl vstep v' ops) = Some m \<and> m_paths m = ps)
     \<and> restore name [] (foldl vstep v' ops) = Inr (Some d)"
proof -
  obtain m where m: "holds name m d v'" "m_paths m = ps" using snapshot_holds [OF assms(2,1)] assms(4) by auto
  then have "holds name m d (foldl vstep v' ops)" using vsteps_keep [OF snapshot_ok [OF assms(2,1)] m(1) assms(3)] by simp
  then show ?thesis using m(2) place_all_fresh [OF assms(5), of "[]"] by (simp add: holds_def restore_def)
qed

definition ex_sources :: "nat sources" where
  "ex_sources = \<lparr>look = (\<lambda>p. if p = ''/gone'' then None else Some (Folder [(''x'', File 1), (''y'', File 2)])), stored_name = (\<lambda>p. p),
     stat_size = (\<lambda>n. 1), digest = (\<lambda>bs. ''d'')\<rparr>"

theorem snapshot_immutable_witness:
  "restore ''r1'' [] (foldl vstep (fst (snapshot ex_sources [''/a''] '''' None ''r1'' 5 new_vstore))
       [Snap ex_sources [''/b''] '''' (Some ''r2'') '''' 6, Delete ''r2'', Snap ex_sources [''/gone''] '''' None ''r3'' 7])
     = Inr (Some [(''/a'', Folder [(''x'', File 1), (''y'', File 2)])])"
proof -
  let ?d = "[(''/a'', Folder [(''x'', File 1), (''y'', File (2 :: nat))])]"
  have c: "copy_paths ex_sources [''/a''] [] = (?d, Inr ())" by (simp add: ex_sources_def)
  then obtain v' where v': "snapshot ex_sources [''/a''] '''' None ''r1'' 5 new_vstore = (v', Inr ''r1'')"
    by (simp add: snapshot_def new_vstore_def Let_def)
  have "tidy ?d" by simp
  from snapshot_immutable [OF vs_ok_new v' _ c this, of "[Snap ex_sources [''/b''] '''' (Some ''r2'') '''' 6, Delete ''r2'', Snap ex_sources [''/gone''] '''' None ''r3'' 7]"]
  show ?thesis using v' by simp
qed

section \<open>Surprises\<close>

text \<open>A snapshot that fails for a missing path blocks its revision name: the retry is told it exists, and no list shows it.\<close>

lemma failed_snapshot_blocks_name:
  assumes "look src p = None" and "r \<noteq> ''''" and "dict_get (rev_dirs v) r = None" and "ps \<noteq> []"
  shows "snd (snapshot src [p] msg (Some r) fresh now v) = Inl (Path_missing p)
     \<and> snd (snapshot src' ps msg (Some r) fresh now (fst (snapshot src [p] msg (Some r) fresh now v))) = Inl Rev_exists
     \<and> list_versions (fst (snapshot src [p] msg (Some r) fresh now v)) = list_versions v"
  using assms by (simp add: snapshot_def Let_def update_conv' list_versions_def)

text \<open>Of two snapshots within one tick of the clock, the first is the latest.\<close>

lemma latest_of_tie:
  "map_option m_rev (latest (fst (snapshot ex_sources [''/b''] '''' None ''r2'' 5 (fst (snapshot ex_sources [''/a''] '''' None ''r1'' 5 new_vstore))))) = Some ''r1''"
  by (simp add: snapshot_def new_vstore_def Let_def ex_sources_def latest_def list_versions_def)

text \<open>The checksum covers contents in order but no names: a renamed file goes unnoticed.\<close>

lemma checksum_ignores_names: "file_contents (walk (Folder [(''old'', File b)])) = file_contents (walk (Folder [(''new'', File b)]))"
  by (simp add: walk_def file_contents_def)

section \<open>JSON lines files\<close>

text \<open>What is appended is read back last, and the latest entry with a key is the last that has it.\<close>

lemma read_append: "read_lines skip (ls @ [Doc_line j]) = bindE (read_lines skip ls) (\<lambda>js. Inr (js @ [j]))"
  by (induction skip ls rule: read_lines.induct) (simp_all add: bindE_assoc)

lemma latest_append: "latest_of k best (ls @ [Doc_line j]) = bindE (latest_of k best ls) (\<lambda>x. bindE (contains k j) (\<lambda>b. Inr (if b then Some j else x)))"
  by (induction k best ls rule: latest_of.induct) (simp_all add: bindE_assoc)

text \<open>
  Appending to a JSON lines file adds the entry at its end: a reader that skips malformed lines gets
  the entries of before and then it, and it is the latest entry for each of its keys, if the lookup
  succeeded before.
\<close>

theorem jsonl_append_read:
  "jsonl_read True (jsonl_append d f) = bindE (case f of None \<Rightarrow> Inr [] | Some ls \<Rightarrow> jsonl_read True f) (\<lambda>js. Inr (js @ [JDict d]))
   \<and> jsonl_latest k (jsonl_append d f) = bindE (jsonl_latest k f) (\<lambda>x. Inr (if k \<in> dom (dict_get d) then Some (JDict d) else x))"
proof -
  have "(dict_get d k \<noteq> None) = (k \<in> dom (dict_get d))" by auto
  then show ?thesis
    by (cases f) (simp_all add: jsonl_append_def jsonl_read_def jsonl_latest_def read_append latest_append)
qed

text \<open>Looking for a key raises at an entry that is a number.\<close>

lemma latest_raises_on_number: "jsonl_latest k (Some [Doc_line (JInt 1)]) = Inl Not_iterable"
  by (simp add: jsonl_latest_def)

section \<open>The store as an archive\<close>

text \<open>
  What a client that snapshots single files relies on: a kept value is fetched under its revision, and
  keeping another leaves it as it is. Keeping is a relation, since the store also records a message,
  a time and a size.
\<close>

locale archive =
  fixes start :: "'s" and kept :: "string \<Rightarrow> 'd \<Rightarrow> 's \<Rightarrow> 's \<Rightarrow> bool" and fetch :: "string \<Rightarrow> 's \<Rightarrow> 'd option"
    and ok :: "'s \<Rightarrow> bool" and free :: "string \<Rightarrow> 's \<Rightarrow> bool"
  assumes ok_start: "ok start" and fetch_start: "fetch r start = None"
    and fetch_None: "ok s \<Longrightarrow> fetch r s = None \<Longrightarrow> free r s"
    and kept_ok: "ok s \<Longrightarrow> kept r d s s' \<Longrightarrow> ok s'"
    and fetch_kept: "ok s \<Longrightarrow> kept r d s s' \<Longrightarrow> fetch r' s' = (if r' = r then Some d else fetch r' s)"
begin

definition represents :: "(string \<times> 'd) list \<Rightarrow> 's \<Rightarrow> bool" where
  "represents hist s \<longleftrightarrow> ok s \<and> (\<forall>r. fetch r s = map_of hist r)"

lemma represents_start: "represents [] start"
  by (simp add: represents_def ok_start fetch_start)

lemma represents_kept: "represents hist s \<Longrightarrow> kept r d s s' \<Longrightarrow> r \<notin> fst ` set hist \<Longrightarrow> represents (hist @ [(r, d)]) s'"
proof -
  assume "represents hist s" "kept r d s s'" "r \<notin> fst ` set hist"
  moreover from this have "map_of hist r = None" by (simp add: map_of_eq_None_iff)
  ultimately show ?thesis using kept_ok fetch_kept [of s r d s']
    by (auto simp: represents_def map_add_def split: option.split)
qed

lemma represents_fetch: "represents hist s \<Longrightarrow> fetch r s = map_of hist r"
  by (simp add: represents_def)

lemma represents_free: "represents hist s \<Longrightarrow> r \<notin> fst ` set hist \<Longrightarrow> free r s"
  by (simp add: represents_def fetch_None map_of_eq_None_iff)

end

text \<open>A snapshot of one file, and what is found under a revision: its paths and its tree.\<close>

type_synonym 'b found = "string list \<times> (vstore_error + (string \<times> 'b node) list option)"

definition one_file :: "string \<Rightarrow> string \<Rightarrow> 'b \<Rightarrow> 'b found" where
  "one_file p n b = ([p], Inr (Some [(n, File b)]))"

definition file_kept :: "string \<Rightarrow> 'b found \<Rightarrow> 'b vstore \<Rightarrow> 'b vstore \<Rightarrow> bool" where
  "file_kept r x v v' \<longleftrightarrow> (\<exists>src p b msg now. look src p = Some (File b) \<and> x = one_file p (stored_name src p) b
     \<and> snapshot src [p] msg None r now v = (v', Inr r))"

definition found :: "string \<Rightarrow> 'b vstore \<Rightarrow> 'b found option" where
  "found r v = map_option (\<lambda>m. (m_paths m, restore r [] v)) (get_version r v)"

lemma found_kept:
  assumes "file_kept r x v v'" and "vs_ok v"
  shows "found r v' = Some x"
proof -
  obtain src p b msg now where k: "look src p = Some (File b)" "x = one_file p (stored_name src p) b"
    "snapshot src [p] msg None r now v = (v', Inr r)" using assms(1) by (auto simp: file_kept_def)
  then obtain m where "holds r m [(stored_name src p, File b)] v'" "m_paths m = [p]"
    using snapshot_holds [OF k(3) assms(2)] by auto
  then show ?thesis using k(2) by (simp add: holds_def found_def restore_def one_file_def)
qed

lemma found_other:
  assumes "snapshot src ps msg None r now v = (v', Inr r)" and "vs_ok v" and "r' \<noteq> r"
  shows "found r' v' = found r' v"
  using assms(1)
proof (cases rule: snapshot_cases)
  case (taken n d m)
  then have "get_version r' v' = get_version r' v"
    using assms(3) get_version_iff [OF assms(2), of r'] get_version_iff [OF snapshot_ok [OF assms(1,2)], of r']
    by (intro option.expand) (auto, (metis option.exhaust_sel option.distinct(1))+)
  moreover have "dict_get (rev_dirs v') r' = dict_get (rev_dirs v) r'" using taken assms(3) by (simp add: update_conv')
  ultimately have "restore r' [] v' = restore r' [] v" unfolding restore_def by (simp split: option.split)
  then show ?thesis unfolding found_def \<open>get_version r' v' = get_version r' v\<close> by simp
qed simp_all

text \<open>Without failing snapshots every directory has its entry in the index.\<close>

definition vs_full :: "'b vstore \<Rightarrow> bool" where
  "vs_full v \<longleftrightarrow> vs_ok v \<and> (\<forall>r. dict_get (rev_dirs v) r \<noteq> None \<longleftrightarrow> r \<in> m_rev ` set (index v))"

definition rev_free :: "string \<Rightarrow> 'b vstore \<Rightarrow> bool" where
  "rev_free r v \<longleftrightarrow> dict_get (rev_dirs v) r = None"

lemma full_kept:
  assumes "vs_full v" and "file_kept r x v v'"
  shows "vs_full v'"
proof -
  obtain src p msg now where s: "snapshot src [p] msg None r now v = (v', Inr r)" using assms(2) by (auto simp: file_kept_def)
  have "vs_ok v'" using snapshot_ok [OF s] assms(1) by (simp add: vs_full_def)
  from s this assms(1) show ?thesis by (elim snapshot_cases) (simp_all add: vs_full_def update_conv' del: not_None_eq)
qed

lemma found_None: "vs_full v \<Longrightarrow> found r v = None \<Longrightarrow> rev_free r v"
proof -
  assume full: "vs_full v" and "found r v = None"
  then have "r \<notin> m_rev ` set (index v)" using get_version_iff [of v r] by (auto simp: found_def vs_full_def)
  moreover have "(dict_get (rev_dirs v) r \<noteq> None) = (r \<in> m_rev ` set (index v))" using full unfolding vs_full_def by blast
  ultimately show ?thesis unfolding rev_free_def by blast
qed

interpretation files: archive new_vstore file_kept found vs_full rev_free
proof
  show "vs_full (new_vstore :: 'b vstore)" by (simp add: vs_full_def) (simp add: new_vstore_def)
  show "rev_free r s" if "vs_full s" "found r s = None" for r and s :: "'b vstore" using found_None that .
  show "found r (new_vstore :: 'b vstore) = None" for r
    by (simp add: found_def get_version_def list_versions_def new_vstore_def)
  show "vs_full s'" if "vs_full s" "file_kept r d s s'" for s s' :: "'b vstore" and r d
    using full_kept that .
  show "found r' s' = (if r' = r then Some d else found r' s)" if full: "vs_full s" and k: "file_kept r d s s'" for s s' :: "'b vstore" and r d r'
  proof (cases "r' = r")
    case True
    then show ?thesis using found_kept [OF k] full by (simp add: vs_full_def)
  next
    case False
    obtain src p msg now where sn: "snapshot src [p] msg None r now s = (s', Inr r)" using k by (auto simp: file_kept_def)
    have "vs_ok s" using full by (simp add: vs_full_def)
    then show ?thesis using found_other [OF sn _ False] False by simp
  qed
qed

end
