(* ===== verification/PersistentStore.thy ===== *)
theory PersistentStore
  imports VersionStore
begin

text \<open>
  Versioned assets (\<^verbatim>\<open>obase/persistent_store.py\<close>): the four asset types with their documents, and
  the store of current states, event logs and snapshots over the version store. Files are keyed by
  their paths; a file of JSON is its document. Fresh revisions, the clock, the digest prefix of a path
  and the sizes and digests of snapshots are arguments. A save holds the store's lock throughout.
\<close>

section \<open>Asset types\<close>

record causal_doc =
  g_name :: json
  g_nodes :: "json list"
  g_edges :: "(json \<times> json) list"
  g_weights :: jdict
  g_meta :: jdict

definition causal_to_dict :: "causal_doc \<Rightarrow> jdict" where
  "causal_to_dict g = [(''name'', g_name g), (''nodes'', JList (g_nodes g)), (''edges'', JList (map (\<lambda>(u, v). JList [u, v]) (g_edges g))),
     (''weights'', JDict (g_weights g)), (''meta'', JDict (g_meta g))]"

fun as_pair :: "json \<Rightarrow> decode_error + json \<times> json" where
  "as_pair (JList [u, v]) = Inr (u, v)"
| "as_pair j = Inl (Ill_typed j)"

definition causal_from_dict :: "jdict \<Rightarrow> decode_error + causal_doc" where
  "causal_from_dict d = bindE (need ''name'' Inr d) (\<lambda>n. bindE (opt ''nodes'' [] as_list d) (\<lambda>ns.
     bindE (bindE (opt ''edges'' [] as_list d) (mapE as_pair)) (\<lambda>es. bindE (opt ''weights'' [] as_dict d) (\<lambda>ws.
     bindE (opt ''meta'' [] as_dict d) (\<lambda>m.
       Inr \<lparr>g_name = n, g_nodes = ns, g_edges = es, g_weights = ws, g_meta = m\<rparr>)))))"

record threat =
  t_id :: json
  t_signature :: "json list"
  t_severity :: json
  t_mitigations :: "json list"
  t_observed :: rat
  t_meta :: jdict

definition threat_to_dict :: "threat \<Rightarrow> jdict" where
  "threat_to_dict t = [(''profile_id'', t_id t), (''signature'', JList (t_signature t)), (''severity'', t_severity t),
     (''mitigations'', JList (t_mitigations t)), (''observed_at'', JFloat (t_observed t)), (''meta'', JDict (t_meta t))]"

definition threat_from_dict :: "rat \<Rightarrow> jdict \<Rightarrow> decode_error + threat" where
  "threat_from_dict now d = bindE (need ''profile_id'' Inr d) (\<lambda>i. bindE (opt ''signature'' [] as_list d) (\<lambda>sg.
     bindE (opt ''mitigations'' [] as_list d) (\<lambda>ms. bindE (opt ''observed_at'' now as_float d) (\<lambda>t. bindE (opt ''meta'' [] as_dict d) (\<lambda>m.
       Inr \<lparr>t_id = i, t_signature = sg, t_severity = get_json ''severity'' (JStr ''medium'') d, t_mitigations = ms, t_observed = t,
            t_meta = m\<rparr>)))))"

record strategy =
  s_id :: json
  s_name :: json
  s_priors :: jdict
  s_graph_ref :: json
  s_effects :: "json list"
  s_meta :: jdict

definition strategy_to_dict :: "strategy \<Rightarrow> jdict" where
  "strategy_to_dict s = [(''strategy_id'', s_id s), (''name'', s_name s), (''priors'', JDict (s_priors s)), (''graph_ref'', s_graph_ref s),
     (''effects'', JList (s_effects s)), (''meta'', JDict (s_meta s))]"

definition strategy_from_dict :: "jdict \<Rightarrow> decode_error + strategy" where
  "strategy_from_dict d = bindE (need ''strategy_id'' Inr d) (\<lambda>i. bindE (opt ''priors'' [] as_dict d) (\<lambda>ps.
     bindE (opt ''effects'' [] as_list d) (\<lambda>es. bindE (opt ''meta'' [] as_dict d) (\<lambda>m.
       Inr \<lparr>s_id = i, s_name = get_json ''name'' (JStr '''') d, s_priors = ps, s_graph_ref = get_json ''graph_ref'' JNull d,
            s_effects = es, s_meta = m\<rparr>))))"

record cpd =
  c_node :: json
  c_parents :: "json list"
  c_table :: "(string \<times> rat) list"
  c_meta :: jdict

definition cpd_to_dict :: "cpd \<Rightarrow> jdict" where
  "cpd_to_dict c = [(''node'', c_node c), (''parents'', JList (c_parents c)), (''table'', JDict (map (\<lambda>(k, v). (k, JFloat v)) (c_table c))),
     (''meta'', JDict (c_meta c))]"

definition table_entry :: "string \<times> json \<Rightarrow> decode_error + string \<times> rat" where
  "table_entry kv = bindE (as_float (snd kv)) (\<lambda>v. Inr (fst kv, v))"

definition cpd_from_dict :: "jdict \<Rightarrow> decode_error + cpd" where
  "cpd_from_dict d = bindE (need ''node'' Inr d) (\<lambda>n. bindE (opt ''parents'' [] as_list d) (\<lambda>ps.
     bindE (bindE (opt ''table'' [] as_dict d) (mapE table_entry)) (\<lambda>t. bindE (opt ''meta'' [] as_dict d) (\<lambda>m.
       Inr \<lparr>c_node = n, c_parents = ps, c_table = t, c_meta = m\<rparr>))))"

section \<open>Validation\<close>

definition KINDS :: "string list" where
  "KINDS = [''causal_graph'', ''threat_profile'', ''strategy_state'', ''cpd'']"

definition id_field :: "string \<Rightarrow> string" where
  "id_field kind = (if kind = ''causal_graph'' then ''name'' else if kind = ''threat_profile'' then ''profile_id''
     else if kind = ''strategy_state'' then ''strategy_id'' else ''node'')"

datatype store_error = Unknown_kind | Not_a_dict | Missing_field | Bad_severity | No_version | Snapshot_failed vstore_error

definition validate_doc :: "string \<Rightarrow> json \<Rightarrow> store_error option" where
  "validate_doc kind doc =
     (if kind \<notin> set KINDS then Some Unknown_kind
      else case doc of
        JDict d \<Rightarrow>
          if dict_get d (id_field kind) = None then Some Missing_field
          else if kind = ''threat_profile''
            \<and> get_json ''severity'' (JStr ''medium'') d \<notin> set (map JStr [''low'', ''medium'', ''high'', ''critical'']) then Some Bad_severity
          else None
      | _ \<Rightarrow> Some Not_a_dict)"

section \<open>The store\<close>

type_synonym asset = "string \<times> string"

record pstore =
  current :: "(string, json) dict"
  events :: "(string, jdict list) dict"
  vsn :: "json vstore"

definition new_pstore :: pstore where
  "new_pstore = \<lparr>current = [], events = [], vsn = new_vstore\<rparr>"

definition marker :: "asset \<Rightarrow> string" where
  "marker a = fst a @ ''/'' @ snd a @ ''.json''"

definition current_path :: "string \<Rightarrow> asset \<Rightarrow> string" where
  "current_path rt a = rt @ ''/current/'' @ marker a"

definition event_path :: "string \<Rightarrow> asset \<Rightarrow> string" where
  "event_path rt a = rt @ ''/events/'' @ fst a @ ''/'' @ snd a @ ''.jsonl''"

definition base_name :: "string \<Rightarrow> string" where
  "base_name p = rev (takeWhile (\<lambda>c. c \<noteq> CHR ''/'') (rev p))"

text \<open>The system of files as a snapshot sees it: \<open>pre\<close> gives ten digits of the digest of a path.\<close>

record surroundings =
  base_dir :: string
  pre :: "string \<Rightarrow> string"
  node_size :: "json node \<Rightarrow> nat"
  content_digest :: "json list \<Rightarrow> string"

definition file_sources :: "surroundings \<Rightarrow> pstore \<Rightarrow> json sources" where
  "file_sources w s = \<lparr>look = (\<lambda>p. map_option File (dict_get (current s) p)), stored_name = (\<lambda>p. pre w p @ ''-'' @ base_name p),
     stat_size = node_size w, digest = content_digest w\<rparr>"

definition event_entry :: "rat \<Rightarrow> string \<Rightarrow> string \<Rightarrow> json \<Rightarrow> jdict" where
  "event_entry now author reason doc = [(''ts'', JFloat now), (''author'', JStr author), (''reason'', JStr reason), (''doc'', doc)]"

text \<open>State and log are written before the snapshot, also when that fails.\<close>

definition save ::
    "surroundings \<Rightarrow> asset \<Rightarrow> json \<Rightarrow> string \<Rightarrow> string \<Rightarrow> string \<Rightarrow> rat \<Rightarrow> pstore \<Rightarrow> pstore \<times> (store_error + string)" where
  "save w a doc author reason fresh now s = (case validate_doc (fst a) doc of
       Some e \<Rightarrow> (s, Inl e)
     | None \<Rightarrow>
         let p = current_path (base_dir w) a; q = event_path (base_dir w) a;
             s1 = s\<lparr>current := dict_set p doc (current s),
                    events := dict_set q ((case dict_get (events s) q of None \<Rightarrow> [] | Some es \<Rightarrow> es) @ [event_entry now author reason doc]) (events s)\<rparr>;
             (v, r) = snapshot (file_sources w s1) [p] (fst a @ '':'' @ snd a @ '':'' @ (if reason = '''' then ''update'' else reason)) None fresh now (vsn s1)
         in (s1\<lparr>vsn := v\<rparr>, case r of Inl e \<Rightarrow> Inl (Snapshot_failed e) | Inr rv \<Rightarrow> Inr rv))"

definition load_latest :: "surroundings \<Rightarrow> asset \<Rightarrow> pstore \<Rightarrow> json option" where
  "load_latest w a s = dict_get (current s) (current_path (base_dir w) a)"

definition about :: "asset \<Rightarrow> meta \<Rightarrow> bool" where
  "about a m \<longleftrightarrow> (\<exists>p \<in> set (m_paths m). is_infix (marker a) p)"

fun first_named :: "string \<Rightarrow> (string \<times> json node) list \<Rightarrow> json option" where
  "first_named suf [] = None"
| "first_named suf ((n, File j) # d) = (if has_suffix n suf then Some j else first_named suf d)"
| "first_named suf ((n, Folder e) # d) = first_named suf d"

text \<open>The order in which a directory lists its files is that of the snapshot; a store's snapshots have one file.\<close>

definition load_version :: "asset \<Rightarrow> string \<Rightarrow> pstore \<Rightarrow> store_error + json option" where
  "load_version a r s = (case get_version r (vsn s) of
       None \<Rightarrow> Inr None
     | Some m \<Rightarrow>
         if \<not> about a m then Inr None
         else (case restore r [] (vsn s) of
           Inl e \<Rightarrow> Inl (Snapshot_failed e)
         | Inr None \<Rightarrow> Inl (Snapshot_failed Rev_dir_missing)
         | Inr (Some d) \<Rightarrow> Inr (first_named (''-'' @ snd a @ ''.json'') d)))"

definition asset_versions :: "asset \<Rightarrow> pstore \<Rightarrow> meta list" where
  "asset_versions a s = filter (about a) (list_versions (vsn s))"

definition history :: "surroundings \<Rightarrow> asset \<Rightarrow> pstore \<Rightarrow> jdict list" where
  "history w a s = (case dict_get (events s) (event_path (base_dir w) a) of None \<Rightarrow> [] | Some es \<Rightarrow> es)"

definition rollback ::
    "surroundings \<Rightarrow> asset \<Rightarrow> string \<Rightarrow> string \<Rightarrow> string \<Rightarrow> string \<Rightarrow> rat \<Rightarrow> pstore \<Rightarrow> pstore \<times> (store_error + string)" where
  "rollback w a to author reason fresh now s = (case load_version a to s of
       Inl e \<Rightarrow> (s, Inl e)
     | Inr None \<Rightarrow> (s, Inl No_version)
     | Inr (Some doc) \<Rightarrow> save w a doc author reason fresh now s)"

section \<open>Documents round\<close>

lemma as_pairs_round: "mapE as_pair (map (\<lambda>(u, v). JList [u, v]) es) = Inr es"
  using mapE_map_id [of es as_pair "\<lambda>(u, v). JList [u, v]"] by (auto simp: case_prod_beta)

lemma table_round: "mapE table_entry (map (\<lambda>(k, v). (k, JFloat v)) t) = Inr t"
  using mapE_map_id [of t table_entry "\<lambda>(k, v). (k, JFloat v)"] by (auto simp: case_prod_beta table_entry_def)

text \<open>
  Each of the four assets is read back unchanged from its document.
\<close>

theorem assets_round_trip:
  "causal_from_dict (causal_to_dict g) = Inr g \<and> threat_from_dict now (threat_to_dict t) = Inr t
   \<and> strategy_from_dict (strategy_to_dict s) = Inr s \<and> cpd_from_dict (cpd_to_dict c) = Inr c"
  by (simp add: causal_from_dict_def causal_to_dict_def threat_from_dict_def threat_to_dict_def strategy_from_dict_def strategy_to_dict_def
      cpd_from_dict_def cpd_to_dict_def need_def opt_def get_json_def as_pairs_round table_round)

section \<open>The log a store stands for\<close>

datatype pop = Save asset json string string string rat | Rollback asset string string string string rat

fun pstep :: "surroundings \<Rightarrow> pstore \<Rightarrow> pop \<Rightarrow> pstore" where
  "pstep w s (Save a doc author reason fresh now) = fst (save w a doc author reason fresh now s)"
| "pstep w s (Rollback a to author reason fresh now) = fst (rollback w a to author reason fresh now s)"

fun fresh_of :: "pop \<Rightarrow> string" where
  "fresh_of (Save a doc author reason fresh now) = fresh"
| "fresh_of (Rollback a to author reason fresh now) = fresh"

fun asset_of :: "pop \<Rightarrow> asset" where
  "asset_of (Save a doc author reason fresh now) = a"
| "asset_of (Rollback a to author reason fresh now) = a"

text \<open>The specification: revisions with their assets and documents, in the order they were made.\<close>

type_synonym plog = "(string \<times> asset \<times> json) list"

definition version_in :: "plog \<Rightarrow> asset \<Rightarrow> string \<Rightarrow> json option" where
  "version_in l a r = (case map_of l r of None \<Rightarrow> None | Some (b, d) \<Rightarrow> if b = a then Some d else None)"

definition docs_of :: "plog \<Rightarrow> asset \<Rightarrow> json list" where
  "docs_of l a = map (snd \<circ> snd) (filter (\<lambda>e. fst (snd e) = a) l)"

fun log_step :: "plog \<Rightarrow> pop \<Rightarrow> plog" where
  "log_step l (Save a doc author reason fresh now) = (if validate_doc (fst a) doc = None then l @ [(fresh, a, doc)] else l)"
| "log_step l (Rollback a to author reason fresh now) =
     (case version_in l a to of None \<Rightarrow> l | Some doc \<Rightarrow> l @ [(fresh, a, doc)])"

text \<open>Keys are file names, and the marker of an asset occurs in no other asset's path.\<close>

definition apart :: "string \<Rightarrow> asset set \<Rightarrow> bool" where
  "apart rt A \<longleftrightarrow> (\<forall>a \<in> A. fst a \<in> set KINDS \<and> CHR ''/'' \<notin> set (snd a)
     \<and> (\<forall>b \<in> A. is_infix (marker a) (current_path rt b) \<longrightarrow> a = b))"

definition found_entry :: "surroundings \<Rightarrow> string \<times> asset \<times> json \<Rightarrow> string \<times> json found" where
  "found_entry w e = (let p = current_path (base_dir w) (fst (snd e))
     in (fst e, one_file p (pre w p @ ''-'' @ base_name p) (snd (snd e))))"

definition stands_for :: "surroundings \<Rightarrow> asset set \<Rightarrow> plog \<Rightarrow> pstore \<Rightarrow> bool" where
  "stands_for w A l s \<longleftrightarrow> files.represents (map (found_entry w) l) (vsn s)
     \<and> (\<forall>(r, a, d) \<in> set l. a \<in> A \<and> validate_doc (fst a) d = None)
     \<and> (\<forall>a \<in> A. load_latest w a s = (if docs_of l a = [] then None else Some (last (docs_of l a))))
     \<and> (\<forall>a \<in> A. map (\<lambda>e. dict_get e ''doc'') (history w a s) = map Some (docs_of l a))"

lemma kinds_plain: "k \<in> set KINDS \<Longrightarrow> CHR ''/'' \<notin> set k"
  by (auto simp: KINDS_def)

lemma first_slash: "CHR ''/'' \<notin> set k \<Longrightarrow> CHR ''/'' \<notin> set k' \<Longrightarrow> k @ ''/'' @ x = k' @ ''/'' @ y \<Longrightarrow> k = k' \<and> x = y"
  by (induction k arbitrary: k') (auto simp: Cons_eq_append_conv append_eq_Cons_conv)

lemma paths_differ:
  assumes "apart rt A" and "a \<in> A" and "b \<in> A" and "a \<noteq> b"
  shows "current_path rt a \<noteq> current_path rt b" and "event_path rt a \<noteq> event_path rt b"
proof -
  have k: "CHR ''/'' \<notin> set (fst a)" "CHR ''/'' \<notin> set (fst b)" using assms(1-3) kinds_plain by (auto simp: apart_def)
  show "current_path rt a \<noteq> current_path rt b"
  proof
    assume "current_path rt a = current_path rt b"
    then have "fst a @ ''/'' @ snd a @ ''.json'' = fst b @ ''/'' @ snd b @ ''.json''" unfolding current_path_def marker_def by simp
    from first_slash [OF k this] assms(4) show False by (simp add: prod_eq_iff)
  qed
  show "event_path rt a \<noteq> event_path rt b"
  proof
    assume "event_path rt a = event_path rt b"
    then have "fst a @ ''/'' @ snd a @ ''.jsonl'' = fst b @ ''/'' @ snd b @ ''.jsonl''" unfolding event_path_def by simp
    from first_slash [OF k this] assms(4) show False by (simp add: prod_eq_iff)
  qed
qed

lemma base_name_append: "CHR ''/'' \<notin> set y \<Longrightarrow> base_name (x @ ''/'' @ y) = y"
proof -
  assume "CHR ''/'' \<notin> set y"
  then have "takeWhile (\<lambda>c. c \<noteq> CHR ''/'') (rev y @ CHR ''/'' # rev x) = rev y"
    by (subst takeWhile_append2) auto
  then show ?thesis by (simp add: base_name_def)
qed

lemma base_name_current:
  assumes "CHR ''/'' \<notin> set (snd a)"
  shows "base_name (current_path rt a) = snd a @ ''.json''"
  using base_name_append [of "snd a @ ''.json''" "rt @ ''/current/'' @ fst a"] assms by (simp add: current_path_def marker_def)

lemma is_infix_prefix: "is_infix p (p @ s)"
proof (cases "p @ s")
  case (Cons c cs)
  have "take (length p) (p @ s) = p" by simp
  then show ?thesis unfolding Cons by simp
qed simp

lemma is_infix_skip: "is_infix p s \<Longrightarrow> is_infix p (t @ s)"
  by (induction t) auto

lemma own_marker: "is_infix (marker a) (current_path rt a)"
  using is_infix_skip [OF is_infix_prefix [of "marker a" "[]"], of "rt @ ''/current/''"] by (simp add: current_path_def)

section \<open>The store refines its log\<close>

lemma stands_for_new: "stands_for w A [] new_pstore"
  using files.represents_start
  by (simp add: stands_for_def new_pstore_def load_latest_def history_def docs_of_def)

lemma docs_of_snoc: "docs_of (l @ [(r, a, d)]) b = docs_of l b @ (if a = b then [d] else [])"
  by (simp add: docs_of_def)

lemma revs_found [simp]: "fst ` found_entry w ` set l = fst ` set l"
  by (force simp: found_entry_def Let_def image_iff)

text \<open>What a valid save does.\<close>

lemma save_facts:
  assumes "validate_doc (fst a) doc = None"
  shows "\<exists>s1 v r msg. save w a doc author reason fresh now s = (s1\<lparr>vsn := v\<rparr>, case r of Inl e \<Rightarrow> Inl (Snapshot_failed e) | Inr rv \<Rightarrow> Inr rv)
     \<and> snapshot (file_sources w s1) [current_path (base_dir w) a] msg None fresh now (vsn s) = (v, r)
     \<and> current s1 = dict_set (current_path (base_dir w) a) doc (current s)
     \<and> events s1 = dict_set (event_path (base_dir w) a) (history w a s @ [event_entry now author reason doc]) (events s)"
proof -
  let ?s1 = "s\<lparr>current := dict_set (current_path (base_dir w) a) doc (current s),
      events := dict_set (event_path (base_dir w) a) (history w a s @ [event_entry now author reason doc]) (events s)\<rparr>"
  obtain v r where "snapshot (file_sources w ?s1) [current_path (base_dir w) a]
      (fst a @ '':'' @ snd a @ '':'' @ (if reason = '''' then ''update'' else reason)) None fresh now (vsn s) = (v, r)" by fastforce
  then show ?thesis using assms
    by (intro exI [of _ ?s1] exI [of _ v] exI [of _ r] exI [of _ "fst a @ '':'' @ snd a @ '':'' @ (if reason = '''' then ''update'' else reason)"])
       (simp add: save_def Let_def history_def)
qed

lemma snapshot_free:
  assumes "rev_free fresh v" and "look src p = Some n" and "snapshot src [p] msg None fresh now v = (v', r)"
  shows "r = Inr fresh"
  using assms by (auto simp: snapshot_def rev_free_def Let_def)

lemma event_doc: "dict_get (event_entry now author reason doc) ''doc'' = Some doc"
  by (simp add: event_entry_def)

lemma save_stands_for:
  assumes "stands_for w A l s" and "apart (base_dir w) A" and "a \<in> A" and "validate_doc (fst a) doc = None" and "fresh \<notin> fst ` set l"
  shows "stands_for w A (l @ [(fresh, a, doc)]) (fst (save w a doc author reason fresh now s))
     \<and> snd (save w a doc author reason fresh now s) = Inr fresh"
proof -
  let ?p = "current_path (base_dir w) a" and ?q = "event_path (base_dir w) a"
  obtain s1 v r msg where s: "save w a doc author reason fresh now s = (s1\<lparr>vsn := v\<rparr>, case r of Inl e \<Rightarrow> Inl (Snapshot_failed e) | Inr rv \<Rightarrow> Inr rv)"
    "snapshot (file_sources w s1) [?p] msg None fresh now (vsn s) = (v, r)"
    "current s1 = dict_set ?p doc (current s)" "events s1 = dict_set ?q (history w a s @ [event_entry now author reason doc]) (events s)"
    using save_facts [OF assms(4), of w author reason fresh now s] by blast
  have rep: "files.represents (map (found_entry w) l) (vsn s)" using assms(1) by (simp add: stands_for_def)
  have lk: "look (file_sources w s1) ?p = Some (File doc)" by (simp add: file_sources_def s(3) update_conv')
  have free: "rev_free fresh (vsn s)" using files.represents_free [OF rep, of fresh] assms(5) by simp
  have r: "r = Inr fresh" using snapshot_free [OF free lk s(2)] .
  have n: "stored_name (file_sources w s1) ?p = pre w ?p @ ''-'' @ base_name ?p" by (simp add: file_sources_def)
  have "file_kept fresh (one_file ?p (pre w ?p @ ''-'' @ base_name ?p) doc) (vsn s) v"
    using lk n s(2) r unfolding file_kept_def by metis
  then have "file_kept fresh (snd (found_entry w (fresh, a, doc))) (vsn s) v" by (simp add: found_entry_def Let_def)
  moreover have "fresh \<notin> fst ` set (map (found_entry w) l)" using assms(5) by simp
  ultimately have "files.represents (map (found_entry w) l @ [(fresh, snd (found_entry w (fresh, a, doc)))]) v"
    by (rule files.represents_kept [OF rep])
  moreover have "(fresh, snd (found_entry w (fresh, a, doc))) = found_entry w (fresh, a, doc)" by (simp add: found_entry_def Let_def)
  ultimately have rep': "files.represents (map (found_entry w) l @ [found_entry w (fresh, a, doc)]) v" by simp
  have cur: "load_latest w b (s1\<lparr>vsn := v\<rparr>) = (if b = a then Some doc else load_latest w b s)" if "b \<in> A" for b
    using paths_differ(1) [OF assms(2) that assms(3)] by (auto simp: load_latest_def s(3) update_conv')
  have ev: "history w b (s1\<lparr>vsn := v\<rparr>) = (if b = a then history w a s @ [event_entry now author reason doc] else history w b s)" if "b \<in> A" for b
    using paths_differ(2) [OF assms(2) that assms(3)] by (auto simp: history_def s(4) update_conv')
  have "stands_for w A (l @ [(fresh, a, doc)]) (s1\<lparr>vsn := v\<rparr>)"
    unfolding stands_for_def using assms(1,3,4) rep' cur ev by (auto simp: stands_for_def docs_of_snoc event_doc)
  then show ?thesis using s(1) r by simp
qed

text \<open>A version of an asset is found exactly when the log has it.\<close>

lemma has_suffix_append: "has_suffix (x @ y) y"
  by (simp add: has_suffix_def)

lemma load_version_log:
  assumes "stands_for w A l s" and "apart (base_dir w) A" and "a \<in> A"
  shows "load_version a r s = Inr (version_in l a r)"
proof -
  have f: "found r (vsn s) = map_of (map (found_entry w) l) r"
    using assms(1) files.represents_fetch [of "map (found_entry w) l" "vsn s" r] by (simp add: stands_for_def)
  have m: "map_of (map (found_entry w) l) r = map_option (\<lambda>e. snd (found_entry w (r, e))) (map_of l r)"
    by (induction l) (auto simp: found_entry_def Let_def)
  show ?thesis
  proof (cases "map_of l r")
    case None
    then show ?thesis using f m by (simp add: found_def load_version_def version_in_def)
  next
    case (Some e)
    obtain b d where e: "e = (b, d)" by (cases e)
    let ?p = "current_path (base_dir w) b"
    have b: "b \<in> A" using assms(1) map_of_SomeD [OF Some] e by (auto simp: stands_for_def)
    have "found r (vsn s) = Some (one_file ?p (pre w ?p @ ''-'' @ base_name ?p) d)"
      using f m Some e by (simp add: found_entry_def Let_def)
    then obtain mt where mt: "get_version r (vsn s) = Some mt" "m_paths mt = [?p]"
      "restore r [] (vsn s) = Inr (Some [(pre w ?p @ ''-'' @ base_name ?p, File d)])" by (auto simp: found_def one_file_def)
    show ?thesis
    proof (cases "b = a")
      case True
      then have "base_name ?p = snd a @ ''.json''" using base_name_current assms(2,3) by (simp add: apart_def)
      then have "has_suffix (pre w ?p @ ''-'' @ base_name ?p) (''-'' @ snd a @ ''.json'')" using has_suffix_append by simp
      then show ?thesis using mt True own_marker [of a "base_dir w"] Some e by (simp add: load_version_def about_def version_in_def)
    next
      case False
      then have "\<not> is_infix (marker a) ?p" using assms(2,3) b by (auto simp: apart_def)
      then show ?thesis using mt False Some e by (simp add: load_version_def about_def version_in_def)
    qed
  qed
qed

lemma pstep_stands_for:
  assumes "stands_for w A l s" and "apart (base_dir w) A" and "asset_of op' \<in> A" and "fresh_of op' \<notin> fst ` set l"
  shows "stands_for w A (log_step l op') (pstep w s op')"
proof (cases op')
  case (Save a doc author reason fresh now)
  then show ?thesis using assms save_stands_for [OF assms(1,2)] by (auto simp: save_def split: option.split)
next
  case (Rollback a to author reason fresh now)
  have lv: "load_version a to s = Inr (version_in l a to)" using load_version_log [OF assms(1,2)] assms(3) Rollback by simp
  show ?thesis
  proof (cases "version_in l a to")
    case None
    then show ?thesis using lv assms(1) Rollback by (simp add: rollback_def)
  next
    case (Some doc)
    then have "(to, a, doc) \<in> set l" by (auto simp: version_in_def dest!: map_of_SomeD split: option.splits if_splits)
    then have "validate_doc (fst a) doc = None" using assms(1) by (auto simp: stands_for_def)
    then show ?thesis using Some lv assms Rollback save_stands_for [OF assms(1,2)] by (simp add: rollback_def)
  qed
qed

lemma log_revs: "fst ` set (foldl log_step l ops) \<subseteq> fst ` set l \<union> fresh_of ` set ops"
proof (induction ops arbitrary: l)
  case (Cons op' ops)
  have "fst ` set (log_step l op') \<subseteq> fst ` set l \<union> {fresh_of op'}" by (cases op') (auto split: option.split)
  then show ?case using Cons.IH [of "log_step l op'"] unfolding foldl.simps list.set image_insert by blast
qed simp

lemma run_stands_for:
  assumes "apart (base_dir w) A" and "\<forall>op' \<in> set ops. asset_of op' \<in> A" and "distinct (map fresh_of ops)"
  shows "stands_for w A (foldl log_step [] ops) (foldl (pstep w) new_pstore ops)"
  using assms(2,3)
proof (induction ops rule: rev_induct)
  case Nil
  then show ?case by (simp add: stands_for_new)
next
  case (snoc op' ops)
  have "fresh_of op' \<notin> fst ` set (foldl log_step [] ops)" using log_revs [of "[]" ops] snoc.prems(2) by auto
  then show ?case using pstep_stands_for [OF _ assms(1), of "foldl log_step [] ops"] snoc by simp
qed

text \<open>
  C23. The store refines an append-only log of revisions. After any saves and rollbacks with fresh
  revisions, over assets whose markers are apart: a version is loaded exactly when the log has it for
  that asset, the latest state is the document last logged, and the event history has the documents in
  the order of the log. In particular no version is ever lost or changed, and a rollback appends the
  old document as a new version.
\<close>

theorem store_refines_log:
  assumes "apart (base_dir w) A" and "\<forall>op' \<in> set ops. asset_of op' \<in> A" and "distinct (map fresh_of ops)" and "a \<in> A"
  shows "let l = foldl log_step [] ops; s = foldl (pstep w) new_pstore ops in
     load_version a r s = Inr (version_in l a r)
     \<and> load_latest w a s = (if docs_of l a = [] then None else Some (last (docs_of l a)))
     \<and> map (\<lambda>e. dict_get e ''doc'') (history w a s) = map Some (docs_of l a)"
proof -
  have s: "stands_for w A (foldl log_step [] ops) (foldl (pstep w) new_pstore ops)" using run_stands_for [OF assms(1-3)] .
  then show ?thesis using load_version_log [OF s assms(1,4)] assms(4) by (simp add: stands_for_def Let_def)
qed

definition ex_around :: surroundings where
  "ex_around = \<lparr>base_dir = ''/d'', pre = (\<lambda>p. ''0123456789''), node_size = (\<lambda>n. 0), content_digest = (\<lambda>bs. '''')\<rparr>"

definition ex_cpd :: "int \<Rightarrow> json" where
  "ex_cpd i = JDict [(''node'', JInt i)]"

definition ex_assets :: "asset set" where
  "ex_assets = {(''cpd'', ''x''), (''cpd'', ''y'')}"

lemma ex_apart: "apart (base_dir ex_around) ex_assets"
proof -
  have "\<not> is_infix (marker (''cpd'', ''x'')) (current_path ''/d'' (''cpd'', ''y''))" "\<not> is_infix (marker (''cpd'', ''y'')) (current_path ''/d'' (''cpd'', ''x''))"
    by code_simp+
  then show ?thesis by (auto simp: apart_def ex_assets_def ex_around_def KINDS_def)
qed

definition ex_ops :: "pop list" where
  "ex_ops = [Save (''cpd'', ''x'') (ex_cpd 1) ''me'' '''' ''r1'' 1, Save (''cpd'', ''y'') (ex_cpd 7) ''me'' '''' ''r2'' 2,
     Save (''cpd'', ''x'') (ex_cpd 2) ''me'' '''' ''r3'' 3, Rollback (''cpd'', ''x'') ''r1'' ''me'' ''undo'' ''r4'' 4]"

lemma ex_log: "foldl log_step [] ex_ops =
    [(''r1'', (''cpd'', ''x''), ex_cpd 1), (''r2'', (''cpd'', ''y''), ex_cpd 7), (''r3'', (''cpd'', ''x''), ex_cpd 2), (''r4'', (''cpd'', ''x''), ex_cpd 1)]"
  by (simp add: ex_ops_def validate_doc_def KINDS_def ex_cpd_def id_field_def version_in_def)

theorem store_refines_log_witness:
  "load_latest ex_around (''cpd'', ''x'') (foldl (pstep ex_around) new_pstore ex_ops) = Some (ex_cpd 1)
   \<and> load_version (''cpd'', ''x'') ''r3'' (foldl (pstep ex_around) new_pstore ex_ops) = Inr (Some (ex_cpd 2))
   \<and> load_version (''cpd'', ''x'') ''r2'' (foldl (pstep ex_around) new_pstore ex_ops) = Inr None"
proof -
  have 1: "\<forall>op' \<in> set ex_ops. asset_of op' \<in> ex_assets" "distinct (map fresh_of ex_ops)" "(''cpd'', ''x'') \<in> ex_assets"
    by (simp_all add: ex_ops_def ex_assets_def)
  from store_refines_log [OF ex_apart 1, of "''r3''"] store_refines_log [OF ex_apart 1, of "''r2''"]
  show ?thesis by (simp add: Let_def ex_log version_in_def docs_of_def)
qed

section \<open>Keys that are no file names\<close>

text \<open>An asset whose key has a slash is saved, but no version of it is ever found, so it cannot be rolled back.\<close>

lemma slash_key_lost:
  "let (s, r) = save ex_around (''cpd'', ''a/b'') (ex_cpd 1) ''me'' '''' ''r1'' 1 new_pstore
   in r = Inr ''r1'' \<and> load_latest ex_around (''cpd'', ''a/b'') s = Some (ex_cpd 1) \<and> load_version (''cpd'', ''a/b'') ''r1'' s = Inr None"
  by code_simp

text \<open>A key that continues another after its suffix shows among the other's versions.\<close>

lemma foreign_version_listed:
  "about (''cpd'', ''x'') \<lparr>m_rev = ''r'', m_ts = 0, m_message = '''', m_paths = [current_path ''/d'' (''cpd'', ''x.json.old'')], m_size = 0, m_checksum = ''''\<rparr>"
  by code_simp

end
