(* ===== verification/Channels.thy ===== *)
theory Channels
  imports Json Python_Text "HOL-Library.Sublist"
begin

text \<open>
  Message channels (\<^verbatim>\<open>obase/channel_adapter.py\<close>): the cursor of the Telegram and Slack adapters and the
  reading of their answers. The answer of a request is absent when it failed; conversions of a document
  to numbers, the text of a document and of a message identifier as a number are arguments.
\<close>

section \<open>Messages and cursors\<close>

record channel_message =
  message_id :: string
  chat :: string
  message_text :: string
  message_ts :: rat
  native :: jdict

record channel =
  channel_name :: string
  token :: string
  default_chat :: string
  api_base :: string
  cursor :: string

definition strip_slashes :: "string \<Rightarrow> string" where
  "strip_slashes s = rev (dropWhile (\<lambda>c. c = CHR ''/'') (rev s))"

definition new_telegram :: "string \<Rightarrow> string \<Rightarrow> string option \<Rightarrow> channel" where
  "new_telegram tok ch base = \<lparr>channel_name = ''telegram'', token = tok, default_chat = ch,
     api_base = strip_slashes (case base of None \<Rightarrow> ''https://api.telegram.org'' | Some b \<Rightarrow> b), cursor = ''''\<rparr>"

definition new_slack :: "string \<Rightarrow> string \<Rightarrow> string option \<Rightarrow> channel" where
  "new_slack tok ch base = \<lparr>channel_name = ''slack'', token = tok, default_chat = ch,
     api_base = strip_slashes (case base of None \<Rightarrow> ''https://slack.com/api'' | Some b \<Rightarrow> b), cursor = ''''\<rparr>"

definition configured :: "channel \<Rightarrow> bool" where
  "configured c \<longleftrightarrow> token c \<noteq> ''''"

definition channel_metadata :: "channel \<Rightarrow> jdict" where
  "channel_metadata c = [(''adapter'', JStr (channel_name c)), (''configured'', JBool (configured c)),
     (''default_chat'', JStr (default_chat c)), (''cursor'', JStr (cursor c))]"

section \<open>Sending\<close>

definition telegram_url :: "channel \<Rightarrow> string \<Rightarrow> string" where
  "telegram_url c m = api_base c @ ''/bot'' @ token c @ ''/'' @ m"

definition recipient :: "channel \<Rightarrow> string \<Rightarrow> string" where
  "recipient c to = (if to = '''' then default_chat c else to)"

text \<open>The request of a send, if there is one, and what the send answers for its reply.\<close>

definition telegram_send :: "channel \<Rightarrow> string \<Rightarrow> string \<Rightarrow> (string \<times> jdict) option" where
  "telegram_send c to txt = (if \<not> configured c \<or> txt = '''' then None
     else Some (telegram_url c ''sendMessage'', [(''chat_id'', JStr (recipient c to)), (''text'', JStr txt)]))"

definition telegram_sent :: "unit option \<Rightarrow> bool" where
  "telegram_sent r = (r \<noteq> None)"

definition slack_send :: "channel \<Rightarrow> string \<Rightarrow> string \<Rightarrow> (string \<times> jdict) option" where
  "slack_send c to txt = (if \<not> configured c \<or> txt = '''' then None
     else Some (api_base c @ ''/chat.postMessage'', [(''channel'', JStr (recipient c to)), (''text'', JStr txt)]))"

definition slack_sent :: "json option \<Rightarrow> bool" where
  "slack_sent r = (case r of Some (JDict d) \<Rightarrow> truthy (get_json ''ok'' (JBool False) d) | _ \<Rightarrow> False)"

section \<open>Telegram: polling and acknowledging\<close>

datatype channel_error = Bad_answer

record readers =
  shown :: "json \<Rightarrow> string"
  to_int :: "json \<Rightarrow> int option"
  to_float :: "json \<Rightarrow> rat option"
  parse_int :: "string \<Rightarrow> int option"

definition telegram_params :: "int \<Rightarrow> channel \<Rightarrow> jdict" where
  "telegram_params limit c = [(''limit'', JInt limit), (''timeout'', JInt 0)]
     @ (if cursor c = '''' then [] else [(''offset'', JStr (cursor c))])"

definition object :: "json \<Rightarrow> channel_error + jdict" where
  "object j = (case j of JDict d \<Rightarrow> Inr d | _ \<Rightarrow> Inl Bad_answer)"

definition telegram_message :: "readers \<Rightarrow> json \<Rightarrow> channel_error + channel_message" where
  "telegram_message rd u = bindE (object u) (\<lambda>d.
     bindE (object (py_or (py_or (get_json ''message'' JNull d) (get_json ''edited_message'' JNull d)) (JDict []))) (\<lambda>m.
     bindE (object (get_json ''chat'' (JDict []) m)) (\<lambda>ch.
     case to_float rd (get_json ''date'' (JInt 0) m) of None \<Rightarrow> Inl Bad_answer
     | Some t \<Rightarrow> Inr \<lparr>message_id = str_of (shown rd) (get_json ''update_id'' (JStr '''') d),
         chat = str_of (shown rd) (get_json ''id'' (JStr '''') ch), message_text = str_of (shown rd) (get_json ''text'' (JStr '''') m),
         message_ts = t, native = d\<rparr>)))"

definition update_number :: "readers \<Rightarrow> json \<Rightarrow> channel_error + int" where
  "update_number rd u = bindE (object u) (\<lambda>d. case to_int rd (get_json ''update_id'' (JInt 0) d) of
     None \<Rightarrow> Inl Bad_answer | Some n \<Rightarrow> Inr n)"

text \<open>The answer is the field \<open>result\<close>; a failed request or an answer that is no object gives no messages.\<close>

definition telegram_receive :: "readers \<Rightarrow> json option \<Rightarrow> channel \<Rightarrow> channel_error + channel \<times> channel_message list" where
  "telegram_receive rd r c =
     (if \<not> configured c then Inr (c, [])
      else case r of
        Some (JDict d) \<Rightarrow>
          let u = get_json ''result'' (JList []) d in
          (case u of
             JList us \<Rightarrow> bindE (mapE (telegram_message rd) us) (\<lambda>ms.
               if us = [] then Inr (c, ms)
               else bindE (mapE (update_number rd) us) (\<lambda>ns. Inr (c\<lparr>cursor := str_int (Max (set ns) + 1)\<rparr>, ms)))
           | _ \<Rightarrow> if truthy u then Inl Bad_answer else Inr (c, []))
      | _ \<Rightarrow> Inr (c, []))"

definition telegram_ack :: "readers \<Rightarrow> string \<Rightarrow> channel \<Rightarrow> channel_error + channel \<times> bool" where
  "telegram_ack rd mid c =
     (if mid = '''' then Inr (c, False)
      else case parse_int rd mid of None \<Rightarrow> Inr (c, False)
      | Some n \<Rightarrow>
          if cursor c = '''' then Inr (c\<lparr>cursor := str_int (n + 1)\<rparr>, True)
          else case parse_int rd (cursor c) of None \<Rightarrow> Inl Bad_answer
          | Some o' \<Rightarrow> Inr (if n + 1 > o' then c\<lparr>cursor := str_int (n + 1)\<rparr> else c, True))"

section \<open>Slack: polling and acknowledging\<close>

definition slack_params :: "int \<Rightarrow> channel \<Rightarrow> jdict" where
  "slack_params limit c = [(''channel'', JStr (default_chat c)), (''limit'', JInt limit)]
     @ (if cursor c = '''' then [] else [(''oldest'', JStr (cursor c))])"

definition slack_message :: "readers \<Rightarrow> string \<Rightarrow> rat \<Rightarrow> jdict \<Rightarrow> channel_message" where
  "slack_message rd ch now d = \<lparr>message_id = str_of (shown rd) (get_json ''ts'' (JStr '''') d), chat = ch,
     message_text = str_of (shown rd) (get_json ''text'' (JStr '''') d), message_ts = now, native = d\<rparr>"

definition objects_in :: "json list \<Rightarrow> jdict list" where
  "objects_in js = concat (map (\<lambda>j. case j of JDict d \<Rightarrow> [d] | _ \<Rightarrow> []) js)"

text \<open>Keys of an object and characters of a text are no objects, so they give no messages.\<close>

definition slack_receive :: "readers \<Rightarrow> rat \<Rightarrow> json option \<Rightarrow> channel \<Rightarrow> channel_error + channel \<times> channel_message list" where
  "slack_receive rd now r c =
     (if \<not> configured c then Inr (c, [])
      else case r of
        Some (JDict d) \<Rightarrow>
          if \<not> truthy (get_json ''ok'' (JBool False) d) then Inr (c, [])
          else (case get_json ''messages'' (JList []) d of
            JList js \<Rightarrow>
              let ms = map (slack_message rd (default_chat c) now) (objects_in js)
              in Inr (if ms = [] then c else c\<lparr>cursor := message_id (hd ms)\<rparr>, ms)
          | JDict _ \<Rightarrow> Inr (c, [])
          | JStr _ \<Rightarrow> Inr (c, [])
          | _ \<Rightarrow> Inl Bad_answer)
      | _ \<Rightarrow> Inr (c, []))"

definition slack_ack :: "string \<Rightarrow> channel \<Rightarrow> channel \<times> bool" where
  "slack_ack mid c = (if mid = '''' then (c, False) else (c\<lparr>cursor := mid\<rparr>, True))"

text \<open>Both adapters are registered by name, those that have a configuration, replacing earlier ones.\<close>

definition register_channel_adapters :: "channel option \<Rightarrow> channel option \<Rightarrow> (string, channel) dict \<Rightarrow> (string, channel) dict \<times> string list" where
  "register_channel_adapters tg sl reg =
     (let as = concat (map (\<lambda>a. case a of None \<Rightarrow> [] | Some c \<Rightarrow> [c]) [tg, sl])
      in (foldl (\<lambda>rg c. dict_set (channel_name c) c rg) reg as, map channel_name as))"

section \<open>Polling a server\<close>

text \<open>
  The documented behaviour of \<open>getUpdates\<close>: the updates the server holds whose number is at least the
  offset, in order, at most \<open>limit\<close> of them. A poll fails (\<open>None\<close>) or meets a server that has received the
  first \<open>n\<close> of its updates.
\<close>

definition due :: "readers \<Rightarrow> channel \<Rightarrow> json \<Rightarrow> bool" where
  "due rd c u = (cursor c = '''' \<or> (case parse_int rd (cursor c) of None \<Rightarrow> False
     | Some o' \<Rightarrow> (case update_number rd u of Inl _ \<Rightarrow> False | Inr n \<Rightarrow> o' \<le> n)))"

definition get_updates :: "readers \<Rightarrow> json list \<Rightarrow> nat \<Rightarrow> channel \<Rightarrow> nat option \<Rightarrow> json option" where
  "get_updates rd us limit c s = (case s of None \<Rightarrow> None
     | Some n \<Rightarrow> Some (JDict [(''result'', JList (take limit (filter (due rd c) (take n us))))]))"

primrec telegram_polls :: "readers \<Rightarrow> json list \<Rightarrow> nat \<Rightarrow> nat option list \<Rightarrow> channel \<Rightarrow> channel_error + channel \<times> channel_message list" where
  "telegram_polls rd us limit [] c = Inr (c, [])"
| "telegram_polls rd us limit (s # ss) c =
     bindE (telegram_receive rd (get_updates rd us limit c s) c) (\<lambda>(c1, ms).
     bindE (telegram_polls rd us limit ss c1) (\<lambda>(c2, ms'). Inr (c2, ms @ ms')))"

text \<open>Reading back the decimal text of an integer.\<close>

definition digits_value :: "string \<Rightarrow> nat" where
  "digits_value s = foldl (\<lambda>v c. 10 * v + (of_char c - 48)) 0 s"

definition decimal_value :: "string \<Rightarrow> int" where
  "decimal_value s = (case s of [] \<Rightarrow> 0 | c # cs \<Rightarrow> if c = CHR ''-'' then - int (digits_value cs) else int (digits_value s))"

lemma digits_value_str: "digits_value (str_nat n) = n"
proof (induction n rule: str_nat.induct)
  case (1 n)
  then show ?case by (subst str_nat.simps) (auto simp: digits_value_def)
qed

lemma str_nat_head: "str_nat n \<noteq> [] \<and> hd (str_nat n) \<noteq> CHR ''-''"
proof (induction n rule: str_nat.induct)
  case (1 n)
  have "char_of (48 + n) \<noteq> CHR ''-''" if "n < 10"
  proof
    assume "char_of (48 + n) = CHR ''-''"
    then have "of_char (char_of (48 + n) :: char) = (45 :: nat)" by simp
    with that show False by simp
  qed
  with 1 show ?case by (subst (1 2) str_nat.simps) auto
qed

lemma decimal_value_str: "decimal_value (str_int n) = n"
proof (cases "n < 0")
  case True
  then show ?thesis by (simp add: decimal_value_def str_int_def digits_value_str)
next
  case False
  with str_nat_head [of "nat n"] digits_value_str [of "nat n"] show ?thesis
    by (cases "str_nat (nat n)") (auto simp: decimal_value_def str_int_def)
qed

text \<open>How many updates have been delivered after some polls.\<close>

definition delivered :: "json list \<Rightarrow> nat \<Rightarrow> nat option list \<Rightarrow> nat \<Rightarrow> nat" where
  "delivered us limit ss k = foldl (\<lambda>k s. case s of None \<Rightarrow> k
     | Some n \<Rightarrow> max k (min (min n (length us)) (k + limit))) k ss"

definition number_of :: "readers \<Rightarrow> json \<Rightarrow> int" where
  "number_of rd u = (case update_number rd u of Inl _ \<Rightarrow> 0 | Inr n \<Rightarrow> n)"

definition readable :: "readers \<Rightarrow> json \<Rightarrow> bool" where
  "readable rd u = (telegram_message rd u \<noteq> Inl Bad_answer \<and> update_number rd u \<noteq> Inl Bad_answer)"

definition ids_ascend :: "readers \<Rightarrow> json list \<Rightarrow> bool" where
  "ids_ascend rd us = (list_all (readable rd) us \<and> sorted_wrt (<) (map (number_of rd) us))"

definition message_of :: "readers \<Rightarrow> json \<Rightarrow> channel_message" where
  "message_of rd u = (case telegram_message rd u of Inr m \<Rightarrow> m
     | Inl _ \<Rightarrow> \<lparr>message_id = '''', chat = '''', message_text = '''', message_ts = 0, native = []\<rparr>)"

definition cursor_after :: "readers \<Rightarrow> json list \<Rightarrow> nat \<Rightarrow> string" where
  "cursor_after rd us k = (if k = 0 then '''' else str_int (number_of rd (us ! (k - 1)) + 1))"

lemma readableD:
  assumes "readable rd u"
  shows "telegram_message rd u = Inr (message_of rd u)" "update_number rd u = Inr (number_of rd u)"
proof -
  have e: "(x :: channel_error) = Bad_answer" for x by (cases x)
  show "telegram_message rd u = Inr (message_of rd u)"
    using assms e by (cases "telegram_message rd u") (auto simp: readable_def message_of_def)
  show "update_number rd u = Inr (number_of rd u)"
    using assms e by (cases "update_number rd u") (auto simp: readable_def number_of_def)
qed

lemma due_numbers:
  assumes rt: "\<And>n. parse_int rd (str_int n) = Some n" and k: "k \<le> length us" and asc: "ids_ascend rd us"
    and cu: "cursor c = cursor_after rd us k" and ne: "\<And>n. str_int n \<noteq> ''''"
  shows "filter (due rd c) (take n us) = drop k (take n us)"
proof (cases "k = 0")
  case True
  then show ?thesis using cu by (simp add: due_def cursor_after_def)
next
  case False
  have srt: "sorted_wrt (<) (map (number_of rd) us)" and rdb: "\<And>u. u \<in> set us \<Longrightarrow> readable rd u"
    using asc by (auto simp: ids_ascend_def list_all_iff)
  have lt: "number_of rd (us ! i) < number_of rd (us ! j)" if "i < j" "j < length us" for i j
    using srt that by (auto simp: sorted_wrt_iff_nth_less)
  have d: "due rd c u \<longleftrightarrow> number_of rd (us ! (k - 1)) < number_of rd u" if "u \<in> set us" for u
    using False cu that ne rt readableD(2) [OF rdb [OF that]] by (simp add: due_def cursor_after_def add1_zle_eq)
  have lo: "filter (due rd c) (take k (take n us)) = []"
  proof (rule filter_False, rule ballI)
    fix u assume u: "u \<in> set (take k (take n us))"
    then obtain i where i: "i < k" "i < length us" "u = us ! i" by (auto simp: in_set_conv_nth)
    then consider "i = k - 1" | "i < k - 1" "k - 1 < length us" using k False by linarith
    then have "number_of rd u \<le> number_of rd (us ! (k - 1))"
      using lt i(3) by cases (auto intro: less_imp_le)
    with d [of u] i show "\<not> due rd c u" by auto
  qed
  have hi: "filter (due rd c) (drop k (take n us)) = drop k (take n us)"
  proof (rule filter_True, rule ballI)
    fix u assume u: "u \<in> set (drop k (take n us))"
    then obtain i where i: "i < length us - k" "u = us ! (k + i)" by (auto simp: in_set_conv_nth drop_take)
    with d [of u] lt [of "k - 1" "k + i"] False show "due rd c u" by auto
  qed
  have "filter (due rd c) (take n us) = filter (due rd c) (take k (take n us)) @ filter (due rd c) (drop k (take n us))"
    by (metis append_take_drop_id filter_append)
  with lo hi show ?thesis by simp
qed

lemma mapE_readable:
  assumes "\<And>u. u \<in> set us \<Longrightarrow> readable rd u"
  shows "mapE (telegram_message rd) us = Inr (map (message_of rd) us)" "mapE (update_number rd) us = Inr (map (number_of rd) us)"
  using assms by (induction us) (auto simp: readableD)

lemma Max_last:
  fixes xs :: "int list"
  assumes "sorted_wrt (<) xs" "xs \<noteq> []"
  shows "Max (set xs) = last xs"
proof (rule Max_eqI)
  fix y assume "y \<in> set xs"
  then obtain i where "i < length xs" "y = xs ! i" by (auto simp: in_set_conv_nth)
  with assms show "y \<le> last xs"
    by (cases "i = length xs - 1") (auto simp: last_conv_nth sorted_wrt_iff_nth_less intro: less_imp_le)
qed (use assms in auto)

text \<open>One poll delivers the next updates the server has, up to the limit.\<close>

lemma poll_step:
  assumes rt: "\<And>n. parse_int rd (str_int n) = Some n" and ne: "\<And>n. str_int n \<noteq> ''''"
    and k: "k \<le> length us" and asc: "ids_ascend rd us" and cf: "configured c" and cu: "cursor c = cursor_after rd us k"
  shows "telegram_receive rd (get_updates rd us limit c s) c
     = Inr (c\<lparr>cursor := cursor_after rd us (delivered us limit [s] k)\<rparr>,
            map (message_of rd) (drop k (take (delivered us limit [s] k) us)))"
proof (cases s)
  case None
  then show ?thesis using cf cu k by (simp add: telegram_receive_def get_updates_def delivered_def)
next
  case (Some n)
  define ds where "ds = take limit (drop k (take n us))"
  have g: "get_updates rd us limit c s = Some (JDict [(''result'', JList ds)])"
    by (simp add: get_updates_def Some ds_def due_numbers [OF rt k asc cu ne])
  define k' where "k' = delivered us limit [s] k"
  have k': "k' = max k (min (min n (length us)) (k + limit))" by (simp add: k'_def delivered_def Some)
  have ds: "ds = drop k (take k' us)"
  proof (rule nth_equalityI)
    fix i assume "i < length ds"
    then show "ds ! i = drop k (take k' us) ! i"
      using k by (auto simp: ds_def k' drop_take)
  qed (auto simp: ds_def k')
  have rdb: "\<And>u. u \<in> set ds \<Longrightarrow> readable rd u"
    using asc by (auto simp: ids_ascend_def list_all_iff ds dest!: in_set_dropD in_set_takeD)
  have mx: "Max (set (map (number_of rd) ds)) = number_of rd (us ! (k' - 1))" if "ds \<noteq> []"
  proof -
    have "sorted_wrt (<) (map (number_of rd) ds)"
      using asc by (simp add: ids_ascend_def ds drop_map [symmetric] take_map [symmetric] sorted_wrt_drop sorted_wrt_take)
    from Max_last [OF this] that have "Max (set (map (number_of rd) ds)) = number_of rd (last ds)" by (simp add: last_map)
    moreover have "last ds = last (take k' us)"       unfolding ds by (rule last_drop) (use that in \<open>auto simp: ds not_le simp del: drop_take\<close>)
    moreover have "\<dots> = us ! (k' - 1)"
    proof (subst last_conv_nth)
      show "take k' us \<noteq> []" using that by (auto simp: ds)
      have "k' \<le> length us" using k by (simp add: k')
      moreover have "0 < k'" using that by (auto simp: ds)
      ultimately show "take k' us ! (length (take k' us) - 1) = us ! (k' - 1)" by simp
    qed
    ultimately show ?thesis by simp
  qed
  have kk: "ds = [] \<longleftrightarrow> k' = k" using k by (auto simp: ds k')
  have "telegram_receive rd (Some (JDict [(''result'', JList ds)])) c = Inr (c\<lparr>cursor := cursor_after rd us k'\<rparr>, map (message_of rd) ds)"
  proof (cases "ds = []")
    case True
    with kk cf cu show ?thesis by (simp add: telegram_receive_def get_json_def)
  next
    case False
    with kk k' have "k' \<noteq> 0" by auto
    with False cf mx [OF False] show ?thesis
      by (simp add: telegram_receive_def get_json_def mapE_readable [OF rdb] cursor_after_def del: set_map)
  qed
  then show ?thesis by (simp add: g ds k'_def)
qed

lemma str_int_nonempty: "str_int n \<noteq> ''''"
  using str_nat_head by (simp add: str_int_def)

lemma delivered_cons: "delivered us limit (s # ss) k = delivered us limit ss (delivered us limit [s] k)"
  by (simp add: delivered_def)

lemma delivered_bounds:
  assumes "k \<le> length us"
  shows "k \<le> delivered us limit ss k \<and> delivered us limit ss k \<le> length us"
  using assms
proof (induction ss arbitrary: k)
  case (Cons s ss)
  have "k \<le> delivered us limit [s] k \<and> delivered us limit [s] k \<le> length us"
    using Cons.prems by (cases s) (auto simp: delivered_def)
  with Cons.IH [of "delivered us limit [s] k"] show ?case by (auto simp: delivered_cons [of _ _ s ss])
qed (simp add: delivered_def)

lemma polls_from:
  assumes rt: "\<And>n. parse_int rd (str_int n) = Some n" and asc: "ids_ascend rd us"
    and "k \<le> length us" "configured c" "cursor c = cursor_after rd us k"
  shows "telegram_polls rd us limit ss c = Inr (c\<lparr>cursor := cursor_after rd us (delivered us limit ss k)\<rparr>,
           map (message_of rd) (drop k (take (delivered us limit ss k) us)))"
  using assms(3-)
proof (induction ss arbitrary: k c)
  case Nil
  then show ?case by (simp add: delivered_def)
next
  case (Cons s ss)
  define k1 where "k1 = delivered us limit [s] k"
  define k2 where "k2 = delivered us limit ss k1"
  have b: "k \<le> k1" "k1 \<le> k2" "k2 \<le> length us"
    using delivered_bounds [OF Cons.prems(1)] delivered_bounds [of k1 us] by (simp_all add: k1_def k2_def)
  have "drop k (take k2 us) = drop k (take k1 us) @ drop k1 (take k2 us)"
    using b by (metis append_take_drop_id diff_is_0_eq drop_append drop_eq_Nil2 drop_0 length_take min.absorb2 min.orderE take_take)
  with Cons.IH [of k1 "c\<lparr>cursor := cursor_after rd us k1\<rparr>"] b Cons.prems
  show ?case
    by (simp add: poll_step [OF rt str_int_nonempty Cons.prems(1) asc Cons.prems(2,3)] k1_def [symmetric] configured_def
        delivered_cons [of _ _ s ss] k2_def [symmetric])
qed

text \<open>
  Sequential Telegram polls deliver the server's updates in order, each exactly once, whatever
  polls fail in between: from a fresh adapter the messages are those of the first
  \<open>delivered\<close> updates, a successful poll moves that number to the smaller of what the server has and
  \<open>limit\<close> more, and the cursor is one past the last update delivered.
\<close>

theorem telegram_polls_exactly_once:
  assumes "\<And>n. parse_int rd (str_int n) = Some n" and "ids_ascend rd us" and "tok \<noteq> ''''"
  shows "telegram_polls rd us limit ss (new_telegram tok ch base)
    = Inr ((new_telegram tok ch base)\<lparr>cursor := cursor_after rd us (delivered us limit ss 0)\<rparr>,
           map (message_of rd) (take (delivered us limit ss 0) us))"
  using polls_from [OF assms(1,2), of 0 "new_telegram tok ch base"] assms(3)
  by (simp add: configured_def new_telegram_def cursor_after_def)

definition sample_readers :: readers where
  "sample_readers = \<lparr>shown = (\<lambda>j. case j of JInt n \<Rightarrow> str_int n | _ \<Rightarrow> ''''),
     to_int = (\<lambda>j. case j of JInt n \<Rightarrow> Some n | _ \<Rightarrow> None),
     to_float = (\<lambda>j. case j of JInt n \<Rightarrow> Some (of_int n) | _ \<Rightarrow> None), parse_int = (\<lambda>s. Some (decimal_value s))\<rparr>"

definition sample_updates :: "json list" where
  "sample_updates = map (\<lambda>n. JDict [(''update_id'', JInt n),
     (''message'', JDict [(''text'', JStr ''hello''), (''chat'', JDict [(''id'', JInt 5)])])]) [7, 9, 12]"

lemma sample_updates_ascend: "ids_ascend sample_readers sample_updates"
  by (simp add: ids_ascend_def sample_updates_def readable_def number_of_def update_number_def telegram_message_def
      object_def get_json_def py_or_def sample_readers_def)

theorem telegram_polls_exactly_once_witness:
  "telegram_polls sample_readers sample_updates 2 [Some 1, None, Some 3, Some 3] (new_telegram ''t'' ''5'' None)
    = Inr ((new_telegram ''t'' ''5'' None)\<lparr>cursor := ''13''\<rparr>, map (message_of sample_readers) sample_updates)"
proof -
  have "delivered sample_updates 2 [Some 1, None, Some 3, Some 3] 0 = 3" by (simp add: delivered_def sample_updates_def)
  moreover have "cursor_after sample_readers sample_updates 3 = ''13''" by code_simp
  moreover have "take 3 sample_updates = sample_updates" by (simp add: sample_updates_def)
  ultimately show ?thesis
    using telegram_polls_exactly_once [OF _ sample_updates_ascend, of "''t''" 2 "[Some 1, None, Some 3, Some 3]" "''5''" None]
    by (simp add: sample_readers_def decimal_value_str)
qed

text \<open>
  Acknowledging never moves the Telegram cursor back, and acknowledging what a poll has already
  delivered changes nothing; a message identifier that is no number is refused without a change.
\<close>

theorem telegram_ack_monotone:
  "case telegram_ack rd mid c of
     Inl _ \<Rightarrow> cursor c \<noteq> '''' \<and> parse_int rd (cursor c) = None
   | Inr (c', ok) \<Rightarrow>
       (ok = (mid \<noteq> '''' \<and> parse_int rd mid \<noteq> None)) \<and>
       (c' = c \<or> (\<exists>n. parse_int rd mid = Some n \<and> c' = c\<lparr>cursor := str_int (n + 1)\<rparr>
                 \<and> (cursor c = '''' \<or> (\<exists>o'. parse_int rd (cursor c) = Some o' \<and> o' < n + 1))))"
  by (auto simp: telegram_ack_def split: option.splits if_splits)

text \<open>
  One update that cannot be read, here one whose \<open>message\<close> is a text, makes every poll that receives it
  raise, and the cursor stays: no later message is ever delivered.
\<close>

theorem one_unreadable_update_blocks:
  assumes "configured c" and "u \<in> set us" and "telegram_message rd u = Inl Bad_answer"
  shows "telegram_receive rd (Some (JDict [(''result'', JList us)])) c = Inl Bad_answer"
proof -
  have "mapE (telegram_message rd) us = Inl Bad_answer"
    using assms(2,3)
  proof (induction us)
    case (Cons v us)
    have "e = Bad_answer" for e :: channel_error by (cases e)
    with Cons show ?case by (cases "telegram_message rd v") auto
  qed simp
  with assms(1) show ?thesis by (simp add: telegram_receive_def get_json_def)
qed

theorem one_unreadable_update_blocks_witness:
  "telegram_receive sample_readers (Some (JDict [(''result'', JList (sample_updates @
      [JDict [(''update_id'', JInt 13), (''message'', JStr ''x'')]]))])) (new_telegram ''t'' ''5'' None) = Inl Bad_answer"
  by (rule one_unreadable_update_blocks [of _ "JDict [(''update_id'', JInt 13), (''message'', JStr ''x'')]"])
     (simp_all add: configured_def new_telegram_def telegram_message_def object_def get_json_def py_or_def truthy.simps)

text \<open>
  A poll whose answer was computed before an acknowledgement moves the cursor back when it arrives: the
  receive stores its own maximum whatever the cursor has become.
\<close>

lemma receive_overwrites_acknowledged_cursor:
  "let c0 = new_telegram ''t'' ''5'' None;
       c1 = c0\<lparr>cursor := ''100''\<rparr>
   in telegram_ack sample_readers ''99'' c0 = Inr (c1, True)
      \<and> map_sum id (\<lambda>r. cursor (fst r)) (telegram_receive sample_readers (Some (JDict [(''result'', JList sample_updates)])) c1) = Inr ''13''"
  by code_simp

text \<open>
  Slack answers newest first. With more new messages than the limit, the poll takes the newest and moves the
  cursor past the others, which no later poll asks for; acknowledging an old message moves it back.
\<close>

lemma objects_in_cons: "objects_in (JDict d # js) = d # objects_in js"
  by (simp add: objects_in_def)

lemma objects_in_dicts: "objects_in (map (\<lambda>t. JDict (f t)) xs) = map f xs"
  by (induction xs) (auto simp: objects_in_def)

lemma slack_cursor_follows_newest:
  assumes "configured c" and "limit \<ge> 1" and "length (ts # tss) > limit"
  shows "map_sum id (\<lambda>r. (cursor (fst r), length (snd r)))
     (slack_receive rd now (Some (JDict [(''ok'', JBool True),
        (''messages'', JList (take limit (map (\<lambda>t. JDict [(''ts'', JStr t)]) (ts # tss))))])) c)
     = Inr (ts, limit)"
  using assms
  by (cases limit) (auto simp: slack_receive_def get_json_def truthy.simps Let_def slack_message_def
      take_map objects_in_cons objects_in_dicts str_of_def)

lemma slack_ack_moves_back: "slack_ack ''1.0'' (c\<lparr>cursor := ''2.0''\<rparr>) = (c\<lparr>cursor := ''1.0''\<rparr>, True)"
  by (simp add: slack_ack_def)

end
