(* ===== verification/HierarchicalContext.thy ===== *)
theory HierarchicalContext
  imports Json Python_Text "HOL-Library.Sublist" "HOL-Library.Char_ord" "HOL-Library.List_Lexorder"
begin

text \<open>
  The layered context store (\<^verbatim>\<open>obase/hierarchical_context.py\<close>) with the token estimate
  (\<^verbatim>\<open>obase/token_counter.py\<close>) and the path jail it stores under. A path is the list of its components.
  Resolving links is an argument; the tree records files with their text and folders. Scores are rationals.
\<close>

section \<open>Files and folders\<close>

type_synonym path = "string list"

record tree =
  texts :: "(path, string) dict"
  folders :: "path list"

datatype layer = L0 | L1 | L2

datatype ctx_error = Not_a_uri string | Path_escaped string | Budget_exceeded layer int int
  | Layer_missing layer string | Os_error path

definition path_taken :: "tree \<Rightarrow> path \<Rightarrow> bool" where
  "path_taken t p = (dict_get (texts t) p \<noteq> None \<or> p \<in> set (folders t))"

text \<open>\<^verbatim>\<open>mkdir(parents=True, exist_ok=True)\<close> fails exactly when the path or one above it is a file.\<close>

definition make_folders :: "path \<Rightarrow> tree \<Rightarrow> ctx_error + tree" where
  "make_folders p t =
     (if list_ex (\<lambda>q. dict_get (texts t) q \<noteq> None) (prefixes p) then Inl (Os_error p)
      else Inr (t\<lparr>folders := folders t @ filter (\<lambda>q. q \<notin> set (folders t)) (prefixes p)\<rparr>))"

definition write_text :: "path \<Rightarrow> string \<Rightarrow> tree \<Rightarrow> ctx_error + tree" where
  "write_text p s t = (if p \<in> set (folders t) then Inl (Os_error p) else Inr (t\<lparr>texts := dict_set p s (texts t)\<rparr>))"

definition store_text :: "path \<Rightarrow> string \<Rightarrow> tree \<Rightarrow> ctx_error + tree" where
  "store_text p s t = bindE (make_folders (butlast p) t) (write_text p s)"

section \<open>Addresses\<close>

record ctx_place =
  ctx_root :: path
  resolve :: "path \<Rightarrow> path"

definition L0_MAX_TOKENS :: int where "L0_MAX_TOKENS = 120"
definition L1_MAX_TOKENS :: int where "L1_MAX_TOKENS = 2048"

definition token_counter :: "string \<Rightarrow> int" where
  "token_counter s = (if s = '''' then 0 else max 1 (int (length s) div 4))"

definition strip_scheme :: "string \<Rightarrow> ctx_error + string" where
  "strip_scheme uri = (if \<not> has_prefix uri ''3o://'' then Inl (Not_a_uri uri) else Inr (drop 5 uri))"

definition path_parts :: "string \<Rightarrow> path" where
  "path_parts s = filter (\<lambda>p. p \<noteq> '''' \<and> p \<noteq> ''.'') (split_on (CHR ''/'') s)"

definition locate :: "ctx_place \<Rightarrow> string \<Rightarrow> ctx_error + path" where
  "locate pl uri = bindE (strip_scheme uri) (\<lambda>s.
     let r = resolve pl (if has_prefix s ''/'' then path_parts s else ctx_root pl @ path_parts s)
     in if take (length (ctx_root pl)) r = ctx_root pl then Inr r else Inl (Path_escaped s))"

fun layer_suffix :: "layer \<Rightarrow> string" where
  "layer_suffix L0 = ''.abstract''"
| "layer_suffix L1 = ''.overview''"
| "layer_suffix L2 = ''''"

definition base_name :: "path \<Rightarrow> string" where
  "base_name p = (if p = [] then '''' else last p)"

definition sidecar :: "path \<Rightarrow> layer \<Rightarrow> path" where
  "sidecar p l = butlast p @ [base_name p @ layer_suffix l]"

definition target :: "ctx_place \<Rightarrow> string \<Rightarrow> layer \<Rightarrow> ctx_error + path" where
  "target pl uri l = map_sum id (\<lambda>p. if l = L2 then p else sidecar p l) (locate pl uri)"

section \<open>Writing and reading\<close>

text \<open>Every operation answers the tree it leaves and the error it raised, if it did.\<close>

type_synonym ctx_result = "tree \<times> ctx_error option"

definition kept :: "tree \<Rightarrow> ctx_error + tree \<Rightarrow> ctx_result" where
  "kept t r = (case r of Inl e \<Rightarrow> (t, Some e) | Inr t' \<Rightarrow> (t', None))"

definition write_layer :: "ctx_place \<Rightarrow> string \<Rightarrow> layer \<Rightarrow> string \<Rightarrow> int \<Rightarrow> tree \<Rightarrow> ctx_result" where
  "write_layer pl uri l s limit t =
     (let n = token_counter s in
      if n > limit then (t, Some (Budget_exceeded l limit n))
      else kept t (bindE (target pl uri l) (\<lambda>p. store_text p s t)))"

definition set_abstract :: "ctx_place \<Rightarrow> string \<Rightarrow> string \<Rightarrow> tree \<Rightarrow> ctx_result" where
  "set_abstract pl uri s t = write_layer pl uri L0 s L0_MAX_TOKENS t"

definition set_overview :: "ctx_place \<Rightarrow> string \<Rightarrow> string \<Rightarrow> tree \<Rightarrow> ctx_result" where
  "set_overview pl uri s t = write_layer pl uri L1 s L1_MAX_TOKENS t"

definition and_then :: "ctx_result \<Rightarrow> (tree \<Rightarrow> ctx_result) \<Rightarrow> ctx_result" where
  "and_then r k = (case snd r of Some e \<Rightarrow> r | None \<Rightarrow> k (fst r))"

definition write_body :: "ctx_place \<Rightarrow> string \<Rightarrow> string \<Rightarrow> string option \<Rightarrow> string option \<Rightarrow> tree \<Rightarrow> ctx_result" where
  "write_body pl uri content abstract overview t =
     and_then (and_then (kept t (bindE (locate pl uri) (\<lambda>p. store_text p content t)))
       (\<lambda>t. case abstract of None \<Rightarrow> (t, None) | Some a \<Rightarrow> set_abstract pl uri a t))
       (\<lambda>t. case overview of None \<Rightarrow> (t, None) | Some v \<Rightarrow> set_overview pl uri v t)"

definition read :: "ctx_place \<Rightarrow> string \<Rightarrow> layer \<Rightarrow> tree \<Rightarrow> ctx_error + string" where
  "read pl uri l t = bindE (target pl uri l) (\<lambda>p.
     if \<not> path_taken t p then Inl (Layer_missing l uri)
     else case dict_get (texts t) p of None \<Rightarrow> Inl (Os_error p) | Some s \<Rightarrow> Inr s)"

definition layer_exists :: "ctx_place \<Rightarrow> string \<Rightarrow> layer \<Rightarrow> tree \<Rightarrow> ctx_error + bool" where
  "layer_exists pl uri l t = map_sum id (path_taken t) (target pl uri l)"

text \<open>A name's suffix starts at its last dot, unless that is its first or last character.\<close>

definition suffix_of :: "string \<Rightarrow> string" where
  "suffix_of s = (let ext = takeWhile (\<lambda>c. c \<noteq> CHR ''.'') (rev s)
     in if ext = [] \<or> length s \<le> length ext + 1 then '''' else CHR ''.'' # rev ext)"

definition uri_of :: "ctx_place \<Rightarrow> path \<Rightarrow> string" where
  "uri_of pl p = ''3o://'' @ join_with (CHR ''/'') (drop (length (ctx_root pl)) p)"

definition list_uris :: "ctx_place \<Rightarrow> string \<Rightarrow> tree \<Rightarrow> ctx_error + string list" where
  "list_uris pl pre t = map_sum id (\<lambda>base.
     if dict_get (texts t) base \<noteq> None then [pre]
     else if base \<notin> set (folders t) then []
     else map (uri_of pl) (filter (\<lambda>p. suffix_of (base_name p) \<notin> {''.abstract'', ''.overview''})
            (sort (filter (strict_prefix base) (map fst (texts t)))))) (locate pl pre)"

section \<open>Retrieving\<close>

record retrieval_step =
  step_uri :: string
  step_layer :: layer
  step_score :: rat
  step_reason :: string

type_synonym scored = "rat \<times> string \<times> layer \<times> string"

record gathered =
  trajectory :: "retrieval_step list"
  scored_items :: "scored list"
  tokens_used :: int

definition consider_uri :: "ctx_place \<Rightarrow> tree \<Rightarrow> string \<Rightarrow> (string \<Rightarrow> string \<Rightarrow> rat) \<Rightarrow> rat \<Rightarrow> string \<Rightarrow> gathered \<Rightarrow> ctx_error + gathered" where
  "consider_uri pl t query scorer threshold uri g =
     bindE (layer_exists pl uri L0 t) (\<lambda>there.
     if \<not> there then Inr (g\<lparr>trajectory := trajectory g @ [\<lparr>step_uri = uri, step_layer = L0, step_score = 0, step_reason = ''no L0 abstract''\<rparr>]\<rparr>)
     else bindE (read pl uri L0 t) (\<lambda>s0.
       let score0 = scorer query s0;
           g0 = g\<lparr>trajectory := trajectory g @ [\<lparr>step_uri = uri, step_layer = L0, step_score = score0, step_reason = ''scored abstract''\<rparr>],
                  tokens_used := tokens_used g + token_counter s0\<rparr>
       in if score0 < threshold then Inr (g0\<lparr>scored_items := scored_items g @ [(score0, uri, L0, s0)]\<rparr>)
          else bindE (layer_exists pl uri L1 t) (\<lambda>more.
            if \<not> more then Inr (g0\<lparr>scored_items := scored_items g @ [(score0, uri, L0, s0)]\<rparr>)
            else bindE (read pl uri L1 t) (\<lambda>s1.
              let score1 = scorer query s1 in
              Inr \<lparr>trajectory = trajectory g0 @ [\<lparr>step_uri = uri, step_layer = L1, step_score = score1, step_reason = ''escalated past threshold''\<rparr>],
                   scored_items = scored_items g @ [(score1, uri, L1, s1)],
                   tokens_used = tokens_used g0 + token_counter s1\<rparr>))))"

primrec consider_all :: "ctx_place \<Rightarrow> tree \<Rightarrow> string \<Rightarrow> (string \<Rightarrow> string \<Rightarrow> rat) \<Rightarrow> rat \<Rightarrow> string list \<Rightarrow> gathered \<Rightarrow> ctx_error + gathered" where
  "consider_all pl t query scorer threshold [] g = Inr g"
| "consider_all pl t query scorer threshold (u # us) g =
     bindE (consider_uri pl t query scorer threshold u g) (consider_all pl t query scorer threshold us)"

definition best :: "scored list \<Rightarrow> scored list" where
  "best xs = sort_key (\<lambda>x. - fst x) xs"

definition retrieve :: "ctx_place \<Rightarrow> tree \<Rightarrow> string \<Rightarrow> string list \<Rightarrow> (string \<Rightarrow> string \<Rightarrow> rat) \<Rightarrow> int \<Rightarrow> rat \<Rightarrow>
    ctx_error + (scored list \<times> retrieval_step list \<times> int)" where
  "retrieve pl t query uris scorer top_k threshold =
     map_sum id (\<lambda>g. (slice_to top_k (best (scored_items g)), trajectory g, tokens_used g))
       (consider_all pl t query scorer threshold uris \<lparr>trajectory = [], scored_items = [], tokens_used = 0\<rparr>)"

section \<open>Histories of writes\<close>

datatype ctx_op = Write string string "string option" "string option" | Set_abstract string string | Set_overview string string

fun ctx_step :: "ctx_place \<Rightarrow> tree \<Rightarrow> ctx_op \<Rightarrow> tree" where
  "ctx_step pl t (Write uri c a v) = fst (write_body pl uri c a v t)"
| "ctx_step pl t (Set_abstract uri s) = fst (set_abstract pl uri s t)"
| "ctx_step pl t (Set_overview uri s) = fst (set_overview pl uri s t)"

definition new_tree :: "ctx_place \<Rightarrow> tree" where
  "new_tree pl = \<lparr>texts = [], folders = prefixes (ctx_root pl)\<rparr>"

definition within_budget :: "tree \<Rightarrow> bool" where
  "within_budget t \<longleftrightarrow> (\<forall>p s. dict_get (texts t) p = Some s \<longrightarrow>
     (has_suffix (base_name p) ''.abstract'' \<longrightarrow> token_counter s \<le> 120)
     \<and> (has_suffix (base_name p) ''.overview'' \<longrightarrow> token_counter s \<le> 2048))"

text \<open>A write whose body is not stored under the name of a sidecar.\<close>

fun own_name :: "ctx_place \<Rightarrow> ctx_op \<Rightarrow> bool" where
  "own_name pl (Write uri c a v) = (case locate pl uri of Inl _ \<Rightarrow> True
     | Inr p \<Rightarrow> \<not> has_suffix (base_name p) ''.abstract'' \<and> \<not> has_suffix (base_name p) ''.overview'')"
| "own_name pl _ = True"

lemma base_name_snoc [simp]: "base_name (p @ [s]) = s"
  by (simp add: base_name_def)

lemma layer_names: "has_suffix (s @ layer_suffix L0) ''.abstract''" "\<not> has_suffix (s @ layer_suffix L0) ''.overview''"
  "has_suffix (s @ layer_suffix L1) ''.overview''" "\<not> has_suffix (s @ layer_suffix L1) ''.abstract''"
  by (simp_all add: has_suffix_def)

lemma store_text_texts: "store_text p s t = Inr t' \<Longrightarrow> texts t' = dict_set p s (texts t)"
  by (auto simp: store_text_def bindE_Inr make_folders_def write_text_def split: if_splits)

lemma within_budget_store:
  assumes "within_budget t" "store_text p s t = Inr t'"
    and "has_suffix (base_name p) ''.abstract'' \<Longrightarrow> token_counter s \<le> 120"
    and "has_suffix (base_name p) ''.overview'' \<Longrightarrow> token_counter s \<le> 2048"
  shows "within_budget t'"
  using assms by (auto simp: within_budget_def store_text_texts update_conv')

lemma within_budget_kept:
  assumes "within_budget t" "\<And>t'. r = Inr t' \<Longrightarrow> within_budget t'"
  shows "within_budget (fst (kept t r))"
  using assms by (cases r) (auto simp: kept_def)

lemma target_Inr: "target pl uri l = Inr p \<longleftrightarrow> (\<exists>q. locate pl uri = Inr q \<and> p = (if l = L2 then q else sidecar q l))"
  by (cases "locate pl uri") (auto simp: target_def)

lemma within_budget_abstract:
  assumes "within_budget t"
  shows "within_budget (fst (set_abstract pl uri s t))"
proof (cases "token_counter s > 120")
  case False
  have "within_budget (fst (kept t (bindE (target pl uri L0) (\<lambda>p. store_text p s t))))"
  proof (rule within_budget_kept [OF assms])
    fix t' assume "bindE (target pl uri L0) (\<lambda>p. store_text p s t) = Inr t'"
    then obtain q where "store_text (sidecar q L0) s t = Inr t'" by (auto simp: bindE_Inr target_Inr)
    from within_budget_store [OF assms this] show "within_budget t'"
      using False layer_names(1,2) by (simp add: sidecar_def del: layer_suffix.simps)
  qed
  with False show ?thesis by (simp add: set_abstract_def write_layer_def L0_MAX_TOKENS_def)
qed (use assms in \<open>simp add: set_abstract_def write_layer_def L0_MAX_TOKENS_def\<close>)

lemma within_budget_overview:
  assumes "within_budget t"
  shows "within_budget (fst (set_overview pl uri s t))"
proof (cases "token_counter s > 2048")
  case False
  have "within_budget (fst (kept t (bindE (target pl uri L1) (\<lambda>p. store_text p s t))))"
  proof (rule within_budget_kept [OF assms])
    fix t' assume "bindE (target pl uri L1) (\<lambda>p. store_text p s t) = Inr t'"
    then obtain q where "store_text (sidecar q L1) s t = Inr t'" by (auto simp: bindE_Inr target_Inr)
    from within_budget_store [OF assms this] show "within_budget t'"
      using False layer_names(3,4) by (simp add: sidecar_def del: layer_suffix.simps)
  qed
  with False show ?thesis by (simp add: set_overview_def write_layer_def L1_MAX_TOKENS_def)
qed (use assms in \<open>simp add: set_overview_def write_layer_def L1_MAX_TOKENS_def\<close>)

lemma within_budget_step:
  assumes "within_budget t" "own_name pl x"
  shows "within_budget (ctx_step pl t x)"
proof (cases x)
  case (Write uri c a v)
  have b: "within_budget (fst (kept t (bindE (locate pl uri) (\<lambda>p. store_text p c t))))"
    by (rule within_budget_kept [OF assms(1)])
       (use assms(2) Write in \<open>auto simp: bindE_Inr intro: within_budget_store [OF assms(1)]\<close>)
  have k: "within_budget (fst (and_then r f))" if "within_budget (fst r)" "\<And>t. within_budget t \<Longrightarrow> within_budget (fst (f t))" for r f
    using that by (auto simp: and_then_def split: option.splits)
  show ?thesis unfolding Write ctx_step.simps write_body_def
    by (intro k b) (auto split: option.splits simp: within_budget_abstract within_budget_overview)
qed (use assms in \<open>simp_all add: within_budget_abstract within_budget_overview\<close>)

lemma within_budget_run:
  assumes "list_all (own_name pl) xs" "within_budget t"
  shows "within_budget (foldl (ctx_step pl) t xs)"
  using assms by (induction xs arbitrary: t) (auto intro: within_budget_step)

text \<open>
  As long as no body is stored under the name of a sidecar, every abstract has at most 120
  tokens and every overview at most 2048, whatever is written, refused or fails.
\<close>

theorem layer_budgets_hold:
  assumes "list_all (own_name pl) xs"
  shows "within_budget (foldl (ctx_step pl) (new_tree pl) xs)"
  by (rule within_budget_run [OF assms]) (simp add: within_budget_def new_tree_def)

definition sample_place :: ctx_place where
  "sample_place = \<lparr>ctx_root = [''r''], resolve = (\<lambda>p. p)\<rparr>"

theorem layer_budgets_hold_witness:
  "within_budget (foldl (ctx_step sample_place) (new_tree sample_place)
     [Write ''3o://a/b'' ''body'' (Some ''short'') (Some ''longer''), Set_abstract ''3o://a/b'' (replicate 484 (CHR ''x''))])"
  by (rule layer_budgets_hold)
     (simp add: sample_place_def locate_def strip_scheme_def has_prefix_def path_parts_def base_name_def has_suffix_def)

text \<open>
  A body written at the address of another entry's abstract is that abstract, of any length; the
  sidecars of the root lie outside the root; and a write refused for its abstract has replaced the body.
\<close>

lemma body_replaces_abstract:
  "read sample_place ''3o://a'' L0 (foldl (ctx_step sample_place) (new_tree sample_place) [Write ''3o://a.abstract'' (replicate 500 (CHR ''x'')) None None])
   = Inr (replicate 500 (CHR ''x''))"
  by code_simp

lemma root_sidecar_outside:
  "map fst (texts (ctx_step sample_place (new_tree sample_place) (Set_abstract ''3o://'' ''out''))) = [[''r.abstract'']]"
  by code_simp

lemma refused_write_replaces_body:
  "(let (t, e) = write_body sample_place ''3o://a'' ''new'' (Some (replicate 484 (CHR ''x''))) None
        (foldl (ctx_step sample_place) (new_tree sample_place) [Write ''3o://a'' ''old'' (Some ''of old'') None])
    in e = Some (Budget_exceeded L0 120 121) \<and> read sample_place ''3o://a'' L2 t = Inr ''new'' \<and> read sample_place ''3o://a'' L0 t = Inr ''of old'')"
  by code_simp

section \<open>What retrieval answers\<close>

definition chosen_rightly :: "ctx_place \<Rightarrow> tree \<Rightarrow> string \<Rightarrow> (string \<Rightarrow> string \<Rightarrow> rat) \<Rightarrow> rat \<Rightarrow> scored \<Rightarrow> bool" where
  "chosen_rightly pl t query scorer threshold x = (case x of (s, u, l, txt) \<Rightarrow>
     read pl u l t = Inr txt \<and> s = scorer query txt \<and>
     (case l of L0 \<Rightarrow> s < threshold \<or> layer_exists pl u L1 t = Inr False
      | L1 \<Rightarrow> (case read pl u L0 t of Inl _ \<Rightarrow> False | Inr s0 \<Rightarrow> threshold \<le> scorer query s0)
      | L2 \<Rightarrow> False))"

lemma budget_of_read:
  assumes "within_budget t"
  shows "read pl u L0 t = Inr s \<Longrightarrow> token_counter s \<le> 120" "read pl u L1 t = Inr s \<Longrightarrow> token_counter s \<le> 2048"
proof -
  have "dict_get (texts t) (sidecar q L0) = Some s \<Longrightarrow> token_counter s \<le> 120" for q s
    using assms layer_names(1) by (auto simp: within_budget_def sidecar_def simp del: layer_suffix.simps)
  then show "read pl u L0 t = Inr s \<Longrightarrow> token_counter s \<le> 120"
    by (auto simp: read_def bindE_Inr target_Inr split: if_splits option.splits)
  have "dict_get (texts t) (sidecar q L1) = Some s \<Longrightarrow> token_counter s \<le> 2048" for q s
    using assms layer_names(3) by (auto simp: within_budget_def sidecar_def simp del: layer_suffix.simps)
  then show "read pl u L1 t = Inr s \<Longrightarrow> token_counter s \<le> 2048"
    by (auto simp: read_def bindE_Inr target_Inr split: if_splits option.splits)
qed


lemma consider_uri_adds:
  assumes "consider_uri pl t query scorer threshold u g = Inr g'"
  shows "\<exists>xs. scored_items g' = scored_items g @ xs \<and> length xs \<le> 1 \<and> (\<forall>x \<in> set xs. fst (snd x) = u \<and> chosen_rightly pl t query scorer threshold x)
     \<and> (within_budget t \<longrightarrow> tokens_used g' \<le> tokens_used g + 2168)"
proof -
  from assms obtain there where there: "layer_exists pl u L0 t = Inr there" by (auto simp: consider_uri_def bindE_Inr)
  show ?thesis
  proof (cases there)
    case False
    with assms there show ?thesis by (auto simp: consider_uri_def)
  next
    case True
    with assms there obtain s0 where s0: "read pl u L0 t = Inr s0" by (auto simp: consider_uri_def bindE_Inr)
    have b0: "within_budget t \<Longrightarrow> token_counter s0 \<le> 120" using budget_of_read(1) s0 by blast
    consider (low) "scorer query s0 < threshold" | (none) "\<not> scorer query s0 < threshold" "layer_exists pl u L1 t = Inr False"
      | (more) s1 where "\<not> scorer query s0 < threshold" "layer_exists pl u L1 t = Inr True" "read pl u L1 t = Inr s1"
      using assms there True s0 by (auto simp: consider_uri_def bindE_Inr Let_def split: if_splits)
    then show ?thesis
    proof cases
      case low
      with assms there True s0 b0 show ?thesis
        by (intro exI [of _ "[(scorer query s0, u, L0, s0)]"]) (auto simp: consider_uri_def Let_def chosen_rightly_def)
    next
      case none
      with assms there True s0 b0 show ?thesis
        by (intro exI [of _ "[(scorer query s0, u, L0, s0)]"]) (auto simp: consider_uri_def Let_def chosen_rightly_def)
    next
      case (more s1)
      have "within_budget t \<Longrightarrow> token_counter s1 \<le> 2048" using budget_of_read(2) more(3) by blast
      with more assms there True s0 b0 show ?thesis
        by (intro exI [of _ "[(scorer query s1, u, L1, s1)]"]) (auto simp: consider_uri_def Let_def chosen_rightly_def)
    qed
  qed
qed

lemma consider_all_adds:
  assumes "consider_all pl t query scorer threshold us g = Inr g'"
  shows "\<exists>xs. scored_items g' = scored_items g @ xs \<and> length xs \<le> length us \<and> (\<forall>x \<in> set xs. fst (snd x) \<in> set us \<and> chosen_rightly pl t query scorer threshold x)
     \<and> (within_budget t \<longrightarrow> tokens_used g' \<le> tokens_used g + 2168 * int (length us))"
  using assms
proof (induction us arbitrary: g)
  case (Cons u us)
  then obtain g1 where g1: "consider_uri pl t query scorer threshold u g = Inr g1" "consider_all pl t query scorer threshold us g1 = Inr g'"
    by (auto simp: bindE_Inr)
  from consider_uri_adds [OF g1(1)] obtain xs where xs: "scored_items g1 = scored_items g @ xs" "length xs \<le> 1"
    "\<forall>x \<in> set xs. fst (snd x) = u \<and> chosen_rightly pl t query scorer threshold x" "within_budget t \<longrightarrow> tokens_used g1 \<le> tokens_used g + 2168" by blast
  from Cons.IH [OF g1(2)] obtain ys where ys: "scored_items g' = scored_items g1 @ ys" "length ys \<le> length us"
    "\<forall>x \<in> set ys. fst (snd x) \<in> set us \<and> chosen_rightly pl t query scorer threshold x"
    "within_budget t \<longrightarrow> tokens_used g' \<le> tokens_used g1 + 2168 * int (length us)" by blast
  show ?case using xs ys by (intro exI [of _ "xs @ ys"]) auto
qed auto

lemma best_perm: "set (best xs) = set xs" "length (best xs) = length xs" "sorted (map (\<lambda>x. - fst x) (best xs))"
  by (simp_all add: best_def)

text \<open>
  What a retrieval returns: at most \<open>top_k\<close> items in order of falling score; each is the text its address has
  in its layer with the score of that text, never a body; an overview only where the abstract reached the threshold,
  an abstract only where it did not or there is no overview; and within the budgets of the store at most 2168
  tokens for each candidate.
\<close>

theorem retrieve_sound:
  assumes "retrieve pl t query uris scorer top_k threshold = Inr (xs, steps, n)" and "0 \<le> top_k"
  shows "length xs \<le> nat top_k \<and> sorted (map (\<lambda>x. - fst x) xs)
    \<and> (\<forall>x \<in> set xs. fst (snd x) \<in> set uris \<and> chosen_rightly pl t query scorer threshold x)
    \<and> (within_budget t \<longrightarrow> n \<le> 2168 * int (length uris))"
proof (intro conjI)
  obtain g where g: "consider_all pl t query scorer threshold uris \<lparr>trajectory = [], scored_items = [], tokens_used = 0\<rparr> = Inr g"
    "xs = slice_to top_k (best (scored_items g))" "n = tokens_used g"
    using assms(1) unfolding retrieve_def
    by (cases "consider_all pl t query scorer threshold uris \<lparr>trajectory = [], scored_items = [], tokens_used = 0\<rparr>") auto
  have xs: "xs = take (nat top_k) (best (scored_items g))" using g(2) assms(2) by (simp add: slice_to_def)
  show "length xs \<le> nat top_k" by (simp add: xs)
  show "sorted (map (\<lambda>x. - fst x) xs)" using best_perm(3) by (simp add: xs take_map [symmetric] sorted_wrt_take)
  from consider_all_adds [OF g(1)]
  have a: "\<forall>x \<in> set (scored_items g). fst (snd x) \<in> set uris \<and> chosen_rightly pl t query scorer threshold x"
    and "within_budget t \<longrightarrow> tokens_used g \<le> 2168 * int (length uris)" by auto
  then show "\<forall>x \<in> set xs. fst (snd x) \<in> set uris \<and> chosen_rightly pl t query scorer threshold x"
    and "within_budget t \<longrightarrow> n \<le> 2168 * int (length uris)"
    using g(3) best_perm(1) by (auto simp: xs dest: in_set_takeD)
qed

definition sample_tree :: tree where
  "sample_tree = foldl (ctx_step sample_place) (new_tree sample_place)
     [Write ''3o://a'' ''body a'' (Some ''aa'') (Some ''aaaa''), Write ''3o://b'' ''body b'' (Some ''b'') (Some ''bbb''), Write ''3o://c'' ''body c'' None None]"

theorem retrieve_sound_witness:
  "\<exists>xs steps n. retrieve sample_place sample_tree ''q'' [''3o://a'', ''3o://b'', ''3o://c''] (\<lambda>q s. of_nat (length s)) 5 2 = Inr (xs, steps, n)
     \<and> xs = [(4, ''3o://a'', L1, ''aaaa''), (1, ''3o://b'', L0, ''b'')] \<and> length steps = 4
     \<and> (\<forall>x \<in> set xs. chosen_rightly sample_place sample_tree ''q'' (\<lambda>q s. of_nat (length s)) 2 x)"
proof -
  let ?r = "retrieve sample_place sample_tree ''q'' [''3o://a'', ''3o://b'', ''3o://c''] (\<lambda>q s. of_nat (length s)) 5 2"
  have "case ?r of Inl _ \<Rightarrow> False | Inr (xs, steps, n) \<Rightarrow> xs = [(4, ''3o://a'', L1, ''aaaa''), (1, ''3o://b'', L0, ''b'')] \<and> length steps = 4"
    by code_simp
  then obtain xs steps n where r: "?r = Inr (xs, steps, n)" "xs = [(4, ''3o://a'', L1, ''aaaa''), (1, ''3o://b'', L0, ''b'')]" "length steps = 4"
    by (auto split: sum.splits)
  with retrieve_sound [OF r(1)] show ?thesis by auto
qed

text \<open>Retrieval sees sidecars only: trees that agree on those of the candidates give the same answer.\<close>

theorem retrieve_ignores_bodies:
  assumes "\<And>u l p. u \<in> set uris \<Longrightarrow> l \<noteq> L2 \<Longrightarrow> target pl u l = Inr p \<Longrightarrow>
     dict_get (texts t) p = dict_get (texts t') p \<and> (p \<in> set (folders t) \<longleftrightarrow> p \<in> set (folders t'))"
  shows "retrieve pl t query uris scorer top_k threshold = retrieve pl t' query uris scorer top_k threshold"
proof -
  have e: "layer_exists pl u l t = layer_exists pl u l t'" and r: "read pl u l t = read pl u l t'"
    if "u \<in> set uris" "l \<noteq> L2" for u l
    using assms [OF that] by (cases "target pl u l"; simp add: layer_exists_def read_def path_taken_def)+
  have c: "consider_uri pl t query scorer threshold u = consider_uri pl t' query scorer threshold u" if u: "u \<in> set uris" for u
  proof -
    have eqs: "layer_exists pl u L0 t = layer_exists pl u L0 t'" "layer_exists pl u L1 t = layer_exists pl u L1 t'"
      "read pl u L0 t = read pl u L0 t'" "read pl u L1 t = read pl u L1 t'" using e r u by simp_all
    show ?thesis unfolding consider_uri_def eqs ..
  qed
  have "consider_all pl t query scorer threshold us g = consider_all pl t' query scorer threshold us g" if "set us \<subseteq> set uris" for us g
    using that by (induction us arbitrary: g) (auto simp: c bindE_def split: sum.split)
  then show ?thesis by (simp add: retrieve_def)
qed

theorem retrieve_ignores_bodies_witness:
  "retrieve sample_place sample_tree ''q'' [''3o://a''] (\<lambda>q s. 1) 5 2
   = retrieve sample_place (fst (write_body sample_place ''3o://a'' ''other'' None None sample_tree)) ''q'' [''3o://a''] (\<lambda>q s. 1) 5 2"
proof (rule retrieve_ignores_bodies)
  fix u l p assume "u \<in> set [''3o://a'']" "l \<noteq> L2" "target sample_place u l = Inr p"
  moreover have "locate sample_place ''3o://a'' = Inr [''r'', ''a'']" by code_simp
  ultimately have "p \<noteq> [''r'', ''a'']" by (cases l) (auto simp: target_def sidecar_def base_name_def)
  moreover have "texts (fst (write_body sample_place ''3o://a'' ''other'' None None sample_tree)) = dict_set [''r'', ''a''] ''other'' (texts sample_tree)"
    "set (folders (fst (write_body sample_place ''3o://a'' ''other'' None None sample_tree))) = set (folders sample_tree)"
    by code_simp+
  ultimately show "dict_get (texts sample_tree) p = dict_get (texts (fst (write_body sample_place ''3o://a'' ''other'' None None sample_tree))) p
      \<and> (p \<in> set (folders sample_tree) \<longleftrightarrow> p \<in> set (folders (fst (write_body sample_place ''3o://a'' ''other'' None None sample_tree))))"
    by (simp add: update_conv')
qed

section \<open>Reading what was written\<close>

lemma sidecar_distinct: "sidecar p L0 \<noteq> p" "sidecar p L1 \<noteq> p" "sidecar p L0 \<noteq> sidecar p L1"
proof -
  have "sidecar p l \<noteq> p" if "layer_suffix l \<noteq> ''''" for l
  proof
    assume "sidecar p l = p"
    then have "p \<noteq> []" "last p = last p @ layer_suffix l" by (auto simp: sidecar_def base_name_def split: if_splits dest: arg_cong [of _ _ last])
    with that show False by simp
  qed
  then show "sidecar p L0 \<noteq> p" "sidecar p L1 \<noteq> p" by simp_all
qed (simp add: sidecar_def)

lemma kept_None: "kept t r = (t', None) \<longleftrightarrow> r = Inr t'"
  by (auto simp: kept_def split: sum.splits)

lemma and_then_None: "and_then r k = (t', None) \<longleftrightarrow> (\<exists>t1. r = (t1, None) \<and> k t1 = (t', None))"
  by (cases r) (auto simp: and_then_def split: option.splits)

lemma read_stored: "target pl uri l = Inr p \<Longrightarrow> dict_get (texts t) p = Some s \<Longrightarrow> read pl uri l t = Inr s"
  by (simp add: read_def path_taken_def)

text \<open>
  A write that succeeds is read back in every layer it was given, and other texts stay.
\<close>

theorem write_then_read:
  assumes "write_body pl uri c a v t = (t', None)" and "locate pl uri = Inr p"
  shows "read pl uri L2 t' = Inr c \<and> (case a of None \<Rightarrow> True | Some s \<Rightarrow> read pl uri L0 t' = Inr s)
    \<and> (case v of None \<Rightarrow> True | Some s \<Rightarrow> read pl uri L1 t' = Inr s)
    \<and> (\<forall>q. q \<in> {p, sidecar p L0, sidecar p L1} \<or> dict_get (texts t') q = dict_get (texts t) q)"
proof -
  from assms obtain t1 t2 where s: "store_text p c t = Inr t1"
    "(case a of None \<Rightarrow> (t1, None) | Some s \<Rightarrow> set_abstract pl uri s t1) = (t2, None)"
    "(case v of None \<Rightarrow> (t2, None) | Some s \<Rightarrow> set_overview pl uri s t2) = (t', None)"
    by (auto simp: write_body_def and_then_None kept_None)
  have m1: "dict_get (texts t1) = (dict_get (texts t))(p \<mapsto> c)" by (simp only: store_text_texts [OF s(1)] update_conv')
  have m2: "dict_get (texts t2) = (case a of None \<Rightarrow> dict_get (texts t1) | Some x \<Rightarrow> (dict_get (texts t1))(sidecar p L0 \<mapsto> x))"
    using s(2) assms(2) by (auto simp: set_abstract_def write_layer_def Let_def target_def kept_None store_text_texts update_conv' split: option.splits if_splits)
  have m3: "dict_get (texts t') = (case v of None \<Rightarrow> dict_get (texts t2) | Some x \<Rightarrow> (dict_get (texts t2))(sidecar p L1 \<mapsto> x))"
    using s(3) assms(2) by (auto simp: set_overview_def write_layer_def Let_def target_def kept_None store_text_texts update_conv' split: option.splits if_splits)
  have t: "target pl uri L2 = Inr p" "target pl uri L0 = Inr (sidecar p L0)" "target pl uri L1 = Inr (sidecar p L1)"
    by (simp_all add: target_def assms(2))
  show ?thesis using sidecar_distinct [of p] sidecar_distinct [of p, symmetric]
    by (cases a; cases v) (auto simp: m1 m2 m3 t intro!: read_stored)
qed

theorem write_then_read_witness:
  "read sample_place ''3o://c'' L0 (fst (write_body sample_place ''3o://c'' ''new'' (Some ''n'') None sample_tree)) = Inr ''n''"
proof -
  have "snd (write_body sample_place ''3o://c'' ''new'' (Some ''n'') None sample_tree) = None" "locate sample_place ''3o://c'' = Inr [''r'', ''c'']"
    by code_simp+
  with write_then_read [of sample_place "''3o://c''" "''new''" "Some ''n''" None sample_tree _ "[''r'', ''c'']"] show ?thesis
    by (cases "write_body sample_place ''3o://c'' ''new'' (Some ''n'') None sample_tree") auto
qed

end
