(* ===== verification/MemoryQueue.thy ===== *)
theory MemoryQueue
  imports Json
begin

text \<open>
  The debounced write queue (\<^verbatim>\<open>obase/debounced_memory_queue.py\<close>). The timers are the tasks waiting to flush a
  key, with the number each got when it was started; the step that flushes a key has no point where another could
  run in between. A file holds a document, or nothing readable.
\<close>

section \<open>The queue and its operations\<close>

record mqueue =
  pending :: "(string, jdict) dict"
  timers :: "(string, nat) dict"
  live :: "(nat \<times> string) list"
  next_task :: nat
  saved :: "(string, json option) dict"

definition new_mqueue :: "(string, json option) dict \<Rightarrow> mqueue" where
  "new_mqueue disk = \<lparr>pending = [], timers = [], live = [], next_task = 0, saved = disk\<rparr>"

definition safe :: "string \<Rightarrow> string" where
  "safe key = map (\<lambda>c. if c = CHR ''/'' \<or> c = CHR '':'' \<or> c = CHR 0x5C then CHR ''_'' else c) key"

definition file_of :: "string \<Rightarrow> string" where
  "file_of key = safe key @ ''.json''"

definition merge :: "jdict \<Rightarrow> jdict \<Rightarrow> jdict" where
  "merge base updates = dict_update base updates"

definition flush_one :: "string \<Rightarrow> mqueue \<Rightarrow> mqueue" where
  "flush_one key q = (case dict_get (pending q) key of None \<Rightarrow> q
     | Some d \<Rightarrow> q\<lparr>pending := dict_pop key (pending q), saved := dict_set (file_of key) (Some (JDict d)) (saved q)\<rparr>)"

definition cancel_timer :: "string \<Rightarrow> mqueue \<Rightarrow> mqueue" where
  "cancel_timer key q = (case dict_get (timers q) key of None \<Rightarrow> q
     | Some n \<Rightarrow> q\<lparr>live := filter (\<lambda>x. fst x \<noteq> n) (live q)\<rparr>)"

text \<open>
  An immediate update makes the coroutine of a flush and drops it: nothing is flushed and no timer starts.
\<close>

definition enqueue :: "string \<Rightarrow> jdict \<Rightarrow> bool \<Rightarrow> mqueue \<Rightarrow> mqueue" where
  "enqueue key updates immediate q =
     (let old = (case dict_get (pending q) key of None \<Rightarrow> [] | Some d \<Rightarrow> d);
          q1 = q\<lparr>pending := dict_set key (merge old updates) (pending q)\<rparr>
      in if immediate then q1
         else let q2 = cancel_timer key q1
              in q2\<lparr>timers := dict_set key (next_task q2) (timers q2), live := live q2 @ [(next_task q2, key)],
                   next_task := Suc (next_task q2)\<rparr>)"

definition debounced_flush :: "nat \<Rightarrow> mqueue \<Rightarrow> mqueue" where
  "debounced_flush n q = (case dict_get (live q) n of None \<Rightarrow> q
     | Some key \<Rightarrow> flush_one key (q\<lparr>live := filter (\<lambda>x. fst x \<noteq> n) (live q)\<rparr>))"

definition load :: "string \<Rightarrow> mqueue \<Rightarrow> json" where
  "load key q = (case dict_get (saved q) (file_of key) of Some (Some j) \<Rightarrow> j | _ \<Rightarrow> JDict [])"

definition flush_all :: "mqueue \<Rightarrow> mqueue \<times> nat" where
  "flush_all q = (let keys = map fst (pending q)
     in (foldl (\<lambda>q k. flush_one k (cancel_timer k q)) q keys, length keys))"

definition pending_count :: "mqueue \<Rightarrow> nat" where
  "pending_count q = length (pending q)"

definition pop_key :: "string \<Rightarrow> mqueue \<Rightarrow> mqueue \<times> json option" where
  "pop_key key q = (if dict_get (pending q) key = None then (q, None)
     else let q1 = flush_one key (cancel_timer key q) in (q1, Some (load key q1)))"

section \<open>Histories\<close>

datatype mq_event = Enqueue string jdict bool | Timer_due nat | Flush_all | Pop string

fun mq_step :: "mqueue \<Rightarrow> mq_event \<Rightarrow> mqueue" where
  "mq_step q (Enqueue k u i) = enqueue k u i q"
| "mq_step q (Timer_due n) = debounced_flush n q"
| "mq_step q Flush_all = fst (flush_all q)"
| "mq_step q (Pop k) = fst (pop_key k q)"

fun deferred :: "mq_event \<Rightarrow> bool" where
  "deferred (Enqueue k u i) = (\<not> i)"
| "deferred _ = True"

text \<open>
  One live timer waits for each pending key and no other; it is the one remembered for the key.
\<close>

definition timers_ok :: "mqueue \<Rightarrow> bool" where
  "timers_ok q \<longleftrightarrow> distinct (live q) \<and> snd ` set (live q) = fst ` set (pending q)
     \<and> (\<forall>n k. (n, k) \<in> set (live q) \<longrightarrow> dict_get (timers q) k = Some n)
     \<and> (\<forall>k n. dict_get (timers q) k = Some n \<longrightarrow> n < next_task q)
     \<and> (\<forall>k k' n. dict_get (timers q) k = Some n \<and> dict_get (timers q) k' = Some n \<longrightarrow> k = k')"

lemma flush_live [simp]: "live (flush_one k q) = live q" "timers (flush_one k q) = timers q" "next_task (flush_one k q) = next_task q"
  by (simp_all add: flush_one_def split: option.splits)

lemma flush_pending: "dict_get (pending (flush_one k q)) = (dict_get (pending q))(k := None)"
  by (cases "dict_get (pending q) k") (auto simp: flush_one_def delete_conv' fun_eq_iff)

lemma flush_keys: "fst ` set (pending (flush_one k q)) = fst ` set (pending q) - {k}"
  using arg_cong [OF flush_pending [of k q], of dom] by (simp add: dom_map_of_conv_image_fst)

lemma cancel_live:
  assumes "timers_ok q"
  shows "cancel_timer k q = q\<lparr>live := filter (\<lambda>x. snd x \<noteq> k) (live q)\<rparr>"
proof (cases "dict_get (timers q) k")
  case None
  with assms have "filter (\<lambda>x. snd x \<noteq> k) (live q) = live q" by (intro filter_True) (auto simp: timers_ok_def)
  with None show ?thesis by (simp add: cancel_timer_def)
next
  case (Some n)
  have "fst x \<noteq> n \<longleftrightarrow> snd x \<noteq> k" if "x \<in> set (live q)" for x
  proof -
    have "dict_get (timers q) (snd x) = Some (fst x)" using assms that by (cases x) (auto simp: timers_ok_def)
    with Some assms show ?thesis unfolding timers_ok_def by auto
  qed
  then have "filter (\<lambda>x. fst x \<noteq> n) (live q) = filter (\<lambda>x. snd x \<noteq> k) (live q)" by (intro filter_cong refl) auto
  with Some show ?thesis by (simp add: cancel_timer_def)
qed

lemma flush_cancelled_ok:
  assumes "timers_ok q"
  shows "timers_ok (flush_one k (q\<lparr>live := filter (\<lambda>x. snd x \<noteq> k) (live q)\<rparr>))"
  using assms by (auto simp: timers_ok_def flush_keys image_iff)

lemma enqueue_ok:
  assumes "timers_ok q"
  shows "timers_ok (enqueue k u False q)"
proof -
  define q1 where "q1 = q\<lparr>pending := dict_set k (merge (case dict_get (pending q) k of None \<Rightarrow> [] | Some d \<Rightarrow> d) u) (pending q)\<rparr>"
  have "cancel_timer k q1 = (cancel_timer k q)\<lparr>pending := pending q1\<rparr>"
    by (cases "dict_get (timers q) k") (simp_all add: cancel_timer_def q1_def)
  then have c: "cancel_timer k q1 = q\<lparr>live := filter (\<lambda>x. snd x \<noteq> k) (live q), pending := pending q1\<rparr>"
    by (simp add: cancel_live [OF assms])
  have e: "enqueue k u False q = q\<lparr>live := filter (\<lambda>x. snd x \<noteq> k) (live q) @ [(next_task q, k)], pending := pending q1,
      timers := dict_set k (next_task q) (timers q), next_task := Suc (next_task q)\<rparr>"
    unfolding enqueue_def Let_def q1_def [symmetric] if_False c by simp
  have p: "fst ` set (pending q1) = insert k (fst ` set (pending q))"
    by (auto simp: q1_def dom_update)
  have fresh: "(next_task q, k') \<notin> set (live q)" for k'
  proof
    assume "(next_task q, k') \<in> set (live q)"
    with assms have "dict_get (timers q) k' = Some (next_task q)" by (simp add: timers_ok_def)
    with assms have "next_task q < next_task q" unfolding timers_ok_def by blast
    then show False by simp
  qed
  have "snd ` set (filter (\<lambda>x. snd x \<noteq> k) (live q)) = snd ` set (live q) - {k}" by auto
  with assms fresh show ?thesis unfolding timers_ok_def e
    by (auto simp: p update_conv' split: if_splits intro: less_SucI)
qed

lemma due_ok:
  assumes "timers_ok q"
  shows "timers_ok (debounced_flush n q)"
proof (cases "dict_get (live q) n")
  case (Some k)
  then have "dict_get (timers q) k = Some n" using assms by (auto simp: timers_ok_def dest: map_of_SomeD)
  then have "cancel_timer k q = q\<lparr>live := filter (\<lambda>x. fst x \<noteq> n) (live q)\<rparr>" by (simp add: cancel_timer_def)
  with cancel_live [OF assms] flush_cancelled_ok [OF assms, of k] Some show ?thesis by (simp add: debounced_flush_def)
qed (use assms in \<open>simp add: debounced_flush_def\<close>)

lemma flush_keys_ok:
  assumes "timers_ok q"
  shows "timers_ok (foldl (\<lambda>q k. flush_one k (cancel_timer k q)) q ks)"
  using assms by (induction ks arbitrary: q) (auto simp: cancel_live flush_cancelled_ok)

text \<open>
  With deferred updates only, whatever timers fire, are cancelled, or keys are flushed, every pending
  key has exactly one live timer and no timer waits for anything else: nothing queued stays behind.
\<close>

theorem pending_keys_have_timers:
  assumes "list_all deferred es"
  shows "timers_ok (foldl mq_step (new_mqueue disk) es)"
proof -
  have step: "timers_ok (mq_step q e)" if "timers_ok q" "deferred e" for q e
    using that by (cases e) (auto simp: enqueue_ok due_ok flush_all_def pop_key_def cancel_live flush_cancelled_ok flush_keys_ok Let_def)
  have "timers_ok (foldl mq_step q es)" if "timers_ok q" for q
    using assms that by (induction es arbitrary: q) (auto simp: step)
  moreover have "timers_ok (new_mqueue disk)" by (simp add: timers_ok_def new_mqueue_def)
  ultimately show ?thesis by blast
qed

theorem pending_keys_have_timers_witness:
  "timers_ok (foldl mq_step (new_mqueue []) [Enqueue ''a'' [(''x'', JInt 1)] False, Enqueue ''b'' [] False, Enqueue ''a'' [] False, Timer_due 1, Timer_due 0])"
  by (rule pending_keys_have_timers) simp

text \<open>An immediate update is neither flushed nor given a timer: it stays pending with nothing to flush it.\<close>

lemma immediate_update_stays:
  "(let q = enqueue ''k'' [(''x'', JInt 1)] True (new_mqueue []) in pending_count q = 1 \<and> live q = [] \<and> load ''k'' q = JDict [])"
  by code_simp


lemma enqueue_pending:
  "dict_get (pending (enqueue k u i q)) = (dict_get (pending q))(k \<mapsto> merge (case dict_get (pending q) k of None \<Rightarrow> [] | Some d \<Rightarrow> d) u)"
  by (cases "dict_get (timers q) k") (simp_all add: enqueue_def Let_def cancel_timer_def update_conv' fun_upd_def)

lemma enqueues_pending:
  assumes "us \<noteq> []"
  shows "dict_get (pending (foldl (\<lambda>q u. enqueue k u False q) q us)) k
     = Some (foldl merge (case dict_get (pending q) k of None \<Rightarrow> [] | Some d \<Rightarrow> d) us)"
  using assms
proof (induction us arbitrary: q)
  case (Cons u us)
  then show ?case by (cases us) (simp_all add: enqueue_pending)
qed simp

lemma enqueues_ok: "timers_ok q \<Longrightarrow> timers_ok (foldl (\<lambda>q u. enqueue k u False q) q us)"
  by (induction us arbitrary: q) (auto simp: enqueue_ok)

lemma enqueues_saved: "saved (foldl (\<lambda>q u. enqueue k u False q) q us) = saved q"
  by (induction us arbitrary: q) (auto simp: enqueue_def Let_def cancel_timer_def split: option.splits)

lemma live_lookup:
  assumes "timers_ok q" "(n, k) \<in> set (live q)"
  shows "dict_get (live q) n = Some k"
proof (cases "dict_get (live q) n")
  case None
  with assms(2) show ?thesis by (force simp: map_of_eq_None_iff)
next
  case (Some k')
  then have "(n, k') \<in> set (live q)" by (rule map_of_SomeD)
  with assms show ?thesis unfolding timers_ok_def Some by blast
qed

text \<open>
  The updates of a key that come before its timer fires are written as one: nothing is written until the
  remaining timer fires, and then the file is the merge of all of them in order.
\<close>

theorem burst_written_once:
  assumes "timers_ok q" and "us \<noteq> []" and "(n, k) \<in> set (live (foldl (\<lambda>q u. enqueue k u False q) q us))"
  shows "saved (foldl (\<lambda>q u. enqueue k u False q) q us) = saved q
    \<and> load k (debounced_flush n (foldl (\<lambda>q u. enqueue k u False q) q us))
       = JDict (foldl merge (case dict_get (pending q) k of None \<Rightarrow> [] | Some d \<Rightarrow> d) us)"
proof
  let ?q = "foldl (\<lambda>q u. enqueue k u False q) q us"
  show "saved ?q = saved q" by (rule enqueues_saved)
  from enqueues_ok [OF assms(1), of k us] assms(3) have "dict_get (live ?q) n = Some k" by (rule live_lookup)
  with enqueues_pending [OF assms(2), of k q]
  show "load k (debounced_flush n ?q) = JDict (foldl merge (case dict_get (pending q) k of None \<Rightarrow> [] | Some d \<Rightarrow> d) us)"
    by (simp add: debounced_flush_def flush_one_def load_def update_conv')
qed

theorem burst_written_once_witness:
  "load ''k'' (debounced_flush 1 (foldl (\<lambda>q u. enqueue ''k'' u False q) (new_mqueue []) [[(''x'', JInt 1), (''y'', JInt 1)], [(''x'', JInt 2)]]))
   = JDict [(''x'', JInt 2), (''y'', JInt 1)]"
proof -
  have "timers_ok (new_mqueue [])" by (simp add: timers_ok_def new_mqueue_def)
  moreover have "(1, ''k'') \<in> set (live (foldl (\<lambda>q u. enqueue ''k'' u False q) (new_mqueue []) [[(''x'', JInt 1), (''y'', JInt 1)], [(''x'', JInt 2)]]))"
    by code_simp
  ultimately have "load ''k'' (debounced_flush 1 (foldl (\<lambda>q u. enqueue ''k'' u False q) (new_mqueue []) [[(''x'', JInt 1), (''y'', JInt 1)], [(''x'', JInt 2)]]))
     = JDict (foldl merge (case dict_get (pending (new_mqueue [])) ''k'' of None \<Rightarrow> [] | Some d \<Rightarrow> d) [[(''x'', JInt 1), (''y'', JInt 1)], [(''x'', JInt 2)]])"
    using burst_written_once [of "new_mqueue []" "[[(''x'', JInt 1), (''y'', JInt 1)], [(''x'', JInt 2)]]" 1 "''k''"] by blast
  then show ?thesis by (simp add: new_mqueue_def merge_def dict_update_def)
qed

text \<open>
  The file holds the last burst only: fields written by an earlier one are gone. Keys that differ only in
  separators share a file.
\<close>

lemma later_burst_overwrites:
  "load ''k'' (foldl mq_step (new_mqueue []) [Enqueue ''k'' [(''theme'', JStr ''dark'')] False, Timer_due 0, Enqueue ''k'' [(''language'', JStr ''zh'')] False, Timer_due 1])
   = JDict [(''language'', JStr ''zh'')]"
  by code_simp

lemma keys_share_file:
  "load ''a/b'' (foldl mq_step (new_mqueue []) [Enqueue ''a/b'' [(''x'', JInt 1)] False, Enqueue ''a:b'' [(''y'', JInt 2)] False, Flush_all])
   = JDict [(''y'', JInt 2)]"
  by code_simp

lemma cancel_pending [simp]: "pending (cancel_timer k q) = pending q" "saved (cancel_timer k q) = saved q"
  by (simp_all add: cancel_timer_def split: option.splits)

lemma flush_saved: "dict_get (saved (flush_one k q)) = (case dict_get (pending q) k of None \<Rightarrow> dict_get (saved q)
    | Some d \<Rightarrow> (dict_get (saved q))(file_of k \<mapsto> Some (JDict d)))"
  by (cases "dict_get (pending q) k") (simp_all add: flush_one_def update_conv' fun_upd_def)

lemma flush_keys_pending:
  "dict_get (pending (foldl (\<lambda>q k. flush_one k (cancel_timer k q)) q ks)) = (dict_get (pending q)) |` (- set ks)"
  by (induction ks arbitrary: q) (auto simp: flush_pending restrict_map_def fun_eq_iff)

lemma flush_keys_saved:
  assumes "\<And>k'. k' \<in> set ks \<Longrightarrow> file_of k' = file_of k \<Longrightarrow> k' = k"
    and "dict_get (pending q) k = Some d \<and> k \<in> set ks \<or> dict_get (pending q) k = None \<and> dict_get (saved q) (file_of k) = Some (Some (JDict d))"
  shows "dict_get (saved (foldl (\<lambda>q k. flush_one k (cancel_timer k q)) q ks)) (file_of k) = Some (Some (JDict d))"
  using assms
proof (induction ks arbitrary: q)
  case (Cons c ks)
  let ?q = "flush_one c (cancel_timer c q)"
  have "dict_get (pending ?q) k = Some d \<and> k \<in> set ks \<or> dict_get (pending ?q) k = None \<and> dict_get (saved ?q) (file_of k) = Some (Some (JDict d))"
  proof (cases "c = k")
    case True
    with Cons.prems(2) show ?thesis by (auto simp: flush_pending flush_saved)
  next
    case False
    with Cons.prems(1) [of c] have "file_of c \<noteq> file_of k" by auto
    with False Cons.prems(2) show ?thesis by (auto simp: flush_pending flush_saved split: option.split)
  qed
  with Cons.IH [of ?q] Cons.prems(1) show ?case by simp
qed simp

text \<open>
  A shutdown flush leaves nothing pending, answers how many keys it flushed, and every flushed key whose file
  no other pending key shares reads back what was pending for it.
\<close>

theorem flush_all_writes_everything:
  assumes "\<And>k'. dict_get (pending q) k' \<noteq> None \<Longrightarrow> file_of k' = file_of k \<Longrightarrow> k' = k" and "dict_get (pending q) k = Some d"
  shows "(case flush_all q of (q', n) \<Rightarrow> pending_count q' = 0 \<and> n = pending_count q \<and> load k q' = JDict d)"
proof -
  have keys: "k' \<in> set (map fst (pending q)) \<longleftrightarrow> dict_get (pending q) k' \<noteq> None" for k'
    by (simp add: map_of_eq_None_iff)
  let ?q = "fst (flush_all q)"
  have "dict_get (pending ?q) = Map.empty"
    unfolding flush_all_def Let_def fst_conv flush_keys_pending by (auto simp: restrict_map_def keys [symmetric] map_of_eq_None_iff fun_eq_iff)
  then have "pending ?q = []" by simp
  moreover have "dict_get (saved ?q) (file_of k) = Some (Some (JDict d))"
    unfolding flush_all_def Let_def fst_conv by (rule flush_keys_saved) (use assms keys in auto)
  ultimately show ?thesis by (simp add: pending_count_def load_def flush_all_def Let_def)
qed

theorem flush_all_writes_everything_witness:
  "let q = foldl mq_step (new_mqueue []) [Enqueue ''a'' [(''x'', JInt 1)] False, Enqueue ''b'' [] True] in
   pending_count (fst (flush_all q)) = 0 \<and> snd (flush_all q) = 2 \<and> load ''a'' (fst (flush_all q)) = JDict [(''x'', JInt 1)]"
proof -
  let ?q = "foldl mq_step (new_mqueue []) [Enqueue ''a'' [(''x'', JInt 1)] False, Enqueue ''b'' [] True]"
  have p: "pending ?q = [(''a'', [(''x'', JInt 1)]), (''b'', [])]" by code_simp
  have "(case flush_all ?q of (q', n) \<Rightarrow> pending_count q' = 0 \<and> n = pending_count ?q \<and> load ''a'' q' = JDict [(''x'', JInt 1)])"
  proof (rule flush_all_writes_everything)
    show "dict_get (pending ?q) ''a'' = Some [(''x'', JInt 1)]" unfolding p by simp
    fix k' assume "dict_get (pending ?q) k' \<noteq> None" "file_of k' = file_of ''a''"
    then show "k' = ''a''" unfolding p by (auto simp: file_of_def safe_def split: if_splits)
  qed
  moreover have "pending_count ?q = 2" by (simp add: pending_count_def p del: foldl.simps mq_step.simps)
  ultimately show ?thesis unfolding Let_def by (simp add: case_prod_beta del: foldl.simps mq_step.simps)
qed

end
