(* ===== verification/Ddl.thy ===== *)
theory Ddl
  imports Python_Text
begin

text \<open>
  The helpers that define tables, columns, indexes and extensions (\<^verbatim>\<open>obase/persistence/ddl.py\<close>) and what a list
  of their statements builds. A statement is what a helper is asked for, with the text it sends. A catalog holds
  the tables with their columns and the names of the indexes; what the server does is an argument.
\<close>

section \<open>Statements and their text\<close>

datatype statement =
    Create_table (guarded: bool) (schema: string) (table: string) "(string \<times> string) list"
  | Add_column (schema: string) (table: string) string string
  | Create_index (unique: bool) string (schema: string) (table: string) string string "(string \<times> string) list" string
  | Create_extension string

definition dq :: "string \<Rightarrow> string" where
  "dq s = CHR 0x22 # s @ [CHR 0x22]"

definition sq :: "string \<Rightarrow> string" where
  "sq s = CHR 0x27 # s @ [CHR 0x27]"

definition join_text :: "string \<Rightarrow> string list \<Rightarrow> string" where
  "join_text sep xs = (case xs of [] \<Rightarrow> '''' | y # ys \<Rightarrow> y @ concat (map (\<lambda>x. sep @ x) ys))"

fun sql_of :: "statement \<Rightarrow> string" where
  "sql_of (Create_table g s t cols) =
     ''CREATE TABLE '' @ (if g then ''IF NOT EXISTS '' else '''') @ dq s @ ''.'' @ dq t @ '' ('' @ CHR 0x0A #
     ''    '' @ join_text ('','' @ CHR 0x0A # ''    '') (map (\<lambda>(n, d). dq n @ '' '' @ d) cols) @ CHR 0x0A # '')''"
| "sql_of (Add_column s t c d) =
     ''ALTER TABLE '' @ dq s @ ''.'' @ dq t @ '' ADD COLUMN IF NOT EXISTS '' @ dq c @ '' '' @ d"
| "sql_of (Create_index u n s t cols using opts wh) =
     ''CREATE '' @ (if u then ''UNIQUE '' else '''') @ ''INDEX IF NOT EXISTS '' @ dq n @ '' ON '' @ dq s @ ''.'' @ dq t
     @ (if using = '''' then '''' else '' USING '' @ using) @ '' ('' @ cols @ '')''
     @ (if opts = [] then '''' else '' WITH ('' @ join_text '', '' (map (\<lambda>(k, v). k @ '' = '' @ v) opts) @ '')'')
     @ (if wh = '''' then '''' else '' WHERE '' @ wh)"
| "sql_of (Create_extension x) = ''CREATE EXTENSION IF NOT EXISTS '' @ dq x"

definition ensure_table :: "string \<Rightarrow> string \<Rightarrow> (string \<times> string) list \<Rightarrow> bool \<Rightarrow> statement" where
  "ensure_table sch tab cols if_not_exists = Create_table if_not_exists sch tab cols"

definition ensure_column :: "string \<Rightarrow> string \<Rightarrow> string \<Rightarrow> string \<Rightarrow> statement" where
  "ensure_column sch tab name column_def = Add_column sch tab name column_def"

definition ensure_index :: "string \<Rightarrow> string \<Rightarrow> string \<Rightarrow> string \<Rightarrow> string \<Rightarrow> (string \<times> string) list \<Rightarrow> string \<Rightarrow> statement" where
  "ensure_index sch tab name cols using options where_clause = Create_index False name sch tab cols using options where_clause"

definition ensure_extension :: "string \<Rightarrow> statement" where
  "ensure_extension x = Create_extension x"

section \<open>Catalogs\<close>

type_synonym columns = "(string \<times> string) list"

record catalog =
  tabs :: "((string \<times> string) \<times> columns) list"
  idxs :: "(string \<times> string) list"

definition empty_catalog :: catalog where
  "empty_catalog = \<lparr>tabs = [], idxs = []\<rparr>"

fun refs_in :: "string list \<Rightarrow> (string \<times> string) list" where
  "refs_in (w # v # r) =
     (if w = ''REFERENCES''
      then (takeWhile (\<lambda>c. c \<noteq> CHR ''('') v, takeWhile (\<lambda>c. c \<noteq> CHR '')'') (drop 1 (dropWhile (\<lambda>c. c \<noteq> CHR ''('') v))) # refs_in r
      else refs_in (v # r))"
| "refs_in _ = []"

text \<open>A column definition can be referenced when it is a key, and is safe to add when rows may lack a value.\<close>

definition references :: "string \<Rightarrow> (string \<times> string) list" where
  "references d = refs_in (words d)"

definition is_key :: "string \<Rightarrow> bool" where
  "is_key d = (''UNIQUE'' \<in> set (words d) \<or> take 2 (tl (words d)) = [''PRIMARY'', ''KEY''])"

definition has_key :: "columns \<Rightarrow> string \<Rightarrow> bool" where
  "has_key cols c = (case dict_get cols c of None \<Rightarrow> False | Some d \<Rightarrow> is_key d)"

definition refs_ok :: "((string \<times> string) \<times> columns) list \<Rightarrow> string \<Rightarrow> string \<Rightarrow> bool" where
  "refs_ok ts sch d = list_all (\<lambda>(t, c). case dict_get ts (sch, t) of None \<Rightarrow> False | Some cols \<Rightarrow> has_key cols c) (references d)"

definition indexed :: "string \<Rightarrow> string list" where
  "indexed cols = map (\<lambda>p. hd (words p @ [''''])) (split_on (CHR '','') cols)"

text \<open>A statement that finds what it asks for, one that can be carried out, and what it then adds.\<close>

fun satisfied :: "catalog \<Rightarrow> statement \<Rightarrow> bool" where
  "satisfied k (Create_table g s t cols) = (g \<and> dict_get (tabs k) (s, t) \<noteq> None)"
| "satisfied k (Add_column s t c d) = (case dict_get (tabs k) (s, t) of None \<Rightarrow> False | Some cols \<Rightarrow> dict_get cols c \<noteq> None)"
| "satisfied k (Create_index u n s t cols using opts wh) = ((s, n) \<in> set (idxs k))"
| "satisfied k (Create_extension x) = False"

fun possible :: "catalog \<Rightarrow> statement \<Rightarrow> bool" where
  "possible k (Create_table g s t cols) =
     (dict_get (tabs k) (s, t) = None \<and> distinct (map fst cols) \<and> list_all (\<lambda>(n, d). refs_ok (((s, t), cols) # tabs k) s d) cols)"
| "possible k (Add_column s t c d) =
     (case dict_get (tabs k) (s, t) of None \<Rightarrow> False
      | Some cols \<Rightarrow> dict_get cols c = None \<and> refs_ok (tabs k) s d \<and> (''NULL'' \<in> set (words d) \<longrightarrow> ''DEFAULT'' \<in> set (words d)))"
| "possible k (Create_index u n s t cols using opts wh) =
     (case dict_get (tabs k) (s, t) of None \<Rightarrow> False
      | Some cs \<Rightarrow> (s, n) \<notin> set (idxs k) \<and> list_all (\<lambda>c. dict_get cs c \<noteq> None) (indexed cols))"
| "possible k (Create_extension x) = False"

fun carried_out :: "statement \<Rightarrow> catalog \<Rightarrow> catalog" where
  "carried_out (Create_table g s t cols) k = k\<lparr>tabs := tabs k @ [((s, t), cols)]\<rparr>"
| "carried_out (Add_column s t c d) k =
     k\<lparr>tabs := map (\<lambda>(n, cols). (n, if n = (s, t) then cols @ [(c, d)] else cols)) (tabs k)\<rparr>"
| "carried_out (Create_index u n s t cols using opts wh) k = k\<lparr>idxs := idxs k @ [(s, n)]\<rparr>"
| "carried_out (Create_extension x) k = k"

text \<open>
  A server without rows keeps the catalog at a statement that finds what it asks for, and carries out one that
  is possible; it may refuse any other.
\<close>

definition serves :: "(statement \<Rightarrow> catalog \<Rightarrow> catalog option) \<Rightarrow> bool" where
  "serves exec \<longleftrightarrow> (\<forall>st k. (satisfied k st \<longrightarrow> exec st k = Some k) \<and> (\<not> satisfied k st \<and> possible k st \<longrightarrow> exec st k = Some (carried_out st k)))"

fun run_all :: "(statement \<Rightarrow> catalog \<Rightarrow> catalog option) \<Rightarrow> statement list \<Rightarrow> catalog \<Rightarrow> catalog option" where
  "run_all exec [] k = Some k"
| "run_all exec (st # sts) k = (case exec st k of None \<Rightarrow> None | Some k' \<Rightarrow> run_all exec sts k')"

text \<open>Every statement of the list is new and possible when its turn comes, and is recognised when it comes again.\<close>

fun buildable :: "statement list \<Rightarrow> catalog \<Rightarrow> bool" where
  "buildable [] k = True"
| "buildable (st # sts) k = (\<not> satisfied k st \<and> possible k st \<and> satisfied (carried_out st k) st \<and> buildable sts (carried_out st k))"

section \<open>Building and building again\<close>

lemma map_of_change: "map_of (map (\<lambda>(n, c). (n, if n = m then f c else c)) xs) k = (if k = m then map_option f (map_of xs k) else map_of xs k)"
  by (induction xs) auto

lemma satisfied_stays:
  assumes "satisfied k st"
  shows "satisfied (carried_out st' k) st"
proof -
  have t: "\<exists>cs'. dict_get (tabs (carried_out st' k)) x = Some cs' \<and> (\<forall>c. dict_get cs c \<noteq> None \<longrightarrow> dict_get cs' c \<noteq> None)"
    if "dict_get (tabs k) x = Some cs" for x cs
    using that by (cases st') (auto simp: map_of_change map_add_Some_iff)
  have i: "set (idxs k) \<subseteq> set (idxs (carried_out st' k))" by (cases st') auto
  show ?thesis
  proof (cases st)
    case (Create_table g s n cols)
    with assms t [of "(s, n)"] show ?thesis by auto
  next
    case (Add_column s n c d)
    with assms obtain cs where "dict_get (tabs k) (s, n) = Some cs" "dict_get cs c \<noteq> None" by (auto split: option.splits)
    with t [of "(s, n)" cs] Add_column show ?thesis by auto
  next
    case (Create_index u n s t cols meth opts wh)
    with assms i show ?thesis by auto
  next
    case (Create_extension x)
    with assms show ?thesis by simp
  qed
qed

lemma satisfied_fold: "satisfied k st \<Longrightarrow> satisfied (fold carried_out sts k) st"
  by (induction sts arbitrary: k) (auto simp: satisfied_stays)

lemma build:
  assumes "serves exec" "buildable sts k"
  shows "run_all exec sts k = Some (fold carried_out sts k)"
  using assms(2)
proof (induction sts arbitrary: k)
  case (Cons st sts)
  then have "exec st k = Some (carried_out st k)" using assms(1) by (auto simp: serves_def)
  with Cons show ?case by simp
qed simp

lemma built_satisfied: "buildable sts k \<Longrightarrow> list_all (satisfied (fold carried_out sts k)) sts"
  by (induction sts arbitrary: k) (auto simp: satisfied_fold)

lemma run_satisfied:
  assumes "serves exec" "list_all (satisfied k) sts"
  shows "run_all exec sts k = Some k"
  using assms(2) by (induction sts) (use assms(1) in \<open>auto simp: serves_def\<close>)

lemma run_append: "run_all exec (xs @ ys) k = (case run_all exec xs k of None \<Rightarrow> None | Some k' \<Rightarrow> run_all exec ys k')"
  by (induction xs arbitrary: k) (auto split: option.split)

lemma buildable_append: "buildable (xs @ ys) k \<longleftrightarrow> buildable xs k \<and> buildable ys (fold carried_out xs k)"
  by (induction xs arbitrary: k) auto

lemma build_resumes:
  assumes "serves exec" "buildable sts k"
  shows "run_all exec sts (fold carried_out (take n sts) k) = Some (fold carried_out sts k)"
proof -
  let ?k = "fold carried_out (take n sts) k"
  have b: "buildable (take n sts) k" "buildable (drop n sts) ?k"
    using assms(2) buildable_append [of "take n sts" "drop n sts" k] by simp_all
  have "run_all exec (take n sts) ?k = Some ?k" by (rule run_satisfied [OF assms(1) built_satisfied [OF b(1)]])
  moreover have "run_all exec (drop n sts) ?k = Some (fold carried_out (drop n sts) ?k)" by (rule build [OF assms(1) b(2)])
  moreover have "fold carried_out (drop n sts) ?k = fold carried_out sts k"
    by (metis append_take_drop_id fold_append comp_apply)
  ultimately show ?thesis using run_append [of exec "take n sts" "drop n sts" ?k] by simp
qed

section \<open>Outlines\<close>

text \<open>
  What of a statement decides whether it can be carried out: the columns with whether each is a key, the
  columns it refers to, the columns it indexes.
\<close>

datatype outline = Tab bool string "(string \<times> bool) list" "(string \<times> string) list"
  | Col string string bool "(string \<times> string) list" bool
  | Idx string string "string list"
  | Other

definition keys_of :: "columns \<Rightarrow> (string \<times> bool) list" where
  "keys_of cols = map (\<lambda>(n, d). (n, is_key d)) cols"

definition addable :: "string \<Rightarrow> bool" where
  "addable d = (''NULL'' \<in> set (words d) \<longrightarrow> ''DEFAULT'' \<in> set (words d))"

fun outline_of :: "statement \<Rightarrow> outline" where
  "outline_of (Create_table g s t cols) = Tab g t (keys_of cols) (concat (map (\<lambda>(n, d). references d) cols))"
| "outline_of (Add_column s t c d) = Col t c (is_key d) (references d) (addable d)"
| "outline_of (Create_index u n s t cols using opts wh) = Idx n t (indexed cols)"
| "outline_of (Create_extension x) = Other"

type_synonym sketch = "(string \<times> (string \<times> bool) list) list \<times> string list"

definition ref_known :: "(string \<times> (string \<times> bool) list) list \<Rightarrow> string \<times> string \<Rightarrow> bool" where
  "ref_known T r = (case dict_get T (fst r) of None \<Rightarrow> False | Some cs \<Rightarrow> dict_get cs (snd r) = Some True)"

fun outline_ok :: "outline \<Rightarrow> sketch \<Rightarrow> bool" where
  "outline_ok (Tab g t cols refs) (T, I) = (g \<and> dict_get T t = None \<and> distinct (map fst cols) \<and> list_all (ref_known ((t, cols) # T)) refs)"
| "outline_ok (Col t c key refs a) (T, I) = (case dict_get T t of None \<Rightarrow> False
     | Some cs \<Rightarrow> dict_get cs c = None \<and> list_all (ref_known T) refs \<and> a)"
| "outline_ok (Idx n t cols) (T, I) = (case dict_get T t of None \<Rightarrow> False
     | Some cs \<Rightarrow> n \<notin> set I \<and> list_all (\<lambda>c. dict_get cs c \<noteq> None) cols)"
| "outline_ok Other k = False"

fun outline_step :: "outline \<Rightarrow> sketch \<Rightarrow> sketch" where
  "outline_step (Tab g t cols refs) (T, I) = (T @ [(t, cols)], I)"
| "outline_step (Col t c key refs a) (T, I) = (map (\<lambda>(n, cols). (n, if n = t then cols @ [(c, key)] else cols)) T, I)"
| "outline_step (Idx n t cols) (T, I) = (T, I @ [n])"
| "outline_step Other k = k"

fun outlines_ok :: "outline list \<Rightarrow> sketch \<Rightarrow> bool" where
  "outlines_ok [] k = True"
| "outlines_ok (x # xs) k = (outline_ok x k \<and> outlines_ok xs (outline_step x k))"

fun schema_of :: "statement \<Rightarrow> string" where
  "schema_of (Create_table g s t cols) = s"
| "schema_of (Add_column s t c d) = s"
| "schema_of (Create_index u n s t cols using opts wh) = s"
| "schema_of (Create_extension x) = ''''"

definition known_tabs :: "((string \<times> string) \<times> columns) list \<Rightarrow> (string \<times> (string \<times> bool) list) list" where
  "known_tabs ts = map (\<lambda>x. (snd (fst x), keys_of (snd x))) ts"

definition sketch_of :: "catalog \<Rightarrow> sketch" where
  "sketch_of k = (known_tabs (tabs k), map snd (idxs k))"

definition one_schema :: "string \<Rightarrow> catalog \<Rightarrow> bool" where
  "one_schema s k \<longleftrightarrow> (\<forall>x \<in> set (tabs k). fst (fst x) = s) \<and> (\<forall>x \<in> set (idxs k). fst x = s)"

lemma known_get:
  assumes "\<And>x. x \<in> set ts \<Longrightarrow> fst (fst x) = s"
  shows "dict_get (known_tabs ts) t = map_option keys_of (dict_get ts (s, t))"
  using assms
proof (induction ts)
  case (Cons x ts)
  from Cons.prems have "fst (fst x) = s" by simp
  with Cons.IH Cons.prems show ?case by (cases "fst x") (auto simp: known_tabs_def)
qed (simp add: known_tabs_def)

lemma key_get: "dict_get (keys_of cols) c = map_option is_key (dict_get cols c)"
  by (induction cols) (auto simp: keys_of_def)

lemma known_simps: "known_tabs (x # ts) = (snd (fst x), keys_of (snd x)) # known_tabs ts"
  "known_tabs (ts @ us) = known_tabs ts @ known_tabs us"
  by (simp_all add: known_tabs_def)

lemma ref_known_refs:
  assumes "\<And>x. x \<in> set ts \<Longrightarrow> fst (fst x) = s"
  shows "list_all (ref_known (known_tabs ts)) (references d) = refs_ok ts s d"
proof -
  have "ref_known (known_tabs ts) r = (case r of (t, c) \<Rightarrow> case dict_get ts (s, t) of None \<Rightarrow> False | Some cols \<Rightarrow> has_key cols c)" for r
    by (cases r) (simp add: ref_known_def known_get [OF assms] key_get has_key_def split: option.split)
  then show ?thesis unfolding refs_ok_def by (intro list.pred_cong refl)
qed

lemma list_all_concat: "list_all P (concat xss) = list_all (list_all P) xss"
  by (induction xss) auto

lemma outline_possible:
  assumes "one_schema s k" "schema_of st = s" "outline_ok (outline_of st) (sketch_of k)"
  shows "\<not> satisfied k st \<and> possible k st \<and> satisfied (carried_out st k) st \<and> one_schema s (carried_out st k)
    \<and> sketch_of (carried_out st k) = outline_step (outline_of st) (sketch_of k)"
proof -
  have w: "\<And>x. x \<in> set (tabs k) \<Longrightarrow> fst (fst x) = s" and wi: "\<And>x. x \<in> set (idxs k) \<Longrightarrow> fst x = s"
    using assms(1) by (auto simp: one_schema_def)
  show ?thesis
  proof (cases st)
    case (Create_table g s' t cols)
    have s: "s' = s" using assms(2) Create_table by simp
    have ok: "g" "dict_get (tabs k) (s, t) = None" "distinct (map fst cols)"
      "list_all (ref_known (known_tabs (((s, t), cols) # tabs k))) (concat (map (\<lambda>(n, d). references d) cols))"
      using assms(3) known_get [OF w] by (auto simp: Create_table sketch_of_def known_simps keys_of_def comp_def case_prod_unfold)
    have "list_all (ref_known (known_tabs (((s, t), cols) # tabs k))) (references d) = refs_ok (((s, t), cols) # tabs k) s d" for d
      by (rule ref_known_refs) (use w in auto)
    with ok(4) have "list_all (\<lambda>(n, d). refs_ok (((s, t), cols) # tabs k) s d) cols"
      by (simp add: list_all_concat list.pred_map comp_def case_prod_unfold)
    with ok w wi show ?thesis
      by (auto simp: Create_table s sketch_of_def one_schema_def map_add_def known_simps) (auto simp: known_tabs_def)
  next
    case (Add_column s' t c d)
    have s: "s' = s" using assms(2) Add_column by simp
    obtain cs where cs: "dict_get (tabs k) (s, t) = Some cs" "dict_get cs c = None"
      and r: "list_all (ref_known (known_tabs (tabs k))) (references d)" "addable d"
      using assms(3) known_get [OF w] by (auto simp: Add_column sketch_of_def key_get split: option.splits)
    have "refs_ok (tabs k) s d" using r(1) ref_known_refs [OF w] by blast
    moreover have "known_tabs (map (\<lambda>(n, cols). (n, if n = (s, t) then cols @ [(c, d)] else cols)) (tabs k))
      = map (\<lambda>(n, cols). (n, if n = t then cols @ [(c, is_key d)] else cols)) (known_tabs (tabs k))"
      using w by (auto simp: known_tabs_def keys_of_def)
    ultimately show ?thesis using cs r(2) w wi
      by (auto simp: Add_column s sketch_of_def one_schema_def addable_def map_of_change)
  next
    case (Create_index u n s' t cols meth opts wh)
    have s: "s' = s" using assms(2) Create_index by simp
    have "n \<notin> snd ` set (idxs k) \<longleftrightarrow> (s, n) \<notin> set (idxs k)" using wi by force
    with assms(3) known_get [OF w] w wi show ?thesis
      by (auto simp: Create_index s sketch_of_def one_schema_def key_get split: option.splits)
  next
    case (Create_extension x)
    with assms(3) show ?thesis by simp
  qed
qed

lemma outlines_buildable:
  assumes "one_schema s k" "list_all (\<lambda>st. schema_of st = s) sts" "outlines_ok (map outline_of sts) (sketch_of k)"
  shows "buildable sts k"
  using assms by (induction sts arbitrary: k) (auto dest: outline_possible)

end
