(* ===== verification/CommerceSchema.thy ===== *)
theory CommerceSchema
  imports Ddl
begin

text \<open>
  The tables of the commerce batch vertical (\<^verbatim>\<open>obase/commerce_batch_schema.py\<close>): one definition for each
  function, the statements it asks for in order. The two texts the functions send themselves are unique indexes.
\<close>

definition SCHEMA :: string where "SCHEMA = ''public''"

definition unique_index :: "string \<Rightarrow> string \<Rightarrow> string \<Rightarrow> string \<Rightarrow> statement" where
  "unique_index name tab cols wh = Create_index True name SCHEMA tab cols '''' [] wh"

section \<open>Tables\<close>

definition ensure_stock_location_table :: "statement list" where
  "ensure_stock_location_table = [
    ensure_table SCHEMA ''stock_location'' [
      (''id'', ''UUID PRIMARY KEY''),
      (''name'', ''TEXT NOT NULL''),
      (''region_code'', ''TEXT NOT NULL''),
      (''lat'', ''DOUBLE PRECISION''),
      (''lng'', ''DOUBLE PRECISION''),
      (''channel_tags'', ''TEXT[] NOT NULL DEFAULT '' @ sq ''{}''),
      (''status'', ''TEXT NOT NULL DEFAULT '' @ sq ''active''),
      (''created_at'', ''TIMESTAMPTZ NOT NULL DEFAULT NOW()''),
      (''updated_at'', ''TIMESTAMPTZ''),
      (''deleted_at'', ''TIMESTAMPTZ'')] True]"

definition ensure_product_table :: "statement list" where
  "ensure_product_table = [
    ensure_table SCHEMA ''product'' [
      (''id'', ''UUID PRIMARY KEY''),
      (''title'', ''TEXT NOT NULL''),
      (''slug'', ''TEXT NOT NULL UNIQUE''),
      (''description'', ''TEXT''),
      (''category_id'', ''UUID''),
      (''status'', ''TEXT NOT NULL DEFAULT '' @ sq ''draft''),
      (''created_at'', ''TIMESTAMPTZ NOT NULL DEFAULT NOW()''),
      (''updated_at'', ''TIMESTAMPTZ''),
      (''deleted_at'', ''TIMESTAMPTZ'')] True]"

definition ensure_product_variant_table :: "statement list" where
  "ensure_product_variant_table = [
    ensure_table SCHEMA ''product_variant'' [
      (''id'', ''UUID PRIMARY KEY''),
      (''product_id'', ''UUID NOT NULL REFERENCES product(id)''),
      (''sku_code'', ''TEXT NOT NULL UNIQUE''),
      (''option_values'', ''JSONB NOT NULL DEFAULT '' @ sq ''{}''),
      (''reference_price_cents'', ''INTEGER CHECK (reference_price_cents IS NULL OR reference_price_cents >= 0)''),
      (''status'', ''TEXT NOT NULL DEFAULT '' @ sq ''active''),
      (''created_at'', ''TIMESTAMPTZ NOT NULL DEFAULT NOW()''),
      (''updated_at'', ''TIMESTAMPTZ''),
      (''deleted_at'', ''TIMESTAMPTZ'')] True,
    ensure_index SCHEMA ''product_variant'' ''idx_variant_product'' ''product_id'' ''btree'' [] '''']"

definition ensure_product_option_table :: "statement list" where
  "ensure_product_option_table = [
    ensure_table SCHEMA ''product_option'' [
      (''id'', ''UUID PRIMARY KEY''),
      (''product_id'', ''UUID NOT NULL REFERENCES product(id)''),
      (''name'', ''TEXT NOT NULL''),
      (''created_at'', ''TIMESTAMPTZ NOT NULL DEFAULT NOW()''),
      (''updated_at'', ''TIMESTAMPTZ''),
      (''deleted_at'', ''TIMESTAMPTZ'')] True,
    ensure_index SCHEMA ''product_option'' ''idx_product_option_product'' ''product_id'' ''btree'' [] '''']"

definition ensure_product_category_table :: "statement list" where
  "ensure_product_category_table = [
    ensure_table SCHEMA ''product_category'' [
      (''id'', ''UUID PRIMARY KEY''),
      (''name'', ''TEXT NOT NULL''),
      (''slug'', ''TEXT NOT NULL UNIQUE''),
      (''parent_id'', ''UUID REFERENCES product_category(id)''),
      (''lft'', ''INTEGER NOT NULL DEFAULT 0''),
      (''rgt'', ''INTEGER NOT NULL DEFAULT 0''),
      (''status'', ''TEXT NOT NULL DEFAULT '' @ sq ''active''),
      (''created_at'', ''TIMESTAMPTZ NOT NULL DEFAULT NOW()''),
      (''updated_at'', ''TIMESTAMPTZ''),
      (''deleted_at'', ''TIMESTAMPTZ'')] True,
    ensure_index SCHEMA ''product_category'' ''idx_product_category_parent'' ''parent_id'' ''btree'' [] '''']"

definition ensure_product_collection_table :: "statement list" where
  "ensure_product_collection_table = [
    ensure_table SCHEMA ''product_collection'' [
      (''id'', ''UUID PRIMARY KEY''),
      (''name'', ''TEXT NOT NULL''),
      (''slug'', ''TEXT NOT NULL UNIQUE''),
      (''status'', ''TEXT NOT NULL DEFAULT '' @ sq ''active''),
      (''created_at'', ''TIMESTAMPTZ NOT NULL DEFAULT NOW()''),
      (''updated_at'', ''TIMESTAMPTZ''),
      (''deleted_at'', ''TIMESTAMPTZ'')] True]"

definition ensure_product_collection_item_table :: "statement list" where
  "ensure_product_collection_item_table = [
    ensure_table SCHEMA ''product_collection_item'' [
      (''id'', ''UUID PRIMARY KEY''),
      (''collection_id'', ''UUID NOT NULL REFERENCES product_collection(id)''),
      (''product_id'', ''UUID NOT NULL REFERENCES product(id)''),
      (''created_at'', ''TIMESTAMPTZ NOT NULL DEFAULT NOW()'')] True,
    unique_index ''uq_collection_item_collection_product'' ''product_collection_item'' ''collection_id, product_id'' '''']"

definition ensure_inventory_batch_table :: "statement list" where
  "ensure_inventory_batch_table = [
    ensure_table SCHEMA ''inventory_batch'' [
      (''id'', ''UUID PRIMARY KEY''),
      (''batch_no'', ''TEXT NOT NULL UNIQUE''),
      (''variant_id'', ''UUID NOT NULL REFERENCES product_variant(id)''),
      (''location_id'', ''UUID NOT NULL REFERENCES stock_location(id)''),
      (''video_url'', ''TEXT NOT NULL''),
      (''media_assets'', ''JSONB NOT NULL DEFAULT '' @ sq ''[]''),
      (''cost_price_cents'', ''INTEGER NOT NULL CHECK (cost_price_cents >= 0)''),
      (''retail_price_cents'', ''INTEGER NOT NULL CHECK (retail_price_cents >= 0)''),
      (''currency'', ''TEXT NOT NULL DEFAULT '' @ sq ''CNY''),
      (''stock_qty'', ''INTEGER NOT NULL DEFAULT 0 CHECK (stock_qty >= 0)''),
      (''reserved_qty'', ''INTEGER NOT NULL DEFAULT 0 CHECK (reserved_qty >= 0 AND reserved_qty <= stock_qty)''),
      (''inspection_status'', ''TEXT NOT NULL DEFAULT '' @ sq ''pending''),
      (''inspected_by'', ''TEXT''),
      (''inspected_at'', ''TIMESTAMPTZ''),
      (''status'', ''TEXT NOT NULL DEFAULT '' @ sq ''active''),
      (''created_at'', ''TIMESTAMPTZ NOT NULL DEFAULT NOW()''),
      (''updated_at'', ''TIMESTAMPTZ''),
      (''deleted_at'', ''TIMESTAMPTZ'')] True,
    ensure_index SCHEMA ''inventory_batch'' ''idx_batch_variant_location_status'' ''variant_id, location_id, status'' ''btree'' [] '''',
    ensure_index SCHEMA ''inventory_batch'' ''idx_batch_location_status'' ''location_id, status'' ''btree'' [] '''']"

definition ensure_cart_table :: "statement list" where
  "ensure_cart_table = [
    ensure_table SCHEMA ''cart'' [
      (''id'', ''UUID PRIMARY KEY''),
      (''customer_id'', ''UUID''),
      (''region_code'', ''TEXT''),
      (''currency'', ''TEXT NOT NULL DEFAULT '' @ sq ''CNY''),
      (''status'', ''TEXT NOT NULL DEFAULT '' @ sq ''active''),
      (''subtotal_cents'', ''INTEGER NOT NULL DEFAULT 0 CHECK (subtotal_cents >= 0)''),
      (''discount_cents'', ''INTEGER NOT NULL DEFAULT 0 CHECK (discount_cents >= 0)''),
      (''tax_cents'', ''INTEGER NOT NULL DEFAULT 0 CHECK (tax_cents >= 0)''),
      (''shipping_cents'', ''INTEGER NOT NULL DEFAULT 0 CHECK (shipping_cents >= 0)''),
      (''grand_total_cents'', ''INTEGER NOT NULL DEFAULT 0 CHECK (grand_total_cents >= 0)''),
      (''created_at'', ''TIMESTAMPTZ NOT NULL DEFAULT NOW()''),
      (''updated_at'', ''TIMESTAMPTZ''),
      (''deleted_at'', ''TIMESTAMPTZ'')] True]"

definition ensure_cart_line_item_table :: "statement list" where
  "ensure_cart_line_item_table = [
    ensure_table SCHEMA ''cart_line_item'' [
      (''id'', ''UUID PRIMARY KEY''),
      (''cart_id'', ''UUID NOT NULL REFERENCES cart(id)''),
      (''batch_id'', ''UUID NOT NULL REFERENCES inventory_batch(id)''),
      (''quantity'', ''INTEGER NOT NULL CHECK (quantity > 0)''),
      (''unit_price_cents'', ''INTEGER NOT NULL CHECK (unit_price_cents >= 0)''),
      (''line_total_cents'', ''INTEGER NOT NULL CHECK (line_total_cents >= 0)''),
      (''created_at'', ''TIMESTAMPTZ NOT NULL DEFAULT NOW()''),
      (''updated_at'', ''TIMESTAMPTZ''),
      (''deleted_at'', ''TIMESTAMPTZ'')] True,
    ensure_index SCHEMA ''cart_line_item'' ''idx_line_item_cart'' ''cart_id'' ''btree'' [] '''',
    unique_index ''uq_line_item_cart_batch'' ''cart_line_item'' ''cart_id, batch_id'' ''deleted_at IS NULL'']"

definition ensure_cart_address_columns :: "statement list" where
  "ensure_cart_address_columns = map (\<lambda>c. ensure_column SCHEMA ''cart'' c ''JSONB'') [''billing_address'', ''shipping_address'']"

definition ensure_discount_table :: "statement list" where
  "ensure_discount_table = [
    ensure_table SCHEMA ''discount'' [
      (''id'', ''UUID PRIMARY KEY''),
      (''code'', ''TEXT NOT NULL UNIQUE''),
      (''status'', ''TEXT NOT NULL DEFAULT '' @ sq ''active''),
      (''created_at'', ''TIMESTAMPTZ NOT NULL DEFAULT NOW()''),
      (''updated_at'', ''TIMESTAMPTZ''),
      (''deleted_at'', ''TIMESTAMPTZ'')] True]"

definition ensure_discount_rule_table :: "statement list" where
  "ensure_discount_rule_table = [
    ensure_table SCHEMA ''discount_rule'' [
      (''id'', ''UUID PRIMARY KEY''),
      (''discount_id'', ''UUID NOT NULL UNIQUE REFERENCES discount(id)''),
      (''rule_type'', ''TEXT NOT NULL CHECK (rule_type IN ('' @ sq ''fixed'' @ '', '' @ sq ''percentage'' @ '', '' @ sq ''free_shipping'' @ ''))''),
      (''amount_cents'', ''INTEGER CHECK (amount_cents IS NULL OR amount_cents >= 0)''),
      (''percent'', ''NUMERIC CHECK (percent IS NULL OR (percent >= 0 AND percent <= 100))''),
      (''min_subtotal_cents'', ''INTEGER''),
      (''region_codes'', ''TEXT[]''),
      (''valid_from'', ''TIMESTAMPTZ''),
      (''valid_until'', ''TIMESTAMPTZ''),
      (''max_uses'', ''INTEGER''),
      (''uses_count'', ''INTEGER NOT NULL DEFAULT 0''),
      (''created_at'', ''TIMESTAMPTZ NOT NULL DEFAULT NOW()''),
      (''updated_at'', ''TIMESTAMPTZ'')] True]"

definition ensure_discount_condition_table :: "statement list" where
  "ensure_discount_condition_table = [
    ensure_table SCHEMA ''discount_condition'' [
      (''id'', ''UUID PRIMARY KEY''),
      (''discount_id'', ''UUID NOT NULL REFERENCES discount(id)''),
      (''condition_type'', ''TEXT NOT NULL CHECK (condition_type IN ('' @ sq ''product'' @ '', '' @ sq ''category'' @ '', '' @ sq ''all'' @ ''))''),
      (''target_id'', ''UUID''),
      (''created_at'', ''TIMESTAMPTZ NOT NULL DEFAULT NOW()'')] True,
    ensure_index SCHEMA ''discount_condition'' ''idx_discount_condition_discount'' ''discount_id'' ''btree'' [] '''']"

definition ensure_gift_card_table :: "statement list" where
  "ensure_gift_card_table = [
    ensure_table SCHEMA ''gift_card'' [
      (''id'', ''UUID PRIMARY KEY''),
      (''code'', ''TEXT NOT NULL UNIQUE''),
      (''initial_balance_cents'', ''INTEGER NOT NULL CHECK (initial_balance_cents >= 0)''),
      (''balance_cents'', ''INTEGER NOT NULL CHECK (balance_cents >= 0 AND balance_cents <= initial_balance_cents)''),
      (''currency'', ''TEXT NOT NULL DEFAULT '' @ sq ''CNY''),
      (''status'', ''TEXT NOT NULL DEFAULT '' @ sq ''active''),
      (''expires_at'', ''TIMESTAMPTZ''),
      (''created_at'', ''TIMESTAMPTZ NOT NULL DEFAULT NOW()''),
      (''updated_at'', ''TIMESTAMPTZ''),
      (''deleted_at'', ''TIMESTAMPTZ'')] True]"

definition ensure_cart_discount_table :: "statement list" where
  "ensure_cart_discount_table = [
    ensure_table SCHEMA ''cart_discount'' [
      (''id'', ''UUID PRIMARY KEY''),
      (''cart_id'', ''UUID NOT NULL REFERENCES cart(id)''),
      (''discount_id'', ''UUID NOT NULL REFERENCES discount(id)''),
      (''applied_amount_cents'', ''INTEGER NOT NULL CHECK (applied_amount_cents >= 0)''),
      (''created_at'', ''TIMESTAMPTZ NOT NULL DEFAULT NOW()''),
      (''deleted_at'', ''TIMESTAMPTZ'')] True,
    ensure_index SCHEMA ''cart_discount'' ''idx_cart_discount_cart'' ''cart_id'' ''btree'' [] '''',
    unique_index ''uq_cart_discount_active'' ''cart_discount'' ''cart_id, discount_id'' ''deleted_at IS NULL'']"

definition ensure_cart_gift_card_table :: "statement list" where
  "ensure_cart_gift_card_table = [
    ensure_table SCHEMA ''cart_gift_card'' [
      (''id'', ''UUID PRIMARY KEY''),
      (''cart_id'', ''UUID NOT NULL REFERENCES cart(id)''),
      (''gift_card_id'', ''UUID NOT NULL REFERENCES gift_card(id)''),
      (''applied_amount_cents'', ''INTEGER NOT NULL CHECK (applied_amount_cents >= 0)''),
      (''created_at'', ''TIMESTAMPTZ NOT NULL DEFAULT NOW()''),
      (''deleted_at'', ''TIMESTAMPTZ'')] True,
    ensure_index SCHEMA ''cart_gift_card'' ''idx_cart_gift_card_cart'' ''cart_id'' ''btree'' [] '''',
    unique_index ''uq_cart_gift_card_active'' ''cart_gift_card'' ''cart_id, gift_card_id'' ''deleted_at IS NULL'']"

definition ensure_payment_session_table :: "statement list" where
  "ensure_payment_session_table = [
    ensure_table SCHEMA ''payment_session'' [
      (''id'', ''UUID PRIMARY KEY''),
      (''cart_id'', ''UUID NOT NULL REFERENCES cart(id)''),
      (''provider_name'', ''TEXT NOT NULL''),
      (''amount_cents'', ''INTEGER NOT NULL CHECK (amount_cents >= 0)''),
      (''currency'', ''TEXT NOT NULL''),
      (''status'', ''TEXT NOT NULL DEFAULT '' @ sq ''authorized'' @ '' CHECK (status IN ('' @ sq ''authorized'' @ '', '' @ sq ''selected'' @ '', '' @ sq ''canceled'' @ '', '' @ sq ''failed'' @ ''))''),
      (''provider_intent_id'', ''TEXT''),
      (''error_message'', ''TEXT''),
      (''created_at'', ''TIMESTAMPTZ NOT NULL DEFAULT NOW()''),
      (''updated_at'', ''TIMESTAMPTZ''),
      (''deleted_at'', ''TIMESTAMPTZ'')] True,
    ensure_index SCHEMA ''payment_session'' ''idx_payment_session_cart'' ''cart_id'' ''btree'' [] '''',
    unique_index ''uq_payment_session_cart_provider'' ''payment_session'' ''cart_id, provider_name'' ''deleted_at IS NULL'']"

definition ensure_customer_order_table :: "statement list" where
  "ensure_customer_order_table = [
    ensure_table SCHEMA ''customer_order'' [
      (''id'', ''UUID PRIMARY KEY''),
      (''cart_id'', ''UUID UNIQUE REFERENCES cart(id)''),
      (''customer_id'', ''UUID''),
      (''region_code'', ''TEXT''),
      (''currency'', ''TEXT NOT NULL DEFAULT '' @ sq ''CNY''),
      (''status'', ''TEXT NOT NULL DEFAULT '' @ sq ''pending''),
      (''subtotal_cents'', ''INTEGER NOT NULL DEFAULT 0 CHECK (subtotal_cents >= 0)''),
      (''discount_cents'', ''INTEGER NOT NULL DEFAULT 0 CHECK (discount_cents >= 0)''),
      (''tax_cents'', ''INTEGER NOT NULL DEFAULT 0 CHECK (tax_cents >= 0)''),
      (''shipping_cents'', ''INTEGER NOT NULL DEFAULT 0 CHECK (shipping_cents >= 0)''),
      (''grand_total_cents'', ''INTEGER NOT NULL DEFAULT 0 CHECK (grand_total_cents >= 0)''),
      (''payment_provider_name'', ''TEXT''),
      (''payment_intent_id'', ''TEXT''),
      (''billing_address'', ''JSONB''),
      (''shipping_address'', ''JSONB''),
      (''created_at'', ''TIMESTAMPTZ NOT NULL DEFAULT NOW()''),
      (''updated_at'', ''TIMESTAMPTZ'')] True]"

definition ensure_order_line_item_table :: "statement list" where
  "ensure_order_line_item_table = [
    ensure_table SCHEMA ''order_line_item'' [
      (''id'', ''UUID PRIMARY KEY''),
      (''order_id'', ''UUID NOT NULL REFERENCES customer_order(id)''),
      (''batch_id'', ''UUID NOT NULL REFERENCES inventory_batch(id)''),
      (''quantity'', ''INTEGER NOT NULL CHECK (quantity > 0)''),
      (''unit_price_cents'', ''INTEGER NOT NULL CHECK (unit_price_cents >= 0)''),
      (''line_total_cents'', ''INTEGER NOT NULL CHECK (line_total_cents >= 0)''),
      (''created_at'', ''TIMESTAMPTZ NOT NULL DEFAULT NOW()'')] True,
    ensure_index SCHEMA ''order_line_item'' ''idx_order_line_item_order'' ''order_id'' ''btree'' [] '''']"

definition ensure_region_table :: "statement list" where
  "ensure_region_table = [
    ensure_table SCHEMA ''region'' [
      (''code'', ''TEXT PRIMARY KEY''),
      (''name'', ''TEXT NOT NULL''),
      (''currency'', ''TEXT NOT NULL''),
      (''payment_provider_names'', ''TEXT[] NOT NULL DEFAULT '' @ sq ''{}''),
      (''status'', ''TEXT NOT NULL DEFAULT '' @ sq ''active''),
      (''created_at'', ''TIMESTAMPTZ NOT NULL DEFAULT NOW()''),
      (''updated_at'', ''TIMESTAMPTZ''),
      (''deleted_at'', ''TIMESTAMPTZ'')] True]"

definition ensure_tax_rate_table :: "statement list" where
  "ensure_tax_rate_table = [
    ensure_table SCHEMA ''tax_rate'' [
      (''id'', ''UUID PRIMARY KEY''),
      (''region_code'', ''TEXT NOT NULL REFERENCES region(code)''),
      (''name'', ''TEXT NOT NULL''),
      (''rate_percent'', ''NUMERIC NOT NULL CHECK (rate_percent >= 0 AND rate_percent <= 100)''),
      (''status'', ''TEXT NOT NULL DEFAULT '' @ sq ''active''),
      (''created_at'', ''TIMESTAMPTZ NOT NULL DEFAULT NOW()''),
      (''updated_at'', ''TIMESTAMPTZ''),
      (''deleted_at'', ''TIMESTAMPTZ'')] True,
    ensure_index SCHEMA ''tax_rate'' ''idx_tax_rate_region'' ''region_code'' ''btree'' [] '''']"

definition ensure_app_user_table :: "statement list" where
  "ensure_app_user_table = [
    ensure_table SCHEMA ''app_user'' [
      (''id'', ''UUID PRIMARY KEY''),
      (''email'', ''TEXT NOT NULL UNIQUE''),
      (''password_hash'', ''TEXT NOT NULL''),
      (''name'', ''TEXT''),
      (''status'', ''TEXT NOT NULL DEFAULT '' @ sq ''active''),
      (''reset_token'', ''TEXT''),
      (''reset_token_expires_at'', ''TIMESTAMPTZ''),
      (''created_at'', ''TIMESTAMPTZ NOT NULL DEFAULT NOW()''),
      (''updated_at'', ''TIMESTAMPTZ''),
      (''deleted_at'', ''TIMESTAMPTZ'')] True]"

definition ensure_customer_group_table :: "statement list" where
  "ensure_customer_group_table = [
    ensure_table SCHEMA ''customer_group'' [
      (''id'', ''UUID PRIMARY KEY''),
      (''name'', ''TEXT NOT NULL''),
      (''created_at'', ''TIMESTAMPTZ NOT NULL DEFAULT NOW()''),
      (''updated_at'', ''TIMESTAMPTZ''),
      (''deleted_at'', ''TIMESTAMPTZ'')] True]"

definition ensure_customer_table :: "statement list" where
  "ensure_customer_table = [
    ensure_table SCHEMA ''customer'' [
      (''id'', ''UUID PRIMARY KEY''),
      (''email'', ''TEXT NOT NULL UNIQUE''),
      (''phone'', ''TEXT''),
      (''name'', ''TEXT''),
      (''customer_group_id'', ''UUID REFERENCES customer_group(id)''),
      (''status'', ''TEXT NOT NULL DEFAULT '' @ sq ''active''),
      (''created_at'', ''TIMESTAMPTZ NOT NULL DEFAULT NOW()''),
      (''updated_at'', ''TIMESTAMPTZ''),
      (''deleted_at'', ''TIMESTAMPTZ'')] True,
    ensure_index SCHEMA ''customer'' ''idx_customer_group'' ''customer_group_id'' ''btree'' [] '''']"

definition ensure_customer_address_table :: "statement list" where
  "ensure_customer_address_table = [
    ensure_table SCHEMA ''customer_address'' [
      (''id'', ''UUID PRIMARY KEY''),
      (''customer_id'', ''UUID NOT NULL REFERENCES customer(id)''),
      (''recipient_name'', ''TEXT NOT NULL''),
      (''phone'', ''TEXT NOT NULL''),
      (''address_line1'', ''TEXT NOT NULL''),
      (''address_line2'', ''TEXT NOT NULL DEFAULT '' @ sq ''''),
      (''city'', ''TEXT NOT NULL''),
      (''region_code'', ''TEXT''),
      (''postal_code'', ''TEXT NOT NULL''),
      (''is_default'', ''BOOLEAN NOT NULL DEFAULT false''),
      (''created_at'', ''TIMESTAMPTZ NOT NULL DEFAULT NOW()''),
      (''updated_at'', ''TIMESTAMPTZ''),
      (''deleted_at'', ''TIMESTAMPTZ'')] True,
    ensure_index SCHEMA ''customer_address'' ''idx_customer_address_customer'' ''customer_id'' ''btree'' [] '''']"

definition ensure_price_list_table :: "statement list" where
  "ensure_price_list_table = [
    ensure_table SCHEMA ''price_list'' [
      (''id'', ''UUID PRIMARY KEY''),
      (''name'', ''TEXT NOT NULL''),
      (''currency'', ''TEXT NOT NULL''),
      (''starts_at'', ''TIMESTAMPTZ''),
      (''ends_at'', ''TIMESTAMPTZ''),
      (''status'', ''TEXT NOT NULL DEFAULT '' @ sq ''active''),
      (''created_at'', ''TIMESTAMPTZ NOT NULL DEFAULT NOW()''),
      (''updated_at'', ''TIMESTAMPTZ''),
      (''deleted_at'', ''TIMESTAMPTZ'')] True]"

definition ensure_price_list_item_table :: "statement list" where
  "ensure_price_list_item_table = [
    ensure_table SCHEMA ''price_list_item'' [
      (''id'', ''UUID PRIMARY KEY''),
      (''price_list_id'', ''UUID NOT NULL REFERENCES price_list(id)''),
      (''variant_id'', ''UUID NOT NULL REFERENCES product_variant(id)''),
      (''price_cents'', ''INTEGER NOT NULL CHECK (price_cents >= 0)''),
      (''created_at'', ''TIMESTAMPTZ NOT NULL DEFAULT NOW()''),
      (''updated_at'', ''TIMESTAMPTZ'')] True,
    unique_index ''uq_price_list_item_list_variant'' ''price_list_item'' ''price_list_id, variant_id'' '''']"

definition ensure_sales_channel_table :: "statement list" where
  "ensure_sales_channel_table = [
    ensure_table SCHEMA ''sales_channel'' [
      (''id'', ''UUID PRIMARY KEY''),
      (''name'', ''TEXT NOT NULL''),
      (''status'', ''TEXT NOT NULL DEFAULT '' @ sq ''active''),
      (''created_at'', ''TIMESTAMPTZ NOT NULL DEFAULT NOW()''),
      (''updated_at'', ''TIMESTAMPTZ''),
      (''deleted_at'', ''TIMESTAMPTZ'')] True]"

definition ensure_sales_channel_product_table :: "statement list" where
  "ensure_sales_channel_product_table = [
    ensure_table SCHEMA ''sales_channel_product'' [
      (''id'', ''UUID PRIMARY KEY''),
      (''channel_id'', ''UUID NOT NULL REFERENCES sales_channel(id)''),
      (''product_id'', ''UUID NOT NULL REFERENCES product(id)''),
      (''created_at'', ''TIMESTAMPTZ NOT NULL DEFAULT NOW()'')] True,
    unique_index ''uq_sales_channel_product_channel_product'' ''sales_channel_product'' ''channel_id, product_id'' '''']"

definition ensure_customer_order_refunded_column :: "statement list" where
  "ensure_customer_order_refunded_column = [
    ensure_column SCHEMA ''customer_order'' ''refunded_cents'' (''INTEGER NOT NULL DEFAULT 0 CHECK (refunded_cents >= 0)'')]"

definition ensure_fulfillment_table :: "statement list" where
  "ensure_fulfillment_table = [
    ensure_table SCHEMA ''fulfillment'' [
      (''id'', ''UUID PRIMARY KEY''),
      (''order_id'', ''UUID NOT NULL REFERENCES customer_order(id)''),
      (''status'', ''TEXT NOT NULL DEFAULT '' @ sq ''created''),
      (''items'', ''JSONB NOT NULL''),
      (''provider_name'', ''TEXT''),
      (''tracking_number'', ''TEXT''),
      (''carrier'', ''TEXT''),
      (''created_at'', ''TIMESTAMPTZ NOT NULL DEFAULT NOW()''),
      (''updated_at'', ''TIMESTAMPTZ'')] True,
    ensure_index SCHEMA ''fulfillment'' ''idx_fulfillment_order'' ''order_id'' ''btree'' [] '''']"

definition ensure_return_request_table :: "statement list" where
  "ensure_return_request_table = [
    ensure_table SCHEMA ''return_request'' [
      (''id'', ''UUID PRIMARY KEY''),
      (''order_id'', ''UUID NOT NULL REFERENCES customer_order(id)''),
      (''status'', ''TEXT NOT NULL DEFAULT '' @ sq ''requested''),
      (''items'', ''JSONB NOT NULL''),
      (''refund_amount_cents'', ''INTEGER''),
      (''created_at'', ''TIMESTAMPTZ NOT NULL DEFAULT NOW()''),
      (''updated_at'', ''TIMESTAMPTZ'')] True,
    ensure_index SCHEMA ''return_request'' ''idx_return_request_order'' ''order_id'' ''btree'' [] '''']"

definition ensure_swap_table :: "statement list" where
  "ensure_swap_table = [
    ensure_table SCHEMA ''swap'' [
      (''id'', ''UUID PRIMARY KEY''),
      (''order_id'', ''UUID NOT NULL REFERENCES customer_order(id)''),
      (''status'', ''TEXT NOT NULL DEFAULT '' @ sq ''requested''),
      (''return_items'', ''JSONB NOT NULL''),
      (''new_items'', ''JSONB NOT NULL''),
      (''price_difference_cents'', ''INTEGER NOT NULL DEFAULT 0''),
      (''payment_status'', ''TEXT NOT NULL DEFAULT '' @ sq ''not_paid''),
      (''fulfillment_id'', ''UUID REFERENCES fulfillment(id)''),
      (''created_at'', ''TIMESTAMPTZ NOT NULL DEFAULT NOW()''),
      (''updated_at'', ''TIMESTAMPTZ'')] True,
    ensure_index SCHEMA ''swap'' ''idx_swap_order'' ''order_id'' ''btree'' [] '''']"

definition ensure_claim_table :: "statement list" where
  "ensure_claim_table = [
    ensure_table SCHEMA ''claim'' [
      (''id'', ''UUID PRIMARY KEY''),
      (''order_id'', ''UUID NOT NULL REFERENCES customer_order(id)''),
      (''status'', ''TEXT NOT NULL DEFAULT '' @ sq ''pending''),
      (''claim_type'', ''TEXT NOT NULL DEFAULT '' @ sq ''refund''),
      (''items'', ''JSONB NOT NULL''),
      (''refund_amount_cents'', ''INTEGER''),
      (''new_items'', ''JSONB''),
      (''fulfillment_id'', ''UUID REFERENCES fulfillment(id)''),
      (''created_at'', ''TIMESTAMPTZ NOT NULL DEFAULT NOW()''),
      (''updated_at'', ''TIMESTAMPTZ'')] True,
    ensure_index SCHEMA ''claim'' ''idx_claim_order'' ''order_id'' ''btree'' [] '''']"

definition ensure_batch_job_table :: "statement list" where
  "ensure_batch_job_table = [
    ensure_table SCHEMA ''batch_job'' [
      (''id'', ''UUID PRIMARY KEY''),
      (''job_type'', ''TEXT NOT NULL''),
      (''status'', ''TEXT NOT NULL DEFAULT '' @ sq ''created''),
      (''payload'', ''JSONB''),
      (''result'', ''JSONB''),
      (''created_at'', ''TIMESTAMPTZ NOT NULL DEFAULT NOW()''),
      (''updated_at'', ''TIMESTAMPTZ'')] True]"

definition ensure_commerce_batch_schema :: "statement list" where
  "ensure_commerce_batch_schema = concat [
    ensure_region_table,
    ensure_tax_rate_table,
    ensure_app_user_table,
    ensure_customer_group_table,
    ensure_customer_table,
    ensure_customer_address_table,
    ensure_stock_location_table,
    ensure_product_table,
    ensure_product_variant_table,
    ensure_product_option_table,
    ensure_product_category_table,
    ensure_product_collection_table,
    ensure_product_collection_item_table,
    ensure_price_list_table,
    ensure_price_list_item_table,
    ensure_sales_channel_table,
    ensure_sales_channel_product_table,
    ensure_inventory_batch_table,
    ensure_cart_table,
    ensure_cart_line_item_table,
    ensure_cart_address_columns,
    ensure_discount_table,
    ensure_discount_rule_table,
    ensure_discount_condition_table,
    ensure_gift_card_table,
    ensure_cart_discount_table,
    ensure_cart_gift_card_table,
    ensure_payment_session_table,
    ensure_customer_order_table,
    ensure_order_line_item_table,
    ensure_customer_order_refunded_column,
    ensure_fulfillment_table,
    ensure_return_request_table,
    ensure_swap_table,
    ensure_claim_table,
    ensure_batch_job_table]"

section \<open>Building the schema\<close>

lemmas statement_defs = ensure_table_def ensure_column_def ensure_index_def unique_index_def SCHEMA_def

lemma column_keys:
  "is_key (''UUID PRIMARY KEY'') = True"
  "is_key (''TEXT NOT NULL'') = False"
  "is_key (''DOUBLE PRECISION'') = False"
  "is_key (''TEXT[] NOT NULL DEFAULT '' @ sq ''{}'') = False"
  "is_key (''TEXT NOT NULL DEFAULT '' @ sq ''active'') = False"
  "is_key (''TIMESTAMPTZ NOT NULL DEFAULT NOW()'') = False"
  "is_key (''TIMESTAMPTZ'') = False"
  "is_key (''TEXT NOT NULL UNIQUE'') = True"
  "is_key (''TEXT'') = False"
  "is_key (''UUID'') = False"
  "is_key (''TEXT NOT NULL DEFAULT '' @ sq ''draft'') = False"
  "is_key (''UUID NOT NULL REFERENCES product(id)'') = False"
  "is_key (''JSONB NOT NULL DEFAULT '' @ sq ''{}'') = False"
  "is_key (''INTEGER CHECK (reference_price_cents IS NULL OR reference_price_cents >= 0)'') = False"
  "is_key (''UUID REFERENCES product_category(id)'') = False"
  "is_key (''INTEGER NOT NULL DEFAULT 0'') = False"
  "is_key (''UUID NOT NULL REFERENCES product_collection(id)'') = False"
  "is_key (''UUID NOT NULL REFERENCES product_variant(id)'') = False"
  "is_key (''UUID NOT NULL REFERENCES stock_location(id)'') = False"
  "is_key (''JSONB NOT NULL DEFAULT '' @ sq ''[]'') = False"
  "is_key (''INTEGER NOT NULL CHECK (cost_price_cents >= 0)'') = False"
  "is_key (''INTEGER NOT NULL CHECK (retail_price_cents >= 0)'') = False"
  "is_key (''TEXT NOT NULL DEFAULT '' @ sq ''CNY'') = False"
  "is_key (''INTEGER NOT NULL DEFAULT 0 CHECK (stock_qty >= 0)'') = False"
  "is_key (''INTEGER NOT NULL DEFAULT 0 CHECK (reserved_qty >= 0 AND reserved_qty <= stock_qty)'') = False"
  "is_key (''TEXT NOT NULL DEFAULT '' @ sq ''pending'') = False"
  "is_key (''INTEGER NOT NULL DEFAULT 0 CHECK (subtotal_cents >= 0)'') = False"
  "is_key (''INTEGER NOT NULL DEFAULT 0 CHECK (discount_cents >= 0)'') = False"
  "is_key (''INTEGER NOT NULL DEFAULT 0 CHECK (tax_cents >= 0)'') = False"
  "is_key (''INTEGER NOT NULL DEFAULT 0 CHECK (shipping_cents >= 0)'') = False"
  "is_key (''INTEGER NOT NULL DEFAULT 0 CHECK (grand_total_cents >= 0)'') = False"
  "is_key (''UUID NOT NULL REFERENCES cart(id)'') = False"
  "is_key (''UUID NOT NULL REFERENCES inventory_batch(id)'') = False"
  "is_key (''INTEGER NOT NULL CHECK (quantity > 0)'') = False"
  "is_key (''INTEGER NOT NULL CHECK (unit_price_cents >= 0)'') = False"
  "is_key (''INTEGER NOT NULL CHECK (line_total_cents >= 0)'') = False"
  "is_key (''JSONB'') = False"
  "is_key (''UUID NOT NULL UNIQUE REFERENCES discount(id)'') = True"
  "is_key (''TEXT NOT NULL CHECK (rule_type IN ('' @ sq ''fixed'' @ '', '' @ sq ''percentage'' @ '', '' @ sq ''free_shipping'' @ ''))'') = False"
  "is_key (''INTEGER CHECK (amount_cents IS NULL OR amount_cents >= 0)'') = False"
  "is_key (''NUMERIC CHECK (percent IS NULL OR (percent >= 0 AND percent <= 100))'') = False"
  "is_key (''INTEGER'') = False"
  "is_key (''TEXT[]'') = False"
  "is_key (''UUID NOT NULL REFERENCES discount(id)'') = False"
  "is_key (''TEXT NOT NULL CHECK (condition_type IN ('' @ sq ''product'' @ '', '' @ sq ''category'' @ '', '' @ sq ''all'' @ ''))'') = False"
  "is_key (''INTEGER NOT NULL CHECK (initial_balance_cents >= 0)'') = False"
  "is_key (''INTEGER NOT NULL CHECK (balance_cents >= 0 AND balance_cents <= initial_balance_cents)'') = False"
  "is_key (''INTEGER NOT NULL CHECK (applied_amount_cents >= 0)'') = False"
  "is_key (''UUID NOT NULL REFERENCES gift_card(id)'') = False"
  "is_key (''INTEGER NOT NULL CHECK (amount_cents >= 0)'') = False"
  "is_key (''TEXT NOT NULL DEFAULT '' @ sq ''authorized'' @ '' CHECK (status IN ('' @ sq ''authorized'' @ '', '' @ sq ''selected'' @ '', '' @ sq ''canceled'' @ '', '' @ sq ''failed'' @ ''))'') = False"
  "is_key (''UUID UNIQUE REFERENCES cart(id)'') = True"
  "is_key (''UUID NOT NULL REFERENCES customer_order(id)'') = False"
  "is_key (''TEXT PRIMARY KEY'') = True"
  "is_key (''TEXT NOT NULL REFERENCES region(code)'') = False"
  "is_key (''NUMERIC NOT NULL CHECK (rate_percent >= 0 AND rate_percent <= 100)'') = False"
  "is_key (''UUID REFERENCES customer_group(id)'') = False"
  "is_key (''UUID NOT NULL REFERENCES customer(id)'') = False"
  "is_key (''TEXT NOT NULL DEFAULT '' @ sq '''') = False"
  "is_key (''BOOLEAN NOT NULL DEFAULT false'') = False"
  "is_key (''UUID NOT NULL REFERENCES price_list(id)'') = False"
  "is_key (''INTEGER NOT NULL CHECK (price_cents >= 0)'') = False"
  "is_key (''UUID NOT NULL REFERENCES sales_channel(id)'') = False"
  "is_key (''INTEGER NOT NULL DEFAULT 0 CHECK (refunded_cents >= 0)'') = False"
  "is_key (''TEXT NOT NULL DEFAULT '' @ sq ''created'') = False"
  "is_key (''JSONB NOT NULL'') = False"
  "is_key (''TEXT NOT NULL DEFAULT '' @ sq ''requested'') = False"
  "is_key (''TEXT NOT NULL DEFAULT '' @ sq ''not_paid'') = False"
  "is_key (''UUID REFERENCES fulfillment(id)'') = False"
  "is_key (''TEXT NOT NULL DEFAULT '' @ sq ''refund'') = False"
  by (simp_all add: is_key_def words_def white_space_def sq_def)

lemma column_references:
  "references (''UUID PRIMARY KEY'') = []"
  "references (''TEXT NOT NULL'') = []"
  "references (''DOUBLE PRECISION'') = []"
  "references (''TEXT[] NOT NULL DEFAULT '' @ sq ''{}'') = []"
  "references (''TEXT NOT NULL DEFAULT '' @ sq ''active'') = []"
  "references (''TIMESTAMPTZ NOT NULL DEFAULT NOW()'') = []"
  "references (''TIMESTAMPTZ'') = []"
  "references (''TEXT NOT NULL UNIQUE'') = []"
  "references (''TEXT'') = []"
  "references (''UUID'') = []"
  "references (''TEXT NOT NULL DEFAULT '' @ sq ''draft'') = []"
  "references (''UUID NOT NULL REFERENCES product(id)'') = [(''product'', ''id'')]"
  "references (''JSONB NOT NULL DEFAULT '' @ sq ''{}'') = []"
  "references (''INTEGER CHECK (reference_price_cents IS NULL OR reference_price_cents >= 0)'') = []"
  "references (''UUID REFERENCES product_category(id)'') = [(''product_category'', ''id'')]"
  "references (''INTEGER NOT NULL DEFAULT 0'') = []"
  "references (''UUID NOT NULL REFERENCES product_collection(id)'') = [(''product_collection'', ''id'')]"
  "references (''UUID NOT NULL REFERENCES product_variant(id)'') = [(''product_variant'', ''id'')]"
  "references (''UUID NOT NULL REFERENCES stock_location(id)'') = [(''stock_location'', ''id'')]"
  "references (''JSONB NOT NULL DEFAULT '' @ sq ''[]'') = []"
  "references (''INTEGER NOT NULL CHECK (cost_price_cents >= 0)'') = []"
  "references (''INTEGER NOT NULL CHECK (retail_price_cents >= 0)'') = []"
  "references (''TEXT NOT NULL DEFAULT '' @ sq ''CNY'') = []"
  "references (''INTEGER NOT NULL DEFAULT 0 CHECK (stock_qty >= 0)'') = []"
  "references (''INTEGER NOT NULL DEFAULT 0 CHECK (reserved_qty >= 0 AND reserved_qty <= stock_qty)'') = []"
  "references (''TEXT NOT NULL DEFAULT '' @ sq ''pending'') = []"
  "references (''INTEGER NOT NULL DEFAULT 0 CHECK (subtotal_cents >= 0)'') = []"
  "references (''INTEGER NOT NULL DEFAULT 0 CHECK (discount_cents >= 0)'') = []"
  "references (''INTEGER NOT NULL DEFAULT 0 CHECK (tax_cents >= 0)'') = []"
  "references (''INTEGER NOT NULL DEFAULT 0 CHECK (shipping_cents >= 0)'') = []"
  "references (''INTEGER NOT NULL DEFAULT 0 CHECK (grand_total_cents >= 0)'') = []"
  "references (''UUID NOT NULL REFERENCES cart(id)'') = [(''cart'', ''id'')]"
  "references (''UUID NOT NULL REFERENCES inventory_batch(id)'') = [(''inventory_batch'', ''id'')]"
  "references (''INTEGER NOT NULL CHECK (quantity > 0)'') = []"
  "references (''INTEGER NOT NULL CHECK (unit_price_cents >= 0)'') = []"
  "references (''INTEGER NOT NULL CHECK (line_total_cents >= 0)'') = []"
  "references (''JSONB'') = []"
  "references (''UUID NOT NULL UNIQUE REFERENCES discount(id)'') = [(''discount'', ''id'')]"
  "references (''TEXT NOT NULL CHECK (rule_type IN ('' @ sq ''fixed'' @ '', '' @ sq ''percentage'' @ '', '' @ sq ''free_shipping'' @ ''))'') = []"
  "references (''INTEGER CHECK (amount_cents IS NULL OR amount_cents >= 0)'') = []"
  "references (''NUMERIC CHECK (percent IS NULL OR (percent >= 0 AND percent <= 100))'') = []"
  "references (''INTEGER'') = []"
  "references (''TEXT[]'') = []"
  "references (''UUID NOT NULL REFERENCES discount(id)'') = [(''discount'', ''id'')]"
  "references (''TEXT NOT NULL CHECK (condition_type IN ('' @ sq ''product'' @ '', '' @ sq ''category'' @ '', '' @ sq ''all'' @ ''))'') = []"
  "references (''INTEGER NOT NULL CHECK (initial_balance_cents >= 0)'') = []"
  "references (''INTEGER NOT NULL CHECK (balance_cents >= 0 AND balance_cents <= initial_balance_cents)'') = []"
  "references (''INTEGER NOT NULL CHECK (applied_amount_cents >= 0)'') = []"
  "references (''UUID NOT NULL REFERENCES gift_card(id)'') = [(''gift_card'', ''id'')]"
  "references (''INTEGER NOT NULL CHECK (amount_cents >= 0)'') = []"
  "references (''TEXT NOT NULL DEFAULT '' @ sq ''authorized'' @ '' CHECK (status IN ('' @ sq ''authorized'' @ '', '' @ sq ''selected'' @ '', '' @ sq ''canceled'' @ '', '' @ sq ''failed'' @ ''))'') = []"
  "references (''UUID UNIQUE REFERENCES cart(id)'') = [(''cart'', ''id'')]"
  "references (''UUID NOT NULL REFERENCES customer_order(id)'') = [(''customer_order'', ''id'')]"
  "references (''TEXT PRIMARY KEY'') = []"
  "references (''TEXT NOT NULL REFERENCES region(code)'') = [(''region'', ''code'')]"
  "references (''NUMERIC NOT NULL CHECK (rate_percent >= 0 AND rate_percent <= 100)'') = []"
  "references (''UUID REFERENCES customer_group(id)'') = [(''customer_group'', ''id'')]"
  "references (''UUID NOT NULL REFERENCES customer(id)'') = [(''customer'', ''id'')]"
  "references (''TEXT NOT NULL DEFAULT '' @ sq '''') = []"
  "references (''BOOLEAN NOT NULL DEFAULT false'') = []"
  "references (''UUID NOT NULL REFERENCES price_list(id)'') = [(''price_list'', ''id'')]"
  "references (''INTEGER NOT NULL CHECK (price_cents >= 0)'') = []"
  "references (''UUID NOT NULL REFERENCES sales_channel(id)'') = [(''sales_channel'', ''id'')]"
  "references (''INTEGER NOT NULL DEFAULT 0 CHECK (refunded_cents >= 0)'') = []"
  "references (''TEXT NOT NULL DEFAULT '' @ sq ''created'') = []"
  "references (''JSONB NOT NULL'') = []"
  "references (''TEXT NOT NULL DEFAULT '' @ sq ''requested'') = []"
  "references (''TEXT NOT NULL DEFAULT '' @ sq ''not_paid'') = []"
  "references (''UUID REFERENCES fulfillment(id)'') = [(''fulfillment'', ''id'')]"
  "references (''TEXT NOT NULL DEFAULT '' @ sq ''refund'') = []"
  by (simp_all add: references_def words_def white_space_def sq_def)

lemmas column_facts = column_keys [simplified sq_def append.simps] column_references [simplified sq_def append.simps]

lemmas statement_facts = statement_defs keys_of_def sq_def addable_def indexed_def words_def white_space_def

lemma stock_location_table_outline:
  "map outline_of ensure_stock_location_table = [Tab True ''stock_location'' [(''id'', True), (''name'', False), (''region_code'', False), (''lat'', False), (''lng'', False), (''channel_tags'', False), (''status'', False), (''created_at'', False), (''updated_at'', False), (''deleted_at'', False)] []]"
  by (simp add: ensure_stock_location_table_def statement_facts column_facts)

lemma product_table_outline:
  "map outline_of ensure_product_table = [Tab True ''product'' [(''id'', True), (''title'', False), (''slug'', True), (''description'', False), (''category_id'', False), (''status'', False), (''created_at'', False), (''updated_at'', False), (''deleted_at'', False)] []]"
  by (simp add: ensure_product_table_def statement_facts column_facts)

lemma product_variant_table_outline:
  "map outline_of ensure_product_variant_table = [Tab True ''product_variant'' [(''id'', True), (''product_id'', False), (''sku_code'', True), (''option_values'', False), (''reference_price_cents'', False), (''status'', False), (''created_at'', False), (''updated_at'', False), (''deleted_at'', False)] [(''product'', ''id'')],
     Idx ''idx_variant_product'' ''product_variant'' [''product_id'']]"
  by (simp add: ensure_product_variant_table_def statement_facts column_facts)

lemma product_option_table_outline:
  "map outline_of ensure_product_option_table = [Tab True ''product_option'' [(''id'', True), (''product_id'', False), (''name'', False), (''created_at'', False), (''updated_at'', False), (''deleted_at'', False)] [(''product'', ''id'')],
     Idx ''idx_product_option_product'' ''product_option'' [''product_id'']]"
  by (simp add: ensure_product_option_table_def statement_facts column_facts)

lemma product_category_table_outline:
  "map outline_of ensure_product_category_table = [Tab True ''product_category'' [(''id'', True), (''name'', False), (''slug'', True), (''parent_id'', False), (''lft'', False), (''rgt'', False), (''status'', False), (''created_at'', False), (''updated_at'', False), (''deleted_at'', False)] [(''product_category'', ''id'')],
     Idx ''idx_product_category_parent'' ''product_category'' [''parent_id'']]"
  by (simp add: ensure_product_category_table_def statement_facts column_facts)

lemma product_collection_table_outline:
  "map outline_of ensure_product_collection_table = [Tab True ''product_collection'' [(''id'', True), (''name'', False), (''slug'', True), (''status'', False), (''created_at'', False), (''updated_at'', False), (''deleted_at'', False)] []]"
  by (simp add: ensure_product_collection_table_def statement_facts column_facts)

lemma product_collection_item_table_outline:
  "map outline_of ensure_product_collection_item_table = [Tab True ''product_collection_item'' [(''id'', True), (''collection_id'', False), (''product_id'', False), (''created_at'', False)] [(''product_collection'', ''id''), (''product'', ''id'')],
     Idx ''uq_collection_item_collection_product'' ''product_collection_item'' [''collection_id'', ''product_id'']]"
  by (simp add: ensure_product_collection_item_table_def statement_facts column_facts)

lemma inventory_batch_table_outline:
  "map outline_of ensure_inventory_batch_table = [Tab True ''inventory_batch'' [(''id'', True), (''batch_no'', True), (''variant_id'', False), (''location_id'', False), (''video_url'', False), (''media_assets'', False), (''cost_price_cents'', False), (''retail_price_cents'', False), (''currency'', False), (''stock_qty'', False), (''reserved_qty'', False), (''inspection_status'', False), (''inspected_by'', False), (''inspected_at'', False), (''status'', False), (''created_at'', False), (''updated_at'', False), (''deleted_at'', False)] [(''product_variant'', ''id''), (''stock_location'', ''id'')],
     Idx ''idx_batch_variant_location_status'' ''inventory_batch'' [''variant_id'', ''location_id'', ''status''],
     Idx ''idx_batch_location_status'' ''inventory_batch'' [''location_id'', ''status'']]"
  by (simp add: ensure_inventory_batch_table_def statement_facts column_facts)

lemma cart_table_outline:
  "map outline_of ensure_cart_table = [Tab True ''cart'' [(''id'', True), (''customer_id'', False), (''region_code'', False), (''currency'', False), (''status'', False), (''subtotal_cents'', False), (''discount_cents'', False), (''tax_cents'', False), (''shipping_cents'', False), (''grand_total_cents'', False), (''created_at'', False), (''updated_at'', False), (''deleted_at'', False)] []]"
  by (simp add: ensure_cart_table_def statement_facts column_facts)

lemma cart_line_item_table_outline:
  "map outline_of ensure_cart_line_item_table = [Tab True ''cart_line_item'' [(''id'', True), (''cart_id'', False), (''batch_id'', False), (''quantity'', False), (''unit_price_cents'', False), (''line_total_cents'', False), (''created_at'', False), (''updated_at'', False), (''deleted_at'', False)] [(''cart'', ''id''), (''inventory_batch'', ''id'')],
     Idx ''idx_line_item_cart'' ''cart_line_item'' [''cart_id''],
     Idx ''uq_line_item_cart_batch'' ''cart_line_item'' [''cart_id'', ''batch_id'']]"
  by (simp add: ensure_cart_line_item_table_def statement_facts column_facts)

lemma cart_address_columns_outline:
  "map outline_of ensure_cart_address_columns = [Col ''cart'' ''billing_address'' False [] True,
     Col ''cart'' ''shipping_address'' False [] True]"
  by (simp add: ensure_cart_address_columns_def statement_facts column_facts)

lemma discount_table_outline:
  "map outline_of ensure_discount_table = [Tab True ''discount'' [(''id'', True), (''code'', True), (''status'', False), (''created_at'', False), (''updated_at'', False), (''deleted_at'', False)] []]"
  by (simp add: ensure_discount_table_def statement_facts column_facts)

lemma discount_rule_table_outline:
  "map outline_of ensure_discount_rule_table = [Tab True ''discount_rule'' [(''id'', True), (''discount_id'', True), (''rule_type'', False), (''amount_cents'', False), (''percent'', False), (''min_subtotal_cents'', False), (''region_codes'', False), (''valid_from'', False), (''valid_until'', False), (''max_uses'', False), (''uses_count'', False), (''created_at'', False), (''updated_at'', False)] [(''discount'', ''id'')]]"
  by (simp add: ensure_discount_rule_table_def statement_facts column_facts)

lemma discount_condition_table_outline:
  "map outline_of ensure_discount_condition_table = [Tab True ''discount_condition'' [(''id'', True), (''discount_id'', False), (''condition_type'', False), (''target_id'', False), (''created_at'', False)] [(''discount'', ''id'')],
     Idx ''idx_discount_condition_discount'' ''discount_condition'' [''discount_id'']]"
  by (simp add: ensure_discount_condition_table_def statement_facts column_facts)

lemma gift_card_table_outline:
  "map outline_of ensure_gift_card_table = [Tab True ''gift_card'' [(''id'', True), (''code'', True), (''initial_balance_cents'', False), (''balance_cents'', False), (''currency'', False), (''status'', False), (''expires_at'', False), (''created_at'', False), (''updated_at'', False), (''deleted_at'', False)] []]"
  by (simp add: ensure_gift_card_table_def statement_facts column_facts)

lemma cart_discount_table_outline:
  "map outline_of ensure_cart_discount_table = [Tab True ''cart_discount'' [(''id'', True), (''cart_id'', False), (''discount_id'', False), (''applied_amount_cents'', False), (''created_at'', False), (''deleted_at'', False)] [(''cart'', ''id''), (''discount'', ''id'')],
     Idx ''idx_cart_discount_cart'' ''cart_discount'' [''cart_id''],
     Idx ''uq_cart_discount_active'' ''cart_discount'' [''cart_id'', ''discount_id'']]"
  by (simp add: ensure_cart_discount_table_def statement_facts column_facts)

lemma cart_gift_card_table_outline:
  "map outline_of ensure_cart_gift_card_table = [Tab True ''cart_gift_card'' [(''id'', True), (''cart_id'', False), (''gift_card_id'', False), (''applied_amount_cents'', False), (''created_at'', False), (''deleted_at'', False)] [(''cart'', ''id''), (''gift_card'', ''id'')],
     Idx ''idx_cart_gift_card_cart'' ''cart_gift_card'' [''cart_id''],
     Idx ''uq_cart_gift_card_active'' ''cart_gift_card'' [''cart_id'', ''gift_card_id'']]"
  by (simp add: ensure_cart_gift_card_table_def statement_facts column_facts)

lemma payment_session_table_outline:
  "map outline_of ensure_payment_session_table = [Tab True ''payment_session'' [(''id'', True), (''cart_id'', False), (''provider_name'', False), (''amount_cents'', False), (''currency'', False), (''status'', False), (''provider_intent_id'', False), (''error_message'', False), (''created_at'', False), (''updated_at'', False), (''deleted_at'', False)] [(''cart'', ''id'')],
     Idx ''idx_payment_session_cart'' ''payment_session'' [''cart_id''],
     Idx ''uq_payment_session_cart_provider'' ''payment_session'' [''cart_id'', ''provider_name'']]"
  by (simp add: ensure_payment_session_table_def statement_facts column_facts)

lemma customer_order_table_outline:
  "map outline_of ensure_customer_order_table = [Tab True ''customer_order'' [(''id'', True), (''cart_id'', True), (''customer_id'', False), (''region_code'', False), (''currency'', False), (''status'', False), (''subtotal_cents'', False), (''discount_cents'', False), (''tax_cents'', False), (''shipping_cents'', False), (''grand_total_cents'', False), (''payment_provider_name'', False), (''payment_intent_id'', False), (''billing_address'', False), (''shipping_address'', False), (''created_at'', False), (''updated_at'', False)] [(''cart'', ''id'')]]"
  by (simp add: ensure_customer_order_table_def statement_facts column_facts)

lemma order_line_item_table_outline:
  "map outline_of ensure_order_line_item_table = [Tab True ''order_line_item'' [(''id'', True), (''order_id'', False), (''batch_id'', False), (''quantity'', False), (''unit_price_cents'', False), (''line_total_cents'', False), (''created_at'', False)] [(''customer_order'', ''id''), (''inventory_batch'', ''id'')],
     Idx ''idx_order_line_item_order'' ''order_line_item'' [''order_id'']]"
  by (simp add: ensure_order_line_item_table_def statement_facts column_facts)

lemma region_table_outline:
  "map outline_of ensure_region_table = [Tab True ''region'' [(''code'', True), (''name'', False), (''currency'', False), (''payment_provider_names'', False), (''status'', False), (''created_at'', False), (''updated_at'', False), (''deleted_at'', False)] []]"
  by (simp add: ensure_region_table_def statement_facts column_facts)

lemma tax_rate_table_outline:
  "map outline_of ensure_tax_rate_table = [Tab True ''tax_rate'' [(''id'', True), (''region_code'', False), (''name'', False), (''rate_percent'', False), (''status'', False), (''created_at'', False), (''updated_at'', False), (''deleted_at'', False)] [(''region'', ''code'')],
     Idx ''idx_tax_rate_region'' ''tax_rate'' [''region_code'']]"
  by (simp add: ensure_tax_rate_table_def statement_facts column_facts)

lemma app_user_table_outline:
  "map outline_of ensure_app_user_table = [Tab True ''app_user'' [(''id'', True), (''email'', True), (''password_hash'', False), (''name'', False), (''status'', False), (''reset_token'', False), (''reset_token_expires_at'', False), (''created_at'', False), (''updated_at'', False), (''deleted_at'', False)] []]"
  by (simp add: ensure_app_user_table_def statement_facts column_facts)

lemma customer_group_table_outline:
  "map outline_of ensure_customer_group_table = [Tab True ''customer_group'' [(''id'', True), (''name'', False), (''created_at'', False), (''updated_at'', False), (''deleted_at'', False)] []]"
  by (simp add: ensure_customer_group_table_def statement_facts column_facts)

lemma customer_table_outline:
  "map outline_of ensure_customer_table = [Tab True ''customer'' [(''id'', True), (''email'', True), (''phone'', False), (''name'', False), (''customer_group_id'', False), (''status'', False), (''created_at'', False), (''updated_at'', False), (''deleted_at'', False)] [(''customer_group'', ''id'')],
     Idx ''idx_customer_group'' ''customer'' [''customer_group_id'']]"
  by (simp add: ensure_customer_table_def statement_facts column_facts)

lemma customer_address_table_outline:
  "map outline_of ensure_customer_address_table = [Tab True ''customer_address'' [(''id'', True), (''customer_id'', False), (''recipient_name'', False), (''phone'', False), (''address_line1'', False), (''address_line2'', False), (''city'', False), (''region_code'', False), (''postal_code'', False), (''is_default'', False), (''created_at'', False), (''updated_at'', False), (''deleted_at'', False)] [(''customer'', ''id'')],
     Idx ''idx_customer_address_customer'' ''customer_address'' [''customer_id'']]"
  by (simp add: ensure_customer_address_table_def statement_facts column_facts)

lemma price_list_table_outline:
  "map outline_of ensure_price_list_table = [Tab True ''price_list'' [(''id'', True), (''name'', False), (''currency'', False), (''starts_at'', False), (''ends_at'', False), (''status'', False), (''created_at'', False), (''updated_at'', False), (''deleted_at'', False)] []]"
  by (simp add: ensure_price_list_table_def statement_facts column_facts)

lemma price_list_item_table_outline:
  "map outline_of ensure_price_list_item_table = [Tab True ''price_list_item'' [(''id'', True), (''price_list_id'', False), (''variant_id'', False), (''price_cents'', False), (''created_at'', False), (''updated_at'', False)] [(''price_list'', ''id''), (''product_variant'', ''id'')],
     Idx ''uq_price_list_item_list_variant'' ''price_list_item'' [''price_list_id'', ''variant_id'']]"
  by (simp add: ensure_price_list_item_table_def statement_facts column_facts)

lemma sales_channel_table_outline:
  "map outline_of ensure_sales_channel_table = [Tab True ''sales_channel'' [(''id'', True), (''name'', False), (''status'', False), (''created_at'', False), (''updated_at'', False), (''deleted_at'', False)] []]"
  by (simp add: ensure_sales_channel_table_def statement_facts column_facts)

lemma sales_channel_product_table_outline:
  "map outline_of ensure_sales_channel_product_table = [Tab True ''sales_channel_product'' [(''id'', True), (''channel_id'', False), (''product_id'', False), (''created_at'', False)] [(''sales_channel'', ''id''), (''product'', ''id'')],
     Idx ''uq_sales_channel_product_channel_product'' ''sales_channel_product'' [''channel_id'', ''product_id'']]"
  by (simp add: ensure_sales_channel_product_table_def statement_facts column_facts)

lemma customer_order_refunded_column_outline:
  "map outline_of ensure_customer_order_refunded_column = [Col ''customer_order'' ''refunded_cents'' False [] True]"
  by (simp add: ensure_customer_order_refunded_column_def statement_facts column_facts)

lemma fulfillment_table_outline:
  "map outline_of ensure_fulfillment_table = [Tab True ''fulfillment'' [(''id'', True), (''order_id'', False), (''status'', False), (''items'', False), (''provider_name'', False), (''tracking_number'', False), (''carrier'', False), (''created_at'', False), (''updated_at'', False)] [(''customer_order'', ''id'')],
     Idx ''idx_fulfillment_order'' ''fulfillment'' [''order_id'']]"
  by (simp add: ensure_fulfillment_table_def statement_facts column_facts)

lemma return_request_table_outline:
  "map outline_of ensure_return_request_table = [Tab True ''return_request'' [(''id'', True), (''order_id'', False), (''status'', False), (''items'', False), (''refund_amount_cents'', False), (''created_at'', False), (''updated_at'', False)] [(''customer_order'', ''id'')],
     Idx ''idx_return_request_order'' ''return_request'' [''order_id'']]"
  by (simp add: ensure_return_request_table_def statement_facts column_facts)

lemma swap_table_outline:
  "map outline_of ensure_swap_table = [Tab True ''swap'' [(''id'', True), (''order_id'', False), (''status'', False), (''return_items'', False), (''new_items'', False), (''price_difference_cents'', False), (''payment_status'', False), (''fulfillment_id'', False), (''created_at'', False), (''updated_at'', False)] [(''customer_order'', ''id''), (''fulfillment'', ''id'')],
     Idx ''idx_swap_order'' ''swap'' [''order_id'']]"
  by (simp add: ensure_swap_table_def statement_facts column_facts)

lemma claim_table_outline:
  "map outline_of ensure_claim_table = [Tab True ''claim'' [(''id'', True), (''order_id'', False), (''status'', False), (''claim_type'', False), (''items'', False), (''refund_amount_cents'', False), (''new_items'', False), (''fulfillment_id'', False), (''created_at'', False), (''updated_at'', False)] [(''customer_order'', ''id''), (''fulfillment'', ''id'')],
     Idx ''idx_claim_order'' ''claim'' [''order_id'']]"
  by (simp add: ensure_claim_table_def statement_facts column_facts)

lemma batch_job_table_outline:
  "map outline_of ensure_batch_job_table = [Tab True ''batch_job'' [(''id'', True), (''job_type'', False), (''status'', False), (''payload'', False), (''result'', False), (''created_at'', False), (''updated_at'', False)] []]"
  by (simp add: ensure_batch_job_table_def statement_facts column_facts)

lemmas table_outlines = stock_location_table_outline product_table_outline product_variant_table_outline product_option_table_outline product_category_table_outline product_collection_table_outline product_collection_item_table_outline inventory_batch_table_outline cart_table_outline cart_line_item_table_outline cart_address_columns_outline discount_table_outline discount_rule_table_outline discount_condition_table_outline gift_card_table_outline cart_discount_table_outline cart_gift_card_table_outline payment_session_table_outline customer_order_table_outline order_line_item_table_outline region_table_outline tax_rate_table_outline app_user_table_outline customer_group_table_outline customer_table_outline customer_address_table_outline price_list_table_outline price_list_item_table_outline sales_channel_table_outline sales_channel_product_table_outline customer_order_refunded_column_outline fulfillment_table_outline return_request_table_outline swap_table_outline claim_table_outline batch_job_table_outline

lemmas table_defs = ensure_region_table_def ensure_tax_rate_table_def ensure_app_user_table_def ensure_customer_group_table_def ensure_customer_table_def ensure_customer_address_table_def ensure_stock_location_table_def ensure_product_table_def ensure_product_variant_table_def ensure_product_option_table_def ensure_product_category_table_def ensure_product_collection_table_def ensure_product_collection_item_table_def ensure_price_list_table_def ensure_price_list_item_table_def ensure_sales_channel_table_def ensure_sales_channel_product_table_def ensure_inventory_batch_table_def ensure_cart_table_def ensure_cart_line_item_table_def ensure_cart_address_columns_def ensure_discount_table_def ensure_discount_rule_table_def ensure_discount_condition_table_def ensure_gift_card_table_def ensure_cart_discount_table_def ensure_cart_gift_card_table_def ensure_payment_session_table_def ensure_customer_order_table_def ensure_order_line_item_table_def ensure_customer_order_refunded_column_def ensure_fulfillment_table_def ensure_return_request_table_def ensure_swap_table_def ensure_claim_table_def ensure_batch_job_table_def

lemma schema_outline: "outlines_ok (map outline_of ensure_commerce_batch_schema) ([], [])"
  unfolding ensure_commerce_batch_schema_def map_concat list.map table_outlines
  by code_simp

lemma schema_one: "list_all (\<lambda>st. schema_of st = ''public'') ensure_commerce_batch_schema"
  by (simp add: ensure_commerce_batch_schema_def list_all_concat table_defs statement_defs)

lemma schema_buildable: "buildable ensure_commerce_batch_schema empty_catalog"
  by (rule outlines_buildable [OF _ schema_one])
     (simp_all add: one_schema_def sketch_of_def empty_catalog_def known_tabs_def schema_outline del: map_concat)

definition batch_catalog :: catalog where
  "batch_catalog = fold carried_out ensure_commerce_batch_schema empty_catalog"

text \<open>
  On a server without rows the schema builds: every table a foreign key names was made before with the key it
  names, and every index and added column finds its table. Whatever statements were carried out before an
  interruption, running the whole list again completes the same catalog.
\<close>

theorem schema_builds_and_resumes:
  assumes "serves exec"
  shows "run_all exec ensure_commerce_batch_schema empty_catalog = Some batch_catalog
    \<and> run_all exec ensure_commerce_batch_schema (fold carried_out (take n ensure_commerce_batch_schema) empty_catalog) = Some batch_catalog"
  using build [OF assms schema_buildable] build_resumes [OF assms schema_buildable] by (simp add: batch_catalog_def)

definition strict_server :: "statement \<Rightarrow> catalog \<Rightarrow> catalog option" where
  "strict_server st k = (if satisfied k st then Some k else if possible k st then Some (carried_out st k) else None)"

theorem schema_builds_and_resumes_witness:
  "run_all strict_server ensure_commerce_batch_schema (fold carried_out (take 7 ensure_commerce_batch_schema) empty_catalog) = Some batch_catalog"
  using schema_builds_and_resumes [of strict_server 7] by (simp add: serves_def strict_server_def)

text \<open>
  The order matters: the cart tables asked for on their own are refused.
\<close>

lemma line_items_need_batches: "\<not> buildable (ensure_cart_table @ ensure_cart_line_item_table) empty_catalog"
  by (simp add: ensure_cart_table_def ensure_cart_line_item_table_def statement_facts column_facts empty_catalog_def refs_ok_def)

end
