(* ===== verification/SqlBuilders.thy ===== *)
theory SqlBuilders
  imports Ddl
begin

text \<open>
  The statements for rows (\<^verbatim>\<open>obase/persistence/crud.py\<close>, \<^verbatim>\<open>upsert.py\<close>, \<^verbatim>\<open>vector.py\<close>). A statement is text with
  numbered parameters and comes with the list of its arguments; the server's answer is an argument. Values
  are of any type.
\<close>

section \<open>Text with parameters\<close>

datatype piece = Txt string | Par nat

fun piece_text :: "piece \<Rightarrow> string" where
  "piece_text (Txt s) = s"
| "piece_text (Par n) = CHR ''$'' # str_nat n"

definition statement_text :: "piece list \<Rightarrow> string" where
  "statement_text ps = concat (map piece_text ps)"

definition parameters :: "piece list \<Rightarrow> nat list" where
  "parameters ps = concat (map (\<lambda>p. case p of Txt _ \<Rightarrow> [] | Par n \<Rightarrow> [n]) ps)"

definition commas :: "piece list list \<Rightarrow> piece list" where
  "commas xs = (case xs of [] \<Rightarrow> [] | y # ys \<Rightarrow> y @ concat (map (\<lambda>x. Txt '', '' # x) ys))"

datatype sql_error = No_data | No_rows | Columns_differ nat | Bad_tag

type_synonym 'v row = "(string, 'v) dict"

section \<open>Single rows\<close>

definition sorted_keys :: "'v row \<Rightarrow> string list" where
  "sorted_keys d = sort (map fst d)"

definition value_of :: "'v row \<Rightarrow> string \<Rightarrow> 'v" where
  "value_of d k = the (dict_get d k)"

definition insert_one :: "string \<Rightarrow> 'v row \<Rightarrow> string \<Rightarrow> sql_error + piece list \<times> 'v list" where
  "insert_one tab d returning =
     (if d = [] then Inl No_data
      else let ks = sorted_keys d in
        Inr ([Txt (''INSERT INTO '' @ dq tab @ '' ('' @ join_text '', '' (map dq ks) @ '') VALUES ('')]
             @ commas (map (\<lambda>i. [Par (i + 1)]) [0 ..< length ks])
             @ [Txt ('') RETURNING '' @ dq returning)], map (value_of d) ks))"

definition inserted :: "string \<Rightarrow> 'v row option \<Rightarrow> 'v option" where
  "inserted returning r = (case r of None \<Rightarrow> None | Some d \<Rightarrow> if d = [] then None else dict_get d returning)"

definition query_text :: "string \<Rightarrow> int \<Rightarrow> string" where
  "query_text q n = (if 0 < n \<and> \<not> is_infix ''LIMIT'' (map upper_char q) then q @ '' LIMIT '' @ str_int n else q)"

definition read_text :: "string \<Rightarrow> string \<Rightarrow> bool \<Rightarrow> piece list" where
  "read_text tab id_column active = [Txt (''SELECT * FROM '' @ dq tab @ '' WHERE '' @ dq id_column @ '' = ''), Par 1]
     @ (if active then [Txt '' AND deleted_at IS NULL''] else [])"

definition read_one :: "(piece list \<Rightarrow> 'v \<Rightarrow> 'x + 'r option) \<Rightarrow> string \<Rightarrow> 'v \<Rightarrow> string \<Rightarrow> 'x + 'r option" where
  "read_one fetch tab i id_column = (case fetch (read_text tab id_column True) i of
     Inr r \<Rightarrow> Inr r
   | Inl _ \<Rightarrow> fetch (read_text tab id_column False) i)"

definition update_one :: "string \<Rightarrow> 'v \<Rightarrow> 'v row \<Rightarrow> string \<Rightarrow> sql_error + piece list \<times> 'v list" where
  "update_one tab i d id_column =
     (if d = [] then Inl No_data
      else let ks = sorted_keys d in
        Inr ([Txt (''UPDATE '' @ dq tab @ '' SET '')]
             @ commas (map (\<lambda>(j, k). [Txt (dq k @ '' = ''), Par (j + 2)]) (enumerate 0 ks))
             @ [Txt ('' WHERE '' @ dq id_column @ '' = ''), Par 1], i # map (value_of d) ks))"

definition soft_delete_one :: "string \<Rightarrow> 'v \<Rightarrow> string \<Rightarrow> string \<Rightarrow> piece list \<times> 'v list" where
  "soft_delete_one tab i id_column deleted_at_column =
     ([Txt (''UPDATE '' @ dq tab @ '' SET '' @ dq deleted_at_column @ '' = NOW() WHERE '' @ dq id_column @ '' = ''), Par 1,
       Txt ('' AND '' @ dq deleted_at_column @ '' IS NULL'')], [i])"

text \<open>Whether the tag of an update names a row: its last word is not 0.\<close>

definition changed :: "string \<Rightarrow> sql_error + bool" where
  "changed tag = (case words tag of [] \<Rightarrow> Inl Bad_tag | ws \<Rightarrow> Inr (last ws \<noteq> ''0''))"

section \<open>Batches\<close>

definition differing :: "'v row list \<Rightarrow> nat option" where
  "differing rows = List.find (\<lambda>i. set (map fst (rows ! i)) \<noteq> set (map fst (hd rows))) [1 ..< length rows]"

definition conflict_action :: "string list option \<Rightarrow> string" where
  "conflict_action upd = (case upd of
     Some (c # cs) \<Rightarrow> ''DO UPDATE SET '' @ join_text '', '' (map (\<lambda>c. dq c @ '' = EXCLUDED.'' @ dq c) (c # cs))
   | _ \<Rightarrow> ''DO NOTHING'')"

definition upsert_batch :: "string \<Rightarrow> 'v row list \<Rightarrow> string list \<Rightarrow> string list option \<Rightarrow> sql_error + piece list \<times> 'v list" where
  "upsert_batch tab rows conflict_columns update_columns =
     (case rows of [] \<Rightarrow> Inl No_rows
      | r # _ \<Rightarrow>
        (case differing rows of Some i \<Rightarrow> Inl (Columns_differ i)
         | None \<Rightarrow>
           let cols = map fst r; n = length cols;
               ph = map (\<lambda>i. [Txt ''(''] @ commas (map (\<lambda>j. [Par (i * n + j + 1)]) [0 ..< n]) @ [Txt '')'']) [0 ..< length rows]
           in Inr ([Txt (''INSERT INTO '' @ tab @ '' ('' @ join_text '', '' (map dq cols) @ '') VALUES '')]
                   @ commas ph
                   @ [Txt ('' ON CONFLICT ('' @ join_text '', '' (map dq conflict_columns) @ '') '' @ conflict_action update_columns)],
                   concat (map (\<lambda>row. map (value_of row) cols) rows))))"

definition upserted :: "(string \<Rightarrow> int option) \<Rightarrow> string \<Rightarrow> sql_error + int" where
  "upserted to_int tag = (case words tag of [] \<Rightarrow> Inr 0
     | ws \<Rightarrow> (case to_int (last ws) of None \<Rightarrow> Inl Bad_tag | Some n \<Rightarrow> Inr n))"

definition write_one :: "string \<Rightarrow> 'v row \<Rightarrow> string list option \<Rightarrow> sql_error + piece list \<times> 'v list" where
  "write_one tab d conflict_on = upsert_batch tab [d] (case conflict_on of None \<Rightarrow> [] | Some cs \<Rightarrow> cs) None"

section \<open>Nearest vectors\<close>

datatype metric = Cosine | Euclid | Inner_product

fun metric_op :: "metric \<Rightarrow> string" where
  "metric_op Cosine = ''<=>''"
| "metric_op Euclid = ''<->''"
| "metric_op Inner_product = ''<#>''"

definition fmt_vector :: "(rat \<Rightarrow> string) \<Rightarrow> rat list \<Rightarrow> string" where
  "fmt_vector shown v = ''['' @ join_text '','' (map shown v) @ '']''"

definition vector_search :: "string \<Rightarrow> string \<Rightarrow> string \<Rightarrow> metric \<Rightarrow> int \<Rightarrow> piece list \<Rightarrow> string list \<Rightarrow> string list option \<Rightarrow>
    piece list \<times> string list" where
  "vector_search tab vector_column vec m top_k filter_sql filter_params select_columns =
     (let op = metric_op m;
          select = (case select_columns of None \<Rightarrow> ''*'' | Some cs \<Rightarrow> join_text '', '' (map dq cs))
      in ([Txt (''SELECT '' @ select @ '', '' @ dq vector_column @ '' '' @ op @ '' ''), Par 1,
           Txt (''::vector AS distance FROM '' @ tab @ '' '')]
          @ (if filter_sql = [] then [] else Txt ''WHERE '' # filter_sql)
          @ [Txt ('' ORDER BY '' @ dq vector_column @ '' '' @ op @ '' ''), Par 1,
             Txt (''::vector LIMIT '' @ str_int top_k)],
          vec # filter_params))"

section \<open>Parameters and arguments\<close>

lemma parameters_simps [simp]: "parameters [] = []" "parameters (Txt s # ps) = parameters ps" "parameters (Par n # ps) = n # parameters ps"
  "parameters (ps @ qs) = parameters ps @ parameters qs"
  by (simp_all add: parameters_def)

lemma parameters_commas [simp]: "parameters (commas xs) = concat (map parameters xs)"
proof -
  have "parameters (concat (map (\<lambda>x. Txt '', '' # x) ys)) = concat (map parameters ys)" for ys by (induction ys) auto
  then show ?thesis by (cases xs) (simp_all add: commas_def)
qed

lemma parameters_row: "parameters (Txt s # commas (map (\<lambda>j. [Par (b + j + 1)]) [0 ..< n]) @ [Txt t]) = [b + 1 ..< b + n + 1]"
proof -
  have "concat (map parameters (map (\<lambda>j. [Par (b + j + 1)]) [0 ..< n])) = [b + 1 ..< b + n + 1]" by (induction n) auto
  then show ?thesis by simp
qed

lemma row_ranges: "concat (map (\<lambda>i. [i * n + 1 ..< i * n + n + 1]) [0 ..< m]) = [1 ..< m * n + 1]"
proof (induction m)
  case (Suc m)
  have "[1 ..< Suc m * n + 1] = [1 ..< m * n + 1] @ [m * n + 1 ..< m * n + n + 1]"
    using upt_add_eq_append [of 1 "m * n + 1" n] by (simp add: ac_simps)
  with Suc show ?case by simp
qed simp

lemma batch_parameters:
  "parameters (commas (map (\<lambda>i. Txt s # commas (map (\<lambda>j. [Par (i * n + j + 1)]) [0 ..< n]) @ [Txt t]) [0 ..< m])) = [1 ..< m * n + 1]"
proof -
  have "map parameters (map (\<lambda>i. Txt s # commas (map (\<lambda>j. [Par (i * n + j + 1)]) [0 ..< n]) @ [Txt t]) [0 ..< m])
     = map (\<lambda>i. [i * n + 1 ..< i * n + n + 1]) [0 ..< m]"
    unfolding list.map_comp using parameters_row [of s _ n t] by (intro list.map_cong refl) (simp only: comp_def append.simps)
  then show ?thesis by (simp only: parameters_commas row_ranges)
qed

lemma upsert_parameters:
  assumes "upsert_batch tab rows conflict upd = Inr (ps, args)"
  shows "parameters ps = [1 ..< length rows * length (hd rows) + 1]"
    "args = concat (map (\<lambda>row. map (value_of row) (map fst (hd rows))) rows)"
proof -
  obtain r rs where rows: "rows = r # rs" and d: "differing rows = None"
    using assms by (auto simp: upsert_batch_def split: list.splits option.splits)
  have ps: "ps = [Txt (''INSERT INTO '' @ tab @ '' ('' @ join_text '', '' (map dq (map fst r)) @ '') VALUES '')]
      @ commas (map (\<lambda>i. [Txt ''(''] @ commas (map (\<lambda>j. [Par (i * length (map fst r) + j + 1)]) [0 ..< length (map fst r)]) @ [Txt '')'']) [0 ..< length rows])
      @ [Txt ('' ON CONFLICT ('' @ join_text '', '' (map dq conflict) @ '') '' @ conflict_action upd)]"
    and args: "args = concat (map (\<lambda>row. map (value_of row) (map fst r)) rows)"
    using assms d by (simp_all add: upsert_batch_def rows Let_def)
  have "parameters ps = [1 ..< length rows * length (map fst r) + 1]"
    unfolding ps by (simp only: parameters_simps batch_parameters append.simps append_Nil2)
  then show "parameters ps = [1 ..< length rows * length (hd rows) + 1]" by (simp only: rows list.sel length_map)
  show "args = concat (map (\<lambda>row. map (value_of row) (map fst (hd rows))) rows)" by (simp add: args rows)
qed

lemma nth_concat_rows:
  assumes "\<And>x. x \<in> set xs \<Longrightarrow> length (f x) = n" "i < length xs" "j < n"
  shows "concat (map f xs) ! (i * n + j) = f (xs ! i) ! j"
  using assms
proof (induction xs arbitrary: i)
  case (Cons x xs)
  then show ?case by (cases i) (auto simp: nth_append)
qed simp

text \<open>
  Every batch statement binds exactly its arguments: its parameters are numbered from 1 without gap in reading
  order, there are as many arguments, and the parameter of row i and column j of the first row is bound to the value
  row i has in that column, in whatever order its keys come.
\<close>

theorem upsert_binds_columns:
  assumes "upsert_batch tab rows conflict upd = Inr (ps, args)"
  shows "parameters ps = [1 ..< length args + 1]
    \<and> length args = length rows * length (hd rows)
    \<and> (\<forall>i j. i < length rows \<and> j < length (hd rows) \<longrightarrow>
        args ! (i * length (hd rows) + j) = value_of (rows ! i) (map fst (hd rows) ! j))"
proof -
  have a: "args = concat (map (\<lambda>row. map (value_of row) (map fst (hd rows))) rows)" and p: "parameters ps = [1 ..< length rows * length (hd rows) + 1]"
    using upsert_parameters [OF assms] by blast+
  have l: "length args = length rows * length (hd rows)" unfolding a length_concat by (simp add: comp_def sum_list_triv)
  have "args ! (i * length (hd rows) + j) = value_of (rows ! i) (map fst (hd rows) ! j)" if "i < length rows" "j < length (hd rows)" for i j
    unfolding a using nth_concat_rows [of rows "\<lambda>row. map (value_of row) (map fst (hd rows))" "length (hd rows)" i j] that by simp
  with l p show ?thesis by simp
qed

theorem upsert_binds_columns_witness:
  "\<exists>ps args. upsert_batch ''t'' [[(''a'', 1), (''b'', 2)], [(''b'', 4), (''a'', 3 :: int)]] [''a''] (Some [''b'']) = Inr (ps, args)
     \<and> args = [1, 2, 3, 4] \<and> parameters ps = [1, 2, 3, 4]
     \<and> statement_text ps = ''INSERT INTO t ('' @ dq ''a'' @ '', '' @ dq ''b'' @ '') VALUES ($1, $2), ($3, $4) ON CONFLICT ('' @ dq ''a''
          @ '') DO UPDATE SET '' @ dq ''b'' @ '' = EXCLUDED.'' @ dq ''b''"
proof -
  let ?r = "upsert_batch ''t'' [[(''a'', 1), (''b'', 2)], [(''b'', 4), (''a'', 3 :: int)]] [''a''] (Some [''b''])"
  have "case ?r of Inl _ \<Rightarrow> False | Inr (ps, args) \<Rightarrow> args = [1, 2, 3, 4]
     \<and> statement_text ps = ''INSERT INTO t ('' @ dq ''a'' @ '', '' @ dq ''b'' @ '') VALUES ($1, $2), ($3, $4) ON CONFLICT ('' @ dq ''a''
          @ '') DO UPDATE SET '' @ dq ''b'' @ '' = EXCLUDED.'' @ dq ''b''"
    by code_simp
  then obtain ps args where r: "?r = Inr (ps, args)"
    "args = [1, 2, 3, 4]" "statement_text ps = ''INSERT INTO t ('' @ dq ''a'' @ '', '' @ dq ''b'' @ '') VALUES ($1, $2), ($3, $4) ON CONFLICT ('' @ dq ''a''
          @ '') DO UPDATE SET '' @ dq ''b'' @ '' = EXCLUDED.'' @ dq ''b''"
    by (auto split: sum.splits simp del: append.simps)
  with upsert_binds_columns [OF r(1)] have "parameters ps = [1, 2, 3, 4]" by (simp add: upt_rec)
  with r show ?thesis by blast
qed

text \<open>Rows whose columns differ are refused with the position of the first one that differs, and nothing is sent.\<close>

lemma upsert_refuses:
  "upsert_batch tab rows conflict upd = Inl (Columns_differ i) \<Longrightarrow>
     0 < i \<and> i < length rows \<and> set (map fst (rows ! i)) \<noteq> set (map fst (hd rows))
     \<and> (\<forall>j. 0 < j \<and> j < i \<longrightarrow> set (map fst (rows ! j)) = set (map fst (hd rows)))"
proof -
  assume "upsert_batch tab rows conflict upd = Inl (Columns_differ i)"
  then have "differing rows = Some i" by (auto simp: upsert_batch_def Let_def split: list.splits option.splits)
  then obtain n where "n < length [1 ..< length rows]" "set (map fst (rows ! ([1 ..< length rows] ! n))) \<noteq> set (map fst (hd rows))"
    "i = [1 ..< length rows] ! n" "\<forall>j < n. \<not> set (map fst (rows ! ([1 ..< length rows] ! j))) \<noteq> set (map fst (hd rows))"
    unfolding differing_def find_Some_iff by blast
  then have n: "n < length rows - 1" "i = n + 1" "set (map fst (rows ! i)) \<noteq> set (map fst (hd rows))"
    "\<forall>j < n. set (map fst (rows ! (j + 1))) = set (map fst (hd rows))"
    by (simp_all del: set_map)
  have "set (map fst (rows ! j)) = set (map fst (hd rows))" if "0 < j" "j < i" for j
    using n(4) [rule_format, of "j - 1"] that n(2) by simp
  with n show ?thesis by auto
qed

text \<open>
  The statements for one row bind exactly their arguments as well: the parameters are the numbers from 1 to the
  number of arguments, each once, and each column gets its own value; an update has the identifier as number 1.
\<close>

theorem single_row_binds:
  "(case insert_one tab d returning of Inl e \<Rightarrow> e = No_data \<and> d = []
    | Inr (ps, args) \<Rightarrow> parameters ps = [1 ..< length args + 1] \<and> args = map (value_of d) (sorted_keys d))
   \<and> (case update_one tab i d idc of Inl e \<Rightarrow> e = No_data \<and> d = []
    | Inr (ps, args) \<Rightarrow> parameters ps = [2 ..< length args + 1] @ [1] \<and> args = i # map (value_of d) (sorted_keys d))
   \<and> (case soft_delete_one tab i idc del of (ps, args) \<Rightarrow> parameters ps = [1] \<and> args = [i])
   \<and> (case vector_search tab col vec m top_k fsql fps sel of (ps, args) \<Rightarrow>
        parameters ps = 1 # parameters fsql @ [1] \<and> args = vec # fps)"
proof -
  have 1: "concat (map parameters (map (\<lambda>i. [Par (i + 1)]) [0 ..< n])) = [1 ..< n + 1]" for n by (induction n) auto
  have 2: "concat (map parameters (map (\<lambda>(j, k). [Txt (dq k @ '' = ''), Par (j + 2)]) (enumerate b ks))) = [b + 2 ..< b + length ks + 2]" for b ks
    by (induction ks arbitrary: b) (auto simp: upt_rec)
  show ?thesis
    using 1 [of "length (sorted_keys d)"] 2 [of 0 "sorted_keys d"]
    by (auto simp: insert_one_def update_one_def soft_delete_one_def vector_search_def Let_def numeral_2_eq_2 simp del: upt_Suc)
qed

section \<open>What the statements do not say\<close>

text \<open>
  A write without conflict columns names an empty conflict target; a query that has the letters of LIMIT in a name
  gets no limit; a read whose first statement fails for any reason returns deleted rows.
\<close>

lemma write_one_empty_target:
  "map_sum id (\<lambda>r. statement_text (fst r)) (write_one ''t'' [(''a'', 1 :: int)] None)
   = Inr (''INSERT INTO t ('' @ dq ''a'' @ '') VALUES ($1) ON CONFLICT () DO NOTHING'')"
  by code_simp

lemma column_name_lifts_limit: "query_text ''SELECT * FROM quota WHERE rate_limit > 5'' 100 = ''SELECT * FROM quota WHERE rate_limit > 5''"
  by code_simp

lemma failed_read_sees_deleted:
  "fetch (read_text tab idc True) i = Inl x \<Longrightarrow> fetch (read_text tab idc False) i = Inr (Some deleted)
     \<Longrightarrow> read_one fetch tab i idc = Inr (Some deleted)"
  by (simp add: read_one_def)

section \<open>Connection pools\<close>

text \<open>
  The named pools (\<^verbatim>\<open>obase/persistence/pool.py\<close>). Creating one checks the name, waits for the driver to connect
  and registers: two steps between which others can run. A pool is its number.
\<close>

record pools =
  by_name :: "(string, nat) dict"
  open_pools :: "nat list"
  next_pool :: nat

datatype pool_error = Already_registered string | Not_registered string

definition create_check :: "string \<Rightarrow> pools \<Rightarrow> pool_error + unit" where
  "create_check name st = (if dict_get (by_name st) name \<noteq> None then Inl (Already_registered name) else Inr ())"

definition create_finish :: "string \<Rightarrow> pools \<Rightarrow> pools \<times> nat" where
  "create_finish name st = (let i = next_pool st in
     (st\<lparr>by_name := dict_set name i (by_name st), open_pools := open_pools st @ [i], next_pool := Suc i\<rparr>, i))"

definition create_pool :: "string \<Rightarrow> pools \<Rightarrow> pools \<times> (pool_error + nat)" where
  "create_pool name st = (case create_check name st of Inl e \<Rightarrow> (st, Inl e)
     | Inr _ \<Rightarrow> (case create_finish name st of (st', i) \<Rightarrow> (st', Inr i)))"

definition get_pool :: "string \<Rightarrow> pools \<Rightarrow> pool_error + nat" where
  "get_pool name st = (case dict_get (by_name st) name of None \<Rightarrow> Inl (Not_registered name) | Some i \<Rightarrow> Inr i)"

definition list_pools :: "pools \<Rightarrow> string list" where
  "list_pools st = map fst (by_name st)"

definition clear_pools :: "pools \<Rightarrow> pools" where
  "clear_pools st = st\<lparr>by_name := []\<rparr>"

definition get_or_create :: "(string \<Rightarrow> string) \<Rightarrow> string \<Rightarrow> pools \<Rightarrow> pools \<times> (pool_error + nat)" where
  "get_or_create sha1 dsn st = (let name = ''_auto_'' @ take 12 (sha1 dsn) in
     case get_pool name st of Inr i \<Rightarrow> (st, Inr i) | Inl _ \<Rightarrow> create_pool name st)"

definition close_pool :: "string \<Rightarrow> nat \<Rightarrow> pools \<Rightarrow> pools" where
  "close_pool name i st = st\<lparr>open_pools := filter (\<lambda>j. j \<noteq> i) (open_pools st), by_name := dict_pop name (by_name st)\<rparr>"

datatype pool_op = Create string | Get_or_create string | Close string

text \<open>One operation at a time; a pool is closed by whoever got it under its name.\<close>

fun pool_step :: "(string \<Rightarrow> string) \<Rightarrow> pools \<Rightarrow> pool_op \<Rightarrow> pools" where
  "pool_step sha1 st (Create name) = fst (create_pool name st)"
| "pool_step sha1 st (Get_or_create dsn) = fst (get_or_create sha1 dsn st)"
| "pool_step sha1 st (Close name) = (case get_pool name st of Inl _ \<Rightarrow> st | Inr i \<Rightarrow> close_pool name i st)"

definition no_pools :: pools where
  "no_pools = \<lparr>by_name = [], open_pools = [], next_pool = 0\<rparr>"

definition pools_ok :: "pools \<Rightarrow> bool" where
  "pools_ok st \<longleftrightarrow> set (open_pools st) = ran (dict_get (by_name st)) \<and> inj_on (dict_get (by_name st)) (dom (dict_get (by_name st)))
     \<and> (\<forall>i \<in> set (open_pools st). i < next_pool st)"

lemma create_ok:
  assumes "pools_ok st"
  shows "pools_ok (fst (create_pool name st))"
proof (cases "dict_get (by_name st) name")
  case None
  have fresh: "dict_get (by_name st) k \<noteq> Some (next_pool st)" for k
  proof
    assume "dict_get (by_name st) k = Some (next_pool st)"
    then have "next_pool st \<in> set (open_pools st)" using assms by (auto simp: pools_ok_def ran_def)
    then show False using assms by (auto simp: pools_ok_def)
  qed
  have s: "fst (create_pool name st) = st\<lparr>by_name := dict_set name (next_pool st) (by_name st), open_pools := open_pools st @ [next_pool st], next_pool := Suc (next_pool st)\<rparr>"
    using None by (simp add: create_pool_def create_check_def create_finish_def Let_def)
  show ?thesis unfolding s pools_ok_def using assms None fresh
    by (auto simp: pools_ok_def update_conv' ran_map_upd inj_on_def split: if_splits intro: less_SucI)
qed (use assms in \<open>simp add: create_pool_def create_check_def\<close>)

lemma close_ok:
  assumes "pools_ok st" "dict_get (by_name st) name = Some i"
  shows "pools_ok (close_pool name i st)"
proof -
  have k: "k = name" if "dict_get (by_name st) k = Some i" for k
    using assms that unfolding pools_ok_def inj_on_def by (metis domI)
  have r: "ran ((dict_get (by_name st))(name := None)) = ran (dict_get (by_name st)) - {i}"
  proof (intro set_eqI iffI)
    fix j assume "j \<in> ran ((dict_get (by_name st))(name := None))"
    then obtain x where x: "dict_get (by_name st) x = Some j" "x \<noteq> name" by (auto simp: ran_def split: if_splits)
    with k have "j \<noteq> i" by blast
    with x(1) show "j \<in> ran (dict_get (by_name st)) - {i}" by (auto intro: ranI)
  next
    fix j assume "j \<in> ran (dict_get (by_name st)) - {i}"
    then obtain x where x: "dict_get (by_name st) x = Some j" "j \<noteq> i" by (auto simp: ran_def)
    with assms(2) have "x \<noteq> name" by auto
    with x(1) show "j \<in> ran ((dict_get (by_name st))(name := None))" by (intro ranI [of _ x]) simp
  qed
  have "inj_on ((dict_get (by_name st))(name := None)) (dom (dict_get (by_name st)) - {name})"
    using assms(1) unfolding pools_ok_def by (auto simp: inj_on_def)
  moreover have "set (open_pools (close_pool name i st)) = set (open_pools st) - {i}" by (auto simp: close_pool_def)
  moreover have "dict_get (by_name (close_pool name i st)) = (dict_get (by_name st))(name := None)"
    "next_pool (close_pool name i st) = next_pool st" by (simp_all add: close_pool_def delete_conv' fun_upd_def)
  ultimately show ?thesis using assms(1) r unfolding pools_ok_def by (simp only: dom_fun_upd) simp
qed

text \<open>
  As long as operations do not overlap, the registered pools are exactly the open ones and no two names share
  one: none leaks and no name leads to a closed pool.
\<close>

theorem pools_registered_iff_open: "pools_ok (foldl (pool_step sha1) no_pools xs)"
proof -
  have step: "pools_ok (pool_step sha1 st x)" if "pools_ok st" for st x
    using that by (cases x) (auto simp: create_ok get_or_create_def get_pool_def Let_def close_ok split: option.split)
  have "pools_ok (foldl (pool_step sha1) st xs)" if "pools_ok st" for st
    using that by (induction xs arbitrary: st) (simp_all add: step)
  then show ?thesis by (simp add: no_pools_def pools_ok_def ran_def)
qed

text \<open>
  Two overlapping creations of one name both pass the check; the second registration replaces the first, whose
  connections stay open. Closing the lost pool then unregisters the other.
\<close>

lemma overlapping_creations_leak:
  "(let st1 = fst (create_finish ''n'' no_pools); st2 = fst (create_finish ''n'' st1); st3 = close_pool ''n'' 0 st2
    in create_check ''n'' no_pools = Inr () \<and> open_pools st2 = [0, 1] \<and> get_pool ''n'' st2 = Inr 1
       \<and> get_pool ''n'' st3 = Inl (Not_registered ''n'') \<and> open_pools st3 = [1])"
  by code_simp

end
