(* ===== verification/SymbolicRuntime.thy ===== *)
theory SymbolicRuntime
  imports Json Python_Text
begin

text \<open>
  The restricted runtime for symbolic mathematics (\<^verbatim>\<open>obase/sympy_runtime.py\<close>): the check of the syntax tree, the
  namespace, the wait for the computing process and the six operations. The parser and the mathematics library
  are arguments. A node of a tree is its kind with its children in the order the tree is walked, contexts
  included; a call has the called expression first. Times are rationals, in seconds.
\<close>

section \<open>Configuration and errors\<close>

record runtime_config =
  timeout_seconds :: rat
  max_memory_bytes :: int
  max_expression_depth :: int
  max_string_length :: int
  allowed_modules :: "string list"
  forbidden_names :: "string list"

definition default_config :: runtime_config where
  "default_config = \<lparr>timeout_seconds = 5, max_memory_bytes = 64 * 1024 * 1024, max_expression_depth = 50, max_string_length = 10000,
     allowed_modules = [''sympy''],
     forbidden_names = [''exec'', ''eval'', ''compile'', ''import'', ''__import__'', ''globals'', ''locals'', ''vars'', ''dir'', ''getattr'',
       ''setattr'', ''delattr'', ''open'', ''os'', ''sys'', ''subprocess'', ''shutil'', ''pathlib'']\<rparr>"

datatype 'x rt_error = Restricted string | Timed_out | No_result | Not_installed | Eval_error | Foreign 'x

section \<open>The check of a tree\<close>

datatype kind = Import "string list" | Import_from "string option" | Call | Name string | Attribute string
  | Function_def | Async_function_def | Class_def | For_loop | While_loop | With_block | Lambda | Plain string

datatype py_tree = Node (kind_of: kind) (children: "py_tree list")

definition head_module :: "string \<Rightarrow> string" where
  "head_module s = hd (split_on (CHR ''.'') s)"

definition forbidden_calls :: "string list" where
  "forbidden_calls = [''exec'', ''eval'', ''compile'', ''__import__'', ''open'', ''globals'', ''locals'', ''vars'', ''getattr'', ''setattr'', ''delattr'']"

text \<open>What a node itself is refused for, and whether its children are walked.\<close>

fun refused :: "runtime_config \<Rightarrow> py_tree \<Rightarrow> string option" where
  "refused c (Node (Import ms) _) = (if list_ex (\<lambda>m. head_module m \<notin> set (allowed_modules c)) ms then Some ''import'' else None)"
| "refused c (Node (Import_from m) _) = (case m of None \<Rightarrow> None
     | Some m \<Rightarrow> if m \<noteq> '''' \<and> head_module m \<notin> set (allowed_modules c) then Some ''import'' else None)"
| "refused c (Node Call (Node (Name f) _ # _)) = (if f \<in> set forbidden_calls then Some ''call'' else None)"
| "refused c (Node (Name x) _) = (if x \<in> set (forbidden_names c) then Some ''name'' else None)"
| "refused c (Node (Attribute a) _) = (if has_prefix a ''_'' then Some ''private attribute'' else None)"
| "refused c (Node Function_def _) = Some ''function''"
| "refused c (Node Async_function_def _) = Some ''async function''"
| "refused c (Node Class_def _) = Some ''class''"
| "refused c (Node For_loop _) = Some ''for''"
| "refused c (Node While_loop _) = Some ''while''"
| "refused c (Node With_block _) = Some ''with''"
| "refused c (Node Lambda _) = Some ''lambda''"
| "refused c _ = None"

fun walks :: "kind \<Rightarrow> bool" where
  "walks (Import _) = False"
| "walks (Import_from _) = False"
| "walks _ = True"

fun visit :: "runtime_config \<Rightarrow> nat \<Rightarrow> py_tree \<Rightarrow> string option" and visit_all :: "runtime_config \<Rightarrow> nat \<Rightarrow> py_tree list \<Rightarrow> string option" where
  "visit c d (Node k cs) =
     (if int d + 1 > max_expression_depth c then Some ''depth''
      else case refused c (Node k cs) of Some m \<Rightarrow> Some m
      | None \<Rightarrow> if walks k then visit_all c (d + 1) cs else None)"
| "visit_all c d [] = None"
| "visit_all c d (n # ns) = (case visit c d n of Some m \<Rightarrow> Some m | None \<Rightarrow> visit_all c d ns)"

record parsers =
  parse_exec :: "string \<Rightarrow> py_tree option"
  parse_eval :: "string \<Rightarrow> py_tree option"

definition validate_ast :: "runtime_config \<Rightarrow> parsers \<Rightarrow> string \<Rightarrow> 'x rt_error + py_tree" where
  "validate_ast c P code =
     (if int (length code) > max_string_length c then Inl (Restricted ''length'')
      else case parse_exec P code of None \<Rightarrow> Inl Eval_error
      | Some t \<Rightarrow> (case visit c 0 t of Some m \<Rightarrow> Inl (Restricted m)
          | None \<Rightarrow> (case parse_eval P code of None \<Rightarrow> Inl Eval_error | Some e \<Rightarrow> Inr e)))"

section \<open>The namespace\<close>

definition library_names :: "(string \<times> string) list" where
  "library_names = [
    (''Symbol'', ''Symbol''), (''symbols'', ''symbols''), (''Integer'', ''Integer''), (''Rational'', ''Rational''),
    (''Float'', ''Float''), (''pi'', ''pi''), (''E'', ''E''), (''I'', ''I''), (''oo'', ''oo''), (''zoo'', ''zoo''),
    (''nan'', ''nan''), (''S'', ''S''), (''sqrt'', ''sqrt''), (''abs'', ''Abs''), (''exp'', ''exp''), (''log'', ''log''),
    (''ln'', ''ln''), (''sin'', ''sin''), (''cos'', ''cos''), (''tan'', ''tan''), (''asin'', ''asin''), (''acos'', ''acos''),
    (''atan'', ''atan''), (''sinh'', ''sinh''), (''cosh'', ''cosh''), (''tanh'', ''tanh''), (''factorial'', ''factorial''),
    (''gamma'', ''gamma''), (''diff'', ''diff''), (''integrate'', ''integrate''), (''simplify'', ''simplify''),
    (''expand'', ''expand''), (''factor'', ''factor''), (''cancel'', ''cancel''), (''apart'', ''apart''),
    (''together'', ''together''), (''collect'', ''collect''), (''solve'', ''solve''), (''dsolve'', ''dsolve''),
    (''series'', ''series''), (''limit'', ''limit''), (''Sum'', ''Sum''), (''Product'', ''Product''),
    (''Integral'', ''Integral''), (''Derivative'', ''Derivative''), (''Eq'', ''Eq''), (''Ne'', ''Ne''), (''Gt'', ''Gt''),
    (''Lt'', ''Lt''), (''Ge'', ''Ge''), (''Le'', ''Le''), (''And'', ''And''), (''Or'', ''Or''), (''Not'', ''Not''),
    (''Matrix'', ''Matrix''), (''eye'', ''eye''), (''zeros'', ''zeros''), (''ones'', ''ones''), (''diag'', ''diag''),
    (''det'', ''det''), (''trace'', ''trace''), (''Transpose'', ''Transpose''), (''Inverse'', ''Inverse''),
    (''Poly'', ''Poly''), (''roots'', ''roots''), (''real_roots'', ''real_roots''), (''nroots'', ''nroots''),
    (''count_roots'', ''count_roots''), (''factorint'', ''factorint''), (''isprime'', ''isprime''), (''gcd'', ''gcd''),
    (''lcm'', ''lcm''), (''mod_inverse'', ''mod_inverse''), (''binomial'', ''binomial''), (''bell'', ''bell''),
    (''fibonacci'', ''fibonacci''), (''bernoulli'', ''bernoulli''), (''harmonic'', ''harmonic''), (''Wild'', ''Wild''),
    (''WildFunction'', ''WildFunction'')]"

definition make_namespace :: "(string \<Rightarrow> 'v) \<Rightarrow> (string, 'v) dict \<Rightarrow> (string, 'v) dict" where
  "make_namespace attr vars = foldl (\<lambda>ns (n, v). dict_set n v ns) (map (\<lambda>(n, a). (n, attr a)) library_names) vars"

definition letter :: "char \<Rightarrow> bool" where
  "letter c = (let n = (of_char c :: nat) in 65 \<le> n \<and> n \<le> 90 \<or> 97 \<le> n \<and> n \<le> 122)"

definition word_char :: "char \<Rightarrow> bool" where
  "word_char c = (letter c \<or> c = CHR ''_'' \<or> (let n = (of_char c :: nat) in 48 \<le> n \<and> n \<le> 57))"

text \<open>The letters of an ASCII text that stand alone, between characters of no word.\<close>

fun lone_letters :: "bool \<Rightarrow> string \<Rightarrow> string list" where
  "lone_letters inside [] = []"
| "lone_letters inside (c # cs) =
     (if letter c \<and> \<not> inside \<and> (case cs of [] \<Rightarrow> True | d # _ \<Rightarrow> \<not> word_char d) then [[c]] else []) @ lone_letters (word_char c) cs"

definition add_letters :: "(string \<Rightarrow> 'v) \<Rightarrow> string \<Rightarrow> (string, 'v) dict \<Rightarrow> (string, 'v) dict" where
  "add_letters symbol code ns = foldl (\<lambda>ns n. if dict_get ns n = None then dict_set n (symbol n) ns else ns) ns (remdups (lone_letters False code))"

section \<open>Waiting for the computing process\<close>

text \<open>
  The process puts its answer in the queue at one time and is gone from another on. A poll reads the clock,
  waits for the answer, and then looks whether the process lives.
\<close>

record child =
  puts_at :: "rat option"
  gone_at :: "rat option"

definition alive_at :: "child \<Rightarrow> rat \<Rightarrow> bool" where
  "alive_at ch t = (case gone_at ch of None \<Rightarrow> True | Some x \<Rightarrow> t < x)"

datatype waited = Got | Gone | Expired rat

definition poll_wait :: "rat \<Rightarrow> rat \<Rightarrow> rat" where
  "poll_wait deadline now = min (deadline - now) (1 / 20)"

fun await_result :: "child \<Rightarrow> rat \<Rightarrow> (rat \<times> rat) list \<Rightarrow> waited option" where
  "await_result ch deadline [] = None"
| "await_result ch deadline ((now, look) # ps) =
     (if deadline - now \<le> 0 then Some (Expired now)
      else if (case puts_at ch of None \<Rightarrow> False | Some p \<Rightarrow> p \<le> now + poll_wait deadline now) then Some Got
      else if \<not> alive_at ch look then Some Gone
      else await_result ch deadline ps)"

text \<open>Without an answer the process is killed if it still lives, and its end is awaited.\<close>

definition run_with_timeout :: "child \<Rightarrow> rat \<Rightarrow> (rat \<times> rat) list \<Rightarrow> rat \<Rightarrow> 'x rt_error + 'v \<Rightarrow> ('x rt_error + 'v) option" where
  "run_with_timeout ch deadline ps later payload = (case await_result ch deadline ps of
     None \<Rightarrow> None
   | Some Got \<Rightarrow> Some payload
   | Some _ \<Rightarrow> Some (Inl (if alive_at ch later then Timed_out else No_result)))"

text \<open>
  Without processes an alarm ends a computation that takes longer, on the main thread only; a computation is the
  time it takes, if it ends.
\<close>

definition run_with_alarm :: "bool \<Rightarrow> rat option \<Rightarrow> rat \<Rightarrow> 'x rt_error + 'v \<Rightarrow> ('x rt_error + 'v) option" where
  "run_with_alarm on_main takes effective payload =
     (if on_main then (case takes of None \<Rightarrow> Some (Inl Timed_out) | Some d \<Rightarrow> Some (if effective < d then Inl Timed_out else payload))
      else (case takes of None \<Rightarrow> None | Some _ \<Rightarrow> Some payload))"

section \<open>Operations\<close>

record 'v eval_result =
  result_value :: "'v option"
  expr_str :: string
  result_str :: string
  success :: bool
  failure :: "string option"
  wall_time_ms :: rat

text \<open>
  The library: making symbols, its attributes, evaluating a tree in a namespace, its functions, and running a
  computation under a time limit.
\<close>

record ('v, 'x) engine =
  installed :: bool
  symbol :: "string \<Rightarrow> 'v"
  attribute :: "string \<Rightarrow> 'v"
  as_text :: "'v \<Rightarrow> string option"
  eval_tree :: "py_tree \<Rightarrow> (string, 'v) dict \<Rightarrow> 'x rt_error + 'v"
  solve_for :: "'v \<Rightarrow> 'v \<Rightarrow> 'x rt_error + 'v"
  diff_by :: "'v \<Rightarrow> 'v \<Rightarrow> int \<Rightarrow> 'x rt_error + 'v"
  integrate_over :: "'v \<Rightarrow> 'v \<Rightarrow> (rat \<times> rat) option \<Rightarrow> 'x rt_error + 'v"
  simplify_it :: "'v \<Rightarrow> 'x rt_error + 'v"
  latex_of :: "'v \<Rightarrow> 'x rt_error + 'v"
  method_simplify :: "'v \<Rightarrow> ('x rt_error + 'v) option"
  shown :: "'v \<Rightarrow> string"
  told :: "'x rt_error \<Rightarrow> string"
  limited :: "rat \<Rightarrow> 'x rt_error + 'v \<Rightarrow> 'x rt_error + 'v"
  wall :: rat

definition sympy_module :: "('v, 'x) engine \<Rightarrow> 'x rt_error + unit" where
  "sympy_module E = (if installed E then Inr () else Inl Not_installed)"

definition ok_result :: "('v, 'x) engine \<Rightarrow> string \<Rightarrow> 'v \<Rightarrow> 'v eval_result" where
  "ok_result E code v = \<lparr>result_value = Some v, expr_str = code, result_str = shown E v, success = True, failure = None, wall_time_ms = wall E\<rparr>"

definition failed_result :: "('v, 'x) engine \<Rightarrow> string \<Rightarrow> 'x rt_error \<Rightarrow> 'v eval_result" where
  "failed_result E code e = \<lparr>result_value = None, expr_str = code, result_str = '''', success = False, failure = Some (told E e), wall_time_ms = wall E\<rparr>"

definition time_limit :: "runtime_config \<Rightarrow> rat option \<Rightarrow> rat" where
  "time_limit c t = (case t of None \<Rightarrow> timeout_seconds c | Some t \<Rightarrow> t)"

text \<open>Errors of the runtime are raised, others become a failed result; evaluating also keeps a syntax error.\<close>

definition settle :: "('v, 'x) engine \<Rightarrow> bool \<Rightarrow> string \<Rightarrow> 'x rt_error + 'v \<Rightarrow> 'x rt_error + 'v eval_result" where
  "settle E keep_eval code r = (case r of
     Inr v \<Rightarrow> Inr (ok_result E code v)
   | Inl (Foreign x) \<Rightarrow> Inr (failed_result E code (Foreign x))
   | Inl Eval_error \<Rightarrow> if keep_eval then Inr (failed_result E code Eval_error) else Inl Eval_error
   | Inl e \<Rightarrow> Inl e)"

definition evaluate :: "runtime_config \<Rightarrow> parsers \<Rightarrow> ('v, 'x) engine \<Rightarrow> string \<Rightarrow> (string, 'v) dict \<Rightarrow> rat option \<Rightarrow> bool \<Rightarrow> 'x rt_error + 'v eval_result" where
  "evaluate c P E code vars t simp_result = settle E True code
     (bindE (validate_ast c P code) (\<lambda>tree. bindE (sympy_module E) (\<lambda>_.
      let ns = foldl (\<lambda>ns (n, v). case as_text E v of None \<Rightarrow> ns | Some s \<Rightarrow> dict_set n (symbol E s) ns) (make_namespace (attribute E) vars) vars
      in bindE (limited E (time_limit c t) (eval_tree E tree ns)) (\<lambda>v.
         if simp_result then (case method_simplify E v of None \<Rightarrow> Inr v | Some r \<Rightarrow> r) else Inr v))))"

definition with_variable :: "runtime_config \<Rightarrow> parsers \<Rightarrow> ('v, 'x) engine \<Rightarrow> string \<Rightarrow> string \<Rightarrow> rat option \<Rightarrow> ('v \<Rightarrow> 'v \<Rightarrow> 'x rt_error + 'v) \<Rightarrow>
    'x rt_error + 'v eval_result" where
  "with_variable c P E code var t f = settle E False code
     (bindE (sympy_module E) (\<lambda>_. let x = symbol E var in
      bindE (validate_ast c P code) (\<lambda>tree.
      let ns = make_namespace (attribute E) [(var, x)]
      in limited E (time_limit c t) (bindE (eval_tree E tree ns) (\<lambda>v. f v x)))))"

definition solve_equation :: "runtime_config \<Rightarrow> parsers \<Rightarrow> ('v, 'x) engine \<Rightarrow> string \<Rightarrow> string \<Rightarrow> rat option \<Rightarrow> 'x rt_error + 'v eval_result" where
  "solve_equation c P E code var t = with_variable c P E code var t (solve_for E)"

definition differentiate :: "runtime_config \<Rightarrow> parsers \<Rightarrow> ('v, 'x) engine \<Rightarrow> string \<Rightarrow> string \<Rightarrow> int \<Rightarrow> rat option \<Rightarrow> 'x rt_error + 'v eval_result" where
  "differentiate c P E code var order t = with_variable c P E code var t (\<lambda>v x. diff_by E v x order)"

definition integrate_expr :: "runtime_config \<Rightarrow> parsers \<Rightarrow> ('v, 'x) engine \<Rightarrow> string \<Rightarrow> string \<Rightarrow> rat option \<Rightarrow> rat option \<Rightarrow> rat option \<Rightarrow>
    'x rt_error + 'v eval_result" where
  "integrate_expr c P E code var lower upper t = with_variable c P E code var t (\<lambda>v x.
     integrate_over E v x (case (lower, upper) of (Some a, Some b) \<Rightarrow> Some (a, b) | _ \<Rightarrow> None))"

definition with_letters :: "runtime_config \<Rightarrow> parsers \<Rightarrow> ('v, 'x) engine \<Rightarrow> string \<Rightarrow> rat option \<Rightarrow> ('v \<Rightarrow> 'x rt_error + 'v) \<Rightarrow> 'x rt_error + 'v eval_result" where
  "with_letters c P E code t f = settle E False code
     (bindE (sympy_module E) (\<lambda>_. bindE (validate_ast c P code) (\<lambda>tree.
      let ns = add_letters (symbol E) code (make_namespace (attribute E) [])
      in limited E (time_limit c t) (bindE (eval_tree E tree ns) f))))"

definition simplify_expr :: "runtime_config \<Rightarrow> parsers \<Rightarrow> ('v, 'x) engine \<Rightarrow> string \<Rightarrow> rat option \<Rightarrow> 'x rt_error + 'v eval_result" where
  "simplify_expr c P E code t = with_letters c P E code t (simplify_it E)"

text \<open>The text of a LaTeX answer is the answer itself.\<close>

definition to_latex :: "runtime_config \<Rightarrow> parsers \<Rightarrow> ('v, 'x) engine \<Rightarrow> string \<Rightarrow> rat option \<Rightarrow> 'x rt_error + 'v eval_result" where
  "to_latex c P E code t = with_letters c P E code t (latex_of E)"

text \<open>The shared runtime is made at the first use, or again when a configuration is given.\<close>

definition get_runtime :: "runtime_config option \<Rightarrow> runtime_config option \<Rightarrow> runtime_config" where
  "get_runtime cur config = (case (config, cur) of (Some c, _) \<Rightarrow> c | (None, Some c) \<Rightarrow> c | (None, None) \<Rightarrow> default_config)"

text \<open>The functions of the module use the shared runtime.\<close>

definition module_evaluate where
  "module_evaluate cur P E code vars t s = evaluate (get_runtime cur None) P E code vars t s"

definition module_solve where
  "module_solve cur P E code var t = solve_equation (get_runtime cur None) P E code var t"

definition module_diff where
  "module_diff cur P E code var order t = differentiate (get_runtime cur None) P E code var order t"

definition module_integrate where
  "module_integrate cur P E code var lower upper t = integrate_expr (get_runtime cur None) P E code var lower upper t"

definition module_simplify where
  "module_simplify cur P E code t = simplify_expr (get_runtime cur None) P E code t"

definition module_latex where
  "module_latex cur P E code t = to_latex (get_runtime cur None) P E code t"

definition run_sympy where
  "run_sympy cur P E code vars t = module_evaluate cur P E code vars t True"

section \<open>What passes the check\<close>

text \<open>The nodes the check walks, and the height of what it walks.\<close>

fun walked :: "py_tree \<Rightarrow> py_tree list" where
  "walked (Node k cs) = Node k cs # (if walks k then concat (map walked cs) else [])"

fun height :: "py_tree \<Rightarrow> nat" where
  "height (Node k cs) = Suc (if walks k then foldr (\<lambda>t m. max (height t) m) cs 0 else 0)"

definition harmless :: "runtime_config \<Rightarrow> py_tree \<Rightarrow> bool" where
  "harmless c n = (case kind_of n of Name x \<Rightarrow> x \<notin> set (forbidden_names c)
     | Attribute a \<Rightarrow> \<not> has_prefix a ''_''
     | Function_def \<Rightarrow> False | Async_function_def \<Rightarrow> False | Class_def \<Rightarrow> False | For_loop \<Rightarrow> False | While_loop \<Rightarrow> False
     | With_block \<Rightarrow> False | Lambda \<Rightarrow> False
     | Import ms \<Rightarrow> list_all (\<lambda>m. head_module m \<in> set (allowed_modules c)) ms
     | _ \<Rightarrow> True)"

lemma refused_harmless: "refused c n = None \<Longrightarrow> harmless c n"
  by (induction c n rule: refused.induct) (auto simp: harmless_def list_ex_iff list_all_iff split: if_splits)

lemma visited:
  "visit c d t = None \<Longrightarrow> (\<forall>n \<in> set (walked t). refused c n = None) \<and> int d + int (height t) \<le> max_expression_depth c"
  "visit_all c d ts = None \<Longrightarrow> (\<forall>t \<in> set ts. (\<forall>n \<in> set (walked t). refused c n = None) \<and> int d + int (height t) \<le> max_expression_depth c)"
proof (induction c d t and c d ts rule: visit_visit_all.induct)
  case (1 c d k cs)
  from 1(2) have a: "int d + 1 \<le> max_expression_depth c" "refused c (Node k cs) = None" "walks k \<Longrightarrow> visit_all c (d + 1) cs = None"
    by (auto split: if_splits option.splits)
  have r: "\<forall>t \<in> set cs. (\<forall>n \<in> set (walked t). refused c n = None) \<and> int (d + 1) + int (height t) \<le> max_expression_depth c" if "walks k"
    using 1(1) a that by auto
  have f: "int (d + 1) + int (foldr (\<lambda>t m. max (height t) m) cs 0) \<le> max_expression_depth c" if "walks k"
    using r [OF that] a(1) by (induction cs) auto
  show ?case using a r f by auto
qed (auto split: option.splits)

text \<open>
  C19. What is evaluated has passed the check: given a parser whose two modes agree on an expression, no node the
  check walks in it is a forbidden name, a private attribute, a lambda, a definition or a loop, it is no deeper than
  the limit, and its text no longer.
\<close>

theorem validated_is_harmless:
  assumes "validate_ast c P code = Inr e"
    and "\<And>e. parse_eval P code = Some e \<Longrightarrow> \<exists>b. e = Node (Plain ''Expression'') [b] \<and> parse_exec P code = Some (Node (Plain ''Module'') [Node (Plain ''Expr'') [b]])"
  shows "\<exists>b. e = Node (Plain ''Expression'') [b] \<and> list_all (harmless c) (walked b)
    \<and> 2 + int (height b) \<le> max_expression_depth c \<and> int (length code) \<le> max_string_length c"
proof -
  from assms(1) obtain t where t: "int (length code) \<le> max_string_length c" "parse_exec P code = Some t" "visit c 0 t = None" "parse_eval P code = Some e"
    by (auto simp: validate_ast_def split: if_splits option.splits)
  from assms(2) [OF t(4)] t(2) obtain b where b: "e = Node (Plain ''Expression'') [b]" "t = Node (Plain ''Module'') [Node (Plain ''Expr'') [b]]" by auto
  from visited(1) [OF t(3)] have "\<forall>n \<in> set (walked b). refused c n = None" "2 + int (height b) \<le> max_expression_depth c" by (auto simp: b)
  with t(1) b(1) refused_harmless show ?thesis by (auto simp: list_all_iff)
qed

definition sample_expr :: py_tree where
  "sample_expr = Node Call [Node (Attribute ''sqrt'') [Node (Name ''x'') [Node (Plain ''Load'') []], Node (Plain ''Load'') []], Node (Plain ''Constant'') []]"

definition sample_parsers :: parsers where
  "sample_parsers = \<lparr>parse_exec = (\<lambda>_. Some (Node (Plain ''Module'') [Node (Plain ''Expr'') [sample_expr]])),
     parse_eval = (\<lambda>_. Some (Node (Plain ''Expression'') [sample_expr]))\<rparr>"

theorem validated_is_harmless_witness:
  "list_all (harmless default_config) (walked sample_expr) \<and> 2 + int (height sample_expr) \<le> 50"
proof -
  have "validate_ast default_config sample_parsers ''x.sqrt(4)'' = (Inr (Node (Plain ''Expression'') [sample_expr]) :: string rt_error + py_tree)"
    by code_simp
  from validated_is_harmless [OF this] show ?thesis by (auto simp: sample_parsers_def default_config_def)
qed

text \<open>
  The check does not look into texts. A format text names private attributes, and functions of the namespace that
  turn texts into expressions evaluate them: both pass.
\<close>

lemma texts_pass:
  "visit default_config 2 (Node Call [Node (Attribute ''format'') [Node (Plain ''Constant'') [], Node (Plain ''Load'') []],
     Node (Name ''x'') [Node (Plain ''Load'') []]]) = None"
  "visit default_config 2 (Node Call [Node (Name ''S'') [Node (Plain ''Load'') []], Node (Plain ''Constant'') []]) = None"
  "dict_get library_names ''S'' = Some ''S''" "dict_get library_names ''simplify'' = Some ''simplify''"
  by code_simp+

section \<open>What the operations answer\<close>

text \<open>
  Text the check refuses is never evaluated: with the library there, all six operations raise the refusal
  whatever the library would do.
\<close>

theorem restricted_never_runs:
  fixes E :: "('v, 'x) engine"
  assumes "validate_ast c P code = (Inl (Restricted m) :: 'x rt_error + py_tree)" and "installed E"
  shows "evaluate c P E code vars t s = Inl (Restricted m) \<and> solve_equation c P E code var t = Inl (Restricted m)
    \<and> differentiate c P E code var order t = Inl (Restricted m) \<and> integrate_expr c P E code var lower upper t = Inl (Restricted m)
    \<and> simplify_expr c P E code t = Inl (Restricted m) \<and> to_latex c P E code t = Inl (Restricted m)"
  by (simp_all add: assms evaluate_def solve_equation_def differentiate_def integrate_expr_def simplify_expr_def to_latex_def
      with_variable_def with_letters_def sympy_module_def settle_def Let_def)

definition sample_engine :: "(int, string) engine" where
  "sample_engine = \<lparr>installed = True, symbol = (\<lambda>_. 0), attribute = (\<lambda>_. 0), as_text = (\<lambda>_. None), eval_tree = (\<lambda>_ _. Inr 7),
     solve_for = (\<lambda>v _. Inr v), diff_by = (\<lambda>v _ _. Inr v), integrate_over = (\<lambda>v _ _. Inr v), simplify_it = Inr, latex_of = Inr,
     method_simplify = (\<lambda>_. None), shown = str_int, told = (\<lambda>_. ''error''), limited = (\<lambda>_ r. r), wall = 0\<rparr>"

definition naming_parsers :: parsers where
  "naming_parsers = (let e = Node (Name ''os'') [Node (Plain ''Load'') []] in
     \<lparr>parse_exec = (\<lambda>_. Some (Node (Plain ''Module'') [Node (Plain ''Expr'') [e]])), parse_eval = (\<lambda>_. Some (Node (Plain ''Expression'') [e]))\<rparr>)"

theorem restricted_never_runs_witness:
  "solve_equation default_config naming_parsers sample_engine ''os'' ''x'' None = Inl (Restricted ''name'')"
proof -
  have v: "validate_ast default_config naming_parsers ''os'' = (Inl (Restricted ''name'') :: string rt_error + py_tree)" by code_simp
  have "installed sample_engine" by (simp add: sample_engine_def)
  with restricted_never_runs [OF v] show ?thesis by blast
qed

definition well_answered :: "bool \<Rightarrow> string \<Rightarrow> 'x rt_error + 'v eval_result \<Rightarrow> bool" where
  "well_answered keep code r = (case r of
     Inl e \<Rightarrow> (case e of Foreign _ \<Rightarrow> False | Eval_error \<Rightarrow> \<not> keep | _ \<Rightarrow> True)
   | Inr res \<Rightarrow> expr_str res = code \<and> success res = (result_value res \<noteq> None) \<and> success res = (failure res = None))"

text \<open>
  A result is a success exactly when it has a value and no error, and repeats the expression; what is raised is
  an error of the runtime, never one of the library; and evaluating turns a syntax error into a failed result where
  the other operations raise it.
\<close>

theorem operations_answer_well:
  "well_answered True code (evaluate c P E code vars t s) \<and> well_answered False code (solve_equation c P E code var t)
   \<and> well_answered False code (differentiate c P E code var order t) \<and> well_answered False code (integrate_expr c P E code var lower upper t)
   \<and> well_answered False code (simplify_expr c P E code t) \<and> well_answered False code (to_latex c P E code t)"
proof -
  have "well_answered k code (settle E k code r)" for k r
    by (auto simp: well_answered_def settle_def ok_result_def failed_result_def split: sum.split rt_error.split)
  then show ?thesis
    unfolding evaluate_def solve_equation_def differentiate_def integrate_expr_def simplify_expr_def to_latex_def with_variable_def with_letters_def
    by blast
qed

text \<open>The simplification of an evaluated value runs outside the time limit: its answer does not depend on the limit at all.\<close>

lemma simplify_unlimited:
  fixes E :: "('v, 'x) engine"
  assumes "validate_ast c P code = (Inr e :: 'x rt_error + py_tree)" "installed E" "\<And>r. limited E (time_limit c t) r = Inr v" "method_simplify E v = Some r"
  shows "evaluate c P E code vars t True = settle E True code r"
  by (simp add: evaluate_def assms sympy_module_def Let_def)

section \<open>The wait is bounded\<close>

text \<open>Polls as the loop makes them: each waits its time before the next reads the clock.\<close>

fun spaced :: "rat \<Rightarrow> (rat \<times> rat) list \<Rightarrow> bool" where
  "spaced deadline ((now, look) # (now', look') # ps) = (now + poll_wait deadline now \<le> now' \<and> spaced deadline ((now', look') # ps))"
| "spaced deadline ps = True"

lemma await_ends:
  assumes "spaced deadline ((now, look) # ps)" and "20 * (deadline - now) \<le> of_nat n" and "n \<le> length ps"
  shows "await_result ch deadline ((now, look) # ps) \<noteq> None"
  using assms
proof (induction n arbitrary: now look ps)
  case (Suc n)
  show ?case
  proof (cases "deadline - now \<le> 0")
    case False
    obtain now' look' qs where ps: "ps = (now', look') # qs" using Suc.prems(3) by (cases ps) auto
    have step: "now + poll_wait deadline now \<le> now'" "spaced deadline ((now', look') # qs)" using Suc.prems(1) by (simp_all add: ps)
    have "20 * (deadline - now') \<le> of_nat n"
    proof (cases "deadline - now \<le> 1 / 20")
      case True
      with step(1) have "deadline \<le> now'" by (simp add: poll_wait_def)
      then have "20 * (deadline - now') \<le> 0" by simp
      also have "\<dots> \<le> of_nat n" by simp
      finally show ?thesis .
    next
      case False
      with step(1) have "now + 1 / 20 \<le> now'" by (simp add: poll_wait_def)
      with Suc.prems(2) show ?thesis by simp
    qed
    from Suc.IH [OF step(2) this] Suc.prems(3) show ?thesis by (simp add: ps)
  qed simp
qed simp

text \<open>
  C26. The wait for the computing process ends: with one poll more than twenty for every second of the limit the loop
  has an answer, whatever the process does and however late the clock is read.
\<close>

theorem wait_is_bounded:
  assumes "spaced deadline ((start, look) # ps)" and "20 * (deadline - start) \<le> of_nat (length ps)"
  shows "run_with_timeout ch deadline ((start, look) # ps) later payload \<noteq> None"
proof -
  have "await_result ch deadline ((start, look) # ps) \<noteq> None" by (rule await_ends [OF assms]) simp
  then obtain w where w: "await_result ch deadline ((start, look) # ps) = Some w" by blast
  show ?thesis unfolding run_with_timeout_def w by (cases w) auto
qed

theorem wait_is_bounded_witness:
  "run_with_timeout \<lparr>puts_at = None, gone_at = None\<rparr> (1 / 10) [(0, 0), (1 / 20, 1 / 20), (1 / 10, 1 / 10)] 1 (Inr (0 :: int)) \<noteq> (None :: (string rt_error + int) option)"
  by (rule wait_is_bounded) (simp_all add: poll_wait_def)

text \<open>
  A process that answers and ends between the end of a poll's wait and the look at it counts as gone without a
  result, although the answer is in the queue.
\<close>

lemma answer_lost:
  "run_with_timeout \<lparr>puts_at = Some (6 / 100), gone_at = Some (7 / 100)\<rparr> 5 [(0, 8 / 100)] 1 (Inr (42 :: int))
   = Some (Inl No_result :: string rt_error + int)"
  by (simp add: run_with_timeout_def poll_wait_def alive_at_def)

end
