(* ===== verification/ContainerPool.thy ===== *)
theory ContainerPool
  imports Obase_Prelude
begin

text \<open>
  The container pool (\<^verbatim>\<open>obase/docker_pool.py\<close>). Calls of the container service are awaited, so an acquisition that
  creates has three parts between which other tasks run: deciding to create, entering the created container, and
  learning whether it started. A destruction has two. Identifiers the service gives are arguments.
\<close>

section \<open>Slots\<close>

datatype pool_state = Running | Idle | Stopped | Missing

record slot =
  slot_name :: string
  created_at :: rat
  last_used_at :: rat
  busy :: bool
  state :: pool_state

record docker_pool =
  image :: string
  max_size :: int
  idle_timeout_s :: rat
  name_prefix :: string
  slots :: "(string, slot) dict"
  counter :: nat

datatype pool_failure = Bad_size | Pool_full | Unknown_container string | Create_failed | Start_failed | Remove_failed

definition new_pool :: "string \<Rightarrow> int \<Rightarrow> rat \<Rightarrow> string \<Rightarrow> pool_failure + docker_pool" where
  "new_pool img n idle pre = (if n < 1 then Inl Bad_size
     else Inr \<lparr>image = img, max_size = n, idle_timeout_s = idle, name_prefix = pre, slots = [], counter = 0\<rparr>)"

definition size_of :: "docker_pool \<Rightarrow> nat" where
  "size_of p = length (slots p)"

definition idle_count :: "docker_pool \<Rightarrow> nat" where
  "idle_count p = length (filter (\<lambda>x. \<not> busy (snd x)) (slots p))"

text \<open>A slot whose container cannot be inspected is marked missing; the service's answers are given.\<close>

definition status_slot :: "(string \<Rightarrow> string option) \<Rightarrow> string \<times> slot \<Rightarrow> string \<times> slot" where
  "status_slot inspect x = (fst x, if inspect (fst x) = None then (snd x)\<lparr>state := Missing\<rparr> else snd x)"

definition status :: "(string \<Rightarrow> string option) \<Rightarrow> docker_pool \<Rightarrow> docker_pool \<times> (string \<times> pool_state \<times> bool \<times> string) list" where
  "status inspect p = (p\<lparr>slots := map (status_slot inspect) (slots p)\<rparr>,
     map (\<lambda>x. (fst x, state (snd x), busy (snd x), case inspect (fst x) of None \<Rightarrow> ''missing'' | Some s \<Rightarrow> s)) (slots p))"

section \<open>Acquiring and giving back\<close>

definition free_slot :: "docker_pool \<Rightarrow> string option" where
  "free_slot p = map_option fst (List.find (\<lambda>x. \<not> busy (snd x) \<and> state (snd x) = Idle) (slots p))"

definition set_slot :: "string \<Rightarrow> (slot \<Rightarrow> slot) \<Rightarrow> docker_pool \<Rightarrow> docker_pool" where
  "set_slot cid f p = p\<lparr>slots := map (\<lambda>(c, s). (c, if c = cid then f s else s)) (slots p)\<rparr>"

datatype begun = Reused string | Refused pool_failure | Creating string

definition acquire_begin :: "rat \<Rightarrow> string option \<Rightarrow> docker_pool \<Rightarrow> docker_pool \<times> begun" where
  "acquire_begin now hint p = (case free_slot p of
     Some cid \<Rightarrow> (set_slot cid (\<lambda>s. s\<lparr>busy := True, last_used_at := now\<rparr>) p, Reused cid)
   | None \<Rightarrow>
       if int (size_of p) \<ge> max_size p then (p, Refused Pool_full)
       else let n = Suc (counter p) in
         (p\<lparr>counter := n\<rparr>, Creating (name_prefix p @ ''-'' @ (case hint of None \<Rightarrow> ''c'' | Some h \<Rightarrow> if h = '''' then ''c'' else h) @ ''-'' @ str_nat n)))"

definition acquire_created :: "rat \<Rightarrow> string \<Rightarrow> string \<Rightarrow> docker_pool \<Rightarrow> docker_pool" where
  "acquire_created now cid name p =
     p\<lparr>slots := dict_set cid \<lparr>slot_name = name, created_at = now, last_used_at = now, busy = True, state = Running\<rparr> (slots p)\<rparr>"

definition acquire_started :: "bool \<Rightarrow> string \<Rightarrow> docker_pool \<Rightarrow> docker_pool \<times> (pool_failure + string)" where
  "acquire_started ok cid p = (if ok then (p, Inr cid) else (p\<lparr>slots := dict_pop cid (slots p)\<rparr>, Inl Start_failed))"

text \<open>An acquisition no other task interrupts, given what creating and starting answer.\<close>

definition acquire :: "rat \<Rightarrow> string option \<Rightarrow> string option \<Rightarrow> bool \<Rightarrow> docker_pool \<Rightarrow> docker_pool \<times> (pool_failure + string)" where
  "acquire now hint created ok p = (case acquire_begin now hint p of
     (p1, Reused cid) \<Rightarrow> (p1, Inr cid)
   | (p1, Refused e) \<Rightarrow> (p1, Inl e)
   | (p1, Creating name) \<Rightarrow> (case created of None \<Rightarrow> (p1, Inl Create_failed)
       | Some cid \<Rightarrow> acquire_started ok cid (acquire_created now cid name p1)))"

datatype removal = Removed | Already_gone | Remove_error

definition destroy :: "string \<Rightarrow> removal \<Rightarrow> docker_pool \<Rightarrow> docker_pool \<times> pool_failure option" where
  "destroy cid r p = (case dict_get (slots p) cid of None \<Rightarrow> (p, Some (Unknown_container cid))
     | Some _ \<Rightarrow> (p\<lparr>slots := dict_pop cid (slots p)\<rparr>, if r = Remove_error then Some Remove_failed else None))"

text \<open>The time a release stores and the one it compares with it, read right after.\<close>

definition release :: "rat \<Rightarrow> rat \<Rightarrow> string \<Rightarrow> removal \<Rightarrow> docker_pool \<Rightarrow> docker_pool \<times> pool_failure option" where
  "release now later cid r p = (case dict_get (slots p) cid of None \<Rightarrow> (p, Some (Unknown_container cid))
     | Some _ \<Rightarrow> let p1 = set_slot cid (\<lambda>s. s\<lparr>busy := False, last_used_at := now\<rparr>) p
                  in if later - now > idle_timeout_s p then destroy cid r p1 else (p1, None))"

fun close_pool :: "(string \<times> removal) list \<Rightarrow> docker_pool \<Rightarrow> docker_pool \<times> pool_failure option" where
  "close_pool [] p = (p, None)"
| "close_pool ((cid, r) # xs) p = (case destroy cid r p of (p1, None) \<Rightarrow> close_pool xs p1 | (p1, Some e) \<Rightarrow> (p1, Some e))"

section \<open>Histories\<close>

datatype pool_event =
    Acquire rat "string option" "string option" bool
  | Begin rat "string option"
  | Created rat string string
  | Started bool string
  | Release rat rat string removal
  | Destroy string removal
  | Status "string list"

fun pool_step :: "docker_pool \<Rightarrow> pool_event \<Rightarrow> docker_pool" where
  "pool_step p (Acquire now hint created ok) = fst (acquire now hint created ok p)"
| "pool_step p (Begin now hint) = fst (acquire_begin now hint p)"
| "pool_step p (Created now cid name) = acquire_created now cid name p"
| "pool_step p (Started ok cid) = fst (acquire_started ok cid p)"
| "pool_step p (Release now later cid r) = fst (release now later cid r p)"
| "pool_step p (Destroy cid r) = fst (destroy cid r p)"
| "pool_step p (Status gone) = fst (status (\<lambda>c. if c \<in> set gone then None else Some ''running'') p)"

lemma free_slot_None: "(\<And>x. x \<in> set (slots p) \<Longrightarrow> state (snd x) \<noteq> Idle) \<Longrightarrow> free_slot p = None"
  by (force simp: free_slot_def find_None_iff)

section \<open>The size stays within the limit\<close>

fun whole :: "pool_event \<Rightarrow> bool" where
  "whole (Begin _ _) = False"
| "whole (Created _ _ _) = False"
| "whole (Started _ _) = False"
| "whole _ = True"

definition fits :: "docker_pool \<Rightarrow> bool" where
  "fits p \<longleftrightarrow> distinct (map fst (slots p)) \<and> int (size_of p) \<le> max_size p"

lemma set_slot_simps [simp]: "map fst (slots (set_slot c f p)) = map fst (slots p)" "size_of (set_slot c f p) = size_of p" "max_size (set_slot c f p) = max_size p"
  by (simp_all add: set_slot_def size_of_def case_prod_unfold comp_def)

lemma pop_size: "length (dict_pop c d) \<le> length d"
  by (induction d) auto

lemma destroy_fits: "fits p \<Longrightarrow> fits (fst (destroy c r p))"
  using pop_size [of c "slots p"] by (auto simp: destroy_def fits_def size_of_def distinct_delete split: option.split)

lemma acquire_fits:
  assumes "fits p"
  shows "fits (fst (acquire now hint created ok p))"
proof (cases "free_slot p")
  case (Some c)
  then show ?thesis using assms by (simp add: acquire_def acquire_begin_def fits_def)
next
  case None
  show ?thesis
  proof (cases "int (size_of p) \<ge> max_size p \<or> created = None")
    case True
    with None assms show ?thesis by (auto simp: acquire_def acquire_begin_def fits_def size_of_def Let_def split: option.split)
  next
    case False
    then obtain cid where cid: "created = Some cid" and lt: "int (size_of p) < max_size p" by auto
    define p1 where "p1 = acquire_created now cid (name_prefix p @ ''-'' @ (case hint of None \<Rightarrow> ''c'' | Some h \<Rightarrow> if h = '''' then ''c'' else h) @ ''-'' @ str_nat (Suc (counter p))) (p\<lparr>counter := Suc (counter p)\<rparr>)"
    have f: "fits p1" using assms lt by (auto simp: p1_def acquire_created_def fits_def size_of_def distinct_update dict_set_length)
    have "fst (acquire now hint created ok p) = fst (acquire_started ok cid p1)"
      using None lt by (simp add: acquire_def acquire_begin_def cid p1_def Let_def)
    with f pop_size [of cid "slots p1"] show ?thesis by (auto simp: acquire_started_def fits_def size_of_def distinct_delete)
  qed
qed

text \<open>
  As long as no other task runs inside an acquisition, the pool never holds more containers than its limit,
  whatever is acquired, released, destroyed, or fails.
\<close>

theorem pool_within_limit:
  assumes "new_pool img n idle pre = Inr p" and "list_all whole es"
  shows "int (size_of (foldl pool_step p es)) \<le> n"
proof -
  have step: "fits (pool_step q e) \<and> max_size (pool_step q e) = max_size q" if "fits q" "whole e" for q e
  proof (cases e)
    case (Acquire now hint created ok)
    have "max_size (fst (acquire now hint created ok q)) = max_size q"
      by (auto simp: acquire_def acquire_begin_def acquire_started_def acquire_created_def Let_def split: option.split)
    with Acquire acquire_fits [OF that(1)] show ?thesis by simp
  next
    case (Release now later cid r)
    have "fits (set_slot cid f q)" for f using that(1) by (simp add: fits_def)
    then have "fits (fst (destroy cid r (set_slot cid f q)))" "max_size (fst (destroy cid r (set_slot cid f q))) = max_size q" "fits (set_slot cid f q)" for f
      using destroy_fits by (auto simp: destroy_def split: option.split)
    with Release that(1) show ?thesis by (auto simp: release_def Let_def split: option.split)
  next
    case (Destroy cid r)
    with destroy_fits [OF that(1)] show ?thesis by (auto simp: destroy_def split: option.split)
  qed (use that in \<open>auto simp: fits_def status_def size_of_def status_slot_def comp_def\<close>)
  have "fits (foldl pool_step q es) \<and> max_size (foldl pool_step q es) = max_size q" if "fits q" for q
    using assms(2) that by (induction es arbitrary: q) (auto simp: step)
  moreover have "fits p" "max_size p = n" using assms(1) by (auto simp: new_pool_def fits_def size_of_def split: if_splits)
  ultimately have "fits (foldl pool_step p es)" "max_size (foldl pool_step p es) = n" by simp_all
  then show ?thesis by (simp add: fits_def)
qed

theorem pool_within_limit_witness:
  "\<exists>p. new_pool ''i'' 1 600 ''p'' = Inr p \<and> int (size_of (foldl pool_step p [Acquire 0 None (Some ''a'') True, Acquire 1 None (Some ''b'') True])) \<le> 1"
proof -
  obtain p where p: "new_pool ''i'' 1 600 ''p'' = Inr p" by (simp add: new_pool_def)
  from pool_within_limit [OF p, of "[Acquire 0 None (Some ''a'') True, Acquire 1 None (Some ''b'') True]"] p show ?thesis by auto
qed

text \<open>Two acquisitions that decide before either has entered its container exceed the limit.\<close>

lemma overlapping_acquisitions_exceed:
  "(case new_pool ''i'' 1 600 ''p'' of Inl _ \<Rightarrow> False
    | Inr p \<Rightarrow> size_of (foldl pool_step p [Begin 0 None, Begin 0 None, Created 1 ''a'' ''p-c-1'', Created 1 ''b'' ''p-c-2'', Started True ''a'', Started True ''b'']) = 2)"
  by code_simp

section \<open>Containers are never reused\<close>

definition none_idle :: "docker_pool \<Rightarrow> bool" where
  "none_idle p \<longleftrightarrow> (\<forall>x \<in> set (slots p). state (snd x) \<noteq> Idle)"

lemma none_idle_set: "none_idle p \<Longrightarrow> (\<And>s. state (f s) = state s) \<Longrightarrow> none_idle (set_slot c f p)"
  by (auto simp: none_idle_def set_slot_def) (metis snd_conv)

lemma in_pop: "x \<in> set (dict_pop c d) \<Longrightarrow> x \<in> set d"
  by (induction d) (auto split: if_splits)

lemma none_idle_pop: "none_idle p \<Longrightarrow> none_idle (p\<lparr>slots := dict_pop c (slots p)\<rparr>)"
  by (auto simp: none_idle_def dest: in_pop)

lemma in_update: "x \<in> set (dict_set c v d) \<Longrightarrow> x = (c, v) \<or> x \<in> set d"
  by (induction d) (auto split: if_splits)

lemma none_idle_enter: "none_idle p \<Longrightarrow> none_idle (acquire_created now cid name p)"
  by (auto simp: none_idle_def acquire_created_def dest: in_update)

lemma none_idle_step:
  assumes "none_idle p"
  shows "none_idle (pool_step p e) \<and> max_size (pool_step p e) = max_size p"
proof -
  have f: "free_slot p = None" using assms by (intro free_slot_None) (auto simp: none_idle_def)
  show ?thesis
  proof (cases e)
    case (Acquire now hint created ok)
    have c: "none_idle (p\<lparr>counter := n\<rparr>)" for n using assms by (simp add: none_idle_def)
    show ?thesis using Acquire f assms c none_idle_enter [OF c] none_idle_pop [OF none_idle_enter [OF c]]
      by (auto simp: acquire_def acquire_begin_def acquire_started_def Let_def split: option.split) (simp_all add: acquire_created_def)
  next
    case (Release now later cid r)
    have n: "none_idle (set_slot cid (\<lambda>s. s\<lparr>busy := False, last_used_at := now\<rparr>) p)" by (rule none_idle_set [OF assms]) simp
    show ?thesis using Release assms n none_idle_pop [OF n] by (auto simp: release_def destroy_def Let_def split: option.split)
  next
    case (Status gone)
    then show ?thesis using assms by (auto simp: none_idle_def status_def status_slot_def)
  qed (use assms f in \<open>auto simp: acquire_begin_def Let_def none_idle_enter acquire_started_def none_idle_pop destroy_def none_idle_def acquire_created_def
        split: option.split dest: in_pop in_update\<close>)
qed

lemma none_idle_run: "none_idle p \<Longrightarrow> none_idle (foldl pool_step p es) \<and> max_size (foldl pool_step p es) = max_size p"
  by (induction es arbitrary: p) (auto simp: none_idle_step)

text \<open>
  A container is never handed out a second time: a new slot is entered as running, giving it back does not make
  it idle, and an acquisition looks for idle ones only. So whatever happened before, an acquisition either creates
  a container or, when the pool has its limit of containers, fails, even when all of them were given back.
\<close>

theorem never_reuses:
  assumes "new_pool img n idle pre = Inr p"
  shows "(case snd (acquire_begin now hint (foldl pool_step p es)) of
     Reused c \<Rightarrow> False
   | Refused e \<Rightarrow> e = Pool_full \<and> int (size_of (foldl pool_step p es)) \<ge> n
   | Creating _ \<Rightarrow> int (size_of (foldl pool_step p es)) < n)"
proof -
  have "none_idle p" "max_size p = n" using assms by (auto simp: new_pool_def none_idle_def split: if_splits)
  with none_idle_run [of p es] have r: "none_idle (foldl pool_step p es)" "max_size (foldl pool_step p es) = n" by auto
  then have "free_slot (foldl pool_step p es) = None" by (intro free_slot_None) (auto simp: none_idle_def)
  with r(2) show ?thesis by (simp add: acquire_begin_def Let_def)
qed

theorem never_reuses_witness:
  "\<exists>p. new_pool ''i'' 1 600 ''p'' = Inr p \<and> (\<forall>c. snd (acquire_begin 9 None (foldl pool_step p [Acquire 0 None (Some ''a'') True, Release 5 5 ''a'' Removed])) \<noteq> Reused c)"
proof -
  obtain p where p: "new_pool ''i'' 1 600 ''p'' = Inr p" by (simp add: new_pool_def)
  from never_reuses [OF p, where now = 9 and hint = None and es = "[Acquire 0 None (Some ''a'') True, Release 5 5 ''a'' Removed]"] p show ?thesis
    by (auto split: begun.splits)
qed

lemma released_pool_is_full:
  "(case new_pool ''i'' 1 600 ''p'' of Inl _ \<Rightarrow> False
    | Inr p \<Rightarrow> let q = foldl pool_step p [Acquire 0 None (Some ''a'') True, Release 5 5 ''a'' Removed]
               in idle_count q = 1 \<and> snd (acquire 6 None (Some ''b'') True q) = Inl Pool_full)"
  by code_simp

text \<open>A container whose start fails leaves the pool but was created: nothing removes it.\<close>

lemma failed_start_leaks:
  "(case new_pool ''i'' 1 600 ''p'' of Inl _ \<Rightarrow> False
    | Inr p \<Rightarrow> let q = foldl pool_step p [Acquire 0 None (Some ''a'') False] in slots q = [] \<and> counter q = 1)"
  by code_simp

end
