(* ===== verification/LocalSandbox.thy ===== *)
theory LocalSandbox
  imports Json Python_Text
begin

text \<open>
  The local sandbox with baited credentials (\<^verbatim>\<open>obase/local_sandbox_pool.py\<close>): the wrapper around the code under
  test, and what the caller makes of the process that ran it. The code under test is the list of what it does,
  each with whether it catches the error it gets. Writing and reading documents are arguments.
\<close>

section \<open>Configuration and results\<close>

record sandbox_pool =
  max_concurrency :: int
  timeout_s :: rat
  memory_mb :: int
  cpu_s :: int
  network_blocked :: bool

record execution_result =
  exit_code :: int
  stdout :: string
  stderr :: string
  honeypot_access :: json
  network_attempt :: bool
  duration_ms :: int
  timed_out :: bool

definition hostile :: "execution_result \<Rightarrow> bool" where
  "hostile r = (truthy (honeypot_access r) \<or> network_attempt r)"

definition last_chars :: "nat \<Rightarrow> string \<Rightarrow> string" where
  "last_chars n s = drop (length s - n) s"

definition result_to_dict :: "execution_result \<Rightarrow> jdict" where
  "result_to_dict r = [(''exit_code'', JInt (exit_code r)), (''stdout'', JStr (last_chars 4000 (stdout r))),
     (''stderr'', JStr (last_chars 2000 (stderr r))), (''honeypot_access'', honeypot_access r), (''network_attempt'', JBool (network_attempt r)),
     (''hostile'', JBool (hostile r)), (''duration_ms'', JInt (duration_ms r)), (''timed_out'', JBool (timed_out r))]"

section \<open>The wrapper\<close>

datatype action = Read_key string | Read_items | Connect | Write_out string | Leave int | Fail string | Fail_other string

type_synonym program = "(action \<times> bool) list"

record probe =
  connected :: bool
  printed :: string

datatype ending = Completed | Raised string | Raised_other string | Left_by int

definition line_end :: string where "line_end = [CHR 0x0A]"

definition bait_error :: "string \<Rightarrow> string" where
  "bait_error k = ''HONEYPOT_ACCESS:'' @ k"

text \<open>The guarded environment raises at a baited key; its items are those of the environment itself.\<close>

definition env_get :: "string list \<Rightarrow> (string, string) dict \<Rightarrow> string \<Rightarrow> string + string option" where
  "env_get baits env k = (if k \<in> set baits then Inl (bait_error k) else Inr (dict_get env k))"

definition env_items :: "string list \<Rightarrow> (string, string) dict \<Rightarrow> (string \<times> string) list" where
  "env_items baits env = env"

fun act :: "string list \<Rightarrow> (string, string) dict \<Rightarrow> action \<Rightarrow> probe \<Rightarrow> probe \<times> ending option" where
  "act baits env (Read_key k) s = (s, case env_get baits env k of Inl m \<Rightarrow> Some (Raised m) | Inr _ \<Rightarrow> None)"
| "act baits env Read_items s = (s, None)"
| "act baits env Connect s = (s\<lparr>connected := True, printed := printed s @ ''NETWORK_ATTEMPT'' @ line_end\<rparr>, None)"
| "act baits env (Write_out x) s = (s\<lparr>printed := printed s @ x\<rparr>, None)"
| "act baits env (Leave n) s = (s, Some (Left_by n))"
| "act baits env (Fail m) s = (s, Some (Raised m))"
| "act baits env (Fail_other m) s = (s, Some (Raised_other m))"

fun run_user :: "string list \<Rightarrow> (string, string) dict \<Rightarrow> program \<Rightarrow> probe \<Rightarrow> probe \<times> ending" where
  "run_user baits env [] s = (s, Completed)"
| "run_user baits env ((a, caught) # as) s = (case act baits env a s of
     (s', None) \<Rightarrow> run_user baits env as s'
   | (s', Some e) \<Rightarrow> if caught then run_user baits env as s' else (s', e))"

definition report :: "bool \<Rightarrow> ending \<Rightarrow> jdict option" where
  "report net e = (let rep = (\<lambda>hp code err. [(''honeypot_access'', JList (map JStr hp)), (''network_attempt'', JBool net), (''stdout'', JStr ''''),
       (''exit_code'', JInt code), (''error'', err)])
     in case e of
       Completed \<Rightarrow> Some (rep [] 0 JNull)
     | Raised m \<Rightarrow> if has_prefix m ''HONEYPOT_ACCESS:'' then Some (rep [drop 16 m] 137 JNull) else Some (rep [] 1 (JStr m))
     | Raised_other m \<Rightarrow> Some (rep [] 1 (JStr m))
     | Left_by _ \<Rightarrow> None)"

definition wrapper_out :: "(jdict \<Rightarrow> string) \<Rightarrow> string list \<Rightarrow> (string, string) dict \<Rightarrow> program \<Rightarrow> int \<times> string" where
  "wrapper_out dumps baits env prog = (case run_user baits env prog \<lparr>connected = False, printed = ''''\<rparr> of
     (s, e) \<Rightarrow> (case e of Left_by n \<Rightarrow> n | _ \<Rightarrow> 0,
       printed s @ (case report (connected s) e of None \<Rightarrow> '''' | Some p \<Rightarrow> dumps p @ line_end)))"

section \<open>The caller\<close>

datatype process = Finished int string string | Expired "string option" "string option"

datatype sandbox_error = Bad_report

text \<open>The last line is read as the report; one that cannot be read is passed over, one that is no object raises.\<close>

definition read_report :: "(string \<Rightarrow> json option) \<Rightarrow> (json \<Rightarrow> int option) \<Rightarrow> int \<Rightarrow> string \<Rightarrow> sandbox_error + (json \<times> bool \<times> int)" where
  "read_report loads to_int code out = (case split_lines [] (strip out) of
     [] \<Rightarrow> Inr (JList [], False, code)
   | ls \<Rightarrow> (case loads (last ls) of
       None \<Rightarrow> Inr (JList [], False, code)
     | Some (JDict d) \<Rightarrow> (case to_int (get_json ''exit_code'' (JInt code) d) of None \<Rightarrow> Inl Bad_report
         | Some n \<Rightarrow> Inr (py_or (get_json ''honeypot_access'' JNull d) (JList []), truthy (get_json ''network_attempt'' JNull d), n))
     | Some _ \<Rightarrow> Inl Bad_report))"

definition run_python :: "(string \<Rightarrow> json option) \<Rightarrow> (json \<Rightarrow> int option) \<Rightarrow> (rat \<Rightarrow> process) \<Rightarrow> int \<Rightarrow> rat option \<Rightarrow> sandbox_pool \<Rightarrow>
    sandbox_error + execution_result" where
  "run_python loads to_int run ms limit pool = (case run (timeout_s pool) of
     Finished code out err \<Rightarrow> bindE (read_report loads to_int code out) (\<lambda>(hp, net, n).
       Inr \<lparr>exit_code = n, stdout = out, stderr = err, honeypot_access = hp, network_attempt = net, duration_ms = ms, timed_out = False\<rparr>)
   | Expired o' e' \<Rightarrow>
       let out = (case o' of None \<Rightarrow> '''' | Some x \<Rightarrow> x); err = (case e' of None \<Rightarrow> '''' | Some x \<Rightarrow> x)
       in Inr \<lparr>exit_code = 124, stdout = out, stderr = err, honeypot_access = JList [],
            network_attempt = (is_infix ''NETWORK_ATTEMPT'' out \<or> is_infix ''NETWORK_ATTEMPT'' err), duration_ms = ms, timed_out = True\<rparr>)"

section \<open>Finding the last line\<close>

definition one_line :: "string \<Rightarrow> bool" where
  "one_line s \<longleftrightarrow> s \<noteq> '''' \<and> \<not> white_space (hd s) \<and> \<not> white_space (last s) \<and> (\<forall>c \<in> set s. \<not> line_break c)"

definition full_lines :: "string \<Rightarrow> bool" where
  "full_lines s \<longleftrightarrow> s = '''' \<or> last s = CHR 0x0A"

lemma split_lines_plain: "(\<forall>c \<in> set s. \<not> line_break c) \<Longrightarrow> acc @ s \<noteq> [] \<Longrightarrow> split_lines (rev acc) s = [acc @ s]"
proof (induction s arbitrary: acc)
  case (Cons c s)
  from Cons.IH [of "acc @ [c]"] Cons.prems show ?case by simp
qed simp

lemma split_lines_some: "split_lines a (x @ CHR 0x0A # s) \<noteq> []"
  by (induction x arbitrary: a) (simp_all add: line_break_def)

lemma split_lines_last: "one_line s \<Longrightarrow> last (split_lines acc (x @ CHR 0x0A # s)) = s"
proof (induction x arbitrary: acc)
  case Nil
  have "line_break (CHR 0x0A)" by (simp add: line_break_def)
  moreover have "split_lines [] s = [s]" using split_lines_plain [of s "[]"] Nil by (simp add: one_line_def)
  ultimately show ?case by simp
next
  case (Cons c x)
  show ?case using Cons split_lines_some by simp
qed

lemma strip_report:
  assumes "one_line s"
  shows "strip (a @ s @ line_end) = dropWhile white_space a @ s"
proof -
  obtain c cs where s: "s = c # cs" "\<not> white_space c" using assms by (cases s) (auto simp: one_line_def)
  have 1: "dropWhile white_space (a @ s @ line_end) = dropWhile white_space a @ s @ line_end"
    using s by (induction a) auto
  obtain d ds where r: "rev s = d # ds" "\<not> white_space d" using assms by (cases "rev s") (auto simp: one_line_def last_rev [symmetric])
  have "white_space (CHR 0x0A)" by (simp add: white_space_def)
  then have "dropWhile white_space (rev (dropWhile white_space a @ s @ line_end)) = rev s @ rev (dropWhile white_space a)"
    using r by (simp add: line_end_def)
  with 1 show ?thesis by (simp add: strip_def)
qed

lemma report_line:
  assumes "one_line s" "full_lines a"
  shows "split_lines [] (strip (a @ s @ line_end)) \<noteq> [] \<and> last (split_lines [] (strip (a @ s @ line_end))) = s"
proof (cases "dropWhile white_space a")
  case Nil
  have "split_lines [] s = [s]" using split_lines_plain [of s "[]"] assms(1) by (simp add: one_line_def)
  then show ?thesis unfolding strip_report [OF assms(1)] Nil by simp
next
  case (Cons c cs)
  then have ne: "a \<noteq> []" by auto
  have "last (dropWhile white_space a) = last a" using Cons by (metis last_appendR list.discI takeWhile_dropWhile_id)
  with ne assms(2) Cons have l: "last (c # cs) = CHR 0x0A" by (simp add: full_lines_def)
  obtain x where x: "c # cs = x @ [CHR 0x0A]" using l by (metis append_butlast_last_id list.discI)
  with split_lines_last [OF assms(1), of "[]" x] split_lines_some [of "[]" x s] show ?thesis
    by (simp add: strip_report [OF assms(1)] Cons)
qed

section \<open>What the probes catch\<close>

text \<open>A program that reaches its end of reading a bait without having caught anything before.\<close>

definition plain_before :: "string list \<Rightarrow> (string, string) dict \<Rightarrow> program \<Rightarrow> bool" where
  "plain_before baits env pre = list_all (\<lambda>(a, caught). snd (act baits env a \<lparr>connected = False, printed = ''''\<rparr>) = None) pre"

lemma act_ending: "snd (act baits env a s) = snd (act baits env a s')"
  by (cases a) auto

lemma run_plain:
  assumes "plain_before baits env pre"
  shows "run_user baits env (pre @ as) s = run_user baits env as (fst (run_user baits env pre s))
    \<and> snd (run_user baits env pre s) = Completed"
  using assms
proof (induction pre arbitrary: s)
  case (Cons x pre)
  obtain a c where x: "x = (a, c)" by (cases x)
  from Cons.prems have "snd (act baits env a s) = None"
    using act_ending [of baits env a "\<lparr>connected = False, printed = ''''\<rparr>" s] by (auto simp: plain_before_def x)
  then obtain s' where "act baits env a s = (s', None)" by (cases "act baits env a s") auto
  with Cons show ?case by (simp add: x plain_before_def)
qed simp

text \<open>
  A program that reads a baited key and does not catch the error ends the run as hostile: when what it printed
  before are whole lines, the caller gets the key, the code 137 and the mark, whatever was read or connected before.
\<close>

theorem uncaught_read_is_hostile:
  assumes "plain_before baits env pre" and "k \<in> set baits" and "as = pre @ (Read_key k, False) # post"
    and "full_lines (printed (fst (run_user baits env pre \<lparr>connected = False, printed = ''''\<rparr>)))"
    and "\<And>c d. report c (Raised (bait_error k)) = Some d \<Longrightarrow> one_line (dumps d) \<and> loads (dumps d) = Some (JDict d)" and "\<And>n. to_int (JInt n) = Some n"
    and "run (timeout_s pool) = Finished (fst (wrapper_out dumps baits env as)) (snd (wrapper_out dumps baits env as)) err"
  shows "\<exists>r. run_python loads to_int run ms limit pool = Inr r \<and> hostile r \<and> exit_code r = 137 \<and> honeypot_access r = JList [JStr k]"
proof -
  let ?s0 = "\<lparr>connected = False, printed = ''''\<rparr>"
  define s where "s = fst (run_user baits env pre ?s0)"
  have run: "run_user baits env as ?s0 = (s, Raised (bait_error k))"
    using run_plain [OF assms(1), of "(Read_key k, False) # post" ?s0] assms(2) by (simp add: assms(3) s_def env_get_def)
  define d where "d = the (report (connected s) (Raised (bait_error k)))"
  have rep: "report (connected s) (Raised (bait_error k)) = Some d"
    "d = [(''honeypot_access'', JList [JStr k]), (''network_attempt'', JBool (connected s)), (''stdout'', JStr ''''), (''exit_code'', JInt 137), (''error'', JNull)]"
    by (simp_all add: d_def report_def bait_error_def has_prefix_def Let_def)
  have out: "wrapper_out dumps baits env as = (0, printed s @ dumps d @ line_end)"
    by (simp add: wrapper_out_def run rep(1))
  have l: "one_line (dumps d)" "loads (dumps d) = Some (JDict d)" using assms(5) [OF rep(1)] by blast+
  have f: "full_lines (printed s)" using assms(4) by (simp add: s_def)
  obtain p ps where ls: "split_lines [] (strip (printed s @ dumps d @ line_end)) = p # ps" and la: "last (p # ps) = dumps d"
    using report_line [OF l(1) f] by (cases "split_lines [] (strip (printed s @ dumps d @ line_end))") auto
  have "read_report loads to_int 0 (printed s @ dumps d @ line_end) = Inr (JList [JStr k], connected s, 137)"
    unfolding read_report_def ls list.case la l(2) option.case json.case using assms(6)
    by (simp add: rep(2) get_json_def py_or_def)
  then show ?thesis by (simp add: run_python_def assms(7) out hostile_def)
qed

definition sample_report :: "bool \<Rightarrow> jdict" where
  "sample_report c = [(''honeypot_access'', JList [JStr ''KEY'']), (''network_attempt'', JBool c), (''stdout'', JStr ''''), (''exit_code'', JInt 137), (''error'', JNull)]"

definition sample_dumps :: "jdict \<Rightarrow> string" where
  "sample_dumps d = (if d = sample_report True then ''T'' else ''F'')"

definition sample_loads :: "string \<Rightarrow> json option" where
  "sample_loads s = (if s = ''T'' then Some (JDict (sample_report True)) else if s = ''F'' then Some (JDict (sample_report False)) else None)"

definition sample_pool :: sandbox_pool where
  "sample_pool = \<lparr>max_concurrency = 2, timeout_s = 30, memory_mb = 512, cpu_s = 10, network_blocked = True\<rparr>"

theorem uncaught_read_is_hostile_witness:
  "\<exists>r. run_python sample_loads (\<lambda>j. case j of JInt n \<Rightarrow> Some n | _ \<Rightarrow> None)
         (\<lambda>_. Finished (fst (wrapper_out sample_dumps [''KEY''] [] [(Connect, False), (Read_key ''KEY'', False)]))
            (snd (wrapper_out sample_dumps [''KEY''] [] [(Connect, False), (Read_key ''KEY'', False)])) '''') 3 None sample_pool = Inr r
     \<and> hostile r \<and> exit_code r = 137 \<and> honeypot_access r = JList [JStr ''KEY'']"
proof (rule uncaught_read_is_hostile [where pre = "[(Connect, False)]" and post = "[]" and as = "[(Connect, False), (Read_key ''KEY'', False)]"
      and baits = "[''KEY'']" and env = "[]" and dumps = sample_dumps])
  show "plain_before [''KEY''] [] [(Connect, False)]" by (simp add: plain_before_def)
  show "full_lines (printed (fst (run_user [''KEY''] [] [(Connect, False)] \<lparr>connected = False, printed = ''''\<rparr>)))" by (simp add: full_lines_def line_end_def)
  fix c d assume "report c (Raised (bait_error ''KEY'')) = Some d"
  then have "d = sample_report c" by (simp add: report_def bait_error_def has_prefix_def Let_def sample_report_def)
  then show "one_line (sample_dumps d) \<and> sample_loads (sample_dumps d) = Some (JDict d)"
    by (cases c) (simp_all add: sample_dumps_def sample_loads_def sample_report_def one_line_def white_space_def line_break_def)
qed simp_all

text \<open>
  Where the probes see nothing: a bait read under a handler that goes on, the items of the environment, and a program
  that prints a line without an end before its last error, so that the report is not a line of its own.
\<close>

lemma caught_read_unseen:
  "run_user [''KEY''] [(''KEY'', ''v'')] [(Read_key ''KEY'', True)] \<lparr>connected = False, printed = ''''\<rparr> = (\<lparr>connected = False, printed = ''''\<rparr>, Completed)"
  by (simp add: env_get_def)

lemma items_show_baits: "(''KEY'', ''v'') \<in> set (env_items [''KEY''] [(''KEY'', ''v'')])"
  by (simp add: env_items_def)

lemma unfinished_line_hides:
  assumes "split_lines [] (strip (''x'' @ dumps d @ line_end)) = [''x'' @ dumps d]" and "loads (''x'' @ dumps d) = None"
    and "run (timeout_s pool) = Finished 0 (''x'' @ dumps d @ line_end) ''''"
  shows "\<exists>r. run_python loads to_int run ms limit pool = Inr r \<and> \<not> hostile r \<and> exit_code r = 0"
proof -
  have "read_report loads to_int 0 (''x'' @ dumps d @ line_end) = Inr (JList [], False, 0)"
    unfolding read_report_def assms(1) list.case using assms(2) by simp
  then show ?thesis by (simp add: run_python_def assms(3) hostile_def truthy.simps del: append.simps)
qed

text \<open>A program that ends the process itself leaves its own last line in the place of the report.\<close>

lemma forged_report:
  assumes "one_line s" "loads s = Some (JDict [(''honeypot_access'', JList []), (''network_attempt'', JBool False), (''exit_code'', JInt 0)])"
    "\<And>n. to_int (JInt n) = Some n"
    and "run (timeout_s pool) = Finished 0 (snd (wrapper_out dumps baits env [(Connect, False), (Write_out (s @ line_end), False), (Leave 0, False)])) ''''"
  shows "\<exists>r. run_python loads to_int run ms limit pool = Inr r \<and> \<not> hostile r"
proof -
  let ?a = "''NETWORK_ATTEMPT'' @ line_end"
  have o: "snd (wrapper_out dumps baits env [(Connect, False), (Write_out (s @ line_end), False), (Leave 0, False)]) = ?a @ s @ line_end"
    by (simp add: wrapper_out_def report_def)
  have "full_lines ?a" by (simp add: full_lines_def line_end_def)
  from report_line [OF assms(1) this] obtain p ps where ls: "split_lines [] (strip (?a @ s @ line_end)) = p # ps" "last (p # ps) = s"
    by (cases "split_lines [] (strip (?a @ s @ line_end))") auto
  have "read_report loads to_int 0 (?a @ s @ line_end) = Inr (JList [], False, 0)"
    unfolding read_report_def ls(1) list.case ls(2) assms(2) option.case json.case using assms(3)
    by (simp add: get_json_def py_or_def truthy.simps)
  then show ?thesis by (simp add: run_python_def assms(4) o hostile_def truthy.simps del: append.simps)
qed

text \<open>The limit given for one run is not used: the pool's own limit is.\<close>

lemma own_limit_ignored: "run_python loads to_int run ms limit pool = run_python loads to_int run ms None pool"
  by (simp add: run_python_def)

end
