(* ===== verification/KeyedStores.thy ===== *)
theory KeyedStores
  imports Json Python_Text
begin

text \<open>
  Tables with a primary key, as three stores keep them: the key-value store
  (\<^verbatim>\<open>obase/kv_store.py\<close>), the checkpoint store (\<^verbatim>\<open>obase/checkpoint_store.py\<close>) and, in
  \<^verbatim>\<open>MemoryStores\<close>, the memory store. A table is the dictionary of its rows in the order SQLite scans them.
  The interface \<open>keyed_store\<close> says what such a store owes a map; a sequence of operations then refines the
  sequence of updates of the map.
\<close>

section \<open>The interface\<close>

datatype ('k, 'a) kop = Put 'k 'a | Del 'k

fun table_step :: "('k \<Rightarrow> 'a \<Rightarrow> 's \<Rightarrow> 's) \<Rightarrow> ('k \<Rightarrow> 's \<Rightarrow> 's) \<Rightarrow> 's \<Rightarrow> ('k, 'a) kop \<Rightarrow> 's" where
  "table_step store remove s (Put k a) = store k a s"
| "table_step store remove s (Del k) = remove k s"

text \<open>What the operation does to a map: keys are normalised, a refused operation changes nothing, and a new value may depend on the old.\<close>

fun map_step :: "('k \<Rightarrow> 'k) \<Rightarrow> ('k \<Rightarrow> 'a \<Rightarrow> bool) \<Rightarrow> ('k \<Rightarrow> bool) \<Rightarrow> ('a \<Rightarrow> 'v option \<Rightarrow> 'v) \<Rightarrow> ('k \<rightharpoonup> 'v) \<Rightarrow> ('k, 'a) kop \<Rightarrow> ('k \<rightharpoonup> 'v)" where
  "map_step canon accepts usable merge m (Put k a) = (if accepts k a then m(canon k \<mapsto> merge a (m (canon k))) else m)"
| "map_step canon accepts usable merge m (Del k) = (if usable k then m(canon k := None) else m)"

fun key_of :: "('k, 'a) kop \<Rightarrow> 'k" where
  "key_of (Put k a) = k"
| "key_of (Del k) = k"

fun is_put :: "('k, 'a) kop \<Rightarrow> bool" where
  "is_put (Put k a) = True"
| "is_put (Del k) = False"

locale keyed_store =
  fixes ok :: "'s \<Rightarrow> bool" and canon :: "'k \<Rightarrow> 'k" and accepts :: "'k \<Rightarrow> 'a \<Rightarrow> bool" and usable :: "'k \<Rightarrow> bool"
    and merge :: "'a \<Rightarrow> 'v option \<Rightarrow> 'v" and store :: "'k \<Rightarrow> 'a \<Rightarrow> 's \<Rightarrow> 's" and remove :: "'k \<Rightarrow> 's \<Rightarrow> 's"
    and look :: "'s \<Rightarrow> 'k \<Rightarrow> 'v option" and entries :: "'s \<Rightarrow> nat"
  assumes store_accepted: "ok s \<Longrightarrow> accepts k a \<Longrightarrow> ok (store k a s) \<and> look (store k a s) = (look s)(canon k \<mapsto> merge a (look s (canon k)))"
    and store_refused: "ok s \<Longrightarrow> \<not> accepts k a \<Longrightarrow> store k a s = s"
    and remove_usable: "ok s \<Longrightarrow> usable k \<Longrightarrow> ok (remove k s) \<and> look (remove k s) = (look s)(canon k := None)"
    and remove_refused: "ok s \<Longrightarrow> \<not> usable k \<Longrightarrow> remove k s = s"
    and entries_card: "ok s \<Longrightarrow> finite (dom (look s)) \<and> entries s = card (dom (look s))"
begin

abbreviation step :: "'s \<Rightarrow> ('k, 'a) kop \<Rightarrow> 's" where
  "step \<equiv> table_step store remove"

abbreviation mstep :: "('k \<rightharpoonup> 'v) \<Rightarrow> ('k, 'a) kop \<Rightarrow> ('k \<rightharpoonup> 'v)" where
  "mstep \<equiv> map_step canon accepts usable merge"

lemma step_refines: "ok s \<Longrightarrow> ok (step s op) \<and> look (step s op) = mstep (look s) op"
  by (cases op) (auto simp: store_accepted store_refused remove_usable remove_refused)

lemma run_refines: "ok s \<Longrightarrow> ok (foldl step s ops) \<and> look (foldl step s ops) = foldl mstep (look s) ops"
  by (induction ops arbitrary: s) (simp_all add: step_refines)

lemma run_counts: "ok s \<Longrightarrow> entries (foldl step s ops) = card (dom (foldl mstep (look s) ops))"
  using run_refines [of s ops] entries_card [of "foldl step s ops"] by simp

lemma untouched: "ok s \<Longrightarrow> k \<notin> canon ` key_of ` set ops \<Longrightarrow> look (foldl step s ops) k = look s k"
proof (induction ops arbitrary: s)
  case (Cons op ops)
  have "mstep (look s) op k = look s k" using Cons.prems by (cases op) auto
  then show ?case using Cons step_refines by simp
qed simp

lemma last_put: "ok s \<Longrightarrow> accepts k a \<Longrightarrow> canon k \<notin> canon ` key_of ` set ops \<Longrightarrow>
    look (foldl step s (Put k a # ops)) (canon k) = Some (merge a (look s (canon k)))"
  by (simp add: untouched store_accepted)

lemma last_del: "ok s \<Longrightarrow> usable k \<Longrightarrow> canon k \<notin> canon ` key_of ` set ops \<Longrightarrow> look (foldl step s (Del k # ops)) (canon k) = None"
  by (simp add: untouched remove_usable)

lemma apart_commute: "ok s \<Longrightarrow> canon (key_of p) \<noteq> canon (key_of q) \<Longrightarrow> look (step (step s p) q) = look (step (step s q) p)"
proof -
  assume "ok s" and k: "canon (key_of p) \<noteq> canon (key_of q)"
  have "mstep (mstep m p) q = mstep (mstep m q) p" for m using k by (cases p; cases q) (auto simp: fun_upd_twist)
  then show ?thesis using \<open>ok s\<close> by (simp add: step_refines)
qed

lemma entries_grow: "ok s \<Longrightarrow> entries (foldl step s ops) \<le> entries s + length (filter is_put ops)"
proof (induction ops arbitrary: s)
  case (Cons op ops)
  have "entries (step s op) \<le> entries s + (if is_put op then 1 else 0)"
    using entries_card [OF Cons.prems] entries_card [of "step s op"] step_refines [OF Cons.prems, of op]
    by (cases op) (auto simp: card_insert_if card_Diff_singleton_if)
  then show ?case using Cons.IH [of "step s op"] step_refines [OF Cons.prems, of op] by (simp split: if_splits)
qed simp

end

text \<open>A store that can also be emptied.\<close>

datatype ('k, 'a) cop = On "('k, 'a) kop" | Clear

fun clearing_step :: "('s \<Rightarrow> ('k, 'a) kop \<Rightarrow> 's) \<Rightarrow> ('s \<Rightarrow> 's) \<Rightarrow> 's \<Rightarrow> ('k, 'a) cop \<Rightarrow> 's" where
  "clearing_step step clear s (On op) = step s op"
| "clearing_step step clear s Clear = clear s"

locale clearable_store = keyed_store ok canon accepts usable merge store remove look entries
  for ok :: "'s \<Rightarrow> bool" and canon :: "'k \<Rightarrow> 'k" and accepts :: "'k \<Rightarrow> 'a \<Rightarrow> bool" and usable and merge :: "'a \<Rightarrow> 'v option \<Rightarrow> 'v"
    and store and remove and look and entries +
  fixes clear :: "'s \<Rightarrow> 's"
  assumes clear_empties: "ok s \<Longrightarrow> ok (clear s) \<and> look (clear s) = Map.empty"
begin

lemma clearing_run_refines: "ok s \<Longrightarrow> ok (foldl (clearing_step step clear) s ops) \<and>
    look (foldl (clearing_step step clear) s ops) = foldl (clearing_step mstep (\<lambda>m. Map.empty)) (look s) ops"
proof (induction ops arbitrary: s)
  case (Cons op ops)
  have "ok (clearing_step step clear s op) \<and> look (clearing_step step clear s op) = clearing_step mstep (\<lambda>m. Map.empty) (look s) op"
    using Cons.prems by (cases op) (simp_all add: step_refines clear_empties)
  then show ?case using Cons.IH by simp
qed simp

lemma forgotten: "ok s \<Longrightarrow> look (foldl (clearing_step step clear) s (ops @ [Clear])) = Map.empty"
  by (simp add: clearing_run_refines clear_empties)

end

section \<open>Tables as dictionaries\<close>

definition keys_once :: "('k, 'r) dict \<Rightarrow> bool" where
  "keys_once t = distinct (map fst t)"

lemma keys_once_set [intro]: "keys_once t \<Longrightarrow> keys_once (dict_set k r t)"
  by (simp add: keys_once_def distinct_update)

lemma keys_once_pop [intro]: "keys_once t \<Longrightarrow> keys_once (dict_pop k t)"
  by (simp add: keys_once_def distinct_delete)

lemma look_set: "dict_get (dict_set k r t) = (dict_get t)(k \<mapsto> r)"
  by (rule ext) (simp add: update_conv')

lemma look_pop: "dict_get (dict_pop k t) = (dict_get t)(k := None)"
  by (rule ext) (simp add: delete_conv')

lemma length_keys_once: "keys_once t \<Longrightarrow> finite (dom (dict_get t)) \<and> length t = card (dom (dict_get t))"
  by (metis keys_once_def distinct_card dom_map_of_conv_image_fst finite_dom_map_of image_set length_map)

text \<open>The first elements of a sorted list.\<close>

lemma distinct_map_sort: "distinct (map g (sort_key f xs)) = distinct (map g xs)"
  by (simp add: distinct_map)

lemma take_sorted_least:
  "x \<in> set (take n (sort_key f xs)) \<Longrightarrow> y \<in> set xs \<Longrightarrow> y \<notin> set (take n (sort_key f xs)) \<Longrightarrow> f x \<le> f y"
proof -
  let ?s = "sort_key f xs"
  assume x: "x \<in> set (take n ?s)" and y: "y \<in> set xs" "y \<notin> set (take n ?s)"
  have "set ?s = set (take n ?s) \<union> set (drop n ?s)" by (metis append_take_drop_id set_append)
  then have "y \<in> set (drop n ?s)" using y by auto
  moreover have "sorted (map f (take n ?s) @ map f (drop n ?s))"
    by (metis append_take_drop_id map_append sorted_sort_key)
  ultimately show ?thesis using x by (auto simp: sorted_append)
qed

section \<open>The key-value store\<close>

text \<open>Stored texts are of any type, with the codec as an argument.\<close>

record 'b codec =
  dumps :: "json \<Rightarrow> 'b"
  loads :: "'b \<Rightarrow> json option"

definition codec_law :: "'b codec \<Rightarrow> bool" where
  "codec_law c = (\<forall>j. loads c (dumps c j) = Some j)"

record ('t, 'b) kv_row =
  kv_value :: "'b option"
  kv_json :: "'b option"
  updated_at :: "'t option"

type_synonym ('t, 'b) kv_table = "(string, ('t, 'b) kv_row) dict"

datatype kv_error = Bad_key | Not_a_dict | Bad_text | Not_an_object

text \<open>Opening a table: columns a legacy table lacks are added empty, then each column is filled from the other.\<close>

definition coalesce :: "'a option \<Rightarrow> 'a option \<Rightarrow> 'a option" where
  "coalesce a b = (case a of None \<Rightarrow> b | Some x \<Rightarrow> Some x)"

definition open_row :: "'t \<Rightarrow> ('t, 'b) kv_row \<Rightarrow> ('t, 'b) kv_row" where
  "open_row now r = \<lparr>kv_value = coalesce (kv_value r) (kv_json r), kv_json = coalesce (kv_json r) (kv_value r),
     updated_at = coalesce (updated_at r) (Some now)\<rparr>"

definition open_kv :: "'t \<Rightarrow> ('t, 'b) kv_table \<Rightarrow> ('t, 'b) kv_table" where
  "open_kv now t = map (\<lambda>(k, r). (k, open_row now r)) t"

definition kv_serialize :: "'b codec \<Rightarrow> json \<Rightarrow> kv_error + 'b" where
  "kv_serialize c v = (case v of JDict d \<Rightarrow> Inr (dumps c (sort_keys v)) | _ \<Rightarrow> Inl Not_a_dict)"

definition kv_put :: "'b codec \<Rightarrow> 't \<Rightarrow> string \<Rightarrow> json \<Rightarrow> ('t, 'b) kv_table \<Rightarrow> kv_error + ('t, 'b) kv_table" where
  "kv_put c now k v t =
     (if blank k then Inl Bad_key
      else bindE (kv_serialize c v) (\<lambda>b. Inr (dict_set k \<lparr>kv_value = Some b, kv_json = Some b, updated_at = Some now\<rparr> t)))"

definition stored_value :: "('t, 'b) kv_row \<Rightarrow> 'b option" where
  "stored_value r = coalesce (kv_json r) (kv_value r)"

definition kv_get :: "'b codec \<Rightarrow> string \<Rightarrow> ('t, 'b) kv_table \<Rightarrow> kv_error + jdict option" where
  "kv_get c k t =
     (if blank k then Inl Bad_key
      else (case Option.bind (dict_get t k) stored_value of
          None \<Rightarrow> Inr None
        | Some b \<Rightarrow> (case loads c b of None \<Rightarrow> Inl Bad_text | Some (JDict d) \<Rightarrow> Inr (Some d) | Some _ \<Rightarrow> Inl Not_an_object)))"

text \<open>The operator \<open>LIKE\<close> of SQLite: a percent sign is any text, an underscore any character, letters match in either case.\<close>

fun like :: "string \<Rightarrow> string \<Rightarrow> bool" where
  "like [] s = (s = [])"
| "like (p # ps) s =
     (if p = CHR ''%'' then like ps s \<or> (case s of [] \<Rightarrow> False | c # cs \<Rightarrow> like (p # ps) cs)
      else (case s of [] \<Rightarrow> False | c # cs \<Rightarrow> (p = CHR ''_'' \<or> lower_char p = lower_char c) \<and> like ps cs))"

definition kv_list_prefix :: "'b codec \<Rightarrow> string \<Rightarrow> ('t, 'b) kv_table \<Rightarrow> kv_error + json list" where
  "kv_list_prefix c prefix t =
     mapE (\<lambda>b. case loads c b of None \<Rightarrow> Inl Bad_text | Some j \<Rightarrow> Inr j)
       (List.map_filter (\<lambda>(k, r). stored_value r) (filter (\<lambda>(k, r). like (prefix @ ''%'') k) (sort_key fst t)))"

definition kv_delete :: "string \<Rightarrow> ('t, 'b) kv_table \<Rightarrow> kv_error + ('t, 'b) kv_table \<times> bool" where
  "kv_delete k t = (if blank k then Inl Bad_key else Inr (dict_pop k t, dict_get t k \<noteq> None))"

definition kv_count :: "('t, 'b) kv_table \<Rightarrow> nat" where
  "kv_count t = length t"

subsection \<open>A table refines a map\<close>

text \<open>An operation that raises leaves the table as it was.\<close>

definition put_kept :: "'b codec \<Rightarrow> string \<Rightarrow> 't \<times> json \<Rightarrow> ('t, 'b) kv_table \<Rightarrow> ('t, 'b) kv_table" where
  "put_kept c k a t = (case kv_put c (fst a) k (snd a) t of Inl e \<Rightarrow> t | Inr t' \<Rightarrow> t')"

definition delete_kept :: "string \<Rightarrow> ('t, 'b) kv_table \<Rightarrow> ('t, 'b) kv_table" where
  "delete_kept k t = (case kv_delete k t of Inl e \<Rightarrow> t | Inr (t', b) \<Rightarrow> t')"

definition kv_accepts :: "string \<Rightarrow> 't \<times> json \<Rightarrow> bool" where
  "kv_accepts k a = (\<not> blank k \<and> (\<exists>d. snd a = JDict d))"

definition new_kv_row :: "'b codec \<Rightarrow> 't \<times> json \<Rightarrow> ('t, 'b) kv_row option \<Rightarrow> ('t, 'b) kv_row" where
  "new_kv_row c a old = (let b = Some (dumps c (sort_keys (snd a))) in \<lparr>kv_value = b, kv_json = b, updated_at = Some (fst a)\<rparr>)"

lemma put_kept_cases: "put_kept c k a t = (if kv_accepts k a then dict_set k (new_kv_row c a (dict_get t k)) t else t)"
  by (cases a; cases "snd a") (auto simp: put_kept_def kv_put_def kv_serialize_def kv_accepts_def new_kv_row_def Let_def)

lemma delete_kept_cases: "delete_kept k t = (if blank k then t else dict_pop k t)"
  by (simp add: delete_kept_def kv_delete_def)

interpretation kv: keyed_store keys_once "\<lambda>k. k" kv_accepts "\<lambda>k. \<not> blank k" "new_kv_row c" "put_kept c" delete_kept dict_get kv_count
  for c :: "'b codec"
  by unfold_locales (auto simp: put_kept_cases delete_kept_cases look_set look_pop kv_count_def length_keys_once)

text \<open>The documents of a history: what is put under a key replaces what was there.\<close>

fun doc_step :: "(string \<rightharpoonup> jdict) \<Rightarrow> (string, 't \<times> json) kop \<Rightarrow> (string \<rightharpoonup> jdict)" where
  "doc_step m (Put k (now, JDict d)) = (if blank k then m else m(k \<mapsto> dict_or_nothing (sort_keys (JDict d))))"
| "doc_step m (Put k a) = m"
| "doc_step m (Del k) = (if blank k then m else m(k := None))"

definition row_matches :: "'b codec \<Rightarrow> ('t, 'b) kv_row option \<Rightarrow> jdict option \<Rightarrow> bool" where
  "row_matches c r d = (case r of None \<Rightarrow> d = None
     | Some r \<Rightarrow> (\<exists>b d'. stored_value r = Some b \<and> loads c b = Some (JDict d') \<and> d = Some d'))"

definition holds_docs :: "'b codec \<Rightarrow> (string \<rightharpoonup> ('t, 'b) kv_row) \<Rightarrow> (string \<rightharpoonup> jdict) \<Rightarrow> bool" where
  "holds_docs c m d = (\<forall>k. row_matches c (m k) (d k))"

lemma row_matches_new: "codec_law c \<Longrightarrow>
    row_matches c (Some (new_kv_row c (now, JDict d) old)) (Some (dict_or_nothing (sort_keys (JDict d))))"
  by (simp add: row_matches_def new_kv_row_def stored_value_def coalesce_def codec_law_def dict_or_nothing_def Let_def)

lemma row_matches_none [simp]: "row_matches c None None"
  by (simp add: row_matches_def)

lemma doc_step_holds: "codec_law c \<Longrightarrow> holds_docs c m d \<Longrightarrow>
    holds_docs c (map_step (\<lambda>k. k) kv_accepts (\<lambda>k. \<not> blank k) (new_kv_row c) m op) (doc_step d op)"
  by (cases "(d, op)" rule: doc_step.cases)
    (simp_all add: holds_docs_def kv_accepts_def row_matches_new del: sort_keys.simps)

lemma docs_run: "codec_law c \<Longrightarrow> holds_docs c m d \<Longrightarrow>
    holds_docs c (foldl (map_step (\<lambda>k. k) kv_accepts (\<lambda>k. \<not> blank k) (new_kv_row c)) m ops) (foldl doc_step d ops)"
  by (induction ops arbitrary: m d) (simp_all add: doc_step_holds)

lemma get_holds: "holds_docs c (dict_get t) d \<Longrightarrow> \<not> blank k \<Longrightarrow> kv_get c k t = Inr (d k)"
proof -
  assume "holds_docs c (dict_get t) d" and "\<not> blank k"
  then have "row_matches c (dict_get t k) (d k)" by (simp add: holds_docs_def)
  then show ?thesis using \<open>\<not> blank k\<close> by (cases "dict_get t k") (auto simp: row_matches_def kv_get_def)
qed

lemma holds_dom: "holds_docs c m d \<Longrightarrow> dom d = dom m"
proof -
  assume h: "holds_docs c m d"
  have e: "d k = None \<longleftrightarrow> m k = None" for k
  proof -
    have "row_matches c (m k) (d k)" using h by (simp add: holds_docs_def)
    then show ?thesis by (cases "m k") (auto simp: row_matches_def)
  qed
  then show ?thesis by (simp add: dom_def e)
qed

text \<open>
  A store that starts empty keeps a map: after any puts and deletions, in any order and with the
  refused ones among them, a read of a key returns the document last put under it (with sorted keys) unless it
  was deleted since, a blank key is refused, and the count is the number of keys that hold a document.
\<close>

theorem kv_keeps_documents:
  assumes "codec_law c"
  shows "kv_get c k (foldl (table_step (put_kept c) delete_kept) [] ops) = (if blank k then Inl Bad_key else Inr (foldl doc_step Map.empty ops k))
    \<and> kv_count (foldl (table_step (put_kept c) delete_kept) [] ops) = card (dom (foldl doc_step Map.empty ops))"
proof -
  let ?t = "foldl (table_step (put_kept c) delete_kept) [] ops"
  have new: "keys_once []" by (simp add: keys_once_def)
  have h: "holds_docs c (dict_get ?t) (foldl doc_step Map.empty ops)"
    using docs_run [OF assms, of Map.empty Map.empty ops] kv.run_refines [OF new, of c ops] by (simp add: holds_docs_def)
  have "kv_count ?t = card (dom (dict_get ?t))"
    using kv.entries_card kv.run_refines [OF new, of c ops] by blast
  then show ?thesis using get_holds [OF h, of k] holds_dom [OF h] by (simp add: kv_get_def)
qed

definition plain_codec :: "json codec" where
  "plain_codec = \<lparr>dumps = (\<lambda>j. j), loads = Some\<rparr>"

lemma plain_codec_law: "codec_law plain_codec"
  by (simp add: codec_law_def plain_codec_def)

lemma sample_keys [simp]: "\<not> blank ''k''" "\<not> blank ''l''" "blank '' ''"
  by (simp_all add: blank_def white_space_def)

theorem kv_keeps_documents_witness:
  "kv_get plain_codec ''k'' (foldl (table_step (put_kept plain_codec) delete_kept) []
      [Put ''k'' (0::nat, JDict [(''b'', JInt 1), (''a'', JInt 2)]), Put ''l'' (1, JDict []), Put '' '' (2, JDict []), Del ''l''])
     = Inr (Some [(''a'', JInt 2), (''b'', JInt 1)])"
  using kv_keeps_documents [OF plain_codec_law, of "''k''"
      "[Put ''k'' (0::nat, JDict [(''b'', JInt 1), (''a'', JInt 2)]), Put ''l'' (1, JDict []), Put '' '' (2, JDict []), Del ''l'']"]
  by (simp add: dict_or_nothing_def)

text \<open>
  Opening a store in place of a legacy table, whichever of the two value columns its rows filled,
  changes neither what any read nor what any listing returns, and leaves no row with one column only.
\<close>

theorem opening_changes_no_read:
  fixes t :: "('t, 'b) kv_table"
  shows "kv_get c k (open_kv now t) = kv_get c k t \<and> kv_list_prefix c p (open_kv now t) = kv_list_prefix c p t
   \<and> (\<forall>(k, r) \<in> set (open_kv now t). (kv_value r = None) = (kv_json r = None) \<and> updated_at r \<noteq> None)"
proof -
  have st: "stored_value (open_row now r) = stored_value r" for r :: "('t, 'b) kv_row"
    by (auto simp: stored_value_def open_row_def coalesce_def split: option.splits)
  have get: "Option.bind (dict_get (open_kv now t) k) stored_value = Option.bind (dict_get t k) stored_value"
    by (induction t) (auto simp: open_kv_def st)
  have srt: "sort_key fst (open_kv now t) = map (\<lambda>(k, r). (k, open_row now r)) (sort_key fst t)"
    by (simp add: open_kv_def sort_key_map case_prod_beta)
  have "List.map_filter (\<lambda>(k, r). stored_value r) (filter (\<lambda>(k, r). P k) (map (\<lambda>(k, r). (k, open_row now r)) u))
      = List.map_filter (\<lambda>(k, r). stored_value r) (filter (\<lambda>(k, r). P k) u)" for P and u :: "('t, 'b) kv_table"
    by (induction u) (auto simp: st map_filter_simps split: option.splits)
  then have "kv_list_prefix c p (open_kv now t) = kv_list_prefix c p t" by (simp add: kv_list_prefix_def srt)
  moreover have "\<forall>(k, r) \<in> set (open_kv now t). (kv_value r = None) = (kv_json r = None) \<and> updated_at r \<noteq> None"
    by (auto simp: open_kv_def open_row_def coalesce_def split: option.splits)
  ultimately show ?thesis using get by (simp add: kv_get_def)
qed

theorem opening_changes_no_read_witness:
  "kv_get plain_codec ''k'' (open_kv (5::nat) [(''k'', \<lparr>kv_value = Some (JDict []), kv_json = None, updated_at = None\<rparr>)]) = Inr (Some [])"
  using opening_changes_no_read [of plain_codec "''k''" "5::nat" "[(''k'', \<lparr>kv_value = Some (JDict []), kv_json = None, updated_at = None\<rparr>)]" "''''"]
  by (simp add: kv_get_def stored_value_def coalesce_def plain_codec_def)

subsection \<open>Listing by prefix\<close>

lemma like_rest [simp]: "like ''%'' s"
  by (induction s) auto

lemma like_prefix:
  "CHR ''%'' \<notin> set p \<Longrightarrow> CHR ''_'' \<notin> set p \<Longrightarrow>
   like (p @ ''%'') s \<longleftrightarrow> (\<exists>q r. s = q @ r \<and> map lower_char q = map lower_char p)"
proof (induction p arbitrary: s)
  case (Cons x p)
  show ?case
  proof (cases s)
    case (Cons y ys)
    have "(\<exists>q r. y # ys = q @ r \<and> map lower_char q = map lower_char (x # p)) \<longleftrightarrow>
        lower_char x = lower_char y \<and> (\<exists>q r. ys = q @ r \<and> map lower_char q = map lower_char p)"
    proof (intro iffI)
      assume "\<exists>q r. y # ys = q @ r \<and> map lower_char q = map lower_char (x # p)"
      then obtain q r where "y # ys = q @ r" "map lower_char q = map lower_char (x # p)" by blast
      then show "lower_char x = lower_char y \<and> (\<exists>q r. ys = q @ r \<and> map lower_char q = map lower_char p)"
        by (cases q) auto
    next
      assume "lower_char x = lower_char y \<and> (\<exists>q r. ys = q @ r \<and> map lower_char q = map lower_char p)"
      then obtain q r where "lower_char x = lower_char y" "ys = q @ r" "map lower_char q = map lower_char p" by blast
      then show "\<exists>q r. y # ys = q @ r \<and> map lower_char q = map lower_char (x # p)"
        by (intro exI [of _ "y # q"] exI [of _ r]) simp
    qed
    moreover have "like ((x # p) @ ''%'') (y # ys) \<longleftrightarrow> lower_char x = lower_char y \<and> like (p @ ''%'') ys" using Cons.prems by auto
    moreover have "like (p @ ''%'') ys \<longleftrightarrow> (\<exists>q r. ys = q @ r \<and> map lower_char q = map lower_char p)" using Cons.IH Cons.prems by simp
    ultimately show ?thesis unfolding Cons by blast
  qed (use Cons.prems in auto)
qed (simp del: like.simps)

text \<open>A prefix with an underscore also lists keys that do not begin with it, and letters match in either case.\<close>

lemma prefix_matches_others: "like ''a_%'' ''abc''" "\<not> has_prefix ''a_'' ''abc''" "like ''user:%'' ''USER:1''" "\<not> has_prefix ''user:'' ''USER:1''"
  by code_simp+

section \<open>The checkpoint store\<close>

text \<open>Snapshots are compressed documents, packed and unpacked by a codec.\<close>

record ('t, 'b) checkpoint =
  payload :: 'b
  created_at :: 't
  changed_at :: 't

type_synonym ('t, 'b) checkpoints = "(string, ('t, 'b) checkpoint) dict"

definition safe :: "string \<Rightarrow> string" where
  "safe key = map (\<lambda>c. if c = CHR '':'' then CHR ''_'' else c) (map (\<lambda>c. if c = CHR ''/'' then CHR ''_'' else c) key)"

definition save_checkpoint :: "'b codec \<Rightarrow> 't \<Rightarrow> string \<Rightarrow> json \<Rightarrow> ('t, 'b) checkpoints \<Rightarrow> ('t, 'b) checkpoints \<times> string" where
  "save_checkpoint c now key state t =
     (case dict_get t (safe key) of
        Some r \<Rightarrow> (dict_set (safe key) (r\<lparr>payload := dumps c state, changed_at := now\<rparr>) t, key)
      | None \<Rightarrow> (dict_set (safe key) \<lparr>payload = dumps c state, created_at = now, changed_at = now\<rparr> t, key))"

definition load_checkpoint :: "'b codec \<Rightarrow> string \<Rightarrow> ('t, 'b) checkpoints \<Rightarrow> json option" where
  "load_checkpoint c key t = (case dict_get t (safe key) of None \<Rightarrow> None | Some r \<Rightarrow> loads c (payload r))"

definition checkpoint_keys :: "('t, 'b) checkpoints \<Rightarrow> string list" where
  "checkpoint_keys t = sort (map fst t)"

definition reset_checkpoints :: "string option \<Rightarrow> ('t, 'b) checkpoints \<Rightarrow> ('t, 'b) checkpoints" where
  "reset_checkpoints key t = (case key of None \<Rightarrow> [] | Some k \<Rightarrow> dict_pop (safe k) t)"

definition count_checkpoints :: "('t, 'b) checkpoints \<Rightarrow> nat" where
  "count_checkpoints t = length t"

subsection \<open>It refines a map that can be emptied\<close>

definition saved :: "'b codec \<Rightarrow> string \<Rightarrow> 't \<times> json \<Rightarrow> ('t, 'b) checkpoints \<Rightarrow> ('t, 'b) checkpoints" where
  "saved c k a t = fst (save_checkpoint c (fst a) k (snd a) t)"

definition renewed :: "'b codec \<Rightarrow> 't \<times> json \<Rightarrow> ('t, 'b) checkpoint option \<Rightarrow> ('t, 'b) checkpoint" where
  "renewed c a old = \<lparr>payload = dumps c (snd a), created_at = (case old of None \<Rightarrow> fst a | Some r \<Rightarrow> created_at r), changed_at = fst a\<rparr>"

lemma renew_fields: "r\<lparr>payload := p, changed_at := q\<rparr> = \<lparr>payload = p, created_at = created_at r, changed_at = q\<rparr>"
  for r :: "('t, 'b) checkpoint"
  by (cases r) simp

lemma saved_renews: "saved c k a t = dict_set (safe k) (renewed c a (dict_get t (safe k))) t"
  by (auto simp: saved_def save_checkpoint_def renewed_def renew_fields split: option.splits)

lemma safe_safe [simp]: "safe (safe k) = safe k"
  by (simp add: safe_def)

interpretation cp: clearable_store keys_once safe "\<lambda>k a. True" "\<lambda>k. True" "renewed c" "saved c" "\<lambda>k. reset_checkpoints (Some k)"
    dict_get count_checkpoints "reset_checkpoints None"
  for c :: "'b codec"
  by unfold_locales
    (auto simp: saved_renews look_set look_pop reset_checkpoints_def count_checkpoints_def length_keys_once, simp add: keys_once_def)

type_synonym 't checkpoint_op = "(string, 't \<times> json) cop"

definition checkpoint_step :: "'b codec \<Rightarrow> ('t, 'b) checkpoints \<Rightarrow> 't checkpoint_op \<Rightarrow> ('t, 'b) checkpoints" where
  "checkpoint_step c = clearing_step (table_step (saved c) (\<lambda>k. reset_checkpoints (Some k))) (reset_checkpoints None)"

fun state_step :: "(string \<rightharpoonup> json) \<Rightarrow> 't checkpoint_op \<Rightarrow> (string \<rightharpoonup> json)" where
  "state_step m (On (Put k (now, j))) = m(safe k \<mapsto> j)"
| "state_step m (On (Del k)) = m(safe k := None)"
| "state_step m Clear = Map.empty"

definition packs :: "'b codec \<Rightarrow> (string \<rightharpoonup> ('t, 'b) checkpoint) \<Rightarrow> (string \<rightharpoonup> json) \<Rightarrow> bool" where
  "packs c m d = (\<forall>k. map_option (\<lambda>r. loads c (payload r)) (m k) = map_option Some (d k))"

lemma packs_step: "codec_law c \<Longrightarrow> packs c m d \<Longrightarrow>
    packs c (clearing_step (map_step safe (\<lambda>k a. True) (\<lambda>k. True) (renewed c)) (\<lambda>m. Map.empty) m op) (state_step d op)"
  by (cases "(d, op)" rule: state_step.cases) (simp_all add: packs_def renewed_def codec_law_def)

lemma packs_run: "codec_law c \<Longrightarrow> packs c m d \<Longrightarrow>
    packs c (foldl (clearing_step (map_step safe (\<lambda>k a. True) (\<lambda>k. True) (renewed c)) (\<lambda>m. Map.empty)) m ops) (foldl state_step d ops)"
  by (induction ops arbitrary: m d) (simp_all add: packs_step)

lemma packs_load: "packs c m d \<Longrightarrow> (case m k of None \<Rightarrow> None | Some r \<Rightarrow> loads c (payload r)) = d k"
proof -
  assume "packs c m d"
  then have "map_option (\<lambda>r. loads c (payload r)) (m k) = map_option Some (d k)" by (simp add: packs_def)
  then show ?thesis by (cases "m k"; cases "d k") auto
qed

lemma packs_dom: "packs c m d \<Longrightarrow> dom m = dom d"
proof -
  assume p: "packs c m d"
  have e: "m k = None \<longleftrightarrow> d k = None" for k
  proof -
    have "map_option (\<lambda>r. loads c (payload r)) (m k) = map_option Some (d k)" using p by (simp add: packs_def)
    then show ?thesis by (cases "m k"; cases "d k") auto
  qed
  show ?thesis by (simp add: dom_def e)
qed

text \<open>
  After any saves and resets of a new store, loading a key returns the state last saved under it
  and not reset since, and the keys listed are, sorted and once each, those of the saved states. Keys count
  up to the replacement of slashes and colons.
\<close>

theorem checkpoints_keep_last:
  assumes "codec_law c"
  shows "load_checkpoint c k (foldl (checkpoint_step c) [] ops) = foldl state_step Map.empty ops (safe k)
    \<and> checkpoint_keys (foldl (checkpoint_step c) [] ops) = sorted_list_of_set (dom (foldl state_step Map.empty ops))
    \<and> count_checkpoints (foldl (checkpoint_step c) [] ops) = card (dom (foldl state_step Map.empty ops))"
proof -
  let ?t = "foldl (checkpoint_step c) [] ops" and ?d = "foldl state_step Map.empty ops"
  have new: "keys_once []" by (simp add: keys_once_def)
  have run: "keys_once ?t" "packs c (dict_get ?t) ?d"
    using cp.clearing_run_refines [OF new, of c ops] packs_run [OF assms, of Map.empty Map.empty ops]
    by (simp_all add: checkpoint_step_def packs_def)
  have "checkpoint_keys ?t = sorted_list_of_set (set (map fst ?t))"
    using run(1) by (simp only: checkpoint_keys_def keys_once_def sorted_list_of_set_sort_remdups distinct_remdups_id)
  moreover have "set (map fst ?t) = dom ?d" using packs_dom [OF run(2)] by (simp add: dom_map_of_conv_image_fst)
  moreover have "count_checkpoints ?t = card (dom ?d)"
    using length_keys_once [OF run(1)] packs_dom [OF run(2)] by (simp add: count_checkpoints_def)
  ultimately show ?thesis using packs_load [OF run(2), of "safe k"] by (simp add: load_checkpoint_def)
qed

theorem checkpoints_keep_last_witness:
  "load_checkpoint plain_codec ''s/1'' (foldl (checkpoint_step plain_codec) []
      [On (Put ''x'' (0::nat, JNull)), Clear, On (Put ''s:1'' (1, JInt 1)), On (Put ''s/1'' (2, JInt 2)), On (Put ''u'' (3, JInt 3)), On (Del ''u'')])
     = Some (JInt 2)"
  using checkpoints_keep_last [OF plain_codec_law, of "''s/1''"
      "[On (Put ''x'' (0::nat, JNull)), Clear, On (Put ''s:1'' (1, JInt 1)), On (Put ''s/1'' (2, JInt 2)), On (Put ''u'' (3, JInt 3)), On (Del ''u'')]"]
  by (simp add: safe_def)

text \<open>Sessions whose names differ in slashes and colons only share a checkpoint, and a key listed need not be one that was saved.\<close>

lemma checkpoints_collide:
  "codec_law c \<Longrightarrow> load_checkpoint c ''a:b'' (saved c ''a/b'' (now, j) t) = Some j"
  "checkpoint_keys (saved c ''a/b'' (now, j) []) = [''a_b'']"
  by (simp_all add: load_checkpoint_def saved_renews look_set renewed_def codec_law_def safe_def checkpoint_keys_def)

end
