(* ===== verification/MemoryStores.thy ===== *)
theory MemoryStores
  imports KeyedStores SqlBuilders
begin

text \<open>
  Stores of memory chunks with vectors (\<^verbatim>\<open>obase/cognitive_store.py\<close>): a table of SQLite searched by
  cosine distance, and the statements sent to a server with a vector extension. Numbers are rationals, the square
  root is an argument.
\<close>

section \<open>Chunks\<close>

record chunk =
  chunk_id :: string
  content :: string
  embedding :: "rat list option"
  metadata :: json
  path :: "string option"
  born :: rat

datatype memory_error = Dimension nat nat | Unknown_kind string | Bad_row decode_error

definition dim_ok :: "nat \<Rightarrow> chunk \<Rightarrow> bool" where
  "dim_ok width ch = (case embedding ch of None \<Rightarrow> True | Some v \<Rightarrow> length v = width)"

definition dim_error :: "nat \<Rightarrow> chunk \<Rightarrow> memory_error" where
  "dim_error width ch = Dimension (case embedding ch of None \<Rightarrow> 0 | Some v \<Rightarrow> length v) width"

section \<open>The table of SQLite\<close>

type_synonym chunks = "(string, chunk) dict"

definition upsert :: "nat \<Rightarrow> chunk \<Rightarrow> chunks \<Rightarrow> memory_error + chunks" where
  "upsert width ch t =
     (if \<not> dim_ok width ch then Inl (dim_error width ch)
      else Inr (dict_set (chunk_id ch)
        (case dict_get t (chunk_id ch) of
           None \<Rightarrow> ch
         | Some r \<Rightarrow> r\<lparr>content := content ch, embedding := embedding ch, metadata := metadata ch, path := path ch\<rparr>) t))"

definition cosine_distance :: "(rat \<Rightarrow> rat) \<Rightarrow> rat list \<Rightarrow> rat list \<Rightarrow> rat" where
  "cosine_distance rt a b =
     (let dot = sum_list (map (\<lambda>(x, y). x * y) (zip a b));
          na = rt (sum_list (map (\<lambda>x. x * x) a));
          nb = rt (sum_list (map (\<lambda>x. x * x) b))
      in if na = 0 \<or> nb = 0 then 1 else 1 - dot / (na * nb))"

definition score_row :: "(rat \<Rightarrow> rat) \<Rightarrow> rat list \<Rightarrow> chunk \<Rightarrow> (chunk \<times> rat) option" where
  "score_row rt vec r = (case embedding r of None \<Rightarrow> None | Some e \<Rightarrow> Some (r, cosine_distance rt vec e))"

definition search :: "(rat \<Rightarrow> rat) \<Rightarrow> nat \<Rightarrow> rat list \<Rightarrow> int \<Rightarrow> chunks \<Rightarrow> memory_error + (chunk \<times> rat) list" where
  "search rt width vec top_k t =
     (if length vec \<noteq> width then Inl (Dimension (length vec) width)
      else Inr (slice_to top_k (sort_key snd (List.map_filter (score_row rt vec) (map snd t)))))"

definition delete_chunk :: "string \<Rightarrow> chunks \<Rightarrow> chunks \<times> bool" where
  "delete_chunk i t = (dict_pop i t, dict_get t i \<noteq> None)"

definition get_chunk :: "string \<Rightarrow> chunks \<Rightarrow> chunk option" where
  "get_chunk i t = dict_get t i"

definition count_chunks :: "chunks \<Rightarrow> nat" where
  "count_chunks t = length t"

section \<open>The statements for the server\<close>

record pg_store =
  pg_table :: string
  vector_column :: string
  pg_dim :: nat

definition fmt_vec :: "(rat \<Rightarrow> string) \<Rightarrow> rat list \<Rightarrow> string" where
  "fmt_vec shown v = ''['' @ join_text '','' (map shown v) @ '']::vector''"

definition pg_upsert :: "(rat \<Rightarrow> string) \<Rightarrow> pg_store \<Rightarrow> chunk \<Rightarrow> memory_error + piece list \<times> json list" where
  "pg_upsert shown st ch =
     (if \<not> dim_ok (pg_dim st) ch then Inl (dim_error (pg_dim st) ch)
      else let vec = (case embedding ch of Some (x # xs) \<Rightarrow> fmt_vec shown (x # xs) | _ \<Rightarrow> ''NULL''); col = vector_column st in
        Inr ([Txt (''INSERT INTO '' @ dq (pg_table st) @ '' (chunk_id, content, '' @ col @ '', metadata, path, created_at) VALUES (''), Par 1,
              Txt '', '', Par 2, Txt ('', '' @ vec @ '', ''), Par 3, Txt ''::jsonb, '', Par 4,
              Txt ('', NOW()) ON CONFLICT (chunk_id) DO UPDATE SET content = EXCLUDED.content, '' @ col @ '' = EXCLUDED.'' @ col
                @ '', metadata = EXCLUDED.metadata, path = EXCLUDED.path'')],
             [JStr (chunk_id ch), JStr (content ch), metadata ch, str_or_null (path ch)]))"

text \<open>Rows come back as documents; a chunk read from them has no vector and the time of the reading.\<close>

definition pg_chunk :: "rat \<Rightarrow> (json \<Rightarrow> json) \<Rightarrow> jdict \<Rightarrow> decode_error + chunk" where
  "pg_chunk now meta r =
     bindE (need ''chunk_id'' as_str r) (\<lambda>i. bindE (opt ''content'' '''' as_str r) (\<lambda>ct. bindE (opt ''path'' None as_str_option r) (\<lambda>p.
       Inr \<lparr>chunk_id = i, content = ct, embedding = None, metadata = meta (get_json ''metadata'' JNull r), path = p, born = now\<rparr>)))"

definition dict_meta :: "json \<Rightarrow> json" where
  "dict_meta m = (case m of JDict d \<Rightarrow> JDict d | _ \<Rightarrow> JDict [])"

definition pg_hit :: "rat \<Rightarrow> jdict \<Rightarrow> decode_error + chunk \<times> rat" where
  "pg_hit now r = bindE (pg_chunk now dict_meta r) (\<lambda>ch. bindE (opt ''distance'' 0 as_float r) (\<lambda>d. Inr (ch, d)))"

definition as_bad_row :: "decode_error + 'a \<Rightarrow> memory_error + 'a" where
  "as_bad_row r = (case r of Inl e \<Rightarrow> Inl (Bad_row e) | Inr x \<Rightarrow> Inr x)"

definition pg_search :: "(rat \<Rightarrow> string) \<Rightarrow> rat \<Rightarrow> (piece list \<times> string list \<Rightarrow> jdict list) \<Rightarrow> pg_store \<Rightarrow> rat list \<Rightarrow> int \<Rightarrow>
    memory_error + (chunk \<times> rat) list" where
  "pg_search shown now rows st vec top_k =
     (if length vec \<noteq> pg_dim st then Inl (Dimension (length vec) (pg_dim st))
      else as_bad_row (mapE (pg_hit now)
        (rows (vector_search (pg_table st) (vector_column st) (fmt_vector shown vec) Cosine top_k [] [] None))))"

definition pg_get :: "rat \<Rightarrow> jdict option \<Rightarrow> memory_error + chunk option" where
  "pg_get now row = (case row of None \<Rightarrow> Inr None
     | Some r \<Rightarrow> as_bad_row (bindE (pg_chunk now (\<lambda>m. py_or m (JDict [])) r) (\<lambda>ch. Inr (Some ch))))"

definition pg_statement :: "string \<Rightarrow> pg_store \<Rightarrow> piece list" where
  "pg_statement verb st = [Txt (verb @ '' FROM '' @ dq (pg_table st) @ '' WHERE chunk_id = ''), Par 1]"

definition pg_deleted :: "string \<Rightarrow> bool" where
  "pg_deleted tag = (tag \<noteq> '''')"

definition pg_count :: "jdict option \<Rightarrow> memory_error + int" where
  "pg_count row = (case row of None \<Rightarrow> Inr 0 | Some r \<Rightarrow> if r = [] then Inr 0 else as_bad_row (need ''n'' as_int r))"

text \<open>The factory.\<close>

datatype memory_store = Pg pg_store | Sqlite nat

definition make_memory_store :: "string \<Rightarrow> nat option \<Rightarrow> memory_error + memory_store" where
  "make_memory_store kind width =
     (let d = (case width of None \<Rightarrow> 1536 | Some n \<Rightarrow> n) in
      if kind = ''pgvector'' then Inr (Pg \<lparr>pg_table = ''memory_chunk'', vector_column = ''embedding'', pg_dim = d\<rparr>)
      else if kind = ''sqlite'' then Inr (Sqlite d)
      else Inl (Unknown_kind kind))"

section \<open>The table refines a map\<close>

definition tagged :: "chunks \<Rightarrow> bool" where
  "tagged t = (keys_once t \<and> (\<forall>i r. dict_get t i = Some r \<longrightarrow> chunk_id r = i))"

definition upserted :: "nat \<Rightarrow> string \<Rightarrow> chunk \<Rightarrow> chunks \<Rightarrow> chunks" where
  "upserted w i ch t = (if chunk_id ch = i then (case upsert w ch t of Inl e \<Rightarrow> t | Inr t' \<Rightarrow> t') else t)"

definition reborn :: "chunk \<Rightarrow> chunk option \<Rightarrow> chunk" where
  "reborn ch old = ch\<lparr>born := (case old of None \<Rightarrow> born ch | Some r \<Rightarrow> born r)\<rparr>"

lemma keep_fields: "chunk_id r = chunk_id ch \<Longrightarrow>
    r\<lparr>content := content ch, embedding := embedding ch, metadata := metadata ch, path := path ch\<rparr> = ch\<lparr>born := born r\<rparr>"
  for r ch :: chunk
  by (cases r; cases ch) simp

lemma upsert_reborn: "tagged t \<Longrightarrow> dim_ok w ch \<Longrightarrow>
    upsert w ch t = Inr (dict_set (chunk_id ch) (reborn ch (dict_get t (chunk_id ch))) t)"
  by (auto simp: upsert_def reborn_def tagged_def keep_fields split: option.splits)

lemma reborn_id [simp]: "chunk_id (reborn ch old) = chunk_id ch"
  by (simp add: reborn_def)

lemma tagged_set: "tagged t \<Longrightarrow> tagged (dict_set (chunk_id r) r t)"
  by (auto simp: tagged_def look_set split: if_splits)

lemma tagged_pop: "tagged t \<Longrightarrow> tagged (dict_pop i t)"
  by (auto simp: tagged_def look_pop split: if_splits)

interpretation mem: keyed_store tagged "\<lambda>i. i" "\<lambda>i ch. dim_ok w ch \<and> chunk_id ch = i" "\<lambda>i. True" reborn "upserted w"
    "\<lambda>i t. fst (delete_chunk i t)" dict_get count_chunks
  for w :: nat
proof unfold_locales
  fix t :: chunks and i ch
  assume t: "tagged t" and a: "dim_ok w ch \<and> chunk_id ch = i"
  show "tagged (upserted w i ch t) \<and> dict_get (upserted w i ch t) = (dict_get t)(i \<mapsto> reborn ch (dict_get t i))"
    using a tagged_set [OF t, of "reborn ch (dict_get t i)"] by (auto simp: upserted_def upsert_reborn [OF t] look_set)
next
  fix t :: chunks and i ch
  assume "tagged t" and "\<not> (dim_ok w ch \<and> chunk_id ch = i)"
  then show "upserted w i ch t = t" by (auto simp: upserted_def upsert_def)
next
  fix t :: chunks
  assume "tagged t"
  then show "finite (dom (dict_get t)) \<and> count_chunks t = card (dom (dict_get t))"
    by (simp add: tagged_def count_chunks_def length_keys_once)
qed (simp_all add: delete_chunk_def tagged_pop look_pop fun_upd_def)

datatype mem_op = Upsert chunk | Delete string

fun as_kop :: "mem_op \<Rightarrow> (string, chunk) kop" where
  "as_kop (Upsert ch) = Put (chunk_id ch) ch"
| "as_kop (Delete i) = Del i"

fun mem_step :: "nat \<Rightarrow> chunks \<Rightarrow> mem_op \<Rightarrow> chunks" where
  "mem_step w t (Upsert ch) = (case upsert w ch t of Inl e \<Rightarrow> t | Inr t' \<Rightarrow> t')"
| "mem_step w t (Delete i) = fst (delete_chunk i t)"

text \<open>What a store owes: the latest chunk of each identifier, with the time of birth of its first since the last deletion.\<close>

fun recall :: "nat \<Rightarrow> (string \<rightharpoonup> chunk) \<Rightarrow> mem_op \<Rightarrow> (string \<rightharpoonup> chunk)" where
  "recall w m (Upsert ch) = (if dim_ok w ch then m(chunk_id ch \<mapsto> ch\<lparr>born := (case m (chunk_id ch) of None \<Rightarrow> born ch | Some r \<Rightarrow> born r)\<rparr>) else m)"
| "recall w m (Delete i) = m(i := None)"

lemma mem_run: "foldl (mem_step w) t ops = foldl (table_step (upserted w) (\<lambda>i t. fst (delete_chunk i t))) t (map as_kop ops)"
proof (induction ops arbitrary: t)
  case (Cons op ops)
  then show ?case by (cases op) (simp_all add: upserted_def)
qed simp

lemma recall_run: "foldl (recall w) m ops =
    foldl (map_step (\<lambda>i. i) (\<lambda>i ch. dim_ok w ch \<and> chunk_id ch = i) (\<lambda>i. True) reborn) m (map as_kop ops)"
proof (induction ops arbitrary: m)
  case (Cons op ops)
  then show ?case by (cases op) (simp_all add: reborn_def fun_upd_def)
qed simp

lemma tagged_nil: "tagged []"
  by (simp add: tagged_def keys_once_def)

text \<open>
  After any upserts and deletions of a new store, refused upserts among them, reading an identifier
  returns exactly what a map recalls: the chunk last stored under it, whose creation time is that of
  the first one stored since the last deletion; and the count is the number of recalled identifiers.
\<close>

theorem memory_recalls:
  "get_chunk i (foldl (mem_step w) [] ops) = foldl (recall w) Map.empty ops i
   \<and> count_chunks (foldl (mem_step w) [] ops) = card (dom (foldl (recall w) Map.empty ops))"
  using mem.run_refines [OF tagged_nil, of w "map as_kop ops"] mem.run_counts [OF tagged_nil, of w "map as_kop ops"]
  by (simp add: mem_run recall_run get_chunk_def)

section \<open>Searching\<close>

lemma scored_rows: "List.map_filter (score_row rt vec) rs = map (\<lambda>r. (r, cosine_distance rt vec (the (embedding r)))) (filter (\<lambda>r. embedding r \<noteq> None) rs)"
  by (induction rs) (auto simp: map_filter_simps score_row_def split: option.splits)

text \<open>
  A search for the \<open>n\<close> nearest returns the least distances first, at most \<open>n\<close> chunks and
  all that have a vector if there are no more, none twice; each is a stored chunk with its own distance, and no
  chunk left out is nearer than one returned.
\<close>

theorem search_finds_nearest:
  assumes "tagged t" and "search rt w vec (int n) t = Inr hits"
  shows "length hits = min n (length (filter (\<lambda>r. embedding r \<noteq> None) (map snd t)))
    \<and> sorted (map snd hits) \<and> distinct (map (\<lambda>h. chunk_id (fst h)) hits)
    \<and> (\<forall>(ch, d) \<in> set hits. get_chunk (chunk_id ch) t = Some ch \<and> embedding ch \<noteq> None \<and> d = cosine_distance rt vec (the (embedding ch)))
    \<and> (\<forall>ch e. get_chunk (chunk_id ch) t = Some ch \<and> embedding ch = Some e \<and> ch \<notin> fst ` set hits
         \<longrightarrow> (\<forall>(h, d) \<in> set hits. d \<le> cosine_distance rt vec e))"
proof -
  let ?rs = "filter (\<lambda>r. embedding r \<noteq> None) (map snd t)"
  let ?xs = "map (\<lambda>r. (r, cosine_distance rt vec (the (embedding r)))) ?rs"
  have h: "hits = take n (sort_key snd ?xs)" using assms(2) by (simp add: search_def scored_rows slice_to_def split: if_splits)
  have ids: "map chunk_id (map snd t) = map fst t"
    using assms(1) by (auto simp: tagged_def keys_once_def)
  have rows: "get_chunk (chunk_id r) t = Some r \<longleftrightarrow> r \<in> snd ` set t" for r
  proof
    show "get_chunk (chunk_id r) t = Some r \<Longrightarrow> r \<in> snd ` set t" unfolding get_chunk_def by (metis map_of_SomeD snd_conv image_eqI)
  next
    assume "r \<in> snd ` set t"
    then obtain k where "(k, r) \<in> set t" by auto
    then have "dict_get t k = Some r" using assms(1) by (simp add: tagged_def keys_once_def)
    then show "get_chunk (chunk_id r) t = Some r" using assms(1) by (metis tagged_def get_chunk_def)
  qed
  have "distinct (map chunk_id ?rs)" using assms(1) ids by (metis distinct_map_filter keys_once_def tagged_def)
  then have "distinct (map (\<lambda>h. chunk_id (fst h)) ?xs)" by (simp add: comp_def)
  then have "distinct (map (\<lambda>h. chunk_id (fst h)) (sort_key snd ?xs))"
    by (simp only: distinct_map_sort)
  then have dst: "distinct (map (\<lambda>h. chunk_id (fst h)) hits)" by (simp add: h take_map [symmetric] distinct_take)
  have srt: "sorted (map snd hits)" unfolding h take_map [symmetric] by (rule sorted_wrt_take) (rule sorted_sort_key)
  have mem: "(ch, d) \<in> set hits \<Longrightarrow> ch \<in> set ?rs \<and> d = cosine_distance rt vec (the (embedding ch))" for ch d
    using in_set_takeD [of "(ch, d)" n "sort_key snd ?xs"] by (auto simp: h)
  have least: "d \<le> cosine_distance rt vec e"
    if "ch \<in> snd ` set t" "embedding ch = Some e" "ch \<notin> fst ` set hits" "(h', d) \<in> set hits" for ch e h' d
  proof -
    have "(ch, cosine_distance rt vec e) \<in> set ?xs" using that(1,2) by force
    moreover have "(ch, cosine_distance rt vec e) \<notin> set hits" using that(3) by force
    ultimately have "snd (h', d) \<le> snd (ch, cosine_distance rt vec e)"
      using that(4) unfolding h by (intro take_sorted_least [of _ n snd ?xs])
    then show ?thesis by (simp only: snd_conv)
  qed
  have "\<forall>ch e. get_chunk (chunk_id ch) t = Some ch \<and> embedding ch = Some e \<and> ch \<notin> fst ` set hits
      \<longrightarrow> (\<forall>(h, d) \<in> set hits. d \<le> cosine_distance rt vec e)"
    using least unfolding rows by blast
  moreover have "\<forall>(ch, d) \<in> set hits. get_chunk (chunk_id ch) t = Some ch \<and> embedding ch \<noteq> None \<and> d = cosine_distance rt vec (the (embedding ch))"
    using mem unfolding rows by fastforce
  moreover have "length hits = min n (length ?rs)" by (simp add: h)
  ultimately show ?thesis using dst srt by blast
qed

definition sample_chunk :: "string \<Rightarrow> rat \<Rightarrow> chunk" where
  "sample_chunk i x = \<lparr>chunk_id = i, content = '''', embedding = Some [x], metadata = JDict [], path = None, born = 0\<rparr>"

definition sample_chunks :: chunks where
  "sample_chunks = [(''a'', sample_chunk ''a'' (-1)), (''z'', sample_chunk ''z'' 0), (''b'', sample_chunk ''b'' 1)]"

lemma sample_tagged: "tagged sample_chunks"
  by (auto simp: tagged_def keys_once_def sample_chunks_def sample_chunk_def split: if_splits)

lemma sample_search: "search (\<lambda>x. x) 1 [1] 3 sample_chunks =
    Inr [(sample_chunk ''b'' 1, 0), (sample_chunk ''z'' 0, 1), (sample_chunk ''a'' (-1), 2)]"
  by (simp add: search_def sample_chunks_def sample_chunk_def score_row_def map_filter_simps cosine_distance_def slice_to_def)

theorem search_finds_nearest_witness:
  "length [(sample_chunk ''b'' 1, 0::rat), (sample_chunk ''z'' 0, 1), (sample_chunk ''a'' (-1), 2)]
     = min 3 (length (filter (\<lambda>r. embedding r \<noteq> None) (map snd sample_chunks)))"
  using search_finds_nearest [OF sample_tagged, of "\<lambda>x. x" 1 "[1]" 3] sample_search by simp

text \<open>
  A zero vector is meant to be furthest; it comes before a vector that points the other way. The vector of an upsert is not
  quoted, and a server's report that nothing was deleted counts as a deletion.
\<close>

lemma zero_vector_not_furthest: "rt 1 = 1 \<Longrightarrow> rt 0 = 0 \<Longrightarrow> cosine_distance rt [1] [0] = 1 \<and> cosine_distance rt [1] [-1] = 2"
  by (simp add: cosine_distance_def)

lemma vector_unquoted: "fmt_vec (\<lambda>x. ''1.0'') [1, 1] = ''[1.0,1.0]::vector''"
  by (simp add: fmt_vec_def join_text_def)

lemma nothing_deleted_reported: "pg_deleted ''DELETE 0''"
  by (simp add: pg_deleted_def)

end
