(* ===== verification/MemoryBank.thy ===== *)
theory MemoryBank
  imports KeyedStores
begin

text \<open>
  The experience memories of service adapters (\<^verbatim>\<open>obase/memory_bank.py\<close>): validated items, a table with
  one row per identifier, the migration of an older table, and retrieval by shared words. JSON texts are
  made and read by a codec; reading a number from a text and the square root are arguments.
\<close>

section \<open>Items\<close>

type_synonym strings = "(string \<times> string) list"

record item =
  memory_id :: string
  context_description :: string
  failed_attempt :: strings
  successful_strategy :: strings
  context_vector :: "rat list"

datatype bank_error = Empty_id | Empty_description | Not_strings string | Bad_vector | Bad_json

fun as_text_entry :: "string \<times> json \<Rightarrow> bank_error + string \<times> string" where
  "as_text_entry (k, JStr s) = Inr (k, s)"
| "as_text_entry (k, j) = Inl (Not_strings k)"

definition string_mapping :: "json \<Rightarrow> string \<Rightarrow> bank_error + strings" where
  "string_mapping j field = (case j of
     JDict d \<Rightarrow> (case mapE as_text_entry d of Inl e \<Rightarrow> Inl (Not_strings field) | Inr xs \<Rightarrow> Inr xs)
   | _ \<Rightarrow> Inl (Not_strings field))"

fun number :: "(string \<Rightarrow> rat option) \<Rightarrow> json \<Rightarrow> bank_error + rat" where
  "number pf (JFloat r) = Inr r"
| "number pf (JInt i) = Inr (of_int i)"
| "number pf (JBool b) = Inr (if b then 1 else 0)"
| "number pf (JStr s) = (case pf s of None \<Rightarrow> Inl Bad_vector | Some r \<Rightarrow> Inr r)"
| "number pf j = Inl Bad_vector"

definition numbers :: "(string \<Rightarrow> rat option) \<Rightarrow> json \<Rightarrow> bank_error + rat list" where
  "numbers pf j = (case j of
     JList xs \<Rightarrow> mapE (number pf) xs
   | JDict d \<Rightarrow> mapE (number pf) (map (\<lambda>(k, v). JStr k) d)
   | JStr s \<Rightarrow> mapE (number pf) (map (\<lambda>c. JStr [c]) s)
   | _ \<Rightarrow> Inl Bad_vector)"

definition memory_item :: "(string \<Rightarrow> rat option) \<Rightarrow> string \<Rightarrow> string \<Rightarrow> json \<Rightarrow> json \<Rightarrow> json \<Rightarrow> bank_error + item" where
  "memory_item pf i desc fa ss vec =
     (if blank i then Inl Empty_id
      else if blank desc then Inl Empty_description
      else bindE (string_mapping fa ''failed_attempt'') (\<lambda>fa. bindE (string_mapping ss ''successful_strategy'') (\<lambda>ss.
           bindE (numbers pf vec) (\<lambda>v. Inr \<lparr>memory_id = i, context_description = desc, failed_attempt = fa, successful_strategy = ss, context_vector = v\<rparr>))))"

definition strings_doc :: "strings \<Rightarrow> json" where
  "strings_doc xs = JDict (map (\<lambda>(k, v). (k, JStr v)) xs)"

definition vector_doc :: "rat list \<Rightarrow> json" where
  "vector_doc v = JList (map JFloat v)"

definition item_to_dict :: "item \<Rightarrow> jdict" where
  "item_to_dict it = [(''memory_id'', JStr (memory_id it)), (''context_description'', JStr (context_description it)),
     (''failed_attempt'', strings_doc (failed_attempt it)), (''successful_strategy'', strings_doc (successful_strategy it)),
     (''context_vector'', vector_doc (context_vector it))]"

section \<open>The table\<close>

record bank_row =
  row_description :: string
  failed_json :: string
  strategy_json :: string
  vector_json :: string
  row_created :: string
  row_updated :: string

type_synonym bank = "(string, bank_row) dict"

definition json_of :: "string codec \<Rightarrow> json \<Rightarrow> string" where
  "json_of c j = dumps c (sort_keys j)"

definition loads_of :: "string codec \<Rightarrow> string \<Rightarrow> bank_error + json" where
  "loads_of c s = (case loads c s of None \<Rightarrow> Inl Bad_json | Some j \<Rightarrow> Inr j)"

definition from_row :: "string codec \<Rightarrow> (string \<Rightarrow> rat option) \<Rightarrow> string \<times> bank_row \<Rightarrow> bank_error + item" where
  "from_row c pf = (\<lambda>(i, r). bindE (loads_of c (failed_json r)) (\<lambda>fa. bindE (loads_of c (strategy_json r)) (\<lambda>ss.
     bindE (loads_of c (vector_json r)) (\<lambda>v. memory_item pf i (row_description r) fa ss v))))"

definition row_of :: "string codec \<Rightarrow> string \<Rightarrow> item \<Rightarrow> bank_row" where
  "row_of c now it = \<lparr>row_description = context_description it, failed_json = json_of c (strings_doc (failed_attempt it)),
     strategy_json = json_of c (strings_doc (successful_strategy it)), vector_json = json_of c (vector_doc (context_vector it)),
     row_created = now, row_updated = now\<rparr>"

definition add_item :: "string codec \<Rightarrow> string \<Rightarrow> item \<Rightarrow> bank \<Rightarrow> bank" where
  "add_item c now it t =
     (let new = row_of c now it in
      dict_set (memory_id it) (case dict_get t (memory_id it) of
          None \<Rightarrow> new
        | Some r \<Rightarrow> r\<lparr>row_description := row_description new, failed_json := failed_json new, strategy_json := strategy_json new,
            vector_json := vector_json new, row_updated := row_updated new\<rparr>) t)"

definition in_order :: "bank \<Rightarrow> (string \<times> bank_row) list" where
  "in_order t = sort_key (\<lambda>(i, r). row_created r) (sort_key fst t)"

definition list_all_items :: "string codec \<Rightarrow> (string \<Rightarrow> rat option) \<Rightarrow> bank \<Rightarrow> bank_error + item list" where
  "list_all_items c pf t = mapE (from_row c pf) (in_order t)"

definition delete_item :: "string \<Rightarrow> bank \<Rightarrow> bank_error + bank \<times> bool" where
  "delete_item i t = (if blank i then Inl Empty_id else Inr (dict_pop i t, dict_get t i \<noteq> None))"

definition count_items :: "bank \<Rightarrow> nat" where
  "count_items t = length t"

text \<open>Opening: a row of the older table is copied unless its identifier is taken or one of its fields is empty. The older
  table stays. Its identifiers are taken to be present.\<close>

record legacy_row =
  old_id :: string
  old_description :: "string option"
  old_failed :: "string option"
  old_strategy :: "string option"
  old_vector :: "string option"

definition migrate_row :: "string \<Rightarrow> bool \<Rightarrow> legacy_row \<Rightarrow> bank \<Rightarrow> bank" where
  "migrate_row now vectors l t =
     (case (old_description l, old_failed l, old_strategy l, if vectors then old_vector l else Some ''[]'') of
        (Some d, Some f, Some s, Some v) \<Rightarrow>
          if dict_get t (old_id l) = None
          then dict_set (old_id l) \<lparr>row_description = d, failed_json = f, strategy_json = s, vector_json = v, row_created = now, row_updated = now\<rparr> t
          else t
      | _ \<Rightarrow> t)"

definition open_bank :: "string \<Rightarrow> bool \<Rightarrow> legacy_row list \<Rightarrow> bank \<Rightarrow> bank" where
  "open_bank now vectors ls t = fold (migrate_row now vectors) ls t"

section \<open>Retrieval\<close>

text \<open>Letters and digits of the first 256 characters, and the maximal runs of them.\<close>

definition alnum :: "char \<Rightarrow> bool" where
  "alnum ch = (let n = (of_char ch :: nat) in 48 \<le> n \<and> n \<le> 57 \<or> 65 \<le> n \<and> n \<le> 90 \<or> 97 \<le> n \<and> n \<le> 122
     \<or> n \<in> {170, 178, 179, 181, 185, 186, 188, 189, 190} \<or> 192 \<le> n \<and> n \<noteq> 215 \<and> n \<noteq> 247)"

fun runs :: "(char \<Rightarrow> bool) \<Rightarrow> string \<Rightarrow> string \<Rightarrow> string list" where
  "runs P acc [] = (if acc = [] then [] else [rev acc])"
| "runs P acc (ch # cs) =
     (if P ch then runs P (ch # acc) cs
      else if acc = [] then runs P [] cs else rev acc # runs P [] cs)"

definition terms :: "string \<Rightarrow> string list" where
  "terms s = remdups (runs alnum [] (map lower_char s))"

definition cosine_similarity :: "(rat \<Rightarrow> rat) \<Rightarrow> rat list \<Rightarrow> rat list \<Rightarrow> rat" where
  "cosine_similarity rt a b =
     (if length a \<noteq> length b \<or> a = [] then 0
      else let dot = sum_list (map (\<lambda>(x, y). x * y) (zip a b));
               na = rt (sum_list (map (\<lambda>x. x * x) a)); nb = rt (sum_list (map (\<lambda>x. x * x) b))
           in if na \<noteq> 0 \<and> nb \<noteq> 0 then dot / (na * nb) else 0)"

definition searchable :: "string codec \<Rightarrow> item \<Rightarrow> string" where
  "searchable c it = map lower_char (join_with (CHR '' '') [context_description it, json_of c (strings_doc (failed_attempt it)),
     json_of c (strings_doc (successful_strategy it))])"

definition normalized :: "string \<Rightarrow> string" where
  "normalized s = join_with (CHR '' '') (words s)"

definition score_item :: "string codec \<Rightarrow> (rat \<Rightarrow> rat) \<Rightarrow> string \<Rightarrow> rat list option \<Rightarrow> item \<Rightarrow> rat" where
  "score_item c rt signature qv it =
     (let query = terms signature; q = normalized (map lower_char signature); s = searchable c it;
          overlap = length (filter (\<lambda>t. t \<in> set (terms s)) query);
          bonus = (if q \<noteq> '''' \<and> is_infix q (normalized s) then 1 else 0);
          score = of_nat overlap / of_nat (max (length query) 1) + bonus
      in case qv of None \<Rightarrow> score | Some v \<Rightarrow> score + cosine_similarity rt v (context_vector it))"

definition search_experience :: "string codec \<Rightarrow> (string \<Rightarrow> rat option) \<Rightarrow> (rat \<Rightarrow> rat) \<Rightarrow> string \<Rightarrow> int \<Rightarrow> rat list option \<Rightarrow> bank \<Rightarrow>
    bank_error + item list" where
  "search_experience c pf rt signature top_k qv t =
     (if top_k \<le> 0 then Inr []
      else bindE (mapE (from_row c pf) (in_order t)) (\<lambda>items.
        let scored = filter (\<lambda>(s, it). 0 < s) (map (\<lambda>it. (score_item c rt signature qv it, it)) items)
        in Inr (map snd (take (nat top_k) (sort_key (\<lambda>(s, it). - s) scored)))))"

text \<open>The older score, over texts whose keys are not sorted.\<close>

definition keyword_score :: "string codec \<Rightarrow> string \<Rightarrow> item \<Rightarrow> rat" where
  "keyword_score c signature it =
     (let query = terms signature;
          found = terms (join_with (CHR '' '') [context_description it, dumps c (strings_doc (failed_attempt it)), dumps c (strings_doc (successful_strategy it))])
      in of_nat (length (filter (\<lambda>t. t \<in> set found) query)) / of_nat (max (length query) 1))"

section \<open>Written items read back\<close>

definition valid_item :: "item \<Rightarrow> bool" where
  "valid_item it = (\<not> blank (memory_id it) \<and> \<not> blank (context_description it))"

definition sorted_item :: "item \<Rightarrow> item" where
  "sorted_item it = it\<lparr>failed_attempt := sort_key fst (failed_attempt it), successful_strategy := sort_key fst (successful_strategy it)\<rparr>"

lemma sort_strings_doc: "sort_keys (strings_doc xs) = strings_doc (sort_key fst xs)"
  by (simp add: strings_doc_def sort_key_map case_prod_beta comp_def)

lemma sort_vector_doc: "sort_keys (vector_doc v) = vector_doc v"
  by (simp add: vector_doc_def)

lemma mapping_round_trip: "string_mapping (strings_doc xs) field = Inr xs"
proof -
  have "mapE as_text_entry (map (\<lambda>(k, v). (k, JStr v)) xs) = Inr xs" by (rule mapE_map_id) auto
  then show ?thesis by (simp add: string_mapping_def strings_doc_def)
qed

lemma numbers_round_trip: "numbers pf (vector_doc v) = Inr v"
  by (simp add: numbers_def vector_doc_def mapE_map_id)

lemma row_round_trip:
  "codec_law c \<Longrightarrow> valid_item it \<Longrightarrow> from_row c pf (memory_id it, (row_of c now it)\<lparr>row_created := u\<rparr>) = Inr (sorted_item it)"
  by (simp add: from_row_def row_of_def loads_of_def json_of_def codec_law_def sort_strings_doc sort_vector_doc
      memory_item_def valid_item_def mapping_round_trip numbers_round_trip sorted_item_def)

section \<open>The table refines a map\<close>

definition rewritten :: "string codec \<Rightarrow> string \<times> item \<Rightarrow> bank_row option \<Rightarrow> bank_row" where
  "rewritten c a old = (row_of c (fst a) (snd a))\<lparr>row_created := (case old of None \<Rightarrow> fst a | Some r \<Rightarrow> row_created r)\<rparr>"

definition added :: "string codec \<Rightarrow> string \<Rightarrow> string \<times> item \<Rightarrow> bank \<Rightarrow> bank" where
  "added c i a t = (if memory_id (snd a) = i then add_item c (fst a) (snd a) t else t)"

definition removed :: "string \<Rightarrow> bank \<Rightarrow> bank" where
  "removed i t = (case delete_item i t of Inl e \<Rightarrow> t | Inr (t', b) \<Rightarrow> t')"

lemma row_fields: "r\<lparr>row_description := d, failed_json := f, strategy_json := s, vector_json := v, row_updated := u\<rparr>
    = \<lparr>row_description = d, failed_json = f, strategy_json = s, vector_json = v, row_created = row_created r, row_updated = u\<rparr>"
  for r :: bank_row
  by (cases r) simp

lemma add_rewrites: "add_item c now it t = dict_set (memory_id it) (rewritten c (now, it) (dict_get t (memory_id it))) t"
  by (auto simp: add_item_def rewritten_def row_of_def row_fields Let_def split: option.splits)

interpretation bank: keyed_store keys_once "\<lambda>i. i" "\<lambda>i a. memory_id (snd a) = i" "\<lambda>i. \<not> blank i" "rewritten c" "added c" removed dict_get count_items
  for c :: "string codec"
  by unfold_locales
    (auto simp: added_def removed_def delete_item_def add_rewrites look_set look_pop count_items_def length_keys_once)

datatype bank_op = Add string item | Remove string

fun bank_step :: "string codec \<Rightarrow> bank \<Rightarrow> bank_op \<Rightarrow> bank" where
  "bank_step c t (Add now it) = add_item c now it t"
| "bank_step c t (Remove i) = (case delete_item i t of Inl e \<Rightarrow> t | Inr (t', b) \<Rightarrow> t')"

fun bank_kop :: "bank_op \<Rightarrow> (string, string \<times> item) kop" where
  "bank_kop (Add now it) = Put (memory_id it) (now, it)"
| "bank_kop (Remove i) = Del i"

fun op_valid :: "bank_op \<Rightarrow> bool" where
  "op_valid (Add now it) = valid_item it"
| "op_valid (Remove i) = True"

text \<open>Items with the time they were first added.\<close>

fun experience :: "(string \<rightharpoonup> item \<times> string) \<Rightarrow> bank_op \<Rightarrow> (string \<rightharpoonup> item \<times> string)" where
  "experience m (Add now it) = m(memory_id it \<mapsto> (sorted_item it, case m (memory_id it) of None \<Rightarrow> now | Some p \<Rightarrow> snd p))"
| "experience m (Remove i) = (if blank i then m else m(i := None))"

definition row_holds :: "string codec \<Rightarrow> (string \<Rightarrow> rat option) \<Rightarrow> string \<Rightarrow> bank_row option \<Rightarrow> (item \<times> string) option \<Rightarrow> bool" where
  "row_holds c pf i r p = (case r of None \<Rightarrow> p = None
     | Some r \<Rightarrow> (\<exists>it. memory_id it = i \<and> from_row c pf (i, r) = Inr it \<and> p = Some (it, row_created r)))"

definition rows_hold :: "string codec \<Rightarrow> (string \<Rightarrow> rat option) \<Rightarrow> (string \<rightharpoonup> bank_row) \<Rightarrow> (string \<rightharpoonup> item \<times> string) \<Rightarrow> bool" where
  "rows_hold c pf m e = (\<forall>i. row_holds c pf i (m i) (e i))"

lemma row_holds_new:
  assumes "codec_law c" "valid_item it" "row_holds c pf (memory_id it) old p"
  shows "row_holds c pf (memory_id it) (Some (rewritten c (now, it) old)) (Some (sorted_item it, case p of None \<Rightarrow> now | Some q \<Rightarrow> snd q))"
  using assms(3) row_round_trip [OF assms(1,2)]
  by (auto simp: row_holds_def rewritten_def sorted_item_def split: option.splits)

lemma rows_hold_step: "codec_law c \<Longrightarrow> op_valid op \<Longrightarrow> rows_hold c pf m e \<Longrightarrow>
    rows_hold c pf (map_step (\<lambda>i. i) (\<lambda>i a. memory_id (snd a) = i) (\<lambda>i. \<not> blank i) (rewritten c) m (bank_kop op)) (experience e op)"
  by (cases op) (auto simp: rows_hold_def row_holds_new, auto simp: row_holds_def)

lemma bank_run: "foldl (bank_step c) t ops = foldl (table_step (added c) removed) t (map bank_kop ops)"
proof (induction ops arbitrary: t)
  case (Cons op ops)
  then show ?case by (cases op) (simp_all add: added_def removed_def)
qed simp

lemma rows_hold_run: "codec_law c \<Longrightarrow> \<forall>op \<in> set ops. op_valid op \<Longrightarrow> rows_hold c pf m e \<Longrightarrow>
    rows_hold c pf (foldl (map_step (\<lambda>i. i) (\<lambda>i a. memory_id (snd a) = i) (\<lambda>i. \<not> blank i) (rewritten c)) m (map bank_kop ops)) (foldl experience e ops)"
  by (induction ops arbitrary: m e) (simp_all add: rows_hold_step)

lemma bank_holds:
  assumes "codec_law c" "\<forall>op \<in> set ops. op_valid op"
  shows "keys_once (foldl (bank_step c) [] ops) \<and> rows_hold c pf (dict_get (foldl (bank_step c) [] ops)) (foldl experience Map.empty ops)"
proof -
  have new: "keys_once []" by (simp add: keys_once_def)
  have "rows_hold c pf Map.empty Map.empty" by (simp add: rows_hold_def row_holds_def)
  then show ?thesis using rows_hold_run [OF assms, of pf Map.empty Map.empty] bank.run_refines [OF new, of c "map bank_kop ops"]
    by (simp add: bank_run)
qed

section \<open>Listing\<close>

lemma mapE_all: "\<forall>x \<in> set xs. f x = Inr (g x) \<Longrightarrow> mapE f xs = Inr (map g xs)"
  by (induction xs) auto

lemma in_order_keys: "keys_once t \<Longrightarrow> distinct (map fst (in_order t)) \<and> set (in_order t) = set t"
  by (simp add: in_order_def keys_once_def distinct_map_sort)

text \<open>
  After any additions and deletions of valid items a new bank lists without error: every
  identifier that was added and not deleted since, once, with the content last added (its mappings sorted by key), in the order in which they were
  first added; their number is the count.
\<close>

theorem bank_lists_experience:
  assumes "codec_law c" and "\<forall>op \<in> set ops. op_valid op"
  shows "\<exists>xs. list_all_items c pf (foldl (bank_step c) [] ops) = Inr xs \<and> distinct (map memory_id xs)
    \<and> set xs = {it. \<exists>u. foldl experience Map.empty ops (memory_id it) = Some (it, u)}
    \<and> sorted (map (\<lambda>it. snd (the (foldl experience Map.empty ops (memory_id it)))) xs)
    \<and> count_items (foldl (bank_step c) [] ops) = length xs"
proof -
  let ?t = "foldl (bank_step c) [] ops" and ?e = "foldl experience Map.empty ops"
  have t: "keys_once ?t" and h: "rows_hold c pf (dict_get ?t) ?e" using bank_holds [OF assms] by auto
  define f where "f p = (case from_row c pf p of Inl e \<Rightarrow> undefined | Inr it \<Rightarrow> it)" for p
  have row: "from_row c pf (i, r) = Inr (f (i, r)) \<and> memory_id (f (i, r)) = i \<and> ?e i = Some (f (i, r), row_created r)"
    if "(i, r) \<in> set ?t" for i r
  proof -
    have "dict_get ?t i = Some r" using that t by (simp add: keys_once_def)
    moreover have "row_holds c pf i (dict_get ?t i) (?e i)" using h by (simp add: rows_hold_def)
    ultimately show ?thesis by (auto simp: row_holds_def f_def)
  qed
  note ord = in_order_keys [OF t]
  have "list_all_items c pf ?t = Inr (map f (in_order ?t))"
    unfolding list_all_items_def by (rule mapE_all) (use ord row in auto)
  moreover have "map memory_id (map f (in_order ?t)) = map fst (in_order ?t)" using ord row by force
  moreover have "set (map f (in_order ?t)) = {it. \<exists>u. ?e (memory_id it) = Some (it, u)}"
  proof (intro set_eqI iffI)
    fix it assume "it \<in> set (map f (in_order ?t))"
    then show "it \<in> {it. \<exists>u. ?e (memory_id it) = Some (it, u)}" using ord row by fastforce
  next
    fix it assume "it \<in> {it. \<exists>u. ?e (memory_id it) = Some (it, u)}"
    then obtain u where e: "?e (memory_id it) = Some (it, u)" by auto
    have "row_holds c pf (memory_id it) (dict_get ?t (memory_id it)) (?e (memory_id it))" using h by (simp add: rows_hold_def)
    then obtain r where "dict_get ?t (memory_id it) = Some r" using e by (auto simp: row_holds_def split: option.splits)
    then have m: "(memory_id it, r) \<in> set ?t" by (rule map_of_SomeD)
    then have "it = f (memory_id it, r)" using row e by auto
    then show "it \<in> set (map f (in_order ?t))" using m ord by auto
  qed
  moreover have "sorted (map (\<lambda>it. snd (the (?e (memory_id it)))) (map f (in_order ?t)))"
  proof -
    have "map (\<lambda>it. snd (the (?e (memory_id it)))) (map f (in_order ?t)) = map (\<lambda>(i, r). row_created r) (in_order ?t)"
      using ord row by force
    then show ?thesis by (simp only: in_order_def sorted_sort_key)
  qed
  moreover have "count_items ?t = length (map f (in_order ?t))" by (simp add: count_items_def in_order_def)
  ultimately show ?thesis using ord by (metis (no_types, lifting))
qed

text \<open>A codec that numbers the documents.\<close>

definition unary_codec :: "string codec" where
  "unary_codec = \<lparr>dumps = (\<lambda>j. replicate (to_nat j) (CHR ''1'')), loads = (\<lambda>s. Some (from_nat (length s)))\<rparr>"

lemma unary_codec_law: "codec_law unary_codec"
  by (simp add: codec_law_def unary_codec_def)

definition sample_item :: item where
  "sample_item = \<lparr>memory_id = ''k'', context_description = ''l'', failed_attempt = [], successful_strategy = [], context_vector = []\<rparr>"

lemma sample_item_sorted: "sorted_item sample_item = sample_item"
  by (simp add: sorted_item_def sample_item_def)

theorem bank_lists_experience_witness:
  "\<exists>xs. list_all_items unary_codec (\<lambda>s. None) (foldl (bank_step unary_codec) [] [Add ''2020'' sample_item, Remove ''x'', Add ''2021'' sample_item]) = Inr xs
     \<and> sample_item \<in> set xs"
  using bank_lists_experience [OF unary_codec_law, of "[Add ''2020'' sample_item, Remove ''x'', Add ''2021'' sample_item]" "\<lambda>s. None"]
  by (auto simp: valid_item_def sample_item_def sorted_item_def)

text \<open>A memory deleted from a bank is back when the bank is opened beside the older table again, and a row of that table with an empty field is never copied.\<close>

lemma deleted_memory_returns:
  assumes "old_description l = Some d" "old_failed l = Some f" "old_strategy l = Some s" "old_vector l = Some v"
  shows "dict_get (open_bank now True [l] (removed (old_id l) (open_bank before True [l] []))) (old_id l) \<noteq> None"
  using assms by (cases "blank (old_id l)") (auto simp: open_bank_def migrate_row_def removed_def delete_item_def)

lemma incomplete_row_dropped: "old_strategy l = None \<Longrightarrow> open_bank now True [l] t = t"
  by (auto simp: open_bank_def migrate_row_def split: option.splits)

section \<open>What retrieval finds\<close>

text \<open>
  When every row can be read, a retrieval returns at most \<open>top_k\<close> items, as many as there are
  items with a positive score up to that number; each is a listed item of positive score, scores
  descend, and no listed item that is left out scores higher than one returned.
\<close>

theorem retrieval_finds_best:
  assumes "list_all_items c pf t = Inr items" and "0 < top_k" and "search_experience c pf rt sg top_k qv t = Inr hits"
  shows "length hits = min (nat top_k) (length (filter (\<lambda>it. 0 < score_item c rt sg qv it) items))
    \<and> set hits \<subseteq> {it \<in> set items. 0 < score_item c rt sg qv it}
    \<and> sorted_wrt (\<lambda>a b. score_item c rt sg qv b \<le> score_item c rt sg qv a) hits
    \<and> (\<forall>it \<in> set items - set hits. \<forall>h \<in> set hits. score_item c rt sg qv it \<le> score_item c rt sg qv h)"
proof -
  let ?s = "score_item c rt sg qv"
  let ?xs = "filter (\<lambda>(s, it). 0 < s) (map (\<lambda>it. (?s it, it)) items)"
  let ?top = "take (nat top_k) (sort_key (\<lambda>(s, it). - s) ?xs)"
  have h: "hits = map snd ?top"
    using assms by (simp add: list_all_items_def search_experience_def Let_def)
  have xs: "(s, it) \<in> set ?xs \<longleftrightarrow> it \<in> set items \<and> s = ?s it \<and> 0 < s" for s it by auto
  have top: "p \<in> set ?top \<Longrightarrow> p \<in> set ?xs" for p by (metis (no_types, lifting) in_set_takeD set_sort)
  have len: "length ?xs = length (filter (\<lambda>it. 0 < ?s it) items)" by (simp add: filter_map comp_def)
  have "sorted (map (\<lambda>(s, it). - s) ?top)" unfolding take_map [symmetric] by (rule sorted_wrt_take) (rule sorted_sort_key)
  then have "sorted_wrt (\<lambda>a b. fst b \<le> fst a) ?top" by (simp add: sorted_map case_prod_beta)
  moreover have fs: "p \<in> set ?top \<Longrightarrow> fst p = ?s (snd p)" for p using top [of p] xs [of "fst p" "snd p"] by simp
  ultimately have "sorted_wrt (\<lambda>a b. ?s (snd b) \<le> ?s (snd a)) ?top"
    using sorted_wrt_mono_rel [of ?top "\<lambda>a b. fst b \<le> fst a" "\<lambda>a b. ?s (snd b) \<le> ?s (snd a)"] by simp
  then have srt: "sorted_wrt (\<lambda>a b. ?s b \<le> ?s a) hits" by (simp add: h sorted_wrt_map)
  have best: "?s it \<le> ?s g" if it: "it \<in> set items" "it \<notin> set hits" and g: "g \<in> set hits" for it g
  proof -
    obtain s where p: "(s, g) \<in> set ?top" using g by (auto simp: h)
    then have "(s, g) \<in> set ?xs" by (rule top)
    then have sg: "s = ?s g" "0 < ?s g" unfolding xs by simp_all
    show ?thesis
    proof (cases "0 < ?s it")
      case True
      then have "(?s it, it) \<in> set ?xs" unfolding xs using it(1) by simp
      moreover have "(?s it, it) \<notin> set ?top" using it(2) unfolding h by force
      ultimately have "(\<lambda>(s, it). - s) (s, g) \<le> (\<lambda>(s, it). - s) (?s it, it)" by (rule take_sorted_least [OF p])
      then show ?thesis using sg by simp
    qed (use sg in simp)
  qed
  have "set hits \<subseteq> {it \<in> set items. 0 < ?s it}"
  proof
    fix g assume "g \<in> set hits"
    then obtain s where "(s, g) \<in> set ?top" by (auto simp: h)
    then have "(s, g) \<in> set ?xs" by (rule top)
    then show "g \<in> {it \<in> set items. 0 < ?s it}" unfolding xs by simp
  qed
  moreover have "length hits = min (nat top_k) (length (filter (\<lambda>it. 0 < ?s it) items))" by (simp only: h length_map length_take length_sort len min.commute)
  ultimately show ?thesis using srt best by blast
qed

definition sample_bank :: bank where
  "sample_bank = add_item unary_codec ''2020'' sample_item []"

lemma sample_bank_lists: "list_all_items unary_codec pf sample_bank = Inr [sample_item]"
proof -
  have r: "from_row unary_codec pf (memory_id sample_item, (row_of unary_codec ''2020'' sample_item)\<lparr>row_created := ''2020''\<rparr>) = Inr sample_item"
    using row_round_trip [OF unary_codec_law, of sample_item pf "''2020''" "''2020''"]
    by (simp add: sample_item_sorted valid_item_def, simp add: sample_item_def)
  have s: "sample_bank = [(memory_id sample_item, (row_of unary_codec ''2020'' sample_item)\<lparr>row_created := ''2020''\<rparr>)]"
    by (simp add: sample_bank_def add_item_def row_of_def)
  have one: "sort_key f [x] = [x]" for f :: "string \<times> bank_row \<Rightarrow> string" and x by simp
  show ?thesis unfolding list_all_items_def in_order_def s one by (simp only: mapE.simps r bindE_simps)
qed

theorem retrieval_finds_best_witness:
  "\<exists>hits. search_experience unary_codec (\<lambda>s. None) (\<lambda>x. x) ''l'' 2 (Some [1]) sample_bank = Inr hits \<and> set hits \<subseteq> {sample_item}"
proof -
  obtain hits where h: "search_experience unary_codec (\<lambda>s. None) (\<lambda>x. x) ''l'' 2 (Some [1]) sample_bank = Inr hits"
    using sample_bank_lists [of "\<lambda>s. None"] by (simp add: search_experience_def list_all_items_def Let_def)
  then show ?thesis using retrieval_finds_best [OF sample_bank_lists, of 2 "\<lambda>s. None" "\<lambda>x. x" "''l''" "Some [1]" hits] by auto
qed

end
