(* ===== verification/VectorMemory.thy ===== *)
theory VectorMemory
  imports KeyedStores
begin

text \<open>
  A memory of questions and answers ranked by shared words (\<^verbatim>\<open>obase/vector_memory.py\<close>): rows with
  automatic identifiers, retrieval by a BM25 score or by embeddings, deletion. The natural logarithm, the square root and the
  embedding are arguments.
\<close>

section \<open>Rows\<close>

record memory_row =
  row_id :: nat
  collection :: string
  question :: string
  result :: string
  meta :: jdict

text \<open>Identifiers are never used again: the last one given is remembered.\<close>

record memory =
  rows :: "memory_row list"
  last_id :: nat

definition new_memory :: memory where
  "new_memory = \<lparr>rows = [], last_id = 0\<rparr>"

definition add :: "string \<Rightarrow> string \<Rightarrow> string \<Rightarrow> jdict option \<Rightarrow> memory \<Rightarrow> memory \<times> nat" where
  "add q r coll md m =
     (let i = Suc (last_id m) in
      (\<lparr>rows = rows m @ [\<lparr>row_id = i, collection = coll, question = q, result = r, meta = (case md of None \<Rightarrow> [] | Some d \<Rightarrow> d)\<rparr>], last_id = i\<rparr>, i))"

definition add_query :: "string \<Rightarrow> string \<Rightarrow> string \<Rightarrow> jdict option \<Rightarrow> memory \<Rightarrow> memory \<times> nat" where
  "add_query q r coll md m = add q r coll md m"

section \<open>Scores\<close>

definition token_char :: "char \<Rightarrow> bool" where
  "token_char ch = (let n = (of_char ch :: nat) in 97 \<le> n \<and> n \<le> 122 \<or> 65 \<le> n \<and> n \<le> 90 \<or> 48 \<le> n \<and> n \<le> 57 \<or> n = 95)"

fun tokens :: "string \<Rightarrow> string \<Rightarrow> string list" where
  "tokens acc [] = (if acc = [] then [] else [rev acc])"
| "tokens acc (ch # cs) =
     (if token_char ch then tokens (ch # acc) cs
      else if acc = [] then tokens [] cs else rev acc # tokens [] cs)"

definition terms :: "string \<Rightarrow> string list" where
  "terms s = tokens [] (map lower_char s)"

definition doc_text :: "memory_row \<Rightarrow> string" where
  "doc_text r = question r @ '' '' @ result r"

definition df :: "memory_row list \<Rightarrow> string list \<Rightarrow> string \<Rightarrow> nat option" where
  "df cands ts = fold (\<lambda>r d. fold (\<lambda>t d. if t \<in> set (terms (doc_text r)) then d(t \<mapsto> (case d t of None \<Rightarrow> 0 | Some n \<Rightarrow> n) + 1) else d) ts d) cands Map.empty"

definition bm25_score :: "(rat \<Rightarrow> rat) \<Rightarrow> string list \<Rightarrow> string list \<Rightarrow> nat \<Rightarrow> (string \<Rightarrow> nat option) \<Rightarrow> rat" where
  "bm25_score lg query doc n_docs d =
     (if doc = [] then 0
      else let k1 = 3 / 2; b = 3 / 4; dl = of_nat (length doc); avgdl = max 1 dl
        in sum_list (map (\<lambda>t. let f = of_nat (count_list doc t) in
             if f = 0 then 0
             else let n = of_nat (case d t of None \<Rightarrow> 1 | Some n \<Rightarrow> n);
                      idf = lg (1 + (of_nat n_docs - n + 1 / 2) / (n + 1 / 2))
               in idf * (f * (k1 + 1)) / (f + k1 * (1 - b + b * dl / avgdl))) (remdups query)))"

definition cosine :: "(rat \<Rightarrow> rat) \<Rightarrow> rat list \<Rightarrow> rat list \<Rightarrow> rat" where
  "cosine rt a b =
     (if a = [] \<or> b = [] \<or> length a \<noteq> length b then 0
      else let dot = sum_list (map (\<lambda>(x, y). x * y) (zip a b));
               na = rt (sum_list (map (\<lambda>x. x * x) a)); nb = rt (sum_list (map (\<lambda>y. y * y) b))
           in if na = 0 \<or> nb = 0 then 0 else dot / (na * nb))"

section \<open>Retrieval\<close>

text \<open>An empty name of a collection means every collection.\<close>

definition chosen_rows :: "string option \<Rightarrow> memory \<Rightarrow> memory_row list" where
  "chosen_rows coll m = rev (sort_key row_id (case coll of Some (x # xs) \<Rightarrow> filter (\<lambda>r. collection r = x # xs) (rows m) | _ \<Rightarrow> rows m))"

definition candidates :: "string option \<Rightarrow> memory \<Rightarrow> memory_row list" where
  "candidates coll m = take 1000 (chosen_rows coll m)"

definition rank_embeddings :: "(rat \<Rightarrow> rat) \<Rightarrow> (string \<Rightarrow> rat list) \<Rightarrow> string \<Rightarrow> memory_row list \<Rightarrow> int \<Rightarrow> memory_row list" where
  "rank_embeddings rt emb q cands n =
     (let qvec = emb q; scored = map (\<lambda>r. (r, cosine rt qvec (emb (doc_text r)))) cands
      in map fst (slice_to n (sort_key (\<lambda>(r, s). - s) scored)))"

definition scores_of :: "(rat \<Rightarrow> rat) \<Rightarrow> string \<Rightarrow> memory_row list \<Rightarrow> (memory_row \<times> rat) list" where
  "scores_of lg q cands =
     map (\<lambda>r. (r, bm25_score lg (terms q) (terms (doc_text r)) (length cands) (df cands (terms q)))) cands"

definition rank_terms :: "(rat \<Rightarrow> rat) \<Rightarrow> string \<Rightarrow> memory_row list \<Rightarrow> int \<Rightarrow> memory_row list" where
  "rank_terms lg q cands n =
     (let best = map fst (filter (\<lambda>(r, s). 0 < s) (slice_to n (sort_key (\<lambda>(r, s). - s) (scores_of lg q cands))))
      in if best = [] then slice_to n cands else best)"

definition query :: "(rat \<Rightarrow> rat) \<Rightarrow> (rat \<Rightarrow> rat) \<Rightarrow> (string \<Rightarrow> rat list) option \<Rightarrow> string list \<Rightarrow> string option \<Rightarrow> int \<Rightarrow> memory \<Rightarrow> memory_row list" where
  "query lg rt emb texts coll n m =
     (let cands = candidates coll m; q = join_with (CHR '' '') texts in
      if cands = [] then []
      else case emb of Some f \<Rightarrow> rank_embeddings rt f q cands n | None \<Rightarrow> rank_terms lg q cands n)"

text \<open>A negative limit is none.\<close>

definition peek :: "string option \<Rightarrow> int \<Rightarrow> memory \<Rightarrow> (nat \<times> string \<times> string \<times> string) list" where
  "peek coll n m = map (\<lambda>r. (row_id r, collection r, question r, result r))
     (if n < 0 then chosen_rows coll m else take (nat n) (chosen_rows coll m))"

definition count_memory :: "string option \<Rightarrow> memory \<Rightarrow> nat" where
  "count_memory coll m = length (chosen_rows coll m)"

definition delete :: "nat option \<Rightarrow> string option \<Rightarrow> memory \<Rightarrow> memory" where
  "delete i coll m =
     (case i of Some i \<Rightarrow> m\<lparr>rows := filter (\<lambda>r. row_id r \<noteq> i) (rows m)\<rparr>
      | None \<Rightarrow> (case coll of Some c \<Rightarrow> m\<lparr>rows := filter (\<lambda>r. collection r \<noteq> c) (rows m)\<rparr> | None \<Rightarrow> m\<lparr>rows := []\<rparr>))"

definition reset :: "memory \<Rightarrow> memory" where
  "reset m = delete None None m"

section \<open>Identifiers\<close>

datatype memory_op = Add_row string string string "jdict option" | Delete_rows "nat option" "string option"

fun memory_step :: "memory \<Rightarrow> memory_op \<Rightarrow> memory" where
  "memory_step m (Add_row q r coll md) = fst (add q r coll md m)"
| "memory_step m (Delete_rows i coll) = delete i coll m"

definition ids_ok :: "memory \<Rightarrow> bool" where
  "ids_ok m = (sorted_wrt (<) (map row_id (rows m)) \<and> (\<forall>r \<in> set (rows m). row_id r \<le> last_id m))"

lemma ids_ok_step: "ids_ok m \<Longrightarrow> ids_ok (memory_step m op) \<and> last_id m \<le> last_id (memory_step m op)"
  by (cases op)
    (auto simp: ids_ok_def add_def delete_def Let_def sorted_wrt_append sorted_wrt_map sorted_wrt_filter less_Suc_eq_le split: option.splits)

lemma ids_ok_run: "ids_ok m \<Longrightarrow> ids_ok (foldl memory_step m ops) \<and> last_id m \<le> last_id (foldl memory_step m ops)"
proof (induction ops arbitrary: m)
  case (Cons op ops)
  then show ?case using ids_ok_step [OF Cons.prems, of op] by (metis foldl_Cons order_trans)
qed simp

lemma ids_ok_new: "ids_ok new_memory"
  by (simp add: ids_ok_def new_memory_def)

lemma chosen_descend: "ids_ok m \<Longrightarrow> sorted_wrt (>) (map row_id (chosen_rows coll m))"
proof -
  assume "ids_ok m"
  then have s: "sorted_wrt (<) (map row_id (filter P (rows m)))" for P by (simp add: ids_ok_def sorted_wrt_map sorted_wrt_filter)
  then have "sorted_wrt (<) (map row_id (rows m))" using s [of "\<lambda>r. True"] by simp
  then have "sort_key row_id (rows m) = rows m" "sort_key row_id (filter P (rows m)) = filter P (rows m)" for P
    using s [of P] by (simp_all add: sort_key_id_if_sorted strict_sorted_imp_sorted)
  then show ?thesis using s \<open>sorted_wrt (<) (map row_id (rows m))\<close>
    by (simp add: chosen_rows_def rev_map [symmetric] sorted_wrt_rev split: option.splits list.splits)
qed

text \<open>
  Identifiers order time: in any history of a new memory the identifier an addition returns is
  greater than that of every row then stored and of every row ever stored before, deleted ones
  included, and listings show each row once, the latest first.
\<close>

theorem identifiers_grow:
  "(let m = foldl memory_step new_memory ops; (m', i) = add q r coll md (foldl memory_step m later) in
    (\<forall>x \<in> set (rows m) \<union> set (rows (foldl memory_step m later)). row_id x < i)
    \<and> sorted_wrt (>) (map fst (peek c (-1) m')))"
proof -
  let ?m = "foldl memory_step new_memory ops" and ?n = "foldl memory_step (foldl memory_step new_memory ops) later"
  have m: "ids_ok ?m" using ids_ok_run [OF ids_ok_new, of ops] by simp
  have n: "ids_ok ?n" "last_id ?m \<le> last_id ?n" using ids_ok_run [OF m, of later] by auto
  have "ids_ok (fst (add q r coll md ?n))" using ids_ok_step [OF n(1), of "Add_row q r coll md"] by simp
  then have "sorted_wrt (>) (map fst (peek c (-1) (fst (add q r coll md ?n))))"
    using chosen_descend [of "fst (add q r coll md ?n)" c] by (simp add: peek_def comp_def)
  then show ?thesis using m n by (fastforce simp: ids_ok_def add_def Let_def)
qed

theorem identifiers_grow_witness:
  "(\<forall>x \<in> set (rows (foldl memory_step new_memory [Add_row ''a'' ''b'' ''c'' None])). row_id x < 2)"
  using identifiers_grow [of "[Add_row ''a'' ''b'' ''c'' None]" "''q''" "''r''" "''c''" None "[Delete_rows (Some 1) None]" None]
  by (simp add: add_def new_memory_def delete_def Let_def)

section \<open>Ranking\<close>

lemma filter_take_sorted:
  "sorted (map f xs) \<Longrightarrow> (\<And>x y. f x \<le> f y \<Longrightarrow> P y \<Longrightarrow> P x) \<Longrightarrow> filter P (take n xs) = take n (filter P xs)"
proof (induction xs arbitrary: n)
  case (Cons x xs)
  show ?case
  proof (cases "P x")
    case True
    then show ?thesis using Cons by (cases n) auto
  next
    case False
    have "\<forall>y \<in> set (x # xs). \<not> P y" using False Cons.prems by auto
    then have "filter P (x # xs) = []" "filter P (take n (x # xs)) = []"
      using in_set_takeD by (fastforce simp: filter_empty_conv)+
    then show ?thesis by simp
  qed
qed simp

text \<open>
  Ranking by words returns the \<open>n\<close> candidates of highest positive score, best first, and on equal
  scores the latest first; when no candidate has a positive score it returns the latest \<open>n\<close>
  candidates instead.
\<close>

theorem words_rank:
  "rank_terms lg q cands (int n) =
    (if filter (\<lambda>(r, s). 0 < s) (scores_of lg q cands) = [] then take n cands
     else map fst (take n (sort_key (\<lambda>(r, s). - s) (filter (\<lambda>(r, s). 0 < s) (scores_of lg q cands)))))"
proof -
  let ?pos = "filter (\<lambda>(r, s). 0 < s) (scores_of lg q cands)"
  have "filter (\<lambda>(r, s). 0 < s) (take n (sort_key (\<lambda>(r, s). - s) (scores_of lg q cands))) = take n (filter (\<lambda>(r, s). 0 < s) (sort_key (\<lambda>(r, s). - s) (scores_of lg q cands)))"
    by (rule filter_take_sorted [of "\<lambda>(r, s). - s"]) (auto simp: sorted_sort_key)
  then have b: "filter (\<lambda>(r, s). 0 < s) (slice_to (int n) (sort_key (\<lambda>(r, s). - s) (scores_of lg q cands))) = take n (sort_key (\<lambda>(r, s). - s) ?pos)"
    by (simp add: slice_to_def filter_sort)
  have e: "sort_key (\<lambda>(r, s). - s) ?pos = [] \<longleftrightarrow> ?pos = []"
    by (metis length_0_conv length_sort)
  show ?thesis unfolding rank_terms_def Let_def b by (auto simp: e slice_to_def)
qed

text \<open>
  The length of a document has no effect on its score: the average length it is compared with is its own. Repeating a word
  of the query makes the word count as more frequent than there are documents, so its weight falls below zero
  and the documents that hold it are not found.
\<close>

lemma length_has_no_effect:
  "d1 \<noteq> [] \<Longrightarrow> d2 \<noteq> [] \<Longrightarrow> (\<forall>t \<in> set q. count_list d1 t = count_list d2 t) \<Longrightarrow> bm25_score lg q d1 n d = bm25_score lg q d2 n d"
proof -
  assume d: "d1 \<noteq> []" "d2 \<noteq> []" and c: "\<forall>t \<in> set q. count_list d1 t = count_list d2 t"
  have one: "(of_nat (length x) :: rat) / max 1 (of_nat (length x)) = 1" if "x \<noteq> []" for x :: "string list"
    using that by (cases x) (auto simp: max_def)
  show ?thesis unfolding bm25_score_def Let_def
    by (simp only: d if_False times_divide_eq_right [symmetric] one [OF d(1)] one [OF d(2)])
      (rule arg_cong [of _ _ sum_list], use c in \<open>auto\<close>)
qed

definition sample_memory :: memory where
  "sample_memory = foldl memory_step new_memory [Add_row ''cat'' '''' ''c'' None, Add_row ''dog'' '''' ''c'' None]"

lemma sample_tokens: "terms ''cat'' = [''cat'']" "terms ''cat '' = [''cat'']" "terms ''dog '' = [''dog'']" "terms ''cat cat cat'' = [''cat'', ''cat'', ''cat'']"
  by code_simp+

lemma sample_rows: "candidates None sample_memory =
    [\<lparr>row_id = 2, collection = ''c'', question = ''dog'', result = '''', meta = []\<rparr>, \<lparr>row_id = 1, collection = ''c'', question = ''cat'', result = '''', meta = []\<rparr>]"
  by (simp add: sample_memory_def candidates_def chosen_rows_def add_def new_memory_def)

lemma one_word_found: "0 < lg 2 \<Longrightarrow> map row_id (query lg rt None [''cat''] None 1 sample_memory) = [1]"
  by (simp add: query_def sample_rows rank_terms_def scores_of_def doc_text_def sample_tokens df_def bm25_score_def Let_def slice_to_def)

lemma repeated_word_lost: "lg (6 / 7) < 0 \<Longrightarrow> map row_id (query lg rt None [''cat cat cat''] None 1 sample_memory) = [2]"
  by (simp add: query_def sample_rows rank_terms_def scores_of_def doc_text_def sample_tokens df_def bm25_score_def Let_def slice_to_def mult_less_0_iff)

end
