(* ===== verification/GraphPages.thy ===== *)
theory GraphPages
  imports KeyedStores
begin

text \<open>
  Nodes of a code graph as Markdown pages (\<^verbatim>\<open>obase/graph_storage.py\<close>): the metadata of a node in the first
  line of its page, file names for identifiers with the older names beside them, saving, loading and
  deleting. The digest and the encoding of a document as text are arguments; a directory is the dictionary of its files.
\<close>

section \<open>Nodes\<close>

record relation =
  target :: string
  kind :: string

record node =
  node_id :: string
  file_path :: string
  content_hash :: string
  summary :: string
  crux :: string
  relations :: "relation list"
  custom_notes :: json

datatype graph_error = Bad_id | Bad_metadata | Missing_metadata | Id_mismatch

definition valid_relation :: "relation \<Rightarrow> bool" where
  "valid_relation r = (\<not> blank (target r) \<and> \<not> blank (kind r))"

definition valid_node :: "node \<Rightarrow> bool" where
  "valid_node n = (\<not> blank (node_id n) \<and> (\<forall>r \<in> set (relations n). valid_relation r))"

definition relation_to_dict :: "relation \<Rightarrow> jdict" where
  "relation_to_dict r = [(''target'', JStr (target r)), (''type'', JStr (kind r))]"

definition node_to_dict :: "node \<Rightarrow> jdict" where
  "node_to_dict n = [(''node_id'', JStr (node_id n)), (''file_path'', JStr (file_path n)), (''content_hash'', JStr (content_hash n)),
     (''summary'', JStr (summary n)), (''crux'', JStr (crux n)), (''relations'', JList (map (\<lambda>r. JDict (relation_to_dict r)) (relations n))),
     (''custom_notes'', custom_notes n)]"

text \<open>Reading: an unknown or missing field of a relation, an empty text or a value of another type is an error.\<close>

definition relation_of :: "json \<Rightarrow> decode_error + relation" where
  "relation_of j = bindE (as_dict j) (\<lambda>d.
     if \<not> set (map fst d) \<subseteq> {''target'', ''type''} then Inl (Ill_typed j)
     else bindE (need ''target'' as_str d) (\<lambda>t. bindE (opt ''type'' ''depends_on'' as_str d) (\<lambda>k.
       if valid_relation \<lparr>target = t, kind = k\<rparr> then Inr \<lparr>target = t, kind = k\<rparr> else Inl (Value_error ''relation''))))"

definition node_of :: "jdict \<Rightarrow> decode_error + node" where
  "node_of d = bindE (opt ''relations'' [] as_list d) (\<lambda>rs. bindE (mapE relation_of rs) (\<lambda>rs.
     bindE (need ''node_id'' as_str d) (\<lambda>i. bindE (opt ''file_path'' '''' as_str d) (\<lambda>fp. bindE (opt ''content_hash'' '''' as_str d) (\<lambda>h.
     bindE (opt ''summary'' '''' as_str d) (\<lambda>s. bindE (opt ''crux'' '''' as_str d) (\<lambda>c.
       if blank i then Inl (Value_error ''node_id'')
       else Inr \<lparr>node_id = i, file_path = fp, content_hash = h, summary = s, crux = c, relations = rs,
              custom_notes = get_json ''custom_notes'' (JStr '''') d\<rparr>)))))))"

section \<open>File names\<close>

record graph_env =
  sha :: "string \<Rightarrow> string"
  enc :: "json \<Rightarrow> string"
  dec :: "string \<Rightarrow> json option"

definition ascii_alnum :: "char \<Rightarrow> bool" where
  "ascii_alnum ch = (let n = (of_char ch :: nat) in 48 \<le> n \<and> n \<le> 57 \<or> 65 \<le> n \<and> n \<le> 90 \<or> 97 \<le> n \<and> n \<le> 122)"

definition simple_id :: "string \<Rightarrow> bool" where
  "simple_id i = (case i of [] \<Rightarrow> False
     | ch # cs \<Rightarrow> ascii_alnum ch \<and> length cs \<le> 63 \<and> (\<forall>x \<in> set cs. ascii_alnum x \<or> x = CHR ''_'' \<or> x = CHR ''-''))"

fun squeeze :: "bool \<Rightarrow> string \<Rightarrow> string" where
  "squeeze bad [] = []"
| "squeeze bad (ch # cs) =
     (if ascii_alnum ch \<or> ch = CHR ''.'' \<or> ch = CHR ''_'' \<or> ch = CHR ''-'' then ch # squeeze False cs
      else if bad then squeeze True cs else CHR ''_'' # squeeze True cs)"

definition strip_marks :: "string \<Rightarrow> string" where
  "strip_marks s = (let mark = (\<lambda>ch. ch \<in> {CHR ''.'', CHR ''_'', CHR ''-''}) in rev (dropWhile mark (rev (dropWhile mark s))))"

definition readable :: "string \<Rightarrow> string" where
  "readable i = (let r = take 64 (strip_marks (squeeze False i)) in if r = '''' then ''node'' else r)"

definition legacy_name :: "graph_env \<Rightarrow> string \<Rightarrow> string" where
  "legacy_name env i = readable i @ ''-'' @ take 12 (sha env i) @ ''.md''"

definition filename :: "graph_env \<Rightarrow> string \<Rightarrow> string" where
  "filename env i = (if simple_id i then i @ ''.md'' else legacy_name env i)"

section \<open>Pages\<close>

definition MARKER :: string where "MARKER = ''<!-- obase-graph-node:v1:''"
definition MARKER_END :: string where "MARKER_END = '' -->''"

definition nl :: string where "nl = [CHR 0x0A]"

definition encode_node :: "graph_env \<Rightarrow> node \<Rightarrow> string" where
  "encode_node env n = enc env (sort_keys (JDict (node_to_dict n)))"

definition relation_line :: "relation \<Rightarrow> string" where
  "relation_line r = ''- [['' @ target r @ '']] ('' @ kind r @ '')'' @ nl"

definition page_text :: "graph_env \<Rightarrow> node \<Rightarrow> string" where
  "page_text env n = MARKER @ encode_node env n @ MARKER_END @ nl @ nl @ ''# '' @ node_id n @ nl @ nl @ summary n @ nl @ nl
     @ ''## Crux'' @ nl @ nl @ crux n @ nl @ nl @ ''- File: '' @ file_path n @ nl @ ''- Content hash: '' @ content_hash n @ nl @ nl
     @ ''## Relations'' @ nl @ nl @ concat (map relation_line (relations n))"

text \<open>Reading translates line ends, so a line ends at either character.\<close>

definition first_line :: "string \<Rightarrow> string" where
  "first_line s = takeWhile (\<lambda>ch. ch \<noteq> CHR 0x0A \<and> ch \<noteq> CHR 0x0D) s"

definition decode_line :: "graph_env \<Rightarrow> string \<Rightarrow> graph_error + node option" where
  "decode_line env s =
     (if \<not> has_prefix s MARKER \<or> \<not> has_suffix s MARKER_END then Inr None
      else (case dec env (take (length s - length MARKER - length MARKER_END) (drop (length MARKER) s)) of
          Some (JDict d) \<Rightarrow> (case node_of d of Inl e \<Rightarrow> Inl Bad_metadata | Inr n \<Rightarrow> Inr (Some n))
        | _ \<Rightarrow> Inl Bad_metadata))"

type_synonym pages = "(string, string) dict"

definition save_node :: "graph_env \<Rightarrow> node \<Rightarrow> pages \<Rightarrow> pages \<times> string" where
  "save_node env n ps = (dict_set (filename env (node_id n)) (page_text env n) ps, filename env (node_id n))"

definition load_page :: "graph_env \<Rightarrow> string \<Rightarrow> (string, node) dict \<Rightarrow> graph_error + (string, node) dict" where
  "load_page env txt d = bindE (decode_line env (first_line txt)) (\<lambda>r. Inr (case r of None \<Rightarrow> d | Some n \<Rightarrow> dict_set (node_id n) n d))"

fun load_pages :: "graph_env \<Rightarrow> string list \<Rightarrow> (string, node) dict \<Rightarrow> graph_error + (string, node) dict" where
  "load_pages env [] d = Inr d"
| "load_pages env (t # ts) d = bindE (load_page env t d) (load_pages env ts)"

definition load_all :: "graph_env \<Rightarrow> pages \<Rightarrow> graph_error + node list" where
  "load_all env ps = bindE (load_pages env (map snd (sort_key fst (filter (\<lambda>(f, t). has_suffix f ''.md'') ps))) [])
     (\<lambda>d. Inr (sort_key node_id (map snd d)))"

definition get_node :: "graph_env \<Rightarrow> string \<Rightarrow> pages \<Rightarrow> graph_error + node option" where
  "get_node env i ps =
     (if blank i then Inl Bad_id
      else let canonical = filename env i; legacy = legacy_name env i in
        case dict_get ps canonical of
          Some t \<Rightarrow> bindE (decode_line env (first_line t)) (\<lambda>r. case r of
              None \<Rightarrow> Inl Missing_metadata
            | Some n \<Rightarrow> if node_id n = i then Inr (Some n) else Inl Id_mismatch)
        | None \<Rightarrow>
            if canonical = legacy then Inr None
            else (case dict_get ps legacy of
                None \<Rightarrow> Inr None
              | Some t \<Rightarrow> bindE (decode_line env (first_line t)) (\<lambda>r. case r of
                    None \<Rightarrow> Inr None
                  | Some n \<Rightarrow> Inr (if node_id n = i then Some n else None))))"

definition delete_page :: "graph_env \<Rightarrow> string \<Rightarrow> string \<Rightarrow> pages \<Rightarrow> bool \<Rightarrow> pages \<times> (graph_error + bool)" where
  "delete_page env i name ps removed =
     (case dict_get ps name of None \<Rightarrow> (ps, Inr removed)
      | Some t \<Rightarrow> (case decode_line env (first_line t) of
            Inl e \<Rightarrow> (ps, Inl e)
          | Inr None \<Rightarrow> (ps, Inr removed)
          | Inr (Some n) \<Rightarrow> if node_id n = i then (dict_pop name ps, Inr True) else (ps, Inr removed)))"

text \<open>An error at the older page comes after the current one is gone.\<close>

definition delete_node :: "graph_env \<Rightarrow> string \<Rightarrow> pages \<Rightarrow> pages \<times> (graph_error + bool)" where
  "delete_node env i ps =
     (if blank i then (ps, Inl Bad_id)
      else let canonical = filename env i; legacy = legacy_name env i in
        case delete_page env i canonical ps False of
          (ps1, Inl e) \<Rightarrow> (ps1, Inl e)
        | (ps1, Inr b) \<Rightarrow> if canonical = legacy then (ps1, Inr b) else delete_page env i legacy ps1 b)"

definition node_path :: "graph_env \<Rightarrow> string \<Rightarrow> graph_error + string" where
  "node_path env i = (if blank i then Inl Bad_id else Inr (filename env i))"

definition get_hash :: "graph_env \<Rightarrow> string \<Rightarrow> pages \<Rightarrow> graph_error + string option" where
  "get_hash env i ps = bindE (get_node env i ps) (\<lambda>r. Inr (map_option content_hash r))"

definition check_hash :: "graph_env \<Rightarrow> string \<Rightarrow> string \<Rightarrow> pages \<Rightarrow> graph_error + bool" where
  "check_hash env i h ps = bindE (get_hash env i ps) (\<lambda>r. Inr (r = Some h))"

text \<open>Pages without metadata: the first heading and the first line under the heading of the crux.\<close>

fun after_crux :: "string list \<Rightarrow> string" where
  "after_crux [] = ''''"
| "after_crux (l # ls) = (if map lower_char (strip l) \<in> {''## crux'', ''## crux:''}
     then (case List.find (\<lambda>x. strip x \<noteq> '''') ls of None \<Rightarrow> '''' | Some x \<Rightarrow> strip x)
     else after_crux ls)"

definition parse_markdown :: "string \<Rightarrow> string \<Rightarrow> graph_error + node" where
  "parse_markdown i md =
     (if blank i then Inl Bad_id
      else let lines = split_lines [] md;
               s = (case List.find (\<lambda>l. has_prefix l ''# '') lines of None \<Rightarrow> '''' | Some l \<Rightarrow> strip (drop 2 l))
        in Inr \<lparr>node_id = i, file_path = '''', content_hash = '''', summary = s, crux = after_crux lines, relations = [], custom_notes = JStr ''''\<rparr>)"

section \<open>A page holds its node\<close>

definition graph_law :: "graph_env \<Rightarrow> bool" where
  "graph_law env = (\<forall>j. dec env (enc env j) = Some j \<and> CHR 0x0A \<notin> set (enc env j) \<and> CHR 0x0D \<notin> set (enc env j))"

definition sorted_node :: "node \<Rightarrow> node" where
  "sorted_node n = n\<lparr>custom_notes := sort_keys (custom_notes n)\<rparr>"

lemma relation_round_trip: "valid_relation r \<Longrightarrow> relation_of (sort_keys (JDict (relation_to_dict r))) = Inr r"
proof -
  assume v: "valid_relation r"
  have "sort_keys (JDict (relation_to_dict r)) = JDict (relation_to_dict r)"
    by (simp add: relation_to_dict_def)
  then show ?thesis using v by (simp add: relation_of_def relation_to_dict_def need_def opt_def valid_relation_def)
qed

lemma node_round_trip:
  assumes "valid_node n"
  shows "node_of (sorted_entries (node_to_dict n)) = Inr (sorted_node n)"
proof -
  have dst: "distinct (map fst (node_to_dict n))" by (simp add: node_to_dict_def)
  have rs: "mapE relation_of (map (\<lambda>r. sort_keys (JDict (relation_to_dict r))) (relations n)) = Inr (relations n)"
    using assms by (intro mapE_map_id) (auto simp: valid_node_def relation_round_trip simp del: sort_keys.simps)
  note get = get_sorted [OF dst]
  show ?thesis using assms rs unfolding node_of_def need_def opt_def get_json_def get
    by (simp add: node_to_dict_def valid_node_def sorted_node_def comp_def del: sort_keys.simps(2))
qed

lemma first_line_page:
  assumes "graph_law env"
  shows "first_line (page_text env n) = MARKER @ encode_node env n @ MARKER_END"
proof -
  let ?s = "MARKER @ encode_node env n @ MARKER_END"
  have e: "CHR 0x0A \<notin> set (encode_node env n)" "CHR 0x0D \<notin> set (encode_node env n)"
    using assms by (simp_all add: encode_node_def graph_law_def)
  have all: "x \<in> set ?s \<Longrightarrow> x \<noteq> CHR 0x0A \<and> x \<noteq> CHR 0x0D" for x
    using e by (auto simp: MARKER_def MARKER_END_def)
  obtain rest where p: "page_text env n = ?s @ CHR 0x0A # rest" unfolding page_text_def nl_def by simp
  show ?thesis unfolding first_line_def p by (subst takeWhile_append2) (use all in auto)
qed

lemma page_round_trip_raw:
  assumes "graph_law env" and "valid_node n"
  shows "decode_line env (first_line (page_text env n)) = Inr (Some (sorted_node n))"
proof -
  let ?s = "MARKER @ encode_node env n @ MARKER_END"
  have "has_prefix ?s MARKER" "has_suffix ?s MARKER_END" by (simp_all add: has_prefix_def has_suffix_def)
  moreover have "take (length ?s - length MARKER - length MARKER_END) (drop (length MARKER) ?s) = encode_node env n" by simp
  moreover have "dec env (encode_node env n) = Some (JDict (sorted_entries (node_to_dict n)))"
    using assms(1) by (simp add: encode_node_def graph_law_def sort_keys_JDict del: sort_keys.simps)
  ultimately show ?thesis
    unfolding first_line_page [OF assms(1)] decode_line_def by (simp only: node_round_trip [OF assms(2)] if_False not_True_eq_False de_Morgan_disj simp_thms option.case json.case sum.case)
qed

text \<open>
  Whatever texts a valid node holds, line ends, comment ends and marks of Markdown included, the
  first line of its page reads back as the node, up to the order of keys in its notes.
\<close>

theorem page_round_trip:
  assumes "graph_law env" and "valid_node n"
  shows "decode_line env (first_line (page_text env n)) = Inr (Some (sorted_node n))"
  by (rule page_round_trip_raw [OF assms])

definition unary_env :: graph_env where
  "unary_env = \<lparr>sha = (\<lambda>s. ''0123456789abcdef''), enc = (\<lambda>j. replicate (to_nat j) (CHR ''1'')), dec = (\<lambda>s. Some (from_nat (length s)))\<rparr>"

lemma unary_law: "graph_law unary_env"
  by (simp add: graph_law_def unary_env_def)

definition sample_node :: "string \<Rightarrow> string \<Rightarrow> node" where
  "sample_node i s = \<lparr>node_id = i, file_path = '''', content_hash = '''', summary = s, crux = '' -->'' @ nl, relations = [], custom_notes = JStr ''''\<rparr>"

theorem page_round_trip_witness:
  "decode_line unary_env (first_line (page_text unary_env (sample_node ''a'' (nl @ ''# b'')))) = Inr (Some (sample_node ''a'' (nl @ ''# b'')))"
  using page_round_trip [OF unary_law, of "sample_node ''a'' (nl @ ''# b'')"]
  by (simp add: valid_node_def sample_node_def sorted_node_def blank_def white_space_def)

section \<open>A directory holds a graph\<close>

text \<open>Identifiers whose current and older file names do not meet.\<close>

definition names_apart :: "graph_env \<Rightarrow> string set \<Rightarrow> bool" where
  "names_apart env A = (\<forall>i \<in> A. \<not> blank i \<and> (\<forall>j \<in> A. i \<noteq> j \<longrightarrow> filename env i \<noteq> filename env j \<and> filename env j \<noteq> legacy_name env i))"

datatype graph_op = Save node | Drop string

fun graph_step :: "graph_env \<Rightarrow> pages \<Rightarrow> graph_op \<Rightarrow> pages" where
  "graph_step env ps (Save n) = fst (save_node env n ps)"
| "graph_step env ps (Drop i) = fst (delete_node env i ps)"

fun node_step :: "(string \<rightharpoonup> node) \<Rightarrow> graph_op \<Rightarrow> (string \<rightharpoonup> node)" where
  "node_step m (Save n) = m(node_id n \<mapsto> n)"
| "node_step m (Drop i) = m(i := None)"

fun op_among :: "string set \<Rightarrow> graph_op \<Rightarrow> bool" where
  "op_among A (Save n) = (valid_node n \<and> node_id n \<in> A)"
| "op_among A (Drop i) = (i \<in> A)"

definition pages_hold :: "graph_env \<Rightarrow> string set \<Rightarrow> pages \<Rightarrow> (string \<rightharpoonup> node) \<Rightarrow> bool" where
  "pages_hold env A ps m = (keys_once ps \<and> dom m \<subseteq> A \<and> (\<forall>i n. m i = Some n \<longrightarrow> node_id n = i \<and> valid_node n)
     \<and> (\<forall>f t. dict_get ps f = Some t \<longleftrightarrow> (\<exists>i n. m i = Some n \<and> f = filename env i \<and> t = page_text env n)))"

lemma hold_page:
  assumes "names_apart env A" "pages_hold env A ps m" "i \<in> A"
  shows "dict_get ps (filename env i) = map_option (page_text env) (m i)"
proof (cases "m i")
  case None
  have "dict_get ps (filename env i) = Some t \<Longrightarrow> False" for t
    using assms None unfolding pages_hold_def names_apart_def by (metis domI option.distinct(1) subsetD)
  then show ?thesis using None by (cases "dict_get ps (filename env i)") auto
next
  case (Some n)
  then have "dict_get ps (filename env i) = Some (page_text env n)" using assms(2) unfolding pages_hold_def by blast
  then show ?thesis using Some by simp
qed

lemma hold_legacy:
  assumes "names_apart env A" "pages_hold env A ps m" "i \<in> A" "filename env i \<noteq> legacy_name env i"
  shows "dict_get ps (legacy_name env i) = None"
proof -
  have "dict_get ps (legacy_name env i) = Some t \<Longrightarrow> False" for t
    using assms unfolding pages_hold_def names_apart_def by (metis domI subsetD)
  then show ?thesis by (cases "dict_get ps (legacy_name env i)") auto
qed

lemma hold_node: "pages_hold env A ps m \<Longrightarrow> m i = Some n \<Longrightarrow> node_id n = i \<and> valid_node n"
  by (simp add: pages_hold_def)

lemma sorted_node_id [simp]: "node_id (sorted_node n) = node_id n"
  by (simp add: sorted_node_def)

lemma get_held:
  assumes "graph_law env" "names_apart env A" "pages_hold env A ps m" "i \<in> A"
  shows "get_node env i ps = Inr (map_option sorted_node (m i))"
proof -
  have b: "\<not> blank i" using assms(2,4) by (simp add: names_apart_def)
  show ?thesis
  proof (cases "m i")
    case None
    then show ?thesis using b hold_page [OF assms(2,3,4)] hold_legacy [OF assms(2,3,4)] by (simp add: get_node_def Let_def)
  next
    case (Some n)
    have "decode_line env (first_line (page_text env n)) = Inr (Some (sorted_node n))"
      using page_round_trip_raw [OF assms(1)] hold_node [OF assms(3) Some] by simp
    then show ?thesis using b Some hold_page [OF assms(2,3,4)] hold_node [OF assms(3) Some] by (simp add: get_node_def Let_def)
  qed
qed

lemma delete_held:
  assumes "graph_law env" "names_apart env A" "pages_hold env A ps m" "i \<in> A"
  shows "delete_node env i ps = (if m i = None then ps else dict_pop (filename env i) ps, Inr (m i \<noteq> None))"
proof -
  have b: "\<not> blank i" using assms(2,4) by (simp add: names_apart_def)
  show ?thesis
  proof (cases "m i")
    case None
    then show ?thesis using b hold_page [OF assms(2,3,4)] hold_legacy [OF assms(2,3,4)] by (simp add: delete_node_def delete_page_def Let_def)
  next
    case (Some n)
    have "decode_line env (first_line (page_text env n)) = Inr (Some (sorted_node n))"
      using page_round_trip_raw [OF assms(1)] hold_node [OF assms(3) Some] by simp
    then have c: "delete_page env i (filename env i) ps False = (dict_pop (filename env i) ps, Inr True)"
      using Some hold_page [OF assms(2,3,4)] hold_node [OF assms(3) Some] by (simp add: delete_page_def)
    have "filename env i \<noteq> legacy_name env i \<Longrightarrow> dict_get (dict_pop (filename env i) ps) (legacy_name env i) = None"
      using hold_legacy [OF assms(2,3,4)] by (simp add: look_pop)
    then show ?thesis using b Some c by (simp add: delete_node_def delete_page_def Let_def)
  qed
qed

lemma hold_step:
  assumes "graph_law env" "names_apart env A" "pages_hold env A ps m" "op_among A op"
  shows "pages_hold env A (graph_step env ps op) (node_step m op)"
proof (cases op)
  case (Save n)
  have apart: "i \<in> A \<Longrightarrow> i \<noteq> node_id n \<Longrightarrow> filename env i \<noteq> filename env (node_id n)" for i
    using assms(2,4) Save by (auto simp: names_apart_def)
  have dom: "m i = Some k \<Longrightarrow> i \<in> A" for i k using assms(3) by (auto simp: pages_hold_def)
  have "dict_get (graph_step env ps op) f = Some t \<longleftrightarrow> (\<exists>i k. node_step m op i = Some k \<and> f = filename env i \<and> t = page_text env k)" for f t
  proof (cases "f = filename env (node_id n)")
    case True
    have "m j = Some k \<Longrightarrow> j \<noteq> node_id n \<Longrightarrow> filename env (node_id n) \<noteq> filename env j" for j k using apart dom by metis
    then show ?thesis unfolding True using Save by (auto simp: save_node_def look_set split: if_splits)
  next
    case False
    then show ?thesis using assms(3) Save unfolding pages_hold_def by (simp add: save_node_def look_set) metis
  qed
  then show ?thesis using assms(3,4) Save unfolding pages_hold_def by (auto simp: save_node_def)
next
  case (Drop i)
  have d: "graph_step env ps op = (if m i = None then ps else dict_pop (filename env i) ps)" "i \<in> A"
    using delete_held [OF assms(1-3), of i] assms(4) Drop by simp_all
  show ?thesis
  proof (cases "m i")
    case None
    then have "node_step m op = m" using Drop by auto
    then show ?thesis using d None assms(3) by simp
  next
    case (Some n)
    have apart: "j \<in> A \<Longrightarrow> j \<noteq> i \<Longrightarrow> filename env j \<noteq> filename env i" for j
      using assms(2) d(2) by (auto simp: names_apart_def)
    have dom: "m j = Some k \<Longrightarrow> j \<in> A" for j k using assms(3) by (auto simp: pages_hold_def)
    have "dict_get (graph_step env ps op) f = Some t \<longleftrightarrow> (\<exists>j k. node_step m op j = Some k \<and> f = filename env j \<and> t = page_text env k)" for f t
    proof (cases "f = filename env i")
      case True
      have "m j = Some k \<Longrightarrow> j \<noteq> i \<Longrightarrow> filename env i \<noteq> filename env j" for j k using apart dom by metis
      then show ?thesis unfolding True using d Some Drop by (auto simp: look_pop split: if_splits)
    next
      case False
      have "dict_get ps f = Some t \<longleftrightarrow> (\<exists>j k. m j = Some k \<and> f = filename env j \<and> t = page_text env k)"
        using assms(3) unfolding pages_hold_def by blast
      also have "\<dots> \<longleftrightarrow> (\<exists>j k. node_step m op j = Some k \<and> f = filename env j \<and> t = page_text env k)"
        using False unfolding Drop by auto
      finally show ?thesis using False d Some by (simp add: look_pop)
    qed
    then show ?thesis using assms(3) d Some Drop unfolding pages_hold_def by (auto simp: keys_once_pop)
  qed
qed

lemma hold_run:
  assumes "graph_law env" "names_apart env A"
  shows "pages_hold env A ps m \<Longrightarrow> \<forall>op \<in> set ops. op_among A op \<Longrightarrow> pages_hold env A (foldl (graph_step env) ps ops) (foldl node_step m ops)"
  by (induction ops arbitrary: ps m) (simp_all add: hold_step [OF assms])

lemma hold_nil: "pages_hold env A [] Map.empty"
  by (simp add: pages_hold_def keys_once_def)

text \<open>All pages are read, each node once.\<close>

definition node_in :: "graph_env \<Rightarrow> string \<Rightarrow> node" where
  "node_in env t = (case decode_line env (first_line t) of Inr (Some n) \<Rightarrow> n | _ \<Rightarrow> undefined)"

lemma load_pages_all:
  "\<forall>t \<in> set ts. decode_line env (first_line t) = Inr (Some (f t)) \<Longrightarrow> distinct (map fst d @ map (\<lambda>t. node_id (f t)) ts) \<Longrightarrow>
   load_pages env ts d = Inr (d @ map (\<lambda>t. (node_id (f t), f t)) ts)"
proof (induction ts arbitrary: d)
  case (Cons t ts)
  have "dict_set (node_id (f t)) (f t) d = d @ [(node_id (f t), f t)]" using Cons.prems(2) by (intro dict_set_new) auto
  moreover have "load_pages env ts (d @ [(node_id (f t), f t)]) = Inr ((d @ [(node_id (f t), f t)]) @ map (\<lambda>t. (node_id (f t), f t)) ts)"
    using Cons.prems by (intro Cons.IH) auto
  ultimately show ?case using Cons.prems(1) by (simp add: load_page_def)
qed simp

lemma name_suffix: "has_suffix (filename env i) ''.md''"
  by (simp add: filename_def legacy_name_def has_suffix_def)

lemma load_held:
  assumes law: "graph_law env" and apart: "names_apart env A" and h: "pages_hold env A ps m"
  shows "\<exists>xs. load_all env ps = Inr xs \<and> sorted_wrt (<) (map node_id xs) \<and> set xs = sorted_node ` ran m"
proof -
  have keys: "keys_once ps" using h by (simp add: pages_hold_def)
  have page: "\<exists>i n. m i = Some n \<and> node_id n = i \<and> f = filename env i \<and> decode_line env (first_line t) = Inr (Some (sorted_node n))"
    if "(f, t) \<in> set ps" for f t
  proof -
    have "dict_get ps f = Some t" using that keys by (simp add: keys_once_def)
    then obtain i n where n: "m i = Some n" "f = filename env i" "t = page_text env n" using h unfolding pages_hold_def by blast
    then show ?thesis using page_round_trip_raw [OF law, of n] hold_node [OF h n(1)] by blast
  qed
  let ?ps = "sort_key fst ps" and ?f = "node_in env"
  have nodes: "decode_line env (first_line t) = Inr (Some (?f t))" if "(f, t) \<in> set ps" for f t
    using page [OF that] by (auto simp: node_in_def)
  have md: "filter (\<lambda>(f, t). has_suffix f ''.md'') ps = ps"
    using page name_suffix by (intro filter_True) fastforce
  have d: "distinct (map fst ?ps)" using keys by (simp add: keys_once_def distinct_map_sort)
  have inj: "f = f'" if a: "(f, t) \<in> set ps" and b: "(f', t') \<in> set ps" and c: "node_id (?f t) = node_id (?f t')" for f t f' t'
  proof -
    obtain i n where "node_id n = i" "f = filename env i" "?f t = sorted_node n" using page [OF a] by (auto simp: node_in_def)
    moreover obtain j k where "node_id k = j" "f' = filename env j" "?f t' = sorted_node k" using page [OF b] by (auto simp: node_in_def)
    ultimately show ?thesis using c by simp
  qed
  have "distinct (map (\<lambda>p. node_id (?f (snd p))) ?ps)"
  proof -
    have "inj_on (\<lambda>p. node_id (?f (snd p))) (set ?ps)"
    proof (rule inj_onI)
      fix p q assume p: "p \<in> set ?ps" "q \<in> set ?ps" "node_id (?f (snd p)) = node_id (?f (snd q))"
      then have "fst p = fst q" using inj [of "fst p" "snd p" "fst q" "snd q"] by simp
      then show "p = q" using p(1,2) keys by (metis keys_once_def eq_key_imp_eq_value prod.collapse set_sort)
    qed
    then show ?thesis using d by (simp add: distinct_map)
  qed
  then have dst: "distinct (map (\<lambda>t. node_id (?f t)) (map snd ?ps))" by (simp add: comp_def)
  have "load_pages env (map snd ?ps) [] = Inr ([] @ map (\<lambda>t. (node_id (?f t), ?f t)) (map snd ?ps))"
    using dst nodes by (intro load_pages_all) auto
  then have l: "load_all env ps = Inr (sort_key node_id (map ?f (map snd ?ps)))"
    unfolding load_all_def md by (simp add: comp_def)
  let ?xs = "sort_key node_id (map ?f (map snd ?ps))"
  have "distinct (map node_id ?xs)" using dst unfolding distinct_map_sort by (simp add: comp_def)
  then have "sorted_wrt (<) (map node_id ?xs)" by (simp only: strict_sorted_iff sorted_sort_key simp_thms)
  moreover have "set ?xs = sorted_node ` ran m"
  proof (intro set_eqI iffI)
    fix x assume "x \<in> set ?xs"
    then obtain f t where "(f, t) \<in> set ps" "x = ?f t" by auto
    then show "x \<in> sorted_node ` ran m" using page [of f t] by (auto simp: node_in_def ran_def)
  next
    fix x assume "x \<in> sorted_node ` ran m"
    then obtain i n where n: "m i = Some n" "x = sorted_node n" by (auto simp: ran_def)
    then have "dict_get ps (filename env i) = Some (page_text env n)" using h unfolding pages_hold_def by blast
    then have p: "(filename env i, page_text env n) \<in> set ps" by (rule map_of_SomeD)
    have "?f (page_text env n) = x" using page_round_trip_raw [OF law] hold_node [OF h n(1)] n(2) by (simp add: node_in_def)
    then show "x \<in> set ?xs" using p by force
  qed
  ultimately show ?thesis using l by blast
qed

text \<open>
  C37. In a directory that begins empty, after any saves and deletions of nodes whose file names do not
  meet, every identifier reads back as the node last saved under it and not deleted since, deleting it
  reports whether there is one, and loading everything gives exactly these nodes, each once, in the
  order of their identifiers.
\<close>

theorem directory_keeps_graph:
  assumes "graph_law env" and "names_apart env A" and "\<forall>op \<in> set ops. op_among A op" and "i \<in> A"
  shows "get_node env i (foldl (graph_step env) [] ops) = Inr (map_option sorted_node (foldl node_step Map.empty ops i))
    \<and> snd (delete_node env i (foldl (graph_step env) [] ops)) = Inr (foldl node_step Map.empty ops i \<noteq> None)
    \<and> (\<exists>xs. load_all env (foldl (graph_step env) [] ops) = Inr xs \<and> sorted_wrt (<) (map node_id xs)
         \<and> set xs = sorted_node ` ran (foldl node_step Map.empty ops))"
proof -
  have h: "pages_hold env A (foldl (graph_step env) [] ops) (foldl node_step Map.empty ops)"
    by (rule hold_run [OF assms(1,2) hold_nil assms(3)])
  show ?thesis
    using get_held [OF assms(1,2) h assms(4)] delete_held [OF assms(1,2) h assms(4)] load_held [OF assms(1,2) h] by simp
qed

lemma sample_names: "names_apart unary_env {''a'', ''b/c''}"
proof -
  have "simple_id ''a''" "\<not> simple_id ''b/c''" "readable ''a'' = ''a''" "readable ''b/c'' = ''b_c''" "\<not> blank ''a''" "\<not> blank ''b/c''"
    by code_simp+
  then show ?thesis by (auto simp: names_apart_def filename_def legacy_name_def unary_env_def)
qed

lemma sample_valid: "\<not> blank i \<Longrightarrow> valid_node (sample_node i s)"
  by (simp add: valid_node_def sample_node_def)

theorem directory_keeps_graph_witness:
  "get_node unary_env ''b/c'' (foldl (graph_step unary_env) [] [Save (sample_node ''a'' ''s''), Save (sample_node ''b/c'' ''t''), Drop ''a''])
     = Inr (Some (sample_node ''b/c'' ''t''))"
proof -
  have "\<not> blank ''a''" "\<not> blank ''b/c''" by code_simp+
  then have "\<forall>op \<in> set [Save (sample_node ''a'' ''s''), Save (sample_node ''b/c'' ''t''), Drop ''a'']. op_among {''a'', ''b/c''} op"
    by (simp add: sample_valid, simp add: sample_node_def)
  from directory_keeps_graph [OF unary_law sample_names this, of "''b/c''"]
  show ?thesis by (simp add: sample_node_def sorted_node_def)
qed

text \<open>
  Names can meet: the hashed name of one identifier is the plain name of another. And for an identifier that ends in a mark the
  older file is read last, so loading everything gives the older node where reading it alone gives the current one.
\<close>

lemma hashed_name_taken: "sha env ''x/y'' = ''0123456789abcdef'' \<Longrightarrow> filename env ''x/y'' = filename env ''x_y-0123456789ab''"
proof -
  have "simple_id ''x_y-0123456789ab''" "\<not> simple_id ''x/y''" "readable ''x/y'' = ''x_y''" by code_simp+
  then show "sha env ''x/y'' = ''0123456789abcdef'' \<Longrightarrow> ?thesis" by (simp add: filename_def legacy_name_def)
qed

lemma older_node_wins:
  fixes s t :: string
  defines "ps \<equiv> [(legacy_name unary_env ''a-'', page_text unary_env (sample_node ''a-'' s)), (filename unary_env ''a-'', page_text unary_env (sample_node ''a-'' t))]"
  shows "load_all unary_env ps = Inr [sample_node ''a-'' s]" "get_node unary_env ''a-'' ps = Inr (Some (sample_node ''a-'' t))"
proof -
  have n: "filename unary_env ''a-'' = ''a-.md''" "legacy_name unary_env ''a-'' = ''a-0123456789ab.md''"
    "has_suffix ''a-.md'' ''.md''" "has_suffix ''a-0123456789ab.md'' ''.md''" "''a-.md'' < ''a-0123456789ab.md''" "\<not> blank ''a-''"
    by code_simp+
  have r: "decode_line unary_env (first_line (page_text unary_env (sample_node ''a-'' u))) = Inr (Some (sample_node ''a-'' u))" for u
    using page_round_trip_raw [OF unary_law sample_valid, of "''a-''" u] n(6) by (simp add: sample_node_def sorted_node_def)
  have i: "node_id (sample_node ''a-'' u) = ''a-''" for u by (simp add: sample_node_def)
  show "load_all unary_env ps = Inr [sample_node ''a-'' s]" using n(5)
    by (simp add: ps_def load_all_def n(1-4) load_page_def r i)
  show "get_node unary_env ''a-'' ps = Inr (Some (sample_node ''a-'' t))"
    by (simp add: ps_def get_node_def Let_def n(1,2,6) r i)
qed

end
