(* ===== verification/TsWriter.thy ===== *)
theory TsWriter
  imports Json Python_Text
begin

text \<open>
  The writer of time series (\<^verbatim>\<open>obase/ts_writer/writer.py\<close>): the statements for fused scores, time frames and
  regimes with the parameters each is sent with, in one transaction that nothing is heard from when it fails.
  Reading a number from a text, writing a document as text and reading a time are arguments.
\<close>

section \<open>Statements\<close>

definition SQL_DIM :: string where
  "SQL_DIM =
     ''INSERT INTO ts_fusion_dimensions'' @
     '' (time, symbol, dim_name, pack_id, value, weight,'' @
     '' weighted_contribution, layer, side, category, confidence)'' @
     '' VALUES (:time, :symbol, :dim_name, :pack_id, :value, :weight,'' @
     '' :wc, :layer, :side, :category, :confidence)'' @
     '' ON CONFLICT DO NOTHING''"

definition SQL_LAYER :: string where
  "SQL_LAYER =
     ''INSERT INTO ts_fusion_layers'' @
     '' (time, symbol, redline_status, redline_count,'' @
     '' core_long, core_short, core_alignment, core_direction,'' @
     '' adjustments_score, final_score, final_tier,'' @
     '' final_label, confidence_tier)'' @
     '' VALUES (:time, :symbol, :rs, :rc, :cl, :cs, :ca, :cd,'' @
     '' :adj, :fs, :ft, :fl, :ct)'' @
     '' ON CONFLICT DO NOTHING''"

definition SQL_TF :: string where
  "SQL_TF =
     ''INSERT INTO ts_timeframes'' @
     '' (time, symbol, frame, current_price, key_ma_label,'' @
     '' key_ma_value, key_ma_deviation_pct, trend,'' @
     '' indicator_name, indicator_value)'' @
     '' VALUES (:time, :symbol, :frame, :current_price,'' @
     '' :key_ma_label, :key_ma_value, :key_ma_deviation_pct,'' @
     '' :trend, :indicator_name, :indicator_value)'' @
     '' ON CONFLICT DO NOTHING''"

definition SQL_STRATEGIC :: string where
  "SQL_STRATEGIC =
     ''INSERT INTO ts_timeframes_strategic'' @
     '' (time, symbol, state, confidence, triggers_json,'' @
     '' available_sources, unavailable_sources,'' @
     '' candidate_state, confirmed_state,'' @
     '' sustained_days, satisfied_count)'' @
     '' VALUES (:time, :symbol, :state, :confidence,'' @
     '' :triggers_json, :available_sources,'' @
     '' :unavailable_sources, :candidate_state,'' @
     '' :confirmed_state, :sustained_days, :satisfied_count)'' @
     '' ON CONFLICT DO NOTHING''"

definition SQL_TREND :: string where
  "SQL_TREND =
     ''INSERT INTO ts_timeframes_trend'' @
     '' (time, symbol, daily_direction, h4_direction, alignment)'' @
     '' VALUES (:time, :symbol, :daily_direction,'' @
     '' :h4_direction, :alignment)'' @
     '' ON CONFLICT DO NOTHING''"

definition SQL_ENTRY :: string where
  "SQL_ENTRY =
     ''INSERT INTO ts_timeframes_entry'' @
     '' (time, symbol, support, resistance, current_price,'' @
     '' distance_to_support_pct, distance_to_resistance_pct, rating)'' @
     '' VALUES (:time, :symbol, :support, :resistance,'' @
     '' :current_price, :dist_s, :dist_r, :rating)'' @
     '' ON CONFLICT DO NOTHING''"

definition SQL_REGIME :: string where
  "SQL_REGIME =
     ''INSERT INTO ts_regime'' @
     '' (time, symbol, regime, confidence, trend,'' @
     '' trend_confidence, volatility, vol_confidence,'' @
     '' partial_history)'' @
     '' VALUES (:time, :symbol, :regime, :confidence,'' @
     '' :trend, :trend_confidence, :volatility,'' @
     '' :vol_confidence, :partial_history)'' @
     '' ON CONFLICT DO NOTHING''"

text \<open>The parameters a statement names: what follows a colon, up to the first character of another kind.\<close>

definition name_char :: "char \<Rightarrow> bool" where
  "name_char ch = (let n = (of_char ch :: nat) in 48 \<le> n \<and> n \<le> 57 \<or> 97 \<le> n \<and> n \<le> 122 \<or> n = 95)"

fun names_from :: "string option \<Rightarrow> string \<Rightarrow> string list" where
  "names_from None [] = []"
| "names_from (Some acc) [] = [rev acc]"
| "names_from None (ch # cs) = (if ch = CHR '':'' then names_from (Some []) cs else names_from None cs)"
| "names_from (Some acc) (ch # cs) =
     (if name_char ch then names_from (Some (ch # acc)) cs
      else rev acc # (if ch = CHR '':'' then names_from (Some []) cs else names_from None cs))"

definition named :: "string \<Rightarrow> string list" where
  "named sql = names_from None sql"

section \<open>The session\<close>

text \<open>
  Statements run one after the other until one fails; what a transaction wrote is seen only after its commit. The server says of
  each statement, and of the commit, whether it succeeds.
\<close>

type_synonym statement = "string \<times> jdict"

record server =
  runs :: "statement \<Rightarrow> bool"
  commits :: "statement list \<Rightarrow> bool"

fun execute_all :: "server \<Rightarrow> statement list \<Rightarrow> bool" where
  "execute_all sv [] = True"
| "execute_all sv (s # ss) = (runs sv s \<and> execute_all sv ss)"

text \<open>The rows that are seen afterwards; any error on the way is logged and swallowed.\<close>

definition in_session :: "server \<Rightarrow> decode_error + statement list \<Rightarrow> statement list" where
  "in_session sv r = (case r of Inl e \<Rightarrow> []
     | Inr ss \<Rightarrow> if execute_all sv ss \<and> commits sv ss then ss else [])"

section \<open>Fused scores\<close>

fun to_float :: "(string \<Rightarrow> rat option) \<Rightarrow> json \<Rightarrow> decode_error + rat" where
  "to_float pf (JFloat r) = Inr r"
| "to_float pf (JInt i) = Inr (of_int i)"
| "to_float pf (JBool b) = Inr (if b then 1 else 0)"
| "to_float pf (JStr s) = (case pf s of None \<Rightarrow> Inl (Value_error s) | Some r \<Rightarrow> Inr r)"
| "to_float pf j = Inl (Ill_typed j)"

definition float_field :: "(string \<Rightarrow> rat option) \<Rightarrow> string \<Rightarrow> jdict \<Rightarrow> decode_error + json" where
  "float_field pf k d = bindE (to_float pf (py_or (get_json k JNull d) (JInt 0))) (\<lambda>r. Inr (JFloat r))"

definition status_of :: "jdict \<Rightarrow> json" where
  "status_of r = get_json ''status'' JNull r"

definition redline_status :: "jdict list \<Rightarrow> string" where
  "redline_status rs =
     (if filter (\<lambda>r. status_of r = JStr ''breached'') rs \<noteq> [] then ''breached''
      else if list_ex (\<lambda>r. status_of r = JStr ''warning'') rs then ''warning'' else ''pass'')"

definition dim_params :: "(string \<Rightarrow> rat option) \<Rightarrow> json \<Rightarrow> string \<Rightarrow> string \<Rightarrow> jdict \<Rightarrow> decode_error + jdict" where
  "dim_params pf now symbol pack_id d =
     bindE (need ''name'' Inr d) (\<lambda>name. bindE (float_field pf ''value'' d) (\<lambda>v. bindE (float_field pf ''weight'' d) (\<lambda>w.
     bindE (float_field pf ''weighted_contribution'' d) (\<lambda>wc. bindE (float_field pf ''confidence'' d) (\<lambda>c.
       Inr [(''time'', now), (''symbol'', JStr symbol), (''dim_name'', name), (''pack_id'', JStr pack_id), (''value'', v), (''weight'', w), (''wc'', wc),
            (''layer'', get_json ''layer'' JNull d), (''side'', get_json ''side'' JNull d), (''category'', get_json ''category'' JNull d),
            (''confidence'', c)])))))"

definition layer_params :: "json \<Rightarrow> string \<Rightarrow> jdict \<Rightarrow> jdict list \<Rightarrow> jdict \<Rightarrow> jdict \<Rightarrow> jdict" where
  "layer_params now symbol res redlines core adjustments =
     [(''time'', now), (''symbol'', JStr symbol), (''rs'', JStr (redline_status redlines)),
      (''rc'', JInt (int (length (filter (\<lambda>r. status_of r = JStr ''breached'') redlines)))),
      (''cl'', get_json ''long'' JNull core), (''cs'', get_json ''short'' JNull core), (''ca'', get_json ''alignment'' JNull core),
      (''cd'', get_json ''direction'' JNull core), (''adj'', get_json ''total'' JNull adjustments),
      (''fs'', get_json ''finalScore'' JNull res), (''ft'', get_json ''finalTier'' JNull res), (''fl'', get_json ''finalLabel'' JNull res),
      (''ct'', get_json ''confidenceTier'' JNull res)]"

definition dicts :: "json \<Rightarrow> decode_error + jdict list" where
  "dicts j = bindE (as_list j) (mapE as_dict)"

definition fusion_statements :: "(string \<Rightarrow> rat option) \<Rightarrow> json \<Rightarrow> string \<Rightarrow> string \<Rightarrow> jdict \<Rightarrow> decode_error + statement list" where
  "fusion_statements pf now symbol pack_id res =
     bindE (dicts (get_json ''redlines'' (JList []) res)) (\<lambda>redlines.
     bindE (bindE (dicts (get_json ''dimensions'' (JList []) res)) (mapE (dim_params pf now symbol pack_id))) (\<lambda>dims.
     bindE (as_dict (get_json ''core'' (JDict []) res)) (\<lambda>core. bindE (as_dict (get_json ''adjustments'' (JDict []) res)) (\<lambda>adjustments.
       Inr (map (\<lambda>p. (SQL_DIM, p)) dims @ [(SQL_LAYER, layer_params now symbol res redlines core adjustments)])))))"

definition write_fusion_ts :: "server \<Rightarrow> (string \<Rightarrow> rat option) \<Rightarrow> json \<Rightarrow> string \<Rightarrow> string \<Rightarrow> jdict \<Rightarrow> statement list" where
  "write_fusion_ts sv pf now symbol pack_id res = in_session sv (fusion_statements pf now symbol pack_id res)"

section \<open>Time frames\<close>

definition frame_params :: "json \<Rightarrow> string \<Rightarrow> string \<times> json \<Rightarrow> decode_error + jdict" where
  "frame_params now symbol = (\<lambda>(frame, fd). bindE (as_dict fd) (\<lambda>fd.
     bindE (as_dict (py_or (get_json ''key_ma'' JNull fd) (JDict []))) (\<lambda>key_ma. bindE (as_dict (py_or (get_json ''indicator'' JNull fd) (JDict []))) (\<lambda>ind.
       Inr [(''time'', now), (''symbol'', JStr symbol), (''frame'', JStr frame), (''current_price'', get_json ''current_price'' JNull fd),
            (''key_ma_label'', get_json ''label'' JNull key_ma), (''key_ma_value'', get_json ''value'' JNull key_ma),
            (''key_ma_deviation_pct'', get_json ''deviation_pct'' JNull key_ma), (''trend'', get_json ''trend'' JNull fd),
            (''indicator_name'', get_json ''name'' JNull ind), (''indicator_value'', get_json ''value'' JNull ind)]))))"

definition strategic_params :: "(json \<Rightarrow> string) \<Rightarrow> json \<Rightarrow> string \<Rightarrow> jdict \<Rightarrow> jdict" where
  "strategic_params text now symbol st =
     [(''time'', now), (''symbol'', JStr symbol), (''state'', get_json ''state'' JNull st), (''confidence'', get_json ''confidence'' JNull st),
      (''triggers_json'', JStr (text (get_json ''triggers'' (JList []) st))), (''available_sources'', get_json ''available_sources'' (JList []) st),
      (''unavailable_sources'', get_json ''unavailable_sources'' (JList []) st), (''candidate_state'', get_json ''candidate_state'' JNull st),
      (''confirmed_state'', get_json ''confirmed_state'' JNull st), (''sustained_days'', get_json ''sustained_days'' (JInt 0) st),
      (''satisfied_count'', get_json ''satisfied_count'' (JInt 0) st)]"

definition trend_params :: "json \<Rightarrow> string \<Rightarrow> jdict \<Rightarrow> jdict" where
  "trend_params now symbol tr =
     [(''time'', now), (''symbol'', JStr symbol), (''daily_direction'', get_json ''daily_direction'' JNull tr),
      (''h4_direction'', get_json ''h4_direction'' JNull tr), (''alignment'', get_json ''alignment'' JNull tr)]"

definition entry_params :: "json \<Rightarrow> string \<Rightarrow> jdict \<Rightarrow> jdict" where
  "entry_params now symbol en =
     [(''time'', now), (''symbol'', JStr symbol), (''support'', get_json ''support'' JNull en), (''resistance'', get_json ''resistance'' JNull en),
      (''current_price'', get_json ''current'' JNull en), (''dist_s'', get_json ''distance_to_support_pct'' JNull en),
      (''dist_r'', get_json ''distance_to_resistance_pct'' JNull en), (''rating'', get_json ''rating'' JNull en)]"

definition part :: "string \<Rightarrow> jdict \<Rightarrow> decode_error + jdict" where
  "part k d = as_dict (get_json k (JDict []) d)"

definition timeframe_statements :: "(json \<Rightarrow> string) \<Rightarrow> json \<Rightarrow> string \<Rightarrow> jdict \<Rightarrow> decode_error + statement list" where
  "timeframe_statements text now symbol res =
     bindE (part ''tf1'' res) (\<lambda>tf1. bindE (part ''tf2'' res) (\<lambda>tf2. bindE (part ''tf3'' res) (\<lambda>tf3.
     bindE (part ''frames'' tf1) (\<lambda>f1. bindE (part ''frames'' tf2) (\<lambda>f2. bindE (part ''frames'' tf3) (\<lambda>f3.
     bindE (mapE (frame_params now symbol) (dict_update (dict_update f1 f2) f3)) (\<lambda>frames.
     bindE (part ''strategic'' tf1) (\<lambda>st. bindE (part ''trend'' tf2) (\<lambda>tr. bindE (part ''entry'' tf3) (\<lambda>en.
       Inr (map (\<lambda>p. (SQL_TF, p)) frames @ [(SQL_STRATEGIC, strategic_params text now symbol st), (SQL_TREND, trend_params now symbol tr),
            (SQL_ENTRY, entry_params now symbol en)])))))))))))"

definition write_timeframes_ts :: "server \<Rightarrow> (json \<Rightarrow> string) \<Rightarrow> json \<Rightarrow> string \<Rightarrow> jdict \<Rightarrow> statement list" where
  "write_timeframes_ts sv text now symbol res = in_session sv (timeframe_statements text now symbol res)"

section \<open>Regimes\<close>

definition regime_params :: "json \<Rightarrow> string \<Rightarrow> jdict \<Rightarrow> jdict \<Rightarrow> jdict" where
  "regime_params now symbol res comps =
     [(''time'', now), (''symbol'', JStr symbol), (''regime'', get_json ''regime'' JNull res), (''confidence'', get_json ''confidence'' JNull res),
      (''trend'', get_json ''trend'' JNull comps), (''trend_confidence'', get_json ''trend_confidence'' JNull comps),
      (''volatility'', get_json ''volatility'' JNull comps), (''vol_confidence'', get_json ''vol_confidence'' JNull comps),
      (''partial_history'', get_json ''partial_history'' (JBool False) res)]"

definition as_of :: "(string \<Rightarrow> json option) \<Rightarrow> json \<Rightarrow> decode_error + json" where
  "as_of parse_time j = (case j of JStr s \<Rightarrow> (case parse_time s of None \<Rightarrow> Inl (Value_error s) | Some t \<Rightarrow> Inr t) | _ \<Rightarrow> Inr j)"

definition regime_statements :: "(string \<Rightarrow> json option) \<Rightarrow> string \<Rightarrow> jdict \<Rightarrow> decode_error + statement list" where
  "regime_statements parse_time symbol res =
     bindE (as_of parse_time (get_json ''as_of'' JNull res)) (\<lambda>now. bindE (as_dict (py_or (get_json ''components'' JNull res) (JDict []))) (\<lambda>comps.
       Inr [(SQL_REGIME, regime_params now symbol res comps)]))"

definition write_regime_ts :: "server \<Rightarrow> (string \<Rightarrow> json option) \<Rightarrow> string \<Rightarrow> jdict \<Rightarrow> statement list" where
  "write_regime_ts sv parse_time symbol res = in_session sv (regime_statements parse_time symbol res)"

section \<open>Parameters are bound\<close>

definition bound :: "statement \<Rightarrow> bool" where
  "bound = (\<lambda>(sql, p). named sql = map fst p)"

lemma named_columns:
  "named SQL_DIM = [''time'', ''symbol'', ''dim_name'', ''pack_id'', ''value'', ''weight'', ''wc'', ''layer'', ''side'', ''category'', ''confidence'']"
  "named SQL_LAYER = [''time'', ''symbol'', ''rs'', ''rc'', ''cl'', ''cs'', ''ca'', ''cd'', ''adj'', ''fs'', ''ft'', ''fl'', ''ct'']"
  "named SQL_TF = [''time'', ''symbol'', ''frame'', ''current_price'', ''key_ma_label'', ''key_ma_value'', ''key_ma_deviation_pct'', ''trend'', ''indicator_name'', ''indicator_value'']"
  "named SQL_STRATEGIC = [''time'', ''symbol'', ''state'', ''confidence'', ''triggers_json'', ''available_sources'', ''unavailable_sources'', ''candidate_state'', ''confirmed_state'', ''sustained_days'', ''satisfied_count'']"
  "named SQL_TREND = [''time'', ''symbol'', ''daily_direction'', ''h4_direction'', ''alignment'']"
  "named SQL_ENTRY = [''time'', ''symbol'', ''support'', ''resistance'', ''current_price'', ''dist_s'', ''dist_r'', ''rating'']"
  "named SQL_REGIME = [''time'', ''symbol'', ''regime'', ''confidence'', ''trend'', ''trend_confidence'', ''volatility'', ''vol_confidence'', ''partial_history'']"
  by code_simp+

lemma dim_bound: "dim_params pf now symbol pack_id d = Inr p \<Longrightarrow> bound (SQL_DIM, p)"
  by (auto simp: bound_def dim_params_def named_columns bindE_Inr)

lemma frame_bound: "frame_params now symbol f = Inr p \<Longrightarrow> bound (SQL_TF, p)"
  by (auto simp: bound_def frame_params_def named_columns bindE_Inr case_prod_beta)

lemma mapE_each: "mapE f xs = Inr ys \<Longrightarrow> (\<And>x y. f x = Inr y \<Longrightarrow> P y) \<Longrightarrow> \<forall>y \<in> set ys. P y"
  by (induction xs arbitrary: ys) (auto simp: bindE_Inr)

lemma fusion_bound: "fusion_statements pf now symbol pack_id res = Inr ss \<Longrightarrow> \<forall>s \<in> set ss. bound s"
proof -
  assume "fusion_statements pf now symbol pack_id res = Inr ss"
  then obtain ds dims rl co ad where d: "mapE (dim_params pf now symbol pack_id) ds = Inr dims"
    and ss: "ss = map (\<lambda>p. (SQL_DIM, p)) dims @ [(SQL_LAYER, layer_params now symbol res rl co ad)]"
    by (auto simp: fusion_statements_def bindE_Inr)
  have "\<forall>p \<in> set dims. bound (SQL_DIM, p)" using d dim_bound by (rule mapE_each)
  moreover have "bound (SQL_LAYER, layer_params now symbol res rl co ad)" by (simp add: bound_def layer_params_def named_columns)
  ultimately show ?thesis by (auto simp: ss)
qed

lemma timeframes_bound: "timeframe_statements text now symbol res = Inr ss \<Longrightarrow> \<forall>s \<in> set ss. bound s"
proof -
  assume "timeframe_statements text now symbol res = Inr ss"
  then obtain fs frames st tr en where d: "mapE (frame_params now symbol) fs = Inr frames"
    and ss: "ss = map (\<lambda>p. (SQL_TF, p)) frames @ [(SQL_STRATEGIC, strategic_params text now symbol st), (SQL_TREND, trend_params now symbol tr),
            (SQL_ENTRY, entry_params now symbol en)]"
    by (auto simp: timeframe_statements_def bindE_Inr)
  have "\<forall>p \<in> set frames. bound (SQL_TF, p)" using d frame_bound by (rule mapE_each)
  moreover have "bound (SQL_STRATEGIC, strategic_params text now symbol st)" "bound (SQL_TREND, trend_params now symbol tr)" "bound (SQL_ENTRY, entry_params now symbol en)"
    by (simp_all add: bound_def strategic_params_def trend_params_def entry_params_def named_columns)
  ultimately show ?thesis by (auto simp: ss)
qed

lemma regime_bound: "regime_statements parse_time symbol res = Inr ss \<Longrightarrow> \<forall>s \<in> set ss. bound s"
  by (auto simp: regime_statements_def bindE_Inr bound_def regime_params_def named_columns)

lemma session_all_or_nothing:
  "in_session sv r = [] \<or> (\<exists>ss. r = Inr ss \<and> in_session sv r = ss \<and> (\<forall>s \<in> set ss. runs sv s) \<and> commits sv ss)"
proof -
  have "execute_all sv ss \<longleftrightarrow> (\<forall>s \<in> set ss. runs sv s)" for ss by (induction ss) auto
  then show ?thesis by (auto simp: in_session_def split: sum.splits)
qed

text \<open>
  Whatever document a writer is given and however the server fails, what it leaves behind is all
  or nothing: either no statement takes effect, or all prepared statements do, each of which ran, and each is sent with
  exactly the parameters its text names, in their order.
\<close>

theorem writers_bind_and_commit:
  assumes "written = write_fusion_ts sv pf now symbol pack_id res \<and> prepared = fusion_statements pf now symbol pack_id res
      \<or> written = write_timeframes_ts sv text now symbol res \<and> prepared = timeframe_statements text now symbol res
      \<or> written = write_regime_ts sv parse_time symbol res \<and> prepared = regime_statements parse_time symbol res"
  shows "written = [] \<or> prepared = Inr written \<and> commits sv written \<and> (\<forall>s \<in> set written. runs sv s \<and> named (fst s) = map fst (snd s))"
proof -
  have w: "written = in_session sv prepared"
    using assms by (auto simp: write_fusion_ts_def write_timeframes_ts_def write_regime_ts_def)
  have b: "prepared = Inr ss \<Longrightarrow> \<forall>s \<in> set ss. bound s" for ss
    using assms fusion_bound timeframes_bound regime_bound by metis
  show ?thesis using session_all_or_nothing [of sv prepared] b unfolding w by (fastforce simp: bound_def case_prod_beta)
qed

theorem writers_bind_and_commit_witness:
  "commits \<lparr>runs = (\<lambda>s. True), commits = (\<lambda>ss. length ss = 1)\<rparr>
     (write_regime_ts \<lparr>runs = (\<lambda>s. True), commits = (\<lambda>ss. length ss = 1)\<rparr> (\<lambda>s. None) ''BTC'' [(''regime'', JStr ''calm'')])"
proof -
  let ?w = "write_regime_ts \<lparr>runs = (\<lambda>s. True), commits = (\<lambda>ss. length ss = 1)\<rparr> (\<lambda>s. None) ''BTC'' [(''regime'', JStr ''calm'')]"
  have "?w \<noteq> []" by (simp add: write_regime_ts_def in_session_def regime_statements_def as_of_def get_json_def py_or_def)
  then show ?thesis
    using writers_bind_and_commit [of ?w "\<lparr>runs = (\<lambda>s. True), commits = (\<lambda>ss. length ss = 1)\<rparr>" "\<lambda>s. None" JNull "''BTC''" "''''"
        "[(''regime'', JStr ''calm'')]" "regime_statements (\<lambda>s. None) ''BTC'' [(''regime'', JStr ''calm'')]" "\<lambda>j. ''''" "\<lambda>s. None"] by blast
qed

text \<open>A status that is not known, or a frame that two parts report, is not noticed: redlines pass, the later frame stands.\<close>

lemma unknown_status_passes: "redline_status [[(''status'', JStr ''BREACHED'')]] = ''pass''"
  by (simp add: redline_status_def status_of_def get_json_def)

end
