(* ===== verification/LlmCallers.thy ===== *)
theory LlmCallers
  imports ProviderRegistry Python_Text
begin

text \<open>
  The callers of language models and their registration (\<^verbatim>\<open>obase/llm.py\<close>): the request each caller sends, the
  reading of the answer, and which caller becomes the default for the keys that are set. Sending a request is an
  argument; so is reading a text as a document.
\<close>

section \<open>Callers\<close>

datatype caller = Claude string string | Claude_vlm string string | Deep_seek string string | Open_ai string string
  | Qwen string string | Gemini string string | Mock_llm | Mock_vlm

record call =
  messages :: "jdict list"
  max_tokens :: int
  tools :: "jdict list option"
  response_format :: "string option"
  system :: "string option"

record request =
  url :: string
  headers :: "(string \<times> string) list"
  body :: jdict

datatype llm_error = Http_failed | Bad_answer decode_error | Bad_message decode_error | Bad_arguments

record reply =
  answer :: json
  input_tokens :: json
  output_tokens :: json
  raw_text :: "string option"

section \<open>Requests\<close>

definition text_or_empty :: "string option \<Rightarrow> string" where
  "text_or_empty s = (case s of None \<Rightarrow> '''' | Some t \<Rightarrow> t)"

text \<open>Messages of the system are taken out; the last one replaces the others and the argument.\<close>

fun claude_messages :: "json \<Rightarrow> jdict list \<Rightarrow> decode_error + json \<times> json list" where
  "claude_messages s [] = Inr (s, [])"
| "claude_messages s (m # ms) =
     bindE (need ''role'' Inr m) (\<lambda>role. bindE (need ''content'' Inr m) (\<lambda>ct.
       if role = JStr ''system'' then claude_messages ct ms
       else bindE (claude_messages s ms) (\<lambda>(s', us). Inr (s', JDict [(''role'', role), (''content'', ct)] # us))))"

definition claude_request :: "string \<Rightarrow> call \<Rightarrow> decode_error + jdict" where
  "claude_request model c = bindE (claude_messages (JStr (text_or_empty (system c))) (messages c)) (\<lambda>(s, us).
     Inr [(''model'', JStr model), (''max_tokens'', JInt (max_tokens c)), (''system'', s), (''messages'', JList us)])"

definition vlm_request :: "string \<Rightarrow> string \<Rightarrow> string \<Rightarrow> jdict" where
  "vlm_request model prompt pic =
     [(''model'', JStr model), (''max_tokens'', JInt 2000), (''messages'', JList [JDict [(''role'', JStr ''user''), (''content'', JList [
        JDict [(''type'', JStr ''image''), (''source'', JDict [(''type'', JStr ''base64''), (''media_type'', JStr ''image/jpeg''), (''data'', JStr pic)])],
        JDict [(''type'', JStr ''text''), (''text'', JStr prompt)]])]])]"

definition api_messages :: "call \<Rightarrow> json list" where
  "api_messages c =
     (if text_or_empty (system c) \<noteq> '''' then [JDict [(''role'', JStr ''system''), (''content'', JStr (text_or_empty (system c)))]] else [])
     @ map JDict (messages c)"

definition bearer :: "string \<Rightarrow> (string \<times> string) list" where
  "bearer key = [(''Authorization'', ''Bearer '' @ key), (''Content-Type'', ''application/json'')]"

definition chat_body :: "string \<Rightarrow> call \<Rightarrow> jdict" where
  "chat_body model c = [(''model'', JStr model), (''messages'', JList (api_messages c)), (''max_tokens'', JInt (max_tokens c))]
     @ (if response_format c = Some ''json'' then [(''response_format'', JDict [(''type'', JStr ''json_object'')])] else [])"

definition deepseek_request :: "string \<Rightarrow> string \<Rightarrow> call \<Rightarrow> request" where
  "deepseek_request key model c = \<lparr>url = ''https://api.deepseek.com/v1/chat/completions'', headers = bearer key, body = chat_body model c\<rparr>"

definition tools_part :: "call \<Rightarrow> jdict" where
  "tools_part c = (case tools c of
     Some (t # ts) \<Rightarrow> [(''tools'', JList (map (\<lambda>t. JDict [(''type'', JStr ''function''), (''function'', JDict t)]) (t # ts)))]
   | _ \<Rightarrow> [])"

definition openai_request :: "string \<Rightarrow> string \<Rightarrow> call \<Rightarrow> request" where
  "openai_request key model c = \<lparr>url = ''https://api.openai.com/v1/chat/completions'', headers = bearer key, body = chat_body model c @ tools_part c\<rparr>"

definition qwen_request :: "string \<Rightarrow> string \<Rightarrow> call \<Rightarrow> request" where
  "qwen_request key model c = \<lparr>url = ''https://dashscope.aliyuncs.com/api/v1/services/aigc/text-generation/generation'', headers = bearer key,
     body = [(''model'', JStr model), (''input'', JDict [(''messages'', JList (api_messages c))]),
       (''parameters'', JDict ([(''max_tokens'', JInt (max_tokens c))]
          @ (if response_format c = Some ''json'' then [(''result_format'', JStr ''message'')] else [])))]\<rparr>"

fun gemini_contents :: "json \<Rightarrow> jdict list \<Rightarrow> decode_error + json \<times> json list" where
  "gemini_contents s [] = Inr (s, [])"
| "gemini_contents s (m # ms) =
     bindE (need ''role'' Inr m) (\<lambda>role. bindE (need ''content'' Inr m) (\<lambda>ct.
       if role = JStr ''system'' then gemini_contents ct ms
       else bindE (gemini_contents s ms) (\<lambda>(s', us).
         Inr (s', JDict [(''role'', JStr (if role = JStr ''user'' then ''user'' else ''model'')), (''parts'', JList [JDict [(''text'', ct)]])] # us))))"

definition gemini_request :: "string \<Rightarrow> string \<Rightarrow> call \<Rightarrow> decode_error + request" where
  "gemini_request key model c = bindE (gemini_contents (JStr (text_or_empty (system c))) (messages c)) (\<lambda>(s, us).
     Inr \<lparr>url = ''https://generativelanguage.googleapis.com/v1beta/models/'' @ model @ '':generateContent?key='' @ key, headers = [],
       body = [(''contents'', JList us), (''generationConfig'', JDict [(''maxOutputTokens'', JInt (max_tokens c))])]
         @ (if truthy s then [(''systemInstruction'', JDict [(''parts'', JList [JDict [(''text'', s)]])])] else [])\<rparr>)"

section \<open>Answers\<close>

definition key_of :: "string \<Rightarrow> json \<Rightarrow> decode_error + json" where
  "key_of k j = bindE (as_dict j) (need k Inr)"

definition first_of :: "json \<Rightarrow> decode_error + json" where
  "first_of j = bindE (as_list j) (\<lambda>xs. case xs of [] \<Rightarrow> Inl (Value_error ''index'') | x # _ \<Rightarrow> Inr x)"

definition usage_of :: "string \<Rightarrow> string \<Rightarrow> string \<Rightarrow> json \<Rightarrow> json \<Rightarrow> decode_error + reply" where
  "usage_of field inp out data ct =
     bindE (as_dict data) (\<lambda>d. bindE (as_dict (get_json field (JDict []) d)) (\<lambda>u.
       Inr \<lparr>answer = ct, input_tokens = get_json inp (JInt 0) u, output_tokens = get_json out (JInt 0) u, raw_text = None\<rparr>))"

definition chat_content :: "json \<Rightarrow> decode_error + json" where
  "chat_content data = bindE (key_of ''choices'' data) (\<lambda>x. bindE (first_of x) (\<lambda>x. bindE (key_of ''message'' x) (key_of ''content'')))"

definition deepseek_reply :: "json \<Rightarrow> decode_error + reply" where
  "deepseek_reply data = bindE (chat_content data) (usage_of ''usage'' ''prompt_tokens'' ''completion_tokens'' data)"

definition openai_reply :: "json \<Rightarrow> decode_error + reply" where
  "openai_reply data = bindE (chat_content data) (\<lambda>ct. usage_of ''usage'' ''prompt_tokens'' ''completion_tokens'' data (py_or ct (JStr '''')))"

definition qwen_reply :: "json \<Rightarrow> decode_error + reply" where
  "qwen_reply data = bindE (bindE (key_of ''output'' data) chat_content) (usage_of ''usage'' ''input_tokens'' ''output_tokens'' data)"

definition gemini_reply :: "json \<Rightarrow> decode_error + reply" where
  "gemini_reply data =
     bindE (bindE (key_of ''candidates'' data) (\<lambda>x. bindE (first_of x) (\<lambda>x. bindE (key_of ''content'' x) (\<lambda>x. bindE (key_of ''parts'' x)
       (\<lambda>x. bindE (first_of x) (key_of ''text''))))))
     (usage_of ''usageMetadata'' ''promptTokenCount'' ''candidatesTokenCount'' data)"

text \<open>What the library answers for Claude: a text and two counts.\<close>

definition claude_reply :: "string \<times> int \<times> int \<Rightarrow> reply" where
  "claude_reply = (\<lambda>(t, i, n). \<lparr>answer = JStr t, input_tokens = JInt i, output_tokens = JInt n, raw_text = None\<rparr>)"

text \<open>\<^verbatim>\<open>s.split(sep)\<close> with a text as separator.\<close>

fun split_text :: "string \<Rightarrow> string \<Rightarrow> string \<Rightarrow> string list" where
  "split_text sep acc [] = [rev acc]"
| "split_text sep acc (ch # cs) =
     (if sep \<noteq> '''' \<and> has_prefix (ch # cs) sep then rev acc # split_text sep [] (drop (length sep - 1) cs)
      else split_text sep (ch # acc) cs)"

definition fence :: string where "fence = ''```json''"
definition fence_end :: string where "fence_end = ''```''"

definition parsed_answer :: "(string \<Rightarrow> json option) \<Rightarrow> string \<Rightarrow> string \<Rightarrow> json" where
  "parsed_answer loads fmt raw =
     (if fmt \<noteq> ''json'' then JStr raw
      else let t = (if is_infix fence raw then strip (hd (split_text fence_end [] (split_text fence [] raw ! 1))) else raw)
        in case loads t of None \<Rightarrow> JStr raw | Some j \<Rightarrow> j)"

section \<open>Calling\<close>

record services =
  http :: "request \<Rightarrow> json option"
  claude :: "string \<Rightarrow> jdict \<Rightarrow> (string \<times> int \<times> int) option"
  loads :: "string \<Rightarrow> json option"

definition sent :: "services \<Rightarrow> (json \<Rightarrow> decode_error + reply) \<Rightarrow> request \<Rightarrow> llm_error + reply" where
  "sent sv read rq = (case http sv rq of None \<Rightarrow> Inl Http_failed
     | Some data \<Rightarrow> (case read data of Inl e \<Rightarrow> Inl (Bad_answer e) | Inr r \<Rightarrow> Inr r))"

definition asked :: "services \<Rightarrow> string \<Rightarrow> jdict \<Rightarrow> llm_error + string \<times> int \<times> int" where
  "asked sv key rq = (case claude sv key rq of None \<Rightarrow> Inl Http_failed | Some r \<Rightarrow> Inr r)"

definition built :: "decode_error + 'a \<Rightarrow> llm_error + 'a" where
  "built r = (case r of Inl e \<Rightarrow> Inl (Bad_message e) | Inr x \<Rightarrow> Inr x)"

definition mock_reply :: reply where
  "mock_reply = \<lparr>answer = JStr ''Mock Response'', input_tokens = JInt 0, output_tokens = JInt 0, raw_text = None\<rparr>"

definition mock_vlm_reply :: reply where
  "mock_vlm_reply = \<lparr>answer = JDict [(''questions'', JList [])], input_tokens = JInt 0, output_tokens = JInt 0, raw_text = Some ''Mock VLM Response''\<rparr>"

text \<open>A caller for images takes no messages, and the others no image: Python refuses the argument names.\<close>

fun complete :: "services \<Rightarrow> caller \<Rightarrow> call \<Rightarrow> llm_error + reply" where
  "complete sv (Claude key model) c = bindE (built (claude_request model c)) (\<lambda>rq. bindE (asked sv key rq) (\<lambda>r. Inr (claude_reply r)))"
| "complete sv (Deep_seek key model) c = sent sv deepseek_reply (deepseek_request key model c)"
| "complete sv (Open_ai key model) c = sent sv openai_reply (openai_request key model c)"
| "complete sv (Qwen key model) c = sent sv qwen_reply (qwen_request key model c)"
| "complete sv (Gemini key model) c = bindE (built (gemini_request key model c)) (sent sv gemini_reply)"
| "complete sv Mock_llm c = Inr mock_reply"
| "complete sv Mock_vlm c = Inr mock_vlm_reply"
| "complete sv (Claude_vlm key model) c = Inl Bad_arguments"

fun look_at :: "services \<Rightarrow> caller \<Rightarrow> string \<Rightarrow> string \<Rightarrow> string \<Rightarrow> llm_error + reply" where
  "look_at sv (Claude_vlm key model) prompt pic fmt =
     bindE (asked sv key (vlm_request model prompt pic)) (\<lambda>r.
       Inr ((claude_reply r)\<lparr>answer := parsed_answer (loads sv) fmt (fst r), raw_text := Some (fst r)\<rparr>))"
| "look_at sv Mock_llm prompt pic fmt = Inr mock_reply"
| "look_at sv Mock_vlm prompt pic fmt = Inr mock_vlm_reply"
| "look_at sv cl prompt pic fmt = Inl Bad_arguments"

section \<open>Registration\<close>

record settings =
  deepseek_key :: "string option"
  qwen_key :: "string option"
  dashscope_key :: "string option"
  anthropic_key :: "string option"
  openai_key :: "string option"
  gemini_key :: "string option"

definition or_else :: "string option \<Rightarrow> string option \<Rightarrow> string option" where
  "or_else a b = (case a of Some (x # xs) \<Rightarrow> a | _ \<Rightarrow> b)"

definition usable :: "string option \<Rightarrow> string option" where
  "usable k = (case k of None \<Rightarrow> None | Some s \<Rightarrow> if s \<in> {[], ''your_key_here''} then None else Some s)"

text \<open>A refused registration raises; the names registered before it stay.\<close>

type_synonym registering = "caller registry \<times> registry_error option"

definition add_llm :: "string \<Rightarrow> caller \<Rightarrow> registering \<Rightarrow> registering" where
  "add_llm name cl st = (case st of (r, Some e) \<Rightarrow> st
     | (r, None) \<Rightarrow> (case register_llm name cl False r of Inl e \<Rightarrow> (r, Some e) | Inr r' \<Rightarrow> (r', None)))"

definition add_vlm :: "string \<Rightarrow> caller \<Rightarrow> registering \<Rightarrow> registering" where
  "add_vlm name cl st = (case st of (r, Some e) \<Rightarrow> st
     | (r, None) \<Rightarrow> (case register_vlm name cl False r of Inl e \<Rightarrow> (r, Some e) | Inr r' \<Rightarrow> (r', None)))"

text \<open>The first caller registered is also the default; the flag says whether there is one.\<close>

definition add_first :: "(string \<Rightarrow> caller \<Rightarrow> registering \<Rightarrow> registering) \<Rightarrow> caller \<Rightarrow> registering \<times> bool \<Rightarrow> registering \<times> bool" where
  "add_first add cl p = (if snd p then p else (add ''default'' cl (fst p), True))"

definition add_named :: "(string \<Rightarrow> caller \<Rightarrow> registering \<Rightarrow> registering) \<Rightarrow> string \<Rightarrow> caller \<Rightarrow> registering \<times> bool \<Rightarrow> registering \<times> bool" where
  "add_named add name cl p = (add name cl (fst p), snd p)"

definition claude_model :: string where "claude_model = ''claude-3-5-sonnet-20240620''"

definition register_default_providers :: "settings \<Rightarrow> caller registry \<Rightarrow> registering" where
  "register_default_providers s r =
     (let l0 = ((r, None), False);
          l1 = (case usable (deepseek_key s) of None \<Rightarrow> l0
                | Some k \<Rightarrow> add_named add_llm ''deepseek'' (Deep_seek k ''deepseek-chat'') (add_first add_llm (Deep_seek k ''deepseek-chat'') l0));
          l2 = (case usable (or_else (qwen_key s) (dashscope_key s)) of None \<Rightarrow> l1
                | Some k \<Rightarrow> add_named add_llm ''qwen'' (Qwen k ''qwen-plus'') (add_first add_llm (Qwen k ''qwen-plus'') l1));
          l3 = (case usable (anthropic_key s) of None \<Rightarrow> l2
                | Some k \<Rightarrow> add_named add_llm ''claude'' (Claude k claude_model) (add_named add_llm ''anthropic'' (Claude k claude_model)
                     (add_first add_llm (Claude k claude_model) l2)));
          l4 = (case usable (openai_key s) of None \<Rightarrow> l3
                | Some k \<Rightarrow> add_named add_llm ''openai'' (Open_ai k ''gpt-4o-mini'') (add_first add_llm (Open_ai k ''gpt-4o-mini'') l3));
          v0 = (fst l4, False);
          v1 = (case usable (anthropic_key s) of None \<Rightarrow> v0
                | Some k \<Rightarrow> add_named add_vlm ''claude'' (Claude_vlm k claude_model) (add_first add_vlm (Claude_vlm k claude_model) v0));
          v2 = (case usable (gemini_key s) of None \<Rightarrow> v1
                | Some k \<Rightarrow> add_named add_vlm ''gemini'' (Gemini k ''gemini-1.5-flash'') (add_first add_vlm (Gemini k ''gemini-1.5-flash'') v1));
          l5 = (case usable (gemini_key s) of None \<Rightarrow> (fst v2, snd l4)
                | Some k \<Rightarrow> add_first add_llm (Gemini k ''gemini-1.5-flash'') (add_named add_llm ''gemini'' (Gemini k ''gemini-1.5-flash'') (fst v2, snd l4)));
          l6 = add_first add_llm Mock_llm l5;
          v3 = add_first add_vlm Mock_vlm (fst l6, snd v2)
      in fst v3)"

definition register_mock_providers :: "caller registry \<Rightarrow> registering" where
  "register_mock_providers r = add_vlm ''default'' Mock_vlm (add_llm ''default'' Mock_llm (r, None))"

section \<open>The default by priority\<close>

text \<open>The callers of texts that the settings allow, the most preferred first, and those of images.\<close>

definition offer :: "string \<Rightarrow> (string \<Rightarrow> caller) \<Rightarrow> string option \<Rightarrow> (string \<times> caller) list" where
  "offer n mk k = (case k of None \<Rightarrow> [] | Some k \<Rightarrow> [(n, mk k)])"

definition llm_choices :: "settings \<Rightarrow> (string \<times> caller) list" where
  "llm_choices s = offer ''deepseek'' (\<lambda>k. Deep_seek k ''deepseek-chat'') (usable (deepseek_key s))
     @ offer ''qwen'' (\<lambda>k. Qwen k ''qwen-plus'') (usable (or_else (qwen_key s) (dashscope_key s)))
     @ offer ''anthropic'' (\<lambda>k. Claude k claude_model) (usable (anthropic_key s))
     @ offer ''claude'' (\<lambda>k. Claude k claude_model) (usable (anthropic_key s))
     @ offer ''openai'' (\<lambda>k. Open_ai k ''gpt-4o-mini'') (usable (openai_key s))
     @ offer ''gemini'' (\<lambda>k. Gemini k ''gemini-1.5-flash'') (usable (gemini_key s))"

definition vlm_choices :: "settings \<Rightarrow> (string \<times> caller) list" where
  "vlm_choices s = offer ''claude'' (\<lambda>k. Claude_vlm k claude_model) (usable (anthropic_key s))
     @ offer ''gemini'' (\<lambda>k. Gemini k ''gemini-1.5-flash'') (usable (gemini_key s))"

definition preferred :: "caller \<Rightarrow> (string \<times> caller) list \<Rightarrow> caller" where
  "preferred fallback cs = (case cs of [] \<Rightarrow> fallback | (n, c) # _ \<Rightarrow> c)"

lemma offer_keys: "fst ` set (offer n mk k) = (case k of None \<Rightarrow> {} | Some _ \<Rightarrow> {n})"
  by (simp add: offer_def split: option.splits)

text \<open>A table that holds choices under their names, the first of them also as the default.\<close>

definition holds :: "(string, caller) dict \<Rightarrow> (string \<times> caller) list \<Rightarrow> bool" where
  "holds d cs = (\<forall>n. dict_get d n = (if n = ''default'' then (case cs of [] \<Rightarrow> None | c # _ \<Rightarrow> Some (snd c)) else dict_get cs n))"

lemma holds_more:
  "holds d cs \<Longrightarrow> n \<noteq> ''default'' \<Longrightarrow> dict_get cs n = None \<Longrightarrow>
   holds (dict_set n cl (if cs = [] then dict_set ''default'' cl d else d)) (cs @ [(n, cl)])
   \<and> holds (if cs = [] then dict_set ''default'' cl (dict_set n cl d) else dict_set n cl d) (cs @ [(n, cl)])"
  by (auto simp: holds_def update_conv' map_add_def split: list.splits option.splits)

lemma adding:
  "dict_get (llms r) n = None \<Longrightarrow> add_llm n cl (r, None) = (r\<lparr>llms := dict_set n cl (llms r)\<rparr>, None)"
  "dict_get (vlms r) n = None \<Longrightarrow> add_vlm n cl (r, None) = (r\<lparr>vlms := dict_set n cl (vlms r)\<rparr>, None)"
  by (simp_all add: add_llm_def add_vlm_def register_llm_def register_vlm_def put_name_def)

definition ready :: "(string \<times> caller) list \<Rightarrow> (string \<times> caller) list \<Rightarrow> registering \<Rightarrow> bool" where
  "ready l v st = (\<exists>r. st = (r, None) \<and> holds (llms r) l \<and> holds (vlms r) v)"

lemma holds_free: "holds d cs \<Longrightarrow> n \<noteq> ''default'' \<Longrightarrow> dict_get d n = dict_get cs n"
  "holds d cs \<Longrightarrow> cs = [] \<Longrightarrow> dict_get d ''default'' = None"
  by (simp_all add: holds_def)

lemma ready_llm:
  assumes "ready l v st" "n \<noteq> ''default''" "n \<notin> fst ` set l"
  shows "ready (l @ [(n, cl)]) v (fst (add_named add_llm n cl (add_first add_llm cl (st, l \<noteq> []))))"
    and "ready (l @ [(n, cl)]) v (fst (add_first add_llm cl (add_named add_llm n cl (st, l \<noteq> []))))"
    and "l \<noteq> [] \<Longrightarrow> ready (l @ [(n, cl)]) v (fst (add_named add_llm n cl (st, b)))"
proof -
  obtain r where r: "st = (r, None)" "holds (llms r) l" "holds (vlms r) v" using assms(1) by (auto simp: ready_def)
  have n: "dict_get l n = None" using assms(3) by (simp add: map_of_eq_None_iff)
  note more = holds_more [OF r(2) assms(2) n, of cl]
  note free = holds_free [OF r(2)]
  show "ready (l @ [(n, cl)]) v (fst (add_named add_llm n cl (add_first add_llm cl (st, l \<noteq> []))))"
    using r more free assms(2) n by (auto simp: ready_def add_named_def add_first_def adding update_conv')
  show "ready (l @ [(n, cl)]) v (fst (add_first add_llm cl (add_named add_llm n cl (st, l \<noteq> []))))"
    using r more free assms(2) n by (auto simp: ready_def add_named_def add_first_def adding update_conv')
  show "l \<noteq> [] \<Longrightarrow> ready (l @ [(n, cl)]) v (fst (add_named add_llm n cl (st, b)))"
    using r more free assms(2) n by (auto simp: ready_def add_named_def adding)
qed

lemma ready_vlm:
  assumes "ready l v st" "n \<noteq> ''default''" "n \<notin> fst ` set v"
  shows "ready l (v @ [(n, cl)]) (fst (add_named add_vlm n cl (add_first add_vlm cl (st, v \<noteq> []))))"
proof -
  obtain r where r: "st = (r, None)" "holds (llms r) l" "holds (vlms r) v" using assms(1) by (auto simp: ready_def)
  have n: "dict_get v n = None" using assms(3) by (simp add: map_of_eq_None_iff)
  show ?thesis using r holds_more [OF r(3) assms(2) n, of cl] holds_free [OF r(3)] assms(2) n
    by (auto simp: ready_def add_named_def add_first_def adding update_conv')
qed

text \<open>One key after the other: the flag says whether there is a choice so far.\<close>

lemma stage_llm:
  assumes "ready l v (fst p) \<and> snd p = (l \<noteq> [])" "n \<noteq> ''default''" "n \<notin> fst ` set l"
  shows "ready (l @ offer n mk k) v (fst (case k of None \<Rightarrow> p | Some k \<Rightarrow> add_named add_llm n (mk k) (add_first add_llm (mk k) p)))
    \<and> snd (case k of None \<Rightarrow> p | Some k \<Rightarrow> add_named add_llm n (mk k) (add_first add_llm (mk k) p)) = (l @ offer n mk k \<noteq> [])"
  using assms ready_llm(1) [of l v "fst p" n] by (cases p; cases k) (auto simp: offer_def add_named_def add_first_def)

lemma stage_gemini:
  assumes "ready l v (fst p) \<and> snd p = (l \<noteq> [])" "n \<noteq> ''default''" "n \<notin> fst ` set l"
  shows "ready (l @ offer n mk k) v (fst (case k of None \<Rightarrow> p | Some k \<Rightarrow> add_first add_llm (mk k) (add_named add_llm n (mk k) p)))
    \<and> snd (case k of None \<Rightarrow> p | Some k \<Rightarrow> add_first add_llm (mk k) (add_named add_llm n (mk k) p)) = (l @ offer n mk k \<noteq> [])"
  using assms ready_llm(2) [of l v "fst p" n] by (cases p; cases k) (auto simp: offer_def add_named_def add_first_def)

lemma stage_claude:
  fixes k :: "string option" and mk :: "string \<Rightarrow> caller"
  assumes "ready l v (fst p) \<and> snd p = (l \<noteq> [])" "n \<noteq> ''default''" "n' \<noteq> ''default''" "n \<noteq> n'" "n \<notin> fst ` set l" "n' \<notin> fst ` set l"
  defines "q \<equiv> (case k of None \<Rightarrow> p | Some k \<Rightarrow> add_named add_llm n' (mk k) (add_named add_llm n (mk k) (add_first add_llm (mk k) p)))"
  shows "ready ((l @ offer n mk k) @ offer n' mk k) v (fst q) \<and> snd q = ((l @ offer n mk k) @ offer n' mk k \<noteq> [])"
proof (cases k)
  case None
  then show ?thesis using assms(1) by (simp add: q_def offer_def)
next
  case (Some x)
  let ?p = "add_named add_llm n (mk x) (add_first add_llm (mk x) p)"
  have 1: "ready (l @ [(n, mk x)]) v (fst ?p) \<and> snd ?p" using stage_llm [OF assms(1,2,5), of mk k] Some by (simp add: offer_def)
  then have "ready ((l @ [(n, mk x)]) @ [(n', mk x)]) v (fst (add_named add_llm n' (mk x) (fst ?p, snd ?p)))"
    using assms(3,4,6) by (intro ready_llm(3)) auto
  then show ?thesis using 1 Some by (simp add: q_def offer_def add_named_def)
qed

lemma stage_vlm:
  assumes "ready l v (fst p) \<and> snd p = (v \<noteq> [])" "n \<noteq> ''default''" "n \<notin> fst ` set v"
  shows "ready l (v @ offer n mk k) (fst (case k of None \<Rightarrow> p | Some k \<Rightarrow> add_named add_vlm n (mk k) (add_first add_vlm (mk k) p)))
    \<and> snd (case k of None \<Rightarrow> p | Some k \<Rightarrow> add_named add_vlm n (mk k) (add_first add_vlm (mk k) p)) = (v @ offer n mk k \<noteq> [])"
  using assms ready_vlm [of l v "fst p" n] by (cases p; cases k) (auto simp: offer_def add_named_def add_first_def)

lemma ready_mocks:
  assumes "ready l v (fst p)" "snd p = (l \<noteq> [])"
  shows "\<exists>r. fst (add_first add_vlm Mock_vlm (fst (add_first add_llm Mock_llm p), v \<noteq> [])) = (r, None)
    \<and> llm ''default'' r = Inr (preferred Mock_llm l) \<and> vlm ''default'' r = Inr (preferred Mock_vlm v)
    \<and> (\<forall>n. n \<noteq> ''default'' \<longrightarrow> dict_get (llms r) n = dict_get l n \<and> dict_get (vlms r) n = dict_get v n)"
  using assms
  by (cases p) (auto simp: ready_def add_first_def adding holds_def update_conv' llm_def vlm_def get_name_def preferred_def split: list.splits prod.splits)

text \<open>
  Registering the defaults in an empty registry succeeds for every choice of keys. The default for
  texts is the first of DeepSeek, Qwen, Claude, OpenAI and Gemini whose key is set and no placeholder,
  the default for images the first of Claude and Gemini, and a mock where there is none; each caller
  with a key is found under its own name, and no other name is registered.
\<close>

theorem defaults_by_priority:
  "\<exists>r. register_default_providers s empty_registry = (r, None)
     \<and> llm ''default'' r = Inr (preferred Mock_llm (llm_choices s))
     \<and> vlm ''default'' r = Inr (preferred Mock_vlm (vlm_choices s))
     \<and> (\<forall>n. n \<noteq> ''default'' \<longrightarrow> dict_get (llms r) n = dict_get (llm_choices s) n \<and> dict_get (vlms r) n = dict_get (vlm_choices s) n)"
proof -
  note keys = image_Un offer_keys
  define l0 :: "registering \<times> bool" where "l0 = ((empty_registry, None), False)"
  have 0: "ready [] [] (fst l0) \<and> snd l0 = (([] :: (string \<times> caller) list) \<noteq> [])" by (simp add: l0_def ready_def holds_def empty_registry_def)
  define l1 where "l1 = (case usable (deepseek_key s) of None \<Rightarrow> l0
      | Some k \<Rightarrow> add_named add_llm ''deepseek'' (Deep_seek k ''deepseek-chat'') (add_first add_llm (Deep_seek k ''deepseek-chat'') l0))"
  define c1 where "c1 = offer ''deepseek'' (\<lambda>k. Deep_seek k ''deepseek-chat'') (usable (deepseek_key s))"
  have 1: "ready c1 [] (fst l1) \<and> snd l1 = (c1 \<noteq> [])"
    unfolding l1_def c1_def using stage_llm [OF 0, of "''deepseek''" "\<lambda>k. Deep_seek k ''deepseek-chat''" "usable (deepseek_key s)"] by simp
  define l2 where "l2 = (case usable (or_else (qwen_key s) (dashscope_key s)) of None \<Rightarrow> l1
      | Some k \<Rightarrow> add_named add_llm ''qwen'' (Qwen k ''qwen-plus'') (add_first add_llm (Qwen k ''qwen-plus'') l1))"
  define c2 where "c2 = c1 @ offer ''qwen'' (\<lambda>k. Qwen k ''qwen-plus'') (usable (or_else (qwen_key s) (dashscope_key s)))"
  have 2: "ready c2 [] (fst l2) \<and> snd l2 = (c2 \<noteq> [])"
    unfolding l2_def c2_def by (rule stage_llm [OF 1]) (auto simp: c1_def keys split: option.splits)
  define l3 where "l3 = (case usable (anthropic_key s) of None \<Rightarrow> l2
      | Some k \<Rightarrow> add_named add_llm ''claude'' (Claude k claude_model) (add_named add_llm ''anthropic'' (Claude k claude_model)
           (add_first add_llm (Claude k claude_model) l2)))"
  define c3 where "c3 = (c2 @ offer ''anthropic'' (\<lambda>k. Claude k claude_model) (usable (anthropic_key s)))
      @ offer ''claude'' (\<lambda>k. Claude k claude_model) (usable (anthropic_key s))"
  have 3: "ready c3 [] (fst l3) \<and> snd l3 = (c3 \<noteq> [])"
    unfolding l3_def c3_def by (rule stage_claude [OF 2]) (auto simp: c2_def c1_def keys split: option.splits)
  define l4 where "l4 = (case usable (openai_key s) of None \<Rightarrow> l3
      | Some k \<Rightarrow> add_named add_llm ''openai'' (Open_ai k ''gpt-4o-mini'') (add_first add_llm (Open_ai k ''gpt-4o-mini'') l3))"
  define c4 where "c4 = c3 @ offer ''openai'' (\<lambda>k. Open_ai k ''gpt-4o-mini'') (usable (openai_key s))"
  have 4: "ready c4 [] (fst l4) \<and> snd l4 = (c4 \<noteq> [])"
    unfolding l4_def c4_def by (rule stage_llm [OF 3]) (auto simp: c3_def c2_def c1_def keys split: option.splits)
  define v0 where "v0 = (fst l4, False)"
  have 5: "ready c4 [] (fst v0) \<and> snd v0 = (([] :: (string \<times> caller) list) \<noteq> [])" using 4 by (simp add: v0_def)
  define v1 where "v1 = (case usable (anthropic_key s) of None \<Rightarrow> v0
      | Some k \<Rightarrow> add_named add_vlm ''claude'' (Claude_vlm k claude_model) (add_first add_vlm (Claude_vlm k claude_model) v0))"
  define d1 where "d1 = offer ''claude'' (\<lambda>k. Claude_vlm k claude_model) (usable (anthropic_key s))"
  have 6: "ready c4 d1 (fst v1) \<and> snd v1 = (d1 \<noteq> [])"
    unfolding v1_def d1_def using stage_vlm [OF 5, of "''claude''" "\<lambda>k. Claude_vlm k claude_model" "usable (anthropic_key s)"] by simp
  define v2 where "v2 = (case usable (gemini_key s) of None \<Rightarrow> v1
      | Some k \<Rightarrow> add_named add_vlm ''gemini'' (Gemini k ''gemini-1.5-flash'') (add_first add_vlm (Gemini k ''gemini-1.5-flash'') v1))"
  define d2 where "d2 = d1 @ offer ''gemini'' (\<lambda>k. Gemini k ''gemini-1.5-flash'') (usable (gemini_key s))"
  have 7: "ready c4 d2 (fst v2) \<and> snd v2 = (d2 \<noteq> [])"
    unfolding v2_def d2_def by (rule stage_vlm [OF 6]) (auto simp: d1_def keys split: option.splits)
  have 8: "ready c4 d2 (fst (fst v2, snd l4)) \<and> snd (fst v2, snd l4) = (c4 \<noteq> [])" using 7 4 by simp
  define l5 where "l5 = (case usable (gemini_key s) of None \<Rightarrow> (fst v2, snd l4)
      | Some k \<Rightarrow> add_first add_llm (Gemini k ''gemini-1.5-flash'') (add_named add_llm ''gemini'' (Gemini k ''gemini-1.5-flash'') (fst v2, snd l4)))"
  define c5 where "c5 = c4 @ offer ''gemini'' (\<lambda>k. Gemini k ''gemini-1.5-flash'') (usable (gemini_key s))"
  have 9: "ready c5 d2 (fst l5) \<and> snd l5 = (c5 \<noteq> [])"
    unfolding l5_def c5_def by (rule stage_gemini [OF 8]) (auto simp: c4_def c3_def c2_def c1_def keys split: option.splits)
  have choices: "llm_choices s = c5" "vlm_choices s = d2"
    by (simp_all add: llm_choices_def vlm_choices_def c5_def c4_def c3_def c2_def c1_def d2_def d1_def)
  have "register_default_providers s empty_registry = fst (add_first add_vlm Mock_vlm (fst (add_first add_llm Mock_llm l5), snd v2))"
    unfolding register_default_providers_def Let_def l5_def v2_def v1_def v0_def l4_def l3_def l2_def l1_def l0_def by (rule refl)
  then show ?thesis unfolding choices using ready_mocks [of c5 d2 l5] 9 7 by simp
qed

theorem defaults_by_priority_witness:
  "llm ''default'' (fst (register_default_providers
     \<lparr>deepseek_key = Some ''your_key_here'', qwen_key = None, dashscope_key = Some ''q'', anthropic_key = Some ''a'', openai_key = None, gemini_key = None\<rparr> empty_registry))
     = Inr (Qwen ''q'' ''qwen-plus'')"
  using defaults_by_priority [of "\<lparr>deepseek_key = Some ''your_key_here'', qwen_key = None, dashscope_key = Some ''q'', anthropic_key = Some ''a'', openai_key = None, gemini_key = None\<rparr>"]
  by (auto simp: llm_choices_def offer_def usable_def or_else_def preferred_def)

section \<open>What is sent\<close>

definition of_system :: "jdict \<Rightarrow> bool" where
  "of_system m = (dict_get m ''role'' = Some (JStr ''system''))"

text \<open>
  Claude is sent every message that is not the system's, once and in order, with its role and content; the system
  text it gets is that of the last message of the system, or the argument when there is none.
\<close>

theorem claude_gets_messages:
  assumes "claude_messages s ms = Inr (s', us)"
  shows "us = map (\<lambda>m. JDict [(''role'', the (dict_get m ''role'')), (''content'', the (dict_get m ''content''))]) (filter (\<lambda>m. \<not> of_system m) ms)
    \<and> s' = last (s # map (\<lambda>m. the (dict_get m ''content'')) (filter of_system ms))"
  using assms
proof (induction s ms arbitrary: us rule: claude_messages.induct)
  case (2 s m ms)
  from 2(3) obtain role ct where rc: "dict_get m ''role'' = Some role" "dict_get m ''content'' = Some ct"
    by (auto simp: bindE_Inr need_def split: option.splits)
  show ?case
  proof (cases "role = JStr ''system''")
    case True
    then show ?thesis using 2 rc by (simp add: need_def of_system_def)
  next
    case False
    then obtain us' where "claude_messages s ms = Inr (s', us')" "us = JDict [(''role'', role), (''content'', ct)] # us'"
      using 2(3) rc by (auto simp: need_def bindE_Inr)
    then show ?thesis using 2(2) rc False by (simp add: need_def of_system_def)
  qed
qed simp

theorem claude_gets_messages_witness:
  "last (JStr '''' # map (\<lambda>m. the (dict_get m ''content'')) (filter of_system [[(''role'', JStr ''system''), (''content'', JStr ''a'')], [(''role'', JStr ''user''), (''content'', JStr ''b'')]]))
     = JStr ''a''"
  using claude_gets_messages [of "JStr ''''" "[[(''role'', JStr ''system''), (''content'', JStr ''a'')], [(''role'', JStr ''user''), (''content'', JStr ''b'')]]" "JStr ''a''"
      "[JDict [(''role'', JStr ''user''), (''content'', JStr ''b'')]]"]
  by (simp add: need_def)

text \<open>The argument for the system is lost beside a message of the system; Gemini as the default for images refuses every call; and registering the defaults
  where one is registered already fails.\<close>

lemma system_argument_lost: "claude_request mdl \<lparr>messages = [[(''role'', JStr ''system''), (''content'', ct)]], max_tokens = n, tools = t, response_format = f, system = Some u\<rparr>
    = Inr [(''model'', JStr mdl), (''max_tokens'', JInt n), (''system'', ct), (''messages'', JList [])]"
  by (simp add: claude_request_def need_def)

lemma gemini_refuses_images: "look_at sv (Gemini k mdl) prompt pic fmt = Inl Bad_arguments"
  by simp

lemma defaults_not_twice:
  assumes "dict_get (llms r) ''default'' \<noteq> None"
  shows "register_default_providers \<lparr>deepseek_key = Some ''k'', qwen_key = None, dashscope_key = None, anthropic_key = None, openai_key = None, gemini_key = None\<rparr> r
    = (r, Some (Conflict ''llm'' ''default''))"
proof -
  have k: "usable (Some ''k'') = Some ''k''" "usable None = None" "or_else None None = None" by (simp_all add: usable_def or_else_def)
  have "add_llm ''default'' cl (r, None) = (r, Some (Conflict ''llm'' ''default''))" for cl
    using assms by (simp add: add_llm_def register_llm_def put_name_def)
  moreover have "add_llm n cl (r, Some e) = (r, Some e)" "add_vlm n cl (r, Some e) = (r, Some e)" for n cl e
    by (simp_all add: add_llm_def add_vlm_def)
  ultimately show ?thesis by (simp add: register_default_providers_def k add_first_def add_named_def)
qed

end
