(* ===== verification/McpClients.thy ===== *)
theory McpClients
  imports ToolGovernance
begin

text \<open>
  Clients of tool servers (\<^verbatim>\<open>obase/mcp_client.py\<close>): the table of connections beside the table of contracts, and
  what is read of the skills and resources a server offers. What a server answers is an argument, a document or a
  failure; so is the text of a document that is no text.
\<close>

section \<open>Connections and contracts\<close>

record 'h clients =
  handles :: "(string, 'h) dict"
  specs :: "(string, server_spec) dict"

datatype client_error = Not_registered string | Already_registered string | Refused_spec spec_error

definition no_clients :: "'h clients" where
  "no_clients = \<lparr>handles = [], specs = []\<rparr>"

definition register :: "string \<Rightarrow> 'h \<Rightarrow> 'h clients \<Rightarrow> 'h clients" where
  "register name h c = c\<lparr>handles := dict_set name h (handles c)\<rparr>"

definition register_server :: "server_spec \<Rightarrow> 'h \<Rightarrow> 'h clients \<Rightarrow> 'h clients" where
  "register_server m h c = c\<lparr>handles := dict_set (m_name m) h (handles c), specs := dict_set (m_name m) m (specs c)\<rparr>"

definition register_spec :: "server_spec \<Rightarrow> bool \<Rightarrow> 'h clients \<Rightarrow> client_error + 'h clients" where
  "register_spec m replace c =
     (if \<not> replace \<and> dict_get (specs c) (m_name m) \<noteq> None then Inl (Already_registered (m_name m))
      else Inr (c\<lparr>specs := dict_set (m_name m) m (specs c)\<rparr>))"

definition get_client :: "string \<Rightarrow> 'h clients \<Rightarrow> client_error + 'h" where
  "get_client name c = (case dict_get (handles c) name of None \<Rightarrow> Inl (Not_registered name) | Some h \<Rightarrow> Inr h)"

definition has_client :: "string \<Rightarrow> 'h clients \<Rightarrow> bool" where
  "has_client name c = (dict_get (handles c) name \<noteq> None)"

definition list_clients :: "'h clients \<Rightarrow> string list" where
  "list_clients c = map fst (handles c)"

definition unregister :: "string \<Rightarrow> 'h clients \<Rightarrow> 'h clients \<times> bool" where
  "unregister name c = (c\<lparr>handles := dict_pop name (handles c)\<rparr>, dict_get (handles c) name \<noteq> None)"

definition spec_of :: "string \<Rightarrow> 'h clients \<Rightarrow> client_error + server_spec" where
  "spec_of name c = (case dict_get (specs c) name of None \<Rightarrow> Inl (Not_registered name) | Some m \<Rightarrow> Inr m)"

definition list_specs :: "'h clients \<Rightarrow> server_spec list" where
  "list_specs c = map snd (specs c)"

text \<open>A contract built from a contract: its tools are contracts of tools already.\<close>

definition rebuilt :: "server_spec \<Rightarrow> spec_error + server_spec" where
  "rebuilt m =
     (if blank (m_name m) then Inl Empty_name
      else if blank (m_endpoint m) then Inl Empty_endpoint
      else if blank (m_version m) then Inl Empty_version
      else if \<exists>t \<in> set (m_tools m). t_kind t \<noteq> ''mcp'' \<or> t_server t \<noteq> Some (m_name m) then Inl Foreign_tool
      else Inr m)"

definition invalidate :: "string \<Rightarrow> 'h clients \<Rightarrow> client_error + 'h clients \<times> bool" where
  "invalidate name c =
     (case dict_get (specs c) name of None \<Rightarrow> Inr (c, False)
      | Some m \<Rightarrow> (case rebuilt (m\<lparr>m_enabled := False\<rparr>) of
            Inl e \<Rightarrow> Inl (Refused_spec e)
          | Inr m' \<Rightarrow> Inr (c\<lparr>specs := dict_set name m' (specs c)\<rparr>, True)))"

definition clear_clients :: "'h clients \<Rightarrow> 'h clients" where
  "clear_clients c = no_clients"

section \<open>Servers\<close>

text \<open>An attribute of a handle may be absent, a value, or a method with its answer; \<open>None\<close> is a failure.\<close>

datatype probe = Absent | Attribute json | Method "json option"

record remote =
  extensions :: probe
  server_info :: probe
  tools :: "json option"
  call_tool :: "string \<Rightarrow> jdict \<Rightarrow> json option"
  resources_list :: "json option option"
  resource_read :: "(string \<Rightarrow> json option) option"

datatype skill_error = Skill_error string | No_skill string | Empty_argument | Type_failed

definition SKILLS_EXTENSION_URI :: string where
  "SKILLS_EXTENSION_URI = ''io.modelcontextprotocol/skills''"

definition probed :: "probe \<Rightarrow> json" where
  "probed p = (case p of Absent \<Rightarrow> JNull | Attribute j \<Rightarrow> j | Method None \<Rightarrow> JNull | Method (Some j) \<Rightarrow> j)"

text \<open>Only values without lists and objects go into a set.\<close>

fun hashable :: "json \<Rightarrow> bool" where
  "hashable (JList xs) = False"
| "hashable (JDict d) = False"
| "hashable j = True"

definition in_set :: "string \<Rightarrow> json list \<Rightarrow> skill_error + bool" where
  "in_set s xs = (if list_all hashable xs then Inr (JStr s \<in> set xs) else Inl Type_failed)"

text \<open>Iterating a document.\<close>

definition iterated :: "json \<Rightarrow> skill_error + json list" where
  "iterated j = (case j of JList xs \<Rightarrow> Inr xs | JDict d \<Rightarrow> Inr (map (\<lambda>(k, v). JStr k) d)
     | JStr s \<Rightarrow> Inr (map (\<lambda>ch. JStr [ch]) s) | _ \<Rightarrow> Inl Type_failed)"

definition dicts_in :: "json list \<Rightarrow> jdict list" where
  "dicts_in xs = List.map_filter (\<lambda>j. case j of JDict d \<Rightarrow> Some d | _ \<Rightarrow> None) xs"

definition tool_dicts :: "string \<Rightarrow> remote \<Rightarrow> skill_error + jdict list" where
  "tool_dicts what rm = (case tools rm of None \<Rightarrow> Inl (Skill_error what) | Some j \<Rightarrow> bindE (iterated j) (\<lambda>xs. Inr (dicts_in xs)))"

definition tool_name :: "(json \<Rightarrow> string) \<Rightarrow> jdict \<Rightarrow> string" where
  "tool_name shown t = str_of shown (get_json ''name'' (JStr '''') t)"

definition skill_named :: "(json \<Rightarrow> string) \<Rightarrow> jdict \<Rightarrow> bool" where
  "skill_named shown t = has_prefix (tool_name shown t) ''skill''"

definition listed :: "json \<Rightarrow> json list" where
  "listed j = (case j of JList xs \<Rightarrow> xs | _ \<Rightarrow> [])"

definition negotiated :: "bool \<Rightarrow> string \<Rightarrow> jdict" where
  "negotiated ok via = [(''supported'', JBool ok), (''via'', JStr via), (''extension'', JStr SKILLS_EXTENSION_URI)]"

definition negotiate_skills_extension :: "(json \<Rightarrow> string) \<Rightarrow> remote \<Rightarrow> skill_error + jdict" where
  "negotiate_skills_extension shown rm =
     bindE (in_set SKILLS_EXTENSION_URI (listed (probed (extensions rm)))) (\<lambda>declared.
     if declared then Inr (negotiated True ''extensions'')
     else bindE (case probed (server_info rm) of
           JDict d \<Rightarrow> in_set SKILLS_EXTENSION_URI (listed (py_or (get_json ''extensions'' JNull d) (py_or (get_json ''capabilities'' JNull d) (JList []))))
         | _ \<Rightarrow> Inr False) (\<lambda>informed.
     if informed then Inr (negotiated True ''server_info'')
     else bindE (tool_dicts ''negotiate'' rm) (\<lambda>ts.
       Inr (if list_ex (skill_named shown) ts then negotiated True ''tools'' else negotiated False ''none''))))"

definition normalize_skill_capability :: "(json \<Rightarrow> string) \<Rightarrow> jdict \<Rightarrow> jdict" where
  "normalize_skill_capability shown s =
     (let name = py_or (get_json ''name'' JNull s) (py_or (get_json ''skill_id'' JNull s) (py_or (get_json ''id'' JNull s) (JStr '''')));
          sch = py_or (get_json ''input_schema'' JNull s) (py_or (get_json ''inputSchema'' JNull s) (py_or (get_json ''schema'' JNull s) (JDict [])))
      in [(''name'', JStr (str_of shown name)), (''version'', JStr (str_of shown (get_json ''version'' (JStr '''') s))),
          (''description'', JStr (str_of shown (get_json ''description'' (JStr '''') s))), (''inputs'', JDict (dict_or_nothing sch)),
          (''outputs'', py_or (get_json ''outputs'' JNull s) (JDict [])), (''extension'', JStr SKILLS_EXTENSION_URI)])"

definition discover_skills :: "(json \<Rightarrow> string) \<Rightarrow> remote \<Rightarrow> skill_error + jdict list" where
  "discover_skills shown rm =
     (let from_tools = bindE (tool_dicts ''discover'' rm) (\<lambda>ts. Inr (map (normalize_skill_capability shown) (filter (skill_named shown) ts)))
      in case call_tool rm ''skill_list'' [] of
           Some (JDict d) \<Rightarrow> (case get_json ''skills'' JNull d of
               JList xs \<Rightarrow> Inr (map (normalize_skill_capability shown) (dicts_in xs))
             | _ \<Rightarrow> from_tools)
         | Some (JList xs) \<Rightarrow> Inr (map (normalize_skill_capability shown) (dicts_in xs))
         | _ \<Rightarrow> from_tools)"

definition metadata_by_tool :: "(json \<Rightarrow> string) \<Rightarrow> remote \<Rightarrow> string \<Rightarrow> jdict option" where
  "metadata_by_tool shown rm skill_id =
     (case call_tool rm ''skill_metadata'' [(''skill_id'', JStr skill_id)] of
        Some (JDict d) \<Rightarrow>
          (let c = normalize_skill_capability shown d in
           if d \<noteq> [] \<and> (get_json ''name'' JNull c = JStr skill_id
                \<or> truthy (get_json ''name'' JNull c) \<and> truthy (get_json ''description'' JNull c)) then Some c else None)
      | _ \<Rightarrow> None)"

definition get_skill_metadata :: "(json \<Rightarrow> string) \<Rightarrow> remote \<Rightarrow> string \<Rightarrow> skill_error + jdict" where
  "get_skill_metadata shown rm skill_id =
     (if skill_id = '''' then Inl Empty_argument
      else case metadata_by_tool shown rm skill_id of
        Some c \<Rightarrow> Inr c
      | None \<Rightarrow> bindE (tool_dicts ''metadata'' rm) (\<lambda>ts. case List.find (\<lambda>t. tool_name shown t = skill_id) ts of
            None \<Rightarrow> Inl (No_skill skill_id)
          | Some t \<Rightarrow> Inr (normalize_skill_capability shown t)))"

definition wrapped :: "string \<Rightarrow> string \<Rightarrow> json \<Rightarrow> jdict" where
  "wrapped k i res = (case res of
     JDict d \<Rightarrow> [(k, JStr i), (''content'', get_json ''content'' JNull d), (''raw'', res)]
   | _ \<Rightarrow> [(k, JStr i), (''content'', res), (''raw'', res)])"

definition get_skill_content :: "remote \<Rightarrow> string \<Rightarrow> string option \<Rightarrow> skill_error + jdict" where
  "get_skill_content rm skill_id uri =
     (if skill_id = '''' then Inl Empty_argument
      else (case call_tool rm ''skill_content'' ([(''skill_id'', JStr skill_id)] @ (case uri of Some (x # xs) \<Rightarrow> [(''resource_uri'', JStr (x # xs))] | _ \<Rightarrow> [])) of
          None \<Rightarrow> Inl (Skill_error ''content'')
        | Some res \<Rightarrow> Inr (wrapped ''skill_id'' skill_id res)))"

section \<open>Resources\<close>

definition supports_resources :: "remote \<Rightarrow> bool" where
  "supports_resources rm = (resources_list rm \<noteq> None \<and> resource_read rm \<noteq> None)"

definition list_resources :: "remote \<Rightarrow> skill_error + jdict list" where
  "list_resources rm =
     (if \<not> supports_resources rm then Inl (Skill_error ''resources'')
      else (case the (resources_list rm) of
          Some (JList xs) \<Rightarrow> Inr (dicts_in xs)
        | _ \<Rightarrow> Inl (Skill_error ''resources'')))"

definition read_resource :: "remote \<Rightarrow> string \<Rightarrow> skill_error + jdict" where
  "read_resource rm uri =
     (if uri = '''' then Inl Empty_argument
      else if \<not> supports_resources rm then Inl (Skill_error ''resources'')
      else (case the (resource_read rm) uri of None \<Rightarrow> Inl (Skill_error ''resources'') | Some res \<Rightarrow> Inr (wrapped ''uri'' uri res)))"

section \<open>Contracts outlive connections\<close>

datatype 'h client_op = Register string 'h | Register_server server_spec 'h | Register_spec server_spec bool | Unregister string | Invalidate string

fun client_step :: "'h clients \<Rightarrow> 'h client_op \<Rightarrow> 'h clients" where
  "client_step c (Register n h) = register n h c"
| "client_step c (Register_server m h) = register_server m h c"
| "client_step c (Register_spec m rep) = (case register_spec m rep c of Inl e \<Rightarrow> c | Inr c' \<Rightarrow> c')"
| "client_step c (Unregister n) = fst (unregister n c)"
| "client_step c (Invalidate n) = (case invalidate n c of Inl e \<Rightarrow> c | Inr (c', b) \<Rightarrow> c')"

fun gives_spec :: "string \<Rightarrow> 'h client_op \<Rightarrow> bool" where
  "gives_spec n (Register_server m h) = (m_name m = n)"
| "gives_spec n (Register_spec m rep) = (m_name m = n)"
| "gives_spec n op = False"

fun touches_handle :: "string \<Rightarrow> 'h client_op \<Rightarrow> bool" where
  "touches_handle n (Register k h) = (k = n)"
| "touches_handle n (Register_server m h) = (m_name m = n)"
| "touches_handle n (Unregister k) = (k = n)"
| "touches_handle n op = False"

lemma checked_disabled: "rebuilt (m\<lparr>m_enabled := False\<rparr>) = Inr m' \<Longrightarrow> \<not> m_enabled m'"
  by (auto simp: rebuilt_def split: if_splits)

lemma spec_step:
  assumes "dict_get (specs c) n = Some m" "\<not> gives_spec n op"
  shows "\<exists>m'. dict_get (specs (client_step c op)) n = Some m' \<and> (\<not> m_enabled m \<longrightarrow> \<not> m_enabled m')"
  using assms by (cases op)
    (auto simp: register_def register_server_def register_spec_def unregister_def invalidate_def update_conv' split: option.splits sum.splits dest: checked_disabled)

lemma handle_step: "\<not> touches_handle n op \<Longrightarrow> dict_get (handles (client_step c op)) n = dict_get (handles c) n"
  by (cases op) (auto simp: register_def register_server_def register_spec_def unregister_def invalidate_def update_conv' delete_conv' split: option.splits sum.splits)

lemma spec_stays: "dict_get (specs c) n \<noteq> None \<Longrightarrow> dict_get (specs (client_step c op)) n \<noteq> None"
  by (cases op) (auto simp: register_def register_server_def register_spec_def unregister_def invalidate_def update_conv' split: option.splits sum.splits)

lemma disabled_run: "dict_get (specs c) n = Some m \<Longrightarrow> \<not> m_enabled m \<Longrightarrow> \<forall>op \<in> set ops. \<not> gives_spec n op \<Longrightarrow>
    \<exists>m'. spec_of n (foldl client_step c ops) = Inr m' \<and> \<not> m_enabled m'"
proof (induction ops arbitrary: c m)
  case (Cons op ops)
  from spec_step [OF Cons.prems(1), of op] obtain m' where "dict_get (specs (client_step c op)) n = Some m'" "\<not> m_enabled m'"
    using Cons.prems by auto
  then show ?case using Cons.IH Cons.prems(3) by simp
qed (simp add: spec_of_def)

lemma stays_run: "dict_get (specs c) n \<noteq> None \<Longrightarrow> dict_get (specs (foldl client_step c ops)) n \<noteq> None"
  by (induction ops arbitrary: c) (simp, metis foldl_Cons spec_stays)

lemma handle_run: "\<forall>op \<in> set ops. \<not> touches_handle n op \<Longrightarrow> get_client n (foldl client_step c ops) = get_client n c"
  by (induction ops arbitrary: c) (simp_all add: get_client_def handle_step)

text \<open>
  A contract outlives its connection: no sequence of operations short of clearing loses the contract
  of a name, and once it is disabled it stays so until a contract is registered under that name again.
  The connection goes its own way: it is the one last registered until it is registered again or dropped,
  whatever becomes of the contract.
\<close>

theorem contracts_outlive_connections:
  assumes "dict_get (specs c) n = Some m" and "\<not> m_enabled m" and "\<forall>op \<in> set later. \<not> gives_spec n op"
  shows "dict_get (specs (foldl client_step c ops)) n \<noteq> None
    \<and> (\<exists>m'. spec_of n (foldl client_step c later) = Inr m' \<and> \<not> m_enabled m')
    \<and> ((\<forall>op \<in> set ops. \<not> touches_handle n op) \<longrightarrow> get_client n (foldl client_step c ops) = get_client n c)"
  using stays_run [of c n ops] disabled_run [OF assms] handle_run [of ops n c] assms(1) by simp

definition sample_contract :: "bool \<Rightarrow> server_spec" where
  "sample_contract b = \<lparr>m_name = ''s'', m_endpoint = ''e'', m_version = ''1'', m_protocol = ''p'', m_tools = [], m_credential = None, m_enabled = b\<rparr>"

theorem contracts_outlive_connections_witness:
  "\<exists>m'. spec_of ''s'' (foldl client_step \<lparr>handles = [(''s'', 0::nat)], specs = [(''s'', sample_contract False)]\<rparr> [Unregister ''s'', Register ''s'' 1, Invalidate ''s'']) = Inr m' \<and> \<not> m_enabled m'"
  using contracts_outlive_connections [of "\<lparr>handles = [(''s'', 0::nat)], specs = [(''s'', sample_contract False)]\<rparr>" "''s''" "sample_contract False"
      "[Unregister ''s'', Register ''s'' 1, Invalidate ''s'']" "[]"]
  by (simp add: sample_contract_def)

text \<open>A connection is handed out although the contract of its server was invalidated.\<close>

lemma invalidated_still_connected:
  "dict_get (handles c) n = Some h \<Longrightarrow> invalidate n c = Inr (c', True) \<Longrightarrow> get_client n c' = Inr h"
  by (auto simp: invalidate_def get_client_def split: option.splits sum.splits)

section \<open>Skills\<close>

lemma shown_text [simp]: "str_of shown (JStr s) = s"
  by (simp add: str_of_def)

text \<open>Metadata of another skill is accepted when it has a name and a description, and a list of extensions with an object in it ends
  the negotiation with an error no one expects.\<close>

lemma other_skill_accepted:
  assumes "call_tool rm ''skill_metadata'' [(''skill_id'', JStr ''x'')] = Some (JDict [(''name'', JStr ''y''), (''description'', JStr ''d'')])"
  shows "\<exists>c. get_skill_metadata shown rm ''x'' = Inr c \<and> get_json ''name'' JNull c = JStr ''y''"
  using assms
  by (simp add: get_skill_metadata_def metadata_by_tool_def normalize_skill_capability_def get_json_def py_or_def Let_def)

lemma object_extension_fails: "probed (extensions rm) = JList [JDict d] \<Longrightarrow> negotiate_skills_extension shown rm = Inl Type_failed"
  by (simp add: negotiate_skills_extension_def in_set_def listed_def)

text \<open>
  Whatever the server answers, what is discovered is in normal form: six fields, texts for name, version and
  description, an object for the inputs, and the extension.
\<close>

theorem discovered_are_normal:
  assumes "discover_skills shown rm = Inr cs" and "c \<in> set cs"
  shows "\<exists>n v ds i out. c = [(''name'', JStr n), (''version'', JStr v), (''description'', JStr ds), (''inputs'', JDict i), (''outputs'', out),
    (''extension'', JStr SKILLS_EXTENSION_URI)]"
proof -
  obtain ds where "cs = map (normalize_skill_capability shown) ds"
    using assms(1) by (auto simp: discover_skills_def Let_def bindE_Inr split: option.splits json.splits)
  then show ?thesis using assms(2) by (auto simp: normalize_skill_capability_def Let_def)
qed

theorem discovered_are_normal_witness:
  "\<exists>n v ds i out. normalize_skill_capability (\<lambda>j. ''?'') [(''id'', JInt 7)] = [(''name'', JStr n), (''version'', JStr v), (''description'', JStr ds), (''inputs'', JDict i), (''outputs'', out),
    (''extension'', JStr SKILLS_EXTENSION_URI)]"
  by (rule discovered_are_normal [of "\<lambda>j. ''?''" "\<lparr>extensions = Absent, server_info = Absent, tools = None,
      call_tool = (\<lambda>n a. Some (JList [JDict [(''id'', JInt 7)], JNull])), resources_list = None, resource_read = None\<rparr>"
      "[normalize_skill_capability (\<lambda>j. ''?'') [(''id'', JInt 7)]]"])
    (simp_all add: discover_skills_def dicts_in_def map_filter_simps)

end
