(* ===== verification/TeamRegistry.thy ===== *)
theory TeamRegistry
  imports Json Python_Text
begin

text \<open>
  Teams of agents in files (\<^verbatim>\<open>obase/team_registry.py\<close>): configurations with members, tasks, and inboxes with one
  file per message. The files are those the registry wrote; a team name is the name of its folder. Clock, fresh identifiers and
  the text of a document that is no text are arguments.
\<close>

section \<open>Documents\<close>

text \<open>Keyword arguments are documents by name; later ones replace.\<close>

definition make_team_member :: "string \<Rightarrow> string \<Rightarrow> string \<Rightarrow> jdict \<Rightarrow> jdict" where
  "make_team_member fresh now name kw =
     dict_update [(''name'', JStr name), (''user'', JStr ''''), (''agent_id'', JStr (take 12 fresh)),
        (''agent_type'', get_json ''agent_type'' (JStr ''general-purpose'') kw), (''joined_at'', JStr now)] (dict_pop ''agent_type'' kw)"

record team_config =
  team_name :: string
  description :: string
  lead_agent_id :: json
  created_at :: string
  members :: "jdict list"
  budget_cents :: rat

definition make_team_config :: "string \<Rightarrow> string \<Rightarrow> string \<Rightarrow> string \<Rightarrow> jdict list \<Rightarrow> rat \<Rightarrow> team_config" where
  "make_team_config now name desc lead ms budget =
     \<lparr>team_name = name, description = desc, lead_agent_id = JStr lead, created_at = now, members = ms, budget_cents = budget\<rparr>"

definition make_task :: "string \<Rightarrow> string \<Rightarrow> string \<Rightarrow> string \<Rightarrow> string \<Rightarrow> string \<Rightarrow> string \<Rightarrow> string list \<Rightarrow> string list \<Rightarrow> jdict" where
  "make_task fresh now subject desc status priority owner blocks blocked_by =
     [(''id'', JStr (take 8 fresh)), (''subject'', JStr subject), (''description'', JStr desc), (''status'', JStr status), (''priority'', JStr priority),
      (''owner'', JStr owner), (''locked_by'', JStr ''''), (''locked_at'', JStr ''''), (''blocks'', JList (map JStr blocks)), (''blocked_by'', JList (map JStr blocked_by)),
      (''started_at'', JStr ''''), (''created_at'', JStr now), (''updated_at'', JStr now), (''metadata'', JDict [])]"

definition make_message :: "string \<Rightarrow> string \<Rightarrow> string \<Rightarrow> string option \<Rightarrow> string option \<Rightarrow> string \<Rightarrow> string option \<Rightarrow> jdict \<Rightarrow> jdict" where
  "make_message fresh now sender to ct msg_type request_id kw =
     dict_update [(''type'', JStr msg_type), (''from'', JStr sender), (''to'', str_or_null to), (''content'', str_or_null ct),
        (''request_id'', JStr (case request_id of Some (x # xs) \<Rightarrow> x # xs | _ \<Rightarrow> take 8 fresh)), (''timestamp'', JStr now)]
       (filter (\<lambda>(k, v). v \<noteq> JNull) kw)"

section \<open>The files\<close>

record team =
  config :: "team_config option"
  tasks :: "jdict list option"
  inboxes :: "(string, (string, jdict) dict) dict"

type_synonym teams = "(string, team) dict"

datatype team_error = Team_exists string | Team_missing string | No_recipient | No_text

definition no_team :: team where
  "no_team = \<lparr>config = None, tasks = None, inboxes = []\<rparr>"

text \<open>Every look at the files of a team creates its folder.\<close>

definition team_dir :: "string \<Rightarrow> teams \<Rightarrow> teams" where
  "team_dir n ts = (if dict_get ts n = None then dict_set n no_team ts else ts)"

definition team_of :: "string \<Rightarrow> teams \<Rightarrow> team" where
  "team_of n ts = (case dict_get ts n of None \<Rightarrow> no_team | Some t \<Rightarrow> t)"

definition save_team :: "string \<Rightarrow> team \<Rightarrow> teams \<Rightarrow> teams" where
  "save_team n t ts = dict_set n t ts"

section \<open>Teams and members\<close>

definition save_config :: "string \<Rightarrow> team_config \<Rightarrow> teams \<Rightarrow> teams" where
  "save_config n cfg ts = save_team n ((team_of n ts)\<lparr>config := Some cfg\<rparr>) ts"

definition create_team :: "string \<Rightarrow> string \<Rightarrow> string \<Rightarrow> string \<Rightarrow> rat \<Rightarrow> teams \<Rightarrow> teams \<times> (team_error + team_config)" where
  "create_team now n desc lead budget ts =
     (if config (team_of n ts) \<noteq> None then (ts, Inl (Team_exists n))
      else let cfg = make_team_config now n desc lead [] budget in (save_config n cfg ts, Inr cfg))"

definition get_team :: "string \<Rightarrow> teams \<Rightarrow> team_config option" where
  "get_team n ts = config (team_of n ts)"

definition list_teams :: "teams \<Rightarrow> team_config list" where
  "list_teams ts = List.map_filter (\<lambda>(n, t). config t) ts"

definition with_member :: "jdict \<Rightarrow> team_config \<Rightarrow> team_config" where
  "with_member m cfg = cfg\<lparr>members := members cfg @ [m],
     lead_agent_id := (if truthy (lead_agent_id cfg) then lead_agent_id cfg else get_json ''agent_id'' JNull m)\<rparr>"

definition add_member :: "string \<Rightarrow> string \<Rightarrow> string \<Rightarrow> string \<Rightarrow> jdict \<Rightarrow> teams \<Rightarrow> teams \<times> (team_error + jdict)" where
  "add_member fresh now n name kw ts =
     (case get_team n ts of
        None \<Rightarrow> (team_dir n ts, Inl (Team_missing n))
      | Some cfg \<Rightarrow> let m = make_team_member fresh now name kw in (save_config n (with_member m cfg) ts, Inr m))"

definition member_named :: "string \<Rightarrow> jdict \<Rightarrow> bool" where
  "member_named name m = (dict_get m ''name'' = Some (JStr name))"

definition remove_member :: "string \<Rightarrow> string \<Rightarrow> teams \<Rightarrow> teams \<times> bool" where
  "remove_member n name ts =
     (case get_team n ts of
        None \<Rightarrow> (team_dir n ts, False)
      | Some cfg \<Rightarrow>
          let ms = filter (\<lambda>m. \<not> member_named name m) (members cfg)
          in (save_config n (cfg\<lparr>members := ms\<rparr>) ts, length ms < length (members cfg)))"

definition list_members :: "string \<Rightarrow> teams \<Rightarrow> jdict list" where
  "list_members n ts = (case get_team n ts of None \<Rightarrow> [] | Some cfg \<Rightarrow> members cfg)"

definition get_leader_name :: "string \<Rightarrow> teams \<Rightarrow> json option" where
  "get_leader_name n ts =
     (case get_team n ts of None \<Rightarrow> None
      | Some cfg \<Rightarrow> (case List.find (\<lambda>m. get_json ''agent_id'' JNull m = lead_agent_id cfg) (members cfg) of
            None \<Rightarrow> None | Some m \<Rightarrow> dict_get m ''name''))"

section \<open>Tasks\<close>

definition tasks_of :: "string \<Rightarrow> teams \<Rightarrow> jdict list" where
  "tasks_of n ts = (case tasks (team_of n ts) of None \<Rightarrow> [] | Some xs \<Rightarrow> xs)"

definition add_task :: "string \<Rightarrow> string \<Rightarrow> string \<Rightarrow> string \<Rightarrow> jdict \<Rightarrow> teams \<Rightarrow> teams \<times> jdict" where
  "add_task fresh now n subject kw ts =
     (let task = make_task fresh now subject '''' ''pending'' ''medium'' '''' [] [];
          task = dict_update task (filter (\<lambda>(k, v). dict_get task k \<noteq> None \<and> k \<noteq> ''subject'') kw)
      in (save_team n ((team_of n ts)\<lparr>tasks := Some (tasks_of n ts @ [task])\<rparr>) ts, task))"

definition get_tasks :: "string \<Rightarrow> string option \<Rightarrow> teams \<Rightarrow> jdict list" where
  "get_tasks n status ts = (case status of
     Some (x # xs) \<Rightarrow> filter (\<lambda>t. dict_get t ''status'' = Some (JStr (x # xs))) (tasks_of n ts)
   | _ \<Rightarrow> tasks_of n ts)"

fun update_first :: "string \<Rightarrow> string \<Rightarrow> jdict \<Rightarrow> jdict list \<Rightarrow> jdict list option" where
  "update_first now i changes [] = None"
| "update_first now i changes (t # ts) =
     (if dict_get t ''id'' = Some (JStr i) then Some (dict_set ''updated_at'' (JStr now) (dict_update t changes) # ts)
      else map_option (\<lambda>ts. t # ts) (update_first now i changes ts))"

definition update_task :: "string \<Rightarrow> string \<Rightarrow> string \<Rightarrow> jdict \<Rightarrow> teams \<Rightarrow> teams \<times> bool" where
  "update_task now n i changes ts =
     (case update_first now i changes (tasks_of n ts) of
        None \<Rightarrow> (team_dir n ts, False)
      | Some xs \<Rightarrow> (save_team n ((team_of n ts)\<lparr>tasks := Some xs\<rparr>) ts, True))"

definition lock_task :: "string \<Rightarrow> string \<Rightarrow> string \<Rightarrow> string \<Rightarrow> teams \<Rightarrow> teams \<times> bool" where
  "lock_task now n i agent ts = update_task now n i
     [(''status'', JStr ''in_progress''), (''locked_by'', JStr agent), (''locked_at'', JStr now), (''started_at'', JStr now)] ts"

section \<open>Inboxes\<close>

definition inbox :: "string \<Rightarrow> string \<Rightarrow> teams \<Rightarrow> (string, jdict) dict" where
  "inbox n agent ts = (case dict_get (inboxes (team_of n ts)) agent of None \<Rightarrow> [] | Some b \<Rightarrow> b)"

definition save_inbox :: "string \<Rightarrow> string \<Rightarrow> (string, jdict) dict \<Rightarrow> teams \<Rightarrow> teams" where
  "save_inbox n agent b ts = save_team n ((team_of n ts)\<lparr>inboxes := dict_set agent b (inboxes (team_of n ts))\<rparr>) ts"

definition stamped :: "string \<Rightarrow> string \<Rightarrow> jdict \<Rightarrow> jdict" where
  "stamped fresh now m =
     (let m = (if dict_get m ''request_id'' = None then dict_set ''request_id'' (JStr (take 8 fresh)) m else m)
      in if dict_get m ''timestamp'' = None then dict_set ''timestamp'' (JStr now) m else m)"

definition file_name :: "(json \<Rightarrow> string) \<Rightarrow> jdict \<Rightarrow> string" where
  "file_name shown m = str_of shown (get_json ''request_id'' JNull m) @ ''.json''"

text \<open>A recipient that is no text fails at the path of its inbox.\<close>

definition send_message :: "(json \<Rightarrow> string) \<Rightarrow> string \<Rightarrow> string \<Rightarrow> string \<Rightarrow> jdict \<Rightarrow> teams \<Rightarrow> teams \<times> (team_error + jdict)" where
  "send_message shown fresh now n m ts =
     (let m = stamped fresh now m; to = get_json ''to'' JNull m in
      if \<not> truthy to then (ts, Inl No_recipient)
      else (case to of
          JStr agent \<Rightarrow> (save_inbox n agent (dict_set (file_name shown m) m (inbox n agent ts)) ts, Inr m)
        | _ \<Rightarrow> (team_dir n ts, Inl No_text)))"

text \<open>Messages are read in the order of their file names; each is deleted, and reading stops when enough have been read.\<close>

fun consume :: "int \<Rightarrow> jdict list \<Rightarrow> (string \<times> jdict) list \<Rightarrow> jdict list \<times> string list" where
  "consume limit got [] = (got, [])"
| "consume limit got ((f, m) # fs) =
     (let got = (if m = [] then got else got @ [m]) in
      if limit \<le> int (length got) then (got, [f])
      else (case consume limit got fs of (ms, gone) \<Rightarrow> (ms, f # gone)))"

definition receive_messages :: "string \<Rightarrow> string \<Rightarrow> int \<Rightarrow> teams \<Rightarrow> teams \<times> jdict list" where
  "receive_messages n agent limit ts =
     (case consume limit [] (sort_key fst (inbox n agent ts)) of
        (ms, gone) \<Rightarrow> (save_inbox n agent (filter (\<lambda>(f, m). f \<notin> set gone) (inbox n agent ts)) ts, ms))"

text \<open>A broadcast that fails has sent to the members before.\<close>

fun broadcast_to :: "(json \<Rightarrow> string) \<Rightarrow> string list \<Rightarrow> string \<Rightarrow> string \<Rightarrow> string \<Rightarrow> string \<Rightarrow> string list \<Rightarrow> teams \<Rightarrow> teams \<times> (team_error + jdict list)" where
  "broadcast_to shown (i # is) now n sender ct (r # rs) ts =
     (let m = make_message i now sender (Some r) (Some ct) ''broadcast'' None [] in
      case send_message shown i now n m ts of
        (ts', Inl e) \<Rightarrow> (ts', Inl e)
      | (ts', Inr m') \<Rightarrow> (case broadcast_to shown is now n sender ct rs ts' of (ts'', r) \<Rightarrow> (ts'', bindE r (\<lambda>ms. Inr (m' # ms)))))"
| "broadcast_to shown is now n sender ct rs ts = (ts, Inr [])"

definition recipients :: "string \<Rightarrow> string \<Rightarrow> teams \<Rightarrow> string list" where
  "recipients n sender ts = List.map_filter (\<lambda>m. case dict_get m ''name'' of Some (JStr s) \<Rightarrow> if s = sender then None else Some s | _ \<Rightarrow> None) (list_members n ts)"

definition broadcast :: "(json \<Rightarrow> string) \<Rightarrow> string list \<Rightarrow> string \<Rightarrow> string \<Rightarrow> string \<Rightarrow> string \<Rightarrow> teams \<Rightarrow> teams \<times> (team_error + jdict list)" where
  "broadcast shown ids now n sender ct ts = broadcast_to shown ids now n sender ct (recipients n sender ts) ts"

definition cleanup :: "string \<Rightarrow> teams \<Rightarrow> teams \<times> bool" where
  "cleanup n ts = (dict_pop n (team_dir n ts), True)"

section \<open>Messages are delivered once\<close>

definition mail_ok :: "(string, jdict) dict \<Rightarrow> bool" where
  "mail_ok b = (distinct (map fst b) \<and> (\<forall>(f, m) \<in> set b. m \<noteq> []))"

lemma team_of_save [simp]: "team_of n (save_team k t ts) = (if n = k then t else team_of n ts)"
  by (simp add: team_of_def save_team_def update_conv')

lemma inbox_save: "inbox k a (save_inbox n agent b ts) = (if k = n \<and> a = agent then b else inbox k a ts)"
  by (simp add: inbox_def save_inbox_def update_conv')

lemma consume_prefix: "\<forall>(f, m) \<in> set fs. m \<noteq> [] \<Longrightarrow> \<exists>k. consume limit got fs = (got @ map snd (take k fs), map fst (take k fs)) \<and> (fs \<noteq> [] \<longrightarrow> 0 < k)"
proof (induction fs arbitrary: got)
  case (Cons p fs)
  obtain f m where p: "p = (f, m)" by (cases p)
  show ?case
  proof (cases "limit \<le> int (length (got @ [m]))")
    case True
    then show ?thesis using Cons.prems p by (intro exI [of _ 1]) simp
  next
    case False
    from Cons.IH [of "got @ [m]"] Cons.prems obtain k
      where "consume limit (got @ [m]) fs = ((got @ [m]) @ map snd (take k fs), map fst (take k fs))" by auto
    then show ?thesis using Cons.prems p False by (intro exI [of _ "Suc k"]) simp
  qed
qed simp

lemma filter_rest: "distinct (map fst xs) \<Longrightarrow> filter (\<lambda>(f, m). f \<notin> set (map fst (take k xs))) xs = drop k xs"
proof -
  assume d: "distinct (map fst xs)"
  have xs: "xs = take k xs @ drop k xs" by simp
  have "fst ` set (take k xs) \<inter> fst ` set (drop k xs) = {}"
    using d by (metis append_take_drop_id distinct_append map_append set_map)
  then have "filter (\<lambda>(f, m). f \<notin> set (map fst (take k xs))) (drop k xs) = drop k xs"
    by (intro filter_True) (auto simp: case_prod_beta)
  moreover have "filter (\<lambda>(f, m). f \<notin> set (map fst (take k xs))) (take k xs) = []"
    by (intro filter_False) force
  ultimately show ?thesis by (metis (no_types, lifting) append_Nil append_take_drop_id filter_append)
qed

lemma receive_splits:
  assumes "mail_ok (inbox n agent ts)" "receive_messages n agent limit ts = (ts', ms)"
  shows "ms @ map snd (sort_key fst (inbox n agent ts')) = map snd (sort_key fst (inbox n agent ts)) \<and> mail_ok (inbox n agent ts')
    \<and> (inbox n agent ts \<noteq> [] \<longrightarrow> ms \<noteq> []) \<and> (\<forall>k a. (k, a) \<noteq> (n, agent) \<longrightarrow> inbox k a ts' = inbox k a ts)"
proof -
  let ?b = "inbox n agent ts" let ?s = "sort_key fst ?b"
  have "\<forall>(f, m) \<in> set ?s. m \<noteq> []" using assms(1) by (simp add: mail_ok_def)
  then obtain k where k: "consume limit [] ?s = (map snd (take k ?s), map fst (take k ?s))" "?s \<noteq> [] \<longrightarrow> 0 < k"
    using consume_prefix [of ?s limit "[]"] by auto
  have r: "ms = map snd (take k ?s)" "ts' = save_inbox n agent (filter (\<lambda>(f, m). f \<notin> set (map fst (take k ?s))) ?b) ts"
    using assms(2) unfolding receive_messages_def k(1) by simp_all
  have d: "distinct (map fst ?s)" using assms(1) by (simp add: mail_ok_def distinct_map)
  have b': "inbox n agent ts' = filter (\<lambda>(f, m). f \<notin> set (map fst (take k ?s))) ?b" unfolding r(2) by (simp add: inbox_save)
  have "sort_key fst (inbox n agent ts') = drop k ?s" unfolding b' filter_sort [symmetric] by (rule filter_rest [OF d])
  moreover have "mail_ok (inbox n agent ts')" using assms(1) unfolding b' by (auto simp: mail_ok_def distinct_map_filter)
  moreover have "?s = [] \<longleftrightarrow> ?b = []" by (metis length_0_conv length_sort)
  ultimately show ?thesis using r k(2) by (auto simp: inbox_save map_append [symmetric])
qed

fun receives :: "string \<Rightarrow> string \<Rightarrow> int list \<Rightarrow> teams \<Rightarrow> teams \<times> jdict list" where
  "receives n agent [] ts = (ts, [])"
| "receives n agent (l # ls) ts =
     (case receive_messages n agent l ts of (ts', ms) \<Rightarrow> (case receives n agent ls ts' of (ts'', rest) \<Rightarrow> (ts'', ms @ rest)))"

text \<open>
  Successive reads of an inbox deliver each message exactly once, in the order of file names: what
  was delivered, followed by what is left, is what was there, whatever the limits, and no other inbox is
  touched; and each read of an inbox that is not empty delivers something.
\<close>

theorem inbox_delivers_once:
  assumes "mail_ok (inbox n agent ts)" and "receives n agent ls ts = (ts', ms)"
  shows "ms @ map snd (sort_key fst (inbox n agent ts')) = map snd (sort_key fst (inbox n agent ts))
    \<and> (\<forall>k a. (k, a) \<noteq> (n, agent) \<longrightarrow> inbox k a ts' = inbox k a ts)
    \<and> (length (inbox n agent ts) \<le> length ls \<longrightarrow> inbox n agent ts' = [])"
  using assms
proof (induction ls arbitrary: ts ms)
  case (Cons l ls)
  obtain t1 m1 where r: "receive_messages n agent l ts = (t1, m1)" by fastforce
  obtain m2 where rs: "receives n agent ls t1 = (ts', m2)" "ms = m1 @ m2" using Cons.prems(2) r by (auto split: prod.splits)
  note one = receive_splits [OF Cons.prems(1) r]
  note rest = Cons.IH [OF _ rs(1)]
  have "length m1 + length (inbox n agent t1) = length (inbox n agent ts)"
    using arg_cong [OF conjunct1 [OF one], of length] by simp
  then have "length (inbox n agent ts) \<le> Suc (length ls) \<Longrightarrow> length (inbox n agent t1) \<le> length ls"
  proof -
    assume le: "length (inbox n agent ts) \<le> Suc (length ls)"
    have "inbox n agent ts = [] \<or> Suc 0 \<le> length m1" using one by (auto simp: Suc_le_eq)
    then show "length (inbox n agent t1) \<le> length ls" using le \<open>length m1 + length (inbox n agent t1) = length (inbox n agent ts)\<close> by (auto simp del: One_nat_def)
  qed
  moreover note rest' = rest [OF conjunct1 [OF conjunct2 [OF one]]]
  ultimately have "length (inbox n agent ts) \<le> length (l # ls) \<longrightarrow> inbox n agent ts' = []" by simp
  moreover have "\<forall>k a. (k, a) \<noteq> (n, agent) \<longrightarrow> inbox k a ts' = inbox k a ts" using rest' one by simp
  moreover have "ms @ map snd (sort_key fst (inbox n agent ts')) = map snd (sort_key fst (inbox n agent ts))"
    using rest' one unfolding rs(2) by (metis append_assoc)
  ultimately show ?case by blast
qed simp

definition sample_team :: teams where
  "sample_team = [(''t'', \<lparr>config = None, tasks = None, inboxes = [(''b'', [(''2.json'', [(''content'', JInt 2)]), (''1.json'', [(''content'', JInt 1)])])]\<rparr>)]"

theorem inbox_delivers_once_witness:
  "snd (receives ''t'' ''b'' [1, 1] sample_team) @ map snd (sort_key fst (inbox ''t'' ''b'' (fst (receives ''t'' ''b'' [1, 1] sample_team))))
     = [[(''content'', JInt 1)], [(''content'', JInt 2)]]"
proof -
  have "inbox ''t'' ''b'' sample_team = [(''2.json'', [(''content'', JInt 2)]), (''1.json'', [(''content'', JInt 1)])]"
    by (simp add: inbox_def team_of_def sample_team_def)
  then have i: "mail_ok (inbox ''t'' ''b'' sample_team)" "map snd (sort_key fst (inbox ''t'' ''b'' sample_team)) = [[(''content'', JInt 1)], [(''content'', JInt 2)]]"
    by (simp_all add: mail_ok_def)
  show ?thesis using inbox_delivers_once [OF i(1), of "[1, 1]" "fst (receives ''t'' ''b'' [1, 1] sample_team)" "snd (receives ''t'' ''b'' [1, 1] sample_team)"] i(2) by simp
qed

section \<open>What is not promised\<close>

text \<open>A message that answers under the same request replaces an unread one.\<close>

lemma same_request_replaces:
  assumes "dict_get m ''request_id'' = Some (JStr ''r'')" "dict_get m ''timestamp'' \<noteq> None" "dict_get m ''to'' = Some (JStr (x # xs))"
  shows "inbox n (x # xs) (fst (send_message shown fresh now n m ts)) = dict_set ''r.json'' m (inbox n (x # xs) ts)"
proof -
  have "stamped fresh now m = m" using assms(1,2) by (auto simp: stamped_def)
  then show ?thesis using assms by (simp add: send_message_def get_json_def file_name_def str_of_def inbox_save Let_def)
qed

text \<open>A reading with the limit 0 takes a message. Files are not locked: of two additions that read the same configuration the first is lost.
  A task that is locked can be locked by another agent. A leader who leaves is not replaced. Cleaning up always reports success.\<close>

lemma limit_zero_takes_one: "inbox n a ts = [(f, p # m)] \<Longrightarrow> receive_messages n a 0 ts = (save_inbox n a [] ts, [p # m])"
  by (simp add: receive_messages_def)

lemma additions_not_locked:
  "get_team n ts = Some cfg \<Longrightarrow> list_members n (save_config n (with_member b cfg) (save_config n (with_member a cfg) ts)) = members cfg @ [b]"
  by (simp add: list_members_def get_team_def save_config_def with_member_def)

lemma locked_again:
  assumes "tasks_of n ts = [[(''id'', JStr i), (''locked_by'', JStr agent)]]"
  shows "snd (lock_task now n i other ts) \<and> tasks_of n (fst (lock_task now n i other ts)) = [[(''id'', JStr i), (''locked_by'', JStr other),
    (''status'', JStr ''in_progress''), (''locked_at'', JStr now), (''started_at'', JStr now), (''updated_at'', JStr now)]]"
  using assms by (simp add: lock_task_def update_task_def dict_update_def, simp add: tasks_of_def)

lemma leader_not_replaced:
  assumes "get_team n ts = Some \<lparr>team_name = n, description = d, lead_agent_id = JStr (x # xs), created_at = c, members = [[(''name'', JStr a), (''agent_id'', JStr (x # xs))]], budget_cents = bu\<rparr>"
    and "dict_get m ''agent_id'' = Some (JStr other)" "other \<noteq> x # xs"
  shows "get_leader_name n (fst (remove_member n a ts)) = None"
    "get_team n ts' = get_team n (fst (remove_member n a ts)) \<Longrightarrow> get_leader_name n (save_config n (with_member m (the (get_team n ts'))) ts') = None"
proof -
  have r: "get_team n (fst (remove_member n a ts)) = Some \<lparr>team_name = n, description = d, lead_agent_id = JStr (x # xs), created_at = c, members = [], budget_cents = bu\<rparr>"
    using assms(1) by (simp add: remove_member_def member_named_def save_config_def get_team_def)
  show "get_leader_name n (fst (remove_member n a ts)) = None" by (simp add: get_leader_name_def r)
  assume "get_team n ts' = get_team n (fst (remove_member n a ts))"
  then have "get_team n ts' = Some \<lparr>team_name = n, description = d, lead_agent_id = JStr (x # xs), created_at = c, members = [], budget_cents = bu\<rparr>"
    by (simp only: r)
  then have "get_team n (save_config n (with_member m (the (get_team n ts'))) ts')
      = Some \<lparr>team_name = n, description = d, lead_agent_id = JStr (x # xs), created_at = c, members = [m], budget_cents = bu\<rparr>"
    by (simp add: save_config_def get_team_def [of n "save_team _ _ _"] with_member_def)
  then show "get_leader_name n (save_config n (with_member m (the (get_team n ts'))) ts') = None"
    using assms(2,3) by (simp add: get_leader_name_def get_json_def)
qed

lemma cleanup_always_succeeds: "cleanup n [] = ([], True)"
  by (simp add: cleanup_def team_dir_def)

end
