(* ===== verification/KnowledgeStore.thy ===== *)
theory KnowledgeStore
  imports Json Python_Text
begin

text \<open>
  The knowledge base (\<^verbatim>\<open>obase/knowledge_store.py\<close>): texts with a header between dashes, one file for each
  identifier. Files are read with universal line ends and replaced as a whole. The clock and the text of a document that is
  neither text, number nor truth value are arguments; the templates for new entries are left out.
\<close>

section \<open>Headers as text\<close>

abbreviation (input) newline :: char where
  "newline \<equiv> CHR 0x0A"

datatype knowledge_error = No_strings | Repeated_argument | No_type

definition text_of :: "(json \<Rightarrow> string) \<Rightarrow> json \<Rightarrow> string" where
  "text_of shown j = (case j of JStr s \<Rightarrow> s | JBool b \<Rightarrow> if b then ''True'' else ''False'' | JInt n \<Rightarrow> str_int n | JNull \<Rightarrow> ''None'' | _ \<Rightarrow> shown j)"

fun comma_joined :: "string list \<Rightarrow> string" where
  "comma_joined [] = []"
| "comma_joined [x] = x"
| "comma_joined (x # y # xs) = x @ '', '' @ comma_joined (y # xs)"

text \<open>\<^verbatim>\<open>', '.join(v)\<close>: of a list of texts, the characters of a text or the keys of an object.\<close>

fun joined :: "json \<Rightarrow> knowledge_error + string" where
  "joined (JList xs) = bindE (mapE (\<lambda>j. case j of JStr s \<Rightarrow> Inr s | _ \<Rightarrow> Inl No_strings) xs) (\<lambda>ss. Inr (comma_joined ss))"
| "joined (JStr s) = Inr (comma_joined (map (\<lambda>c. [c]) s))"
| "joined (JDict d) = Inr (comma_joined (map fst d))"
| "joined _ = Inl No_strings"

definition list_line :: "string \<Rightarrow> jdict \<Rightarrow> knowledge_error + string list" where
  "list_line k fm = (let j = get_json k JNull fm in
     if truthy j then bindE (joined j) (\<lambda>s. Inr [k @ '': ['' @ s @ '']'']) else Inr [])"

definition flag_line :: "(json \<Rightarrow> string) \<Rightarrow> string \<Rightarrow> bool \<Rightarrow> jdict \<Rightarrow> string" where
  "flag_line shown k dflt fm = k @ '': '' @ map lower_char (text_of shown (get_json k (JBool dflt) fm))"

definition text_line :: "(json \<Rightarrow> string) \<Rightarrow> string \<Rightarrow> json \<Rightarrow> jdict \<Rightarrow> string" where
  "text_line shown k dflt fm = k @ '': '' @ text_of shown (get_json k dflt fm)"

definition header_lines :: "(json \<Rightarrow> string) \<Rightarrow> jdict \<Rightarrow> knowledge_error + string list" where
  "header_lines shown fm =
     bindE (list_line ''covers'' fm) (\<lambda>cs. bindE (list_line ''depends_on'' fm) (\<lambda>ds.
       Inr ([text_line shown ''id'' (JStr '''') fm, text_line shown ''type'' (JStr '''') fm] @ cs @ ds
          @ [flag_line shown ''auto_update'' True fm, flag_line shown ''stale'' False fm]
          @ (if truthy (get_json ''stale_reason'' JNull fm) then [text_line shown ''stale_reason'' JNull fm] else [])
          @ [text_line shown ''last_synced_at'' (JStr '''') fm, text_line shown ''schema_version'' (JInt 1) fm])))"

definition ended :: "string list \<Rightarrow> string" where
  "ended ls = concat (map (\<lambda>l. l @ [newline]) ls)"

definition serialize_frontmatter :: "(json \<Rightarrow> string) \<Rightarrow> jdict \<Rightarrow> string \<Rightarrow> knowledge_error + string" where
  "serialize_frontmatter shown fm body =
     bindE (header_lines shown fm) (\<lambda>ls. Inr (ended ([''---''] @ ls @ [''---'', '''', strip body])))"

section \<open>Reading a header\<close>

definition strip_quotes :: "string \<Rightarrow> string" where
  "strip_quotes s = (let q = (\<lambda>c. c = CHR 0x27 \<or> c = CHR 0x22) in rev (dropWhile q (rev (dropWhile q s))))"

definition value_of :: "string \<Rightarrow> json" where
  "value_of v =
     (if v = ''true'' then JBool True else if v = ''false'' then JBool False
      else if has_prefix v ''['' \<and> has_suffix v '']''
        then JList (map (\<lambda>x. JStr (strip_quotes (strip x))) (filter (\<lambda>x. strip x \<noteq> []) (split_on (CHR '','') (butlast (tl v)))))
      else JStr v)"

definition parse_line :: "jdict \<Rightarrow> string \<Rightarrow> jdict" where
  "parse_line fm line = (case cut '':'' line of None \<Rightarrow> fm | Some (k, v) \<Rightarrow> dict_set (strip k) (value_of (strip v)) fm)"

record doc =
  frontmatter :: jdict
  doc_body :: string

definition parse_frontmatter :: "string \<Rightarrow> doc option" where
  "parse_frontmatter t =
     (if \<not> has_prefix t ''---'' then None
      else (case cut ''---'' (drop 3 t) of
          None \<Rightarrow> None
        | Some (h, b) \<Rightarrow> Some \<lparr>frontmatter = foldl parse_line [] (split_lines [] (strip h)), doc_body = strip b\<rparr>))"

section \<open>The store\<close>

text \<open>Texts by file name.\<close>

type_synonym knowledge = "(string, string) dict"

definition path_of :: "string \<Rightarrow> string" where
  "path_of i = map (\<lambda>c. if c \<in> {CHR ''/'', CHR '':'', CHR 0x5C} then CHR ''_'' else c) i @ ''.md''"

definition defaulted :: "string list" where
  "defaulted = [''covers'', ''depends_on'', ''last_synced_commit'', ''stale'', ''stale_reason'', ''auto_update'', ''schema_version'']"

definition written_frontmatter :: "string \<Rightarrow> string \<Rightarrow> json \<Rightarrow> jdict \<Rightarrow> jdict" where
  "written_frontmatter now i tp kw = dict_update
     [(''id'', JStr i), (''type'', tp), (''covers'', get_json ''covers'' (JList []) kw), (''depends_on'', get_json ''depends_on'' (JList []) kw),
      (''last_synced_commit'', get_json ''last_synced_commit'' (JStr '''') kw), (''last_synced_at'', JStr now),
      (''stale'', get_json ''stale'' (JBool False) kw), (''stale_reason'', get_json ''stale_reason'' JNull kw),
      (''auto_update'', get_json ''auto_update'' (JBool True) kw), (''schema_version'', get_json ''schema_version'' (JInt 1) kw)]
     (filter (\<lambda>(k, v). k \<notin> set defaulted) kw)"

text \<open>Keyword arguments with the name of a parameter are refused.\<close>

definition write_doc :: "(json \<Rightarrow> string) \<Rightarrow> string \<Rightarrow> string \<Rightarrow> json \<Rightarrow> string \<Rightarrow> jdict \<Rightarrow> knowledge \<Rightarrow> knowledge \<times> knowledge_error option" where
  "write_doc shown now i tp body kw ks =
     (if \<exists>(k, v) \<in> set kw. k \<in> {''self'', ''id_'', ''type_'', ''body''} then (ks, Some Repeated_argument)
      else (case serialize_frontmatter shown (written_frontmatter now i tp kw) body of
          Inl e \<Rightarrow> (ks, Some e)
        | Inr t \<Rightarrow> (dict_set (path_of i) t ks, None)))"

text \<open>Carriage returns are read as line ends.\<close>

fun universal :: "bool \<Rightarrow> string \<Rightarrow> string" where
  "universal cr [] = []"
| "universal cr (c # cs) = (if cr \<and> c = newline then universal False cs
     else if c = CHR 0x0D then newline # universal True cs else c # universal False cs)"

definition read_text :: "string \<Rightarrow> doc option" where
  "read_text t = parse_frontmatter (universal False t)"

definition read_doc :: "string \<Rightarrow> knowledge \<Rightarrow> doc option" where
  "read_doc i ks = Option.bind (dict_get ks (path_of i)) read_text"

definition delete_doc :: "string \<Rightarrow> knowledge \<Rightarrow> knowledge \<times> bool" where
  "delete_doc i ks = (if dict_get ks (path_of i) = None then (ks, False) else (dict_pop (path_of i) ks, True))"

definition rewrite_doc :: "(json \<Rightarrow> string) \<Rightarrow> string \<Rightarrow> string \<Rightarrow> doc \<Rightarrow> jdict \<Rightarrow> knowledge \<Rightarrow> knowledge \<times> (knowledge_error + bool)" where
  "rewrite_doc shown now i d fm ks =
     (case dict_get fm ''type'' of
        None \<Rightarrow> (ks, Inl No_type)
      | Some tp \<Rightarrow> (case write_doc shown now i tp (doc_body d) fm ks of (ks', Some e) \<Rightarrow> (ks', Inl e) | (ks', None) \<Rightarrow> (ks', Inr True)))"

definition mark_stale :: "(json \<Rightarrow> string) \<Rightarrow> string \<Rightarrow> string \<Rightarrow> string \<Rightarrow> knowledge \<Rightarrow> knowledge \<times> (knowledge_error + bool)" where
  "mark_stale shown now i reason ks =
     (case read_doc i ks of
        None \<Rightarrow> (ks, Inr False)
      | Some d \<Rightarrow> rewrite_doc shown now i d (dict_set ''stale_reason'' (if reason = '''' then JNull else JStr reason)
          (dict_set ''stale'' (JBool True) (frontmatter d))) ks)"

definition mark_fresh :: "(json \<Rightarrow> string) \<Rightarrow> string \<Rightarrow> string \<Rightarrow> knowledge \<Rightarrow> knowledge \<times> (knowledge_error + bool)" where
  "mark_fresh shown now i ks =
     (case read_doc i ks of
        None \<Rightarrow> (ks, Inr False)
      | Some d \<Rightarrow> rewrite_doc shown now i d (dict_set ''last_synced_at'' (JStr now) (dict_set ''stale_reason'' JNull
          (dict_set ''stale'' (JBool False) (frontmatter d)))) ks)"

definition list_all_docs :: "string option \<Rightarrow> knowledge \<Rightarrow> doc list" where
  "list_all_docs tp ks = filter (\<lambda>d. case tp of None \<Rightarrow> True | Some s \<Rightarrow> dict_get (frontmatter d) ''type'' = Some (JStr s))
     (List.map_filter (\<lambda>(f, t). read_text t) (sort_key fst ks))"

definition list_stale :: "knowledge \<Rightarrow> doc list" where
  "list_stale ks = filter (\<lambda>d. truthy (get_json ''stale'' JNull (frontmatter d))) (list_all_docs None ks)"

definition list_ids :: "knowledge \<Rightarrow> string list" where
  "list_ids ks = map (\<lambda>f. if f = ''.md'' then f else take (length f - 3) f) (sort (map fst ks))"

section \<open>Texts that survive\<close>

text \<open>Facts about texts: padding is stripped, lines are found again, and so is the first separator.\<close>

lemma ended_simps [simp]: "ended [] = []" "ended (l # ls) = l @ newline # ended ls" "ended (ls @ ls') = ended ls @ ended ls'"
  by (simp_all add: ended_def)

lemma ended_joined: "ls \<noteq> [] \<Longrightarrow> ended ls = join_with newline ls @ [newline]"
  by (induction newline ls rule: join_with.induct) auto

lemma split_lines_past: "\<forall>c \<in> set l. \<not> line_break c \<Longrightarrow> split_lines acc (l @ s) = split_lines (rev l @ acc) s"
  by (induction l arbitrary: acc) auto

lemma split_lines_joined:
  "(\<forall>l \<in> set ls. l \<noteq> [] \<and> (\<forall>c \<in> set l. \<not> line_break c)) \<Longrightarrow> split_lines [] (join_with newline ls) = ls"
proof (induction newline ls rule: join_with.induct)
  case (2 p)
  then show ?case using split_lines_past [of p "[]" "[]"] by simp
next
  case (3 p q ps)
  then show ?case by (simp add: split_lines_past line_break_def)
qed simp

lemma infix_prefix: "has_prefix s p \<Longrightarrow> s \<noteq> [] \<or> p = [] \<Longrightarrow> is_infix p s"
  by (cases s) (auto simp: has_prefix_def)

lemma prefix_before: "has_prefix (s @ c # t) d \<Longrightarrow> c \<notin> set d \<Longrightarrow> has_prefix s d"
proof -
  assume p: "has_prefix (s @ c # t) d" "c \<notin> set d"
  have "length d \<le> length s"
  proof (rule ccontr)
    assume "\<not> length d \<le> length s"
    then have "c \<in> set (take (length d) (s @ c # t))" by (cases "length d - length s") auto
    moreover have "take (length d) (s @ c # t) = d" using p(1) unfolding has_prefix_def .
    ultimately show False using p(2) by (simp only:)
  qed
  then show ?thesis using p(1) by (simp add: has_prefix_def)
qed

lemma cut_line: "c \<notin> set d \<Longrightarrow> d \<noteq> [] \<Longrightarrow> \<not> is_infix d l \<Longrightarrow> cut d (l @ c # s) = map_option (\<lambda>(a, b). (l @ c # a, b)) (cut d s)"
proof (induction l)
  case Nil
  then have "\<not> has_prefix (c # s) d" using prefix_before [of "[]" c s d] by (auto simp: has_prefix_def)
  then show ?case by simp
next
  case (Cons x l)
  then have "\<not> has_prefix (x # l @ c # s) d" using prefix_before [of "x # l" c s d] infix_prefix [of "x # l" d] by auto
  moreover have "cut d (l @ c # s) = map_option (\<lambda>(a, b). (l @ c # a, b)) (cut d s)" using Cons by simp
  ultimately show ?case by (simp add: option.map_comp o_def case_prod_beta)
qed

lemma cut_lines: "newline \<notin> set d \<Longrightarrow> d \<noteq> [] \<Longrightarrow> \<forall>l \<in> set ls. \<not> is_infix d l \<Longrightarrow> cut d (ended ls @ d @ rest) = Some (ended ls, rest)"
proof (induction ls)
  case Nil
  then show ?case by (cases d) (simp_all add: has_prefix_def)
next
  case (Cons l ls)
  then have "cut d (ended ls @ d @ rest) = Some (ended ls, rest)" by simp
  then show ?case using Cons.prems cut_line [of newline d l "ended ls @ d @ rest"] by simp
qed

lemma universal_id: "CHR 0x0D \<notin> set s \<Longrightarrow> universal False s = s"
  by (induction s) auto

section \<open>Entries read back\<close>

record entry =
  e_id :: string
  e_type :: string
  e_covers :: "string list"
  e_depends :: "string list"
  e_auto :: bool
  e_stale :: bool
  e_reason :: "string option"
  e_synced :: string
  e_version :: string

definition flag :: "bool \<Rightarrow> string" where
  "flag b = (if b then ''true'' else ''false'')"

definition list_pair :: "string \<Rightarrow> string list \<Rightarrow> (string \<times> string) list" where
  "list_pair k xs = (if xs = [] then [] else [(k, ''['' @ comma_joined xs @ '']'')])"

definition pairs_of :: "entry \<Rightarrow> (string \<times> string) list" where
  "pairs_of e = [(''id'', e_id e), (''type'', e_type e)] @ list_pair ''covers'' (e_covers e) @ list_pair ''depends_on'' (e_depends e)
     @ [(''auto_update'', flag (e_auto e)), (''stale'', flag (e_stale e))]
     @ (case e_reason e of None \<Rightarrow> [] | Some r \<Rightarrow> [(''stale_reason'', r)])
     @ [(''last_synced_at'', e_synced e), (''schema_version'', e_version e)]"

text \<open>The header an entry reads back as: lists that are empty and a reason that is missing are left out.\<close>

definition list_entry :: "string \<Rightarrow> string list \<Rightarrow> jdict" where
  "list_entry k xs = (if xs = [] then [] else [(k, JList (map JStr xs))])"

definition frontmatter_of :: "entry \<Rightarrow> jdict" where
  "frontmatter_of e = [(''id'', JStr (e_id e)), (''type'', JStr (e_type e))] @ list_entry ''covers'' (e_covers e) @ list_entry ''depends_on'' (e_depends e)
     @ [(''auto_update'', JBool (e_auto e)), (''stale'', JBool (e_stale e))]
     @ (case e_reason e of None \<Rightarrow> [] | Some r \<Rightarrow> [(''stale_reason'', JStr r)])
     @ [(''last_synced_at'', JStr (e_synced e)), (''schema_version'', JStr (e_version e))]"

text \<open>Texts that are read as they were written, as a value and as an item of a list.\<close>

definition line_text :: "string \<Rightarrow> bool" where
  "line_text v \<longleftrightarrow> strip v = v \<and> (\<forall>c \<in> set v. \<not> line_break c) \<and> \<not> is_infix ''---'' v"

definition plain_text :: "string \<Rightarrow> bool" where
  "plain_text v \<longleftrightarrow> v \<noteq> [] \<and> line_text v \<and> v \<noteq> ''true'' \<and> v \<noteq> ''false'' \<and> \<not> (has_prefix v ''['' \<and> has_suffix v '']'')"

definition plain_items :: "string list \<Rightarrow> bool" where
  "plain_items xs \<longleftrightarrow> (\<forall>x \<in> set xs. x \<noteq> [] \<and> strip x = x \<and> CHR '','' \<notin> set x \<and> strip_quotes x = x)
     \<and> (xs \<noteq> [] \<longrightarrow> line_text (''['' @ comma_joined xs @ '']''))"

definition entry_ok :: "entry \<Rightarrow> bool" where
  "entry_ok e \<longleftrightarrow> plain_text (e_id e) \<and> plain_text (e_type e) \<and> plain_items (e_covers e) \<and> plain_items (e_depends e)
     \<and> (case e_reason e of None \<Rightarrow> True | Some r \<Rightarrow> plain_text r) \<and> plain_text (e_synced e) \<and> plain_text (e_version e)"

definition fact_line :: "string \<times> string \<Rightarrow> string" where
  "fact_line p = fst p @ '': '' @ snd p"

lemma value_plain: "plain_text v \<Longrightarrow> value_of v = JStr v"
  by (auto simp: plain_text_def value_of_def)

lemma value_flag: "value_of (flag b) = JBool b"
  by (simp add: value_of_def flag_def)

lemma comma_split:
  assumes "\<forall>x \<in> set xs. CHR '','' \<notin> set x" "xs \<noteq> []"
  shows "split_on (CHR '','') (comma_joined xs) = hd xs # map (\<lambda>x. CHR '' '' # x) (tl xs)"
  using assms
proof (induction xs rule: comma_joined.induct)
  case (3 x y xs)
  have "split_on (CHR '','') (CHR '' '' # s) = (CHR '' '' # hd (split_on (CHR '','') s)) # tl (split_on (CHR '','') s)" for s
    by (simp split: list.splits)
  then show ?case using 3 split_on_append [of "CHR '',''" x "CHR '' '' # comma_joined (y # xs)"] by simp
qed (simp_all add: split_on_single)

lemma value_list: "plain_items xs \<Longrightarrow> xs \<noteq> [] \<Longrightarrow> value_of (''['' @ comma_joined xs @ '']'') = JList (map JStr xs)"
proof -
  assume xs: "plain_items xs" "xs \<noteq> []"
  let ?v = "''['' @ comma_joined xs @ '']''"
  have b: "has_prefix ?v ''['' \<and> has_suffix ?v '']''" "butlast (tl ?v) = comma_joined xs" "?v \<noteq> ''true''" "?v \<noteq> ''false''"
    by (simp_all add: has_prefix_def has_suffix_def butlast_append)
  have "split_on (CHR '','') (comma_joined xs) = hd xs # map (\<lambda>x. CHR '' '' # x) (tl xs)"
    using xs by (intro comma_split) (auto simp: plain_items_def)
  moreover have "strip x = x \<and> strip (CHR '' '' # x) = x \<and> x \<noteq> [] \<and> strip_quotes x = x" if "x \<in> set xs" for x
    using xs(1) that by (simp add: plain_items_def strip_space)
  moreover obtain y ys where "xs = y # ys" using xs(2) by (cases xs) auto
  ultimately show ?thesis using b unfolding value_of_def by (simp add: filter_map o_def)
qed

lemma parse_fact:
  assumes "CHR '':'' \<notin> set k" "strip k = k" "strip v = v"
  shows "parse_line fm (fact_line (k, v)) = dict_set k (value_of v) fm"
proof -
  have "\<not> is_infix '':'' k" if "CHR '':'' \<notin> set k" for k
    using that by (induction k) (auto split: list.splits)
  then have "cut '':'' (k @ CHR '':'' # s) = Some (k, s)" for s
    using assms(1) by (induction k) (auto simp: has_prefix_def)
  then have "cut '':'' (fact_line (k, v)) = Some (k, CHR '' '' # v)" by (simp add: fact_line_def)
  then show ?thesis using assms(2,3) by (simp add: parse_line_def strip_space)
qed

lemma parse_facts:
  assumes "\<forall>(k, v) \<in> set ps. CHR '':'' \<notin> set k \<and> strip k = k \<and> strip v = v" "distinct (map fst ps)" "fst ` set fm \<inter> fst ` set ps = {}"
  shows "foldl parse_line fm (map fact_line ps) = fm @ map (\<lambda>(k, v). (k, value_of v)) ps"
  using assms
proof (induction ps arbitrary: fm)
  case (Cons p ps)
  obtain k v where p: "p = (k, v)" by (cases p)
  have "parse_line fm (fact_line p) = fm @ [(k, value_of v)]" using Cons.prems unfolding p by (simp add: parse_fact dict_set_new)
  then show ?case using Cons.IH [of "fm @ [(k, value_of v)]"] Cons.prems p by auto
qed simp

text \<open>What a header line of an entry is made of.\<close>

definition fact_ok :: "string \<times> string \<Rightarrow> bool" where
  "fact_ok p \<longleftrightarrow> fst p \<in> {''id'', ''type'', ''covers'', ''depends_on'', ''auto_update'', ''stale'', ''stale_reason'', ''last_synced_at'', ''schema_version''} \<and> line_text (snd p)"

lemma infix_skip: "CHR ''-'' \<notin> set k \<Longrightarrow> is_infix ''---'' (k @ s) = is_infix ''---'' s"
  by (induction k) auto

lemma fact_ok_line:
  assumes "fact_ok p"
  shows "CHR '':'' \<notin> set (fst p) \<and> strip (fst p) = fst p \<and> strip (snd p) = snd p" "fact_line p \<noteq> []" "\<not> white_space (hd (fact_line p))"
    "\<forall>c \<in> set (fact_line p). \<not> line_break c" "\<not> is_infix ''---'' (fact_line p)"
proof -
  have k: "CHR '':'' \<notin> set (fst p) \<and> strip (fst p) = fst p \<and> fst p \<noteq> [] \<and> \<not> white_space (hd (fst p)) \<and> (\<forall>c \<in> set (fst p @ '': ''). \<not> line_break c) \<and> CHR ''-'' \<notin> set (fst p @ '': '')"
    using assms by (auto simp: fact_ok_def strip_id white_space_def line_break_def)
  show "CHR '':'' \<notin> set (fst p) \<and> strip (fst p) = fst p \<and> strip (snd p) = snd p" "fact_line p \<noteq> []" "\<not> white_space (hd (fact_line p))"
    "\<forall>c \<in> set (fact_line p). \<not> line_break c"
    using k assms by (auto simp: fact_line_def fact_ok_def line_text_def)
  show "\<not> is_infix ''---'' (fact_line p)"
    using k assms infix_skip [of "fst p @ '': ''" "snd p"] by (simp add: fact_line_def fact_ok_def line_text_def)
qed

lemma flag_line_text: "line_text (flag b)"
  by (auto simp: flag_def line_text_def strip_id white_space_def line_break_def)

lemma pairs_ok: "entry_ok e \<Longrightarrow> \<forall>p \<in> set (pairs_of e). fact_ok p"
  by (auto simp: entry_ok_def pairs_of_def fact_ok_def plain_text_def plain_items_def list_pair_def flag_line_text split: option.splits)

lemma pairs_distinct: "distinct (map fst (pairs_of e))"
  by (auto simp: pairs_of_def list_pair_def split: option.splits)

lemma pairs_values: "entry_ok e \<Longrightarrow> map (\<lambda>(k, v). (k, value_of v)) (pairs_of e) = frontmatter_of e"
  by (auto simp: entry_ok_def pairs_of_def frontmatter_of_def list_pair_def list_entry_def value_plain value_flag value_list [simplified] split: option.splits)

lemma parse_pairs:
  assumes "entry_ok e"
  shows "foldl parse_line [] (split_lines [] (strip (newline # ended (map fact_line (pairs_of e))))) = frontmatter_of e"
proof -
  let ?ls = "map fact_line (pairs_of e)" let ?j = "join_with newline ?ls"
  have ne: "?ls \<noteq> []" by (simp add: pairs_of_def)
  obtain ps where ps: "?ls = fact_line (''id'', e_id e) # ps" "ps \<noteq> []" by (simp add: pairs_of_def)
  obtain qs where qs: "?ls = qs @ [fact_line (''schema_version'', e_version e)]" "qs \<noteq> []" by (simp add: pairs_of_def)
  have first: "\<exists>t. ?j = ''id: '' @ t" using ps by (cases ps) (simp_all add: fact_line_def)
  obtain t where t: "?j = t @ ''schema_version: '' @ e_version e"
    using join_with_last [of newline qs "fact_line (''schema_version'', e_version e)"] unfolding qs(1) by (auto simp: fact_line_def)
  have v: "e_version e \<noteq> []" "strip (e_version e) = e_version e" using assms by (simp_all add: entry_ok_def plain_text_def line_text_def)
  have "\<not> white_space (last (e_version e))" using strip_ends v by blast
  then have "strip ?j = ?j" using first t v(1) by (intro strip_id) (auto simp: white_space_def)
  then have "strip ([newline] @ ?j @ [newline]) = ?j" by (intro strip_padded) (simp_all add: blank_def white_space_def)
  moreover have "split_lines [] ?j = ?ls"
  proof (rule split_lines_joined, intro ballI)
    fix l assume "l \<in> set ?ls"
    then obtain p where "fact_ok p" "l = fact_line p" using pairs_ok [OF assms] by auto
    then show "l \<noteq> [] \<and> (\<forall>c \<in> set l. \<not> line_break c)" using fact_ok_line(2,4) [of p] by simp
  qed
  ultimately have "split_lines [] (strip (newline # ended ?ls)) = ?ls" by (simp add: ended_joined [OF ne])
  moreover have "foldl parse_line [] ?ls = [] @ map (\<lambda>(k, v). (k, value_of v)) (pairs_of e)"
    using pairs_ok [OF assms] fact_ok_line(1) pairs_distinct by (intro parse_facts) fastforce+
  ultimately show ?thesis using pairs_values [OF assms] by simp
qed

text \<open>A header whose fields are those of an entry.\<close>

definition carried_list :: "string \<Rightarrow> string list \<Rightarrow> jdict \<Rightarrow> bool" where
  "carried_list k xs fm \<longleftrightarrow> (if xs = [] then \<not> truthy (get_json k JNull fm) else get_json k JNull fm = JList (map JStr xs))"

definition carries :: "(json \<Rightarrow> string) \<Rightarrow> entry \<Rightarrow> jdict \<Rightarrow> bool" where
  "carries shown e fm \<longleftrightarrow> get_json ''id'' (JStr '''') fm = JStr (e_id e) \<and> get_json ''type'' (JStr '''') fm = JStr (e_type e)
     \<and> carried_list ''covers'' (e_covers e) fm \<and> carried_list ''depends_on'' (e_depends e) fm
     \<and> get_json ''auto_update'' (JBool True) fm = JBool (e_auto e) \<and> get_json ''stale'' (JBool False) fm = JBool (e_stale e)
     \<and> (case e_reason e of None \<Rightarrow> \<not> truthy (get_json ''stale_reason'' JNull fm) | Some r \<Rightarrow> get_json ''stale_reason'' JNull fm = JStr r)
     \<and> get_json ''last_synced_at'' (JStr '''') fm = JStr (e_synced e) \<and> text_of shown (get_json ''schema_version'' (JInt 1) fm) = e_version e"

lemma carried_line: "carried_list k xs fm \<Longrightarrow> list_line k fm = Inr (map fact_line (list_pair k xs))"
proof -
  have "mapE (\<lambda>j. case j of JStr s \<Rightarrow> Inr s | _ \<Rightarrow> Inl No_strings) (map JStr xs) = Inr xs" by (induction xs) simp_all
  then show "carried_list k xs fm \<Longrightarrow> list_line k fm = Inr (map fact_line (list_pair k xs))"
    by (auto simp: carried_list_def list_line_def list_pair_def fact_line_def split: if_splits)
qed

lemma flag_line_fact: "get_json k (JBool d) fm = JBool b \<Longrightarrow> flag_line shown k d fm = fact_line (k, flag b)"
proof -
  have "map lower_char ''True'' = ''true''" "map lower_char ''False'' = ''false''" by code_simp+
  then show "get_json k (JBool d) fm = JBool b \<Longrightarrow> flag_line shown k d fm = fact_line (k, flag b)"
    by (cases b) (simp_all add: flag_line_def text_of_def fact_line_def flag_def)
qed

lemma carries_lines:
  assumes "carries shown e fm" "entry_ok e"
  shows "header_lines shown fm = Inr (map fact_line (pairs_of e))"
proof -
  note c = assms(1) [unfolded carries_def]
  have r: "(if truthy (get_json ''stale_reason'' JNull fm) then [text_line shown ''stale_reason'' JNull fm] else [])
      = map fact_line (case e_reason e of None \<Rightarrow> [] | Some r \<Rightarrow> [(''stale_reason'', r)])"
    using c assms(2) by (auto simp: entry_ok_def plain_text_def text_line_def text_of_def fact_line_def split: option.splits)
  have "text_line shown ''id'' (JStr '''') fm = fact_line (''id'', e_id e)" "text_line shown ''type'' (JStr '''') fm = fact_line (''type'', e_type e)"
    "text_line shown ''last_synced_at'' (JStr '''') fm = fact_line (''last_synced_at'', e_synced e)"
    "text_line shown ''schema_version'' (JInt 1) fm = fact_line (''schema_version'', e_version e)"
    "flag_line shown ''auto_update'' True fm = fact_line (''auto_update'', flag (e_auto e))" "flag_line shown ''stale'' False fm = fact_line (''stale'', flag (e_stale e))"
    using c by (simp_all add: text_line_def fact_line_def flag_line_fact [unfolded fact_line_def]) (simp_all add: text_of_def)
  moreover have "list_line ''covers'' fm = Inr (map fact_line (list_pair ''covers'' (e_covers e)))"
    "list_line ''depends_on'' fm = Inr (map fact_line (list_pair ''depends_on'' (e_depends e)))"
    using c by (simp_all add: carried_line)
  ultimately show ?thesis unfolding header_lines_def pairs_of_def r by simp
qed

lemma serialized_reads_back:
  assumes "carries shown e fm" "entry_ok e" "CHR 0x0D \<notin> set body"
  shows "\<exists>t. serialize_frontmatter shown fm body = Inr t \<and> read_text t = Some \<lparr>frontmatter = frontmatter_of e, doc_body = strip body\<rparr>"
proof -
  let ?ls = "map fact_line (pairs_of e)"
  let ?h = "ended ([] # ?ls)" let ?t = "ended ([''---''] @ ?ls @ [''---'', '''', strip body])"
  have lines: "\<forall>l \<in> set ?ls. (\<forall>c \<in> set l. \<not> line_break c) \<and> \<not> is_infix ''---'' l" using pairs_ok [OF assms(2)] fact_ok_line(4,5) by auto
  have t: "?t = ''---'' @ ?h @ ''---'' @ newline # newline # strip body @ [newline]" by simp
  have "line_break (CHR 0x0D)" by (simp add: line_break_def)
  then have "CHR 0x0D \<notin> set l" if "l \<in> set ?ls" for l using lines that by blast
  then have "CHR 0x0D \<notin> set (ended ?ls)" unfolding ended_def by auto
  then have u: "universal False ?t = ?t" using assms(3) strip_subset [of body] unfolding t by (intro universal_id) auto
  have "cut ''---'' (?h @ ''---'' @ newline # newline # strip body @ [newline]) = Some (?h, newline # newline # strip body @ [newline])"
    using lines by (intro cut_lines) auto
  then have c: "cut ''---'' (drop 3 ?t) = Some (?h, newline # newline # strip body @ [newline])" unfolding t by simp
  have "has_prefix ?t ''---''" by (simp add: has_prefix_def)
  moreover have "strip ([newline, newline] @ strip body @ [newline]) = strip body"
    by (intro strip_padded) (simp_all add: blank_def white_space_def)
  moreover have "foldl parse_line [] (split_lines [] (strip ?h)) = frontmatter_of e" using parse_pairs [OF assms(2)] by simp
  ultimately have "read_text ?t = Some \<lparr>frontmatter = frontmatter_of e, doc_body = strip body\<rparr>"
    unfolding read_text_def u parse_frontmatter_def c by simp
  then show ?thesis unfolding serialize_frontmatter_def carries_lines [OF assms(1,2)] by simp
qed

section \<open>The store keeps what it is given\<close>

definition keywords_of :: "entry \<Rightarrow> jdict" where
  "keywords_of e = [(''covers'', JList (map JStr (e_covers e))), (''depends_on'', JList (map JStr (e_depends e))), (''auto_update'', JBool (e_auto e)),
     (''stale'', JBool (e_stale e)), (''stale_reason'', str_or_null (e_reason e)), (''schema_version'', JStr (e_version e))]"

lemma written_reads_back:
  assumes "carries shown e (written_frontmatter now i tp kw)" "entry_ok e" "CHR 0x0D \<notin> set body"
    and "\<forall>(k, v) \<in> set kw. k \<notin> {''self'', ''id_'', ''type_'', ''body''}"
  shows "\<exists>ks'. write_doc shown now i tp body kw ks = (ks', None) \<and> read_doc i ks' = Some \<lparr>frontmatter = frontmatter_of e, doc_body = strip body\<rparr>
    \<and> (\<forall>p. p \<noteq> path_of i \<longrightarrow> dict_get ks' p = dict_get ks p)"
proof -
  obtain t where "serialize_frontmatter shown (written_frontmatter now i tp kw) body = Inr t" "read_text t = Some \<lparr>frontmatter = frontmatter_of e, doc_body = strip body\<rparr>"
    using serialized_reads_back [OF assms(1-3)] by blast
  moreover have "\<not> (\<exists>(k, v) \<in> set kw. k \<in> {''self'', ''id_'', ''type_'', ''body''})" using assms(4) by blast
  ultimately show ?thesis unfolding write_doc_def by (simp add: read_doc_def update_conv')
qed

lemma carries_keywords: "entry_ok e \<Longrightarrow> carries shown e (written_frontmatter (e_synced e) (e_id e) (JStr (e_type e)) (keywords_of e))"
  by (auto simp: carries_def carried_list_def written_frontmatter_def keywords_of_def dict_update_def defaulted_def get_json_def text_of_def entry_ok_def plain_text_def str_or_null_def split: option.splits)

text \<open>
  C35. What is written is read back: an entry with plain texts comes back with its header field by field,
  its lists, its flags and its body without the white space around it, and no other file changes.
\<close>

theorem knowledge_reads_back:
  assumes "entry_ok e" and "CHR 0x0D \<notin> set body"
  shows "\<exists>ks'. write_doc shown (e_synced e) (e_id e) (JStr (e_type e)) body (keywords_of e) ks = (ks', None)
    \<and> read_doc (e_id e) ks' = Some \<lparr>frontmatter = frontmatter_of e, doc_body = strip body\<rparr> \<and> (\<forall>p. p \<noteq> path_of (e_id e) \<longrightarrow> dict_get ks' p = dict_get ks p)"
  using assms carries_keywords by (intro written_reads_back) (auto simp: keywords_of_def)

definition sample_entry :: entry where
  "sample_entry = \<lparr>e_id = ''auth'', e_type = ''module'', e_covers = [''login'', ''o auth''], e_depends = [], e_auto = True, e_stale = False,
     e_reason = None, e_synced = ''2024-01-01T00:00:00Z'', e_version = ''1''\<rparr>"

lemma sample_entry_ok: "entry_ok sample_entry"
  by code_simp

theorem knowledge_reads_back_witness:
  "\<exists>ks'. write_doc (\<lambda>_. '''') ''2024-01-01T00:00:00Z'' ''auth'' (JStr ''module'') '' # Auth --- login '' (keywords_of sample_entry) [] = (ks', None)
    \<and> read_doc ''auth'' ks' = Some \<lparr>frontmatter = frontmatter_of sample_entry, doc_body = ''# Auth --- login''\<rparr>"
proof -
  have b: "strip '' # Auth --- login '' = ''# Auth --- login''" by code_simp
  show ?thesis
    using knowledge_reads_back [OF sample_entry_ok, of "'' # Auth --- login ''" "\<lambda>_. ''''" "[]"] unfolding b by (auto simp: sample_entry_def)
qed

text \<open>Both marks rewrite the header that was read with three fields replaced.\<close>

lemma frontmatter_type: "dict_get (frontmatter_of e) ''type'' = Some (JStr (e_type e))"
  by (simp add: frontmatter_of_def)

lemma get_frontmatter:
  "dict_get (frontmatter_of e) ''id'' = Some (JStr (e_id e))"
  "dict_get (frontmatter_of e) ''covers'' = (if e_covers e = [] then None else Some (JList (map JStr (e_covers e))))"
  "dict_get (frontmatter_of e) ''depends_on'' = (if e_depends e = [] then None else Some (JList (map JStr (e_depends e))))"
  "dict_get (frontmatter_of e) ''auto_update'' = Some (JBool (e_auto e))"
  "dict_get (frontmatter_of e) ''last_synced_at'' = Some (JStr (e_synced e))"
  "dict_get (frontmatter_of e) ''schema_version'' = Some (JStr (e_version e))"
  by (simp_all add: frontmatter_of_def list_entry_def split: option.splits)

lemma frontmatter_distinct: "distinct (map fst (frontmatter_of e))"
  by (simp add: frontmatter_of_def list_entry_def split: option.splits)

lemma frontmatter_keys: "fst ` set (frontmatter_of e)
    \<subseteq> {''id'', ''type'', ''covers'', ''depends_on'', ''auto_update'', ''stale'', ''stale_reason'', ''last_synced_at'', ''schema_version''}"
  by (auto simp: frontmatter_of_def list_entry_def split: option.splits)

lemma get_filtered: "dict_get (filter (\<lambda>(k, v). k \<notin> K) kw) k = (if k \<in> K then None else dict_get kw k)"
  by (induction kw) auto

lemma get_updated:
  assumes "distinct (map fst kw)"
  shows "get_json k d (dict_update l (filter (\<lambda>(k, v). k \<notin> K) kw)) = (if k \<notin> K \<and> dict_get kw k \<noteq> None then the (dict_get kw k) else get_json k d l)"
  unfolding get_json_def [of k] dict_update_get_distinct [OF distinct_map_filter [OF assms]] get_filtered by (auto split: option.split)

lemma get_written:
  assumes "distinct (map fst kw)"
  shows "get_json k d (written_frontmatter now i tp kw) =
    (if k \<notin> set defaulted \<and> dict_get kw k \<noteq> None then the (dict_get kw k)
     else get_json k d [(''id'', JStr i), (''type'', tp), (''covers'', get_json ''covers'' (JList []) kw), (''depends_on'', get_json ''depends_on'' (JList []) kw),
      (''last_synced_commit'', get_json ''last_synced_commit'' (JStr '''') kw), (''last_synced_at'', JStr now),
      (''stale'', get_json ''stale'' (JBool False) kw), (''stale_reason'', get_json ''stale_reason'' JNull kw),
      (''auto_update'', get_json ''auto_update'' (JBool True) kw), (''schema_version'', get_json ''schema_version'' (JInt 1) kw)])"
  unfolding written_frontmatter_def by (rule get_updated [OF assms])

lemma rewritten_carries:
  assumes "entry_ok e" "dict_get kw ''stale'' = Some (JBool (e_stale e))" "dict_get kw ''stale_reason'' = Some (str_or_null (e_reason e))"
    and "dict_get kw ''last_synced_at'' = Some (JStr (e_synced e))" "distinct (map fst kw)"
    and "\<forall>k. k \<notin> {''stale'', ''stale_reason'', ''last_synced_at''} \<longrightarrow> dict_get kw k = dict_get (frontmatter_of e) k"
  shows "carries shown e (written_frontmatter now i tp kw)"
proof -
  have k: "dict_get kw ''id'' = Some (JStr (e_id e))" "dict_get kw ''type'' = Some (JStr (e_type e))"
    "dict_get kw ''covers'' = (if e_covers e = [] then None else Some (JList (map JStr (e_covers e))))"
    "dict_get kw ''depends_on'' = (if e_depends e = [] then None else Some (JList (map JStr (e_depends e))))"
    "dict_get kw ''auto_update'' = Some (JBool (e_auto e))" "dict_get kw ''schema_version'' = Some (JStr (e_version e))"
    using assms(6) get_frontmatter [of e] frontmatter_type [of e] by simp_all
  have "case e_reason e of None \<Rightarrow> True | Some r \<Rightarrow> r \<noteq> ''''" using assms(1) by (auto simp: entry_ok_def plain_text_def split: option.splits)
  then show ?thesis unfolding carries_def carried_list_def get_written [OF assms(5)]
    using k assms(2-4) by (simp add: defaulted_def get_json_def text_of_def str_or_null_def split: option.splits)
qed

lemma rewrite_entry:
  assumes "entry_ok e'" "strip b = b" "CHR 0x0D \<notin> set b" "e' = e\<lparr>e_stale := s, e_reason := r, e_synced := t\<rparr>"
    and kw: "kw = dict_set ''last_synced_at'' (JStr t) (dict_set ''stale_reason'' (str_or_null r) (dict_set ''stale'' (JBool s) (frontmatter_of e)))"
  shows "\<exists>ks'. rewrite_doc shown now i \<lparr>frontmatter = frontmatter_of e, doc_body = b\<rparr> kw ks = (ks', Inr True)
    \<and> read_doc i ks' = Some \<lparr>frontmatter = frontmatter_of e', doc_body = b\<rparr>"
proof -
  have d: "distinct (map fst kw)" unfolding kw by (intro distinct_update frontmatter_distinct)
  have g: "dict_get kw k = (if k = ''last_synced_at'' then Some (JStr t) else if k = ''stale_reason'' then Some (str_or_null r)
      else if k = ''stale'' then Some (JBool s) else dict_get (frontmatter_of e) k)" for k
    unfolding kw by (simp add: update_conv')
  have "dict_get (frontmatter_of e') k = dict_get (frontmatter_of e) k" if "k \<notin> {''stale'', ''stale_reason'', ''last_synced_at''}" for k
    using that unfolding assms(4) by (simp add: frontmatter_of_def map_add_def list_entry_def split: option.splits)
  then have "carries shown e' (written_frontmatter now i tp kw)" for tp
    using assms(1) d by (intro rewritten_carries) (simp_all add: g, simp_all add: assms(4))
  moreover have "\<forall>(k, v) \<in> set kw. k \<notin> {''self'', ''id_'', ''type_'', ''body''}"
  proof -
    have "set (map fst kw) \<subseteq> {''id'', ''type'', ''covers'', ''depends_on'', ''auto_update'', ''stale'', ''stale_reason'', ''last_synced_at'', ''schema_version''}"
      using frontmatter_keys [of e] unfolding kw by (simp add: update_keys image_subset_iff)
    then show ?thesis by fastforce
  qed
  ultimately obtain ks' where "write_doc shown now i (JStr (e_type e)) b kw ks = (ks', None)" "read_doc i ks' = Some \<lparr>frontmatter = frontmatter_of e', doc_body = strip b\<rparr>"
    using written_reads_back [of shown e' now i "JStr (e_type e)" kw b ks] assms(1,3) by blast
  moreover have "dict_get kw ''type'' = Some (JStr (e_type e))" by (simp add: g frontmatter_type)
  ultimately show ?thesis using assms(2) by (simp add: rewrite_doc_def)
qed

lemma same_synced: "dict_set ''last_synced_at'' (JStr (e_synced e)) (dict_set ''stale_reason'' r (dict_set ''stale'' s (frontmatter_of e)))
    = dict_set ''stale_reason'' r (dict_set ''stale'' s (frontmatter_of e))"
  by (simp add: frontmatter_of_def list_entry_def split: option.splits)

definition marked :: "bool \<Rightarrow> string option \<Rightarrow> string \<Rightarrow> entry \<Rightarrow> entry" where
  "marked s r t e = e\<lparr>e_stale := s, e_reason := r, e_synced := t\<rparr>"

text \<open>
  Marking an entry stale and then fresh loses nothing: after the first mark it reads back with the flag, the
  reason and the time of its last synchronisation, after the second with neither and the new time; its
  type, its lists and its body are as they were.
\<close>

theorem stale_then_fresh:
  assumes "entry_ok e" and "strip b = b" and "CHR 0x0D \<notin> set b" and "reason = '''' \<or> plain_text reason" and "plain_text t2"
    and "read_doc i ks = Some \<lparr>frontmatter = frontmatter_of e, doc_body = b\<rparr>"
    and "mark_stale shown t1 i reason ks = (ks1, r1)" and "mark_fresh shown t2 i ks1 = (ks2, r2)"
  shows "r1 = Inr True \<and> r2 = Inr True
    \<and> read_doc i ks1 = Some \<lparr>frontmatter = frontmatter_of (marked True (if reason = '''' then None else Some reason) (e_synced e) e), doc_body = b\<rparr>
    \<and> read_doc i ks2 = Some \<lparr>frontmatter = frontmatter_of (marked False None t2 e), doc_body = b\<rparr>"
proof -
  let ?r = "if reason = '''' then None else Some reason"
  let ?e1 = "marked True ?r (e_synced e) e"
  have ok1: "entry_ok ?e1" using assms(1,4) by (auto simp: entry_ok_def marked_def)
  have r: "str_or_null ?r = (if reason = '''' then JNull else JStr reason)" by (simp add: str_or_null_def)
  obtain k1 where k1: "rewrite_doc shown t1 i \<lparr>frontmatter = frontmatter_of e, doc_body = b\<rparr>
      (dict_set ''stale_reason'' (str_or_null ?r) (dict_set ''stale'' (JBool True) (frontmatter_of e))) ks = (k1, Inr True)"
      "read_doc i k1 = Some \<lparr>frontmatter = frontmatter_of ?e1, doc_body = b\<rparr>"
    using rewrite_entry [OF ok1 assms(2,3) marked_def refl] unfolding same_synced by blast
  then have m1: "ks1 = k1 \<and> r1 = Inr True" using assms(7) unfolding mark_stale_def assms(6) r by simp
  have ok2: "entry_ok (marked False None t2 ?e1)" using ok1 assms(5) by (auto simp: entry_ok_def marked_def)
  obtain k2 where k2: "rewrite_doc shown t2 i \<lparr>frontmatter = frontmatter_of ?e1, doc_body = b\<rparr>
      (dict_set ''last_synced_at'' (JStr t2) (dict_set ''stale_reason'' (str_or_null None) (dict_set ''stale'' (JBool False) (frontmatter_of ?e1)))) k1 = (k2, Inr True)"
      "read_doc i k2 = Some \<lparr>frontmatter = frontmatter_of (marked False None t2 ?e1), doc_body = b\<rparr>"
    using rewrite_entry [OF ok2 assms(2,3) marked_def refl] by blast
  then have "ks2 = k2 \<and> r2 = Inr True" using assms(8) m1 unfolding mark_fresh_def by (simp add: k1(2) str_or_null_def)
  moreover have "marked False None t2 ?e1 = marked False None t2 e" by (simp add: marked_def)
  ultimately show ?thesis using m1 k1(2) k2(2) by simp
qed

definition sample_knowledge :: knowledge where
  "sample_knowledge = fst (write_doc (\<lambda>_. '''') ''2024-01-01T00:00:00Z'' ''auth'' (JStr ''module'') ''b'' (keywords_of sample_entry) [])"

theorem stale_then_fresh_witness:
  "read_doc ''auth'' (fst (mark_fresh (\<lambda>_. '''') ''t2'' ''auth'' (fst (mark_stale (\<lambda>_. '''') ''t1'' ''auth'' ''changed'' sample_knowledge))))
     = Some \<lparr>frontmatter = frontmatter_of (marked False None ''t2'' sample_entry), doc_body = ''b''\<rparr>"
proof -
  have p: "strip ''b'' = ''b''" "plain_text ''changed''" "plain_text ''t2''" by code_simp+
  have c: "CHR 0x0D \<notin> set ''b''" by simp
  have "read_doc (e_id sample_entry) (fst (write_doc (\<lambda>_. '''') (e_synced sample_entry) (e_id sample_entry) (JStr (e_type sample_entry)) ''b'' (keywords_of sample_entry) []))
      = Some \<lparr>frontmatter = frontmatter_of sample_entry, doc_body = strip ''b''\<rparr>"
    using written_reads_back [OF carries_keywords [OF sample_entry_ok] sample_entry_ok c, of "\<lambda>_. ''''" "[]"] by (auto simp: keywords_of_def)
  then have r: "read_doc ''auth'' sample_knowledge = Some \<lparr>frontmatter = frontmatter_of sample_entry, doc_body = ''b''\<rparr>"
    unfolding p(1) by (simp add: sample_knowledge_def) (simp add: sample_entry_def)
  show ?thesis
    using stale_then_fresh [OF sample_entry_ok p(1) c disjI2 [OF p(2)] p(3) r prod.collapse [symmetric] prod.collapse [symmetric], of "\<lambda>_. ''''" "''t1''"]
    by blast
qed

section \<open>What is not kept\<close>

text \<open>Dashes in a field end the header there; different identifiers share a file; the version comes back as a text, and what
  is no known field, as the last commit, is not written at all.\<close>

lemma dashes_end_header:
  "map_option frontmatter (read_doc ''x'' (fst (write_doc shown ''t'' ''x'' (JStr ''m'') ''b'' [(''stale_reason'', JStr ''a --- b'')] [])))
     = Some [(''id'', JStr ''x''), (''type'', JStr ''m''), (''auto_update'', JBool True), (''stale'', JBool False), (''stale_reason'', JStr ''a'')]"
proof -
  have t: "write_doc shown ''t'' ''x'' (JStr ''m'') ''b'' [(''stale_reason'', JStr ''a --- b'')] [] = write_doc (\<lambda>_. '''') ''t'' ''x'' (JStr ''m'') ''b'' [(''stale_reason'', JStr ''a --- b'')] []"
    by (simp add: write_doc_def serialize_frontmatter_def header_lines_def written_frontmatter_def text_line_def flag_line_def list_line_def get_json_def text_of_def dict_update_def defaulted_def Let_def)
  show ?thesis unfolding t by code_simp
qed

lemma paths_shared: "path_of ''a/b'' = path_of ''a_b''"
  by (simp add: path_of_def)

lemma commit_not_kept:
  "map_option frontmatter (read_doc ''x'' (fst (write_doc (\<lambda>_. '''') ''t'' ''x'' (JStr ''m'') ''b'' [(''last_synced_commit'', JStr ''abc''), (''owner'', JStr ''me'')] [])))
     = Some [(''id'', JStr ''x''), (''type'', JStr ''m''), (''auto_update'', JBool True), (''stale'', JBool False), (''last_synced_at'', JStr ''t''), (''schema_version'', JStr ''1'')]"
  by code_simp

end
