(* ===== verification/SnapshotStore.thy ===== *)
theory SnapshotStore
  imports Json
begin

text \<open>
  Snapshots of states by entity and version (\<^verbatim>\<open>obase/snapshot_store.py\<close>). Files are the documents in them, by name; the clock and
  fresh identifiers are arguments. The index of versions is in memory only.
\<close>

section \<open>Saving and loading\<close>

record snapshot_meta =
  snapshot_id :: string
  version :: nat
  timestamp :: rat
  labels :: jdict

record snapshots =
  index :: "(string, snapshot_meta list) dict"
  snapshot_files :: "(string, jdict) dict"

definition no_snapshots :: snapshots where
  "no_snapshots = \<lparr>index = [], snapshot_files = []\<rparr>"

definition versions_of :: "string \<Rightarrow> snapshots \<Rightarrow> snapshot_meta list" where
  "versions_of e s = (case dict_get (index s) e of None \<Rightarrow> [] | Some h \<Rightarrow> h)"

definition snapshot_file :: "string \<Rightarrow> string \<Rightarrow> string" where
  "snapshot_file e i = e @ ''_'' @ i @ ''.json''"

definition payload :: "string \<Rightarrow> snapshot_meta \<Rightarrow> jdict \<Rightarrow> jdict" where
  "payload e m st =
     [(''meta'', JDict [(''snapshot_id'', JStr (snapshot_id m)), (''version'', JInt (int (version m))), (''timestamp'', JFloat (timestamp m)),
        (''entity_id'', JStr e), (''labels'', JDict (labels m))]), (''state'', JDict st)]"

definition save_snapshot :: "string \<Rightarrow> rat \<Rightarrow> string \<Rightarrow> jdict \<Rightarrow> jdict \<Rightarrow> snapshots \<Rightarrow> snapshots \<times> snapshot_meta" where
  "save_snapshot fresh now e st lab s =
     (let h = versions_of e s;
          m = \<lparr>snapshot_id = take 12 fresh, version = length h + 1, timestamp = now, labels = lab\<rparr>
      in (\<lparr>index = dict_set e (h @ [m]) (index s),
           snapshot_files = dict_set (snapshot_file e (snapshot_id m)) (payload e m st) (snapshot_files s)\<rparr>, m))"

definition target :: "nat option \<Rightarrow> snapshot_meta list \<Rightarrow> snapshot_meta option" where
  "target v h = (if h = [] then None else case v of None \<Rightarrow> Some (last h) | Some n \<Rightarrow> List.find (\<lambda>m. version m = n) h)"

definition load_snapshot :: "string \<Rightarrow> nat option \<Rightarrow> snapshots \<Rightarrow> json option" where
  "load_snapshot e v s =
     Option.bind (target v (versions_of e s)) (\<lambda>m.
       Option.bind (dict_get (snapshot_files s) (snapshot_file e (snapshot_id m))) (\<lambda>d. Some (get_json ''state'' (JDict []) d)))"

definition list_versions :: "string \<Rightarrow> snapshots \<Rightarrow> nat list" where
  "list_versions e s = map version (versions_of e s)"

definition store_health :: "string \<Rightarrow> snapshots \<Rightarrow> jdict" where
  "store_health dir s = [(''status'', JStr ''healthy''), (''store_dir'', JStr dir), (''entity_count'', JInt (int (length (index s))))]"

text \<open>A store opened on the same folder starts with an empty index.\<close>

definition reopened :: "snapshots \<Rightarrow> snapshots" where
  "reopened s = s\<lparr>index := []\<rparr>"

section \<open>Differences\<close>

record difference =
  added :: jdict
  removed :: jdict
  changed :: "(string \<times> json \<times> json) list"

definition difference_of :: "jdict \<Rightarrow> jdict \<Rightarrow> difference" where
  "difference_of a b =
     \<lparr>added = filter (\<lambda>(k, v). dict_get a k = None) b,
      removed = filter (\<lambda>(k, v). dict_get b k = None) a,
      changed = List.map_filter (\<lambda>(k, v). case dict_get b k of None \<Rightarrow> None | Some w \<Rightarrow> if v \<noteq> w then Some (k, v, w) else None) a\<rparr>"

definition state_at :: "string \<Rightarrow> nat \<Rightarrow> snapshots \<Rightarrow> jdict" where
  "state_at e v s = (case load_snapshot e (Some v) s of None \<Rightarrow> [] | Some j \<Rightarrow> dict_or_nothing j)"

definition diff_versions :: "string \<Rightarrow> nat \<Rightarrow> nat \<Rightarrow> snapshots \<Rightarrow> difference" where
  "diff_versions e a b s = difference_of (state_at e a s) (state_at e b s)"

section \<open>Every version stays what it was\<close>

text \<open>A sequence of saves, by fresh identifier, entity and state; the states of an entity in order are its history.\<close>

fun saves :: "(string \<times> rat \<times> string \<times> jdict \<times> jdict) list \<Rightarrow> snapshots \<Rightarrow> snapshots" where
  "saves [] s = s"
| "saves ((fresh, now, e, st, lab) # ops) s = saves ops (fst (save_snapshot fresh now e st lab s))"

definition states_of :: "string \<Rightarrow> (string \<times> rat \<times> string \<times> jdict \<times> jdict) list \<Rightarrow> jdict list" where
  "states_of e ops = map (\<lambda>(fresh, now, e, st, lab). st) (filter (\<lambda>(fresh, now, e', st, lab). e' = e) ops)"

definition fresh_ids :: "(string \<times> rat \<times> string \<times> jdict \<times> jdict) list \<Rightarrow> string list" where
  "fresh_ids ops = map (\<lambda>(fresh, now, e, st, lab). take 12 fresh) ops"

text \<open>The index numbers the versions from one, each has its file, and the files in use have identifiers among those given out.\<close>

definition keeps :: "snapshots \<Rightarrow> (string \<Rightarrow> jdict list) \<Rightarrow> string set \<Rightarrow> bool" where
  "keeps s hist used \<longleftrightarrow> (\<forall>e. map version (versions_of e s) = [1..<length (hist e) + 1]
     \<and> list_all2 (\<lambda>m st. snapshot_id m \<in> used \<and> length (snapshot_id m) = 12
         \<and> dict_get (snapshot_files s) (snapshot_file e (snapshot_id m)) = Some (payload e m st)) (versions_of e s) (hist e))"

lemma snapshot_file_inj: "length i = length j \<Longrightarrow> snapshot_file e i = snapshot_file f j \<longleftrightarrow> e = f \<and> i = j"
  by (auto simp: snapshot_file_def)

lemma keeps_save:
  assumes "keeps s hist used" "length fresh \<ge> 12" "take 12 fresh \<notin> used"
  shows "keeps (fst (save_snapshot fresh now e st lab s)) (\<lambda>k. if k = e then hist e @ [st] else hist k) (insert (take 12 fresh) used)"
proof -
  let ?i = "take 12 fresh" let ?s = "fst (save_snapshot fresh now e st lab s)"
  let ?m = "\<lparr>snapshot_id = ?i, version = length (versions_of e s) + 1, timestamp = now, labels = lab\<rparr>"
  have v: "versions_of k ?s = (if k = e then versions_of e s @ [?m] else versions_of k s)" for k
    by (simp add: versions_of_def save_snapshot_def update_conv' Let_def)
  have f: "dict_get (snapshot_files ?s) n = (if n = snapshot_file e ?i then Some (payload e ?m st) else dict_get (snapshot_files s) n)" for n
    by (simp add: save_snapshot_def update_conv' Let_def)
  have kept: "list_all2 (\<lambda>m st. snapshot_id m \<in> insert ?i used \<and> length (snapshot_id m) = 12
         \<and> dict_get (snapshot_files ?s) (snapshot_file k (snapshot_id m)) = Some (payload k m st)) (versions_of k s) (hist k)" for k
  proof (rule list_all2_mono)
    show "list_all2 (\<lambda>m st. snapshot_id m \<in> used \<and> length (snapshot_id m) = 12
         \<and> dict_get (snapshot_files s) (snapshot_file k (snapshot_id m)) = Some (payload k m st)) (versions_of k s) (hist k)"
      using assms(1) by (simp add: keeps_def)
    fix m x assume "snapshot_id m \<in> used \<and> length (snapshot_id m) = 12 \<and> dict_get (snapshot_files s) (snapshot_file k (snapshot_id m)) = Some (payload k m x)"
    then show "snapshot_id m \<in> insert ?i used \<and> length (snapshot_id m) = 12
         \<and> dict_get (snapshot_files ?s) (snapshot_file k (snapshot_id m)) = Some (payload k m x)"
      using assms(2,3) f snapshot_file_inj [of "snapshot_id m" ?i k e] by auto
  qed
  have n: "map version (versions_of k s) = [1..<length (hist k) + 1]" for k using assms(1) by (simp add: keeps_def)
  have "length (versions_of e s) = length [1..<length (hist e) + 1]" using n [of e] by (metis length_map)
  then have l: "length (versions_of e s) = length (hist e)" by (simp only: length_upt)
  have new: "list_all2 (\<lambda>m st. snapshot_id m \<in> insert ?i used \<and> length (snapshot_id m) = 12
         \<and> dict_get (snapshot_files ?s) (snapshot_file e (snapshot_id m)) = Some (payload e m st)) [?m] [st]"
    using f assms(2) by simp
  show ?thesis unfolding keeps_def v
  proof (intro allI conjI)
    fix k
    show "map version (if k = e then versions_of e s @ [?m] else versions_of k s) = [1..<length (if k = e then hist e @ [st] else hist k) + 1]"
    proof (cases "k = e")
      case True
      have u: "[1..<length (hist e @ [st]) + 1] = [1..<length (hist e) + 1] @ [length (hist e) + 1]" by simp
      show ?thesis by (simp only: True if_True u map_append n list.map snapshot_meta.select_convs l simp_thms)
    qed (simp only: n if_False)
    show "list_all2 (\<lambda>m st. snapshot_id m \<in> insert ?i used \<and> length (snapshot_id m) = 12
         \<and> dict_get (snapshot_files ?s) (snapshot_file k (snapshot_id m)) = Some (payload k m st))
        (if k = e then versions_of e s @ [?m] else versions_of k s) (if k = e then hist e @ [st] else hist k)"
      using kept [of k] list_all2_appendI [OF kept [of e] new] by simp
  qed
qed

lemma keeps_saves:
  assumes "keeps s hist used" "distinct (fresh_ids ops)" "set (fresh_ids ops) \<inter> used = {}" "\<forall>i \<in> set (fresh_ids ops). length i = 12"
  shows "keeps (saves ops s) (\<lambda>e. hist e @ states_of e ops) (set (fresh_ids ops) \<union> used)"
  using assms
proof (induction ops arbitrary: s hist used)
  case (Cons op ops)
  obtain fresh now e st lab where op: "op = (fresh, now, e, st, lab)" by (cases op)
  have ids: "fresh_ids (op # ops) = take 12 fresh # fresh_ids ops" by (simp add: op fresh_ids_def)
  note prems = Cons.prems [unfolded ids]
  have "keeps (fst (save_snapshot fresh now e st lab s)) (\<lambda>k. if k = e then hist e @ [st] else hist k) (insert (take 12 fresh) used)"
  proof (rule keeps_save)
    show "keeps s hist used" by (rule Cons.prems(1))
    have "length (take 12 fresh) = 12" using prems(4) by (metis list.set_intros(1))
    then show "12 \<le> length fresh" by simp
    show "take 12 fresh \<notin> used" using prems(3) by auto
  qed
  then have "keeps (saves ops (fst (save_snapshot fresh now e st lab s))) (\<lambda>k. (if k = e then hist e @ [st] else hist k) @ states_of k ops)
      (set (fresh_ids ops) \<union> insert (take 12 fresh) used)"
  proof (rule Cons.IH)
    show "distinct (fresh_ids ops)" using prems(2) by simp
    show "\<forall>i \<in> set (fresh_ids ops). length i = 12" using prems(4) by (metis list.set_intros(2))
    show "set (fresh_ids ops) \<inter> insert (take 12 fresh) used = {}" using prems(2,3) by auto
  qed
  moreover have "(\<lambda>k. (if k = e then hist e @ [st] else hist k) @ states_of k ops) = (\<lambda>k. hist k @ states_of k (op # ops))"
    by (auto simp: states_of_def op)
  moreover have "set (fresh_ids ops) \<union> insert (take 12 fresh) used = set (fresh_ids (op # ops)) \<union> used" unfolding ids by simp
  ultimately show ?case unfolding op saves.simps by metis
qed (simp add: fresh_ids_def states_of_def)

lemma find_version:
  assumes "map version h = [1..<length h + 1]"
  shows "List.find (\<lambda>m. version m = v) h = (if 1 \<le> v \<and> v \<le> length h then Some (h ! (v - 1)) else None)"
proof -
  have n: "version (h ! i) = i + 1" if "i < length h" for i
    using arg_cong [OF assms, of "\<lambda>xs. xs ! i"] that by (simp del: upt_Suc)
  show ?thesis
  proof (cases "1 \<le> v \<and> v \<le> length h")
    case True
    then obtain i where i: "v = Suc i" "i < length h" by (cases v) auto
    then have "version (h ! j) \<noteq> Suc i" if "j < i" for j using n [of j] that by simp
    then have "List.find (\<lambda>m. version m = v) h = Some (h ! i)"
      unfolding find_Some_iff using n [of i] i by (intro exI [of _ i]) simp
    then show ?thesis using True i by simp
  next
    case False
    then have "version m \<noteq> v" if "m \<in> set h" for m using that n by (auto simp: in_set_conv_nth)
    then have "List.find (\<lambda>m. version m = v) h = None" by (simp add: find_None_iff)
    then show ?thesis by (simp only: False if_False)
  qed
qed

text \<open>
  Whatever is saved in whatever order, the versions of an entity are numbered from one in the order of its saves,
  every version loads as the state saved then, the latest as the last one, and other numbers load nothing.
\<close>

theorem versions_never_change:
  assumes "distinct (fresh_ids ops)" and "\<forall>i \<in> set (fresh_ids ops). length i = 12"
  shows "list_versions e (saves ops no_snapshots) = [1..<length (states_of e ops) + 1]
    \<and> load_snapshot e (Some v) (saves ops no_snapshots) = (if 1 \<le> v \<and> v \<le> length (states_of e ops) then Some (JDict (states_of e ops ! (v - 1))) else None)
    \<and> load_snapshot e None (saves ops no_snapshots) = (if states_of e ops = [] then None else Some (JDict (last (states_of e ops))))"
proof -
  let ?s = "saves ops no_snapshots" let ?h = "versions_of e ?s" let ?x = "states_of e ops"
  have "keeps no_snapshots (\<lambda>_. []) {}" by (simp add: keeps_def no_snapshots_def versions_of_def)
  from keeps_saves [OF this assms(1) _ assms(2)] have k: "map version ?h = [1..<length ?x + 1]"
    "list_all2 (\<lambda>m st. dict_get (snapshot_files ?s) (snapshot_file e (snapshot_id m)) = Some (payload e m st)) ?h ?x"
    by (simp_all add: keeps_def list_all2_conv_all_nth del: upt_Suc)
  then have l: "length ?h = length ?x" by (simp add: list_all2_lengthD)
  have p: "Option.bind (dict_get (snapshot_files ?s) (snapshot_file e (snapshot_id (?h ! i)))) (\<lambda>d. Some (get_json ''state'' (JDict []) d)) = Some (JDict (?x ! i))"
    if "i < length ?x" for i
    using list_all2_nthD2 [OF k(2), of i] that by (simp add: payload_def get_json_def)
  have "load_snapshot e (Some v) ?s = (if 1 \<le> v \<and> v \<le> length ?x then Some (JDict (?x ! (v - 1))) else None)"
    using p [of "v - 1"] find_version [of ?h v] k(1) l by (auto simp: load_snapshot_def target_def simp del: upt_Suc)
  moreover have "load_snapshot e None ?s = (if ?x = [] then None else Some (JDict (last ?x)))"
    using p [of "length ?x - 1"] l by (auto simp: load_snapshot_def target_def last_conv_nth)
  ultimately show ?thesis using k(1) by (simp add: list_versions_def del: upt_Suc)
qed

definition sample_saves :: "(string \<times> rat \<times> string \<times> jdict \<times> jdict) list" where
  "sample_saves = [(''aaaaaaaaaaaa'', 1, ''x'', [(''n'', JInt 1)], []), (''bbbbbbbbbbbb'', 2, ''y'', [], []), (''cccccccccccc'', 3, ''x'', [(''n'', JInt 2)], [])]"

theorem versions_never_change_witness:
  "load_snapshot ''x'' (Some 1) (saves sample_saves no_snapshots) = Some (JDict [(''n'', JInt 1)])"
proof -
  have "distinct (fresh_ids sample_saves)" "\<forall>i \<in> set (fresh_ids sample_saves). length i = 12"
    by (simp_all add: fresh_ids_def sample_saves_def)
  from versions_never_change [OF this, of "''x''" 1] show ?thesis by (simp add: states_of_def sample_saves_def)
qed

section \<open>Differences are patches\<close>

definition patched :: "difference \<Rightarrow> jdict \<Rightarrow> jdict" where
  "patched d a = filter (\<lambda>(k, v). dict_get (removed d) k = None)
       (map (\<lambda>(k, v). (k, case dict_get (changed d) k of None \<Rightarrow> v | Some (x, w) \<Rightarrow> w)) a) @ added d"

lemma get_filter_keys: "dict_get (filter (\<lambda>(k, v). P k) d) k = (if P k then dict_get d k else None)"
  by (induction d) auto

lemma get_map_values: "dict_get (map (\<lambda>(k, v). (k, f k v)) d) k = map_option (f k) (dict_get d k)"
  by (induction d) auto

lemma get_changed: "distinct (map fst a) \<Longrightarrow> dict_get (changed (difference_of a b)) k =
    (case dict_get a k of None \<Rightarrow> None | Some v \<Rightarrow> (case dict_get b k of None \<Rightarrow> None | Some w \<Rightarrow> if v \<noteq> w then Some (v, w) else None))"
proof (induction a)
  case (Cons p a)
  obtain j v where p: "p = (j, v)" by (cases p)
  have "dict_get a j = None" using Cons.prems p by (simp add: map_of_eq_None_iff)
  then show ?case using Cons by (auto simp: p difference_of_def map_filter_simps split: option.splits)
qed (simp add: difference_of_def map_filter_simps)

text \<open>
  The difference of two states is exact: applied to the first it gives the second, the added entries are those of the second alone,
  the removed ones those of the first alone, and an entry is changed exactly when both have it with different values.
\<close>

theorem difference_is_patch:
  assumes "distinct (map fst a)" and "distinct (map fst b)"
  shows "dict_get (patched (difference_of a b) a) = dict_get b"
    "dict_get (added (difference_of a b)) k = (if dict_get a k = None then dict_get b k else None)
     \<and> dict_get (removed (difference_of a b)) k = (if dict_get b k = None then dict_get a k else None)"
proof -
  have ar: "dict_get (added (difference_of a b)) k = (if dict_get a k = None then dict_get b k else None)"
    "dict_get (removed (difference_of a b)) k = (if dict_get b k = None then dict_get a k else None)" for k
    by (simp_all add: difference_of_def get_filter_keys [of "\<lambda>k. dict_get _ k = None", simplified])
  then show "dict_get (added (difference_of a b)) k = (if dict_get a k = None then dict_get b k else None)
     \<and> dict_get (removed (difference_of a b)) k = (if dict_get b k = None then dict_get a k else None)" by blast
  show "dict_get (patched (difference_of a b) a) = dict_get b"
  proof
    fix k
    show "dict_get (patched (difference_of a b) a) k = dict_get b k"
      unfolding patched_def map_of_append map_add_def ar get_filter_keys get_map_values get_changed [OF assms(1)]
      by (auto split: option.splits)
  qed
qed

theorem difference_is_patch_witness:
  "dict_get (patched (difference_of [(''a'', JInt 1), (''b'', JInt 1)] [(''b'', JInt 2), (''c'', JInt 3)]) [(''a'', JInt 1), (''b'', JInt 1)]) ''b'' = Some (JInt 2)"
  using difference_is_patch(1) [of "[(''a'', JInt 1), (''b'', JInt 1)]" "[(''b'', JInt 2), (''c'', JInt 3)]"] by simp

section \<open>What is not kept\<close>

text \<open>The versions do not survive the store that saved them, and a new store starts numbering at one again. A version that never was
  counts as an empty state in a difference.\<close>

lemma reopened_forgets: "load_snapshot e v (reopened s) = None" "version (snd (save_snapshot fresh now e st lab (reopened s))) = 1"
  by (simp_all add: load_snapshot_def target_def versions_of_def reopened_def save_snapshot_def Let_def)

lemma missing_version_is_empty: "target (Some a) (versions_of e s) = None \<Longrightarrow> diff_versions e a b s = \<lparr>added = state_at e b s, removed = [], changed = []\<rparr>"
  by (simp add: diff_versions_def difference_of_def state_at_def load_snapshot_def map_filter_simps)

end
