(* ===== verification/ToolSchemas.thy ===== *)
theory ToolSchemas
  imports Json Python_Text
begin

text \<open>
  The registry of tools and their schemas (\<^verbatim>\<open>obase/tool_registry/\<close>). A function is what inspection tells of it: its module and
  name, its documentation and its parameters. The schema of a model with given fields is an argument.
\<close>

section \<open>Registration\<close>

abbreviation (input) line_end :: char where
  "line_end \<equiv> CHR 0x0A"

datatype annotation = Annotation (annotation_name: string) (tuple_origin: bool)

record parameter =
  keyword_only :: bool
  annotation :: "annotation option"
  default :: "json option"

record tool_fn =
  fn_module :: string
  fn_name :: string
  fn_doc :: "string option"
  parameters :: "(string, parameter) dict"

datatype permission = Read_tool | Write_tool

datatype stability = Stable | Beta | Experimental

record tool_meta =
  tool_name :: string
  tool_fn :: tool_fn
  tool_permission :: permission
  tool_stability :: stability
  tool_description :: string
  requires_secrets :: "string list"

type_synonym tool_registry = "(string, tool_meta) dict"

datatype tool_error = Tool_conflict string | Not_keyword_only string | No_annotation string | Forbidden_type string string | Tuple_type string | Name_too_long string

text \<open>Functions of three packages are named without their modules.\<close>

definition full_name :: "tool_fn \<Rightarrow> string" where
  "full_name f = (let p = hd (split_on (CHR ''.'') (fn_module f)) in
     if p \<in> {''oprim'', ''oskill'', ''omodul''} then p @ ''.'' @ fn_name f else fn_module f @ ''.'' @ fn_name f)"

definition doc_text :: "tool_fn \<Rightarrow> string" where
  "doc_text f = (case fn_doc f of None \<Rightarrow> [] | Some d \<Rightarrow> d)"

definition register_tool :: "permission \<Rightarrow> stability \<Rightarrow> string list \<Rightarrow> tool_fn \<Rightarrow> tool_registry \<Rightarrow> tool_registry \<times> tool_error option" where
  "register_tool perm stab secrets f r =
     (let n = full_name f in
      if dict_get r n \<noteq> None then (r, Some (Tool_conflict n))
      else (dict_set n \<lparr>tool_name = n, tool_fn = f, tool_permission = perm, tool_stability = stab,
              tool_description = hd (split_on line_end (strip (doc_text f))), requires_secrets = secrets\<rparr> r, None))"

definition get_tool :: "string \<Rightarrow> tool_registry \<Rightarrow> tool_meta option" where
  "get_tool n r = dict_get r n"

definition has_tool :: "string \<Rightarrow> tool_registry \<Rightarrow> bool" where
  "has_tool n r = (dict_get r n \<noteq> None)"

definition list_tools :: "permission option \<Rightarrow> stability option \<Rightarrow> tool_registry \<Rightarrow> tool_meta list" where
  "list_tools perm stab r =
     (let ts = map snd r;
          ts = (case perm of None \<Rightarrow> ts | Some p \<Rightarrow> filter (\<lambda>t. tool_permission t = p) ts)
      in case stab of None \<Rightarrow> ts | Some s \<Rightarrow> filter (\<lambda>t. tool_stability t = s) ts)"

definition clear_tools :: "tool_registry \<Rightarrow> tool_registry" where
  "clear_tools r = []"

section \<open>Descriptions of parameters\<close>

record arg_state =
  found :: "(string, string) dict"
  current_arg :: "string option"
  current_desc :: "string list"
  arg_indent :: "nat option"

definition section_headers :: "string list" where
  "section_headers = [''Returns:'', ''Raises:'', ''Yields:'', ''Examples:'', ''Note:'', ''Notes:'']"

definition flushed :: "arg_state \<Rightarrow> arg_state" where
  "flushed st = (case current_arg st of
     Some (c # cs) \<Rightarrow> st\<lparr>found := dict_set (c # cs) (strip (join_with (CHR '' '') (current_desc st))) (found st)\<rparr>
   | _ \<Rightarrow> st)"

definition started :: "string \<Rightarrow> arg_state \<Rightarrow> arg_state" where
  "started s st = (let d = strip (tl (dropWhile (\<lambda>c. c \<noteq> CHR '':'') s)) in
     st\<lparr>current_arg := Some (strip (takeWhile (\<lambda>c. c \<noteq> CHR '':'') s)), current_desc := (if d = [] then [] else [d])\<rparr>)"

definition indent_of :: "string \<Rightarrow> nat" where
  "indent_of l = length l - length (dropWhile white_space l)"

text \<open>A line of the section: a parameter, a continuation of its description, or neither.\<close>

definition arg_line :: "string \<Rightarrow> arg_state \<Rightarrow> arg_state" where
  "arg_line l st =
     (let s = strip l in
      if s = ''Args:'' \<or> s = [] then st
      else
        let ai = (case arg_indent st of None \<Rightarrow> indent_of l | Some n \<Rightarrow> n);
            st = st\<lparr>arg_indent := Some ai\<rparr>
        in if indent_of l = ai \<and> CHR '':'' \<in> set s then started s (flushed st)
           else if ai < indent_of l \<and> current_arg st \<noteq> None then st\<lparr>current_desc := current_desc st @ [s]\<rparr>
           else st)"

fun scan_args :: "arg_state \<Rightarrow> string list \<Rightarrow> arg_state" where
  "scan_args st [] = st"
| "scan_args st (l # ls) = (if strip l \<in> set section_headers then st else scan_args (arg_line l st) ls)"

definition parse_docstring_args :: "string \<Rightarrow> (string, string) dict" where
  "parse_docstring_args t = found (flushed (scan_args \<lparr>found = [], current_arg = None, current_desc = [], arg_indent = None\<rparr>
     (dropWhile (\<lambda>l. strip l \<noteq> ''Args:'') (split_on line_end t))))"

section \<open>Schemas\<close>

definition forbidden_types :: "string list" where
  "forbidden_types = [''Path'', ''datetime'', ''date'', ''bytes'', ''tuple'']"

definition validate_param_type :: "string \<Rightarrow> annotation \<Rightarrow> tool_error option" where
  "validate_param_type p a =
     (if annotation_name a \<in> set forbidden_types then Some (Forbidden_type p (annotation_name a))
      else if tuple_origin a then Some (Tuple_type p) else None)"

record field_spec =
  field_type :: annotation
  field_default :: "json option"
  field_description :: string

fun args_fields :: "(string, string) dict \<Rightarrow> (string, parameter) dict \<Rightarrow> tool_error + (string, field_spec) dict" where
  "args_fields docs [] = Inr []"
| "args_fields docs ((p, x) # ps) =
     (if \<not> keyword_only x then Inl (Not_keyword_only p)
      else (case annotation x of
          None \<Rightarrow> Inl (No_annotation p)
        | Some a \<Rightarrow> (case validate_param_type p a of
              Some e \<Rightarrow> Inl e
            | None \<Rightarrow> bindE (args_fields docs ps) (\<lambda>fs. Inr ((p, \<lparr>field_type = a, field_default = default x,
                  field_description = (case dict_get docs p of None \<Rightarrow> [] | Some d \<Rightarrow> d)\<rparr>) # fs)))))"

definition build_args_model :: "tool_fn \<Rightarrow> tool_error + (string, field_spec) dict" where
  "build_args_model f = args_fields (parse_docstring_args (doc_text f)) (parameters f)"

definition safe_name :: "string \<Rightarrow> string" where
  "safe_name n = concat (map (\<lambda>c. if c = CHR ''.'' then ''__'' else [c]) n)"

type_synonym schema_of = "string \<Rightarrow> (string, field_spec) dict \<Rightarrow> json"

definition tool_schema :: "schema_of \<Rightarrow> tool_meta \<Rightarrow> tool_error + (string \<times> json)" where
  "tool_schema sch m = bindE (build_args_model (tool_fn m)) (\<lambda>fs.
     let n = safe_name (tool_name m) in
     if 64 < length n then Inl (Name_too_long n) else Inr (n, sch (fn_name (tool_fn m) @ ''_args'') fs))"

definition to_openai_tool :: "schema_of \<Rightarrow> tool_meta \<Rightarrow> tool_error + jdict" where
  "to_openai_tool sch m = bindE (tool_schema sch m) (\<lambda>(n, s). Inr
     [(''type'', JStr ''function''), (''function'', JDict [(''name'', JStr n), (''description'', JStr (tool_description m)), (''parameters'', s)])])"

definition to_anthropic_tool :: "schema_of \<Rightarrow> tool_meta \<Rightarrow> tool_error + jdict" where
  "to_anthropic_tool sch m = bindE (tool_schema sch m) (\<lambda>(n, s). Inr
     [(''name'', JStr n), (''description'', JStr (tool_description m)), (''input_schema'', s)])"

section \<open>Descriptions are read as written\<close>

text \<open>A parameter with a description of several lines, the later ones further in.\<close>

definition pad :: "nat \<Rightarrow> string" where
  "pad n = replicate n (CHR '' '')"

definition arg_lines :: "nat \<Rightarrow> string \<times> string \<times> string list \<Rightarrow> string list" where
  "arg_lines i a = (case a of (n, d, ds) \<Rightarrow> (pad i @ n @ '': '' @ d) # map (\<lambda>x. pad (i + 4) @ x) ds)"

definition arg_ok :: "string \<times> string \<times> string list \<Rightarrow> bool" where
  "arg_ok a = (case a of (n, d, ds) \<Rightarrow> n \<noteq> [] \<and> strip n = n \<and> CHR '':'' \<notin> set n \<and> d \<noteq> [] \<and> strip d = d
     \<and> (\<forall>x \<in> set ds. x \<noteq> [] \<and> strip x = x \<and> x \<noteq> ''Args:'' \<and> x \<notin> set section_headers))"

lemma blank_pad: "blank (pad n)"
  by (simp add: blank_def pad_def white_space_def)

lemma strip_pad: "strip x = x \<Longrightarrow> strip (pad n @ x) = x"
  using strip_padded [OF blank_pad, of "[]" x] by (simp add: blank_def)

lemma indent_pad: "x \<noteq> [] \<Longrightarrow> strip x = x \<Longrightarrow> indent_of (pad n @ x) = n"
proof -
  assume "x \<noteq> []" "strip x = x"
  then have "dropWhile white_space (pad n @ x) = x"
    using strip_fixed [of x] blank_pad [of n] by (simp add: dropWhile_append2 blank_def)
  then show ?thesis by (simp add: indent_of_def pad_def)
qed

lemma scan_continued:
  assumes "\<forall>x \<in> set ds. x \<noteq> [] \<and> strip x = x \<and> x \<noteq> ''Args:'' \<and> x \<notin> set section_headers" "current_arg st \<noteq> None" "arg_indent st = Some i"
  shows "scan_args st (map (\<lambda>x. pad (i + 4) @ x) ds @ rest) = scan_args (st\<lparr>current_desc := current_desc st @ ds\<rparr>) rest"
  using assms
proof (induction ds arbitrary: st)
  case (Cons x ds)
  let ?st = "st\<lparr>current_desc := current_desc st @ [x]\<rparr>"
  have x: "x \<noteq> []" "strip (pad (i + 4) @ x) = x" "x \<noteq> ''Args:''" "x \<notin> set section_headers" "indent_of (pad (i + 4) @ x) = i + 4"
    using Cons.prems(1) strip_pad [of x] indent_pad [of x] by simp_all
  have "st\<lparr>arg_indent := Some i\<rparr> = st" using Cons.prems(3) by (cases st) simp
  then have "arg_line (pad (i + 4) @ x) st = ?st" using x Cons.prems(2,3) by (simp add: arg_line_def Let_def)
  moreover have "scan_args ?st (map (\<lambda>x. pad (i + 4) @ x) ds @ rest) = scan_args (?st\<lparr>current_desc := current_desc ?st @ ds\<rparr>) rest"
    using Cons.prems by (intro Cons.IH) simp_all
  ultimately show ?case using x(2,4) by simp
qed simp

lemma scan_arg:
  assumes "arg_ok (n, d, ds)" "arg_indent st \<in> {None, Some i}"
  shows "scan_args st (arg_lines i (n, d, ds) @ rest)
    = scan_args \<lparr>found = found (flushed st), current_arg = Some n, current_desc = d # ds, arg_indent = Some i\<rparr> rest"
proof -
  let ?s = "n @ '': '' @ d" let ?l = "pad i @ ?s"
  have a: "n \<noteq> []" "strip n = n" "CHR '':'' \<notin> set n" "d \<noteq> []" "strip d = d" using assms(1) by (simp_all add: arg_ok_def)
  then have s: "strip ?s = ?s" using strip_ends [of n] strip_ends [of d] by (intro strip_id) simp_all
  have h: "CHR '' '' \<in> set ?s" by simp
  then have h: "?s \<noteq> ''Args:''" "?s \<notin> set section_headers" "?s \<noteq> []" by (auto simp: section_headers_def simp del: set_append)
  have tw: "takeWhile (\<lambda>c. c \<noteq> CHR '':'') ?s = n" "dropWhile (\<lambda>c. c \<noteq> CHR '':'') ?s = '': '' @ d"
    using a(3) by (auto simp: takeWhile_append dropWhile_append)
  have l: "arg_line ?l st = started ?s (flushed (st\<lparr>arg_indent := Some i\<rparr>))"
    using assms(2) h strip_pad [OF s] indent_pad [OF h(3) s] by (auto simp: arg_line_def Let_def)
  have f: "flushed (st\<lparr>arg_indent := Some i\<rparr>) = (flushed st)\<lparr>arg_indent := Some i\<rparr>" by (simp add: flushed_def split: option.split list.split)
  have "started ?s ((flushed st)\<lparr>arg_indent := Some i\<rparr>) = \<lparr>found = found (flushed st), current_arg = Some n, current_desc = [d], arg_indent = Some i\<rparr>"
    unfolding started_def tw using a by (cases "flushed st") (simp add: strip_space)
  then have "arg_line ?l st = \<lparr>found = found (flushed st), current_arg = Some n, current_desc = [d], arg_indent = Some i\<rparr>" unfolding l f .
  moreover have "scan_args \<lparr>found = found (flushed st), current_arg = Some n, current_desc = [d], arg_indent = Some i\<rparr> (map (\<lambda>x. pad (i + 4) @ x) ds @ rest)
      = scan_args \<lparr>found = found (flushed st), current_arg = Some n, current_desc = d # ds, arg_indent = Some i\<rparr> rest"
    using assms(1) scan_continued [of ds "\<lparr>found = found (flushed st), current_arg = Some n, current_desc = [d], arg_indent = Some i\<rparr>" i rest]
    by (simp add: arg_ok_def)
  ultimately show ?thesis using h strip_pad [OF s, of i] by (simp add: arg_lines_def)
qed

lemma scan_all:
  assumes "\<forall>a \<in> set as. arg_ok a" "distinct (map fst as)" "fst ` set (found (flushed st)) \<inter> fst ` set as = {}" "arg_indent st \<in> {None, Some i}"
    and "rest = [] \<or> strip (hd rest) \<in> set section_headers"
  shows "found (flushed (scan_args st (concat (map (arg_lines i) as) @ rest)))
    = found (flushed st) @ map (\<lambda>(n, d, ds). (n, strip (join_with (CHR '' '') (d # ds)))) as"
  using assms(1-4)
proof (induction as arbitrary: st)
  case Nil
  then show ?case using assms(5) by (cases rest) auto
next
  case (Cons a as)
  obtain n d ds where a: "a = (n, d, ds)" by (cases a)
  let ?st = "\<lparr>found = found (flushed st), current_arg = Some n, current_desc = d # ds, arg_indent = Some i\<rparr>"
  have "n \<noteq> []" using Cons.prems(1) by (simp add: a arg_ok_def)
  then have "flushed ?st = ?st\<lparr>found := dict_set n (strip (join_with (CHR '' '') (d # ds))) (found (flushed st))\<rparr>"
    by (cases n) (simp_all add: flushed_def)
  then have f: "found (flushed ?st) = found (flushed st) @ [(n, strip (join_with (CHR '' '') (d # ds)))]"
    using Cons.prems(3) by (simp add: a dict_set_new)
  have "scan_args st (concat (map (arg_lines i) (a # as)) @ rest) = scan_args ?st (concat (map (arg_lines i) as) @ rest)"
    using scan_arg [of n d ds st i "concat (map (arg_lines i) as) @ rest"] Cons.prems(1,4) by (simp add: a)
  moreover have "found (flushed (scan_args ?st (concat (map (arg_lines i) as) @ rest)))
      = found (flushed ?st) @ map (\<lambda>(n, d, ds). (n, strip (join_with (CHR '' '') (d # ds)))) as"
  proof (rule Cons.IH)
    show "fst ` set (found (flushed ?st)) \<inter> fst ` set as = {}" unfolding f using Cons.prems(2,3) by (auto simp: a)
  qed (use Cons.prems in simp_all)
  ultimately show ?case unfolding f by (simp add: a)
qed

lemma split_joined: "ls \<noteq> [] \<Longrightarrow> \<forall>l \<in> set ls. c \<notin> set l \<Longrightarrow> split_on c (join_with c ls) = ls"
  by (induction c ls rule: join_with.induct) (simp_all add: split_on_single split_on_append)

text \<open>
  Whatever stands before the section of parameters and in whatever depth it is written, every parameter is found once, in order, with
  the lines of its description joined, and nothing after the header of a known section is taken for a parameter.
\<close>

theorem docstring_args_read:
  assumes "\<forall>a \<in> set as. arg_ok a" and "distinct (map fst as)" and "rest = [] \<or> strip (hd rest) \<in> set section_headers"
    and "\<forall>l \<in> set before. strip l \<noteq> ''Args:''" and "ls = before @ (pad j @ ''Args:'') # concat (map (arg_lines i) as) @ rest"
    and "\<forall>l \<in> set ls. line_end \<notin> set l"
  shows "parse_docstring_args (join_with line_end ls) = map (\<lambda>(n, d, ds). (n, strip (join_with (CHR '' '') (d # ds)))) as"
proof -
  let ?st = "\<lparr>found = [], current_arg = None, current_desc = [], arg_indent = None\<rparr>"
  have s: "strip ''Args:'' = ''Args:''" by (rule strip_id) (simp_all add: white_space_def)
  have a: "strip (pad j @ ''Args:'') = ''Args:''" using strip_pad [OF s] .
  have "split_on line_end (join_with line_end ls) = ls" using assms(5,6) by (intro split_joined) simp_all
  moreover have "dropWhile (\<lambda>l. strip l \<noteq> ''Args:'') ls = (pad j @ ''Args:'') # concat (map (arg_lines i) as) @ rest"
    using assms(4) unfolding assms(5) by (simp add: dropWhile_append2 a)
  moreover have "arg_line (pad j @ ''Args:'') ?st = ?st" by (simp add: arg_line_def a)
  ultimately have "parse_docstring_args (join_with line_end ls) = found (flushed (scan_args ?st (concat (map (arg_lines i) as) @ rest)))"
    by (simp add: parse_docstring_args_def a section_headers_def)
  also have "\<dots> = found (flushed ?st) @ map (\<lambda>(n, d, ds). (n, strip (join_with (CHR '' '') (d # ds)))) as"
    using assms(1-3) by (intro scan_all) (simp_all add: flushed_def)
  finally show ?thesis by (simp add: flushed_def)
qed

theorem docstring_args_read_witness:
  "parse_docstring_args (join_with line_end [''Adds.'', '''', ''  Args:'', ''    a: First'', ''        number.'', ''    b: Second.'', ''  Returns:'', ''    c: Sum.''])
     = [(''a'', ''First number.''), (''b'', ''Second.'')]"
proof -
  let ?as = "[(''a'', ''First'', [''number.'']), (''b'', ''Second.'', [])]"
  have a: "\<forall>a \<in> set ?as. arg_ok a" "distinct (map fst ?as)" by code_simp+
  have b: "\<forall>l \<in> set [''Adds.'', '''']. strip l \<noteq> ''Args:''" "strip (hd [''  Returns:'', ''    c: Sum.'']) \<in> set section_headers" by code_simp+
  have l: "[''Adds.'', '''', ''  Args:'', ''    a: First'', ''        number.'', ''    b: Second.'', ''  Returns:'', ''    c: Sum.'']
      = [''Adds.'', ''''] @ (pad 2 @ ''Args:'') # concat (map (arg_lines 4) ?as) @ [''  Returns:'', ''    c: Sum.'']" by code_simp
  have r: "map (\<lambda>(n, d, ds). (n, strip (join_with (CHR '' '') (d # ds)))) ?as = [(''a'', ''First number.''), (''b'', ''Second.'')]" by code_simp
  have n: "\<forall>l \<in> set [''Adds.'', '''', ''  Args:'', ''    a: First'', ''        number.'', ''    b: Second.'', ''  Returns:'', ''    c: Sum.'']. line_end \<notin> set l"
    by simp
  show ?thesis using docstring_args_read [OF a disjI2 [OF b(2)] b(1) l n] unfolding r .
qed

section \<open>Schemas are safe\<close>

text \<open>
  A schema is given out only for a function all of whose parameters are keyword-only and annotated with a type that is not
  forbidden, its fields are those parameters in order, and its name has at most 64 characters and no dot.
\<close>

theorem schema_only_for_keyword_tools:
  assumes "tool_schema sch m = Inr (n, s)"
  shows "(\<forall>(p, x) \<in> set (parameters (tool_fn m)). keyword_only x \<and> (\<exists>a. annotation x = Some a \<and> annotation_name a \<notin> set forbidden_types \<and> \<not> tuple_origin a))
    \<and> (\<exists>fs. build_args_model (tool_fn m) = Inr fs \<and> map fst fs = map fst (parameters (tool_fn m)) \<and> s = sch (fn_name (tool_fn m) @ ''_args'') fs)
    \<and> length n \<le> 64 \<and> CHR ''.'' \<notin> set n"
proof -
  have f: "(\<forall>(p, x) \<in> set ps. keyword_only x \<and> (\<exists>a. annotation x = Some a \<and> annotation_name a \<notin> set forbidden_types \<and> \<not> tuple_origin a)) \<and> map fst fs = map fst ps"
    if "args_fields docs ps = Inr fs" for docs ps fs
    using that
  proof (induction ps arbitrary: fs)
    case (Cons q ps)
    obtain p x where q: "q = (p, x)" by (cases q)
    from Cons.prems obtain a gs y where "keyword_only x" "annotation x = Some a" "validate_param_type p a = None" "args_fields docs ps = Inr gs" "fs = (p, y) # gs"
      by (auto simp: q bindE_Inr split: if_splits option.splits)
    then show ?case using Cons.IH [of gs] by (auto simp: q validate_param_type_def split: if_splits)
  qed simp
  obtain fs where fs: "build_args_model (tool_fn m) = Inr fs" "n = safe_name (tool_name m)" "length n \<le> 64" "s = sch (fn_name (tool_fn m) @ ''_args'') fs"
    using assms by (auto simp: tool_schema_def bindE_Inr Let_def split: if_splits)
  moreover have "CHR ''.'' \<notin> set n" unfolding fs(2) by (auto simp: safe_name_def)
  ultimately show ?thesis using f [of _ "parameters (tool_fn m)" fs] by (auto simp: build_args_model_def)
qed

definition sample_tool :: tool_fn where
  "sample_tool = \<lparr>fn_module = ''oprim.queues'', fn_name = ''depth'', fn_doc = Some ''Depth.'',
     parameters = [(''queue'', \<lparr>keyword_only = True, annotation = Some (Annotation ''str'' False), default = None\<rparr>)]\<rparr>"

theorem schema_only_for_keyword_tools_witness:
  "CHR ''.'' \<notin> set ''oprim__depth''"
  using schema_only_for_keyword_tools [of "\<lambda>_ _. JNull" "the (get_tool ''oprim.depth'' (fst (register_tool Read_tool Stable [] sample_tool [])))" "''oprim__depth''" JNull]
  by (simp add: register_tool_def full_name_def sample_tool_def get_tool_def tool_schema_def build_args_model_def validate_param_type_def forbidden_types_def safe_name_def Let_def)

section \<open>What is not promised\<close>

text \<open>Different tools can have the same name in a schema. A forbidden type inside another is accepted. The lines of a section whose header is not
  known become part of the last description, and a parameter written with its type is not found by its name.\<close>

lemma safe_names_clash: "safe_name ''a.b'' = safe_name ''a__b''"
  by (simp add: safe_name_def)

lemma optional_path_accepted: "validate_param_type p (Annotation ''Optional'' False) = None"
  by (simp add: validate_param_type_def forbidden_types_def)

lemma unknown_section_appended:
  "parse_docstring_args (join_with line_end [''Args:'', ''  a: First.'', ''Example:'', ''    run(a=1)'']) = [(''a'', ''First. run(a=1)'')]"
  by code_simp

lemma typed_parameter_not_found: "parse_docstring_args (join_with line_end [''Args:'', ''  a (int): First.'']) = [(''a (int)'', ''First.'')]"
  by code_simp

end
