(* ===== verification/CacheLock.thy ===== *)
theory CacheLock
  imports Json
begin

text \<open>
  The cache in files with its decorator, and the lock kept by a server (\<^verbatim>\<open>obase/cache.py\<close>). A file holds a value with
  its time or cannot be read; hashing, the clock, the cached function, what can be pickled, and the server of the lock are arguments. What
  is relied on of the server is the predicate \<open>server_ok\<close>, its documented behaviour for one key.
\<close>

section \<open>The cache\<close>

datatype cache_file = Stored (cached_value: json) (stored_at: rat) | Unreadable

type_synonym cache = "(string, cache_file) dict"

datatype 'e cache_error = Cache_read string | Cache_write string | Function_failed 'e

record cache_env =
  ttl :: "rat option"
  digest :: "string \<Rightarrow> string"
  picklable :: "json \<Rightarrow> bool"

definition key_path :: "cache_env \<Rightarrow> string \<Rightarrow> string" where
  "key_path E k = digest E k @ ''.pkl''"

definition outlived :: "cache_env \<Rightarrow> rat \<Rightarrow> rat \<Rightarrow> bool" where
  "outlived E now t = (case ttl E of None \<Rightarrow> False | Some d \<Rightarrow> d < now - t)"

definition cache_get :: "cache_env \<Rightarrow> rat \<Rightarrow> string \<Rightarrow> cache \<Rightarrow> cache \<times> ('e cache_error + json)" where
  "cache_get E now k c =
     (case dict_get c (key_path E k) of
        None \<Rightarrow> (c, Inr JNull)
      | Some Unreadable \<Rightarrow> (c, Inl (Cache_read k))
      | Some (Stored v t) \<Rightarrow> if outlived E now t then (dict_pop (key_path E k) c, Inr JNull) else (c, Inr v))"

definition cache_put :: "cache_env \<Rightarrow> rat \<Rightarrow> string \<Rightarrow> json \<Rightarrow> cache \<Rightarrow> cache \<times> 'e cache_error option" where
  "cache_put E now k v c = (if picklable E v then (dict_set (key_path E k) (Stored v now) c, None) else (c, Some (Cache_write k)))"

definition cache_drop :: "cache_env \<Rightarrow> string \<Rightarrow> cache \<Rightarrow> cache" where
  "cache_drop E k c = dict_pop (key_path E k) c"

definition lives :: "cache_env \<Rightarrow> rat \<Rightarrow> cache_file \<Rightarrow> bool" where
  "lives E now f = (case f of Unreadable \<Rightarrow> False | Stored v t \<Rightarrow> \<not> outlived E now t)"

definition clear_expired :: "cache_env \<Rightarrow> rat \<Rightarrow> cache \<Rightarrow> cache \<times> nat" where
  "clear_expired E now c =
     (case ttl E of None \<Rightarrow> (c, 0)
      | Some d \<Rightarrow> (filter (\<lambda>(k, f). lives E now f) c, length (filter (\<lambda>(k, f). \<not> lives E now f) c)))"

text \<open>The decorator: a value in the cache is returned, anything else is computed and put; the number counts the computations.\<close>

definition cached_call :: "cache_env \<Rightarrow> ('a \<Rightarrow> string) \<Rightarrow> ('a \<Rightarrow> 'e + json) \<Rightarrow> rat \<Rightarrow> rat \<Rightarrow> 'a \<Rightarrow> cache \<Rightarrow> cache \<times> nat \<times> ('e cache_error + json)" where
  "cached_call E key fn now later x c =
     (case cache_get E now (key x) c of
        (c, Inl e) \<Rightarrow> (c, 0, Inl e)
      | (c, Inr hit) \<Rightarrow> if hit \<noteq> JNull then (c, 0, Inr hit)
          else (case fn x of
              Inl e \<Rightarrow> (c, 1, Inl (Function_failed e))
            | Inr v \<Rightarrow> (case cache_put E later (key x) v c of (c, Some e) \<Rightarrow> (c, 1, Inl e) | (c, None) \<Rightarrow> (c, 1, Inr v))))"

section \<open>Caching is invisible\<close>

text \<open>What happens to a cache: calls, removals of a key, sweeps.\<close>

datatype 'a cache_event = Call 'a rat rat | Drop string | Sweep rat

fun cache_run :: "cache_env \<Rightarrow> ('a \<Rightarrow> string) \<Rightarrow> ('a \<Rightarrow> 'e + json) \<Rightarrow> 'a cache_event list \<Rightarrow> cache \<Rightarrow> cache \<times> ('a \<times> ('e cache_error + json)) list" where
  "cache_run E key fn [] c = (c, [])"
| "cache_run E key fn (Call x now later # es) c =
     (case cached_call E key fn now later x c of (c', n, r) \<Rightarrow> (case cache_run E key fn es c' of (c'', rs) \<Rightarrow> (c'', (x, r) # rs)))"
| "cache_run E key fn (Drop k # es) c = cache_run E key fn es (cache_drop E k c)"
| "cache_run E key fn (Sweep now # es) c = cache_run E key fn es (fst (clear_expired E now c))"

definition uncached :: "cache_env \<Rightarrow> ('a \<Rightarrow> string) \<Rightarrow> ('a \<Rightarrow> 'e + json) \<Rightarrow> 'a \<Rightarrow> 'e cache_error + json" where
  "uncached E key fn x = (case fn x of Inl e \<Rightarrow> Inl (Function_failed e) | Inr v \<Rightarrow> if picklable E v then Inr v else Inl (Cache_write (key x)))"

definition agrees :: "cache_env \<Rightarrow> ('a \<Rightarrow> string) \<Rightarrow> ('a \<Rightarrow> 'e + json) \<Rightarrow> cache \<Rightarrow> bool" where
  "agrees E key fn c \<longleftrightarrow> distinct (map fst c)
     \<and> (\<forall>x f. dict_get c (key_path E (key x)) = Some f \<longrightarrow> (\<exists>v t. f = Stored v t \<and> fn x = Inr v \<and> picklable E v))"

lemma agrees_fewer: "agrees E key fn c \<Longrightarrow> distinct (map fst c') \<Longrightarrow> (\<And>k f. dict_get c' k = Some f \<Longrightarrow> dict_get c k = Some f) \<Longrightarrow> agrees E key fn c'"
  unfolding agrees_def by blast

lemma agrees_pop: "agrees E key fn c \<Longrightarrow> agrees E key fn (dict_pop k c)"
  by (rule agrees_fewer) (auto simp: agrees_def distinct_delete delete_conv' split: if_splits)

lemma agrees_sweep: "agrees E key fn c \<Longrightarrow> agrees E key fn (fst (clear_expired E now c))"
proof (rule agrees_fewer)
  assume a: "agrees E key fn c"
  then show d: "distinct (map fst (fst (clear_expired E now c)))"
    by (auto simp: agrees_def clear_expired_def distinct_map_filter split: option.split)
  show "dict_get c k = Some f" if "dict_get (fst (clear_expired E now c)) k = Some f" for k f
    using that d a by (auto simp: agrees_def clear_expired_def dest!: map_of_SomeD split: option.splits)
qed

lemma agrees_put:
  assumes "agrees E key fn c" "inj (\<lambda>x. key_path E (key x))" "fn x = Inr v" "picklable E v"
  shows "agrees E key fn (dict_set (key_path E (key x)) (Stored v t) c)"
proof -
  have "distinct (map fst (dict_set (key_path E (key x)) (Stored v t) c))" using assms(1) by (intro distinct_update) (simp add: agrees_def)
  moreover have "\<exists>v t. f = Stored v t \<and> fn y = Inr v \<and> picklable E v"
    if "dict_get (dict_set (key_path E (key x)) (Stored v t) c) (key_path E (key y)) = Some f" for y f
  proof (cases "y = x")
    case True
    then show ?thesis using that assms(3,4) by (auto simp: update_conv')
  next
    case False
    then have "key_path E (key y) \<noteq> key_path E (key x)" using injD [OF assms(2)] by blast
    then show ?thesis using that assms(1) unfolding agrees_def by (simp add: update_conv')
  qed
  ultimately show ?thesis unfolding agrees_def by blast
qed

lemma call_agrees:
  fixes fn :: "'a \<Rightarrow> 'e + json"
  assumes "agrees E key fn c" "inj (\<lambda>x. key_path E (key x))" "cached_call E key fn now later x c = (c', n, r)"
  shows "agrees E key fn c' \<and> r = uncached E key fn x"
proof -
  obtain c1 h where g: "cache_get E now (key x) c = (c1, Inr h :: 'e cache_error + json)" "agrees E key fn c1" "h \<noteq> JNull \<longrightarrow> fn x = Inr h \<and> picklable E h"
  proof (cases "dict_get c (key_path E (key x))")
    case None
    then show ?thesis using that [of c JNull] assms(1) by (simp add: cache_get_def)
  next
    case (Some f)
    then obtain v t where f: "f = Stored v t" "fn x = Inr v" "picklable E v" using assms(1) unfolding agrees_def by blast
    show ?thesis
    proof (cases "outlived E now t")
      case True
      then show ?thesis using that [of "dict_pop (key_path E (key x)) c" JNull] agrees_pop [OF assms(1)] Some f by (simp add: cache_get_def)
    next
      case False
      then show ?thesis using that [of c v] assms(1) Some f by (simp add: cache_get_def)
    qed
  qed
  show ?thesis
    using g assms(2,3) agrees_put [OF g(2) assms(2)]
    by (auto simp: cached_call_def uncached_def cache_put_def split: sum.splits if_splits)
qed

text \<open>
  Caching is invisible: whatever calls, removals and sweeps happen at whatever times, every call answers what the
  function answers for its argument, as long as keys are different for different arguments.
\<close>

theorem caching_invisible:
  assumes "inj (\<lambda>x. key_path E (key x))" and "cache_run E key fn es [] = (c, rs)"
  shows "\<forall>(x, r) \<in> set rs. r = uncached E key fn x"
proof -
  have "\<forall>(x, r) \<in> set rs. r = uncached E key fn x" if "agrees E key fn c0" "cache_run E key fn es c0 = (c, rs)" for c0
    using that
  proof (induction es arbitrary: c0 rs)
    case (Cons e es)
    show ?case
    proof (cases e)
      case (Call x now later)
      obtain c1 n r where r: "cached_call E key fn now later x c0 = (c1, n, r)" by (metis prod_cases3)
      with Cons.prems(2) Call obtain rs' where "cache_run E key fn es c1 = (c, rs')" "rs = (x, r) # rs'" by (auto split: prod.splits)
      then show ?thesis using Cons.IH [of c1 rs'] call_agrees [OF Cons.prems(1) assms(1) r] by auto
    next
      case (Drop k)
      have "agrees E key fn (cache_drop E k c0)" unfolding cache_drop_def by (rule agrees_pop [OF Cons.prems(1)])
      moreover have "cache_run E key fn es (cache_drop E k c0) = (c, rs)" using Cons.prems(2) Drop by simp
      ultimately show ?thesis by (rule Cons.IH)
    next
      case (Sweep now)
      then show ?thesis using Cons.IH [OF agrees_sweep] Cons.prems by simp
    qed
  qed simp
  moreover have "agrees E key fn []" by (simp add: agrees_def)
  ultimately show ?thesis using assms(2) by blast
qed

definition sample_cache_env :: cache_env where
  "sample_cache_env = \<lparr>ttl = Some 10, digest = (\<lambda>k. k), picklable = (\<lambda>_. True)\<rparr>"

theorem caching_invisible_witness:
  "snd (cache_run sample_cache_env (\<lambda>s. s) (\<lambda>s. if s = ''bad'' then Inl () else Inr (JStr s)) [Call ''a'' 0 1, Call ''a'' 5 5, Sweep 20, Call ''bad'' 21 21] [])
     = [(''a'', Inr (JStr ''a'')), (''a'', Inr (JStr ''a'')), (''bad'', Inl (Function_failed ()))]"
proof -
  let ?fn = "\<lambda>s. if s = ''bad'' then Inl () else Inr (JStr s)"
  let ?es = "[Call ''a'' 0 1, Call ''a'' 5 5, Sweep 20, Call ''bad'' 21 21]"
  have i: "inj (\<lambda>x. key_path sample_cache_env x)" by (rule injI) (simp add: key_path_def sample_cache_env_def)
  obtain c rs where r: "cache_run sample_cache_env (\<lambda>s. s) ?fn ?es [] = (c, rs)" by fastforce
  then have "map fst rs = [''a'', ''a'', ''bad'']" by (auto split: prod.splits)
  moreover have "\<forall>(x, r) \<in> set rs. r = uncached sample_cache_env (\<lambda>s. s) ?fn x" using caching_invisible [OF i r] .
  ultimately have "rs = map (\<lambda>x. (x, uncached sample_cache_env (\<lambda>s. s) ?fn x)) [''a'', ''a'', ''bad'']"
    by (auto simp: map_eq_Cons_conv)
  then show ?thesis unfolding r by (simp add: uncached_def sample_cache_env_def)
qed

text \<open>A value that is in the cache and still lives is not computed again; the value None is computed at every call.\<close>

lemma hit_not_computed: "dict_get c (key_path E (key x)) = Some (Stored v t) \<Longrightarrow> \<not> outlived E now t \<Longrightarrow> v \<noteq> JNull \<Longrightarrow> cached_call E key fn now later x c = (c, 0, Inr v)"
  by (simp add: cached_call_def cache_get_def)

lemma none_recomputed: "dict_get c (key_path E (key x)) = Some (Stored JNull t) \<Longrightarrow> fst (snd (cached_call E key (\<lambda>_. Inr JNull) now later x c)) = 1"
  by (simp add: cached_call_def cache_get_def cache_put_def)

section \<open>The lock\<close>

text \<open>The server keeps one key: a conditional set with a time to live in milliseconds, the reading of the key and its removal, each at
  a time. The script that releases compares and removes in one step.\<close>

record 's lock_server =
  set_nx :: "string \<Rightarrow> int \<Rightarrow> rat \<Rightarrow> 's \<Rightarrow> 's \<times> bool"
  get_key :: "rat \<Rightarrow> 's \<Rightarrow> string option"
  del_key :: "rat \<Rightarrow> 's \<Rightarrow> 's"

definition server_ok :: "('s, 'z) lock_server_scheme \<Rightarrow> bool" where
  "server_ok R \<longleftrightarrow> (\<forall>s t. (\<forall>tok px. 0 < px \<longrightarrow>
        (get_key R t s = None \<longrightarrow> snd (set_nx R tok px t s) \<and> (\<forall>u \<ge> t. get_key R u (fst (set_nx R tok px t s)) = (if u < t + of_int px / 1000 then Some tok else None)))
      \<and> (get_key R t s \<noteq> None \<longrightarrow> \<not> snd (set_nx R tok px t s) \<and> (\<forall>u \<ge> t. get_key R u (fst (set_nx R tok px t s)) = get_key R u s)))
     \<and> (\<forall>u \<ge> t. get_key R u (del_key R t s) = None))"

definition ttl_ms :: "rat \<Rightarrow> int" where
  "ttl_ms seconds = (if 0 \<le> seconds then \<lfloor>seconds * 1000\<rfloor> else \<lceil>seconds * 1000\<rceil>)"

definition release_if_owner :: "('s, 'z) lock_server_scheme \<Rightarrow> string \<Rightarrow> rat \<Rightarrow> 's \<Rightarrow> 's \<times> int" where
  "release_if_owner R tok t s = (if get_key R t s = Some tok then (del_key R t s, 1) else (s, 0))"

text \<open>The loop that enters: an attempt, and then a reading of the clock, until one succeeds or the deadline has passed. No answer means
  that the attempts given were not enough.\<close>

fun enter_loop :: "rat \<Rightarrow> (bool \<times> rat) list \<Rightarrow> bool option" where
  "enter_loop deadline [] = None"
| "enter_loop deadline ((acquired, now) # rs) = (if acquired then Some True else if deadline \<le> now then Some False else enter_loop deadline rs)"

text \<open>Clients try, and leave what they entered, at times that do not go back. What a client knows is when it entered.\<close>

datatype lock_event = Try nat | Leave nat

record 's lock_world =
  server :: 's
  inside :: "nat \<Rightarrow> rat option"

definition lock_step :: "('s, 'z) lock_server_scheme \<Rightarrow> (nat \<Rightarrow> string) \<Rightarrow> rat \<Rightarrow> rat \<Rightarrow> lock_event \<Rightarrow> 's lock_world \<Rightarrow> 's lock_world" where
  "lock_step R tok seconds t e w = (case e of
       Try c \<Rightarrow> if inside w c \<noteq> None then w
         else (case set_nx R (tok c) (ttl_ms seconds) t (server w) of
             (s, True) \<Rightarrow> \<lparr>server = s, inside = (inside w)(c \<mapsto> t)\<rparr> | (s, False) \<Rightarrow> w\<lparr>server := s\<rparr>)
     | Leave c \<Rightarrow> if inside w c = None then w
         else \<lparr>server = fst (release_if_owner R (tok c) t (server w)), inside = (inside w)(c := None)\<rparr>)"

fun lock_run :: "('s, 'z) lock_server_scheme \<Rightarrow> (nat \<Rightarrow> string) \<Rightarrow> rat \<Rightarrow> (rat \<times> lock_event) list \<Rightarrow> 's lock_world \<Rightarrow> 's lock_world" where
  "lock_run R tok seconds [] w = w"
| "lock_run R tok seconds ((t, e) # es) w = lock_run R tok seconds es (lock_step R tok seconds t e w)"

text \<open>A lease of a client that is inside runs until its time to live is over.\<close>

definition leased :: "rat \<Rightarrow> rat \<Rightarrow> 's lock_world \<Rightarrow> nat \<Rightarrow> bool" where
  "leased seconds now w c = (case inside w c of None \<Rightarrow> False | Some t \<Rightarrow> now < t + of_int (ttl_ms seconds) / 1000)"

definition lock_inv :: "('s, 'z) lock_server_scheme \<Rightarrow> (nat \<Rightarrow> string) \<Rightarrow> rat \<Rightarrow> rat \<Rightarrow> 's lock_world \<Rightarrow> bool" where
  "lock_inv R tok seconds t w \<longleftrightarrow> (\<forall>c. \<forall>u \<ge> t. leased seconds u w c \<longrightarrow> get_key R u (server w) = Some (tok c))"

lemma lock_inv_later: "lock_inv R tok seconds t w \<Longrightarrow> t \<le> u \<Longrightarrow> lock_inv R tok seconds u w"
  unfolding lock_inv_def by (meson order_trans)

lemma lock_step_inv:
  assumes "server_ok R" "inj tok" "0 < ttl_ms seconds" "lock_inv R tok seconds t w"
  shows "lock_inv R tok seconds t (lock_step R tok seconds t e w)"
proof (cases e)
  case (Try c)
  let ?p = "set_nx R (tok c) (ttl_ms seconds) t (server w)"
  show ?thesis
  proof (cases "inside w c = None")
    case True
    note n = True
    show ?thesis
    proof (cases "get_key R t (server w) = None")
      case True
      have s: "snd ?p" "\<forall>u \<ge> t. get_key R u (fst ?p) = (if u < t + of_int (ttl_ms seconds) / 1000 then Some (tok c) else None)"
        using assms(1,3) True unfolding server_ok_def by blast+
      have w: "lock_step R tok seconds t e w = \<lparr>server = fst ?p, inside = (inside w)(c \<mapsto> t)\<rparr>"
        using s(1) n by (cases ?p) (simp add: lock_step_def Try)
      have "\<not> leased seconds u w d" if "t \<le> u" for u d
      proof
        assume l: "leased seconds u w d"
        then have "leased seconds t w d" using that by (auto simp: leased_def split: option.splits)
        then show False using assms(4) True unfolding lock_inv_def by force
      qed
      then show ?thesis unfolding lock_inv_def w using s(2) by (auto simp: leased_def)
    next
      case False
      have s: "\<not> snd ?p" "\<forall>u \<ge> t. get_key R u (fst ?p) = get_key R u (server w)"
        using assms(1,3) False unfolding server_ok_def by blast+
      then have "lock_step R tok seconds t e w = w\<lparr>server := fst ?p\<rparr>" using n by (cases ?p) (simp add: lock_step_def Try)
      then show ?thesis using assms(4) s(2) unfolding lock_inv_def leased_def by simp
    qed
  qed (use assms(4) in \<open>simp add: lock_step_def Try\<close>)
next
  case (Leave c)
  show ?thesis
  proof (cases "inside w c = None")
    case False
    have "get_key R u (fst (release_if_owner R (tok c) t (server w))) = Some (tok d)"
      if "t \<le> u" "leased seconds u w d" "d \<noteq> c" for u d
    proof -
      have "leased seconds t w d" using that by (auto simp: leased_def split: option.splits)
      then have "get_key R t (server w) = Some (tok d)" using assms(4) unfolding lock_inv_def by simp
      moreover have "tok d \<noteq> tok c" using that(3) injD [OF assms(2)] by blast
      ultimately have "fst (release_if_owner R (tok c) t (server w)) = server w" by (simp add: release_if_owner_def)
      then show ?thesis using assms(4) that(1,2) unfolding lock_inv_def by simp
    qed
    then show ?thesis using False unfolding lock_inv_def by (auto simp: lock_step_def Leave leased_def split: if_splits)
  qed (use assms(4) in \<open>simp add: lock_step_def Leave\<close>)
qed

fun ordered_from :: "rat \<Rightarrow> (rat \<times> 'x) list \<Rightarrow> bool" where
  "ordered_from t [] = True"
| "ordered_from t ((u, e) # es) = (t \<le> u \<and> ordered_from u es)"

lemma lock_run_inv:
  assumes "server_ok R" "inj tok" "0 < ttl_ms seconds"
  shows "lock_inv R tok seconds t w \<Longrightarrow> ordered_from t es \<Longrightarrow> now \<ge> t \<Longrightarrow> \<forall>(u, e) \<in> set es. u \<le> now \<Longrightarrow> lock_inv R tok seconds now (lock_run R tok seconds es w)"
proof (induction es arbitrary: t w)
  case Nil
  then show ?case using lock_inv_later by simp
next
  case (Cons p es)
  obtain u e where p: "p = (u, e)" by (cases p)
  have "lock_inv R tok seconds u (lock_step R tok seconds u e w)"
    using Cons.prems p by (intro lock_step_inv assms lock_inv_later [of R tok seconds t w u]) simp_all
  then show ?case using Cons.IH [of u "lock_step R tok seconds u e w"] Cons.prems p by simp
qed

definition no_one_inside :: "'s \<Rightarrow> 's lock_world" where
  "no_one_inside s = \<lparr>server = s, inside = (\<lambda>_. None)\<rparr>"

text \<open>
  C36. The lock excludes: however clients with different tokens try and leave, at any time at most one of them is inside with a lease that runs,
  and then the key has its token, so that a client that leaves after its lease has ended takes nothing from the one
  that entered since.
\<close>

theorem lock_excludes:
  assumes "server_ok R" and "inj tok" and "0 < ttl_ms seconds" and "ordered_from t0 es" and "\<forall>(u, e) \<in> set es. u \<le> now" and "t0 \<le> now"
    and "leased seconds now (lock_run R tok seconds es (no_one_inside s)) c"
  shows "get_key R now (server (lock_run R tok seconds es (no_one_inside s))) = Some (tok c)
    \<and> (leased seconds now (lock_run R tok seconds es (no_one_inside s)) d \<longrightarrow> d = c)"
proof -
  have "lock_inv R tok seconds t0 (no_one_inside s)" by (simp add: lock_inv_def no_one_inside_def leased_def)
  then have i: "lock_inv R tok seconds now (lock_run R tok seconds es (no_one_inside s))"
    using lock_run_inv [OF assms(1-3) _ assms(4)] assms(5,6) by blast
  then have "get_key R now (server (lock_run R tok seconds es (no_one_inside s))) = Some (tok c)"
    using assms(7) unfolding lock_inv_def by blast
  moreover have "d = c" if "leased seconds now (lock_run R tok seconds es (no_one_inside s)) d"
    using i that calculation injD [OF assms(2), of d c] unfolding lock_inv_def by force
  ultimately show ?thesis by blast
qed

text \<open>A server that keeps the value of the key and the time it is kept to.\<close>

definition plain_server :: "(string \<times> rat) option lock_server" where
  "plain_server = \<lparr>set_nx = (\<lambda>tok px t s. case s of
        Some (v, d) \<Rightarrow> if t < d then (s, False) else (Some (tok, t + of_int px / 1000), True)
      | None \<Rightarrow> (Some (tok, t + of_int px / 1000), True)),
     get_key = (\<lambda>t s. case s of Some (v, d) \<Rightarrow> if t < d then Some v else None | None \<Rightarrow> None),
     del_key = (\<lambda>t s. None)\<rparr>"

lemma plain_server_ok: "server_ok plain_server"
  by (auto simp: server_ok_def plain_server_def split: option.splits if_splits)

definition sample_tokens :: "nat \<Rightarrow> string" where
  "sample_tokens c = replicate c (CHR ''t'')"

theorem lock_excludes_witness:
  "\<not> leased 10 3 (lock_run plain_server sample_tokens 10 [(1, Try 1), (2, Try 2)] (no_one_inside None)) 2"
proof -
  let ?w = "lock_run plain_server sample_tokens 10 [(1, Try 1), (2, Try 2)] (no_one_inside None)"
  have t: "ttl_ms 10 = 10000" by (simp add: ttl_ms_def)
  have i: "inj sample_tokens" by (rule injI) (metis sample_tokens_def length_replicate)
  have l: "leased 10 3 ?w 1" by (simp add: lock_step_def plain_server_def no_one_inside_def leased_def t)
  have p: "0 < ttl_ms 10" "ordered_from 0 [(1 :: rat, Try 1), (2, Try 2)]" "\<forall>(u, e) \<in> set [(1 :: rat, Try 1), (2, Try 2)]. u \<le> 3" "(0 :: rat) \<le> 3" by (simp_all add: t)
  show ?thesis using lock_excludes [OF plain_server_ok i p l, of 2] by auto
qed

text \<open>
  Entering ends: when every reading of the clock is later than the one before by the pause between attempts, it has an answer
  after one attempt more than the pauses that fit into the limit, and it is refused only after the deadline.
\<close>

theorem entering_ends:
  assumes "0 < pause" and "\<forall>n < length rs. start + of_nat n * pause \<le> snd (rs ! n)" and "limit / pause + 1 \<le> of_nat (length rs)" and "0 \<le> limit"
  shows "\<exists>r. enter_loop (start + limit) rs = Some r \<and> (r = (\<exists>n < length rs. fst (rs ! n) \<and> (\<forall>m < n. snd (rs ! m) < start + limit)))"
proof -
  have e: "enter_loop d rs = Some r \<Longrightarrow> r = (\<exists>n < length rs. fst (rs ! n) \<and> (\<forall>m < n. snd (rs ! m) < d))" for d rs r
  proof (induction rs arbitrary: r)
    case (Cons p rs)
    obtain a now where p: "p = (a, now)" by (cases p)
    show ?case
    proof (cases "a \<or> d \<le> now")
      case True
      then show ?thesis using Cons.prems p by (auto simp: Ex_less_Suc2 All_less_Suc2 split: if_splits)
    next
      case False
      then have "enter_loop d rs = Some r" using Cons.prems p by simp
      then show ?thesis using Cons.IH False p by (auto simp: Ex_less_Suc2 All_less_Suc2)
    qed
  qed simp
  have n: "enter_loop d rs = None \<Longrightarrow> \<forall>(a, now) \<in> set rs. now < d" for d rs
    by (induction d rs rule: enter_loop.induct) (auto split: if_splits)
  have "enter_loop (start + limit) rs \<noteq> None"
  proof
    assume none: "enter_loop (start + limit) rs = None"
    have "0 \<le> limit / pause" using assms(1,4) by simp
    then have l: "0 < length rs" using assms(3) by (cases rs) auto
    let ?n = "length rs - 1"
    have "limit / pause \<le> of_nat ?n" using assms(3) l by (simp add: of_nat_diff Suc_leI)
    then have "limit \<le> of_nat ?n * pause" using assms(1) by (simp add: pos_divide_le_eq)
    moreover have "start + of_nat ?n * pause \<le> snd (rs ! ?n)" using assms(2) l by simp
    ultimately have "start + limit \<le> snd (rs ! ?n)" by linarith
    moreover have "rs ! ?n \<in> set rs" using l by simp
    ultimately show False using n [OF none] by (cases "rs ! ?n") auto
  qed
  then show ?thesis using e by blast
qed

theorem entering_ends_witness: "\<exists>r. enter_loop (0 + 1) [(False, 0), (False, 1/2), (True, 1)] = Some r"
proof -
  have "\<forall>n < length [(False, 0 :: rat), (False, 1/2), (True, 1)]. 0 + of_nat n * (1/2) \<le> snd ([(False, 0), (False, 1/2), (True, 1 :: rat)] ! n)"
    by (simp add: less_Suc_eq numeral_3_eq_3)
  moreover have "0 < (1/2 :: rat)" "1 / (1/2) + 1 \<le> rat_of_nat (length [(False, 0 :: rat), (False, 1/2), (True, 1)])" "0 \<le> (1 :: rat)" by simp_all
  ultimately show ?thesis using entering_ends [of "1/2" "[(False, 0), (False, 1/2), (True, 1)]" 0 1] by blast
qed

section \<open>What is not promised\<close>

text \<open>A client whose work takes longer than the time to live is inside together with the next one: the lease is not renewed and its end is
  not noticed. A time to live under a millisecond is none.\<close>

lemma two_inside_after_lease:
  "inside (lock_run plain_server sample_tokens 1 [(0, Try 1), (2, Try 2)] (no_one_inside None)) = Map.empty(1 \<mapsto> 0, 2 \<mapsto> 2)"
  by (simp add: lock_step_def plain_server_def no_one_inside_def ttl_ms_def)

lemma ttl_truncated: "0 \<le> seconds \<Longrightarrow> seconds < 1 / 1000 \<Longrightarrow> ttl_ms seconds = 0"
  by (simp add: ttl_ms_def floor_eq_iff)

definition cache_invalidate :: "(string \<Rightarrow> int option) \<Rightarrow> string \<Rightarrow> bool option" where
  "cache_invalidate delete k = map_option (\<lambda>n. 0 < n) (delete k)"

end
