(* ===== verification/AgentRegistries.thy ===== *)
theory AgentRegistries
  imports KeyedStores ProviderRegistry
begin

text \<open>
  The registry of plugins with its marketplace (\<^verbatim>\<open>obase/plugin_registry.py\<close>) and the registry of agents, tools and
  workflows (\<^verbatim>\<open>obase/agent_registry.py\<close>), whose runtimes refer to descriptions in the provider registry. The files of the first
  are the documents in them.
\<close>

section \<open>Plugins\<close>

record plugin =
  plugin_name :: string
  plugin_version :: string
  plugin_capabilities :: "string list"
  plugin_source :: string
  source_url :: string
  dependencies :: "string list"
  installed_at :: string
  plugin_enabled :: bool
  plugin_config :: jdict

record listing =
  listed_name :: string
  listed_description :: string
  author :: string
  tags :: "string list"
  listed_version :: string
  published_at :: string

record plugins =
  installed :: "(string, plugin) dict"
  installed_file :: "(string, plugin) dict option"
  marketplace :: "(string, listing) dict option"

datatype plugin_answer = Already_installed string string | Installed plugin | Not_found string | Uninstalled plugin
  | Configured string | Toggled string bool | Needs_install | Published string

definition plugin_id :: "string \<Rightarrow> string" where
  "plugin_id n = filter (\<lambda>c. c \<noteq> CHR ''@'') (map (\<lambda>c. if c = CHR ''/'' then CHR ''_'' else c) n)"

definition save_plugins :: "plugins \<Rightarrow> plugins" where
  "save_plugins s = s\<lparr>installed_file := Some (installed s)\<rparr>"

definition load_plugins :: "plugins \<Rightarrow> plugins" where
  "load_plugins s = s\<lparr>installed := (case installed_file s of None \<Rightarrow> [] | Some d \<Rightarrow> d)\<rparr>"

record installation =
  version_arg :: string
  capabilities_arg :: "string list"
  source_arg :: string
  url_arg :: string
  dependencies_arg :: "string list"
  now_arg :: string

definition new_plugin :: "string \<Rightarrow> installation \<Rightarrow> plugin" where
  "new_plugin n a = \<lparr>plugin_name = n, plugin_version = version_arg a, plugin_capabilities = capabilities_arg a, plugin_source = source_arg a,
     source_url = url_arg a, dependencies = dependencies_arg a, installed_at = now_arg a, plugin_enabled = True, plugin_config = []\<rparr>"

definition install :: "string \<Rightarrow> installation \<Rightarrow> plugins \<Rightarrow> plugins \<times> plugin_answer" where
  "install n a s =
     (case dict_get (installed s) (plugin_id n) of
        Some p \<Rightarrow> (s, Already_installed n (plugin_version p))
      | None \<Rightarrow> let p = new_plugin n a in (save_plugins (s\<lparr>installed := dict_set (plugin_id n) p (installed s)\<rparr>), Installed p))"

definition uninstall :: "string \<Rightarrow> plugins \<Rightarrow> plugins \<times> plugin_answer" where
  "uninstall n s =
     (case dict_get (installed s) (plugin_id n) of
        None \<Rightarrow> (s, Not_found n)
      | Some p \<Rightarrow> (save_plugins (s\<lparr>installed := dict_pop (plugin_id n) (installed s)\<rparr>), Uninstalled p))"

definition change_plugin :: "string \<Rightarrow> (plugin \<Rightarrow> plugin) \<Rightarrow> plugin_answer \<Rightarrow> plugins \<Rightarrow> plugins \<times> plugin_answer" where
  "change_plugin n f answer s =
     (case dict_get (installed s) (plugin_id n) of
        None \<Rightarrow> (s, Not_found n)
      | Some p \<Rightarrow> (save_plugins (s\<lparr>installed := dict_set (plugin_id n) (f p) (installed s)\<rparr>), answer))"

definition configure :: "string \<Rightarrow> jdict \<Rightarrow> plugins \<Rightarrow> plugins \<times> plugin_answer" where
  "configure n c = change_plugin n (\<lambda>p. p\<lparr>plugin_config := dict_update (plugin_config p) c\<rparr>) (Configured n)"

definition toggle :: "string \<Rightarrow> bool \<Rightarrow> plugins \<Rightarrow> plugins \<times> plugin_answer" where
  "toggle n b = change_plugin n (\<lambda>p. p\<lparr>plugin_enabled := b\<rparr>) (Toggled n b)"

definition list_installed :: "string \<Rightarrow> plugins \<Rightarrow> plugin list" where
  "list_installed cap s = sort_key plugin_name (filter (\<lambda>p. cap = '''' \<or> cap \<in> set (plugin_capabilities p)) (map snd (installed s)))"

definition list_customizations :: "plugins \<Rightarrow> (string \<times> string \<times> string list \<times> bool \<times> jdict) list" where
  "list_customizations s = map (\<lambda>(i, p). (plugin_name p, plugin_version p, plugin_capabilities p, plugin_enabled p, plugin_config p)) (installed s)"

definition plugin_count :: "plugins \<Rightarrow> nat" where
  "plugin_count s = length (installed s)"

definition market :: "plugins \<Rightarrow> (string, listing) dict" where
  "market s = (case marketplace s of None \<Rightarrow> [] | Some m \<Rightarrow> m)"

definition publish_to_marketplace :: "string \<Rightarrow> string \<Rightarrow> string \<Rightarrow> string \<Rightarrow> string list \<Rightarrow> plugins \<Rightarrow> plugins \<times> plugin_answer" where
  "publish_to_marketplace now n desc auth tgs s =
     (case dict_get (installed s) (plugin_id n) of
        None \<Rightarrow> (s, Needs_install)
      | Some p \<Rightarrow> (s\<lparr>marketplace := Some (dict_set (plugin_id n) \<lparr>listed_name = n, listed_description = desc, author = auth, tags = tgs,
             listed_version = plugin_version p, published_at = now\<rparr> (market s))\<rparr>, Published n))"

definition list_marketplace :: "string \<Rightarrow> plugins \<Rightarrow> listing list" where
  "list_marketplace tag s = sort_key listed_name (filter (\<lambda>i. tag = '''' \<or> tag \<in> set (tags i)) (map snd (market s)))"

section \<open>The plugins are a table on disk\<close>

definition plugins_ok :: "plugins \<Rightarrow> bool" where
  "plugins_ok s \<longleftrightarrow> keys_once (installed s) \<and> load_plugins s = s"

text \<open>An installation carries the name it is made under.\<close>

definition merge_plugin :: "string \<times> installation \<Rightarrow> plugin option \<Rightarrow> plugin" where
  "merge_plugin a old = (case old of None \<Rightarrow> new_plugin (fst a) (snd a) | Some p \<Rightarrow> p)"

definition install_named :: "string \<Rightarrow> string \<times> installation \<Rightarrow> plugins \<Rightarrow> plugins" where
  "install_named n a s = (if fst a = n then fst (install n (snd a) s) else s)"

definition uninstall_named :: "string \<Rightarrow> plugins \<Rightarrow> plugins" where
  "uninstall_named n s = fst (uninstall n s)"

lemma load_saved: "load_plugins (save_plugins s) = save_plugins s"
  by (simp add: load_plugins_def save_plugins_def)

lemma plugins_saved: "keys_once d \<Longrightarrow> plugins_ok (save_plugins (s\<lparr>installed := d\<rparr>))"
  unfolding plugins_ok_def load_saved by (simp add: save_plugins_def)

lemma installed_saved [simp]: "installed (save_plugins s) = installed s"
  by (simp add: save_plugins_def)

interpretation plugin_table: keyed_store plugins_ok plugin_id "\<lambda>n a. fst a = n" "\<lambda>n. True" merge_plugin install_named uninstall_named
    "\<lambda>s. dict_get (installed s)" plugin_count
proof
  fix s :: plugins and n and a :: "string \<times> installation"
  assume ok: "plugins_ok s"
  then have k: "keys_once (installed s)" by (simp add: plugins_ok_def)
  show "plugins_ok (install_named n a s) \<and> dict_get (installed (install_named n a s)) = (dict_get (installed s))(plugin_id n \<mapsto> merge_plugin a (dict_get (installed s) (plugin_id n)))"
    if "fst a = n"
    using ok that plugins_saved [OF keys_once_set [OF k]]
    by (auto simp: install_named_def install_def merge_plugin_def look_set Let_def fun_upd_idem split: option.split)
  show "plugins_ok (uninstall_named n s) \<and> dict_get (installed (uninstall_named n s)) = (dict_get (installed s))(plugin_id n := None)"
    using ok plugins_saved [OF keys_once_pop [OF k]]
    by (auto simp: uninstall_named_def uninstall_def look_pop fun_upd_idem split: option.split)
  show "finite (dom (dict_get (installed s))) \<and> plugin_count s = card (dom (dict_get (installed s)))"
    using length_keys_once [OF k] by (simp add: plugin_count_def)
qed (simp_all add: install_named_def)

text \<open>
  The plugins are a table on disk: after any installations and removals under any names, what a new process loads is what the registry has,
  a plugin is there under the identifier of its name exactly when it was installed and not removed since, as the first
  installation made it, and plugins under other identifiers are untouched.
\<close>

theorem plugins_refine_table:
  assumes "plugins_ok s"
  shows "load_plugins (foldl (table_step install_named uninstall_named) s ops) = foldl (table_step install_named uninstall_named) s ops
    \<and> dict_get (installed (foldl (table_step install_named uninstall_named) s ops))
      = foldl (map_step plugin_id (\<lambda>n a. fst a = n) (\<lambda>n. True) merge_plugin) (dict_get (installed s)) ops"
  using plugin_table.run_refines [OF assms, of ops] unfolding plugins_ok_def by blast

definition no_plugins :: plugins where
  "no_plugins = \<lparr>installed = [], installed_file = None, marketplace = None\<rparr>"

definition sample_installation :: installation where
  "sample_installation = \<lparr>version_arg = ''1.0.0'', capabilities_arg = [''ui''], source_arg = ''local'', url_arg = '''', dependencies_arg = [''b''], now_arg = ''t''\<rparr>"

theorem plugins_refine_table_witness:
  "dict_get (installed (foldl (table_step install_named uninstall_named) no_plugins [Put ''@x/a'' (''@x/a'', sample_installation), Del ''b'']))
     ''x_a'' = Some (new_plugin ''@x/a'' sample_installation)"
proof -
  have "plugins_ok no_plugins" by (simp add: plugins_ok_def keys_once_def no_plugins_def load_plugins_def)
  then show ?thesis
    using plugins_refine_table [of no_plugins "[Put ''@x/a'' (''@x/a'', sample_installation), Del ''b'']"]
    by (simp add: plugin_id_def no_plugins_def merge_plugin_def)
qed

section \<open>Agents, tools and workflows\<close>

record 'f agent_entry =
  entry_name :: string
  entry_func :: 'f
  entry_func_name :: string
  entry_desc :: string
  entry_spec :: "string option"

type_synonym 'f agent_registry = "(string, (string, 'f agent_entry) dict) dict"

datatype agent_error = Unknown_type string | Registered_twice string string | Key_missing string

definition registry_types :: "string list" where
  "registry_types = [''agent'', ''tool'', ''workflow'', ''plugin_agent'', ''plugin_tool'', ''runtime'']"

definition no_agents :: "'f agent_registry" where
  "no_agents = map (\<lambda>t. (t, [])) registry_types"

text \<open>A callable has a name or none, and a text of documentation or none.\<close>

record 'f callable_info =
  name_of :: "'f \<Rightarrow> string option"
  doc_of :: "'f \<Rightarrow> string option"

definition or_text :: "string option \<Rightarrow> string \<Rightarrow> string" where
  "or_text a b = (case a of Some (c # cs) \<Rightarrow> c # cs | _ \<Rightarrow> b)"

definition new_entry :: "'f callable_info \<Rightarrow> string \<Rightarrow> 'f \<Rightarrow> string option \<Rightarrow> string \<Rightarrow> 'f agent_entry" where
  "new_entry I name f fname desc = \<lparr>entry_name = name, entry_func = f,
     entry_func_name = or_text fname (case name_of I f of None \<Rightarrow> name | Some n \<Rightarrow> n),
     entry_desc = or_text (Some desc) (hd (split_on (CHR 0x0A) (strip (case doc_of I f of None \<Rightarrow> '''' | Some d \<Rightarrow> d)))),
     entry_spec = None\<rparr>"

definition register_entry :: "string \<Rightarrow> string \<Rightarrow> 'f agent_entry \<Rightarrow> 'f agent_registry \<Rightarrow> agent_error + 'f agent_registry" where
  "register_entry tp name e r =
     (case dict_get r tp of
        None \<Rightarrow> Inl (Unknown_type tp)
      | Some d \<Rightarrow> if dict_get d name \<noteq> None then Inl (Registered_twice tp name) else Inr (dict_set tp (dict_set name e d) r))"

definition register_agent :: "'f callable_info \<Rightarrow> string \<Rightarrow> string \<Rightarrow> 'f \<Rightarrow> string option \<Rightarrow> string \<Rightarrow> 'f agent_registry \<Rightarrow> agent_error + 'f agent_registry" where
  "register_agent I tp name f fname desc r = register_entry tp name (new_entry I name f fname desc) r"

definition get_agent :: "string \<Rightarrow> string \<Rightarrow> 'f agent_registry \<Rightarrow> 'f agent_entry option" where
  "get_agent tp name r = Option.bind (dict_get r tp) (\<lambda>d. dict_get d name)"

definition get_func :: "string \<Rightarrow> string \<Rightarrow> 'f agent_registry \<Rightarrow> 'f option" where
  "get_func tp name r = map_option entry_func (get_agent tp name r)"

definition types_listed :: "string option \<Rightarrow> string list" where
  "types_listed tp = (case tp of Some (c # cs) \<Rightarrow> [c # cs] | _ \<Rightarrow> registry_types)"

text \<open>An unknown type is a missing key.\<close>

definition entries_of :: "'f agent_registry \<Rightarrow> string \<Rightarrow> agent_error + 'f agent_entry list" where
  "entries_of r tp = (case dict_get r tp of None \<Rightarrow> Inl (Key_missing tp) | Some d \<Rightarrow> Inr (map snd d))"

definition list_agents :: "string option \<Rightarrow> 'f agent_registry \<Rightarrow> agent_error + 'f agent_entry list" where
  "list_agents tp r = bindE (mapE (entries_of r) (types_listed tp)) (\<lambda>es. Inr (sort_key entry_name (concat es)))"

definition count_agents :: "string option \<Rightarrow> 'f agent_registry \<Rightarrow> agent_error + nat" where
  "count_agents tp r = (case tp of
     Some (c # cs) \<Rightarrow> bindE (entries_of r (c # cs)) (\<lambda>es. Inr (length es))
   | _ \<Rightarrow> Inr (sum_list (map (\<lambda>(t, d). length d) r)))"

definition reset_agents :: "'f agent_registry \<Rightarrow> 'f agent_registry" where
  "reset_agents r = map (\<lambda>(t, d). (t, [])) r"

datatype spec_arg = Spec_name string | Spec_of provider_spec

definition spec_ref :: "spec_arg \<Rightarrow> string" where
  "spec_ref s = (case s of Spec_name n \<Rightarrow> n | Spec_of p \<Rightarrow> s_name p)"

definition register_runtime :: "'f callable_info \<Rightarrow> string \<Rightarrow> 'f \<Rightarrow> spec_arg option \<Rightarrow> string option \<Rightarrow> string \<Rightarrow> 'f agent_registry \<Rightarrow> agent_error + 'f agent_registry" where
  "register_runtime I name f sp fname desc r =
     register_entry ''runtime'' name ((new_entry I name f fname desc)\<lparr>entry_spec := map_option spec_ref sp\<rparr>) r"

definition runtime_descriptor :: "string \<Rightarrow> 'f agent_registry \<Rightarrow> 'c registry \<Rightarrow> provider_spec option" where
  "runtime_descriptor name r providers =
     (case get_agent ''runtime'' name r of
        None \<Rightarrow> None
      | Some e \<Rightarrow> (case entry_spec e of
            Some (c # cs) \<Rightarrow> (case spec (c # cs) providers of Inl _ \<Rightarrow> None | Inr s \<Rightarrow> Some s)
          | _ \<Rightarrow> None))"

text \<open>The decorators register under the name given or that of the function.\<close>

definition decorated :: "'f callable_info \<Rightarrow> string \<Rightarrow> string option \<Rightarrow> string option \<Rightarrow> 'f \<Rightarrow> 'f agent_registry \<Rightarrow> agent_error + 'f agent_registry" where
  "decorated I tp name fname f r =
     register_agent I tp (or_text name (case name_of I f of None \<Rightarrow> '''' | Some n \<Rightarrow> n)) f fname '''' r"

section \<open>References are live\<close>

text \<open>Attempts to register; one that is refused changes nothing.\<close>

definition attempted :: "'f agent_registry \<Rightarrow> string \<times> string \<times> 'f agent_entry \<Rightarrow> 'f agent_registry" where
  "attempted r a = (case a of (tp, name, e) \<Rightarrow> (case register_entry tp name e r of Inl _ \<Rightarrow> r | Inr r' \<Rightarrow> r'))"

lemma registered_get: "register_entry tp name e r = Inr r' \<Longrightarrow> get_agent tp name r' = Some e"
  by (auto simp: register_entry_def get_agent_def update_conv' split: option.splits if_splits)

lemma attempted_keeps: "get_agent tp name r = Some e \<Longrightarrow> get_agent tp name (attempted r a) = Some e"
  by (cases a) (auto simp: attempted_def register_entry_def get_agent_def update_conv' bind_eq_Some_conv split: option.splits if_splits)

text \<open>
  A runtime registered with a description refers to it for as long as the registry is not reset: whatever else is registered or refused afterwards, and however the
  providers change, its descriptor is what the provider registry has under that name at the time of asking.
\<close>

theorem runtime_reference_is_live:
  assumes "register_runtime I name f (Some sp) fname desc r = Inr r'" and "spec_ref sp \<noteq> ''''"
  shows "runtime_descriptor name (foldl attempted r' later) providers = (case spec (spec_ref sp) providers of Inl _ \<Rightarrow> None | Inr s \<Rightarrow> Some s)"
proof -
  have "\<exists>e. get_agent ''runtime'' name r' = Some e \<and> entry_spec e = Some (spec_ref sp)"
    using registered_get assms(1) unfolding register_runtime_def by fastforce
  then obtain e where e: "get_agent ''runtime'' name r' = Some e" "entry_spec e = Some (spec_ref sp)" by blast
  have "get_agent ''runtime'' name (foldl attempted r' later) = Some e"
    using e(1) by (induction later arbitrary: r') (simp_all add: attempted_keeps)
  then show ?thesis using e(2) assms(2) by (cases "spec_ref sp") (simp_all add: runtime_descriptor_def)
qed

definition sample_info :: "string callable_info" where
  "sample_info = \<lparr>name_of = Some, doc_of = (\<lambda>_. None)\<rparr>"

definition sample_agents :: "string agent_registry" where
  "sample_agents = [(''runtime'', [(''run'', (new_entry sample_info ''run'' ''f'' None '''')\<lparr>entry_spec := Some ''p''\<rparr>)])]"

theorem runtime_reference_is_live_witness:
  "runtime_descriptor ''run'' (foldl attempted sample_agents [(''runtime'', ''run'', new_entry sample_info ''run'' ''g'' None '''')]) (empty_registry :: unit registry) = None"
  using runtime_reference_is_live [of sample_info "''run''" "''f''" "Spec_name ''p''" None "''''" "[(''runtime'', [])]" sample_agents
      "[(''runtime'', ''run'', new_entry sample_info ''run'' ''g'' None '''')]" "empty_registry :: unit registry"]
  by (simp add: sample_agents_def register_runtime_def register_entry_def spec_ref_def spec_def empty_registry_def)

section \<open>What is not promised\<close>

text \<open>Different names can have one identifier. Dependencies are not looked at. A registry that was opened earlier overwrites what another has saved since.
  A plugin that is removed stays published. The list of all agents is in the order of names alone, because no entry has the type it is to be sorted by.\<close>

lemma plugin_ids_clash: "plugin_id ''x/a'' = plugin_id ''@x_a''"
  by (simp add: plugin_id_def)

lemma other_instance_overwrites:
  assumes "dict_get (installed s) (plugin_id n) = None" "dict_get (installed s) (plugin_id m) = None"
  shows "installed_file (fst (install m b (s\<lparr>installed_file := installed_file (fst (install n a s))\<rparr>))) = Some (dict_set (plugin_id m) (new_plugin m b) (installed s))"
  using assms by (simp add: install_def save_plugins_def Let_def)

lemma removed_stays_published: "list_marketplace t (fst (uninstall n s)) = list_marketplace t s"
  by (simp add: uninstall_def list_marketplace_def market_def save_plugins_def split: option.split)

lemma types_mixed:
  "map_sum id (map entry_name) (list_agents None [(''agent'', [(''b'', new_entry I ''b'' f None ''d'')]), (''tool'', [(''a'', new_entry I ''a'' f None ''d'')]),
      (''workflow'', []), (''plugin_agent'', []), (''plugin_tool'', []), (''runtime'', [])]) = Inr [''a'', ''b'']"
  by (simp add: list_agents_def types_listed_def registry_types_def entries_of_def new_entry_def)
end
