(* ===== verification/McpTransports.thy ===== *)
theory McpTransports
  imports Json Python_Text
begin

text \<open>
  Clients of tool servers over pipes (\<^verbatim>\<open>obase/mcp_stdio.py\<close>) and over HTTP (\<^verbatim>\<open>obase/mcp_http.py\<close>). Bytes are
  8-bit characters. Writing a document as bytes and reading bytes as a document are arguments; so is what the other side does.
\<close>

section \<open>Frames\<close>

datatype loaded = Document json | No_json | No_utf8

definition crlf :: string where
  "crlf = [CHR 0x0D, CHR 0x0A]"

definition encode_frame :: "(json \<Rightarrow> string) \<Rightarrow> json \<Rightarrow> string" where
  "encode_frame dumps j = ''Content-Length: '' @ str_nat (length (dumps j)) @ crlf @ crlf @ dumps j"

text \<open>What is not ASCII in a header is read as characters that are neither digits nor white space.\<close>

definition header_text :: "string \<Rightarrow> string" where
  "header_text h = map (\<lambda>c. if (of_char c :: nat) < 128 then c else CHR ''?'') h"

fun split_crlf :: "string \<Rightarrow> string list" where
  "split_crlf [] = [[]]"
| "split_crlf (c # cs) =
     (if c = CHR 0x0D \<and> has_prefix cs [CHR 0x0A] then [] # split_crlf (tl cs)
      else (case split_crlf cs of [] \<Rightarrow> [[c]] | p # ps \<Rightarrow> (c # p) # ps))"

text \<open>The last length given counts, and a header without one has the length 0.\<close>

definition content_length :: "string \<Rightarrow> int option" where
  "content_length h = foldl (\<lambda>r line. case r of None \<Rightarrow> None
     | Some v \<Rightarrow> if has_prefix (map lower_char line) ''content-length:'' then py_int (strip (tl (dropWhile (\<lambda>c. c \<noteq> CHR '':'') line))) else r)
     (Some 0) (split_crlf (header_text h))"

text \<open>\<^verbatim>\<open>s[a:b]\<close> and \<^verbatim>\<open>s[b:]\<close>, where a negative bound counts from the end.\<close>

definition bound_of :: "int \<Rightarrow> 'a list \<Rightarrow> nat" where
  "bound_of b s = (if b < 0 then nat (b + int (length s)) else nat b)"

definition slice_between :: "nat \<Rightarrow> int \<Rightarrow> 'a list \<Rightarrow> 'a list" where
  "slice_between a b s = take (bound_of b s - a) (drop a s)"

datatype frame_error = Bad_length | Bad_text

text \<open>The loop over the buffer: no answer means that it has not ended after so many rounds.\<close>

fun decode_frames :: "(string \<Rightarrow> loaded) \<Rightarrow> nat \<Rightarrow> json list \<Rightarrow> string \<Rightarrow> (frame_error + json list \<times> string) option" where
  "decode_frames loads 0 fs rest = None"
| "decode_frames loads (Suc n) fs rest =
     (case cut (crlf @ crlf) rest of
        None \<Rightarrow> Some (Inr (fs, rest))
      | Some (h, _) \<Rightarrow> (case content_length h of
            None \<Rightarrow> Some (Inl Bad_length)
          | Some len \<Rightarrow>
              let start = length h + 4; stop = int start + len in
              if int (length rest) < stop then Some (Inr (fs, rest))
              else (case loads (slice_between start stop rest) of
                  No_utf8 \<Rightarrow> Some (Inl Bad_text)
                | No_json \<Rightarrow> decode_frames loads n fs (drop (bound_of stop rest) rest)
                | Document j \<Rightarrow> decode_frames loads n (fs @ [j]) (drop (bound_of stop rest) rest))))"

text \<open>A round either leaves the buffer as it is, and then the loop never ends, or makes it shorter: as many rounds as the buffer has bytes and one more
  are enough for a loop that ends.\<close>

lemma stuck_never_ends:
  assumes "cut (crlf @ crlf) rest = Some (h, t)" "content_length h = Some len" "\<not> int (length rest) < int (length h + 4) + len"
    and "loads (slice_between (length h + 4) (int (length h + 4) + len) rest) \<noteq> No_utf8" "drop (bound_of (int (length h + 4) + len) rest) rest = rest"
  shows "decode_frames loads n fs rest = None"
proof (induction n arbitrary: fs)
  case (Suc n)
  then show ?case using assms by (simp add: Let_def split: loaded.splits)
qed simp

lemma enough_rounds: "decode_frames loads n fs rest = Some r \<Longrightarrow> length rest < m \<Longrightarrow> decode_frames loads m fs rest = Some r"
proof (induction n arbitrary: fs rest m)
  case (Suc n)
  obtain k where m: "m = Suc k" using Suc.prems(2) by (cases m) auto
  show ?case
  proof (cases "cut (crlf @ crlf) rest")
    case None
    then show ?thesis using Suc.prems(1) m by simp
  next
    case (Some ht)
    obtain h t where ht: "ht = (h, t)" by (cases ht)
    show ?thesis
    proof (cases "content_length h")
      case None
      then show ?thesis using Suc.prems(1) m Some ht by simp
    next
      case (Some len)
      note len = Some
      let ?stop = "int (length h + 4) + len" let ?rest = "drop (bound_of ?stop rest) rest" let ?body = "slice_between (length h + 4) ?stop rest"
      show ?thesis
      proof (cases "int (length rest) < ?stop \<or> loads ?body = No_utf8")
        case True
        then show ?thesis using Suc.prems(1) m len \<open>cut (crlf @ crlf) rest = Some ht\<close> ht by (auto simp: Let_def)
      next
        case False
        have "?rest \<noteq> rest"
        proof
          assume "?rest = rest"
          then have "decode_frames loads (Suc n) fs rest = None"
            using stuck_never_ends [of rest h t len loads "Suc n" fs] False len \<open>cut (crlf @ crlf) rest = Some ht\<close> ht by blast
          then show False using Suc.prems(1) by simp
        qed
        then have "bound_of ?stop rest \<noteq> 0" by (metis drop0)
        moreover have "rest \<noteq> []" using \<open>cut (crlf @ crlf) rest = Some ht\<close> by (auto simp: crlf_def)
        ultimately have "length ?rest < length rest" by simp
        then have l: "length ?rest < k" using Suc.prems(2) m by simp
        show ?thesis using Suc.prems(1) Suc.IH [OF _ l] m False len \<open>cut (crlf @ crlf) rest = Some ht\<close> ht
          by (auto simp: Let_def split: loaded.splits)
      qed
    qed
  qed
qed simp

definition decoded :: "(string \<Rightarrow> loaded) \<Rightarrow> string \<Rightarrow> (frame_error + json list \<times> string) option" where
  "decoded loads buf = decode_frames loads (Suc (length buf)) [] buf"

section \<open>What is sent is read\<close>

lemma cut_first: "d \<noteq> [] \<Longrightarrow> hd d \<notin> set h \<Longrightarrow> cut d (h @ d @ s) = Some (h, s)"
proof (induction h)
  case Nil
  then show ?case by (cases d) (simp_all add: has_prefix_def)
next
  case (Cons c h)
  then have "\<not> has_prefix (c # h @ d @ s) d" by (cases d) (auto simp: has_prefix_def)
  then show ?case using Cons by simp
qed

lemma cut_parts: "cut d s = Some (a, b) \<Longrightarrow> s = a @ d @ b"
proof (induction s arbitrary: a)
  case (Cons c s)
  show ?case
  proof (cases "has_prefix (c # s) d")
    case True
    then show ?thesis using Cons.prems by (auto simp: has_prefix_def) (metis append_take_drop_id)
  next
    case False
    then obtain a' where "cut d s = Some (a', b)" "a = c # a'" using Cons.prems by auto
    then show ?thesis using Cons.IH by simp
  qed
qed (simp split: if_splits)

text \<open>A part of a header and its end that is not the whole has no end.\<close>

lemma cut_incomplete:
  assumes "d \<noteq> []" "hd d \<notin> set h" "k < length (h @ d)"
  shows "cut d (take k (h @ d @ s)) = None"
proof (rule ccontr)
  assume "cut d (take k (h @ d @ s)) \<noteq> None"
  then obtain a b where ab: "take k (h @ d @ s) = a @ d @ b" using cut_parts by (metis not_None_eq surj_pair)
  then have "length (a @ d) \<le> k" by (metis append.assoc length_append length_take min.bounded_iff le_add1)
  then have "length a < length h" using assms(3) by simp
  have "0 < length d" using assms(1) by simp
  then have "length a < k" using \<open>length (a @ d) \<le> k\<close> unfolding length_append by linarith
  have "hd d = (a @ d @ b) ! length a" using assms(1) by (cases d) (simp_all add: nth_append)
  also have "\<dots> = (h @ d @ s) ! length a" unfolding ab [symmetric] using \<open>length a < k\<close> by (rule nth_take)
  also have "\<dots> = h ! length a" using \<open>length a < length h\<close> by (simp add: nth_append)
  finally have "hd d = h ! length a" .
  then show False using assms(2) \<open>length a < length h\<close> by simp
qed

lemma digit_is: "n < 10 \<Longrightarrow> is_digit (char_of (48 + n)) \<and> of_char (char_of (48 + n) :: char) = (48 + n :: nat)"
  by (simp add: is_digit_def)

lemma digits_append: "\<forall>c \<in> set xs. is_digit c \<Longrightarrow> digits_read p v (xs @ ys) = digits_read (p \<or> xs \<noteq> []) (foldl (\<lambda>v c. 10 * v + (of_char c - 48)) v xs) ys"
  by (induction xs arbitrary: p v) simp_all

lemma str_nat_digits: "(\<forall>c \<in> set (str_nat n). is_digit c) \<and> str_nat n \<noteq> [] \<and> foldl (\<lambda>v c. 10 * v + (of_char c - 48)) 0 (str_nat n) = n"
proof (induction n rule: str_nat.induct)
  case (1 n)
  show ?case
  proof (cases "n < 10")
    case True
    then show ?thesis using digit_is [of n] by (subst (1 2 3) str_nat.simps) simp
  next
    case False
    then show ?thesis using 1 digit_is [of "n mod 10"] by (subst (1 2 3) str_nat.simps) simp
  qed
qed

lemma digit_plain: "is_digit c \<Longrightarrow> \<not> white_space c \<and> c \<noteq> CHR ''-'' \<and> c \<noteq> CHR ''+'' \<and> c \<noteq> CHR 0x0D \<and> c \<noteq> CHR 0x0A \<and> (of_char c :: nat) < 128"
  by (auto simp: is_digit_def white_space_def)

lemma py_int_str: "py_int (str_nat n) = Some (int n)"
proof -
  have s: "str_nat n \<noteq> []" "\<forall>c \<in> set (str_nat n). is_digit c" using str_nat_digits [of n] by blast+
  then have "strip (str_nat n) = str_nat n" using digit_plain by (intro strip_id) simp_all
  moreover have "digits_read False 0 (str_nat n) = Some n" using digits_append [of "str_nat n" False 0 "[]"] str_nat_digits [of n] by simp
  moreover obtain c cs where "str_nat n = c # cs" using s(1) by (cases "str_nat n") auto
  ultimately show ?thesis using s(2) digit_plain [of c] by (simp add: py_int_def)
qed

definition length_line :: "nat \<Rightarrow> string" where
  "length_line n = ''Content-Length: '' @ str_nat n"

lemma length_line_chars: "c \<in> set (length_line n) \<Longrightarrow> c \<noteq> CHR 0x0D \<and> (of_char c :: nat) < 128"
  using str_nat_digits [of n] digit_plain by (auto simp: length_line_def)

lemma split_crlf_one: "CHR 0x0D \<notin> set s \<Longrightarrow> split_crlf s = [s]"
  by (induction s) auto

lemma content_length_line: "content_length (length_line n) = Some (int n)"
proof -
  have "header_text (length_line n) = length_line n" unfolding header_text_def using length_line_chars [of _ n] by (intro map_idI) auto
  moreover have "split_crlf (length_line n) = [length_line n]" using length_line_chars [of _ n] by (intro split_crlf_one) blast
  moreover have "has_prefix (map lower_char (length_line n)) ''content-length:''"
  proof -
    have "map lower_char ''Content-Length: '' = ''content-length: ''" by code_simp
    then show ?thesis by (simp add: length_line_def has_prefix_def)
  qed
  moreover have "strip (CHR '' '' # str_nat n) = str_nat n"
  proof -
    have "str_nat n \<noteq> []" "\<forall>c \<in> set (str_nat n). is_digit c" using str_nat_digits [of n] by blast+
    then show ?thesis unfolding strip_space using digit_plain by (intro strip_id) simp_all
  qed
  moreover have "tl (dropWhile (\<lambda>c. c \<noteq> CHR '':'') (length_line n)) = CHR '' '' # str_nat n" by (simp add: length_line_def)
  ultimately show ?thesis by (simp add: content_length_def py_int_str)
qed

text \<open>A buffer of whole frames and a part of another is read as those frames, and the part is kept.\<close>

definition frame_start :: "(json \<Rightarrow> string) \<Rightarrow> json list \<Rightarrow> string \<Rightarrow> bool" where
  "frame_start dumps fs r \<longleftrightarrow> (case fs of [] \<Rightarrow> r = [] | f # _ \<Rightarrow> \<exists>k < length (encode_frame dumps f). r = take k (encode_frame dumps f))"

lemma encoded: "encode_frame dumps f = length_line (length (dumps f)) @ (crlf @ crlf) @ dumps f"
  by (simp add: encode_frame_def length_line_def)

lemma header_apart: "crlf @ crlf \<noteq> [] \<and> hd (crlf @ crlf) \<notin> set (length_line n)"
  using length_line_chars [of "CHR 0x0D" n] by (auto simp: crlf_def)

lemma decode_part: "frame_start dumps fs r \<Longrightarrow> decode_frames loads (Suc n) gs r = Some (Inr (gs, r))"
proof (cases fs)
  case (Cons f fs')
  assume "frame_start dumps fs r"
  then obtain k where k: "k < length (encode_frame dumps f)" "r = take k (encode_frame dumps f)" by (auto simp: frame_start_def Cons)
  let ?h = "length_line (length (dumps f))"
  show ?thesis
  proof (cases "k < length (?h @ crlf @ crlf)")
    case True
    then have "cut (crlf @ crlf) r = None" using cut_incomplete header_apart unfolding k(2) encoded by blast
    then show ?thesis by simp
  next
    case False
    then have "take k (?h @ crlf @ crlf) = ?h @ crlf @ crlf" by (simp only: take_all_iff not_less)
    then have "take k ((?h @ crlf @ crlf) @ dumps f) = (?h @ crlf @ crlf) @ take (k - length (?h @ crlf @ crlf)) (dumps f)" by (simp only: take_append)
    then have "r = ?h @ (crlf @ crlf) @ take (k - length (?h @ crlf @ crlf)) (dumps f)" unfolding k(2) encoded by (simp only: append.assoc)
    then have "cut (crlf @ crlf) r = Some (?h, take (k - length (?h @ crlf @ crlf)) (dumps f))" using cut_first header_apart by metis
    moreover have "int (length r) < int (length ?h + 4) + int (length (dumps f))" using k unfolding encoded by (simp add: crlf_def)
    ultimately show ?thesis by (simp add: content_length_line Let_def)
  qed
qed (simp add: frame_start_def crlf_def)

lemma decode_one:
  assumes "loads (dumps f) = Document f"
  shows "decode_frames loads (Suc n) gs (encode_frame dumps f @ s) = decode_frames loads n (gs @ [f]) s"
proof -
  let ?h = "length_line (length (dumps f))" let ?b = "encode_frame dumps f @ s" let ?stop = "int (length ?h + 4) + int (length (dumps f))"
  have "?b = ?h @ (crlf @ crlf) @ dumps f @ s" unfolding encoded by simp
  then have c: "cut (crlf @ crlf) ?b = Some (?h, dumps f @ s)" using cut_first header_apart by metis
  have st: "?stop = int (length (encode_frame dumps f))" unfolding encoded by (simp add: crlf_def)
  then have bd: "bound_of ?stop ?b = length (encode_frame dumps f)" by (simp add: bound_of_def)
  have "slice_between (length ?h + 4) ?stop ?b = dumps f" unfolding slice_between_def bd unfolding encoded by (simp add: crlf_def)
  moreover have "drop (bound_of ?stop ?b) ?b = s" unfolding bd by simp
  moreover have "\<not> int (length ?b) < ?stop" unfolding st by simp
  ultimately show ?thesis using assms by (simp only: decode_frames.simps c option.case prod.case content_length_line Let_def if_False loaded.case of_nat_add [symmetric])
qed

lemma decode_all:
  assumes "\<forall>f \<in> set fs. loads (dumps f) = Document f" "frame_start dumps hs r"
  shows "decode_frames loads (Suc (length fs)) gs (concat (map (encode_frame dumps) fs) @ r) = Some (Inr (gs @ fs, r))"
  using assms(1)
proof (induction fs arbitrary: gs)
  case Nil
  then show ?case using decode_part [OF assms(2)] by simp
next
  case (Cons f fs)
  have "decode_frames loads (Suc (length (f # fs))) gs (encode_frame dumps f @ concat (map (encode_frame dumps) fs) @ r)
      = decode_frames loads (Suc (length fs)) (gs @ [f]) (concat (map (encode_frame dumps) fs) @ r)"
    using Cons.prems by (simp only: decode_one list.set_intros length_Cons)
  then show ?case using Cons by simp
qed

lemma decoded_all:
  assumes "\<forall>f \<in> set fs. loads (dumps f) = Document f" "frame_start dumps hs r"
  shows "decoded loads (concat (map (encode_frame dumps) fs) @ r) = Some (Inr (fs, r))"
  unfolding decoded_def using enough_rounds [OF decode_all [OF assms, of "[]"]] by (simp del: decode_frames.simps)

text \<open>Every beginning of a sequence of frames is some of them and the start of the next.\<close>

lemma frames_split:
  assumes "p @ q = concat (map (encode_frame dumps) fs)"
  shows "\<exists>gs hs r. fs = gs @ hs \<and> p = concat (map (encode_frame dumps) gs) @ r \<and> frame_start dumps hs r"
  using assms
proof (induction fs arbitrary: p)
  case Nil
  then show ?case by (intro exI [of _ "[]"]) (simp add: frame_start_def)
next
  case (Cons f fs)
  let ?e = "encode_frame dumps f"
  have "p @ q = ?e @ concat (map (encode_frame dumps) fs)" using Cons.prems by simp
  then obtain us where us: "p = ?e @ us \<and> us @ q = concat (map (encode_frame dumps) fs) \<or> p @ us = ?e \<and> q = us @ concat (map (encode_frame dumps) fs)"
    unfolding append_eq_append_conv2 by blast
  show ?case
  proof (cases "p @ us = ?e \<and> us \<noteq> []")
    case True
    then have "p = take (length p) ?e" "length p < length ?e" by (metis append_eq_conv_conj, metis length_append length_greater_0_conv less_add_same_cancel1)
    then show ?thesis by (intro exI [of _ "[]"] exI [of _ "f # fs"] exI [of _ p]) (auto simp: frame_start_def)
  next
    case False
    then obtain p' where p: "p = ?e @ p'" "p' @ q = concat (map (encode_frame dumps) fs)" using us by (metis append_Nil append_Nil2)
    then obtain gs hs r where "fs = gs @ hs" "p' = concat (map (encode_frame dumps) gs) @ r" "frame_start dumps hs r" using Cons.IH [OF p(2)] by blast
    then show ?thesis unfolding p(1) by (intro exI [of _ "f # gs"] exI [of _ hs] exI [of _ r]) simp
  qed
qed

section \<open>The client over pipes\<close>

datatype outcome = Answer json | Failed_request

text \<open>Requests that wait for an answer; those with a place for one, also after they were given up; and what requests came to.\<close>

record client =
  process_alive :: bool
  has_writer :: bool
  reading :: bool
  hung :: bool
  buffer :: string
  next_id :: int
  places :: "int list"
  waiting :: "int list"
  outcomes :: "(int \<times> outcome) list"
  written :: "json list"
  client_started :: bool
  stderr_tail :: "string list"

datatype request_error = Process_gone | No_writer

definition new_client :: client where
  "new_client = \<lparr>process_alive = False, has_writer = False, reading = False, hung = False, buffer = [], next_id = 1, places = [], waiting = [], outcomes = [],
     written = [], client_started = False, stderr_tail = []\<rparr>"

definition request_payload :: "int \<Rightarrow> string \<Rightarrow> jdict \<Rightarrow> json" where
  "request_payload rid meth params = JDict [(''jsonrpc'', JStr ''2.0''), (''id'', JInt rid), (''method'', JStr meth), (''params'', JDict params)]"

definition send_request :: "string \<Rightarrow> jdict \<Rightarrow> client \<Rightarrow> client \<times> (request_error + int)" where
  "send_request meth params c =
     (if \<not> process_alive c then (c, Inl Process_gone)
      else if \<not> has_writer c then (c, Inl No_writer)
      else let rid = next_id c in
        (c\<lparr>next_id := rid + 1, places := places c @ [rid], waiting := waiting c @ [rid], written := written c @ [request_payload rid meth params]\<rparr>, Inr rid))"

definition notify :: "string \<Rightarrow> jdict \<Rightarrow> client \<Rightarrow> client \<times> request_error option" where
  "notify meth params c =
     (if \<not> has_writer c then (c, Some No_writer)
      else (c\<lparr>written := written c @ [JDict [(''jsonrpc'', JStr ''2.0''), (''method'', JStr meth), (''params'', JDict params)]]\<rparr>, None))"

text \<open>A request that waited too long fails; its place stays.\<close>

definition time_out :: "int \<Rightarrow> client \<Rightarrow> client" where
  "time_out rid c = (if rid \<in> set (waiting c) then c\<lparr>waiting := filter (\<lambda>n. n \<noteq> rid) (waiting c), outcomes := outcomes c @ [(rid, Failed_request)]\<rparr> else c)"

text \<open>When the reading ends, for whatever reason, all that wait fail.\<close>

definition stop_reading :: "client \<Rightarrow> client" where
  "stop_reading c = c\<lparr>reading := False, places := [], waiting := [], outcomes := outcomes c @ map (\<lambda>n. (n, Failed_request)) (waiting c)\<rparr>"

text \<open>The integer a document is equal to; lists and objects cannot be looked up.\<close>

definition id_value :: "json \<Rightarrow> int option" where
  "id_value j = (case j of JInt n \<Rightarrow> Some n | JBool b \<Rightarrow> Some (if b then 1 else 0)
     | JFloat r \<Rightarrow> if of_int \<lfloor>r\<rfloor> = r then Some \<lfloor>r\<rfloor> else None | _ \<Rightarrow> None)"

definition hashable :: "json \<Rightarrow> bool" where
  "hashable j = (case j of JList _ \<Rightarrow> False | JDict _ \<Rightarrow> False | _ \<Rightarrow> True)"

definition resolve :: "int \<Rightarrow> jdict \<Rightarrow> client \<Rightarrow> client" where
  "resolve n d c =
     (if n \<notin> set (places c) then c
      else let c' = c\<lparr>places := filter (\<lambda>k. k \<noteq> n) (places c)\<rparr> in
        if n \<notin> set (waiting c) then c'
        else c'\<lparr>waiting := filter (\<lambda>k. k \<noteq> n) (waiting c),
               outcomes := outcomes c @ [(n, if dict_get d ''error'' = None then Answer (get_json ''result'' JNull d) else Failed_request)]\<rparr>)"

text \<open>A frame that is no object, or whose identifier cannot be looked up, raises in the reading task; a text or a list without the member does not.\<close>

definition dispatch :: "json \<Rightarrow> client \<Rightarrow> client option" where
  "dispatch f c = (case f of
       JDict d \<Rightarrow> (case dict_get d ''id'' of
           None \<Rightarrow> Some c
         | Some i \<Rightarrow> if \<not> hashable i then None else (case id_value i of None \<Rightarrow> Some c | Some n \<Rightarrow> Some (resolve n d c)))
     | JStr s \<Rightarrow> if is_infix ''id'' s then None else Some c
     | JList xs \<Rightarrow> if JStr ''id'' \<in> set xs then None else Some c
     | _ \<Rightarrow> None)"

fun dispatch_all :: "json list \<Rightarrow> client \<Rightarrow> client" where
  "dispatch_all [] c = c"
| "dispatch_all (f # fs) c = (case dispatch f c of None \<Rightarrow> stop_reading c | Some c' \<Rightarrow> dispatch_all fs c')"

text \<open>A chunk of bytes, none meaning that the other side has closed. A loop that does not end stops everything.\<close>

definition on_chunk :: "(string \<Rightarrow> loaded) \<Rightarrow> string \<Rightarrow> client \<Rightarrow> client" where
  "on_chunk loads chunk c =
     (if \<not> reading c then c
      else if chunk = [] then stop_reading c
      else (case decoded loads (buffer c @ chunk) of
          None \<Rightarrow> c\<lparr>buffer := buffer c @ chunk, reading := False, hung := True\<rparr>
        | Some (Inl _) \<Rightarrow> stop_reading (c\<lparr>buffer := buffer c @ chunk\<rparr>)
        | Some (Inr (fs, rest)) \<Rightarrow> dispatch_all fs (c\<lparr>buffer := rest\<rparr>)))"

definition on_line :: "(string \<Rightarrow> loaded) \<Rightarrow> string \<Rightarrow> client \<Rightarrow> client" where
  "on_line loads line c =
     (if \<not> reading c then c
      else if line = [] then stop_reading c
      else (case loads line of No_json \<Rightarrow> c | No_utf8 \<Rightarrow> stop_reading c | Document f \<Rightarrow> dispatch_all [f] c))"

definition drain_stderr :: "string \<Rightarrow> client \<Rightarrow> client" where
  "drain_stderr line c = (let t = stderr_tail c @ [strip (header_text line)] in c\<lparr>stderr_tail := drop (length t - 50) t\<rparr>)"

text \<open>Starting spawns the process and sends the first request; when that is answered, a notification follows.\<close>

definition initialize_params :: jdict where
  "initialize_params = [(''protocolVersion'', JStr ''2024-11-05''), (''capabilities'', JDict []),
     (''clientInfo'', JDict [(''name'', JStr ''veya-stdio-mcp''), (''version'', JStr ''0.1'')])]"

definition begin_start :: "client \<Rightarrow> client \<times> (request_error + int) option" where
  "begin_start c = (if client_started c then (c, None)
     else (case send_request ''initialize'' initialize_params (c\<lparr>process_alive := True, has_writer := True, reading := True\<rparr>) of (c', r) \<Rightarrow> (c', Some r)))"

definition end_start :: "int \<Rightarrow> client \<Rightarrow> client" where
  "end_start rid c = (case map_of (outcomes c) rid of
     Some (Answer _) \<Rightarrow> (fst (notify ''notifications/initialized'' [] c))\<lparr>client_started := True\<rparr> | _ \<Rightarrow> c)"

definition close_client :: "client \<Rightarrow> client" where
  "close_client c = (if reading c then stop_reading c else c)\<lparr>process_alive := False, client_started := False\<rparr>"

definition process_exit :: "client \<Rightarrow> client" where
  "process_exit c = c\<lparr>process_alive := False\<rparr>"

definition client_health :: "string \<Rightarrow> client \<Rightarrow> jdict" where
  "client_health name c = [(''name'', JStr name), (''alive'', JBool (process_alive c)), (''started'', JBool (client_started c)),
     (''stderr_tail'', JList (map JStr (drop (length (stderr_tail c) - 5) (stderr_tail c))))]"

text \<open>What is made of an answer.\<close>

datatype tool_failure = Failed_answer | Not_an_object

definition tools_of :: "json \<Rightarrow> tool_failure + json" where
  "tools_of res = (if \<not> truthy res then Inr (JList [])
     else (case res of JDict d \<Rightarrow> Inr (get_json ''tools'' (JList []) d) | _ \<Rightarrow> Inl Not_an_object))"

definition tool_result :: "json \<Rightarrow> tool_failure + json" where
  "tool_result res = (case res of JDict d \<Rightarrow> if truthy (get_json ''isError'' JNull d) then Inl Failed_answer else Inr res | _ \<Rightarrow> Inr res)"

section \<open>Chunks do not matter\<close>

definition proper_frame :: "json \<Rightarrow> bool" where
  "proper_frame f \<longleftrightarrow> (\<exists>d. f = JDict d \<and> (case dict_get d ''id'' of None \<Rightarrow> True | Some i \<Rightarrow> hashable i))"

lemma dispatch_proper: "proper_frame f \<Longrightarrow> dispatch f c \<noteq> None"
  by (auto simp: proper_frame_def dispatch_def split: option.splits)

lemma resolve_same: "reading (resolve n d c) = reading c \<and> buffer (resolve n d c) = buffer c \<and> resolve n d (c\<lparr>buffer := b\<rparr>) = (resolve n d c)\<lparr>buffer := b\<rparr>"
  by (simp add: resolve_def Let_def)

lemma dispatch_same: "dispatch f c = Some c' \<Longrightarrow> reading c' = reading c \<and> buffer c' = buffer c \<and> dispatch f (c\<lparr>buffer := b\<rparr>) = Some (c'\<lparr>buffer := b\<rparr>)"
proof (cases f)
  case (JDict d)
  assume a: "dispatch f c = Some c'"
  show ?thesis
  proof (cases "dict_get d ''id''")
    case (Some i)
    then show ?thesis using a JDict resolve_same by (cases "id_value i") (simp_all add: dispatch_def split: if_splits, metis+)
  qed (use a JDict in \<open>simp add: dispatch_def\<close>)
qed (auto simp: dispatch_def split: if_splits)

lemma dispatch_all_append: "\<forall>f \<in> set fs. proper_frame f \<Longrightarrow> dispatch_all (fs @ gs) c = dispatch_all gs (dispatch_all fs c)"
  by (induction fs arbitrary: c) (auto split: option.splits dest: dispatch_proper)

lemma dispatch_all_same: "\<forall>f \<in> set fs. proper_frame f \<Longrightarrow>
    reading (dispatch_all fs c) = reading c \<and> buffer (dispatch_all fs c) = buffer c \<and> dispatch_all fs (c\<lparr>buffer := b\<rparr>) = (dispatch_all fs c)\<lparr>buffer := b\<rparr>"
proof (induction fs arbitrary: c)
  case (Cons f fs)
  then obtain c' where c': "dispatch f c = Some c'" using dispatch_proper [of f c] by auto
  then show ?case using Cons dispatch_same [OF c'] by simp
qed simp

text \<open>
  C33. However the bytes of a sequence of frames are cut into chunks, the client does what it would do with the frames one by
  one, and keeps nothing in its buffer.
\<close>

theorem chunks_irrelevant:
  assumes "\<forall>f \<in> set fs. loads (dumps f) = Document f \<and> proper_frame f" and "\<forall>b \<in> set chunks. b \<noteq> []"
    and "concat chunks = concat (map (encode_frame dumps) fs)" and "reading c" and "buffer c = []"
  shows "foldl (\<lambda>c b. on_chunk loads b c) c chunks = dispatch_all fs c"
proof -
  have "foldl (\<lambda>c b. on_chunk loads b c) c' chunks = (dispatch_all hs c')\<lparr>buffer := []\<rparr>"
    if "set hs \<subseteq> set fs" "buffer c' @ concat chunks = concat (map (encode_frame dumps) hs)" "frame_start dumps hs (buffer c')" "reading c'" "\<forall>b \<in> set chunks. b \<noteq> []"
    for c' hs
    using that
  proof (induction chunks arbitrary: c' hs)
    case Nil
    have "hs = []"
    proof (cases hs)
      case (Cons f hs')
      then have "length (buffer c') < length (encode_frame dumps f)" using Nil.prems(3) by (auto simp: frame_start_def)
      moreover have "buffer c' = encode_frame dumps f @ concat (map (encode_frame dumps) hs')" using Nil.prems(2) Cons by simp
      ultimately show ?thesis by simp
    qed simp
    then show ?case using Nil.prems(3) by (simp add: frame_start_def)
  next
    case (Cons b chunks)
    obtain gs ks r where s: "hs = gs @ ks" "buffer c' @ b = concat (map (encode_frame dumps) gs) @ r" "frame_start dumps ks r"
      using frames_split [of "buffer c' @ b" "concat chunks" dumps hs] Cons.prems(2) by auto
    have gs: "\<forall>f \<in> set gs. loads (dumps f) = Document f \<and> proper_frame f" using Cons.prems(1) assms(1) s(1) by auto
    then have d: "decoded loads (buffer c' @ b) = Some (Inr (gs, r))" unfolding s(2) using decoded_all s(3) by blast
    let ?c = "dispatch_all gs (c'\<lparr>buffer := r\<rparr>)"
    have p: "\<forall>f \<in> set gs. proper_frame f" using gs by blast
    have c: "on_chunk loads b c' = ?c" using Cons.prems(4,5) d by (simp add: on_chunk_def)
    have same: "reading ?c" "buffer ?c = r" using dispatch_all_same [OF p, of "c'\<lparr>buffer := r\<rparr>" r] Cons.prems(4) by simp_all
    have "(buffer c' @ b) @ concat chunks = concat (map (encode_frame dumps) gs) @ concat (map (encode_frame dumps) ks)"
      using Cons.prems(2) s(1) by simp
    then have "r @ concat chunks = concat (map (encode_frame dumps) ks)" unfolding s(2) append.assoc by (simp only: same_append_eq)
    then have "foldl (\<lambda>c b. on_chunk loads b c) ?c chunks = (dispatch_all ks ?c)\<lparr>buffer := []\<rparr>"
      using Cons.prems(1,5) s(1,3) same by (intro Cons.IH) simp_all
    moreover have k: "\<forall>f \<in> set ks. proper_frame f" using Cons.prems(1) assms(1) s(1) by auto
    have "(dispatch_all ks ?c)\<lparr>buffer := []\<rparr> = (dispatch_all (gs @ ks) c')\<lparr>buffer := []\<rparr>"
      using dispatch_all_same [OF p, of c' r] dispatch_all_same [OF k, of "dispatch_all gs c'" r] by (simp add: dispatch_all_append [OF p])
    ultimately show ?case unfolding s(1) foldl_Cons c by simp
  qed
  then have "foldl (\<lambda>c b. on_chunk loads b c) c chunks = (dispatch_all fs c)\<lparr>buffer := []\<rparr>"
    using assms(2-5) by (auto simp: frame_start_def encode_frame_def split: list.split)
  moreover have "\<forall>f \<in> set fs. proper_frame f" using assms(1) by blast
  then have "buffer (dispatch_all fs c) = []" using dispatch_all_same [of fs c "[]"] assms(5) by simp
  ultimately show ?thesis by simp
qed

definition sample_frame :: json where
  "sample_frame = JDict [(''id'', JInt 1), (''result'', JStr ''r'')]"

definition sample_loads :: "string \<Rightarrow> loaded" where
  "sample_loads s = (if s = ''x'' then Document sample_frame else No_json)"

definition sample_client :: client where
  "sample_client = fst (send_request ''ping'' [] (new_client\<lparr>process_alive := True, has_writer := True, reading := True\<rparr>))"

theorem chunks_irrelevant_witness:
  "outcomes (foldl (\<lambda>c b. on_chunk sample_loads b c) sample_client
     [''Content-Len'', ''gth: 1'' @ [CHR 0x0D], [CHR 0x0A, CHR 0x0D, CHR 0x0A, CHR ''x'']]) = [(1, Answer (JStr ''r''))]"
proof -
  let ?chunks = "[''Content-Len'', ''gth: 1'' @ [CHR 0x0D], [CHR 0x0A, CHR 0x0D, CHR 0x0A, CHR ''x'']]"
  have f: "\<forall>f \<in> set [sample_frame]. sample_loads ((\<lambda>_. ''x'') f) = Document f \<and> proper_frame f"
    by (simp add: sample_loads_def proper_frame_def sample_frame_def hashable_def)
  have s: "str_nat 1 = ''1''" by (subst str_nat.simps) code_simp
  have c: "concat ?chunks = concat (map (encode_frame (\<lambda>_. ''x'')) [sample_frame])" by (simp add: encode_frame_def crlf_def s [unfolded One_nat_def])
  have r: "reading sample_client" "buffer sample_client = []" by (simp_all add: sample_client_def send_request_def new_client_def Let_def)
  have "foldl (\<lambda>c b. on_chunk sample_loads b c) sample_client ?chunks = dispatch_all [sample_frame] sample_client"
    using chunks_irrelevant [of "[sample_frame]" sample_loads "\<lambda>_. ''x''" ?chunks sample_client] f c r by simp
  then show ?thesis
    by (simp add: dispatch_def sample_frame_def id_value_def hashable_def resolve_def sample_client_def send_request_def new_client_def Let_def get_json_def)
qed

section \<open>Every request ends once\<close>

datatype client_event = Send string jdict | Give_up int | Chunk string | Line string | Start | Started int | Exit | Close

fun client_step :: "(string \<Rightarrow> loaded) \<Rightarrow> client_event \<Rightarrow> client \<Rightarrow> client" where
  "client_step loads (Send m p) c = fst (send_request m p c)"
| "client_step loads (Give_up n) c = time_out n c"
| "client_step loads (Chunk b) c = on_chunk loads b c"
| "client_step loads (Line l) c = on_line loads l c"
| "client_step loads Start c = fst (begin_start c)"
| "client_step loads (Started n) c = end_start n c"
| "client_step loads Exit c = process_exit c"
| "client_step loads Close c = close_client c"

definition requests_ok :: "client \<Rightarrow> bool" where
  "requests_ok c \<longleftrightarrow> distinct (map fst (outcomes c) @ waiting c) \<and> set (map fst (outcomes c) @ waiting c) = {1..<next_id c} \<and> 1 \<le> next_id c"

lemma requests_send: "requests_ok c \<Longrightarrow> requests_ok (fst (send_request m p c))"
  by (auto simp: requests_ok_def send_request_def Let_def)

lemma requests_stop: "requests_ok c \<Longrightarrow> requests_ok (stop_reading c)"
  by (simp add: requests_ok_def stop_reading_def o_def)

lemma requests_moved:
  assumes "requests_ok c" "n \<in> set (waiting c)" "outcomes c' = outcomes c @ [(n, r)]" "waiting c' = filter (\<lambda>k. k \<noteq> n) (waiting c)" "next_id c' = next_id c"
  shows "requests_ok c'"
  using assms unfolding requests_ok_def by auto

lemma requests_resolve: "requests_ok c \<Longrightarrow> requests_ok (resolve n d c)"
proof (cases "n \<in> set (places c) \<and> n \<in> set (waiting c)")
  case True
  assume "requests_ok c"
  then show ?thesis by (rule requests_moved) (use True in \<open>simp_all add: resolve_def Let_def\<close>)
next
  case False
  assume "requests_ok c"
  then show ?thesis using False by (auto simp: resolve_def Let_def requests_ok_def)
qed

lemma requests_dispatch: "requests_ok c \<Longrightarrow> requests_ok (dispatch_all fs c)"
proof (induction fs arbitrary: c)
  case (Cons f fs)
  have "requests_ok c'" if "dispatch f c = Some c'" for c'
    using that Cons.prems requests_resolve by (auto simp: dispatch_def split: json.splits option.splits if_splits)
  then show ?case using Cons requests_stop by (auto split: option.split)
qed simp

lemma requests_same: "outcomes c' = outcomes c \<Longrightarrow> waiting c' = waiting c \<Longrightarrow> next_id c' = next_id c \<Longrightarrow> requests_ok c \<Longrightarrow> requests_ok c'"
  by (simp add: requests_ok_def)

lemma requests_step: "requests_ok c \<Longrightarrow> requests_ok (client_step loads e c)"
proof (cases e)
  case (Send m p)
  assume "requests_ok c"
  then show ?thesis using Send requests_send by simp
next
  case (Give_up n)
  assume "requests_ok c"
  then show ?thesis using Give_up requests_moved [of c n "time_out n c" Failed_request] by (simp add: time_out_def)
next
  case (Chunk b)
  assume a: "requests_ok c"
  have b: "requests_ok (c\<lparr>buffer := x\<rparr>)" for x by (rule requests_same [OF _ _ _ a]) simp_all
  have "requests_ok (c\<lparr>buffer := x, reading := False, hung := True\<rparr>)" for x by (rule requests_same [OF _ _ _ a]) simp_all
  then show ?thesis using Chunk a requests_stop requests_stop [OF b] requests_dispatch [OF b] by (simp add: on_chunk_def split: option.split sum.split)
next
  case (Line l)
  assume "requests_ok c"
  then show ?thesis using Line requests_stop requests_dispatch [of c "[_]"] by (simp add: on_line_def del: dispatch_all.simps split: loaded.split)
next
  case Start
  assume a: "requests_ok c"
  then have "requests_ok (c\<lparr>process_alive := True, has_writer := True, reading := True\<rparr>)" by (rule requests_same [rotated -1]) simp_all
  from requests_send [OF this] show ?thesis using a Start by (simp add: begin_start_def case_prod_beta)
next
  case (Started n)
  assume a: "requests_ok c"
  have "requests_ok ((fst (notify m p c))\<lparr>client_started := True\<rparr>)" for m p by (rule requests_same [OF _ _ _ a]) (simp_all add: notify_def)
  then show ?thesis using Started a by (simp add: end_start_def split: option.split outcome.split)
next
  case Exit
  assume a: "requests_ok c"
  show ?thesis using Exit by (intro requests_same [OF _ _ _ a]) (simp_all add: process_exit_def)
next
  case Close
  assume a: "requests_ok c"
  then have "requests_ok (if reading c then stop_reading c else c)" using requests_stop by simp
  then show ?thesis using Close by (intro requests_same [OF _ _ _ \<open>requests_ok (if reading c then stop_reading c else c)\<close>]) (simp_all add: close_client_def)
qed

text \<open>
  Every request ends once: after any events in any order, the requests made so far are those that still wait and those that came to an outcome,
  none is both, and none has two outcomes.
\<close>

theorem every_request_ends_once:
  "distinct (map fst (outcomes (foldl (\<lambda>c e. client_step loads e c) new_client es)) @ waiting (foldl (\<lambda>c e. client_step loads e c) new_client es))
   \<and> set (map fst (outcomes (foldl (\<lambda>c e. client_step loads e c) new_client es)) @ waiting (foldl (\<lambda>c e. client_step loads e c) new_client es))
       = {1..<next_id (foldl (\<lambda>c e. client_step loads e c) new_client es)}"
proof -
  have "requests_ok c \<Longrightarrow> requests_ok (foldl (\<lambda>c e. client_step loads e c) c es)" for c
    by (induction es arbitrary: c) (simp_all add: requests_step)
  moreover have "requests_ok new_client" by (simp add: requests_ok_def new_client_def)
  ultimately show ?thesis unfolding requests_ok_def by blast
qed

text \<open>An answer is what a frame with the identifier of the request said.\<close>

lemma answers_are_sent:
  assumes "(n, Answer j) \<in> set (outcomes (dispatch_all fs c))"
  shows "(n, Answer j) \<in> set (outcomes c) \<or> (\<exists>d i. JDict d \<in> set fs \<and> dict_get d ''id'' = Some i \<and> id_value i = Some n \<and> dict_get d ''error'' = None \<and> j = get_json ''result'' JNull d)"
  using assms
proof (induction fs arbitrary: c)
  case (Cons f fs)
  show ?case
  proof (cases "dispatch f c")
    case None
    then show ?thesis using Cons.prems by (auto simp: stop_reading_def)
  next
    case (Some c')
    have "(n, Answer j) \<in> set (outcomes c) \<or> (\<exists>d i. JDict d = f \<and> dict_get d ''id'' = Some i \<and> id_value i = Some n \<and> dict_get d ''error'' = None \<and> j = get_json ''result'' JNull d)"
      if "(n, Answer j) \<in> set (outcomes c')"
    proof (cases f)
      case (JDict d)
      show ?thesis
      proof (cases "dict_get d ''id''")
        case None
        then show ?thesis using Some that JDict by (simp add: dispatch_def)
      next
        case (Some i)
        then show ?thesis using \<open>dispatch f c = Some c'\<close> that JDict
          by (cases "id_value i") (auto simp: dispatch_def resolve_def Let_def split: if_splits)
      qed
    qed (use Some that in \<open>auto simp: dispatch_def split: if_splits\<close>)
    then show ?thesis using Cons.IH [of c'] Cons.prems Some by auto
  qed
qed simp

section \<open>What the pipes do not promise\<close>

text \<open>A negative length that leads back to the start of the buffer keeps the client, and with it the event loop, busy for ever.\<close>

definition evil_header :: string where
  "evil_header = ''Content-Length: -23'' @ crlf @ crlf"

lemma evil_header_hangs: "loads '''' = No_json \<Longrightarrow> decode_frames loads n [] (evil_header @ s) = None"
proof (rule stuck_never_ends)
  have "CHR 0x0D \<notin> set ''Content-Length: -23''" by simp
  then show "cut (crlf @ crlf) (evil_header @ s) = Some (''Content-Length: -23'', s)"
    using cut_first [of "crlf @ crlf" "''Content-Length: -23''" s] by (simp add: evil_header_def crlf_def)
  show "content_length ''Content-Length: -23'' = Some (- 23)" by code_simp
  show "\<not> int (length (evil_header @ s)) < int (length ''Content-Length: -23'' + 4) + - 23" by simp
  show "drop (bound_of (int (length ''Content-Length: -23'' + 4) + - 23) (evil_header @ s)) (evil_header @ s) = evil_header @ s" by (simp add: bound_of_def)
  assume "loads '''' = No_json"
  then show "loads (slice_between (length ''Content-Length: -23'' + 4) (int (length ''Content-Length: -23'' + 4) + - 23) (evil_header @ s)) \<noteq> No_utf8"
    by (simp add: slice_between_def bound_of_def)
qed

text \<open>A length that is no number ends the reading, with the frames before it lost, while the process lives on: a later request is sent and no answer to it is
  read. The place of a request that was given up stays, also when the answer never comes.\<close>

lemma bad_length_loses_frames: "decode_frames loads 1 gs (''Content-Length: x'' @ crlf @ crlf @ s) = Some (Inl Bad_length)"
proof -
  have "cut (crlf @ crlf) (''Content-Length: x'' @ (crlf @ crlf) @ s) = Some (''Content-Length: x'', s)"
    by (rule cut_first) (simp_all add: crlf_def)
  moreover have "content_length ''Content-Length: x'' = None" by code_simp
  ultimately show ?thesis by simp
qed

lemma deaf_client: "\<not> reading c \<Longrightarrow> process_alive c \<Longrightarrow> has_writer c \<Longrightarrow>
    snd (send_request m p c) = Inr (next_id c) \<and> foldl (\<lambda>c b. on_chunk loads b c) (fst (send_request m p c)) bs = fst (send_request m p c)"
proof -
  have s: "foldl (\<lambda>c b. on_chunk loads b c) c' bs = c'" if "\<not> reading c'" for c' using that by (induction bs) (simp_all add: on_chunk_def)
  assume "\<not> reading c" "process_alive c" "has_writer c"
  then show ?thesis using s [of "fst (send_request m p c)"] by (simp add: send_request_def Let_def)
qed

lemma place_kept: "places (time_out n c) = places c"
  by (simp add: time_out_def)

section \<open>Over HTTP\<close>

datatype http_error = Bad_json | Not_parsable | Bad_event | Status_error int | Protocol_error | Tool_error | No_object

text \<open>The text of an answer: an object, or lines of events of which the last datum counts.\<close>

definition last_data :: "string list \<Rightarrow> string option" where
  "last_data ls = foldl (\<lambda>p l. let l = strip l in if has_prefix l ''data:'' then Some (strip (drop 5 l)) else p) None ls"

definition parse_sse_or_json :: "(string \<Rightarrow> json option) \<Rightarrow> string \<Rightarrow> http_error + json" where
  "parse_sse_or_json loads t =
     (let t = strip t in
      if has_prefix t ''{'' then (case loads t of None \<Rightarrow> Inl Bad_json | Some j \<Rightarrow> Inr j)
      else (case last_data (split_lines [] t) of
          None \<Rightarrow> Inl Not_parsable
        | Some p \<Rightarrow> (case loads p of None \<Rightarrow> Inl Bad_event | Some j \<Rightarrow> Inr j)))"

record http_client =
  extra_headers :: "(string, string) dict"
  opened :: bool
  session :: "string option"
  next_rid :: int
  http_started :: bool

record http_answer =
  status :: int
  session_header :: "string option"
  answer_text :: string

definition base_headers :: "http_client \<Rightarrow> (string, string) dict" where
  "base_headers c = dict_update [(''Content-Type'', ''application/json''), (''Accept'', ''application/json, text/event-stream'')] (extra_headers c)"

definition session_headers :: "http_client \<Rightarrow> (string, string) dict" where
  "session_headers c = (case session c of Some (x # xs) \<Rightarrow> dict_set ''Mcp-Session-Id'' (x # xs) (base_headers c) | _ \<Rightarrow> base_headers c)"

definition ok_status :: "http_answer \<Rightarrow> bool" where
  "ok_status a \<longleftrightarrow> status a = 200 \<or> status a = 202"

definition http_start :: "http_answer \<Rightarrow> http_client \<Rightarrow> http_client \<times> http_error option" where
  "http_start a c =
     (if http_started c then (c, None)
      else let c = c\<lparr>opened := True\<rparr> in
        if \<not> ok_status a then (c, Some (Status_error (status a)))
        else (c\<lparr>session := (case session_header a of Some (x # xs) \<Rightarrow> Some (x # xs) | _ \<Rightarrow> session c), http_started := True\<rparr>, None))"

definition http_close :: "http_client \<Rightarrow> http_client" where
  "http_close c = c\<lparr>opened := False, http_started := False\<rparr>"

definition http_health :: "string \<Rightarrow> string \<Rightarrow> http_client \<Rightarrow> jdict" where
  "http_health name endpoint c = [(''name'', JStr name), (''started'', JBool (http_started c)),
     (''session'', JBool (session c \<notin> {None, Some ''''})), (''endpoint'', JStr endpoint)]"

text \<open>A request, which starts the client first; the answers to the start and to the request are given by the headers and the payload sent.\<close>

type_synonym http_server = "(string, string) dict \<Rightarrow> json \<Rightarrow> http_answer"

definition http_initialize :: json where
  "http_initialize = JDict [(''jsonrpc'', JStr ''2.0''), (''id'', JInt 0), (''method'', JStr ''initialize''),
     (''params'', JDict [(''protocolVersion'', JStr ''2025-03-26''), (''capabilities'', JDict []),
        (''clientInfo'', JDict [(''name'', JStr ''veya-http-mcp''), (''version'', JStr ''0.1'')])])]"

definition http_request :: "(string \<Rightarrow> json option) \<Rightarrow> http_server \<Rightarrow> string \<Rightarrow> jdict \<Rightarrow> http_client \<Rightarrow> http_client \<times> (http_error + json)" where
  "http_request loads srv meth params c =
     (case http_start (srv (base_headers c) http_initialize) c of
        (c, Some e) \<Rightarrow> (c, Inl e)
      | (c, None) \<Rightarrow>
          let a = srv (session_headers c) (request_payload (next_rid c) meth params);
              c = c\<lparr>next_rid := next_rid c + 1\<rparr>
          in if \<not> ok_status a then (c, Inl (Status_error (status a)))
             else (c, bindE (parse_sse_or_json loads (answer_text a)) (\<lambda>p. case p of
                 JDict d \<Rightarrow> if dict_get d ''error'' \<noteq> None then Inl Protocol_error else Inr (get_json ''result'' JNull d)
               | _ \<Rightarrow> Inl No_object)))"

text \<open>An error in the answer to the start is not seen. The session outlives the connection it was for. An event of several lines is read as its last
  line, and an accepted request without a body is an error.\<close>

lemma failed_start_counts: "\<not> http_started c \<Longrightarrow> http_started (fst (http_start \<lparr>status = 200, session_header = None, answer_text = t\<rparr> c))"
  by (simp add: http_start_def ok_status_def Let_def)

lemma session_survives_close:
  assumes "session c = Some (x # xs)"
  shows "session (fst (http_start \<lparr>status = 200, session_header = None, answer_text = t\<rparr> (http_close c))) = Some (x # xs)"
  using assms by (simp add: http_start_def http_close_def ok_status_def Let_def)

lemma event_cut_to_last_line:
  "last_data (split_lines [] (''data: {'' @ [CHR 0x0A] @ ''data: }'')) = Some ''}''"
  by code_simp

lemma accepted_without_body: "parse_sse_or_json loads '''' = Inl Not_parsable"
  by (simp add: parse_sse_or_json_def strip_def has_prefix_def last_data_def)

end
