(* ===== verification/Spec2Isabelle.thy ===== *)
theory Spec2Isabelle
  imports Workflow WaitForGraph LeaseQueue Quota Cost Breaker Retry RateLimit SignalBus Pipeline
    RunbookFiles Capability ToolGovernance Symbols PopulationGenome HardenedExecutor HarnessAdapter
    IpSafety SessionToken AcpAdapter A2aAdapter MarketHistory Uuid7 EvidenceLedger PersistentStore
    Channels HierarchicalContext MemoryQueue CommerceSchema SqlBuilders SymbolicRuntime
    ContainerPool LocalSandbox MemoryStores MemoryBank VectorMemory GraphPages TsWriter LlmCallers
    McpClients TeamRegistry KnowledgeStore SnapshotStore ToolSchemas CacheLock AgentRegistries
    McpTransports Python_Text RunState Runbook EventSink EventStore
begin

text \<open>
  obase is the infrastructure layer of a Python agent platform: the parts that keep state, decide
  and recover, beneath the agents themselves. This library models those parts and proves what they
  promise. Paths below are relative to \<^verbatim>\<open>src/obase/\<close>. Every theory opens with the file it models; its
  definitions have the names of the code's functions, in the code's order.

  \<^bold>\<open>Shared vocabulary.\<close> \<^verbatim>\<open>Obase_Prelude\<close> (insertion ordered dictionaries as association lists,
  slices, decimal texts), \<^verbatim>\<open>Python_Text\<close> (the text methods of Python over 8-bit texts),
  \<^verbatim>\<open>Json\<close> (documents, decoding with errors as values), \<^verbatim>\<open>Uuid7\<close> (uuid7.py: identifiers ordered
  by time).

  \<^bold>\<open>Orchestration.\<close> \<^verbatim>\<open>Workflow\<close> (workflow_engine.py): cycle detection, layering, execution with
  failure policies; the layering is exact and execution respects dependencies. \<^verbatim>\<open>RunState\<close>,
  \<^verbatim>\<open>Pipeline\<close>, \<^verbatim>\<open>Runbook\<close> (orchestrator.py): stored run states, linear pipelines whose
  resumption from the saved document is transparent, runbook runs that only ever walk edges whose checks passed.
  \<^verbatim>\<open>RunbookFiles\<close> (runbook_loader.py, runbook_runtime.py, sandbox/): parsing definitions, hooks, the
  check runner and its path jail. \<^verbatim>\<open>WaitForGraph\<close> (wfg_deadlock_detector.py): deadlock detection
  and victim selection. \<^verbatim>\<open>SignalBus\<close> (hitl_signal_bus.py): human approvals and interrupts, as a
  step relation over threads whose writes and reads of a record's fields interleave. \<^verbatim>\<open>HarnessValues\<close>, \<^verbatim>\<open>HarnessAdapter\<close>
  (harness_adapter.py): results and activities of command line agents, the life of a run against
  its cancellation, registration through the provider registry. \<^verbatim>\<open>AcpAdapter\<close>, \<^verbatim>\<open>A2aAdapter\<close>
  (acp_adapter.py, a2a_adapter.py): sessions and tasks of agent protocols against cancellation.
  \<^verbatim>\<open>Channels\<close> (channel_adapter.py): messages of chat services. \<^verbatim>\<open>ContainerPool\<close>
  (docker_pool.py): containers acquired and released, in parts between awaits.

  \<^bold>\<open>Durability.\<close> \<^verbatim>\<open>LeaseQueue\<close> (durable_lease_queue.py): leases, expiry, retries, as transactions on a
  table with adversarial interleaving. \<^verbatim>\<open>EventSink\<close>, \<^verbatim>\<open>EventStore\<close>, \<^verbatim>\<open>Quota\<close> (loop_event_store.py):
  the hash-chained log with idempotent appends, its verification, migration, and the quota tracker
  as a projection of it, both for texts without the line ends that cut a row; the tracker uses the log through the locale of \<^verbatim>\<open>EventSink\<close>.
  \<^verbatim>\<open>PopulationGenome\<close> (population_genome_store.py): a bounded population with eviction.
  \<^verbatim>\<open>EvidenceLedger\<close> (evidence_ledger.py): records addressed by content in a locked file.
  \<^verbatim>\<open>VersionStore\<close>, \<^verbatim>\<open>PersistentStore\<close> (versionstore/, persistent_store.py): snapshots of files and
  the assets kept in them, which refine an append-only log; the client uses the snapshots through a locale.
  \<^verbatim>\<open>CacheLock\<close> (cache.py): a cache in files that is invisible, and a lock with a lease on a server.
  \<^verbatim>\<open>HierarchicalContext\<close>, \<^verbatim>\<open>MemoryQueue\<close> (hierarchical_context.py, debounced_memory_queue.py):
  texts in layers with budgets, writes that wait for quiet.

  \<^bold>\<open>Tables.\<close> \<^verbatim>\<open>KeyedStores\<close> (kv_store.py, checkpoint_store.py) states as a locale what a table with a
  primary key owes a map; \<^verbatim>\<open>MemoryStores\<close> (cognitive_store.py) and \<^verbatim>\<open>MemoryBank\<close> (memory_bank.py)
  interpret it too and add retrieval, \<^verbatim>\<open>VectorMemory\<close> (vector_memory.py) ranks by words.
  \<^verbatim>\<open>GraphPages\<close> (graph_storage.py): nodes of a graph as pages whose first line reads back.
  \<^verbatim>\<open>KnowledgeStore\<close> (knowledge_store.py): texts with headers that are read back; \<^verbatim>\<open>SnapshotStore\<close>
  (snapshot_store.py): versions of states and their differences.
  \<^verbatim>\<open>TsWriter\<close> (ts_writer/): statements with named parameters, all in one transaction or none.
  \<^verbatim>\<open>Ddl\<close>, \<^verbatim>\<open>CommerceSchema\<close>, \<^verbatim>\<open>SqlBuilders\<close> (persistence/, commerce_batch_schema.py): statements
  as text with parameters, and the order in which a schema is built.

  \<^bold>\<open>Resilience and cost.\<close> \<^verbatim>\<open>Breaker\<close> (circuit_breaker.py), \<^verbatim>\<open>Retry\<close> (retry.py), \<^verbatim>\<open>RateLimit\<close>
  (rate_limit.py), \<^verbatim>\<open>Cost\<close> (cost_tracker.py).

  \<^bold>\<open>Protection.\<close> \<^verbatim>\<open>Capability\<close> (permission_contract.py): signed tokens over base64, revocation on disk.
  \<^verbatim>\<open>ResourceLimits\<close>, \<^verbatim>\<open>EgressSandbox\<close>, \<^verbatim>\<open>HardenedExecutor\<close> (resource_limits.py,
  zero_egress_sandbox.py, hardened_executor.py): the execution substrate, composed of the token
  check, the breaker and the limiter above, with its audit. \<^verbatim>\<open>ToolGovernance\<close>
  (tool_governance.py): records and redaction. \<^verbatim>\<open>IpSafety\<close> (ssrf_safe_network.py, http/): requests
  pinned to addresses that were checked. \<^verbatim>\<open>SessionToken\<close> (signed_token_session.py): signed sessions.
  \<^verbatim>\<open>SymbolicRuntime\<close> (sympy_runtime.py): which expressions are evaluated, and the bounded wait for
  the process that does it. \<^verbatim>\<open>LocalSandbox\<close> (local_sandbox_pool.py): probes around untrusted code.

  \<^bold>\<open>Providers and symbols.\<close> \<^verbatim>\<open>ProviderRouting\<close>, \<^verbatim>\<open>ProviderRegistry\<close> (provider_routing.py,
  provider_registry.py): descriptions in normal form and the registry, which refines first-wins
  tables through a locale interpreted at each kind of table. \<^verbatim>\<open>Symbols\<close>
  (symbol_normalize/normalize.py): canonical trading symbols. \<^verbatim>\<open>MarketHistory\<close>
  (market_history.py): histories under concurrent fetches and a cache.
  \<^verbatim>\<open>LlmCallers\<close> (llm.py): requests and answers of language models, and which caller is the default.
  \<^verbatim>\<open>McpClients\<close> (mcp_client.py): connections to tool servers, their contracts and skills.
  \<^verbatim>\<open>McpTransports\<close> (mcp_stdio.py, mcp_http.py): frames in a stream of bytes, requests and what they come to.
  \<^verbatim>\<open>AgentRegistries\<close> (plugin_registry.py, agent_registry.py): plugins as a table on disk through the locale of
  \<^verbatim>\<open>KeyedStores\<close>, and agents whose references to providers are live.
  \<^verbatim>\<open>ToolSchemas\<close> (tool_registry/): tools, their documentation and the schemas made of it.
  \<^verbatim>\<open>TeamRegistry\<close> (team_registry.py): teams of agents in files, their tasks and inboxes.

  \<^bold>\<open>Conventions.\<close> A Python dictionary is an association list with distinct keys in insertion order;
  a float is a rational, so rounding of the machine is not modelled; a text has 8-bit characters and
  its case mapping is that of ASCII; a JSON text is the document it encodes, except where the text
  itself is hashed, encoded or cut into lines, and where saving it loses something. The clock, fresh identifiers, hashing, signatures, the operating
  system and callables passed in are arguments; what is assumed of them is a named hypothesis,
  discharged at a concrete function in the witness. Raised exceptions are values of a sum type; a
  value of a type the code does not expect is the error \<open>Ill_typed\<close>. Logging is left out. Code that
  other threads or processes can interleave with is split at its locks, transactions or awaits, and
  its properties quantify over all interleavings of those steps.

  \<^bold>\<open>Termination and fuel.\<close> Retry loops recurse on the attempts that remain. The graph searches are
  total with the number of unvisited nodes as measure, upgrading a stored row with its distance to
  the current version, eviction with the size of the population. Waiting in the rate limiter
  consumes a given list of clock readings; its liveness theorem says which list is long enough. The
  wait for a computing process ends after one poll more than twenty per second of its limit.

  \<^bold>\<open>Not modelled.\<close> Wrappers whose behaviour is that of a program outside the repository: model and
  browser clients, the container service itself, solvers, media, cryptographic libraries, message and
  database servers, remote market data; of the symbolic runtime the mathematics of its library, which is an
  argument. The manifest lists each such file with its reason.
\<close>

end
